(* ===== verification/Prelude.thy ===== *)
theory Prelude
  imports Complex_Main "HOL-Library.AList" "HOL-Library.Char_ord" "HOL-Library.List_Lexorder"
    "HOL-Library.Sublist"
begin

text \<open>
  What the component theories share.

  \<^item> Go strings are byte strings: \<^typ>\<open>string\<close> is a list of 8-bit characters, compared
    lexicographically by byte (as Go's \<open><\<close> on strings and SQLite's BINARY collation do).
    The functions of package \<open>strings\<close> that the sources use are defined here.
  \<^item> A Go map is an association list; its order stands for the (unspecified) iteration order,
    so a theorem about every list is a theorem about every order. The laws the clients rely on
    are the locale \<open>finite_map\<close>, interpreted on the association lists.
  \<^item> An SQL table is the list of its rows. \<open>UPDATE .. WHERE\<close>, \<open>DELETE .. WHERE\<close>,
    \<open>SELECT\<close> of one row and the number of affected rows are the functions \<open>sql_update\<close>,
    \<open>sql_delete\<close>, \<open>sql_row\<close> and \<open>rows_affected\<close>. A table whose primary key is all of its
    columns (the deny, allow and grant tables) is a set of pairs.
  \<^item> \<open>time.Time\<close> is the number of nanoseconds since the zero time of Go (1 January of year 1),
    a \<open>time.Duration\<close> a number of nanoseconds.
\<close>

named_theorems go_str \<open>evaluation of the string functions\<close>
named_theorems sql \<open>reading a table after a write\<close>

section \<open>Identifiers, results, time\<close>

type_synonym id = string

type_synonym ('e, 'a) result = "'e + 'a"

definition bind_result :: "('e, 'a) result \<Rightarrow> ('a \<Rightarrow> ('e, 'b) result) \<Rightarrow> ('e, 'b) result" where
  "bind_result r f = (case r of Inl e \<Rightarrow> Inl e | Inr a \<Rightarrow> f a)"

definition is_ok :: "('e, 'a) result \<Rightarrow> bool" where
  "is_ok r = (case r of Inl _ \<Rightarrow> False | Inr _ \<Rightarrow> True)"

type_synonym time = int
type_synonym duration = int

definition second :: duration where "second = 1000000000"
definition minute :: duration where "minute = 60 * second"
definition hour :: duration where "hour = 60 * minute"

text \<open>\<open>time.Unix(s, 0)\<close>, and \<open>t.Unix()\<close> which rounds down to whole seconds.\<close>

definition epoch_seconds :: int where "epoch_seconds = 62135596800"

definition unix_time :: "int \<Rightarrow> time" where
  "unix_time s = (s + epoch_seconds) * second"

definition to_unix :: "time \<Rightarrow> int" where
  "to_unix t = t div second - epoch_seconds"

definition max_int64 :: int where "max_int64 = 2 ^ 63 - 1"
definition min_int64 :: int where "min_int64 = - (2 ^ 63)"

text \<open>Two's complement wrap-around of an \<open>int64\<close> result.\<close>

definition wrap64 :: "int \<Rightarrow> int" where
  "wrap64 x = (x + 2 ^ 63) mod 2 ^ 64 - 2 ^ 63"

section \<open>Strings\<close>

text \<open>The UTF-8 encodings of the code points \<open>unicode.IsSpace\<close> accepts.\<close>

definition space_runes :: "string list" where
  "space_runes =
     [[CHR 0x20], [CHR 0x09], [CHR 0x0A], [CHR 0x0B], [CHR 0x0C], [CHR 0x0D],
      [CHR 0xC2, CHR 0x85], [CHR 0xC2, CHR 0xA0], [CHR 0xE1, CHR 0x9A, CHR 0x80],
      [CHR 0xE2, CHR 0x80, CHR 0x80], [CHR 0xE2, CHR 0x80, CHR 0x81], [CHR 0xE2, CHR 0x80, CHR 0x82],
      [CHR 0xE2, CHR 0x80, CHR 0x83], [CHR 0xE2, CHR 0x80, CHR 0x84], [CHR 0xE2, CHR 0x80, CHR 0x85],
      [CHR 0xE2, CHR 0x80, CHR 0x86], [CHR 0xE2, CHR 0x80, CHR 0x87], [CHR 0xE2, CHR 0x80, CHR 0x88],
      [CHR 0xE2, CHR 0x80, CHR 0x89], [CHR 0xE2, CHR 0x80, CHR 0x8A], [CHR 0xE2, CHR 0x80, CHR 0xA8],
      [CHR 0xE2, CHR 0x80, CHR 0xA9], [CHR 0xE2, CHR 0x80, CHR 0xAF], [CHR 0xE2, CHR 0x81, CHR 0x9F],
      [CHR 0xE3, CHR 0x80, CHR 0x80]]"

definition strip_rune :: "string list \<Rightarrow> string \<Rightarrow> string option" where
  "strip_rune rs s =
     (case find (\<lambda>r. r \<noteq> [] \<and> prefix r s) rs of None \<Rightarrow> None | Some r \<Rightarrow> Some (drop (length r) s))"

lemma strip_rune_shorter [simp]: "strip_rune rs s = Some s' \<Longrightarrow> length s' < length s"
  by (auto simp: strip_rune_def find_Some_iff prefix_def split: option.splits)

function trim_front :: "string list \<Rightarrow> string \<Rightarrow> string" where
  "trim_front rs s = (case strip_rune rs s of None \<Rightarrow> s | Some s' \<Rightarrow> trim_front rs s')"
  by pat_completeness auto
termination
  by (relation "measure (\<lambda>(rs, s). length s)") auto

declare trim_front.simps [simp del]

text \<open>\<open>strings.TrimSpace\<close>.\<close>

definition trim_space :: "string \<Rightarrow> string" where
  "trim_space s =
     rev (trim_front (map rev space_runes) (rev (trim_front space_runes s)))"

text \<open>\<open>strings.HasPrefix\<close>, \<open>strings.TrimPrefix\<close>, \<open>strings.CutPrefix\<close>.\<close>

definition cut_prefix :: "string \<Rightarrow> string \<Rightarrow> string option" where
  "cut_prefix p s = (if prefix p s then Some (drop (length p) s) else None)"

definition trim_prefix :: "string \<Rightarrow> string \<Rightarrow> string" where
  "trim_prefix p s = (if prefix p s then drop (length p) s else s)"

text \<open>\<open>strings.Cut\<close> and \<open>strings.Split\<close> with a separator of one byte.\<close>

definition cut_at :: "char \<Rightarrow> string \<Rightarrow> (string \<times> string) option" where
  "cut_at c s = (if c \<in> set s
     then Some (takeWhile (\<lambda>x. x \<noteq> c) s, tl (dropWhile (\<lambda>x. x \<noteq> c) s)) else None)"

fun split_on :: "char \<Rightarrow> string \<Rightarrow> string list" where
  "split_on c [] = [[]]"
| "split_on c (x # xs) =
     (if x = c then [] # split_on c xs
      else (case split_on c xs of [] \<Rightarrow> [[x]] | y # ys \<Rightarrow> (x # y) # ys))"

text \<open>\<open>strings.TrimRight(s, "-")\<close> for one cut character.\<close>

definition trim_right_char :: "char \<Rightarrow> string \<Rightarrow> string" where
  "trim_right_char c s = rev (dropWhile (\<lambda>x. x = c) (rev s))"

definition is_lower :: "char \<Rightarrow> bool" where
  "is_lower c \<longleftrightarrow> CHR ''a'' \<le> c \<and> c \<le> CHR ''z''"

definition is_upper :: "char \<Rightarrow> bool" where
  "is_upper c \<longleftrightarrow> CHR ''A'' \<le> c \<and> c \<le> CHR ''Z''"

definition is_digit :: "char \<Rightarrow> bool" where
  "is_digit c \<longleftrightarrow> CHR ''0'' \<le> c \<and> c \<le> CHR ''9''"

definition is_alnum :: "char \<Rightarrow> bool" where
  "is_alnum c \<longleftrightarrow> is_lower c \<or> is_upper c \<or> is_digit c"

definition is_hex :: "char \<Rightarrow> bool" where
  "is_hex c \<longleftrightarrow> is_digit c \<or> (CHR ''a'' \<le> c \<and> c \<le> CHR ''f'')"

text \<open>The identifiers \<open>NewID\<close> makes: eight random bytes in lower-case hexadecimal.\<close>

definition hex_id :: "id \<Rightarrow> bool" where
  "hex_id s \<longleftrightarrow> length s = 16 \<and> list_all is_hex s"

text \<open>\<open>strings.ToLower\<close> on ASCII; bytes of multi-byte code points are kept.\<close>

definition lower_char :: "char \<Rightarrow> char" where
  "lower_char c = (if is_upper c then char_of (of_char c + (32::nat)) else c)"

definition to_lower :: "string \<Rightarrow> string" where
  "to_lower s = map lower_char s"

text \<open>Decimal printing, the verb \<open>%d\<close>, and the reading of a digit string.\<close>

definition digit_char :: "nat \<Rightarrow> char" where
  "digit_char d = char_of (48 + d)"

fun show_nat :: "nat \<Rightarrow> string" where
  "show_nat n = (if n < 10 then [digit_char n] else show_nat (n div 10) @ [digit_char (n mod 10)])"

declare show_nat.simps [simp del]

definition show_int :: "int \<Rightarrow> string" where
  "show_int i = (if i < 0 then CHR ''-'' # show_nat (nat (- i)) else show_nat (nat i))"

definition digit_val :: "char \<Rightarrow> nat" where
  "digit_val c = of_char c - 48"

definition read_digits :: "string \<Rightarrow> nat" where
  "read_digits s = foldl (\<lambda>n c. 10 * n + digit_val c) 0 s"

section \<open>String lemmas\<close>

lemma split_on_nonempty [simp]: "split_on c s \<noteq> []"
  by (induction s) (auto split: list.splits)

lemma split_on_no_sep: "c \<notin> set s \<Longrightarrow> split_on c s = [s]"
  by (induction s) auto

lemma split_on_append_sep:
  "c \<notin> set s \<Longrightarrow> split_on c (s @ c # t) = s # split_on c t"
  by (induction s) auto

lemma cut_prefix_append [simp, go_str]: "cut_prefix p (p @ s) = Some s"
  by (simp add: cut_prefix_def)

lemma cut_prefix_Some: "cut_prefix p s = Some r \<longleftrightarrow> s = p @ r"
  by (auto simp: cut_prefix_def prefix_def)

lemma cut_at_append [simp, go_str]: "c \<notin> set s \<Longrightarrow> cut_at c (s @ c # t) = Some (s, t)"
proof -
  assume c: "c \<notin> set s"
  have "takeWhile (\<lambda>x. x \<noteq> c) (s @ c # t) = s"
    using c by (induction s) auto
  moreover have "dropWhile (\<lambda>x. x \<noteq> c) (s @ c # t) = c # t"
    using c by (induction s) auto
  ultimately show ?thesis by (simp add: cut_at_def)
qed

lemma trim_right_char_empty [simp]: "trim_right_char c [] = []"
  by (simp add: trim_right_char_def)

lemma set_trim_right_char: "set (trim_right_char c s) \<subseteq> set s"
  by (auto simp: trim_right_char_def dest: set_dropWhileD)

lemma trim_front_none: "strip_rune rs s = None \<Longrightarrow> trim_front rs s = s"
  by (subst trim_front.simps) simp

text \<open>An alphanumeric byte starts and ends no white-space code point, so a string framed by such
  bytes is its own trimmed form.\<close>

lemma strip_rune_none:
  assumes "list_all (\<lambda>r. \<not> is_alnum (hd r)) rs" and "s = [] \<or> is_alnum (hd s)"
  shows "strip_rune rs s = None"
proof -
  have "\<not> (r \<noteq> [] \<and> prefix r s)" if "r \<in> set rs" for r
    using assms that by (cases r; cases s) (auto simp: list_all_iff)
  then have "find (\<lambda>r. r \<noteq> [] \<and> prefix r s) rs = None"
    by (auto simp: find_None_iff)
  then show ?thesis by (simp add: strip_rune_def)
qed

lemma space_runes_not_alnum:
  "list_all (\<lambda>r. \<not> is_alnum (hd r)) space_runes"
  "list_all (\<lambda>r. \<not> is_alnum (hd r)) (map rev space_runes)"
  by code_simp+

lemma trim_space_id:
  assumes "s = [] \<or> is_alnum (hd s) \<and> is_alnum (last s)"
  shows "trim_space s = s"
proof -
  have "trim_front space_runes s = s"
    using assms by (intro trim_front_none strip_rune_none space_runes_not_alnum) auto
  moreover have "trim_front (map rev space_runes) (rev s) = rev s"
    using assms by (intro trim_front_none strip_rune_none space_runes_not_alnum) (auto simp: hd_rev)
  ultimately show ?thesis by (simp add: trim_space_def)
qed

lemma hex_id_no_char: "hex_id s \<Longrightarrow> \<not> is_hex c \<Longrightarrow> c \<notin> set s"
  by (auto simp: hex_id_def list_all_iff)

lemma hex_id_Nil [simp]: "\<not> hex_id []"
  by (simp add: hex_id_def)

lemma not_hex_chars [simp]:
  "\<not> is_hex CHR '':''" "\<not> is_hex CHR ''-''" "\<not> is_hex CHR ''@''" "\<not> is_hex CHR ''.''"
  "\<not> is_hex CHR ''r''" "\<not> is_hex CHR ''_''" "\<not> is_hex CHR ''>''"
  by code_simp+

text \<open>A separator outside both prefixes splits a string in one way.\<close>

lemma sep_append_eq:
  fixes c :: char
  shows "c \<notin> set s \<Longrightarrow> c \<notin> set s' \<Longrightarrow> s @ c # t = s' @ c # t' \<longleftrightarrow> s = s' \<and> t = t'"
  by (metis cut_at_append option.inject prod.inject)

lemma digit_val_char [simp]: "d < 10 \<Longrightarrow> digit_val (digit_char d) = d"
  by (simp add: digit_val_def digit_char_def)

lemma is_digit_char_all: "list_all (\<lambda>d. is_digit (digit_char d)) [0..<10]"
  by code_simp

lemma is_digit_char [simp]: "d < 10 \<Longrightarrow> is_digit (digit_char d)"
  using is_digit_char_all by (simp add: list_all_iff)

lemma read_digits_show_nat [simp]: "read_digits (show_nat n) = n"
proof (induction n rule: show_nat.induct)
  case (1 n)
  then show ?case
    by (subst show_nat.simps) (simp add: read_digits_def)
qed

lemma show_nat_inj [simp]: "show_nat m = show_nat n \<longleftrightarrow> m = n"
  by (metis read_digits_show_nat)

lemma show_nat_digits: "list_all is_digit (show_nat n)"
proof (induction n rule: show_nat.induct)
  case (1 n)
  then show ?case
    by (subst show_nat.simps) simp
qed

lemma show_nat_nonempty [simp]: "show_nat n \<noteq> []"
  by (subst show_nat.simps) simp

lemma show_nat_no_char: "\<not> is_digit c \<Longrightarrow> c \<notin> set (show_nat n)"
  using show_nat_digits [of n] by (auto simp: list_all_iff)

lemma show_int_inj [simp]: "show_int i = show_int j \<longleftrightarrow> i = j"
proof -
  have "\<not> is_digit CHR ''-''" by code_simp
  then have "CHR ''-'' # s \<noteq> show_nat n" for s n
    using show_nat_no_char [of "CHR ''-''" n] by (metis list.set_intros(1))
  then show ?thesis
    by (auto simp: show_int_def) (metis)+
qed

section \<open>Association lists as finite maps\<close>

text \<open>
  The interface of a Go map: read, write, delete, and a \<open>range\<close> loop that deletes what fails a
  test. \<open>keys\<close> counts the entries once each, as \<open>len\<close> does.
\<close>

locale finite_map =
  fixes get :: "'m \<Rightarrow> 'k \<Rightarrow> 'v option"
    and put :: "'k \<Rightarrow> 'v \<Rightarrow> 'm \<Rightarrow> 'm"
    and del :: "'k \<Rightarrow> 'm \<Rightarrow> 'm"
    and keep :: "('k \<Rightarrow> 'v \<Rightarrow> bool) \<Rightarrow> 'm \<Rightarrow> 'm"
    and invar :: "'m \<Rightarrow> bool"
  assumes get_put: "get (put k v m) = (get m)(k \<mapsto> v)"
    and get_del: "get (del k m) = (get m)(k := None)"
    and get_keep: "invar m \<Longrightarrow>
      get (keep P m) k = (case get m k of None \<Rightarrow> None | Some v \<Rightarrow> if P k v then Some v else None)"
    and invar_put: "invar m \<Longrightarrow> invar (put k v m)"
    and invar_del: "invar m \<Longrightarrow> invar (del k m)"
    and invar_keep: "invar m \<Longrightarrow> invar (keep P m)"
begin

lemma get_put_same: "get (put k v m) k = Some v"
  by (simp add: get_put)

lemma get_put_other: "k' \<noteq> k \<Longrightarrow> get (put k v m) k' = get m k'"
  by (simp add: get_put)

lemma put_put: "get (put k v (put k w m)) = get (put k v m)"
  by (simp add: get_put)

lemma get_keep_Some: "invar m \<Longrightarrow> get (keep P m) k = Some v \<longleftrightarrow> get m k = Some v \<and> P k v"
  by (auto simp: get_keep split: option.splits)

lemma keep_keep: "invar m \<Longrightarrow> get (keep P (keep Q m)) = get (keep (\<lambda>k v. P k v \<and> Q k v) m)"
  by (rule ext) (auto simp: get_keep invar_keep split: option.splits)

end

type_synonym ('k, 'v) gomap = "('k \<times> 'v) list"

definition gm_keep :: "('k \<Rightarrow> 'v \<Rightarrow> bool) \<Rightarrow> ('k, 'v) gomap \<Rightarrow> ('k, 'v) gomap" where
  "gm_keep P m = filter (\<lambda>(k, v). P k v) m"

definition gm_ok :: "('k, 'v) gomap \<Rightarrow> bool" where
  "gm_ok m \<longleftrightarrow> distinct (map fst m)"

lemma map_of_filter_distinct:
  "distinct (map fst m) \<Longrightarrow>
   map_of (filter (\<lambda>(k, v). P k v) m) k =
     (case map_of m k of None \<Rightarrow> None | Some v \<Rightarrow> if P k v then Some v else None)"
proof (induction m)
  case Nil
  then show ?case by simp
next
  case (Cons e m)
  obtain a b where e: "e = (a, b)" by (cases e)
  show ?case
  proof (cases "a = k")
    case True
    with Cons.prems e have "map_of m k = None"
      by (force simp: map_of_eq_None_iff)
    with Cons True e show ?thesis by simp
  next
    case False
    with Cons e show ?thesis by simp
  qed
qed

lemma distinct_map_filter_fst: "distinct (map fst m) \<Longrightarrow> distinct (map fst (filter P m))"
  by (induction m) auto

interpretation gm: finite_map map_of AList.update AList.delete gm_keep gm_ok
  by unfold_locales
     (auto simp: gm_ok_def gm_keep_def update_conv' delete_conv' distinct_update distinct_delete
        map_of_filter_distinct distinct_map_filter_fst)

lemma gm_get_put [simp]: "map_of (AList.update k v m) = (map_of m)(k \<mapsto> v)"
  by (rule gm.get_put)

lemma gm_get_del [simp]: "map_of (AList.delete k m) = (map_of m)(k := None)"
  by (rule gm.get_del)

lemma gm_ok_Nil [simp]: "gm_ok []"
  by (simp add: gm_ok_def)

lemma gm_keep_length: "length (gm_keep P m) \<le> length m"
  by (simp add: gm_keep_def)

lemmas gm_ok_intros [simp, intro] = gm.invar_put gm.invar_del gm.invar_keep

section \<open>SQL tables\<close>

definition sql_row :: "('r \<Rightarrow> bool) \<Rightarrow> 'r list \<Rightarrow> 'r option" where
  "sql_row P t = find P t"

definition sql_update :: "('r \<Rightarrow> bool) \<Rightarrow> ('r \<Rightarrow> 'r) \<Rightarrow> 'r list \<Rightarrow> 'r list" where
  "sql_update P f t = map (\<lambda>r. if P r then f r else r) t"

definition sql_delete :: "('r \<Rightarrow> bool) \<Rightarrow> 'r list \<Rightarrow> 'r list" where
  "sql_delete P t = filter (\<lambda>r. \<not> P r) t"

definition rows_affected :: "('r \<Rightarrow> bool) \<Rightarrow> 'r list \<Rightarrow> nat" where
  "rows_affected P t = length (filter P t)"

text \<open>The rows a pair of a two-column key table relates to a first column, and the writes to
  such a table.\<close>

definition rel_of :: "('a \<times> 'b) set \<Rightarrow> 'a \<Rightarrow> 'b set" where
  "rel_of t a = snd ` Set.filter (\<lambda>p. fst p = a) t"

definition rel_to :: "('a \<times> 'b) set \<Rightarrow> 'b \<Rightarrow> 'a set" where
  "rel_to t b = fst ` Set.filter (\<lambda>p. snd p = b) t"

lemma in_rel_of [simp, sql]: "b \<in> rel_of t a \<longleftrightarrow> (a, b) \<in> t"
  by (force simp: rel_of_def)

lemma in_rel_to [simp, sql]: "a \<in> rel_to t b \<longleftrightarrow> (a, b) \<in> t"
  by (force simp: rel_to_def)

text \<open>\<open>DELETE .. WHERE\<close> one of the two columns has a value.\<close>

definition drop_fst :: "'a \<Rightarrow> ('a \<times> 'b) set \<Rightarrow> ('a \<times> 'b) set" where
  "drop_fst a t = Set.filter (\<lambda>p. fst p \<noteq> a) t"

definition drop_snd :: "'b \<Rightarrow> ('a \<times> 'b) set \<Rightarrow> ('a \<times> 'b) set" where
  "drop_snd b t = Set.filter (\<lambda>p. snd p \<noteq> b) t"

lemma in_drop_fst [simp, sql]: "p \<in> drop_fst a t \<longleftrightarrow> p \<in> t \<and> fst p \<noteq> a"
  by (simp add: drop_fst_def)

lemma in_drop_snd [simp, sql]: "p \<in> drop_snd b t \<longleftrightarrow> p \<in> t \<and> snd p \<noteq> b"
  by (simp add: drop_snd_def)

lemma drop_subset [simp]: "drop_fst a t \<subseteq> t" "drop_snd b t \<subseteq> t"
  by auto

lemma rel_of_Un [simp]: "rel_of (s \<union> t) a = rel_of s a \<union> rel_of t a"
  by auto

lemma rel_of_insert: "rel_of (insert (a, b) t) c = (if a = c then insert b (rel_of t c) else rel_of t c)"
  by auto

lemma rel_of_drop_fst [simp]: "rel_of (drop_fst a t) c = (if a = c then {} else rel_of t c)"
  by auto

text \<open>An empty string is stored as \<open>NULL\<close>, and read back as the empty string.\<close>

definition nullIfEmpty :: "string \<Rightarrow> string option" where
  "nullIfEmpty s = (if s = [] then None else Some s)"

definition coalesce :: "string option \<Rightarrow> string" where
  "coalesce s = (case s of None \<Rightarrow> [] | Some v \<Rightarrow> v)"

lemma coalesce_nullIfEmpty [simp]: "coalesce (nullIfEmpty s) = s"
  by (simp add: coalesce_def nullIfEmpty_def)

lemma coalesce_simps [simp]: "coalesce None = []" "coalesce (Some s) = s"
  by (simp_all add: coalesce_def)

lemma finite_rel_of: "finite t \<Longrightarrow> finite (rel_of t a)"
  by (simp add: rel_of_def)

lemma rows_affected_0 [simp]: "rows_affected P t = 0 \<longleftrightarrow> (\<forall>r\<in>set t. \<not> P r)"
  by (auto simp: rows_affected_def filter_empty_conv)

lemma rows_affected_pos: "0 < rows_affected P t \<longleftrightarrow> (\<exists>r\<in>set t. P r)"
  by (auto simp: rows_affected_def filter_empty_conv)

lemma set_sql_update [sql]: "set (sql_update P f t) = (\<lambda>r. if P r then f r else r) ` set t"
  by (simp add: sql_update_def)

lemma sql_update_none: "\<forall>r\<in>set t. \<not> P r \<Longrightarrow> sql_update P f t = t"
  unfolding sql_update_def by (rule map_idI) simp

lemma sql_update_append [simp]: "sql_update P f (s @ t) = sql_update P f s @ sql_update P f t"
  by (simp add: sql_update_def)

lemma sql_update_Cons [simp]: "sql_update P f (r # t) = (if P r then f r else r) # sql_update P f t"
  by (simp add: sql_update_def)

lemma set_sql_delete [sql]: "set (sql_delete P t) = {r \<in> set t. \<not> P r}"
  by (auto simp: sql_delete_def)

lemma length_sql_update [simp]: "length (sql_update P f t) = length t"
  by (simp add: sql_update_def)

lemma sql_update_key [simp]:
  "(\<And>r. P r \<Longrightarrow> key (f r) = key r) \<Longrightarrow> map key (sql_update P f t) = map key t"
  by (auto simp: sql_update_def)

lemma sql_row_Some: "sql_row P t = Some r \<Longrightarrow> r \<in> set t \<and> P r"
  by (auto simp: sql_row_def find_Some_iff)

lemma sql_row_None: "sql_row P t = None \<longleftrightarrow> (\<forall>r\<in>set t. \<not> P r)"
  by (auto simp: sql_row_def find_None_iff)

text \<open>Reading by primary key. With distinct keys a row is the row of its key, and an update of
  the row with one key leaves the others alone.\<close>

lemma sql_row_append: "sql_row P (s @ t) = (case sql_row P s of None \<Rightarrow> sql_row P t | Some r \<Rightarrow> Some r)"
  by (induction s) (auto simp: sql_row_def)

lemma sql_row_key:
  assumes "distinct (map key t)" and "r \<in> set t"
  shows "sql_row (\<lambda>x. key x = key r) t = Some r"
proof -
  obtain r' where r': "sql_row (\<lambda>x. key x = key r) t = Some r'"
    using assms(2) by (cases "sql_row (\<lambda>x. key x = key r) t") (auto simp: sql_row_None)
  then have "r' \<in> set t" "key r' = key r" using sql_row_Some by force+
  with assms have "r' = r" by (auto simp: distinct_map inj_on_def)
  with r' show ?thesis by simp
qed

lemma sql_row_update_same:
  assumes "\<And>r. key (f r) = key r"
  shows "sql_row (\<lambda>r. key r = k) (sql_update (\<lambda>r. key r = k) f t)
       = map_option f (sql_row (\<lambda>r. key r = k) t)"
  using assms by (induction t) (auto simp: sql_row_def sql_update_def)

lemma sql_row_update_other:
  assumes "\<And>r. key (f r) = key r" and "k' \<noteq> k"
  shows "sql_row (\<lambda>r. key r = k') (sql_update (\<lambda>r. key r = k) f t) = sql_row (\<lambda>r. key r = k') t"
  using assms by (induction t) (auto simp: sql_row_def sql_update_def)

section \<open>Results\<close>

lemma bind_result_Inr [simp]: "bind_result (Inr a) f = f a"
  by (simp add: bind_result_def)

lemma bind_result_Inl [simp]: "bind_result (Inl e) f = Inl e"
  by (simp add: bind_result_def)

lemma bind_result_eq_Inr:
  "bind_result r f = Inr b \<longleftrightarrow> (\<exists>a. r = Inr a \<and> f a = Inr b)"
  by (cases r) auto

lemma is_ok_simps [simp]: "is_ok (Inr a)" "\<not> is_ok (Inl e)"
  by (simp_all add: is_ok_def)

lemma to_unix_unix_time [simp]: "to_unix (unix_time s) = s"
  by (simp add: to_unix_def unix_time_def second_def)

lemma wrap64_id: "min_int64 \<le> x \<Longrightarrow> x \<le> max_int64 \<Longrightarrow> wrap64 x = x"
  by (simp add: wrap64_def min_int64_def max_int64_def)

lemma find_SomeD: "find P xs = Some x \<Longrightarrow> x \<in> set xs \<and> P x"
  by (auto simp: find_Some_iff)

end
