(* ===== verification/SecretBox.thy ===== *)
theory SecretBox
  imports Prelude
begin

text \<open>
  Package \<open>secret\<close> (\<open>core/internal/secret/secret.go\<close>): sealing of small secrets at rest, and the
  key rotation of \<open>core/internal/store/rotate.go\<close>.

  AES-GCM and SHA-256 are arguments: an AEAD is a record of its nonce size and its two operations,
  and \<open>aead_ok\<close> is what the code relies on (opening what was sealed under the same nonce and
  additional data gives the plaintext back). Random nonces are arguments of \<open>Seal\<close>. The unpadded
  base64 of the stored form is defined in full.
\<close>

section \<open>Base64, standard alphabet, no padding\<close>

definition b64_alphabet :: string where
  "b64_alphabet = ''ABCDEFGHIJKLMNOPQRSTUVWXYZabcdefghijklmnopqrstuvwxyz0123456789+/''"

definition b64_char :: "nat \<Rightarrow> char" where
  "b64_char i = b64_alphabet ! i"

fun index_of :: "char \<Rightarrow> string \<Rightarrow> nat option" where
  "index_of c [] = None"
| "index_of c (x # xs) = (if c = x then Some 0 else map_option Suc (index_of c xs))"

definition b64_val :: "char \<Rightarrow> nat option" where
  "b64_val c = index_of c b64_alphabet"

type_synonym bytes = "nat list"

definition byte_ok :: "nat \<Rightarrow> bool" where
  "byte_ok b \<longleftrightarrow> b < 256"

text \<open>\<open>base64.RawStdEncoding.EncodeToString\<close>.\<close>

fun b64_encode :: "bytes \<Rightarrow> string" where
  "b64_encode [] = []"
| "b64_encode [a] = [b64_char (a div 4), b64_char (a mod 4 * 16)]"
| "b64_encode [a, b] =
     [b64_char (a div 4), b64_char (a mod 4 * 16 + b div 16), b64_char (b mod 16 * 4)]"
| "b64_encode (a # b # c # xs) =
     [b64_char (a div 4), b64_char (a mod 4 * 16 + b div 16),
      b64_char (b mod 16 * 4 + c div 64), b64_char (c mod 64)] @ b64_encode xs"

text \<open>
  \<open>base64.RawStdEncoding.DecodeString\<close>: line breaks are skipped, a character outside the alphabet
  or a lone last character is an error, surplus low bits of the last group are ignored.
\<close>

fun b64_groups :: "nat list \<Rightarrow> bytes option" where
  "b64_groups [] = Some []"
| "b64_groups [w] = None"
| "b64_groups [w, x] = Some [w * 4 + x div 16]"
| "b64_groups [w, x, y] = Some [w * 4 + x div 16, x mod 16 * 16 + y div 4]"
| "b64_groups (w # x # y # z # rest) =
     map_option (\<lambda>bs. [w * 4 + x div 16, x mod 16 * 16 + y div 4, y mod 4 * 64 + z] @ bs)
       (b64_groups rest)"

definition b64_vals :: "string \<Rightarrow> nat list option" where
  "b64_vals s = those (map b64_val (filter (\<lambda>c. c \<noteq> CHR 0x0A \<and> c \<noteq> CHR 0x0D) s))"

definition b64_decode :: "string \<Rightarrow> bytes option" where
  "b64_decode s = (case b64_vals s of None \<Rightarrow> None | Some vs \<Rightarrow> b64_groups vs)"

section \<open>The box\<close>

record aead =
  aead_nonce_size :: nat
  aead_seal :: "bytes \<Rightarrow> string \<Rightarrow> string \<Rightarrow> bytes"
  aead_open :: "bytes \<Rightarrow> bytes \<Rightarrow> string \<Rightarrow> string option"

record box =
  box_aead :: "aead option"
  box_key_id :: string

datatype box_error =
    KeyTooShort
  | NoKey
  | Malformed
  | DifferentKey string string
  | MalformedBase64
  | TooShort
  | DecryptFailed string

definition plainPrefix :: string where "plainPrefix = ''plain:''"
definition encPrefix :: string where "encPrefix = ''enc:v1:''"
definition MinKeyLen :: nat where "MinKeyLen = 16"

text \<open>\<open>NewBox\<close>: \<open>gcm\<close> is AES-GCM under the SHA-256 of the key, \<open>key_id\<close> the hex fingerprint
  of the key.\<close>

definition NewBox :: "(string \<Rightarrow> aead) \<Rightarrow> (string \<Rightarrow> string) \<Rightarrow> string \<Rightarrow> (box_error, box) result" where
  "NewBox gcm key_id key =
     (if key = [] then Inr \<lparr>box_aead = None, box_key_id = []\<rparr>
      else if length key < MinKeyLen then Inl KeyTooShort
      else Inr \<lparr>box_aead = Some (gcm key), box_key_id = key_id key\<rparr>)"

definition Enabled :: "box \<Rightarrow> bool" where
  "Enabled b \<longleftrightarrow> box_aead b \<noteq> None"

definition Seal :: "box \<Rightarrow> bytes \<Rightarrow> string \<Rightarrow> string \<Rightarrow> string" where
  "Seal b nonce name v =
     (case box_aead b of
        None \<Rightarrow> plainPrefix @ v
      | Some a \<Rightarrow> encPrefix @ box_key_id b @ '':'' @
          b64_encode (nonce @ aead_seal a nonce v name))"

definition Owns :: "box \<Rightarrow> string \<Rightarrow> bool" where
  "Owns b stored =
     (case cut_prefix encPrefix stored of
        None \<Rightarrow> False
      | Some rest \<Rightarrow>
          Enabled b \<and>
          (case cut_at CHR '':'' rest of None \<Rightarrow> False | Some (kid, _) \<Rightarrow> kid = box_key_id b))"

definition Open :: "box \<Rightarrow> string \<Rightarrow> string \<Rightarrow> (box_error, string) result" where
  "Open b name stored =
     (case cut_prefix plainPrefix stored of
        Some rest \<Rightarrow> Inr rest
      | None \<Rightarrow>
     (case cut_prefix encPrefix stored of
        None \<Rightarrow> Inr stored
      | Some rest \<Rightarrow>
     (case cut_at CHR '':'' rest of
        None \<Rightarrow> Inl Malformed
      | Some (kid, payload) \<Rightarrow>
     (case box_aead b of
        None \<Rightarrow> Inl NoKey
      | Some a \<Rightarrow>
          if kid \<noteq> box_key_id b then Inl (DifferentKey kid (box_key_id b))
          else (case b64_decode payload of
                  None \<Rightarrow> Inl MalformedBase64
                | Some raw \<Rightarrow>
                    if length raw < aead_nonce_size a then Inl TooShort
                    else (case aead_open a (take (aead_nonce_size a) raw)
                                 (drop (aead_nonce_size a) raw) name of
                            None \<Rightarrow> Inl (DecryptFailed name)
                          | Some pt \<Rightarrow> Inr pt))))))"

definition IsEncrypted :: "string \<Rightarrow> bool" where
  "IsEncrypted stored \<longleftrightarrow> prefix encPrefix stored"

text \<open>What the code relies on of AES-GCM: bytes come out, and opening inverts sealing.\<close>

definition aead_ok :: "aead \<Rightarrow> bool" where
  "aead_ok a \<longleftrightarrow>
     (\<forall>n v ad. length n = aead_nonce_size a \<longrightarrow>
        list_all byte_ok (aead_seal a n v ad) \<and> aead_open a n (aead_seal a n v ad) ad = Some v)"

text \<open>A sealed value opens only under the additional data it was sealed with.\<close>

definition aead_binds :: "aead \<Rightarrow> bool" where
  "aead_binds a \<longleftrightarrow>
     (\<forall>n v ad ad'. length n = aead_nonce_size a \<and> ad' \<noteq> ad \<longrightarrow>
        aead_open a n (aead_seal a n v ad) ad' = None)"

definition box_ok :: "box \<Rightarrow> bool" where
  "box_ok b \<longleftrightarrow>
     CHR '':'' \<notin> set (box_key_id b) \<and>
     (case box_aead b of None \<Rightarrow> True | Some a \<Rightarrow> aead_ok a)"

definition nonce_ok :: "box \<Rightarrow> bytes \<Rightarrow> bool" where
  "nonce_ok b nonce \<longleftrightarrow>
     list_all byte_ok nonce \<and>
     (case box_aead b of None \<Rightarrow> True | Some a \<Rightarrow> length nonce = aead_nonce_size a)"

section \<open>Rotation\<close>

text \<open>
  The columns that hold ciphertext, with the key columns of the row: one constructor per entry of
  \<open>sealedColumns\<close>, in its order. \<open>sealed_aad\<close> is the additional data the entry rebuilds from
  the key (the functions \<open>aad\<close>, \<open>configAAD\<close>, \<open>probeAAD\<close>, \<open>skeletonAAD\<close>,
  \<open>credentialAAD\<close>, \<open>alertAAD\<close>, \<open>mfaAAD\<close>, \<open>deviceAAD\<close>, \<open>subTokenAAD\<close>,
  \<open>relayAAD\<close> and \<open>egressAAD\<close>).
\<close>

datatype sealed_key =
    VariableComponent id string
  | NodeConfigKey id int
  | NodeProbeKey id int
  | NodeSkeletonKey id
  | CredentialKey id
  | AlertTargetKey id
  | MfaCredentialKey id
  | UserDeviceKey id string
  | SubTokenKey id
  | NodeRelayKey id
  | EgressRuleKey id

fun sealed_aad :: "sealed_key \<Rightarrow> string" where
  "sealed_aad (VariableComponent v c) = v @ '':'' @ c"
| "sealed_aad (NodeConfigKey n i) = ''node-config:'' @ n @ '':'' @ show_int i"
| "sealed_aad (NodeProbeKey n i) = ''node-probe:'' @ n @ '':'' @ show_int i"
| "sealed_aad (NodeSkeletonKey n) = ''node-skeleton:'' @ n"
| "sealed_aad (CredentialKey c) = ''credential:'' @ c"
| "sealed_aad (AlertTargetKey a) = ''alert-target:'' @ a"
| "sealed_aad (MfaCredentialKey m) = ''mfa-credential:'' @ m"
| "sealed_aad (UserDeviceKey u h) = ''user-device:'' @ u @ '':'' @ h"
| "sealed_aad (SubTokenKey u) = ''sub-token:'' @ u"
| "sealed_aad (NodeRelayKey r) = ''node-relay:'' @ r"
| "sealed_aad (EgressRuleKey r) = ''egress-rule:'' @ r"

text \<open>The row identifier in a key; every one comes from \<open>NewID\<close>.\<close>

fun sealed_id :: "sealed_key \<Rightarrow> id" where
  "sealed_id (VariableComponent v c) = v"
| "sealed_id (NodeConfigKey n i) = n"
| "sealed_id (NodeProbeKey n i) = n"
| "sealed_id (NodeSkeletonKey n) = n"
| "sealed_id (CredentialKey c) = c"
| "sealed_id (AlertTargetKey a) = a"
| "sealed_id (MfaCredentialKey m) = m"
| "sealed_id (UserDeviceKey u h) = u"
| "sealed_id (SubTokenKey u) = u"
| "sealed_id (NodeRelayKey r) = r"
| "sealed_id (EgressRuleKey r) = r"

text \<open>
  One stored value: whether its row satisfies the column's \<open>where\<close> clause, its key, and the
  value. The database is the list of its sealed columns; the key columns are primary keys, so an
  update by key is an update of that row.
\<close>

record cell =
  cell_where :: bool
  cell_key :: sealed_key
  cell_value :: string

abbreviation cell_aad :: "cell \<Rightarrow> string" where
  "cell_aad c \<equiv> sealed_aad (cell_key c)"

datatype rotate_error = EmptyKey | OpeningFailed box_error

fun rotateColumn ::
  "box \<Rightarrow> box \<Rightarrow> (sealed_key \<Rightarrow> bytes) \<Rightarrow> cell list \<Rightarrow> (rotate_error, nat \<times> cell list) result" where
  "rotateColumn old nxt rnd [] = Inr (0, [])"
| "rotateColumn old nxt rnd (c # cs) =
     (if cell_value c = [] \<or> \<not> cell_where c \<or> Owns nxt (cell_value c)
      then bind_result (rotateColumn old nxt rnd cs) (\<lambda>(n, cs'). Inr (n, c # cs'))
      else (case Open old (cell_aad c) (cell_value c) of
              Inl e \<Rightarrow> Inl (OpeningFailed e)
            | Inr plain \<Rightarrow>
                bind_result (rotateColumn old nxt rnd cs)
                  (\<lambda>(n, cs'). Inr (Suc n,
                     c\<lparr>cell_value := Seal nxt (rnd (cell_key c)) (cell_aad c) plain\<rparr> # cs'))))"

fun rotate_columns ::
  "box \<Rightarrow> box \<Rightarrow> (sealed_key \<Rightarrow> bytes) \<Rightarrow> cell list list \<Rightarrow> (rotate_error, nat \<times> cell list list) result" where
  "rotate_columns old nxt rnd [] = Inr (0, [])"
| "rotate_columns old nxt rnd (col # cols) =
     bind_result (rotateColumn old nxt rnd col)
       (\<lambda>(n, col'). bind_result (rotate_columns old nxt rnd cols)
          (\<lambda>(m, cols'). Inr (n + m, col' # cols')))"

text \<open>\<open>rnd\<close> gives the fresh nonce of each value. \<open>RotateSecretKey\<close> runs in one transaction: an error leaves the database as it was. The
  second component is the database after the call.\<close>

definition RotateSecretKey ::
  "box \<Rightarrow> box \<Rightarrow> (sealed_key \<Rightarrow> bytes) \<Rightarrow> cell list list \<Rightarrow> (rotate_error, nat) result \<times> cell list list" where
  "RotateSecretKey old nxt rnd db =
     (if \<not> Enabled nxt then (Inl EmptyKey, db)
      else (case rotate_columns old nxt rnd db of
              Inl e \<Rightarrow> (Inl e, db)
            | Inr (n, db') \<Rightarrow> (Inr n, db')))"

section \<open>Lemmas\<close>

lemma b64_alphabet_length: "length b64_alphabet = 64"
  by code_simp

lemma b64_val_char_all:
  "list_all (\<lambda>i. b64_val (b64_char i) = Some i \<and> b64_char i \<noteq> CHR 0x0A \<and>
      b64_char i \<noteq> CHR 0x0D \<and> b64_char i \<noteq> CHR '':'') [0..<64]"
  by code_simp

lemma b64_val_char [simp]:
  assumes "i < 64"
  shows "b64_val (b64_char i) = Some i" "b64_char i \<noteq> CHR 0x0A" "b64_char i \<noteq> CHR 0x0D"
proof -
  have "i \<in> set [0..<64]" using assms by simp
  then show "b64_val (b64_char i) = Some i" "b64_char i \<noteq> CHR 0x0A" "b64_char i \<noteq> CHR 0x0D"
    using b64_val_char_all unfolding list_all_iff by blast+
qed

lemma b64_vals_Nil [simp]: "b64_vals [] = Some []"
  by (simp add: b64_vals_def)

lemma b64_vals_char [simp]:
  "i < 64 \<Longrightarrow> b64_vals (b64_char i # s) = map_option ((#) i) (b64_vals s)"
  by (simp add: b64_vals_def)

lemma byte_div_bounds [simp]:
  "byte_ok a \<Longrightarrow> a div 4 < 64"
  "byte_ok b \<Longrightarrow> a mod 4 * 16 + b div 16 < 64"
  "byte_ok c \<Longrightarrow> b mod 16 * 4 + c div 64 < 64"
  "a mod 4 * 16 < 64" "b mod 16 * 4 < 64" "c mod 64 < (64::nat)"
proof -
  have mods: "a mod 4 < 4" "b mod 16 < 16" by simp_all
  show "byte_ok a \<Longrightarrow> a div 4 < 64" by (simp add: byte_ok_def)
  show "a mod 4 * 16 + b div 16 < 64" if "byte_ok b"
  proof -
    have "b div 16 < 16" using that by (simp add: byte_ok_def)
    then show ?thesis using mods by linarith
  qed
  show "b mod 16 * 4 + c div 64 < 64" if "byte_ok c"
  proof -
    have "c div 64 < 4" using that by (simp add: byte_ok_def)
    then show ?thesis using mods by linarith
  qed
  show "a mod 4 * 16 < 64" "b mod 16 * 4 < 64" using mods by linarith+
qed simp

lemma byte_regroup [simp]:
  "a div 4 * 4 + (a mod 4 * 16 + b div 16) div 16 = a" if "b < 256" for a b :: nat
proof -
  have "b div 16 < 16" using that by simp
  then have "(a mod 4 * 16 + b div 16) div 16 = a mod 4" by simp
  then show ?thesis by simp
qed

lemma byte_regroup_mid [simp]:
  "(a mod 4 * 16 + b div 16) mod 16 * 16 + (b mod 16 * 4 + c div 64) div 4 = b"
  if "b < 256" "c < 256" for a b c :: nat
proof -
  have "b div 16 < 16" "c div 64 < 4" using that by simp_all
  then have "(a mod 4 * 16 + b div 16) mod 16 = b div 16"
    "(b mod 16 * 4 + c div 64) div 4 = b mod 16" by simp_all
  then show ?thesis by simp
qed

lemma byte_regroup_low [simp]:
  "(b mod 16 * 4 + c div 64) mod 4 * 64 + c mod 64 = c" if "c < 256" for b c :: nat
proof -
  have "c div 64 < 4" using that by simp
  then have "(b mod 16 * 4 + c div 64) mod 4 = c div 64" by simp
  then show ?thesis by simp
qed

lemma byte_regroup_short [simp]:
  "a div 4 * 4 + a mod 4 * 16 div 16 = (a::nat)"
  "b < 256 \<Longrightarrow> (a mod 4 * 16 + b div 16) mod 16 * 16 + b mod 16 * 4 div 4 = (b::nat)"
proof -
  show "(a mod 4 * 16 + b div 16) mod 16 * 16 + b mod 16 * 4 div 4 = b" if "b < 256"
  proof -
    have "b div 16 < 16" using that by simp
    then have "(a mod 4 * 16 + b div 16) mod 16 = b div 16" by simp
    then show ?thesis by simp
  qed
qed simp

lemma b64_decode_encode: "list_all byte_ok bs \<Longrightarrow> b64_decode (b64_encode bs) = Some bs"
proof (induction bs rule: b64_encode.induct)
  case (4 a b c xs)
  then have "b64_decode (b64_encode xs) = Some xs" by simp
  with 4 show ?case
    by (auto simp: b64_decode_def byte_ok_def split: option.splits)
qed (auto simp: b64_decode_def byte_ok_def)

lemma prefixes_differ [simp]: "cut_prefix plainPrefix (encPrefix @ s) = None"
  by (simp add: cut_prefix_def plainPrefix_def encPrefix_def)

lemma Open_Seal:
  assumes "box_ok b" and "nonce_ok b nonce"
  shows "Open b name (Seal b nonce name v) = Inr v"
proof (cases "box_aead b")
  case None
  then show ?thesis by (simp add: Open_def Seal_def)
next
  case (Some a)
  let ?raw = "nonce @ aead_seal a nonce v name"
  from assms Some have kid: "CHR '':'' \<notin> set (box_key_id b)"
    and len: "length nonce = aead_nonce_size a"
    and bytes: "list_all byte_ok ?raw"
    and inv: "aead_open a nonce (aead_seal a nonce v name) name = Some v"
    by (auto simp: box_ok_def nonce_ok_def aead_ok_def)
  have "cut_at CHR '':'' (box_key_id b @ CHR '':'' # b64_encode ?raw)
      = Some (box_key_id b, b64_encode ?raw)"
    using kid by (rule cut_at_append)
  moreover have "b64_decode (b64_encode ?raw) = Some ?raw"
    using bytes by (rule b64_decode_encode)
  ultimately show ?thesis
    using Some len inv by (simp add: Open_def Seal_def)
qed

lemma Owns_Seal:
  assumes "box_ok b" and "Enabled b"
  shows "Owns b (Seal b nonce name v)"
proof -
  from assms(2) obtain a where a: "box_aead b = Some a" by (auto simp: Enabled_def)
  from assms(1) have "CHR '':'' \<notin> set (box_key_id b)" by (simp add: box_ok_def)
  then have "cut_at CHR '':'' (box_key_id b @ CHR '':'' # b64_encode (nonce @ aead_seal a nonce v name))
      = Some (box_key_id b, b64_encode (nonce @ aead_seal a nonce v name))"
    by (rule cut_at_append)
  then show ?thesis using a assms(2) by (simp add: Owns_def Seal_def)
qed

lemma Seal_nonempty: "Seal b nonce name v \<noteq> []"
  by (auto simp: Seal_def plainPrefix_def encPrefix_def split: option.splits)

text \<open>The promise the store relies on, as an interface: what was sealed under a name opens under
  that name. The box built from an empty key provides it with no assumption.\<close>

locale vault =
  fixes seal :: "string \<Rightarrow> string \<Rightarrow> string"
    and unseal :: "string \<Rightarrow> string \<Rightarrow> ('e, string) result"
  assumes unseal_seal: "unseal name (seal name v) = Inr v"
begin

lemma seal_inj: "seal name v = seal name w \<Longrightarrow> v = w"
  by (metis unseal_seal sum.inject(2))

end

definition plain_box :: box where
  "plain_box = \<lparr>box_aead = None, box_key_id = []\<rparr>"

lemma NewBox_empty: "NewBox gcm key_id [] = Inr plain_box"
  by (simp add: NewBox_def plain_box_def)

interpretation plain: vault "Seal plain_box nonce" "Open plain_box"
  by unfold_locales (simp add: Open_Seal box_ok_def nonce_ok_def plain_box_def Open_def Seal_def)

section \<open>Rotation lemmas\<close>

definition rotates :: "box \<Rightarrow> cell \<Rightarrow> bool" where
  "rotates nxt c \<longleftrightarrow> cell_value c \<noteq> [] \<and> cell_where c"

definition same_cell :: "box \<Rightarrow> box \<Rightarrow> cell \<Rightarrow> cell \<Rightarrow> bool" where
  "same_cell old nxt c c' \<longleftrightarrow>
     cell_key c' = cell_key c \<and> cell_where c' = cell_where c \<and>
     (if rotates nxt c
      then Owns nxt (cell_value c') \<and>
        (if Owns nxt (cell_value c) then cell_value c' = cell_value c
         else Open nxt (cell_aad c) (cell_value c') = Open old (cell_aad c) (cell_value c) \<and>
              is_ok (Open old (cell_aad c) (cell_value c)))
      else c' = c)"

lemma rotateColumn_same:
  assumes "box_ok nxt" and "Enabled nxt" and "\<And>a. nonce_ok nxt (rnd a)"
  shows "rotateColumn old nxt rnd cs = Inr (n, cs') \<Longrightarrow> list_all2 (same_cell old nxt) cs cs'"
proof (induction cs arbitrary: n cs')
  case Nil
  then show ?case by simp
next
  case (Cons c cs)
  show ?case
  proof (cases "cell_value c = [] \<or> \<not> cell_where c \<or> Owns nxt (cell_value c)")
    case True
    with Cons.prems obtain m ds where
      "rotateColumn old nxt rnd cs = Inr (m, ds)" "cs' = c # ds"
      by (auto simp: bind_result_eq_Inr)
    moreover have "same_cell old nxt c c"
      using True by (auto simp: same_cell_def rotates_def)
    ultimately show ?thesis using Cons.IH by auto
  next
    case False
    with Cons.prems obtain p m ds where
      "Open old (cell_aad c) (cell_value c) = Inr p"
      "rotateColumn old nxt rnd cs = Inr (m, ds)"
      "cs' = c\<lparr>cell_value := Seal nxt (rnd (cell_key c)) (cell_aad c) p\<rparr> # ds"
      by (auto simp: bind_result_eq_Inr split: sum.splits)
    moreover have "same_cell old nxt c
        (c\<lparr>cell_value := Seal nxt (rnd (cell_key c)) (cell_aad c) p\<rparr>)"
      using False assms \<open>Open old (cell_aad c) (cell_value c) = Inr p\<close>
      by (auto simp: same_cell_def rotates_def Open_Seal Owns_Seal)
    ultimately show ?thesis using Cons.IH by auto
  qed
qed

lemma rotate_columns_same:
  assumes "box_ok nxt" and "Enabled nxt" and "\<And>a. nonce_ok nxt (rnd a)"
  shows "rotate_columns old nxt rnd db = Inr (n, db') \<Longrightarrow>
    list_all2 (list_all2 (same_cell old nxt)) db db'"
proof (induction db arbitrary: n db')
  case Nil
  then show ?case by simp
next
  case (Cons col cols)
  then obtain m col' k cols' where
    "rotateColumn old nxt rnd col = Inr (m, col')"
    "rotate_columns old nxt rnd cols = Inr (k, cols')" "db' = col' # cols'"
    by (auto simp: bind_result_eq_Inr)
  with Cons.IH rotateColumn_same [OF assms] show ?case by auto
qed

lemma rotateColumn_done:
  "list_all (\<lambda>c. rotates nxt c \<longrightarrow> Owns nxt (cell_value c)) cs \<Longrightarrow>
   rotateColumn old nxt rnd cs = Inr (0, cs)"
  by (induction cs) (auto simp: rotates_def)

lemma rotate_columns_done:
  "list_all (list_all (\<lambda>c. rotates nxt c \<longrightarrow> Owns nxt (cell_value c))) db \<Longrightarrow>
   rotate_columns old nxt rnd db = Inr (0, db)"
  by (induction db) (auto simp: rotateColumn_done)

lemma Owns_nonempty: "Owns b s \<Longrightarrow> s \<noteq> []"
  by (auto simp: Owns_def cut_prefix_def encPrefix_def split: if_splits)

lemma same_cell_owned: "same_cell old nxt c c' \<Longrightarrow> rotates nxt c' \<Longrightarrow> Owns nxt (cell_value c')"
  by (auto simp: same_cell_def rotates_def split: if_splits)

lemma list_all2_owned:
  assumes "list_all2 (list_all2 (same_cell old nxt)) db db'"
  shows "list_all (list_all (\<lambda>c. rotates nxt c \<longrightarrow> Owns nxt (cell_value c))) db'"
proof -
  have "list_all (\<lambda>c. rotates nxt c \<longrightarrow> Owns nxt (cell_value c)) ys"
    if "list_all2 (same_cell old nxt) xs ys" for xs ys
    using that by (induction rule: list_all2_induct) (auto dest: same_cell_owned)
  with assms show ?thesis
    by (induction rule: list_all2_induct) auto
qed

text \<open>The rotation gets past a value that need not move, and past one the old box opens.\<close>

definition rotatable :: "box \<Rightarrow> box \<Rightarrow> cell \<Rightarrow> bool" where
  "rotatable old nxt c \<longleftrightarrow>
     cell_value c = [] \<or> \<not> cell_where c \<or> Owns nxt (cell_value c) \<or>
     is_ok (Open old (cell_aad c) (cell_value c))"

lemma is_ok_bind: "is_ok (bind_result r (\<lambda>x. Inr (f x))) = is_ok r"
  by (cases r) auto

lemma rotateColumn_ok: "is_ok (rotateColumn old nxt rnd cs) = list_all (rotatable old nxt) cs"
  by (induction cs) (auto simp: rotatable_def is_ok_bind case_prod_unfold split: sum.splits)

lemma rotate_columns_ok:
  "is_ok (rotate_columns old nxt rnd db) = list_all (list_all (rotatable old nxt)) db"
proof (induction db)
  case (Cons col cols)
  show ?case
    using Cons rotateColumn_ok [of old nxt rnd col]
    by (cases "rotateColumn old nxt rnd col") (auto simp: is_ok_bind case_prod_unfold)
qed simp

lemma Open_Seal_other:
  assumes "box_ok b" and "nonce_ok b nonce" and "box_aead b = Some a" and "aead_binds a"
    and "name' \<noteq> name"
  shows "Open b name' (Seal b nonce name v) = Inl (DecryptFailed name')"
proof -
  let ?raw = "nonce @ aead_seal a nonce v name"
  from assms have kid: "CHR '':'' \<notin> set (box_key_id b)"
    and len: "length nonce = aead_nonce_size a" and bytes: "list_all byte_ok ?raw"
    and refuse: "aead_open a nonce (aead_seal a nonce v name) name' = None"
    by (auto simp: box_ok_def nonce_ok_def aead_ok_def aead_binds_def)
  have "cut_at CHR '':'' (box_key_id b @ CHR '':'' # b64_encode ?raw)
      = Some (box_key_id b, b64_encode ?raw)"
    using kid by (rule cut_at_append)
  moreover have "b64_decode (b64_encode ?raw) = Some ?raw"
    using bytes by (rule b64_decode_encode)
  ultimately show ?thesis
    using assms len refuse by (simp add: Open_def Seal_def)
qed

section \<open>Additional data tells the rows apart\<close>

definition sealed_tag :: "sealed_key \<Rightarrow> string" where
  "sealed_tag k = takeWhile (\<lambda>c. c \<noteq> CHR '':'') (sealed_aad k)"

lemma takeWhile_sep [simp]:
  "c \<notin> set s \<Longrightarrow> takeWhile (\<lambda>x. x \<noteq> c) (s @ c # t) = s"
  by (induction s) auto

lemma sealed_tag_const [simp]:
  "sealed_tag (NodeConfigKey n i) = ''node-config''" "sealed_tag (NodeProbeKey n i) = ''node-probe''"
  "sealed_tag (NodeSkeletonKey n) = ''node-skeleton''" "sealed_tag (CredentialKey n) = ''credential''"
  "sealed_tag (AlertTargetKey n) = ''alert-target''" "sealed_tag (MfaCredentialKey n) = ''mfa-credential''"
  "sealed_tag (UserDeviceKey n h) = ''user-device''" "sealed_tag (SubTokenKey n) = ''sub-token''"
  "sealed_tag (NodeRelayKey n) = ''node-relay''" "sealed_tag (EgressRuleKey n) = ''egress-rule''"
  by (simp_all add: sealed_tag_def)

lemma sealed_tag_variable [simp]:
  "CHR '':'' \<notin> set v \<Longrightarrow> sealed_tag (VariableComponent v c) = v"
  by (simp add: sealed_tag_def)

lemma sealed_aad_inj:
  assumes "hex_id (sealed_id k)" and "hex_id (sealed_id k')" and "sealed_aad k = sealed_aad k'"
  shows "k = k'"
proof -
  have ids: "CHR '':'' \<notin> set (sealed_id k)" "CHR '':'' \<notin> set (sealed_id k')"
    "length (sealed_id k) = 16" "length (sealed_id k') = 16"
    using assms(1,2) by (auto simp: hex_id_no_char) (auto simp: hex_id_def)
  have tags: "sealed_tag k = sealed_tag k'"
    using assms(3) by (simp add: sealed_tag_def)
  show ?thesis
    using tags ids assms(3)
    by (cases k; cases k'; force simp: sep_append_eq)
qed

section \<open>A concrete cipher\<close>

text \<open>An AEAD that writes its additional data into the ciphertext and compares it on opening. It
  satisfies the laws the theorems assume of AES-GCM, so those laws are consistent.\<close>

definition frame_ad :: "string \<Rightarrow> bytes" where
  "frame_ad ad = concat (map (\<lambda>c. [1, of_char c]) ad) @ [0]"

definition frame_aead :: aead where
  "frame_aead = \<lparr>aead_nonce_size = 2,
     aead_seal = (\<lambda>n v ad. frame_ad ad @ map of_char v),
     aead_open = (\<lambda>n ct ad. if prefix (frame_ad ad) ct
        then Some (map char_of (drop (length (frame_ad ad)) ct)) else None)\<rparr>"

lemma frame_ad_inj: "frame_ad ad @ s = frame_ad ad' @ s' \<Longrightarrow> ad = ad'"
proof (induction ad arbitrary: ad')
  case Nil
  then show ?case by (cases ad') (auto simp: frame_ad_def)
next
  case (Cons c ad)
  then show ?case by (cases ad') (auto simp: frame_ad_def)
qed

lemma of_char_less_256: "of_char c < (256::nat)"
  by (metis of_char_mod_256 mod_less_divisor zero_less_numeral)

lemma frame_aead_laws: "aead_ok frame_aead" "aead_binds frame_aead"
proof -
  have "list_all byte_ok (frame_ad ad)" for ad
    by (auto simp: frame_ad_def list_all_iff byte_ok_def of_char_less_256)
  then show "aead_ok frame_aead"
    by (auto simp: aead_ok_def frame_aead_def list_all_iff byte_ok_def of_char_less_256 comp_def)
  show "aead_binds frame_aead"
    by (auto simp: aead_binds_def frame_aead_def prefix_def dest: frame_ad_inj)
qed

definition frame_box :: "string \<Rightarrow> box" where
  "frame_box kid = \<lparr>box_aead = Some frame_aead, box_key_id = kid\<rparr>"

lemma frame_box_ok:
  "CHR '':'' \<notin> set kid \<Longrightarrow> box_ok (frame_box kid)" "Enabled (frame_box kid)"
  "nonce_ok (frame_box kid) [7, 200]"
  by (simp_all add: box_ok_def nonce_ok_def frame_box_def frame_aead_laws Enabled_def byte_ok_def)
     (simp add: frame_aead_def)

section \<open>Properties\<close>

text \<open>Round trip: whatever a box seals under a name, it opens under that name to the same
  value, with and without a key.\<close>

theorem seal_open_roundtrip:
  assumes "box_ok b" and "nonce_ok b nonce"
  shows "Open b name (Seal b nonce name v) = Inr v"
  using assms by (rule Open_Seal)

theorem seal_open_roundtrip_witness:
  "Open (frame_box ''a1b2c3d4'') ''credential:7'' (Seal (frame_box ''a1b2c3d4'') [7, 200] ''credential:7'' ''secret'')
     = Inr ''secret''"
  by (rule seal_open_roundtrip) (simp_all add: frame_box_ok)

text \<open>A ciphertext moved to another row or another column does not open there: the additional
  data rebuilt for two different rows differ, and the box refuses the value.\<close>

theorem moved_ciphertext_refused:
  assumes "box_ok b" and "nonce_ok b nonce" and "box_aead b = Some a" and "aead_binds a"
    and "hex_id (sealed_id k)" and "hex_id (sealed_id k')" and "k \<noteq> k'"
  shows "Open b (sealed_aad k') (Seal b nonce (sealed_aad k) v) = Inl (DecryptFailed (sealed_aad k'))"
proof -
  have "sealed_aad k' \<noteq> sealed_aad k" using assms sealed_aad_inj by metis
  with assms show ?thesis by (auto intro: Open_Seal_other)
qed

theorem moved_ciphertext_refused_witness:
  "Open (frame_box ''a1b2c3d4'') (sealed_aad (NodeSkeletonKey ''0123456789abcdef''))
     (Seal (frame_box ''a1b2c3d4'') [7, 200] (sealed_aad (CredentialKey ''0123456789abcdef'')) ''s'')
   = Inl (DecryptFailed (sealed_aad (NodeSkeletonKey ''0123456789abcdef'')))"
proof (rule moved_ciphertext_refused)
  show "box_aead (frame_box ''a1b2c3d4'') = Some frame_aead" by (simp add: frame_box_def)
  show "hex_id (sealed_id (CredentialKey ''0123456789abcdef''))"
    "hex_id (sealed_id (NodeSkeletonKey ''0123456789abcdef''))" by code_simp+
qed (simp_all add: frame_box_ok frame_aead_laws)

text \<open>A key rotation that succeeds keeps every secret: each stored value that holds a secret
  belongs to the new key afterwards and opens under it to what it opened to before (values already
  under the new key and rows outside the \<open>where\<close> clause are untouched), and running it again
  moves nothing.\<close>

theorem rotation_keeps_secrets:
  assumes "box_ok nxt" and "\<And>k. nonce_ok nxt (rnd k)"
    and "RotateSecretKey old nxt rnd db = (Inr n, db')"
  shows "list_all2 (list_all2 (same_cell old nxt)) db db' \<and>
    RotateSecretKey old nxt rnd db' = (Inr 0, db')"
proof -
  from assms(3) have en: "Enabled nxt" and rot: "rotate_columns old nxt rnd db = Inr (n, db')"
    by (auto simp: RotateSecretKey_def split: if_splits sum.splits)
  have same: "list_all2 (list_all2 (same_cell old nxt)) db db'"
    using rotate_columns_same [OF assms(1) en assms(2) rot] .
  moreover have "rotate_columns old nxt rnd db' = Inr (0, db')"
    by (rule rotate_columns_done, rule list_all2_owned [OF same])
  ultimately show ?thesis using en by (simp add: RotateSecretKey_def)
qed

theorem rotation_keeps_secrets_witness:
  "list_all2 (list_all2 (same_cell (frame_box ''0000aaaa'') (frame_box ''1111bbbb'')))
     [[\<lparr>cell_where = True, cell_key = CredentialKey ''07'', cell_value = ''plain:s''\<rparr>]]
     (snd (RotateSecretKey (frame_box ''0000aaaa'') (frame_box ''1111bbbb'') (\<lambda>_. [7, 200])
       [[\<lparr>cell_where = True, cell_key = CredentialKey ''07'', cell_value = ''plain:s''\<rparr>]]))"
  (is "list_all2 _ [[?c]] _")
proof -
  have own: "\<not> Owns (frame_box ''1111bbbb'') ''plain:s''"
    by (simp add: Owns_def cut_prefix_def encPrefix_def)
  have op: "Open (frame_box ''0000aaaa'') ''credential:07'' ''plain:s'' = Inr ''s''"
    by (simp add: Open_def cut_prefix_def plainPrefix_def)
  have "RotateSecretKey (frame_box ''0000aaaa'') (frame_box ''1111bbbb'') (\<lambda>_. [7, 200]) [[?c]]
    = (Inr 1, [[?c\<lparr>cell_value := Seal (frame_box ''1111bbbb'') [7, 200] (cell_aad ?c) ''s''\<rparr>]])"
    using own op by (simp add: RotateSecretKey_def frame_box_ok)
  from rotation_keeps_secrets [OF _ _ this] show ?thesis
    by (simp add: frame_box_ok \<open>RotateSecretKey _ _ _ [[?c]] = _\<close>)
qed

text \<open>A rotation is all or nothing. It goes through exactly when the target key is set and
  every value still to be moved opens under the old key; otherwise the database is as it was.\<close>

theorem rotation_all_or_nothing:
  "(is_ok (fst (RotateSecretKey old nxt rnd db)) \<longleftrightarrow>
      Enabled nxt \<and> list_all (list_all (rotatable old nxt)) db) \<and>
   (is_ok (fst (RotateSecretKey old nxt rnd db)) \<or> snd (RotateSecretKey old nxt rnd db) = db)"
  using rotate_columns_ok [of old nxt rnd db]
  by (auto simp: RotateSecretKey_def split: sum.splits)

declare sealed_aad.simps [simp del]

end
