(* ===== verification/Versions.thy ===== *)
theory Versions
  imports Prelude
begin

text \<open>
  \<open>core/internal/template/version.go\<close>: the canonical form of a kernel version and the comparison that
  decides whether a node is behind. \<open>strconv.Atoi\<close> is modelled with its 64-bit range. The theorems
  show that the comparison is a total order up to its own equality, and that on dated releases it
  is the order of the dates.
\<close>

definition NormalizeVersion :: "string \<Rightarrow> string" where
  "NormalizeVersion v = trim_prefix ''v'' (trim_space v)"

text \<open>\<open>strconv.Atoi\<close>: an optional sign, at least one digit, a value of 64 bits.\<close>

definition atoi_digits :: "string \<Rightarrow> int option" where
  "atoi_digits s = (if s \<noteq> [] \<and> list_all is_digit s then Some (int (read_digits s)) else None)"

definition atoi :: "string \<Rightarrow> int option" where
  "atoi s =
     (let v = (case s of
                 c # r \<Rightarrow> if c = CHR ''-'' then map_option uminus (atoi_digits r)
                          else if c = CHR ''+'' then atoi_digits r
                          else atoi_digits s
               | [] \<Rightarrow> None)
      in case v of None \<Rightarrow> None
         | Some n \<Rightarrow> if min_int64 \<le> n \<and> n \<le> max_int64 then Some n else None)"

text \<open>\<open>strings.IndexAny(v, "-+")\<close> and the two halves around it.\<close>

definition splitPrerelease :: "string \<Rightarrow> string \<times> string" where
  "splitPrerelease v =
     (let p = (\<lambda>c. c \<noteq> CHR ''-'' \<and> c \<noteq> CHR ''+'')
      in if \<exists>c\<in>set v. \<not> p c then (takeWhile p v, tl (dropWhile p v)) else (v, []))"

definition segAt :: "string list \<Rightarrow> nat \<Rightarrow> int" where
  "segAt segs i =
     (if i \<ge> length segs then 0
      else (case atoi (trim_space (segs ! i)) of None \<Rightarrow> -1 | Some n \<Rightarrow> n))"

definition compareInt :: "int \<Rightarrow> int \<Rightarrow> int" where
  "compareInt a b = (if a < b then -1 else if a > b then 1 else 0)"

function compare_from :: "nat \<Rightarrow> string list \<Rightarrow> string list \<Rightarrow> int" where
  "compare_from i aSeg bSeg =
     (if i < length aSeg \<or> i < length bSeg
      then (let c = compareInt (segAt aSeg i) (segAt bSeg i)
            in if c \<noteq> 0 then c else compare_from (Suc i) aSeg bSeg)
      else 0)"
  by pat_completeness auto
termination
  by (relation "measure (\<lambda>(i, a, b). max (length a) (length b) - i)") auto

declare compare_from.simps [simp del]

text \<open>\<open>strings.Compare\<close>.\<close>

definition string_compare :: "string \<Rightarrow> string \<Rightarrow> int" where
  "string_compare a b = (if a = b then 0 else if a < b then -1 else 1)"

definition compare_pre :: "string \<Rightarrow> string \<Rightarrow> int" where
  "compare_pre aPre bPre =
     (if aPre = [] \<and> bPre = [] then 0
      else if aPre = [] then 1
      else if bPre = [] then -1
      else string_compare aPre bPre)"

definition CompareVersions :: "string \<Rightarrow> string \<Rightarrow> int" where
  "CompareVersions a b =
     (let (aBase, aPre) = splitPrerelease (NormalizeVersion a);
          (bBase, bPre) = splitPrerelease (NormalizeVersion b);
          c = compare_from 0 (split_on CHR ''.'' aBase) (split_on CHR ''.'' bBase)
      in if c \<noteq> 0 then c else compare_pre aPre bPre)"

section \<open>A total order\<close>

text \<open>A comparison: the sign of the difference, up to the comparison's own equality.\<close>

locale comparison =
  fixes cmp :: "'a \<Rightarrow> 'a \<Rightarrow> int"
  assumes cmp_swap: "cmp b a = - cmp a b"
    and cmp_trans: "cmp a b \<le> 0 \<Longrightarrow> cmp b c \<le> 0 \<Longrightarrow> cmp a c \<le> 0"
begin

lemma cmp_refl: "cmp a a = 0"
  using cmp_swap [of a a] by simp

lemma cmp_total: "cmp a b \<le> 0 \<or> cmp b a \<le> 0"
  using cmp_swap [of a b] by linarith

lemma cmp_less_trans: "cmp a b < 0 \<Longrightarrow> cmp b c \<le> 0 \<Longrightarrow> cmp a c < 0"
  using cmp_swap cmp_trans by (metis cmp_total less_le_not_le linorder_not_le neg_le_0_iff_le order.order_iff_strict)

lemma cmp_zero_cong: "cmp a b = 0 \<Longrightarrow> cmp a c \<le> 0 \<longleftrightarrow> cmp b c \<le> 0"
  using cmp_swap cmp_trans by (metis cmp_total neg_equal_0_iff_equal order_refl)

end

text \<open>Comparing first by one key and then by another.\<close>

definition lex_cmp :: "('a \<Rightarrow> 'a \<Rightarrow> int) \<Rightarrow> ('a \<Rightarrow> 'a \<Rightarrow> int) \<Rightarrow> 'a \<Rightarrow> 'a \<Rightarrow> int" where
  "lex_cmp cmp1 cmp2 a b = (if cmp1 a b \<noteq> 0 then cmp1 a b else cmp2 a b)"

locale comparison_pair = first: comparison cmp1 + second: comparison cmp2
  for cmp1 :: "'a \<Rightarrow> 'a \<Rightarrow> int" and cmp2 :: "'a \<Rightarrow> 'a \<Rightarrow> int"
begin

lemma lex_swap: "lex_cmp cmp1 cmp2 b a = - lex_cmp cmp1 cmp2 a b"
  using first.cmp_swap [of b a] second.cmp_swap [of b a] by (auto simp: lex_cmp_def)

lemma lex_trans:
  "lex_cmp cmp1 cmp2 a b \<le> 0 \<Longrightarrow> lex_cmp cmp1 cmp2 b c \<le> 0 \<Longrightarrow> lex_cmp cmp1 cmp2 a c \<le> 0"
  using first.cmp_trans [of a b c] first.cmp_less_trans [of a b c] first.cmp_zero_cong [of a b c]
    first.cmp_swap [of a b] first.cmp_swap [of b c] first.cmp_swap [of a c]
    first.cmp_less_trans [of b c a] second.cmp_trans [of a b c]
    first.cmp_trans [of c b a]
  by (auto simp: lex_cmp_def split: if_splits)

end

sublocale comparison_pair \<subseteq> comparison "lex_cmp cmp1 cmp2"
  by unfold_locales (rule lex_swap, erule (1) lex_trans)

lemma compareInt_cases:
  "compareInt a b < 0 \<longleftrightarrow> a < b" "compareInt a b = 0 \<longleftrightarrow> a = b" "compareInt a b > 0 \<longleftrightarrow> a > b"
  "compareInt b a = - compareInt a b"
  by (auto simp: compareInt_def)

text \<open>The loop finds the first segment that differs.\<close>

lemma compare_from_less:
  "compare_from i a b < 0 \<longleftrightarrow> (\<exists>k\<ge>i. segAt a k < segAt b k \<and> (\<forall>j. i \<le> j \<and> j < k \<longrightarrow> segAt a j = segAt b j))"
proof (induction i a b rule: compare_from.induct)
  case (1 i a b)
  show ?case
  proof (cases "i < length a \<or> i < length b")
    case False
    then have "segAt a k = 0" "segAt b k = 0" if "k \<ge> i" for k using that by (auto simp: segAt_def)
    then show ?thesis using False by (subst compare_from.simps) auto
  next
    case True
    show ?thesis
    proof (cases "segAt a i = segAt b i")
      case eq: True
      have "(\<exists>k\<ge>i. segAt a k < segAt b k \<and> (\<forall>j. i \<le> j \<and> j < k \<longrightarrow> segAt a j = segAt b j)) \<longleftrightarrow>
          (\<exists>k\<ge>Suc i. segAt a k < segAt b k \<and> (\<forall>j. Suc i \<le> j \<and> j < k \<longrightarrow> segAt a j = segAt b j))"
        (is "?L \<longleftrightarrow> ?R")
      proof
        assume ?L
        then obtain k where k: "k \<ge> i" "segAt a k < segAt b k" "\<forall>j. i \<le> j \<and> j < k \<longrightarrow> segAt a j = segAt b j"
          by blast
        then have "k \<noteq> i" using eq by auto
        with k show ?R by (intro exI [of _ k]) auto
      next
        assume ?R
        then obtain k where k: "k \<ge> Suc i" "segAt a k < segAt b k"
          "\<forall>j. Suc i \<le> j \<and> j < k \<longrightarrow> segAt a j = segAt b j" by blast
        have "segAt a j = segAt b j" if "i \<le> j" "j < k" for j
          using that k(3) eq by (cases "j = i") auto
        with k show ?L by (intro exI [of _ k]) auto
      qed
      then show ?thesis
        using 1 True eq by (subst compare_from.simps) (simp add: Let_def compareInt_cases(2))
    next
      case neq: False
      have "(\<exists>k\<ge>i. segAt a k < segAt b k \<and> (\<forall>j. i \<le> j \<and> j < k \<longrightarrow> segAt a j = segAt b j)) \<longleftrightarrow>
          segAt a i < segAt b i"
        (is "?L \<longleftrightarrow> ?R")
      proof
        assume ?L
        then obtain k where k: "k \<ge> i" "segAt a k < segAt b k" "\<forall>j. i \<le> j \<and> j < k \<longrightarrow> segAt a j = segAt b j"
          by blast
        then have "k = i" using neq by (cases "k = i") auto
        with k show ?R by simp
      next
        assume ?R
        then show ?L by (intro exI [of _ i]) auto
      qed
      then show ?thesis
        using True neq by (subst compare_from.simps) (simp add: Let_def compareInt_cases(1,2))
    qed
  qed
qed

lemma compare_from_swap: "compare_from i b a = - compare_from i a b"
proof (induction i a b rule: compare_from.induct)
  case (1 i a b)
  then show ?case
    by (subst (1 2) compare_from.simps) (auto simp: Let_def compareInt_def)
qed

interpretation segments: comparison "compare_from 0"
proof
  show "compare_from 0 b a = - compare_from 0 a b" for a b by (rule compare_from_swap)
  show "compare_from 0 a c \<le> 0" if le: "compare_from 0 a b \<le> 0" "compare_from 0 b c \<le> 0" for a b c
  proof (rule ccontr)
    assume "\<not> compare_from 0 a c \<le> 0"
    then have "compare_from 0 c a < 0" using compare_from_swap [of 0 a c] by linarith
    then obtain k where k: "segAt c k < segAt a k" "\<forall>j<k. segAt c j = segAt a j"
      unfolding compare_from_less by auto
    have *: "\<not> (segAt y m < segAt x m \<and> (\<forall>j<m. segAt y j = segAt x j))" if "compare_from 0 x y \<le> 0" for x y m
      using that compare_from_swap [of 0 x y] compare_from_less [of 0 y x] by auto
    define m where "m = (LEAST j. segAt a j \<noteq> segAt b j \<or> segAt b j \<noteq> segAt c j)"
    have ex: "segAt a k \<noteq> segAt b k \<or> segAt b k \<noteq> segAt c k" using k(1) by auto
    then have m: "segAt a m \<noteq> segAt b m \<or> segAt b m \<noteq> segAt c m"
      unfolding m_def by (rule LeastI)
    have before: "segAt a j = segAt b j \<and> segAt b j = segAt c j" if "j < m" for j
      using not_less_Least [of j, folded m_def] that unfolding m_def by blast
    have "m \<le> k" unfolding m_def using ex by (rule Least_le)
    have "segAt a m \<le> segAt b m" using * [OF le(1), of m] before by (metis not_le)
    moreover have "segAt b m \<le> segAt c m" using * [OF le(2), of m] before by (metis not_le)
    ultimately have "segAt a m < segAt c m" using m by linarith
    with k \<open>m \<le> k\<close> show False by (cases "m = k") auto
  qed
qed

interpretation pre: comparison compare_pre
  by unfold_locales (auto simp: compare_pre_def string_compare_def split: if_splits)

definition version_segs :: "string \<Rightarrow> string list" where
  "version_segs v = split_on CHR ''.'' (fst (splitPrerelease (NormalizeVersion v)))"

definition version_pre :: "string \<Rightarrow> string" where
  "version_pre v = snd (splitPrerelease (NormalizeVersion v))"

interpretation ver: comparison_pair "\<lambda>a b. compare_from 0 (version_segs a) (version_segs b)"
  "\<lambda>a b. compare_pre (version_pre a) (version_pre b)"
  by unfold_locales
     (rule segments.cmp_swap, erule (1) segments.cmp_trans, rule pre.cmp_swap, erule (1) pre.cmp_trans)

lemma CompareVersions_lex:
  "CompareVersions a b = lex_cmp (\<lambda>a b. compare_from 0 (version_segs a) (version_segs b))
     (\<lambda>a b. compare_pre (version_pre a) (version_pre b)) a b"
  by (simp add: lex_cmp_def CompareVersions_def version_segs_def version_pre_def case_prod_unfold Let_def)

section \<open>Dated releases\<close>

text \<open>A release printed from its year, month and day.\<close>

definition dated :: "nat \<Rightarrow> nat \<Rightarrow> nat \<Rightarrow> string" where
  "dated y m d = show_nat y @ ''.'' @ show_nat m @ ''.'' @ show_nat d"

lemma digits_alnum: "list_all is_digit s \<Longrightarrow> s = [] \<or> is_alnum (hd s) \<and> is_alnum (last s)"
  by (cases "s = []") (auto simp: list_all_iff is_alnum_def)

lemma show_nat_framed: "is_alnum (hd (show_nat n)) \<and> is_alnum (last (show_nat n))"
  using digits_alnum [OF show_nat_digits [of n]] by simp

lemma not_digit_chars [simp]: "\<not> is_digit CHR ''.''" "\<not> is_digit CHR ''-''" "\<not> is_digit CHR ''+''" "\<not> is_digit CHR ''v''"
  by code_simp+

lemma show_nat_hd_digit: "is_digit (hd (show_nat n))"
  using show_nat_digits [of n] by (cases "show_nat n") auto

lemma NormalizeVersion_dated: "NormalizeVersion (dated y m d) = dated y m d"
proof -
  have "hd (dated y m d) = hd (show_nat y)" "last (dated y m d) = last (show_nat d)"
    by (simp_all add: dated_def)
  then have "trim_space (dated y m d) = dated y m d"
    using show_nat_framed by (intro trim_space_id) auto
  moreover have "\<not> prefix ''v'' (dated y m d)"
    using show_nat_hd_digit [of y] by (cases "show_nat y") (auto simp: dated_def)
  ultimately show ?thesis by (simp add: NormalizeVersion_def trim_prefix_def)
qed

lemma version_dated:
  "version_segs (dated y m d) = [show_nat y, show_nat m, show_nat d]" "version_pre (dated y m d) = []"
proof -
  have "\<forall>c\<in>set (dated y m d). c \<noteq> CHR ''-'' \<and> c \<noteq> CHR ''+''"
    using show_nat_no_char by (auto simp: dated_def)
  then have "splitPrerelease (dated y m d) = (dated y m d, [])"
    by (auto simp: splitPrerelease_def Let_def)
  moreover have "split_on CHR ''.'' (dated y m d) = [show_nat y, show_nat m, show_nat d]"
    by (simp add: dated_def split_on_append_sep split_on_no_sep show_nat_no_char)
  ultimately show "version_segs (dated y m d) = [show_nat y, show_nat m, show_nat d]"
    "version_pre (dated y m d) = []"
    by (simp_all add: version_segs_def version_pre_def NormalizeVersion_dated)
qed

lemma atoi_show_nat: "int n \<le> max_int64 \<Longrightarrow> atoi (trim_space (show_nat n)) = Some (int n)"
proof -
  assume n: "int n \<le> max_int64"
  have "trim_space (show_nat n) = show_nat n" using show_nat_framed by (intro trim_space_id) simp
  moreover have "hd (show_nat n) \<noteq> CHR ''-''" "hd (show_nat n) \<noteq> CHR ''+''"
    using show_nat_hd_digit [of n] by auto
  moreover obtain c r where cr: "show_nat n = c # r" by (cases "show_nat n") auto
  moreover have "atoi_digits (c # r) = Some (int n)"
    using show_nat_digits [of n] read_digits_show_nat [of n] by (simp add: cr atoi_digits_def)
  ultimately show ?thesis using n by (simp add: atoi_def min_int64_def)
qed

lemma segAt_dated:
  assumes "int y \<le> max_int64" "int m \<le> max_int64" "int d \<le> max_int64"
  shows "segAt (version_segs (dated y m d)) k = (if k = 0 then int y else if k = 1 then int m else if k = 2 then int d else 0)"
  using assms by (auto simp: segAt_def version_dated atoi_show_nat nth_Cons' numeral_2_eq_2)

section \<open>Properties\<close>

text \<open>The version comparison is a total order up to its own equality: swapping the arguments
  negates it, and it is transitive.\<close>

theorem version_order:
  "CompareVersions b a = - CompareVersions a b \<and>
   (CompareVersions a b \<le> 0 \<and> CompareVersions b c \<le> 0 \<longrightarrow> CompareVersions a c \<le> 0)"
  unfolding CompareVersions_lex using ver.lex_swap ver.lex_trans by blast

theorem version_order_witness:
  "CompareVersions ''26.3.27'' ''v26.10.1'' \<le> 0 \<and> CompareVersions ''26.3.27'' ''26.10.2'' \<le> 0"
proof -
  have "CompareVersions ''26.3.27'' ''v26.10.1'' \<le> 0" "CompareVersions ''v26.10.1'' ''26.10.2'' \<le> 0"
    by code_simp+
  with version_order [of "''v26.10.1''" "''26.3.27''" "''26.10.2''"] show ?thesis by blast
qed

text \<open>On dated releases the comparison is the order of the dates as numbers, and a prerelease
  comes before the release it leads to.\<close>

theorem version_dates:
  assumes "int y \<le> max_int64" "int m \<le> max_int64" "int d \<le> max_int64"
    and "int y' \<le> max_int64" "int m' \<le> max_int64" "int d' \<le> max_int64"
  shows "CompareVersions (dated y m d) (dated y' m' d') < 0 \<longleftrightarrow>
    y < y' \<or> y = y' \<and> (m < m' \<or> m = m' \<and> d < d')"
proof -
  let ?a = "version_segs (dated y m d)" and ?b = "version_segs (dated y' m' d')"
  have "CompareVersions (dated y m d) (dated y' m' d') = compare_from 0 ?a ?b"
    unfolding CompareVersions_lex lex_cmp_def by (simp add: version_dated compare_pre_def)
  moreover have "(\<exists>k. segAt ?a k < segAt ?b k \<and> (\<forall>j<k. segAt ?a j = segAt ?b j)) \<longleftrightarrow>
      y < y' \<or> y = y' \<and> (m < m' \<or> m = m' \<and> d < d')" (is "(\<exists>k. ?P k) \<longleftrightarrow> ?Q")
  proof
    assume "\<exists>k. ?P k"
    then obtain k where k: "?P k" ..
    then have "k = 0 \<or> k = 1 \<or> k = 2" using assms by (auto simp: segAt_dated split: if_splits)
    with k show ?Q using assms by (auto simp: segAt_dated numeral_2_eq_2 less_Suc_eq)
  next
    assume ?Q
    then have "?P 0 \<or> ?P 1 \<or> ?P 2"
      using assms by (auto simp: segAt_dated numeral_2_eq_2 less_Suc_eq)
    then show "\<exists>k. ?P k" by blast
  qed
  ultimately show ?thesis by (simp add: compare_from_less)
qed

theorem version_dates_witness: "CompareVersions (dated 26 3 27) (dated 26 10 1) < 0"
  by (subst version_dates) (simp_all add: max_int64_def)

end
