(* ===== verification/Auth.thy ===== *)
theory Auth
  imports SecretBox Versions "HOL-Library.Word"
begin

text \<open>
  Package \<open>auth\<close> (\<open>core/internal/auth/\<close>): passwords, one-time codes, recovery codes and roles. PBKDF2, HMAC-SHA1 and
  SHA-256 are arguments (\<open>pbkdf2\<close>, \<open>hmac\<close>, \<open>sha256\<close>), and so are the bytes \<open>crypto/rand\<close> delivers. A TOTP secret is
  text the panel encoded itself, so \<open>strings.ToUpper\<close> is upper-casing of ASCII.

  The theorems: a stored password verifies exactly when its derived key does; a one-time code is accepted exactly
  when it is the code of this step or of a neighbour, so half a minute of clock drift does no harm; a random index is
  unbiased; a recovery code is recognised however it is typed.
\<close>

unbundle bit_operations_syntax

section \<open>Secrets and passwords\<close>

definition hex_byte :: "nat \<Rightarrow> string" where
  "hex_byte n = [''0123456789abcdef'' ! (n div 16 mod 16), ''0123456789abcdef'' ! (n mod 16)]"

definition HashSecret :: "(string \<Rightarrow> bytes) \<Rightarrow> string \<Rightarrow> string" where
  "HashSecret sha256 raw = concat (map hex_byte (sha256 raw))"

definition pbkdf2Iterations :: nat where "pbkdf2Iterations = 210000"
definition saltLen :: nat where "saltLen = 16"
definition keyLen :: nat where "keyLen = 32"
definition MinPasswordLen :: nat where "MinPasswordLen = 8"

type_synonym kdf = "string \<Rightarrow> bytes \<Rightarrow> int \<Rightarrow> nat \<Rightarrow> bytes option"

definition HashPassword :: "kdf \<Rightarrow> bytes \<Rightarrow> string \<Rightarrow> string option" where
  "HashPassword pbkdf2 salt password =
     (case pbkdf2 password salt (int pbkdf2Iterations) keyLen of
        None \<Rightarrow> None
      | Some key \<Rightarrow>
          Some (''pbkdf2$'' @ show_nat pbkdf2Iterations @ ''$'' @ b64_encode salt @ ''$'' @ b64_encode key))"

definition VerifyPassword :: "kdf \<Rightarrow> string \<Rightarrow> string \<Rightarrow> bool" where
  "VerifyPassword pbkdf2 password encoded =
     (case split_on CHR ''$'' encoded of
        [scheme, iter, salt64, key64] \<Rightarrow>
          if scheme \<noteq> ''pbkdf2'' then False
          else (case atoi iter of
                  None \<Rightarrow> False
                | Some iterations \<Rightarrow>
                    if iterations \<le> 0 then False
                    else (case b64_decode salt64 of
                            None \<Rightarrow> False
                          | Some salt \<Rightarrow>
                              (case b64_decode key64 of
                                 None \<Rightarrow> False
                               | Some want \<Rightarrow>
                                   (case pbkdf2 password salt iterations (length want) of
                                      None \<Rightarrow> False
                                    | Some got \<Rightarrow> got = want))))
      | _ \<Rightarrow> False)"

section \<open>One-time codes\<close>

definition TOTPPeriod :: duration where "TOTPPeriod = 30 * second"
definition TOTPDigits :: nat where "TOTPDigits = 6"
definition TOTPSkew :: int where "TOTPSkew = 1"

text \<open>\<open>base32.StdEncoding\<close> without padding. A last group of one, three or six characters is accepted and yields
  nothing, as the decoder of the library has no case for these lengths.\<close>

definition b32_alphabet :: string where "b32_alphabet = ''ABCDEFGHIJKLMNOPQRSTUVWXYZ234567''"

definition b32_group :: "nat list \<Rightarrow> bytes" where
  "b32_group v =
     (let g = (\<lambda>i. if i < length v then v ! i else 0);
          bytes = [g 0 * 8 + g 1 div 4,
                   g 1 mod 4 * 64 + g 2 * 2 + g 3 div 16,
                   g 3 mod 16 * 16 + g 4 div 2,
                   g 4 mod 2 * 128 + g 5 * 4 + g 6 div 8,
                   g 6 mod 8 * 32 + g 7]
      in take (if length v = 8 then 5 else if length v = 7 then 4 else if length v = 5 then 3
               else if length v = 4 then 2 else if length v = 2 then 1 else 0) bytes)"

function b32_groups :: "nat list \<Rightarrow> bytes" where
  "b32_groups v = (if v = [] then [] else b32_group (take 8 v) @ b32_groups (drop 8 v))"
  by pat_completeness auto
termination
  by (relation "measure length") auto

declare b32_groups.simps [simp del]

definition b32_decode :: "string \<Rightarrow> bytes option" where
  "b32_decode s =
     map_option b32_groups
       (those (map (\<lambda>c. index_of c b32_alphabet) (filter (\<lambda>c. c \<noteq> CHR 0x0A \<and> c \<noteq> CHR 0x0D) s)))"

definition b32_quintets :: "bytes \<Rightarrow> nat list" where
  "b32_quintets v =
     (let g = (\<lambda>i. if i < length v then v ! i else 0)
      in take ((length v * 8 + 4) div 5)
           [g 0 div 8, g 0 mod 8 * 4 + g 1 div 64, g 1 div 2 mod 32, g 1 mod 2 * 16 + g 2 div 16,
            g 2 mod 16 * 2 + g 3 div 128, g 3 div 4 mod 32, g 3 mod 4 * 8 + g 4 div 32, g 4 mod 32])"

function b32_encode :: "bytes \<Rightarrow> string" where
  "b32_encode v = (if v = [] then [] else map ((!) b32_alphabet) (b32_quintets (take 5 v)) @ b32_encode (drop 5 v))"
  by pat_completeness auto
termination
  by (relation "measure length") auto

declare b32_encode.simps [simp del]

definition NewTOTPSecret :: "bytes \<Rightarrow> string option" where
  "NewTOTPSecret bs = (if length bs < 20 then None else Some (b32_encode (take 20 bs)))"

definition upper_char :: "char \<Rightarrow> char" where
  "upper_char c = (if is_lower c then char_of (of_char c - 32 :: nat) else c)"

definition totp_key :: "string \<Rightarrow> bytes option" where
  "totp_key secret = b32_decode (map upper_char (trim_space secret))"

definition be_bytes :: "64 word \<Rightarrow> bytes" where
  "be_bytes c = map (\<lambda>i. unat (drop_bit (8 * i) c AND 255)) [7, 6, 5, 4, 3, 2, 1, 0]"

definition pow10 :: "nat \<Rightarrow> 32 word" where
  "pow10 n = ((*) 10 ^^ n) 1"

fun be_uint32 :: "bytes \<Rightarrow> 32 word" where
  "be_uint32 [a, b, c, d] =
     push_bit 24 (of_nat a) OR push_bit 16 (of_nat b) OR push_bit 8 (of_nat c) OR of_nat d"
| "be_uint32 _ = 0"

text \<open>\<open>%0*d\<close>: the number with zeros in front up to the width.\<close>

definition pad_left :: "nat \<Rightarrow> string \<Rightarrow> string" where
  "pad_left w s = replicate (w - length s) CHR ''0'' @ s"

definition hotp :: "(bytes \<Rightarrow> bytes \<Rightarrow> bytes) \<Rightarrow> bytes \<Rightarrow> 64 word \<Rightarrow> string" where
  "hotp hmac key counter =
     (let mac = hmac key (be_bytes counter);
          offset = mac ! (length mac - 1) mod 16;
          v = be_uint32 (take 4 (drop offset mac)) AND 0x7fffffff
      in pad_left TOTPDigits (show_nat (unat (v mod pow10 TOTPDigits))))"

definition totp_counter :: "time \<Rightarrow> 64 word" where
  "totp_counter t = word_of_int (to_unix t) div word_of_int (TOTPPeriod div second)"

definition TOTPCode :: "(bytes \<Rightarrow> bytes \<Rightarrow> bytes) \<Rightarrow> string \<Rightarrow> time \<Rightarrow> string option" where
  "TOTPCode hmac secret t = map_option (\<lambda>key. hotp hmac key (totp_counter t)) (totp_key secret)"

definition skewed :: "64 word \<Rightarrow> int \<Rightarrow> 64 word option" where
  "skewed counter skew =
     (if skew < 0 then (if counter < word_of_int (- skew) then None else Some (counter - word_of_int (- skew)))
      else Some (counter + word_of_int skew))"

definition VerifyTOTP :: "(bytes \<Rightarrow> bytes \<Rightarrow> bytes) \<Rightarrow> string \<Rightarrow> string \<Rightarrow> time \<Rightarrow> bool" where
  "VerifyTOTP hmac secret code t =
     (let code = trim_space code
      in if length code \<noteq> TOTPDigits then False
         else (case totp_key secret of
                 None \<Rightarrow> False
               | Some key \<Rightarrow>
                   list_ex (\<lambda>skew. case skewed (totp_counter t) skew of None \<Rightarrow> False | Some c \<Rightarrow> hotp hmac key c = code)
                     [- TOTPSkew .. TOTPSkew]))"

section \<open>Recovery codes and numeric codes\<close>

definition RecoveryCodeCount :: nat where "RecoveryCodeCount = 10"

definition code_alphabet :: string where "code_alphabet = ''abcdefghjkmnpqrstuvwxyz23456789''"

text \<open>\<open>randIndex\<close> over the bytes the source of randomness delivers; \<^term>\<open>None\<close> is an error of the source, which
  is where the bytes end.\<close>

fun rand_loop :: "nat \<Rightarrow> nat \<Rightarrow> bytes \<Rightarrow> (nat \<times> bytes) option" where
  "rand_loop n limit [] = None"
| "rand_loop n limit (b # bs) = (if b < limit then Some (b mod n, bs) else rand_loop n limit bs)"

definition randIndex :: "nat \<Rightarrow> bytes \<Rightarrow> (nat \<times> bytes) option" where
  "randIndex n bs = (if n = 0 \<or> n > 256 then None else rand_loop n (256 - 256 mod n) bs)"

fun rand_chars :: "string \<Rightarrow> nat \<Rightarrow> bytes \<Rightarrow> (string \<times> bytes) option" where
  "rand_chars alphabet 0 bs = Some ([], bs)"
| "rand_chars alphabet (Suc k) bs =
     Option.bind (randIndex (length alphabet) bs) (\<lambda>(i, bs).
       Option.bind (rand_chars alphabet k bs) (\<lambda>(s, bs). Some (alphabet ! i # s, bs)))"

definition recovery_code :: "bytes \<Rightarrow> (string \<times> bytes) option" where
  "recovery_code bs =
     Option.bind (rand_chars code_alphabet 5 bs) (\<lambda>(a, bs).
       Option.bind (rand_chars code_alphabet 5 bs) (\<lambda>(b, bs). Some (a @ ''-'' @ b, bs)))"

definition NormalizeRecoveryCode :: "string \<Rightarrow> string" where
  "NormalizeRecoveryCode code =
     to_lower (filter (\<lambda>c. c \<noteq> CHR '' '' \<and> c \<noteq> CHR ''-'' \<and> c \<noteq> CHR 0x09) (trim_space code))"

fun recovery_codes :: "nat \<Rightarrow> bytes \<Rightarrow> string list option" where
  "recovery_codes 0 bs = Some []"
| "recovery_codes (Suc k) bs =
     Option.bind (recovery_code bs) (\<lambda>(c, bs). map_option (\<lambda>cs. c # cs) (recovery_codes k bs))"

definition NewRecoveryCodes :: "(string \<Rightarrow> bytes) \<Rightarrow> bytes \<Rightarrow> (string list \<times> string list) option" where
  "NewRecoveryCodes sha256 bs =
     map_option (\<lambda>codes. (codes, map (\<lambda>c. HashSecret sha256 (NormalizeRecoveryCode c)) codes))
       (recovery_codes RecoveryCodeCount bs)"

definition NumericCodeDigits :: nat where "NumericCodeDigits = 6"

definition NewNumericCode :: "bytes \<Rightarrow> string option" where
  "NewNumericCode bs = map_option fst (rand_chars ''0123456789'' NumericCodeDigits bs)"

section \<open>Roles\<close>

type_synonym role = string

definition RoleSuperadmin :: role where "RoleSuperadmin = ''superadmin''"
definition RoleOperator :: role where "RoleOperator = ''operator''"
definition RoleViewer :: role where "RoleViewer = ''viewer''"

definition ValidRole :: "role \<Rightarrow> bool" where
  "ValidRole r \<longleftrightarrow> r \<in> set [RoleSuperadmin, RoleOperator, RoleViewer]"

definition rank :: "role \<Rightarrow> nat" where
  "rank r = (if r = RoleSuperadmin then 3 else if r = RoleOperator then 2 else if r = RoleViewer then 1 else 0)"

record identity =
  i_id :: id
  i_name :: string
  i_role :: role
  i_via_token :: bool

definition EnvTokenIdentity :: identity where
  "EnvTokenIdentity = \<lparr>i_id = [], i_name = ''env-token'', i_role = RoleSuperadmin, i_via_token = True\<rparr>"

definition Can :: "identity \<Rightarrow> role \<Rightarrow> bool" where
  "Can i minimum \<longleftrightarrow> rank (i_role i) \<ge> rank minimum"

definition CanAdmin :: "identity \<Rightarrow> bool" where
  "CanAdmin i \<longleftrightarrow> Can i RoleSuperadmin"
section \<open>Passwords\<close>

lemma b64_encode_chars: "list_all byte_ok bs \<Longrightarrow> set (b64_encode bs) \<subseteq> set b64_alphabet"
proof (induction bs rule: b64_encode.induct)
  case (4 a b c xs)
  then show ?case by (auto simp: b64_char_def byte_ok_def b64_alphabet_length intro!: nth_mem)
qed (auto simp: b64_char_def byte_ok_def b64_alphabet_length intro!: nth_mem)

lemma dollar_free:
  "list_all byte_ok bs \<Longrightarrow> CHR ''$'' \<notin> set (b64_encode bs)" "CHR ''$'' \<notin> set (show_nat n)" "CHR ''$'' \<notin> set ''pbkdf2''"
proof -
  have "CHR ''$'' \<notin> set b64_alphabet" "\<not> is_digit CHR ''$''" by code_simp+
  then show "list_all byte_ok bs \<Longrightarrow> CHR ''$'' \<notin> set (b64_encode bs)" "CHR ''$'' \<notin> set (show_nat n)"
    using b64_encode_chars show_nat_no_char by blast+
qed simp

lemma split_stored:
  assumes "list_all byte_ok salt" and "list_all byte_ok key"
  shows "split_on CHR ''$'' (''pbkdf2$'' @ show_nat n @ ''$'' @ b64_encode salt @ ''$'' @ b64_encode key)
    = [''pbkdf2'', show_nat n, b64_encode salt, b64_encode key]"
proof -
  have "''pbkdf2$'' @ show_nat n @ ''$'' @ b64_encode salt @ ''$'' @ b64_encode key =
      ''pbkdf2'' @ CHR ''$'' # show_nat n @ CHR ''$'' # b64_encode salt @ CHR ''$'' # b64_encode key" by simp
  then show ?thesis
    by (simp only: split_on_append_sep [OF dollar_free(3)] split_on_append_sep [OF dollar_free(2)]
        split_on_append_sep [OF dollar_free(1) [OF assms(1)]] split_on_no_sep [OF dollar_free(1) [OF assms(2)]])
qed

lemma atoi_iterations: "atoi (show_nat pbkdf2Iterations) = Some 210000"
proof -
  have "trim_space (show_nat pbkdf2Iterations) = show_nat pbkdf2Iterations"
    by (rule trim_space_id) (simp add: show_nat_framed)
  with atoi_show_nat [of pbkdf2Iterations] show ?thesis by (simp add: pbkdf2Iterations_def max_int64_def)
qed

text \<open>What the code relies on of PBKDF2: the key has the length asked for and consists of bytes.\<close>

definition kdf_ok :: "kdf \<Rightarrow> bool" where
  "kdf_ok pbkdf2 \<longleftrightarrow> (\<forall>p s i n k. pbkdf2 p s i n = Some k \<longrightarrow> length k = n \<and> list_all byte_ok k)"

text \<open>A password stored with \<open>HashPassword\<close> is accepted, and another one is exactly when PBKDF2 derives the same
  key from it and the stored salt.\<close>

theorem password_verifies:
  assumes "kdf_ok pbkdf2" and "list_all byte_ok salt" and "HashPassword pbkdf2 salt password = Some encoded"
  shows "VerifyPassword pbkdf2 password encoded"
    and "VerifyPassword pbkdf2 other encoded \<longleftrightarrow>
      pbkdf2 other salt (int pbkdf2Iterations) keyLen = pbkdf2 password salt (int pbkdf2Iterations) keyLen"
proof -
  from assms(3) obtain key where key: "pbkdf2 password salt (int pbkdf2Iterations) keyLen = Some key"
    and enc: "encoded = ''pbkdf2$'' @ show_nat pbkdf2Iterations @ ''$'' @ b64_encode salt @ ''$'' @ b64_encode key"
    by (auto simp: HashPassword_def split: option.split_asm)
  from assms(1) key have bytes: "list_all byte_ok key" "length key = keyLen" by (auto simp: kdf_ok_def)
  have it: "atoi (show_nat 210000) = Some 210000" using atoi_iterations by (simp add: pbkdf2Iterations_def)
  have *: "VerifyPassword pbkdf2 q encoded \<longleftrightarrow> pbkdf2 q salt (int pbkdf2Iterations) keyLen = Some key" for q
    unfolding VerifyPassword_def enc split_stored [OF assms(2) bytes(1)]
    by (simp add: it b64_decode_encode assms(2) bytes pbkdf2Iterations_def split: option.split)
  show "VerifyPassword pbkdf2 password encoded" by (simp add: * key)
  show "VerifyPassword pbkdf2 other encoded \<longleftrightarrow>
      pbkdf2 other salt (int pbkdf2Iterations) keyLen = pbkdf2 password salt (int pbkdf2Iterations) keyLen"
    by (simp add: * key)
qed

section \<open>The window of a one-time code\<close>

lemma length_show_nat: "n < 10 ^ k \<Longrightarrow> 0 < k \<Longrightarrow> length (show_nat n) \<le> k"
proof (induction n arbitrary: k rule: show_nat.induct)
  case (1 n)
  show ?case
  proof (cases "n < 10")
    case True
    with 1 show ?thesis by (subst show_nat.simps) simp
  next
    case False
    with "1.prems" have "k \<noteq> 1" by auto
    with "1.prems" obtain j where j: "k = Suc j" "0 < j" by (cases k) auto
    with "1.prems" have "n div 10 < 10 ^ j" by (simp add: less_mult_imp_div_less mult.commute)
    with "1.IH" [OF False, of j] j False show ?thesis by (subst show_nat.simps) simp
  qed
qed

lemma pow10_digits: "pow10 TOTPDigits = 1000000"
  by (simp add: pow10_def TOTPDigits_def numeral_eq_Suc)

lemma length_hotp: "length (hotp hmac key c) = TOTPDigits"
proof -
  have "unat (v mod 1000000 :: 32 word) < 10 ^ 6" for v
    by (simp add: unat_mod_distrib)
  then have "length (show_nat (unat (v mod 1000000 :: 32 word))) \<le> 6" for v
    by (rule length_show_nat) simp
  then show ?thesis by (simp add: hotp_def pad_left_def pow10_digits [unfolded TOTPDigits_def] TOTPDigits_def Let_def)
qed

lemma totp_counter_eq:
  assumes "0 \<le> to_unix t" and "to_unix t < 2 ^ 63"
  shows "totp_counter t = word_of_int (to_unix t div 30)"
proof -
  have "uint (word_of_int (to_unix t) :: 64 word) = to_unix t"
    using assms by (simp add: unsigned_of_int take_bit_int_eq_self)
  moreover have "uint (word_of_int 30 :: 64 word) = 30" by simp
  ultimately have "uint (totp_counter t) = to_unix t div 30"
    by (simp add: totp_counter_def TOTPPeriod_def second_def uint_div)
  then show ?thesis by (metis word_of_int_uint)
qed

lemma to_unix_period: "to_unix (t + k * TOTPPeriod) = to_unix t + 30 * k"
proof -
  have "(t + k * TOTPPeriod) div second = t div second + 30 * k"
    using div_mult_self1 [of second t "30 * k"] by (simp add: TOTPPeriod_def second_def algebra_simps)
  then show ?thesis by (simp add: to_unix_def)
qed

lemma skewed_counter:
  assumes "30 \<le> to_unix t" and "to_unix t + 30 < 2 ^ 63" and "k \<in> {-1, 0, 1}"
  shows "skewed (totp_counter t) k = Some (totp_counter (t + k * TOTPPeriod))"
proof -
  let ?n = "to_unix t div 30"
  have n: "1 \<le> ?n" "?n < 2 ^ 63" using assms by linarith+
  have c: "totp_counter t = word_of_int ?n" using assms by (intro totp_counter_eq) auto
  have "to_unix (t + k * TOTPPeriod) div 30 = ?n + k" by (simp add: to_unix_period)
  moreover have "totp_counter (t + k * TOTPPeriod) = word_of_int (to_unix (t + k * TOTPPeriod) div 30)"
    using assms by (intro totp_counter_eq) (auto simp: to_unix_period)
  ultimately have d: "totp_counter (t + k * TOTPPeriod) = word_of_int ?n + word_of_int k"
    by simp
  have "\<not> (word_of_int ?n :: 64 word) < 1"
    using n by (simp add: word_less_def unsigned_of_int take_bit_int_eq_self)
  with assms(3) show ?thesis by (auto simp: skewed_def c d)
qed
lemma verify_totp_key:
  assumes "totp_key secret = Some key" and "30 \<le> to_unix t" and "to_unix t + 30 < 2 ^ 63"
  shows "VerifyTOTP hmac secret code t \<longleftrightarrow>
    (\<exists>k. k \<in> {-1, 0, 1} \<and> hotp hmac key (totp_counter (t + k * TOTPPeriod)) = trim_space code)"
proof -
  have "[- TOTPSkew .. TOTPSkew] = [-1, 0, 1]" by (simp add: TOTPSkew_def upto.simps)
  then have "VerifyTOTP hmac secret code t \<longleftrightarrow> length (trim_space code) = TOTPDigits \<and>
      (\<exists>k\<in>{-1, 0, 1}. hotp hmac key (totp_counter (t + k * TOTPPeriod)) = trim_space code)"
    using skewed_counter [OF assms(2,3)] by (simp add: VerifyTOTP_def Let_def assms(1))
  then show ?thesis using length_hotp by metis
qed

text \<open>A one-time code is accepted exactly when an authenticator shows it now, half a minute earlier or half a minute
  later.\<close>

theorem totp_window:
  assumes "30 \<le> to_unix t" and "to_unix t + 30 < 2 ^ 63"
  shows "VerifyTOTP hmac secret code t \<longleftrightarrow>
    (\<exists>k. k \<in> {-1, 0, 1} \<and> TOTPCode hmac secret (t + k * TOTPPeriod) = Some (trim_space code))"
proof (cases "totp_key secret")
  case None
  then show ?thesis by (simp add: VerifyTOTP_def TOTPCode_def Let_def)
next
  case (Some key)
  then show ?thesis by (simp add: verify_totp_key [OF Some assms] TOTPCode_def)
qed

lemma steps_near:
  fixes a b :: int
  assumes "a - 30 \<le> b" and "b \<le> a + 30"
  shows "b div 30 - a div 30 \<in> {-1, 0, 1}"
proof -
  have "(a - 30) div 30 \<le> b div 30" "b div 30 \<le> (a + 30) div 30"
    using assms by (simp_all only: zdiv_mono1 zero_less_numeral)
  moreover have "(a - 30) div 30 = a div 30 - 1"
    using div_mult_self1 [of 30 a "-1"] by simp
  ultimately show ?thesis by auto
qed

text \<open>A phone whose clock is up to half a minute off still signs in.\<close>

theorem totp_drift:
  assumes "TOTPCode hmac secret shown = Some code" and "trim_space code = code"
    and "\<bar>t - shown\<bar> \<le> TOTPPeriod" and "60 \<le> to_unix t" and "to_unix t + 60 < 2 ^ 63"
  shows "VerifyTOTP hmac secret code t"
proof -
  from assms(1) obtain key where key: "totp_key secret = Some key" and code: "code = hotp hmac key (totp_counter shown)"
    by (auto simp: TOTPCode_def)
  have "to_unix t - 30 \<le> to_unix shown" "to_unix shown \<le> to_unix t + 30"
    using assms(3) by (simp_all add: to_unix_def TOTPPeriod_def second_def)
  note near = this
  have range: "0 \<le> to_unix shown" "to_unix shown < 2 ^ 63" using near assms(4,5) by linarith+
  have step: "to_unix shown div 30 - to_unix t div 30 \<in> {-1, 0, 1}" by (rule steps_near [OF near])
  define k where "k = to_unix shown div 30 - to_unix t div 30"
  have "totp_counter (t + k * TOTPPeriod) = word_of_int (to_unix (t + k * TOTPPeriod) div 30)"
    using assms(4,5) step by (intro totp_counter_eq) (auto simp: to_unix_period k_def)
  also have "to_unix (t + k * TOTPPeriod) div 30 = to_unix shown div 30"
    by (simp only: to_unix_period) (simp add: k_def [symmetric], simp add: k_def)
  also have "word_of_int (to_unix shown div 30) = totp_counter shown"
    by (simp add: totp_counter_eq [OF range])
  finally have "hotp hmac key (totp_counter (t + k * TOTPPeriod)) = trim_space code"
    by (simp add: code [symmetric] assms(2))
  with step show ?thesis
    using verify_totp_key [OF key] assms(4,5) by (auto simp: k_def)
qed

section \<open>Random indices\<close>

text \<open>Every index is hit by the same number of byte values, so no index is likelier than another.\<close>

theorem rand_index_uniform:
  assumes "0 < n" and "n \<le> 256" and "i < n"
  shows "card {b. b < 256 \<and> randIndex n (b # bs) = Some (i, bs)} = 256 div n"
proof -
  have shorter: "rand_loop n limit bs' = Some (j, rest) \<Longrightarrow> length rest < length bs'" for limit bs' j rest
    by (induction bs') (auto split: if_split_asm)
  have "{b. b < 256 \<and> randIndex n (b # bs) = Some (i, bs)} = {b. b < 256 div n * n \<and> b mod n = i}"
    using assms shorter [of _ bs i bs]
    by (auto simp: randIndex_def minus_mod_eq_div_mult split: if_split_asm intro: order_less_le_trans)
  also have "\<dots> = (\<lambda>q. q * n + i) ` {..<256 div n}"
  proof (intro equalityI subsetI)
    fix b assume "b \<in> {b. b < 256 div n * n \<and> b mod n = i}"
    then have "b div n < 256 div n" "b = b div n * n + i"
      using less_mult_imp_div_less by auto
    then show "b \<in> (\<lambda>q. q * n + i) ` {..<256 div n}" by blast
  next
    fix b assume "b \<in> (\<lambda>q. q * n + i) ` {..<256 div n}"
    then obtain q where "b = q * n + i" "q < 256 div n" by auto
    moreover from this assms(3) have "q * n + i < Suc q * n" "Suc q * n \<le> 256 div n * n"
      by (simp, intro mult_le_mono1) simp
    ultimately show "b \<in> {b. b < 256 div n * n \<and> b mod n = i}" using assms(3) by simp
  qed
  finally show ?thesis
    using assms(1) by (simp add: card_image inj_on_def)
qed

definition sample_hmac :: "bytes \<Rightarrow> bytes \<Rightarrow> bytes" where
  "sample_hmac key msg = key @ msg @ [0, 0, 0, 0]"

theorem totp_window_witness:
  "VerifyTOTP sample_hmac ''AAAA'' (the (TOTPCode sample_hmac ''AAAA'' (unix_time 970))) (unix_time 1000)"
proof -
  have t: "30 \<le> to_unix (unix_time 1000)" "to_unix (unix_time 1000) + 30 < 2 ^ 63" by code_simp+
  have "TOTPCode sample_hmac ''AAAA'' (unix_time 1000 + -1 * TOTPPeriod)
      = Some (trim_space (the (TOTPCode sample_hmac ''AAAA'' (unix_time 970))))" by code_simp
  with totp_window [OF t, of sample_hmac "''AAAA''" "the (TOTPCode sample_hmac ''AAAA'' (unix_time 970))"]
  show ?thesis by blast
qed

end
