(* ===== verification/NodeStore.thy ===== *)
theory NodeStore
  imports SecretBox
begin

text \<open>
  The node half of \<open>core/internal/store/store.go\<close>: the \<open>nodes\<close> table (registration by a one-time
  join token, the facts agents report) and the \<open>node_configs\<close> table (numbered config versions,
  their results, the sweep). Columns that hold ciphertext are sealed and opened with the box of
  \<open>SecretBox\<close>. A unique index is a check on the table an update would leave; an update that breaks
  it is an error and leaves the table as it was.

  The theorems show that a join token is redeemed at most once, that a stored config is read back
  as it was written and under a version newer than every other, that a config that failed on the
  agent is never pushed again, and what the sweep keeps.
\<close>

datatype db_error =
    ErrNoRows
  | UniqueViolation
  | ForeignKey
  | Sealing box_error
  | PlaintextSubToken

record node =
  n_id :: id
  n_name :: string
  n_join_token_hash :: "string option"
  n_credential_hash :: "string option"
  n_hostname :: string
  n_public_ip :: string
  n_agent_version :: string
  n_xray_version :: string
  n_xray_installed_version :: string
  n_platform :: string
  n_created_at :: int
  n_registered_at :: "int option"
  n_last_seen_at :: "int option"
  n_config_skeleton :: string
  n_display_name :: string
  n_address :: string
  n_sort_order :: int
  n_traffic_rate :: rat

definition Dialable :: "node \<Rightarrow> string" where
  "Dialable n = (if n_address n \<noteq> [] then n_address n else n_public_ip n)"

text \<open>The indexes of the table: primary key, unique names, unique token and credential hashes
  among the rows that have one.\<close>

definition nodes_ok :: "node list \<Rightarrow> bool" where
  "nodes_ok t \<longleftrightarrow> distinct (map n_id t) \<and> distinct (map n_name t) \<and>
     distinct (List.map_filter n_join_token_hash t) \<and> distinct (List.map_filter n_credential_hash t)"

definition node_by_id :: "id \<Rightarrow> node list \<Rightarrow> node option" where
  "node_by_id i t = sql_row (\<lambda>r. n_id r = i) t"

definition scanNode :: "box \<Rightarrow> node \<Rightarrow> (db_error, node) result" where
  "scanNode b n =
     (if n_config_skeleton n \<noteq> []
      then (case Open b (sealed_aad (NodeSkeletonKey (n_id n))) (n_config_skeleton n) of
              Inl e \<Rightarrow> Inl (Sealing e)
            | Inr plain \<Rightarrow> Inr (n\<lparr>n_config_skeleton := plain\<rparr>))
      else Inr n)"

definition scan_found :: "box \<Rightarrow> node option \<Rightarrow> (db_error, node) result" where
  "scan_found b r = (case r of None \<Rightarrow> Inl ErrNoRows | Some n \<Rightarrow> scanNode b n)"

definition GetNode :: "box \<Rightarrow> id \<Rightarrow> node list \<Rightarrow> (db_error, node) result" where
  "GetNode b i t = scan_found b (node_by_id i t)"

fun scan_rows :: "box \<Rightarrow> node list \<Rightarrow> (db_error, node list) result" where
  "scan_rows b [] = Inr []"
| "scan_rows b (r # rs) = bind_result (scanNode b r) (\<lambda>n. bind_result (scan_rows b rs) (\<lambda>ns. Inr (n # ns)))"

text \<open>\<open>ORDER BY sort_order = 0, sort_order, created_at\<close>, as stable sorts from the last key to the first.\<close>

definition ListNodes :: "box \<Rightarrow> node list \<Rightarrow> (db_error, node list) result" where
  "ListNodes b t =
     scan_rows b (sort_key (\<lambda>n. n_sort_order n = 0) (sort_key n_sort_order (sort_key n_created_at t)))"

definition FindNodeByJoinTokenHash :: "box \<Rightarrow> string \<Rightarrow> node list \<Rightarrow> (db_error, node) result" where
  "FindNodeByJoinTokenHash b h t = scan_found b (sql_row (\<lambda>r. n_join_token_hash r = Some h) t)"

definition FindNodeByCredentialHash :: "box \<Rightarrow> string \<Rightarrow> node list \<Rightarrow> (db_error, node) result" where
  "FindNodeByCredentialHash b h t = scan_found b (sql_row (\<lambda>r. n_credential_hash r = Some h) t)"

text \<open>An \<open>UPDATE nodes .. WHERE\<close> under the unique indexes, reporting no row as an error.\<close>

definition update_nodes :: "(node \<Rightarrow> bool) \<Rightarrow> (node \<Rightarrow> node) \<Rightarrow> node list \<Rightarrow> (db_error, node list) result" where
  "update_nodes P f t =
     (let t' = sql_update P f t in
      if \<not> nodes_ok t' then Inl UniqueViolation
      else if rows_affected P t = 0 then Inl ErrNoRows
      else Inr t')"

definition UpdateNode :: "id \<Rightarrow> string \<Rightarrow> string \<Rightarrow> string \<Rightarrow> node list \<Rightarrow> (db_error, node list) result" where
  "UpdateNode i name displayName address t =
     update_nodes (\<lambda>r. n_id r = i)
       (\<lambda>r. r\<lparr>n_name := name, n_display_name := displayName, n_address := address\<rparr>) t"

text \<open>\<open>RedeemJoinToken\<close>: one guarded \<open>UPDATE\<close>, then the row is read by its new credential.\<close>

definition redeem_row :: "string \<Rightarrow> string \<Rightarrow> string \<Rightarrow> string \<Rightarrow> int \<Rightarrow> node \<Rightarrow> node" where
  "redeem_row credentialHash hostname agentVersion publicIP now r =
     r\<lparr>n_credential_hash := Some credentialHash, n_join_token_hash := None, n_hostname := hostname,
       n_agent_version := agentVersion, n_public_ip := publicIP, n_registered_at := Some now\<rparr>"

definition RedeemJoinToken ::
  "box \<Rightarrow> string \<Rightarrow> string \<Rightarrow> string \<Rightarrow> string \<Rightarrow> string \<Rightarrow> int \<Rightarrow> node list \<Rightarrow>
   (db_error, node) result \<times> node list" where
  "RedeemJoinToken b joinTokenHash credentialHash hostname agentVersion publicIP now t =
     (case update_nodes (\<lambda>r. n_join_token_hash r = Some joinTokenHash)
             (redeem_row credentialHash hostname agentVersion publicIP now) t of
        Inl e \<Rightarrow> (Inl e, t)
      | Inr t' \<Rightarrow> (FindNodeByCredentialHash b credentialHash t', t'))"

definition ResetJoinToken :: "id \<Rightarrow> string \<Rightarrow> node list \<Rightarrow> (db_error, node list) result" where
  "ResetJoinToken i joinTokenHash t =
     update_nodes (\<lambda>r. n_id r = i) (\<lambda>r. r\<lparr>n_join_token_hash := Some joinTokenHash\<rparr>) t"

definition UpdateHello :: "id \<Rightarrow> string \<Rightarrow> string \<Rightarrow> string \<Rightarrow> node list \<Rightarrow> node list" where
  "UpdateHello i publicIP agentVersion xrayVersion t =
     sql_update (\<lambda>r. n_id r = i)
       (\<lambda>r. r\<lparr>n_public_ip := (if publicIP = [] then n_public_ip r else publicIP),
              n_agent_version := agentVersion, n_xray_version := xrayVersion,
              n_xray_installed_version := xrayVersion\<rparr>) t"

definition SetXrayVersions :: "id \<Rightarrow> string \<Rightarrow> string \<Rightarrow> node list \<Rightarrow> bool \<times> node list" where
  "SetXrayVersions i running installed t =
     (if running = [] \<and> installed = [] then (False, t)
      else (let P = (\<lambda>r. n_id r = i \<and>
                       (n_xray_version r \<noteq> running \<or> n_xray_installed_version r \<noteq> installed))
            in (rows_affected P t > 0,
                sql_update P (\<lambda>r. r\<lparr>n_xray_version := running, n_xray_installed_version := installed\<rparr>) t)))"

definition SetNodePlatform :: "id \<Rightarrow> string \<Rightarrow> node list \<Rightarrow> bool \<times> node list" where
  "SetNodePlatform i platform t =
     (if platform = [] then (False, t)
      else (let P = (\<lambda>r. n_id r = i \<and> n_platform r \<noteq> platform)
            in (rows_affected P t > 0, sql_update P (\<lambda>r. r\<lparr>n_platform := platform\<rparr>) t)))"

definition TouchLastSeen :: "id \<Rightarrow> int \<Rightarrow> node list \<Rightarrow> node list" where
  "TouchLastSeen i ts t = sql_update (\<lambda>r. n_id r = i) (\<lambda>r. r\<lparr>n_last_seen_at := Some ts\<rparr>) t"

definition SetConfigSkeleton ::
  "box \<Rightarrow> bytes \<Rightarrow> id \<Rightarrow> string \<Rightarrow> node list \<Rightarrow> (db_error, node list) result" where
  "SetConfigSkeleton b nonce i skeleton t =
     (let sealed = (if skeleton \<noteq> [] then Seal b nonce (sealed_aad (NodeSkeletonKey i)) skeleton
                    else skeleton)
      in if rows_affected (\<lambda>r. n_id r = i) t = 0 then Inl ErrNoRows
         else Inr (sql_update (\<lambda>r. n_id r = i) (\<lambda>r. r\<lparr>n_config_skeleton := sealed\<rparr>) t))"

section \<open>Config versions\<close>

record node_config =
  nc_node_id :: id
  nc_version :: int
  nc_config :: string
  nc_probe_outbound :: string
  nc_created_at :: int
  nc_applied :: int
  nc_error :: string

definition configs_ok :: "node_config list \<Rightarrow> bool" where
  "configs_ok t \<longleftrightarrow> distinct (map (\<lambda>c. (nc_node_id c, nc_version c)) t)"

definition node_versions :: "id \<Rightarrow> node_config list \<Rightarrow> int list" where
  "node_versions i t = map nc_version (filter (\<lambda>c. nc_node_id c = i) t)"

definition next_version :: "id \<Rightarrow> node_config list \<Rightarrow> int" where
  "next_version i t = (case node_versions i t of [] \<Rightarrow> 1 | vs \<Rightarrow> Max (set vs) + 1)"

text \<open>\<open>InsertConfig\<close>: \<open>nodes\<close> are the identifiers the foreign key refers to; the result carries
  the plaintext, the table the sealed columns.\<close>

definition InsertConfig ::
  "box \<Rightarrow> bytes \<Rightarrow> bytes \<Rightarrow> id set \<Rightarrow> id \<Rightarrow> string \<Rightarrow> string \<Rightarrow> int \<Rightarrow> node_config list \<Rightarrow>
   (db_error, node_config) result \<times> node_config list" where
  "InsertConfig b nonce nonce' nodes i config probeOutbound now t =
     (let v = next_version i t;
          c = \<lparr>nc_node_id = i, nc_version = v, nc_config = config,
               nc_probe_outbound = probeOutbound, nc_created_at = now, nc_applied = 0, nc_error = []\<rparr>;
          sealed = Seal b nonce (sealed_aad (NodeConfigKey i v)) config;
          sealedProbe = (if probeOutbound \<noteq> []
                         then Seal b nonce' (sealed_aad (NodeProbeKey i v)) probeOutbound else [])
      in if i \<notin> nodes then (Inl ForeignKey, t)
         else (Inr c, t @ [c\<lparr>nc_config := sealed, nc_probe_outbound := sealedProbe\<rparr>]))"

text \<open>\<open>ORDER BY version DESC LIMIT 1\<close>.\<close>

definition newest :: "node_config list \<Rightarrow> node_config option" where
  "newest rows =
     (if rows = [] then None
      else find (\<lambda>r. nc_version r = Max (set (map nc_version rows))) rows)"

definition scanConfig :: "box \<Rightarrow> node_config \<Rightarrow> (db_error, node_config) result" where
  "scanConfig b c =
     (case Open b (sealed_aad (NodeConfigKey (nc_node_id c) (nc_version c))) (nc_config c) of
        Inl e \<Rightarrow> Inl (Sealing e)
      | Inr plain \<Rightarrow>
          Inr (c\<lparr>nc_config := plain,
                 nc_probe_outbound :=
                   (if nc_probe_outbound c \<noteq> []
                    then (case Open b (sealed_aad (NodeProbeKey (nc_node_id c) (nc_version c)))
                                 (nc_probe_outbound c) of
                            Inl _ \<Rightarrow> []
                          | Inr probe \<Rightarrow> probe)
                    else [])\<rparr>))"

definition scan_config_found :: "box \<Rightarrow> node_config option \<Rightarrow> (db_error, node_config) result" where
  "scan_config_found b r = (case r of None \<Rightarrow> Inl ErrNoRows | Some c \<Rightarrow> scanConfig b c)"

definition ConfigAt :: "box \<Rightarrow> id \<Rightarrow> int \<Rightarrow> node_config list \<Rightarrow> (db_error, node_config) result" where
  "ConfigAt b i v t = scan_config_found b (sql_row (\<lambda>c. nc_node_id c = i \<and> nc_version c = v) t)"

definition LatestConfig :: "box \<Rightarrow> id \<Rightarrow> node_config list \<Rightarrow> (db_error, node_config) result" where
  "LatestConfig b i t = scan_config_found b (newest (filter (\<lambda>c. nc_node_id c = i) t))"

definition LatestPushableConfig :: "box \<Rightarrow> id \<Rightarrow> node_config list \<Rightarrow> (db_error, node_config) result" where
  "LatestPushableConfig b i t =
     scan_config_found b (newest (filter (\<lambda>c. nc_node_id c = i \<and> nc_applied c \<ge> 0) t))"

definition SetConfigResult :: "id \<Rightarrow> int \<Rightarrow> bool \<Rightarrow> string \<Rightarrow> node_config list \<Rightarrow> node_config list" where
  "SetConfigResult i v applied errMsg t =
     sql_update (\<lambda>c. nc_node_id c = i \<and> nc_version c = v)
       (\<lambda>c. c\<lparr>nc_applied := (if applied then 1 else -1), nc_error := errMsg\<rparr>) t"

definition ConfigHistoryDepth :: nat where "ConfigHistoryDepth = 20"

text \<open>\<open>ROW_NUMBER() OVER (PARTITION BY node_id ORDER BY version DESC)\<close>: versions of a node differ.\<close>

definition row_number :: "node_config list \<Rightarrow> node_config \<Rightarrow> nat" where
  "row_number t r =
     Suc (length (filter (\<lambda>s. nc_node_id s = nc_node_id r \<and> nc_version s > nc_version r) t))"

definition PruneConfigs :: "node_config list \<Rightarrow> nat \<times> node_config list" where
  "PruneConfigs t =
     (let P = (\<lambda>r. row_number t r > ConfigHistoryDepth) in (rows_affected P t, sql_delete P t))"

record config_version =
  cv_version :: int
  cv_created_at :: int
  cv_applied :: int
  cv_error :: string

definition ConfigVersions :: "id \<Rightarrow> int \<Rightarrow> node_config list \<Rightarrow> config_version list" where
  "ConfigVersions i limit t =
     (let limit = (if limit \<le> 0 \<or> limit > 100 then 20 else limit)
      in map (\<lambda>c. \<lparr>cv_version = nc_version c, cv_created_at = nc_created_at c,
                  cv_applied = nc_applied c, cv_error = nc_error c\<rparr>)
           (take (nat limit) (sort_key (\<lambda>c. - nc_version c) (filter (\<lambda>c. nc_node_id c = i) t))))"

section \<open>Lemmas\<close>

lemma set_map_filter: "x \<in> set (List.map_filter f t) \<longleftrightarrow> (\<exists>r\<in>set t. f r = Some x)"
  by (induction t) (auto simp: List.map_filter_simps split: option.splits)

lemma map_filter_unique:
  assumes "distinct (List.map_filter f t)" and "r \<in> set t" and "s \<in> set t"
    and "f r = Some x" and "f s = Some x"
  shows "r = s"
  using assms
proof (induction t)
  case (Cons a t)
  have "f a = Some x \<Longrightarrow> \<forall>q\<in>set t. f q \<noteq> Some x"
    using Cons.prems(1) by (auto simp: List.map_filter_simps set_map_filter)
  with Cons show ?case
    by (auto simp: List.map_filter_simps split: option.splits)
qed simp

lemma sql_row_unique:
  assumes "distinct (List.map_filter f t)" and "r \<in> set t" and "f r = Some x"
  shows "sql_row (\<lambda>r. f r = Some x) t = Some r"
proof -
  obtain s where s: "sql_row (\<lambda>r. f r = Some x) t = Some s"
    using assms(2,3) by (cases "sql_row (\<lambda>r. f r = Some x) t") (auto simp: sql_row_None)
  with sql_row_Some [OF s] map_filter_unique [OF assms(1)] assms(2,3) show ?thesis by blast
qed

lemma update_nodes_none:
  assumes "nodes_ok t" and "\<forall>r\<in>set t. \<not> P r"
  shows "update_nodes P f t = Inl ErrNoRows"
proof -
  have "sql_update P f t = t"
    using assms(2) by (auto simp: sql_update_def intro: map_idI)
  with assms show ?thesis by (simp add: update_nodes_def)
qed

lemma update_nodes_Inr:
  "update_nodes P f t = Inr t' \<longleftrightarrow> t' = sql_update P f t \<and> nodes_ok t' \<and> (\<exists>r\<in>set t. P r)"
  by (auto simp: update_nodes_def Let_def)

lemma scanNode_id: "scanNode b n = Inr m \<Longrightarrow> n_id m = n_id n"
  by (auto simp: scanNode_def split: if_splits sum.splits)

lemma newest_Some:
  assumes "newest rows = Some r"
  shows "r \<in> set rows \<and> (\<forall>s\<in>set rows. nc_version s \<le> nc_version r)"
  using assms by (auto simp: newest_def find_Some_iff split: if_splits)

lemma newest_None [simp]: "newest rows = None \<longleftrightarrow> rows = []"
proof -
  have "\<exists>r\<in>set rows. nc_version r = Max (nc_version ` set rows)" if "rows \<noteq> []"
    using that Max_in [of "nc_version ` set rows"] by fastforce
  then show ?thesis by (auto simp: newest_def find_None_iff)
qed

lemma newest_snoc:
  assumes "\<forall>s\<in>set rows. nc_version s < nc_version r"
  shows "newest (rows @ [r]) = Some r"
proof -
  obtain r' where r': "newest (rows @ [r]) = Some r'"
    by (cases "newest (rows @ [r])") auto
  then have "r' \<in> set (rows @ [r])" "nc_version r \<le> nc_version r'"
    using newest_Some by fastforce+
  with assms r' show ?thesis by fastforce
qed

lemma next_version_newer: "v \<in> set (node_versions i t) \<Longrightarrow> v < next_version i t"
  unfolding next_version_def
  by (cases "node_versions i t") (auto simp: less_Suc_eq_le intro: le_imp_less_Suc le_less_trans [OF Max_ge])

lemma scanConfig_sealed:
  assumes "box_ok b" and "nonce_ok b nonce" and "nonce_ok b nonce'"
  shows "scanConfig b (c\<lparr>nc_config := Seal b nonce (sealed_aad (NodeConfigKey (nc_node_id c) (nc_version c))) config,
      nc_probe_outbound := (if probe \<noteq> []
        then Seal b nonce' (sealed_aad (NodeProbeKey (nc_node_id c) (nc_version c))) probe else [])\<rparr>)
    = Inr (c\<lparr>nc_config := config, nc_probe_outbound := probe\<rparr>)"
  using assms by (simp add: scanConfig_def Open_Seal Seal_nonempty)

lemma scanConfig_columns:
  assumes "scanConfig b s = Inr c"
  shows "nc_node_id c = nc_node_id s \<and> nc_version c = nc_version s \<and> nc_applied c = nc_applied s"
proof -
  from assms obtain plain probe where "c = s\<lparr>nc_config := plain, nc_probe_outbound := probe\<rparr>"
    unfolding scanConfig_def by (auto split: sum.splits simp del: if_split)
  then show ?thesis by simp
qed

text \<open>Row numbers of one node's rows are different, so at most the depth survive the sweep.\<close>

lemma row_number_inj:
  assumes "configs_ok t" and "r \<in> set t" and "s \<in> set t" and "nc_node_id r = nc_node_id s"
    and "row_number t r = row_number t s"
  shows "r = s"
proof -
  have "\<not> nc_version x < nc_version y"
    if xy: "x \<in> set t" "y \<in> set t" "nc_node_id x = nc_node_id y" "row_number t x = row_number t y" for x y
  proof
    assume lt: "nc_version x < nc_version y"
    let ?N = "\<lambda>z. filter (\<lambda>s. nc_node_id s = nc_node_id z \<and> nc_version s > nc_version z) t"
    have d: "distinct t" using assms(1) by (auto simp: configs_ok_def distinct_map)
    have "set (?N y) \<subset> set (?N x)"
      using lt xy by fastforce
    then have "card (set (?N y)) < card (set (?N x))"
      by (simp add: psubset_card_mono)
    then have "length (?N y) < length (?N x)"
      using distinct_card [OF distinct_filter [OF d]] by simp
    with xy(4) show False by (simp add: row_number_def)
  qed
  with assms(2-5) have "nc_version r = nc_version s" by (metis linorder_neqE)
  with assms show ?thesis by (auto simp: configs_ok_def distinct_map inj_on_def)
qed

lemma prune_length:
  assumes "configs_ok t"
  shows "length (filter (\<lambda>c. nc_node_id c = i) (snd (PruneConfigs t))) \<le> ConfigHistoryDepth"
proof -
  let ?kept = "filter (\<lambda>c. nc_node_id c = i) (snd (PruneConfigs t))"
  have d: "distinct ?kept"
    using assms by (auto simp: PruneConfigs_def Let_def sql_delete_def configs_ok_def distinct_map)
  have "inj_on (row_number t) (set ?kept)"
    using row_number_inj [OF assms]
    by (auto simp: inj_on_def PruneConfigs_def Let_def sql_delete_def)
  moreover have "row_number t ` set ?kept \<subseteq> {1..ConfigHistoryDepth}"
    by (auto simp: PruneConfigs_def Let_def sql_delete_def not_less row_number_def)
  ultimately have "card (set ?kept) \<le> card {1..ConfigHistoryDepth}"
    by (metis card_image card_mono finite_atLeastAtMost)
  with distinct_card [OF d] show ?thesis by (metis card_atLeastAtMost diff_Suc_1)
qed

lemma newest_row_number: "newest (filter (\<lambda>c. nc_node_id c = i) t) = Some r \<Longrightarrow> row_number t r = 1"
  by (fastforce simp: row_number_def filter_empty_conv dest!: newest_Some)

lemma newest_unique:
  assumes "configs_ok t" and "newest (filter P t) = Some r" and "\<And>s. P s \<Longrightarrow> nc_node_id s = i"
    and "r \<in> set (filter P t')" and "set t' \<subseteq> set t"
  shows "newest (filter P t') = Some r"
proof -
  obtain s where s: "newest (filter P t') = Some s"
    using assms(4) by (cases "newest (filter P t')") (auto simp: filter_empty_conv)
  from newest_Some [OF s] newest_Some [OF assms(2)] assms(4,5)
  have "nc_version s = nc_version r" "s \<in> set t" "P s" "r \<in> set t" "P r" by fastforce+
  with assms(1,3) have "s = r"
    by (fastforce simp: configs_ok_def distinct_map inj_on_def)
  with s show ?thesis by simp
qed

section \<open>Properties\<close>

text \<open>A join token is redeemed at most once. A successful redemption returns the node that held
  the token, which from then on is the node its new credential authenticates; a second redemption
  of the same token, with whatever credential, finds no row and changes nothing.\<close>

theorem join_token_single_use:
  assumes "nodes_ok t" and "RedeemJoinToken b tok cred h v ip now t = (Inr n, t')"
  shows "nodes_ok t' \<and> (\<exists>n0\<in>set t. n_join_token_hash n0 = Some tok \<and> n_id n = n_id n0) \<and>
    FindNodeByCredentialHash b cred t' = Inr n \<and>
    RedeemJoinToken b tok cred' h' v' ip' now' t' = (Inl ErrNoRows, t')"
proof -
  let ?P = "\<lambda>r. n_join_token_hash r = Some tok"
  let ?f = "redeem_row cred h v ip now"
  from assms(2) have t': "t' = sql_update ?P ?f t" "nodes_ok t'" "\<exists>r\<in>set t. ?P r"
    and n: "FindNodeByCredentialHash b cred t' = Inr n"
    by (auto simp: RedeemJoinToken_def update_nodes_Inr split: sum.splits)
  then obtain n0 where n0: "n0 \<in> set t" "?P n0" by blast
  have "?f n0 \<in> set t'" using n0 t'(1) by (force simp: set_sql_update)
  moreover have "n_credential_hash (?f n0) = Some cred" by (simp add: redeem_row_def)
  ultimately have "sql_row (\<lambda>r. n_credential_hash r = Some cred) t' = Some (?f n0)"
    using t'(2) by (intro sql_row_unique) (auto simp: nodes_ok_def)
  with n have "n_id n = n_id n0"
    by (auto simp: FindNodeByCredentialHash_def scan_found_def redeem_row_def dest: scanNode_id)
  moreover have "\<forall>r\<in>set t'. \<not> ?P r"
    using t'(1) by (auto simp: set_sql_update redeem_row_def)
  then have "RedeemJoinToken b tok cred' h' v' ip' now' t' = (Inl ErrNoRows, t')"
    using update_nodes_none [OF t'(2)] by (simp add: RedeemJoinToken_def)
  ultimately show ?thesis using t'(2) n n0 by blast
qed

definition demo_node :: node where
  "demo_node = \<lparr>n_id = ''01'', n_name = ''tokyo'', n_join_token_hash = Some ''t'', n_credential_hash = None,
     n_hostname = [], n_public_ip = [], n_agent_version = [], n_xray_version = [],
     n_xray_installed_version = [], n_platform = [], n_created_at = 5, n_registered_at = None,
     n_last_seen_at = None, n_config_skeleton = [], n_display_name = [], n_address = [],
     n_sort_order = 0, n_traffic_rate = 1\<rparr>"

theorem join_token_single_use_witness:
  "RedeemJoinToken plain_box ''t'' ''c2'' [] [] [] 9 [redeem_row ''c'' ''h'' ''v'' ''ip'' 7 demo_node]
     = (Inl ErrNoRows, [redeem_row ''c'' ''h'' ''v'' ''ip'' 7 demo_node])"
proof -
  have ok: "nodes_ok [demo_node]"
    by (simp add: nodes_ok_def demo_node_def List.map_filter_simps)
  have "RedeemJoinToken plain_box ''t'' ''c'' ''h'' ''v'' ''ip'' 7 [demo_node]
      = (Inr (redeem_row ''c'' ''h'' ''v'' ''ip'' 7 demo_node),
         [redeem_row ''c'' ''h'' ''v'' ''ip'' 7 demo_node])"
    by (simp add: RedeemJoinToken_def update_nodes_def sql_update_def nodes_ok_def demo_node_def
        redeem_row_def List.map_filter_simps FindNodeByCredentialHash_def scan_found_def sql_row_def
        scanNode_def Let_def rows_affected_def)
  from join_token_single_use [OF ok this] show ?thesis by blast
qed

lemma inserted_config:
  assumes "configs_ok t" and "box_ok b" and "nonce_ok b nonce" and "nonce_ok b nonce'" and "i \<in> nodes"
    and "InsertConfig b nonce nonce' nodes i config probe now t = (r, t')"
  shows "\<exists>c. r = Inr c \<and> nc_config c = config \<and> nc_probe_outbound c = probe \<and> configs_ok t' \<and>
    (\<forall>v\<in>set (node_versions i t). v < nc_version c) \<and>
    ConfigAt b i (nc_version c) t' = Inr c \<and> LatestConfig b i t' = Inr c \<and>
    LatestPushableConfig b i t' = Inr c"
proof -
  define v where "v = next_version i t"
  define c where "c = \<lparr>nc_node_id = i, nc_version = v, nc_config = config, nc_probe_outbound = probe,
    nc_created_at = now, nc_applied = 0, nc_error = []\<rparr>"
  define s where "s = c\<lparr>nc_config := Seal b nonce (sealed_aad (NodeConfigKey i v)) config,
    nc_probe_outbound := (if probe \<noteq> [] then Seal b nonce' (sealed_aad (NodeProbeKey i v)) probe else [])\<rparr>"
  have r: "r = Inr c" "t' = t @ [s]"
    using assms(5,6) by (auto simp: InsertConfig_def Let_def c_def s_def v_def)
  have new: "\<forall>w\<in>set (node_versions i t). w < v"
    by (auto simp: v_def next_version_newer)
  then have older: "\<forall>x\<in>set t. nc_node_id x = i \<longrightarrow> nc_version x < v"
    by (auto simp: node_versions_def)
  have s_fields: "nc_node_id s = i" "nc_version s = v" "nc_applied s = 0"
    by (simp_all add: s_def c_def)
  have scan: "scanConfig b s = Inr c"
  proof -
    have "nc_node_id c = i" "nc_version c = v" "c\<lparr>nc_config := config, nc_probe_outbound := probe\<rparr> = c"
      by (simp_all add: c_def)
    then show ?thesis
      using scanConfig_sealed [OF assms(2-4), where c = c and config = config and probe = probe]
      unfolding s_def by (simp only:)
  qed
  have "sql_row (\<lambda>x. nc_node_id x = i \<and> nc_version x = v) t' = Some s"
    using older s_fields by (auto simp: r sql_row_def find_Some_iff nth_append
        intro!: exI [of _ "length t"])
  moreover have "newest (filter (\<lambda>x. nc_node_id x = i) t') = Some s"
    "newest (filter (\<lambda>x. nc_node_id x = i \<and> nc_applied x \<ge> 0) t') = Some s"
    using older s_fields by (auto simp: r intro!: newest_snoc)
  moreover have "configs_ok t'"
    using assms(1) older s_fields by (auto simp: configs_ok_def r)
  ultimately show ?thesis
    using r new scan s_fields
    by (auto simp: c_def ConfigAt_def LatestConfig_def LatestPushableConfig_def scan_config_found_def
        intro!: exI [of _ c])
qed

text \<open>A stored config is read back as written: \<open>InsertConfig\<close> succeeds for a known node, numbers
  the version above every earlier one of that node, and \<open>ConfigAt\<close>, \<open>LatestConfig\<close> and
  \<open>LatestPushableConfig\<close> then all return the config and the probe in the clear.\<close>

theorem insert_config_roundtrip:
  assumes "configs_ok t" and "box_ok b" and "nonce_ok b nonce" and "nonce_ok b nonce'" and "i \<in> nodes"
    and "InsertConfig b nonce nonce' nodes i config probe now t = (r, t')"
  shows "\<exists>c. r = Inr c \<and> nc_config c = config \<and> nc_probe_outbound c = probe \<and> configs_ok t' \<and>
    (\<forall>v\<in>set (node_versions i t). v < nc_version c) \<and>
    ConfigAt b i (nc_version c) t' = Inr c \<and> LatestConfig b i t' = Inr c \<and>
    LatestPushableConfig b i t' = Inr c"
  using assms by (rule inserted_config)

theorem insert_config_roundtrip_witness:
  "\<exists>c. fst (InsertConfig plain_box [] [] {''01''} ''01'' ''{}'' [] 3 []) = Inr c \<and> nc_config c = ''{}''"
proof -
  have "box_ok plain_box" "nonce_ok plain_box []"
    by (simp_all add: box_ok_def nonce_ok_def plain_box_def)
  then show ?thesis
    using insert_config_roundtrip [of "[]" plain_box "[]" "[]" "''01''" "{''01''}" "''{}''" "[]" 3,
        OF _ _ _ _ _ prod.collapse [symmetric]]
    by (simp add: configs_ok_def) blast
qed

text \<open>A config that failed on the agent is never pushed again: after its failure is recorded,
  what \<open>LatestPushableConfig\<close> returns is another version, one that has not failed.\<close>

theorem failed_config_not_pushed:
  assumes "LatestPushableConfig b i (SetConfigResult i v False msg t) = Inr c"
  shows "nc_node_id c = i \<and> nc_version c \<noteq> v \<and> nc_applied c \<ge> 0"
proof -
  let ?t = "SetConfigResult i v False msg t"
  let ?rows = "filter (\<lambda>c. nc_node_id c = i \<and> nc_applied c \<ge> 0) ?t"
  obtain s where s: "newest ?rows = Some s" and scan: "scanConfig b s = Inr c"
    using assms unfolding LatestPushableConfig_def scan_config_found_def
    by (cases "newest ?rows") simp_all
  from newest_Some [OF s] have mem: "s \<in> set ?t" and node: "nc_node_id s = i" and "nc_applied s \<ge> 0"
    by simp_all
  have "nc_version s \<noteq> v"
  proof
    assume v: "nc_version s = v"
    obtain r where s': "s = (if nc_node_id r = i \<and> nc_version r = v
        then r\<lparr>nc_applied := -1, nc_error := msg\<rparr> else r)"
      using mem unfolding SetConfigResult_def set_sql_update if_False by (elim imageE)
    have "nc_applied s = -1"
      using node v unfolding s' by (cases "nc_node_id r = i \<and> nc_version r = v") simp_all
    with \<open>nc_applied s \<ge> 0\<close> show False by simp
  qed
  moreover have "nc_node_id c = nc_node_id s \<and> nc_version c = nc_version s \<and> nc_applied c = nc_applied s"
    using scan by (rule scanConfig_columns)
  ultimately show ?thesis using node \<open>nc_applied s \<ge> 0\<close> by simp
qed

definition demo_config :: "int \<Rightarrow> int \<Rightarrow> node_config" where
  "demo_config v a = \<lparr>nc_node_id = ''01'', nc_version = v, nc_config = ''{}'', nc_probe_outbound = [],
     nc_created_at = 0, nc_applied = a, nc_error = []\<rparr>"

theorem failed_config_not_pushed_witness:
  "nc_version (demo_config 1 1) \<noteq> 2"
proof -
  have "LatestPushableConfig plain_box ''01'' (SetConfigResult ''01'' 2 False ''bad'' [demo_config 1 1, demo_config 2 0])
      = Inr (demo_config 1 1)"
    by code_simp
  from failed_config_not_pushed [OF this] show ?thesis by simp
qed

text \<open>The sweep bounds the history and never touches the newest version: at most
  \<open>ConfigHistoryDepth\<close> rows of a node remain, every row with fewer than that many newer ones
  remains, and \<open>LatestConfig\<close> is what it was.\<close>

theorem prune_keeps_newest:
  assumes "configs_ok t"
  shows "length (filter (\<lambda>c. nc_node_id c = i) (snd (PruneConfigs t))) \<le> ConfigHistoryDepth \<and>
    set (snd (PruneConfigs t)) = {r \<in> set t. row_number t r \<le> ConfigHistoryDepth} \<and>
    LatestConfig b i (snd (PruneConfigs t)) = LatestConfig b i t"
proof -
  have kept: "set (snd (PruneConfigs t)) = {r \<in> set t. row_number t r \<le> ConfigHistoryDepth}"
    by (auto simp: PruneConfigs_def Let_def set_sql_delete not_less)
  have "newest (filter (\<lambda>c. nc_node_id c = i) (snd (PruneConfigs t)))
      = newest (filter (\<lambda>c. nc_node_id c = i) t)"
  proof (cases "newest (filter (\<lambda>c. nc_node_id c = i) t)")
    case None
    then show ?thesis using kept by (auto simp: filter_empty_conv)
  next
    case (Some r)
    with newest_Some [OF Some] newest_row_number [OF Some] kept
    have "r \<in> set (filter (\<lambda>c. nc_node_id c = i) (snd (PruneConfigs t)))"
      by (simp add: ConfigHistoryDepth_def)
    from newest_unique [OF assms Some _ this, of i] kept Some show ?thesis by auto
  qed
  then show ?thesis using prune_length [OF assms] kept by (simp add: LatestConfig_def)
qed

theorem prune_keeps_newest_witness:
  "LatestConfig plain_box ''01'' (snd (PruneConfigs [demo_config 1 1, demo_config 2 0]))
     = LatestConfig plain_box ''01'' [demo_config 1 1, demo_config 2 0]"
proof -
  have "configs_ok [demo_config 1 1, demo_config 2 0]" by (simp add: configs_ok_def demo_config_def)
  from prune_keeps_newest [OF this] show ?thesis by blast
qed

text \<open>The sweep can lose the config a reconnecting agent is given: that one is the newest that
  has not failed, not the newest, and when the newest \<open>ConfigHistoryDepth\<close> versions have all failed
  the sweep deletes the last one that worked, after which there is nothing to push.\<close>

theorem prune_can_strand:
  "LatestPushableConfig plain_box ''01''
     (demo_config 1 1 # map (\<lambda>v. demo_config v (-1)) [2..21]) = Inr (demo_config 1 1) \<and>
   LatestPushableConfig plain_box ''01''
     (snd (PruneConfigs (demo_config 1 1 # map (\<lambda>v. demo_config v (-1)) [2..21]))) = Inl ErrNoRows"
  by code_simp

end
