(* ===== verification/Login.thy ===== *)
theory Login
  imports Auth NodeStore
begin

text \<open>
  Administrators: their accounts, sessions, second factors and challenges (\<open>core/internal/store/admin.go\<close>,
  \<open>mfa.go\<close>), and the handlers that sign them in (\<open>core/internal/api/auth.go\<close>, \<open>mfa.go\<close>, \<open>mfa_enroll.go\<close>).

  A request is the decoded body; a body that does not decode is answered 400 before anything is written. A handler
  takes the environment, what the random source delivers during the request (\<open>draws\<close>) and the time, and returns the
  reply with the tables it leaves. The environment holds what is not the panel's: the hash functions, the mail
  server, the address parser of \<open>net/mail\<close> and the WebAuthn library behind package \<open>passkey\<close>. The replies carry what
  the handlers put into the body, less fields that are functions of it.
\<close>

section \<open>Tables\<close>

record admin =
  a_id :: id
  a_username :: string
  a_password_hash :: string
  a_role :: role
  a_disabled :: bool
  a_created_at :: int
  a_updated_at :: int
  a_last_login :: int
  a_email :: string
  a_email_verified :: bool

record mfa_credential =
  mc_id :: id
  mc_admin_id :: id
  mc_kind :: string
  mc_name :: string
  mc_secret :: string
  mc_credential_id :: string
  mc_created_at :: int
  mc_last_used_at :: int
  mc_confirmed :: bool

record recovery_row =
  rc_admin_id :: id
  rc_code_hash :: string
  rc_used_at :: int
  rc_created_at :: int

record challenge =
  ch_token_hash :: string
  ch_admin_id :: id
  ch_purpose :: string
  ch_data :: string
  ch_attempts :: nat
  ch_created_at :: int
  ch_expires_at :: int

record session =
  ss_token_hash :: string
  ss_admin_id :: id
  ss_created_at :: int
  ss_expires_at :: int

record audit_entry =
  ae_at :: int
  ae_actor_id :: id
  ae_actor_name :: string
  ae_action :: string
  ae_target_id :: id
  ae_target_name :: string
  ae_detail :: string

record auth_db =
  au_admins :: "admin list"
  au_mfa :: "mfa_credential list"
  au_recovery :: "recovery_row list"
  au_challenges :: "challenge list"
  au_sessions :: "session list"
  au_audit :: "audit_entry list"

definition SessionTTL :: duration where "SessionTTL = 7 * 24 * hour"
definition LoginChallengeTTL :: duration where "LoginChallengeTTL = 5 * minute"
definition WebAuthnChallengeTTL :: duration where "WebAuthnChallengeTTL = 5 * minute"
definition EmailCodeTTL :: duration where "EmailCodeTTL = 15 * minute"
definition MaxChallengeAttempts :: nat where "MaxChallengeAttempts = 5"

definition MFATOTP :: string where "MFATOTP = ''totp''"
definition MFAPasskey :: string where "MFAPasskey = ''passkey''"
definition MFAEmail :: string where "MFAEmail = ''email''"

definition PurposeLogin :: string where "PurposeLogin = ''login''"
definition PurposeWebAuthnRegister :: string where "PurposeWebAuthnRegister = ''webauthn_register''"
definition PurposeWebAuthnLogin :: string where "PurposeWebAuthnLogin = ''webauthn_login''"
definition PurposeEmailVerify :: string where "PurposeEmailVerify = ''email_verify''"
definition PurposeEmailCode :: string where "PurposeEmailCode = ''email_code''"

lemmas purposes = PurposeLogin_def PurposeWebAuthnRegister_def PurposeWebAuthnLogin_def PurposeEmailVerify_def
  PurposeEmailCode_def

definition found :: "'r option \<Rightarrow> (db_error, 'r) result" where
  "found r = (case r of None \<Rightarrow> Inl ErrNoRows | Some x \<Rightarrow> Inr x)"

section \<open>Accounts and sessions\<close>

definition admin_ids :: "auth_db \<Rightarrow> id set" where
  "admin_ids db = set (map a_id (au_admins db))"

definition CreateAdmin ::
  "id \<Rightarrow> time \<Rightarrow> string \<Rightarrow> string \<Rightarrow> role \<Rightarrow> auth_db \<Rightarrow> (db_error, admin \<times> auth_db) result" where
  "CreateAdmin newid now username passwordHash role db =
     (let a = \<lparr>a_id = newid, a_username = username, a_password_hash = passwordHash, a_role = role, a_disabled = False,
               a_created_at = to_unix now, a_updated_at = to_unix now, a_last_login = 0, a_email = [],
               a_email_verified = False\<rparr>
      in if newid \<in> admin_ids db \<or> username \<in> set (map a_username (au_admins db)) then Inl UniqueViolation
         else Inr (a, db\<lparr>au_admins := au_admins db @ [a]\<rparr>))"

definition GetAdmin :: "id \<Rightarrow> auth_db \<Rightarrow> (db_error, admin) result" where
  "GetAdmin i db = found (sql_row (\<lambda>a. a_id a = i) (au_admins db))"

definition FindAdminByUsername :: "string \<Rightarrow> auth_db \<Rightarrow> (db_error, admin) result" where
  "FindAdminByUsername username db = found (sql_row (\<lambda>a. a_username a = username) (au_admins db))"

definition enabled_super :: "admin \<Rightarrow> bool" where
  "enabled_super a \<longleftrightarrow> a_role a = RoleSuperadmin \<and> \<not> a_disabled a"

definition CountEnabledSuperadmins :: "auth_db \<Rightarrow> nat" where
  "CountEnabledSuperadmins db = length (filter enabled_super (au_admins db))"

definition update_admin :: "id \<Rightarrow> (admin \<Rightarrow> admin) \<Rightarrow> auth_db \<Rightarrow> (db_error, auth_db) result" where
  "update_admin i f db =
     (if rows_affected (\<lambda>a. a_id a = i) (au_admins db) = 0 then Inl ErrNoRows
      else Inr (db\<lparr>au_admins := sql_update (\<lambda>a. a_id a = i) f (au_admins db)\<rparr>))"

definition UpdateAdminRole :: "id \<Rightarrow> role \<Rightarrow> bool \<Rightarrow> time \<Rightarrow> auth_db \<Rightarrow> (db_error, auth_db) result" where
  "UpdateAdminRole i role disabled now =
     update_admin i (\<lambda>a. a\<lparr>a_role := role, a_disabled := disabled, a_updated_at := to_unix now\<rparr>)"

definition SetAdminPassword :: "id \<Rightarrow> string \<Rightarrow> time \<Rightarrow> auth_db \<Rightarrow> (db_error, auth_db) result" where
  "SetAdminPassword i passwordHash now db =
     bind_result (update_admin i (\<lambda>a. a\<lparr>a_password_hash := passwordHash, a_updated_at := to_unix now\<rparr>) db)
       (\<lambda>db. Inr (db\<lparr>au_sessions := sql_delete (\<lambda>s. ss_admin_id s = i) (au_sessions db)\<rparr>))"

text \<open>The rows of the other tables go with the account (\<open>ON DELETE CASCADE\<close>).\<close>

definition DeleteAdmin :: "id \<Rightarrow> auth_db \<Rightarrow> (db_error, auth_db) result" where
  "DeleteAdmin i db =
     (if rows_affected (\<lambda>a. a_id a = i) (au_admins db) = 0 then Inl ErrNoRows
      else Inr (db\<lparr>au_admins := sql_delete (\<lambda>a. a_id a = i) (au_admins db),
                   au_mfa := sql_delete (\<lambda>c. mc_admin_id c = i) (au_mfa db),
                   au_recovery := sql_delete (\<lambda>r. rc_admin_id r = i) (au_recovery db),
                   au_challenges := sql_delete (\<lambda>c. ch_admin_id c = i) (au_challenges db),
                   au_sessions := sql_delete (\<lambda>s. ss_admin_id s = i) (au_sessions db)\<rparr>))"

definition TouchAdminLogin :: "id \<Rightarrow> time \<Rightarrow> auth_db \<Rightarrow> auth_db" where
  "TouchAdminLogin i now db =
     db\<lparr>au_admins := sql_update (\<lambda>a. a_id a = i) (\<lambda>a. a\<lparr>a_last_login := to_unix now\<rparr>) (au_admins db)\<rparr>"

definition CreateSession :: "string \<Rightarrow> id \<Rightarrow> duration \<Rightarrow> time \<Rightarrow> auth_db \<Rightarrow> (db_error, auth_db) result" where
  "CreateSession tokenHash adminID ttl now db =
     (if tokenHash \<in> set (map ss_token_hash (au_sessions db)) then Inl UniqueViolation
      else if adminID \<notin> admin_ids db then Inl ForeignKey
      else Inr (db\<lparr>au_sessions := au_sessions db @
             [\<lparr>ss_token_hash = tokenHash, ss_admin_id = adminID, ss_created_at = to_unix now,
               ss_expires_at = to_unix (now + ttl)\<rparr>]\<rparr>))"

definition AdminBySession :: "string \<Rightarrow> time \<Rightarrow> auth_db \<Rightarrow> (db_error, admin) result" where
  "AdminBySession tokenHash now db =
     (case sql_row (\<lambda>s. ss_token_hash s = tokenHash \<and> ss_expires_at s > to_unix now) (au_sessions db) of
        None \<Rightarrow> Inl ErrNoRows
      | Some s \<Rightarrow> found (sql_row (\<lambda>a. a_id a = ss_admin_id s \<and> \<not> a_disabled a) (au_admins db)))"

definition DeleteSession :: "string \<Rightarrow> auth_db \<Rightarrow> auth_db" where
  "DeleteSession tokenHash db = db\<lparr>au_sessions := sql_delete (\<lambda>s. ss_token_hash s = tokenHash) (au_sessions db)\<rparr>"

definition PruneSessions :: "time \<Rightarrow> auth_db \<Rightarrow> auth_db" where
  "PruneSessions now db = db\<lparr>au_sessions := sql_delete (\<lambda>s. ss_expires_at s \<le> to_unix now) (au_sessions db)\<rparr>"

definition Audit :: "time \<Rightarrow> identity \<Rightarrow> string \<Rightarrow> id \<Rightarrow> string \<Rightarrow> string \<Rightarrow> auth_db \<Rightarrow> auth_db" where
  "Audit now actor action targetID targetName detail db =
     db\<lparr>au_audit := au_audit db @
          [\<lparr>ae_at = to_unix now, ae_actor_id = i_id actor, ae_actor_name = i_name actor, ae_action = action,
            ae_target_id = targetID, ae_target_name = targetName, ae_detail = detail\<rparr>]\<rparr>"

section \<open>Factors\<close>

definition scanMFA :: "box \<Rightarrow> mfa_credential \<Rightarrow> (db_error, mfa_credential) result" where
  "scanMFA b c =
     (if mc_secret c = [] then Inr c
      else (case Open b (sealed_aad (MfaCredentialKey (mc_id c))) (mc_secret c) of
              Inl e \<Rightarrow> Inl (Sealing e)
            | Inr plain \<Rightarrow> Inr (c\<lparr>mc_secret := plain\<rparr>)))"

fun scan_mfa_rows :: "box \<Rightarrow> mfa_credential list \<Rightarrow> (db_error, mfa_credential list) result" where
  "scan_mfa_rows b [] = Inr []"
| "scan_mfa_rows b (c # cs) =
     bind_result (scanMFA b c) (\<lambda>x. bind_result (scan_mfa_rows b cs) (\<lambda>xs. Inr (x # xs)))"

definition PutMFACredential ::
  "box \<Rightarrow> bytes \<Rightarrow> id \<Rightarrow> time \<Rightarrow> mfa_credential \<Rightarrow> auth_db \<Rightarrow> (db_error, mfa_credential \<times> auth_db) result" where
  "PutMFACredential b nonce newid now c db =
     (let c = c\<lparr>mc_id := (if mc_id c = [] then newid else mc_id c),
                mc_created_at := (if mc_created_at c = 0 then to_unix now else mc_created_at c)\<rparr>;
          row = c\<lparr>mc_secret := (if mc_secret c = [] then []
                                else Seal b nonce (sealed_aad (MfaCredentialKey (mc_id c))) (mc_secret c))\<rparr>
      in if mc_credential_id c \<noteq> []
            \<and> list_ex (\<lambda>r. mc_credential_id r = mc_credential_id c \<and> mc_id r \<noteq> mc_id c) (au_mfa db)
         then Inl UniqueViolation
         else if mc_id c \<in> set (map mc_id (au_mfa db))
         then Inr (c, db\<lparr>au_mfa := sql_update (\<lambda>r. mc_id r = mc_id c)
                (\<lambda>r. r\<lparr>mc_name := mc_name row, mc_secret := mc_secret row, mc_credential_id := mc_credential_id row,
                       mc_confirmed := mc_confirmed row\<rparr>) (au_mfa db)\<rparr>)
         else if mc_admin_id c \<notin> admin_ids db then Inl ForeignKey
         else Inr (c, db\<lparr>au_mfa := au_mfa db @ [row]\<rparr>))"

definition MFACredentials :: "box \<Rightarrow> id \<Rightarrow> auth_db \<Rightarrow> (db_error, mfa_credential list) result" where
  "MFACredentials b adminID db =
     scan_mfa_rows b (sort_key mc_created_at (filter (\<lambda>c. mc_admin_id c = adminID) (au_mfa db)))"

definition ConfirmedMFACredentials :: "box \<Rightarrow> id \<Rightarrow> auth_db \<Rightarrow> (db_error, mfa_credential list) result" where
  "ConfirmedMFACredentials b adminID db =
     bind_result (MFACredentials b adminID db) (\<lambda>all. Inr (filter mc_confirmed all))"

definition GetMFACredential :: "box \<Rightarrow> id \<Rightarrow> auth_db \<Rightarrow> (db_error, mfa_credential) result" where
  "GetMFACredential b i db = bind_result (found (sql_row (\<lambda>c. mc_id c = i) (au_mfa db))) (scanMFA b)"

definition FindPasskey :: "box \<Rightarrow> string \<Rightarrow> auth_db \<Rightarrow> (db_error, mfa_credential) result" where
  "FindPasskey b credentialID db =
     bind_result (found (sql_row (\<lambda>c. mc_credential_id c = credentialID \<and> mc_kind c = MFAPasskey) (au_mfa db))) (scanMFA b)"

definition DeleteMFACredential :: "id \<Rightarrow> id \<Rightarrow> auth_db \<Rightarrow> (db_error, auth_db) result" where
  "DeleteMFACredential adminID i db =
     (if rows_affected (\<lambda>c. mc_id c = i \<and> mc_admin_id c = adminID) (au_mfa db) = 0 then Inl ErrNoRows
      else Inr (db\<lparr>au_mfa := sql_delete (\<lambda>c. mc_id c = i \<and> mc_admin_id c = adminID) (au_mfa db)\<rparr>))"

definition TouchMFACredential :: "id \<Rightarrow> time \<Rightarrow> auth_db \<Rightarrow> auth_db" where
  "TouchMFACredential i now db =
     db\<lparr>au_mfa := sql_update (\<lambda>c. mc_id c = i) (\<lambda>c. c\<lparr>mc_last_used_at := to_unix now\<rparr>) (au_mfa db)\<rparr>"

section \<open>Recovery codes\<close>

definition ReplaceRecoveryCodes :: "id \<Rightarrow> string list \<Rightarrow> time \<Rightarrow> auth_db \<Rightarrow> (db_error, auth_db) result" where
  "ReplaceRecoveryCodes adminID hashes now db =
     (if hashes \<noteq> [] \<and> adminID \<notin> admin_ids db then Inl ForeignKey
      else if \<not> distinct hashes then Inl UniqueViolation
      else Inr (db\<lparr>au_recovery := sql_delete (\<lambda>r. rc_admin_id r = adminID) (au_recovery db) @
             map (\<lambda>h. \<lparr>rc_admin_id = adminID, rc_code_hash = h, rc_used_at = 0, rc_created_at = to_unix now\<rparr>) hashes\<rparr>))"

definition unused_code :: "id \<Rightarrow> string \<Rightarrow> recovery_row \<Rightarrow> bool" where
  "unused_code adminID codeHash r \<longleftrightarrow> rc_admin_id r = adminID \<and> rc_code_hash r = codeHash \<and> rc_used_at r = 0"

definition UseRecoveryCode :: "id \<Rightarrow> string \<Rightarrow> time \<Rightarrow> auth_db \<Rightarrow> bool \<times> auth_db" where
  "UseRecoveryCode adminID codeHash now db =
     (0 < rows_affected (unused_code adminID codeHash) (au_recovery db),
      db\<lparr>au_recovery := sql_update (unused_code adminID codeHash) (\<lambda>r. r\<lparr>rc_used_at := to_unix now\<rparr>) (au_recovery db)\<rparr>)"

definition CountUnusedRecoveryCodes :: "id \<Rightarrow> auth_db \<Rightarrow> nat" where
  "CountUnusedRecoveryCodes adminID db = rows_affected (\<lambda>r. rc_admin_id r = adminID \<and> rc_used_at r = 0) (au_recovery db)"

section \<open>Challenges\<close>

definition CreateChallenge ::
  "string \<Rightarrow> id \<Rightarrow> string \<Rightarrow> string \<Rightarrow> duration \<Rightarrow> time \<Rightarrow> auth_db \<Rightarrow> (db_error, auth_db) result" where
  "CreateChallenge tokenHash adminID purpose data ttl now db =
     (let row = \<lparr>ch_token_hash = tokenHash, ch_admin_id = adminID, ch_purpose = purpose, ch_data = data, ch_attempts = 0,
                 ch_created_at = to_unix now, ch_expires_at = to_unix (now + ttl)\<rparr>
      in if adminID \<notin> admin_ids db then Inl ForeignKey
         else if tokenHash \<in> set (map ch_token_hash (au_challenges db))
         then Inr (db\<lparr>au_challenges := sql_update (\<lambda>c. ch_token_hash c = tokenHash) (\<lambda>_. row) (au_challenges db)\<rparr>)
         else Inr (db\<lparr>au_challenges := au_challenges db @ [row]\<rparr>))"

definition GetChallenge :: "string \<Rightarrow> string \<Rightarrow> time \<Rightarrow> auth_db \<Rightarrow> (db_error, challenge) result" where
  "GetChallenge tokenHash purpose now db =
     found (sql_row (\<lambda>c. ch_token_hash c = tokenHash \<and> ch_purpose c = purpose \<and> ch_expires_at c > to_unix now)
       (au_challenges db))"

definition BumpChallengeAttempts :: "string \<Rightarrow> auth_db \<Rightarrow> (db_error, bool) result \<times> auth_db" where
  "BumpChallengeAttempts tokenHash db =
     (let db = db\<lparr>au_challenges := sql_update (\<lambda>c. ch_token_hash c = tokenHash)
                    (\<lambda>c. c\<lparr>ch_attempts := ch_attempts c + 1\<rparr>) (au_challenges db)\<rparr>
      in (case sql_row (\<lambda>c. ch_token_hash c = tokenHash) (au_challenges db) of
            None \<Rightarrow> (Inl ErrNoRows, db)
          | Some c \<Rightarrow> (Inr (ch_attempts c \<ge> MaxChallengeAttempts), db)))"

definition DeleteChallenge :: "string \<Rightarrow> auth_db \<Rightarrow> auth_db" where
  "DeleteChallenge tokenHash db = db\<lparr>au_challenges := sql_delete (\<lambda>c. ch_token_hash c = tokenHash) (au_challenges db)\<rparr>"

definition PruneChallenges :: "time \<Rightarrow> auth_db \<Rightarrow> auth_db" where
  "PruneChallenges now db = db\<lparr>au_challenges := sql_delete (\<lambda>c. ch_expires_at c \<le> to_unix now) (au_challenges db)\<rparr>"

definition SetAdminEmail :: "id \<Rightarrow> string \<Rightarrow> bool \<Rightarrow> time \<Rightarrow> auth_db \<Rightarrow> (db_error, auth_db) result" where
  "SetAdminEmail adminID email verified now =
     update_admin adminID (\<lambda>a. a\<lparr>a_email := email, a_email_verified := verified, a_updated_at := to_unix now\<rparr>)"

definition AdminEmail :: "id \<Rightarrow> auth_db \<Rightarrow> (db_error, string \<times> bool) result" where
  "AdminEmail adminID db = bind_result (GetAdmin adminID db) (\<lambda>a. Inr (a_email a, a_email_verified a))"
section \<open>The environment of a request\<close>

record passkey_user =
  pu_id :: id
  pu_name :: string
  pu_creds :: "string list"

text \<open>The WebAuthn library: decoding and encoding of a stored credential, its identifier, and the two halves of the two
  ceremonies, which return the options with the session to keep, and the credential with the clone warning.\<close>

record passkeys =
  pk_decode :: "string \<Rightarrow> string option"
  pk_encode :: "string \<Rightarrow> string option"
  pk_credential_id :: "string \<Rightarrow> string"
  pk_begin_login :: "passkey_user \<Rightarrow> (string \<times> string) option"
  pk_finish_login :: "passkey_user \<Rightarrow> string \<Rightarrow> string \<Rightarrow> (string \<times> bool) option"
  pk_begin_registration :: "passkey_user \<Rightarrow> (string \<times> string) option"
  pk_finish_registration :: "passkey_user \<Rightarrow> string \<Rightarrow> string \<Rightarrow> string option"

record auth_env =
  e_sha256 :: "string \<Rightarrow> bytes"
  e_hmac :: "bytes \<Rightarrow> bytes \<Rightarrow> bytes"
  e_kdf :: kdf
  e_box :: box
  e_admin_token :: string
  e_mailer :: "(string \<Rightarrow> bool) option"
  e_valid_addr :: "string \<Rightarrow> bool"
  e_passkeys :: "passkeys option"

record draws =
  d_token :: string
  d_id :: id
  d_nonce :: bytes
  d_bytes :: bytes

datatype reply =
    Refused nat string
  | ServerError string
  | MfaRequired string "(string \<times> id \<times> string) list" bool
  | SignedIn string int admin
  | AdminReply nat admin
  | Enrolment id string
  | SentTo string
  | Options string
  | RegistrationOptions string string
  | Confirmed string "string list option"
  | RecoveryCodes "string list"
  | NoContent

abbreviation secret_hash :: "auth_env \<Rightarrow> string \<Rightarrow> string" where
  "secret_hash env \<equiv> HashSecret (e_sha256 env)"

section \<open>Authentication\<close>

definition authenticate :: "auth_env \<Rightarrow> time \<Rightarrow> string \<Rightarrow> auth_db \<Rightarrow> identity option" where
  "authenticate env now token db =
     (if token = [] then None
      else (case AdminBySession (secret_hash env token) now db of
              Inr a \<Rightarrow> Some \<lparr>i_id = a_id a, i_name = a_username a, i_role = a_role a, i_via_token = False\<rparr>
            | Inl e \<Rightarrow>
                if e \<noteq> ErrNoRows then None
                else if e_admin_token env \<noteq> [] \<and> token = e_admin_token env then Some EnvTokenIdentity
                else None))"

definition require ::
  "auth_env \<Rightarrow> time \<Rightarrow> role \<Rightarrow> string \<Rightarrow> (identity \<Rightarrow> auth_db \<Rightarrow> reply \<times> auth_db) \<Rightarrow> auth_db \<Rightarrow> reply \<times> auth_db" where
  "require env now minimum token h db =
     (case authenticate env now token db of
        None \<Rightarrow> (Refused 401 ''missing or invalid credentials'', db)
      | Some i \<Rightarrow>
          if \<not> Can i minimum then (Refused 403 ''your role does not allow this'', db)
          else h i db)"

section \<open>Signing in\<close>

definition account_identity :: "admin \<Rightarrow> identity" where
  "account_identity a = \<lparr>i_id = a_id a, i_name = a_username a, i_role = a_role a, i_via_token = False\<rparr>"

definition issueSession :: "auth_env \<Rightarrow> draws \<Rightarrow> time \<Rightarrow> admin \<Rightarrow> string \<Rightarrow> auth_db \<Rightarrow> reply \<times> auth_db" where
  "issueSession env dr now a how db =
     (case CreateSession (secret_hash env (d_token dr)) (a_id a) SessionTTL now db of
        Inl _ \<Rightarrow> (ServerError ''create session'', db)
      | Inr db \<Rightarrow>
          (let db = TouchAdminLogin (a_id a) now db;
               a = (case GetAdmin (a_id a) db of Inl _ \<Rightarrow> a | Inr fresh \<Rightarrow> fresh)
           in (SignedIn (d_token dr) (to_unix (now + SessionTTL)) a,
               Audit now (account_identity a) ''login'' (a_id a) (a_username a) how db)))"

definition startMFA :: "auth_env \<Rightarrow> draws \<Rightarrow> time \<Rightarrow> admin \<Rightarrow> mfa_credential list \<Rightarrow> auth_db \<Rightarrow> reply \<times> auth_db" where
  "startMFA env dr now a creds db =
     (case CreateChallenge (secret_hash env (d_token dr)) (a_id a) PurposeLogin [] LoginChallengeTTL now db of
        Inl _ \<Rightarrow> (ServerError ''create login challenge'', db)
      | Inr db \<Rightarrow>
          (MfaRequired (d_token dr) (map (\<lambda>c. (mc_kind c, mc_id c, mc_name c)) creds)
             (CountUnusedRecoveryCodes (a_id a) db > 0), db))"

definition login :: "auth_env \<Rightarrow> draws \<Rightarrow> time \<Rightarrow> string \<Rightarrow> string \<Rightarrow> auth_db \<Rightarrow> reply \<times> auth_db" where
  "login env dr now username password db =
     (case FindAdminByUsername (trim_space username) db of
        Inl _ \<Rightarrow> (Refused 401 ''incorrect username or password'', db)
      | Inr a \<Rightarrow>
          if a_disabled a then (Refused 401 ''incorrect username or password'', db)
          else if \<not> VerifyPassword (e_kdf env) password (a_password_hash a)
          then (Refused 401 ''incorrect username or password'', db)
          else (case ConfirmedMFACredentials (e_box env) (a_id a) db of
                  Inl _ \<Rightarrow> (ServerError ''load factors'', db)
                | Inr factors \<Rightarrow>
                    if factors \<noteq> [] then startMFA env dr now a factors db
                    else issueSession env dr now a ''password'' db))"

definition spendChallenge ::
  "auth_env \<Rightarrow> time \<Rightarrow> string \<Rightarrow> string \<Rightarrow> auth_db \<Rightarrow> (reply, admin \<times> string) result \<times> auth_db" where
  "spendChallenge env now token purpose db =
     (if trim_space token = [] then (Inl (Refused 401 ''missing challenge''), db)
      else
        (let hash = secret_hash env token;
             refusal = Inl (Refused 401 ''challenge is invalid or has expired'')
         in case GetChallenge hash purpose now db of
              Inl _ \<Rightarrow> (refusal, db)
            | Inr ch \<Rightarrow>
                (case GetAdmin (ch_admin_id ch) db of
                   Inl _ \<Rightarrow> (refusal, DeleteChallenge hash db)
                 | Inr a \<Rightarrow> if a_disabled a then (refusal, DeleteChallenge hash db) else (Inr (a, hash), db))))"

definition count_failure :: "string \<Rightarrow> string \<Rightarrow> string \<Rightarrow> auth_db \<Rightarrow> reply \<times> auth_db" where
  "count_failure hash spent msg db =
     (case BumpChallengeAttempts hash db of
        (Inr True, db) \<Rightarrow> (Refused 401 spent, DeleteChallenge hash db)
      | (_, db) \<Rightarrow> (Refused 401 msg, db))"

definition failChallenge :: "string \<Rightarrow> string \<Rightarrow> auth_db \<Rightarrow> reply \<times> auth_db" where
  "failChallenge hash msg = count_failure hash ''too many attempts; start again'' msg"

definition verifyEmailCode ::
  "auth_env \<Rightarrow> draws \<Rightarrow> time \<Rightarrow> admin \<Rightarrow> string \<Rightarrow> string \<Rightarrow> string \<Rightarrow> auth_db \<Rightarrow> reply \<times> auth_db" where
  "verifyEmailCode env dr now a challenge loginHash code db =
     (let emailHash = secret_hash env (challenge @ '':email'')
      in case GetChallenge emailHash PurposeEmailCode now db of
           Inl _ \<Rightarrow> (Refused 401 ''no code has been sent, or it has expired'', db)
         | Inr ch \<Rightarrow>
             if ch_data ch \<noteq> secret_hash env (trim_space code)
             then count_failure emailHash ''too many attempts; request a new code'' ''that code is not valid'' db
             else issueSession env dr now a ''email-code'' (DeleteChallenge loginHash (DeleteChallenge emailHash db)))"

text \<open>The branches of \<open>verifyMFA\<close>.\<close>

definition verify_totp ::
  "auth_env \<Rightarrow> draws \<Rightarrow> time \<Rightarrow> admin \<Rightarrow> string \<Rightarrow> string \<Rightarrow> auth_db \<Rightarrow> reply \<times> auth_db" where
  "verify_totp env dr now a hash code db =
     (case ConfirmedMFACredentials (e_box env) (a_id a) db of
        Inl _ \<Rightarrow> (ServerError ''load factors'', db)
      | Inr creds \<Rightarrow>
          (case find (\<lambda>c. mc_kind c = MFATOTP \<and> VerifyTOTP (e_hmac env) (mc_secret c) code now) creds of
             Some c \<Rightarrow> issueSession env dr now a ''totp'' (DeleteChallenge hash (TouchMFACredential (mc_id c) now db))
           | None \<Rightarrow> failChallenge hash ''that code is not valid'' db))"

definition verify_recovery ::
  "auth_env \<Rightarrow> draws \<Rightarrow> time \<Rightarrow> admin \<Rightarrow> string \<Rightarrow> string \<Rightarrow> auth_db \<Rightarrow> reply \<times> auth_db" where
  "verify_recovery env dr now a hash code db =
     (case UseRecoveryCode (a_id a) (secret_hash env (NormalizeRecoveryCode code)) now db of
        (used, db) \<Rightarrow>
          if \<not> used then failChallenge hash ''that recovery code is not valid or has been used'' db
          else issueSession env dr now a ''recovery-code'' (DeleteChallenge hash db))"

definition verifyMFA ::
  "auth_env \<Rightarrow> draws \<Rightarrow> time \<Rightarrow> string \<Rightarrow> string \<Rightarrow> string \<Rightarrow> auth_db \<Rightarrow> reply \<times> auth_db" where
  "verifyMFA env dr now challenge meth code db =
     (case spendChallenge env now challenge PurposeLogin db of
        (Inl r, db) \<Rightarrow> (r, db)
      | (Inr (a, hash), db) \<Rightarrow>
          if meth = MFATOTP then verify_totp env dr now a hash code db
          else if meth = ''recovery'' then verify_recovery env dr now a hash code db
          else if meth = MFAEmail then verifyEmailCode env dr now a challenge hash code db
          else (Refused 400 ''method must be totp, email or recovery'', db))"

text \<open>\<open>strings.LastIndex\<close> of the at sign splits the address.\<close>

definition maskEmail :: "string \<Rightarrow> string" where
  "maskEmail addr =
     (if CHR ''@'' \<notin> set addr then ''***''
      else (let domain = rev (takeWhile (\<lambda>c. c \<noteq> CHR ''@'') (rev addr));
                local = take (length addr - length domain - 1) addr
            in if local = [] then ''***''
               else if length local \<le> 2 then take 1 local @ ''***@'' @ domain
               else take 2 local @ ''***@'' @ domain))"

definition sendEmailCode :: "auth_env \<Rightarrow> draws \<Rightarrow> time \<Rightarrow> string \<Rightarrow> auth_db \<Rightarrow> reply \<times> auth_db" where
  "sendEmailCode env dr now challenge db =
     (case spendChallenge env now challenge PurposeLogin db of
        (Inl r, db) \<Rightarrow> (r, db)
      | (Inr (a, _), db) \<Rightarrow>
          if \<not> a_email_verified a \<or> a_email a = []
          then (Refused 400 ''this account has no verified email address'', db)
          else (case e_mailer env of
                  None \<Rightarrow> (Refused 503 ''email is not configured on this panel'', db)
                | Some send \<Rightarrow>
                    (case NewNumericCode (d_bytes dr) of
                       None \<Rightarrow> (ServerError ''generate code'', db)
                     | Some code \<Rightarrow>
                         (case CreateChallenge (secret_hash env (challenge @ '':email'')) (a_id a) PurposeEmailCode
                                 (secret_hash env code) EmailCodeTTL now db of
                            Inl _ \<Rightarrow> (ServerError ''store email code'', db)
                          | Inr db \<Rightarrow>
                              if send (a_email a) then (SentTo (maskEmail (a_email a)), db)
                              else (Refused 502 ''could not send the email; check the panel's SMTP settings'', db)))))"

definition decoded :: "passkeys \<Rightarrow> mfa_credential list \<Rightarrow> string list" where
  "decoded pk creds = List.map_filter (\<lambda>c. if mc_kind c = MFAPasskey then pk_decode pk (mc_secret c) else None) creds"

definition passkeyUser :: "auth_env \<Rightarrow> passkeys \<Rightarrow> admin \<Rightarrow> auth_db \<Rightarrow> (db_error, passkey_user) result" where
  "passkeyUser env pk a db =
     bind_result (ConfirmedMFACredentials (e_box env) (a_id a) db)
       (\<lambda>creds. Inr \<lparr>pu_id = a_id a, pu_name = a_username a, pu_creds = decoded pk creds\<rparr>)"

definition beginPasskeyLogin :: "auth_env \<Rightarrow> time \<Rightarrow> string \<Rightarrow> auth_db \<Rightarrow> reply \<times> auth_db" where
  "beginPasskeyLogin env now challenge db =
     (case e_passkeys env of
        None \<Rightarrow> (Refused 503 ''passkeys are not available on this panel'', db)
      | Some pk \<Rightarrow>
          (case spendChallenge env now challenge PurposeLogin db of
             (Inl r, db) \<Rightarrow> (r, db)
           | (Inr (a, _), db) \<Rightarrow>
               (case passkeyUser env pk a db of
                  Inl _ \<Rightarrow> (ServerError ''load passkeys'', db)
                | Inr u \<Rightarrow>
                    if pu_creds u = [] then (Refused 400 ''this account has no passkeys'', db)
                    else (case pk_begin_login pk u of
                            None \<Rightarrow> (ServerError ''begin passkey login'', db)
                          | Some (options, sess) \<Rightarrow>
                              (case CreateChallenge (secret_hash env (challenge @ '':webauthn'')) (a_id a)
                                      PurposeWebAuthnLogin sess WebAuthnChallengeTTL now db of
                                 Inl _ \<Rightarrow> (ServerError ''store webauthn challenge'', db)
                               | Inr db \<Rightarrow> (Options options, db))))))"

text \<open>The counter of the passkey is stored again, and a counter that went backwards is recorded.\<close>

definition record_passkey ::
  "auth_env \<Rightarrow> draws \<Rightarrow> time \<Rightarrow> passkeys \<Rightarrow> admin \<Rightarrow> string \<Rightarrow> bool \<Rightarrow> auth_db \<Rightarrow> auth_db" where
  "record_passkey env dr now pk a cred clone db =
     (case FindPasskey (e_box env) (pk_credential_id pk cred) db of
        Inl _ \<Rightarrow> db
      | Inr stored \<Rightarrow>
          (let db = (case pk_encode pk cred of
                       None \<Rightarrow> db
                     | Some encoded \<Rightarrow>
                         (case PutMFACredential (e_box env) (d_nonce dr) (d_id dr) now (stored\<lparr>mc_secret := encoded\<rparr>) db of
                            Inl _ \<Rightarrow> db | Inr (_, db) \<Rightarrow> db));
               db = TouchMFACredential (mc_id stored) now db
           in if clone
              then Audit now (account_identity a) ''passkey.clone_warning'' (a_id a) (a_username a) (mc_name stored) db
              else db))"

definition finishPasskeyLogin ::
  "auth_env \<Rightarrow> draws \<Rightarrow> time \<Rightarrow> string \<Rightarrow> string \<Rightarrow> auth_db \<Rightarrow> reply \<times> auth_db" where
  "finishPasskeyLogin env dr now challenge response db =
     (case e_passkeys env of
        None \<Rightarrow> (Refused 503 ''passkeys are not available on this panel'', db)
      | Some pk \<Rightarrow>
          (case spendChallenge env now challenge PurposeLogin db of
             (Inl r, db) \<Rightarrow> (r, db)
           | (Inr (a, loginHash), db) \<Rightarrow>
               (let waHash = secret_hash env (challenge @ '':webauthn'')
                in case GetChallenge waHash PurposeWebAuthnLogin now db of
                     Inl _ \<Rightarrow> (Refused 401 ''no passkey challenge is pending; start again'', db)
                   | Inr ch \<Rightarrow>
                       (case passkeyUser env pk a db of
                          Inl _ \<Rightarrow> (ServerError ''load passkeys'', db)
                        | Inr u \<Rightarrow>
                            (case pk_finish_login pk u (ch_data ch) response of
                               None \<Rightarrow> failChallenge loginHash ''that passkey was not accepted'' (DeleteChallenge waHash db)
                             | Some (cred, clone) \<Rightarrow>
                                 issueSession env dr now a ''passkey''
                                   (DeleteChallenge loginHash (DeleteChallenge waHash
                                      (record_passkey env dr now pk a cred clone db))))))))"
section \<open>Accounts\<close>

definition logout :: "auth_env \<Rightarrow> time \<Rightarrow> string \<Rightarrow> identity \<Rightarrow> auth_db \<Rightarrow> reply \<times> auth_db" where
  "logout env now token me db =
     (let db = (if token \<noteq> [] then DeleteSession (secret_hash env token) db else db)
      in (NoContent, Audit now me ''logout'' (i_id me) (i_name me) [] db))"

definition createAdmin ::
  "auth_env \<Rightarrow> draws \<Rightarrow> time \<Rightarrow> identity \<Rightarrow> string \<Rightarrow> string \<Rightarrow> role \<Rightarrow> auth_db \<Rightarrow> reply \<times> auth_db" where
  "createAdmin env dr now me username password role db =
     (let username = trim_space username
      in if username = [] then (Refused 400 ''username is required'', db)
         else if length password < MinPasswordLen then (Refused 400 ''password must be at least 8 characters'', db)
         else if \<not> ValidRole role then (Refused 400 ''role must be superadmin, operator or viewer'', db)
         else (case HashPassword (e_kdf env) (take saltLen (d_bytes dr)) password of
                 None \<Rightarrow> (ServerError ''hash password'', db)
               | Some hash \<Rightarrow>
                   (case CreateAdmin (d_id dr) now username hash role db of
                      Inl UniqueViolation \<Rightarrow> (Refused 409 ''that username is taken'', db)
                    | Inl _ \<Rightarrow> (ServerError ''create admin'', db)
                    | Inr (a, db) \<Rightarrow>
                        (AdminReply 201 a, Audit now me ''admin.create'' (a_id a) (a_username a) (a_role a) db))))"

definition boolText :: "bool \<Rightarrow> string" where
  "boolText b = (if b then ''true'' else ''false'')"

text \<open>\<open>updateAdmin\<close> reads and decides, then writes. The two are separate transactions, so other requests may come
  between them; the handler alone is their composition.\<close>

definition update_check ::
  "id \<Rightarrow> role \<Rightarrow> bool option \<Rightarrow> auth_db \<Rightarrow> (reply, admin \<times> role \<times> bool) result" where
  "update_check i newrole newdisabled db =
     (case GetAdmin i db of
        Inl _ \<Rightarrow> Inl (Refused 404 ''no such admin'')
      | Inr target \<Rightarrow>
          if newrole \<noteq> [] \<and> \<not> ValidRole newrole
          then Inl (Refused 400 ''role must be superadmin, operator or viewer'')
          else
            (let role = (if newrole \<noteq> [] then newrole else a_role target);
                 disabled = (case newdisabled of None \<Rightarrow> a_disabled target | Some d \<Rightarrow> d);
                 losingSuper = a_role target = RoleSuperadmin \<and> \<not> a_disabled target
                   \<and> (role \<noteq> RoleSuperadmin \<or> disabled)
             in if losingSuper \<and> CountEnabledSuperadmins db \<le> 1
                then Inl (Refused 409 ''this is the last enabled superadmin'')
                else Inr (target, role, disabled)))"

definition update_write ::
  "time \<Rightarrow> identity \<Rightarrow> id \<Rightarrow> admin \<times> role \<times> bool \<Rightarrow> auth_db \<Rightarrow> reply \<times> auth_db" where
  "update_write now me i v db =
     (case v of (target, role, disabled) \<Rightarrow>
        (case UpdateAdminRole i role disabled now db of
           Inl _ \<Rightarrow> (ServerError ''update admin'', db)
         | Inr db \<Rightarrow>
             (let db = Audit now me ''admin.update'' i (a_username target)
                         (''role='' @ role @ '' disabled='' @ boolText disabled) db
              in case GetAdmin i db of
                   Inl _ \<Rightarrow> (ServerError ''reload admin'', db)
                 | Inr updated \<Rightarrow> (AdminReply 200 updated, db))))"

definition updateAdmin ::
  "time \<Rightarrow> identity \<Rightarrow> id \<Rightarrow> role \<Rightarrow> bool option \<Rightarrow> auth_db \<Rightarrow> reply \<times> auth_db" where
  "updateAdmin now me i newrole newdisabled db =
     (case update_check i newrole newdisabled db of Inl r \<Rightarrow> (r, db) | Inr v \<Rightarrow> update_write now me i v db)"

definition deleteAdmin :: "time \<Rightarrow> identity \<Rightarrow> id \<Rightarrow> auth_db \<Rightarrow> reply \<times> auth_db" where
  "deleteAdmin now me i db =
     (case GetAdmin i db of
        Inl _ \<Rightarrow> (Refused 404 ''no such admin'', db)
      | Inr target \<Rightarrow>
          if i_id me = i then (Refused 409 ''you cannot delete the account you are signed in as'', db)
          else if enabled_super target \<and> CountEnabledSuperadmins db \<le> 1
          then (Refused 409 ''this is the last enabled superadmin'', db)
          else (case DeleteAdmin i db of
                  Inl _ \<Rightarrow> (ServerError ''delete admin'', db)
                | Inr db \<Rightarrow> (NoContent, Audit now me ''admin.delete'' i (a_username target) [] db)))"

definition changePassword ::
  "auth_env \<Rightarrow> draws \<Rightarrow> time \<Rightarrow> identity \<Rightarrow> id \<Rightarrow> string \<Rightarrow> string \<Rightarrow> auth_db \<Rightarrow> reply \<times> auth_db" where
  "changePassword env dr now me i current new db =
     (if i \<noteq> i_id me \<and> \<not> CanAdmin me then (Refused 403 ''you may only change your own password'', db)
      else (case GetAdmin i db of
              Inl _ \<Rightarrow> (Refused 404 ''no such admin'', db)
            | Inr target \<Rightarrow>
                if length new < MinPasswordLen then (Refused 400 ''password must be at least 8 characters'', db)
                else if i = i_id me \<and> \<not> VerifyPassword (e_kdf env) current (a_password_hash target)
                then (Refused 401 ''current password is incorrect'', db)
                else (case HashPassword (e_kdf env) (take saltLen (d_bytes dr)) new of
                        None \<Rightarrow> (ServerError ''hash password'', db)
                      | Some hash \<Rightarrow>
                          (case SetAdminPassword i hash now db of
                             Inl _ \<Rightarrow> (ServerError ''set password'', db)
                           | Inr db \<Rightarrow> (NoContent, Audit now me ''admin.password'' i (a_username target) [] db)))))"

section \<open>Enrolment\<close>

definition deleteMFA :: "time \<Rightarrow> identity \<Rightarrow> id \<Rightarrow> auth_db \<Rightarrow> reply \<times> auth_db" where
  "deleteMFA now me i db =
     (case DeleteMFACredential (i_id me) i db of
        Inl _ \<Rightarrow> (Refused 404 ''no such factor on this account'', db)
      | Inr db \<Rightarrow> (NoContent, Audit now me ''mfa.delete'' (i_id me) (i_name me) i db))"

definition new_factor :: "id \<Rightarrow> string \<Rightarrow> string \<Rightarrow> string \<Rightarrow> string \<Rightarrow> bool \<Rightarrow> mfa_credential" where
  "new_factor adminID kind name secret credentialID confirmed =
     \<lparr>mc_id = [], mc_admin_id = adminID, mc_kind = kind, mc_name = name, mc_secret = secret,
      mc_credential_id = credentialID, mc_created_at = 0, mc_last_used_at = 0, mc_confirmed = confirmed\<rparr>"

definition beginTOTP :: "auth_env \<Rightarrow> draws \<Rightarrow> time \<Rightarrow> identity \<Rightarrow> string \<Rightarrow> auth_db \<Rightarrow> reply \<times> auth_db" where
  "beginTOTP env dr now me name db =
     (let name = (if trim_space name = [] then ''Authenticator app'' else trim_space name)
      in case NewTOTPSecret (d_bytes dr) of
           None \<Rightarrow> (ServerError ''generate secret'', db)
         | Some secret \<Rightarrow>
             (case PutMFACredential (e_box env) (d_nonce dr) (d_id dr) now
                     (new_factor (i_id me) MFATOTP name secret [] False) db of
                Inl _ \<Rightarrow> (ServerError ''store factor'', db)
              | Inr (cred, db) \<Rightarrow> (Enrolment (mc_id cred) secret, db)))"

definition afterFirstFactor ::
  "auth_env \<Rightarrow> draws \<Rightarrow> time \<Rightarrow> id \<Rightarrow> string \<Rightarrow> auth_db \<Rightarrow> reply \<times> auth_db" where
  "afterFirstFactor env dr now adminID name db =
     (if CountUnusedRecoveryCodes adminID db \<noteq> 0 then (Confirmed name None, db)
      else (case NewRecoveryCodes (e_sha256 env) (d_bytes dr) of
              None \<Rightarrow> (Confirmed name None, db)
            | Some (codes, hashes) \<Rightarrow>
                (case ReplaceRecoveryCodes adminID hashes now db of
                   Inl _ \<Rightarrow> (Confirmed name None, db)
                 | Inr db \<Rightarrow> (Confirmed name (Some codes), db))))"

definition confirmTOTP ::
  "auth_env \<Rightarrow> draws \<Rightarrow> time \<Rightarrow> identity \<Rightarrow> id \<Rightarrow> string \<Rightarrow> auth_db \<Rightarrow> reply \<times> auth_db" where
  "confirmTOTP env dr now me i code db =
     (case GetMFACredential (e_box env) i db of
        Inl _ \<Rightarrow> (Refused 404 ''no such enrolment on this account'', db)
      | Inr cred \<Rightarrow>
          if mc_admin_id cred \<noteq> i_id me \<or> mc_kind cred \<noteq> MFATOTP
          then (Refused 404 ''no such enrolment on this account'', db)
          else if \<not> VerifyTOTP (e_hmac env) (mc_secret cred) code now
          then (Refused 400 ''that code does not match; check the phone's clock'', db)
          else (case PutMFACredential (e_box env) (d_nonce dr) (d_id dr) now (cred\<lparr>mc_confirmed := True\<rparr>) db of
                  Inl _ \<Rightarrow> (ServerError ''confirm factor'', db)
                | Inr (_, db) \<Rightarrow>
                    afterFirstFactor env dr now (i_id me) (mc_name cred)
                      (Audit now me ''mfa.enroll'' (i_id me) (i_name me) ''totp'' db)))"

definition beginPasskeyRegistration :: "auth_env \<Rightarrow> draws \<Rightarrow> time \<Rightarrow> identity \<Rightarrow> auth_db \<Rightarrow> reply \<times> auth_db" where
  "beginPasskeyRegistration env dr now me db =
     (case e_passkeys env of
        None \<Rightarrow> (Refused 503 ''passkeys need the panel served over https (or localhost); check CHIRAL_PUBLIC_URL'', db)
      | Some pk \<Rightarrow>
          (case GetAdmin (i_id me) db of
             Inl _ \<Rightarrow> (ServerError ''load admin'', db)
           | Inr a \<Rightarrow>
               (case passkeyUser env pk a db of
                  Inl _ \<Rightarrow> (ServerError ''load passkeys'', db)
                | Inr u \<Rightarrow>
                    (case pk_begin_registration pk u of
                       None \<Rightarrow> (ServerError ''begin passkey registration'', db)
                     | Some (options, sess) \<Rightarrow>
                         (case CreateChallenge (secret_hash env (d_token dr)) (i_id me) PurposeWebAuthnRegister sess
                                 WebAuthnChallengeTTL now db of
                            Inl _ \<Rightarrow> (ServerError ''store challenge'', db)
                          | Inr db \<Rightarrow> (RegistrationOptions (d_token dr) options, db))))))"

definition finishPasskeyRegistration ::
  "auth_env \<Rightarrow> draws \<Rightarrow> time \<Rightarrow> identity \<Rightarrow> string \<Rightarrow> string \<Rightarrow> string \<Rightarrow> auth_db \<Rightarrow> reply \<times> auth_db" where
  "finishPasskeyRegistration env dr now me challenge name response db =
     (case e_passkeys env of
        None \<Rightarrow> (Refused 503 ''passkeys are not available on this panel'', db)
      | Some pk \<Rightarrow>
          (let hash = secret_hash env challenge
           in case GetChallenge hash PurposeWebAuthnRegister now db of
                Inl _ \<Rightarrow> (Refused 401 ''challenge is invalid or has expired'', db)
              | Inr ch \<Rightarrow>
                  if ch_admin_id ch \<noteq> i_id me then (Refused 401 ''challenge is invalid or has expired'', db)
                  else (case GetAdmin (i_id me) db of
                     Inl _ \<Rightarrow> (ServerError ''load admin'', db)
                   | Inr a \<Rightarrow>
                       (case passkeyUser env pk a db of
                          Inl _ \<Rightarrow> (ServerError ''load passkeys'', db)
                        | Inr u \<Rightarrow>
                            (case pk_finish_registration pk u (ch_data ch) response of
                               None \<Rightarrow> (Refused 400 ''that passkey was not accepted'', DeleteChallenge hash db)
                             | Some cred \<Rightarrow>
                                 (let db = DeleteChallenge hash db;
                                      name = (if trim_space name = [] then ''Passkey'' else trim_space name)
                                  in case pk_encode pk cred of
                                       None \<Rightarrow> (ServerError ''encode credential'', db)
                                     | Some encoded \<Rightarrow>
                                         (case PutMFACredential (e_box env) (d_nonce dr) (d_id dr) now
                                                 (new_factor (i_id me) MFAPasskey name encoded (pk_credential_id pk cred) True) db of
                                            Inl _ \<Rightarrow> (ServerError ''store passkey'', db)
                                          | Inr (_, db) \<Rightarrow>
                                              afterFirstFactor env dr now (i_id me) name
                                                (Audit now me ''mfa.enroll'' (i_id me) (i_name me) (''passkey:'' @ name) db))))))))"

definition sendEmailVerification :: "auth_env \<Rightarrow> draws \<Rightarrow> time \<Rightarrow> identity \<Rightarrow> string \<Rightarrow> auth_db \<Rightarrow> reply \<times> auth_db" where
  "sendEmailVerification env dr now me email db =
     (case e_mailer env of
        None \<Rightarrow> (Refused 503 ''email is not configured; set CHIRAL_SMTP_HOST and CHIRAL_SMTP_FROM'', db)
      | Some send \<Rightarrow>
          (let addr = trim_space email
           in if \<not> e_valid_addr env addr then (Refused 400 ''that is not a valid email address'', db)
              else (case SetAdminEmail (i_id me) addr False now db of
                 Inl _ \<Rightarrow> (ServerError ''store email'', db)
               | Inr db \<Rightarrow>
                   (case NewNumericCode (d_bytes dr) of
                      None \<Rightarrow> (ServerError ''generate code'', db)
                    | Some code \<Rightarrow>
                        (case CreateChallenge (secret_hash env (i_id me @ '':email-verify'')) (i_id me) PurposeEmailVerify
                                (secret_hash env code) EmailCodeTTL now db of
                           Inl _ \<Rightarrow> (ServerError ''store code'', db)
                         | Inr db \<Rightarrow>
                             if send addr then (SentTo (maskEmail addr), db)
                             else (Refused 502 ''could not send the email'', db))))))"

definition confirmEmail :: "auth_env \<Rightarrow> draws \<Rightarrow> time \<Rightarrow> identity \<Rightarrow> string \<Rightarrow> auth_db \<Rightarrow> reply \<times> auth_db" where
  "confirmEmail env dr now me code db =
     (let hash = secret_hash env (i_id me @ '':email-verify'')
      in case GetChallenge hash PurposeEmailVerify now db of
           Inl _ \<Rightarrow> (Refused 401 ''no code is pending, or it has expired'', db)
         | Inr ch \<Rightarrow>
             if ch_data ch \<noteq> secret_hash env (trim_space code)
             then count_failure hash ''too many attempts; send a new code'' ''that code is not valid'' db
             else
               (let db = DeleteChallenge hash db
                in case AdminEmail (i_id me) db of
                     Inl _ \<Rightarrow> (ServerError ''load email'', db)
                   | Inr (email, _) \<Rightarrow>
                       (case SetAdminEmail (i_id me) email True now db of
                          Inl _ \<Rightarrow> (ServerError ''mark verified'', db)
                        | Inr db \<Rightarrow>
                            (case PutMFACredential (e_box env) (d_nonce dr) (d_id dr) now
                                    (new_factor (i_id me) MFAEmail email [] [] True) db of
                               Inl _ \<Rightarrow> (ServerError ''enrol email factor'', db)
                             | Inr (_, db) \<Rightarrow>
                                 afterFirstFactor env dr now (i_id me) email
                                   (Audit now me ''mfa.enroll'' (i_id me) (i_name me) ''email'' db)))))"

definition regenerateRecoveryCodes :: "auth_env \<Rightarrow> draws \<Rightarrow> time \<Rightarrow> identity \<Rightarrow> auth_db \<Rightarrow> reply \<times> auth_db" where
  "regenerateRecoveryCodes env dr now me db =
     (case NewRecoveryCodes (e_sha256 env) (d_bytes dr) of
        None \<Rightarrow> (ServerError ''generate recovery codes'', db)
      | Some (codes, hashes) \<Rightarrow>
          (case ReplaceRecoveryCodes (i_id me) hashes now db of
             Inl _ \<Rightarrow> (ServerError ''store recovery codes'', db)
           | Inr db \<Rightarrow>
               (RecoveryCodes codes, Audit now me ''mfa.recovery_codes'' (i_id me) (i_name me) ''regenerated'' db)))"

section \<open>Requests\<close>

datatype call =
    Logout
  | CreateAdminCall string string role
  | UpdateAdminCall id role "bool option"
  | DeleteAdminCall id
  | ChangePasswordCall id string string
  | DeleteMFACall id
  | BeginTOTP string
  | ConfirmTOTP id string
  | BeginPasskey
  | FinishPasskey string string string
  | SendVerification string
  | ConfirmEmailCall string
  | RegenerateCodes

datatype request =
    Login string string
  | VerifyMFA string string string
  | SendEmailCode string
  | BeginPasskeyLogin string
  | FinishPasskeyLogin string string
  | Call string call
  | Sweep

text \<open>The roles and handlers of the routes.\<close>

fun min_role :: "call \<Rightarrow> role" where
  "min_role (CreateAdminCall _ _ _) = RoleSuperadmin"
| "min_role (UpdateAdminCall _ _ _) = RoleSuperadmin"
| "min_role (DeleteAdminCall _) = RoleSuperadmin"
| "min_role _ = RoleViewer"

fun handle :: "auth_env \<Rightarrow> draws \<Rightarrow> time \<Rightarrow> string \<Rightarrow> call \<Rightarrow> identity \<Rightarrow> auth_db \<Rightarrow> reply \<times> auth_db" where
  "handle env dr now token Logout me = logout env now token me"
| "handle env dr now token (CreateAdminCall u p r) me = createAdmin env dr now me u p r"
| "handle env dr now token (UpdateAdminCall i r d) me = updateAdmin now me i r d"
| "handle env dr now token (DeleteAdminCall i) me = deleteAdmin now me i"
| "handle env dr now token (ChangePasswordCall i c n) me = changePassword env dr now me i c n"
| "handle env dr now token (DeleteMFACall i) me = deleteMFA now me i"
| "handle env dr now token (BeginTOTP n) me = beginTOTP env dr now me n"
| "handle env dr now token (ConfirmTOTP i c) me = confirmTOTP env dr now me i c"
| "handle env dr now token BeginPasskey me = beginPasskeyRegistration env dr now me"
| "handle env dr now token (FinishPasskey c n r) me = finishPasskeyRegistration env dr now me c n r"
| "handle env dr now token (SendVerification e) me = sendEmailVerification env dr now me e"
| "handle env dr now token (ConfirmEmailCall c) me = confirmEmail env dr now me c"
| "handle env dr now token RegenerateCodes me = regenerateRecoveryCodes env dr now me"

fun serve :: "auth_env \<Rightarrow> draws \<Rightarrow> time \<Rightarrow> request \<Rightarrow> auth_db \<Rightarrow> reply \<times> auth_db" where
  "serve env dr now (Login u p) db = login env dr now u p db"
| "serve env dr now (VerifyMFA c m x) db = verifyMFA env dr now c m x db"
| "serve env dr now (SendEmailCode c) db = sendEmailCode env dr now c db"
| "serve env dr now (BeginPasskeyLogin c) db = beginPasskeyLogin env now c db"
| "serve env dr now (FinishPasskeyLogin c r) db = finishPasskeyLogin env dr now c r db"
| "serve env dr now (Call token c) db = require env now (min_role c) token (handle env dr now token c) db"
| "serve env dr now Sweep db = (NoContent, PruneChallenges now (PruneSessions now db))"
section \<open>Frames\<close>

text \<open>
  What most handlers leave alone. A frame is a relation between the tables before and after a request that the plain
  writes respect: those to factors, recovery codes, the audit log and addresses, deletions of sessions and
  challenges, and challenges for other purposes than signing in. The handlers made of such writes respect it too.
\<close>

locale frame =
  fixes R :: "auth_db \<Rightarrow> auth_db \<Rightarrow> bool"
  assumes same: "R db db"
    and touch_login: "R d db \<Longrightarrow> R d (TouchAdminLogin i now db)"
    and delete_session: "R d db \<Longrightarrow> R d (DeleteSession h db)"
    and audit: "R d db \<Longrightarrow> R d (Audit now me x t n y db)"
    and touch_mfa: "R d db \<Longrightarrow> R d (TouchMFACredential i now db)"
    and delete_challenge: "R d db \<Longrightarrow> R d (DeleteChallenge h db)"
    and set_email: "SetAdminEmail i e v now db = Inr db' \<Longrightarrow> R d db \<Longrightarrow> R d db'"
    and set_password: "SetAdminPassword i p now db = Inr db' \<Longrightarrow> R d db \<Longrightarrow> R d db'"
    and put_mfa: "PutMFACredential b nonce i now c db = Inr (c', db') \<Longrightarrow> R d db \<Longrightarrow> R d db'"
    and delete_mfa: "DeleteMFACredential a i db = Inr db' \<Longrightarrow> R d db \<Longrightarrow> R d db'"
    and replace_codes: "ReplaceRecoveryCodes a hs now db = Inr db' \<Longrightarrow> R d db \<Longrightarrow> R d db'"
    and use_code: "UseRecoveryCode a h now db = (u, db') \<Longrightarrow> R d db \<Longrightarrow> R d db'"
    and create_challenge:
      "CreateChallenge h a p x ttl now db = Inr db' \<Longrightarrow> p \<noteq> PurposeLogin \<Longrightarrow> R d db \<Longrightarrow> R d db'"
    and bump: "BumpChallengeAttempts h db = (r, db') \<Longrightarrow> R d db \<Longrightarrow> R d db'"
begin

lemmas plain = same touch_login delete_session audit touch_mfa delete_challenge
lemmas by_result = set_email set_password put_mfa delete_mfa replace_codes use_code create_challenge bump

lemma count_failure: "count_failure h s m db = (r, db') \<Longrightarrow> R d db \<Longrightarrow> R d db'"
  by (auto simp: count_failure_def split: prod.split_asm sum.split_asm bool.split_asm) (erule by_result | rule plain | simp)+

lemma fail_challenge: "failChallenge h m db = (r, db') \<Longrightarrow> R d db \<Longrightarrow> R d db'"
  unfolding failChallenge_def by (rule count_failure)

lemma spend_challenge: "spendChallenge env now c p db = (r, db') \<Longrightarrow> R d db \<Longrightarrow> R d db'"
  by (auto simp: spendChallenge_def Let_def split: if_split_asm sum.split_asm) (rule plain | simp)+

lemma record_passkey: "R d db \<Longrightarrow> R d (record_passkey env dr now pk a cred clone db)"
  by (auto simp: record_passkey_def Let_def split: sum.split option.split prod.split) (erule by_result | rule plain | simp)+

lemma after_first_factor: "afterFirstFactor env dr now a n db = (r, db') \<Longrightarrow> R d db \<Longrightarrow> R d db'"
  by (auto simp: afterFirstFactor_def split: if_split_asm option.split_asm prod.split_asm sum.split_asm)
     (erule by_result | rule plain | simp)+

lemma purposes_apart [simp]:
  "PurposeWebAuthnRegister \<noteq> PurposeLogin" "PurposeWebAuthnLogin \<noteq> PurposeLogin" "PurposeEmailVerify \<noteq> PurposeLogin"
  "PurposeEmailCode \<noteq> PurposeLogin"
  by (simp_all add: purposes)

lemmas by_parts = by_result count_failure fail_challenge spend_challenge after_first_factor

lemma send_email_code: "sendEmailCode env dr now c db = (r, db') \<Longrightarrow> R db db'"
  by (auto simp: sendEmailCode_def split: prod.split_asm sum.split_asm if_split_asm option.split_asm)
     (erule by_parts | rule plain | simp)+

lemma begin_passkey_login: "beginPasskeyLogin env now c db = (r, db') \<Longrightarrow> R db db'"
  by (auto simp: beginPasskeyLogin_def split: prod.split_asm sum.split_asm if_split_asm option.split_asm)
     (erule by_parts | rule plain | simp)+

lemma account_handlers:
  "logout env now token me db = (r, db') \<Longrightarrow> R db db'"
  "changePassword env dr now me i cur new db = (r, db') \<Longrightarrow> R db db'"
  "deleteMFA now me i db = (r, db') \<Longrightarrow> R db db'"
  by (auto simp: logout_def changePassword_def deleteMFA_def Let_def split: if_split_asm sum.split_asm option.split_asm)
     (erule by_parts | rule plain | simp)+

lemma totp_handlers:
  "beginTOTP env dr now me n db = (r, db') \<Longrightarrow> R db db'"
  "confirmTOTP env dr now me i x db = (r, db') \<Longrightarrow> R db db'"
  by (auto simp: beginTOTP_def confirmTOTP_def Let_def split: if_split_asm option.split_asm sum.split_asm prod.split_asm)
     (erule by_parts | rule plain | simp)+

lemma passkey_handlers:
  "beginPasskeyRegistration env dr now me db = (r, db') \<Longrightarrow> R db db'"
  "finishPasskeyRegistration env dr now me c n x db = (r, db') \<Longrightarrow> R db db'"
  by (auto simp: beginPasskeyRegistration_def finishPasskeyRegistration_def Let_def
      split: option.split_asm sum.split_asm prod.split_asm if_split_asm)
     (erule by_parts | rule plain | simp)+

lemma email_handlers:
  "sendEmailVerification env dr now me e db = (r, db') \<Longrightarrow> R db db'"
  "confirmEmail env dr now me x db = (r, db') \<Longrightarrow> R db db'"
  "regenerateRecoveryCodes env dr now me db = (r, db') \<Longrightarrow> R db db'"
  by (auto simp: sendEmailVerification_def confirmEmail_def regenerateRecoveryCodes_def Let_def
      split: option.split_asm sum.split_asm if_split_asm prod.split_asm)
     (erule by_parts | rule plain | simp)+

lemma handlers:
  assumes "handle env dr now token c me db = (r, db')" and "min_role c \<noteq> RoleSuperadmin"
  shows "R db db'"
  using assms by (cases c) (auto dest: account_handlers totp_handlers passkey_handlers email_handlers)

end

section \<open>What a request leaves of sessions and challenges\<close>

definition login_keys :: "auth_db \<Rightarrow> (string \<times> id \<times> int) set" where
  "login_keys db = (\<lambda>c. (ch_token_hash c, ch_admin_id c, ch_expires_at c)) ` {c \<in> set (au_challenges db). ch_purpose c = PurposeLogin}"

definition keeps :: "auth_db \<Rightarrow> auth_db \<Rightarrow> bool" where
  "keeps db db' \<longleftrightarrow> set (au_sessions db') \<subseteq> set (au_sessions db) \<and> login_keys db' \<subseteq> login_keys db"

lemma keeps_refl: "keeps db db"
  by (simp add: keeps_def)

lemma keeps_fields:
  "keeps d db \<Longrightarrow> set (au_sessions db') \<subseteq> set (au_sessions db) \<Longrightarrow> au_challenges db' = au_challenges db \<Longrightarrow> keeps d db'"
  by (auto simp: keeps_def login_keys_def)

lemma found_Inr [simp]: "found r = Inr x \<longleftrightarrow> r = Some x"
  by (simp add: found_def split: option.split)

lemma update_admin_keeps: "update_admin i f db = Inr db' \<Longrightarrow> keeps d db \<Longrightarrow> keeps d db'"
  by (auto simp: update_admin_def split: if_split_asm intro: keeps_fields)

lemma UpdateAdminRole_keeps: "UpdateAdminRole i r x now db = Inr db' \<Longrightarrow> keeps d db \<Longrightarrow> keeps d db'"
  unfolding UpdateAdminRole_def by (rule update_admin_keeps)

lemma SetAdminEmail_keeps: "SetAdminEmail i e v now db = Inr db' \<Longrightarrow> keeps d db \<Longrightarrow> keeps d db'"
  unfolding SetAdminEmail_def by (rule update_admin_keeps)

lemma SetAdminPassword_keeps: "SetAdminPassword i h now db = Inr db' \<Longrightarrow> keeps d db \<Longrightarrow> keeps d db'"
  by (auto simp: SetAdminPassword_def bind_result_def set_sql_delete update_admin_def split: sum.split_asm if_split_asm intro: keeps_fields)

lemma CreateAdmin_keeps: "CreateAdmin i now u h r db = Inr (a, db') \<Longrightarrow> keeps d db \<Longrightarrow> keeps d db'"
  by (auto simp: CreateAdmin_def Let_def split: if_split_asm intro: keeps_fields)

lemma DeleteAdmin_keeps: "DeleteAdmin i db = Inr db' \<Longrightarrow> keeps d db \<Longrightarrow> keeps d db'"
  by (auto simp: DeleteAdmin_def keeps_def login_keys_def set_sql_delete split: if_split_asm)

lemma simple_keeps:
  "keeps d db \<Longrightarrow> keeps d (TouchAdminLogin i now db)"
  "keeps d db \<Longrightarrow> keeps d (DeleteSession h db)"
  "keeps d db \<Longrightarrow> keeps d (PruneSessions now db)"
  "keeps d db \<Longrightarrow> keeps d (Audit now me x t n y db)"
  "keeps d db \<Longrightarrow> keeps d (TouchMFACredential i now db)"
  "keeps d db \<Longrightarrow> keeps d (DeleteChallenge h db)"
  "keeps d db \<Longrightarrow> keeps d (PruneChallenges now db)"
  by (auto simp: TouchAdminLogin_def DeleteSession_def PruneSessions_def Audit_def TouchMFACredential_def DeleteChallenge_def
      PruneChallenges_def keeps_def login_keys_def set_sql_delete)

lemma PutMFACredential_keeps: "PutMFACredential b n i now c db = Inr (c', db') \<Longrightarrow> keeps d db \<Longrightarrow> keeps d db'"
  by (auto simp: PutMFACredential_def Let_def split: if_split_asm intro: keeps_fields)

lemma DeleteMFACredential_keeps: "DeleteMFACredential a i db = Inr db' \<Longrightarrow> keeps d db \<Longrightarrow> keeps d db'"
  by (auto simp: DeleteMFACredential_def split: if_split_asm intro: keeps_fields)

lemma ReplaceRecoveryCodes_keeps: "ReplaceRecoveryCodes a hs now db = Inr db' \<Longrightarrow> keeps d db \<Longrightarrow> keeps d db'"
  by (auto simp: ReplaceRecoveryCodes_def split: if_split_asm intro: keeps_fields)

lemma UseRecoveryCode_keeps: "UseRecoveryCode a h now db = (u, db') \<Longrightarrow> keeps d db \<Longrightarrow> keeps d db'"
  by (auto simp: UseRecoveryCode_def intro: keeps_fields)

lemma in_login_keys:
  "(h, a, e) \<in> login_keys db \<longleftrightarrow>
    (\<exists>c\<in>set (au_challenges db). ch_purpose c = PurposeLogin \<and> ch_token_hash c = h \<and> ch_admin_id c = a \<and> ch_expires_at c = e)"
  by (auto simp: login_keys_def image_iff)

lemma login_keys_create:
  assumes "CreateChallenge h a p x ttl now db = Inr db'"
  shows "login_keys db' \<subseteq> login_keys db \<union> (if p = PurposeLogin then {(h, a, to_unix (now + ttl))} else {})"
proof -
  have "set (au_challenges db') \<subseteq> set (au_challenges db) \<union>
      {\<lparr>ch_token_hash = h, ch_admin_id = a, ch_purpose = p, ch_data = x, ch_attempts = 0, ch_created_at = to_unix now,
        ch_expires_at = to_unix (now + ttl)\<rparr>}"
    using assms by (auto simp: CreateChallenge_def Let_def set_sql_update split: if_split_asm)
  then show ?thesis by (fastforce simp: in_login_keys subset_iff)
qed

lemma sessions_create: "CreateChallenge h a p x ttl now db = Inr db' \<Longrightarrow> au_sessions db' = au_sessions db"
  by (auto simp: CreateChallenge_def Let_def split: if_split_asm)

lemma CreateChallenge_keeps:
  "CreateChallenge h a p x ttl now db = Inr db' \<Longrightarrow> p \<noteq> PurposeLogin \<Longrightarrow> keeps d db \<Longrightarrow> keeps d db'"
  using login_keys_create [of h a p x ttl now db db'] sessions_create [of h a p x ttl now db db'] by (auto simp: keeps_def)

definition bumped :: "string \<Rightarrow> challenge \<Rightarrow> challenge" where
  "bumped h c = (if ch_token_hash c = h then c\<lparr>ch_attempts := ch_attempts c + 1\<rparr> else c)"

lemma bumped_fields [simp]:
  "ch_token_hash (bumped h c) = ch_token_hash c" "ch_admin_id (bumped h c) = ch_admin_id c"
  "ch_purpose (bumped h c) = ch_purpose c" "ch_expires_at (bumped h c) = ch_expires_at c"
  by (simp_all add: bumped_def)

lemma login_keys_bump: "BumpChallengeAttempts h db = (r, db') \<Longrightarrow> login_keys db' = login_keys db"
proof -
  assume "BumpChallengeAttempts h db = (r, db')"
  then have rows: "au_challenges db' = map (bumped h) (au_challenges db)"
    by (auto simp: BumpChallengeAttempts_def bumped_def Let_def sql_update_def split: option.split_asm)
  have "{c \<in> bumped h ` set (au_challenges db). ch_purpose c = PurposeLogin} =
      bumped h ` {c \<in> set (au_challenges db). ch_purpose c = PurposeLogin}" by auto
  then show ?thesis by (simp add: login_keys_def rows image_image)
qed

lemma sessions_bump: "BumpChallengeAttempts h db = (r, db') \<Longrightarrow> au_sessions db' = au_sessions db"
  by (auto simp: BumpChallengeAttempts_def Let_def split: option.split_asm)

lemma BumpChallengeAttempts_keeps: "BumpChallengeAttempts h db = (r, db') \<Longrightarrow> keeps d db \<Longrightarrow> keeps d db'"
  by (simp add: keeps_def login_keys_bump sessions_bump)

interpretation kp: frame keeps
  by unfold_locales
    (rule keeps_refl SetAdminEmail_keeps SetAdminPassword_keeps PutMFACredential_keeps DeleteMFACredential_keeps
      ReplaceRecoveryCodes_keeps UseRecoveryCode_keeps CreateChallenge_keeps BumpChallengeAttempts_keeps simple_keeps;
     assumption)+

lemma handle_keeps:
  assumes "handle env dr now token c me db = (r, db')"
  shows "keeps db db'"
proof (cases "min_role c = RoleSuperadmin")
  case False
  with assms show ?thesis by (rule kp.handlers)
next
  case True
  then consider (create) u p q where "c = CreateAdminCall u p q" | (update) i q x where "c = UpdateAdminCall i q x"
    | (delete) i where "c = DeleteAdminCall i"
    by (cases c) (auto simp: RoleSuperadmin_def RoleViewer_def)
  then show ?thesis
  proof cases
    case create
    with assms show ?thesis
      by (auto simp: createAdmin_def Let_def split: if_split_asm option.split_asm sum.split_asm db_error.split_asm prod.split_asm)
         (erule CreateAdmin_keeps | rule kp.plain)+
  next
    case update
    with assms show ?thesis
      by (auto simp: updateAdmin_def update_write_def Let_def split: sum.split_asm prod.split_asm)
         (erule UpdateAdminRole_keeps | rule kp.plain)+
  next
    case delete
    with assms show ?thesis
      by (auto simp: deleteAdmin_def split: if_split_asm sum.split_asm) (erule DeleteAdmin_keeps | rule kp.plain)+
  qed
qed

section \<open>How a session is earned\<close>

definition password_ok :: "auth_env \<Rightarrow> auth_db \<Rightarrow> id \<Rightarrow> string \<Rightarrow> bool" where
  "password_ok env db a p \<longleftrightarrow>
     list_ex (\<lambda>r. a_id r = a \<and> \<not> a_disabled r \<and> VerifyPassword (e_kdf env) p (a_password_hash r)) (au_admins db)"

definition totp_proof :: "auth_env \<Rightarrow> time \<Rightarrow> string \<Rightarrow> auth_db \<Rightarrow> id \<Rightarrow> bool" where
  "totp_proof env now x db a \<longleftrightarrow>
     (case ConfirmedMFACredentials (e_box env) a db of
        Inl _ \<Rightarrow> False
      | Inr fs \<Rightarrow> list_ex (\<lambda>f. mc_kind f = MFATOTP \<and> VerifyTOTP (e_hmac env) (mc_secret f) x now) fs)"

definition email_proof :: "auth_env \<Rightarrow> time \<Rightarrow> string \<Rightarrow> string \<Rightarrow> auth_db \<Rightarrow> bool" where
  "email_proof env now c x db \<longleftrightarrow>
     (case GetChallenge (secret_hash env (c @ '':email'')) PurposeEmailCode now db of
        Inl _ \<Rightarrow> False
      | Inr ch \<Rightarrow> ch_data ch = secret_hash env (trim_space x))"

definition passkey_proof :: "auth_env \<Rightarrow> time \<Rightarrow> string \<Rightarrow> string \<Rightarrow> auth_db \<Rightarrow> id \<Rightarrow> bool" where
  "passkey_proof env now c response db a \<longleftrightarrow>
     (case e_passkeys env of
        None \<Rightarrow> False
      | Some pk \<Rightarrow>
          (case GetChallenge (secret_hash env (c @ '':webauthn'')) PurposeWebAuthnLogin now db of
             Inl _ \<Rightarrow> False
           | Inr ch \<Rightarrow>
               list_ex (\<lambda>r. a_id r = a \<and>
                 (case passkeyUser env pk r db of
                    Inl _ \<Rightarrow> False
                  | Inr u \<Rightarrow> pk_finish_login pk u (ch_data ch) response \<noteq> None)) (au_admins db)))"

fun proves_factor :: "auth_env \<Rightarrow> time \<Rightarrow> request \<Rightarrow> auth_db \<Rightarrow> id \<Rightarrow> bool" where
  "proves_factor env now (VerifyMFA c m x) db a \<longleftrightarrow>
     m = MFATOTP \<and> totp_proof env now x db a
     \<or> m = ''recovery'' \<and> list_ex (unused_code a (secret_hash env (NormalizeRecoveryCode x))) (au_recovery db)
     \<or> m = MFAEmail \<and> email_proof env now c x db"
| "proves_factor env now (FinishPasskeyLogin c response) db a \<longleftrightarrow> passkey_proof env now c response db a"
| "proves_factor env now _ db a \<longleftrightarrow> False"

fun challenge_of :: "request \<Rightarrow> string" where
  "challenge_of (VerifyMFA c m x) = c"
| "challenge_of (FinishPasskeyLogin c response) = c"
| "challenge_of _ = []"

definition pending :: "auth_env \<Rightarrow> time \<Rightarrow> string \<Rightarrow> auth_db \<Rightarrow> id \<Rightarrow> bool" where
  "pending env now c db a \<longleftrightarrow>
     list_ex (\<lambda>ch. ch_purpose ch = PurposeLogin \<and> ch_token_hash ch = secret_hash env c \<and> ch_admin_id ch = a
       \<and> to_unix now < ch_expires_at ch) (au_challenges db)"

text \<open>The two ways to a session: the password of an account without a confirmed factor, or a factor proved on a
  pending login.\<close>

fun password_login :: "auth_env \<Rightarrow> request \<Rightarrow> auth_db \<Rightarrow> id \<Rightarrow> bool" where
  "password_login env (Login u p) db a \<longleftrightarrow> password_ok env db a p"
| "password_login env _ db a \<longleftrightarrow> False"

definition earned :: "auth_env \<Rightarrow> time \<Rightarrow> request \<Rightarrow> auth_db \<Rightarrow> id \<Rightarrow> bool" where
  "earned env now r db a \<longleftrightarrow>
     password_login env r db a \<and> ConfirmedMFACredentials (e_box env) a db = Inr []
     \<or> proves_factor env now r db a \<and> pending env now (challenge_of r) db a"

text \<open>The sessions added belong to one account, and no login challenge is added.\<close>

definition grants :: "auth_db \<Rightarrow> auth_db \<Rightarrow> id \<Rightarrow> bool" where
  "grants db db' a \<longleftrightarrow>
     (\<forall>s\<in>set (au_sessions db'). s \<in> set (au_sessions db) \<or> ss_admin_id s = a) \<and> login_keys db' \<subseteq> login_keys db"

lemma issueSession_grants:
  assumes "issueSession env dr now a how db = (r, db')" and "keeps d db"
  shows "grants d db' (a_id a)"
proof (cases "CreateSession (secret_hash env (d_token dr)) (a_id a) SessionTTL now db")
  case Inl
  with assms show ?thesis by (auto simp: issueSession_def grants_def keeps_def)
next
  case (Inr db1)
  then have s: "set (au_sessions db1) \<subseteq> set (au_sessions db) \<union> {s. ss_admin_id s = a_id a}" "login_keys db1 = login_keys db"
    by (auto simp: CreateSession_def login_keys_def split: if_split_asm)
  have "keeps db1 db'"
    using assms(1) Inr by (auto simp: issueSession_def Let_def split: sum.split_asm) (rule kp.plain)+
  with s assms(2) show ?thesis by (auto simp: grants_def keeps_def)
qed

lemma spent_challenge:
  assumes "spendChallenge env now c PurposeLogin db = (Inr (a, hash), db')"
  shows "db' = db" and "hash = secret_hash env c" and "pending env now c db (a_id a)" and "a \<in> set (au_admins db)"
    and "\<not> a_disabled a"
  using assms
  by (auto simp: spendChallenge_def Let_def GetChallenge_def GetAdmin_def sql_row_def pending_def list_ex_iff find_Some_iff
      split: if_split_asm sum.split_asm)
lemma verify_totp_grants:
  assumes "verify_totp env dr now a hash x db = (r, db')"
  shows "keeps db db' \<or> grants db db' (a_id a) \<and> totp_proof env now x db (a_id a)"
proof (cases "ConfirmedMFACredentials (e_box env) (a_id a) db")
  case Inl
  with assms show ?thesis by (simp add: verify_totp_def keeps_refl)
next
  case creds: (Inr creds)
  show ?thesis
  proof (cases "find (\<lambda>c. mc_kind c = MFATOTP \<and> VerifyTOTP (e_hmac env) (mc_secret c) x now) creds")
    case None
    with assms creds have "failChallenge hash ''that code is not valid'' db = (r, db')" by (simp add: verify_totp_def)
    then show ?thesis using kp.fail_challenge keeps_refl by blast
  next
    case (Some f)
    with creds have "totp_proof env now x db (a_id a)"
      by (auto simp: totp_proof_def list_ex_iff find_Some_iff)
    moreover from assms creds Some have
      "issueSession env dr now a ''totp'' (DeleteChallenge hash (TouchMFACredential (mc_id f) now db)) = (r, db')"
      by (simp add: verify_totp_def)
    ultimately show ?thesis using issueSession_grants by (blast intro: kp.plain kp.record_passkey)
  qed
qed

lemma verify_recovery_grants:
  assumes "verify_recovery env dr now a hash x db = (r, db')"
  shows "keeps db db' \<or> grants db db' (a_id a)
    \<and> list_ex (unused_code (a_id a) (secret_hash env (NormalizeRecoveryCode x))) (au_recovery db)"
proof -
  let ?h = "secret_hash env (NormalizeRecoveryCode x)"
  obtain used d where use: "UseRecoveryCode (a_id a) ?h now db = (used, d)" by fastforce
  have kd: "keeps db d" using UseRecoveryCode_keeps [OF use keeps_refl] .
  show ?thesis
  proof (cases used)
    case False
    with assms use have "failChallenge hash ''that recovery code is not valid or has been used'' d = (r, db')"
      by (simp add: verify_recovery_def)
    then show ?thesis using kp.fail_challenge kd by blast
  next
    case True
    with use have "list_ex (unused_code (a_id a) ?h) (au_recovery db)"
      by (auto simp: UseRecoveryCode_def rows_affected_pos list_ex_iff)
    moreover from assms use True have "issueSession env dr now a ''recovery-code'' (DeleteChallenge hash d) = (r, db')"
      by (simp add: verify_recovery_def)
    ultimately show ?thesis using issueSession_grants kd by (blast intro: kp.plain kp.record_passkey)
  qed
qed

lemma verifyEmailCode_grants:
  assumes "verifyEmailCode env dr now a c hash x db = (r, db')"
  shows "keeps db db' \<or> grants db db' (a_id a) \<and> email_proof env now c x db"
proof (cases "GetChallenge (secret_hash env (c @ '':email'')) PurposeEmailCode now db")
  case Inl
  with assms show ?thesis by (simp add: verifyEmailCode_def keeps_refl)
next
  case (Inr ch)
  show ?thesis
  proof (cases "ch_data ch = secret_hash env (trim_space x)")
    case True
    with assms Inr have "issueSession env dr now a ''email-code''
        (DeleteChallenge hash (DeleteChallenge (secret_hash env (c @ '':email'')) db)) = (r, db')"
      by (simp add: verifyEmailCode_def)
    then have "grants db db' (a_id a)" using issueSession_grants by (blast intro: kp.plain kp.record_passkey)
    with True Inr show ?thesis by (simp add: email_proof_def)
  next
    case False
    with assms Inr have "count_failure (secret_hash env (c @ '':email'')) ''too many attempts; request a new code''
        ''that code is not valid'' db = (r, db')" by (simp add: verifyEmailCode_def)
    then show ?thesis using kp.count_failure keeps_refl by blast
  qed
qed

lemma verifyMFA_grants:
  assumes "verifyMFA env dr now c m x db = (r, db')"
  shows "keeps db db' \<or> (\<exists>a. grants db db' a \<and> earned env now (VerifyMFA c m x) db a)"
proof (cases "spendChallenge env now c PurposeLogin db")
  case (Pair spent db0)
  show ?thesis
  proof (cases spent)
    case (Inl rep)
    with assms Pair have "spendChallenge env now c PurposeLogin db = (Inl rep, db')" by (auto simp: verifyMFA_def)
    then show ?thesis using kp.spend_challenge keeps_refl by blast
  next
    case (Inr ah)
    obtain a hash where ah: "ah = (a, hash)" by (cases ah)
    note spent = spent_challenge [OF Pair [unfolded Inr ah]]
    have "(r, db') = (if m = MFATOTP then verify_totp env dr now a hash x db
        else if m = ''recovery'' then verify_recovery env dr now a hash x db
        else if m = MFAEmail then verifyEmailCode env dr now a c hash x db
        else (Refused 400 ''method must be totp, email or recovery'', db))"
      using assms Pair Inr ah spent(1) by (simp add: verifyMFA_def)
    then have "keeps db db' \<or> grants db db' (a_id a) \<and> proves_factor env now (VerifyMFA c m x) db (a_id a)"
      using verify_totp_grants [of env dr now a hash x db r db'] verify_recovery_grants [of env dr now a hash x db r db']
        verifyEmailCode_grants [of env dr now a c hash x db r db']
      by (auto simp: keeps_refl split: if_split_asm)
    with spent(3) show ?thesis by (auto simp: earned_def)
  qed
qed

lemma finishPasskeyLogin_grants:
  assumes "finishPasskeyLogin env dr now c response db = (r, db')"
  shows "keeps db db' \<or> (\<exists>a. grants db db' a \<and> earned env now (FinishPasskeyLogin c response) db a)"
proof (cases "e_passkeys env")
  case None
  with assms show ?thesis by (simp add: finishPasskeyLogin_def keeps_refl)
next
  case pk: (Some pk)
  show ?thesis
  proof (cases "\<exists>a hash. spendChallenge env now c PurposeLogin db = (Inr (a, hash), db)")
    case False
    then obtain rep d where "spendChallenge env now c PurposeLogin db = (Inl rep, d)"
      using spent_challenge(1) by (metis old.sum.exhaust surj_pair)
    with assms pk have "spendChallenge env now c PurposeLogin db = (Inl rep, db')" by (simp add: finishPasskeyLogin_def)
    then show ?thesis using kp.spend_challenge keeps_refl by blast
  next
    case True
    then obtain a hash where sp: "spendChallenge env now c PurposeLogin db = (Inr (a, hash), db)" by blast
    note spent = spent_challenge [OF sp]
    let ?wa = "secret_hash env (c @ '':webauthn'')"
    consider (kept) "keeps db db'"
      | (issued) ch u cred clone where "GetChallenge ?wa PurposeWebAuthnLogin now db = Inr ch" "passkeyUser env pk a db = Inr u"
        "pk_finish_login pk u (ch_data ch) response = Some (cred, clone)"
        "issueSession env dr now a ''passkey'' (DeleteChallenge hash (DeleteChallenge ?wa
           (record_passkey env dr now pk a cred clone db))) = (r, db')"
      using assms pk sp kp.fail_challenge [OF _ simple_keeps(6) [OF keeps_refl]]
      by (auto simp: finishPasskeyLogin_def Let_def keeps_refl split: sum.split_asm option.split_asm prod.split_asm)
    then show ?thesis
    proof cases
      case issued
      then have "grants db db' (a_id a)" using issueSession_grants by (blast intro: kp.plain kp.record_passkey)
      moreover have "passkey_proof env now c response db (a_id a)"
        using issued pk spent(4) by (auto simp: passkey_proof_def list_ex_iff)
      ultimately show ?thesis using spent(3) by (auto simp: earned_def)
    qed simp
  qed
qed
text \<open>What one request adds.\<close>

definition served_well :: "auth_env \<Rightarrow> time \<Rightarrow> request \<Rightarrow> auth_db \<Rightarrow> auth_db \<Rightarrow> bool" where
  "served_well env now r db db' \<longleftrightarrow>
     (\<forall>s\<in>set (au_sessions db'). s \<in> set (au_sessions db) \<or> earned env now r db (ss_admin_id s))
     \<and> (\<forall>(h, a, e)\<in>login_keys db'. (h, a, e) \<in> login_keys db \<or>
          password_login env r db a \<and> e = to_unix (now + LoginChallengeTTL))"

lemma keeps_served: "keeps db db' \<Longrightarrow> served_well env now r db db'"
  by (auto simp: keeps_def served_well_def)

lemma grants_served: "grants db db' a \<Longrightarrow> earned env now r db a \<Longrightarrow> served_well env now r db db'"
  by (auto simp: grants_def served_well_def)

lemma login_outcome:
  assumes "login env dr now u p db = (r, db')"
  obtains (refused) "db' = db"
    | (accepted) a factors where "a \<in> set (au_admins db)" "\<not> a_disabled a" "VerifyPassword (e_kdf env) p (a_password_hash a)"
      "ConfirmedMFACredentials (e_box env) (a_id a) db = Inr factors"
      "(if factors \<noteq> [] then startMFA env dr now a factors db else issueSession env dr now a ''password'' db) = (r, db')"
proof (cases "FindAdminByUsername (trim_space u) db")
  case Inl
  with assms show ?thesis using that(1) by (simp add: login_def)
next
  case (Inr a)
  then have a: "a \<in> set (au_admins db)" by (auto simp: FindAdminByUsername_def sql_row_def dest: find_SomeD)
  show ?thesis
  proof (cases "a_disabled a \<or> \<not> VerifyPassword (e_kdf env) p (a_password_hash a)")
    case True
    with assms Inr show ?thesis using that(1) by (auto simp: login_def split: if_split_asm)
  next
    case False
    then show ?thesis
      using assms Inr a that by (cases "ConfirmedMFACredentials (e_box env) (a_id a) db") (auto simp: login_def)
  qed
qed

lemma startMFA_served:
  assumes "startMFA env dr now a factors db = (r, db')" and "password_login env q db (a_id a)"
  shows "served_well env now q db db'"
proof (cases "CreateChallenge (secret_hash env (d_token dr)) (a_id a) PurposeLogin [] LoginChallengeTTL now db")
  case Inl
  with assms show ?thesis by (auto simp: startMFA_def intro: keeps_served keeps_refl)
next
  case (Inr d)
  with assms have "d = db'" by (simp add: startMFA_def)
  with login_keys_create [OF Inr] sessions_create [OF Inr] assms(2) show ?thesis by (auto simp: served_well_def)
qed

lemma login_served:
  assumes "login env dr now u p db = (r, db')"
  shows "served_well env now (Login u p) db db'"
  using assms
proof (cases rule: login_outcome)
  case refused
  then show ?thesis by (auto intro: keeps_served keeps_refl)
next
  case (accepted a factors)
  then have pw: "password_login env (Login u p) db (a_id a)" by (auto simp: password_ok_def list_ex_iff)
  show ?thesis
  proof (cases "factors = []")
    case True
    with accepted have "grants db db' (a_id a)" using issueSession_grants keeps_refl by fastforce
    moreover from True accepted pw have "earned env now (Login u p) db (a_id a)" by (simp add: earned_def)
    ultimately show ?thesis by (rule grants_served)
  next
    case False
    with accepted pw show ?thesis using startMFA_served by simp
  qed
qed

lemma serve_served:
  assumes "serve env dr now r db = (rep, db')"
  shows "served_well env now r db db'"
proof (cases r)
  case (Login u p)
  with assms show ?thesis using login_served by simp
next
  case (VerifyMFA c m x)
  with assms show ?thesis using verifyMFA_grants [of env dr now c m x db rep db'] keeps_served grants_served by auto
next
  case (SendEmailCode c)
  with assms show ?thesis using kp.send_email_code keeps_served by simp
next
  case (BeginPasskeyLogin c)
  with assms show ?thesis using kp.begin_passkey_login keeps_served by simp
next
  case (FinishPasskeyLogin c x)
  with assms show ?thesis
    using finishPasskeyLogin_grants [of env dr now c x db rep db'] keeps_served grants_served by auto
next
  case (Call token c)
  with assms have "db' = db \<or> (\<exists>me. handle env dr now token c me db = (rep, db'))"
    by (auto simp: require_def split: option.split_asm if_split_asm)
  then show ?thesis using handle_keeps keeps_refl keeps_served by blast
next
  case Sweep
  with assms show ?thesis by (auto intro: keeps_served simple_keeps keeps_refl)
qed

section \<open>Runs\<close>

text \<open>The history of a run, newest request first, each with its time and the tables it was served on. A run starts
  with accounts and factors but no session and no challenge.\<close>

inductive served :: "auth_env \<Rightarrow> (time \<times> request \<times> auth_db) list \<Rightarrow> auth_db \<Rightarrow> bool" for env where
  served_init: "au_sessions db = [] \<Longrightarrow> au_challenges db = [] \<Longrightarrow> served env [] db"
| served_step: "served env hist db \<Longrightarrow> serve env dr now r db = (rep, db') \<Longrightarrow> served env ((now, r, db) # hist) db'"

inductive_cases served_ConsE: "served env (x # hist) db"

definition password_given :: "auth_env \<Rightarrow> (time \<times> request \<times> auth_db) list \<Rightarrow> id \<Rightarrow> int \<Rightarrow> bool" where
  "password_given env hist a e \<longleftrightarrow>
     (\<exists>(now, r, db)\<in>set hist. password_login env r db a \<and> e = to_unix (now + LoginChallengeTTL))"

lemma challenges_follow_password:
  "served env hist db \<Longrightarrow> (h, a, e) \<in> login_keys db \<Longrightarrow> password_given env hist a e"
proof (induction arbitrary: h a e rule: served.induct)
  case (served_init db)
  then show ?case by (simp add: login_keys_def)
next
  case (served_step hist db dr now r rep db')
  from serve_served [OF served_step.hyps(2)] served_step.prems
  have "(h, a, e) \<in> login_keys db \<or> password_login env r db a \<and> e = to_unix (now + LoginChallengeTTL)"
    by (auto simp: served_well_def)
  then show ?case using served_step.IH by (auto simp: password_given_def)
qed

text \<open>Where a session comes from: the request that made it and what came before.\<close>

definition session_origin :: "auth_env \<Rightarrow> (time \<times> request \<times> auth_db) list \<Rightarrow> id \<Rightarrow> bool" where
  "session_origin env hist a \<longleftrightarrow>
     (\<exists>later now r db earlier. hist = later @ (now, r, db) # earlier \<and>
        (password_login env r db a \<and> ConfirmedMFACredentials (e_box env) a db = Inr []
         \<or> proves_factor env now r db a \<and>
           (\<exists>t p d. (t, p, d) \<in> set earlier \<and> password_login env p d a \<and> to_unix now < to_unix (t + LoginChallengeTTL))))"

lemma earned_origin:
  assumes "served env hist db" and "earned env now r db a"
  shows "session_origin env ((now, r, db) # hist) a"
proof -
  have "\<exists>t p d. (t, p, d) \<in> set hist \<and> password_login env p d a \<and> to_unix now < to_unix (t + LoginChallengeTTL)"
    if pend: "pending env now c db a" for c
  proof -
    from pend obtain e where "(secret_hash env c, a, e) \<in> login_keys db" and e: "to_unix now < e"
      by (auto simp: pending_def list_ex_iff in_login_keys)
    from challenges_follow_password [OF assms(1) this(1)] e show ?thesis by (auto simp: password_given_def)
  qed
  with assms(2) show ?thesis
    unfolding session_origin_def earned_def by (metis append_Nil)
qed

lemma origin_later: "session_origin env hist a \<Longrightarrow> session_origin env (x # hist) a"
  unfolding session_origin_def by (metis append_Cons)

end
