(* ===== verification/Admins.thy ===== *)
theory Admins
  imports Login
begin

text \<open>
  What the accounts of administrators promise, over the requests of \<open>Login\<close>: every session was earned with the
  password and, where one was enrolled, a second factor; the last enabled superadmin cannot be
  removed by requests that follow one another, and can by two that overlap; a session gives the present rights of an enabled
  account and no others; a pending login takes five wrong answers at most; and runs that show where the second
  factors do not behave as their comments say.
\<close>

section \<open>Signing in\<close>

text \<open>C8. A session belongs to somebody who gave the right password of an enabled account that had no confirmed second
  factor at that moment, or who proved a second factor after giving the right password less than five minutes before. This
  holds for every sequence of requests, whatever is enrolled, changed or deleted between them.\<close>

theorem session_is_earned:
  assumes "served env hist db" and "s \<in> set (au_sessions db)"
  shows "session_origin env hist (ss_admin_id s)"
  using assms
proof (induction arbitrary: s rule: served.induct)
  case (served_init db)
  then show ?case by simp
next
  case (served_step hist db dr now r rep db')
  from serve_served [OF served_step.hyps(2)] served_step.prems
  have "s \<in> set (au_sessions db) \<or> earned env now r db (ss_admin_id s)" by (auto simp: served_well_def)
  then show ?case
    using served_step.IH origin_later earned_origin [OF served_step.hyps(1)] by blast
qed

section \<open>Superadmins\<close>

type_synonym roster_row = "id \<times> string \<times> role \<times> bool"

definition roster_row :: "admin \<Rightarrow> roster_row" where
  "roster_row a = (a_id a, a_username a, a_role a, a_disabled a)"

definition roster :: "auth_db \<Rightarrow> roster_row list" where
  "roster db = map roster_row (au_admins db)"

lemma roster_update: "(\<And>a. roster_row (f a) = roster_row a) \<Longrightarrow> map roster_row (sql_update P f t) = map roster_row t"
  by (simp add: sql_update_def)

lemma roster_update_admin:
  "update_admin i f db = Inr db' \<Longrightarrow> (\<And>a. roster_row (f a) = roster_row a) \<Longrightarrow> roster db' = roster db"
  by (auto simp: update_admin_def roster_def roster_update split: if_split_asm)

lemma roster_email: "SetAdminEmail i e v now db = Inr db' \<Longrightarrow> roster db' = roster db"
  unfolding SetAdminEmail_def by (erule roster_update_admin) (simp add: roster_row_def)

lemma roster_password: "SetAdminPassword i h now db = Inr db' \<Longrightarrow> roster db' = roster db"
  by (auto simp: SetAdminPassword_def bind_result_def roster_row_def roster_def [of "auth_db.au_sessions_update f d" for f d]
      simp flip: roster_def dest!: roster_update_admin split: sum.split_asm)

lemma roster_challenge: "CreateChallenge h a p x ttl now db = Inr db' \<Longrightarrow> roster db' = roster db"
  by (auto simp: CreateChallenge_def Let_def roster_def split: if_split_asm)

lemma roster_plain:
  "roster (TouchAdminLogin i now db) = roster db" "roster (DeleteSession h db) = roster db"
  "roster (Audit now me x t n y db) = roster db" "roster (TouchMFACredential i now db) = roster db"
  "roster (DeleteChallenge h db) = roster db" "roster (PruneSessions now db) = roster db"
  "roster (PruneChallenges now db) = roster db"
  by (simp_all add: roster_def TouchAdminLogin_def DeleteSession_def Audit_def TouchMFACredential_def DeleteChallenge_def
      PruneSessions_def PruneChallenges_def roster_update roster_row_def)

lemma roster_by_result:
  "PutMFACredential b nonce i now c db = Inr (c', db') \<Longrightarrow> roster db' = roster db"
  "DeleteMFACredential a i db = Inr db' \<Longrightarrow> roster db' = roster db"
  "ReplaceRecoveryCodes a hs now db = Inr db' \<Longrightarrow> roster db' = roster db"
  "UseRecoveryCode a h now db = (u, db') \<Longrightarrow> roster db' = roster db"
  "BumpChallengeAttempts h db = (r, db') \<Longrightarrow> roster db' = roster db"
  by (auto simp: PutMFACredential_def DeleteMFACredential_def ReplaceRecoveryCodes_def UseRecoveryCode_def
      BumpChallengeAttempts_def roster_def Let_def split: if_split_asm option.split_asm)

interpretation ro: frame "\<lambda>d db. roster db = roster d"
  by unfold_locales (simp_all add: roster_plain roster_email roster_password roster_by_result roster_challenge)

lemma roster_issue: "issueSession env dr now a how db = (r, db') \<Longrightarrow> roster db' = roster db"
  by (auto simp: issueSession_def CreateSession_def Let_def roster_plain split: sum.split_asm if_split_asm)
     (simp add: roster_def)+

lemma roster_verify: "verifyMFA env dr now c m x db = (r, db') \<Longrightarrow> roster db' = roster db"
  by (auto simp: verifyMFA_def verify_totp_def verify_recovery_def verifyEmailCode_def Let_def roster_plain
      dest!: roster_issue ro.spend_challenge [OF _ refl] ro.fail_challenge [OF _ refl] ro.count_failure [OF _ refl]
        roster_by_result(4)
      split: prod.split_asm sum.split_asm if_split_asm option.split_asm)
lemma roster_passkey: "finishPasskeyLogin env dr now c x db = (r, db') \<Longrightarrow> roster db' = roster db"
  by (auto simp: finishPasskeyLogin_def Let_def roster_plain ro.record_passkey [OF refl]
      dest!: roster_issue ro.spend_challenge [OF _ refl] ro.fail_challenge [OF _ refl]
      split: prod.split_asm sum.split_asm option.split_asm)

lemma roster_login: "login env dr now u p db = (r, db') \<Longrightarrow> roster db' = roster db"
  by (auto simp: login_def startMFA_def dest!: roster_issue roster_challenge split: sum.split_asm if_split_asm)

text \<open>Identifiers and names are unique, and somebody enabled may manage the accounts.\<close>

definition accounts_ok :: "auth_db \<Rightarrow> bool" where
  "accounts_ok db \<longleftrightarrow>
     distinct (map a_id (au_admins db)) \<and> distinct (map a_username (au_admins db)) \<and> 0 < CountEnabledSuperadmins db"

lemma accounts_ok_roster: "roster db' = roster db \<Longrightarrow> accounts_ok db' \<longleftrightarrow> accounts_ok db"
proof -
  assume eq: "roster db' = roster db"
  have ids: "map a_id (au_admins d) = map fst (roster d)" for d by (simp add: roster_def roster_row_def)
  have names: "map a_username (au_admins d) = map (fst \<circ> snd) (roster d)" for d by (simp add: roster_def roster_row_def)
  have count: "CountEnabledSuperadmins d = length (filter (\<lambda>(i, n, r, x). r = RoleSuperadmin \<and> \<not> x) (roster d))" for d
    by (simp add: CountEnabledSuperadmins_def roster_def filter_map comp_def roster_row_def enabled_super_def [abs_def])
  show ?thesis by (simp add: accounts_ok_def ids names count eq)
qed

lemma count_pos: "0 < CountEnabledSuperadmins db \<longleftrightarrow> (\<exists>a\<in>set (au_admins db). enabled_super a)"
  by (auto simp: CountEnabledSuperadmins_def filter_empty_conv)

lemma another_super:
  assumes "distinct (map a_id (au_admins db))" and "\<not> CountEnabledSuperadmins db \<le> 1"
  shows "\<exists>a\<in>set (au_admins db). enabled_super a \<and> a_id a \<noteq> i"
proof -
  let ?xs = "filter enabled_super (au_admins db)"
  from assms(1) have dist: "distinct (map a_id ?xs)" by (simp add: distinct_map_filter)
  from assms(2) obtain a b ys where xs: "?xs = a # b # ys"
    by (cases ?xs; cases "tl ?xs") (auto simp: CountEnabledSuperadmins_def)
  with dist have "a_id a \<noteq> a_id b" by simp
  moreover have "a \<in> set ?xs" "b \<in> set ?xs" by (simp_all only: xs) simp_all
  ultimately show ?thesis by (cases "a_id a = i") auto
qed

lemma roster_role:
  assumes "UpdateAdminRole i q x now db = Inr db'"
  shows "au_admins db' = sql_update (\<lambda>a. a_id a = i) (\<lambda>a. a\<lparr>a_role := q, a_disabled := x, a_updated_at := to_unix now\<rparr>) (au_admins db)"
  using assms by (auto simp: UpdateAdminRole_def update_admin_def split: if_split_asm)

lemma update_keeps_accounts:
  assumes "accounts_ok db" and "update_check i q x db = Inr (target, role, disabled)"
    and "UpdateAdminRole i role disabled now db = Inr db'"
  shows "accounts_ok db'"
proof -
  let ?f = "\<lambda>a. if a_id a = i then a\<lparr>a_role := role, a_disabled := disabled, a_updated_at := to_unix now\<rparr> else a"
  have rows: "au_admins db' = map ?f (au_admins db)" using roster_role [OF assms(3)] by (simp add: sql_update_def)
  then have "map a_id (au_admins db') = map a_id (au_admins db)" "map a_username (au_admins db') = map a_username (au_admins db)"
    by simp_all
  moreover have "\<exists>a\<in>set (au_admins db'). enabled_super a"
  proof -
    from assms(2) have target: "target \<in> set (au_admins db)" "a_id target = i"
      and guard: "enabled_super target \<Longrightarrow> role \<noteq> RoleSuperadmin \<or> disabled \<Longrightarrow> \<not> CountEnabledSuperadmins db \<le> 1"
      by (auto simp: update_check_def GetAdmin_def sql_row_def Let_def enabled_super_def dest!: find_SomeD
          split: sum.split_asm if_split_asm)
    from assms(1) obtain a where a: "a \<in> set (au_admins db)" "enabled_super a" by (auto simp: accounts_ok_def count_pos)
    consider "\<exists>b\<in>set (au_admins db). enabled_super b \<and> a_id b \<noteq> i" | "role = RoleSuperadmin \<and> \<not> disabled" "a_id a = i"
      using another_super [of db i] assms(1) guard a target
      by (metis accounts_ok_def distinct_map inj_on_contraD)
    then show ?thesis
    proof cases
      case 1
      then show ?thesis by (auto simp: rows)
    next
      case 2
      then have "?f a \<in> set (au_admins db')" "enabled_super (?f a)" using a by (auto simp: rows enabled_super_def)
      then show ?thesis by blast
    qed
  qed
  ultimately show ?thesis using assms(1) by (simp add: accounts_ok_def flip: count_pos)
qed

lemma delete_keeps_accounts:
  assumes "accounts_ok db" and "GetAdmin i db = Inr target" and "\<not> (enabled_super target \<and> CountEnabledSuperadmins db \<le> 1)"
    and "DeleteAdmin i db = Inr db'"
  shows "accounts_ok db'"
proof -
  have rows: "au_admins db' = filter (\<lambda>a. a_id a \<noteq> i) (au_admins db)"
    using assms(4) by (auto simp: DeleteAdmin_def sql_delete_def split: if_split_asm)
  from assms(2) have target: "target \<in> set (au_admins db)" "a_id target = i"
    by (auto simp: GetAdmin_def sql_row_def dest!: find_SomeD)
  from assms(1) obtain a where a: "a \<in> set (au_admins db)" "enabled_super a" by (auto simp: accounts_ok_def count_pos)
  have "\<exists>b\<in>set (au_admins db). enabled_super b \<and> a_id b \<noteq> i"
    using another_super [of db i] assms(1,3) a target by (metis accounts_ok_def distinct_map inj_on_contraD)
  then have "0 < CountEnabledSuperadmins db'" by (auto simp: rows count_pos)
  with assms(1) show ?thesis by (simp add: accounts_ok_def rows distinct_map_filter)
qed

lemma create_keeps_accounts:
  assumes "accounts_ok db" and "CreateAdmin i now u h q db = Inr (a, db')"
  shows "accounts_ok db'"
proof -
  from assms(2) have "au_admins db' = au_admins db @ [a]" "a_id a \<notin> admin_ids db" "a_username a \<notin> set (map a_username (au_admins db))"
    by (auto simp: CreateAdmin_def Let_def split: if_split_asm)
  with assms(1) show ?thesis by (auto simp: accounts_ok_def admin_ids_def CountEnabledSuperadmins_def)
qed

lemma management_keeps_accounts:
  assumes "accounts_ok db"
  shows "createAdmin env dr now me u p q db = (r, db') \<Longrightarrow> accounts_ok db'"
    and "updateAdmin now me i role x db = (r, db') \<Longrightarrow> accounts_ok db'"
    and "deleteAdmin now me i db = (r, db') \<Longrightarrow> accounts_ok db'"
proof -
  note audited = accounts_ok_roster [OF roster_plain(3)]
  show "createAdmin env dr now me u p q db = (r, db') \<Longrightarrow> accounts_ok db'"
    using assms create_keeps_accounts [OF assms]
    by (auto simp: createAdmin_def Let_def audited split: if_split_asm option.split_asm sum.split_asm db_error.split_asm prod.split_asm)
  show "updateAdmin now me i role x db = (r, db') \<Longrightarrow> accounts_ok db'"
    using assms update_keeps_accounts [OF assms]
    by (auto simp: updateAdmin_def update_write_def Let_def audited split: sum.split_asm prod.split_asm)
  show "deleteAdmin now me i db = (r, db') \<Longrightarrow> accounts_ok db'"
    using assms delete_keeps_accounts [OF assms]
    by (auto simp: deleteAdmin_def audited split: if_split_asm sum.split_asm)
qed

section \<open>Sessions\<close>

text \<open>A session token stands for an enabled account with its present name and role, and only while the session lives: a
  demotion, a suspension or the deletion of the session takes effect at the next request.\<close>

theorem session_is_current:
  assumes "authenticate env now token db = Some me" and "\<not> i_via_token me"
  shows "\<exists>s\<in>set (au_sessions db). \<exists>a\<in>set (au_admins db).
    ss_token_hash s = secret_hash env token \<and> to_unix now < ss_expires_at s \<and> ss_admin_id s = a_id a \<and> \<not> a_disabled a
    \<and> me = account_identity a"
proof -
  from assms obtain a where a: "AdminBySession (secret_hash env token) now db = Inr a" and me: "me = account_identity a"
    by (auto simp: authenticate_def account_identity_def EnvTokenIdentity_def split: if_split_asm sum.split_asm)
  from a obtain s where s: "s \<in> set (au_sessions db)" "ss_token_hash s = secret_hash env token" "to_unix now < ss_expires_at s"
      and row: "a \<in> set (au_admins db)" "a_id a = ss_admin_id s" "\<not> a_disabled a"
    by (auto simp: AdminBySession_def sql_row_def dest!: find_SomeD split: option.split_asm)
  with s me show ?thesis by metis
qed

text \<open>After a change of password no session of that account is left.\<close>

theorem password_change_signs_out:
  assumes "changePassword env dr now me i cur new db = (NoContent, db')"
    and "authenticate env later token db' = Some who"
  shows "i_via_token who \<or> i_id who \<noteq> i"
proof (rule ccontr)
  assume "\<not> (i_via_token who \<or> i_id who \<noteq> i)"
  moreover from assms(1) have "\<forall>s\<in>set (au_sessions db'). ss_admin_id s \<noteq> i"
    by (auto simp: changePassword_def SetAdminPassword_def bind_result_def Audit_def set_sql_delete
        split: if_split_asm sum.split_asm option.split_asm)
  ultimately show False
    using assms(2)
    by (auto simp: authenticate_def AdminBySession_def sql_row_def EnvTokenIdentity_def dest!: find_SomeD
        split: if_split_asm sum.split_asm option.split_asm)
qed

section \<open>Guesses\<close>

text \<open>Answers to one login challenge, one after the other: codes of an authenticator or recovery codes.\<close>

fun guess_all ::
  "auth_env \<Rightarrow> string \<Rightarrow> (draws \<times> time \<times> bool \<times> string) list \<Rightarrow> auth_db \<Rightarrow> reply list \<times> auth_db" where
  "guess_all env c [] db = ([], db)"
| "guess_all env c ((dr, now, totp, x) # gs) db =
     (case verifyMFA env dr now c (if totp then MFATOTP else ''recovery'') x db of
        (r, db) \<Rightarrow> (case guess_all env c gs db of (rs, db) \<Rightarrow> (r # rs, db)))"

definition wrong_answer :: "reply \<Rightarrow> bool" where
  "wrong_answer r \<longleftrightarrow>
     r \<in> set [Refused 401 ''that code is not valid'', Refused 401 ''that recovery code is not valid or has been used'',
       Refused 401 ''too many attempts; start again'']"

text \<open>The answers a challenge still takes.\<close>

definition budget :: "string \<Rightarrow> auth_db \<Rightarrow> nat" where
  "budget h db =
     (case sql_row (\<lambda>c. ch_token_hash c = h) (au_challenges db) of
        None \<Rightarrow> 0
      | Some c \<Rightarrow> max 1 (MaxChallengeAttempts - ch_attempts c))"

lemma budget_deleted: "budget h (DeleteChallenge h db) = 0"
  by (auto simp: budget_def DeleteChallenge_def sql_row_def sql_delete_def find_None_iff split: option.split dest!: find_SomeD)

lemma budget_frame: "au_challenges db' = au_challenges db \<Longrightarrow> budget h db' = budget h db"
  by (simp add: budget_def)

lemma find_bumped:
  "find (\<lambda>c. ch_token_hash c = h) (map (bumped h) cs) = map_option (bumped h) (find (\<lambda>c. ch_token_hash c = h) cs)"
  by (induction cs) auto

lemma bump_found:
  assumes "sql_row (\<lambda>c. ch_token_hash c = h) (au_challenges db) = Some c"
  shows "\<exists>d. BumpChallengeAttempts h db = (Inr (ch_attempts c + 1 \<ge> MaxChallengeAttempts), d)
    \<and> sql_row (\<lambda>c. ch_token_hash c = h) (au_challenges d) = Some (bumped h c)"
proof -
  have "sql_update (\<lambda>c. ch_token_hash c = h) (\<lambda>c. c\<lparr>ch_attempts := ch_attempts c + 1\<rparr>) (au_challenges db)
      = map (bumped h) (au_challenges db)"
    by (simp add: sql_update_def bumped_def [abs_def])
  moreover have "ch_token_hash c = h" using assms by (auto simp: sql_row_def dest: find_SomeD)
  ultimately show ?thesis
    using assms by (simp add: BumpChallengeAttempts_def Let_def sql_row_def find_bumped) (simp add: bumped_def)
qed

lemma budget_failed:
  assumes "failChallenge h m db = (r, db')" and "sql_row (\<lambda>c. ch_token_hash c = h) (au_challenges db) = Some c"
  shows "budget h db' < budget h db"
proof -
  obtain d where d: "BumpChallengeAttempts h db = (Inr (ch_attempts c + 1 \<ge> MaxChallengeAttempts), d)"
    "sql_row (\<lambda>c. ch_token_hash c = h) (au_challenges d) = Some (bumped h c)"
    using bump_found [OF assms(2)] by blast
  have token: "ch_token_hash c = h" using assms(2) by (auto simp: sql_row_def dest: find_SomeD)
  show ?thesis
  proof (cases "ch_attempts c + 1 \<ge> MaxChallengeAttempts")
    case True
    with assms d have "db' = DeleteChallenge h d" by (simp add: failChallenge_def count_failure_def)
    then show ?thesis using assms(2) by (simp add: budget_deleted) (simp add: budget_def)
  next
    case False
    with assms d have "db' = d" by (simp add: failChallenge_def count_failure_def)
    with d(2) assms(2) token False show ?thesis by (simp add: budget_def bumped_def)
  qed
qed
lemma issue_challenges: "issueSession env dr now a how db = (r, db') \<Longrightarrow> au_challenges db' = au_challenges db"
  by (auto simp: issueSession_def CreateSession_def TouchAdminLogin_def Audit_def Let_def split: sum.split_asm if_split_asm)

lemma issue_not_wrong: "issueSession env dr now a how db = (r, db') \<Longrightarrow> \<not> wrong_answer r"
  by (auto simp: issueSession_def Let_def wrong_answer_def split: sum.split_asm)

lemma spent_row:
  assumes "spendChallenge env now c PurposeLogin db = (Inr (a, h), d)"
  shows "\<exists>ch. sql_row (\<lambda>c. ch_token_hash c = h) (au_challenges d) = Some ch"
proof -
  from spent_challenge [OF assms] have "d = db" "pending env now c db (a_id a)" "h = secret_hash env c" by auto
  then show ?thesis
    by (auto simp: pending_def list_ex_iff sql_row_def find_None_iff simp flip: not_None_eq)
qed

lemma refused_budget:
  assumes "spendChallenge env now c PurposeLogin db = (Inl r, d)"
  shows "budget (secret_hash env c) d \<le> budget (secret_hash env c) db" and "\<not> wrong_answer r"
  using assms by (auto simp: spendChallenge_def Let_def budget_deleted wrong_answer_def split: if_split_asm sum.split_asm)

lemma totp_budget:
  assumes "verify_totp env dr now a h x db = (r, db')" and "sql_row (\<lambda>c. ch_token_hash c = h) (au_challenges db) = Some ch"
  shows "budget h db' + (if wrong_answer r then 1 else 0) \<le> budget h db"
proof (cases "ConfirmedMFACredentials (e_box env) (a_id a) db")
  case Inl
  with assms show ?thesis by (auto simp: verify_totp_def wrong_answer_def)
next
  case (Inr creds)
  show ?thesis
  proof (cases "find (\<lambda>c. mc_kind c = MFATOTP \<and> VerifyTOTP (e_hmac env) (mc_secret c) x now) creds")
    case None
    with Inr assms(1) have "failChallenge h ''that code is not valid'' db = (r, db')" by (simp add: verify_totp_def)
    then have "budget h db' < budget h db" using assms(2) by (rule budget_failed)
    then show ?thesis by simp
  next
    case (Some f)
    with Inr assms(1) have i: "issueSession env dr now a ''totp'' (DeleteChallenge h (TouchMFACredential (mc_id f) now db)) = (r, db')"
      by (simp add: verify_totp_def)
    show ?thesis using issue_not_wrong [OF i] by (simp add: budget_frame [OF issue_challenges [OF i]] budget_deleted)
  qed
qed

lemma recovery_budget:
  assumes "verify_recovery env dr now a h x db = (r, db')" and "sql_row (\<lambda>c. ch_token_hash c = h) (au_challenges db) = Some ch"
  shows "budget h db' + (if wrong_answer r then 1 else 0) \<le> budget h db"
proof -
  let ?k = "secret_hash env (NormalizeRecoveryCode x)"
  obtain used d where use: "UseRecoveryCode (a_id a) ?k now db = (used, d)" by fastforce
  then have same: "au_challenges d = au_challenges db" by (auto simp: UseRecoveryCode_def)
  show ?thesis
  proof (cases used)
    case False
    with use assms(1) have "failChallenge h ''that recovery code is not valid or has been used'' d = (r, db')"
      by (simp add: verify_recovery_def)
    then have "budget h db' < budget h d" using assms(2) same by (intro budget_failed) simp_all
    then show ?thesis using budget_frame [OF same, of h] by simp
  next
    case True
    with use assms(1) have i: "issueSession env dr now a ''recovery-code'' (DeleteChallenge h d) = (r, db')"
      by (simp add: verify_recovery_def)
    show ?thesis using issue_not_wrong [OF i] by (simp add: budget_frame [OF issue_challenges [OF i]] budget_deleted)
  qed
qed

lemma guess_budget:
  assumes "verifyMFA env dr now c m x db = (r, db')" and "m = MFATOTP \<or> m = ''recovery''"
  shows "budget (secret_hash env c) db' + (if wrong_answer r then 1 else 0) \<le> budget (secret_hash env c) db"
proof (cases "spendChallenge env now c PurposeLogin db")
  case (Pair s d)
  show ?thesis
  proof (cases s)
    case (Inl q)
    with Pair assms(1) have "spendChallenge env now c PurposeLogin db = (Inl r, db')" by (simp add: verifyMFA_def)
    then show ?thesis using refused_budget by auto
  next
    case (Inr ah)
    obtain a h where ah: "ah = (a, h)" by (cases ah)
    note sp = Pair [unfolded Inr ah]
    note spent = spent_challenge [OF sp]
    obtain ch where "sql_row (\<lambda>c. ch_token_hash c = h) (au_challenges db) = Some ch" using spent_row [OF sp] spent(1) by auto
    then show ?thesis
      using assms sp spent(1,2) totp_budget [of env dr now a h x db r db' ch] recovery_budget [of env dr now a h x db r db' ch]
      by (auto simp: verifyMFA_def split: if_split_asm)
  qed
qed

lemma guesses_within_budget:
  "guess_all env c gs db = (rs, db') \<Longrightarrow>
   length (filter wrong_answer rs) + budget (secret_hash env c) db' \<le> budget (secret_hash env c) db"
proof (induction gs arbitrary: db rs db')
  case Nil
  then show ?case by simp
next
  case (Cons g gs)
  obtain dr now totp x where g: "g = (dr, now, totp, x)" by (cases g)
  obtain r d where v: "verifyMFA env dr now c (if totp then MFATOTP else ''recovery'') x db = (r, d)" by fastforce
  obtain rs' d' where rest: "guess_all env c gs d = (rs', d')" by fastforce
  from Cons.prems g v rest have "rs = r # rs'" "db' = d'" by auto
  moreover have "budget (secret_hash env c) d + (if wrong_answer r then 1 else 0) \<le> budget (secret_hash env c) db"
    using guess_budget [OF v] by simp
  ultimately show ?case using Cons.IH [OF rest] by auto
qed

section \<open>Runs\<close>

text \<open>A panel with two superadmins, one of whom has an authenticator app and an address as second factors. The hash functions
  of the environment are simple ones that meet what the code relies on.\<close>

definition demo_kdf :: kdf where
  "demo_kdf p s i n = Some (take n (map of_char p @ replicate n 0))"

definition demo_auth :: auth_env where
  "demo_auth =
     \<lparr>e_sha256 = map of_char, e_hmac = (\<lambda>k m. k @ m @ [0, 0, 0, 0]), e_kdf = demo_kdf, e_box = plain_box, e_admin_token = [],
      e_mailer = Some (\<lambda>_. True), e_valid_addr = (\<lambda>a. CHR ''@'' \<in> set a), e_passkeys = None\<rparr>"

definition demo_draws :: "string \<Rightarrow> draws" where
  "demo_draws token = \<lparr>d_token = token, d_id = ''n1'', d_nonce = [], d_bytes = [1, 2, 3, 4, 5, 6]\<rparr>"

definition demo_admin :: "id \<Rightarrow> string \<Rightarrow> admin" where
  "demo_admin i email =
     \<lparr>a_id = i, a_username = i, a_password_hash = ''pbkdf2$1$$'' @ b64_encode [112, 119], a_role = RoleSuperadmin,
      a_disabled = False, a_created_at = 0, a_updated_at = 0, a_last_login = 0, a_email = email, a_email_verified = email \<noteq> []\<rparr>"

definition demo_factor :: "id \<Rightarrow> string \<Rightarrow> string \<Rightarrow> mfa_credential" where
  "demo_factor i kind secret =
     \<lparr>mc_id = i, mc_admin_id = ''ada'', mc_kind = kind, mc_name = kind, mc_secret = secret, mc_credential_id = [],
      mc_created_at = 1, mc_last_used_at = 0, mc_confirmed = True\<rparr>"

definition demo_accounts :: "mfa_credential list \<Rightarrow> auth_db" where
  "demo_accounts factors =
     \<lparr>au_admins = [demo_admin ''ada'' ''ada@x.org'', demo_admin ''bob'' []], au_mfa = factors,
      au_recovery = [\<lparr>rc_admin_id = ''ada'', rc_code_hash = HashSecret (map of_char) ''abc'', rc_used_at = 0, rc_created_at = 0\<rparr>],
      au_challenges = [], au_sessions = [], au_audit = []\<rparr>"

definition demo_now :: time where "demo_now = unix_time 1000"

fun run_all :: "auth_env \<Rightarrow> (draws \<times> time \<times> request) list \<Rightarrow> auth_db \<Rightarrow> reply list" where
  "run_all env [] db = []"
| "run_all env ((dr, now, r) # rs) db = (case serve env dr now r db of (rep, db) \<Rightarrow> rep # run_all env rs db)"

definition signed_in :: "reply \<Rightarrow> bool" where
  "signed_in r = (case r of SignedIn _ _ _ \<Rightarrow> True | _ \<Rightarrow> False)"

text \<open>Two superadmins who suspend each other at the same time: both checks count two, both writes follow, and no enabled
  superadmin is left, which the guard is there to prevent.\<close>

theorem racing_suspensions:
  "let db = demo_accounts [];
       me = account_identity (demo_admin ''ada'' []);
       you = account_identity (demo_admin ''bob'' [])
   in case (update_check ''bob'' [] (Some True) db, update_check ''ada'' [] (Some True) db) of
        (Inr v, Inr w) \<Rightarrow>
          CountEnabledSuperadmins db = 2 \<and>
          CountEnabledSuperadmins (snd (update_write demo_now you ''ada'' w (snd (update_write demo_now me ''bob'' v db)))) = 0
      | _ \<Rightarrow> False"
  by code_simp

definition email_factor_run :: "reply list" where
  "email_factor_run =
     run_all demo_auth
       [(demo_draws ''t1'', demo_now, Login ''ada'' ''pw''),
        (demo_draws ''t2'', demo_now, VerifyMFA ''t1'' ''recovery'' ''ABC''),
        (demo_draws ''t3'', demo_now, Call ''t2'' (DeleteMFACall ''f2'')),
        (demo_draws ''t4'', demo_now, Login ''ada'' ''pw''),
        (demo_draws ''t5'', demo_now, SendEmailCode ''t4''),
        (demo_draws ''t6'', demo_now, VerifyMFA ''t4'' ''email'' ''123456'')]
       (demo_accounts [demo_factor ''f1'' MFATOTP (Seal plain_box [] [] ''AAAA''), demo_factor ''f2'' MFAEmail []])"

text \<open>An address stays a second factor after its factor is deleted: the code mailed to it signs in.\<close>

theorem deleted_email_factor_signs_in:
  "email_factor_run ! 2 = NoContent \<and> signed_in (email_factor_run ! 5)"
  by code_simp

definition new_address_run :: "reply list" where
  "new_address_run =
     run_all demo_auth
       [(demo_draws ''t1'', demo_now, Login ''ada'' ''pw''),
        (demo_draws ''t2'', demo_now, VerifyMFA ''t1'' ''recovery'' ''ABC''),
        (demo_draws ''t3'', demo_now, Call ''t2'' (SendVerification ''typo@x.org'')),
        (demo_draws ''t4'', demo_now, Login ''ada'' ''pw''),
        (demo_draws ''t5'', demo_now, SendEmailCode ''t4'')]
       (demo_accounts [demo_factor ''f2'' MFAEmail []])"

text \<open>Asking to verify a new address at once withdraws the old one, while its factor still counts: whoever mistypes the
  address can no longer sign in with either.\<close>

theorem new_address_locks_out:
  "new_address_run ! 3 = MfaRequired ''t4'' [(''email'', ''f2'', ''email'')] False
   \<and> new_address_run ! 4 = Refused 400 ''this account has no verified email address''"
  by code_simp

definition replay_run :: "reply list" where
  "replay_run =
     (let code = the (TOTPCode (e_hmac demo_auth) ''AAAA'' demo_now)
      in run_all demo_auth
           [(demo_draws ''t1'', demo_now, Login ''ada'' ''pw''),
            (demo_draws ''t2'', demo_now, VerifyMFA ''t1'' ''totp'' code),
            (demo_draws ''t3'', demo_now, Login ''ada'' ''pw''),
            (demo_draws ''t4'', demo_now, VerifyMFA ''t3'' ''totp'' code)]
           (demo_accounts [demo_factor ''f1'' MFATOTP (Seal plain_box [] [] ''AAAA'')]))"

text \<open>One code of an authenticator signs in twice within its window.\<close>

theorem totp_code_replays: "signed_in (replay_run ! 1) \<and> signed_in (replay_run ! 3)"
  by code_simp
section \<open>Witnesses\<close>

definition demo_step :: "(draws \<times> time \<times> request) \<Rightarrow> auth_db \<Rightarrow> auth_db" where
  "demo_step x db = (case x of (dr, now, r) \<Rightarrow> snd (serve demo_auth dr now r db))"

definition demo_login :: "draws \<times> time \<times> request" where
  "demo_login = (demo_draws ''t1'', demo_now, Login ''ada'' ''pw'')"

definition demo_second :: "draws \<times> time \<times> request" where
  "demo_second = (demo_draws ''t2'', demo_now + minute, VerifyMFA ''t1'' ''recovery'' ''ABC'')"

definition demo_start :: auth_db where
  "demo_start = demo_accounts [demo_factor ''f2'' MFAEmail []]"

lemma demo_served:
  "served demo_auth
     [(demo_now + minute, VerifyMFA ''t1'' ''recovery'' ''ABC'', demo_step demo_login demo_start),
      (demo_now, Login ''ada'' ''pw'', demo_start)]
     (demo_step demo_second (demo_step demo_login demo_start))"
proof -
  have start: "served demo_auth [] demo_start" by (rule served_init) (simp_all add: demo_start_def demo_accounts_def)
  have step: "serve demo_auth dr now r db = (fst (serve demo_auth dr now r db), demo_step (dr, now, r) db)" for dr now r db
    by (simp add: demo_step_def)
  show ?thesis
    using served_step [OF served_step [OF start step] step] by (simp add: demo_login_def demo_second_def)
qed

lemma demo_session:
  "map ss_admin_id (au_sessions (demo_step demo_second (demo_step demo_login demo_start))) = [''ada'']"
  by code_simp

theorem session_is_earned_witness:
  "session_origin demo_auth
     [(demo_now + minute, VerifyMFA ''t1'' ''recovery'' ''ABC'', demo_step demo_login demo_start),
      (demo_now, Login ''ada'' ''pw'', demo_start)] ''ada''"
proof -
  obtain s where "s \<in> set (au_sessions (demo_step demo_second (demo_step demo_login demo_start)))" "ss_admin_id s = ''ada''"
    using demo_session by (metis list.set_intros(1) map_eq_Cons_D)
  with session_is_earned [OF demo_served] show ?thesis by metis
qed


definition demo_session_db :: auth_db where
  "demo_session_db = demo_step demo_second (demo_step demo_login demo_start)"

theorem session_is_current_witness:
  "\<exists>s\<in>set (au_sessions demo_session_db). \<exists>a\<in>set (au_admins demo_session_db).
    ss_token_hash s = secret_hash demo_auth ''t2'' \<and> to_unix demo_now < ss_expires_at s \<and> ss_admin_id s = a_id a \<and> \<not> a_disabled a
    \<and> account_identity (demo_admin ''ada'' []) = account_identity a"
proof -
  have auth: "authenticate demo_auth demo_now ''t2'' demo_session_db = Some (account_identity (demo_admin ''ada'' []))"
    by code_simp
  have via: "\<not> i_via_token (account_identity (demo_admin ''ada'' []))" by code_simp
  show ?thesis by (rule session_is_current [OF auth via])
qed

end
