(* ===== verification/Json.thy ===== *)
theory Json
  imports Prelude
begin

text \<open>
  Package \<open>encoding/json\<close> of the Go standard library, as far as the panel uses it. A document is a
  tree; a number keeps its literal text and an object its members in the order they were written,
  so that a \<open>json.RawMessage\<close> is the tree of the text it holds. \<open>json_parse\<close> is the scanner and
  \<open>json_pretty\<close> what \<open>json.Indent\<close> makes of the output of \<open>json.Marshal\<close>, with the HTML escapes;
  the theorem \<open>parse_pretty\<close> is the round trip between them, and shows that the fuel of the parser,
  the length of its input, is enough for whatever the panel writes.

  The decoders follow \<open>json.Unmarshal\<close> into the types that occur in the sources: a map takes the last
  of two equal keys, \<open>null\<close> leaves a nil map or slice and does not change a string, a struct field is
  matched without regard to case, a value of another type is an error. \<open>json.Marshal\<close> writes the keys
  of a map in order, so a map is kept as a sorted association list; a nil slice is written as \<open>null\<close>.

  Texts are taken to be valid UTF-8, and the choice between two escapes of one character is not kept.
\<close>

section \<open>Documents\<close>

datatype json =
    JNull
  | JBool bool
  | JNum string
  | JStr string
  | JArr "json list"
  | JObj "(string \<times> json) list"

section \<open>Scanning\<close>

definition json_ws :: "char \<Rightarrow> bool" where
  "json_ws c \<longleftrightarrow> c = CHR 0x20 \<or> c = CHR 0x09 \<or> c = CHR 0x0A \<or> c = CHR 0x0D"

definition skip_ws :: "string \<Rightarrow> string" where
  "skip_ws s = dropWhile json_ws s"

definition expect :: "char \<Rightarrow> string \<Rightarrow> string option" where
  "expect c s = (case skip_ws s of [] \<Rightarrow> None | x # r \<Rightarrow> if x = c then Some r else None)"

definition quote :: char where "quote = CHR 0x22"
definition backslash :: char where "backslash = CHR 0x5C"

definition hex_val :: "char \<Rightarrow> nat option" where
  "hex_val c =
     (if is_digit c then Some (of_char c - 48)
      else if CHR ''a'' \<le> c \<and> c \<le> CHR ''f'' then Some (of_char c - 87)
      else if CHR ''A'' \<le> c \<and> c \<le> CHR ''F'' then Some (of_char c - 55)
      else None)"

fun hex4 :: "string \<Rightarrow> (nat \<times> string) option" where
  "hex4 (a # b # c # d # r) =
     (case (hex_val a, hex_val b, hex_val c, hex_val d) of
        (Some w, Some x, Some y, Some z) \<Rightarrow> Some (((w * 16 + x) * 16 + y) * 16 + z, r)
      | _ \<Rightarrow> None)"
| "hex4 s = None"

text \<open>The UTF-8 encoding of a code point.\<close>

definition utf8 :: "nat \<Rightarrow> string" where
  "utf8 n =
     (if n < 0x80 then [char_of n]
      else if n < 0x800 then [char_of (0xC0 + n div 0x40), char_of (0x80 + n mod 0x40)]
      else if n < 0x10000 then
        [char_of (0xE0 + n div 0x1000), char_of (0x80 + n div 0x40 mod 0x40), char_of (0x80 + n mod 0x40)]
      else
        [char_of (0xF0 + n div 0x40000), char_of (0x80 + n div 0x1000 mod 0x40),
         char_of (0x80 + n div 0x40 mod 0x40), char_of (0x80 + n mod 0x40)])"

text \<open>A \<open>\u\<close> escape: a surrogate joins the low surrogate that follows it, or is replaced.\<close>

definition unescape_u :: "string \<Rightarrow> (string \<times> string) option" where
  "unescape_u s =
     (case hex4 s of
        None \<Rightarrow> None
      | Some (n, r) \<Rightarrow>
          if 0xD800 \<le> n \<and> n < 0xE000 then
            (case (if take 2 r = [backslash, CHR ''u''] then hex4 (drop 2 r) else None) of
               Some (m, r') \<Rightarrow>
                 if n < 0xDC00 \<and> 0xDC00 \<le> m \<and> m < 0xE000
                 then Some (utf8 (0x10000 + (n - 0xD800) * 0x400 + (m - 0xDC00)), r')
                 else Some (utf8 0xFFFD, r)
             | None \<Rightarrow> Some (utf8 0xFFFD, r))
          else Some (utf8 n, r))"

definition simple_escapes :: "(char \<times> char) list" where
  "simple_escapes =
     [(quote, quote), (backslash, backslash), (CHR ''/'', CHR ''/''), (CHR ''b'', CHR 0x08),
      (CHR ''f'', CHR 0x0C), (CHR ''n'', CHR 0x0A), (CHR ''r'', CHR 0x0D), (CHR ''t'', CHR 0x09)]"

fun unescape :: "string \<Rightarrow> (string \<times> string) option" where
  "unescape [] = None"
| "unescape (c # r) =
     (if c = CHR ''u'' then unescape_u r
      else map_option (\<lambda>x. ([x], r)) (map_of simple_escapes c))"

lemma hex4_shorter: "hex4 s = Some (n, r) \<Longrightarrow> length r < length s"
  by (cases s rule: hex4.cases) (auto split: option.splits)

lemma unescape_u_shorter: "unescape_u s = Some (x, r) \<Longrightarrow> length r < length s"
proof -
  assume u: "unescape_u s = Some (x, r)"
  then obtain n r1 where h: "hex4 s = Some (n, r1)"
    by (auto simp: unescape_u_def split: option.splits)
  have "length r \<le> length r1"
  proof (cases "r = r1")
    case False
    then obtain m where "hex4 (drop 2 r1) = Some (m, r)"
      using u h by (auto simp: unescape_u_def split: option.splits if_splits)
    then show ?thesis using hex4_shorter by fastforce
  qed simp
  then show ?thesis using hex4_shorter [OF h] by simp
qed

lemma unescape_shorter: "unescape s = Some (x, r) \<Longrightarrow> length r < length s"
  by (cases s) (auto split: if_splits dest: unescape_u_shorter)

text \<open>What follows an opening quote: the decoded string and the text after the closing quote.\<close>

function read_str :: "string \<Rightarrow> (string \<times> string) option" where
  "read_str s =
     (case s of
        [] \<Rightarrow> None
      | c # r \<Rightarrow>
          if c = quote then Some ([], r)
          else if c = backslash then
            (case unescape r of
               None \<Rightarrow> None
             | Some (x, r') \<Rightarrow> map_option (\<lambda>(t, u). (x @ t, u)) (read_str r'))
          else if c < CHR 0x20 then None
          else map_option (\<lambda>(t, u). (c # t, u)) (read_str r))"
  by pat_completeness auto
termination
  by (relation "measure length") (auto dest: unescape_shorter)

declare read_str.simps [simp del]

text \<open>A number literal: an integer part without a leading zero, a fraction, an exponent.\<close>

definition scan_digits :: "string \<Rightarrow> (string \<times> string) option" where
  "scan_digits s =
     (let d = takeWhile is_digit s in if d = [] then None else Some (d, dropWhile is_digit s))"

definition scan_int :: "string \<Rightarrow> (string \<times> string) option" where
  "scan_int s =
     (case s of
        [] \<Rightarrow> None
      | c # r \<Rightarrow> if c = CHR ''0'' then Some ([c], r) else scan_digits s)"

definition scan_frac :: "string \<Rightarrow> (string \<times> string) option" where
  "scan_frac s =
     (case s of
        [] \<Rightarrow> Some ([], [])
      | c # r \<Rightarrow>
          if c = CHR ''.'' then map_option (\<lambda>(d, u). (c # d, u)) (scan_digits r) else Some ([], s))"

definition scan_exp_digits :: "string \<Rightarrow> (string \<times> string) option" where
  "scan_exp_digits s =
     (case s of
        [] \<Rightarrow> None
      | c # r \<Rightarrow>
          if c = CHR ''+'' \<or> c = CHR ''-'' then map_option (\<lambda>(d, u). (c # d, u)) (scan_digits r)
          else scan_digits s)"

definition scan_exp :: "string \<Rightarrow> (string \<times> string) option" where
  "scan_exp s =
     (case s of
        [] \<Rightarrow> Some ([], [])
      | c # r \<Rightarrow>
          if c = CHR ''e'' \<or> c = CHR ''E'' then map_option (\<lambda>(d, u). (c # d, u)) (scan_exp_digits r)
          else Some ([], s))"

definition scan_unsigned :: "string \<Rightarrow> (string \<times> string) option" where
  "scan_unsigned s =
     (case scan_int s of
        None \<Rightarrow> None
      | Some (a, r) \<Rightarrow>
          (case scan_frac r of
             None \<Rightarrow> None
           | Some (b, r') \<Rightarrow> map_option (\<lambda>(c, u). (a @ b @ c, u)) (scan_exp r')))"

definition read_num :: "string \<Rightarrow> (string \<times> string) option" where
  "read_num s =
     (case s of
        [] \<Rightarrow> None
      | c # r \<Rightarrow>
          if c = CHR ''-'' then map_option (\<lambda>(d, u). (c # d, u)) (scan_unsigned r)
          else scan_unsigned s)"

definition read_lit :: "string \<Rightarrow> (json \<times> string) option" where
  "read_lit s =
     (case cut_prefix ''null'' s of
        Some r \<Rightarrow> Some (JNull, r)
      | None \<Rightarrow>
          (case cut_prefix ''true'' s of
             Some r \<Rightarrow> Some (JBool True, r)
           | None \<Rightarrow>
               (case cut_prefix ''false'' s of
                  Some r \<Rightarrow> Some (JBool False, r)
                | None \<Rightarrow> map_option (\<lambda>(l, r). (JNum l, r)) (read_num s))))"

section \<open>Parsing\<close>

fun p_val :: "nat \<Rightarrow> string \<Rightarrow> (json \<times> string) option"
and p_elems :: "nat \<Rightarrow> string \<Rightarrow> (json list \<times> string) option"
and p_members :: "nat \<Rightarrow> string \<Rightarrow> ((string \<times> json) list \<times> string) option" where
  "p_val 0 s = None"
| "p_val (Suc n) s =
     (case skip_ws s of
        [] \<Rightarrow> None
      | c # cs \<Rightarrow>
          if c = quote then map_option (\<lambda>(x, r). (JStr x, r)) (read_str cs)
          else if c = CHR ''['' then
            (case expect CHR '']'' cs of
               Some r \<Rightarrow> Some (JArr [], r)
             | None \<Rightarrow> map_option (\<lambda>(xs, r). (JArr xs, r)) (p_elems n cs))
          else if c = CHR ''{'' then
            (case expect CHR ''}'' cs of
               Some r \<Rightarrow> Some (JObj [], r)
             | None \<Rightarrow> map_option (\<lambda>(ms, r). (JObj ms, r)) (p_members n cs))
          else read_lit (c # cs))"
| "p_elems 0 s = None"
| "p_elems (Suc n) s =
     (case p_val n s of
        None \<Rightarrow> None
      | Some (v, r) \<Rightarrow>
          (case expect CHR '','' r of
             Some r' \<Rightarrow> map_option (\<lambda>(xs, u). (v # xs, u)) (p_elems n r')
           | None \<Rightarrow> map_option (\<lambda>u. ([v], u)) (expect CHR '']'' r)))"
| "p_members 0 s = None"
| "p_members (Suc n) s =
     (case expect quote s of
        None \<Rightarrow> None
      | Some s1 \<Rightarrow>
          (case read_str s1 of
             None \<Rightarrow> None
           | Some (k, s2) \<Rightarrow>
               (case expect CHR '':'' s2 of
                  None \<Rightarrow> None
                | Some s3 \<Rightarrow>
                    (case p_val n s3 of
                       None \<Rightarrow> None
                     | Some (v, r) \<Rightarrow>
                         (case expect CHR '','' r of
                            Some r' \<Rightarrow> map_option (\<lambda>(ms, u). ((k, v) # ms, u)) (p_members n r')
                          | None \<Rightarrow> map_option (\<lambda>u. ([(k, v)], u)) (expect CHR ''}'' r))))))"

definition json_parse :: "string \<Rightarrow> json option" where
  "json_parse s =
     (case p_val (Suc (length s)) s of
        None \<Rightarrow> None
      | Some (v, r) \<Rightarrow> if skip_ws r = [] then Some v else None)"

section \<open>Printing\<close>

definition hex_digit :: "nat \<Rightarrow> char" where
  "hex_digit d = (if d < 10 then char_of (48 + d) else char_of (87 + d))"

definition esc_u :: "char \<Rightarrow> string" where
  "esc_u c =
     [backslash, CHR ''u'', CHR ''0'', CHR ''0'', hex_digit (of_char c div 16), hex_digit (of_char c mod 16)]"

definition short_escapes :: "(char \<times> char) list" where
  "short_escapes =
     [(quote, quote), (backslash, backslash), (CHR 0x08, CHR ''b''), (CHR 0x0C, CHR ''f''),
      (CHR 0x0A, CHR ''n''), (CHR 0x0D, CHR ''r''), (CHR 0x09, CHR ''t'')]"

definition plain_escape :: "char \<Rightarrow> bool" where
  "plain_escape c \<longleftrightarrow> c < CHR 0x20 \<or> c = CHR ''<'' \<or> c = CHR ''>'' \<or> c = CHR ''&''"

definition esc :: "char \<Rightarrow> string" where
  "esc c =
     (case map_of short_escapes c of
        Some x \<Rightarrow> [backslash, x]
      | None \<Rightarrow> if plain_escape c then esc_u c else [c])"

definition show_str :: "string \<Rightarrow> string" where
  "show_str s = quote # concat (map esc s) @ [quote]"

definition newline :: "nat \<Rightarrow> string" where
  "newline d = CHR 0x0A # replicate (2 * d) CHR 0x20"

fun sep_by :: "string \<Rightarrow> string list \<Rightarrow> string" where
  "sep_by d [] = []"
| "sep_by d [x] = x"
| "sep_by d (x # y # xs) = x @ d @ sep_by d (y # xs)"

text \<open>\<open>json.MarshalIndent\<close> with two spaces, or \<open>json.Marshal\<close>, which leaves no space at all.\<close>

definition gap :: "bool \<Rightarrow> nat \<Rightarrow> string" where
  "gap indent d = (if indent then newline d else [])"

definition colon :: "bool \<Rightarrow> string" where
  "colon indent = (if indent then '': '' else '':'')"

fun json_show :: "bool \<Rightarrow> nat \<Rightarrow> json \<Rightarrow> string" where
  "json_show p d JNull = ''null''"
| "json_show p d (JBool b) = (if b then ''true'' else ''false'')"
| "json_show p d (JNum s) = s"
| "json_show p d (JStr s) = show_str s"
| "json_show p d (JArr xs) =
     (if xs = [] then ''[]''
      else ''['' @ gap p (d + 1) @ sep_by (CHR '','' # gap p (d + 1)) (map (json_show p (d + 1)) xs)
             @ gap p d @ '']'')"
| "json_show p d (JObj ms) =
     (if ms = [] then ''{}''
      else ''{'' @ gap p (d + 1)
             @ sep_by (CHR '','' # gap p (d + 1))
                 (map (\<lambda>(k, v). show_str k @ colon p @ json_show p (d + 1) v) ms)
             @ gap p d @ ''}'')"

abbreviation json_pretty :: "nat \<Rightarrow> json \<Rightarrow> string" where
  "json_pretty \<equiv> json_show True"

abbreviation json_compact :: "json \<Rightarrow> string" where
  "json_compact \<equiv> json_show False 0"

text \<open>The trees whose numbers are number literals: what the parser returns and the printer needs.\<close>

definition num_lit :: "string \<Rightarrow> bool" where
  "num_lit s \<longleftrightarrow> read_num s = Some (s, [])"

fun json_ok :: "json \<Rightarrow> bool" where
  "json_ok (JNum s) \<longleftrightarrow> num_lit s"
| "json_ok (JArr xs) \<longleftrightarrow> list_all json_ok xs"
| "json_ok (JObj ms) \<longleftrightarrow> list_all (\<lambda>m. json_ok (snd m)) ms"
| "json_ok _ \<longleftrightarrow> True"

section \<open>Maps and slices\<close>

text \<open>A Go map in the order of its keys: \<open>m[k] = v\<close> puts the key where it belongs.\<close>

fun obj_set :: "string \<Rightarrow> 'v \<Rightarrow> (string \<times> 'v) list \<Rightarrow> (string \<times> 'v) list" where
  "obj_set k v [] = [(k, v)]"
| "obj_set k v ((k', v') # m) =
     (if k = k' then (k, v) # m
      else if k < k' then (k, v) # (k', v') # m
      else (k', v') # obj_set k v m)"

definition go_map :: "(string \<times> 'v) list \<Rightarrow> (string \<times> 'v) list" where
  "go_map kvs = foldl (\<lambda>m (k, v). obj_set k v m) [] kvs"

abbreviation key_sorted :: "(string \<times> 'v) list \<Rightarrow> bool" where
  "key_sorted m \<equiv> sorted_wrt (<) (map fst m)"

text \<open>
  Decoding into \<open>map[string]json.RawMessage\<close> and into \<open>[]json.RawMessage\<close>: \<^term>\<open>None\<close> is a type error,
  \<^term>\<open>Some None\<close> the nil map or slice.
\<close>

type_synonym raw_map = "(string \<times> json) list option"
type_synonym raw_slice = "json list option"

fun unmarshal_map :: "json \<Rightarrow> raw_map option" where
  "unmarshal_map JNull = Some None"
| "unmarshal_map (JObj kvs) = Some (Some (go_map kvs))"
| "unmarshal_map _ = None"

fun unmarshal_slice :: "json \<Rightarrow> raw_slice option" where
  "unmarshal_slice JNull = Some None"
| "unmarshal_slice (JArr xs) = Some (Some xs)"
| "unmarshal_slice _ = None"

fun marshal_map :: "raw_map \<Rightarrow> json" where
  "marshal_map None = JNull"
| "marshal_map (Some m) = JObj m"

fun marshal_slice :: "raw_slice \<Rightarrow> json" where
  "marshal_slice None = JNull"
| "marshal_slice (Some xs) = JArr xs"

text \<open>\<open>len\<close>, \<open>range\<close> and reads take a nil slice or map for an empty one; \<open>append\<close> of nothing keeps it nil.\<close>

definition elems :: "raw_slice \<Rightarrow> json list" where
  "elems s = (case s of None \<Rightarrow> [] | Some xs \<Rightarrow> xs)"

definition entries :: "raw_map \<Rightarrow> (string \<times> json) list" where
  "entries m = (case m of None \<Rightarrow> [] | Some kvs \<Rightarrow> kvs)"

definition append_raw :: "raw_slice \<Rightarrow> json list \<Rightarrow> raw_slice" where
  "append_raw s xs = (if xs = [] then s else Some (elems s @ xs))"

text \<open>
  \<open>var x T; if raw, ok := m[k]; ok && len(raw) > 0 { json.Unmarshal(raw, &x) }\<close>: an absent member
  leaves the nil value.
\<close>

definition map_field :: "string \<Rightarrow> (string \<times> json) list \<Rightarrow> raw_map option" where
  "map_field k m = (case map_of m k of None \<Rightarrow> Some None | Some j \<Rightarrow> unmarshal_map j)"

definition slice_field :: "string \<Rightarrow> (string \<times> json) list \<Rightarrow> raw_slice option" where
  "slice_field k m = (case map_of m k of None \<Rightarrow> Some None | Some j \<Rightarrow> unmarshal_slice j)"

section \<open>Structs\<close>

text \<open>
  A struct is decoded member by member into the value it has, each member into the field whose name
  it equals up to case; \<open>null\<close> changes nothing. The elements of an array are decoded into the
  elements the slice has, as far as it has any.
\<close>

fun dec_members :: "(string \<Rightarrow> json \<Rightarrow> 'a \<Rightarrow> 'a option) \<Rightarrow> (string \<times> json) list \<Rightarrow> 'a \<Rightarrow> 'a option" where
  "dec_members f [] x = Some x"
| "dec_members f ((k, v) # ms) x =
     (case f (to_lower k) v x of None \<Rightarrow> None | Some y \<Rightarrow> dec_members f ms y)"

fun dec_struct :: "(string \<Rightarrow> json \<Rightarrow> 'a \<Rightarrow> 'a option) \<Rightarrow> 'a \<Rightarrow> json \<Rightarrow> 'a option" where
  "dec_struct f x JNull = Some x"
| "dec_struct f x (JObj ms) = dec_members f ms x"
| "dec_struct f x _ = None"

fun dec_str :: "string \<Rightarrow> json \<Rightarrow> string option" where
  "dec_str x JNull = Some x"
| "dec_str x (JStr s) = Some s"
| "dec_str x _ = None"

text \<open>An \<open>int\<close> field: \<open>strconv.ParseInt\<close> on the literal, which refuses a fraction or an exponent.\<close>

definition digits_int :: "string \<Rightarrow> int" where
  "digits_int s = foldl (\<lambda>n c. 10 * n + int (digit_val c)) 0 s"

definition int_lit :: "string \<Rightarrow> int option" where
  "int_lit l =
     (let neg = (l \<noteq> [] \<and> hd l = CHR ''-'');
          d = (if neg then tl l else l);
          n = (if neg then - digits_int d else digits_int d)
      in if d \<noteq> [] \<and> list_all is_digit d \<and> min_int64 \<le> n \<and> n \<le> max_int64 then Some n else None)"

fun dec_int :: "int \<Rightarrow> json \<Rightarrow> int option" where
  "dec_int x JNull = Some x"
| "dec_int x (JNum l) = int_lit l"
| "dec_int x _ = None"

fun dec_elems :: "('a \<Rightarrow> json \<Rightarrow> 'a option) \<Rightarrow> 'a \<Rightarrow> 'a list \<Rightarrow> json list \<Rightarrow> 'a list option" where
  "dec_elems f z old [] = Some []"
| "dec_elems f z old (j # js) =
     (case f (case old of [] \<Rightarrow> z | x # _ \<Rightarrow> x) j of
        None \<Rightarrow> None
      | Some y \<Rightarrow> map_option ((#) y) (dec_elems f z (tl old) js))"

fun dec_slice :: "('a \<Rightarrow> json \<Rightarrow> 'a option) \<Rightarrow> 'a \<Rightarrow> 'a list \<Rightarrow> json \<Rightarrow> 'a list option" where
  "dec_slice f z old JNull = Some []"
| "dec_slice f z old (JArr js) = dec_elems f z old js"
| "dec_slice f z old _ = None"

text \<open>A struct with one string field, named in lower case.\<close>

definition str_field :: "string \<Rightarrow> string \<Rightarrow> json \<Rightarrow> string option" where
  "str_field name = dec_struct (\<lambda>k v x. if k = name then dec_str x v else Some x)"

section \<open>The verb \<open>%q\<close> inside a document\<close>

text \<open>
  \<open>fmt\<close> quotes a string in the syntax of Go, which JSON reads as the same string unless the escape is
  one that JSON lacks: \<open>\a\<close>, \<open>\v\<close> and \<open>\x..\<close> of the other control bytes. Such a text is refused when
  the \<open>json.RawMessage\<close> that holds it is marshalled.
\<close>

definition json_quotable :: "string \<Rightarrow> bool" where
  "json_quotable s \<longleftrightarrow>
     list_all (\<lambda>c. (CHR 0x20 \<le> c \<and> c \<noteq> CHR 0x7F) \<or> c \<in> set [CHR 0x08, CHR 0x0C, CHR 0x0A, CHR 0x0D, CHR 0x09]) s"

definition fmt_q :: "string \<Rightarrow> json option" where
  "fmt_q s = (if json_quotable s then Some (JStr s) else None)"

definition str_array :: "string list \<Rightarrow> json" where
  "str_array ss = JArr (map JStr ss)"

section \<open>The round trip\<close>

lemma skip_ws_Cons: "\<not> json_ws c \<Longrightarrow> skip_ws (c # s) = c # s"
  by (simp add: skip_ws_def)

lemma skip_ws_gap [simp]: "skip_ws (gap p d @ s) = skip_ws s"
  by (cases p) (simp_all add: skip_ws_def gap_def newline_def dropWhile_append3 json_ws_def dropWhile_append)

lemma skip_ws_space [simp]: "skip_ws (CHR '' '' # s) = skip_ws s"
  by (simp add: skip_ws_def json_ws_def)

lemma expect_gap [simp]: "expect c (gap p d @ s) = expect c s"
  by (simp add: expect_def)

lemma expect_Cons [simp]: "\<not> json_ws x \<Longrightarrow> expect c (x # s) = (if x = c then Some s else None)"
  by (simp add: expect_def skip_ws_Cons)

lemma punctuation_not_ws [simp]:
  "\<not> json_ws quote" "\<not> json_ws CHR '',''" "\<not> json_ws CHR '':''" "\<not> json_ws CHR ''[''"
  "\<not> json_ws CHR '']''" "\<not> json_ws CHR ''{''" "\<not> json_ws CHR ''}''"
  by code_simp+

lemma quote_distinct [simp]:
  "quote \<noteq> CHR ''[''" "quote \<noteq> CHR '']''" "quote \<noteq> CHR ''{''" "quote \<noteq> CHR ''}''" "quote \<noteq> CHR '',''"
  "CHR ''['' \<noteq> quote" "CHR '']'' \<noteq> quote" "CHR ''{'' \<noteq> quote" "CHR ''}'' \<noteq> quote" "CHR '','' \<noteq> quote"
  "quote \<noteq> backslash" "backslash \<noteq> quote"
  by code_simp+

subsection \<open>Strings\<close>

lemma hex_val_digit_all: "list_all (\<lambda>d. hex_val (hex_digit d) = Some d) [0..<16]"
  by code_simp

lemma hex_val_digit [simp]: "d < 16 \<Longrightarrow> hex_val (hex_digit d) = Some d"
  using hex_val_digit_all by (simp add: list_all_iff)

lemma hex_val_zero [simp]: "hex_val CHR ''0'' = Some 0"
  by code_simp

lemma unescape_esc_u:
  assumes "of_char c < (128::nat)"
  shows "unescape (tl (esc_u c) @ u) = Some ([c], u)"
proof -
  have d: "of_char c div (16::nat) < 16" "of_char c mod (16::nat) < 16"
    using assms by auto
  have "hex4 (CHR ''0'' # CHR ''0'' # hex_digit (of_char c div 16) # hex_digit (of_char c mod 16) # u) = Some (of_char c, u)"
    by (simp only: hex4.simps hex_val_digit [OF d(1)] hex_val_digit [OF d(2)] hex_val_zero) simp
  then show ?thesis using assms by (simp add: esc_u_def unescape_u_def utf8_def)
qed

lemma char_less_20: "c < CHR 0x20 \<longleftrightarrow> of_char c < (32::nat)"
  by (simp add: less_char_def)

lemma read_str_backslash:
  "unescape r = Some (x, r') \<Longrightarrow>
     read_str (backslash # r) = map_option (\<lambda>(t, u). (x @ t, u)) (read_str r')"
  by (subst read_str.simps) (simp add: backslash_def quote_def)

lemma read_str_quote [simp]: "read_str (quote # r) = Some ([], r)"
  by (subst read_str.simps) simp

lemma short_escapes_all:
  "list_all (\<lambda>(c, x). x \<noteq> CHR ''u'' \<and> map_of simple_escapes x = Some c) short_escapes"
  by code_simp

lemma unescape_short: "map_of short_escapes c = Some x \<Longrightarrow> unescape (x # u) = Some ([c], u)"
  using short_escapes_all by (auto simp: list_all_iff dest!: map_of_SomeD)

lemma esc_cases:
  obtains "esc c = [c]" "c \<noteq> quote" "c \<noteq> backslash" "\<not> c < CHR 0x20"
  | "esc c = esc_u c" "plain_escape c"
  | x where "esc c = [backslash, x]" "\<And>u. unescape (x # u) = Some ([c], u)"
proof (cases "map_of short_escapes c")
  case None
  then have "c \<noteq> quote" "c \<noteq> backslash" by (auto simp: short_escapes_def)
  with None that(1,2) show ?thesis by (cases "plain_escape c") (auto simp: esc_def plain_escape_def)
next
  case (Some x)
  with that(3) [of x] show ?thesis by (simp add: esc_def unescape_short del: unescape.simps)
qed

lemma plain_escape_ascii: "plain_escape c \<Longrightarrow> of_char c < (128::nat)"
  by (auto simp: plain_escape_def char_less_20)

lemma read_str_esc: "read_str (esc c @ u) = map_option (\<lambda>(t, r). (c # t, r)) (read_str u)"
proof (cases c rule: esc_cases)
  case 1
  then show ?thesis by (subst read_str.simps) simp
next
  case 2
  have "read_str (backslash # tl (esc_u c) @ u) = map_option (\<lambda>(t, r). ([c] @ t, r)) (read_str u)"
    by (rule read_str_backslash [OF unescape_esc_u [OF plain_escape_ascii [OF 2(2)]]])
  moreover have "backslash # tl (esc_u c) @ u = esc_u c @ u" by (simp add: esc_u_def)
  ultimately show ?thesis by (simp add: 2)
next
  case (3 x)
  then show ?thesis by (simp add: read_str_backslash [OF 3(2)])
qed

lemma read_str_show: "read_str (concat (map esc s) @ quote # u) = Some (s, u)"
  by (induction s) (simp_all add: read_str_esc)

subsection \<open>Numbers\<close>

definition num_end :: "string \<Rightarrow> bool" where
  "num_end t \<longleftrightarrow> t = [] \<or> \<not> (is_digit (hd t) \<or> hd t \<in> {CHR ''.'', CHR ''e'', CHR ''E''})"

lemma scan_digits_append:
  assumes "scan_digits s = Some (d, r)" and "r \<noteq> [] \<or> t = [] \<or> \<not> is_digit (hd t)"
  shows "scan_digits (s @ t) = Some (d, r @ t)"
proof (cases "r = []")
  case False
  moreover have "dropWhile is_digit s = r"
    using assms(1) by (auto simp: scan_digits_def Let_def split: if_splits)
  ultimately have "\<exists>x\<in>set s. \<not> is_digit x" by (metis dropWhile_eq_Nil_conv)
  then show ?thesis
    using assms(1) by (auto simp: scan_digits_def Let_def takeWhile_append1 dropWhile_append1 split: if_splits)
next
  case True
  then have "\<forall>x\<in>set s. is_digit x" "takeWhile is_digit s = d" "d \<noteq> []"
    using assms(1) by (auto simp: scan_digits_def Let_def split: if_splits)
  moreover have "takeWhile is_digit t = []" "dropWhile is_digit t = t"
    using assms(2) True by (cases t; simp)+
  moreover have "s = d" using calculation(1,2) by (metis takeWhile_eq_all_conv)
  ultimately show ?thesis
    using True by (simp add: scan_digits_def takeWhile_append dropWhile_append)
qed

lemma scan_digits_lit:
  "scan_digits s = Some (d, r) \<Longrightarrow> s = d @ r \<and> d \<noteq> [] \<and> is_digit (hd d) \<and> scan_digits d = Some (d, [])"
  by (cases s) (auto simp: scan_digits_def Let_def dest: set_takeWhileD split: if_splits)

lemma scan_digits_rest: "scan_digits s = Some (d, r) \<Longrightarrow> r = [] \<or> \<not> is_digit (hd r)"
  by (auto simp: scan_digits_def Let_def hd_dropWhile split: if_splits)

text \<open>Each part of a number is read in the same way whatever non-numeric text follows it.\<close>

definition reads :: "(string \<Rightarrow> (string \<times> string) option) \<Rightarrow> (string \<Rightarrow> bool) \<Rightarrow> bool" where
  "reads scan stop \<longleftrightarrow>
     (\<forall>s l r. scan s = Some (l, r) \<longrightarrow>
        s = l @ r \<and> (\<forall>t. stop t \<longrightarrow> scan (l @ t) = Some (l, t)))"

lemma reads_append: "reads scan stop \<Longrightarrow> scan s = Some (l, r) \<Longrightarrow> stop t \<Longrightarrow> scan (l @ t) = Some (l, t)"
  unfolding reads_def by blast

lemma reads_split: "reads scan stop \<Longrightarrow> scan s = Some (l, r) \<Longrightarrow> s = l @ r"
  unfolding reads_def by blast

abbreviation no_digit :: "string \<Rightarrow> bool" where
  "no_digit t \<equiv> t = [] \<or> \<not> is_digit (hd t)"

lemma reads_digits: "reads scan_digits no_digit"
proof -
  have "s = l @ r \<and> (no_digit t \<longrightarrow> scan_digits (l @ t) = Some (l, t))" if "scan_digits s = Some (l, r)" for s l r t
    using scan_digits_lit [OF that] scan_digits_append [of l l "[]" t] by auto
  then show ?thesis unfolding reads_def by blast
qed

lemma reads_int: "reads scan_int no_digit"
proof -
  have "s = l @ r \<and> (no_digit t \<longrightarrow> scan_int (l @ t) = Some (l, t))" if s: "scan_int s = Some (l, r)" for s l r t
  proof (cases s)
    case (Cons c cs)
    show ?thesis
    proof (cases "c = CHR ''0''")
      case False
      then have d: "scan_digits s = Some (l, r)" using s Cons by (simp add: scan_int_def)
      then obtain ls where "l = c # ls" using Cons scan_digits_lit [OF d] by (cases l) auto
      then show ?thesis
        using d False reads_split [OF reads_digits d] reads_append [OF reads_digits d]
        by (simp add: scan_int_def)
    qed (use s Cons in \<open>auto simp: scan_int_def\<close>)
  qed (use s in \<open>simp add: scan_int_def\<close>)
  then show ?thesis unfolding reads_def by blast
qed

lemma reads_frac: "reads scan_frac (\<lambda>t. no_digit t \<and> (t = [] \<or> hd t \<noteq> CHR ''.''))"
  unfolding reads_def
  using reads_split [OF reads_digits] reads_append [OF reads_digits]
  by (auto simp: scan_frac_def hd_append split: list.splits if_splits) fastforce+

lemma reads_exp_digits: "reads scan_exp_digits no_digit"
proof -
  have "s = l @ r \<and> (no_digit t \<longrightarrow> scan_exp_digits (l @ t) = Some (l, t))"
    if s: "scan_exp_digits s = Some (l, r)" for s l r t
  proof (cases s)
    case (Cons c cs)
    show ?thesis
    proof (cases "c = CHR ''+'' \<or> c = CHR ''-''")
      case True
      then obtain d where d: "scan_digits cs = Some (d, r)" "l = c # d"
        using s Cons by (auto simp: scan_exp_digits_def)
      then show ?thesis
        using Cons True reads_split [OF reads_digits d(1)] reads_append [OF reads_digits d(1)]
        by (auto simp: scan_exp_digits_def)
    next
      case False
      then have d: "scan_digits s = Some (l, r)" using s Cons by (simp add: scan_exp_digits_def)
      then obtain ls where "l = c # ls" using Cons scan_digits_lit [OF d] by (cases l) auto
      then show ?thesis
        using d False reads_split [OF reads_digits d] reads_append [OF reads_digits d]
        by (simp add: scan_exp_digits_def)
    qed
  qed (use s in \<open>simp add: scan_exp_digits_def\<close>)
  then show ?thesis unfolding reads_def by blast
qed

lemma reads_exp: "reads scan_exp (\<lambda>t. no_digit t \<and> (t = [] \<or> hd t \<notin> {CHR ''e'', CHR ''E''}))"
  unfolding reads_def
  using reads_split [OF reads_exp_digits] reads_append [OF reads_exp_digits]
  by (auto simp: scan_exp_def hd_append split: list.splits if_splits) fastforce+

lemma scan_frac_head: "scan_frac s = Some (l, r) \<Longrightarrow> l = [] \<or> hd l = CHR ''.''"
  by (auto simp: scan_frac_def split: list.splits if_splits)

lemma scan_exp_head: "scan_exp s = Some (l, r) \<Longrightarrow> l = [] \<or> hd l = CHR ''e'' \<or> hd l = CHR ''E''"
  by (auto simp: scan_exp_def split: list.splits if_splits)

lemma number_signs_no_digit [simp]:
  "\<not> is_digit CHR ''.''" "\<not> is_digit CHR ''e''" "\<not> is_digit CHR ''E''" "\<not> is_digit CHR ''-''"
  by code_simp+

lemma reads_unsigned: "reads scan_unsigned num_end"
proof -
  have "s = l @ r \<and> (num_end t \<longrightarrow> scan_unsigned (l @ t) = Some (l, t))"
    if s: "scan_unsigned s = Some (l, r)" for s l r t
  proof -
    from s obtain a r1 b r2 c where
      a: "scan_int s = Some (a, r1)" and b: "scan_frac r1 = Some (b, r2)" and
      c: "scan_exp r2 = Some (c, r)" and l: "l = a @ b @ c"
      by (auto simp: scan_unsigned_def split: option.splits)
    have "s = l @ r"
      using reads_split [OF reads_int a] reads_split [OF reads_frac b] reads_split [OF reads_exp c]
      by (simp add: l)
    moreover have "scan_unsigned (l @ t) = Some (l, t)" if t: "num_end t"
    proof -
      have c': "scan_exp (c @ t) = Some (c, t)"
        using reads_append [OF reads_exp c] t by (auto simp: num_end_def)
      have b': "scan_frac (b @ c @ t) = Some (b, c @ t)"
        using reads_append [OF reads_frac b, of "c @ t"] scan_exp_head [OF c] t
        by (auto simp: num_end_def hd_append)
      have a': "scan_int (a @ b @ c @ t) = Some (a, b @ c @ t)"
        using reads_append [OF reads_int a, of "b @ c @ t"] scan_exp_head [OF c] scan_frac_head [OF b] t
        by (auto simp: num_end_def hd_append)
      show ?thesis by (simp add: l scan_unsigned_def a' b' c')
    qed
    ultimately show ?thesis by blast
  qed
  then show ?thesis unfolding reads_def by blast
qed

lemma scan_int_hd: "scan_int s = Some (l, r) \<Longrightarrow> l \<noteq> [] \<and> is_digit (hd l)"
proof -
  have "is_digit CHR ''0''" by code_simp
  then show "scan_int s = Some (l, r) \<Longrightarrow> l \<noteq> [] \<and> is_digit (hd l)"
    by (auto simp: scan_int_def split: list.splits if_splits dest: scan_digits_lit)
qed

lemma scan_unsigned_hd: "scan_unsigned s = Some (l, r) \<Longrightarrow> l \<noteq> [] \<and> is_digit (hd l)"
  by (auto simp: scan_unsigned_def split: option.splits dest!: scan_int_hd)

lemma read_num_cases:
  assumes "read_num s = Some (l, r)"
  obtains l' s' where "l = CHR ''-'' # l'" "s = CHR ''-'' # s'" "scan_unsigned s' = Some (l', r)"
  | "scan_unsigned s = Some (l, r)" "l \<noteq> []" "is_digit (hd l)" "hd l \<noteq> CHR ''-''"
proof (cases "s \<noteq> [] \<and> hd s = CHR ''-''")
  case True
  with assms that(1) show ?thesis by (cases s) (auto simp: read_num_def)
next
  case False
  then have u: "scan_unsigned s = Some (l, r)"
    using assms by (auto simp: read_num_def split: list.splits)
  have "l \<noteq> [] \<and> is_digit (hd l)" by (rule scan_unsigned_hd [OF u])
  moreover then have "hd l \<noteq> CHR ''-''" by auto
  ultimately show ?thesis using u that(2) by blast
qed

lemma read_num_unsigned: "l \<noteq> [] \<Longrightarrow> hd l \<noteq> CHR ''-'' \<Longrightarrow> read_num (l @ t) = scan_unsigned (l @ t)"
  by (cases l) (auto simp: read_num_def)

lemma reads_num: "reads read_num num_end"
proof -
  have "s = l @ r \<and> (num_end t \<longrightarrow> read_num (l @ t) = Some (l, t))"
    if s: "read_num s = Some (l, r)" for s l r t
    using s
  proof (cases rule: read_num_cases)
    case (1 l' s')
    then show ?thesis
      using reads_split [OF reads_unsigned 1(3)] reads_append [OF reads_unsigned 1(3)]
      by (auto simp: read_num_def)
  next
    case 2
    then show ?thesis
      using reads_split [OF reads_unsigned 2(1)] reads_append [OF reads_unsigned 2(1)]
      by (simp add: read_num_unsigned)
  qed
  then show ?thesis unfolding reads_def by blast
qed

lemma read_num_lit: "read_num s = Some (l, r) \<Longrightarrow> num_lit l"
  using reads_append [OF reads_num, of s l r "[]"] by (simp add: num_lit_def num_end_def)

lemma read_num_append: "num_lit l \<Longrightarrow> num_end t \<Longrightarrow> read_num (l @ t) = Some (l, t)"
  unfolding num_lit_def by (rule reads_append [OF reads_num])

lemma num_lit_hd: "num_lit l \<Longrightarrow> l \<noteq> [] \<and> (is_digit (hd l) \<or> hd l = CHR ''-'')"
  unfolding num_lit_def by (erule read_num_cases) auto

subsection \<open>Values\<close>

lemma digit_not_special:
  assumes "is_digit c \<or> c = CHR ''-''"
  shows "\<not> json_ws c \<and> c \<noteq> quote \<and> c \<noteq> CHR ''['' \<and> c \<noteq> CHR ''{'' \<and> c \<noteq> CHR ''n'' \<and> c \<noteq> CHR ''t'' \<and> c \<noteq> CHR ''f''
    \<and> c \<noteq> CHR '']'' \<and> c \<noteq> CHR ''}''"
proof -
  have "\<not> is_digit c'" if "c' \<in> set [CHR 0x20, CHR 0x09, CHR 0x0A, CHR 0x0D, quote, CHR ''['', CHR ''{'', CHR ''n'',
      CHR ''t'', CHR ''f'', CHR '']'', CHR ''}'']" for c'
  proof -
    have "list_all (\<lambda>c. \<not> is_digit c) [CHR 0x20, CHR 0x09, CHR 0x0A, CHR 0x0D, quote, CHR ''['', CHR ''{'', CHR ''n'',
      CHR ''t'', CHR ''f'', CHR '']'', CHR ''}'']" by code_simp
    with that show ?thesis unfolding list_all_iff by blast
  qed
  with assms show ?thesis by (auto simp: json_ws_def quote_def)
qed

lemma read_lit_num: "num_lit l \<Longrightarrow> num_end t \<Longrightarrow> read_lit (l @ t) = Some (JNum l, t)"
proof -
  assume l: "num_lit l" and t: "num_end t"
  then obtain c ls where c: "l = c # ls" "is_digit c \<or> c = CHR ''-''"
    using num_lit_hd [OF l] by (cases l) auto
  then have "cut_prefix (x # xs) (l @ t) = None" if "x \<in> {CHR ''n'', CHR ''t'', CHR ''f''}" for x xs
    using digit_not_special [OF c(2)] that by (auto simp: cut_prefix_def)
  then show ?thesis using read_num_append [OF l t] by (simp add: read_lit_def)
qed

fun json_size :: "json \<Rightarrow> nat" where
  "json_size (JArr xs) = Suc (sum_list (map (\<lambda>x. Suc (json_size x)) xs))"
| "json_size (JObj ms) = Suc (sum_list (map (\<lambda>m. Suc (json_size (snd m))) ms))"
| "json_size _ = 1"

lemma pretty_head:
  assumes "json_ok j"
  obtains c u where "json_show p d j = c # u" "\<not> json_ws c" "c \<noteq> CHR '']''" "c \<noteq> CHR ''}''"
proof (cases j)
  case (JNum l)
  then have l: "num_lit l" using assms by simp
  then obtain c u where "l = c # u" using num_lit_hd [OF l] by (cases l) auto
  then show ?thesis using JNum that num_lit_hd [OF l] digit_not_special [of c] by simp
next
  case (JBool b)
  then show ?thesis using that by (cases b) (auto simp: json_ws_def)
next
  case (JArr xs)
  then show ?thesis using that by (cases xs) (auto simp: json_ws_def)
next
  case (JObj ms)
  then show ?thesis using that by (cases ms) (auto simp: json_ws_def)
qed (use that in \<open>auto simp: json_ws_def show_str_def quote_def\<close>)

lemma num_end_gap [simp]: "num_end (gap p d @ CHR '']'' # t)" "num_end (gap p d @ CHR ''}'' # t)"
proof -
  have "\<not> is_digit CHR 0x0A" "\<not> is_digit CHR '']''" "\<not> is_digit CHR ''}''" by code_simp+
  then show "num_end (gap p d @ CHR '']'' # t)" "num_end (gap p d @ CHR ''}'' # t)"
    by (simp_all add: num_end_def gap_def newline_def)
qed

lemma num_end_comma [simp]: "num_end (CHR '','' # t)"
proof -
  have "\<not> is_digit CHR '',''" by code_simp
  then show ?thesis by (simp add: num_end_def)
qed

lemma p_val_skip: "skip_ws s = skip_ws s' \<Longrightarrow> p_val n s = p_val n s'"
  by (cases n) simp_all

lemma p_val_gap [simp]: "p_val n (gap p d @ s) = p_val n s"
  by (rule p_val_skip) simp

lemma p_val_space [simp]: "p_val n (CHR '' '' # s) = p_val n s"
  by (rule p_val_skip) simp

lemma p_elems_gap [simp]: "p_elems n (gap p d @ s) = p_elems n s"
  by (cases n) simp_all

lemma p_members_gap [simp]: "p_members n (gap p d @ s) = p_members n s"
  by (cases n) simp_all

lemma p_elems_pretty:
  assumes "\<And>x n t. x \<in> set xs \<Longrightarrow> num_end t \<Longrightarrow> json_size x \<le> n \<Longrightarrow> p_val n (json_show p d x @ t) = Some (x, t)"
    and "xs \<noteq> []" and "sum_list (map (\<lambda>x. Suc (json_size x)) xs) \<le> n"
  shows "p_elems n (sep_by (CHR '','' # gap p e) (map (json_show p d) xs) @ gap p f @ CHR '']'' # t) = Some (xs, t)"
  using assms
proof (induction xs arbitrary: n rule: induct_list012)
  case (2 x)
  then obtain m where m: "n = Suc m" "json_size x \<le> m" by (cases n) auto
  have "p_val m (json_show p d x @ gap p f @ CHR '']'' # t) = Some (x, gap p f @ CHR '']'' # t)"
    using 2 m by (intro 2(1)) auto
  then show ?case by (simp add: m)
next
  case (3 x y xs)
  then obtain m where m: "n = Suc m" "json_size x \<le> m"
    "sum_list (map (\<lambda>x. Suc (json_size x)) (y # xs)) \<le> m" by (cases n) auto
  let ?r = "gap p e @ sep_by (CHR '','' # gap p e) (map (json_show p d) (y # xs)) @ gap p f @ CHR '']'' # t"
  have "p_elems m ?r = Some (y # xs, t)"
    using 3(2) [of m] 3(3) m(3) by (simp add: del: sep_by.simps)
  moreover have "p_val m (json_show p d x @ CHR '','' # ?r) = Some (x, CHR '','' # ?r)"
    using 3(3) m by simp
  ultimately show ?case by (simp add: m)
qed simp

lemma p_members_pretty:
  assumes "\<And>k x n t. (k, x) \<in> set ms \<Longrightarrow> num_end t \<Longrightarrow> json_size x \<le> n \<Longrightarrow> p_val n (json_show p d x @ t) = Some (x, t)"
    and "ms \<noteq> []" and "sum_list (map (\<lambda>m. Suc (json_size (snd m))) ms) \<le> n"
  shows "p_members n (sep_by (CHR '','' # gap p e) (map (\<lambda>(k, v). show_str k @ colon p @ json_show p d v) ms)
           @ gap p f @ CHR ''}'' # t) = Some (ms, t)"
  using assms
proof (induction ms arbitrary: n rule: induct_list012)
  case (2 x)
  obtain k v where x: "x = (k, v)" by fastforce
  obtain m where m: "n = Suc m" "json_size v \<le> m" using 2 x by (cases n) auto
  have "p_val m (json_show p d v @ gap p f @ CHR ''}'' # t) = Some (v, gap p f @ CHR ''}'' # t)"
    using 2 m x by (intro 2(1)) auto
  then show ?case by (cases p) (simp_all add: m x show_str_def read_str_show colon_def)
next
  case (3 x y ms)
  obtain k v where x: "x = (k, v)" by fastforce
  obtain m where m: "n = Suc m" "json_size v \<le> m"
    "sum_list (map (\<lambda>m. Suc (json_size (snd m))) (y # ms)) \<le> m" using 3 x by (cases n) auto
  let ?r = "gap p e @ sep_by (CHR '','' # gap p e) (map (\<lambda>(k, v). show_str k @ colon p @ json_show p d v) (y # ms))
           @ gap p f @ CHR ''}'' # t"
  have "p_members m ?r = Some (y # ms, t)"
    unfolding p_members_gap using m(3) by (intro 3(2) 3(3)) auto
  moreover have "p_val m (json_show p d v @ CHR '','' # ?r) = Some (v, CHR '','' # ?r)"
    using 3(3) [of k v] m x by simp
  ultimately show ?case by (cases p) (simp_all add: m x show_str_def read_str_show colon_def)
qed simp

text \<open>Whatever is printed is read back, followed by any text that does not continue a number.\<close>

lemma p_val_pretty:
  "json_ok j \<Longrightarrow> num_end t \<Longrightarrow> json_size j \<le> n \<Longrightarrow> p_val n (json_show p d j @ t) = Some (j, t)"
proof (induction j arbitrary: d t n)
  case (JNum l)
  then obtain c u m where c: "l = c # u" "\<not> json_ws c" "c \<noteq> quote" "c \<noteq> CHR ''[''" "c \<noteq> CHR ''{''" "n = Suc m"
    using num_lit_hd [of l] digit_not_special by (cases l; cases n) auto
  then show ?case using JNum read_lit_num [of l t] by (simp add: skip_ws_Cons)
next
  case (JStr s)
  then show ?case by (cases n) (simp_all add: show_str_def skip_ws_Cons read_str_show)
next
  case (JArr xs)
  obtain m where m: "n = Suc m" "sum_list (map (\<lambda>x. Suc (json_size x)) xs) \<le> m" using JArr by (cases n) auto
  show ?case
  proof (cases xs)
    case (Cons x ys)
    let ?b = "sep_by (CHR '','' # gap p (d + 1)) (map (json_show p (d + 1)) xs) @ gap p d @ CHR '']'' # t"
    have "json_ok x" using JArr(2) Cons by simp
    then obtain c u where c: "json_show p (d + 1) x = c # u" "\<not> json_ws c" "c \<noteq> CHR '']''" "c \<noteq> CHR ''}''"
      by (rule pretty_head)
    have "\<exists>u. ?b = c # u" using Cons c(1) by (cases ys) auto
    then have "expect CHR '']'' ?b = None" using c by auto
    moreover have "p_elems m ?b = Some (xs, t)"
      using JArr Cons m by (intro p_elems_pretty) (auto simp: list_all_iff)
    ultimately show ?thesis using Cons m by (simp add: skip_ws_Cons)
  qed (use m in \<open>simp add: skip_ws_Cons\<close>)
next
  case (JObj ms)
  obtain m where m: "n = Suc m" "sum_list (map (\<lambda>x. Suc (json_size (snd x))) ms) \<le> m" using JObj by (cases n) auto
  show ?case
  proof (cases ms)
    case (Cons x ys)
    let ?b = "sep_by (CHR '','' # gap p (d + 1)) (map (\<lambda>(k, v). show_str k @ colon p @ json_show p (d + 1) v) ms)
           @ gap p d @ CHR ''}'' # t"
    have "\<exists>u. ?b = quote # u" using Cons by (cases ys; cases x) (auto simp: show_str_def)
    then have "expect CHR ''}'' ?b = None" by auto
    moreover have "p_members m ?b = Some (ms, t)"
    proof (rule p_members_pretty)
      fix k x n t assume kx: "(k, x) \<in> set ms" and "num_end t" "json_size x \<le> n"
      moreover have "json_ok x" using JObj(2) bspec [OF _ kx, of "\<lambda>m. json_ok (snd m)"] by (simp add: list_all_iff)
      ultimately show "p_val n (json_show p (d + 1) x @ t) = Some (x, t)"
        using JObj(1) [of "(k, x)" x] by simp
    qed (use Cons m in auto)
    ultimately show ?thesis using Cons m by (simp add: skip_ws_Cons)
  qed (use m in \<open>simp add: skip_ws_Cons\<close>)
next
  case JNull
  then obtain m where "n = Suc m" by (cases n) auto
  then show ?case by (simp add: skip_ws_Cons json_ws_def quote_def read_lit_def cut_prefix_def)
next
  case (JBool b)
  then obtain m where "n = Suc m" by (cases n) auto
  then show ?case by (cases b) (simp_all add: skip_ws_Cons json_ws_def quote_def read_lit_def cut_prefix_def)
qed

lemma sep_by_length:
  "xs \<noteq> [] \<Longrightarrow> sum_list (map (\<lambda>x. Suc (length x)) xs) \<le> Suc (length (sep_by (c # d) xs))"
  by (induction xs rule: induct_list012) auto

lemma json_size_length: "json_ok j \<Longrightarrow> json_size j \<le> length (json_show p d j)"
proof (induction j arbitrary: d)
  case (JNum l)
  then show ?case using num_lit_hd [of l] by (cases l) auto
next
  case (JArr xs)
  show ?case
  proof (cases "xs = []")
    case False
    have "sum_list (map (\<lambda>x. Suc (json_size x)) xs) \<le> sum_list (map (\<lambda>x. Suc (length (json_show p (d + 1) x))) xs)"
      using JArr by (intro sum_list_mono) (auto simp: list_all_iff)
    also have "\<dots> \<le> Suc (length (sep_by (CHR '','' # gap p (d + 1)) (map (json_show p (d + 1)) xs)))"
      using sep_by_length [of "map (json_show p (d + 1)) xs"] False by (simp add: comp_def)
    finally show ?thesis using False by (simp add: gap_def)
  qed simp
next
  case (JObj ms)
  let ?f = "\<lambda>(k, v). show_str k @ colon p @ json_show p (d + 1) v"
  show ?case
  proof (cases "ms = []")
    case False
    have "Suc (json_size (snd m)) \<le> Suc (length (?f m))" if "m \<in> set ms" for m
      using JObj that by (cases m) (fastforce simp: list_all_iff intro: le_SucI trans_le_add2)
    then have "sum_list (map (\<lambda>m. Suc (json_size (snd m))) ms) \<le> sum_list (map (\<lambda>m. Suc (length (?f m))) ms)"
      by (intro sum_list_mono) auto
    also have "\<dots> \<le> Suc (length (sep_by (CHR '','' # gap p (d + 1)) (map ?f ms)))"
      using sep_by_length [of "map ?f ms"] False by (simp add: comp_def)
    finally show ?thesis using False by (simp add: gap_def)
  qed simp
qed (simp_all add: show_str_def)

theorem parse_pretty [simp]: "json_ok j \<Longrightarrow> json_parse (json_show p d j) = Some j"
  using p_val_pretty [where j = j and t = "[]" and n = "Suc (length (json_show p d j))" and d = d and p = p] json_size_length [where j = j and d = d and p = p]
  by (simp add: json_parse_def num_end_def skip_ws_def)

lemma read_lit_ok: "read_lit s = Some (v, r) \<Longrightarrow> json_ok v"
  by (auto simp: read_lit_def split: option.splits dest: read_num_lit)

lemma p_ok:
  shows "p_val n s = Some (v, r) \<Longrightarrow> json_ok v"
    and "p_elems n s = Some (vs, r) \<Longrightarrow> list_all json_ok vs"
    and "p_members n s = Some (ms, r) \<Longrightarrow> list_all (\<lambda>m. json_ok (snd m)) ms"
  by (induction n s and n s and n s arbitrary: v r and vs r and ms r rule: p_val_p_elems_p_members.induct)
    (auto split: list.splits option.splits if_splits dest: read_lit_ok)

lemma parse_ok: "json_parse s = Some j \<Longrightarrow> json_ok j"
  by (auto simp: json_parse_def simp del: p_val.simps split: option.splits if_splits dest: p_ok(1))

section \<open>Reading what was written\<close>

lemma map_of_obj_set [simp]: "map_of (obj_set k v m) = (map_of m)(k \<mapsto> v)"
  by (induction k v m rule: obj_set.induct) auto

lemma fst_obj_set: "set (map fst (obj_set k v m)) = insert k (set (map fst m))"
  by (induction k v m rule: obj_set.induct) auto

lemma obj_set_sorted [simp]: "key_sorted m \<Longrightarrow> key_sorted (obj_set k v m)"
proof (induction k v m rule: obj_set.induct)
  case (2 k v k' v' m)
  then show ?case
    using fst_obj_set [of k v m] by (auto simp: not_less order.strict_iff_order)
qed simp

lemma go_map_snoc: "go_map (kvs @ [(k, v)]) = obj_set k v (go_map kvs)"
  by (simp add: go_map_def)

lemma go_map_sorted [simp]: "key_sorted (go_map kvs)"
  by (induction kvs rule: rev_induct) (auto simp: go_map_snoc simp: go_map_def)

lemma obj_set_last: "list_all (\<lambda>e. fst e < k) m \<Longrightarrow> obj_set k v m = m @ [(k, v)]"
  by (induction m) auto

lemma go_map_id: "key_sorted m \<Longrightarrow> go_map m = m"
proof (induction m rule: rev_induct)
  case (snoc e m)
  then show ?case
    by (cases e) (auto simp: go_map_snoc sorted_wrt_append list_all_iff intro!: obj_set_last)
qed (simp add: go_map_def)

lemma obj_set_set: "set (obj_set k v m) \<subseteq> insert (k, v) (set m)"
  by (induction k v m rule: obj_set.induct) auto

lemma obj_set_ok [simp]:
  "json_ok v \<Longrightarrow> list_all (\<lambda>e. json_ok (snd e)) m \<Longrightarrow> list_all (\<lambda>e. json_ok (snd e)) (obj_set k v m)"
  using obj_set_set [of k v m] by (fastforce simp: list_all_iff)

lemma go_map_ok: "list_all (\<lambda>e. json_ok (snd e)) kvs \<Longrightarrow> list_all (\<lambda>e. json_ok (snd e)) (go_map kvs)"
proof (induction kvs rule: rev_induct)
  case (snoc e kvs)
  then show ?case by (cases e) (simp add: go_map_snoc)
qed (simp add: go_map_def)

lemma map_of_ok: "list_all (\<lambda>e. json_ok (snd e)) m \<Longrightarrow> map_of m k = Some j \<Longrightarrow> json_ok j"
  by (force simp: list_all_iff dest: map_of_SomeD)

lemma elems_simps [simp]: "elems None = []" "elems (Some xs) = xs"
  by (simp_all add: elems_def)

lemma entries_simps [simp]: "entries None = []" "entries (Some m) = m"
  by (simp_all add: entries_def)

lemma elems_append_raw [simp]: "elems (append_raw s xs) = elems s @ xs"
  by (simp add: append_raw_def)

lemma unmarshal_marshal_slice [simp]: "unmarshal_slice (marshal_slice s) = Some s"
  by (cases s) simp_all

lemma marshal_slice_ok [simp]: "json_ok (marshal_slice s) \<longleftrightarrow> list_all json_ok (elems s)"
  by (cases s) simp_all

lemma unmarshal_slice_ok: "json_ok j \<Longrightarrow> unmarshal_slice j = Some s \<Longrightarrow> list_all json_ok (elems s)"
  by (cases j rule: unmarshal_slice.cases) auto

lemma unmarshal_map_ok: "json_ok j \<Longrightarrow> unmarshal_map j = Some m \<Longrightarrow> list_all (\<lambda>e. json_ok (snd e)) (entries m)"
  by (cases j rule: unmarshal_map.cases) (auto simp: go_map_ok)

lemma unmarshal_map_sorted: "unmarshal_map j = Some m \<Longrightarrow> key_sorted (entries m)"
  by (cases j rule: unmarshal_map.cases) auto

lemma slice_field_ok:
  "list_all (\<lambda>e. json_ok (snd e)) m \<Longrightarrow> slice_field k m = Some s \<Longrightarrow> list_all json_ok (elems s)"
  by (auto simp: slice_field_def split: option.splits dest: map_of_ok unmarshal_slice_ok)

lemma map_field_ok:
  "list_all (\<lambda>e. json_ok (snd e)) m \<Longrightarrow> map_field k m = Some r \<Longrightarrow> list_all (\<lambda>e. json_ok (snd e)) (entries r)"
  by (auto simp: map_field_def split: option.splits dest: map_of_ok unmarshal_map_ok)

lemma map_field_sorted: "map_field k m = Some r \<Longrightarrow> key_sorted (entries r)"
  by (auto simp: map_field_def split: option.splits dest: unmarshal_map_sorted)

lemma slice_field_set [simp]: "slice_field k (obj_set k' v m) = (if k' = k then unmarshal_slice v else slice_field k m)"
  by (simp add: slice_field_def)

lemma map_field_set [simp]: "map_field k (obj_set k' v m) = (if k' = k then unmarshal_map v else map_field k m)"
  by (simp add: map_field_def)

lemma str_array_ok [simp]: "json_ok (str_array ss)"
  by (simp add: str_array_def list_all_iff)

end
