(* ===== verification/Assemble.thy ===== *)
theory Assemble
  imports Json TemplateEngine
begin

text \<open>
  \<open>core/internal/template/assemble.go\<close> and \<open>api.go\<close>: a node's \<open>config.json\<close> is made of the operator's
  skeleton, the rendered inbounds of the profiles bound to the node with the entries of their users,
  the rules for restricted destinations (blocks), egress landings and relayed exits, and the management
  API. A configuration under construction is a \<open>map[string]json.RawMessage\<close>, here a key-sorted
  association list; the result is text. \<open>agent/internal/xray/api.go\<close> reads the API address back.

  The theorems give the order of the routing rules and, over Xray's first-match reading of them, that a
  barred user cannot reach a restricted destination and that a relayed user leaves by the exit; that
  rules name outbounds that exist; that what the operator wrote by hand is kept; that rolling back
  applies the present blocks; and that both readers find the address of the injected API.
\<close>

named_theorems cfg_read \<open>reading a member of a configuration after an update\<close>

section \<open>Sources\<close>

record inbound_source =
  src_profile_id :: id
  src_profile_name :: string
  src_template :: string
  src_ctx :: render_context
  src_clients :: "string list"

record exit_source =
  ex_tag :: string
  ex_outbound :: string
  ex_emails :: "string list"

record block_source =
  bl_cidrs :: "string list"
  bl_domains :: "string list"
  bl_emails :: "string list"

record egress_source =
  eg_tag :: string
  eg_outbound :: string
  eg_domains :: "string list"
  eg_ips :: "string list"

definition BlackholeTag :: string where "BlackholeTag = ''chiral-blocked''"
definition APIInboundTag :: string where "APIInboundTag = ''chiral-api''"
definition APIHandlerTag :: string where "APIHandlerTag = ''api''"
definition APIPort :: int where "APIPort = 10085"
definition APIListen :: string where "APIListen = ''127.0.0.1''"

text \<open>The errors of the package; the last is the panic of a write to a nil map.\<close>

datatype assemble_error =
    SkeletonInvalid
  | SkeletonNull
  | ConfigInvalid
  | NotArray string
  | NotObject string
  | RenderFailed render_error
  | InboundInvalid
  | ClientInvalid
  | OutboundInvalid string
  | MarshalFailed
  | NoSuchOutbound string
  | InProfile string assemble_error
  | NilMapPanic

definition DefaultSkeleton :: string where
  "DefaultSkeleton = concat (map (\<lambda>l. l @ [CHR 0x0A])
     [''{'',
      ''  \"log\": { \"loglevel\": \"warning\" },'',
      ''  \"inbounds\": [],'',
      ''  \"outbounds\": ['',
      ''    { \"protocol\": \"freedom\", \"tag\": \"direct\" }'',
      ''  ]''])
     @ ''}''"

type_synonym config = "(string \<times> json) list"

section \<open>Inbounds\<close>

text \<open>A text that must be a JSON object, decoded and encoded again; \<open>null\<close> passes as the nil map.\<close>

definition parse_object :: "string \<Rightarrow> raw_map option" where
  "parse_object s = (case json_parse s of None \<Rightarrow> None | Some j \<Rightarrow> unmarshal_map j)"

fun client_objects :: "string list \<Rightarrow> (assemble_error, json list) result" where
  "client_objects [] = Inr []"
| "client_objects (e # es) =
     (case parse_object e of
        None \<Rightarrow> Inl ClientInvalid
      | Some obj \<Rightarrow> bind_result (client_objects es) (\<lambda>js. Inr (marshal_map obj # js)))"

definition spliceClients :: "raw_map \<Rightarrow> string list \<Rightarrow> (assemble_error, raw_map) result" where
  "spliceClients inbound es =
     (if es = [] then Inr inbound
      else
        (case map_field ''settings'' (entries inbound) of
           None \<Rightarrow> Inl (NotObject ''settings'')
         | Some settings \<Rightarrow>
             (case slice_field ''clients'' (entries settings) of
                None \<Rightarrow> Inl (NotArray ''settings.clients'')
              | Some clients \<Rightarrow>
                  bind_result (client_objects es) (\<lambda>js.
                    case inbound of
                      None \<Rightarrow> Inl NilMapPanic
                    | Some m \<Rightarrow>
                        Inr (Some (obj_set ''settings''
                          (JObj (obj_set ''clients'' (marshal_slice (append_raw clients js)) (entries settings))) m))))))"

definition in_profile :: "string \<Rightarrow> (assemble_error, 'a) result \<Rightarrow> (assemble_error, 'a) result" where
  "in_profile name r = (case r of Inl e \<Rightarrow> Inl (InProfile name e) | Inr x \<Rightarrow> Inr x)"

definition render_inbound :: "inbound_source \<Rightarrow> (assemble_error, json) result" where
  "render_inbound src =
     in_profile (src_profile_name src)
       (case Render (src_ctx src) (src_template src) of
          Inl e \<Rightarrow> Inl (RenderFailed e)
        | Inr rendered \<Rightarrow>
            (case parse_object rendered of
               None \<Rightarrow> Inl InboundInvalid
             | Some obj \<Rightarrow>
                 bind_result (spliceClients obj (src_clients src)) (\<lambda>m. Inr (marshal_map m))))"

fun render_inbounds :: "inbound_source list \<Rightarrow> (assemble_error, json list) result" where
  "render_inbounds [] = Inr []"
| "render_inbounds (src # srcs) =
     bind_result (render_inbound src) (\<lambda>j. bind_result (render_inbounds srcs) (\<lambda>js. Inr (j # js)))"

section \<open>Blocks, egress landings and exits\<close>

definition field_rule :: "(string \<times> json) list \<Rightarrow> json \<Rightarrow> json" where
  "field_rule conds tag = JObj ((''type'', JStr ''field'') # conds @ [(''outboundTag'', tag)])"

definition block_rules :: "block_source \<Rightarrow> json list" where
  "block_rules b =
     (if bl_emails b = [] then []
      else
        (if bl_cidrs b = [] then []
         else [field_rule [(''ip'', str_array (bl_cidrs b)), (''user'', str_array (bl_emails b))] (JStr BlackholeTag)])
        @ (if bl_domains b = [] then []
           else [field_rule [(''domain'', str_array (map (\<lambda>d. ''domain:'' @ d) (bl_domains b))),
                             (''user'', str_array (bl_emails b))] (JStr BlackholeTag)]))"

definition blackhole :: json where
  "blackhole = JObj [(''protocol'', JStr ''blackhole''), (''tag'', JStr BlackholeTag)]"

text \<open>One landing: the outbounds and the rules it adds; a rule whose tag JSON cannot read is \<^term>\<open>None\<close>.\<close>

definition egress_outbounds :: "egress_source \<Rightarrow> (assemble_error, json list) result" where
  "egress_outbounds e =
     (if eg_outbound e = [] then Inr []
      else if parse_object (eg_outbound e) = None then Inl (OutboundInvalid (eg_tag e))
      else Inr [the (json_parse (eg_outbound e))])"

definition egress_rules :: "egress_source \<Rightarrow> json option list" where
  "egress_rules e =
     (if eg_domains e = [] then []
      else [map_option (field_rule [(''domain'', str_array (eg_domains e))]) (fmt_q (eg_tag e))])
     @ (if eg_ips e = [] then []
        else [map_option (field_rule [(''ip'', str_array (eg_ips e))]) (fmt_q (eg_tag e))])"

definition exit_outbounds :: "exit_source \<Rightarrow> (assemble_error, json list) result" where
  "exit_outbounds e =
     (if parse_object (ex_outbound e) = None then Inl (OutboundInvalid (ex_tag e))
      else Inr [the (json_parse (ex_outbound e))])"

definition exit_rules :: "exit_source \<Rightarrow> json option list" where
  "exit_rules e =
     (if ex_emails e = [] then []
      else [map_option (field_rule [(''user'', str_array (ex_emails e))]) (fmt_q (ex_tag e))])"

fun gather :: "('a \<Rightarrow> (assemble_error, json list) result) \<Rightarrow> 'a list \<Rightarrow> (assemble_error, json list) result" where
  "gather f [] = Inr []"
| "gather f (x # xs) = bind_result (f x) (\<lambda>js. bind_result (gather f xs) (\<lambda>js'. Inr (js @ js')))"

definition spliceBlocksAndExits ::
  "config \<Rightarrow> block_source list \<Rightarrow> exit_source list \<Rightarrow> egress_source list \<Rightarrow> (assemble_error, config) result" where
  "spliceBlocksAndExits cfg blocks exits egress =
     (if exits = [] \<and> blocks = [] \<and> egress = [] then Inr cfg
      else
        (case slice_field ''outbounds'' cfg of
           None \<Rightarrow> Inl (NotArray ''outbounds'')
         | Some outbounds \<Rightarrow>
             (case map_field ''routing'' cfg of
                None \<Rightarrow> Inl (NotObject ''routing'')
              | Some routing \<Rightarrow>
                  (case slice_field ''rules'' (entries routing) of
                     None \<Rightarrow> Inl (NotArray ''routing.rules'')
                   | Some rules \<Rightarrow>
                       (let barred = concat (map block_rules blocks);
                            holes = (if barred = [] then [] else [blackhole])
                        in
                          bind_result (gather egress_outbounds egress) (\<lambda>eobs.
                          bind_result (gather exit_outbounds exits) (\<lambda>xobs.
                          case those (map Some barred @ concat (map egress_rules egress) @ concat (map exit_rules exits)) of
                            None \<Rightarrow> Inl MarshalFailed
                          | Some fresh \<Rightarrow>
                              (let rules' = append_raw (append_raw None fresh) (elems rules);
                                   routing' = obj_set ''rules'' (marshal_slice rules') (entries routing);
                                   outbounds' = append_raw outbounds (holes @ eobs @ xobs)
                               in Inr (obj_set ''outbounds'' (marshal_slice outbounds')
                                        (obj_set ''routing'' (JObj routing') cfg))))))))))"

section \<open>The management API\<close>

definition api_block :: json where
  "api_block = JObj [(''tag'', JStr APIHandlerTag),
     (''services'', str_array [''HandlerService'', ''StatsService'', ''RoutingService''])]"

definition api_inbound :: json where
  "api_inbound = JObj [(''tag'', JStr APIInboundTag), (''listen'', JStr APIListen), (''port'', JNum (show_int APIPort)),
     (''protocol'', JStr ''dokodemo-door''), (''settings'', JObj [(''address'', JStr APIListen)])]"

definition api_rule :: json where
  "api_rule = field_rule [(''inboundTag'', str_array [APIInboundTag])] (JStr APIHandlerTag)"

lemma show_APIPort [simp, code_unfold]: "show_int APIPort = ''10085''"
proof -
  have "digit_char 1 = CHR ''1''" "digit_char 0 = CHR ''0''" "digit_char 8 = CHR ''8''" "digit_char 5 = CHR ''5''"
    by code_simp+
  then show ?thesis by (simp add: APIPort_def show_int_def show_nat.simps)
qed

lemma api_parts_ok [simp]: "json_ok api_block" "json_ok api_inbound" "json_ok api_rule"
  by code_simp+

definition ensureAPIInbound :: "config \<Rightarrow> (assemble_error, config) result" where
  "ensureAPIInbound cfg =
     (case slice_field ''inbounds'' cfg of
        None \<Rightarrow> Inl (NotArray ''inbounds'')
      | Some inbounds \<Rightarrow> Inr (obj_set ''inbounds'' (JArr (api_inbound # elems inbounds)) cfg))"

definition ensureAPIRoute :: "config \<Rightarrow> (assemble_error, config) result" where
  "ensureAPIRoute cfg =
     (case map_field ''routing'' cfg of
        None \<Rightarrow> Inl (NotObject ''routing'')
      | Some routing \<Rightarrow>
          (case slice_field ''rules'' (entries routing) of
             None \<Rightarrow> Inl (NotArray ''routing.rules'')
           | Some rules \<Rightarrow>
               Inr (obj_set ''routing'' (JObj (obj_set ''rules'' (JArr (api_rule # elems rules)) (entries routing))) cfg)))"

definition stats_keys :: "string list" where
  "stats_keys = [''statsUserUplink'', ''statsUserDownlink'', ''statsUserOnline'']"

definition ensureStatsPolicy :: "config \<Rightarrow> (assemble_error, config \<times> bool) result" where
  "ensureStatsPolicy cfg =
     (case map_field ''policy'' cfg of
        None \<Rightarrow> Inl (NotObject ''policy'')
      | Some policy \<Rightarrow>
          (case map_field ''levels'' (entries policy) of
             None \<Rightarrow> Inl (NotObject ''policy.levels'')
           | Some levels \<Rightarrow>
               (case map_field ''0'' (entries levels) of
                  None \<Rightarrow> Inl (NotObject ''policy.levels.0'')
                | Some level0 \<Rightarrow>
                    (let missing = filter (\<lambda>k. map_of (entries level0) k = None) stats_keys;
                         level0' = foldl (\<lambda>m k. obj_set k (JBool True) m) (entries level0) missing
                     in if missing = [] then Inr (cfg, False)
                        else Inr (obj_set ''policy''
                                    (JObj (obj_set ''levels'' (JObj (obj_set ''0'' (JObj level0') (entries levels)))
                                       (entries policy))) cfg, True)))))"

definition inject_api :: "config \<Rightarrow> (assemble_error, config \<times> bool) result" where
  "inject_api cfg =
     (if map_of cfg ''api'' = None
      then bind_result (ensureAPIInbound (obj_set ''api'' api_block cfg)) (\<lambda>c.
           bind_result (ensureAPIRoute c) (\<lambda>c. Inr (c, True)))
      else Inr (cfg, False))"

definition EnsureAPI :: "config \<Rightarrow> (assemble_error, config \<times> bool) result" where
  "EnsureAPI cfg =
     bind_result (inject_api cfg)
       (\<lambda>(c, changed).
          let c' = (if map_of c ''stats'' = None then obj_set ''stats'' (JObj []) c else c);
              changed' = (changed \<or> map_of c ''stats'' = None)
          in bind_result (ensureStatsPolicy c') (\<lambda>(c, stats_changed). Inr (c, changed' \<or> stats_changed)))"

section \<open>Rule targets\<close>

definition dec_tags :: "json \<Rightarrow> string list option" where
  "dec_tags = dec_slice (str_field ''tag'') [] []"

definition dec_rule_tags :: "json \<Rightarrow> string list option" where
  "dec_rule_tags =
     dec_struct (\<lambda>k v ts. if k = ''rules'' then dec_slice (str_field ''outboundtag'') [] ts v else Some ts) []"

definition checkRuleTargets :: "config \<Rightarrow> assemble_error option" where
  "checkRuleTargets cfg =
     (case (case map_of cfg ''outbounds'' of None \<Rightarrow> Some [] | Some j \<Rightarrow> dec_tags j) of
        None \<Rightarrow> None
      | Some tags \<Rightarrow>
          (case (case map_of cfg ''routing'' of None \<Rightarrow> Some [] | Some j \<Rightarrow> dec_rule_tags j) of
             None \<Rightarrow> None
           | Some targets \<Rightarrow>
               (let api = (case map_of cfg ''api'' of
                             None \<Rightarrow> []
                           | Some j \<Rightarrow> (case str_field ''tag'' [] j of None \<Rightarrow> [] | Some t \<Rightarrow> if t = [] then [] else [t]))
                in map_option NoSuchOutbound (find (\<lambda>t. t \<noteq> [] \<and> t \<notin> set (tags @ api)) targets))))"

section \<open>Assembly\<close>

definition assemble_config ::
  "string \<Rightarrow> inbound_source list \<Rightarrow> exit_source list \<Rightarrow> block_source list \<Rightarrow> egress_source list \<Rightarrow>
   (assemble_error, config) result" where
  "assemble_config skeleton sources exits blocks egress =
     (case parse_object (if skeleton = [] then DefaultSkeleton else skeleton) of
        None \<Rightarrow> Inl SkeletonInvalid
      | Some None \<Rightarrow> Inl SkeletonNull
      | Some (Some cfg) \<Rightarrow>
          (case slice_field ''inbounds'' cfg of
             None \<Rightarrow> Inl (NotArray ''inbounds'')
           | Some inbounds \<Rightarrow>
               bind_result (render_inbounds sources) (\<lambda>rendered.
               bind_result (spliceBlocksAndExits
                   (obj_set ''inbounds'' (marshal_slice (append_raw inbounds rendered)) cfg) blocks exits egress) (\<lambda>cfg.
               bind_result (EnsureAPI cfg) (\<lambda>(cfg, _).
               case checkRuleTargets cfg of
                 Some e \<Rightarrow> Inl e
               | None \<Rightarrow> Inr cfg)))))"

definition AssembleNodeWithEgress ::
  "string \<Rightarrow> inbound_source list \<Rightarrow> exit_source list \<Rightarrow> block_source list \<Rightarrow> egress_source list \<Rightarrow>
   (assemble_error, string) result" where
  "AssembleNodeWithEgress skeleton sources exits blocks egress =
     bind_result (assemble_config skeleton sources exits blocks egress) (\<lambda>cfg. Inr (json_pretty 0 (JObj cfg)))"

definition AssembleNodeFull ::
  "string \<Rightarrow> inbound_source list \<Rightarrow> exit_source list \<Rightarrow> block_source list \<Rightarrow> (assemble_error, string) result" where
  "AssembleNodeFull skeleton sources exits blocks = AssembleNodeWithEgress skeleton sources exits blocks []"

definition AssembleNodeWithExits ::
  "string \<Rightarrow> inbound_source list \<Rightarrow> exit_source list \<Rightarrow> (assemble_error, string) result" where
  "AssembleNodeWithExits skeleton sources exits = AssembleNodeFull skeleton sources exits []"

definition AssembleNode :: "string \<Rightarrow> inbound_source list \<Rightarrow> (assemble_error, string) result" where
  "AssembleNode skeleton sources = AssembleNodeFull skeleton sources [] []"

section \<open>Replacing the blocks of a stored configuration\<close>

definition goes_nowhere :: "string \<Rightarrow> json \<Rightarrow> bool" where
  "goes_nowhere name j \<longleftrightarrow> str_field name [] j = Some BlackholeTag"

definition strip_block_rules :: "config \<Rightarrow> (assemble_error, config) result" where
  "strip_block_rules cfg =
     (case map_field ''routing'' cfg of
        None \<Rightarrow> Inl (NotObject ''routing'')
      | Some None \<Rightarrow> Inr cfg
      | Some (Some routing) \<Rightarrow>
          (case slice_field ''rules'' routing of
             None \<Rightarrow> Inl (NotArray ''routing.rules'')
           | Some rules \<Rightarrow>
               (let kept = map_option (filter (\<lambda>r. \<not> goes_nowhere ''outboundtag'' r)) rules
                in Inr (obj_set ''routing'' (JObj (obj_set ''rules'' (marshal_slice kept) routing)) cfg))))"

definition ReplaceBlocks :: "string \<Rightarrow> block_source list \<Rightarrow> (assemble_error, string) result" where
  "ReplaceBlocks configJSON blocks =
     (case parse_object configJSON of
        None \<Rightarrow> Inl ConfigInvalid
      | Some obj \<Rightarrow>
          (case slice_field ''outbounds'' (entries obj) of
             None \<Rightarrow> Inl (NotArray ''outbounds'')
           | Some outbounds \<Rightarrow>
               (case obj of
                  None \<Rightarrow> Inl NilMapPanic
                | Some cfg \<Rightarrow>
                    (let kept = map_option (filter (\<lambda>j. \<not> goes_nowhere ''tag'' j)) outbounds
                     in bind_result (strip_block_rules (obj_set ''outbounds'' (marshal_slice kept) cfg)) (\<lambda>cfg.
                        bind_result (spliceBlocksAndExits cfg blocks [] []) (\<lambda>cfg.
                        Inr (json_pretty 0 (JObj cfg))))))))"

section \<open>Reading a configuration\<close>

definition InboundTags :: "string \<Rightarrow> string list option" where
  "InboundTags configJSON =
     (case json_parse configJSON of
        None \<Rightarrow> None
      | Some j \<Rightarrow>
          dec_struct (\<lambda>k v ts. if k = ''inbounds'' then dec_slice (str_field ''tag'') [] ts v else Some ts) [] j)"

record inbound_view =
  iv_tag :: string
  iv_listen :: string
  iv_port :: int
  iv_protocol :: string

record rule_view =
  rv_inbound_tag :: "string list"
  rv_outbound_tag :: string

record api_view =
  av_api_tag :: string
  av_inbounds :: "inbound_view list"
  av_rules :: "rule_view list"

definition no_inbound :: inbound_view where
  "no_inbound = \<lparr>iv_tag = [], iv_listen = [], iv_port = 0, iv_protocol = []\<rparr>"

definition no_rule :: rule_view where
  "no_rule = \<lparr>rv_inbound_tag = [], rv_outbound_tag = []\<rparr>"

text \<open>The anonymous structs of \<open>APIAddress\<close> and \<open>apiAddressOf\<close>; the agent's has no \<open>protocol\<close>.\<close>

definition dec_inbound :: "bool \<Rightarrow> inbound_view \<Rightarrow> json \<Rightarrow> inbound_view option" where
  "dec_inbound with_protocol = dec_struct (\<lambda>k v x.
     if k = ''tag'' then map_option (\<lambda>s. x\<lparr>iv_tag := s\<rparr>) (dec_str (iv_tag x) v)
     else if k = ''listen'' then map_option (\<lambda>s. x\<lparr>iv_listen := s\<rparr>) (dec_str (iv_listen x) v)
     else if k = ''port'' then map_option (\<lambda>n. x\<lparr>iv_port := n\<rparr>) (dec_int (iv_port x) v)
     else if with_protocol \<and> k = ''protocol'' then map_option (\<lambda>s. x\<lparr>iv_protocol := s\<rparr>) (dec_str (iv_protocol x) v)
     else Some x)"

definition dec_rule :: "rule_view \<Rightarrow> json \<Rightarrow> rule_view option" where
  "dec_rule = dec_struct (\<lambda>k v x.
     if k = ''inboundtag'' then map_option (\<lambda>ts. x\<lparr>rv_inbound_tag := ts\<rparr>) (dec_slice dec_str [] (rv_inbound_tag x) v)
     else if k = ''outboundtag'' then map_option (\<lambda>s. x\<lparr>rv_outbound_tag := s\<rparr>) (dec_str (rv_outbound_tag x) v)
     else Some x)"

definition dec_routing :: "rule_view list \<Rightarrow> json \<Rightarrow> rule_view list option" where
  "dec_routing = dec_struct (\<lambda>k v x. if k = ''rules'' then dec_slice dec_rule no_rule x v else Some x)"

definition dec_view :: "bool \<Rightarrow> api_view \<Rightarrow> json \<Rightarrow> api_view option" where
  "dec_view with_protocol = dec_struct (\<lambda>k v x.
     if k = ''api'' then map_option (\<lambda>s. x\<lparr>av_api_tag := s\<rparr>) (str_field ''tag'' (av_api_tag x) v)
     else if k = ''inbounds'' then
       map_option (\<lambda>is. x\<lparr>av_inbounds := is\<rparr>) (dec_slice (dec_inbound with_protocol) no_inbound (av_inbounds x) v)
     else if k = ''routing'' then map_option (\<lambda>rs. x\<lparr>av_rules := rs\<rparr>) (dec_routing (av_rules x) v)
     else Some x)"

definition no_view :: api_view where
  "no_view = \<lparr>av_api_tag = [], av_inbounds = [], av_rules = []\<rparr>"

definition loopback_host :: "string \<Rightarrow> string" where
  "loopback_host host = (if host = [] \<or> host = ''0.0.0.0'' then ''127.0.0.1'' else host)"

definition address_in :: "api_view \<Rightarrow> string" where
  "address_in cfg =
     (if av_api_tag cfg = [] then []
      else
        (let tags = concat (map rv_inbound_tag (filter (\<lambda>r. rv_outbound_tag r = av_api_tag cfg) (av_rules cfg)))
         in case find (\<lambda>i. iv_tag i \<in> set tags \<and> iv_port i \<noteq> 0) (av_inbounds cfg) of
              None \<Rightarrow> []
            | Some i \<Rightarrow> loopback_host (iv_listen i) @ '':'' @ show_int (iv_port i)))"

definition address_by :: "bool \<Rightarrow> string \<Rightarrow> string" where
  "address_by with_protocol configJSON =
     (case json_parse configJSON of
        None \<Rightarrow> []
      | Some j \<Rightarrow>
          (case dec_view with_protocol no_view j of
             None \<Rightarrow> []
           | Some cfg \<Rightarrow> address_in cfg))"

definition APIAddress :: "string \<Rightarrow> string" where
  "APIAddress = address_by True"

definition apiAddressOf :: "string \<Rightarrow> string" where
  "apiAddressOf = address_by False"

section \<open>The parts of a configuration\<close>

definition slice_part :: "string \<Rightarrow> config \<Rightarrow> json list" where
  "slice_part k cfg = (case slice_field k cfg of None \<Rightarrow> [] | Some s \<Rightarrow> elems s)"

definition routing_rules :: "config \<Rightarrow> json list" where
  "routing_rules cfg = (case map_field ''routing'' cfg of None \<Rightarrow> [] | Some r \<Rightarrow> slice_part ''rules'' (entries r))"

definition read_config :: "string \<Rightarrow> config" where
  "read_config text = (case parse_object text of Some (Some m) \<Rightarrow> m | _ \<Rightarrow> [])"

definition config_ok :: "config \<Rightarrow> bool" where
  "config_ok cfg \<longleftrightarrow> key_sorted cfg \<and> list_all (\<lambda>e. json_ok (snd e)) cfg"

lemma config_ok_set [simp]: "config_ok cfg \<Longrightarrow> json_ok v \<Longrightarrow> config_ok (obj_set k v cfg)"
  by (simp add: config_ok_def)

lemma read_config_pretty [simp]: "config_ok cfg \<Longrightarrow> read_config (json_pretty 0 (JObj cfg)) = cfg"
  by (simp add: read_config_def parse_object_def config_ok_def go_map_id del: json_show.simps)

lemma parse_object_ok: "parse_object s = Some (Some cfg) \<Longrightarrow> config_ok cfg"
  using unmarshal_map_sorted [of _ "Some cfg"] unmarshal_map_ok [of _ "Some cfg"] parse_ok [of s]
  by (auto simp: parse_object_def config_ok_def split: option.splits)

lemma slice_part_set [simp]:
  "slice_part k (obj_set k' v cfg) =
     (if k' = k then (case unmarshal_slice v of None \<Rightarrow> [] | Some s \<Rightarrow> elems s) else slice_part k cfg)"
  by (simp add: slice_part_def)

lemma routing_rules_other [simp]: "k \<noteq> ''routing'' \<Longrightarrow> routing_rules (obj_set k v cfg) = routing_rules cfg"
  by (simp add: routing_rules_def)

lemma routing_rules_set:
  "key_sorted r \<Longrightarrow> routing_rules (obj_set ''routing'' (JObj r) cfg) = slice_part ''rules'' r"
  by (simp add: routing_rules_def go_map_id)

definition fresh_rules :: "block_source list \<Rightarrow> egress_source list \<Rightarrow> exit_source list \<Rightarrow> json option list" where
  "fresh_rules blocks egress exits =
     map Some (concat (map block_rules blocks)) @ concat (map egress_rules egress) @ concat (map exit_rules exits)"

lemma those_Some_map: "those (map Some xs @ ys) = map_option ((@) xs) (those ys)"
  by (induction xs) (auto simp: option.map_comp comp_def option.map_ident)

lemma those_in: "those xs = Some ys \<Longrightarrow> y \<in> set ys \<longleftrightarrow> Some y \<in> set xs"
  by (induction xs arbitrary: ys) (auto split: option.splits)

lemma field_rule_ok [simp]: "json_ok (field_rule conds tag) \<longleftrightarrow> list_all (\<lambda>e. json_ok (snd e)) conds \<and> json_ok tag"
  by (auto simp: field_rule_def)

lemma block_rules_ok: "list_all json_ok (block_rules b)"
  by (simp add: block_rules_def)

lemma fmt_q_Some: "fmt_q s = Some j \<longleftrightarrow> json_quotable s \<and> j = JStr s"
  by (auto simp: fmt_q_def)

lemma egress_rules_ok: "Some j \<in> set (egress_rules e) \<Longrightarrow> json_ok j"
  by (auto simp: egress_rules_def fmt_q_def split: if_splits)

lemma exit_rules_ok: "Some j \<in> set (exit_rules e) \<Longrightarrow> json_ok j"
  by (auto simp: exit_rules_def fmt_q_def split: if_splits)

lemma fresh_rules_ok: "those (fresh_rules blocks egress exits) = Some fresh \<Longrightarrow> list_all json_ok fresh"
  using block_rules_ok egress_rules_ok exit_rules_ok
  by (auto simp: list_all_iff those_in fresh_rules_def)

lemma gather_ok:
  assumes "\<And>x js. f x = Inr js \<Longrightarrow> list_all json_ok js"
  shows "gather f xs = Inr js \<Longrightarrow> list_all json_ok js"
  using assms by (induction xs arbitrary: js) (auto simp: bind_result_eq_Inr)

lemma parse_object_parses: "parse_object s \<noteq> None \<Longrightarrow> json_ok (the (json_parse s))"
  by (auto simp: parse_object_def parse_ok split: option.splits)

lemma outbounds_ok:
  "gather egress_outbounds egress = Inr eobs \<Longrightarrow> list_all json_ok eobs"
  "gather exit_outbounds exits = Inr xobs \<Longrightarrow> list_all json_ok xobs"
  by (erule gather_ok [rotated], auto simp: egress_outbounds_def exit_outbounds_def parse_object_parses split: if_splits)+

lemma blackhole_ok [simp]: "json_ok blackhole"
  by (simp add: blackhole_def)

lemma config_ok_slice: "config_ok cfg \<Longrightarrow> slice_field k cfg = Some s \<Longrightarrow> list_all json_ok (elems s)"
  by (auto simp: config_ok_def intro: slice_field_ok)

lemma config_ok_map: "config_ok cfg \<Longrightarrow> map_field k cfg = Some m \<Longrightarrow> config_ok (entries m)"
  by (auto simp: config_ok_def intro: map_field_ok map_field_sorted)

lemma config_ok_JObj [simp]: "config_ok m \<Longrightarrow> json_ok (JObj m)"
  by (simp add: config_ok_def)

lemma spliceE:
  assumes "spliceBlocksAndExits cfg blocks exits egress = Inr cfg'" and "config_ok cfg"
  obtains fresh eobs xobs where
    "those (fresh_rules blocks egress exits) = Some fresh"
    "gather egress_outbounds egress = Inr eobs" "gather exit_outbounds exits = Inr xobs"
    "routing_rules cfg' = fresh @ routing_rules cfg"
    "slice_part ''outbounds'' cfg' = slice_part ''outbounds'' cfg @
       (if concat (map block_rules blocks) = [] then [] else [blackhole]) @ eobs @ xobs"
    "\<forall>k. k \<noteq> ''routing'' \<longrightarrow> k \<noteq> ''outbounds'' \<longrightarrow> map_of cfg' k = map_of cfg k"
    "config_ok cfg'"
proof (cases "exits = [] \<and> blocks = [] \<and> egress = []")
  case True
  then have "cfg' = cfg" "fresh_rules blocks egress exits = []"
    using assms(1) by (simp_all add: spliceBlocksAndExits_def fresh_rules_def)
  then show ?thesis using that [of "[]" "[]" "[]"] True assms(2) by simp
next
  case False
  note unfolded = assms(1) [unfolded spliceBlocksAndExits_def if_not_P [OF False] Let_def]
  from unfolded obtain outbounds where o: "slice_field ''outbounds'' cfg = Some outbounds"
    by (cases "slice_field ''outbounds'' cfg") simp_all
  with unfolded obtain routing where r: "map_field ''routing'' cfg = Some routing"
    by (cases "map_field ''routing'' cfg") simp_all
  with unfolded o obtain rules where ru: "slice_field ''rules'' (entries routing) = Some rules"
    by (cases "slice_field ''rules'' (entries routing)") simp_all
  note fields = o r ru
  from unfolded fields obtain eobs where e: "gather egress_outbounds egress = Inr eobs"
    by (cases "gather egress_outbounds egress") simp_all
  with unfolded fields obtain xobs where x: "gather exit_outbounds exits = Inr xobs"
    by (cases "gather exit_outbounds exits") simp_all
  with unfolded fields e obtain fresh where f: "those (fresh_rules blocks egress exits) = Some fresh"
    unfolding fresh_rules_def
    by (cases "those (map Some (concat (map block_rules blocks)) @ concat (map egress_rules egress) @ concat (map exit_rules exits))")
      simp_all
  note new = e x f
  have cfg': "cfg' =
      obj_set ''outbounds'' (marshal_slice (append_raw outbounds
          ((if concat (map block_rules blocks) = [] then [] else [blackhole]) @ eobs @ xobs)))
        (obj_set ''routing'' (JObj (obj_set ''rules''
          (marshal_slice (append_raw (append_raw None fresh) (elems rules))) (entries routing))) cfg)"
    using unfolded new(3) unfolding fresh_rules_def by (simp add: fields e x)
  have s: "key_sorted (entries routing)" using fields(2) by (rule map_field_sorted)
  have "routing_rules cfg' = fresh @ routing_rules cfg"
    using fields by (simp add: cfg' routing_rules_set s) (simp add: routing_rules_def slice_part_def)
  moreover have "slice_part ''outbounds'' cfg' = slice_part ''outbounds'' cfg @
       (if concat (map block_rules blocks) = [] then [] else [blackhole]) @ eobs @ xobs"
    using fields(1) by (simp add: cfg') (simp add: slice_part_def)
  moreover have "map_of cfg' k = map_of cfg k" if "k \<noteq> ''routing''" "k \<noteq> ''outbounds''" for k
    using that by (simp add: cfg')
  moreover have "config_ok cfg'"
    using config_ok_slice [OF assms(2) o] config_ok_map [OF assms(2) r] config_ok_slice [OF config_ok_map [OF assms(2) r] ru]
      fresh_rules_ok [OF f] outbounds_ok(1) [OF e] outbounds_ok(2) [OF x] assms(2)
    by (auto simp: cfg' simp del: json_ok.simps)
  ultimately show ?thesis using that [OF f e x] by simp
qed

subsection \<open>The injected API\<close>

lemma ensureAPIInboundE:
  assumes "ensureAPIInbound cfg = Inr cfg'" and "config_ok cfg"
  shows "config_ok cfg'" "slice_part ''inbounds'' cfg' = api_inbound # slice_part ''inbounds'' cfg"
    "\<And>k. k \<noteq> ''inbounds'' \<Longrightarrow> map_of cfg' k = map_of cfg k"
proof -
  obtain s where s: "slice_field ''inbounds'' cfg = Some s"
    using assms(1) by (cases "slice_field ''inbounds'' cfg") (simp_all add: ensureAPIInbound_def)
  then have c: "cfg' = obj_set ''inbounds'' (JArr (api_inbound # elems s)) cfg"
    using assms(1) by (simp add: ensureAPIInbound_def)
  show "config_ok cfg'" using assms(2) config_ok_slice [OF assms(2) s] by (simp add: c)
  show "slice_part ''inbounds'' cfg' = api_inbound # slice_part ''inbounds'' cfg"
    using s by (simp add: c) (simp add: slice_part_def)
  show "\<And>k. k \<noteq> ''inbounds'' \<Longrightarrow> map_of cfg' k = map_of cfg k" by (simp add: c)
qed

text \<open>The routing part has been written by this package: its members are in order.\<close>

definition sorted_routing :: "config \<Rightarrow> bool" where
  "sorted_routing cfg \<longleftrightarrow> (\<exists>r. map_of cfg ''routing'' = Some (JObj r) \<and> key_sorted r)"

lemma ensureAPIRouteE:
  assumes "ensureAPIRoute cfg = Inr cfg'" and "config_ok cfg"
  shows "config_ok cfg'" "routing_rules cfg' = api_rule # routing_rules cfg"
    "\<And>k. k \<noteq> ''routing'' \<Longrightarrow> map_of cfg' k = map_of cfg k" "sorted_routing cfg'"
proof -
  obtain r where r: "map_field ''routing'' cfg = Some r"
    using assms(1) by (cases "map_field ''routing'' cfg") (simp_all add: ensureAPIRoute_def)
  obtain s where s: "slice_field ''rules'' (entries r) = Some s"
    using assms(1) r by (cases "slice_field ''rules'' (entries r)") (simp_all add: ensureAPIRoute_def)
  from assms(1) r s have c: "cfg' =
      obj_set ''routing'' (JObj (obj_set ''rules'' (JArr (api_rule # elems s)) (entries r))) cfg"
    by (simp add: ensureAPIRoute_def)
  have ok: "config_ok (entries r)" by (rule config_ok_map [OF assms(2) r])
  show "config_ok cfg'"
    using assms(2) ok config_ok_slice [OF ok s] by (simp add: c del: json_ok.simps(3))
  show "routing_rules cfg' = api_rule # routing_rules cfg"
    using r s map_field_sorted [OF r] by (simp add: c routing_rules_set) (simp add: routing_rules_def slice_part_def)
  show "\<And>k. k \<noteq> ''routing'' \<Longrightarrow> map_of cfg' k = map_of cfg k" by (simp add: c)
  show "sorted_routing cfg'" using ok by (simp add: c sorted_routing_def config_ok_def)
qed

lemma foldl_obj_set_ok:
  "config_ok m \<Longrightarrow> config_ok (foldl (\<lambda>m k. obj_set k (JBool True) m) m ks)"
  by (induction ks arbitrary: m) auto

lemma ensureStatsPolicyE:
  assumes "ensureStatsPolicy cfg = Inr (cfg', ch)" and "config_ok cfg"
  shows "config_ok cfg'" "\<And>k. k \<noteq> ''policy'' \<Longrightarrow> map_of cfg' k = map_of cfg k"
proof -
  note un = assms(1) [unfolded ensureStatsPolicy_def Let_def]
  from un obtain p where p: "map_field ''policy'' cfg = Some p"
    by (cases "map_field ''policy'' cfg") simp_all
  with un obtain l where l: "map_field ''levels'' (entries p) = Some l"
    by (cases "map_field ''levels'' (entries p)") simp_all
  with un p obtain z where z: "map_field ''0'' (entries l) = Some z"
    by (cases "map_field ''0'' (entries l)") simp_all
  have ok: "config_ok (entries p)" "config_ok (entries l)" "config_ok (entries z)"
    using config_ok_map [OF assms(2) p] config_ok_map [of "entries p" "''levels''" l]
      config_ok_map [of "entries l" "''0''" z] l z by blast+
  let ?m = "filter (\<lambda>k. map_of (entries z) k = None) stats_keys"
  have "cfg' = cfg \<or> cfg' = obj_set ''policy'' (JObj (obj_set ''levels'' (JObj (obj_set ''0''
      (JObj (foldl (\<lambda>m k. obj_set k (JBool True) m) (entries z) ?m)) (entries l))) (entries p))) cfg"
    using un by (simp add: p l z split: if_splits)
  then show "config_ok cfg'" "\<And>k. k \<noteq> ''policy'' \<Longrightarrow> map_of cfg' k = map_of cfg k"
    using assms(2) ok foldl_obj_set_ok [OF ok(3)] by (auto simp del: json_ok.simps)
qed

lemma slice_part_cong: "map_of cfg' k = map_of cfg k \<Longrightarrow> slice_part k cfg' = slice_part k cfg"
  by (simp add: slice_part_def slice_field_def)

lemma routing_rules_cong: "map_of cfg' ''routing'' = map_of cfg ''routing'' \<Longrightarrow> routing_rules cfg' = routing_rules cfg"
  by (simp add: routing_rules_def map_field_def)

abbreviation own_api :: "config \<Rightarrow> bool" where
  "own_api cfg \<equiv> map_of cfg ''api'' \<noteq> None"

text \<open>The members assembly writes; every other member of a skeleton is the operator's.\<close>

definition managed_keys :: "string list" where
  "managed_keys = [''api'', ''inbounds'', ''outbounds'', ''policy'', ''routing'', ''stats'']"

lemma inject_apiE:
  assumes "inject_api cfg = Inr (c1, ch)" and "config_ok cfg"
  shows "config_ok c1 \<and> routing_rules c1 = (if own_api cfg then [] else [api_rule]) @ routing_rules cfg
    \<and> slice_part ''inbounds'' c1 = (if own_api cfg then [] else [api_inbound]) @ slice_part ''inbounds'' cfg
    \<and> (\<forall>k. k \<noteq> ''api'' \<longrightarrow> k \<noteq> ''inbounds'' \<longrightarrow> k \<noteq> ''routing'' \<longrightarrow> map_of c1 k = map_of cfg k)
    \<and> map_of c1 ''api'' = (if own_api cfg then map_of cfg ''api'' else Some api_block)
    \<and> (own_api cfg \<or> sorted_routing c1)"
proof (cases "own_api cfg")
  case True
  then show ?thesis using assms by (auto simp: inject_api_def)
next
  case False
  let ?c = "obj_set ''api'' api_block cfg"
  from False assms(1) obtain c where c: "ensureAPIInbound ?c = Inr c" "ensureAPIRoute c = Inr c1"
    by (auto simp: inject_api_def bind_result_eq_Inr)
  have ok: "config_ok ?c" using assms(2) by simp
  note i = ensureAPIInboundE [OF c(1) ok]
  note r = ensureAPIRouteE [OF c(2) i(1)]
  have "routing_rules c1 = api_rule # routing_rules cfg"
    using r(2) routing_rules_cong [OF i(3) [of "''routing''"]] by simp
  moreover have "slice_part ''inbounds'' c1 = api_inbound # slice_part ''inbounds'' cfg"
    using i(2) slice_part_cong [OF r(3) [of "''inbounds''"]] by simp
  ultimately show ?thesis using False r(1,3,4) i(3) by simp
qed

lemma EnsureAPIE:
  assumes "EnsureAPI cfg = Inr (cfg', ch)" and "config_ok cfg"
  shows "config_ok cfg'" "routing_rules cfg' = (if own_api cfg then [] else [api_rule]) @ routing_rules cfg"
    "slice_part ''inbounds'' cfg' = (if own_api cfg then [] else [api_inbound]) @ slice_part ''inbounds'' cfg"
    "slice_part ''outbounds'' cfg' = slice_part ''outbounds'' cfg"
    "\<And>k. k \<notin> set managed_keys \<Longrightarrow> map_of cfg' k = map_of cfg k"
    "map_of cfg' ''api'' = (if own_api cfg then map_of cfg ''api'' else Some api_block)"
    "own_api cfg \<or> sorted_routing cfg'"
proof -
  let ?s = "\<lambda>c. if map_of c ''stats'' = None then obj_set ''stats'' (JObj []) c else c"
  from assms(1) obtain c1 ch1 b where
    c1: "inject_api cfg = Inr (c1, ch1)" and p: "ensureStatsPolicy (?s c1) = Inr (cfg', b)"
    unfolding EnsureAPI_def Let_def by (auto simp: bind_result_eq_Inr)
  note a = inject_apiE [OF c1 assms(2)]
  have ok: "config_ok (?s c1)" using a by (simp add: config_ok_def)
  have s: "map_of cfg' k = map_of c1 k" if "k \<noteq> ''policy''" "k \<noteq> ''stats''" for k
    using ensureStatsPolicyE(2) [OF p ok that(1)] that by auto
  show "config_ok cfg'" by (rule ensureStatsPolicyE(1) [OF p ok])
  show "routing_rules cfg' = (if own_api cfg then [] else [api_rule]) @ routing_rules cfg"
    using a routing_rules_cong [OF s [of "''routing''"]] by simp
  show "slice_part ''inbounds'' cfg' = (if own_api cfg then [] else [api_inbound]) @ slice_part ''inbounds'' cfg"
    using a slice_part_cong [OF s [of "''inbounds''"]] by simp
  show "slice_part ''outbounds'' cfg' = slice_part ''outbounds'' cfg"
    using a slice_part_cong [of cfg' "''outbounds''" cfg] s [of "''outbounds''"] by simp
  show "map_of cfg' k = map_of cfg k" if "k \<notin> set managed_keys" for k
    using a s [of k] that by (simp add: managed_keys_def)
  show "map_of cfg' ''api'' = (if own_api cfg then map_of cfg ''api'' else Some api_block)"
    using a s [of "''api''"] by simp
  show "own_api cfg \<or> sorted_routing cfg'"
    using a s [of "''routing''"] by (simp add: sorted_routing_def)
qed

subsection \<open>The assembled configuration\<close>

definition skeleton_config :: "string \<Rightarrow> config" where
  "skeleton_config skeleton = read_config (if skeleton = [] then DefaultSkeleton else skeleton)"

text \<open>What a successful assembly consists of.\<close>

definition assembled ::
  "string \<Rightarrow> inbound_source list \<Rightarrow> exit_source list \<Rightarrow> block_source list \<Rightarrow> egress_source list \<Rightarrow>
   json list \<Rightarrow> json list \<Rightarrow> json list \<Rightarrow> json list \<Rightarrow> config \<Rightarrow> bool" where
  "assembled skeleton sources exits blocks egress rendered fresh eobs xobs cfg \<longleftrightarrow>
     (let sk = skeleton_config skeleton in
      render_inbounds sources = Inr rendered
      \<and> those (fresh_rules blocks egress exits) = Some fresh
      \<and> gather egress_outbounds egress = Inr eobs \<and> gather exit_outbounds exits = Inr xobs
      \<and> config_ok cfg
      \<and> routing_rules cfg = (if own_api sk then [] else [api_rule]) @ fresh @ routing_rules sk
      \<and> slice_part ''inbounds'' cfg = (if own_api sk then [] else [api_inbound]) @ slice_part ''inbounds'' sk @ rendered
      \<and> slice_part ''outbounds'' cfg = slice_part ''outbounds'' sk
          @ (if concat (map block_rules blocks) = [] then [] else [blackhole]) @ eobs @ xobs
      \<and> (\<forall>k. k \<notin> set managed_keys \<longrightarrow> map_of cfg k = map_of sk k)
      \<and> map_of cfg ''api'' = (if own_api sk then map_of sk ''api'' else Some api_block)
      \<and> (own_api sk \<or> sorted_routing cfg)
      \<and> checkRuleTargets cfg = None)"

lemma config_ok_Nil [simp]: "config_ok []"
  by (simp add: config_ok_def)

lemma parse_object_entries_ok: "parse_object s = Some m \<Longrightarrow> config_ok (entries m)"
  by (cases m) (auto dest: parse_object_ok)

lemma marshal_map_ok: "config_ok (entries m) \<Longrightarrow> json_ok (marshal_map m)"
  by (cases m) (auto simp: config_ok_def)

lemma client_objects_ok: "client_objects es = Inr js \<Longrightarrow> list_all json_ok js"
proof (induction es arbitrary: js)
  case (Cons e es)
  then obtain obj js' where obj: "parse_object e = Some obj" "client_objects es = Inr js'" "js = marshal_map obj # js'"
    by (auto simp: bind_result_eq_Inr split: option.splits)
  have "json_ok (marshal_map obj)" by (rule marshal_map_ok [OF parse_object_entries_ok [OF obj(1)]])
  then show ?case using Cons.IH [OF obj(2)] by (simp add: obj(3))
qed simp

lemma spliceClientsE:
  assumes "spliceClients inbound es = Inr m"
  obtains "es = []" "m = inbound"
  | kvs settings clients js where "inbound = Some kvs" "map_field ''settings'' kvs = Some settings"
      "slice_field ''clients'' (entries settings) = Some clients" "client_objects es = Inr js"
      "m = Some (obj_set ''settings''
             (JObj (obj_set ''clients'' (marshal_slice (append_raw clients js)) (entries settings))) kvs)"
proof (cases "es = []")
  case False
  note un = assms [unfolded spliceClients_def if_not_P [OF False]]
  from un obtain settings where s: "map_field ''settings'' (entries inbound) = Some settings"
    by (cases "map_field ''settings'' (entries inbound)") simp_all
  with un obtain clients where c: "slice_field ''clients'' (entries settings) = Some clients"
    by (cases "slice_field ''clients'' (entries settings)") simp_all
  with un s obtain js where j: "client_objects es = Inr js"
    by (cases "client_objects es") simp_all
  with un s c obtain kvs where "inbound = Some kvs" by (cases inbound) simp_all
  then show ?thesis using that(2) un s c j by simp
qed (use assms that(1) in \<open>simp add: spliceClients_def\<close>)

lemma spliceClients_ok:
  assumes "spliceClients inbound es = Inr m" and "config_ok (entries inbound)"
  shows "config_ok (entries m)"
  using assms(1)
proof (cases rule: spliceClientsE)
  case (2 kvs settings clients js)
  have ok: "config_ok (entries settings)" using config_ok_map [OF assms(2)] 2 by simp
  show ?thesis
    using 2 ok assms(2) config_ok_slice [OF ok 2(3)] client_objects_ok [OF 2(4)] by (simp del: json_ok.simps(3))
qed (use assms in simp)

lemma render_inbound_ok: "render_inbound src = Inr j \<Longrightarrow> json_ok j"
  by (auto simp: render_inbound_def in_profile_def bind_result_eq_Inr split: sum.splits option.splits
      intro!: marshal_map_ok dest!: parse_object_entries_ok dest: spliceClients_ok)

lemma render_inbounds_ok: "render_inbounds srcs = Inr js \<Longrightarrow> list_all json_ok js"
  by (induction srcs arbitrary: js) (auto simp: bind_result_eq_Inr render_inbound_ok)

lemma assembledI:
  assumes "AssembleNodeWithEgress skeleton sources exits blocks egress = Inr out"
  obtains rendered fresh eobs xobs where
    "assembled skeleton sources exits blocks egress rendered fresh eobs xobs (read_config out)"
    "out = json_pretty 0 (JObj (read_config out))" "assemble_config skeleton sources exits blocks egress = Inr (read_config out)"
proof -
  let ?text = "if skeleton = [] then DefaultSkeleton else skeleton"
  from assms obtain cfg where un': "assemble_config skeleton sources exits blocks egress = Inr cfg"
    and out: "out = json_pretty 0 (JObj cfg)"
    by (auto simp: AssembleNodeWithEgress_def bind_result_eq_Inr simp del: json_show.simps)
  note un = un' [unfolded assemble_config_def]
  from un obtain sk where sk: "parse_object ?text = Some (Some sk)"
    by (cases "parse_object ?text"; cases "the (parse_object ?text)") simp_all
  from un sk obtain inb where inb: "slice_field ''inbounds'' sk = Some inb"
    by (cases "slice_field ''inbounds'' sk") simp_all
  from un sk inb obtain rendered where r: "render_inbounds sources = Inr rendered"
    by (cases "render_inbounds sources") simp_all
  let ?c0 = "obj_set ''inbounds'' (marshal_slice (append_raw inb rendered)) sk"
  from un sk inb r obtain c1 where c1: "spliceBlocksAndExits ?c0 blocks exits egress = Inr c1"
    by (cases "spliceBlocksAndExits ?c0 blocks exits egress") simp_all
  from un sk inb r c1 obtain c2 ch where c2: "EnsureAPI c1 = Inr (c2, ch)"
    by (cases "EnsureAPI c1") auto
  from un sk inb r c1 c2 have t: "checkRuleTargets c2 = None" "cfg = c2"
    by (cases "checkRuleTargets c2"; simp)+
  have sk': "skeleton_config skeleton = sk" using sk by (simp add: skeleton_config_def read_config_def)
  have ok: "config_ok sk" using sk by (rule parse_object_ok)
  have ok0: "config_ok ?c0" using ok config_ok_slice [OF ok inb] render_inbounds_ok [OF r] by simp
  obtain fresh eobs xobs where s: "those (fresh_rules blocks egress exits) = Some fresh"
    "gather egress_outbounds egress = Inr eobs" "gather exit_outbounds exits = Inr xobs"
    "routing_rules c1 = fresh @ routing_rules ?c0"
    "slice_part ''outbounds'' c1 = slice_part ''outbounds'' ?c0 @
       (if concat (map block_rules blocks) = [] then [] else [blackhole]) @ eobs @ xobs"
    "\<forall>k. k \<noteq> ''routing'' \<longrightarrow> k \<noteq> ''outbounds'' \<longrightarrow> map_of c1 k = map_of ?c0 k" "config_ok c1"
    by (rule spliceE [OF c1 ok0])
  note e = EnsureAPIE [OF c2 s(7)]
  have api: "map_of c1 ''api'' = map_of sk ''api''" using s(6) [rule_format, of "''api''"] by simp
  have "slice_part ''inbounds'' c1 = slice_part ''inbounds'' sk @ rendered"
    using slice_part_cong [OF s(6) [rule_format, of "''inbounds''"]] inb by (simp add: slice_part_def)
  moreover have "map_of c2 k = map_of sk k" if "k \<notin> set managed_keys" for k
    using e(5) [OF that] s(6) [rule_format, of k] that by (simp add: managed_keys_def)
  ultimately have "assembled skeleton sources exits blocks egress rendered fresh eobs xobs c2"
    using r s(1-5) e t(1) api by (simp add: assembled_def sk' Let_def)
  moreover have "read_config out = c2" using e(1) by (simp add: out t(2) del: json_show.simps)
  ultimately show ?thesis using that out t(2) un' by simp
qed

section \<open>How Xray routes\<close>

text \<open>
  Xray is not part of the repository. What the panel relies on, and its comments state, is that the first
  rule whose conditions all hold decides, and that a condition holds when the connection matches one of the
  listed values. Whether a connection's destination matches one address or domain pattern is left open.
\<close>

record 'c xray =
  xr_matches :: "json \<Rightarrow> 'c \<Rightarrow> bool"
  xr_user :: "'c \<Rightarrow> string"
  xr_inbound :: "'c \<Rightarrow> string"
  xr_ip :: "'c \<Rightarrow> string \<Rightarrow> bool"
  xr_domain :: "'c \<Rightarrow> string \<Rightarrow> bool"

definition condition_holds :: "('c, 'x) xray_scheme \<Rightarrow> 'c \<Rightarrow> string \<times> string list \<Rightarrow> bool" where
  "condition_holds x c cond =
     (case cond of (k, vs) \<Rightarrow>
        if k = ''ip'' then list_ex (xr_ip x c) vs
        else if k = ''domain'' then list_ex (xr_domain x c) vs
        else if k = ''user'' then xr_user x c \<in> set vs
        else k = ''inboundTag'' \<and> xr_inbound x c \<in> set vs)"

definition conditions :: "(string \<times> string list) list \<Rightarrow> (string \<times> json) list" where
  "conditions cs = map (\<lambda>(k, vs). (k, str_array vs)) cs"

definition condition_ok :: "string \<times> string list \<Rightarrow> bool" where
  "condition_ok cond \<longleftrightarrow> fst cond \<in> set [''ip'', ''domain'', ''user'', ''inboundTag''] \<and> snd cond \<noteq> []"

definition reads_rules :: "('c, 'x) xray_scheme \<Rightarrow> bool" where
  "reads_rules x \<longleftrightarrow>
     (\<forall>cs tag c. list_all condition_ok cs \<longrightarrow>
        xr_matches x (field_rule (conditions cs) (JStr tag)) c = list_all (condition_holds x c) cs)"

definition rule_target :: "json \<Rightarrow> string" where
  "rule_target r =
     (case r of JObj kvs \<Rightarrow> (case map_of (rev kvs) ''outboundTag'' of Some (JStr t) \<Rightarrow> t | _ \<Rightarrow> []) | _ \<Rightarrow> [])"

text \<open>\<^term>\<open>None\<close>: no rule matches and the connection leaves by the default outbound.\<close>

definition route :: "('c, 'x) xray_scheme \<Rightarrow> json list \<Rightarrow> 'c \<Rightarrow> string option" where
  "route x rules c = map_option rule_target (find (\<lambda>r. xr_matches x r c) rules)"

text \<open>The policy the sources stand for.\<close>

definition barred_by :: "('c, 'x) xray_scheme \<Rightarrow> 'c \<Rightarrow> block_source \<Rightarrow> bool" where
  "barred_by x c b \<longleftrightarrow> xr_user x c \<in> set (bl_emails b)
     \<and> (list_ex (xr_ip x c) (bl_cidrs b) \<or> list_ex (\<lambda>d. xr_domain x c (''domain:'' @ d)) (bl_domains b))"

definition lands_by :: "('c, 'x) xray_scheme \<Rightarrow> 'c \<Rightarrow> egress_source \<Rightarrow> bool" where
  "lands_by x c e \<longleftrightarrow> list_ex (xr_domain x c) (eg_domains e) \<or> list_ex (xr_ip x c) (eg_ips e)"

definition node_policy ::
  "('c, 'x) xray_scheme \<Rightarrow> block_source list \<Rightarrow> egress_source list \<Rightarrow> exit_source list \<Rightarrow> 'c \<Rightarrow> string option" where
  "node_policy x blocks egress exits c =
     (if list_ex (barred_by x c) blocks then Some BlackholeTag
      else
        (case find (lands_by x c) egress of
           Some e \<Rightarrow> Some (eg_tag e)
         | None \<Rightarrow> map_option ex_tag (find (\<lambda>e. xr_user x c \<in> set (ex_emails e)) exits)))"

definition or_else :: "'a option \<Rightarrow> 'a option \<Rightarrow> 'a option" where
  "or_else a b = (case a of None \<Rightarrow> b | Some x \<Rightarrow> Some x)"

lemma or_else_simps [simp]: "or_else None b = b" "or_else (Some x) b = Some x" "or_else a None = a"
  by (auto simp: or_else_def split: option.splits)

lemma or_else_assoc: "or_else (or_else a b) c = or_else a (or_else b c)"
  by (cases a) simp_all

lemma route_Nil [simp]: "route x [] c = None"
  by (simp add: route_def)

lemma route_append [simp]: "route x (xs @ ys) c = or_else (route x xs c) (route x ys c)"
  by (induction xs) (auto simp: route_def)

lemma rule_target_field [simp]: "rule_target (field_rule cs (JStr t)) = t"
  by (simp add: rule_target_def field_rule_def)

lemma route_field:
  assumes "reads_rules x" and "list_all condition_ok cs"
  shows "route x [field_rule (conditions cs) (JStr t)] c = (if list_all (condition_holds x c) cs then Some t else None)"
  using assms by (simp add: route_def reads_rules_def)

lemma route_concat:
  assumes "\<And>s. route x (f s) c = (if P s then Some (g s) else None)"
  shows "route x (concat (map f ss)) c = map_option g (find P ss)"
  using assms by (induction ss) auto

lemma condition_simps [simp]:
  "condition_holds x c (''ip'', vs) = list_ex (xr_ip x c) vs"
  "condition_holds x c (''domain'', vs) = list_ex (xr_domain x c) vs"
  "condition_holds x c (''user'', vs) = (xr_user x c \<in> set vs)"
  "condition_holds x c (''inboundTag'', vs) = (xr_inbound x c \<in> set vs)"
  "condition_ok (''ip'', vs) = (vs \<noteq> [])" "condition_ok (''domain'', vs) = (vs \<noteq> [])"
  "condition_ok (''user'', vs) = (vs \<noteq> [])" "condition_ok (''inboundTag'', vs) = (vs \<noteq> [])"
  "conditions [] = []" "conditions ((k, vs) # cs) = (k, str_array vs) # conditions cs"
  by (simp_all add: condition_holds_def condition_ok_def conditions_def)

lemmas route_1 = route_field [where cs = "[(k, vs)]" for k vs, simplified]
lemmas route_2 = route_field [where cs = "[(k, vs), (k', us)]" for k vs k' us, simplified]

lemma route_conditions [simp]:
  assumes "reads_rules x" and "vs \<noteq> []"
  shows "route x [field_rule [(''domain'', str_array vs)] (JStr t)] c = (if list_ex (xr_domain x c) vs then Some t else None)"
    and "route x [field_rule [(''ip'', str_array vs)] (JStr t)] c = (if list_ex (xr_ip x c) vs then Some t else None)"
    and "route x [field_rule [(''user'', str_array vs)] (JStr t)] c = (if xr_user x c \<in> set vs then Some t else None)"
    and "route x [field_rule [(''inboundTag'', str_array vs)] (JStr t)] c = (if xr_inbound x c \<in> set vs then Some t else None)"
  by (subst route_1 [OF assms(1)], use assms(2) in simp, simp only: condition_simps)+

lemma route_user_conditions [simp]:
  assumes "reads_rules x" and "vs \<noteq> []" and "us \<noteq> []"
  shows "route x [field_rule [(''ip'', str_array vs), (''user'', str_array us)] (JStr t)] c =
      (if list_ex (xr_ip x c) vs \<and> xr_user x c \<in> set us then Some t else None)"
    and "route x [field_rule [(''domain'', str_array vs), (''user'', str_array us)] (JStr t)] c =
      (if list_ex (xr_domain x c) vs \<and> xr_user x c \<in> set us then Some t else None)"
  by (subst route_2 [OF assms(1)], use assms(2,3) in simp, simp only: condition_simps)+

lemma route_if_rule:
  "(vs \<noteq> [] \<Longrightarrow> route x [r vs] c = (if P vs then Some t else None)) \<Longrightarrow> \<not> P [] \<Longrightarrow>
     route x (if vs = [] then [] else [r vs]) c = (if P vs then Some t else None)"
  by (cases "vs = []") simp_all

lemma list_ex_map_domain:
  "list_ex p (map (\<lambda>d. ''domain:'' @ d) ds) = list_ex (\<lambda>d. p (''domain:'' @ d)) ds"
  by (induction ds) auto

lemma route_block:
  assumes x: "reads_rules x"
  shows "route x (block_rules b) c = (if barred_by x c b then Some BlackholeTag else None)"
proof (cases "bl_emails b = []")
  case False
  let ?u = "xr_user x c \<in> set (bl_emails b)"
  have ip: "route x (if bl_cidrs b = [] then [] else
      [field_rule [(''ip'', str_array (bl_cidrs b)), (''user'', str_array (bl_emails b))] (JStr BlackholeTag)]) c =
      (if list_ex (xr_ip x c) (bl_cidrs b) \<and> ?u then Some BlackholeTag else None)"
    by (rule route_if_rule) (simp_all add: x False)
  have domain: "route x (if bl_domains b = [] then [] else
      [field_rule [(''domain'', str_array (map (\<lambda>d. ''domain:'' @ d) (bl_domains b))), (''user'', str_array (bl_emails b))]
         (JStr BlackholeTag)]) c =
      (if list_ex (xr_domain x c) (map (\<lambda>d. ''domain:'' @ d) (bl_domains b)) \<and> ?u then Some BlackholeTag else None)"
    by (cases "bl_domains b = []") (simp_all add: x False del: append_Cons)
  show ?thesis
    unfolding block_rules_def if_not_P [OF False] route_append ip domain list_ex_map_domain
    by (auto simp: barred_by_def)
qed (simp add: block_rules_def barred_by_def)

lemma route_blocks:
  "reads_rules x \<Longrightarrow>
     route x (concat (map block_rules bs)) c = (if list_ex (barred_by x c) bs then Some BlackholeTag else None)"
  by (induction bs) (auto simp: route_block)

lemma those_append:
  "those (xs @ ys) = (case those xs of None \<Rightarrow> None | Some a \<Rightarrow> map_option ((@) a) (those ys))"
  by (cases "those ys"; induction xs) (auto split: option.splits)

lemma those_map_Some: "those (map Some xs) = Some xs"
  by (induction xs) auto

lemma quoted_rule: "those [map_option (field_rule cs) (fmt_q t)] = Some rs \<longleftrightarrow> json_quotable t \<and> rs = [field_rule cs (JStr t)]"
  by (auto simp: fmt_q_def)

lemma route_egress:
  assumes x: "reads_rules x" and rs: "those (egress_rules e) = Some rs"
  shows "route x rs c = (if lands_by x c e then Some (eg_tag e) else None)"
proof -
  let ?d = "if eg_domains e = [] then [] else [field_rule [(''domain'', str_array (eg_domains e))] (JStr (eg_tag e))]"
  let ?i = "if eg_ips e = [] then [] else [field_rule [(''ip'', str_array (eg_ips e))] (JStr (eg_tag e))]"
  have "rs = ?d @ ?i"
    using rs by (auto simp: egress_rules_def fmt_q_def split: if_splits)
  moreover have "route x ?d c = (if list_ex (xr_domain x c) (eg_domains e) then Some (eg_tag e) else None)"
    by (rule route_if_rule) (simp_all add: x)
  moreover have "route x ?i c = (if list_ex (xr_ip x c) (eg_ips e) then Some (eg_tag e) else None)"
    by (rule route_if_rule) (simp_all add: x)
  ultimately show ?thesis by (simp add: lands_by_def)
qed

lemma route_exit:
  assumes x: "reads_rules x" and rs: "those (exit_rules e) = Some rs"
  shows "route x rs c = (if xr_user x c \<in> set (ex_emails e) then Some (ex_tag e) else None)"
proof -
  have "rs = (if ex_emails e = [] then [] else [field_rule [(''user'', str_array (ex_emails e))] (JStr (ex_tag e))])"
    using rs by (auto simp: exit_rules_def fmt_q_def split: if_splits)
  then show ?thesis by (simp add: x)
qed

lemma route_those_concat:
  assumes "\<And>s rs. those (f s) = Some rs \<Longrightarrow> route x rs c = (if P s then Some (g s) else None)"
  shows "those (concat (map f ss)) = Some rs \<Longrightarrow> route x rs c = map_option g (find P ss)"
  using assms by (induction ss arbitrary: rs) (auto simp: those_append split: option.splits)

lemma route_fresh:
  assumes x: "reads_rules x" and f: "those (fresh_rules blocks egress exits) = Some fresh"
  shows "route x fresh c = node_policy x blocks egress exits c"
proof -
  from f obtain es xs where
    fresh: "fresh = concat (map block_rules blocks) @ es @ xs" and
    es: "those (concat (map egress_rules egress)) = Some es" and
    xs: "those (concat (map exit_rules exits)) = Some xs"
    by (auto simp: fresh_rules_def those_append those_map_Some simp del: map_concat split: option.splits)
  have "route x es c = map_option eg_tag (find (lands_by x c) egress)"
    using es by (rule route_those_concat [rotated]) (rule route_egress [OF x])
  moreover have "route x xs c = map_option ex_tag (find (\<lambda>e. xr_user x c \<in> set (ex_emails e)) exits)"
    using xs by (rule route_those_concat [rotated]) (rule route_exit [OF x])
  ultimately show ?thesis
    by (auto simp: fresh route_blocks [OF x] node_policy_def or_else_def split: option.splits)
qed

lemma read_assembled:
  "AssembleNodeWithEgress skeleton sources exits blocks egress = Inr out \<Longrightarrow>
     read_config out = (case assemble_config skeleton sources exits blocks egress of Inl e \<Rightarrow> [] | Inr cfg \<Rightarrow> cfg)"
  by (erule assembledI) simp

lemma assembled_routes:
  assumes "AssembleNodeWithEgress skeleton sources exits blocks egress = Inr out" and "reads_rules x"
  shows "route x (routing_rules (read_config out)) c =
    (if \<not> own_api (skeleton_config skeleton) \<and> xr_inbound x c = APIInboundTag then Some APIHandlerTag
     else or_else (node_policy x blocks egress exits c) (route x (routing_rules (skeleton_config skeleton)) c))"
proof -
  obtain rendered fresh eobs xobs where
    a: "assembled skeleton sources exits blocks egress rendered fresh eobs xobs (read_config out)"
    using assms(1) by (rule assembledI)
  then have "routing_rules (read_config out) = (if own_api (skeleton_config skeleton) then [] else [api_rule])
      @ fresh @ routing_rules (skeleton_config skeleton)"
    and "route x fresh c = node_policy x blocks egress exits c"
    using route_fresh [OF assms(2)] by (auto simp: assembled_def Let_def)
  moreover have "route x [api_rule] c = (if xr_inbound x c = APIInboundTag then Some APIHandlerTag else None)"
    by (simp add: api_rule_def assms(2))
  ultimately show ?thesis by (simp only: route_append) auto
qed

section \<open>Properties of assembly\<close>

text \<open>C7. Routing of an assembled configuration, read as Xray reads rules, is the policy: management traffic
  of the injected API inbound reaches the API; of the rest, a barred user's connection to a restricted
  destination goes to the blackhole, then the egress landings decide, then the relayed exit of the user,
  and only what none of them claims is left to the rules the operator wrote.\<close>

theorem assembled_routing:
  assumes "AssembleNodeWithEgress skeleton sources exits blocks egress = Inr out" and "reads_rules x"
  shows "route x (routing_rules (read_config out)) c =
    (if \<not> own_api (skeleton_config skeleton) \<and> xr_inbound x c = APIInboundTag then Some APIHandlerTag
     else or_else (node_policy x blocks egress exits c) (route x (routing_rules (skeleton_config skeleton)) c))"
  using assms by (rule assembled_routes)

text \<open>The blackhole is an outbound of the configuration whenever a block bars somebody from something,
  what the operator wrote by hand is kept in its order and ahead of the managed parts, the rendered
  inbounds follow in the order of the profiles, and no member of the skeleton outside the six managed ones changes.\<close>

theorem assembled_parts:
  assumes "AssembleNodeWithEgress skeleton sources exits blocks egress = Inr out"
  shows "\<exists>rendered eobs xobs.
      render_inbounds sources = Inr rendered \<and> length rendered = length sources
      \<and> gather egress_outbounds egress = Inr eobs \<and> gather exit_outbounds exits = Inr xobs
      \<and> slice_part ''inbounds'' (read_config out) = (if own_api (skeleton_config skeleton) then [] else [api_inbound])
          @ slice_part ''inbounds'' (skeleton_config skeleton) @ rendered
      \<and> slice_part ''outbounds'' (read_config out) = slice_part ''outbounds'' (skeleton_config skeleton)
          @ (if list_ex (\<lambda>b. bl_emails b \<noteq> [] \<and> (bl_cidrs b \<noteq> [] \<or> bl_domains b \<noteq> [])) blocks then [blackhole] else [])
          @ eobs @ xobs
      \<and> (\<forall>k. k \<notin> set managed_keys \<longrightarrow> map_of (read_config out) k = map_of (skeleton_config skeleton) k)"
proof -
  obtain rendered fresh eobs xobs where
    a: "assembled skeleton sources exits blocks egress rendered fresh eobs xobs (read_config out)"
    using assms by (rule assembledI)
  have "length js = length srcs" if "render_inbounds srcs = Inr js" for srcs js
    using that by (induction srcs arbitrary: js) (auto simp: bind_result_eq_Inr)
  moreover have "concat (map block_rules blocks) = [] \<longleftrightarrow>
      \<not> list_ex (\<lambda>b. bl_emails b \<noteq> [] \<and> (bl_cidrs b \<noteq> [] \<or> bl_domains b \<noteq> [])) blocks"
    by (induction blocks) (auto simp: block_rules_def)
  ultimately show ?thesis
    using a by (intro exI [of _ rendered] exI [of _ eobs] exI [of _ xobs]) (simp add: assembled_def Let_def)
qed

text \<open>Every rule of an assembled configuration names an outbound that exists, or the API service, whenever the tags
  of the outbounds and rules are strings; an empty or absent tag is not looked at.\<close>

theorem rule_targets_exist:
  assumes "AssembleNodeWithEgress skeleton sources exits blocks egress = Inr out"
    and "map_of (read_config out) ''outbounds'' = Some obs" and "dec_tags obs = Some tags"
    and "map_of (read_config out) ''routing'' = Some routing" and "dec_rule_tags routing = Some targets"
    and "t \<in> set targets" and "t \<noteq> []"
  shows "t \<in> set tags \<or> (\<exists>api. map_of (read_config out) ''api'' = Some api \<and> str_field ''tag'' [] api = Some t)"
proof -
  obtain rendered fresh eobs xobs where
    "assembled skeleton sources exits blocks egress rendered fresh eobs xobs (read_config out)"
    using assms(1) by (rule assembledI)
  then have "checkRuleTargets (read_config out) = None" by (simp add: assembled_def Let_def)
  then have "find (\<lambda>t. t \<noteq> [] \<and> t \<notin> set (tags @
      (case map_of (read_config out) ''api'' of None \<Rightarrow> []
       | Some j \<Rightarrow> (case str_field ''tag'' [] j of None \<Rightarrow> [] | Some t \<Rightarrow> if t = [] then [] else [t])))) targets = None"
    by (simp add: checkRuleTargets_def assms(2-5) Let_def del: set_append)
  then show ?thesis
    using assms(6,7)
    by (cases "map_of (read_config out) ''api''"; cases "str_field ''tag'' [] (the (map_of (read_config out) ''api''))")
      (auto simp: find_None_iff split: if_splits)
qed

text \<open>The inbound of a profile holds the clients its template lists by hand, followed by one entry for each
  entitled credential in the order given; no other member of the settings or of the inbound changes.\<close>

theorem entitled_clients_spliced:
  assumes "Render (src_ctx src) (src_template src) = Inr rendered" and "parse_object rendered = Some (Some inbound)"
    and "map_field ''settings'' inbound = Some settings" and "src_clients src \<noteq> []"
    and "render_inbound src = Inr j"
  shows "\<exists>m settings' added. j = JObj m \<and> map_of m ''settings'' = Some (JObj settings')
    \<and> client_objects (src_clients src) = Inr added \<and> length added = length (src_clients src)
    \<and> slice_part ''clients'' settings' = slice_part ''clients'' (entries settings) @ added
    \<and> (\<forall>k. k \<noteq> ''settings'' \<longrightarrow> map_of m k = map_of inbound k)
    \<and> (\<forall>k. k \<noteq> ''clients'' \<longrightarrow> map_of settings' k = map_of (entries settings) k)"
proof -
  have len: "length js = length es" if "client_objects es = Inr js" for es js
    using that by (induction es arbitrary: js) (auto simp: bind_result_eq_Inr split: option.splits)
  from assms(1,2,5) obtain m where m: "spliceClients (Some inbound) (src_clients src) = Inr m" "j = marshal_map m"
    by (auto simp: render_inbound_def in_profile_def bind_result_eq_Inr split: sum.splits)
  from m(1) show ?thesis
  proof (cases rule: spliceClientsE)
    case (2 kvs settings2 clients js)
    then have "kvs = inbound" "settings2 = settings" using assms(3) by simp_all
    then show ?thesis using 2 m(2) len [OF 2(4)] by (auto simp: slice_part_def)
  qed (use assms(4) in simp)
qed

subsection \<open>Replacing blocks\<close>

lemma elems_filter [simp]: "elems (map_option (filter P) s) = filter P (elems s)"
  by (cases s) simp_all

lemma list_all_filter: "list_all Q xs \<Longrightarrow> list_all Q (filter P xs)"
  by (simp add: list_all_iff)

lemma strip_block_rulesE:
  assumes "strip_block_rules cfg = Inr cfg'" and "config_ok cfg"
  shows "config_ok cfg'"
    "routing_rules cfg' = filter (\<lambda>r. \<not> goes_nowhere ''outboundtag'' r) (routing_rules cfg)"
    "\<And>k. k \<noteq> ''routing'' \<Longrightarrow> map_of cfg' k = map_of cfg k"
proof -
  note un = assms(1) [unfolded strip_block_rules_def Let_def]
  from un obtain r where r: "map_field ''routing'' cfg = Some r"
    by (cases "map_field ''routing'' cfg") simp_all
  have "config_ok cfg' \<and> routing_rules cfg' = filter (\<lambda>r. \<not> goes_nowhere ''outboundtag'' r) (routing_rules cfg)
      \<and> (\<forall>k. k \<noteq> ''routing'' \<longrightarrow> map_of cfg' k = map_of cfg k)"
  proof (cases r)
    case None
    then show ?thesis using un r assms(2) by (simp add: routing_rules_def slice_part_def slice_field_def)
  next
    case (Some m)
    from un r Some obtain rules where s: "slice_field ''rules'' m = Some rules"
      by (cases "slice_field ''rules'' m") simp_all
    have m: "config_ok m" "key_sorted m"
      using config_ok_map [OF assms(2) r] map_field_sorted [OF r] Some by simp_all
    have "cfg' = obj_set ''routing'' (JObj (obj_set ''rules''
        (marshal_slice (map_option (filter (\<lambda>r. \<not> goes_nowhere ''outboundtag'' r)) rules)) m)) cfg"
      using un by (simp add: r Some s)
    then show ?thesis
      using assms(2) m r Some s config_ok_slice [OF m(1) s]
      by (auto simp: routing_rules_set list_all_filter simp del: json_ok.simps(3))
        (simp add: routing_rules_def slice_part_def)
  qed
  then show "config_ok cfg'" "routing_rules cfg' = filter (\<lambda>r. \<not> goes_nowhere ''outboundtag'' r) (routing_rules cfg)"
    "\<And>k. k \<noteq> ''routing'' \<Longrightarrow> map_of cfg' k = map_of cfg k" by blast+
qed

lemma ReplaceBlocksE:
  assumes "ReplaceBlocks old blocks = Inr out"
  shows "config_ok (read_config out)"
    "routing_rules (read_config out) = concat (map block_rules blocks)
        @ filter (\<lambda>r. \<not> goes_nowhere ''outboundtag'' r) (routing_rules (read_config old))"
    "slice_part ''outbounds'' (read_config out) =
        filter (\<lambda>j. \<not> goes_nowhere ''tag'' j) (slice_part ''outbounds'' (read_config old))
        @ (if concat (map block_rules blocks) = [] then [] else [blackhole])"
    "\<And>k. k \<noteq> ''routing'' \<Longrightarrow> k \<noteq> ''outbounds'' \<Longrightarrow> map_of (read_config out) k = map_of (read_config old) k"
proof -
  note un = assms [unfolded ReplaceBlocks_def Let_def]
  from un obtain obj where obj: "parse_object old = Some obj"
    by (cases "parse_object old") simp_all
  with un obtain outs where outs: "slice_field ''outbounds'' (entries obj) = Some outs"
    by (cases "slice_field ''outbounds'' (entries obj)") simp_all
  with un obj obtain c0 where c0: "obj = Some c0" by (cases obj) simp_all
  have old: "read_config old = c0" "config_ok c0"
    using obj c0 parse_object_ok [of old c0] by (simp_all add: read_config_def)
  have o: "slice_field ''outbounds'' c0 = Some outs" using outs c0 by simp
  let ?c1 = "obj_set ''outbounds'' (marshal_slice (map_option (filter (\<lambda>j. \<not> goes_nowhere ''tag'' j)) outs)) c0"
  have ok1: "config_ok ?c1" using old(2) config_ok_slice [OF old(2) o] by (simp add: list_all_filter)
  from un obj outs c0 obtain c2 c3 where c2: "strip_block_rules ?c1 = Inr c2"
    and c3: "spliceBlocksAndExits c2 blocks [] [] = Inr c3" and out: "out = json_pretty 0 (JObj c3)"
    by (auto simp: bind_result_eq_Inr simp del: json_show.simps)
  note s = strip_block_rulesE [OF c2 ok1]
  obtain fresh eobs xobs where p: "those (fresh_rules blocks [] []) = Some fresh"
    "gather egress_outbounds [] = Inr eobs" "gather exit_outbounds [] = Inr xobs"
    "routing_rules c3 = fresh @ routing_rules c2"
    "slice_part ''outbounds'' c3 = slice_part ''outbounds'' c2 @
       (if concat (map block_rules blocks) = [] then [] else [blackhole]) @ eobs @ xobs"
    "\<forall>k. k \<noteq> ''routing'' \<longrightarrow> k \<noteq> ''outbounds'' \<longrightarrow> map_of c3 k = map_of c2 k" "config_ok c3"
    by (rule spliceE [OF c3 s(1)])
  have read: "read_config out = c3" using p(7) by (simp add: out del: json_show.simps)
  show "config_ok (read_config out)" using p(7) read by simp
  show "routing_rules (read_config out) = concat (map block_rules blocks)
        @ filter (\<lambda>r. \<not> goes_nowhere ''outboundtag'' r) (routing_rules (read_config old))"
    using p(1,4) s(2) by (simp add: read old(1) fresh_rules_def those_map_Some del: map_concat)
  show "slice_part ''outbounds'' (read_config out) =
        filter (\<lambda>j. \<not> goes_nowhere ''tag'' j) (slice_part ''outbounds'' (read_config old))
        @ (if concat (map block_rules blocks) = [] then [] else [blackhole])"
    using p(2,3,5) slice_part_cong [OF s(3) [of "''outbounds''"]] o
    by (simp add: read old(1)) (simp add: slice_part_def)
  show "map_of (read_config out) k = map_of (read_config old) k" if "k \<noteq> ''routing''" "k \<noteq> ''outbounds''" for k
    using p(6) s(3) that by (simp add: read old(1))
qed

subsection \<open>Decoding by name\<close>

lemma char_le_lower: "c \<le> lower_char c"
proof (cases "is_upper c")
  case True
  then have "of_char c \<le> (90::nat)" by (simp add: is_upper_def less_eq_char_def)
  then show ?thesis using True by (simp add: lower_char_def less_eq_char_def)
qed (simp add: lower_char_def)

lemma le_to_lower: "k \<le> to_lower k"
  unfolding to_lower_def
proof (induction k)
  case (Cons c k)
  then show ?case using char_le_lower [of c] by (auto simp: le_less)
qed simp

lemma dec_members_append:
  "dec_members f (xs @ ys) x = (case dec_members f xs x of None \<Rightarrow> None | Some y \<Rightarrow> dec_members f ys y)"
  by (induction f xs x rule: dec_members.induct) (auto split: option.splits)

lemma dec_members_frame:
  assumes "\<And>k v x y. k \<noteq> n \<Longrightarrow> f k v x = Some y \<Longrightarrow> proj y = proj x"
  shows "dec_members f ms x = Some y \<Longrightarrow> list_all (\<lambda>e. to_lower (fst e) \<noteq> n) ms \<Longrightarrow> proj y = proj x"
  using assms by (induction f ms x rule: dec_members.induct) (auto split: option.splits)

text \<open>In a map written by the package the member with the lower-case name is the last one that is decoded
  into its field.\<close>

lemma dec_members_field:
  assumes "key_sorted m" and "map_of m n = Some v" and "to_lower n = n" and "dec_members f m x = Some y"
    and frame: "\<And>k v x y. k \<noteq> n \<Longrightarrow> f k v x = Some y \<Longrightarrow> proj y = proj x"
  obtains a b where "f n v a = Some b" "proj y = proj b"
proof -
  from assms(2) obtain pre post where m: "m = pre @ (n, v) # post"
    by (meson map_of_SomeD split_list)
  have "list_all (\<lambda>e. to_lower (fst e) \<noteq> n) post"
    unfolding list_all_iff
  proof
    fix e assume "e \<in> set post"
    then have "n < fst e" using assms(1) by (auto simp: m sorted_wrt_append)
    then show "to_lower (fst e) \<noteq> n" using le_to_lower [of "fst e"] by auto
  qed
  moreover from assms(3,4) obtain a b where "f n v a = Some b" "dec_members f post b = Some y"
    by (auto simp: m dec_members_append split: option.splits)
  ultimately show ?thesis using that dec_members_frame [of n f proj post b y] frame by blast
qed

lemma dec_members_fails:
  "(k, v) \<in> set ms \<Longrightarrow> (\<And>x. f (to_lower k) v x = None) \<Longrightarrow> dec_members f ms x = None"
  by (induction f ms x rule: dec_members.induct) (auto split: option.splits)

lemma dec_elems_fails: "j \<in> set js \<Longrightarrow> (\<And>x. f x j = None) \<Longrightarrow> dec_elems f z old js = None"
  by (induction f z old js rule: dec_elems.induct) (auto split: option.splits)

lemma dec_elems_Cons:
  assumes "dec_elems f z old (j # js) = Some ys"
  obtains x y ys' where "f x j = Some y" "ys = y # ys'"
  using assms by (auto split: option.splits)

lemma to_lower_names [simp]:
  "to_lower ''api'' = ''api''" "to_lower ''inbounds'' = ''inbounds''" "to_lower ''routing'' = ''routing''"
  "to_lower ''rules'' = ''rules''" "to_lower ''type'' = ''type''" "to_lower ''inboundTag'' = ''inboundtag''"
  "to_lower ''outboundTag'' = ''outboundtag''" "to_lower ''tag'' = ''tag''" "to_lower ''services'' = ''services''"
  "to_lower ''listen'' = ''listen''" "to_lower ''port'' = ''port''" "to_lower ''protocol'' = ''protocol''"
  "to_lower ''settings'' = ''settings''" "to_lower ''ip'' = ''ip''" "to_lower ''domain'' = ''domain''"
  "to_lower ''user'' = ''user''"
  by code_simp+

lemma goes_nowhere_block: "r \<in> set (block_rules b) \<Longrightarrow> goes_nowhere ''outboundtag'' r"
  by (auto simp: block_rules_def goes_nowhere_def str_field_def field_rule_def split: if_splits)

lemma to_lower_protocol_tag [simp]: "goes_nowhere ''tag'' blackhole"
  by code_simp

lemma slice_part_Cons: "slice_part k cfg = j # js \<Longrightarrow> map_of cfg k = Some (JArr (j # js))"
  by (auto simp: slice_part_def slice_field_def elems_def split: option.splits elim!: unmarshal_slice.elims)

lemma int_lit_APIPort [simp]: "int_lit ''10085'' = Some APIPort"
  by code_simp

lemma to_lower_address: "to_lower ''address'' = ''address''"
  by code_simp

lemma dec_api_inbound:
  "dec_inbound p x api_inbound = Some y \<Longrightarrow> iv_tag y = APIInboundTag \<and> iv_listen y = APIListen \<and> iv_port y = APIPort"
  by (auto simp: api_inbound_def dec_inbound_def to_lower_address split: if_splits)

lemma dec_api_rule:
  "dec_rule x api_rule = Some y \<Longrightarrow> rv_inbound_tag y = [APIInboundTag] \<and> rv_outbound_tag y = APIHandlerTag"
  by (auto simp: api_rule_def field_rule_def dec_rule_def str_array_def)

lemma dec_api_block: "str_field ''tag'' x api_block = Some y \<Longrightarrow> y = APIHandlerTag"
  by (auto simp: api_block_def str_field_def)

lemma dec_routing_rules:
  assumes "dec_routing x (JObj r) = Some rs" and "key_sorted r" and "map_of r ''rules'' = Some (JArr (j # js))"
  obtains z y ys where "dec_rule z j = Some y" "rs = y # ys"
proof -
  obtain a b where "(if ''rules'' = ''rules'' then dec_slice dec_rule no_rule a (JArr (j # js)) else Some a) = Some b" "rs = b"
    using dec_members_field [OF assms(2,3) _ assms(1) [unfolded dec_routing_def dec_struct.simps], where proj = id]
    by (auto split: if_splits)
  then show ?thesis using that by (auto split: option.splits)
qed

text \<open>The three views of a configuration written by the package.\<close>

lemma view_field:
  assumes "dec_view p z (JObj cfg) = Some w" and "key_sorted cfg"
  shows "map_of cfg ''api'' = Some a \<Longrightarrow> \<exists>x. str_field ''tag'' x a = Some (av_api_tag w)"
    and "map_of cfg ''inbounds'' = Some i \<Longrightarrow> \<exists>x. dec_slice (dec_inbound p) no_inbound x i = Some (av_inbounds w)"
    and "map_of cfg ''routing'' = Some r \<Longrightarrow> \<exists>x. dec_routing x r = Some (av_rules w)"
proof -
  note d = assms(1) [unfolded dec_view_def dec_struct.simps]
  show "map_of cfg ''api'' = Some a \<Longrightarrow> \<exists>x. str_field ''tag'' x a = Some (av_api_tag w)"
    by (rule dec_members_field [OF assms(2) _ _ d, where proj = av_api_tag]) (auto split: if_splits)
  show "map_of cfg ''inbounds'' = Some i \<Longrightarrow> \<exists>x. dec_slice (dec_inbound p) no_inbound x i = Some (av_inbounds w)"
    by (rule dec_members_field [OF assms(2) _ _ d, where proj = av_inbounds]) (auto split: if_splits)
  show "map_of cfg ''routing'' = Some r \<Longrightarrow> \<exists>x. dec_routing x r = Some (av_rules w)"
    by (rule dec_members_field [OF assms(2) _ _ d, where proj = av_rules]) (auto split: if_splits)
qed

lemma injected_api_found:
  assumes a: "assembled skeleton sources exits blocks egress rendered fresh eobs xobs cfg"
    and "\<not> own_api (skeleton_config skeleton)" and w: "dec_view p z (JObj cfg) = Some w"
  shows "address_in w = APIListen @ '':'' @ show_int APIPort"
proof -
  let ?sk = "skeleton_config skeleton"
  have parts: "key_sorted cfg" "map_of cfg ''api'' = Some api_block" "sorted_routing cfg"
      "routing_rules cfg = api_rule # fresh @ routing_rules ?sk"
      "slice_part ''inbounds'' cfg = api_inbound # slice_part ''inbounds'' ?sk @ rendered"
    using a assms(2) by (auto simp: assembled_def Let_def config_ok_def)
  from parts(3) obtain r where r: "map_of cfg ''routing'' = Some (JObj r)" "key_sorted r"
    by (auto simp: sorted_routing_def)
  then have "slice_part ''rules'' r = api_rule # fresh @ routing_rules ?sk"
    using parts(4) by (simp add: routing_rules_def map_field_def go_map_id)
  note rules = slice_part_Cons [OF this]
  have "av_api_tag w = APIHandlerTag"
    using view_field(1) [OF w parts(1,2)] dec_api_block by blast
  moreover obtain y ys where "av_rules w = y # ys" "rv_inbound_tag y = [APIInboundTag]" "rv_outbound_tag y = APIHandlerTag"
    using view_field(3) [OF w parts(1) r(1)] dec_routing_rules [OF _ r(2) rules] dec_api_rule by metis
  moreover obtain i ins where "av_inbounds w = i # ins" "iv_tag i = APIInboundTag" "iv_listen i = APIListen" "iv_port i = APIPort"
    using view_field(2) [OF w parts(1) slice_part_Cons [OF parts(5)]] dec_elems_Cons dec_api_inbound
    by (metis dec_slice.simps(2))
  moreover have "loopback_host APIListen = APIListen" "APIHandlerTag \<noteq> []" "APIPort \<noteq> 0" by code_simp+
  ultimately show ?thesis by (simp add: address_in_def Let_def)
qed

lemma address_by_view:
  assumes "assembled skeleton sources exits blocks egress rendered fresh eobs xobs cfg"
  shows "address_by p (json_pretty 0 (JObj cfg)) =
    (case dec_view p no_view (JObj cfg) of None \<Rightarrow> [] | Some w \<Rightarrow> address_in w)"
proof -
  have "json_ok (JObj cfg)" using assms by (simp add: assembled_def Let_def config_ok_def)
  then show ?thesis by (simp add: address_by_def del: json_show.simps json_ok.simps)
qed

section \<open>Properties of the API address, of rolling back, and the panic\<close>

text \<open>When the operator declared no API of their own, the panel and the agent both read the address of the
  injected API inbound out of the assembled text, as long as the rest of the configuration decodes into
  their structs at all.\<close>

theorem injected_api_address:
  assumes "AssembleNodeWithEgress skeleton sources exits blocks egress = Inr out"
    and "\<not> own_api (skeleton_config skeleton)"
    and "dec_view True no_view (JObj (read_config out)) \<noteq> None"
    and "dec_view False no_view (JObj (read_config out)) \<noteq> None"
  shows "APIAddress out = ''127.0.0.1:10085'' \<and> apiAddressOf out = ''127.0.0.1:10085''"
proof -
  obtain rendered fresh eobs xobs where
    a: "assembled skeleton sources exits blocks egress rendered fresh eobs xobs (read_config out)"
    and out: "out = json_pretty 0 (JObj (read_config out))"
    using assms(1) by (rule assembledI)
  have "address_by p out = APIListen @ '':'' @ show_int APIPort" if "dec_view p no_view (JObj (read_config out)) = Some w" for p w
    using address_by_view [OF a, of p] injected_api_found [OF a assms(2) that] that out by simp
  moreover have "APIListen @ '':'' @ show_int APIPort = ''127.0.0.1:10085''" by (simp add: APIListen_def)
  ultimately show ?thesis using assms(3,4) by (auto simp: APIAddress_def apiAddressOf_def)
qed

text \<open>A single inbound whose port is written as a string, which Xray accepts, makes the panel and the agent
  find no API address in the configuration, although the API is there.\<close>

theorem string_port_hides_api:
  assumes "AssembleNodeWithEgress skeleton sources exits blocks egress = Inr out"
    and "JObj kvs \<in> set (slice_part ''inbounds'' (read_config out))"
    and "(k, JStr s) \<in> set kvs" and "to_lower k = ''port''"
  shows "APIAddress out = [] \<and> apiAddressOf out = []"
proof -
  obtain rendered fresh eobs xobs where
    a: "assembled skeleton sources exits blocks egress rendered fresh eobs xobs (read_config out)"
    and out: "out = json_pretty 0 (JObj (read_config out))"
    using assms(1) by (rule assembledI)
  have "dec_inbound p x (JObj kvs) = None" for p x
    unfolding dec_inbound_def dec_struct.simps by (rule dec_members_fails [OF assms(3)]) (simp add: assms(4))
  then have fails: "dec_elems (dec_inbound p) no_inbound old (slice_part ''inbounds'' (read_config out)) = None" for p old
    by (rule dec_elems_fails [OF assms(2)])
  obtain j js where "slice_part ''inbounds'' (read_config out) = j # js"
    using assms(2) by (cases "slice_part ''inbounds'' (read_config out)") auto
  then have "(''inbounds'', JArr (slice_part ''inbounds'' (read_config out))) \<in> set (read_config out)"
    by (metis slice_part_Cons map_of_SomeD)
  then have "dec_view p no_view (JObj (read_config out)) = None" for p
    unfolding dec_view_def dec_struct.simps by (rule dec_members_fails) (simp add: fails)
  then have "address_by p out = []" for p using address_by_view [OF a, of p] out by simp
  then show ?thesis by (simp add: APIAddress_def apiAddressOf_def)
qed

text \<open>C36. Rolling back a configuration whose blocks had been replaced before leaves nothing of the older access
  policy: the rules are those of the present blocks followed by what was never a block rule, so a
  connection goes to the blackhole exactly by the present blocks.\<close>

theorem rollback_applies_present_blocks:
  assumes "ReplaceBlocks stored old_blocks = Inr mid" and "ReplaceBlocks mid blocks = Inr out" and "reads_rules x"
  shows "route x (routing_rules (read_config out)) c =
      (if list_ex (barred_by x c) blocks then Some BlackholeTag
       else route x (filter (\<lambda>r. \<not> goes_nowhere ''outboundtag'' r) (routing_rules (read_config stored))) c)
    \<and> slice_part ''outbounds'' (read_config out) =
        filter (\<lambda>j. \<not> goes_nowhere ''tag'' j) (slice_part ''outbounds'' (read_config stored))
        @ (if list_all (\<lambda>b. block_rules b = []) blocks then [] else [blackhole])
    \<and> slice_part ''inbounds'' (read_config out) = slice_part ''inbounds'' (read_config stored)"
proof -
  note one = ReplaceBlocksE [OF assms(1)] and two = ReplaceBlocksE [OF assms(2)]
  have none: "filter (\<lambda>r. \<not> goes_nowhere ''outboundtag'' r) (concat (map block_rules bs)) = []" for bs
    by (auto simp: filter_empty_conv goes_nowhere_block)
  have "routing_rules (read_config out) = concat (map block_rules blocks)
      @ filter (\<lambda>r. \<not> goes_nowhere ''outboundtag'' r) (routing_rules (read_config stored))"
    by (simp add: two(2) one(2) none)
  moreover have "slice_part ''outbounds'' (read_config out) =
        filter (\<lambda>j. \<not> goes_nowhere ''tag'' j) (slice_part ''outbounds'' (read_config stored))
        @ (if list_all (\<lambda>b. block_rules b = []) blocks then [] else [blackhole])"
    by (simp add: two(3) one(3) list_all_iff)
  moreover have "slice_part ''inbounds'' (read_config out) = slice_part ''inbounds'' (read_config stored)"
    using one(4) two(4) by (intro slice_part_cong) simp
  ultimately show ?thesis by (simp add: route_blocks [OF assms(3)])
qed

text \<open>C1. A profile template that renders to the JSON text \<open>null\<close> passes the check that it is an object, and the
  assembly of a node where somebody is entitled to that profile panics on the write to the nil map.\<close>

theorem null_template_panics:
  assumes "parse_object (if skeleton = [] then DefaultSkeleton else skeleton) = Some (Some cfg)"
    and "slice_field ''inbounds'' cfg = Some inbounds"
    and "Render (src_ctx src) (src_template src) = Inr ''null''"
    and "src_clients src \<noteq> []" and "client_objects (src_clients src) = Inr js"
  shows "AssembleNodeWithEgress skeleton (src # sources) exits blocks egress = Inl (InProfile (src_profile_name src) NilMapPanic)"
proof -
  have "parse_object ''null'' = Some None" by code_simp
  moreover have "map_field ''settings'' [] = Some None" "slice_field ''clients'' [] = Some None"
    by (simp_all add: map_field_def slice_field_def)
  ultimately have "render_inbound src = Inl (InProfile (src_profile_name src) NilMapPanic)"
    using assms(3-5) by (simp add: render_inbound_def in_profile_def spliceClients_def)
  then show ?thesis using assms(1,2) by (simp add: AssembleNodeWithEgress_def assemble_config_def)
qed

section \<open>Witnesses\<close>

record demo_conn =
  dc_user :: string
  dc_inbound :: string
  dc_dest :: string

text \<open>A router over connections with one destination, which a pattern matches when it is equal to it.\<close>

definition demo_base :: "demo_conn xray" where
  "demo_base = \<lparr>xr_matches = (\<lambda>r c. False), xr_user = dc_user, xr_inbound = dc_inbound,
     xr_ip = (\<lambda>c v. dc_dest c = v), xr_domain = (\<lambda>c v. dc_dest c = v)\<rparr>"

fun demo_value :: "json \<Rightarrow> string" where
  "demo_value (JStr s) = s"
| "demo_value _ = []"

fun demo_condition :: "demo_conn \<Rightarrow> string \<times> json \<Rightarrow> bool" where
  "demo_condition c (k, JArr vs) = condition_holds demo_base c (k, map demo_value vs)"
| "demo_condition c _ = True"

fun demo_matches :: "json \<Rightarrow> demo_conn \<Rightarrow> bool" where
  "demo_matches (JObj ms) c = list_all (demo_condition c) ms"
| "demo_matches _ c = False"

definition demo_xray :: "demo_conn xray" where
  "demo_xray = demo_base\<lparr>xr_matches := demo_matches\<rparr>"

lemma demo_reads: "reads_rules demo_xray"
proof -
  have "condition_holds demo_xray c cond = condition_holds demo_base c cond" for c cond
    by (simp add: condition_holds_def demo_xray_def)
  moreover have "map demo_value (map JStr vs) = vs" for vs by (induction vs) auto
  ultimately have "list_all (demo_condition c) (conditions cs) = list_all (condition_holds demo_xray c) cs" for c cs
    by (induction cs) (auto simp: str_array_def)
  then show ?thesis by (simp add: reads_rules_def demo_xray_def field_rule_def)
qed

definition demo_skeleton :: string where
  "demo_skeleton = ''{\"outbounds\":[{\"tag\":\"d\"}],\"routing\":{\"rules\":[{\"outboundTag\":\"d\"}]}}''"

definition demo_source :: inbound_source where
  "demo_source = \<lparr>src_profile_id = ''p'', src_profile_name = ''P'', src_template = ''{\"tag\":\"in\"}'',
     src_ctx = NewContext [] [], src_clients = [''{\"email\":\"a\"}'']\<rparr>"

definition demo_exit :: exit_source where
  "demo_exit = \<lparr>ex_tag = ''x'', ex_outbound = ''{\"tag\":\"x\"}'', ex_emails = [''b'']\<rparr>"

definition demo_block :: block_source where
  "demo_block = \<lparr>bl_cidrs = [''10.0.0.0/8''], bl_domains = [], bl_emails = [''a'', ''b'']\<rparr>"

definition demo_egress :: egress_source where
  "demo_egress = \<lparr>eg_tag = ''d'', eg_outbound = [], eg_domains = [''y''], eg_ips = []\<rparr>"

definition demo_out :: string where
  "demo_out = (case AssembleNodeWithEgress demo_skeleton [demo_source] [demo_exit] [demo_block] [demo_egress] of
     Inl e \<Rightarrow> [] | Inr out \<Rightarrow> out)"

lemma demo_assembled:
  "AssembleNodeWithEgress demo_skeleton [demo_source] [demo_exit] [demo_block] [demo_egress] = Inr demo_out"
proof -
  have "is_ok (AssembleNodeWithEgress demo_skeleton [demo_source] [demo_exit] [demo_block] [demo_egress])"
    by code_simp
  then show ?thesis by (auto simp: demo_out_def is_ok_def split: sum.splits)
qed

theorem assembled_routing_witness:
  "route demo_xray (routing_rules (read_config demo_out)) \<lparr>dc_user = ''b'', dc_inbound = ''in'', dc_dest = ''10.0.0.0/8''\<rparr> = Some BlackholeTag
   \<and> route demo_xray (routing_rules (read_config demo_out)) \<lparr>dc_user = ''b'', dc_inbound = ''in'', dc_dest = ''z''\<rparr> = Some ''x''"
  by (simp only: assembled_routing [OF demo_assembled demo_reads]) code_simp

theorem assembled_parts_witness:
  "\<exists>rendered eobs xobs. length rendered = 1
     \<and> slice_part ''inbounds'' (read_config demo_out) = [api_inbound] @ rendered
     \<and> slice_part ''outbounds'' (read_config demo_out) = slice_part ''outbounds'' (skeleton_config demo_skeleton) @ [blackhole] @ eobs @ xobs"
proof -
  have "\<not> own_api (skeleton_config demo_skeleton)" "slice_part ''inbounds'' (skeleton_config demo_skeleton) = []"
    "list_ex (\<lambda>b. bl_emails b \<noteq> [] \<and> (bl_cidrs b \<noteq> [] \<or> bl_domains b \<noteq> [])) [demo_block]"
    by code_simp+
  with assembled_parts [OF demo_assembled] show ?thesis by auto
qed

theorem injected_api_address_witness:
  "APIAddress demo_out = ''127.0.0.1:10085'' \<and> apiAddressOf demo_out = ''127.0.0.1:10085''"
proof (rule injected_api_address [OF demo_assembled])
  show "\<not> own_api (skeleton_config demo_skeleton)" by code_simp
  show "dec_view True no_view (JObj (read_config demo_out)) \<noteq> None"
    "dec_view False no_view (JObj (read_config demo_out)) \<noteq> None"
    unfolding read_assembled [OF demo_assembled] by code_simp+
qed

definition demo_ports :: string where
  "demo_ports = ''{\"inbounds\":[{\"port\":\"443\"}]}''"

definition demo_ports_out :: string where
  "demo_ports_out = (case AssembleNode demo_ports [] of Inl e \<Rightarrow> [] | Inr out \<Rightarrow> out)"

theorem string_port_hides_api_witness:
  "is_ok (AssembleNode demo_ports []) \<and> APIAddress demo_ports_out = [] \<and> apiAddressOf demo_ports_out = []"
proof -
  have ok: "is_ok (AssembleNode demo_ports [])" by code_simp
  then have a: "AssembleNodeWithEgress demo_ports [] [] [] [] = Inr demo_ports_out"
    by (auto simp: demo_ports_out_def is_ok_def AssembleNode_def AssembleNodeFull_def split: sum.splits)
  moreover have "JObj [(''port'', JStr ''443'')] \<in> set (slice_part ''inbounds'' (read_config demo_ports_out))"
    unfolding read_assembled [OF a] by code_simp
  ultimately show ?thesis
    using ok string_port_hides_api [of demo_ports "[]" "[]" "[]" "[]" demo_ports_out "[(''port'', JStr ''443'')]" "''port''" "''443''"]
    by simp
qed

definition demo_stored :: string where
  "demo_stored = (case ReplaceBlocks demo_skeleton [demo_block] of Inl e \<Rightarrow> [] | Inr out \<Rightarrow> out)"

definition demo_rolled_back :: string where
  "demo_rolled_back = (case ReplaceBlocks demo_stored [] of Inl e \<Rightarrow> [] | Inr out \<Rightarrow> out)"

theorem rollback_applies_present_blocks_witness:
  "route demo_xray (routing_rules (read_config demo_rolled_back)) \<lparr>dc_user = ''b'', dc_inbound = ''in'', dc_dest = ''10.0.0.0/8''\<rparr>
     = Some ''d''"
proof -
  have "is_ok (ReplaceBlocks demo_skeleton [demo_block])" "is_ok (ReplaceBlocks demo_stored [])" by code_simp+
  then have "ReplaceBlocks demo_skeleton [demo_block] = Inr demo_stored" "ReplaceBlocks demo_stored [] = Inr demo_rolled_back"
    by (auto simp: demo_stored_def demo_rolled_back_def is_ok_def split: sum.splits)
  note r = rollback_applies_present_blocks [OF this demo_reads, THEN conjunct1]
  show ?thesis unfolding r by code_simp
qed

definition demo_null :: inbound_source where
  "demo_null = \<lparr>src_profile_id = ''p'', src_profile_name = ''P'', src_template = ''null'',
     src_ctx = NewContext [] [], src_clients = [''{}'']\<rparr>"

theorem null_template_panics_witness:
  "AssembleNodeWithEgress demo_skeleton [demo_null] [] [] [] = Inl (InProfile (src_profile_name demo_null) NilMapPanic)"
proof (rule null_template_panics)
  show "parse_object (if demo_skeleton = [] then DefaultSkeleton else demo_skeleton) = Some (Some (skeleton_config demo_skeleton))"
    by code_simp
  show "slice_field ''inbounds'' (skeleton_config demo_skeleton) = Some None" by code_simp
  show "Render (src_ctx demo_null) (src_template demo_null) = Inr ''null''" by code_simp
  show "src_clients demo_null \<noteq> []" by code_simp
  show "client_objects (src_clients demo_null) = Inr [JObj []]" by code_simp
qed

definition demo_config :: config where
  "demo_config = (case assemble_config demo_skeleton [demo_source] [demo_exit] [demo_block] [demo_egress] of
     Inl e \<Rightarrow> [] | Inr cfg \<Rightarrow> cfg)"

lemma demo_read: "read_config demo_out = demo_config"
  by (simp add: read_assembled [OF demo_assembled] demo_config_def)

theorem rule_targets_exist_witness:
  "''x'' \<in> set [''d'', BlackholeTag, ''x''] \<or> (\<exists>api. map_of (read_config demo_out) ''api'' = Some api \<and> str_field ''tag'' [] api = Some ''x'')"
proof (rule rule_targets_exist [OF demo_assembled])
  show "map_of (read_config demo_out) ''outbounds'' = Some (the (map_of demo_config ''outbounds''))"
    unfolding demo_read by code_simp
  show "dec_tags (the (map_of demo_config ''outbounds'')) = Some [''d'', BlackholeTag, ''x'']" by code_simp
  show "map_of (read_config demo_out) ''routing'' = Some (the (map_of demo_config ''routing''))"
    unfolding demo_read by code_simp
  show "dec_rule_tags (the (map_of demo_config ''routing'')) = Some [APIHandlerTag, BlackholeTag, ''d'', ''x'', ''d'']" by code_simp
  show "''x'' \<in> set [APIHandlerTag, BlackholeTag, ''d'', ''x'', ''d'']" by simp
  show "''x'' \<noteq> []" by simp
qed

definition demo_inbound :: json where
  "demo_inbound = (case render_inbound demo_source of Inl e \<Rightarrow> JNull | Inr j \<Rightarrow> j)"

theorem entitled_clients_spliced_witness:
  "\<exists>m settings' added. demo_inbound = JObj m \<and> map_of m ''settings'' = Some (JObj settings') \<and> length added = 1
     \<and> slice_part ''clients'' settings' = added"
proof -
  have "Render (src_ctx demo_source) (src_template demo_source) = Inr ''{\"tag\":\"in\"}''" by code_simp
  moreover have "parse_object ''{\"tag\":\"in\"}'' = Some (Some [(''tag'', JStr ''in'')])" by code_simp
  moreover have "map_field ''settings'' [(''tag'', JStr ''in'')] = Some None" by code_simp
  moreover have "src_clients demo_source \<noteq> []" by code_simp
  moreover have "render_inbound demo_source = Inr demo_inbound" by code_simp
  moreover have "length (src_clients demo_source) = 1" "slice_part ''clients'' (entries None) = []" by code_simp+
  ultimately show ?thesis using entitled_clients_spliced [of demo_source] by fastforce
qed

end
