(* ===== verification/Advisories.thy ===== *)
theory Advisories
  imports Assemble
begin

text \<open>
  Warnings about configurations that pass validation and still do not do what they look like:
  \<open>core/internal/template/advisories.go\<close>. A message is a constructor with what the text names. The kinds of client
  templates are ASCII words, for which \<open>strings.ToLower\<close> is \<^const>\<open>to_lower\<close>.
\<close>

datatype advisory =
    IPEgressUnresolved
  | IPBlockUnresolved
  | DomainBlockOnly
  | RealityRefuses string string
  | SniffingOverrides string

fun dec_bool :: "bool \<Rightarrow> json \<Rightarrow> bool option" where
  "dec_bool x JNull = Some x"
| "dec_bool x (JBool b) = Some b"
| "dec_bool x _ = None"

section \<open>Routing\<close>

record route_view =
  rt_ip :: "string list"
  rt_domain :: "string list"
  rt_outbound_tag :: string

definition no_route :: route_view where
  "no_route = \<lparr>rt_ip = [], rt_domain = [], rt_outbound_tag = []\<rparr>"

definition dec_route :: "route_view \<Rightarrow> json \<Rightarrow> route_view option" where
  "dec_route = dec_struct (\<lambda>k v x.
     if k = ''ip'' then map_option (\<lambda>s. x\<lparr>rt_ip := s\<rparr>) (dec_slice dec_str [] (rt_ip x) v)
     else if k = ''domain'' then map_option (\<lambda>s. x\<lparr>rt_domain := s\<rparr>) (dec_slice dec_str [] (rt_domain x) v)
     else if k = ''outboundtag'' then map_option (\<lambda>s. x\<lparr>rt_outbound_tag := s\<rparr>) (dec_str (rt_outbound_tag x) v)
     else Some x)"

type_synonym routes = "string \<times> route_view list"

definition dec_routes :: "routes \<Rightarrow> json \<Rightarrow> routes option" where
  "dec_routes = dec_struct (\<lambda>k v x.
     if k = ''domainstrategy'' then map_option (\<lambda>s. (s, snd x)) (dec_str (fst x) v)
     else if k = ''rules'' then map_option (\<lambda>rs. (fst x, rs)) (dec_slice dec_route no_route (snd x) v)
     else Some x)"

definition routes_of :: "string \<Rightarrow> routes option" where
  "routes_of configJSON =
     Option.bind (json_parse configJSON)
       (dec_struct (\<lambda>k v x. if k = ''routing'' then dec_routes x v else Some x) ([], []))"

definition blockAdvisories :: "string \<Rightarrow> string list \<Rightarrow> advisory list" where
  "blockAdvisories configJSON egressTags =
     (case routes_of configJSON of
        None \<Rightarrow> []
      | Some (strategy, rules) \<Rightarrow>
          (let blocks = filter (\<lambda>r. rt_outbound_tag r = BlackholeTag) rules;
               hasIPBlock = list_ex (\<lambda>r. rt_ip r \<noteq> []) blocks;
               hasDomainBlock = list_ex (\<lambda>r. rt_domain r \<noteq> []) blocks;
               hasIPEgress = list_ex (\<lambda>r. rt_outbound_tag r \<noteq> BlackholeTag \<and> rt_ip r \<noteq> []
                               \<and> rt_outbound_tag r \<in> set egressTags) rules
           in (if hasIPEgress \<and> \<not> hasIPBlock \<and> strategy \<noteq> ''IPOnDemand'' then [IPEgressUnresolved] else [])
              @ (if hasIPBlock \<and> strategy \<noteq> ''IPOnDemand'' then [IPBlockUnresolved] else [])
              @ (if hasDomainBlock \<and> \<not> hasIPBlock then [DomainBlockOnly] else [])))"

section \<open>Inbounds\<close>

record stream_view =
  sv_tag :: string
  sv_security :: string
  sv_min_client :: string
  sv_sniffing :: bool
  sv_dest_override :: "string list"
  sv_route_only :: bool

definition no_stream :: stream_view where
  "no_stream = \<lparr>sv_tag = [], sv_security = [], sv_min_client = [], sv_sniffing = False, sv_dest_override = [], sv_route_only = False\<rparr>"

definition dec_stream :: "stream_view \<Rightarrow> json \<Rightarrow> stream_view option" where
  "dec_stream = dec_struct (\<lambda>k v x.
     if k = ''tag'' then map_option (\<lambda>s. x\<lparr>sv_tag := s\<rparr>) (dec_str (sv_tag x) v)
     else if k = ''streamsettings'' then
       dec_struct (\<lambda>k v x.
         if k = ''security'' then map_option (\<lambda>s. x\<lparr>sv_security := s\<rparr>) (dec_str (sv_security x) v)
         else if k = ''realitysettings'' then
           dec_struct (\<lambda>k v x.
             if k = ''minclientver'' then map_option (\<lambda>s. x\<lparr>sv_min_client := s\<rparr>) (dec_str (sv_min_client x) v)
             else Some x) x v
         else Some x) x v
     else if k = ''sniffing'' then
       dec_struct (\<lambda>k v x.
         if k = ''enabled'' then map_option (\<lambda>b. x\<lparr>sv_sniffing := b\<rparr>) (dec_bool (sv_sniffing x) v)
         else if k = ''destoverride'' then map_option (\<lambda>s. x\<lparr>sv_dest_override := s\<rparr>) (dec_slice dec_str [] (sv_dest_override x) v)
         else if k = ''routeonly'' then map_option (\<lambda>b. x\<lparr>sv_route_only := b\<rparr>) (dec_bool (sv_route_only x) v)
         else Some x) x v
     else Some x)"

definition streams_of :: "string \<Rightarrow> stream_view list option" where
  "streams_of configJSON =
     Option.bind (json_parse configJSON)
       (dec_struct (\<lambda>k v x. if k = ''inbounds'' then dec_slice dec_stream no_stream x v else Some x) [])"

definition sniffingAdvisories :: "stream_view list \<Rightarrow> advisory list" where
  "sniffingAdvisories inbounds =
     map (\<lambda>ib. SniffingOverrides (sv_tag ib))
       (filter (\<lambda>ib. sv_sniffing ib \<and> sv_dest_override ib \<noteq> [] \<and> \<not> sv_route_only ib) inbounds)"

definition servesClashFamily :: "string list \<Rightarrow> bool" where
  "servesClashFamily kinds \<longleftrightarrow> list_ex (\<lambda>k. to_lower k \<in> set [''clash'', ''stash'', ''mihomo'']) kinds"

text \<open>\<open>strconv.Atoi\<close>.\<close>

definition atoi :: "string \<Rightarrow> int option" where
  "atoi s =
     (let d = (if s \<noteq> [] \<and> (hd s = CHR ''-'' \<or> hd s = CHR ''+'') then tl s else s);
          n = (if s \<noteq> [] \<and> hd s = CHR ''-'' then - digits_int d else digits_int d)
      in if d \<noteq> [] \<and> list_all is_digit d \<and> min_int64 \<le> n \<and> n \<le> max_int64 then Some n else None)"

definition refusesClashClients :: "string \<Rightarrow> bool" where
  "refusesClashClients v =
     (case atoi (trim_space (takeWhile (\<lambda>c. c \<noteq> CHR ''.'') v)) of None \<Rightarrow> False | Some n \<Rightarrow> n \<ge> 2)"

definition realityMinClientDefault :: string where "realityMinClientDefault = ''26.3.27''"

definition min_client :: "stream_view \<Rightarrow> string" where
  "min_client ib = (if sv_min_client ib = [] then realityMinClientDefault else sv_min_client ib)"

definition Advisories :: "string \<Rightarrow> string list \<Rightarrow> string list \<Rightarrow> advisory list" where
  "Advisories configJSON clientKinds egressTags =
     (case streams_of configJSON of
        None \<Rightarrow> []
      | Some inbounds \<Rightarrow>
          sniffingAdvisories inbounds @ blockAdvisories configJSON egressTags
          @ (if \<not> servesClashFamily clientKinds then []
             else map (\<lambda>ib. RealityRefuses (sv_tag ib) (min_client ib))
                    (filter (\<lambda>ib. to_lower (sv_security ib) = ''reality'' \<and> refusesClashClients (min_client ib)) inbounds)))"

end
