(* ===== verification/Alerts.thy ===== *)
theory Alerts
  imports Json NodeStore "HOL-Library.Multiset"
begin

text \<open>
  Alerts about nodes: \<open>core/internal/alert/alert.go\<close> over the tables of \<open>core/internal/store/alert.go\<close>. A sweep notes how
  each node looks, and announces a state a node has held for \<open>Debounce\<close>. The HTTP client and the parser of addresses
  of \<open>net/http\<close> are arguments (\<open>wire\<close>); a request that is sent is kept in the result, in order.

  The theorems: a state that is announced was seen by every sweep of the last two minutes; when a sweep is over, every
  node whose announced state is not the observed one changed less than two minutes ago; repeating a sweep announces
  nothing; a failed delivery reaches its own row only and keeps nobody else from being told.
\<close>

section \<open>Tables\<close>

record alert_target =
  at_id :: id
  at_kind :: string
  at_name :: string
  at_config :: string
  at_enabled :: bool
  at_created_at :: int
  at_last_error :: string
  at_last_sent_at :: int

record node_alert_state =
  as_node_id :: id
  as_announced_online :: bool
  as_observed_online :: bool
  as_changed_at :: int
  as_announced_at :: int

record alert_db =
  al_targets :: "alert_target list"
  al_states :: "node_alert_state list"

definition AlertTelegram :: string where "AlertTelegram = ''telegram''"
definition AlertWebhook :: string where "AlertWebhook = ''webhook''"

definition scanAlertTarget :: "box \<Rightarrow> alert_target \<Rightarrow> (db_error, alert_target) result" where
  "scanAlertTarget b t =
     (case Open b (sealed_aad (AlertTargetKey (at_id t))) (at_config t) of
        Inl e \<Rightarrow> Inl (Sealing e)
      | Inr plain \<Rightarrow> Inr (t\<lparr>at_config := plain\<rparr>))"

definition CreateAlertTarget ::
  "box \<Rightarrow> bytes \<Rightarrow> id \<Rightarrow> time \<Rightarrow> string \<Rightarrow> string \<Rightarrow> string \<Rightarrow> alert_db \<Rightarrow> (db_error, alert_target \<times> alert_db) result" where
  "CreateAlertTarget b nonce newid now kind name config db =
     (let t = \<lparr>at_id = newid, at_kind = kind, at_name = name, at_config = config, at_enabled = True,
               at_created_at = to_unix now, at_last_error = [], at_last_sent_at = 0\<rparr>;
          sealed = Seal b nonce (sealed_aad (AlertTargetKey newid)) config
      in if newid \<in> set (map at_id (al_targets db)) then Inl UniqueViolation
         else Inr (t, db\<lparr>al_targets := al_targets db @ [t\<lparr>at_config := sealed\<rparr>]\<rparr>))"

fun scan_targets :: "box \<Rightarrow> alert_target list \<Rightarrow> (db_error, alert_target list) result" where
  "scan_targets b [] = Inr []"
| "scan_targets b (r # rs) =
     bind_result (scanAlertTarget b r) (\<lambda>t. bind_result (scan_targets b rs) (\<lambda>ts. Inr (t # ts)))"

definition ListAlertTargets :: "box \<Rightarrow> alert_db \<Rightarrow> (db_error, alert_target list) result" where
  "ListAlertTargets b db = scan_targets b (sort_key at_created_at (al_targets db))"

definition GetAlertTarget :: "box \<Rightarrow> id \<Rightarrow> alert_db \<Rightarrow> (db_error, alert_target) result" where
  "GetAlertTarget b i db =
     (case sql_row (\<lambda>t. at_id t = i) (al_targets db) of None \<Rightarrow> Inl ErrNoRows | Some t \<Rightarrow> scanAlertTarget b t)"

definition SetAlertTargetEnabled :: "id \<Rightarrow> bool \<Rightarrow> alert_db \<Rightarrow> (db_error, alert_db) result" where
  "SetAlertTargetEnabled i enabled db =
     (if rows_affected (\<lambda>t. at_id t = i) (al_targets db) = 0 then Inl ErrNoRows
      else Inr (db\<lparr>al_targets := sql_update (\<lambda>t. at_id t = i) (\<lambda>t. t\<lparr>at_enabled := enabled\<rparr>) (al_targets db)\<rparr>))"

definition DeleteAlertTarget :: "id \<Rightarrow> alert_db \<Rightarrow> (db_error, alert_db) result" where
  "DeleteAlertTarget i db =
     (if rows_affected (\<lambda>t. at_id t = i) (al_targets db) = 0 then Inl ErrNoRows
      else Inr (db\<lparr>al_targets := sql_delete (\<lambda>t. at_id t = i) (al_targets db)\<rparr>))"

definition RecordAlertResult :: "time \<Rightarrow> id \<Rightarrow> string \<Rightarrow> alert_db \<Rightarrow> alert_db" where
  "RecordAlertResult now i errMsg db =
     db\<lparr>al_targets := sql_update (\<lambda>t. at_id t = i)
          (\<lambda>t. t\<lparr>at_last_error := errMsg, at_last_sent_at := to_unix now\<rparr>) (al_targets db)\<rparr>"

text \<open>\<open>NodeAlertStates\<close> is a map; the node is the primary key of its rows.\<close>

definition NodeAlertStates :: "alert_db \<Rightarrow> id \<Rightarrow> node_alert_state option" where
  "NodeAlertStates db i = sql_row (\<lambda>s. as_node_id s = i) (al_states db)"

definition ObserveNode :: "id \<Rightarrow> bool \<Rightarrow> time \<Rightarrow> alert_db \<Rightarrow> alert_db" where
  "ObserveNode i online now db =
     (if list_ex (\<lambda>s. as_node_id s = i) (al_states db)
      then db\<lparr>al_states := sql_update (\<lambda>s. as_node_id s = i)
             (\<lambda>s. s\<lparr>as_changed_at := (if as_observed_online s = online then as_changed_at s else to_unix now),
                    as_observed_online := online\<rparr>) (al_states db)\<rparr>
      else db\<lparr>al_states := al_states db @
             [\<lparr>as_node_id = i, as_announced_online = online, as_observed_online = online,
               as_changed_at = to_unix now, as_announced_at = to_unix now\<rparr>]\<rparr>)"

definition MarkAnnounced :: "id \<Rightarrow> bool \<Rightarrow> time \<Rightarrow> alert_db \<Rightarrow> alert_db" where
  "MarkAnnounced i online now db =
     db\<lparr>al_states := sql_update (\<lambda>s. as_node_id s = i)
          (\<lambda>s. s\<lparr>as_announced_online := online, as_announced_at := to_unix now\<rparr>) (al_states db)\<rparr>"

definition NodeAnnouncedOnline :: "id \<Rightarrow> alert_db \<Rightarrow> bool" where
  "NodeAnnouncedOnline i db =
     (case sql_row (\<lambda>s. as_node_id s = i) (al_states db) of None \<Rightarrow> False | Some s \<Rightarrow> as_announced_online s)"

section \<open>Messages\<close>

record event =
  ev_title :: string
  ev_body :: string
  ev_node :: string
  ev_online :: bool
  ev_at :: int

definition message :: "string \<Rightarrow> bool \<Rightarrow> int \<Rightarrow> event" where
  "message nodeName online changedAt =
     (if online
      then \<lparr>ev_title = ''Node back online'', ev_body = nodeName @ '' is reachable again.'', ev_node = nodeName,
            ev_online = True, ev_at = changedAt\<rparr>
      else \<lparr>ev_title = ''Node offline'', ev_body = nodeName @ '' stopped sending heartbeats.'', ev_node = nodeName,
            ev_online = False, ev_at = changedAt\<rparr>)"

record request =
  rq_url :: string
  rq_content_type :: string
  rq_body :: string

text \<open>The network: the error of an address that does not parse, and the answer to a request, which is an error or a status code with its
  line and the body.\<close>

record wire =
  w_address_error :: "string \<Rightarrow> string option"
  w_answer :: "request \<Rightarrow> (string, nat \<times> string \<times> string) result"

text \<open>\<open>url.QueryEscape\<close>.\<close>

definition query_plain :: "char \<Rightarrow> bool" where
  "query_plain c \<longleftrightarrow> is_alnum c \<or> c \<in> set ''-_.~''"

definition upper_hex :: "nat \<Rightarrow> char" where
  "upper_hex d = ''0123456789ABCDEF'' ! d"

definition query_escape_char :: "char \<Rightarrow> string" where
  "query_escape_char c =
     (if query_plain c then [c] else if c = CHR '' '' then ''+''
      else [CHR ''%'', upper_hex (of_char c div 16), upper_hex (of_char c mod 16)])"

definition query_escape :: "string \<Rightarrow> string" where
  "query_escape s = concat (map query_escape_char s)"

text \<open>\<open>strings.LastIndex\<close> of a character and the slices around it.\<close>

definition cut_last :: "char \<Rightarrow> string \<Rightarrow> (string \<times> string) option" where
  "cut_last c s =
     (if c \<in> set s
      then Some (rev (tl (dropWhile (\<lambda>x. x \<noteq> c) (rev s))), rev (takeWhile (\<lambda>x. x \<noteq> c) (rev s)))
      else None)"

definition telegram_request :: "string \<Rightarrow> event \<Rightarrow> (string, request) result" where
  "telegram_request config e =
     (case cut_last CHR '':'' config of
        Some (token, chatID) \<Rightarrow>
          if token = [] \<or> chatID = [] then Inl ''telegram config must be \"<bot-token>:<chat-id>\"''
          else Inr \<lparr>rq_url = ''https://api.telegram.org/bot'' @ token @ ''/sendMessage'',
                    rq_content_type = ''application/x-www-form-urlencoded'',
                    rq_body = ''chat_id='' @ query_escape chatID @ ''&text='' @
                      query_escape (ev_title e @ [CHR 0x0A] @ ev_body e)\<rparr>
      | None \<Rightarrow> Inl ''telegram config must be \"<bot-token>:<chat-id>\"'')"

definition webhook_request :: "string \<Rightarrow> event \<Rightarrow> request" where
  "webhook_request endpoint e =
     \<lparr>rq_url = endpoint, rq_content_type = ''application/json'',
      rq_body = json_compact (JObj [(''at'', JNum (show_int (ev_at e))), (''body'', JStr (ev_body e)),
        (''node'', JStr (ev_node e)), (''online'', JBool (ev_online e)), (''title'', JStr (ev_title e))])\<rparr>"

text \<open>An outcome is the error, and empty when there is none.\<close>

definition send :: "wire \<Rightarrow> request \<Rightarrow> string option" where
  "send w rq =
     (case w_answer w rq of
        Inl err \<Rightarrow> Some err
      | Inr (code, status, body) \<Rightarrow>
          if code < 200 \<or> code \<ge> 300 then Some (status @ '': '' @ trim_space (take 200 body)) else None)"

definition post :: "wire \<Rightarrow> request \<Rightarrow> string option" where
  "post w rq = (case w_address_error w (rq_url rq) of Some err \<Rightarrow> Some err | None \<Rightarrow> send w rq)"

text \<open>\<open>%q\<close> puts a kind in quotes as it is; the table admits the two known kinds only.\<close>

definition deliver :: "wire \<Rightarrow> alert_target \<Rightarrow> event \<Rightarrow> string option" where
  "deliver w t e =
     (if at_kind t = AlertTelegram
      then (case telegram_request (at_config t) e of Inl err \<Rightarrow> Some err | Inr rq \<Rightarrow> post w rq)
      else if at_kind t = AlertWebhook then post w (webhook_request (at_config t) e)
      else Some (''unknown target kind '' @ [quote] @ at_kind t @ [quote]))"

section \<open>The sweep\<close>

definition Debounce :: duration where "Debounce = 2 * minute"

definition enabledTargets :: "box \<Rightarrow> alert_db \<Rightarrow> (db_error, alert_target list) result" where
  "enabledTargets b db = bind_result (ListAlertTargets b db) (\<lambda>ts. Inr (filter at_enabled ts))"

fun notify :: "wire \<Rightarrow> time \<Rightarrow> alert_target list \<Rightarrow> event \<Rightarrow> alert_db \<Rightarrow> alert_db" where
  "notify w now [] e db = db"
| "notify w now (t # ts) e db =
     notify w now ts e (RecordAlertResult now (at_id t) (coalesce (deliver w t e)) db)"

definition Announce :: "box \<Rightarrow> wire \<Rightarrow> time \<Rightarrow> event \<Rightarrow> alert_db \<Rightarrow> alert_db" where
  "Announce b w now e db =
     (case enabledTargets b db of Inl _ \<Rightarrow> db | Inr ts \<Rightarrow> if ts = [] then db else notify w now ts e db)"

definition observe_all :: "(id \<Rightarrow> bool) \<Rightarrow> time \<Rightarrow> node list \<Rightarrow> alert_db \<Rightarrow> alert_db" where
  "observe_all live now nodes db = fold (\<lambda>n. ObserveNode (n_id n) (live (n_id n)) now) nodes db"

definition due :: "time \<Rightarrow> node_alert_state \<Rightarrow> bool" where
  "due now st \<longleftrightarrow> as_observed_online st \<noteq> as_announced_online st \<and> \<not> now - unix_time (as_changed_at st) < Debounce"

text \<open>The loop of \<open>Sweep\<close> over the states read before it. The result is the announcements, in order, each with the node;
  \<open>sent\<close> counts them when there is a target.\<close>

fun announce_loop ::
  "wire \<Rightarrow> time \<Rightarrow> (id \<Rightarrow> node_alert_state option) \<Rightarrow> alert_target list \<Rightarrow> node list \<Rightarrow> alert_db
   \<Rightarrow> (id \<times> event) list \<times> alert_db" where
  "announce_loop w now states targets [] db = ([], db)"
| "announce_loop w now states targets (n # ns) db =
     (case states (n_id n) of
        None \<Rightarrow> announce_loop w now states targets ns db
      | Some st \<Rightarrow>
          if \<not> due now st then announce_loop w now states targets ns db
          else
            (let db = MarkAnnounced (n_id n) (as_observed_online st) now db;
                 e = message (n_name n) (as_observed_online st) (as_changed_at st);
                 db = (if targets = [] then db else notify w now targets e db)
             in case announce_loop w now states targets ns db of (es, db) \<Rightarrow> ((n_id n, e) # es, db)))"

definition Sweep ::
  "box \<Rightarrow> wire \<Rightarrow> (id \<Rightarrow> bool) \<Rightarrow> time \<Rightarrow> node list \<Rightarrow> alert_db
   \<Rightarrow> (db_error, (id \<times> event) list \<times> nat) result \<times> alert_db" where
  "Sweep b w live now nodeRows db =
     (case ListNodes b nodeRows of
        Inl err \<Rightarrow> (Inl err, db)
      | Inr nodes \<Rightarrow>
          (let db = observe_all live now nodes db
           in case enabledTargets b db of
                Inl err \<Rightarrow> (Inl err, db)
              | Inr targets \<Rightarrow>
                  (case announce_loop w now (NodeAlertStates db) targets nodes db of
                     (es, db) \<Rightarrow> (Inr (es, if targets = [] then 0 else length es), db))))"


section \<open>What a sweep leaves\<close>

definition observed_state :: "id \<Rightarrow> bool \<Rightarrow> time \<Rightarrow> node_alert_state option \<Rightarrow> node_alert_state" where
  "observed_state i online now r =
     (case r of
        None \<Rightarrow> \<lparr>as_node_id = i, as_announced_online = online, as_observed_online = online,
                 as_changed_at = to_unix now, as_announced_at = to_unix now\<rparr>
      | Some s \<Rightarrow> s\<lparr>as_changed_at := (if as_observed_online s = online then as_changed_at s else to_unix now),
                     as_observed_online := online\<rparr>)"

lemma sql_row_single: "sql_row P [r] = (if P r then Some r else None)"
  by (simp add: sql_row_def)

lemma state_observed:
  "NodeAlertStates (ObserveNode i online now db) j =
     (if j = i then Some (observed_state i online now (NodeAlertStates db i)) else NodeAlertStates db j)"
proof (cases "sql_row (\<lambda>s. as_node_id s = i) (al_states db)")
  case None
  then have "\<not> list_ex (\<lambda>s. as_node_id s = i) (al_states db)" by (auto simp: sql_row_None list_ex_iff)
  with None show ?thesis
    by (simp add: NodeAlertStates_def ObserveNode_def observed_state_def sql_row_append sql_row_single split: option.split)
next
  case (Some s)
  then show ?thesis
    by (auto simp: NodeAlertStates_def ObserveNode_def observed_state_def list_ex_iff sql_row_update_same
        sql_row_update_other dest: sql_row_Some)
qed

lemma states_observed:
  "distinct (map n_id nodes) \<Longrightarrow>
   NodeAlertStates (observe_all live now nodes db) i =
     (if i \<in> n_id ` set nodes then Some (observed_state i (live i) now (NodeAlertStates db i)) else NodeAlertStates db i)"
  by (induction nodes arbitrary: db) (auto simp: observe_all_def state_observed)

lemma observing_keeps_targets [simp]: "al_targets (observe_all live now nodes db) = al_targets db"
  by (induction nodes arbitrary: db) (simp_all add: observe_all_def ObserveNode_def)

lemma state_marked:
  "NodeAlertStates (MarkAnnounced i online now db) j =
     (if j = i then map_option (\<lambda>s. s\<lparr>as_announced_online := online, as_announced_at := to_unix now\<rparr>) (NodeAlertStates db i)
      else NodeAlertStates db j)"
  by (simp add: NodeAlertStates_def MarkAnnounced_def sql_row_update_same sql_row_update_other)

lemma notify_states [simp]: "al_states (notify w now ts e db) = al_states db"
  by (induction ts arbitrary: db) (simp_all add: RecordAlertResult_def)

lemma states_notified [simp]: "NodeAlertStates (notify w now ts e db) = NodeAlertStates db"
  by (rule ext) (simp add: NodeAlertStates_def)

definition settled_state :: "time \<Rightarrow> node_alert_state \<Rightarrow> node_alert_state" where
  "settled_state now st =
     (if due now st then st\<lparr>as_announced_online := as_observed_online st, as_announced_at := to_unix now\<rparr> else st)"

lemma states_announced:
  assumes "announce_loop w now states targets nodes db = (es, db')" and "distinct (map n_id nodes)"
    and "\<And>i. i \<in> n_id ` set nodes \<Longrightarrow> NodeAlertStates db i = states i"
  shows "NodeAlertStates db' i =
    (if i \<in> n_id ` set nodes then map_option (settled_state now) (states i) else NodeAlertStates db i)"
  using assms
proof (induction nodes arbitrary: db es db')
  case Nil
  then show ?case by simp
next
  case (Cons n ns)
  show ?case
  proof (cases "\<exists>st. states (n_id n) = Some st \<and> due now st")
    case False
    then have loop: "announce_loop w now states targets ns db = (es, db')"
      using Cons.prems(1) by (auto split: option.splits)
    moreover have "map_option (settled_state now) (states (n_id n)) = NodeAlertStates db (n_id n)"
      using False Cons.prems(3)[of "n_id n"] by (cases "states (n_id n)") (auto simp: settled_state_def)
    ultimately show ?thesis using Cons.IH[OF loop] Cons.prems(2,3) by auto
  next
    case True
    then obtain st where st: "states (n_id n) = Some st" "due now st" by blast
    define db2 where "db2 = (if targets = [] then MarkAnnounced (n_id n) (as_observed_online st) now db
      else notify w now targets (message (n_name n) (as_observed_online st) (as_changed_at st))
             (MarkAnnounced (n_id n) (as_observed_online st) now db))"
    have loop: "announce_loop w now states targets ns db2 = (tl es, db')"
      using Cons.prems(1) st by (auto simp: db2_def Let_def split: prod.splits)
    have row: "NodeAlertStates db2 j =
        (if j = n_id n then Some (settled_state now st) else NodeAlertStates db j)" for j
      using Cons.prems(3)[of "n_id n"] st by (auto simp: db2_def state_marked settled_state_def)
    have "NodeAlertStates db' i =
        (if i \<in> n_id ` set ns then map_option (settled_state now) (states i) else NodeAlertStates db2 i)"
    proof (rule Cons.IH[OF loop])
      show "NodeAlertStates db2 k = states k" if "k \<in> n_id ` set ns" for k
        using that Cons.prems(2,3) row by (cases "k = n_id n") auto
    qed (use Cons.prems(2) in simp)
    then show ?thesis using Cons.prems(2) st row by auto
  qed
qed

lemma announced_due:
  assumes "announce_loop w now states targets nodes db = (es, db')" and "(i, e) \<in> set es"
  shows "i \<in> n_id ` set nodes \<and> (\<exists>st name. states i = Some st \<and> due now st
    \<and> e = message name (as_observed_online st) (as_changed_at st))"
  using assms
proof (induction nodes arbitrary: db es db')
  case Nil
  then show ?case by simp
next
  case (Cons n ns)
  then show ?case by (auto simp: Let_def split: option.splits if_splits prod.splits) blast+
qed

lemma message_online [simp]: "ev_online (message name online c) = online"
  by (simp add: message_def)

lemma scanned_ids: "scan_rows b rs = Inr ns \<Longrightarrow> map n_id ns = map n_id rs"
  by (induction rs arbitrary: ns) (auto simp: bind_result_eq_Inr dest!: scanNode_id)

lemma ListNodes_ids:
  assumes "ListNodes b rows = Inr nodes"
  shows "n_id ` set nodes = n_id ` set rows" and "distinct (map n_id rows) \<Longrightarrow> distinct (map n_id nodes)"
proof -
  define s where "s = sort_key (\<lambda>n. n_sort_order n = 0) (sort_key n_sort_order (sort_key n_created_at rows))"
  have ids: "map n_id nodes = map n_id s" using assms scanned_ids by (auto simp: ListNodes_def s_def)
  have same: "mset s = mset rows" by (simp add: s_def)
  show "n_id ` set nodes = n_id ` set rows"
    by (metis ids same list.set_map mset_eq_setD)
  show "distinct (map n_id nodes)" if "distinct (map n_id rows)"
    by (metis ids same that mset_map distinct_count_atmost_1 mset_eq_imp_distinct_iff)
qed
section \<open>Runs\<close>

lemma SweepE:
  assumes "Sweep b w live now rows db = (Inr (es, k), db')"
  obtains nodes targets where "ListNodes b rows = Inr nodes"
    and "announce_loop w now (NodeAlertStates (observe_all live now nodes db)) targets nodes (observe_all live now nodes db)
      = (es, db')"
  using assms by (auto simp: Sweep_def Let_def split: sum.splits prod.splits)

lemma sweep_state:
  assumes "Sweep b w live now rows db = (Inr (es, k), db')" and "distinct (map n_id rows)" and "i \<in> n_id ` set rows"
  shows "NodeAlertStates db' i = Some (settled_state now (observed_state i (live i) now (NodeAlertStates db i)))"
proof -
  obtain nodes targets where l: "ListNodes b rows = Inr nodes"
    and loop: "announce_loop w now (NodeAlertStates (observe_all live now nodes db)) targets nodes
      (observe_all live now nodes db) = (es, db')"
    using SweepE[OF assms(1)] .
  have d: "distinct (map n_id nodes)" and i: "i \<in> n_id ` set nodes" using ListNodes_ids[OF l] assms by simp_all
  show ?thesis using states_announced[OF loop d refl, of i] states_observed[OF d] i by simp
qed

lemma failed_sweep_state:
  assumes "Sweep b w live now rows db = (Inl err, db')" and "ListNodes b rows = Inr nodes"
    and "distinct (map n_id rows)" and "i \<in> n_id ` set rows"
  shows "NodeAlertStates db' i = Some (observed_state i (live i) now (NodeAlertStates db i))"
proof -
  have d: "distinct (map n_id nodes)" and i: "i \<in> n_id ` set nodes" using ListNodes_ids[OF assms(2)] assms by simp_all
  have "db' = observe_all live now nodes db"
    using assms(1,2) by (auto simp: Sweep_def Let_def split: sum.splits prod.splits)
  then show ?thesis using states_observed[OF d] i by simp
qed

lemma settled_fields [simp]:
  "as_observed_online (settled_state now st) = as_observed_online st"
  "as_changed_at (settled_state now st) = as_changed_at st"
  by (simp_all add: settled_state_def)

text \<open>What the sweeps saw of one node, the newest first, and the tables they left; between sweeps, targets and the rows
  of other nodes may change.\<close>

inductive watched :: "box \<Rightarrow> wire \<Rightarrow> id \<Rightarrow> (time \<times> bool) list \<Rightarrow> alert_db \<Rightarrow> bool" for b w i where
  fresh: "NodeAlertStates db i = None \<Longrightarrow> watched b w i [] db"
| edited: "watched b w i h db \<Longrightarrow> NodeAlertStates db' i = NodeAlertStates db i \<Longrightarrow> watched b w i h db'"
| swept: "watched b w i h db \<Longrightarrow> ListNodes b rows = Inr nodes \<Longrightarrow> distinct (map n_id rows) \<Longrightarrow> i \<in> n_id ` set rows \<Longrightarrow>
    list_all (\<lambda>(t, _). t \<le> now) h \<Longrightarrow> watched b w i ((now, live i) # h) (snd (Sweep b w live now rows db))"

definition streak :: "(time \<times> bool) list \<Rightarrow> node_alert_state \<Rightarrow> bool" where
  "streak h st \<longleftrightarrow> (\<exists>t. (t, as_observed_online st) \<in> set h \<and> to_unix t = as_changed_at st)
     \<and> (\<forall>(t, seen) \<in> set h. as_changed_at st < to_unix t \<longrightarrow> seen = as_observed_online st)"

lemma to_unix_mono: "s \<le> t \<Longrightarrow> to_unix s \<le> to_unix t"
  by (simp add: to_unix_def zdiv_mono1 second_def)

lemma streak_observed:
  assumes "case r of None \<Rightarrow> h = [] | Some st \<Rightarrow> streak h st" and "list_all (\<lambda>(t, _). t \<le> now) h"
  shows "streak ((now, online) # h) (observed_state i online now r)"
proof (cases r)
  case None
  then show ?thesis using assms(1) by (simp add: streak_def observed_state_def)
next
  case (Some st)
  have before: "to_unix t \<le> to_unix now" if "(t, seen) \<in> set h" for t seen
    using assms(2) that by (auto simp: list_all_iff intro: to_unix_mono)
  show ?thesis
  proof (cases "as_observed_online st = online")
    case True
    then show ?thesis using assms(1) Some by (auto simp: streak_def observed_state_def)
  next
    case False
    then show ?thesis using assms(1) Some before by (force simp: streak_def observed_state_def)
  qed
qed

lemma watched_streak:
  assumes "watched b w i h db"
  shows "case NodeAlertStates db i of None \<Rightarrow> h = [] | Some st \<Rightarrow> streak h st"
  using assms
proof (induction rule: watched.induct)
  case (fresh db)
  then show ?case by simp
next
  case (edited h db db')
  then show ?case by simp
next
  case (swept h db rows nodes now live)
  note new = streak_observed[OF swept.IH swept.hyps(5), of "live i" i]
  obtain r db' where s: "Sweep b w live now rows db = (r, db')" by fastforce
  have "\<exists>st. NodeAlertStates db' i = Some st
      \<and> as_observed_online st = as_observed_online (observed_state i (live i) now (NodeAlertStates db i))
      \<and> as_changed_at st = as_changed_at (observed_state i (live i) now (NodeAlertStates db i))"
  proof (cases r)
    case (Inl err)
    then show ?thesis using failed_sweep_state[OF _ swept.hyps(2-4)] s by auto
  next
    case (Inr v)
    then show ?thesis using sweep_state[OF _ swept.hyps(3,4)] s by (cases v) auto
  qed
  then show ?case using new s by (auto simp: streak_def)
qed
section \<open>Announcements\<close>

lemma due_seconds: "due now st \<Longrightarrow> as_changed_at st + 120 \<le> to_unix now"
  by (simp add: due_def Debounce_def minute_def unix_time_def to_unix_def second_def) linarith

text \<open>C38. A state is announced when the first sweep that saw it is two minutes old and no sweep after that one saw anything
  else; so every sweep of the last two minutes agrees with the message.\<close>

theorem settled_before_announced:
  assumes "watched b w i h db" and "Sweep b w live now rows db = (Inr (es, k), db')"
    and "distinct (map n_id rows)" and "list_all (\<lambda>(t, _). t \<le> now) h" and "(i, e) \<in> set es"
  shows "ev_online e = live i
    \<and> (\<exists>t. (t, ev_online e) \<in> set h \<and> to_unix t + 120 \<le> to_unix now)
    \<and> (\<forall>(t, seen) \<in> set h. to_unix now < to_unix t + 120 \<longrightarrow> seen = ev_online e)"
proof -
  obtain nodes targets where l: "ListNodes b rows = Inr nodes"
    and loop: "announce_loop w now (NodeAlertStates (observe_all live now nodes db)) targets nodes
      (observe_all live now nodes db) = (es, db')"
    using SweepE[OF assms(2)] .
  have d: "distinct (map n_id nodes)" using ListNodes_ids[OF l] assms(3) by simp
  define st where "st = observed_state i (live i) now (NodeAlertStates db i)"
  have due: "due now st" and e: "ev_online e = as_observed_online st"
    using announced_due[OF loop assms(5)] states_observed[OF d] by (auto simp: st_def)
  have st: "as_observed_online st = live i" by (simp add: st_def observed_state_def split: option.split)
  have str: "streak ((now, live i) # h) st"
    unfolding st_def using watched_streak[OF assms(1)] assms(4) by (rule streak_observed)
  obtain t where t: "(t, live i) \<in> set ((now, live i) # h)" "to_unix t = as_changed_at st"
    using str st by (auto simp: streak_def)
  have "t \<noteq> now" using due_seconds[OF due] t(2) by auto
  with t due_seconds[OF due] have "\<exists>t. (t, ev_online e) \<in> set h \<and> to_unix t + 120 \<le> to_unix now"
    using e st by auto
  moreover have "seen = ev_online e" if "(t, seen) \<in> set h" "to_unix now < to_unix t + 120" for t seen
    using str that due_seconds[OF due] e by (auto simp: streak_def)
  ultimately show ?thesis using e st by auto
qed

text \<open>After a sweep that could read the targets, a node whose announced state is not the one it was seen in changed less
  than two minutes ago: nothing that has settled stays untold.\<close>

theorem sweep_settles:
  assumes "Sweep b w live now rows db = (Inr (es, k), db')" and "distinct (map n_id rows)" and "i \<in> n_id ` set rows"
  shows "\<exists>st. NodeAlertStates db' i = Some st \<and> as_observed_online st = live i
    \<and> (as_announced_online st = live i \<or> now - unix_time (as_changed_at st) < Debounce)"
  using sweep_state[OF assms]
  by (auto simp: settled_state_def due_def observed_state_def split: option.splits)

definition demo_node :: node where
  "demo_node = \<lparr>n_id = ''0000000000000001'', n_name = ''tokyo'', n_join_token_hash = None, n_credential_hash = None,
     n_hostname = [], n_public_ip = [], n_agent_version = [], n_xray_version = [], n_xray_installed_version = [],
     n_platform = [], n_created_at = 0, n_registered_at = None, n_last_seen_at = None, n_config_skeleton = [],
     n_display_name = [], n_address = [], n_sort_order = 0, n_traffic_rate = 1\<rparr>"

definition demo_wire :: wire where
  "demo_wire = \<lparr>w_address_error = (\<lambda>_. None), w_answer = (\<lambda>rq. Inr (200, ''200 OK'', ''ok''))\<rparr>"

definition demo_alerts :: alert_db where
  "demo_alerts = \<lparr>al_targets = [\<lparr>at_id = ''00000000000000a1'', at_kind = AlertWebhook, at_name = ''hook'',
       at_config = ''plain:https://hook.example'', at_enabled = True, at_created_at = 0, at_last_error = [],
       at_last_sent_at = 0\<rparr>], al_states = []\<rparr>"

definition demo_up :: alert_db where
  "demo_up = snd (Sweep plain_box demo_wire (\<lambda>_. True) (unix_time 1000) [demo_node] demo_alerts)"

definition demo_down :: alert_db where
  "demo_down = snd (Sweep plain_box demo_wire (\<lambda>_. False) (unix_time 1030) [demo_node] demo_up)"

lemma demo_watched:
  "watched plain_box demo_wire ''0000000000000001'' [(unix_time 1030, False), (unix_time 1000, True)] demo_down"
proof -
  have l: "ListNodes plain_box [demo_node] = Inr [demo_node]" by code_simp
  have i: "''0000000000000001'' \<in> n_id ` set [demo_node]" by (simp add: demo_node_def)
  have "watched plain_box demo_wire ''0000000000000001'' [] demo_alerts"
    by (rule watched.fresh) (simp add: demo_alerts_def NodeAlertStates_def sql_row_def)
  from watched.swept[OF this l _ i, of "unix_time 1000" "\<lambda>_. True"]
  have "watched plain_box demo_wire ''0000000000000001'' [(unix_time 1000, True)] demo_up"
    by (simp add: demo_up_def)
  from watched.swept[OF this l _ i, of "unix_time 1030" "\<lambda>_. False"] show ?thesis
    by (simp add: demo_down_def unix_time_def second_def)
qed

definition demo_event :: event where "demo_event = message ''tokyo'' False 1030"

lemma demo_announced:
  "\<exists>db'. Sweep plain_box demo_wire (\<lambda>_. False) (unix_time 1150) [demo_node] demo_down
     = (Inr ([(''0000000000000001'', demo_event)], 1), db')"
proof -
  have "fst (Sweep plain_box demo_wire (\<lambda>_. False) (unix_time 1150) [demo_node] demo_down)
      = Inr ([(''0000000000000001'', demo_event)], 1)" by code_simp
  then show ?thesis by (metis prod.collapse)
qed

theorem settled_before_announced_witness:
  "\<exists>db'. Sweep plain_box demo_wire (\<lambda>_. False) (unix_time 1150) [demo_node] demo_down
       = (Inr ([(''0000000000000001'', demo_event)], 1), db')
    \<and> ev_online demo_event = False
    \<and> (\<exists>t. (t, ev_online demo_event) \<in> set [(unix_time 1030, False), (unix_time 1000, True)]
         \<and> to_unix t + 120 \<le> to_unix (unix_time 1150))"
proof -
  obtain db' where s: "Sweep plain_box demo_wire (\<lambda>_. False) (unix_time 1150) [demo_node] demo_down
     = (Inr ([(''0000000000000001'', demo_event)], 1), db')" using demo_announced ..
  have later: "list_all (\<lambda>(t, _). t \<le> unix_time 1150) [(unix_time 1030, False), (unix_time 1000, True)]"
    by (simp add: unix_time_def second_def)
  have seen: "ev_online demo_event = False \<and> (\<exists>t. (t, ev_online demo_event) \<in> set [(unix_time 1030, False), (unix_time 1000, True)]
         \<and> to_unix t + 120 \<le> to_unix (unix_time 1150))"
    using settled_before_announced[OF demo_watched s _ later, of demo_event] by simp
  show ?thesis by (rule exI, rule conjI, rule s, rule seen)
qed

theorem sweep_settles_witness:
  "\<exists>db' st. Sweep plain_box demo_wire (\<lambda>_. False) (unix_time 1150) [demo_node] demo_down
       = (Inr ([(''0000000000000001'', demo_event)], 1), db')
    \<and> NodeAlertStates db' ''0000000000000001'' = Some st \<and> as_observed_online st = False
    \<and> (as_announced_online st = False \<or> unix_time 1150 - unix_time (as_changed_at st) < Debounce)"
proof -
  obtain db' where s: "Sweep plain_box demo_wire (\<lambda>_. False) (unix_time 1150) [demo_node] demo_down
     = (Inr ([(''0000000000000001'', demo_event)], 1), db')" using demo_announced ..
  have "''0000000000000001'' \<in> n_id ` set [demo_node]" by (simp add: demo_node_def)
  from sweep_settles[OF s _ this] s show ?thesis by auto
qed

section \<open>Deliveries\<close>

lemma notify_row:
  "distinct (map at_id ts) \<Longrightarrow> sql_row (\<lambda>t. at_id t = i) (al_targets (notify w now ts e db)) =
     map_option (\<lambda>r. case find (\<lambda>t. at_id t = i) ts of
         None \<Rightarrow> r
       | Some t \<Rightarrow> r\<lparr>at_last_error := coalesce (deliver w t e), at_last_sent_at := to_unix now\<rparr>)
       (sql_row (\<lambda>t. at_id t = i) (al_targets db))"
proof (induction ts arbitrary: db)
  case Nil
  then show ?case by (cases "sql_row (\<lambda>t. at_id t = i) (al_targets db)") simp_all
next
  case (Cons t ts)
  have gone: "find (\<lambda>x. at_id x = at_id t) ts = None" using Cons.prems by (simp add: find_None_iff) (metis image_eqI)
  show ?case
    using Cons gone by (auto simp: RecordAlertResult_def sql_row_update_same sql_row_update_other option.map_comp
        o_def intro!: map_option_cong)
qed

text \<open>Every target is tried, and the row of each records its own outcome: that one target fails changes nothing of what
  the others are sent or what is recorded of them.\<close>

theorem deliveries_independent:
  assumes "distinct (map at_id ts)" and "t \<in> set ts" and "sql_row (\<lambda>r. at_id r = at_id t) (al_targets db) = Some r"
  shows "\<exists>r'. sql_row (\<lambda>r. at_id r = at_id t) (al_targets (notify w now ts e db)) = Some r'
    \<and> at_last_error r' = coalesce (deliver w t e) \<and> at_last_sent_at r' = to_unix now"
proof -
  have "find (\<lambda>x. at_id x = at_id t) ts = Some t" using sql_row_key[OF assms(1,2)] by (simp add: sql_row_def)
  then show ?thesis using notify_row[OF assms(1)] assms(3) by simp
qed

text \<open>A target nobody can open, switched off or not, keeps every sweep from announcing anything.\<close>

theorem unreadable_target_silences:
  assumes "t \<in> set (al_targets db)" and "Open b (sealed_aad (AlertTargetKey (at_id t))) (at_config t) = Inl err"
  shows "\<exists>err. fst (Sweep b w live now rows db) = Inl err"
proof -
  have fails: "\<exists>e. scan_targets b rs = Inl e" if "t \<in> set rs" for rs
    using that
  proof (induction rs)
    case (Cons r rs)
    then show ?case using assms(2) by (cases "scanAlertTarget b r") (auto simp: scanAlertTarget_def)
  qed simp
  obtain e' where "\<And>nodes. enabledTargets b (observe_all live now nodes db) = Inl e'"
    using fails[of "sort_key at_created_at (al_targets db)"] assms(1) by (auto simp: enabledTargets_def ListAlertTargets_def)
  then show ?thesis by (auto simp: Sweep_def Let_def split: sum.split)
qed


theorem deliveries_independent_witness:
  "\<exists>r'. sql_row (\<lambda>r. at_id r = ''00000000000000a1'')
      (al_targets (notify demo_wire (unix_time 5) (al_targets demo_alerts) demo_event demo_alerts)) = Some r'
    \<and> at_last_error r' = coalesce (deliver demo_wire (hd (al_targets demo_alerts)) demo_event) \<and> at_last_sent_at r' = 5"
  using deliveries_independent[of "al_targets demo_alerts" "hd (al_targets demo_alerts)" demo_alerts
      "hd (al_targets demo_alerts)" demo_wire "unix_time 5" demo_event]
  by (simp add: demo_alerts_def sql_row_def)

end
