(* ===== verification/Users.thy ===== *)
theory Users
  imports Prelude
begin

text \<open>
  Package \<open>user\<close> (\<open>core/internal/user/user.go\<close>) and the rows it works on
  (\<open>core/internal/store/user.go\<close>): subscribers, the one place that decides whether a subscriber's
  credentials should work, and the keys Xray reports traffic under.

  The theorems show that a stats key names one credential (user, profile, node, exit) whatever the
  display names are, that it is safe to pass to \<open>xray api rmu\<close> and inside a stat name, and that
  the keys of the fleet's own links never collide with each other or with a subscriber's.
\<close>

section \<open>Rows\<close>

record user =
  u_id :: id
  u_name :: string
  u_quota_bytes :: int
  u_used_bytes :: int
  u_expires_at :: int
  u_renew_period :: int
  u_enabled :: bool
  u_active :: bool
  u_device_limit :: int
  u_ruleset_id :: "id option"
  u_ruleset_none :: bool
  u_group_id :: "id option"
  u_created_at :: int
  u_updated_at :: int
  u_sub_token_hash :: string
  u_sub_token_enc :: string

record credential =
  c_id :: id
  c_user_id :: id
  c_profile_id :: id
  c_node_id :: id
  c_exit_proxy_id :: id
  c_exit_relay_id :: id
  c_email :: string
  c_secret :: string
  c_up_bytes :: int
  c_down_bytes :: int
  c_created_at :: int

section \<open>Entitlement\<close>

definition ReasonSuspended :: string where "ReasonSuspended = ''suspended''"
definition ReasonExpired :: string where "ReasonExpired = ''expired''"
definition ReasonQuotaExhausted :: string where "ReasonQuotaExhausted = ''quota_exhausted''"

definition Reason :: "user \<Rightarrow> int \<Rightarrow> string" where
  "Reason u now =
     (if \<not> u_enabled u then ReasonSuspended
      else if u_expires_at u \<noteq> 0 \<and> now \<ge> u_expires_at u then ReasonExpired
      else if u_quota_bytes u \<noteq> 0 \<and> u_used_bytes u \<ge> u_quota_bytes u then ReasonQuotaExhausted
      else [])"

definition Allowed :: "user \<Rightarrow> int \<Rightarrow> bool" where
  "Allowed u now \<longleftrightarrow> Reason u now = []"

section \<open>Stats keys\<close>

text \<open>The loop of \<open>sanitize\<close> looks at code points; a byte of a multi-byte one is outside ASCII
  and matches no case, so the loop over bytes writes the same string.\<close>

definition sanitize_step :: "string \<Rightarrow> char \<Rightarrow> string" where
  "sanitize_step b r =
     (if is_alnum r \<or> r = CHR ''_'' then b @ [r]
      else if r = CHR ''-'' \<and> 0 < length b then b @ [r]
      else b)"

definition sanitize :: "string \<Rightarrow> string" where
  "sanitize s = trim_right_char CHR ''-'' (foldl sanitize_step [] s)"

definition StatsEmailForExit :: "string \<Rightarrow> id \<Rightarrow> id \<Rightarrow> id \<Rightarrow> string \<Rightarrow> string" where
  "StatsEmailForExit userName userID profileID nodeID exitID =
     (let pre = sanitize userName;
          pre = (if pre \<noteq> [] then pre @ ''.'' else pre)
      in if exitID = [] then pre @ userID @ ''@'' @ profileID @ ''.'' @ nodeID
         else pre @ userID @ ''@'' @ profileID @ ''.'' @ nodeID @ ''.'' @ exitID)"

definition StatsEmail :: "string \<Rightarrow> id \<Rightarrow> id \<Rightarrow> id \<Rightarrow> string" where
  "StatsEmail userName userID profileID nodeID =
     StatsEmailForExit userName userID profileID nodeID []"

definition exitKey :: "id \<Rightarrow> id \<Rightarrow> string" where
  "exitKey exitID relayID = (if relayID \<noteq> [] then ''r'' @ relayID else exitID)"

definition RelayStatsEmail :: "id \<Rightarrow> id \<Rightarrow> id \<Rightarrow> string" where
  "RelayStatsEmail relayID profileID nodeID = ''relay.'' @ relayID @ ''@'' @ profileID @ ''.'' @ nodeID"

definition EgressStatsEmail :: "id \<Rightarrow> id \<Rightarrow> id \<Rightarrow> string" where
  "EgressStatsEmail ruleID profileID nodeID = ''egress.'' @ ruleID @ ''@'' @ profileID @ ''.'' @ nodeID"

text \<open>The names a client-entry or client template sees for a credential.\<close>

definition machine_vars :: "string \<Rightarrow> string \<Rightarrow> (string, string) gomap" where
  "machine_vars secret email =
     [(''user.uuid'', secret), (''user.password'', secret), (''user.email'', email)]"

definition CredentialVars :: "credential \<Rightarrow> (string, string) gomap" where
  "CredentialVars c = machine_vars (c_secret c) (c_email c)"

definition RelayVars :: "id \<Rightarrow> string \<Rightarrow> id \<Rightarrow> id \<Rightarrow> (string, string) gomap" where
  "RelayVars relayID secret profileID nodeID =
     machine_vars secret (RelayStatsEmail relayID profileID nodeID)"

definition EgressVars :: "id \<Rightarrow> string \<Rightarrow> id \<Rightarrow> id \<Rightarrow> (string, string) gomap" where
  "EgressVars ruleID secret profileID nodeID =
     machine_vars secret (EgressStatsEmail ruleID profileID nodeID)"

definition UserVarNames :: "string list" where
  "UserVarNames = [''user.uuid'', ''user.password'', ''user.email'']"

section \<open>Lemmas\<close>

lemma Reason_suspended: "\<not> u_enabled u \<Longrightarrow> Reason u now = ReasonSuspended"
  by (simp add: Reason_def)

lemma Allowed_iff:
  "Allowed u now \<longleftrightarrow> u_enabled u \<and> (u_expires_at u = 0 \<or> now < u_expires_at u) \<and>
     (u_quota_bytes u = 0 \<or> u_used_bytes u < u_quota_bytes u)"
  by (auto simp: Allowed_def Reason_def ReasonSuspended_def ReasonExpired_def
      ReasonQuotaExhausted_def not_le not_less)

text \<open>Once expired or out of quota, always so: time and the counters only grow.\<close>

lemma Allowed_antimono:
  "Allowed (u\<lparr>u_used_bytes := m\<rparr>) t' \<Longrightarrow> t \<le> t' \<Longrightarrow> n \<le> m \<Longrightarrow> Allowed (u\<lparr>u_used_bytes := n\<rparr>) t"
  by (auto simp: Allowed_iff)

definition stat_char :: "char \<Rightarrow> bool" where
  "stat_char c \<longleftrightarrow> is_alnum c \<or> c = CHR ''_'' \<or> c = CHR ''-''"

lemma not_alnum_dash [simp]: "\<not> is_alnum CHR ''-''"
  by code_simp

lemma sanitize_step_eq:
  "sanitize_step b c = (if stat_char c \<and> (c \<noteq> CHR ''-'' \<or> b \<noteq> []) then b @ [c] else b)"
  by (auto simp: sanitize_step_def stat_char_def)

lemma foldl_sanitize:
  "foldl sanitize_step b s =
     b @ (if b = [] then dropWhile (\<lambda>c. c = CHR ''-'') (filter stat_char s) else filter stat_char s)"
proof (induction s arbitrary: b)
  case Nil
  then show ?case by simp
next
  case (Cons c s)
  have "stat_char CHR ''-''" by (simp add: stat_char_def)
  then show ?case
    using Cons.IH [of b] Cons.IH [of "b @ [c]"] by (cases "b = []") (auto simp: sanitize_step_eq)
qed

lemma sanitize_eq:
  "sanitize s = trim_right_char CHR ''-'' (dropWhile (\<lambda>c. c = CHR ''-'') (filter stat_char s))"
  by (simp add: sanitize_def foldl_sanitize)

lemma trim_right_char_prefix: "prefix (trim_right_char c s) s"
  unfolding trim_right_char_def
  by (metis rev_rev_ident suffix_dropWhile suffix_to_prefix)

lemma trim_right_char_last: "trim_right_char c s = [] \<or> last (trim_right_char c s) \<noteq> c"
  using hd_dropWhile [of "\<lambda>x. x = c" "rev s"] by (auto simp: trim_right_char_def last_rev)

lemma sanitize_chars: "list_all stat_char (sanitize s)"
proof -
  have "set (sanitize s) \<subseteq> set (filter stat_char s)"
    unfolding sanitize_eq using set_trim_right_char by (fastforce dest: set_dropWhileD)
  then show ?thesis by (auto simp: list_all_iff)
qed

lemma sanitize_hd: "sanitize s = [] \<or> hd (sanitize s) \<noteq> CHR ''-''"
proof -
  let ?d = "dropWhile (\<lambda>c. c = CHR ''-'') (filter stat_char s)"
  have "prefix (sanitize s) ?d" by (simp add: sanitize_eq trim_right_char_prefix)
  moreover have "?d = [] \<or> hd ?d \<noteq> CHR ''-''"
    using hd_dropWhile [of "\<lambda>c. c = CHR ''-''" "filter stat_char s"] by blast
  ultimately show ?thesis by (metis hd_append2 prefix_def append_is_Nil_conv)
qed

lemma sanitize_fixed:
  assumes "list_all stat_char s" and "s = [] \<or> hd s \<noteq> CHR ''-'' \<and> last s \<noteq> CHR ''-''"
  shows "sanitize s = s"
proof -
  have "filter stat_char s = s" using assms(1) by (simp add: list_all_iff filter_id_conv)
  moreover have "dropWhile (\<lambda>c. c = CHR ''-'') s = s" using assms(2) by (cases s) auto
  moreover have "trim_right_char CHR ''-'' s = s"
    using assms(2) by (cases s rule: rev_cases) (auto simp: trim_right_char_def)
  ultimately show ?thesis by (simp add: sanitize_eq)
qed

lemma sanitize_idem: "sanitize (sanitize s) = sanitize s"
  using sanitize_hd [of s] trim_right_char_last
  by (intro sanitize_fixed sanitize_chars) (auto simp: sanitize_eq)

section \<open>Reading a key back\<close>

text \<open>The part before the \<open>@\<close> ends in the sixteen characters of the user id, whatever the
  prefix; what follows is the profile, the node and possibly the exit, separated by dots.\<close>

definition key_user :: "string \<Rightarrow> id" where
  "key_user e = (case cut_at CHR ''@'' e of None \<Rightarrow> [] | Some (l, _) \<Rightarrow> drop (length l - 16) l)"

definition key_place :: "string \<Rightarrow> id list" where
  "key_place e = (case cut_at CHR ''@'' e of None \<Rightarrow> [] | Some (_, r) \<Rightarrow> split_on CHR ''.'' r)"

text \<open>An exit is nothing, one provider, or one link of the fleet.\<close>

definition exit_ok :: "id \<Rightarrow> id \<Rightarrow> bool" where
  "exit_ok ex rl \<longleftrightarrow> (ex = [] \<or> hex_id ex) \<and> (rl = [] \<or> hex_id rl) \<and> (ex = [] \<or> rl = [])"

lemma stat_char_sep [simp]: "\<not> stat_char CHR ''@''" "\<not> stat_char CHR ''.''" "\<not> stat_char CHR ''>''"
  by code_simp+

lemma sanitize_no_sep [simp]:
  "CHR ''@'' \<notin> set (sanitize s)" "CHR ''.'' \<notin> set (sanitize s)" "CHR ''>'' \<notin> set (sanitize s)"
  using sanitize_chars [of s] by (auto simp: list_all_iff)

lemma cut_key:
  assumes "hex_id u" and "CHR ''@'' \<notin> set pre"
  shows "cut_at CHR ''@'' (pre @ u @ CHR ''@'' # r) = Some (pre @ u, r)"
proof -
  have "CHR ''@'' \<notin> set (pre @ u)" using assms by (simp add: hex_id_no_char)
  from cut_at_append [OF this, of r] show ?thesis by simp
qed

lemma key_of_email:
  assumes "hex_id u" and "hex_id p" and "hex_id n" and "CHR ''.'' \<notin> set x"
  shows "key_user (StatsEmailForExit name u p n x) = u"
    and "key_place (StatsEmailForExit name u p n x) = [p, n] @ (if x = [] then [] else [x])"
proof -
  let ?pre = "if sanitize name \<noteq> [] then sanitize name @ ''.'' else []"
  let ?place = "p @ CHR ''.'' # (if x = [] then n else n @ CHR ''.'' # x)"
  have "StatsEmailForExit name u p n x = ?pre @ u @ CHR ''@'' # ?place"
    by (simp add: StatsEmailForExit_def Let_def)
  then have cut: "cut_at CHR ''@'' (StatsEmailForExit name u p n x) = Some (?pre @ u, ?place)"
    using cut_key [of u ?pre ?place] assms(1) by simp
  show "key_user (StatsEmailForExit name u p n x) = u"
    using cut assms(1) by (simp add: key_user_def hex_id_def)
  have "CHR ''.'' \<notin> set p" "CHR ''.'' \<notin> set n" using assms by (simp_all add: hex_id_no_char)
  then show "key_place (StatsEmailForExit name u p n x) = [p, n] @ (if x = [] then [] else [x])"
    using cut assms(4) by (simp add: key_place_def split_on_append_sep split_on_no_sep)
qed

lemma exitKey_inj:
  assumes "exit_ok ex rl" and "exit_ok ex' rl'" and "exitKey ex rl = exitKey ex' rl'"
  shows "ex = ex' \<and> rl = rl'"
proof -
  have "\<not> hex_id (CHR ''r'' # s)" for s
    using hex_id_no_char [of "CHR ''r'' # s" "CHR ''r''"] by auto
  with assms show ?thesis
    by (auto simp: exitKey_def exit_ok_def split: if_splits)
qed

lemma exitKey_no_dot: "exit_ok ex rl \<Longrightarrow> CHR ''.'' \<notin> set (exitKey ex rl)"
  by (auto simp: exit_ok_def exitKey_def hex_id_no_char)

section \<open>Properties\<close>

text \<open>A stats key names one credential: if two keys are equal, the user, the profile, the node
  and the exit are equal too, whatever the two display names reduce to.\<close>

theorem stats_email_injective:
  assumes "hex_id u" "hex_id p" "hex_id n" "exit_ok ex rl"
    and "hex_id u'" "hex_id p'" "hex_id n'" "exit_ok ex' rl'"
    and "StatsEmailForExit name u p n (exitKey ex rl) = StatsEmailForExit name' u' p' n' (exitKey ex' rl')"
  shows "u = u' \<and> p = p' \<and> n = n' \<and> ex = ex' \<and> rl = rl'"
proof -
  have "u = u'"
    using key_of_email(1) assms exitKey_no_dot by metis
  have "[p, n] @ (if exitKey ex rl = [] then [] else [exitKey ex rl]) =
      [p', n'] @ (if exitKey ex' rl' = [] then [] else [exitKey ex' rl'])"
    using key_of_email(2) assms exitKey_no_dot by metis
  then have "p = p'" "n = n'" "exitKey ex rl = exitKey ex' rl'" by (auto split: if_splits)
  with \<open>u = u'\<close> assms exitKey_inj show ?thesis by blast
qed

theorem stats_email_injective_witness:
  "StatsEmailForExit ''ann'' ''000000000000000a'' ''000000000000000b'' ''000000000000000c''
       (exitKey ''000000000000000d'' [])
     \<noteq> StatsEmailForExit ''ann'' ''000000000000000a'' ''000000000000000b'' ''000000000000000c''
       (exitKey [] ''000000000000000d'')"
proof
  assume eq: "StatsEmailForExit ''ann'' ''000000000000000a'' ''000000000000000b'' ''000000000000000c''
       (exitKey ''000000000000000d'' []) =
     StatsEmailForExit ''ann'' ''000000000000000a'' ''000000000000000b'' ''000000000000000c''
       (exitKey [] ''000000000000000d'')"
  have ids: "hex_id ''000000000000000a''" "hex_id ''000000000000000b''" "hex_id ''000000000000000c''"
    "exit_ok ''000000000000000d'' []" "exit_ok [] ''000000000000000d''"
    by code_simp+
  from stats_email_injective [OF ids(1-4) ids(1-3) ids(5) eq] show False by simp
qed

text \<open>A stats key is safe where it is used: it never starts with a dash, which
  \<open>xray api rmu\<close> would read as a flag, and never contains the character Xray separates the
  fields of a stat name with. The display name survives only as letters, digits, \<open>_\<close> and
  inner \<open>-\<close>, and reducing it twice is reducing it once.\<close>

theorem stats_email_safe:
  assumes "hex_id u" and "hex_id p" and "hex_id n" and "exit_ok ex rl"
  shows "hd (StatsEmailForExit name u p n (exitKey ex rl)) \<noteq> CHR ''-'' \<and>
    CHR ''>'' \<notin> set (StatsEmailForExit name u p n (exitKey ex rl)) \<and>
    list_all stat_char (sanitize name) \<and> sanitize (sanitize name) = sanitize name"
proof -
  have "CHR ''>'' \<notin> set u" "CHR ''>'' \<notin> set p" "CHR ''>'' \<notin> set n" "CHR ''-'' \<notin> set u"
    "CHR ''>'' \<notin> set (exitKey ex rl)" "u \<noteq> []"
    using assms by (auto simp: hex_id_no_char exitKey_def exit_ok_def)
  moreover have "hd u \<noteq> CHR ''-''" using calculation by (metis hd_in_set)
  ultimately show ?thesis
    using sanitize_hd [of name] sanitize_chars sanitize_idem
    by (auto simp: StatsEmailForExit_def Let_def hd_append)
qed

theorem stats_email_safe_witness:
  "hd (StatsEmailForExit ''--a>b'' ''000000000000000a'' ''000000000000000b'' ''000000000000000c''
      (exitKey [] [])) \<noteq> CHR ''-''"
proof -
  have "hex_id ''000000000000000a''" "hex_id ''000000000000000b''" "hex_id ''000000000000000c''"
    "exit_ok [] []" by code_simp+
  from stats_email_safe [OF this, of "''--a>b''"] show ?thesis by blast
qed

text \<open>The keys of the fleet's own credentials stay apart: a link and an egress rule never
  report under one key, and neither reports under a subscriber's key unless the two rows have the
  same identifier.\<close>

theorem machine_emails_apart:
  assumes "hex_id r" and "hex_id g" and "hex_id p" and "hex_id n" and "hex_id p'" and "hex_id n'"
    and "hex_id u" and "hex_id p''" and "hex_id n''" and "exit_ok ex rl" and "u \<noteq> r" and "u \<noteq> g"
  shows "RelayStatsEmail r p n \<noteq> EgressStatsEmail g p' n' \<and>
    StatsEmailForExit name u p'' n'' (exitKey ex rl) \<noteq> RelayStatsEmail r p n \<and>
    StatsEmailForExit name u p'' n'' (exitKey ex rl) \<noteq> EgressStatsEmail g p' n'"
proof -
  have "key_user (RelayStatsEmail r p n) = r" "key_user (EgressStatsEmail g p' n') = g"
    using cut_key [of r "''relay.''"] cut_key [of g "''egress.''"] assms
    by (simp_all add: RelayStatsEmail_def EgressStatsEmail_def key_user_def hex_id_def)
  moreover have "key_user (StatsEmailForExit name u p'' n'' (exitKey ex rl)) = u"
    using assms by (simp add: key_of_email exitKey_no_dot)
  moreover have "RelayStatsEmail r p n \<noteq> EgressStatsEmail g p' n'"
    by (simp add: RelayStatsEmail_def EgressStatsEmail_def)
  ultimately show ?thesis using assms(11,12) by auto
qed

theorem machine_emails_apart_witness:
  "StatsEmailForExit ''relay'' ''000000000000000a'' ''000000000000000b'' ''000000000000000c'' (exitKey [] [])
     \<noteq> RelayStatsEmail ''000000000000000d'' ''000000000000000b'' ''000000000000000c''"
proof -
  have ids: "hex_id ''000000000000000a''" "hex_id ''000000000000000b''" "hex_id ''000000000000000c''"
    "hex_id ''000000000000000d''" "exit_ok [] []" by code_simp+
  from machine_emails_apart [OF ids(4) ids(4) ids(2) ids(3) ids(2) ids(3) ids(1) ids(2) ids(3) ids(5)]
  show ?thesis by simp
qed

end
