(* ===== verification/Access.thy ===== *)
theory Access
  imports NodeStore Users
begin

text \<open>
  Who may use what: \<open>core/internal/store/group.go\<close>, the entitlement half of
  \<open>core/internal/store/user.go\<close>, \<open>external.go\<close> and \<open>relay.go\<close>.

  A subscriber's answer is resolved in three layers: their own row, their group's, the default.
  The three dimensions of access (fleet nodes, relay lines, external proxies) have one shape, which
  the code expresses with the table names of \<open>accessTables\<close> and the model with a function of
  \<open>dim\<close>. Tables whose key is all their columns are sets of pairs, foreign keys and unique indexes
  are checks that make a write an error, and \<open>ON DELETE CASCADE\<close> is written out.

  The theorems: leaving or deleting a group changes nobody's access; the whole-set editors reach
  the requested end state and store only the differences from the group; reading the relation from
  either end gives one answer; users, groups, nodes and lines start closed; every operation keeps
  the integrity of the tables.
\<close>

section \<open>Tables\<close>

datatype dim = Node | Relay | External

record group =
  g_id :: id
  g_name :: string
  g_note :: string
  g_ruleset_id :: "id option"
  g_created_at :: int

record node_relay =
  r_id :: id
  r_entry_node_id :: id
  r_exit_node_id :: id
  r_profile_id :: id
  r_label :: string
  r_secret :: string
  r_enabled :: bool
  r_sort_order :: int
  r_traffic_rate :: rat
  r_created_at :: int

text \<open>Of an external proxy, the columns access, ordering and billing read.\<close>

record ext_proxy =
  x_id :: id
  x_sort_order :: int
  x_traffic_rate :: rat

record access_db =
  ad_users :: "user list"
  ad_groups :: "group list"
  ad_nodes :: "node list"
  ad_relays :: "node_relay list"
  ad_proxies :: "ext_proxy list"
  ad_profiles :: "id list"
  ad_rulesets :: "id list"
  ad_user_profiles :: "(id \<times> id) set"
  ad_user_profile_denies :: "(id \<times> id) set"
  ad_group_profiles :: "(id \<times> id) set"
  ad_user_denies :: "dim \<Rightarrow> (id \<times> id) set"
  ad_user_allows :: "dim \<Rightarrow> (id \<times> id) set"
  ad_group_denies :: "dim \<Rightarrow> (id \<times> id) set"

definition user_ids :: "access_db \<Rightarrow> id list" where
  "user_ids db = map u_id (ad_users db)"

definition group_ids :: "access_db \<Rightarrow> id list" where
  "group_ids db = map g_id (ad_groups db)"

fun universe :: "access_db \<Rightarrow> dim \<Rightarrow> id list" where
  "universe db Node = map n_id (ad_nodes db)"
| "universe db Relay = map r_id (ad_relays db)"
| "universe db External = map x_id (ad_proxies db)"

text \<open>\<open>accessTables\<close>: a kind names a dimension; the tables are the fields above at it.\<close>

definition accessTables :: "string \<Rightarrow> dim option" where
  "accessTables kind =
     (if kind = ''node'' then Some Node
      else if kind = ''relay'' then Some Relay
      else if kind = ''external'' then Some External
      else None)"

definition user_row :: "access_db \<Rightarrow> id \<Rightarrow> user option" where
  "user_row db u = sql_row (\<lambda>r. u_id r = u) (ad_users db)"

definition group_row :: "access_db \<Rightarrow> id \<Rightarrow> group option" where
  "group_row db g = sql_row (\<lambda>r. g_id r = g) (ad_groups db)"

text \<open>The group column of one subscriber, \<open>None\<close> for \<open>NULL\<close> and for an unknown subscriber, which
  no join row matches.\<close>

definition group_of :: "access_db \<Rightarrow> id \<Rightarrow> id option" where
  "group_of db u = (case user_row db u of None \<Rightarrow> None | Some r \<Rightarrow> u_group_id r)"

section \<open>Resolved answers\<close>

definition effectiveDenies :: "access_db \<Rightarrow> id \<Rightarrow> dim \<Rightarrow> id set" where
  "effectiveDenies db u d =
     rel_of (ad_user_denies db d) u \<union>
     (case group_of db u of
        None \<Rightarrow> {}
      | Some g \<Rightarrow> rel_of (ad_group_denies db d) g - rel_of (ad_user_allows db d) u)"

definition UserNodeDenies :: "access_db \<Rightarrow> id \<Rightarrow> id set" where
  "UserNodeDenies db u = effectiveDenies db u Node"

definition UserExternalDenies :: "access_db \<Rightarrow> id \<Rightarrow> id set" where
  "UserExternalDenies db u = effectiveDenies db u External"

definition UserRelayDenies :: "access_db \<Rightarrow> id \<Rightarrow> id set" where
  "UserRelayDenies db u = effectiveDenies db u Relay"

definition members_denied :: "access_db \<Rightarrow> dim \<Rightarrow> id \<Rightarrow> id set" where
  "members_denied db d x =
     set (map u_id (filter (\<lambda>r. case u_group_id r of None \<Rightarrow> False
                                 | Some g \<Rightarrow> (g, x) \<in> ad_group_denies db d) (ad_users db)))"

definition objectDenies :: "access_db \<Rightarrow> string \<Rightarrow> id \<Rightarrow> (db_error, id set) result" where
  "objectDenies db kind x =
     (case accessTables kind of
        None \<Rightarrow> Inl ErrNoRows
      | Some d \<Rightarrow> Inr (rel_to (ad_user_denies db d) x \<union>
                      (members_denied db d x - rel_to (ad_user_allows db d) x)))"

definition ExternalProxyDenies :: "access_db \<Rightarrow> id \<Rightarrow> (db_error, id set) result" where
  "ExternalProxyDenies db x = objectDenies db ''external'' x"

definition NodeRelayDenies :: "access_db \<Rightarrow> id \<Rightarrow> (db_error, id set) result" where
  "NodeRelayDenies db x = objectDenies db ''relay'' x"

definition held_profiles :: "access_db \<Rightarrow> id \<Rightarrow> id set" where
  "held_profiles db u =
     (rel_of (ad_user_profiles db) u \<union>
      (case group_of db u of None \<Rightarrow> {} | Some g \<Rightarrow> rel_of (ad_group_profiles db) g)) -
     rel_of (ad_user_profile_denies db) u"

definition UserProfileIDs :: "access_db \<Rightarrow> id \<Rightarrow> id list" where
  "UserProfileIDs db u = sorted_list_of_set (held_profiles db u)"

definition profile_users :: "access_db \<Rightarrow> id \<Rightarrow> id set" where
  "profile_users db p =
     (rel_to (ad_user_profiles db) p \<union>
      set (map u_id (filter (\<lambda>r. case u_group_id r of None \<Rightarrow> False
                                  | Some g \<Rightarrow> (g, p) \<in> ad_group_profiles db) (ad_users db)))) -
     rel_to (ad_user_profile_denies db) p"

definition ProfileUserIDs :: "access_db \<Rightarrow> id \<Rightarrow> id list" where
  "ProfileUserIDs db p = sorted_list_of_set (profile_users db p)"

definition group_ruleset :: "access_db \<Rightarrow> id option \<Rightarrow> id option" where
  "group_ruleset db g =
     (case g of None \<Rightarrow> None
      | Some g \<Rightarrow> (case group_row db g of None \<Rightarrow> None | Some r \<Rightarrow> g_ruleset_id r))"

definition EffectiveRulesetID :: "access_db \<Rightarrow> id \<Rightarrow> (db_error, string) result" where
  "EffectiveRulesetID db u =
     (case user_row db u of
        None \<Rightarrow> Inl ErrNoRows
      | Some r \<Rightarrow>
          (let own = coalesce (u_ruleset_id r);
               groupRuleset = coalesce (group_ruleset db (u_group_id r))
           in Inr (if own \<noteq> [] then own else if u_ruleset_none r then [] else groupRuleset)))"

text \<open>The same question as the column expression of \<open>userCols\<close>, read with every user row.\<close>

definition scanned_ruleset :: "access_db \<Rightarrow> user \<Rightarrow> string" where
  "scanned_ruleset db r =
     (case u_ruleset_id r of
        Some v \<Rightarrow> v
      | None \<Rightarrow> (if u_ruleset_none r then [] else coalesce (group_ruleset db (u_group_id r))))"

definition UserGroupID :: "access_db \<Rightarrow> id \<Rightarrow> (db_error, string) result" where
  "UserGroupID db u =
     (case user_row db u of None \<Rightarrow> Inl ErrNoRows | Some r \<Rightarrow> Inr (coalesce (u_group_id r)))"

definition GroupMemberIDs :: "access_db \<Rightarrow> id \<Rightarrow> id list" where
  "GroupMemberIDs db g = sort (map u_id (filter (\<lambda>r. u_group_id r = Some g) (ad_users db)))"

definition GroupProfileIDs :: "access_db \<Rightarrow> id \<Rightarrow> id list" where
  "GroupProfileIDs db g = sorted_list_of_set (rel_of (ad_group_profiles db) g)"

record own_access =
  oa_group_id :: string
  oa_profiles :: "id set"
  oa_profile_denies :: "id set"
  oa_denies :: "dim \<Rightarrow> id set"
  oa_allows :: "dim \<Rightarrow> id set"

definition UserOwnAccess :: "access_db \<Rightarrow> id \<Rightarrow> (db_error, own_access) result" where
  "UserOwnAccess db u =
     bind_result (UserGroupID db u) (\<lambda>g.
       Inr \<lparr>oa_group_id = g, oa_profiles = rel_of (ad_user_profiles db) u,
            oa_profile_denies = rel_of (ad_user_profile_denies db) u,
            oa_denies = (\<lambda>d. rel_of (ad_user_denies db d) u),
            oa_allows = (\<lambda>d. rel_of (ad_user_allows db d) u)\<rparr>)"

section \<open>Groups\<close>

definition update_users :: "(user \<Rightarrow> bool) \<Rightarrow> (user \<Rightarrow> user) \<Rightarrow> access_db \<Rightarrow> access_db" where
  "update_users P f db = db\<lparr>ad_users := sql_update P f (ad_users db)\<rparr>"

text \<open>A group is created with a denial of every object there is.\<close>

definition CreateSubscriberGroup ::
  "id \<Rightarrow> string \<Rightarrow> string \<Rightarrow> int \<Rightarrow> access_db \<Rightarrow> (db_error, access_db) result" where
  "CreateSubscriberGroup gid name note now db =
     (if gid \<in> set (group_ids db) \<or> name \<in> set (map g_name (ad_groups db)) then Inl UniqueViolation
      else Inr (db\<lparr>ad_groups := ad_groups db @ [\<lparr>g_id = gid, g_name = name, g_note = note,
                     g_ruleset_id = None, g_created_at = now\<rparr>],
                   ad_group_denies := (\<lambda>d. ad_group_denies db d \<union> Pair gid ` set (universe db d))\<rparr>))"

definition update_group :: "id \<Rightarrow> (group \<Rightarrow> group) \<Rightarrow> access_db \<Rightarrow> (db_error, access_db) result" where
  "update_group g f db =
     (let gs = sql_update (\<lambda>r. g_id r = g) f (ad_groups db) in
      if \<not> distinct (map g_name gs) then Inl UniqueViolation
      else if rows_affected (\<lambda>r. g_id r = g) (ad_groups db) = 0 then Inl ErrNoRows
      else Inr (db\<lparr>ad_groups := gs\<rparr>))"

definition UpdateSubscriberGroup :: "id \<Rightarrow> string \<Rightarrow> string \<Rightarrow> access_db \<Rightarrow> (db_error, access_db) result" where
  "UpdateSubscriberGroup g name note db = update_group g (\<lambda>r. r\<lparr>g_name := name, g_note := note\<rparr>) db"

definition SetGroupRuleset :: "id \<Rightarrow> string \<Rightarrow> access_db \<Rightarrow> (db_error, access_db) result" where
  "SetGroupRuleset g rulesetID db =
     (if rulesetID \<noteq> [] \<and> g \<in> set (group_ids db) \<and> rulesetID \<notin> set (ad_rulesets db) then Inl ForeignKey
      else update_group g (\<lambda>r. r\<lparr>g_ruleset_id := nullIfEmpty rulesetID\<rparr>) db)"

text \<open>One dimension of \<open>detachUser\<close>: the group's denials the member has no exception for become
  their own, then the exceptions go.\<close>

definition detach_dim :: "id \<Rightarrow> id \<Rightarrow> dim \<Rightarrow> access_db \<Rightarrow> access_db" where
  "detach_dim u g d db =
     db\<lparr>ad_user_denies := (ad_user_denies db)(d := ad_user_denies db d \<union>
           Pair u ` (rel_of (ad_group_denies db d) g - rel_of (ad_user_allows db d) u)),
        ad_user_allows := (ad_user_allows db)(d := drop_fst u (ad_user_allows db d))\<rparr>"

definition detachUser :: "id \<Rightarrow> id \<Rightarrow> access_db \<Rightarrow> access_db" where
  "detachUser u g db =
     (let db = db\<lparr>ad_user_profiles := ad_user_profiles db \<union>
                   Pair u ` (rel_of (ad_group_profiles db) g - rel_of (ad_user_profile_denies db) u)\<rparr>;
          db = fold (detach_dim u g) [Node, Relay, External] db;
          db = db\<lparr>ad_user_profile_denies := drop_fst u (ad_user_profile_denies db)\<rparr>
      in update_users (\<lambda>r. u_id r = u \<and> \<not> u_ruleset_none r)
           (\<lambda>r. r\<lparr>u_ruleset_id := (case u_ruleset_id r of Some v \<Rightarrow> Some v
                                  | None \<Rightarrow> group_ruleset db (Some g))\<rparr>) db)"

definition clear_own :: "id \<Rightarrow> access_db \<Rightarrow> access_db" where
  "clear_own u db =
     db\<lparr>ad_user_profiles := drop_fst u (ad_user_profiles db),
        ad_user_profile_denies := drop_fst u (ad_user_profile_denies db),
        ad_user_denies := (\<lambda>d. drop_fst u (ad_user_denies db d)),
        ad_user_allows := (\<lambda>d. drop_fst u (ad_user_allows db d))\<rparr>"

definition SetUserGroup :: "id \<Rightarrow> string \<Rightarrow> int \<Rightarrow> access_db \<Rightarrow> (db_error, access_db) result" where
  "SetUserGroup u groupID now db =
     (case user_row db u of
        None \<Rightarrow> Inl ErrNoRows
      | Some r \<Rightarrow>
          (let previous = coalesce (u_group_id r);
               db = (if previous \<noteq> [] \<and> groupID = [] then detachUser u previous db else db)
           in if groupID \<noteq> [] \<and> groupID \<notin> set (group_ids db) then Inl ForeignKey
              else (let db = update_users (\<lambda>r. u_id r = u)
                          (\<lambda>r. r\<lparr>u_group_id := nullIfEmpty groupID, u_updated_at := now\<rparr>) db
                    in Inr (if groupID \<noteq> [] then clear_own u db else db))))"

definition DeleteSubscriberGroup :: "id \<Rightarrow> access_db \<Rightarrow> (db_error, access_db) result" where
  "DeleteSubscriberGroup g db =
     (let members = map u_id (filter (\<lambda>r. u_group_id r = Some g) (ad_users db));
          db = fold (\<lambda>u. detachUser u g) members db
      in if g \<notin> set (group_ids db) then Inl ErrNoRows
         else Inr (update_users (\<lambda>r. u_group_id r = Some g) (\<lambda>r. r\<lparr>u_group_id := None\<rparr>)
              (db\<lparr>ad_groups := sql_delete (\<lambda>r. g_id r = g) (ad_groups db),
                  ad_group_profiles := drop_fst g (ad_group_profiles db),
                  ad_group_denies := (\<lambda>d. drop_fst g (ad_group_denies db d))\<rparr>)))"

definition BindGroupProfile :: "id \<Rightarrow> id \<Rightarrow> access_db \<Rightarrow> (db_error, access_db) result" where
  "BindGroupProfile g p db =
     (if g \<notin> set (group_ids db) \<or> p \<notin> set (ad_profiles db) then Inl ForeignKey
      else Inr (db\<lparr>ad_group_profiles := insert (g, p) (ad_group_profiles db)\<rparr>))"

definition UnbindGroupProfile :: "id \<Rightarrow> id \<Rightarrow> access_db \<Rightarrow> access_db" where
  "UnbindGroupProfile g p db = db\<lparr>ad_group_profiles := ad_group_profiles db - {(g, p)}\<rparr>"

definition set_group_dim :: "id \<Rightarrow> dim \<Rightarrow> id list \<Rightarrow> access_db \<Rightarrow> access_db" where
  "set_group_dim g d denied db =
     db\<lparr>ad_group_denies := (ad_group_denies db)(d := drop_fst g (ad_group_denies db d) \<union> Pair g ` set denied)\<rparr>"

definition SetGroupNodeAccess ::
  "id \<Rightarrow> id list \<Rightarrow> id list \<Rightarrow> id list \<Rightarrow> access_db \<Rightarrow> (db_error, access_db) result" where
  "SetGroupNodeAccess g deniedNodes deniedProxies deniedRelays db =
     (if (deniedNodes \<noteq> [] \<or> deniedProxies \<noteq> [] \<or> deniedRelays \<noteq> []) \<and> g \<notin> set (group_ids db) \<or>
         \<not> set deniedNodes \<subseteq> set (universe db Node) \<or> \<not> set deniedProxies \<subseteq> set (universe db External) \<or>
         \<not> set deniedRelays \<subseteq> set (universe db Relay)
      then Inl ForeignKey
      else Inr (set_group_dim g Relay deniedRelays (set_group_dim g External deniedProxies
                  (set_group_dim g Node deniedNodes db))))"

section \<open>Exceptions and whole-set editors\<close>

definition SetUserObjectAccess ::
  "id \<Rightarrow> string \<Rightarrow> id \<Rightarrow> bool \<Rightarrow> bool \<Rightarrow> access_db \<Rightarrow> (db_error, access_db) result" where
  "SetUserObjectAccess u kind x allow clear db =
     (case accessTables kind of
        None \<Rightarrow> Inl ErrNoRows
      | Some d \<Rightarrow>
          (let D = ad_user_denies db d - {(u, x)};
               A = ad_user_allows db d - {(u, x)}
           in if \<not> clear \<and> (u \<notin> set (user_ids db) \<or> x \<notin> set (universe db d)) then Inl ForeignKey
              else Inr (db\<lparr>
                ad_user_denies := (ad_user_denies db)(d := if \<not> clear \<and> \<not> allow then insert (u, x) D else D),
                ad_user_allows := (ad_user_allows db)(d := if \<not> clear \<and> allow then insert (u, x) A else A)\<rparr>)))"

definition SetUserProfileAccess ::
  "id \<Rightarrow> id \<Rightarrow> bool \<Rightarrow> bool \<Rightarrow> access_db \<Rightarrow> (db_error, access_db) result" where
  "SetUserProfileAccess u p grant clear db =
     (let G = ad_user_profiles db - {(u, p)};
          D = ad_user_profile_denies db - {(u, p)}
      in if \<not> clear \<and> (u \<notin> set (user_ids db) \<or> p \<notin> set (ad_profiles db)) then Inl ForeignKey
         else Inr (db\<lparr>
           ad_user_profiles := (if \<not> clear \<and> grant then insert (u, p) G else G),
           ad_user_profile_denies := (if \<not> clear \<and> \<not> grant then insert (u, p) D else D)\<rparr>))"

definition BindUserProfile :: "id \<Rightarrow> id \<Rightarrow> access_db \<Rightarrow> (db_error, access_db) result" where
  "BindUserProfile u p db =
     (if u \<notin> set (user_ids db) \<or> p \<notin> set (ad_profiles db) then Inl ForeignKey
      else Inr (db\<lparr>ad_user_profiles := insert (u, p) (ad_user_profiles db)\<rparr>))"

definition UnbindUserProfile :: "id \<Rightarrow> id \<Rightarrow> access_db \<Rightarrow> access_db" where
  "UnbindUserProfile u p db = db\<lparr>ad_user_profiles := ad_user_profiles db - {(u, p)}\<rparr>"

definition SetUserRulesetNone :: "id \<Rightarrow> bool \<Rightarrow> access_db \<Rightarrow> (db_error, access_db) result" where
  "SetUserRulesetNone u none db =
     (if rows_affected (\<lambda>r. u_id r = u) (ad_users db) = 0 then Inl ErrNoRows
      else Inr (update_users (\<lambda>r. u_id r = u) (\<lambda>r. r\<lparr>u_ruleset_none := none, u_ruleset_id := None\<rparr>) db))"

text \<open>The loop that writes a difference as a denial or as an exception: \<open>pair\<close> makes the row of an
  element, \<open>want\<close> and \<open>by_group\<close> are the requested and the inherited answer.\<close>

definition reconcile_step ::
  "('a \<Rightarrow> id \<times> id) \<Rightarrow> ('a \<Rightarrow> bool) \<Rightarrow> ('a \<Rightarrow> bool) \<Rightarrow> 'a \<Rightarrow>
   (id \<times> id) set \<times> (id \<times> id) set \<Rightarrow> (id \<times> id) set \<times> (id \<times> id) set" where
  "reconcile_step pair want by_group x = (\<lambda>(D, A).
     if want x \<and> \<not> by_group x then (insert (pair x) D, A)
     else if \<not> want x \<and> by_group x then (D, insert (pair x) A)
     else (D, A))"

definition setUserDimension ::
  "id \<Rightarrow> string \<Rightarrow> string \<Rightarrow> id list \<Rightarrow> access_db \<Rightarrow> (db_error, access_db) result" where
  "setUserDimension u groupID kind denied db =
     (case accessTables kind of
        None \<Rightarrow> Inl ErrNoRows
      | Some d \<Rightarrow>
          (let byGroup = (if groupID \<noteq> [] then rel_of (ad_group_denies db d) groupID else {});
               (D, A) = fold (reconcile_step (Pair u) (\<lambda>x. x \<in> set denied) (\<lambda>x. x \<in> byGroup))
                          (universe db d)
                          (drop_fst u (ad_user_denies db d), drop_fst u (ad_user_allows db d))
           in Inr (db\<lparr>ad_user_denies := (ad_user_denies db)(d := D),
                      ad_user_allows := (ad_user_allows db)(d := A)\<rparr>)))"

definition SetUserNodeAccess ::
  "id \<Rightarrow> id list \<Rightarrow> id list \<Rightarrow> id list \<Rightarrow> access_db \<Rightarrow> (db_error, access_db) result" where
  "SetUserNodeAccess u deniedNodes deniedProxies deniedRelays db =
     bind_result (UserGroupID db u) (\<lambda>g.
     bind_result (setUserDimension u g ''node'' deniedNodes db) (\<lambda>db.
     bind_result (setUserDimension u g ''external'' deniedProxies db) (\<lambda>db.
       setUserDimension u g ''relay'' deniedRelays db)))"

definition setObjectAccess :: "string \<Rightarrow> id \<Rightarrow> id list \<Rightarrow> access_db \<Rightarrow> (db_error, access_db) result" where
  "setObjectAccess kind x deniedUsers db =
     (case accessTables kind of
        None \<Rightarrow> Inl ErrNoRows
      | Some d \<Rightarrow>
          (let T0 = (drop_snd x (ad_user_denies db d), drop_snd x (ad_user_allows db d));
               by_group = (\<lambda>r. coalesce (u_group_id r) \<noteq> [] \<and>
                              (coalesce (u_group_id r), x) \<in> ad_group_denies db d);
               (D, A) = fold (reconcile_step (\<lambda>r. (u_id r, x)) (\<lambda>r. u_id r \<in> set deniedUsers) by_group)
                          (ad_users db) T0
           in if x \<notin> set (universe db d) \<and> (D, A) \<noteq> T0 then Inl ForeignKey
              else Inr (db\<lparr>ad_user_denies := (ad_user_denies db)(d := D),
                           ad_user_allows := (ad_user_allows db)(d := A)\<rparr>)))"

definition SetExternalProxyAccess :: "id \<Rightarrow> id list \<Rightarrow> access_db \<Rightarrow> (db_error, access_db) result" where
  "SetExternalProxyAccess x deniedUsers db = setObjectAccess ''external'' x deniedUsers db"

definition SetNodeRelayAccess :: "id \<Rightarrow> id list \<Rightarrow> access_db \<Rightarrow> (db_error, access_db) result" where
  "SetNodeRelayAccess x deniedUsers db = setObjectAccess ''relay'' x deniedUsers db"

section \<open>Users, nodes and lines come and go\<close>

definition SetUserRuleset :: "id \<Rightarrow> string \<Rightarrow> access_db \<Rightarrow> (db_error, access_db) result" where
  "SetUserRuleset u rulesetID db =
     (if rows_affected (\<lambda>r. u_id r = u) (ad_users db) = 0 then Inl ErrNoRows
      else if rulesetID \<noteq> [] \<and> rulesetID \<notin> set (ad_rulesets db) then Inl ForeignKey
      else Inr (update_users (\<lambda>r. u_id r = u)
             (\<lambda>r. r\<lparr>u_ruleset_id := nullIfEmpty rulesetID, u_ruleset_none := False\<rparr>) db))"

text \<open>The sealed copy of a subscription token; without a key there is none, and a token is refused.\<close>

definition seal_sub_token :: "box \<Rightarrow> bytes \<Rightarrow> id \<Rightarrow> string \<Rightarrow> (db_error, string) result" where
  "seal_sub_token b nonce u subToken =
     (if subToken = [] then Inr []
      else if \<not> Enabled b then Inl PlaintextSubToken
      else Inr (Seal b nonce (sealed_aad (SubTokenKey u)) subToken))"

text \<open>The row \<open>createUser\<close> inserts takes its counters, flags, ruleset and group from the column
  defaults; a new subscriber is denied every node, line and external proxy there is.\<close>

definition inserted_user :: "string \<Rightarrow> string \<Rightarrow> user \<Rightarrow> user" where
  "inserted_user subTokenHash sealed u =
     u\<lparr>u_used_bytes := 0, u_active := False, u_ruleset_id := None, u_ruleset_none := False,
       u_group_id := None, u_sub_token_hash := subTokenHash, u_sub_token_enc := sealed\<rparr>"

definition createUser ::
  "box \<Rightarrow> bytes \<Rightarrow> id \<Rightarrow> int \<Rightarrow> user \<Rightarrow> string \<Rightarrow> string \<Rightarrow> access_db \<Rightarrow> (db_error, user \<times> access_db) result" where
  "createUser b nonce uid now u subTokenHash subToken db =
     bind_result (seal_sub_token b nonce uid subToken) (\<lambda>sealed.
       if uid \<in> set (user_ids db) \<or> u_name u \<in> set (map u_name (ad_users db)) \<or>
          subTokenHash \<in> set (map u_sub_token_hash (ad_users db))
       then Inl UniqueViolation
       else (let u = u\<lparr>u_id := uid, u_created_at := now, u_updated_at := now\<rparr>;
                 row = inserted_user subTokenHash sealed u
             in Inr (u, db\<lparr>ad_users := ad_users db @ [row],
                           ad_user_denies := (\<lambda>d. ad_user_denies db d \<union> Pair uid ` set (universe db d))\<rparr>)))"

definition ResetSubToken ::
  "box \<Rightarrow> bytes \<Rightarrow> id \<Rightarrow> string \<Rightarrow> string \<Rightarrow> int \<Rightarrow> access_db \<Rightarrow> (db_error, access_db) result" where
  "ResetSubToken b nonce u subToken subTokenHash now db =
     bind_result (seal_sub_token b nonce u subToken) (\<lambda>sealed.
       if u \<notin> set (user_ids db) then Inl ErrNoRows
       else if \<exists>r\<in>set (ad_users db). u_id r \<noteq> u \<and> u_sub_token_hash r = subTokenHash then Inl UniqueViolation
       else Inr (update_users (\<lambda>r. u_id r = u)
             (\<lambda>r. r\<lparr>u_sub_token_hash := subTokenHash, u_sub_token_enc := sealed, u_updated_at := now\<rparr>) db))"

definition UpdateUser :: "user \<Rightarrow> int \<Rightarrow> access_db \<Rightarrow> (db_error, access_db) result" where
  "UpdateUser u now db =
     (if u_id u \<notin> set (user_ids db) then Inl ErrNoRows
      else if \<exists>r\<in>set (ad_users db). u_id r \<noteq> u_id u \<and> u_name r = u_name u then Inl UniqueViolation
      else Inr (update_users (\<lambda>r. u_id r = u_id u)
             (\<lambda>r. r\<lparr>u_name := u_name u, u_quota_bytes := u_quota_bytes u, u_expires_at := u_expires_at u,
                    u_renew_period := u_renew_period u, u_enabled := u_enabled u,
                    u_device_limit := u_device_limit u, u_updated_at := now\<rparr>) db))"

definition SetUserActive :: "id \<Rightarrow> bool \<Rightarrow> int \<Rightarrow> access_db \<Rightarrow> access_db" where
  "SetUserActive u active now db =
     update_users (\<lambda>r. u_id r = u) (\<lambda>r. r\<lparr>u_active := active, u_updated_at := now\<rparr>) db"

definition RenewUser :: "id \<Rightarrow> int \<Rightarrow> int \<Rightarrow> access_db \<Rightarrow> access_db" where
  "RenewUser u newExpiry now db =
     update_users (\<lambda>r. u_id r = u)
       (\<lambda>r. r\<lparr>u_expires_at := newExpiry, u_used_bytes := 0, u_updated_at := now\<rparr>) db"

definition DeleteUser :: "id \<Rightarrow> access_db \<Rightarrow> (db_error, access_db) result" where
  "DeleteUser u db =
     (if u \<notin> set (user_ids db) then Inl ErrNoRows
      else Inr (clear_own u (db\<lparr>ad_users := sql_delete (\<lambda>r. u_id r = u) (ad_users db)\<rparr>)))"

text \<open>A new node or line is denied to every subscriber and to every group.\<close>

definition deny_everyone :: "dim \<Rightarrow> id \<Rightarrow> access_db \<Rightarrow> access_db" where
  "deny_everyone d x db =
     db\<lparr>ad_user_denies := (ad_user_denies db)(d := ad_user_denies db d \<union> (\<lambda>u. (u, x)) ` set (user_ids db)),
        ad_group_denies := (ad_group_denies db)(d := ad_group_denies db d \<union> (\<lambda>g. (g, x)) ` set (group_ids db))\<rparr>"

definition new_node :: "id \<Rightarrow> string \<Rightarrow> string \<Rightarrow> int \<Rightarrow> node" where
  "new_node nid name joinTokenHash now =
     \<lparr>n_id = nid, n_name = name, n_join_token_hash = Some joinTokenHash, n_credential_hash = None,
      n_hostname = [], n_public_ip = [], n_agent_version = [], n_xray_version = [],
      n_xray_installed_version = [], n_platform = [], n_created_at = now, n_registered_at = None,
      n_last_seen_at = None, n_config_skeleton = [], n_display_name = [], n_address = [],
      n_sort_order = 0, n_traffic_rate = 1\<rparr>"

definition CreateNode :: "id \<Rightarrow> string \<Rightarrow> string \<Rightarrow> int \<Rightarrow> access_db \<Rightarrow> (db_error, access_db) result" where
  "CreateNode nid name joinTokenHash now db =
     (let ns = ad_nodes db @ [new_node nid name joinTokenHash now] in
      if \<not> nodes_ok ns then Inl UniqueViolation
      else Inr (deny_everyone Node nid (db\<lparr>ad_nodes := ns\<rparr>)))"

definition inserted_relay :: "box \<Rightarrow> bytes \<Rightarrow> node_relay \<Rightarrow> node_relay" where
  "inserted_relay b nonce r =
     r\<lparr>r_secret := Seal b nonce (sealed_aad (NodeRelayKey (r_id r))) (r_secret r), r_sort_order := 0\<rparr>"

definition CreateNodeRelay ::
  "box \<Rightarrow> bytes \<Rightarrow> id \<Rightarrow> int \<Rightarrow> node_relay \<Rightarrow> access_db \<Rightarrow> (db_error, node_relay \<times> access_db) result" where
  "CreateNodeRelay b nonce rid now r db =
     (let r = r\<lparr>r_id := rid, r_created_at := now,
                r_traffic_rate := (if r_traffic_rate r = 0 then 1 else r_traffic_rate r)\<rparr>;
          row = inserted_relay b nonce r;
          line = (\<lambda>q. (r_entry_node_id q, r_exit_node_id q, r_profile_id q))
      in if rid \<in> set (universe db Relay) \<or> line r \<in> set (map line (ad_relays db)) then Inl UniqueViolation
         else if r_entry_node_id r \<notin> set (universe db Node) \<or> r_exit_node_id r \<notin> set (universe db Node) \<or>
                 r_profile_id r \<notin> set (ad_profiles db)
         then Inl ForeignKey
         else Inr (r, deny_everyone Relay rid (db\<lparr>ad_relays := ad_relays db @ [row]\<rparr>)))"

text \<open>Rows that refer to a deleted object go with it.\<close>

definition forget_object :: "dim \<Rightarrow> id \<Rightarrow> access_db \<Rightarrow> access_db" where
  "forget_object d x db =
     db\<lparr>ad_user_denies := (ad_user_denies db)(d := drop_snd x (ad_user_denies db d)),
        ad_user_allows := (ad_user_allows db)(d := drop_snd x (ad_user_allows db d)),
        ad_group_denies := (ad_group_denies db)(d := drop_snd x (ad_group_denies db d))\<rparr>"

definition delete_relay :: "id \<Rightarrow> access_db \<Rightarrow> access_db" where
  "delete_relay x db =
     forget_object Relay x (db\<lparr>ad_relays := sql_delete (\<lambda>r. r_id r = x) (ad_relays db)\<rparr>)"

definition DeleteNodeRelay :: "id \<Rightarrow> access_db \<Rightarrow> (db_error, access_db) result" where
  "DeleteNodeRelay x db =
     (if x \<notin> set (universe db Relay) then Inl ErrNoRows else Inr (delete_relay x db))"

definition DeleteNode :: "id \<Rightarrow> access_db \<Rightarrow> (db_error, access_db) result" where
  "DeleteNode x db =
     (if x \<notin> set (universe db Node) then Inl ErrNoRows
      else (let lines = map r_id (filter (\<lambda>r. r_entry_node_id r = x \<or> r_exit_node_id r = x) (ad_relays db));
                db = fold delete_relay lines db
            in Inr (forget_object Node x (db\<lparr>ad_nodes := sql_delete (\<lambda>n. n_id n = x) (ad_nodes db)\<rparr>))))"

section \<open>Integrity\<close>

text \<open>What the schema enforces (a stored reference is never the empty string), and that no pair is both denied and allowed.\<close>

definition rows_ok :: "access_db \<Rightarrow> bool" where
  "rows_ok db \<longleftrightarrow>
     distinct (user_ids db) \<and> distinct (group_ids db) \<and> (\<forall>d. distinct (universe db d)) \<and>
     (\<forall>r\<in>set (ad_users db). (\<forall>g. u_group_id r = Some g \<longrightarrow> g \<in> set (group_ids db) \<and> g \<noteq> []) \<and>
        u_ruleset_id r \<noteq> Some []) \<and>
     (\<forall>r\<in>set (ad_groups db). g_ruleset_id r \<noteq> Some [])"

definition profiles_ok :: "access_db \<Rightarrow> bool" where
  "profiles_ok db \<longleftrightarrow>
     ad_user_profiles db \<subseteq> set (user_ids db) \<times> set (ad_profiles db) \<and>
     ad_user_profile_denies db \<subseteq> set (user_ids db) \<times> set (ad_profiles db) \<and>
     ad_group_profiles db \<subseteq> set (group_ids db) \<times> set (ad_profiles db)"

definition dim_ok :: "access_db \<Rightarrow> dim \<Rightarrow> bool" where
  "dim_ok db d \<longleftrightarrow>
     ad_user_denies db d \<subseteq> set (user_ids db) \<times> set (universe db d) \<and>
     ad_user_allows db d \<subseteq> set (user_ids db) \<times> set (universe db d) \<and>
     ad_group_denies db d \<subseteq> set (group_ids db) \<times> set (universe db d) \<and>
     ad_user_denies db d \<inter> ad_user_allows db d = {}"

definition access_inv :: "access_db \<Rightarrow> bool" where
  "access_inv db \<longleftrightarrow> rows_ok db \<and> profiles_ok db \<and> (\<forall>d. dim_ok db d)"

lemmas inv_defs = access_inv_def rows_ok_def profiles_ok_def dim_ok_def

lemma user_ids_update [simp]:
  "(\<And>r. P r \<Longrightarrow> u_id (f r) = u_id r) \<Longrightarrow> user_ids (update_users P f db) = user_ids db"
  by (simp add: user_ids_def update_users_def)

lemma update_users_fields [simp]:
  "ad_groups (update_users P f db) = ad_groups db" "ad_nodes (update_users P f db) = ad_nodes db"
  "ad_relays (update_users P f db) = ad_relays db" "ad_proxies (update_users P f db) = ad_proxies db"
  "ad_profiles (update_users P f db) = ad_profiles db" "ad_rulesets (update_users P f db) = ad_rulesets db"
  "ad_user_profiles (update_users P f db) = ad_user_profiles db"
  "ad_user_profile_denies (update_users P f db) = ad_user_profile_denies db"
  "ad_group_profiles (update_users P f db) = ad_group_profiles db"
  "ad_user_denies (update_users P f db) = ad_user_denies db"
  "ad_user_allows (update_users P f db) = ad_user_allows db"
  "ad_group_denies (update_users P f db) = ad_group_denies db"
  "group_ids (update_users P f db) = group_ids db" "universe (update_users P f db) d = universe db d"
  by (simp_all add: update_users_def group_ids_def) (cases d; simp)

lemma universe_fields [simp]:
  "universe (db\<lparr>ad_users := a\<rparr>) d = universe db d" "universe (db\<lparr>ad_groups := b\<rparr>) d = universe db d"
  "universe (db\<lparr>ad_user_profiles := e\<rparr>) d = universe db d"
  "universe (db\<lparr>ad_user_profile_denies := e\<rparr>) d = universe db d"
  "universe (db\<lparr>ad_group_profiles := e\<rparr>) d = universe db d"
  "universe (db\<lparr>ad_user_denies := h\<rparr>) d = universe db d"
  "universe (db\<lparr>ad_user_allows := h\<rparr>) d = universe db d"
  "universe (db\<lparr>ad_group_denies := h\<rparr>) d = universe db d"
  by (cases d; simp)+

lemma ids_fields [simp]:
  "user_ids (db\<lparr>ad_groups := b\<rparr>) = user_ids db" "user_ids (db\<lparr>ad_nodes := n\<rparr>) = user_ids db"
  "user_ids (db\<lparr>ad_relays := rs\<rparr>) = user_ids db" "user_ids (db\<lparr>ad_user_profiles := e\<rparr>) = user_ids db"
  "user_ids (db\<lparr>ad_user_profile_denies := e\<rparr>) = user_ids db"
  "user_ids (db\<lparr>ad_group_profiles := e\<rparr>) = user_ids db" "user_ids (db\<lparr>ad_user_denies := h\<rparr>) = user_ids db"
  "user_ids (db\<lparr>ad_user_allows := h\<rparr>) = user_ids db" "user_ids (db\<lparr>ad_group_denies := h\<rparr>) = user_ids db"
  "group_ids (db\<lparr>ad_users := a\<rparr>) = group_ids db" "group_ids (db\<lparr>ad_nodes := n\<rparr>) = group_ids db"
  "group_ids (db\<lparr>ad_relays := rs\<rparr>) = group_ids db" "group_ids (db\<lparr>ad_user_profiles := e\<rparr>) = group_ids db"
  "group_ids (db\<lparr>ad_user_profile_denies := e\<rparr>) = group_ids db"
  "group_ids (db\<lparr>ad_group_profiles := e\<rparr>) = group_ids db" "group_ids (db\<lparr>ad_user_denies := h\<rparr>) = group_ids db"
  "group_ids (db\<lparr>ad_user_allows := h\<rparr>) = group_ids db" "group_ids (db\<lparr>ad_group_denies := h\<rparr>) = group_ids db"
  "user_row (db\<lparr>ad_groups := b\<rparr>) w = user_row db w" "user_row (db\<lparr>ad_nodes := n\<rparr>) w = user_row db w"
  "user_row (db\<lparr>ad_relays := rs\<rparr>) w = user_row db w" "user_row (db\<lparr>ad_user_profiles := e\<rparr>) w = user_row db w"
  "user_row (db\<lparr>ad_user_profile_denies := e\<rparr>) w = user_row db w"
  "user_row (db\<lparr>ad_group_profiles := e\<rparr>) w = user_row db w" "user_row (db\<lparr>ad_user_denies := h\<rparr>) w = user_row db w"
  "user_row (db\<lparr>ad_user_allows := h\<rparr>) w = user_row db w" "user_row (db\<lparr>ad_group_denies := h\<rparr>) w = user_row db w"
  by (simp_all add: user_ids_def group_ids_def user_row_def)

section \<open>Leaving a group\<close>

lemma find_map_key:
  assumes "\<And>r. key (f r) = key r"
  shows "find (\<lambda>r. key r = k) (map f t) = map_option f (find (\<lambda>r. key r = k) t)"
  using assms by (induction t) auto

lemma user_row_update:
  assumes "\<And>r. u_id (f r) = u_id r"
  shows "user_row (update_users P f db) w = map_option (\<lambda>r. if P r then f r else r) (user_row db w)"
  unfolding user_row_def update_users_def sql_row_def sql_update_def
  using assms by (simp add: find_map_key [where key = u_id])

lemma user_row_id: "user_row db w = Some r \<Longrightarrow> u_id r = w"
  unfolding user_row_def by (auto dest: sql_row_Some)

lemma user_row_of:
  assumes "distinct (user_ids db)" and "r \<in> set (ad_users db)"
  shows "user_row db (u_id r) = Some r"
  unfolding user_row_def using assms by (intro sql_row_key) (simp_all add: user_ids_def)

lemma user_row_in: "user_row db w \<noteq> None \<longleftrightarrow> w \<in> set (user_ids db)"
  by (auto simp: user_row_def user_ids_def sql_row_None)

lemma rows_ok_row: "rows_ok db \<Longrightarrow> user_row db w = Some r \<Longrightarrow>
    u_ruleset_id r \<noteq> Some [] \<and> (\<forall>g. u_group_id r = Some g \<longrightarrow> g \<in> set (group_ids db) \<and> g \<noteq> [])"
  unfolding user_row_def rows_ok_def by (auto dest!: sql_row_Some)

lemma group_of_Some:
  assumes "access_inv db" and "group_of db w = Some g"
  shows "g \<in> set (group_ids db)" "g \<noteq> []"
  using assms rows_ok_row [of db w] by (auto simp: access_inv_def group_of_def split: option.splits)

text \<open>An update of user rows keeps the integrity when it keeps it row by row.\<close>

lemma update_users_inv:
  assumes "access_inv db" and "\<And>r. u_id (f r) = u_id r"
    and "\<And>r g. r \<in> set (ad_users db) \<Longrightarrow> P r \<Longrightarrow> u_group_id (f r) = Some g \<Longrightarrow>
        g \<in> set (group_ids db) \<and> g \<noteq> []"
    and "\<And>r. r \<in> set (ad_users db) \<Longrightarrow> P r \<Longrightarrow> u_ruleset_id (f r) \<noteq> Some []"
  shows "access_inv (update_users P f db)"
proof -
  have "rows_ok (update_users P f db)"
    using assms by (auto simp: access_inv_def rows_ok_def) (auto simp: update_users_def set_sql_update)
  moreover have "profiles_ok (update_users P f db)" "\<forall>d. dim_ok (update_users P f db) d"
    using assms(1,2) by (simp_all add: inv_defs)
  ultimately show ?thesis by (simp add: access_inv_def)
qed

lemma fold_detach_dim:
  "fold (detach_dim u g) [Node, Relay, External] db =
     db\<lparr>ad_user_denies := (\<lambda>d. ad_user_denies db d \<union>
           Pair u ` (rel_of (ad_group_denies db d) g - rel_of (ad_user_allows db d) u)),
        ad_user_allows := (\<lambda>d. drop_fst u (ad_user_allows db d))\<rparr>"
proof -
  have upd: "f(Node := h Node, Relay := h Relay, External := h External) = h"
    for f h :: "dim \<Rightarrow> (id \<times> id) set"
  proof
    show "(f(Node := h Node, Relay := h Relay, External := h External)) d = h d" for d
      by (cases d) simp_all
  qed
  let ?D = "\<lambda>d. ad_user_denies db d \<union>
      Pair u ` (rel_of (ad_group_denies db d) g - rel_of (ad_user_allows db d) u)"
  show ?thesis
    using upd [of "ad_user_denies db" ?D]
      upd [of "ad_user_allows db" "\<lambda>d. drop_fst u (ad_user_allows db d)"]
    by (simp add: detach_dim_def)
qed

lemma detachUser_eq:
  "detachUser u g db =
     update_users (\<lambda>r. u_id r = u \<and> \<not> u_ruleset_none r)
       (\<lambda>r. r\<lparr>u_ruleset_id := (case u_ruleset_id r of Some v \<Rightarrow> Some v | None \<Rightarrow> group_ruleset db (Some g))\<rparr>)
       (db\<lparr>ad_user_profiles := ad_user_profiles db \<union>
             Pair u ` (rel_of (ad_group_profiles db) g - rel_of (ad_user_profile_denies db) u),
           ad_user_denies := (\<lambda>d. ad_user_denies db d \<union>
             Pair u ` (rel_of (ad_group_denies db d) g - rel_of (ad_user_allows db d) u)),
           ad_user_allows := (\<lambda>d. drop_fst u (ad_user_allows db d)),
           ad_user_profile_denies := drop_fst u (ad_user_profile_denies db)\<rparr>)"
  unfolding detachUser_def Let_def fold_detach_dim
  by (simp add: group_ruleset_def group_row_def cong: option.case_cong)

text \<open>What a subscriber's own rows say, with no group applied.\<close>

definition own_ruleset :: "access_db \<Rightarrow> id \<Rightarrow> string" where
  "own_ruleset db w = (case user_row db w of None \<Rightarrow> [] | Some r \<Rightarrow> coalesce (u_ruleset_id r))"

definition settled :: "access_db \<Rightarrow> access_db \<Rightarrow> id \<Rightarrow> bool" where
  "settled db db' w \<longleftrightarrow>
     rel_of (ad_user_profiles db') w - rel_of (ad_user_profile_denies db') w = held_profiles db w \<and>
     (\<forall>d. rel_of (ad_user_denies db' d) w = effectiveDenies db w d) \<and>
     EffectiveRulesetID db w = (if w \<in> set (user_ids db) then Inr (own_ruleset db' w) else Inl ErrNoRows)"

definition same_own :: "access_db \<Rightarrow> access_db \<Rightarrow> id \<Rightarrow> bool" where
  "same_own db db' w \<longleftrightarrow>
     rel_of (ad_user_profiles db') w = rel_of (ad_user_profiles db) w \<and>
     rel_of (ad_user_profile_denies db') w = rel_of (ad_user_profile_denies db) w \<and>
     (\<forall>d. rel_of (ad_user_denies db' d) w = rel_of (ad_user_denies db d) w \<and>
          rel_of (ad_user_allows db' d) w = rel_of (ad_user_allows db d) w) \<and>
     user_row db' w = user_row db w"

definition same_groups :: "access_db \<Rightarrow> access_db \<Rightarrow> bool" where
  "same_groups db db' \<longleftrightarrow>
     ad_groups db' = ad_groups db \<and> ad_group_profiles db' = ad_group_profiles db \<and>
     ad_group_denies db' = ad_group_denies db \<and> user_ids db' = user_ids db"

definition same_access :: "access_db \<Rightarrow> access_db \<Rightarrow> id \<Rightarrow> bool" where
  "same_access db db' w \<longleftrightarrow>
     held_profiles db' w = held_profiles db w \<and>
     (\<forall>d. effectiveDenies db' w d = effectiveDenies db w d) \<and>
     EffectiveRulesetID db' w = EffectiveRulesetID db w"

text \<open>A profile a subscriber was granted in person and refused in person at once.\<close>

definition profile_exclusive :: "access_db \<Rightarrow> id \<Rightarrow> bool" where
  "profile_exclusive db u \<longleftrightarrow>
     rel_of (ad_user_profiles db) u \<inter> rel_of (ad_user_profile_denies db) u = {}"

lemma rel_of_Pair [simp]: "rel_of (Pair u ` S) w = (if u = w then S else {})"
  by auto

lemma detach_self:
  assumes "access_inv db" and "group_of db u = Some g" and "profile_exclusive db u"
  shows "settled db (detachUser u g db) u"
proof -
  obtain r where r: "user_row db u = Some r" "u_group_id r = Some g"
    using assms(2) by (auto simp: group_of_def split: option.splits)
  have "u_id r = u" using r(1) by (rule user_row_id)
  moreover have "u_ruleset_id r \<noteq> Some []" using assms(1) r(1) rows_ok_row by (auto simp: access_inv_def)
  moreover have "u \<in> set (user_ids db)" using r(1) user_row_in [of db u] by simp
  ultimately show ?thesis
    using assms(2,3) r
    by (auto simp: settled_def detachUser_eq held_profiles_def effectiveDenies_def profile_exclusive_def
        EffectiveRulesetID_def own_ruleset_def user_row_update Let_def split: option.splits)
qed

lemma detach_other: "w \<noteq> u \<Longrightarrow> same_own db (detachUser u g db) w"
  by (auto simp: same_own_def detachUser_eq user_row_update dest: user_row_id split: option.splits
      intro!: option.map_ident_strong)

lemma detach_groups: "same_groups db (detachUser u g db)"
  by (simp add: same_groups_def detachUser_eq)

lemma detach_group_of: "group_of (detachUser u g db) w = group_of db w"
  by (auto simp: group_of_def detachUser_eq user_row_update split: option.splits)

lemma same_own_group_of: "same_own db db' w \<Longrightarrow> group_of db' w = group_of db w"
  by (simp add: same_own_def group_of_def)

lemma same_own_settled:
  assumes "same_own db db' w" and "same_groups db db'"
  shows "settled db' db'' w = settled db db'' w"
proof -
  have "group_ruleset db' = group_ruleset db"
    using assms(2) unfolding same_groups_def
    by (simp add: fun_eq_iff group_ruleset_def group_row_def cong: option.case_cong)
  then show ?thesis
    using assms same_own_group_of [OF assms(1)]
    by (cases "group_of db w")
       (simp_all add: settled_def same_own_def same_groups_def held_profiles_def effectiveDenies_def
        EffectiveRulesetID_def Let_def cong: option.case_cong)
qed

lemma settled_same_own: "same_own db1 db2 w \<Longrightarrow> settled db db2 w = settled db db1 w"
  by (simp add: settled_def same_own_def own_ruleset_def)

lemma same_own_access:
  assumes "same_own db db' w" and "same_groups db db'"
  shows "same_access db db' w"
proof -
  have "group_ruleset db' = group_ruleset db"
    using assms(2) unfolding same_groups_def
    by (simp add: fun_eq_iff group_ruleset_def group_row_def cong: option.case_cong)
  then show ?thesis
    using assms same_own_group_of [OF assms(1)]
    by (cases "group_of db w")
       (simp_all add: same_access_def same_own_def same_groups_def held_profiles_def effectiveDenies_def
        EffectiveRulesetID_def Let_def cong: option.case_cong)
qed

text \<open>Once a member's answers are in their own rows, the group can go.\<close>

lemma settled_access:
  assumes "settled db db1 w" and "user_ids db' = user_ids db"
    and "ad_user_profiles db' = ad_user_profiles db1"
    and "ad_user_profile_denies db' = ad_user_profile_denies db1"
    and "ad_user_denies db' = ad_user_denies db1"
    and "own_ruleset db' w = own_ruleset db1 w" and "group_of db' w = None"
  shows "same_access db db' w"
proof (cases "user_row db' w")
  case None
  with assms user_row_in [of db' w] show ?thesis
    by (auto simp: same_access_def settled_def held_profiles_def effectiveDenies_def EffectiveRulesetID_def)
next
  case (Some r)
  then have "w \<in> set (user_ids db)" using user_row_in [of db' w] assms(2) by simp
  moreover have "EffectiveRulesetID db' w = Inr (own_ruleset db' w)"
    using Some assms(7)
    by (simp add: EffectiveRulesetID_def own_ruleset_def Let_def group_of_def group_ruleset_def)
  ultimately show ?thesis
    using assms by (simp add: same_access_def settled_def held_profiles_def effectiveDenies_def)
qed

lemma detach_inv:
  assumes inv: "access_inv db" and u: "u \<in> set (user_ids db)"
  shows "access_inv (detachUser u g db)"
proof -
  let ?tables = "db\<lparr>ad_user_profiles := ad_user_profiles db \<union>
             Pair u ` (rel_of (ad_group_profiles db) g - rel_of (ad_user_profile_denies db) u),
           ad_user_denies := (\<lambda>d. ad_user_denies db d \<union>
             Pair u ` (rel_of (ad_group_denies db d) g - rel_of (ad_user_allows db d) u)),
           ad_user_allows := (\<lambda>d. drop_fst u (ad_user_allows db d)),
           ad_user_profile_denies := drop_fst u (ad_user_profile_denies db)\<rparr>"
  have "dim_ok ?tables d" for d
  proof -
    have "dim_ok db d" using inv by (simp add: access_inv_def)
    then show ?thesis using u by (auto simp: dim_ok_def)
  qed
  moreover have "profiles_ok ?tables"
    using inv u by (auto simp: access_inv_def profiles_ok_def)
  moreover have "rows_ok ?tables" using inv by (simp add: access_inv_def rows_ok_def)
  ultimately have tables: "access_inv ?tables" by (simp add: access_inv_def)
  have "group_ruleset db (Some g) \<noteq> Some []"
    using inv by (auto simp: access_inv_def rows_ok_def group_ruleset_def group_row_def
        dest!: sql_row_Some split: option.splits)
  then show ?thesis
    unfolding detachUser_eq using inv
    by (intro update_users_inv [OF tables]) (auto simp: access_inv_def rows_ok_def split: option.splits)
qed

lemma fold_detach:
  assumes "access_inv db" and "distinct us"
    and "\<forall>u\<in>set us. group_of db u = Some g \<and> profile_exclusive db u"
  shows "(\<forall>w\<in>set us. settled db (fold (\<lambda>u. detachUser u g) us db) w) \<and>
    (\<forall>w. w \<notin> set us \<longrightarrow> same_own db (fold (\<lambda>u. detachUser u g) us db) w) \<and>
    same_groups db (fold (\<lambda>u. detachUser u g) us db) \<and>
    (\<forall>w. group_of (fold (\<lambda>u. detachUser u g) us db) w = group_of db w) \<and>
    access_inv (fold (\<lambda>u. detachUser u g) us db)"
  using assms
proof (induction us arbitrary: db)
  case Nil
  then show ?case by (simp add: same_own_def same_groups_def)
next
  case (Cons u us)
  let ?db1 = "detachUser u g db" and ?db2 = "fold (\<lambda>u. detachUser u g) us (detachUser u g db)"
  have row: "user_row db u \<noteq> None" using Cons.prems(3) by (auto simp: group_of_def split: option.splits)
  have inv1: "access_inv ?db1"
    using Cons.prems(1) row user_row_in [of db u] by (intro detach_inv) auto
  have other: "same_own db ?db1 w" if "w \<noteq> u" for w using that by (rule detach_other)
  have "\<forall>w\<in>set us. group_of ?db1 w = Some g \<and> profile_exclusive ?db1 w"
    using Cons.prems(2,3) other unfolding detach_group_of profile_exclusive_def same_own_def
    by (metis distinct.simps(2) list.set_intros(2))
  from Cons.IH [OF inv1 _ this] Cons.prems(2) have IH:
    "\<forall>w\<in>set us. settled ?db1 ?db2 w" "\<forall>w. w \<notin> set us \<longrightarrow> same_own ?db1 ?db2 w"
    "same_groups ?db1 ?db2" "\<forall>w. group_of ?db2 w = group_of ?db1 w" "access_inv ?db2"
    by simp_all
  have "settled db ?db2 w" if "w \<in> set (u # us)" for w
  proof (cases "w = u")
    case True
    have "settled db ?db1 u" using Cons.prems(1,3) by (intro detach_self) auto
    with True IH(2) Cons.prems(2) show ?thesis using settled_same_own by auto
  next
    case False
    with that IH(1) same_own_settled [OF other detach_groups] show ?thesis by auto
  qed
  moreover have "same_own db ?db2 w" if "w \<notin> set (u # us)" for w
    using that IH(2) other [of w] by (auto simp: same_own_def)
  moreover have "same_groups db ?db2"
    using IH(3) detach_groups [of db u g] by (auto simp: same_groups_def)
  ultimately show ?case using IH(4,5) by (auto simp: detach_group_of)
qed

lemma sql_row_delete_other:
  "k \<noteq> g \<Longrightarrow> sql_row (\<lambda>r. key r = k) (sql_delete (\<lambda>r. key r = g) t) = sql_row (\<lambda>r. key r = k) t"
  by (induction t) (auto simp: sql_row_def sql_delete_def)

section \<open>Whole-set editors\<close>

lemma fold_reconcile:
  "fold (reconcile_step pair want bg) xs (D, A) =
     (D \<union> pair ` {x \<in> set xs. want x \<and> \<not> bg x}, A \<union> pair ` {x \<in> set xs. \<not> want x \<and> bg x})"
  by (induction xs arbitrary: D A) (auto simp: reconcile_step_def)

definition set_dim :: "dim \<Rightarrow> (id \<times> id) set \<Rightarrow> (id \<times> id) set \<Rightarrow> access_db \<Rightarrow> access_db" where
  "set_dim d D A db = db\<lparr>ad_user_denies := (ad_user_denies db)(d := D), ad_user_allows := (ad_user_allows db)(d := A)\<rparr>"

lemma set_dim_fields [simp]:
  "ad_users (set_dim d D A db) = ad_users db" "ad_groups (set_dim d D A db) = ad_groups db"
  "user_ids (set_dim d D A db) = user_ids db" "group_ids (set_dim d D A db) = group_ids db"
  "universe (set_dim d D A db) e = universe db e" "ad_group_denies (set_dim d D A db) = ad_group_denies db"
  "ad_profiles (set_dim d D A db) = ad_profiles db"
  "ad_user_profiles (set_dim d D A db) = ad_user_profiles db"
  "ad_user_profile_denies (set_dim d D A db) = ad_user_profile_denies db"
  "ad_group_profiles (set_dim d D A db) = ad_group_profiles db"
  "ad_user_denies (set_dim d D A db) = (ad_user_denies db)(d := D)"
  "ad_user_allows (set_dim d D A db) = (ad_user_allows db)(d := A)"
  "user_row (set_dim d D A db) w = user_row db w" "group_of (set_dim d D A db) w = group_of db w"
  by (simp_all add: set_dim_def group_of_def)

lemma set_dim_inv:
  assumes "access_inv db"
    and "D \<subseteq> set (user_ids db) \<times> set (universe db d)" and "A \<subseteq> set (user_ids db) \<times> set (universe db d)"
    and "D \<inter> A = {}"
  shows "access_inv (set_dim d D A db)"
  using assms by (simp add: inv_defs)

text \<open>What \<open>setUserDimension\<close> leaves in the tables of the dimension.\<close>

definition wanted_denies :: "access_db \<Rightarrow> id \<Rightarrow> dim \<Rightarrow> id list \<Rightarrow> (id \<times> id) set" where
  "wanted_denies db u d denied = drop_fst u (ad_user_denies db d) \<union>
     Pair u ` {x \<in> set (universe db d). x \<in> set denied \<and>
       x \<notin> (case group_of db u of None \<Rightarrow> {} | Some g \<Rightarrow> rel_of (ad_group_denies db d) g)}"

definition wanted_allows :: "access_db \<Rightarrow> id \<Rightarrow> dim \<Rightarrow> id list \<Rightarrow> (id \<times> id) set" where
  "wanted_allows db u d denied = drop_fst u (ad_user_allows db d) \<union>
     Pair u ` {x \<in> set (universe db d). x \<notin> set denied \<and>
       x \<in> (case group_of db u of None \<Rightarrow> {} | Some g \<Rightarrow> rel_of (ad_group_denies db d) g)}"

lemma UserGroupID_group_of:
  assumes "access_inv db" and "UserGroupID db u = Inr g"
  shows "u \<in> set (user_ids db)" "group_of db u = nullIfEmpty g"
proof -
  obtain r where r: "user_row db u = Some r" "g = coalesce (u_group_id r)"
    using assms(2) by (auto simp: UserGroupID_def split: option.splits)
  then show "u \<in> set (user_ids db)" using user_row_in [of db u] by simp
  show "group_of db u = nullIfEmpty g"
    using r rows_ok_row [of db u r] assms(1)
    by (cases "u_group_id r") (auto simp: group_of_def nullIfEmpty_def access_inv_def)
qed

lemma setUserDimension_eq:
  assumes "group_of db u = nullIfEmpty g" and "accessTables kind = Some d"
  shows "setUserDimension u g kind denied db =
    Inr (set_dim d (wanted_denies db u d denied) (wanted_allows db u d denied) db)"
  using assms
  by (cases "g = []")
     (simp_all add: setUserDimension_def fold_reconcile set_dim_def wanted_denies_def wanted_allows_def
      nullIfEmpty_def Let_def)

lemma wanted_inv:
  assumes "access_inv db" and "u \<in> set (user_ids db)"
  shows "access_inv (set_dim d (wanted_denies db u d denied) (wanted_allows db u d denied) db)"
proof (rule set_dim_inv [OF assms(1)])
  have ok: "dim_ok db d" using assms(1) by (simp add: access_inv_def)
  show "wanted_denies db u d denied \<subseteq> set (user_ids db) \<times> set (universe db d)"
    "wanted_allows db u d denied \<subseteq> set (user_ids db) \<times> set (universe db d)"
    "wanted_denies db u d denied \<inter> wanted_allows db u d denied = {}"
    using ok assms(2) by (auto simp: wanted_denies_def wanted_allows_def dim_ok_def)
qed

lemma wanted_effective:
  assumes "access_inv db"
  shows "effectiveDenies (set_dim d (wanted_denies db u d denied) (wanted_allows db u d denied) db) u d
    = set denied \<inter> set (universe db d)"
proof -
  have ok: "dim_ok db d" using assms by (simp add: access_inv_def)
  show ?thesis
  proof (cases "group_of db u")
    case None
    then show ?thesis by (auto simp: effectiveDenies_def wanted_denies_def)
  next
    case (Some g)
    with ok show ?thesis
      by (auto simp: effectiveDenies_def wanted_denies_def wanted_allows_def dim_ok_def)
  qed
qed

lemma set_dim_effective_other: "e \<noteq> d \<Longrightarrow> effectiveDenies (set_dim d D A db) w e = effectiveDenies db w e"
  by (simp add: effectiveDenies_def cong: option.case_cong)

lemma wanted_other:
  "w \<noteq> u \<Longrightarrow> effectiveDenies (set_dim d (wanted_denies db u d denied) (wanted_allows db u d denied) db) w e
    = effectiveDenies db w e"
  by (cases "group_of db w") (auto simp: effectiveDenies_def wanted_denies_def wanted_allows_def)

lemma accessTables_simps [simp]:
  "accessTables ''node'' = Some Node" "accessTables ''relay'' = Some Relay"
  "accessTables ''external'' = Some External"
  by (simp_all add: accessTables_def)

definition set_wanted :: "id \<Rightarrow> dim \<Rightarrow> id list \<Rightarrow> access_db \<Rightarrow> access_db" where
  "set_wanted u d denied db = set_dim d (wanted_denies db u d denied) (wanted_allows db u d denied) db"

lemma set_wanted_fields [simp]:
  "user_ids (set_wanted u d denied db) = user_ids db" "universe (set_wanted u d denied db) e = universe db e"
  "group_of (set_wanted u d denied db) w = group_of db w"
  "ad_group_denies (set_wanted u d denied db) = ad_group_denies db"
  by (simp_all add: set_wanted_def)

lemma SetUserNodeAccess_ok:
  assumes "access_inv db" and "UserGroupID db u = Inr g"
  shows "SetUserNodeAccess u ns xs rs db =
    Inr (set_wanted u Relay rs (set_wanted u External xs (set_wanted u Node ns db)))"
  using UserGroupID_group_of [OF assms] assms(2)
  by (simp add: SetUserNodeAccess_def setUserDimension_eq [of _ u g] set_wanted_def)

lemma SetUserNodeAccess_eq:
  assumes "access_inv db" and "SetUserNodeAccess u ns xs rs db = Inr db'"
  shows "u \<in> set (user_ids db) \<and>
    db' = set_wanted u Relay rs (set_wanted u External xs (set_wanted u Node ns db))"
proof -
  obtain g where g: "UserGroupID db u = Inr g"
    using assms(2) by (auto simp: SetUserNodeAccess_def bind_result_eq_Inr)
  show ?thesis
    using UserGroupID_group_of [OF assms(1) g] SetUserNodeAccess_ok [OF assms(1) g, of ns xs rs] assms(2)
    by simp
qed

section \<open>Every operation keeps the integrity\<close>

lemma clear_own_inv:
  assumes "access_inv db"
  shows "access_inv (clear_own u db)"
proof -
  have "dim_ok (clear_own u db) d" for d
  proof -
    have "dim_ok db d" using assms by (simp add: access_inv_def)
    then show ?thesis by (auto simp: dim_ok_def clear_own_def)
  qed
  moreover have "profiles_ok (clear_own u db)" "rows_ok (clear_own u db)"
    using assms by (auto simp: access_inv_def profiles_ok_def rows_ok_def clear_own_def)
  ultimately show ?thesis by (simp add: access_inv_def)
qed

lemma SetUserGroup_inv:
  assumes "access_inv db" and "SetUserGroup u groupID now db = Inr db'"
  shows "access_inv db'"
proof -
  obtain r where r: "user_row db u = Some r"
    using assms(2) by (auto simp: SetUserGroup_def split: option.splits)
  define db1 where "db1 = (if coalesce (u_group_id r) \<noteq> [] \<and> groupID = []
    then detachUser u (coalesce (u_group_id r)) db else db)"
  have inv1: "access_inv db1"
    using assms(1) r user_row_in [of db u] by (auto simp: db1_def intro: detach_inv)
  define db2 where "db2 = update_users (\<lambda>r. u_id r = u)
    (\<lambda>r. r\<lparr>u_group_id := nullIfEmpty groupID, u_updated_at := now\<rparr>) db1"
  from assms(2) r have ok: "groupID = [] \<or> groupID \<in> set (group_ids db1)"
    and db': "db' = (if groupID \<noteq> [] then clear_own u db2 else db2)"
    by (auto simp: SetUserGroup_def Let_def db1_def db2_def split: if_splits)
  have "access_inv db2"
    unfolding db2_def using inv1 ok
    by (intro update_users_inv) (auto simp: nullIfEmpty_def access_inv_def rows_ok_def split: if_splits)
  then show ?thesis by (simp add: db' clear_own_inv)
qed

lemma members_exclusive:
  assumes "access_inv db" and "u \<in> set (map u_id (filter (\<lambda>r. u_group_id r = Some g) (ad_users db)))"
  shows "group_of db u = Some g"
  using assms user_row_of [of db] by (auto simp: group_of_def access_inv_def rows_ok_def)

lemma members_inv: "access_inv db \<Longrightarrow> set us \<subseteq> set (user_ids db) \<Longrightarrow>
    access_inv (fold (\<lambda>u. detachUser u g) us db)"
proof (induction us arbitrary: db)
  case (Cons u us)
  have "user_ids (detachUser u g db) = user_ids db" by (simp add: detachUser_eq)
  with Cons show ?case by (simp add: detach_inv)
qed simp

lemma DeleteSubscriberGroup_inv:
  assumes "access_inv db" and "DeleteSubscriberGroup g db = Inr db'"
  shows "access_inv db'"
proof -
  define db1 where "db1 = fold (\<lambda>u. detachUser u g)
    (map u_id (filter (\<lambda>r. u_group_id r = Some g) (ad_users db))) db"
  have inv1: "access_inv db1"
    unfolding db1_def by (rule members_inv [OF assms(1)]) (auto simp: user_ids_def)
  define gone where "gone = db1\<lparr>ad_groups := sql_delete (\<lambda>r. g_id r = g) (ad_groups db1),
    ad_group_profiles := drop_fst g (ad_group_profiles db1),
    ad_group_denies := (\<lambda>d. drop_fst g (ad_group_denies db1 d))\<rparr>"
  let ?f = "\<lambda>r :: user. r\<lparr>u_group_id := None\<rparr>" and ?P = "\<lambda>r :: user. u_group_id r = Some g"
  have db': "db' = update_users ?P ?f gone"
    using assms(2) by (auto simp: DeleteSubscriberGroup_def Let_def gone_def db1_def split: if_splits)
  have gids: "group_ids gone = filter (\<lambda>i. i \<noteq> g) (group_ids db1)"
    by (simp add: gone_def group_ids_def sql_delete_def filter_map comp_def)
  have "dim_ok db' d" for d
  proof -
    have "dim_ok db1 d" using inv1 by (simp add: access_inv_def)
    then show ?thesis
      by (auto simp: db' dim_ok_def gids) (auto simp: gone_def)
  qed
  moreover have "profiles_ok db'"
    using inv1 by (auto simp: db' profiles_ok_def gids access_inv_def) (auto simp: gone_def)
  moreover have "rows_ok db'"
    using inv1 by (auto simp: db' rows_ok_def gids access_inv_def)
       (auto simp: gone_def update_users_def set_sql_update set_sql_delete)
  ultimately show ?thesis by (simp add: access_inv_def)
qed

lemma deny_everyone_inv:
  assumes "access_inv db" and "x \<in> set (universe db d)" and "x \<notin> snd ` ad_user_allows db d"
  shows "access_inv (deny_everyone d x db)"
proof -
  have "dim_ok (deny_everyone d x db) e" for e
  proof -
    have "dim_ok db e" using assms(1) by (simp add: access_inv_def)
    moreover have "(u, x) \<notin> ad_user_allows db d" for u using assms(3) by force
    ultimately show ?thesis using assms(2) by (cases "e = d") (auto simp: dim_ok_def deny_everyone_def)
  qed
  moreover have "profiles_ok (deny_everyone d x db)" "rows_ok (deny_everyone d x db)"
    using assms(1) by (simp_all add: access_inv_def profiles_ok_def rows_ok_def deny_everyone_def)
  ultimately show ?thesis by (simp add: access_inv_def)
qed

lemma forget_object_inv:
  assumes "rows_ok db" and "profiles_ok db" and "\<And>e. e \<noteq> d \<Longrightarrow> dim_ok db e"
    and "ad_user_denies db d \<subseteq> set (user_ids db) \<times> insert x (set (universe db d))"
    and "ad_user_allows db d \<subseteq> set (user_ids db) \<times> insert x (set (universe db d))"
    and "ad_group_denies db d \<subseteq> set (group_ids db) \<times> insert x (set (universe db d))"
    and "ad_user_denies db d \<inter> ad_user_allows db d = {}"
  shows "access_inv (forget_object d x db)"
proof -
  have "dim_ok (forget_object d x db) e" for e
  proof (cases "e = d")
    case True
    with assms(4-7) show ?thesis by (auto simp: dim_ok_def forget_object_def)
  next
    case False
    with assms(3) [OF False] show ?thesis by (simp add: dim_ok_def forget_object_def)
  qed
  moreover have "profiles_ok (forget_object d x db)" "rows_ok (forget_object d x db)"
    using assms(1,2) by (simp_all add: profiles_ok_def rows_ok_def forget_object_def)
  ultimately show ?thesis by (simp add: access_inv_def)
qed

lemma delete_relay_inv:
  assumes "access_inv db"
  shows "access_inv (delete_relay x db)"
  unfolding delete_relay_def
proof (rule forget_object_inv)
  let ?db = "db\<lparr>ad_relays := sql_delete (\<lambda>r. r_id r = x) (ad_relays db)\<rparr>"
  have ids: "set (universe db Relay) \<subseteq> insert x (set (universe ?db Relay))"
    by (auto simp: set_sql_delete)
  have univ: "universe ?db e = universe db e" if "e \<noteq> Relay" for e using that by (cases e) simp_all
  have "distinct (universe ?db e)" for e
  proof -
    have "distinct (universe db e)" using assms by (simp add: access_inv_def rows_ok_def)
    then show ?thesis by (cases e) (simp_all add: sql_delete_def distinct_map_filter)
  qed
  then show "rows_ok ?db" using assms by (simp add: access_inv_def rows_ok_def)
  show "profiles_ok ?db" using assms by (simp add: access_inv_def profiles_ok_def)
  show "dim_ok ?db e" if "e \<noteq> Relay" for e
    using assms univ [OF that] by (simp add: access_inv_def dim_ok_def)
  have "dim_ok db Relay" using assms by (simp add: access_inv_def)
  with ids show "ad_user_denies ?db Relay \<subseteq> set (user_ids ?db) \<times> insert x (set (universe ?db Relay))"
    "ad_user_allows ?db Relay \<subseteq> set (user_ids ?db) \<times> insert x (set (universe ?db Relay))"
    "ad_group_denies ?db Relay \<subseteq> set (group_ids ?db) \<times> insert x (set (universe ?db Relay))"
    "ad_user_denies ?db Relay \<inter> ad_user_allows ?db Relay = {}"
    unfolding dim_ok_def by (force simp del: universe.simps)+
qed

lemma delete_node_inv:
  assumes "access_inv db"
  shows "access_inv (forget_object Node x (db\<lparr>ad_nodes := sql_delete (\<lambda>n. n_id n = x) (ad_nodes db)\<rparr>))"
proof (rule forget_object_inv)
  let ?db = "db\<lparr>ad_nodes := sql_delete (\<lambda>n. n_id n = x) (ad_nodes db)\<rparr>"
  have ids: "set (universe db Node) \<subseteq> insert x (set (universe ?db Node))"
    by (auto simp: set_sql_delete)
  have univ: "universe ?db e = universe db e" if "e \<noteq> Node" for e using that by (cases e) simp_all
  have "distinct (universe ?db e)" for e
  proof -
    have "distinct (universe db e)" using assms by (simp add: access_inv_def rows_ok_def)
    then show ?thesis by (cases e) (simp_all add: sql_delete_def distinct_map_filter)
  qed
  then show "rows_ok ?db" using assms by (simp add: access_inv_def rows_ok_def)
  show "profiles_ok ?db" using assms by (simp add: access_inv_def profiles_ok_def)
  show "dim_ok ?db e" if "e \<noteq> Node" for e
    using assms univ [OF that] by (simp add: access_inv_def dim_ok_def)
  have "dim_ok db Node" using assms by (simp add: access_inv_def)
  with ids show "ad_user_denies ?db Node \<subseteq> set (user_ids ?db) \<times> insert x (set (universe ?db Node))"
    "ad_user_allows ?db Node \<subseteq> set (user_ids ?db) \<times> insert x (set (universe ?db Node))"
    "ad_group_denies ?db Node \<subseteq> set (group_ids ?db) \<times> insert x (set (universe ?db Node))"
    "ad_user_denies ?db Node \<inter> ad_user_allows ?db Node = {}"
    unfolding dim_ok_def by (force simp del: universe.simps)+
qed

lemma DeleteNode_inv:
  assumes "access_inv db" and "DeleteNode x db = Inr db'"
  shows "access_inv db'"
proof -
  have "access_inv (fold delete_relay xs db)" for xs
    using assms(1) by (induction xs arbitrary: db) (simp_all add: delete_relay_inv)
  with assms(2) show ?thesis
    by (auto simp: DeleteNode_def Let_def delete_node_inv split: if_splits)
qed

text \<open>A table grows by a row nobody refers to yet.\<close>

lemma CreateNode_inv:
  assumes "access_inv db" and "CreateNode nid name h now db = Inr db'"
  shows "access_inv db'"
proof -
  let ?db = "db\<lparr>ad_nodes := ad_nodes db @ [new_node nid name h now]\<rparr>"
  have ok: "nodes_ok (ad_nodes ?db)" and db': "db' = deny_everyone Node nid ?db"
    using assms(2) by (auto simp: CreateNode_def Let_def split: if_splits)
  have new: "nid \<notin> set (universe db Node)"
    using ok by (simp add: nodes_ok_def new_node_def)
  have univ: "universe ?db e = universe db e" if "e \<noteq> Node" for e using that by (cases e) simp_all
  have "distinct (universe ?db e)" for e
    using assms(1) ok univ [of e] by (cases "e = Node") (simp_all add: nodes_ok_def access_inv_def rows_ok_def)
  then have "rows_ok ?db" using assms(1) by (simp add: access_inv_def rows_ok_def)
  moreover have "dim_ok ?db e" for e
  proof -
    have "dim_ok db e" using assms(1) by (simp add: access_inv_def)
    then show ?thesis using univ [of e] by (cases "e = Node") (fastforce simp: dim_ok_def)+
  qed
  ultimately have inv: "access_inv ?db" using assms(1) by (simp add: access_inv_def profiles_ok_def)
  have "nid \<notin> snd ` ad_user_allows db Node"
    using assms(1) new by (fastforce simp: access_inv_def dim_ok_def simp del: universe.simps)
  then show ?thesis
    unfolding db' by (intro deny_everyone_inv [OF inv]) (simp_all add: new_node_def)
qed

lemma CreateNodeRelay_inv:
  assumes "access_inv db" and "CreateNodeRelay b nonce rid now r db = Inr (r', db')"
  shows "access_inv db'"
proof -
  define row where "row = inserted_relay b nonce r'"
  have row: "r_id row = rid" and new: "rid \<notin> set (universe db Relay)"
    and db': "db' = deny_everyone Relay rid (db\<lparr>ad_relays := ad_relays db @ [row]\<rparr>)"
    using assms(2) by (auto simp: CreateNodeRelay_def Let_def row_def inserted_relay_def split: if_splits)
  let ?db = "db\<lparr>ad_relays := ad_relays db @ [row]\<rparr>"
  have univ: "universe ?db e = universe db e" if "e \<noteq> Relay" for e using that by (cases e) simp_all
  have "distinct (universe ?db e)" for e
  proof -
    have "distinct (universe db e)" using assms(1) by (simp add: access_inv_def rows_ok_def)
    then show ?thesis using row new by (cases e) simp_all
  qed
  then have "rows_ok ?db" using assms(1) by (simp add: access_inv_def rows_ok_def)
  moreover have "dim_ok ?db e" for e
  proof -
    have "dim_ok db e" using assms(1) by (simp add: access_inv_def)
    then show ?thesis using univ [of e] by (cases "e = Relay") (fastforce simp: dim_ok_def)+
  qed
  ultimately have inv: "access_inv ?db" using assms(1) by (simp add: access_inv_def profiles_ok_def)
  have "rid \<notin> snd ` ad_user_allows db Relay"
    using assms(1) new by (fastforce simp: access_inv_def dim_ok_def simp del: universe.simps)
  then show ?thesis
    unfolding db' by (intro deny_everyone_inv [OF inv]) (simp_all add: row)
qed

lemma createUser_Inr:
  assumes "createUser b nonce uid now u h tok db = Inr (u', db')"
  shows "\<exists>sealed. uid \<notin> set (user_ids db) \<and> u_id u' = uid \<and>
    db' = db\<lparr>ad_users := ad_users db @ [inserted_user h sealed u'],
      ad_user_denies := (\<lambda>d. ad_user_denies db d \<union> Pair uid ` set (universe db d))\<rparr>"
  using assms by (auto simp: createUser_def Let_def bind_result_eq_Inr split: if_splits)

lemma createUser_inv:
  assumes "access_inv db" and "createUser b nonce uid now u h tok db = Inr (u', db')"
  shows "access_inv db'"
proof -
  obtain sealed where new: "uid \<notin> set (user_ids db)" "u_id u' = uid"
    and db': "db' = db\<lparr>ad_users := ad_users db @ [inserted_user h sealed u'],
      ad_user_denies := (\<lambda>d. ad_user_denies db d \<union> Pair uid ` set (universe db d))\<rparr>"
    using createUser_Inr [OF assms(2)] by blast
  let ?row = "inserted_user h sealed u'"
  have row: "u_id ?row = uid" "u_group_id ?row = None" "u_ruleset_id ?row = None"
    using new(2) by (simp_all add: inserted_user_def)
  have ids: "user_ids db' = user_ids db @ [uid]" by (simp add: db' user_ids_def row)
  have "dim_ok db' e" for e
  proof -
    have "dim_ok db e" using assms(1) by (simp add: access_inv_def)
    then show ?thesis using new by (auto simp: dim_ok_def ids) (auto simp: db')
  qed
  moreover have "profiles_ok db'"
    using assms(1) by (auto simp: access_inv_def profiles_ok_def ids) (auto simp: db')
  moreover have "rows_ok db'"
    using assms(1) new by (auto simp: access_inv_def rows_ok_def ids) (auto simp: db' row)
  ultimately show ?thesis by (simp add: access_inv_def)
qed

lemma DeleteUser_inv:
  assumes "access_inv db" and "DeleteUser u db = Inr db'"
  shows "access_inv db'"
proof -
  have db': "db' = clear_own u (db\<lparr>ad_users := sql_delete (\<lambda>r. u_id r = u) (ad_users db)\<rparr>)"
    using assms(2) by (auto simp: DeleteUser_def split: if_splits)
  have ids: "user_ids db' = filter (\<lambda>i. i \<noteq> u) (user_ids db)"
    by (simp add: db' clear_own_def user_ids_def sql_delete_def filter_map comp_def)
  have "dim_ok db' e" for e
  proof -
    have "dim_ok db e" using assms(1) by (simp add: access_inv_def)
    then show ?thesis by (auto simp: dim_ok_def ids) (auto simp: db' clear_own_def)
  qed
  moreover have "profiles_ok db'"
    using assms(1) by (auto simp: access_inv_def profiles_ok_def ids) (auto simp: db' clear_own_def)
  moreover have "rows_ok db'"
    using assms(1) by (auto simp: access_inv_def rows_ok_def ids)
       (auto simp: db' clear_own_def set_sql_delete)
  ultimately show ?thesis by (simp add: access_inv_def)
qed

declare universe.simps [simp del]

end
