(* ===== verification/AccessSpec.thy ===== *)
theory AccessSpec
  imports Access
begin

text \<open>
  What the entitlement layer promises, over the operations of \<open>Access\<close>: the step relation of all
  its writes with the integrity invariant, the contract of a resolved relation as a locale with the
  nodes, lines, proxies and profiles as its instances, and the properties.
\<close>

section \<open>Integrity of the remaining writes\<close>

lemma CreateSubscriberGroup_inv:
  assumes "access_inv db" and "CreateSubscriberGroup gid name note now db = Inr db'"
  shows "access_inv db'"
proof -
  have new: "gid \<notin> set (group_ids db)"
    and db': "db' = db\<lparr>ad_groups := ad_groups db @ [\<lparr>g_id = gid, g_name = name, g_note = note,
                     g_ruleset_id = None, g_created_at = now\<rparr>],
                   ad_group_denies := (\<lambda>d. ad_group_denies db d \<union> Pair gid ` set (universe db d))\<rparr>"
    using assms(2) by (auto simp: CreateSubscriberGroup_def split: if_splits)
  have ids: "group_ids db' = group_ids db @ [gid]" by (simp add: db' group_ids_def)
  have "dim_ok db' e" for e
  proof -
    have "dim_ok db e" using assms(1) by (simp add: access_inv_def)
    then show ?thesis by (auto simp: dim_ok_def ids) (auto simp: db')
  qed
  moreover have "profiles_ok db'"
    using assms(1) by (auto simp: access_inv_def profiles_ok_def ids) (auto simp: db')
  moreover have "rows_ok db'"
    using assms(1) new by (auto simp: access_inv_def rows_ok_def ids) (auto simp: db')
  ultimately show ?thesis by (simp add: access_inv_def)
qed

lemma update_group_inv:
  assumes "access_inv db" and "update_group g f db = Inr db'"
    and "\<And>r. g_id (f r) = g_id r"
    and "\<And>r. r \<in> set (ad_groups db) \<Longrightarrow> g_ruleset_id (f r) \<noteq> Some []"
  shows "access_inv db'"
proof -
  have db': "db' = db\<lparr>ad_groups := sql_update (\<lambda>r. g_id r = g) f (ad_groups db)\<rparr>"
    using assms(2) by (auto simp: update_group_def Let_def split: if_splits)
  have ids: "group_ids db' = group_ids db"
    using assms(3) by (auto simp: db' group_ids_def sql_update_def)
  have "rows_ok db'"
    using assms(1,4) by (auto simp: access_inv_def rows_ok_def ids) (auto simp: db' set_sql_update)
  moreover have "profiles_ok db'" "\<forall>d. dim_ok db' d"
    using assms(1) by (auto simp: access_inv_def profiles_ok_def dim_ok_def ids) (auto simp: db')
  ultimately show ?thesis by (simp add: access_inv_def)
qed

lemma UpdateSubscriberGroup_inv:
  assumes "access_inv db" and "UpdateSubscriberGroup g name note db = Inr db'"
  shows "access_inv db'"
  using assms(1) by (rule update_group_inv [OF _ assms(2) [unfolded UpdateSubscriberGroup_def]])
    (use assms(1) in \<open>auto simp: access_inv_def rows_ok_def\<close>)

lemma SetGroupRuleset_inv:
  assumes "access_inv db" and "SetGroupRuleset g rs db = Inr db'"
  shows "access_inv db'"
proof -
  have "update_group g (\<lambda>r. r\<lparr>g_ruleset_id := nullIfEmpty rs\<rparr>) db = Inr db'"
    using assms(2) by (simp add: SetGroupRuleset_def split: if_splits)
  from update_group_inv [OF assms(1) this] show ?thesis by (simp add: nullIfEmpty_def)
qed

lemma frame_profiles [simp]:
  "rows_ok (db\<lparr>ad_user_profiles := a\<rparr>) = rows_ok db" "dim_ok (db\<lparr>ad_user_profiles := a\<rparr>) = dim_ok db"
  "rows_ok (db\<lparr>ad_user_profile_denies := a\<rparr>) = rows_ok db"
  "dim_ok (db\<lparr>ad_user_profile_denies := a\<rparr>) = dim_ok db"
  "rows_ok (db\<lparr>ad_group_profiles := a\<rparr>) = rows_ok db" "dim_ok (db\<lparr>ad_group_profiles := a\<rparr>) = dim_ok db"
  by (simp_all add: rows_ok_def dim_ok_def fun_eq_iff)

lemma BindGroupProfile_inv:
  "access_inv db \<Longrightarrow> BindGroupProfile g p db = Inr db' \<Longrightarrow> access_inv db'"
  by (auto simp: BindGroupProfile_def access_inv_def profiles_ok_def split: if_splits)

lemma UnbindGroupProfile_inv: "access_inv db \<Longrightarrow> access_inv (UnbindGroupProfile g p db)"
  by (auto simp: UnbindGroupProfile_def access_inv_def profiles_ok_def)

lemma BindUserProfile_inv:
  "access_inv db \<Longrightarrow> BindUserProfile u p db = Inr db' \<Longrightarrow> access_inv db'"
  by (auto simp: BindUserProfile_def access_inv_def profiles_ok_def split: if_splits)

lemma UnbindUserProfile_inv: "access_inv db \<Longrightarrow> access_inv (UnbindUserProfile u p db)"
  by (auto simp: UnbindUserProfile_def access_inv_def profiles_ok_def)

lemma SetUserProfileAccess_inv:
  "access_inv db \<Longrightarrow> SetUserProfileAccess u p grant clear db = Inr db' \<Longrightarrow> access_inv db'"
  by (auto simp: SetUserProfileAccess_def Let_def access_inv_def profiles_ok_def split: if_splits)

lemma set_group_dim_inv:
  assumes "access_inv db" and "set denied \<subseteq> set (universe db d)" and "denied = [] \<or> g \<in> set (group_ids db)"
  shows "access_inv (set_group_dim g d denied db)"
proof -
  have "dim_ok (set_group_dim g d denied db) e" for e
  proof -
    have "dim_ok db e" using assms(1) by (simp add: access_inv_def)
    then show ?thesis using assms(2,3) by (cases "e = d") (auto simp: dim_ok_def set_group_dim_def)
  qed
  then show ?thesis using assms(1) by (simp add: access_inv_def rows_ok_def profiles_ok_def set_group_dim_def)
qed

lemma set_group_dim_fields [simp]:
  "group_ids (set_group_dim g d denied db) = group_ids db"
  "universe (set_group_dim g d denied db) e = universe db e"
  by (simp_all add: set_group_dim_def)

lemma SetGroupNodeAccess_inv:
  assumes "access_inv db" and "SetGroupNodeAccess g ns xs rs db = Inr db'"
  shows "access_inv db'"
proof -
  have db': "db' = set_group_dim g Relay rs (set_group_dim g External xs (set_group_dim g Node ns db))"
    and ok: "set ns \<subseteq> set (universe db Node)" "set xs \<subseteq> set (universe db External)"
      "set rs \<subseteq> set (universe db Relay)" "ns = [] \<and> xs = [] \<and> rs = [] \<or> g \<in> set (group_ids db)"
    using assms(2) by (auto simp: SetGroupNodeAccess_def split: if_splits)
  show ?thesis
    unfolding db' using assms(1) ok by (intro set_group_dim_inv) (auto)
qed

lemma SetUserObjectAccess_set_dim:
  assumes "SetUserObjectAccess u kind x allow clear db = Inr db'"
  obtains d where "accessTables kind = Some d"
    "clear \<or> u \<in> set (user_ids db) \<and> x \<in> set (universe db d)"
    "db' = set_dim d
       (if \<not> clear \<and> \<not> allow then insert (u, x) (ad_user_denies db d - {(u, x)}) else ad_user_denies db d - {(u, x)})
       (if \<not> clear \<and> allow then insert (u, x) (ad_user_allows db d - {(u, x)}) else ad_user_allows db d - {(u, x)}) db"
  using assms by (auto simp: SetUserObjectAccess_def Let_def set_dim_def
      split: option.splits if_splits)

lemma SetUserObjectAccess_inv:
  assumes "access_inv db" and "SetUserObjectAccess u kind x allow clear db = Inr db'"
  shows "access_inv db'"
  using assms(2)
proof (rule SetUserObjectAccess_set_dim)
  fix d
  assume d: "clear \<or> u \<in> set (user_ids db) \<and> x \<in> set (universe db d)"
    "db' = set_dim d
       (if \<not> clear \<and> \<not> allow then insert (u, x) (ad_user_denies db d - {(u, x)}) else ad_user_denies db d - {(u, x)})
       (if \<not> clear \<and> allow then insert (u, x) (ad_user_allows db d - {(u, x)}) else ad_user_allows db d - {(u, x)}) db"
  have ok: "dim_ok db d" using assms(1) by (simp add: access_inv_def)
  show ?thesis
    unfolding d(2) using d(1) ok by (intro set_dim_inv [OF assms(1)]) (auto simp: dim_ok_def)
qed

lemma SetUserNodeAccess_inv:
  assumes "access_inv db" and "SetUserNodeAccess u ns xs rs db = Inr db'"
  shows "access_inv db'"
  using SetUserNodeAccess_eq [OF assms] assms(1) unfolding set_wanted_def
  by (auto intro!: wanted_inv)

text \<open>What \<open>setObjectAccess\<close> leaves in the tables of the dimension.\<close>

definition object_denies :: "access_db \<Rightarrow> dim \<Rightarrow> id \<Rightarrow> id list \<Rightarrow> (id \<times> id) set" where
  "object_denies db d x denied = drop_snd x (ad_user_denies db d) \<union>
     (\<lambda>u. (u, x)) ` {u \<in> set (user_ids db). u \<in> set denied \<and> u \<notin> members_denied db d x}"

definition object_allows :: "access_db \<Rightarrow> dim \<Rightarrow> id \<Rightarrow> id list \<Rightarrow> (id \<times> id) set" where
  "object_allows db d x denied = drop_snd x (ad_user_allows db d) \<union>
     (\<lambda>u. (u, x)) ` {u \<in> set (user_ids db). u \<notin> set denied \<and> u \<in> members_denied db d x}"

lemma in_members_denied:
  assumes "access_inv db" and "r \<in> set (ad_users db)"
  shows "u_id r \<in> members_denied db d x \<longleftrightarrow>
    coalesce (u_group_id r) \<noteq> [] \<and> (coalesce (u_group_id r), x) \<in> ad_group_denies db d"
proof -
  have inj: "inj_on u_id (set (ad_users db))"
    using assms(1) by (simp add: access_inv_def rows_ok_def user_ids_def distinct_map)
  have "u_id r \<in> members_denied db d x \<longleftrightarrow>
      (case u_group_id r of None \<Rightarrow> False | Some g \<Rightarrow> (g, x) \<in> ad_group_denies db d)"
    using assms(2) by (auto simp: members_denied_def dest: inj_onD [OF inj])
  moreover have "u_group_id r = Some g \<Longrightarrow> g \<noteq> []" for g
    using assms by (auto simp: access_inv_def rows_ok_def)
  ultimately show ?thesis by (cases "u_group_id r") auto
qed

lemma setObjectAccess_set_dim:
  assumes "access_inv db" and "setObjectAccess kind x denied db = Inr db'"
  obtains d where "accessTables kind = Some d"
    "db' = set_dim d (object_denies db d x denied) (object_allows db d x denied) db"
    "x \<in> set (universe db d) \<or> set (user_ids db) \<inter> set denied = {}"
proof -
  obtain d where d: "accessTables kind = Some d"
    using assms(2) by (auto simp: setObjectAccess_def split: option.splits)
  define bg :: "user \<Rightarrow> bool" where "bg = (\<lambda>r. coalesce (u_group_id r) \<noteq> [] \<and>
    (coalesce (u_group_id r), x) \<in> ad_group_denies db d)"
  have bg: "bg r \<longleftrightarrow> u_id r \<in> members_denied db d x" if "r \<in> set (ad_users db)" for r
    using in_members_denied [OF assms(1) that] by (simp add: bg_def)
  let ?T = "fold (reconcile_step (\<lambda>r. (u_id r, x)) (\<lambda>r. u_id r \<in> set denied) bg) (ad_users db)
    (drop_snd x (ad_user_denies db d), drop_snd x (ad_user_allows db d))"
  have T: "?T = (object_denies db d x denied, object_allows db d x denied)"
    unfolding fold_reconcile object_denies_def object_allows_def user_ids_def
    using bg by (auto simp: image_iff)
  have db': "db' = set_dim d (object_denies db d x denied) (object_allows db d x denied) db"
    and fk: "x \<in> set (universe db d) \<or>
      ?T = (drop_snd x (ad_user_denies db d), drop_snd x (ad_user_allows db d))"
    using assms(2) d T unfolding setObjectAccess_def bg_def [symmetric]
    by (auto simp: Let_def set_dim_def bg_def split: if_splits)
  have "set (user_ids db) \<inter> set denied = {}" if x: "x \<notin> set (universe db d)"
  proof -
    have "dim_ok db d" using assms(1) by (simp add: access_inv_def)
    then have none: "members_denied db d x = {}"
      using x by (fastforce simp: members_denied_def dim_ok_def filter_empty_conv split: option.splits)
    have "object_denies db d x denied = drop_snd x (ad_user_denies db d)"
      using fk x T by simp
    then have "(u, x) \<notin> object_denies db d x denied" for u by simp
    then show ?thesis using none by (auto simp: object_denies_def)
  qed
  then show ?thesis using that d db' by blast
qed

lemma setObjectAccess_inv:
  assumes "access_inv db" and "setObjectAccess kind x denied db = Inr db'"
  shows "access_inv db'"
  using assms
proof (rule setObjectAccess_set_dim)
  fix d
  assume db': "db' = set_dim d (object_denies db d x denied) (object_allows db d x denied) db"
    and x: "x \<in> set (universe db d) \<or> set (user_ids db) \<inter> set denied = {}"
  have ok: "dim_ok db d" using assms(1) by (simp add: access_inv_def)
  have "x \<in> set (universe db d)" if "u \<in> members_denied db d x" for u
    using ok that by (fastforce simp: members_denied_def dim_ok_def split: option.splits)
  then show ?thesis
    unfolding db' using ok x
    by (intro set_dim_inv [OF assms(1)]) (auto simp: object_denies_def object_allows_def dim_ok_def)
qed

lemma user_row_ops_inv:
  assumes "access_inv db"
  shows "access_inv (SetUserActive u active now db)" "access_inv (RenewUser u e now db)"
    "SetUserRulesetNone u none db = Inr db' \<Longrightarrow> access_inv db'"
    "SetUserRuleset u rs db = Inr db' \<Longrightarrow> access_inv db'"
    "UpdateUser usr now db = Inr db' \<Longrightarrow> access_inv db'"
    "ResetSubToken b nonce u tok h now db = Inr db' \<Longrightarrow> access_inv db'"
  using assms
  by (auto simp: SetUserActive_def RenewUser_def SetUserRulesetNone_def SetUserRuleset_def UpdateUser_def
      ResetSubToken_def bind_result_eq_Inr nullIfEmpty_def split: if_splits
      intro!: update_users_inv) (auto simp: access_inv_def rows_ok_def)

section \<open>The writes as steps\<close>

inductive access_step :: "access_db \<Rightarrow> access_db \<Rightarrow> bool" where
  create_group: "CreateSubscriberGroup gid name note now db = Inr db' \<Longrightarrow> access_step db db'"
| update_group: "UpdateSubscriberGroup g name note db = Inr db' \<Longrightarrow> access_step db db'"
| group_ruleset: "SetGroupRuleset g rs db = Inr db' \<Longrightarrow> access_step db db'"
| delete_group: "DeleteSubscriberGroup g db = Inr db' \<Longrightarrow> access_step db db'"
| user_group: "SetUserGroup u g now db = Inr db' \<Longrightarrow> access_step db db'"
| bind_group: "BindGroupProfile g p db = Inr db' \<Longrightarrow> access_step db db'"
| unbind_group: "access_step db (UnbindGroupProfile g p db)"
| group_access: "SetGroupNodeAccess g ns xs rs db = Inr db' \<Longrightarrow> access_step db db'"
| user_object: "SetUserObjectAccess u kind x allow clear db = Inr db' \<Longrightarrow> access_step db db'"
| user_profile: "SetUserProfileAccess u p grant clear db = Inr db' \<Longrightarrow> access_step db db'"
| bind_user: "BindUserProfile u p db = Inr db' \<Longrightarrow> access_step db db'"
| unbind_user: "access_step db (UnbindUserProfile u p db)"
| ruleset_none: "SetUserRulesetNone u none db = Inr db' \<Longrightarrow> access_step db db'"
| user_ruleset: "SetUserRuleset u rs db = Inr db' \<Longrightarrow> access_step db db'"
| user_access: "SetUserNodeAccess u ns xs rs db = Inr db' \<Longrightarrow> access_step db db'"
| object_access: "setObjectAccess kind x denied db = Inr db' \<Longrightarrow> access_step db db'"
| create_user: "createUser b nonce uid now u h tok db = Inr (u', db') \<Longrightarrow> access_step db db'"
| update_user: "UpdateUser usr now db = Inr db' \<Longrightarrow> access_step db db'"
| reset_token: "ResetSubToken b nonce u tok h now db = Inr db' \<Longrightarrow> access_step db db'"
| user_active: "access_step db (SetUserActive u active now db)"
| renew_user: "access_step db (RenewUser u e now db)"
| delete_user: "DeleteUser u db = Inr db' \<Longrightarrow> access_step db db'"
| create_node: "CreateNode nid name h now db = Inr db' \<Longrightarrow> access_step db db'"
| delete_node: "DeleteNode x db = Inr db' \<Longrightarrow> access_step db db'"
| create_relay: "CreateNodeRelay b nonce rid now r db = Inr (r', db') \<Longrightarrow> access_step db db'"
| delete_relay: "DeleteNodeRelay x db = Inr db' \<Longrightarrow> access_step db db'"

lemma DeleteNodeRelay_inv: "access_inv db \<Longrightarrow> DeleteNodeRelay x db = Inr db' \<Longrightarrow> access_inv db'"
  by (auto simp: DeleteNodeRelay_def delete_relay_inv split: if_splits)

lemmas op_invs = CreateSubscriberGroup_inv UpdateSubscriberGroup_inv SetGroupRuleset_inv
  DeleteSubscriberGroup_inv SetUserGroup_inv BindGroupProfile_inv UnbindGroupProfile_inv
  SetGroupNodeAccess_inv SetUserObjectAccess_inv SetUserProfileAccess_inv BindUserProfile_inv
  UnbindUserProfile_inv SetUserNodeAccess_inv setObjectAccess_inv createUser_inv user_row_ops_inv
  DeleteUser_inv CreateNode_inv DeleteNode_inv CreateNodeRelay_inv DeleteNodeRelay_inv

lemma access_step_inv: "access_step db db' \<Longrightarrow> access_inv db \<Longrightarrow> access_inv db'"
  by (induction rule: access_step.induct) (auto intro: op_invs)

definition empty_access :: "id list \<Rightarrow> id list \<Rightarrow> access_db" where
  "empty_access profiles rulesets =
     \<lparr>ad_users = [], ad_groups = [], ad_nodes = [], ad_relays = [], ad_proxies = [],
      ad_profiles = profiles, ad_rulesets = rulesets, ad_user_profiles = {}, ad_user_profile_denies = {},
      ad_group_profiles = {}, ad_user_denies = (\<lambda>d. {}), ad_user_allows = (\<lambda>d. {}),
      ad_group_denies = (\<lambda>d. {})\<rparr>"

lemma empty_access_inv: "access_inv (empty_access profiles rulesets)"
proof -
  have "distinct (universe (empty_access profiles rulesets) d)" for d
    by (cases d) (simp_all add: empty_access_def universe.simps)
  then show ?thesis
    by (simp add: inv_defs) (simp add: empty_access_def user_ids_def group_ids_def)
qed

section \<open>Reading the relation from either end\<close>

text \<open>A relation between subscribers and objects that can be read from both ends: the contract the
  editors rely on when they show one end and the subscription acts on the other.\<close>

locale two_ended =
  fixes ok :: "'s \<Rightarrow> bool"
    and from_user :: "'s \<Rightarrow> id \<Rightarrow> id set"
    and from_object :: "'s \<Rightarrow> id \<Rightarrow> id set"
  assumes ends_agree: "ok s \<Longrightarrow> x \<in> from_user s u \<longleftrightarrow> u \<in> from_object s x"
begin

lemma from_object_eq: "ok s \<Longrightarrow> from_object s x = {u. x \<in> from_user s u}"
  using ends_agree by blast

lemma same_from_objects:
  assumes "ok s" and "ok s'" and "\<And>u. from_user s' u = from_user s u"
  shows "from_object s' x = from_object s x"
  using assms by (simp add: from_object_eq)

end

definition denied_users :: "dim \<Rightarrow> access_db \<Rightarrow> id \<Rightarrow> id set" where
  "denied_users d db x =
     rel_to (ad_user_denies db d) x \<union> (members_denied db d x - rel_to (ad_user_allows db d) x)"

lemma objectDenies_eq: "accessTables kind = Some d \<Longrightarrow> objectDenies db kind x = Inr (denied_users d db x)"
  by (simp add: objectDenies_def denied_users_def)

lemma group_of_iff:
  assumes "access_inv db"
  shows "group_of db w = Some g \<longleftrightarrow> (\<exists>r\<in>set (ad_users db). u_id r = w \<and> u_group_id r = Some g)"
proof
  assume "group_of db w = Some g"
  then obtain r where "user_row db w = Some r" "u_group_id r = Some g"
    by (auto simp: group_of_def split: option.splits)
  then show "\<exists>r\<in>set (ad_users db). u_id r = w \<and> u_group_id r = Some g"
    by (auto simp: user_row_def dest!: sql_row_Some)
next
  assume "\<exists>r\<in>set (ad_users db). u_id r = w \<and> u_group_id r = Some g"
  then obtain r where r: "r \<in> set (ad_users db)" "u_id r = w" "u_group_id r = Some g" by blast
  have "user_row db (u_id r) = Some r"
    using assms r(1) by (intro user_row_of) (simp_all add: access_inv_def rows_ok_def)
  with r show "group_of db w = Some g" by (simp add: group_of_def)
qed

lemma member_iff:
  assumes "access_inv db"
  shows "w \<in> set (map u_id (filter (\<lambda>r. case u_group_id r of None \<Rightarrow> False | Some g \<Rightarrow> (g, x) \<in> T) (ad_users db)))
    \<longleftrightarrow> (\<exists>g. group_of db w = Some g \<and> (g, x) \<in> T)" (is "_ \<in> set (map u_id (filter ?P _)) \<longleftrightarrow> _")
proof -
  have "w \<in> set (map u_id (filter ?P (ad_users db))) \<longleftrightarrow> (\<exists>r\<in>set (ad_users db). u_id r = w \<and> ?P r)"
    by auto
  also have "\<dots> \<longleftrightarrow> (\<exists>r\<in>set (ad_users db). u_id r = w \<and> (\<exists>g. u_group_id r = Some g \<and> (g, x) \<in> T))"
    by (intro bex_cong refl conj_cong) (auto split: option.splits)
  also have "\<dots> \<longleftrightarrow> (\<exists>g. group_of db w = Some g \<and> (g, x) \<in> T)"
    unfolding group_of_iff [OF assms] by blast
  finally show ?thesis .
qed

lemma in_denied_users:
  "access_inv db \<Longrightarrow> u \<in> denied_users d db x \<longleftrightarrow> (u, x) \<in> ad_user_denies db d \<or>
     (\<exists>g. group_of db u = Some g \<and> (g, x) \<in> ad_group_denies db d) \<and> (u, x) \<notin> ad_user_allows db d"
  unfolding denied_users_def members_denied_def Un_iff Diff_iff in_rel_to
  by (simp only: member_iff)

lemma in_profile_users:
  "access_inv db \<Longrightarrow> u \<in> profile_users db p \<longleftrightarrow> ((u, p) \<in> ad_user_profiles db \<or>
     (\<exists>g. group_of db u = Some g \<and> (g, p) \<in> ad_group_profiles db)) \<and> (u, p) \<notin> ad_user_profile_denies db"
  unfolding profile_users_def Un_iff Diff_iff in_rel_to
  by (simp only: member_iff)

interpretation deny: two_ended access_inv "\<lambda>db u. effectiveDenies db u d" "\<lambda>db x. denied_users d db x"
  by unfold_locales (auto simp: in_denied_users effectiveDenies_def split: option.splits)

interpretation grant: two_ended access_inv held_profiles profile_users
  by unfold_locales (auto simp: in_profile_users held_profiles_def split: option.splits)

lemma finite_user_tables:
  assumes "access_inv db"
  shows "finite (held_profiles db u)" "finite (profile_users db p)"
proof -
  have "held_profiles db u \<subseteq> set (ad_profiles db)" "profile_users db p \<subseteq> set (user_ids db)"
    using assms by (auto simp: access_inv_def profiles_ok_def held_profiles_def profile_users_def
        user_ids_def split: option.splits)
  then show "finite (held_profiles db u)" "finite (profile_users db p)"
    using finite_subset by blast+
qed

section \<open>Leaving and deleting\<close>

lemma leave_access:
  assumes inv: "access_inv db" and leave: "SetUserGroup u [] now db = Inr db'"
    and excl: "profile_exclusive db u"
  shows "same_access db db' w"
proof -
  obtain r where r: "user_row db u = Some r"
    using leave by (auto simp: SetUserGroup_def split: option.splits)
  define db1 where "db1 = (if coalesce (u_group_id r) \<noteq> [] then detachUser u (coalesce (u_group_id r)) db else db)"
  let ?f = "\<lambda>r. r\<lparr>u_group_id := nullIfEmpty [], u_updated_at := now\<rparr>"
  have db': "db' = update_users (\<lambda>r. u_id r = u) ?f db1"
    using leave r by (auto simp: SetUserGroup_def Let_def db1_def split: if_splits)
  have row': "user_row db' w = map_option (\<lambda>r. if u_id r = u then ?f r else r) (user_row db1 w)"
    unfolding db' by (rule user_row_update) simp
  show ?thesis
  proof (cases "w = u")
    case True
    have "settled db db1 u"
    proof (cases "u_group_id r")
      case None
      then show ?thesis
        using r excl user_row_in [of db u]
        by (auto simp: db1_def settled_def held_profiles_def effectiveDenies_def group_of_def
            EffectiveRulesetID_def own_ruleset_def Let_def group_ruleset_def profile_exclusive_def)
    next
      case (Some g)
      then have "group_of db u = Some g" "g \<noteq> []"
        using r group_of_Some [OF inv, of u g] by (auto simp: group_of_def)
      then show ?thesis using Some inv excl by (auto simp: db1_def intro: detach_self)
    qed
    moreover have "user_ids db' = user_ids db" by (simp add: db' db1_def detachUser_eq)
    moreover have "group_of db' u = None" "own_ruleset db' u = own_ruleset db1 u"
      using row' True by (auto simp: group_of_def own_ruleset_def nullIfEmpty_def split: option.splits
          dest: user_row_id)
    ultimately show ?thesis using True by (intro settled_access [of db db1]) (simp_all add: db')
  next
    case False
    have "same_own db db1 w" "same_groups db db1"
      using detach_other [OF False] detach_groups by (auto simp: db1_def same_own_def same_groups_def)
    moreover have "user_row db' w = user_row db1 w"
      using row' False user_row_id [of db1 w] by (cases "user_row db1 w") auto
    ultimately have "same_own db db' w" "same_groups db db'"
      by (simp_all add: same_own_def same_groups_def db')
    then show ?thesis by (rule same_own_access)
  qed
qed

lemma delete_group_access:
  assumes inv: "access_inv db" and del: "DeleteSubscriberGroup g db = Inr db'"
    and excl: "\<forall>u. group_of db u = Some g \<longrightarrow> profile_exclusive db u"
  shows "same_access db db' w"
proof -
  define us where "us = map u_id (filter (\<lambda>r. u_group_id r = Some g) (ad_users db))"
  define db1 where "db1 = fold (\<lambda>u. detachUser u g) us db"
  let ?f = "\<lambda>r :: user. r\<lparr>u_group_id := None\<rparr>"
  have members: "u \<in> set us \<longleftrightarrow> group_of db u = Some g" for u
    unfolding group_of_iff [OF inv] us_def by auto
  have "distinct us"
    using inv by (simp add: us_def access_inv_def rows_ok_def user_ids_def distinct_map_filter)
  from fold_detach [OF inv this, of g] members excl have f:
    "\<forall>w\<in>set us. settled db db1 w" "\<forall>w. w \<notin> set us \<longrightarrow> same_own db db1 w" "same_groups db db1"
    "\<forall>w. group_of db1 w = group_of db w"
    by (auto simp: db1_def)
  have db': "db' = update_users (\<lambda>r. u_group_id r = Some g) ?f
      (db1\<lparr>ad_groups := sql_delete (\<lambda>r. g_id r = g) (ad_groups db1),
           ad_group_profiles := drop_fst g (ad_group_profiles db1),
           ad_group_denies := (\<lambda>d. drop_fst g (ad_group_denies db1 d))\<rparr>)"
    using del by (auto simp: DeleteSubscriberGroup_def Let_def db1_def us_def split: if_splits)
  have row': "user_row db' w = map_option (\<lambda>r. if u_group_id r = Some g then ?f r else r) (user_row db1 w)"
    unfolding db' by (subst user_row_update) simp_all
  have own: "ad_user_profiles db' = ad_user_profiles db1"
    "ad_user_profile_denies db' = ad_user_profile_denies db1" "ad_user_denies db' = ad_user_denies db1"
    "ad_user_allows db' = ad_user_allows db1"
    by (simp_all add: db')
  show ?thesis
  proof (cases "w \<in> set us")
    case True
    then have "group_of db1 w = Some g" using members f(4) by simp
    then have "group_of db' w = None" "own_ruleset db' w = own_ruleset db1 w"
      using row' by (auto simp: group_of_def own_ruleset_def split: option.splits)
    moreover have "user_ids db' = user_ids db" using f(3) by (simp add: db' same_groups_def)
    ultimately show ?thesis
      using f(1) True own by (intro settled_access [of db db1]) auto
  next
    case False
    with f(2) have same: "same_own db db1 w" by blast
    have not_g: "group_of db w \<noteq> Some g" using False members by simp
    have row: "user_row db' w = user_row db w"
      using row' same not_g
      by (auto simp: same_own_def group_of_def split: option.splits intro!: option.map_ident_strong)
    have "group_row db' h = group_row db h" if "h \<noteq> g" for h
      using f(3) that by (simp add: group_row_def db' same_groups_def sql_row_delete_other)
    then have rs: "group_ruleset db' h = group_ruleset db h" if "h \<noteq> Some g" for h
      using that by (cases h) (simp_all add: group_ruleset_def)
    have tables: "rel_of (ad_group_profiles db') h = rel_of (ad_group_profiles db) h"
      "rel_of (ad_group_denies db' d) h = rel_of (ad_group_denies db d) h" if "h \<noteq> g" for h d
      using f(3) that by (auto simp: db' same_groups_def)
    have grp: "group_of db' w = group_of db w" using row by (simp add: group_of_def)
    have "EffectiveRulesetID db' w = EffectiveRulesetID db w"
      using row rs not_g by (auto simp: EffectiveRulesetID_def group_of_def Let_def split: option.splits)
    then show ?thesis
      using same own grp tables not_g
      by (cases "group_of db w")
         (auto simp: same_access_def same_own_def held_profiles_def effectiveDenies_def)
  qed
qed

lemma join_group:
  assumes "SetUserGroup u g now db = Inr db'" and "g \<noteq> []"
  shows "held_profiles db' u = rel_of (ad_group_profiles db) g \<and>
    (\<forall>d. effectiveDenies db' u d = rel_of (ad_group_denies db d) g)"
proof -
  obtain r where r: "user_row db u = Some r"
    using assms(1) by (auto simp: SetUserGroup_def split: option.splits)
  have db': "db' = clear_own u (update_users (\<lambda>r. u_id r = u)
      (\<lambda>r. r\<lparr>u_group_id := nullIfEmpty g, u_updated_at := now\<rparr>) db)"
    using assms r by (auto simp: SetUserGroup_def Let_def split: if_splits)
  have "user_row db' w = user_row (update_users (\<lambda>r. u_id r = u)
      (\<lambda>r. r\<lparr>u_group_id := nullIfEmpty g, u_updated_at := now\<rparr>) db) w" for w
    by (simp add: db' clear_own_def)
  then have "group_of db' u = Some g"
    using r user_row_id [OF r] assms(2) by (simp add: group_of_def user_row_update nullIfEmpty_def)
  then show ?thesis
    by (simp add: held_profiles_def effectiveDenies_def) (simp add: db' clear_own_def)
qed

section \<open>New rows start closed\<close>

lemma new_user_closed:
  assumes "access_inv db" and "createUser b nonce uid now u h tok db = Inr (u', db')"
  shows "UserProfileIDs db' uid = [] \<and> (\<forall>d. effectiveDenies db' uid d = set (universe db' d))"
proof -
  obtain sealed where new: "uid \<notin> set (user_ids db)" "u_id u' = uid"
    and db': "db' = db\<lparr>ad_users := ad_users db @ [inserted_user h sealed u'],
      ad_user_denies := (\<lambda>d. ad_user_denies db d \<union> Pair uid ` set (universe db d))\<rparr>"
    using createUser_Inr [OF assms(2)] by blast
  have "user_row db uid = None" using new(1) user_row_in by blast
  then have "user_row db' uid = Some (inserted_user h sealed u')"
    using new(2) by (auto simp: db' user_row_def sql_row_def inserted_user_def find_None_iff find_Some_iff
        nth_append intro!: exI [of _ "length (ad_users db)"])
  then have "group_of db' uid = None" by (simp add: group_of_def inserted_user_def)
  moreover have "rel_of (ad_user_profiles db) uid = {}"
    using assms(1) new(1) by (auto simp: access_inv_def profiles_ok_def)
  moreover have "rel_of (ad_user_denies db d) uid = {}" for d
  proof -
    have "dim_ok db d" using assms(1) by (simp add: access_inv_def)
    then show ?thesis using new(1) by (auto simp: dim_ok_def)
  qed
  ultimately show ?thesis
    by (simp add: UserProfileIDs_def held_profiles_def effectiveDenies_def) (simp add: db')
qed

lemma new_node_closed:
  "CreateNode nid name h now db = Inr db' \<Longrightarrow> w \<in> set (user_ids db') \<Longrightarrow> nid \<in> UserNodeDenies db' w"
  by (auto simp: CreateNode_def Let_def deny_everyone_def UserNodeDenies_def effectiveDenies_def
      split: if_splits)

lemma new_relay_closed:
  "CreateNodeRelay b nonce rid now r db = Inr (r', db') \<Longrightarrow> w \<in> set (user_ids db') \<Longrightarrow>
   rid \<in> UserRelayDenies db' w"
  by (auto simp: CreateNodeRelay_def Let_def deny_everyone_def UserRelayDenies_def effectiveDenies_def
      split: if_splits)

lemma new_group_closed:
  assumes "access_inv db" and "CreateSubscriberGroup gid name nt now db = Inr db1" and "gid \<noteq> []"
    and "SetUserGroup u gid t db1 = Inr db2"
  shows "UserProfileIDs db2 u = [] \<and> (\<forall>d. effectiveDenies db2 u d = set (universe db d))"
proof -
  have new: "gid \<notin> set (group_ids db)"
    and denies: "ad_group_denies db1 = (\<lambda>d. ad_group_denies db d \<union> Pair gid ` set (universe db d))"
      "ad_group_profiles db1 = ad_group_profiles db"
    using assms(2) by (auto simp: CreateSubscriberGroup_def split: if_splits)
  have "rel_of (ad_group_profiles db) gid = {}"
    using assms(1) new by (auto simp: access_inv_def profiles_ok_def)
  moreover have "rel_of (ad_group_denies db d) gid = {}" for d
  proof -
    have "dim_ok db d" using assms(1) by (simp add: access_inv_def)
    then show ?thesis using new by (auto simp: dim_ok_def)
  qed
  ultimately show ?thesis
    using join_group [OF assms(4,3)] by (simp add: UserProfileIDs_def denies)
qed

section \<open>Properties\<close>


definition demo_user :: user where
  "demo_user = \<lparr>u_id = ''u'', u_name = ''ann'', u_quota_bytes = 0, u_used_bytes = 0, u_expires_at = 0,
     u_renew_period = 0, u_enabled = True, u_active = False, u_device_limit = 0, u_ruleset_id = None,
     u_ruleset_none = False, u_group_id = Some ''g'', u_created_at = 0, u_updated_at = 0,
     u_sub_token_hash = ''h'', u_sub_token_enc = []\<rparr>"

text \<open>A member of a group that grants one profile and withholds one node; the member has an exception
  for the node.\<close>

definition demo_access :: access_db where
  "demo_access = (empty_access [''p''] [])\<lparr>ad_users := [demo_user],
     ad_groups := [\<lparr>g_id = ''g'', g_name = ''gold'', g_note = [], g_ruleset_id = None, g_created_at = 0\<rparr>],
     ad_nodes := [demo_node], ad_group_profiles := {(''g'', ''p'')},
     ad_user_allows := (\<lambda>d. if d = Node then {(''u'', ''01'')} else {}),
     ad_group_denies := (\<lambda>d. if d = Node then {(''g'', ''01'')} else {})\<rparr>"

lemma demo_access_inv: "access_inv demo_access"
proof -
  have ids: "user_ids demo_access = [''u'']" "group_ids demo_access = [''g'']"
    "universe demo_access Node = [''01'']" "universe demo_access Relay = []"
    "universe demo_access External = []"
    by (simp_all add: demo_access_def empty_access_def user_ids_def group_ids_def demo_user_def
        demo_node_def universe.simps)
  have "distinct (universe demo_access d)" for d by (cases d) (simp_all add: ids)
  then have "rows_ok demo_access"
    by (simp add: rows_ok_def ids) (simp add: demo_access_def empty_access_def demo_user_def)
  moreover have "profiles_ok demo_access"
    by (simp add: profiles_ok_def ids) (simp add: demo_access_def empty_access_def)
  moreover have "dim_ok demo_access d" for d
    by (cases d) (simp_all add: dim_ok_def ids, simp_all add: demo_access_def empty_access_def)
  ultimately show ?thesis by (simp add: access_inv_def)
qed

lemma demo_row: "user_row demo_access ''u'' = Some demo_user"
  by (simp add: user_row_def demo_access_def demo_user_def sql_row_def)




text \<open>C6. The whole-set editor reaches the end state it was given and buries no group: afterwards the
  subscriber is refused exactly the listed nodes, proxies and lines that exist, every other
  subscriber is refused what they were, and the subscriber's own rows hold only differences from
  the group (no denial the group makes anyway, no exception to a denial it does not make).\<close>

theorem user_editor_end_state:
  assumes "access_inv db" and "SetUserNodeAccess u ns xs rs db = Inr db'"
  shows "UserNodeDenies db' u = set ns \<inter> set (universe db Node) \<and>
    UserExternalDenies db' u = set xs \<inter> set (universe db External) \<and>
    UserRelayDenies db' u = set rs \<inter> set (universe db Relay) \<and>
    (\<forall>w d. w \<noteq> u \<longrightarrow> effectiveDenies db' w d = effectiveDenies db w d) \<and>
    (\<forall>d g. group_of db u = Some g \<longrightarrow>
       rel_of (ad_user_denies db' d) u \<inter> rel_of (ad_group_denies db d) g = {} \<and>
       rel_of (ad_user_allows db' d) u \<subseteq> rel_of (ad_group_denies db d) g)"
proof -
  let ?db1 = "set_wanted u Node ns db"
  let ?db2 = "set_wanted u External xs ?db1"
  have u: "u \<in> set (user_ids db)" and db': "db' = set_wanted u Relay rs ?db2"
    using SetUserNodeAccess_eq [OF assms] by auto
  have inv1: "access_inv ?db1" using assms(1) u unfolding set_wanted_def by (intro wanted_inv)
  have inv2: "access_inv ?db2" using inv1 u unfolding set_wanted_def [of u External]
    by (intro wanted_inv) simp_all
  note other = set_dim_effective_other [folded set_wanted_def]
  note view = wanted_effective [folded set_wanted_def]
  have "UserNodeDenies db' u = set ns \<inter> set (universe db Node)"
    using view [OF assms(1), of u Node ns] unfolding db' UserNodeDenies_def set_wanted_def
    by (simp add: set_dim_effective_other)
  moreover have "UserExternalDenies db' u = set xs \<inter> set (universe db External)"
    using view [OF inv1, of u External xs] unfolding db' UserExternalDenies_def set_wanted_def [of u Relay]
    by (simp add: set_dim_effective_other)
  moreover have "UserRelayDenies db' u = set rs \<inter> set (universe db Relay)"
    using view [OF inv2, of u Relay rs] unfolding db' UserRelayDenies_def by simp
  moreover have "effectiveDenies db' w d = effectiveDenies db w d" if "w \<noteq> u" for w d
    using that by (simp add: db' set_wanted_def wanted_other)
  moreover have "rel_of (ad_user_denies db' d) u \<inter> rel_of (ad_group_denies db d) g = {} \<and>
      rel_of (ad_user_allows db' d) u \<subseteq> rel_of (ad_group_denies db d) g"
    if "group_of db u = Some g" for d g
    using that by (cases d) (auto simp: db' set_wanted_def wanted_denies_def wanted_allows_def)
  ultimately show ?thesis by blast
qed

theorem user_editor_end_state_witness:
  "\<exists>db'. SetUserNodeAccess ''u'' [''01''] [] [] demo_access = Inr db' \<and> UserNodeDenies db' ''u'' = {''01''}"
proof -
  have "UserGroupID demo_access ''u'' = Inr ''g''"
    by (simp add: UserGroupID_def demo_row) (simp add: demo_user_def)
  from SetUserNodeAccess_ok [OF demo_access_inv this] obtain db' where
    set: "SetUserNodeAccess ''u'' [''01''] [] [] demo_access = Inr db'" by blast
  have "UserNodeDenies db' ''u'' = set [''01''] \<inter> set (universe demo_access Node)"
    by (rule user_editor_end_state [OF demo_access_inv set, THEN conjunct1])
  also have "\<dots> = {''01''}" by (simp add: demo_access_def demo_node_def universe.simps)
  finally show ?thesis using set by blast
qed

text \<open>C11. The editor that works from the object's end reaches its end state too: afterwards exactly
  the listed subscribers that exist are refused the object, as read from the object's end, and no
  other object is affected for anybody.\<close>

theorem object_editor_end_state:
  assumes "access_inv db" and "setObjectAccess kind x denied db = Inr db'"
    and "accessTables kind = Some d"
  shows "objectDenies db' kind x = Inr (set denied \<inter> set (user_ids db)) \<and>
    (\<forall>w y e. (y, e) \<noteq> (x, d) \<longrightarrow> y \<in> effectiveDenies db' w e \<longleftrightarrow> y \<in> effectiveDenies db w e)"
  using assms(1,2)
proof (rule setObjectAccess_set_dim)
  fix d'
  assume "accessTables kind = Some d'"
    and db': "db' = set_dim d' (object_denies db d' x denied) (object_allows db d' x denied) db"
  then have d': "d' = d" using assms(3) by simp
  have members: "members_denied db' d x = members_denied db d x"
    by (simp add: members_denied_def db' cong: option.case_cong)
  have sub: "members_denied db d x \<subseteq> set (user_ids db)" by (auto simp: members_denied_def user_ids_def)
  have "denied_users d db' x = set denied \<inter> set (user_ids db)"
    unfolding denied_users_def members using sub
    by (auto simp: db' d' object_denies_def object_allows_def image_iff)
  moreover have "y \<in> effectiveDenies db' w e \<longleftrightarrow> y \<in> effectiveDenies db w e" if "(y, e) \<noteq> (x, d)" for w y e
    using that by (cases "group_of db w")
      (auto simp: db' d' effectiveDenies_def object_denies_def object_allows_def)
  ultimately show ?thesis using objectDenies_eq [OF assms(3)] by auto
qed

theorem object_editor_end_state_witness:
  "\<exists>db'. setObjectAccess ''node'' ''01'' [''u''] demo_access = Inr db' \<and>
     objectDenies db' ''node'' ''01'' = Inr {''u''}"
proof -
  have "''01'' \<in> set (universe demo_access Node)" by (simp add: demo_access_def demo_node_def universe.simps)
  then obtain db' where set: "setObjectAccess ''node'' ''01'' [''u''] demo_access = Inr db'"
    unfolding setObjectAccess_def by (auto simp: Let_def case_prod_unfold)
  from object_editor_end_state [OF demo_access_inv set, of Node]
  have "objectDenies db' ''node'' ''01'' = Inr (set [''u''] \<inter> set (user_ids demo_access))" by simp
  also have "set [''u''] \<inter> set (user_ids demo_access) = {''u''}"
    by (simp add: demo_access_def user_ids_def demo_user_def)
  finally show ?thesis using set by blast
qed

text \<open>C15. One relation, one answer, whichever end it is read from: a node, line or proxy is among
  what a subscriber is refused exactly when the subscriber is among those refused it, and a profile
  is among a subscriber's exactly when the subscriber is among the profile's users. The first list
  decides subscriptions, the second which credentials a node holds.\<close>

theorem both_ends_agree:
  assumes "access_inv db" and "accessTables kind = Some d"
  shows "(\<exists>us. objectDenies db kind x = Inr us \<and> (x \<in> effectiveDenies db u d \<longleftrightarrow> u \<in> us)) \<and>
    (p \<in> set (UserProfileIDs db u) \<longleftrightarrow> u \<in> set (ProfileUserIDs db p))"
proof
  show "\<exists>us. objectDenies db kind x = Inr us \<and> (x \<in> effectiveDenies db u d \<longleftrightarrow> u \<in> us)"
    using objectDenies_eq [OF assms(2)] deny.ends_agree [OF assms(1)] by auto
  show "p \<in> set (UserProfileIDs db u) \<longleftrightarrow> u \<in> set (ProfileUserIDs db p)"
    using finite_user_tables [OF assms(1)] grant.ends_agree [OF assms(1)]
    by (simp add: UserProfileIDs_def ProfileUserIDs_def)
qed

theorem both_ends_agree_witness:
  "''p'' \<in> set (UserProfileIDs demo_access ''u'') \<longleftrightarrow> ''u'' \<in> set (ProfileUserIDs demo_access ''p'')"
  using both_ends_agree [OF demo_access_inv, of "''node''" Node] by simp





text \<open>A node created after a member joined is out of the group's hands: its creation writes a
  denial into the member's own rows, and no setting of the group's access gives the node to them.\<close>

theorem new_node_overrides_group:
  assumes "CreateNode nid name h now db = Inr db1" and "u \<in> set (user_ids db)"
    and "SetGroupNodeAccess g ns xs rs db1 = Inr db2"
  shows "nid \<in> UserNodeDenies db2 u"
proof -
  have "(u, nid) \<in> ad_user_denies db1 Node"
    using assms(1,2) by (auto simp: CreateNode_def Let_def deny_everyone_def split: if_splits)
  moreover have "ad_user_denies db2 = ad_user_denies db1"
    using assms(3) by (auto simp: SetGroupNodeAccess_def set_group_dim_def split: if_splits)
  ultimately show ?thesis by (simp add: UserNodeDenies_def effectiveDenies_def)
qed

theorem new_node_overrides_group_witness:
  "\<exists>db1 db2. CreateNode ''02'' ''osaka'' ''tok'' 3 demo_access = Inr db1 \<and>
     SetGroupNodeAccess ''g'' [] [] [] db1 = Inr db2 \<and> ''02'' \<in> UserNodeDenies db2 ''u''"
proof -
  have "nodes_ok (ad_nodes demo_access @ [new_node ''02'' ''osaka'' ''tok'' 3])"
    by (simp add: demo_access_def nodes_ok_def new_node_def demo_node_def List.map_filter_simps)
  then obtain db1 where c: "CreateNode ''02'' ''osaka'' ''tok'' 3 demo_access = Inr db1"
    by (simp add: CreateNode_def Let_def)
  obtain db2 where s: "SetGroupNodeAccess ''g'' [] [] [] db1 = Inr db2"
    by (simp add: SetGroupNodeAccess_def)
  have "''u'' \<in> set (user_ids demo_access)" by (simp add: demo_access_def user_ids_def demo_user_def)
  from new_node_overrides_group [OF c this s] c s show ?thesis by blast
qed

text \<open>A grant in person on top of a refusal in person does nothing until the subscriber leaves
  their group, and then takes effect: binding does not clear the refusal, leaving does.\<close>

theorem bind_on_refusal:
  assumes "access_inv db" and "(u, p) \<in> ad_user_profile_denies db" and "group_of db u = Some g"
    and "BindUserProfile u p db = Inr db1" and "SetUserGroup u [] now db1 = Inr db2"
  shows "p \<notin> held_profiles db1 u \<and> p \<in> held_profiles db2 u"
proof -
  have db1: "db1 = db\<lparr>ad_user_profiles := insert (u, p) (ad_user_profiles db)\<rparr>"
    using assms(4) by (auto simp: BindUserProfile_def split: if_splits)
  obtain r where r: "user_row db1 u = Some r" "u_group_id r = Some g"
    using assms(3) by (auto simp: db1 group_of_def split: option.splits)
  have "g \<noteq> []" using group_of_Some [OF assms(1,3)] by simp
  then have db2: "db2 = update_users (\<lambda>r. u_id r = u)
      (\<lambda>r. r\<lparr>u_group_id := nullIfEmpty [], u_updated_at := now\<rparr>) (detachUser u g db1)"
    using assms(5) r by (auto simp: SetUserGroup_def Let_def split: if_splits)
  have "p \<in> rel_of (ad_user_profiles db2) u" "rel_of (ad_user_profile_denies db2) u = {}"
    by (simp_all add: db2 detachUser_eq db1)
  then have "p \<in> held_profiles db2 u" by (simp add: held_profiles_def)
  moreover have "p \<notin> held_profiles db1 u" using assms(2) by (simp add: held_profiles_def db1)
  ultimately show ?thesis by blast
qed

theorem bind_on_refusal_witness:
  "\<exists>db db1 db2. BindUserProfile ''u'' ''p'' db = Inr db1 \<and> SetUserGroup ''u'' [] 9 db1 = Inr db2 \<and>
     ''p'' \<notin> held_profiles db1 ''u'' \<and> ''p'' \<in> held_profiles db2 ''u''"
proof -
  obtain db where d: "SetUserProfileAccess ''u'' ''p'' False False demo_access = Inr db"
    and den: "(''u'', ''p'') \<in> ad_user_profile_denies db" and g: "group_of db ''u'' = Some ''g''"
    by (auto simp: SetUserProfileAccess_def Let_def group_of_def demo_row)
       (auto simp: demo_access_def empty_access_def user_ids_def user_row_def sql_row_def demo_user_def)
  have inv: "access_inv db" using SetUserProfileAccess_inv [OF demo_access_inv d] .
  have "''u'' \<in> set (user_ids db)" "''p'' \<in> set (ad_profiles db)"
    using inv den by (auto simp: access_inv_def profiles_ok_def)
  then obtain db1 where b: "BindUserProfile ''u'' ''p'' db = Inr db1" by (simp add: BindUserProfile_def)
  have "user_row db1 ''u'' \<noteq> None"
    using b \<open>''u'' \<in> set (user_ids db)\<close> user_row_in [of db1 "''u''"]
    by (auto simp: BindUserProfile_def split: if_splits)
  then obtain db2 where l: "SetUserGroup ''u'' [] 9 db1 = Inr db2"
    by (auto simp: SetUserGroup_def Let_def)
  from bind_on_refusal [OF inv den g b l] b l show ?thesis by blast
qed

end
