(* ===== verification/Credentials.thy ===== *)
theory Credentials
  imports AccessSpec
begin

text \<open>
  The credentials of subscribers: the second half of \<open>core/internal/store/user.go\<close> and the minting in
  \<open>core/internal/user/user.go\<close>. A row is one user's secret for one access point (profile and node) and one
  way out of it: the node itself, an external proxy or a relay line. An absent exit is \<open>NULL\<close> in the
  table and the empty string here. The secret is sealed under the row's identifier.

  Traffic is billed with the rate of the way out. \<open>float64\<close> is modelled by rounding to 53 significant bits,
  ties to even; below one half, where a double keeps more, rounding cannot change the ceiling that follows.
  The conversion of a value outside \<open>int64\<close> is implementation-specific in Go and an argument here.

  The theorems: minting is idempotent and keeps the secret; minting for an access point yields exactly the
  entitled subscribers whose access is in force; withdrawing access drops every credential that is no longer
  covered and no other; a report is added to the counters of one credential and billed to its owner, never
  less than the bytes when the rate is at least one, except that the sum of the two directions can
  overflow and turn into a refund.
\<close>

section \<open>The table\<close>

record cred_db =
  cd_access :: access_db
  cd_creds :: "credential list"

definition scanCredential :: "box \<Rightarrow> credential \<Rightarrow> (db_error, credential) result" where
  "scanCredential b c =
     (case Open b (sealed_aad (CredentialKey (c_id c))) (c_secret c) of
        Inl e \<Rightarrow> Inl (Sealing e)
      | Inr plain \<Rightarrow> Inr (c\<lparr>c_secret := plain\<rparr>))"

fun scanCredentials :: "box \<Rightarrow> credential list \<Rightarrow> (db_error, credential list) result" where
  "scanCredentials b [] = Inr []"
| "scanCredentials b (c # cs) =
     bind_result (scanCredential b c) (\<lambda>x. bind_result (scanCredentials b cs) (\<lambda>xs. Inr (x # xs)))"

text \<open>User, profile, node and exit: what a credential is for.\<close>

definition cred_key :: "credential \<Rightarrow> id \<times> id \<times> id \<times> id \<times> id" where
  "cred_key c = (c_user_id c, c_profile_id c, c_node_id c, c_exit_proxy_id c, c_exit_relay_id c)"

definition FindCredentialForExit ::
  "box \<Rightarrow> id \<Rightarrow> id \<Rightarrow> id \<Rightarrow> id \<Rightarrow> id \<Rightarrow> cred_db \<Rightarrow> (db_error, credential) result" where
  "FindCredentialForExit b user profile node exitProxy exitRelay db =
     (case sql_row (\<lambda>c. cred_key c = (user, profile, node, exitProxy, exitRelay)) (cd_creds db) of
        None \<Rightarrow> Inl ErrNoRows
      | Some c \<Rightarrow> scanCredential b c)"

definition FindCredential :: "box \<Rightarrow> id \<Rightarrow> id \<Rightarrow> id \<Rightarrow> id \<Rightarrow> cred_db \<Rightarrow> (db_error, credential) result" where
  "FindCredential b user profile node exitProxy = FindCredentialForExit b user profile node exitProxy []"

text \<open>The foreign keys of a row, and the unique indexes: the identifier, the stats key, and one row for each
  access point and exit.\<close>

definition cred_refs :: "access_db \<Rightarrow> credential \<Rightarrow> bool" where
  "cred_refs db c \<longleftrightarrow>
     c_user_id c \<in> set (user_ids db) \<and> c_profile_id c \<in> set (ad_profiles db) \<and> c_node_id c \<in> set (universe db Node)
     \<and> (c_exit_proxy_id c = [] \<or> c_exit_proxy_id c \<in> set (universe db External))
     \<and> (c_exit_relay_id c = [] \<or> c_exit_relay_id c \<in> set (universe db Relay))"

definition cred_inv :: "cred_db \<Rightarrow> bool" where
  "cred_inv db \<longleftrightarrow>
     access_inv (cd_access db) \<and> list_all (cred_refs (cd_access db)) (cd_creds db)
     \<and> distinct (map c_id (cd_creds db)) \<and> distinct (map c_email (cd_creds db)) \<and> distinct (map cred_key (cd_creds db))"

definition PutCredential ::
  "box \<Rightarrow> bytes \<Rightarrow> id \<Rightarrow> int \<Rightarrow> credential \<Rightarrow> cred_db \<Rightarrow> (db_error, credential \<times> cred_db) result" where
  "PutCredential b nonce newid now c db =
     (case FindCredentialForExit b (c_user_id c) (c_profile_id c) (c_node_id c) (c_exit_proxy_id c) (c_exit_relay_id c) db of
        Inr existing \<Rightarrow> Inr (existing, db)
      | Inl e \<Rightarrow>
          if e \<noteq> ErrNoRows then Inl e
          else
            (let c = c\<lparr>c_id := newid, c_created_at := now\<rparr>;
                 row = c\<lparr>c_secret := Seal b nonce (sealed_aad (CredentialKey newid)) (c_secret c),
                         c_up_bytes := 0, c_down_bytes := 0\<rparr>
             in if newid \<in> set (map c_id (cd_creds db)) \<or> c_email c \<in> set (map c_email (cd_creds db))
                then Inl UniqueViolation
                else if \<not> cred_refs (cd_access db) row then Inl ForeignKey
                else Inr (c, db\<lparr>cd_creds := cd_creds db @ [row]\<rparr>)))"

definition NodeCredentials :: "box \<Rightarrow> id \<Rightarrow> cred_db \<Rightarrow> (db_error, credential list) result" where
  "NodeCredentials b node db = scanCredentials b (sort_key c_email (filter (\<lambda>c. c_node_id c = node) (cd_creds db)))"

definition NodeProfileCredentials :: "box \<Rightarrow> id \<Rightarrow> id \<Rightarrow> cred_db \<Rightarrow> (db_error, credential list) result" where
  "NodeProfileCredentials b node profile db =
     scanCredentials b (sort_key c_email
       (filter (\<lambda>c. c_node_id c = node \<and> c_profile_id c = profile) (cd_creds db)))"

definition UserCredentials :: "box \<Rightarrow> id \<Rightarrow> cred_db \<Rightarrow> (db_error, credential list) result" where
  "UserCredentials b user db = scanCredentials b (sort_key c_email (filter (\<lambda>c. c_user_id c = user) (cd_creds db)))"

definition DeleteCredentialsForBinding :: "id \<Rightarrow> id \<Rightarrow> cred_db \<Rightarrow> cred_db" where
  "DeleteCredentialsForBinding user profile db =
     db\<lparr>cd_creds := sql_delete (\<lambda>c. c_user_id c = user \<and> c_profile_id c = profile) (cd_creds db)\<rparr>"

text \<open>The subquery is that of \<open>UserProfileIDs\<close>.\<close>

definition DeleteCredentialsNotEntitled :: "id \<Rightarrow> cred_db \<Rightarrow> cred_db" where
  "DeleteCredentialsNotEntitled user db =
     db\<lparr>cd_creds := sql_delete (\<lambda>c. c_user_id c = user \<and> c_profile_id c \<notin> held_profiles (cd_access db) user) (cd_creds db)\<rparr>"

definition SetCredentialSecret ::
  "box \<Rightarrow> bytes \<Rightarrow> id \<Rightarrow> int \<Rightarrow> id \<Rightarrow> id \<Rightarrow> id \<Rightarrow> string \<Rightarrow> string \<Rightarrow> cred_db \<Rightarrow> (db_error, credential \<times> cred_db) result" where
  "SetCredentialSecret b nonce newid now user profile node email secret db =
     (case FindCredential b user profile node [] db of
        Inl e \<Rightarrow>
          if e \<noteq> ErrNoRows then Inl e
          else PutCredential b nonce newid now
                 \<lparr>c_id = [], c_user_id = user, c_profile_id = profile, c_node_id = node, c_exit_proxy_id = [],
                  c_exit_relay_id = [], c_email = email, c_secret = secret, c_up_bytes = 0, c_down_bytes = 0,
                  c_created_at = 0\<rparr> db
      | Inr c \<Rightarrow>
          (let sealed = Seal b nonce (sealed_aad (CredentialKey (c_id c))) secret
           in Inr (c\<lparr>c_secret := secret\<rparr>,
                   db\<lparr>cd_creds := sql_update (\<lambda>r. c_id r = c_id c) (\<lambda>r. r\<lparr>c_secret := sealed\<rparr>) (cd_creds db)\<rparr>)))"

section \<open>Billing\<close>

definition round_half_even :: "rat \<Rightarrow> int" where
  "round_half_even q =
     (let f = \<lfloor>q\<rfloor>; d = q - of_int f
      in if d < 1 / 2 then f else if 1 / 2 < d then f + 1 else if even f then f else f + 1)"

function bit_len :: "int \<Rightarrow> nat" where
  "bit_len n = (if n \<le> 0 then 0 else Suc (bit_len (n div 2)))"
  by pat_completeness auto
termination
  by (relation "measure nat") auto

declare bit_len.simps [simp del]

definition float64 :: "rat \<Rightarrow> rat" where
  "float64 q =
     (if \<bar>q\<bar> < 1 / 2 then q
      else
        (let n = bit_len \<lfloor>\<bar>q\<bar>\<rfloor>
         in if n \<le> 53 then of_int (round_half_even (q * 2 ^ (53 - n))) / 2 ^ (53 - n)
            else of_int (round_half_even (q / 2 ^ (n - 53))) * 2 ^ (n - 53)))"

definition billed_bytes :: "int \<Rightarrow> int \<Rightarrow> int \<Rightarrow> rat \<Rightarrow> int" where
  "billed_bytes ovf up down rate =
     (let y = \<lceil>float64 (float64 (of_int (wrap64 (up + down))) * rate)\<rceil>
      in if min_int64 \<le> y \<and> y \<le> max_int64 then y else ovf)"

text \<open>The join of \<open>AddCredentialTraffic\<close>: the rate of the exit if there is one, else of the node.\<close>

definition exit_rate :: "access_db \<Rightarrow> credential \<Rightarrow> rat option" where
  "exit_rate db c =
     (case sql_row (\<lambda>x. x_id x = c_exit_proxy_id c) (if c_exit_proxy_id c = [] then [] else ad_proxies db) of
        Some x \<Rightarrow> Some (x_traffic_rate x)
      | None \<Rightarrow>
          (case sql_row (\<lambda>r. r_id r = c_exit_relay_id c) (if c_exit_relay_id c = [] then [] else ad_relays db) of
             Some r \<Rightarrow> Some (r_traffic_rate r)
           | None \<Rightarrow> map_option n_traffic_rate (sql_row (\<lambda>n. n_id n = c_node_id c) (ad_nodes db))))"

definition traffic_row :: "string \<Rightarrow> cred_db \<Rightarrow> (credential \<times> rat) option" where
  "traffic_row email db =
     (case sql_row (\<lambda>c. c_email c = email) (cd_creds db) of
        None \<Rightarrow> None
      | Some c \<Rightarrow>
          if c_node_id c \<in> set (universe (cd_access db) Node)
          then map_option (Pair c) (exit_rate (cd_access db) c) else None)"

datatype traffic_error = NegativeDelta

definition AddCredentialTraffic ::
  "int \<Rightarrow> string \<Rightarrow> int \<Rightarrow> int \<Rightarrow> cred_db \<Rightarrow> (traffic_error, cred_db) result" where
  "AddCredentialTraffic ovf email up down db =
     (if up < 0 \<or> down < 0 then Inl NegativeDelta
      else if up = 0 \<and> down = 0 then Inr db
      else
        (case traffic_row email db of
           None \<Rightarrow> Inr db
         | Some (c, rate) \<Rightarrow>
             Inr \<lparr>cd_access = update_users (\<lambda>u. u_id u = c_user_id c)
                     (\<lambda>u. u\<lparr>u_used_bytes := u_used_bytes u + billed_bytes ovf up down rate\<rparr>) (cd_access db),
                  cd_creds = sql_update (\<lambda>r. c_email r = email)
                     (\<lambda>r. r\<lparr>c_up_bytes := c_up_bytes r + up, c_down_bytes := c_down_bytes r + down\<rparr>) (cd_creds db)\<rparr>))"

section \<open>Minting\<close>

text \<open>What a new row needs, by user: its identifier, the generated UUID and the nonce of its seal.\<close>

type_synonym mint = "id \<Rightarrow> id \<times> string \<times> bytes"

definition new_credential :: "user \<Rightarrow> id \<Rightarrow> id \<Rightarrow> id \<Rightarrow> id \<Rightarrow> string \<Rightarrow> credential" where
  "new_credential u profile node exitID relayID secret =
     \<lparr>c_id = [], c_user_id = u_id u, c_profile_id = profile, c_node_id = node, c_exit_proxy_id = exitID,
      c_exit_relay_id = relayID,
      c_email = StatsEmailForExit (u_name u) (u_id u) profile node (exitKey exitID relayID),
      c_secret = secret, c_up_bytes = 0, c_down_bytes = 0, c_created_at = 0\<rparr>"

fun ensure_loop ::
  "box \<Rightarrow> mint \<Rightarrow> int \<Rightarrow> id \<Rightarrow> id \<Rightarrow> id \<Rightarrow> id \<Rightarrow> id set option \<Rightarrow> id list \<Rightarrow> cred_db \<Rightarrow>
   (db_error, credential list \<times> cred_db) result" where
  "ensure_loop b mint now profile node exitID relayID allowed [] db = Inr ([], db)"
| "ensure_loop b mint now profile node exitID relayID allowed (uid # uids) db =
     (case user_row (cd_access db) uid of
        None \<Rightarrow> ensure_loop b mint now profile node exitID relayID allowed uids db
      | Some u \<Rightarrow>
          if (case allowed of None \<Rightarrow> False | Some a \<Rightarrow> u_id u \<notin> a)
          then ensure_loop b mint now profile node exitID relayID allowed uids db
          else
            (case mint uid of (newid, secret, nonce) \<Rightarrow>
               bind_result (PutCredential b nonce newid now (new_credential u profile node exitID relayID secret) db)
                 (\<lambda>(c, db).
                    bind_result (ensure_loop b mint now profile node exitID relayID allowed uids db)
                      (\<lambda>(cs, db). Inr (if Allowed u now then c # cs else cs, db)))))"

definition ensureForExit ::
  "box \<Rightarrow> mint \<Rightarrow> int \<Rightarrow> id \<Rightarrow> id \<Rightarrow> id \<Rightarrow> id \<Rightarrow> id set option \<Rightarrow> cred_db \<Rightarrow>
   (db_error, credential list \<times> cred_db) result" where
  "ensureForExit b mint now profile node exitID relayID allowed db =
     ensure_loop b mint now profile node exitID relayID allowed (ProfileUserIDs (cd_access db) profile) db"

definition EnsureCredentials ::
  "box \<Rightarrow> mint \<Rightarrow> int \<Rightarrow> id \<Rightarrow> id \<Rightarrow> cred_db \<Rightarrow> (db_error, credential list \<times> cred_db) result" where
  "EnsureCredentials b mint now profile node = ensureForExit b mint now profile node [] [] None"

definition EnsureCredentialsForExit ::
  "box \<Rightarrow> mint \<Rightarrow> int \<Rightarrow> id \<Rightarrow> id \<Rightarrow> id \<Rightarrow> id set option \<Rightarrow> cred_db \<Rightarrow> (db_error, credential list \<times> cred_db) result" where
  "EnsureCredentialsForExit b mint now profile node exitID = ensureForExit b mint now profile node exitID []"

definition EnsureCredentialsForRelay ::
  "box \<Rightarrow> mint \<Rightarrow> int \<Rightarrow> id \<Rightarrow> id \<Rightarrow> id \<Rightarrow> id set option \<Rightarrow> cred_db \<Rightarrow> (db_error, credential list \<times> cred_db) result" where
  "EnsureCredentialsForRelay b mint now profile node relayID = ensureForExit b mint now profile node [] relayID"

section \<open>One credential\<close>

lemma FindCredentialForExit_scan:
  "sql_row (\<lambda>c. cred_key c = (user, profile, node, exitProxy, exitRelay)) (cd_creds db) = Some c \<Longrightarrow>
     FindCredentialForExit b user profile node exitProxy exitRelay db = scanCredential b c"
  by (simp add: FindCredentialForExit_def)

lemma scanCredential_Inr:
  "scanCredential b c = Inr c' \<longleftrightarrow>
     Open b (sealed_aad (CredentialKey (c_id c))) (c_secret c) = Inr (c_secret c') \<and> c' = c\<lparr>c_secret := c_secret c'\<rparr>"
  by (auto simp: scanCredential_def split: sum.splits)

lemma scanCredential_columns: "scanCredential b c = Inr c' \<Longrightarrow> cred_key c' = cred_key c \<and> c_id c' = c_id c \<and> c_email c' = c_email c"
  by (auto simp: scanCredential_def cred_key_def split: sum.splits)

lemma scanCredential_not_found: "scanCredential b c \<noteq> Inl ErrNoRows"
  by (simp add: scanCredential_def split: sum.splits)

lemma Find_not_found:
  "FindCredentialForExit b user profile node exitProxy exitRelay db = Inl ErrNoRows \<longleftrightarrow>
     (\<forall>c\<in>set (cd_creds db). cred_key c \<noteq> (user, profile, node, exitProxy, exitRelay))"
  unfolding sql_row_None [symmetric]
  by (cases "sql_row (\<lambda>c. cred_key c = (user, profile, node, exitProxy, exitRelay)) (cd_creds db)")
     (simp_all add: FindCredentialForExit_def scanCredential_not_found)

text \<open>The row \<open>PutCredential\<close> inserts.\<close>

definition put_row :: "box \<Rightarrow> bytes \<Rightarrow> id \<Rightarrow> int \<Rightarrow> credential \<Rightarrow> credential" where
  "put_row b nonce newid now c =
     c\<lparr>c_id := newid, c_created_at := now, c_secret := Seal b nonce (sealed_aad (CredentialKey newid)) (c_secret c),
       c_up_bytes := 0, c_down_bytes := 0\<rparr>"

lemma put_row_columns [simp]:
  "cred_key (put_row b nonce newid now c) = cred_key c" "c_id (put_row b nonce newid now c) = newid"
  "c_email (put_row b nonce newid now c) = c_email c" "c_user_id (put_row b nonce newid now c) = c_user_id c"
  "c_profile_id (put_row b nonce newid now c) = c_profile_id c"
  by (simp_all add: put_row_def cred_key_def)

lemma scan_put_row:
  assumes "box_ok b" and "nonce_ok b nonce" and "c_up_bytes c = 0" and "c_down_bytes c = 0"
  shows "scanCredential b (put_row b nonce newid now c) = Inr (c\<lparr>c_id := newid, c_created_at := now\<rparr>)"
  using assms by (simp add: scanCredential_def put_row_def Open_Seal)

lemma PutCredential_cases:
  assumes "PutCredential b nonce newid now c db = Inr (c', db')"
  obtains (existing) "FindCredentialForExit b (c_user_id c) (c_profile_id c) (c_node_id c) (c_exit_proxy_id c) (c_exit_relay_id c) db = Inr c'"
      and "db' = db"
    | (minted) "\<forall>r\<in>set (cd_creds db). cred_key r \<noteq> cred_key c" and "c' = c\<lparr>c_id := newid, c_created_at := now\<rparr>"
      and "db' = db\<lparr>cd_creds := cd_creds db @ [put_row b nonce newid now c]\<rparr>"
      and "newid \<notin> set (map c_id (cd_creds db))" and "c_email c \<notin> set (map c_email (cd_creds db))"
      and "cred_refs (cd_access db) (put_row b nonce newid now c)"
proof (cases "FindCredentialForExit b (c_user_id c) (c_profile_id c) (c_node_id c) (c_exit_proxy_id c) (c_exit_relay_id c) db")
  case (Inr x)
  with assms show ?thesis by (intro existing) (simp_all add: PutCredential_def)
next
  case (Inl e)
  then have e: "e = ErrNoRows" using assms by (simp add: PutCredential_def split: if_splits)
  with Inl have none: "\<forall>r\<in>set (cd_creds db). cred_key r \<noteq> cred_key c"
    by (simp add: Find_not_found) (simp add: cred_key_def)
  have row: "c\<lparr>c_id := newid, c_created_at := now, c_secret := Seal b nonce (sealed_aad (CredentialKey newid)) (c_secret c),
       c_up_bytes := 0, c_down_bytes := 0\<rparr> = put_row b nonce newid now c"
    by (simp add: put_row_def)
  show ?thesis
    using assms Inl e by (intro minted none) (simp_all add: PutCredential_def Let_def row split: if_splits)
qed

text \<open>Success: the access point, the exit and the owner exist, the stats key and the identifier are new, and a stored secret opens.\<close>

lemma PutCredential_ok:
  assumes "\<forall>r\<in>set (cd_creds db). is_ok (scanCredential b r)"
    and "newid \<notin> set (map c_id (cd_creds db))"
    and "(\<forall>r\<in>set (cd_creds db). cred_key r \<noteq> cred_key c) \<Longrightarrow> c_email c \<notin> set (map c_email (cd_creds db))"
    and "cred_refs (cd_access db) c"
  shows "is_ok (PutCredential b nonce newid now c db)"
proof (cases "FindCredentialForExit b (c_user_id c) (c_profile_id c) (c_node_id c) (c_exit_proxy_id c) (c_exit_relay_id c) db")
  case (Inr x)
  then show ?thesis by (simp add: PutCredential_def)
next
  case (Inl e)
  have e: "e = ErrNoRows"
    using Inl assms(1) by (auto simp: FindCredentialForExit_def is_ok_def split: option.splits sum.splits dest!: sql_row_Some)
  with Inl have "\<forall>r\<in>set (cd_creds db). cred_key r \<noteq> cred_key c"
    by (simp add: Find_not_found) (simp add: cred_key_def)
  with assms(2-4) Inl e show ?thesis
    by (auto simp: PutCredential_def Let_def cred_refs_def)
qed

lemma PutCredential_inv:
  assumes "cred_inv db" and "PutCredential b nonce newid now c db = Inr (c', db')"
  shows "cred_inv db'" and "cd_access db' = cd_access db" and "\<exists>new. cd_creds db' = cd_creds db @ new"
    and "cred_key c' = cred_key c"
proof -
  have "cred_inv db' \<and> cd_access db' = cd_access db \<and> (\<exists>new. cd_creds db' = cd_creds db @ new) \<and> cred_key c' = cred_key c"
    using assms(2)
  proof (cases rule: PutCredential_cases)
    case existing
    from existing(1) obtain r where r: "scanCredential b r = Inr c'"
        "cred_key r = (c_user_id c, c_profile_id c, c_node_id c, c_exit_proxy_id c, c_exit_relay_id c)"
      by (auto simp: FindCredentialForExit_def split: option.splits dest!: sql_row_Some)
    with scanCredential_columns have "cred_key c' = cred_key c" by (simp add: cred_key_def)
    with existing assms(1) show ?thesis by simp
  next
    case minted
    have "cred_key c' = cred_key c" by (simp add: minted(2) cred_key_def)
    moreover have "cred_key c \<notin> cred_key ` set (cd_creds db)" using minted(1) by (metis imageE)
    ultimately show ?thesis using minted(3-6) assms(1) by (simp add: cred_inv_def)
  qed
  then show "cred_inv db'" "cd_access db' = cd_access db" "\<exists>new. cd_creds db' = cd_creds db @ new"
    "cred_key c' = cred_key c" by simp_all
qed

lemma PutCredential_found:
  assumes "box_ok b" and "nonce_ok b nonce" and "c_up_bytes c = 0" and "c_down_bytes c = 0"
    and "PutCredential b nonce newid now c db = Inr (c', db')"
  shows "FindCredentialForExit b (c_user_id c) (c_profile_id c) (c_node_id c) (c_exit_proxy_id c) (c_exit_relay_id c) db' = Inr c'"
  using assms(5)
proof (cases rule: PutCredential_cases)
  case minted
  have none: "sql_row (\<lambda>r. cred_key r = cred_key c) (cd_creds db) = None" using minted(1) by (simp add: sql_row_None)
  have "sql_row (\<lambda>r. cred_key r = cred_key c) (cd_creds db') = Some (put_row b nonce newid now c)"
    by (simp add: minted(3) sql_row_append none) (simp add: sql_row_def)
  then show ?thesis
    using scan_put_row [OF assms(1-4), of newid now] minted(2)
    by (simp add: FindCredentialForExit_def) (simp add: cred_key_def)
qed simp

lemma Find_append:
  "FindCredentialForExit b user profile node exitProxy exitRelay db = Inr c \<Longrightarrow> cd_creds db' = cd_creds db @ new \<Longrightarrow>
     FindCredentialForExit b user profile node exitProxy exitRelay db' = Inr c"
  by (auto simp: FindCredentialForExit_def sql_row_append split: option.splits)

section \<open>Minting\<close>

lemma new_credential_columns [simp]:
  "cred_key (new_credential u profile node exitID relayID secret) = (u_id u, profile, node, exitID, relayID)"
  "c_user_id (new_credential u profile node exitID relayID secret) = u_id u"
  "c_profile_id (new_credential u profile node exitID relayID secret) = profile"
  "c_node_id (new_credential u profile node exitID relayID secret) = node"
  "c_exit_proxy_id (new_credential u profile node exitID relayID secret) = exitID"
  "c_exit_relay_id (new_credential u profile node exitID relayID secret) = relayID"
  "c_up_bytes (new_credential u profile node exitID relayID secret) = 0"
  "c_down_bytes (new_credential u profile node exitID relayID secret) = 0"
  "c_email (new_credential u profile node exitID relayID secret) = StatsEmailForExit (u_name u) (u_id u) profile node (exitKey exitID relayID)"
  by (simp_all add: new_credential_def cred_key_def)

text \<open>Who may hold a credential for an exit, and who has it installed.\<close>

definition may_exit :: "id set option \<Rightarrow> id \<Rightarrow> bool" where
  "may_exit allowed u \<longleftrightarrow> (case allowed of None \<Rightarrow> True | Some a \<Rightarrow> u \<in> a)"

definition in_force :: "access_db \<Rightarrow> int \<Rightarrow> id set option \<Rightarrow> id \<Rightarrow> bool" where
  "in_force db now allowed uid \<longleftrightarrow> (case user_row db uid of None \<Rightarrow> False | Some u \<Rightarrow> may_exit allowed uid \<and> Allowed u now)"

lemma ensure_loop_skip:
  "user_row (cd_access db) uid = None \<or> \<not> may_exit allowed uid \<Longrightarrow>
     ensure_loop b mint now profile node exitID relayID allowed (uid # uids) db =
     ensure_loop b mint now profile node exitID relayID allowed uids db"
  by (auto simp: may_exit_def split: option.splits dest: user_row_id)

lemma ensure_loop_step:
  "user_row (cd_access db) uid = Some u \<Longrightarrow> may_exit allowed uid \<Longrightarrow>
     ensure_loop b mint now profile node exitID relayID allowed (uid # uids) db =
     bind_result (PutCredential b (snd (snd (mint uid))) (fst (mint uid)) now
         (new_credential u profile node exitID relayID (fst (snd (mint uid)))) db)
       (\<lambda>(c, db). bind_result (ensure_loop b mint now profile node exitID relayID allowed uids db)
          (\<lambda>(cs, db). Inr (if Allowed u now then c # cs else cs, db)))"
  using user_row_id [of "cd_access db" uid u] by (auto simp: may_exit_def split: option.splits prod.splits)

declare ensure_loop.simps(2) [simp del]

lemma ensure_loop_cases:
  assumes "ensure_loop b mint now profile node exitID relayID allowed (uid # uids) db = Inr (cs, db')"
  obtains (skipped) "user_row (cd_access db) uid = None \<or> \<not> may_exit allowed uid"
      and "ensure_loop b mint now profile node exitID relayID allowed uids db = Inr (cs, db')"
    | (ensured) u c cs1 db1 where "user_row (cd_access db) uid = Some u" and "may_exit allowed uid"
      and "PutCredential b (snd (snd (mint uid))) (fst (mint uid)) now
         (new_credential u profile node exitID relayID (fst (snd (mint uid)))) db = Inr (c, db1)"
      and "ensure_loop b mint now profile node exitID relayID allowed uids db1 = Inr (cs1, db')"
      and "cs = (if Allowed u now then c # cs1 else cs1)"
proof (cases "user_row (cd_access db) uid = None \<or> \<not> may_exit allowed uid")
  case True
  with assms show ?thesis by (intro skipped) (simp_all add: ensure_loop_skip)
next
  case False
  then obtain u where u: "user_row (cd_access db) uid = Some u" "may_exit allowed uid" by auto
  from assms [unfolded ensure_loop_step [OF u]] obtain c db1 where put: "PutCredential b (snd (snd (mint uid))) (fst (mint uid)) now
      (new_credential u profile node exitID relayID (fst (snd (mint uid)))) db = Inr (c, db1)"
    by (auto simp: bind_result_eq_Inr)
  from assms [unfolded ensure_loop_step [OF u] put] obtain cs1
    where "ensure_loop b mint now profile node exitID relayID allowed uids db1 = Inr (cs1, db')"
      "cs = (if Allowed u now then c # cs1 else cs1)"
    by (auto simp: bind_result_eq_Inr)
  with ensured [OF u put] show ?thesis by blast
qed

lemma ensure_loop_frame:
  assumes "cred_inv db" and "ensure_loop b mint now profile node exitID relayID allowed uids db = Inr (cs, db')"
  shows "cred_inv db' \<and> cd_access db' = cd_access db \<and> (\<exists>new. cd_creds db' = cd_creds db @ new)"
  using assms
proof (induction uids arbitrary: db cs)
  case (Cons uid uids)
  from Cons.prems(2) show ?case
  proof (cases rule: ensure_loop_cases)
    case skipped
    with Cons show ?thesis by blast
  next
    case (ensured u c cs1 db1)
    note put = PutCredential_inv [OF Cons.prems(1) ensured(3)]
    from Cons.IH [OF put(1) ensured(4)] put(2,3) show ?thesis by fastforce
  qed
qed simp

text \<open>What the loop returns: one credential for each subscriber in force, in order, each the stored one.\<close>

lemma ensure_loop_result:
  assumes "cred_inv db" and "box_ok b" and "\<And>uid. nonce_ok b (snd (snd (mint uid)))"
    and "ensure_loop b mint now profile node exitID relayID allowed uids db = Inr (cs, db')"
  shows "map c_user_id cs = filter (in_force (cd_access db) now allowed) uids"
    and "\<forall>c\<in>set cs. FindCredentialForExit b (c_user_id c) profile node exitID relayID db' = Inr c"
proof -
  have "map c_user_id cs = filter (in_force (cd_access db) now allowed) uids \<and>
      (\<forall>c\<in>set cs. FindCredentialForExit b (c_user_id c) profile node exitID relayID db' = Inr c)"
    using assms(1,4)
  proof (induction uids arbitrary: db cs)
    case (Cons uid uids)
    from Cons.prems(2) show ?case
    proof (cases rule: ensure_loop_cases)
      case skipped
      then have "\<not> in_force (cd_access db) now allowed uid" by (auto simp: in_force_def split: option.splits)
      with Cons skipped show ?thesis by simp
    next
      case (ensured u c cs1 db1)
      have id: "u_id u = uid" using user_row_id [OF ensured(1)] .
      note put = PutCredential_inv [OF Cons.prems(1) ensured(3)]
      note IH = Cons.IH [OF put(1) ensured(4)]
      have user: "c_user_id c = uid" using put(4) id by (simp add: cred_key_def)
      have force: "in_force (cd_access db) now allowed uid = Allowed u now"
        using ensured(1,2) by (simp add: in_force_def)
      have "FindCredentialForExit b uid profile node exitID relayID db1 = Inr c"
        using PutCredential_found [OF assms(2,3) _ _ ensured(3)] id by simp
      moreover obtain new where "cd_creds db' = cd_creds db1 @ new"
        using ensure_loop_frame [OF put(1) ensured(4)] by blast
      ultimately have "FindCredentialForExit b uid profile node exitID relayID db' = Inr c"
        by (rule Find_append)
      with IH put(2) user force ensured(5) show ?thesis by simp
    qed
  qed simp
  then show "map c_user_id cs = filter (in_force (cd_access db) now allowed) uids"
    and "\<forall>c\<in>set cs. FindCredentialForExit b (c_user_id c) profile node exitID relayID db' = Inr c" by simp_all
qed

text \<open>Ensuring again, with whatever is generated the second time, changes nothing and returns the same.\<close>

lemma ensure_loop_again:
  assumes "cred_inv db" and "box_ok b" and "\<And>uid. nonce_ok b (snd (snd (mint uid)))"
    and "ensure_loop b mint now profile node exitID relayID allowed uids db = Inr (cs, db')"
  shows "ensure_loop b mint2 now profile node exitID relayID allowed uids db' = Inr (cs, db')"
  using assms(1,4)
proof (induction uids arbitrary: db cs)
  case (Cons uid uids)
  from Cons.prems(2) show ?case
  proof (cases rule: ensure_loop_cases)
    case skipped
    have "cd_access db' = cd_access db" using ensure_loop_frame [OF Cons.prems] by simp
    with Cons skipped show ?thesis by (simp add: ensure_loop_skip)
  next
    case (ensured u c cs1 db1)
    note put = PutCredential_inv [OF Cons.prems(1) ensured(3)]
    have acc: "cd_access db' = cd_access db" using ensure_loop_frame [OF Cons.prems] by simp
    have id: "u_id u = uid" using user_row_id [OF ensured(1)] .
    have "FindCredentialForExit b uid profile node exitID relayID db1 = Inr c"
      using PutCredential_found [OF assms(2,3) _ _ ensured(3)] id by simp
    moreover obtain new where "cd_creds db' = cd_creds db1 @ new"
      using ensure_loop_frame [OF put(1) ensured(4)] by blast
    ultimately have "FindCredentialForExit b uid profile node exitID relayID db' = Inr c"
      by (rule Find_append)
    with id have again: "PutCredential b nonce newid now (new_credential u profile node exitID relayID s) db' = Inr (c, db')"
      for nonce newid s by (simp add: PutCredential_def)
    from ensured(1) acc have row: "user_row (cd_access db') uid = Some u" by simp
    show ?thesis
      using Cons.IH [OF put(1) ensured(4)] ensured(5)
      by (simp add: ensure_loop_step [OF row ensured(2)] again)
  qed
qed simp


text \<open>Every stored credential carries the stats key of its access point, whatever the display name was when it
  was minted, and opens; identifiers are as generated.\<close>

definition well_keyed :: "box \<Rightarrow> credential \<Rightarrow> bool" where
  "well_keyed b c \<longleftrightarrow>
     is_ok (scanCredential b c) \<and> hex_id (c_user_id c) \<and> hex_id (c_profile_id c) \<and> hex_id (c_node_id c)
     \<and> exit_ok (c_exit_proxy_id c) (c_exit_relay_id c) \<and> key_user (c_email c) = c_user_id c
     \<and> key_place (c_email c) = [c_profile_id c, c_node_id c] @
         (let k = exitKey (c_exit_proxy_id c) (c_exit_relay_id c) in if k = [] then [] else [k])"

lemma well_keyed_email:
  assumes "well_keyed b c" and "hex_id u" and "hex_id p" and "hex_id n" and "exit_ok ex rl"
    and "c_email c = StatsEmailForExit name u p n (exitKey ex rl)"
  shows "cred_key c = (u, p, n, ex, rl)"
proof -
  note key = key_of_email [OF assms(2-4) exitKey_no_dot [OF assms(5)], of name, folded assms(6)]
  from assms(1) key(1) have user: "c_user_id c = u" by (simp add: well_keyed_def)
  have "[c_profile_id c, c_node_id c] @
         (let k = exitKey (c_exit_proxy_id c) (c_exit_relay_id c) in if k = [] then [] else [k])
       = [p, n] @ (if exitKey ex rl = [] then [] else [exitKey ex rl])"
    using assms(1) key(2) by (simp add: well_keyed_def)
  then have place: "c_profile_id c = p" "c_node_id c = n" "exitKey (c_exit_proxy_id c) (c_exit_relay_id c) = exitKey ex rl"
    by (auto simp: Let_def split: if_splits)
  have "exit_ok (c_exit_proxy_id c) (c_exit_relay_id c)" using assms(1) by (simp add: well_keyed_def)
  from exitKey_inj [OF this assms(5) place(3)] user place(1,2) show ?thesis by (simp add: cred_key_def)
qed

lemma new_credential_keyed:
  assumes "box_ok b" and "nonce_ok b nonce" and "hex_id (u_id u)" and "hex_id p" and "hex_id n" and "exit_ok ex rl"
  shows "well_keyed b (put_row b nonce newid now (new_credential u p n ex rl secret))"
proof -
  let ?c = "new_credential u p n ex rl secret"
  have "is_ok (scanCredential b (put_row b nonce newid now ?c))"
    using scan_put_row [OF assms(1,2), of ?c] by simp
  moreover have "c_node_id (put_row b nonce newid now ?c) = n" "c_exit_proxy_id (put_row b nonce newid now ?c) = ex"
    "c_exit_relay_id (put_row b nonce newid now ?c) = rl"
    by (simp_all add: put_row_def)
  ultimately show ?thesis
    using assms(3-6) key_of_email [OF assms(3-5) exitKey_no_dot [OF assms(6)]]
    by (simp add: well_keyed_def)
qed

lemma ensure_loop_ok:
  assumes "cred_inv db" and "list_all (well_keyed b) (cd_creds db)" and "box_ok b" and "\<And>uid. nonce_ok b (snd (snd (mint uid)))"
    and "hex_id profile" and "hex_id node" and "exit_ok exitID relayID"
    and "profile \<in> set (ad_profiles (cd_access db))" and "node \<in> set (universe (cd_access db) Node)"
    and "exitID = [] \<or> exitID \<in> set (universe (cd_access db) External)"
    and "relayID = [] \<or> relayID \<in> set (universe (cd_access db) Relay)"
    and "list_all hex_id uids" and "distinct (map (\<lambda>u. fst (mint u)) uids)"
    and "(\<lambda>u. fst (mint u)) ` set uids \<inter> set (map c_id (cd_creds db)) = {}"
  shows "is_ok (ensure_loop b mint now profile node exitID relayID allowed uids db)"
  using assms
proof (induction uids arbitrary: db)
  case (Cons uid uids)
  show ?case
  proof (cases "user_row (cd_access db) uid = None \<or> \<not> may_exit allowed uid")
    case True
    with Cons show ?thesis by (simp add: ensure_loop_skip)
  next
    case False
    then obtain u where u: "user_row (cd_access db) uid = Some u" "may_exit allowed uid" by auto
    have id: "u_id u = uid" using user_row_id [OF u(1)] .
    have hex: "hex_id (u_id u)" using Cons.prems(12) id by simp
    have known: "uid \<in> set (user_ids (cd_access db))" using u(1) user_row_in [of "cd_access db" uid] by simp
    let ?c = "new_credential u profile node exitID relayID (fst (snd (mint uid)))"
    let ?row = "put_row b (snd (snd (mint uid))) (fst (mint uid)) now ?c"
    have refs: "cred_refs (cd_access db) ?c" using Cons.prems(8-11) known id by (simp add: cred_refs_def)
    have email: "c_email ?c \<notin> set (map c_email (cd_creds db))" if none: "\<forall>r\<in>set (cd_creds db). cred_key r \<noteq> cred_key ?c"
    proof
      assume "c_email ?c \<in> set (map c_email (cd_creds db))"
      then obtain r where r: "r \<in> set (cd_creds db)" "c_email r = c_email ?c" by auto
      have "well_keyed b r" using Cons.prems(2) r(1) by (simp add: list_all_iff)
      from well_keyed_email [OF this hex Cons.prems(5-7), of "u_name u"] r none show False by simp
    qed
    have "is_ok (PutCredential b (snd (snd (mint uid))) (fst (mint uid)) now ?c db)"
      using Cons.prems(2,14) email by (intro PutCredential_ok refs) (auto simp: list_all_iff well_keyed_def)
    then obtain c db1 where put: "PutCredential b (snd (snd (mint uid))) (fst (mint uid)) now ?c db = Inr (c, db1)"
      by (cases "PutCredential b (snd (snd (mint uid))) (fst (mint uid)) now ?c db") auto
    note inv = PutCredential_inv [OF Cons.prems(1) put]
    have "well_keyed b ?row" using new_credential_keyed [OF Cons.prems(3,4) hex Cons.prems(5-7)] .
    then have keyed: "list_all (well_keyed b) (cd_creds db1)"
      using Cons.prems(2) by (cases rule: PutCredential_cases [OF put]) simp_all
    have ids: "(\<lambda>u. fst (mint u)) ` set uids \<inter> set (map c_id (cd_creds db1)) = {}"
      using Cons.prems(13,14) by (cases rule: PutCredential_cases [OF put]) auto
    have "is_ok (ensure_loop b mint now profile node exitID relayID allowed uids db1)"
      using Cons.prems(3-13) inv(2) ids by (intro Cons.IH [OF inv(1) keyed]) simp_all
    then obtain r where "ensure_loop b mint now profile node exitID relayID allowed uids db1 = Inr r"
      by (cases "ensure_loop b mint now profile node exitID relayID allowed uids db1") auto
    then show ?thesis by (simp add: ensure_loop_step [OF u] put split: prod.splits)
  qed
qed simp

lemma ProfileUserIDs_set: "access_inv db \<Longrightarrow> set (ProfileUserIDs db p) = {u. p \<in> held_profiles db u}"
  using finite_user_tables(2) [of db p] grant.from_object_eq [of db p] by (simp add: ProfileUserIDs_def)

lemma held_profiles_known:
  assumes "access_inv db" and "p \<in> held_profiles db u"
  shows "u \<in> set (user_ids db)" and "p \<in> set (ad_profiles db)"
proof -
  have "group_of db u = Some g \<Longrightarrow> u \<in> set (user_ids db)" for g
    using user_row_in [of db u] by (auto simp: group_of_def split: option.splits)
  moreover have "profiles_ok db" using assms(1) by (simp add: access_inv_def)
  ultimately show "u \<in> set (user_ids db)" "p \<in> set (ad_profiles db)"
    using assms(2) by (auto simp: held_profiles_def profiles_ok_def split: option.splits)
qed

section \<open>Properties of minting\<close>

text \<open>A fleet of one node, one profile and one subscriber, with identifiers as they are generated.\<close>

definition demo_people :: access_db where
  "demo_people = (empty_access [''00000000000000bb''] [])\<lparr>
     ad_users := [demo_user\<lparr>u_id := ''00000000000000aa'', u_group_id := None\<rparr>],
     ad_nodes := [demo_node\<lparr>n_id := ''00000000000000cc''\<rparr>],
     ad_user_profiles := {(''00000000000000aa'', ''00000000000000bb'')}\<rparr>"

lemma demo_people_ids:
  "user_ids demo_people = [''00000000000000aa'']" "group_ids demo_people = []"
  "universe demo_people Node = [''00000000000000cc'']" "universe demo_people Relay = []"
  "universe demo_people External = []" "ad_profiles demo_people = [''00000000000000bb'']"
  by (simp_all add: demo_people_def empty_access_def user_ids_def group_ids_def demo_user_def
      demo_node_def universe.simps)

lemma demo_people_inv: "access_inv demo_people"
proof -
  have "distinct (universe demo_people d)" for d by (cases d) (simp_all add: demo_people_ids)
  then have "rows_ok demo_people"
    by (simp add: rows_ok_def demo_people_ids) (simp add: demo_people_def empty_access_def demo_user_def)
  moreover have "profiles_ok demo_people"
    by (simp add: profiles_ok_def demo_people_ids) (simp add: demo_people_def empty_access_def)
  moreover have "dim_ok demo_people d" for d
    by (cases d) (simp_all add: dim_ok_def demo_people_ids, simp_all add: demo_people_def empty_access_def)
  ultimately show ?thesis by (simp add: access_inv_def)
qed

definition demo_creds :: cred_db where
  "demo_creds = \<lparr>cd_access = demo_people, cd_creds = []\<rparr>"

lemma demo_creds_ok:
  "cred_inv demo_creds" "box_ok plain_box" "nonce_ok plain_box []" "hex_id ''00000000000000aa''"
  "hex_id ''00000000000000bb''" "hex_id ''00000000000000cc''" "exit_ok [] []"
  by (simp_all add: cred_inv_def demo_creds_def demo_people_inv)
     (simp_all add: box_ok_def nonce_ok_def plain_box_def hex_id_def exit_ok_def is_hex_def is_digit_def)

lemma demo_profile_users: "ProfileUserIDs demo_people ''00000000000000bb'' = [''00000000000000aa'']"
proof -
  have "profile_users demo_people ''00000000000000bb'' = {''00000000000000aa''}"
    by (auto simp: profile_users_def rel_to_def demo_people_def empty_access_def demo_user_def)
  then show ?thesis by (simp add: ProfileUserIDs_def)
qed

definition demo_mint :: mint where
  "demo_mint u = (CHR ''c'' # u, ''uuid'', [])"

lemma demo_minted:
  "\<exists>cs db. ensureForExit plain_box demo_mint 100 ''00000000000000bb'' ''00000000000000cc'' [] [] None demo_creds = Inr (cs, db)
     \<and> map c_secret cs = [''uuid'']"
proof -
  have row: "user_row (cd_access demo_creds) ''00000000000000aa'' = Some (demo_user\<lparr>u_id := ''00000000000000aa'', u_group_id := None\<rparr>)"
    by (simp add: user_row_def sql_row_def demo_creds_def demo_people_def)
  show ?thesis
    by (simp add: ensureForExit_def demo_profile_users demo_creds_def)
       (simp add: ensure_loop_step [OF row, unfolded demo_creds_def] may_exit_def PutCredential_def FindCredentialForExit_def sql_row_def
          Let_def demo_mint_def new_credential_def Allowed_def Reason_def demo_user_def,
        simp add: cred_refs_def demo_people_ids)
qed

text \<open>C12. Minting for an access point and an exit returns one credential for each subscriber who holds the
  profile, may use the exit and whose access is in force, in the order of their identifiers. It only adds
  rows: no stored secret changes, so a subscriber who is suspended and resumed finds the old one. What is
  returned is what is stored, and minting again, with other random values, changes nothing and returns the
  same credentials.\<close>

theorem minting_exact:
  assumes "cred_inv db" and "box_ok b" and "\<forall>uid. nonce_ok b (snd (snd (mint uid)))"
    and "ensureForExit b mint now profile node exitID relayID allowed db = Inr (cs, db')"
  shows "map c_user_id cs = filter (in_force (cd_access db) now allowed) (ProfileUserIDs (cd_access db) profile)
    \<and> (\<forall>c\<in>set cs. FindCredentialForExit b (c_user_id c) profile node exitID relayID db' = Inr c)
    \<and> (\<exists>new. cd_creds db' = cd_creds db @ new) \<and> cd_access db' = cd_access db \<and> cred_inv db'
    \<and> ensureForExit b mint2 now profile node exitID relayID allowed db' = Inr (cs, db')"
proof -
  note run = assms(4) [unfolded ensureForExit_def]
  have nonce: "\<And>uid. nonce_ok b (snd (snd (mint uid)))" using assms(3) by simp
  from ensure_loop_frame [OF assms(1) run] ensure_loop_result [OF assms(1,2) nonce run]
    ensure_loop_again [OF assms(1,2) nonce run, of mint2]
  show ?thesis by (simp add: ensureForExit_def)
qed

theorem minting_exact_witness:
  "\<exists>cs db. ensureForExit plain_box demo_mint 100 ''00000000000000bb'' ''00000000000000cc'' [] [] None demo_creds = Inr (cs, db)
     \<and> map c_user_id cs = [''00000000000000aa'']
     \<and> ensureForExit plain_box (\<lambda>u. (u, ''other'', [])) 100 ''00000000000000bb'' ''00000000000000cc'' [] [] None db = Inr (cs, db)"
proof -
  obtain cs db where run: "ensureForExit plain_box demo_mint 100 ''00000000000000bb'' ''00000000000000cc'' [] [] None demo_creds = Inr (cs, db)"
    using demo_minted by blast
  have nonce: "\<forall>uid. nonce_ok plain_box (snd (snd (demo_mint uid)))" by (simp add: demo_mint_def demo_creds_ok)
  have "in_force demo_people 100 None ''00000000000000aa''"
    by (simp add: in_force_def user_row_def sql_row_def demo_people_def may_exit_def Allowed_def Reason_def demo_user_def)
  with minting_exact [OF demo_creds_ok(1,2) nonce run, of "\<lambda>u. (u, ''other'', [])"] run show ?thesis
    by (simp add: demo_profile_users demo_creds_def)
qed

text \<open>Minting never fails on a healthy table: when every stored credential opens and carries the stats key of
  its access point, the access point and the exit exist, and the generated identifiers are new, every
  entitled subscriber gets a credential. In particular the unique stats keys of different subscribers never
  collide, whatever they are called.\<close>

theorem minting_succeeds:
  assumes "cred_inv db" and "list_all (well_keyed b) (cd_creds db)" and "box_ok b" and "\<forall>uid. nonce_ok b (snd (snd (mint uid)))"
    and "hex_id profile" and "hex_id node" and "exit_ok exitID relayID" and "list_all hex_id (user_ids (cd_access db))"
    and "profile \<in> set (ad_profiles (cd_access db))" and "node \<in> set (universe (cd_access db) Node)"
    and "exitID = [] \<or> exitID \<in> set (universe (cd_access db) External)"
    and "relayID = [] \<or> relayID \<in> set (universe (cd_access db) Relay)"
    and "inj (\<lambda>u. fst (mint u))" and "\<forall>u. fst (mint u) \<notin> set (map c_id (cd_creds db))"
  shows "\<exists>cs db'. ensureForExit b mint now profile node exitID relayID allowed db = Inr (cs, db')"
proof -
  let ?uids = "ProfileUserIDs (cd_access db) profile"
  have acc: "access_inv (cd_access db)" using assms(1) by (simp add: cred_inv_def)
  have "list_all hex_id ?uids"
    using assms(8) held_profiles_known(1) [OF acc] ProfileUserIDs_set [OF acc, of profile]
    by (auto simp: list_all_iff)
  moreover have "distinct (map (\<lambda>u. fst (mint u)) ?uids)"
    using inj_on_subset [OF assms(13) subset_UNIV] by (simp add: ProfileUserIDs_def distinct_map)
  moreover have "(\<lambda>u. fst (mint u)) ` set ?uids \<inter> set (map c_id (cd_creds db)) = {}" using assms(14) by auto
  ultimately have "is_ok (ensureForExit b mint now profile node exitID relayID allowed db)"
    unfolding ensureForExit_def using assms(4-12)
    by (intro ensure_loop_ok [OF assms(1-3)]) simp_all
  then show ?thesis by (cases "ensureForExit b mint now profile node exitID relayID allowed db") auto
qed

theorem minting_succeeds_witness:
  "\<exists>cs db. ensureForExit plain_box demo_mint 100 ''00000000000000bb'' ''00000000000000cc'' [] [] None demo_creds = Inr (cs, db)"
proof (rule minting_succeeds [OF demo_creds_ok(1)])
  show "box_ok plain_box" "hex_id ''00000000000000bb''" "hex_id ''00000000000000cc''" "exit_ok [] []"
    by (rule demo_creds_ok)+
qed (simp_all add: demo_creds_def demo_people_ids demo_creds_ok demo_mint_def inj_def)

text \<open>Every row the loop adds belongs to a subscriber on its list and is for its profile.\<close>

lemma ensure_loop_new:
  assumes "cred_inv db" and "ensure_loop b mint now profile node exitID relayID allowed uids db = Inr (cs, db')"
    and "c \<in> set (cd_creds db')" and "c \<notin> set (cd_creds db)"
  shows "c_user_id c \<in> set uids \<and> c_profile_id c = profile"
  using assms
proof (induction uids arbitrary: db cs)
  case (Cons uid uids)
  from Cons.prems(2) show ?case
  proof (cases rule: ensure_loop_cases)
    case skipped
    with Cons show ?thesis by auto
  next
    case (ensured u r cs1 db1)
    note put = PutCredential_inv [OF Cons.prems(1) ensured(3)]
    show ?thesis
    proof (cases "c \<in> set (cd_creds db1)")
      case True
      from ensured(3) True Cons.prems(4) user_row_id [OF ensured(1)] show ?thesis
        by (cases rule: PutCredential_cases) auto
    next
      case False
      from Cons.IH [OF put(1) ensured(4) Cons.prems(3) False] show ?thesis by simp
    qed
  qed
qed simp

lemma DeleteCredentialsNotEntitled_inv: "cred_inv db \<Longrightarrow> cred_inv (DeleteCredentialsNotEntitled u db)"
  by (auto simp: cred_inv_def DeleteCredentialsNotEntitled_def sql_delete_def list_all_iff distinct_map inj_on_subset)

text \<open>C13. Once the credentials a subscriber is no longer entitled to have been dropped, no minting, for any access
  point, profile or exit, brings one back: whatever the table then holds for the subscriber is for a profile
  they hold. Nobody else's credential is touched.\<close>

theorem withdrawn_stays_out:
  assumes "cred_inv db"
    and "ensureForExit b mint now profile node exitID relayID allowed (DeleteCredentialsNotEntitled u db) = Inr (cs, db')"
  shows "(\<forall>c. c \<in> set (cd_creds db') \<and> c_user_id c = u \<longrightarrow> c_profile_id c \<in> set (UserProfileIDs (cd_access db) u))
    \<and> {c \<in> set (cd_creds db). c_user_id c \<noteq> u} \<subseteq> set (cd_creds db')"
proof -
  let ?db = "DeleteCredentialsNotEntitled u db"
  have acc: "access_inv (cd_access db)" using assms(1) by (simp add: cred_inv_def)
  have same: "cd_access ?db = cd_access db" by (simp add: DeleteCredentialsNotEntitled_def)
  have inv: "cred_inv ?db" using DeleteCredentialsNotEntitled_inv [OF assms(1)] .
  have held: "set (UserProfileIDs (cd_access db) u) = held_profiles (cd_access db) u"
    using finite_user_tables(1) [OF acc] by (simp add: UserProfileIDs_def)
  note run = assms(2) [unfolded ensureForExit_def same]
  obtain new where new: "cd_creds db' = cd_creds ?db @ new" using ensure_loop_frame [OF inv run] by blast
  have "c_profile_id c \<in> held_profiles (cd_access db) u" if c: "c \<in> set (cd_creds db')" "c_user_id c = u" for c
  proof (cases "c \<in> set (cd_creds ?db)")
    case True
    with c(2) show ?thesis by (auto simp: DeleteCredentialsNotEntitled_def set_sql_delete)
  next
    case False
    from ensure_loop_new [OF inv run c(1) False] c(2) show ?thesis by (simp add: ProfileUserIDs_set [OF acc])
  qed
  moreover have "{c \<in> set (cd_creds db). c_user_id c \<noteq> u} \<subseteq> set (cd_creds db')"
    by (auto simp: new DeleteCredentialsNotEntitled_def set_sql_delete)
  ultimately show ?thesis by (simp add: held)
qed

lemma not_in_column: "(\<And>r. r \<in> set t \<Longrightarrow> f r \<noteq> x) \<Longrightarrow> x \<notin> set (map f t)"
  by auto

theorem withdrawn_stays_out_witness:
  "\<exists>db cs db'. ''00000000000000aa'' \<in> set (map c_user_id (cd_creds db))
     \<and> ensureForExit plain_box demo_mint 100 ''00000000000000bb'' ''00000000000000cc'' [] [] None
         (DeleteCredentialsNotEntitled ''00000000000000aa'' db) = Inr (cs, db')
     \<and> ''00000000000000aa'' \<notin> set (map c_user_id (cd_creds db'))"
proof -
  let ?db = "demo_creds\<lparr>cd_access := demo_people\<lparr>ad_user_profiles := {}\<rparr>,
      cd_creds := [new_credential demo_user ''00000000000000bb'' ''00000000000000cc'' [] [] []\<lparr>c_user_id := ''00000000000000aa''\<rparr>]\<rparr>"
  let ?db' = "DeleteCredentialsNotEntitled ''00000000000000aa'' ?db"
  have none: "held_profiles (demo_people\<lparr>ad_user_profiles := {}\<rparr>) u = {}" "profile_users (demo_people\<lparr>ad_user_profiles := {}\<rparr>) p = {}" for u p
    by (auto simp: held_profiles_def profile_users_def rel_of_def rel_to_def demo_people_def empty_access_def demo_user_def
        group_of_def user_row_def sql_row_def split: option.splits if_splits)
  have acc: "access_inv (demo_people\<lparr>ad_user_profiles := {}\<rparr>)"
    using UnbindUserProfile_inv [OF demo_people_inv, of "''00000000000000aa''" "''00000000000000bb''"]
    by (simp add: UnbindUserProfile_def demo_people_def)
  have inv: "cred_inv ?db"
    using acc by (simp add: cred_inv_def cred_refs_def demo_people_ids demo_creds_def new_credential_def)
  have run: "ensureForExit plain_box demo_mint 100 ''00000000000000bb'' ''00000000000000cc'' [] [] None ?db' = Inr ([], ?db')"
    by (simp add: ensureForExit_def ProfileUserIDs_def DeleteCredentialsNotEntitled_def none)
  from withdrawn_stays_out [OF inv run]
  have "c \<in> set (cd_creds ?db') \<Longrightarrow> c_user_id c \<noteq> ''00000000000000aa''" for c
    by (auto simp: UserProfileIDs_def none)
  then have "''00000000000000aa'' \<notin> set (map c_user_id (cd_creds ?db'))" by (rule not_in_column)
  moreover have "''00000000000000aa'' \<in> set (map c_user_id (cd_creds ?db))" by (simp add: new_credential_def)
  ultimately show ?thesis using run by blast
qed

section \<open>Properties of billing\<close>

lemma round_half_even_bounds: "\<lfloor>q\<rfloor> \<le> round_half_even q \<and> round_half_even q \<le> \<lfloor>q\<rfloor> + 1"
  by (simp add: round_half_even_def Let_def)

lemma round_half_even_int [simp]: "round_half_even (of_int n) = n"
  by (simp add: round_half_even_def Let_def)

lemma round_half_even_ge: "of_int n \<le> q \<Longrightarrow> n \<le> round_half_even q"
  using round_half_even_bounds [of q] by (meson le_floor_iff order_trans)

lemma round_half_even_le: "q < of_int n \<Longrightarrow> round_half_even q \<le> n"
  using round_half_even_bounds [of q] by (simp add: floor_less_iff [symmetric])

lemma bit_len_bounds: "0 < n \<Longrightarrow> 2 ^ (bit_len n - 1) \<le> n \<and> n < 2 ^ bit_len n \<and> 0 < bit_len n"
proof (induction n rule: bit_len.induct)
  case (1 n)
  show ?case
  proof (cases "n = 1")
    case True
    then show ?thesis by (simp add: bit_len.simps)
  next
    case False
    with 1 have half: "0 < n div 2" by linarith
    then have IH: "2 ^ (bit_len (n div 2) - 1) \<le> n div 2 \<and> n div 2 < 2 ^ bit_len (n div 2) \<and> 0 < bit_len (n div 2)"
      using 1 by simp
    then obtain k where k: "bit_len (n div 2) = Suc k" by (auto simp: gr0_conv_Suc)
    have "bit_len n = Suc (Suc k)" using 1(2) k by (subst bit_len.simps) simp
    with IH k show ?thesis by auto
  qed
qed


text \<open>Between one half and \<open>2 ^ 62\<close>, a product rounds to a number that is positive, not below any integer up to
  \<open>2 ^ 53\<close> under it, and not above \<open>2 ^ 62\<close>.\<close>

lemma float64_scale:
  assumes "1 / 2 \<le> q"
  defines "n \<equiv> bit_len \<lfloor>q\<rfloor>"
  shows "q < 2 ^ n"
    and "n \<le> 53 \<Longrightarrow> float64 q = of_int (round_half_even (q * 2 ^ (53 - n))) / 2 ^ (53 - n)"
    and "53 < n \<Longrightarrow> float64 q = of_int (round_half_even (q / 2 ^ (n - 53))) * 2 ^ (n - 53)"
    and "0 < n \<Longrightarrow> 2 ^ (n - 1) \<le> q"
proof -
  have abs: "\<bar>q\<bar> = q" "\<not> q < 1 / 2" using assms(1) by simp_all
  show "n \<le> 53 \<Longrightarrow> float64 q = of_int (round_half_even (q * 2 ^ (53 - n))) / 2 ^ (53 - n)"
    "53 < n \<Longrightarrow> float64 q = of_int (round_half_even (q / 2 ^ (n - 53))) * 2 ^ (n - 53)"
    using abs by (simp_all add: float64_def Let_def n_def)
  show "q < 2 ^ n"
  proof (cases "0 < \<lfloor>q\<rfloor>")
    case True
    from bit_len_bounds [OF True] have "\<lfloor>q\<rfloor> < 2 ^ n" by (simp add: n_def)
    then have "q < of_int (2 ^ n)" by (simp only: floor_less_iff)
    then show ?thesis by simp
  next
    case False
    then have "q < 1" by (simp add: not_less)
    moreover have "(1::rat) \<le> 2 ^ n" by simp
    ultimately show ?thesis by linarith
  qed
  assume "0 < n"
  then have "0 < \<lfloor>q\<rfloor>" unfolding n_def by (subst (asm) bit_len.simps) (simp split: if_splits)
  from bit_len_bounds [OF this] have "2 ^ (n - 1) \<le> \<lfloor>q\<rfloor>" by (simp add: n_def)
  then have "of_int (2 ^ (n - 1)) \<le> q" by (simp only: le_floor_iff)
  then show "2 ^ (n - 1) \<le> q" by simp
qed

lemma float64_ge:
  assumes "1 / 2 \<le> q" and "of_int m \<le> q" and "m \<le> 2 ^ 53"
  shows "of_int m \<le> float64 q"
proof (cases "bit_len \<lfloor>q\<rfloor> \<le> 53")
  case True
  let ?k = "53 - bit_len \<lfloor>q\<rfloor>"
  have "of_int (m * 2 ^ ?k) \<le> q * 2 ^ ?k" using assms(2) by simp
  then have "m * 2 ^ ?k \<le> round_half_even (q * 2 ^ ?k)" by (rule round_half_even_ge)
  then have "of_int (m * 2 ^ ?k) \<le> (of_int (round_half_even (q * 2 ^ ?k)) :: rat)" by (simp only: of_int_le_iff)
  then show ?thesis unfolding float64_scale(2) [OF assms(1) True] by (simp add: pos_le_divide_eq)
next
  case False
  define k where "k = bit_len \<lfloor>q\<rfloor> - 53"
  have k: "bit_len \<lfloor>q\<rfloor> - 1 = 52 + k" "0 < k" using False by (simp_all add: k_def)
  have "2 ^ (52 + k) \<le> q" using float64_scale(4) [OF assms(1)] False k by simp
  then have "of_int (2 ^ 52) \<le> q / 2 ^ k" by (simp add: field_simps power_add)
  then have "2 ^ 52 \<le> round_half_even (q / 2 ^ k)" by (rule round_half_even_ge)
  then have r: "of_int (2 ^ 52) \<le> (of_int (round_half_even (q / 2 ^ k)) :: rat)" by (simp only: of_int_le_iff)
  have "(2::rat) \<le> 2 ^ k" using k(2) by (simp add: self_le_power)
  have "of_int m \<le> (of_int (2 ^ 53) :: rat)" using assms(3) by (simp only: of_int_le_iff)
  also have "(of_int (2 ^ 53) :: rat) = of_int (2 ^ 52) * 2" by simp
  also have "\<dots> \<le> of_int (round_half_even (q / 2 ^ k)) * 2 ^ k"
    using r \<open>2 \<le> 2 ^ k\<close> by (intro mult_mono) auto
  also have "\<dots> = float64 q" using float64_scale(3) [OF assms(1)] False by (simp add: k_def)
  finally show ?thesis .
qed

lemma float64_le:
  assumes "0 \<le> q" and "q < 2 ^ 62"
  shows "float64 q \<le> 2 ^ 62"
proof (cases "q < 1 / 2")
  case True
  with assms(1) show ?thesis by (simp add: float64_def)
next
  case False
  then have q: "1 / 2 \<le> q" by simp
  let ?n = "bit_len \<lfloor>q\<rfloor>"
  have n: "?n \<le> 62"
  proof (rule ccontr)
    assume "\<not> ?n \<le> 62"
    then have "2 ^ (?n - 1) \<le> q" "62 \<le> ?n - 1" using float64_scale(4) [OF q] by simp_all
    moreover from this have "(2::rat) ^ 62 \<le> 2 ^ (?n - 1)" by (intro power_increasing) simp_all
    ultimately show False using assms(2) by linarith
  qed
  have bound: "float64 q \<le> 2 ^ ?n"
  proof (cases "?n \<le> 53")
    case True
    have "q * 2 ^ (53 - ?n) < 2 ^ ?n * 2 ^ (53 - ?n)" using float64_scale(1) [OF q] by simp
    also have "\<dots> = of_int (2 ^ 53)" using True by (simp add: power_add [symmetric])
    finally have "round_half_even (q * 2 ^ (53 - ?n)) \<le> 2 ^ 53" by (rule round_half_even_le)
    then have "(of_int (round_half_even (q * 2 ^ (53 - ?n))) :: rat) \<le> of_int (2 ^ 53)" by (simp only: of_int_le_iff)
    also have "(of_int (2 ^ 53) :: rat) = 2 ^ ?n * 2 ^ (53 - ?n)" using True by (simp add: power_add [symmetric])
    finally show ?thesis unfolding float64_scale(2) [OF q True] by (simp add: pos_divide_le_eq)
  next
    case False
    have split: "(2::rat) ^ ?n = 2 ^ 53 * 2 ^ (?n - 53)" using power_add [of "2::rat" 53 "?n - 53"] False by simp
    have "q < 2 ^ 53 * 2 ^ (?n - 53)" using float64_scale(1) [OF q] split by simp
    then have "q / 2 ^ (?n - 53) < of_int (2 ^ 53)" by (simp add: field_simps)
    then have "round_half_even (q / 2 ^ (?n - 53)) \<le> 2 ^ 53" by (rule round_half_even_le)
    then have "(of_int (round_half_even (q / 2 ^ (?n - 53))) :: rat) \<le> of_int (2 ^ 53)" by (simp only: of_int_le_iff)
    then have "float64 q \<le> of_int (2 ^ 53) * 2 ^ (?n - 53)"
      using float64_scale(3) [OF q] False by (simp add: mult_right_mono)
    then show ?thesis using split by simp
  qed
  have "(2::rat) ^ ?n \<le> 2 ^ 62" using n by (intro power_increasing) simp_all
  with bound show ?thesis by linarith
qed

lemma float64_small_int:
  assumes "0 < n" and "n \<le> 2 ^ 53"
  shows "float64 (of_int n) = of_int n"
proof (cases "bit_len n \<le> 53")
  case True
  have q: "(1 / 2 :: rat) \<le> of_int n" using assms(1) by simp
  have "round_half_even (of_int n * 2 ^ k) = n * 2 ^ k" for k
    using round_half_even_int [of "n * 2 ^ k"] by simp
  with float64_scale(2) [OF q] True show ?thesis by simp
next
  case False
  from bit_len_bounds [OF assms(1)] have "2 ^ (bit_len n - 1) \<le> n" by simp
  moreover have "(2::int) ^ 53 \<le> 2 ^ (bit_len n - 1)" using False by (intro power_increasing) simp_all
  ultimately have "n = 2 ^ 53" using assms(2) by linarith
  moreover have "bit_len (2 ^ 53) = 54" by code_simp
  moreover have "round_half_even (2 ^ 53 / 2) = 2 ^ 52"
    using round_half_even_int [of "2 ^ 52"] by simp
  ultimately show ?thesis by (simp add: float64_def)
qed

lemma float64_positive: "0 < q \<Longrightarrow> 0 < float64 q"
proof (cases "q < 1 / 2")
  case False
  assume "0 < q"
  show ?thesis
  proof (cases "1 \<le> q")
    case True
    from float64_ge [of q 1] False True show ?thesis by simp
  next
    case small: False
    have "\<lfloor>q\<rfloor> = 0" using False small by (simp add: floor_eq_iff)
    then have f: "float64 q = of_int (round_half_even (q * 2 ^ 53)) / 2 ^ 53"
      using float64_scale(2) [of q] False by (simp add: bit_len.simps)
    have "of_int 1 \<le> q * 2 ^ 53" using False by simp
    from round_half_even_ge [OF this] have "0 < round_half_even (q * 2 ^ 53)" by linarith
    then show ?thesis unfolding f by simp
  qed
qed (simp add: float64_def)


lemma billed_bytes_bounds:
  assumes "0 \<le> up" and "0 \<le> down" and "0 < up + down" and "up + down \<le> 2 ^ 53" and "0 < rate"
    and "of_int (up + down) * rate < 2 ^ 62"
  shows "0 < billed_bytes ovf up down rate" and "1 \<le> rate \<Longrightarrow> up + down \<le> billed_bytes ovf up down rate"
    and "rate = 1 \<Longrightarrow> billed_bytes ovf up down rate = up + down"
proof -
  let ?n = "up + down" and ?q = "(of_int (up + down) :: rat) * rate"
  have "wrap64 ?n = ?n" using assms(3,4) by (intro wrap64_id) (simp_all add: min_int64_def max_int64_def)
  then have y: "billed_bytes ovf up down rate =
      (let y = \<lceil>float64 ?q\<rceil> in if min_int64 \<le> y \<and> y \<le> max_int64 then y else ovf)"
    using float64_small_int [OF assms(3,4)] by (simp add: billed_bytes_def)
  have pos: "0 < ?q" using assms(3,5) by simp
  then have "0 < float64 ?q" by (rule float64_positive)
  then have "0 < \<lceil>float64 ?q\<rceil>" by simp
  moreover have "float64 ?q \<le> of_int (2 ^ 62)" using float64_le [of ?q] pos assms(6) by simp
  then have "\<lceil>float64 ?q\<rceil> \<le> 2 ^ 62" by (simp only: ceiling_le_iff)
  ultimately have b: "billed_bytes ovf up down rate = \<lceil>float64 ?q\<rceil>"
    by (simp add: y Let_def min_int64_def max_int64_def)
  with \<open>0 < \<lceil>float64 ?q\<rceil>\<close> show "0 < billed_bytes ovf up down rate" by simp
  show "rate = 1 \<Longrightarrow> billed_bytes ovf up down rate = up + down"
    using float64_small_int [OF assms(3,4)] b by simp
  assume rate: "1 \<le> rate"
  have one: "(1::rat) \<le> of_int ?n" using assms(3) by (simp only: of_int_1_le_iff)
  then have "(of_int ?n :: rat) * 1 \<le> ?q" using rate by (intro mult_left_mono) linarith+
  then have ge: "of_int ?n \<le> ?q" by (simp only: mult_1_right)
  with one have "1 / 2 \<le> ?q" by linarith
  from float64_ge [OF this ge assms(4)] have "of_int ?n \<le> float64 ?q" .
  with b show "up + down \<le> billed_bytes ovf up down rate" by (simp add: le_ceiling_iff del: of_int_add)
qed

lemma traffic_row_Some:
  assumes "cred_inv db" and "traffic_row email db = Some (c, rate)"
  shows "c \<in> set (cd_creds db)" and "c_email c = email" and "c_user_id c \<in> set (user_ids (cd_access db))"
  using assms by (auto simp: traffic_row_def cred_inv_def list_all_iff cred_refs_def split: option.splits if_splits dest!: sql_row_Some)

text \<open>The demonstration subscriber with their credential on the node, at rate one.\<close>

definition demo_cred :: credential where
  "demo_cred = new_credential (demo_user\<lparr>u_id := ''00000000000000aa''\<rparr>) ''00000000000000bb'' ''00000000000000cc'' [] [] []"

lemma demo_traffic:
  "cred_inv (demo_creds\<lparr>cd_creds := [demo_cred]\<rparr>)"
  "traffic_row (c_email demo_cred) (demo_creds\<lparr>cd_creds := [demo_cred]\<rparr>) = Some (demo_cred, 1)"
  "user_row (cd_access demo_creds) ''00000000000000aa'' = Some (demo_user\<lparr>u_id := ''00000000000000aa'', u_group_id := None\<rparr>)"
  "c_user_id demo_cred = ''00000000000000aa''"
proof -
  show "cred_inv (demo_creds\<lparr>cd_creds := [demo_cred]\<rparr>)"
    by (simp add: cred_inv_def demo_people_inv demo_creds_def cred_refs_def demo_people_ids demo_cred_def)
  show "user_row (cd_access demo_creds) ''00000000000000aa'' = Some (demo_user\<lparr>u_id := ''00000000000000aa'', u_group_id := None\<rparr>)"
    by (simp add: user_row_def sql_row_def demo_creds_def demo_people_def)
  show "traffic_row (c_email demo_cred) (demo_creds\<lparr>cd_creds := [demo_cred]\<rparr>) = Some (demo_cred, 1)"
    by (simp add: traffic_row_def sql_row_def demo_creds_def demo_people_ids)
       (simp add: demo_cred_def exit_rate_def sql_row_def demo_people_def demo_node_def)
qed (simp add: demo_cred_def)



text \<open>The two directions of a report are guarded one by one but summed in 64 bits: a report of \<open>2 ^ 62\<close> bytes each
  way turns negative before it is billed, and at rate one lowers the owner's usage by \<open>2 ^ 63\<close>.\<close>

theorem overflow_refunds:
  assumes "cred_inv db" and "traffic_row email db = Some (c, 1)" and "user_row (cd_access db) (c_user_id c) = Some u"
  shows "\<exists>db' u'. AddCredentialTraffic ovf email (2 ^ 62) (2 ^ 62) db = Inr db'
    \<and> user_row (cd_access db') (c_user_id c) = Some u' \<and> u_used_bytes u' = u_used_bytes u - 2 ^ 63"
proof -
  have "bit_len (2 ^ 63) = 64" by code_simp
  moreover have "round_half_even (- (2 ^ 63) / 2048) = - (2 ^ 52)"
    using round_half_even_int [of "- (2 ^ 52)"] by simp
  moreover have "wrap64 (2 ^ 62 + 2 ^ 62) = - (2 ^ 63)" by code_simp
  ultimately have "billed_bytes ovf (2 ^ 62) (2 ^ 62) 1 = - (2 ^ 63)"
    by (simp add: billed_bytes_def float64_def min_int64_def max_int64_def)
  then have "user_row (update_users (\<lambda>u. u_id u = c_user_id c)
      (\<lambda>u. u\<lparr>u_used_bytes := u_used_bytes u + billed_bytes ovf (2 ^ 62) (2 ^ 62) 1\<rparr>) (cd_access db)) (c_user_id c)
      = Some (u\<lparr>u_used_bytes := u_used_bytes u - 2 ^ 63\<rparr>)"
    using assms(3) by (simp add: user_row_def update_users_def sql_row_update_same)
  with assms(2) show ?thesis by (simp add: AddCredentialTraffic_def)
qed

theorem overflow_refunds_witness:
  "\<exists>db' u'. AddCredentialTraffic 0 (c_email demo_cred) (2 ^ 62) (2 ^ 62) (demo_creds\<lparr>cd_creds := [demo_cred]\<rparr>) = Inr db'
    \<and> user_row (cd_access db') ''00000000000000aa'' = Some u' \<and> u_used_bytes u' = - (2 ^ 63)"
  using overflow_refunds [OF demo_traffic(1,2), of "demo_user\<lparr>u_id := ''00000000000000aa'', u_group_id := None\<rparr>" 0]
  by (simp add: demo_traffic(3,4)) (simp add: demo_user_def)

end
