(* ===== verification/History.thy ===== *)
theory History
  imports Credentials
begin

text \<open>
  What the panel keeps of reports: the series of \<open>core/internal/store/history.go\<close> and the observed addresses of
  \<open>core/internal/store/device.go\<close>. Sums in the tables are unbounded integers; a percentage is a rational. The series of
  a table are read with \<open>TrafficSeries\<close> and \<open>UserDevices\<close>.

  The theorems: the charted total is the sum of the deltas that were added, whatever the order and the buckets; and an
  address that is recorded for the first time is read back.
\<close>

definition NodeSampleInterval :: duration where "NodeSampleInterval = 60 * second"
definition NodeSampleRetention :: duration where "NodeSampleRetention = 7 * 24 * hour"
definition TrafficBucket :: duration where "TrafficBucket = hour"
definition TrafficRetention :: duration where "TrafficRetention = 90 * 24 * hour"

record node_sample =
  sm_cpu_percent :: rat
  sm_mem_used :: int
  sm_mem_total :: int
  sm_disk_used :: int
  sm_disk_total :: int
  sm_net_tx :: int
  sm_net_rx :: int

record sample_row =
  sr_node_id :: id
  sr_at :: int
  sr_sample :: node_sample

record traffic_row_t =
  tb_bucket_start :: int
  tb_node_id :: id
  tb_user_id :: id
  tb_up :: int
  tb_down :: int

text \<open>\<open>t.Truncate(d)\<close>.\<close>

definition truncate_time :: "time \<Rightarrow> duration \<Rightarrow> time" where
  "truncate_time t d = t - t mod d"

definition PutNodeSample :: "id \<Rightarrow> time \<Rightarrow> node_sample \<Rightarrow> sample_row list \<Rightarrow> sample_row list" where
  "PutNodeSample nodeID t sample rows =
     (let bucket = to_unix (truncate_time t NodeSampleInterval)
      in if list_ex (\<lambda>r. sr_node_id r = nodeID \<and> sr_at r = bucket) rows then rows
         else rows @ [\<lparr>sr_node_id = nodeID, sr_at = bucket, sr_sample = sample\<rparr>])"

definition NodeSamples :: "id \<Rightarrow> time \<Rightarrow> time \<Rightarrow> sample_row list \<Rightarrow> sample_row list" where
  "NodeSamples nodeID a z rows =
     sort_key sr_at (filter (\<lambda>r. sr_node_id r = nodeID \<and> to_unix a \<le> sr_at r \<and> sr_at r < to_unix z) rows)"

definition same_bucket :: "int \<Rightarrow> id \<Rightarrow> id \<Rightarrow> traffic_row_t \<Rightarrow> bool" where
  "same_bucket bucket nodeID userID r \<longleftrightarrow> tb_bucket_start r = bucket \<and> tb_node_id r = nodeID \<and> tb_user_id r = userID"

definition AddTraffic :: "id \<Rightarrow> id \<Rightarrow> time \<Rightarrow> int \<Rightarrow> int \<Rightarrow> traffic_row_t list \<Rightarrow> traffic_row_t list" where
  "AddTraffic nodeID userID t up down rows =
     (if up = 0 \<and> down = 0 then rows
      else
        (let bucket = to_unix (truncate_time t TrafficBucket)
         in if list_ex (same_bucket bucket nodeID userID) rows
            then sql_update (same_bucket bucket nodeID userID) (\<lambda>r. r\<lparr>tb_up := tb_up r + up, tb_down := tb_down r + down\<rparr>) rows
            else rows @ [\<lparr>tb_bucket_start = bucket, tb_node_id = nodeID, tb_user_id = userID, tb_up = up, tb_down = down\<rparr>]))"

definition in_window :: "id \<Rightarrow> id \<Rightarrow> time \<Rightarrow> time \<Rightarrow> traffic_row_t \<Rightarrow> bool" where
  "in_window userID nodeID a z r \<longleftrightarrow>
     to_unix a \<le> tb_bucket_start r \<and> tb_bucket_start r < to_unix z
     \<and> (userID = [] \<or> tb_user_id r = userID) \<and> (nodeID = [] \<or> tb_node_id r = nodeID)"

definition TrafficSeries :: "id \<Rightarrow> id \<Rightarrow> time \<Rightarrow> time \<Rightarrow> traffic_row_t list \<Rightarrow> (int \<times> int \<times> int) list" where
  "TrafficSeries userID nodeID a z rows =
     (let hit = filter (in_window userID nodeID a z) rows
      in map (\<lambda>b. (b, sum_list (map tb_up (filter (\<lambda>r. tb_bucket_start r = b) hit)),
                      sum_list (map tb_down (filter (\<lambda>r. tb_bucket_start r = b) hit))))
           (sorted_list_of_set (set (map tb_bucket_start hit))))"

definition PruneHistory :: "time \<Rightarrow> sample_row list \<Rightarrow> traffic_row_t list \<Rightarrow> nat \<times> sample_row list \<times> traffic_row_t list" where
  "PruneHistory now samples traffic =
     (let old_sample = (\<lambda>r. sr_at r < to_unix (now - NodeSampleRetention));
          old_traffic = (\<lambda>r. tb_bucket_start r < to_unix (now - TrafficRetention))
      in (rows_affected old_sample samples + rows_affected old_traffic traffic,
          sql_delete old_sample samples, sql_delete old_traffic traffic))"

definition CredentialOwner :: "string \<Rightarrow> cred_db \<Rightarrow> (id \<times> id) option" where
  "CredentialOwner email db = map_option (\<lambda>c. (c_user_id c, c_node_id c)) (sql_row (\<lambda>c. c_email c = email) (cd_creds db))"

section \<open>Addresses\<close>

definition DeviceRetention :: duration where "DeviceRetention = 30 * 24 * hour"
definition DeviceRefreshInterval :: duration where "DeviceRefreshInterval = 15 * minute"

record device_row =
  dv_user_id :: id
  dv_ip_hash :: string
  dv_ip_enc :: string
  dv_last_node_id :: id
  dv_first_seen :: int
  dv_last_seen :: int

record device =
  de_ip :: string
  de_node_id :: id
  de_first_seen :: int
  de_last_seen :: int

definition device_key :: "id \<Rightarrow> string \<Rightarrow> device_row \<Rightarrow> bool" where
  "device_key userID ipHash r \<longleftrightarrow> dv_user_id r = userID \<and> dv_ip_hash r = ipHash"

definition RecordDevice ::
  "(string \<Rightarrow> string) \<Rightarrow> box \<Rightarrow> bytes \<Rightarrow> id \<Rightarrow> string \<Rightarrow> id \<Rightarrow> time \<Rightarrow> device_row list \<Rightarrow> device_row list option" where
  "RecordDevice hashIP b nonce userID ip nodeID t rows =
     (if userID = [] \<or> ip = [] then None
      else
        (let ipHash = hashIP ip;
             sealed = Seal b nonce (sealed_aad (UserDeviceKey userID ipHash)) ip;
             now = to_unix t
         in if list_ex (device_key userID ipHash) rows
            then Some (sql_update
                   (\<lambda>r. device_key userID ipHash r \<and> now - dv_last_seen r \<ge> DeviceRefreshInterval div second)
                   (\<lambda>r. r\<lparr>dv_last_node_id := nodeID, dv_last_seen := now\<rparr>) rows)
            else Some (rows @ [\<lparr>dv_user_id = userID, dv_ip_hash = ipHash, dv_ip_enc = sealed, dv_last_node_id = nodeID,
                                dv_first_seen = now, dv_last_seen = now\<rparr>])))"

fun open_devices :: "box \<Rightarrow> id \<Rightarrow> device_row list \<Rightarrow> device list \<times> nat" where
  "open_devices b userID [] = ([], 0)"
| "open_devices b userID (r # rs) =
     (case open_devices b userID rs of
        (out, unreadable) \<Rightarrow>
          (case Open b (sealed_aad (UserDeviceKey userID (dv_ip_hash r))) (dv_ip_enc r) of
             Inl _ \<Rightarrow> (out, unreadable + 1)
           | Inr ip \<Rightarrow> (\<lparr>de_ip = ip, de_node_id = dv_last_node_id r, de_first_seen = dv_first_seen r,
                         de_last_seen = dv_last_seen r\<rparr> # out, unreadable)))"

text \<open>\<^term>\<open>None\<close> is the error that no row could be opened.\<close>

definition UserDevices :: "box \<Rightarrow> id \<Rightarrow> device_row list \<Rightarrow> device list option" where
  "UserDevices b userID rows =
     (case open_devices b userID (sort_key (\<lambda>r. - dv_last_seen r) (filter (\<lambda>r. dv_user_id r = userID) rows)) of
        (out, unreadable) \<Rightarrow> if out = [] \<and> unreadable > 0 then None else Some out)"

definition PruneDevices :: "time \<Rightarrow> device_row list \<Rightarrow> nat \<times> device_row list" where
  "PruneDevices now rows =
     (let old = (\<lambda>r. dv_last_seen r < to_unix (now - DeviceRetention)) in (rows_affected old rows, sql_delete old rows))"

section \<open>Totals\<close>

text \<open>The primary key.\<close>

definition buckets_ok :: "traffic_row_t list \<Rightarrow> bool" where
  "buckets_ok rows \<longleftrightarrow> distinct (map (\<lambda>r. (tb_bucket_start r, tb_node_id r, tb_user_id r)) rows)"

definition charted :: "id \<Rightarrow> id \<Rightarrow> time \<Rightarrow> time \<Rightarrow> traffic_row_t list \<Rightarrow> int \<times> int" where
  "charted userID nodeID a z rows =
     (let s = TrafficSeries userID nodeID a z rows in (sum_list (map (fst \<circ> snd) s), sum_list (map (snd \<circ> snd) s)))"

lemma sum_by_bucket:
  fixes f :: "traffic_row_t \<Rightarrow> int"
  shows "sum_list (map (\<lambda>b. sum_list (map f (filter (\<lambda>r. tb_bucket_start r = b) rows)))
      (sorted_list_of_set (set (map tb_bucket_start rows)))) = sum_list (map f rows)"
proof -
  have "(\<Sum>b\<leftarrow>sorted_list_of_set B. \<Sum>r\<leftarrow>filter (\<lambda>r. tb_bucket_start r = b) xs. f r) = sum_list (map f xs)"
    if "finite B" "set (map tb_bucket_start xs) \<subseteq> B" for B xs
    using that(2)
  proof (induction xs)
    case Nil
    then show ?case by simp
  next
    case (Cons x xs)
    have "(\<Sum>b\<leftarrow>sorted_list_of_set B. \<Sum>r\<leftarrow>filter (\<lambda>r. tb_bucket_start r = b) (x # xs). f r)
        = (\<Sum>b\<leftarrow>sorted_list_of_set B. (if b = tb_bucket_start x then f x else 0))
          + (\<Sum>b\<leftarrow>sorted_list_of_set B. \<Sum>r\<leftarrow>filter (\<lambda>r. tb_bucket_start r = b) xs. f r)"
      by (subst sum_list_addf [symmetric]) (intro arg_cong [where f = sum_list] map_cong, auto)
    also have "(\<Sum>b\<leftarrow>sorted_list_of_set B. (if b = tb_bucket_start x then f x else 0)) = f x"
      using Cons.prems that(1) by (subst sum_list_distinct_conv_sum_set) (simp_all add: sum.delta)
    finally show ?case using Cons by simp
  qed
  then show ?thesis by simp
qed

lemma charted_sum:
  "charted userID nodeID a z rows =
    (sum_list (map tb_up (filter (in_window userID nodeID a z) rows)), sum_list (map tb_down (filter (in_window userID nodeID a z) rows)))"
  by (simp add: charted_def TrafficSeries_def Let_def comp_def sum_by_bucket del: set_map filter_filter)

lemma bucket_split:
  assumes "buckets_ok rows" and "list_ex (same_bucket b n u) rows"
  obtains xs r ys where "rows = xs @ r # ys" "same_bucket b n u r" "\<forall>x\<in>set (xs @ ys). \<not> same_bucket b n u x"
proof -
  from assms(2) obtain r where "r \<in> set rows" and r: "same_bucket b n u r" by (auto simp: list_ex_iff)
  then obtain xs ys where rows: "rows = xs @ r # ys" by (meson split_list)
  have "\<forall>x\<in>set (xs @ ys). \<not> same_bucket b n u x"
    using assms(1) r by (auto simp: rows buckets_ok_def same_bucket_def image_iff)
  with rows r that show ?thesis by blast
qed

text \<open>A delta raises the charted total of every selection its hour, node and user belong to by itself, and no other total.
  What was charted before is unchanged, however the deltas fall into buckets.\<close>

theorem charted_total:
  assumes "buckets_ok rows"
  shows "charted userID nodeID a z (AddTraffic n u t up down rows) =
    (let hit = in_window userID nodeID a z
           \<lparr>tb_bucket_start = to_unix (truncate_time t TrafficBucket), tb_node_id = n, tb_user_id = u, tb_up = up, tb_down = down\<rparr>;
         (x, y) = charted userID nodeID a z rows
     in if hit then (x + up, y + down) else (x, y))"
proof (cases "list_ex (same_bucket (to_unix (truncate_time t TrafficBucket)) n u) rows \<and> \<not> (up = 0 \<and> down = 0)")
  case True
  let ?b = "to_unix (truncate_time t TrafficBucket)"
  obtain xs r ys where rows: "rows = xs @ r # ys" and r: "same_bucket ?b n u r"
    and others: "\<forall>x\<in>set (xs @ ys). \<not> same_bucket ?b n u x"
    using bucket_split [OF assms conjunct1 [OF True]] .
  have same: "in_window userID nodeID a z (r\<lparr>tb_up := v, tb_down := w\<rparr>) = in_window userID nodeID a z r" for v w
    by (simp add: in_window_def)
  have hit: "in_window userID nodeID a z \<lparr>tb_bucket_start = ?b, tb_node_id = n, tb_user_id = u, tb_up = up, tb_down = down\<rparr>
      = in_window userID nodeID a z r" using r by (simp add: in_window_def same_bucket_def)
  have upd: "AddTraffic n u t up down rows = xs @ r\<lparr>tb_up := tb_up r + up, tb_down := tb_down r + down\<rparr> # ys"
    using True others r by (simp add: AddTraffic_def Let_def rows sql_update_none)
  show ?thesis by (simp add: charted_sum upd hit same) (simp add: rows)
next
  case False
  then show ?thesis by (auto simp: charted_sum AddTraffic_def Let_def)
qed

lemma AddTraffic_ok: "buckets_ok rows \<Longrightarrow> buckets_ok (AddTraffic n u t up down rows)"
proof -
  assume ok: "buckets_ok rows"
  let ?k = "\<lambda>r. (tb_bucket_start r, tb_node_id r, tb_user_id r)"
  have "map ?k (sql_update P (\<lambda>r. r\<lparr>tb_up := tb_up r + up, tb_down := tb_down r + down\<rparr>) rows) = map ?k rows" for P
    by (simp add: sql_update_def)
  with ok show ?thesis
    by (auto simp: AddTraffic_def Let_def buckets_ok_def same_bucket_def list_ex_iff)
qed

theorem charted_total_witness:
  "charted [] ''n'' 0 (unix_time 7200) (AddTraffic ''n'' ''u'' (unix_time 10) 3 4 []) = (3, 4)"
  using charted_total [of "[]" "[]" "''n''" 0 "unix_time 7200" "''n''" "''u''" "unix_time 10" 3 4]
  by (simp add: buckets_ok_def charted_sum in_window_def truncate_time_def TrafficBucket_def to_unix_def unix_time_def epoch_seconds_def
      hour_def minute_def second_def)

section \<open>Addresses\<close>

text \<open>An address that is recorded is read back.\<close>

lemma open_devices_mem:
  assumes "r \<in> set rows" and "Open b (sealed_aad (UserDeviceKey u (dv_ip_hash r))) (dv_ip_enc r) = Inr ip"
  shows "\<lparr>de_ip = ip, de_node_id = dv_last_node_id r, de_first_seen = dv_first_seen r, de_last_seen = dv_last_seen r\<rparr>
    \<in> set (fst (open_devices b u rows))"
  using assms by (induction b u rows rule: open_devices.induct) (auto split: prod.split sum.split)

theorem device_read_back:
  assumes "box_ok b" and "nonce_ok b nonce" and "u \<noteq> []" and "ip \<noteq> []" and "\<not> list_ex (device_key u (hashIP ip)) rows"
  shows "\<exists>rows' ds. RecordDevice hashIP b nonce u ip node t rows = Some rows' \<and> UserDevices b u rows' = Some ds
    \<and> \<lparr>de_ip = ip, de_node_id = node, de_first_seen = to_unix t, de_last_seen = to_unix t\<rparr> \<in> set ds"
proof -
  let ?aad = "sealed_aad (UserDeviceKey u (hashIP ip))"
  let ?r = "\<lparr>dv_user_id = u, dv_ip_hash = hashIP ip, dv_ip_enc = Seal b nonce ?aad ip, dv_last_node_id = node,
      dv_first_seen = to_unix t, dv_last_seen = to_unix t\<rparr>"
  let ?d = "\<lparr>de_ip = ip, de_node_id = node, de_first_seen = to_unix t, de_last_seen = to_unix t\<rparr>"
  let ?sorted = "sort_key (\<lambda>r. - dv_last_seen r) (filter (\<lambda>r. dv_user_id r = u) (rows @ [?r]))"
  have rec: "RecordDevice hashIP b nonce u ip node t rows = Some (rows @ [?r])"
    using assms(3-5) by (simp add: RecordDevice_def Let_def)
  have "Open b ?aad (Seal b nonce ?aad ip) = Inr ip" by (rule Open_Seal [OF assms(1,2)])
  then have "?d \<in> set (fst (open_devices b u ?sorted))"
    using open_devices_mem [of ?r ?sorted b u ip] by simp
  moreover obtain ds n where "open_devices b u ?sorted = (ds, n)" by fastforce
  ultimately have "UserDevices b u (rows @ [?r]) = Some ds \<and> ?d \<in> set ds" by (auto simp: UserDevices_def)
  with rec show ?thesis by blast
qed

end
