(* ===== verification/Online.thy ===== *)
theory Online
  imports Prelude
begin

text \<open>
  Who is connected from where: \<open>core/internal/online/online.go\<close>. The registry is kept in memory; each method holds its
  lock, so it is one step. Maps are association lists with distinct keys (\<^const>\<open>gm_ok\<close>), kept by every operation.

  The theorems: a report replaces what its node contributed, so an address is on record exactly when the report names
  it or another node was the last to see it; the two ways to read the counts agree; and a run in which a user who is
  still connected to one node disappears when another node no longer sees the shared address.
\<close>

record sighting =
  sg_node_id :: id
  sg_at :: time

record node_state =
  ns_at :: time
  ns_complete :: bool

type_synonym addresses = "(string, sighting) gomap"

record registry =
  rg_users :: "(id, addresses) gomap"
  rg_nodes :: "(id, node_state) gomap"
  rg_ttl :: duration

record observation =
  ob_user_id :: id
  ob_ip :: string
  ob_at :: time

record status =
  st_count :: nat
  st_partial :: bool
  st_nodes_reporting :: nat

definition New :: "duration \<Rightarrow> registry" where
  "New ttl = \<lparr>rg_users = [], rg_nodes = [], rg_ttl = (if ttl \<le> 0 then 3 * minute else ttl)\<rparr>"

text \<open>The loop over all users that deletes what fails a test, and users without an address left.\<close>

definition sift :: "(sighting \<Rightarrow> bool) \<Rightarrow> (id, addresses) gomap \<Rightarrow> (id, addresses) gomap" where
  "sift P users =
     filter (\<lambda>(_, ips). ips \<noteq> []) (map (\<lambda>(u, ips). (u, gm_keep (\<lambda>_ s. P s) ips)) users)"

definition observe :: "id \<Rightarrow> time \<Rightarrow> observation \<Rightarrow> (id, addresses) gomap \<Rightarrow> (id, addresses) gomap" where
  "observe nodeID now ob users =
     (if ob_user_id ob = [] \<or> ob_ip ob = [] then users
      else
        (let ips = (case map_of users (ob_user_id ob) of None \<Rightarrow> [] | Some ips \<Rightarrow> ips);
             seen = (if ob_at ob = 0 then now else ob_at ob);
             newer = (case map_of ips (ob_ip ob) of None \<Rightarrow> True | Some prev \<Rightarrow> seen > sg_at prev);
             ips = (if newer then AList.update (ob_ip ob) \<lparr>sg_node_id = nodeID, sg_at = seen\<rparr> ips else ips)
         in AList.update (ob_user_id ob) ips users))"

definition Replace :: "id \<Rightarrow> observation list \<Rightarrow> bool \<Rightarrow> time \<Rightarrow> registry \<Rightarrow> registry" where
  "Replace nodeID obs full now r =
     r\<lparr>rg_nodes := AList.update nodeID \<lparr>ns_at = now, ns_complete = full\<rparr> (rg_nodes r),
       rg_users := fold (observe nodeID now) obs (sift (\<lambda>s. sg_node_id s \<noteq> nodeID) (rg_users r))\<rparr>"

definition Forget :: "id \<Rightarrow> registry \<Rightarrow> registry" where
  "Forget nodeID r =
     r\<lparr>rg_nodes := AList.delete nodeID (rg_nodes r), rg_users := sift (\<lambda>s. sg_node_id s \<noteq> nodeID) (rg_users r)\<rparr>"

definition current :: "registry \<Rightarrow> time \<Rightarrow> time \<Rightarrow> bool" where
  "current r now t \<longleftrightarrow> now - t \<le> rg_ttl r"

definition count_current :: "registry \<Rightarrow> time \<Rightarrow> addresses \<Rightarrow> nat" where
  "count_current r now ips = length (filter (\<lambda>(_, s). current r now (sg_at s)) ips)"

definition Status :: "id \<Rightarrow> time \<Rightarrow> registry \<Rightarrow> status" where
  "Status userID now r =
     (let reporting = filter (\<lambda>(_, s). current r now (ns_at s)) (rg_nodes r)
      in \<lparr>st_count = (case map_of (rg_users r) userID of None \<Rightarrow> 0 | Some ips \<Rightarrow> count_current r now ips),
          st_partial = list_ex (\<lambda>(_, s). \<not> ns_complete s) reporting, st_nodes_reporting = length reporting\<rparr>)"

definition Counts :: "time \<Rightarrow> registry \<Rightarrow> (id, nat) gomap" where
  "Counts now r =
     filter (\<lambda>(_, n). n > 0) (map (\<lambda>(u, ips). (u, count_current r now ips)) (rg_users r))"

definition Prune :: "time \<Rightarrow> registry \<Rightarrow> registry" where
  "Prune now r =
     r\<lparr>rg_nodes := gm_keep (\<lambda>_ s. current r now (ns_at s)) (rg_nodes r), rg_users := sift (\<lambda>s. current r now (sg_at s)) (rg_users r)\<rparr>"

section \<open>The maps stay maps\<close>

definition users_ok :: "(id, addresses) gomap \<Rightarrow> bool" where
  "users_ok users \<longleftrightarrow> gm_ok users \<and> (\<forall>(u, ips)\<in>set users. gm_ok ips)"

definition registry_ok :: "registry \<Rightarrow> bool" where
  "registry_ok r \<longleftrightarrow> users_ok (rg_users r) \<and> gm_ok (rg_nodes r)"

text \<open>The sighting of an address of a user.\<close>

definition sighted :: "(id, addresses) gomap \<Rightarrow> id \<Rightarrow> string \<Rightarrow> sighting option" where
  "sighted users u ip = Option.bind (map_of users u) (\<lambda>ips. map_of ips ip)"

lemma map_of_sift:
  assumes "users_ok users"
  shows "map_of (sift P users) u =
    (case map_of users u of
       None \<Rightarrow> None
     | Some ips \<Rightarrow> if gm_keep (\<lambda>_ s. P s) ips = [] then None else Some (gm_keep (\<lambda>_ s. P s) ips))"
proof -
  let ?m = "map (\<lambda>(u, ips). (u, gm_keep (\<lambda>_ s. P s) ips)) users"
  have "distinct (map fst ?m)" using assms by (simp add: users_ok_def gm_ok_def comp_def case_prod_unfold)
  then have "map_of (filter (\<lambda>(_, ips). ips \<noteq> []) ?m) u =
      (case map_of ?m u of None \<Rightarrow> None | Some ips \<Rightarrow> if ips \<noteq> [] then Some ips else None)"
    by (rule map_of_filter_distinct [where P = "\<lambda>_ ips. ips \<noteq> []"])
  moreover have "map_of ?m u = map_option (gm_keep (\<lambda>_ s. P s)) (map_of users u)"
    by (induction users) auto
  ultimately show ?thesis by (simp add: sift_def split: option.split)
qed

lemma sift_ok: "users_ok users \<Longrightarrow> users_ok (sift P users)"
  by (auto simp: users_ok_def sift_def gm_ok_def comp_def case_prod_unfold gm_keep_def distinct_map_filter_fst
      intro!: distinct_map_filter_fst)

lemma sighted_sift:
  assumes "users_ok users"
  shows "sighted (sift P users) u ip = (case sighted users u ip of None \<Rightarrow> None | Some s \<Rightarrow> if P s then Some s else None)"
proof (cases "map_of users u")
  case None
  then show ?thesis by (simp add: sighted_def map_of_sift [OF assms])
next
  case (Some ips)
  then have "gm_ok ips" using assms by (auto simp: users_ok_def dest: map_of_SomeD)
  then have "map_of (gm_keep (\<lambda>_ s. P s) ips) ip = (case map_of ips ip of None \<Rightarrow> None | Some s \<Rightarrow> if P s then Some s else None)"
    by (rule gm.get_keep)
  then show ?thesis using Some by (auto simp: sighted_def map_of_sift [OF assms] split: option.split_asm)
qed

lemma set_alist_update: "set (AList.update k v m) \<subseteq> insert (k, v) (set m)"
  by (induction m) auto

lemma addresses_of: "users_ok users \<Longrightarrow> gm_ok (case map_of users u of None \<Rightarrow> [] | Some ips \<Rightarrow> ips)"
  by (auto simp: users_ok_def dest!: map_of_SomeD split: option.split)

lemma put_user_ok: "users_ok users \<Longrightarrow> gm_ok ips \<Longrightarrow> users_ok (AList.update u ips users)"
  using set_alist_update [of u ips users] by (auto simp: users_ok_def)

lemma observe_ok: "users_ok users \<Longrightarrow> users_ok (observe node now ob users)"
  using addresses_of [of users "ob_user_id ob"] by (auto simp: observe_def Let_def intro!: put_user_ok)

lemma fold_observe_ok: "users_ok users \<Longrightarrow> users_ok (fold (observe node now) obs users)"
  by (induction obs arbitrary: users) (auto intro: observe_ok)

text \<open>Every operation keeps the maps of the registry maps.\<close>

lemma registry_ok_kept:
  assumes "registry_ok r"
  shows "registry_ok (Replace node obs full now r)" and "registry_ok (Forget node r)" and "registry_ok (Prune now r)"
  using assms by (auto simp: registry_ok_def Replace_def Forget_def Prune_def intro!: fold_observe_ok sift_ok)

section \<open>Reports\<close>

lemma sighted_observe:
  "sighted (observe node now ob users) u ip =
     (if ob_user_id ob = [] \<or> ob_ip ob = [] \<or> u \<noteq> ob_user_id ob \<or> ip \<noteq> ob_ip ob then sighted users u ip
      else (let seen = (if ob_at ob = 0 then now else ob_at ob);
                new = \<lparr>sg_node_id = node, sg_at = seen\<rparr>
            in case sighted users u ip of None \<Rightarrow> Some new | Some prev \<Rightarrow> Some (if seen > sg_at prev then new else prev)))"
  by (auto simp: observe_def sighted_def Let_def split: option.split)

definition names :: "observation list \<Rightarrow> id \<Rightarrow> string \<Rightarrow> bool" where
  "names obs u ip \<longleftrightarrow> u \<noteq> [] \<and> ip \<noteq> [] \<and> list_ex (\<lambda>ob. ob_user_id ob = u \<and> ob_ip ob = ip) obs"

lemma sighted_fold:
  "sighted (fold (observe node now) obs users) u ip \<noteq> None \<longleftrightarrow> names obs u ip \<or> sighted users u ip \<noteq> None"
proof (induction obs arbitrary: users)
  case Nil
  then show ?case by (simp add: names_def)
next
  case (Cons ob obs)
  have "sighted (observe node now ob users) u ip \<noteq> None \<longleftrightarrow> names [ob] u ip \<or> sighted users u ip \<noteq> None"
    by (auto simp: sighted_observe names_def Let_def split: option.split)
  with Cons show ?case by (auto simp: names_def)
qed

text \<open>After the report of a node, an address of a user is on record exactly when the report names it or it was last seen
  by another node.\<close>

theorem report_replaces:
  assumes "registry_ok r"
  shows "sighted (rg_users (Replace node obs full now r)) u ip \<noteq> None \<longleftrightarrow>
    names obs u ip \<or> (\<exists>s. sighted (rg_users r) u ip = Some s \<and> sg_node_id s \<noteq> node)"
proof -
  have "sighted (sift (\<lambda>s. sg_node_id s \<noteq> node) (rg_users r)) u ip \<noteq> None \<longleftrightarrow>
      (\<exists>s. sighted (rg_users r) u ip = Some s \<and> sg_node_id s \<noteq> node)"
    using assms by (auto simp: sighted_sift registry_ok_def split: option.split)
  moreover have "rg_users (Replace node obs full now r) =
      fold (observe node now) obs (sift (\<lambda>s. sg_node_id s \<noteq> node) (rg_users r))" by (simp add: Replace_def)
  ultimately show ?thesis by (simp only: sighted_fold)
qed

text \<open>The counts of all users are the counts of each.\<close>

theorem counts_agree:
  assumes "registry_ok r"
  shows "map_of (Counts now r) u = (let n = st_count (Status u now r) in if n = 0 then None else Some n)"
proof -
  let ?m = "map (\<lambda>(u, ips). (u, count_current r now ips)) (rg_users r)"
  have "distinct (map fst ?m)" using assms by (simp add: registry_ok_def users_ok_def gm_ok_def comp_def case_prod_unfold)
  then have "map_of (filter (\<lambda>(_, n). n > 0) ?m) u =
      (case map_of ?m u of None \<Rightarrow> None | Some n \<Rightarrow> if n > 0 then Some n else None)"
    by (rule map_of_filter_distinct [where P = "\<lambda>_ n. n > 0"])
  moreover have "map_of ?m u = map_option (count_current r now) (map_of (rg_users r) u)"
    by (induction "rg_users r") (auto simp: map_of_map)
  ultimately show ?thesis
    by (simp add: Counts_def Status_def Let_def split: option.split)
qed

text \<open>A user is connected to Tokyo and, from the same address, to Frankfurt, which reports last. When Frankfurt no longer
  sees the address the user counts as offline, although the last report of Tokyo still names it.\<close>

definition demo_reports :: registry where
  "demo_reports =
     (let ob = \<lparr>ob_user_id = ''u'', ob_ip = ''1.2.3.4'', ob_at = 0\<rparr>
      in Replace ''fra'' [] True (3 * second) (Replace ''fra'' [ob] True (2 * second) (Replace ''tyo'' [ob] True second (New 0))))"

theorem other_node_cleared:
  "sighted (rg_users demo_reports) ''u'' ''1.2.3.4'' = None \<and> st_count (Status ''u'' (3 * second) demo_reports) = 0"
  by code_simp

end
