(* ===== verification/Channel.thy ===== *)
theory Channel
  imports Auth History Online
begin

text \<open>
  The panel's end of the connections to the agents: the session table of \<open>core/internal/node/manager.go\<close> and the service
  of \<open>core/internal/node/service.go\<close>. Sessions are shared between the table and the goroutine that serves the stream,
  so they live in a store and the table holds references to them. \<open>attach\<close> swaps the entry under its lock and closes the old session
  afterwards; the two are separate steps. A \<open>select\<close> with two ready cases takes either: the choice is an
  argument. A frame to an agent carries what the message carries, the messages of other components as their text.

  Frames about kernel upgrades are handed to \<open>Upgrade\<close> and change nothing here. An error of the database in a report is
  logged and the loop goes on; the errors that are modelled are those the statements can give.
\<close>

section \<open>Sessions\<close>

datatype core_frame =
    ConfigPush int string string string
  | UserOpFrame string
  | CommandFrame string
  | OnlinePolicy bool int
  | XrayInstallFrame string
  | XrayChunkFrame string

record heartbeat =
  hb_config_version :: int
  hb_xray_version :: string
  hb_installed_xray_version :: string
  hb_cpu_percent :: rat
  hb_mem_used :: nat
  hb_mem_total :: nat
  hb_disk_used :: nat
  hb_disk_total :: nat
  hb_net_tx :: nat
  hb_net_rx :: nat

record hello =
  he_node_id :: id
  he_public_ip :: string
  he_agent_version :: string
  he_xray_version :: string
  he_platform :: string

type_synonym ref = nat

record stream_session =
  se_node_id :: id
  se_send :: "core_frame list"
  se_closed :: bool
  se_last_seen :: time
  se_hello :: hello
  se_last_hb :: "heartbeat option"
  se_last_push_version :: int
  se_last_push_at :: time

record fleet =
  fl_sessions :: "(id, ref) gomap"
  fl_store :: "stream_session list"
  fl_hb_timeout :: duration
  fl_probe_url :: string

definition sendQueueSize :: nat where "sendQueueSize = 16"

definition on_session :: "ref \<Rightarrow> (stream_session \<Rightarrow> stream_session) \<Rightarrow> fleet \<Rightarrow> fleet" where
  "on_session s f m = (if s < length (fl_store m) then m\<lparr>fl_store := (fl_store m)[s := f (fl_store m ! s)]\<rparr> else m)"

definition close_session :: "ref \<Rightarrow> fleet \<Rightarrow> fleet" where
  "close_session s = on_session s (\<lambda>x. x\<lparr>se_closed := True\<rparr>)"

definition touch :: "ref \<Rightarrow> heartbeat option \<Rightarrow> time \<Rightarrow> fleet \<Rightarrow> fleet" where
  "touch s hb now =
     on_session s (\<lambda>x. x\<lparr>se_last_seen := now, se_last_hb := (case hb of None \<Rightarrow> se_last_hb x | Some _ \<Rightarrow> hb)\<rparr>)"

definition new_session :: "id \<Rightarrow> hello \<Rightarrow> time \<Rightarrow> stream_session" where
  "new_session nodeID h now =
     \<lparr>se_node_id = nodeID, se_send = [], se_closed = False, se_last_seen = now, se_hello = h, se_last_hb = None,
      se_last_push_version = 0, se_last_push_at = 0\<rparr>"

text \<open>The swap, which returns the session to close, and the whole of \<open>attach\<close> when nothing comes between.\<close>

definition attach_swap :: "id \<Rightarrow> ref \<Rightarrow> fleet \<Rightarrow> ref option \<times> fleet" where
  "attach_swap nodeID s m = (map_of (fl_sessions m) nodeID, m\<lparr>fl_sessions := AList.update nodeID s (fl_sessions m)\<rparr>)"

definition attach :: "id \<Rightarrow> ref \<Rightarrow> fleet \<Rightarrow> fleet" where
  "attach nodeID s m =
     (case attach_swap nodeID s m of (old, m) \<Rightarrow> (case old of None \<Rightarrow> m | Some r \<Rightarrow> close_session r m))"

definition detach :: "id \<Rightarrow> ref \<Rightarrow> fleet \<Rightarrow> fleet" where
  "detach nodeID s m =
     (if map_of (fl_sessions m) nodeID = Some s then m\<lparr>fl_sessions := AList.delete nodeID (fl_sessions m)\<rparr> else m)"

definition session_of :: "id \<Rightarrow> fleet \<Rightarrow> stream_session option" where
  "session_of nodeID m =
     (case map_of (fl_sessions m) nodeID of
        None \<Rightarrow> None
      | Some s \<Rightarrow> if s < length (fl_store m) then Some (fl_store m ! s) else None)"

definition IsOnline :: "id \<Rightarrow> time \<Rightarrow> fleet \<Rightarrow> bool" where
  "IsOnline nodeID now m = (case session_of nodeID m of None \<Rightarrow> False | Some x \<Rightarrow> now - se_last_seen x < fl_hb_timeout m)"

datatype send_error = Offline | QueueFull

text \<open>\<open>pick\<close> is the case the \<open>select\<close> takes when the queue has room and the session is closed.\<close>

definition enqueue :: "bool \<Rightarrow> id \<Rightarrow> core_frame \<Rightarrow> fleet \<Rightarrow> send_error option \<times> fleet" where
  "enqueue pick nodeID f m =
     (case map_of (fl_sessions m) nodeID of
        None \<Rightarrow> (Some Offline, m)
      | Some s \<Rightarrow>
          (case session_of nodeID m of
             None \<Rightarrow> (Some Offline, m)
           | Some x \<Rightarrow>
               if length (se_send x) < sendQueueSize \<and> (\<not> se_closed x \<or> pick)
               then (None, on_session s (\<lambda>x. x\<lparr>se_send := se_send x @ [f]\<rparr>) m)
               else if se_closed x then (Some Offline, m)
               else (Some QueueFull, m)))"

definition PushConfig :: "bool \<Rightarrow> id \<Rightarrow> int \<Rightarrow> string \<Rightarrow> string \<Rightarrow> fleet \<Rightarrow> send_error option \<times> fleet" where
  "PushConfig pick nodeID version config probe m =
     enqueue pick nodeID (ConfigPush version config probe (fl_probe_url m)) m"

definition SendUserOp :: "bool \<Rightarrow> id \<Rightarrow> string \<Rightarrow> fleet \<Rightarrow> send_error option \<times> fleet" where
  "SendUserOp pick nodeID op = enqueue pick nodeID (UserOpFrame op)"

definition SendCommand :: "bool \<Rightarrow> id \<Rightarrow> string \<Rightarrow> fleet \<Rightarrow> send_error option \<times> fleet" where
  "SendCommand pick nodeID cmd = enqueue pick nodeID (CommandFrame cmd)"

definition SendOnlinePolicy :: "bool \<Rightarrow> id \<Rightarrow> bool \<Rightarrow> int \<Rightarrow> fleet \<Rightarrow> send_error option \<times> fleet" where
  "SendOnlinePolicy pick nodeID enabled interval = enqueue pick nodeID (OnlinePolicy enabled interval)"

definition SendXrayInstall :: "bool \<Rightarrow> id \<Rightarrow> string \<Rightarrow> fleet \<Rightarrow> send_error option \<times> fleet" where
  "SendXrayInstall pick nodeID i = enqueue pick nodeID (XrayInstallFrame i)"

definition SendXrayChunk :: "bool \<Rightarrow> id \<Rightarrow> string \<Rightarrow> fleet \<Rightarrow> send_error option \<times> fleet" where
  "SendXrayChunk pick nodeID c = enqueue pick nodeID (XrayChunkFrame c)"

definition CloseSession :: "id \<Rightarrow> fleet \<Rightarrow> fleet" where
  "CloseSession nodeID m = (case map_of (fl_sessions m) nodeID of None \<Rightarrow> m | Some s \<Rightarrow> close_session s m)"

definition CloseAll :: "fleet \<Rightarrow> fleet" where
  "CloseAll m = fold (\<lambda>(_, s). close_session s) (fl_sessions m) m"

text \<open>The writer of a session takes the frame at the front of the queue.\<close>

definition take_frame :: "ref \<Rightarrow> fleet \<Rightarrow> core_frame option \<times> fleet" where
  "take_frame s m =
     (if s < length (fl_store m)
      then (case se_send (fl_store m ! s) of
              [] \<Rightarrow> (None, m)
            | f # fs \<Rightarrow> (Some f, on_session s (\<lambda>x. x\<lparr>se_send := fs\<rparr>) m))
      else (None, m))"

section \<open>Reports\<close>

record service =
  sv_nodes :: "node list"
  sv_configs :: "node_config list"
  sv_creds :: cred_db
  sv_fleet :: fleet
  sv_online :: "registry option"
  sv_interval :: duration
  sv_devices :: "device_row list"
  sv_samples :: "sample_row list"
  sv_traffic :: "traffic_row_t list"

record service_env =
  v_box :: box
  v_nonce :: bytes
  v_sha256 :: "string \<Rightarrow> bytes"
  v_overflow :: int

definition clampInt64 :: "nat \<Rightarrow> int" where
  "clampInt64 v = (if int v > max_int64 then max_int64 else int v)"

record stat_entry =
  sn_user_scope :: bool
  sn_name :: string
  sn_uplink :: nat
  sn_downlink :: nat

definition recordTrafficHistory :: "id \<Rightarrow> string \<Rightarrow> int \<Rightarrow> int \<Rightarrow> time \<Rightarrow> service \<Rightarrow> service" where
  "recordTrafficHistory nodeID email up down now v =
     (let (userID, credNodeID) = (case CredentialOwner email (sv_creds v) of None \<Rightarrow> ([], nodeID) | Some owner \<Rightarrow> owner);
          credNodeID = (if credNodeID = [] then nodeID else credNodeID)
      in v\<lparr>sv_traffic := AddTraffic credNodeID userID now up down (sv_traffic v)\<rparr>)"

definition record_entry :: "service_env \<Rightarrow> id \<Rightarrow> time \<Rightarrow> stat_entry \<Rightarrow> service \<Rightarrow> service" where
  "record_entry env nodeID now e v =
     (if \<not> sn_user_scope e \<or> sn_name e = [] then v
      else if int (sn_uplink e) > max_int64 \<or> int (sn_downlink e) > max_int64 then v
      else
        (let up = int (sn_uplink e); down = int (sn_downlink e);
             v = (case AddCredentialTraffic (v_overflow env) (sn_name e) up down (sv_creds v) of
                    Inl _ \<Rightarrow> v | Inr db \<Rightarrow> v\<lparr>sv_creds := db\<rparr>)
         in recordTrafficHistory nodeID (sn_name e) up down now v))"

definition recordStats :: "service_env \<Rightarrow> id \<Rightarrow> time \<Rightarrow> stat_entry list \<Rightarrow> service \<Rightarrow> service" where
  "recordStats env nodeID now entries = fold (record_entry env nodeID now) entries"

record online_user =
  ou_email :: string
  ou_ips :: "(string \<times> int) list"

text \<open>What one entry of a report yields: the owner of the credential if it was issued for this node, with each address
  and the time it is believed to have been seen.\<close>

definition seen_at :: "time \<Rightarrow> int \<Rightarrow> time" where
  "seen_at now lastSeen = (if lastSeen \<le> 0 \<or> unix_time lastSeen > now then now else unix_time lastSeen)"

definition user_observations :: "id \<Rightarrow> time \<Rightarrow> cred_db \<Rightarrow> online_user \<Rightarrow> observation list" where
  "user_observations nodeID now db u =
     (if ou_email u = [] then []
      else (case CredentialOwner (ou_email u) db of
              None \<Rightarrow> []
            | Some (userID, credNodeID) \<Rightarrow>
                if credNodeID \<noteq> nodeID then []
                else map (\<lambda>(ip, t). \<lparr>ob_user_id = userID, ob_ip = ip, ob_at = seen_at now t\<rparr>)
                       (filter (\<lambda>(ip, _). ip \<noteq> []) (ou_ips u))))"

definition record_device :: "service_env \<Rightarrow> id \<Rightarrow> observation \<Rightarrow> device_row list \<Rightarrow> device_row list" where
  "record_device env nodeID ob rows =
     (case RecordDevice (HashSecret (v_sha256 env)) (v_box env) (v_nonce env) (ob_user_id ob) (ob_ip ob) nodeID (ob_at ob) rows of
        None \<Rightarrow> rows | Some rows \<Rightarrow> rows)"

definition recordOnline :: "service_env \<Rightarrow> id \<Rightarrow> time \<Rightarrow> online_user list \<Rightarrow> bool \<Rightarrow> service \<Rightarrow> service" where
  "recordOnline env nodeID now users full v =
     (case sv_online v of
        None \<Rightarrow> v
      | Some reg \<Rightarrow>
          (let obs = concat (map (user_observations nodeID now (sv_creds v)) users)
           in v\<lparr>sv_devices := fold (record_device env nodeID) obs (sv_devices v),
                sv_online := Some (Replace nodeID obs full now reg)\<rparr>))"

definition recordSample :: "id \<Rightarrow> heartbeat \<Rightarrow> time \<Rightarrow> service \<Rightarrow> service" where
  "recordSample nodeID hb now v =
     v\<lparr>sv_samples := PutNodeSample nodeID now
          \<lparr>sm_cpu_percent = hb_cpu_percent hb, sm_mem_used = clampInt64 (hb_mem_used hb), sm_mem_total = clampInt64 (hb_mem_total hb),
           sm_disk_used = clampInt64 (hb_disk_used hb), sm_disk_total = clampInt64 (hb_disk_total hb),
           sm_net_tx = clampInt64 (hb_net_tx hb), sm_net_rx = clampInt64 (hb_net_rx hb)\<rparr> (sv_samples v)\<rparr>"

definition recordXrayVersions :: "id \<Rightarrow> heartbeat \<Rightarrow> service \<Rightarrow> service" where
  "recordXrayVersions nodeID hb v =
     v\<lparr>sv_nodes := snd (SetXrayVersions nodeID (hb_xray_version hb) (hb_installed_xray_version hb) (sv_nodes v))\<rparr>"

section \<open>Reconciliation\<close>

definition reconcileConfig :: "service_env \<Rightarrow> bool \<Rightarrow> id \<Rightarrow> ref \<Rightarrow> int \<Rightarrow> time \<Rightarrow> service \<Rightarrow> service" where
  "reconcileConfig env pick nodeID s agentVersion now v =
     (case LatestPushableConfig (v_box env) nodeID (sv_configs v) of
        Inl _ \<Rightarrow> v
      | Inr cfg \<Rightarrow>
          if nc_version cfg = agentVersion \<or> \<not> s < length (fl_store (sv_fleet v)) then v
          else
            (let x = fl_store (sv_fleet v) ! s;
                 throttled = se_last_push_version x = nc_version cfg \<and> now - se_last_push_at x < 30 * second
             in if throttled then v
                else
                  (let m = on_session s (\<lambda>x. x\<lparr>se_last_push_version := nc_version cfg, se_last_push_at := now\<rparr>) (sv_fleet v)
                   in v\<lparr>sv_fleet := snd (PushConfig pick nodeID (nc_version cfg) (nc_config cfg) (nc_probe_outbound cfg) m)\<rparr>)))"

datatype agent_frame =
    Heartbeat heartbeat
  | ConfigAck int bool string
  | Event string string
  | StatsFrame "stat_entry list"
  | OnlineFrame "online_user list" bool
  | XrayStatusFrame
  | XrayRelayRequest
  | HelloFrame hello

fun handleFrame :: "service_env \<Rightarrow> bool \<Rightarrow> id \<Rightarrow> ref \<Rightarrow> time \<Rightarrow> agent_frame \<Rightarrow> service \<Rightarrow> service" where
  "handleFrame env pick nodeID s now (Heartbeat hb) v =
     (let v = v\<lparr>sv_fleet := touch s (Some hb) now (sv_fleet v)\<rparr>;
          v = v\<lparr>sv_nodes := TouchLastSeen nodeID (to_unix now) (sv_nodes v)\<rparr>
      in reconcileConfig env pick nodeID s (hb_config_version hb) now
           (recordXrayVersions nodeID hb (recordSample nodeID hb now v)))"
| "handleFrame env pick nodeID s now (ConfigAck version applied err) v =
     v\<lparr>sv_fleet := touch s None now (sv_fleet v),
       sv_configs := SetConfigResult nodeID version applied err (sv_configs v)\<rparr>"
| "handleFrame env pick nodeID s now (Event kind msg) v = v\<lparr>sv_fleet := touch s None now (sv_fleet v)\<rparr>"
| "handleFrame env pick nodeID s now (StatsFrame entries) v =
     recordStats env nodeID now entries (v\<lparr>sv_fleet := touch s None now (sv_fleet v)\<rparr>)"
| "handleFrame env pick nodeID s now (OnlineFrame users full) v =
     recordOnline env nodeID now users full (v\<lparr>sv_fleet := touch s None now (sv_fleet v)\<rparr>)"
| "handleFrame env pick nodeID s now XrayStatusFrame v = v\<lparr>sv_fleet := touch s None now (sv_fleet v)\<rparr>"
| "handleFrame env pick nodeID s now XrayRelayRequest v = v\<lparr>sv_fleet := touch s None now (sv_fleet v)\<rparr>"
| "handleFrame env pick nodeID s now (HelloFrame h) v = v"

section \<open>Streams\<close>

datatype rpc_error = InvalidArgument | PermissionDenied | Unauthenticated | FailedPrecondition | InternalError

definition Register ::
  "service_env \<Rightarrow> string \<Rightarrow> time \<Rightarrow> string \<Rightarrow> string \<Rightarrow> string \<Rightarrow> string \<Rightarrow> service \<Rightarrow> (rpc_error, id \<times> string) result \<times> service" where
  "Register env credential now joinToken hostname agentVersion peer v =
     (if joinToken = [] then (Inl InvalidArgument, v)
      else
        (case RedeemJoinToken (v_box env) (HashSecret (v_sha256 env) joinToken) (HashSecret (v_sha256 env) credential)
                hostname agentVersion peer (to_unix now) (sv_nodes v) of
           (Inl e, t) \<Rightarrow> (Inl (if e = ErrNoRows then PermissionDenied else InternalError), v\<lparr>sv_nodes := t\<rparr>)
         | (Inr n, t) \<Rightarrow> (Inr (n_id n, credential), v\<lparr>sv_nodes := t\<rparr>)))"

definition node_authenticate :: "service_env \<Rightarrow> string \<Rightarrow> service \<Rightarrow> (rpc_error, node) result" where
  "node_authenticate env credential v =
     (if credential = [] then Inl Unauthenticated
      else (case FindNodeByCredentialHash (v_box env) (HashSecret (v_sha256 env) credential) (sv_nodes v) of
              Inl e \<Rightarrow> Inl (if e = ErrNoRows then PermissionDenied else InternalError)
            | Inr n \<Rightarrow> Inr n))"

text \<open>\<open>Channel\<close> up to its loop, and what it does when it returns.\<close>

definition open_channel ::
  "service_env \<Rightarrow> bool \<Rightarrow> string \<Rightarrow> string \<Rightarrow> agent_frame \<Rightarrow> time \<Rightarrow> service \<Rightarrow> (rpc_error, id \<times> ref) result \<times> service" where
  "open_channel env pick credential peer first now v =
     (case node_authenticate env credential v of
        Inl e \<Rightarrow> (Inl e, v)
      | Inr n \<Rightarrow>
          (case first of
             HelloFrame h \<Rightarrow>
               if he_node_id h \<noteq> n_id n then (Inl PermissionDenied, v)
               else
                 (let t = UpdateHello (n_id n) (if he_public_ip h \<noteq> [] then he_public_ip h else peer) (he_agent_version h)
                            (he_xray_version h) (sv_nodes v);
                      t = snd (SetNodePlatform (n_id n) (he_platform h) t);
                      s = length (fl_store (sv_fleet v));
                      m = attach (n_id n) s ((sv_fleet v)\<lparr>fl_store := fl_store (sv_fleet v) @ [new_session (n_id n) h now]\<rparr>);
                      v = reconcileConfig env pick (n_id n) s (-1) now (v\<lparr>sv_nodes := t, sv_fleet := m\<rparr>);
                      v = (case sv_online v of
                             None \<Rightarrow> v
                           | Some _ \<Rightarrow> v\<lparr>sv_fleet := snd (SendOnlinePolicy pick (n_id n) True (sv_interval v div second) (sv_fleet v))\<rparr>)
                  in (Inr (n_id n, s), v))
           | _ \<Rightarrow> (Inl FailedPrecondition, v)))"

definition end_channel :: "id \<Rightarrow> ref \<Rightarrow> time \<Rightarrow> service \<Rightarrow> service" where
  "end_channel nodeID s now v =
     v\<lparr>sv_fleet := detach nodeID s (close_session s (sv_fleet v)),
       sv_online := map_option (Forget nodeID) (sv_online v),
       sv_nodes := TouchLastSeen nodeID (to_unix now) (sv_nodes v)\<rparr>"
section \<open>One session per node\<close>

text \<open>
  The steps of the goroutines on the session table. The second component of the state holds the sessions that were replaced
  and that \<open>attach\<close> has yet to close. A handler closes its session before it detaches it.
\<close>

inductive session_step :: "fleet \<times> ref set \<Rightarrow> fleet \<times> ref set \<Rightarrow> bool" where
  step_open: "attach_swap n (length (fl_store m)) (m\<lparr>fl_store := fl_store m @ [new_session n h now]\<rparr>) = (old, m') \<Longrightarrow>
     session_step (m, C) (m', C \<union> set_option old)"
| step_close_old: "s \<in> C \<Longrightarrow> session_step (m, C) (close_session s m, C - {s})"
| step_fail: "session_step (m, C) (close_session s m, C)"
| step_kick: "session_step (m, C) (CloseSession n m, C)"
| step_detach: "s < length (fl_store m) \<Longrightarrow> se_closed (fl_store m ! s) \<Longrightarrow>
     session_step (m, C) (detach (se_node_id (fl_store m ! s)) s m, C)"
| step_send: "enqueue pick n f m = (err, m') \<Longrightarrow> session_step (m, C) (m', C)"
| step_take: "take_frame s m = (f, m') \<Longrightarrow> session_step (m, C) (m', C)"
| step_touch: "session_step (m, C) (touch s hb now m, C)"

inductive sessions_reachable :: "fleet \<times> ref set \<Rightarrow> bool" where
  reach_init: "fl_sessions m = [] \<Longrightarrow> fl_store m = [] \<Longrightarrow> sessions_reachable (m, {})"
| reach_step: "sessions_reachable x \<Longrightarrow> session_step x y \<Longrightarrow> sessions_reachable y"

definition sessions_ok :: "fleet \<times> ref set \<Rightarrow> bool" where
  "sessions_ok x \<longleftrightarrow>
     (case x of (m, C) \<Rightarrow>
        (\<forall>n s. map_of (fl_sessions m) n = Some s \<longrightarrow> s < length (fl_store m) \<and> se_node_id (fl_store m ! s) = n)
        \<and> (\<forall>s<length (fl_store m). \<not> se_closed (fl_store m ! s) \<longrightarrow>
             map_of (fl_sessions m) (se_node_id (fl_store m ! s)) = Some s \<or> s \<in> C)
        \<and> (\<forall>s<length (fl_store m). length (se_send (fl_store m ! s)) \<le> sendQueueSize))"

lemma on_session_simps [simp]:
  "fl_sessions (on_session s f m) = fl_sessions m"
  "length (fl_store (on_session s f m)) = length (fl_store m)"
  by (simp_all add: on_session_def)

lemma nth_on_session:
  "r < length (fl_store m) \<Longrightarrow> fl_store (on_session s f m) ! r = (if r = s then f (fl_store m ! r) else fl_store m ! r)"
  by (simp add: on_session_def nth_list_update)

text \<open>An update of a session that keeps its node, opens nothing and keeps the bound of the queue.\<close>

lemma sessions_ok_update:
  assumes "sessions_ok (m, C)"
    and "\<And>x. x = fl_store m ! s \<Longrightarrow> se_node_id (f x) = se_node_id x \<and> (se_closed x \<longrightarrow> se_closed (f x))
      \<and> (length (se_send x) \<le> sendQueueSize \<longrightarrow> length (se_send (f x)) \<le> sendQueueSize)"
    and "s < length (fl_store m) \<Longrightarrow> s \<in> C - C' \<Longrightarrow> se_closed (f (fl_store m ! s))" and "C - {s} \<subseteq> C'"
  shows "sessions_ok (on_session s f m, C')"
proof (cases "s < length (fl_store m)")
  case False
  then have "on_session s f m = m" by (simp add: on_session_def)
  moreover from False assms(4) have "\<forall>r<length (fl_store m). r \<in> C \<longrightarrow> r \<in> C'" by auto
  ultimately show ?thesis using assms(1) by (auto simp: sessions_ok_def)
next
  case True
  have upd: "fl_store (on_session s f m) ! r = (if r = s then f (fl_store m ! s) else fl_store m ! r)"
    if "r < length (fl_store m)" for r using that by (auto simp: nth_on_session)
  show ?thesis
    unfolding sessions_ok_def prod.case
  proof (intro conjI allI impI)
    fix n r assume "map_of (fl_sessions (on_session s f m)) n = Some r"
    then show "r < length (fl_store (on_session s f m))" "se_node_id (fl_store (on_session s f m) ! r) = n"
      using assms(1,2) by (auto simp: sessions_ok_def upd)
  next
    fix r assume r: "r < length (fl_store (on_session s f m))" and op: "\<not> se_closed (fl_store (on_session s f m) ! r)"
    then have len: "r < length (fl_store m)" by simp
    with op assms(2) [OF refl] have "\<not> se_closed (fl_store m ! r)" by (auto simp: upd split: if_split_asm)
    with len assms(1) have "map_of (fl_sessions m) (se_node_id (fl_store m ! r)) = Some r \<or> r \<in> C"
      by (auto simp: sessions_ok_def)
    moreover have "r \<in> C'" if "r \<in> C" using that assms(3,4) op len by (cases "r = s") (auto simp: upd)
    ultimately show "map_of (fl_sessions (on_session s f m)) (se_node_id (fl_store (on_session s f m) ! r)) = Some r \<or> r \<in> C'"
      using len assms(2) [OF refl] by (auto simp: upd)
  next
    fix r assume "r < length (fl_store (on_session s f m))"
    then show "length (se_send (fl_store (on_session s f m) ! r)) \<le> sendQueueSize"
      using assms(1) assms(2) [OF refl] by (auto simp: sessions_ok_def upd)
  qed
qed

lemma sessions_ok_open:
  assumes "sessions_ok (m, C)"
    and "attach_swap n (length (fl_store m)) (m\<lparr>fl_store := fl_store m @ [new_session n h now]\<rparr>) = (old, m')"
  shows "sessions_ok (m', C \<union> set_option old)"
proof -
  from assms(2) have old: "old = map_of (fl_sessions m) n" and store: "fl_store m' = fl_store m @ [new_session n h now]"
    and table: "map_of (fl_sessions m') = (map_of (fl_sessions m))(n \<mapsto> length (fl_store m))"
    by (auto simp: attach_swap_def)
  show ?thesis
    using assms(1) unfolding sessions_ok_def
    by (auto simp: old store table nth_append new_session_def less_Suc_eq)
qed

lemma sessions_okD:
  assumes "sessions_ok (m, C)"
  shows "map_of (fl_sessions m) n = Some s \<Longrightarrow> s < length (fl_store m) \<and> se_node_id (fl_store m ! s) = n"
    and "r < length (fl_store m) \<Longrightarrow> \<not> se_closed (fl_store m ! r) \<Longrightarrow>
      map_of (fl_sessions m) (se_node_id (fl_store m ! r)) = Some r \<or> r \<in> C"
    and "r < length (fl_store m) \<Longrightarrow> length (se_send (fl_store m ! r)) \<le> sendQueueSize"
  using assms by (simp_all add: sessions_ok_def)

lemma sessions_ok_detach:
  assumes "sessions_ok (m, C)" and "s < length (fl_store m)" and "se_closed (fl_store m ! s)"
  shows "sessions_ok (detach (se_node_id (fl_store m ! s)) s m, C)"
proof (cases "map_of (fl_sessions m) (se_node_id (fl_store m ! s)) = Some s")
  case False
  then show ?thesis using assms(1) by (simp add: detach_def)
next
  case True
  then have d: "detach (se_node_id (fl_store m ! s)) s m =
      m\<lparr>fl_sessions := AList.delete (se_node_id (fl_store m ! s)) (fl_sessions m)\<rparr>" by (simp add: detach_def)
  show ?thesis
    unfolding d sessions_ok_def prod.case
  proof (intro conjI allI impI, goal_cases)
    case (1 n r)
    then show ?case using sessions_okD(1) [OF assms(1), of n r] by (simp split: if_split_asm)
  next
    case (2 n r)
    then show ?case using sessions_okD(1) [OF assms(1), of n r] by (simp split: if_split_asm)
  next
    case (3 r)
    then have "r < length (fl_store m)" "\<not> se_closed (fl_store m ! r)" "r \<noteq> s" using assms(3) by auto
    then show ?case using sessions_okD(2) [OF assms(1), of r] True by auto
  next
    case (4 r)
    then show ?case using sessions_okD(3) [OF assms(1), of r] by simp
  qed
qed

lemma enqueue_outcome:
  assumes "enqueue pick n f m = (err, m')"
  shows "m' = m \<or> (\<exists>s. session_of n m = Some (fl_store m ! s) \<and> length (se_send (fl_store m ! s)) < sendQueueSize
    \<and> m' = on_session s (\<lambda>x. x\<lparr>se_send := se_send x @ [f]\<rparr>) m)"
proof (cases "map_of (fl_sessions m) n")
  case None
  with assms show ?thesis by (simp add: enqueue_def)
next
  case (Some s)
  with assms show ?thesis
    by (cases "s < length (fl_store m)") (auto simp: enqueue_def session_of_def split: if_split_asm)
qed

lemma take_outcome:
  assumes "take_frame s m = (f, m')"
  shows "m' = m \<or> (\<exists>fs. se_send (fl_store m ! s) = the f # fs \<and> m' = on_session s (\<lambda>x. x\<lparr>se_send := fs\<rparr>) m)"
  using assms by (auto simp: take_frame_def split: if_split_asm list.split_asm)

lemma session_step_ok: "session_step x y \<Longrightarrow> sessions_ok x \<Longrightarrow> sessions_ok y"
proof (induction rule: session_step.induct)
  case (step_open n m h now old m' C)
  from sessions_ok_open [OF step_open.prems step_open.hyps] show ?case .
next
  case (step_close_old s C m)
  show ?case unfolding close_session_def by (rule sessions_ok_update [OF step_close_old.prems]) auto
next
  case (step_fail m C s)
  show ?case unfolding close_session_def by (rule sessions_ok_update [OF step_fail.prems]) auto
next
  case (step_kick m C n)
  show ?case
  proof (cases "map_of (fl_sessions m) n")
    case None
    with step_kick show ?thesis by (simp add: CloseSession_def)
  next
    case (Some s)
    have "sessions_ok (on_session s (\<lambda>x. x\<lparr>se_closed := True\<rparr>) m, C)"
      by (rule sessions_ok_update [OF step_kick.prems]) auto
    with Some show ?thesis by (simp add: CloseSession_def close_session_def)
  qed
next
  case (step_detach s m C)
  from sessions_ok_detach [OF step_detach.prems step_detach.hyps] show ?case .
next
  case (step_send pick n f m err m' C)
  from enqueue_outcome [OF step_send.hyps] show ?case
  proof (elim disjE exE conjE)
    assume "m' = m"
    with step_send.prems show ?thesis by simp
  next
    fix s assume room: "length (se_send (fl_store m ! s)) < sendQueueSize"
      and m': "m' = on_session s (\<lambda>x. x\<lparr>se_send := se_send x @ [f]\<rparr>) m"
    show ?thesis unfolding m' by (rule sessions_ok_update [OF step_send.prems]) (use room in auto)
  qed
next
  case (step_take s m f m' C)
  from take_outcome [OF step_take.hyps] show ?case
  proof (elim disjE exE conjE)
    assume "m' = m"
    with step_take.prems show ?thesis by simp
  next
    fix fs assume fs: "se_send (fl_store m ! s) = the f # fs" and m': "m' = on_session s (\<lambda>x. x\<lparr>se_send := fs\<rparr>) m"
    show ?thesis unfolding m' by (rule sessions_ok_update [OF step_take.prems]) (use fs in auto)
  qed
next
  case (step_touch m C s hb now)
  show ?case unfolding touch_def by (rule sessions_ok_update [OF step_touch.prems]) auto
qed

lemma sessions_reachable_ok: "sessions_reachable x \<Longrightarrow> sessions_ok x"
proof (induction rule: sessions_reachable.induct)
  case (reach_init m)
  then show ?case by (simp add: sessions_ok_def)
next
  case (reach_step x y)
  then show ?case using session_step_ok by blast
qed

section \<open>Healing of drift\<close>

lemma session_of_ref:
  "map_of (fl_sessions m) n = Some s \<Longrightarrow> s < length (fl_store m) \<Longrightarrow> session_of n m = Some (fl_store m ! s)"
  by (simp add: session_of_def)

lemma push_queued:
  assumes "map_of (fl_sessions m) n = Some s" and "s < length (fl_store m)" and "\<not> se_closed (fl_store m ! s)"
    and "length (se_send (fl_store m ! s)) < sendQueueSize"
  shows "PushConfig pick n version config probe m =
    (None, on_session s (\<lambda>x. x\<lparr>se_send := se_send x @ [ConfigPush version config probe (fl_probe_url m)]\<rparr>) m)"
  using assms by (simp add: PushConfig_def enqueue_def session_of_ref)

text \<open>C28. A heartbeat that reports another version than the newest one that may be pushed gets that version queued, unless it was
  sent within the last half minute: a push that was lost or overtaken heals by itself.\<close>

theorem drift_is_healed:
  assumes "LatestPushableConfig (v_box env) node (sv_configs v) = Inr cfg" and "nc_version cfg \<noteq> hb_config_version hb"
    and "map_of (fl_sessions (sv_fleet v)) node = Some s" and "s < length (fl_store (sv_fleet v))"
    and "\<not> se_closed (fl_store (sv_fleet v) ! s)" and "length (se_send (fl_store (sv_fleet v) ! s)) < sendQueueSize"
    and "se_last_push_version (fl_store (sv_fleet v) ! s) \<noteq> nc_version cfg
      \<or> 30 * second \<le> now - se_last_push_at (fl_store (sv_fleet v) ! s)"
  shows "se_send (fl_store (sv_fleet (handleFrame env pick node s now (Heartbeat hb) v)) ! s) =
    se_send (fl_store (sv_fleet v) ! s) @
      [ConfigPush (nc_version cfg) (nc_config cfg) (nc_probe_outbound cfg) (fl_probe_url (sv_fleet v))]"
proof -
  let ?f = "\<lambda>x. x\<lparr>se_last_seen := now, se_last_hb := Some hb\<rparr>"
  let ?g = "\<lambda>x. x\<lparr>se_last_push_version := nc_version cfg, se_last_push_at := now\<rparr>"
  let ?m = "on_session s ?g (on_session s ?f (sv_fleet v))"
  have x: "fl_store ?m ! s = ?g (?f (fl_store (sv_fleet v) ! s))" using assms(4) by (simp add: nth_on_session)
  have url: "fl_probe_url (on_session s h m) = fl_probe_url m" for h m by (simp add: on_session_def)
  have "PushConfig pick node (nc_version cfg) (nc_config cfg) (nc_probe_outbound cfg) ?m =
      (None, on_session s (\<lambda>x. x\<lparr>se_send := se_send x @ [ConfigPush (nc_version cfg) (nc_config cfg) (nc_probe_outbound cfg) (fl_probe_url ?m)]\<rparr>) ?m)"
    using assms(3-6) x by (intro push_queued) simp_all
  moreover have "sv_fleet (handleFrame env pick node s now (Heartbeat hb) v) =
      snd (PushConfig pick node (nc_version cfg) (nc_config cfg) (nc_probe_outbound cfg) ?m)"
    using assms(1,2,4,7)
    by (auto simp: reconcileConfig_def recordXrayVersions_def recordSample_def Let_def touch_def nth_on_session)
  ultimately show ?thesis using assms(4) x by (simp add: nth_on_session url)
qed

section \<open>Whom a node may speak for\<close>

definition speaks_for :: "id \<Rightarrow> cred_db \<Rightarrow> id \<Rightarrow> bool" where
  "speaks_for node db u \<longleftrightarrow> list_ex (\<lambda>c. c_user_id c = u \<and> c_node_id c = node) (cd_creds db)"

lemma observations_own: "ob \<in> set (user_observations node now db u) \<Longrightarrow> speaks_for node db (ob_user_id ob)"
  by (auto simp: user_observations_def CredentialOwner_def speaks_for_def list_ex_iff sql_row_def dest!: find_SomeD [OF sym]
      split: if_split_asm option.split_asm)

lemma sighted_node_fold:
  assumes "sighted (fold (observe node now) obs users) u ip = Some s" and "sg_node_id s = node"
  shows "sighted users u ip = Some s \<or> names obs u ip"
  using assms
proof (induction obs arbitrary: users)
  case Nil
  then show ?case by simp
next
  case (Cons ob obs)
  then have "sighted (observe node now ob users) u ip = Some s \<or> names obs u ip" by simp
  then show ?case
    by (auto simp: sighted_observe names_def Let_def split: if_split_asm)
qed

text \<open>C23. Everybody a node is recorded to have seen holds a credential issued for that node, so a node cannot place a subscriber it
  does not serve.\<close>

theorem own_credentials_only:
  assumes "sv_online v = Some reg" and "registry_ok reg"
    and "sv_online (recordOnline env node now users full v) = Some reg'"
    and "sighted (rg_users reg') u ip = Some s" and "sg_node_id s = node"
  shows "speaks_for node (sv_creds v) u"
proof -
  let ?obs = "concat (map (user_observations node now (sv_creds v)) users)"
  from assms(1,3) have reg': "reg' = Replace node ?obs full now reg" by (simp add: recordOnline_def Let_def)
  have "sighted (sift (\<lambda>s. sg_node_id s \<noteq> node) (rg_users reg)) u ip \<noteq> Some s"
    using assms(2,5) by (auto simp: sighted_sift registry_ok_def split: option.split)
  with assms(4,5) have "names ?obs u ip"
    using sighted_node_fold by (fastforce simp: reg' Replace_def)
  then obtain ob x where "x \<in> set users" "ob \<in> set (user_observations node now (sv_creds v) x)" "ob_user_id ob = u"
    by (auto simp: names_def list_ex_iff)
  then show ?thesis using observations_own by blast
qed

section \<open>Registration\<close>

text \<open>C35. A node that redeems its join token can open its stream with the credential it got, and the token is spent.\<close>

theorem registered_node_connects:
  assumes "Register env credential now token host ver peer v = (Inr (i, c), v')" and "credential \<noteq> []"
  shows "c = credential \<and> (\<exists>n. node_authenticate env c v' = Inr n \<and> n_id n = i)
    \<and> fst (Register env other later token host' ver' peer' v') \<noteq> Inr (j, d)"
proof -
  let ?h = "HashSecret (v_sha256 env)"
  from assms(1) obtain n where redeem: "RedeemJoinToken (v_box env) (?h token) (?h credential) host ver peer (to_unix now) (sv_nodes v)
      = (Inr n, sv_nodes v')" and i: "i = n_id n" "c = credential"
    by (auto simp: Register_def split: if_split_asm prod.split_asm sum.split_asm)
  from redeem have row: "FindNodeByCredentialHash (v_box env) (?h credential) (sv_nodes v') = Inr n"
    and upd: "sv_nodes v' = sql_update (\<lambda>r. n_join_token_hash r = Some (?h token)) (redeem_row (?h credential) host ver peer (to_unix now)) (sv_nodes v)"
    by (auto simp: RedeemJoinToken_def update_nodes_def Let_def split: sum.split_asm if_split_asm)
  have spent: "\<forall>r\<in>set (sv_nodes v'). n_join_token_hash r \<noteq> Some (?h token)"
    by (auto simp: upd set_sql_update redeem_row_def)
  then have "\<exists>e. RedeemJoinToken (v_box env) (?h token) (?h other) host' ver' peer' (to_unix later) (sv_nodes v') = (Inl e, sv_nodes v')"
    by (auto simp: RedeemJoinToken_def update_nodes_def Let_def)
  then have "fst (Register env other later token host' ver' peer' v') \<noteq> Inr (j, d)"
    by (auto simp: Register_def)
  then show ?thesis using i row assms(2) by (auto simp: node_authenticate_def)
qed
section \<open>Runs\<close>

definition demo_env :: service_env where
  "demo_env = \<lparr>v_box = plain_box, v_nonce = [], v_sha256 = map of_char, v_overflow = 0\<rparr>"

definition demo_hello :: hello where
  "demo_hello = \<lparr>he_node_id = ''01'', he_public_ip = [], he_agent_version = ''1'', he_xray_version = ''1'', he_platform = []\<rparr>"

definition demo_service :: service where
  "demo_service =
     \<lparr>sv_nodes = [demo_node\<lparr>n_join_token_hash := Some (HashSecret (map of_char) ''join'')\<rparr>], sv_configs = [demo_config 1 0],
      sv_creds = demo_creds\<lparr>cd_creds := [demo_cred\<lparr>c_node_id := ''01'', c_email := ''e''\<rparr>]\<rparr>,
      sv_fleet = \<lparr>fl_sessions = [], fl_store = [], fl_hb_timeout = minute, fl_probe_url = []\<rparr>,
      sv_online = Some (New 0), sv_interval = 30 * second, sv_devices = [], sv_samples = [], sv_traffic = []\<rparr>"

definition demo_t :: time where "demo_t = unix_time 1000"

definition demo_registered :: service where
  "demo_registered = snd (Register demo_env ''cred'' demo_t ''join'' [] [] [] demo_service)"

definition demo_connected :: service where
  "demo_connected = snd (open_channel demo_env True ''cred'' [] (HelloFrame demo_hello) demo_t demo_registered)"

definition demo_reconnected :: service where
  "demo_reconnected =
     handleFrame demo_env True ''01'' 1 demo_t (OnlineFrame [\<lparr>ou_email = ''e'', ou_ips = [(''1.2.3.4'', 999)]\<rparr>] True)
       (snd (open_channel demo_env True ''cred'' [] (HelloFrame demo_hello) demo_t demo_connected))"

definition online_count :: "service \<Rightarrow> nat" where
  "online_count v = (case sv_online v of None \<Rightarrow> 0 | Some reg \<Rightarrow> st_count (Status ''00000000000000aa'' demo_t reg))"

text \<open>The node connects again before the panel noticed that the first stream is dead. The second stream reports a subscriber. Then
  the handler of the first stream ends and forgets the node, although the second is open: the subscriber counts as offline.\<close>

theorem late_handler_forgets:
  "online_count demo_reconnected = 1 \<and> IsOnline ''01'' demo_t (sv_fleet (end_channel ''01'' 0 demo_t demo_reconnected))
   \<and> online_count (end_channel ''01'' 0 demo_t demo_reconnected) = 0"
  by code_simp

text \<open>A frame for a session that was closed may be accepted: the \<open>select\<close> has two ready cases, and nobody drains the queue.\<close>

theorem closed_session_accepts:
  "fst (SendUserOp True ''01'' ''op'' (CloseSession ''01'' (sv_fleet demo_connected))) = None
   \<and> fst (SendUserOp False ''01'' ''op'' (CloseSession ''01'' (sv_fleet demo_connected))) = Some Offline"
  by code_simp

definition demo_forged :: service where
  "demo_forged =
     recordStats demo_env ''02'' demo_t [\<lparr>sn_user_scope = True, sn_name = ''e'', sn_uplink = 7, sn_downlink = 5\<rparr>] demo_service"

text \<open>Traffic is billed to the credential a report names, whichever node sends it.\<close>

theorem foreign_traffic_recorded:
  "map c_node_id (cd_creds (sv_creds demo_service)) = [''01''] \<and>
   TrafficSeries ''00000000000000aa'' ''01'' 0 demo_t (sv_traffic demo_forged) = [(0, 7, 5)]"
  by code_simp

section \<open>Witnesses\<close>

lemma demo_connected_session:
  "map_of (fl_sessions (sv_fleet demo_connected)) ''01'' = Some 0" "length (fl_store (sv_fleet demo_connected)) = 1"
  "se_closed (fl_store (sv_fleet demo_connected) ! 0) = False" "length (se_send (fl_store (sv_fleet demo_connected) ! 0)) = 2"
  by code_simp+

definition demo_beat :: heartbeat where
  "demo_beat =
     \<lparr>hb_config_version = 0, hb_xray_version = [], hb_installed_xray_version = [], hb_cpu_percent = 0, hb_mem_used = 0, hb_mem_total = 0,
      hb_disk_used = 0, hb_disk_total = 0, hb_net_tx = 0, hb_net_rx = 0\<rparr>"

theorem drift_is_healed_witness:
  "se_send (fl_store (sv_fleet (handleFrame demo_env True ''01'' 0 (demo_t + minute) (Heartbeat demo_beat) demo_connected)) ! 0) =
    se_send (fl_store (sv_fleet demo_connected) ! 0) @ [ConfigPush 1 ''{}'' [] []]"
proof -
  have cfg: "LatestPushableConfig (v_box demo_env) ''01'' (sv_configs demo_connected) = Inr (demo_config 1 0)" by code_simp
  have apart: "nc_version (demo_config 1 0) \<noteq> hb_config_version demo_beat" by code_simp
  have late: "30 * second \<le> demo_t + minute - se_last_push_at (fl_store (sv_fleet demo_connected) ! 0)" by code_simp
  have url: "fl_probe_url (sv_fleet demo_connected) = []" by code_simp
  show ?thesis
    using drift_is_healed [OF cfg apart demo_connected_session(1), of "demo_t + minute" True] demo_connected_session late url
    by (simp add: demo_config_def sendQueueSize_def)
qed

theorem own_credentials_only_witness: "speaks_for ''01'' (sv_creds demo_connected) ''00000000000000aa''"
proof -
  let ?users = "[\<lparr>ou_email = ''e'', ou_ips = [(''1.2.3.4'', 999)]\<rparr>]"
  let ?v = "recordOnline demo_env ''01'' demo_t ?users True demo_connected"
  have reg: "sv_online demo_connected = Some (New 0)" by code_simp
  have ok: "registry_ok (New 0)" by (simp add: registry_ok_def users_ok_def New_def)
  have seen: "sv_online ?v = Some (the (sv_online ?v))" by (simp add: recordOnline_def reg Let_def)
  have "sighted (rg_users (the (sv_online ?v))) ''00000000000000aa'' ''1.2.3.4'' =
      Some \<lparr>sg_node_id = ''01'', sg_at = unix_time 999\<rparr>" by code_simp
  from own_credentials_only [OF reg ok seen this] show ?thesis by simp
qed

theorem registered_node_connects_witness:
  "(\<exists>n. node_authenticate demo_env ''cred'' demo_registered = Inr n \<and> n_id n = ''01'')
   \<and> fst (Register demo_env ''other'' demo_t ''join'' [] [] [] demo_registered) \<noteq> Inr (''01'', ''other'')"
proof -
  have "fst (Register demo_env ''cred'' demo_t ''join'' [] [] [] demo_service) = Inr (''01'', ''cred'')" by code_simp
  then have "Register demo_env ''cred'' demo_t ''join'' [] [] [] demo_service = (Inr (''01'', ''cred''), demo_registered)"
    by (metis demo_registered_def prod.collapse)
  from registered_node_connects [OF this] show ?thesis by simp
qed

definition demo_fleet :: fleet where
  "demo_fleet = \<lparr>fl_sessions = [], fl_store = [], fl_hb_timeout = minute, fl_probe_url = []\<rparr>"

definition demo_open :: "fleet \<Rightarrow> fleet" where
  "demo_open m = snd (attach_swap ''01'' (length (fl_store m)) (m\<lparr>fl_store := fl_store m @ [new_session ''01'' demo_hello demo_t]\<rparr>))"


end
