(* ===== verification/TemplateStore.thy ===== *)
theory TemplateStore
  imports NodeStore TemplateEngine
begin

text \<open>
  The template half of the store, \<open>core/internal/store/template.go\<close>: the pool of variables, the profiles with
  their client templates, and which node serves which profile. A variable is a group of components; the
  secret ones are sealed under the variable and the component, so the value is bound to its row.

  A variable belongs to the whole fleet, to a profile or to a node; its name is unique there. The theorems: what
  is put is read back, with the secrets opened; moving a variable to another owner changes no value and needs no
  key; names stay unique; and the value a template sees for a name is that of the narrowest owner.
\<close>

section \<open>Tables\<close>

definition ScopeGlobal :: string where "ScopeGlobal = ''global''"
definition ScopeProfile :: string where "ScopeProfile = ''profile''"
definition ScopeNode :: string where "ScopeNode = ''node''"

record component =
  cp_name :: string
  cp_value :: string
  cp_secret :: bool

text \<open>A row of \<open>variables\<close>; a variable is the row with its components.\<close>

record var_row =
  v_id :: id
  v_name :: string
  v_scope :: string
  v_profile_id :: "id option"
  v_node_id :: "id option"
  v_generator :: string
  v_created_at :: int
  v_updated_at :: int

record variable = var_row +
  v_components :: "component list"

record comp_row =
  k_variable_id :: id
  k_component :: string
  k_value :: string
  k_secret :: bool

record profile =
  pf_id :: id
  pf_name :: string
  pf_inbound_template :: string
  pf_client_entry :: string
  pf_created_at :: int
  pf_updated_at :: int

record client_template =
  ct_profile_id :: id
  ct_client :: string
  ct_template :: string
  ct_serve :: bool

record tmpl_db =
  td_variables :: "var_row list"
  td_components :: "comp_row list"
  td_profiles :: "profile list"
  td_client_templates :: "client_template list"
  td_profile_nodes :: "(id \<times> id) list"
  td_nodes :: "id list"

abbreviation profile_ids :: "tmpl_db \<Rightarrow> id list" where
  "profile_ids db \<equiv> map pf_id (td_profiles db)"

section \<open>Variables\<close>

text \<open>The \<open>CHECK\<close> of the table and its foreign keys.\<close>

definition scope_ok :: "var_row \<Rightarrow> bool" where
  "scope_ok v \<longleftrightarrow>
     (v_scope v = ScopeGlobal \<and> v_profile_id v = None \<and> v_node_id v = None)
     \<or> (v_scope v = ScopeProfile \<and> v_profile_id v \<noteq> None \<and> v_node_id v = None)
     \<or> (v_scope v = ScopeNode \<and> v_profile_id v = None \<and> v_node_id v \<noteq> None)"

definition owner_ok :: "tmpl_db \<Rightarrow> var_row \<Rightarrow> bool" where
  "owner_ok db v \<longleftrightarrow>
     (case v_profile_id v of None \<Rightarrow> True | Some p \<Rightarrow> p \<in> set (profile_ids db))
     \<and> (case v_node_id v of None \<Rightarrow> True | Some n \<Rightarrow> n \<in> set (td_nodes db))"

text \<open>What the three partial unique indexes keep apart: the scope says which owner column is set.\<close>

definition var_key :: "var_row \<Rightarrow> string \<times> id option \<times> id option \<times> string" where
  "var_key v = (v_scope v, v_profile_id v, v_node_id v, v_name v)"

definition row_of :: "variable \<Rightarrow> var_row" where
  "row_of v = var_row.truncate v"

definition seal_component :: "box \<Rightarrow> (string \<Rightarrow> bytes) \<Rightarrow> id \<Rightarrow> component \<Rightarrow> comp_row" where
  "seal_component b nonces i c =
     \<lparr>k_variable_id = i, k_component = cp_name c,
      k_value = (if cp_secret c then Seal b (nonces (cp_name c)) (sealed_aad (VariableComponent i (cp_name c))) (cp_value c)
                 else cp_value c),
      k_secret = cp_secret c\<rparr>"

text \<open>
  \<open>PutVariable\<close> in one transaction. An insert that meets the identifier of a row becomes an update of its name,
  generator and time. \<open>newid\<close> is \<open>NewID()\<close>, \<open>nonces\<close> the nonce of each component.
\<close>

definition upsert_variable :: "var_row \<Rightarrow> tmpl_db \<Rightarrow> (db_error, tmpl_db) result" where
  "upsert_variable v db =
     (if \<not> scope_ok v then Inl ForeignKey
      else
        (let known = v_id v \<in> set (map v_id (td_variables db));
             rows = (if known
                     then sql_update (\<lambda>r. v_id r = v_id v)
                            (\<lambda>r. r\<lparr>v_name := v_name v, v_generator := v_generator v, v_updated_at := v_updated_at v\<rparr>)
                            (td_variables db)
                     else td_variables db @ [v])
         in if \<not> distinct (map var_key rows) then Inl UniqueViolation
            else if \<not> known \<and> \<not> owner_ok db v then Inl ForeignKey
            else Inr (db\<lparr>td_variables := rows\<rparr>)))"

definition PutVariable ::
  "box \<Rightarrow> (string \<Rightarrow> bytes) \<Rightarrow> id \<Rightarrow> int \<Rightarrow> variable \<Rightarrow> tmpl_db \<Rightarrow> (db_error, variable \<times> tmpl_db) result" where
  "PutVariable b nonces newid now v db =
     (let v = v\<lparr>v_id := (if v_id v = [] then newid else v_id v),
                v_created_at := (if v_created_at v = 0 then now else v_created_at v), v_updated_at := now\<rparr>
      in bind_result (upsert_variable (row_of v) db)
           (\<lambda>db. if \<not> distinct (map cp_name (v_components v)) then Inl UniqueViolation
                  else Inr (v, db\<lparr>td_components := sql_delete (\<lambda>k. k_variable_id k = v_id v) (td_components db)
                                     @ map (seal_component b nonces (v_id v)) (v_components v)\<rparr>)))"

definition open_component :: "box \<Rightarrow> comp_row \<Rightarrow> (db_error, component) result" where
  "open_component b k =
     (if k_secret k
      then (case Open b (sealed_aad (VariableComponent (k_variable_id k) (k_component k))) (k_value k) of
              Inl e \<Rightarrow> Inl (Sealing e)
            | Inr plain \<Rightarrow> Inr \<lparr>cp_name = k_component k, cp_value = plain, cp_secret = True\<rparr>)
      else Inr \<lparr>cp_name = k_component k, cp_value = k_value k, cp_secret = False\<rparr>)"

fun open_components :: "box \<Rightarrow> comp_row list \<Rightarrow> (db_error, component list) result" where
  "open_components b [] = Inr []"
| "open_components b (k # ks) =
     bind_result (open_component b k) (\<lambda>c. bind_result (open_components b ks) (\<lambda>cs. Inr (c # cs)))"

definition loadComponents :: "box \<Rightarrow> id \<Rightarrow> tmpl_db \<Rightarrow> (db_error, component list) result" where
  "loadComponents b i db =
     open_components b (sort_key k_component (filter (\<lambda>k. k_variable_id k = i) (td_components db)))"

definition with_components :: "var_row \<Rightarrow> component list \<Rightarrow> variable" where
  "with_components r cs = var_row.extend r \<lparr>v_components = cs\<rparr>"

fun scanVariables :: "box \<Rightarrow> tmpl_db \<Rightarrow> var_row list \<Rightarrow> (db_error, variable list) result" where
  "scanVariables b db [] = Inr []"
| "scanVariables b db (r # rs) =
     bind_result (loadComponents b (v_id r) db)
       (\<lambda>cs. bind_result (scanVariables b db rs) (\<lambda>vs. Inr (with_components r cs # vs)))"

definition scope_rank :: "var_row \<Rightarrow> nat" where
  "scope_rank v = (if v_scope v = ScopeGlobal then 0 else if v_scope v = ScopeProfile then 1 else 2)"

definition AllVariables :: "box \<Rightarrow> tmpl_db \<Rightarrow> (db_error, variable list) result" where
  "AllVariables b db = scanVariables b db (sort_key scope_rank (sort_key v_name (td_variables db)))"

definition GlobalVariables :: "box \<Rightarrow> tmpl_db \<Rightarrow> (db_error, variable list) result" where
  "GlobalVariables b db =
     scanVariables b db (sort_key v_name (filter (\<lambda>v. v_scope v = ScopeGlobal) (td_variables db)))"

definition ProfileVariables :: "box \<Rightarrow> id \<Rightarrow> tmpl_db \<Rightarrow> (db_error, variable list) result" where
  "ProfileVariables b p db =
     scanVariables b db (sort_key v_name
       (filter (\<lambda>v. v_scope v = ScopeProfile \<and> v_profile_id v = Some p) (td_variables db)))"

definition NodeVariables :: "box \<Rightarrow> id \<Rightarrow> tmpl_db \<Rightarrow> (db_error, variable list) result" where
  "NodeVariables b n db =
     scanVariables b db (sort_key v_name
       (filter (\<lambda>v. v_scope v = ScopeNode \<and> v_node_id v = Some n) (td_variables db)))"

definition FindVariableID :: "string \<Rightarrow> id \<Rightarrow> id \<Rightarrow> string \<Rightarrow> tmpl_db \<Rightarrow> (db_error, id) result" where
  "FindVariableID scope p n name db =
     (case sql_row (\<lambda>v. v_name v = name \<and>
              (if scope = ScopeProfile then v_profile_id v = Some p
               else if scope = ScopeNode then v_node_id v = Some n
               else v_profile_id v = None \<and> v_node_id v = None)) (td_variables db) of
        None \<Rightarrow> Inl ErrNoRows
      | Some v \<Rightarrow> Inr (v_id v))"

definition GetVariable :: "box \<Rightarrow> id \<Rightarrow> tmpl_db \<Rightarrow> (db_error, variable) result" where
  "GetVariable b i db =
     bind_result (scanVariables b db (filter (\<lambda>v. v_id v = i) (td_variables db)))
       (\<lambda>vs. case vs of [] \<Rightarrow> Inl ErrNoRows | v # _ \<Rightarrow> Inr v)"

text \<open>The components go with the variable.\<close>

definition delete_variables :: "(var_row \<Rightarrow> bool) \<Rightarrow> tmpl_db \<Rightarrow> tmpl_db" where
  "delete_variables P db =
     db\<lparr>td_variables := sql_delete P (td_variables db),
        td_components := sql_delete (\<lambda>k. list_ex (\<lambda>v. P v \<and> v_id v = k_variable_id k) (td_variables db)) (td_components db)\<rparr>"

definition DeleteVariable :: "id \<Rightarrow> tmpl_db \<Rightarrow> (db_error, tmpl_db) result" where
  "DeleteVariable i db =
     (if i \<notin> set (map v_id (td_variables db)) then Inl ErrNoRows else Inr (delete_variables (\<lambda>v. v_id v = i) db))"

datatype move_error = NameTaken string | MoveStore db_error

definition MoveVariable ::
  "box \<Rightarrow> id \<Rightarrow> string \<Rightarrow> id option \<Rightarrow> id option \<Rightarrow> int \<Rightarrow> tmpl_db \<Rightarrow> (move_error, tmpl_db) result" where
  "MoveVariable b i scope profileID nodeID now db =
     (case GetVariable b i db of
        Inl e \<Rightarrow> Inl (MoveStore e)
      | Inr v \<Rightarrow>
          if (case FindVariableID scope (coalesce profileID) (coalesce nodeID) (v_name v) db of
                Inl e \<Rightarrow> False | Inr other \<Rightarrow> other \<noteq> i)
          then Inl (NameTaken (v_name v))
          else
            (let rows = sql_update (\<lambda>r. v_id r = i)
                   (\<lambda>r. r\<lparr>v_scope := scope, v_profile_id := profileID, v_node_id := nodeID, v_updated_at := now\<rparr>)
                   (td_variables db)
             in if list_ex (\<lambda>r. v_id r = i \<and> \<not> (scope_ok r \<and> owner_ok db r)) rows then Inl (MoveStore ForeignKey)
                else if \<not> distinct (map var_key rows) then Inl (MoveStore UniqueViolation)
                else Inr (db\<lparr>td_variables := rows\<rparr>)))"

section \<open>Profiles\<close>

definition CreateProfile :: "id \<Rightarrow> int \<Rightarrow> string \<Rightarrow> tmpl_db \<Rightarrow> (db_error, profile \<times> tmpl_db) result" where
  "CreateProfile newid now name db =
     (let p = \<lparr>pf_id = newid, pf_name = name, pf_inbound_template = [], pf_client_entry = [],
               pf_created_at = now, pf_updated_at = now\<rparr>
      in if newid \<in> set (profile_ids db) \<or> name \<in> set (map pf_name (td_profiles db)) then Inl UniqueViolation
         else Inr (p, db\<lparr>td_profiles := td_profiles db @ [p]\<rparr>))"

definition GetProfile :: "id \<Rightarrow> tmpl_db \<Rightarrow> (db_error, profile) result" where
  "GetProfile i db =
     (case sql_row (\<lambda>p. pf_id p = i) (td_profiles db) of None \<Rightarrow> Inl ErrNoRows | Some p \<Rightarrow> Inr p)"

definition ListProfiles :: "tmpl_db \<Rightarrow> profile list" where
  "ListProfiles db = sort_key pf_name (td_profiles db)"

definition UpdateProfile :: "profile \<Rightarrow> int \<Rightarrow> tmpl_db \<Rightarrow> (db_error, tmpl_db) result" where
  "UpdateProfile p now db =
     (let rows = sql_update (\<lambda>r. pf_id r = pf_id p)
            (\<lambda>r. r\<lparr>pf_name := pf_name p, pf_inbound_template := pf_inbound_template p,
                   pf_client_entry := pf_client_entry p, pf_updated_at := now\<rparr>) (td_profiles db)
      in if \<not> distinct (map pf_name rows) then Inl UniqueViolation
         else if pf_id p \<notin> set (profile_ids db) then Inl ErrNoRows
         else Inr (db\<lparr>td_profiles := rows\<rparr>))"

text \<open>Templates, bindings and the variables of the profile go with it.\<close>

definition DeleteProfile :: "id \<Rightarrow> tmpl_db \<Rightarrow> (db_error, tmpl_db) result" where
  "DeleteProfile i db =
     (if i \<notin> set (profile_ids db) then Inl ErrNoRows
      else Inr ((delete_variables (\<lambda>v. v_profile_id v = Some i) db)
             \<lparr>td_profiles := sql_delete (\<lambda>p. pf_id p = i) (td_profiles db),
              td_client_templates := sql_delete (\<lambda>c. ct_profile_id c = i) (td_client_templates db),
              td_profile_nodes := sql_delete (\<lambda>b. fst b = i) (td_profile_nodes db)\<rparr>))"

section \<open>Client templates\<close>

definition is_template :: "id \<Rightarrow> string \<Rightarrow> client_template \<Rightarrow> bool" where
  "is_template p client c \<longleftrightarrow> ct_profile_id c = p \<and> ct_client c = client"

definition PutClientTemplate :: "id \<Rightarrow> string \<Rightarrow> string \<Rightarrow> tmpl_db \<Rightarrow> (db_error, tmpl_db) result" where
  "PutClientTemplate p client tmpl db =
     (if list_ex (is_template p client) (td_client_templates db)
      then Inr (db\<lparr>td_client_templates :=
             sql_update (is_template p client) (\<lambda>c. c\<lparr>ct_template := tmpl\<rparr>) (td_client_templates db)\<rparr>)
      else if p \<notin> set (profile_ids db) then Inl ForeignKey
      else Inr (db\<lparr>td_client_templates := td_client_templates db
             @ [\<lparr>ct_profile_id = p, ct_client = client, ct_template = tmpl, ct_serve = True\<rparr>]\<rparr>))"

definition SetClientTemplateServe :: "id \<Rightarrow> string \<Rightarrow> bool \<Rightarrow> tmpl_db \<Rightarrow> (db_error, tmpl_db) result" where
  "SetClientTemplateServe p client serve db =
     (if \<not> list_ex (is_template p client) (td_client_templates db) then Inl ErrNoRows
      else Inr (db\<lparr>td_client_templates :=
             sql_update (is_template p client) (\<lambda>c. c\<lparr>ct_serve := serve\<rparr>) (td_client_templates db)\<rparr>))"

definition ServedClientTemplates :: "id \<Rightarrow> tmpl_db \<Rightarrow> (string, string) gomap" where
  "ServedClientTemplates p db =
     overlay [] (map (\<lambda>c. (ct_client c, ct_template c))
       (filter (\<lambda>c. ct_profile_id c = p \<and> ct_serve c) (td_client_templates db)))"

definition ClientTemplateServes :: "id \<Rightarrow> tmpl_db \<Rightarrow> (string, bool) gomap" where
  "ClientTemplateServes p db =
     fold (\<lambda>(k, v). AList.update k v)
       (map (\<lambda>c. (ct_client c, ct_serve c)) (filter (\<lambda>c. ct_profile_id c = p) (td_client_templates db))) []"

definition ClientTemplateKinds :: "id \<Rightarrow> tmpl_db \<Rightarrow> string list" where
  "ClientTemplateKinds p db = sort (map ct_client (filter (\<lambda>c. ct_profile_id c = p) (td_client_templates db)))"

definition ClientTemplates :: "id \<Rightarrow> tmpl_db \<Rightarrow> (string, string) gomap" where
  "ClientTemplates p db =
     overlay [] (map (\<lambda>c. (ct_client c, ct_template c)) (filter (\<lambda>c. ct_profile_id c = p) (td_client_templates db)))"

definition DeleteClientTemplate :: "id \<Rightarrow> string \<Rightarrow> tmpl_db \<Rightarrow> tmpl_db" where
  "DeleteClientTemplate p client db =
     db\<lparr>td_client_templates := sql_delete (is_template p client) (td_client_templates db)\<rparr>"

section \<open>Bindings\<close>

definition BindProfileNode :: "id \<Rightarrow> id \<Rightarrow> tmpl_db \<Rightarrow> (db_error, tmpl_db) result" where
  "BindProfileNode p n db =
     (if (p, n) \<in> set (td_profile_nodes db) then Inr db
      else if p \<notin> set (profile_ids db) \<or> n \<notin> set (td_nodes db) then Inl ForeignKey
      else Inr (db\<lparr>td_profile_nodes := td_profile_nodes db @ [(p, n)]\<rparr>))"

definition UnbindProfileNode :: "id \<Rightarrow> id \<Rightarrow> tmpl_db \<Rightarrow> tmpl_db" where
  "UnbindProfileNode p n db = db\<lparr>td_profile_nodes := sql_delete (\<lambda>b. b = (p, n)) (td_profile_nodes db)\<rparr>"

definition ProfileNodeIDs :: "id \<Rightarrow> tmpl_db \<Rightarrow> id list" where
  "ProfileNodeIDs p db = sort (map snd (filter (\<lambda>b. fst b = p) (td_profile_nodes db)))"

definition NodeProfileIDs :: "id \<Rightarrow> tmpl_db \<Rightarrow> id list" where
  "NodeProfileIDs n db = sort (map fst (filter (\<lambda>b. snd b = n) (td_profile_nodes db)))"

text \<open>The integrity of the tables.\<close>

definition variables_inv :: "tmpl_db \<Rightarrow> bool" where
  "variables_inv db \<longleftrightarrow>
     distinct (map v_id (td_variables db)) \<and> distinct (map var_key (td_variables db))
     \<and> list_all (\<lambda>v. scope_ok v \<and> owner_ok db v) (td_variables db)"

definition components_inv :: "tmpl_db \<Rightarrow> bool" where
  "components_inv db \<longleftrightarrow>
     distinct (map (\<lambda>k. (k_variable_id k, k_component k)) (td_components db))
     \<and> list_all (\<lambda>k. k_variable_id k \<in> set (map v_id (td_variables db))) (td_components db)"

definition profiles_inv :: "tmpl_db \<Rightarrow> bool" where
  "profiles_inv db \<longleftrightarrow>
     distinct (profile_ids db) \<and> distinct (map pf_name (td_profiles db))
     \<and> distinct (map (\<lambda>c. (ct_profile_id c, ct_client c)) (td_client_templates db))
     \<and> list_all (\<lambda>c. ct_profile_id c \<in> set (profile_ids db)) (td_client_templates db)
     \<and> distinct (td_profile_nodes db) \<and> set (td_profile_nodes db) \<subseteq> set (profile_ids db) \<times> set (td_nodes db)"

definition tmpl_inv :: "tmpl_db \<Rightarrow> bool" where
  "tmpl_inv db \<longleftrightarrow> variables_inv db \<and> components_inv db \<and> profiles_inv db"

section \<open>Lemmas\<close>

declare bind_result_eq_Inr [simp]

lemma row_of_simps [simp]:
  "v_id (row_of v) = v_id v" "v_name (row_of v) = v_name v" "v_scope (row_of v) = v_scope v"
  "v_profile_id (row_of v) = v_profile_id v" "v_node_id (row_of v) = v_node_id v"
  "v_generator (row_of v) = v_generator v" "v_created_at (row_of v) = v_created_at v"
  "v_updated_at (row_of v) = v_updated_at v"
  by (simp_all add: row_of_def var_row.truncate_def)

lemma with_components_simps [simp]:
  "v_id (with_components r cs) = v_id r" "v_name (with_components r cs) = v_name r"
  "v_scope (with_components r cs) = v_scope r" "v_profile_id (with_components r cs) = v_profile_id r"
  "v_node_id (with_components r cs) = v_node_id r" "v_generator (with_components r cs) = v_generator r"
  "v_created_at (with_components r cs) = v_created_at r" "v_components (with_components r cs) = cs"
  by (simp_all add: with_components_def var_row.extend_def)

lemma open_seal_component:
  assumes "box_ok b" and "nonce_ok b (nonces (cp_name c))"
  shows "open_component b (seal_component b nonces i c) = Inr c"
  using assms by (cases c) (simp add: open_component_def seal_component_def Open_Seal)

lemma open_seal_components:
  assumes "box_ok b" and "\<And>n. nonce_ok b (nonces n)"
  shows "open_components b (map (seal_component b nonces i) cs) = Inr cs"
  using assms by (induction cs) (simp_all add: open_seal_component bind_result_def)

text \<open>A stable sort commutes with a map that keeps the key.\<close>

lemma sort_key_map_key:
  fixes key :: "'b \<Rightarrow> 'k::linorder"
  assumes "\<And>x. key (f x) = key' x"
  shows "sort_key key (map f xs) = map f (sort_key key' xs)"
proof -
  have ins: "insort_key key (f x) (map f ys) = map f (insort_key key' x ys)" for x ys
    using assms by (induction ys) auto
  show ?thesis by (induction xs) (simp_all add: ins)
qed

text \<open>Reading one variable is reading its row and its components.\<close>

lemma sql_row_key_None: "sql_row (\<lambda>r. key r = i) t = None \<longleftrightarrow> i \<notin> set (map key t)"
  by (auto simp: sql_row_None image_iff)

lemma owner_ok_cong:
  "td_profiles db' = td_profiles db \<Longrightarrow> td_nodes db' = td_nodes db \<Longrightarrow> owner_ok db' = owner_ok db"
  by (rule ext) (simp add: owner_ok_def split: option.split)

lemma owner_ok_update [simp]:
  "owner_ok (td_variables_update f db) v = owner_ok db v" "owner_ok (td_components_update g db) v = owner_ok db v"
  "owner_ok (td_client_templates_update h db) v = owner_ok db v" "owner_ok (td_profile_nodes_update j db) v = owner_ok db v"
  by (simp_all add: owner_ok_def split: option.split)

lemma filter_key_row:
  assumes "distinct (map key t)"
  shows "filter (\<lambda>r. key r = i) t = (case sql_row (\<lambda>r. key r = i) t of None \<Rightarrow> [] | Some r \<Rightarrow> [r])"
  using assms
proof (induction t)
  case (Cons a t)
  show ?case
  proof (cases "key a = i")
    case True
    then have "filter (\<lambda>r. key r = i) t = []"
      using Cons.prems by (auto simp: filter_empty_conv image_iff)
    then show ?thesis using True by (simp add: sql_row_def)
  next
    case False
    then show ?thesis using Cons by (simp add: sql_row_def)
  qed
qed (simp add: sql_row_def)

lemma GetVariable_row:
  assumes "distinct (map v_id (td_variables db))"
  shows "GetVariable b i db =
    (case sql_row (\<lambda>v. v_id v = i) (td_variables db) of
       None \<Rightarrow> Inl ErrNoRows
     | Some r \<Rightarrow> bind_result (loadComponents b i db) (\<lambda>cs. Inr (with_components r cs)))"
proof (cases "sql_row (\<lambda>v. v_id v = i) (td_variables db)")
  case None
  then show ?thesis by (simp add: GetVariable_def filter_key_row [OF assms] bind_result_def)
next
  case (Some r)
  then have "v_id r = i" using sql_row_Some by force
  with Some show ?thesis
    by (cases "loadComponents b i db") (simp_all add: GetVariable_def filter_key_row [OF assms] bind_result_def)
qed

lemma GetVariable_error:
  assumes "distinct (map v_id (td_variables db))" and "GetVariable b i db = Inl e"
  shows "e = ErrNoRows \<or> (\<exists>x. e = Sealing x)"
proof -
  have "open_components b ks = Inl e \<Longrightarrow> \<exists>x. e = Sealing x" for ks e
    by (induction ks) (auto simp: open_component_def bind_result_def split: sum.splits if_splits)
  then show ?thesis
    using assms(2) unfolding GetVariable_row [OF assms(1)]
    by (auto simp: loadComponents_def bind_result_def split: option.splits sum.splits)
qed

lemma upsert_ids:
  assumes "upsert_variable v db = Inr db'"
  shows "map v_id (td_variables db') =
      (if v_id v \<in> set (map v_id (td_variables db)) then map v_id (td_variables db) else map v_id (td_variables db) @ [v_id v])"
    and "td_components db' = td_components db" and "td_profiles db' = td_profiles db" and "td_nodes db' = td_nodes db"
    and "td_client_templates db' = td_client_templates db" and "td_profile_nodes db' = td_profile_nodes db"
    and "distinct (map var_key (td_variables db'))"
  using assms by (auto simp: upsert_variable_def Let_def split: if_splits)

lemma upsert_row:
  assumes "upsert_variable v db = Inr db'"
  shows "sql_row (\<lambda>r. v_id r = i) (td_variables db') =
    (if i = v_id v
     then (case sql_row (\<lambda>r. v_id r = i) (td_variables db) of
             None \<Rightarrow> Some v
           | Some r \<Rightarrow> Some (r\<lparr>v_name := v_name v, v_generator := v_generator v, v_updated_at := v_updated_at v\<rparr>))
     else sql_row (\<lambda>r. v_id r = i) (td_variables db))"
proof (cases "v_id v \<in> set (map v_id (td_variables db))")
  case True
  then obtain r where "sql_row (\<lambda>r. v_id r = v_id v) (td_variables db) = Some r"
    by (cases "sql_row (\<lambda>r. v_id r = v_id v) (td_variables db)") (auto simp: sql_row_None)
  with True assms show ?thesis
    by (auto simp: upsert_variable_def Let_def sql_row_update_same sql_row_update_other split: if_splits)
next
  case False
  then have "sql_row (\<lambda>r. v_id r = v_id v) (td_variables db) = None"
    by (simp add: sql_row_key_None)
  moreover have "td_variables db' = td_variables db @ [v]"
    using False assms by (auto simp: upsert_variable_def Let_def split: if_splits)
  ultimately show ?thesis
    by (auto simp: sql_row_append split: option.splits) (simp_all add: sql_row_def)
qed

lemma load_other:
  assumes "i \<noteq> j"
  shows "loadComponents b i (db\<lparr>td_components := sql_delete (\<lambda>k. k_variable_id k = j) (td_components db)
           @ map (seal_component b' nonces j) cs\<rparr>) = loadComponents b i db"
proof -
  have "filter (\<lambda>k. k_variable_id k = i) (sql_delete (\<lambda>k. k_variable_id k = j) ks) = filter (\<lambda>k. k_variable_id k = i) ks"
    for ks :: "comp_row list"
    unfolding sql_delete_def filter_filter by (rule filter_cong) (use assms in auto)
  moreover have "filter (\<lambda>k. k_variable_id k = i) (map (seal_component b' nonces j) cs) = []"
    using assms by (simp add: filter_empty_conv seal_component_def)
  ultimately show ?thesis by (simp add: loadComponents_def)
qed

lemma load_same:
  assumes "box_ok b" and "\<And>n. nonce_ok b (nonces n)"
  shows "loadComponents b j (db\<lparr>td_components := sql_delete (\<lambda>k. k_variable_id k = j) (td_components db)
           @ map (seal_component b nonces j) cs\<rparr>) = Inr (sort_key cp_name cs)"
proof -
  have "filter (\<lambda>k. k_variable_id k = j) (sql_delete (\<lambda>k. k_variable_id k = j) (td_components db)) = []"
    by (simp add: filter_empty_conv sql_delete_def)
  moreover have "filter (\<lambda>k. k_variable_id k = j) (map (seal_component b nonces j) cs) = map (seal_component b nonces j) cs"
    by (simp add: filter_id_conv seal_component_def)
  moreover have "sort_key k_component (map (seal_component b nonces j) cs) = map (seal_component b nonces j) (sort_key cp_name cs)"
    by (rule sort_key_map_key) (simp add: seal_component_def)
  ultimately show ?thesis
    using open_seal_components [OF assms] by (simp add: loadComponents_def)
qed

lemma put_variable_steps:
  assumes "PutVariable b nonces newid now v db = Inr (v', db')"
  obtains db1 where "upsert_variable (row_of v') db = Inr db1"
    and "db' = db1\<lparr>td_components := sql_delete (\<lambda>k. k_variable_id k = v_id v') (td_components db1)
                       @ map (seal_component b nonces (v_id v')) (v_components v')\<rparr>"
    and "distinct (map cp_name (v_components v'))" and "v_components v' = v_components v"
    and "v_name v' = v_name v" and "v_generator v' = v_generator v" and "v_scope v' = v_scope v"
    and "v_profile_id v' = v_profile_id v" and "v_node_id v' = v_node_id v"
    and "v_id v' = (if v_id v = [] then newid else v_id v)"
  using assms by (auto simp: PutVariable_def Let_def split: if_splits)

lemmas tmpl_inv_defs = tmpl_inv_def variables_inv_def components_inv_def profiles_inv_def

text \<open>Writes to one group of tables keep the invariants of the others.\<close>

lemma tmpl_inv_frames [simp]:
  "profiles_inv (td_variables_update f db) = profiles_inv db" "profiles_inv (td_components_update g db) = profiles_inv db"
  "variables_inv (td_components_update g db) = variables_inv db"
  "variables_inv (td_client_templates_update h db) = variables_inv db"
  "variables_inv (td_profile_nodes_update j db) = variables_inv db"
  "components_inv (td_client_templates_update h db) = components_inv db"
  "components_inv (td_profile_nodes_update j db) = components_inv db"
  "components_inv (td_profiles_update k db) = components_inv db"
  by (simp_all add: tmpl_inv_defs)

lemma upsert_inv:
  assumes up: "upsert_variable v db = Inr db'" and inv: "variables_inv db"
  shows "variables_inv db'"
proof -
  note ids = upsert_ids [OF up]
  have owner: "owner_ok db' = owner_ok db" using ids by (intro owner_ok_cong)
  have same: "owner_ok db (r\<lparr>v_name := a, v_generator := g, v_updated_at := u\<rparr>) = owner_ok db r"
    "scope_ok (r\<lparr>v_name := a, v_generator := g, v_updated_at := u\<rparr>) = scope_ok r" for r :: var_row and a g u
    by (simp_all add: owner_ok_def scope_ok_def)
  have "list_all (\<lambda>r. scope_ok r \<and> owner_ok db r) (td_variables db')"
    using up inv same
    by (auto simp: upsert_variable_def Let_def variables_inv_def list_all_iff set_sql_update split: if_splits)
  moreover have "distinct (map v_id (td_variables db'))"
    using ids(1) inv by (auto simp: variables_inv_def split: if_splits)
  ultimately show ?thesis using ids owner by (simp add: variables_inv_def)
qed

lemma tmpl_inv_PutVariable:
  assumes inv: "tmpl_inv db" and put: "PutVariable b nonces newid now v db = Inr (v', db')"
  shows "tmpl_inv db'"
proof -
  obtain db1 where up: "upsert_variable (row_of v') db = Inr db1"
    and db': "db' = db1\<lparr>td_components := sql_delete (\<lambda>k. k_variable_id k = v_id v') (td_components db1)
                       @ map (seal_component b nonces (v_id v')) (v_components v')\<rparr>"
    and names: "distinct (map cp_name (v_components v'))"
    using put_variable_steps [OF put] by metis
  note ids = upsert_ids [OF up]
  have more: "insert (v_id v') (set (map v_id (td_variables db))) \<subseteq> set (map v_id (td_variables db1))"
    unfolding ids(1) by auto
  have "distinct (map (\<lambda>k. (k_variable_id k, k_component k)) (sql_delete P (td_components db)))" for P
    using inv by (simp add: tmpl_inv_defs sql_delete_def distinct_map_filter)
  moreover have "distinct (map (\<lambda>k. (k_variable_id k, k_component k)) (map (seal_component b nonces (v_id v')) (v_components v')))"
    using names by (auto simp: seal_component_def distinct_map inj_on_def)
  ultimately have "distinct (map (\<lambda>k. (k_variable_id k, k_component k)) (td_components db'))"
    using db' ids(2) by (auto simp: set_sql_delete seal_component_def)
  moreover have "k_variable_id k \<in> insert (v_id v') (set (map v_id (td_variables db)))" if "k \<in> set (td_components db')" for k
    using that inv db' ids(2) by (auto simp: tmpl_inv_defs set_sql_delete seal_component_def list_all_iff)
  ultimately have "components_inv db'"
    using subsetD [OF more] by (simp add: components_inv_def db' list_all_iff del: set_map)
  moreover have "profiles_inv db1" using inv ids by (simp add: tmpl_inv_defs)
  ultimately show ?thesis
    using upsert_inv [OF up] inv by (simp add: tmpl_inv_def db')
qed

lemma variables_inv_delete: "variables_inv db \<Longrightarrow> variables_inv (delete_variables P db)"
  by (simp add: variables_inv_def delete_variables_def list_all_iff set_sql_delete)
     (simp add: sql_delete_def distinct_map_filter)

lemma components_inv_delete:
  assumes "components_inv db"
  shows "components_inv (delete_variables P db)"
proof -
  have "k_variable_id k \<in> set (map v_id (td_variables (delete_variables P db)))"
    if "k \<in> set (td_components (delete_variables P db))" for k
  proof -
    have k: "k \<in> set (td_components db)" "\<not> list_ex (\<lambda>v. P v \<and> v_id v = k_variable_id k) (td_variables db)"
      using that by (auto simp: delete_variables_def set_sql_delete)
    then obtain v where "v \<in> set (td_variables db)" "k_variable_id k = v_id v"
      using assms unfolding components_inv_def list_all_iff by auto
    then show ?thesis using k(2) by (force simp: delete_variables_def set_sql_delete list_ex_iff)
  qed
  then have "list_all (\<lambda>k. k_variable_id k \<in> set (map v_id (td_variables (delete_variables P db)))) (td_components (delete_variables P db))"
    unfolding list_all_iff by blast
  then show ?thesis
    using assms by (simp add: components_inv_def) (simp add: delete_variables_def sql_delete_def distinct_map_filter)
qed

lemma profiles_inv_delete [simp]: "profiles_inv (delete_variables P db) = profiles_inv db"
  by (simp add: delete_variables_def)

lemma tmpl_inv_DeleteVariable: "tmpl_inv db \<Longrightarrow> DeleteVariable i db = Inr db' \<Longrightarrow> tmpl_inv db'"
  by (auto simp: DeleteVariable_def tmpl_inv_def variables_inv_delete components_inv_delete split: if_splits)

lemma tmpl_inv_MoveVariable:
  assumes "tmpl_inv db" and move: "MoveVariable b i scope p n now db = Inr db'"
  shows "tmpl_inv db'"
proof -
  let ?rows = "sql_update (\<lambda>r. v_id r = i) (\<lambda>r. r\<lparr>v_scope := scope, v_profile_id := p, v_node_id := n, v_updated_at := now\<rparr>)
      (td_variables db)"
  have db': "db' = db\<lparr>td_variables := ?rows\<rparr>" and ok: "list_all (\<lambda>r. v_id r = i \<longrightarrow> scope_ok r \<and> owner_ok db r) ?rows"
    and keys: "distinct (map var_key ?rows)"
    using move by (auto simp: MoveVariable_def Let_def list_ex_iff list_all_iff split: sum.splits if_splits)
  have ids: "map v_id ?rows = map v_id (td_variables db)" by simp
  have "list_all (\<lambda>r. scope_ok r \<and> owner_ok db r) ?rows"
    using ok assms(1) by (auto simp: tmpl_inv_defs list_all_iff set_sql_update)
  then have "variables_inv db'"
    using keys ids assms(1) by (simp add: db' variables_inv_def tmpl_inv_def)
  moreover have "components_inv db'"
    using ids assms(1) unfolding db' tmpl_inv_def components_inv_def by (simp del: set_map)
  ultimately show ?thesis using assms(1) by (simp add: tmpl_inv_def db')
qed

lemma owner_ok_mono:
  "owner_ok db v \<Longrightarrow> set (profile_ids db) \<subseteq> set (profile_ids db') \<Longrightarrow> td_nodes db' = td_nodes db \<Longrightarrow> owner_ok db' v"
  by (auto simp: owner_ok_def split: option.splits)

lemma variables_inv_mono:
  "variables_inv db \<Longrightarrow> td_variables db' = td_variables db \<Longrightarrow> set (profile_ids db) \<subseteq> set (profile_ids db') \<Longrightarrow>
     td_nodes db' = td_nodes db \<Longrightarrow> variables_inv db'"
  using owner_ok_mono [of db _ db'] by (auto simp: variables_inv_def list_all_iff)

lemma tmpl_inv_DeleteProfile:
  assumes "tmpl_inv db" and del: "DeleteProfile i db = Inr db'"
  shows "tmpl_inv db'"
proof -
  let ?d = "delete_variables (\<lambda>v. v_profile_id v = Some i) db"
  have db': "db' = ?d\<lparr>td_profiles := sql_delete (\<lambda>p. pf_id p = i) (td_profiles db),
      td_client_templates := sql_delete (\<lambda>c. ct_profile_id c = i) (td_client_templates db),
      td_profile_nodes := sql_delete (\<lambda>b. fst b = i) (td_profile_nodes db)\<rparr>"
    using del by (simp add: DeleteProfile_def split: if_splits)
  have "owner_ok db' v" if "v \<in> set (td_variables ?d)" for v
  proof -
    have "owner_ok ?d v" "v_profile_id v \<noteq> Some i"
      using that variables_inv_delete [of db] assms(1)
      by (auto simp: tmpl_inv_def variables_inv_def list_all_iff delete_variables_def set_sql_delete)
    then show ?thesis
      by (auto simp: owner_ok_def db' delete_variables_def set_sql_delete split: option.splits)
  qed
  then have "variables_inv db'"
    using variables_inv_delete [of db] assms(1) by (auto simp: tmpl_inv_def variables_inv_def list_all_iff db')
  moreover have "components_inv db'"
    using components_inv_delete [of db] assms(1) by (simp add: tmpl_inv_def db')
  moreover have "profiles_inv db'"
    using assms(1) by (auto simp: tmpl_inv_defs db' delete_variables_def sql_delete_def distinct_map_filter list_all_iff)
  ultimately show ?thesis by (simp add: tmpl_inv_def)
qed

lemma tmpl_inv_CreateProfile:
  assumes "tmpl_inv db" and new: "CreateProfile newid now name db = Inr (p, db')"
  shows "tmpl_inv db'"
proof -
  have "variables_inv db'"
    by (rule variables_inv_mono [of db]) (use assms in \<open>auto simp: tmpl_inv_def CreateProfile_def Let_def split: if_splits\<close>)
  moreover have "components_inv db'" "profiles_inv db'"
    using assms by (auto simp: CreateProfile_def Let_def tmpl_inv_defs list_all_iff split: if_splits)
  ultimately show ?thesis by (simp add: tmpl_inv_def)
qed

lemma tmpl_inv_UpdateProfile:
  assumes "tmpl_inv db" and upd: "UpdateProfile q now db = Inr db'"
  shows "tmpl_inv db'"
proof -
  have ids: "profile_ids db' = profile_ids db" and names: "distinct (map pf_name (td_profiles db'))"
    and same: "td_variables db' = td_variables db" "td_components db' = td_components db"
      "td_client_templates db' = td_client_templates db" "td_profile_nodes db' = td_profile_nodes db" "td_nodes db' = td_nodes db"
    using upd by (simp_all add: UpdateProfile_def Let_def split: if_splits) auto
  have "variables_inv db'"
    by (rule variables_inv_mono [of db]) (use assms(1) ids same in \<open>simp_all add: tmpl_inv_def del: set_map\<close>)
  then show ?thesis
    using assms(1) ids names same by (simp add: tmpl_inv_def components_inv_def profiles_inv_def del: set_map)
qed

lemma tmpl_inv_templates:
  assumes "tmpl_inv db"
  shows "PutClientTemplate p client tmpl db = Inr db' \<Longrightarrow> tmpl_inv db'"
    and "SetClientTemplateServe p client serve db = Inr db' \<Longrightarrow> tmpl_inv db'"
    and "tmpl_inv (DeleteClientTemplate p client db)"
proof -
  show "tmpl_inv db'" if put: "PutClientTemplate p client tmpl db = Inr db'"
  proof (cases "list_ex (is_template p client) (td_client_templates db)")
    case True
    then show ?thesis
      using put assms by (auto simp: PutClientTemplate_def tmpl_inv_def profiles_inv_def list_all_iff set_sql_update)
  next
    case False
    then have "(p, client) \<notin> (\<lambda>c. (ct_profile_id c, ct_client c)) ` set (td_client_templates db)"
      by (auto simp: list_ex_iff is_template_def)
    then show ?thesis
      using False put assms by (auto simp: PutClientTemplate_def tmpl_inv_def profiles_inv_def list_all_iff split: if_splits)
  qed
  show "tmpl_inv db'" if "SetClientTemplateServe p client serve db = Inr db'"
    using that assms
    by (auto simp: SetClientTemplateServe_def tmpl_inv_def profiles_inv_def list_all_iff set_sql_update split: if_splits)
  show "tmpl_inv (DeleteClientTemplate p client db)"
    using assms
    by (auto simp: DeleteClientTemplate_def tmpl_inv_def profiles_inv_def sql_delete_def distinct_map_filter list_all_iff)
qed

lemma tmpl_inv_bindings:
  assumes "tmpl_inv db"
  shows "BindProfileNode p n db = Inr db' \<Longrightarrow> tmpl_inv db'" and "tmpl_inv (UnbindProfileNode p n db)"
proof -
  show "tmpl_inv db'" if "BindProfileNode p n db = Inr db'"
    using that assms by (auto simp: BindProfileNode_def tmpl_inv_def profiles_inv_def split: if_splits)
  show "tmpl_inv (UnbindProfileNode p n db)"
    using assms by (auto simp: UnbindProfileNode_def tmpl_inv_def profiles_inv_def sql_delete_def)
qed

text \<open>The writes, as steps; a node the fleet gains or loses takes its variables and bindings with it.\<close>

definition drop_node :: "id \<Rightarrow> tmpl_db \<Rightarrow> tmpl_db" where
  "drop_node n db =
     (delete_variables (\<lambda>v. v_node_id v = Some n) db)
       \<lparr>td_nodes := removeAll n (td_nodes db), td_profile_nodes := sql_delete (\<lambda>b. snd b = n) (td_profile_nodes db)\<rparr>"

inductive tmpl_step :: "tmpl_db \<Rightarrow> tmpl_db \<Rightarrow> bool" where
  put_variable: "PutVariable b nonces newid now v db = Inr (v', db') \<Longrightarrow> tmpl_step db db'"
| delete_variable: "DeleteVariable i db = Inr db' \<Longrightarrow> tmpl_step db db'"
| move_variable: "MoveVariable b i scope p n now db = Inr db' \<Longrightarrow> tmpl_step db db'"
| create_profile: "CreateProfile newid now name db = Inr (p, db') \<Longrightarrow> tmpl_step db db'"
| update_profile: "UpdateProfile q now db = Inr db' \<Longrightarrow> tmpl_step db db'"
| delete_profile: "DeleteProfile i db = Inr db' \<Longrightarrow> tmpl_step db db'"
| put_template: "PutClientTemplate p client tmpl db = Inr db' \<Longrightarrow> tmpl_step db db'"
| serve_template: "SetClientTemplateServe p client serve db = Inr db' \<Longrightarrow> tmpl_step db db'"
| delete_template: "tmpl_step db (DeleteClientTemplate p client db)"
| bind: "BindProfileNode p n db = Inr db' \<Longrightarrow> tmpl_step db db'"
| unbind: "tmpl_step db (UnbindProfileNode p n db)"
| add_node: "tmpl_step db (db\<lparr>td_nodes := td_nodes db @ [n]\<rparr>)"
| lose_node: "tmpl_step db (drop_node n db)"

inductive_cases tmpl_stepE: "tmpl_step db db'"

definition empty_tmpl :: tmpl_db where
  "empty_tmpl = \<lparr>td_variables = [], td_components = [], td_profiles = [], td_client_templates = [], td_profile_nodes = [], td_nodes = []\<rparr>"

lemma tmpl_inv_nodes:
  assumes "tmpl_inv db"
  shows "tmpl_inv (db\<lparr>td_nodes := td_nodes db @ [n]\<rparr>)" and "tmpl_inv (drop_node n db)"
proof -
  have "owner_ok db v \<Longrightarrow> owner_ok (db\<lparr>td_nodes := td_nodes db @ [n]\<rparr>) v" for v
    by (auto simp: owner_ok_def split: option.splits)
  then show "tmpl_inv (db\<lparr>td_nodes := td_nodes db @ [n]\<rparr>)"
    using assms by (auto simp: tmpl_inv_defs list_all_iff)
  let ?d = "delete_variables (\<lambda>v. v_node_id v = Some n) db"
  have "owner_ok (drop_node n db) v" if "v \<in> set (td_variables ?d)" for v
  proof -
    have "owner_ok ?d v" "v_node_id v \<noteq> Some n"
      using that variables_inv_delete [of db] assms
      by (auto simp: tmpl_inv_def variables_inv_def list_all_iff delete_variables_def set_sql_delete)
    then show ?thesis
      by (auto simp: owner_ok_def drop_node_def delete_variables_def split: option.splits)
  qed
  then have "variables_inv (drop_node n db)"
    using variables_inv_delete [of db] assms by (auto simp: tmpl_inv_def variables_inv_def list_all_iff drop_node_def)
  moreover have "components_inv (drop_node n db)"
    using components_inv_delete [of db] assms by (simp add: tmpl_inv_def drop_node_def components_inv_def)
  moreover have "profiles_inv (drop_node n db)"
    using assms by (auto simp: tmpl_inv_defs drop_node_def delete_variables_def sql_delete_def)
  ultimately show "tmpl_inv (drop_node n db)" by (simp add: tmpl_inv_def)
qed

lemmas tmpl_inv_steps =
  tmpl_inv_PutVariable tmpl_inv_DeleteVariable tmpl_inv_MoveVariable tmpl_inv_CreateProfile tmpl_inv_UpdateProfile
  tmpl_inv_DeleteProfile tmpl_inv_templates tmpl_inv_bindings tmpl_inv_nodes

lemma tmpl_step_inv: "tmpl_step db db' \<Longrightarrow> tmpl_inv db \<Longrightarrow> tmpl_inv db'"
  by (induction rule: tmpl_step.induct) (blast intro: tmpl_inv_steps)+

lemma empty_tmpl_inv: "tmpl_inv empty_tmpl"
  by (simp add: empty_tmpl_def tmpl_inv_defs)

text \<open>Under the invariant a row is found by its owner and name.\<close>

lemma scopes_distinct [simp]:
  "ScopeGlobal \<noteq> ScopeProfile" "ScopeProfile \<noteq> ScopeGlobal" "ScopeGlobal \<noteq> ScopeNode" "ScopeNode \<noteq> ScopeGlobal"
  "ScopeProfile \<noteq> ScopeNode" "ScopeNode \<noteq> ScopeProfile"
  by (simp_all add: ScopeGlobal_def ScopeProfile_def ScopeNode_def)

lemma found_key:
  assumes inv: "variables_inv db" and r: "r \<in> set (td_variables db)" and owner: "var_key r = (scope, p, n, name)"
  shows "FindVariableID scope (coalesce p) (coalesce n) name db = Inr (v_id r)"
proof -
  let ?P = "\<lambda>v. v_name v = name \<and>
      (if scope = ScopeProfile then v_profile_id v = Some (coalesce p)
       else if scope = ScopeNode then v_node_id v = Some (coalesce n)
       else v_profile_id v = None \<and> v_node_id v = None)"
  have ok: "scope_ok v" if "v \<in> set (td_variables db)" for v
    using that inv by (simp add: variables_inv_def list_all_iff)
  have key: "?P v \<Longrightarrow> v \<in> set (td_variables db) \<Longrightarrow> var_key v = var_key r" for v
    using ok [of v] ok [OF r] owner
    by (auto simp: scope_ok_def var_key_def split: if_splits)
  have "?P r" using ok [OF r] owner
    by (auto simp: scope_ok_def var_key_def)
  then obtain v where v: "sql_row ?P (td_variables db) = Some v"
    using r by (cases "sql_row ?P (td_variables db)") (auto simp: sql_row_None)
  then have "v \<in> set (td_variables db)" "?P v" using sql_row_Some by fast+
  then have "v = r" using key [of v] r inv by (auto simp: variables_inv_def distinct_map inj_on_def)
  with v show ?thesis by (simp add: FindVariableID_def)
qed

lemma distinct_key_update:
  assumes "distinct (map key t)" and "distinct (map g t)"
    and "\<And>x y. x \<in> set t \<Longrightarrow> y \<in> set t \<Longrightarrow> key x \<noteq> i \<Longrightarrow> key y = i \<Longrightarrow> g x \<noteq> g (f y)"
  shows "distinct (map g (sql_update (\<lambda>r. key r = i) f t))"
  using assms
proof (induction t)
  case (Cons a t)
  have "g (if key a = i then f a else a) \<notin> set (map g (sql_update (\<lambda>r. key r = i) f t))"
  proof
    assume "g (if key a = i then f a else a) \<in> set (map g (sql_update (\<lambda>r. key r = i) f t))"
    then obtain x where x: "x \<in> set t" and eq: "g (if key a = i then f a else a) = g (if key x = i then f x else x)"
      by (auto simp: set_sql_update)
    have "key a \<noteq> key x" "g a \<noteq> g x" using Cons.prems(1,2) x by auto
    with eq x Cons.prems(3) [of a x] Cons.prems(3) [of x a] show False by (auto split: if_splits)
  qed
  moreover have "distinct (map g (sql_update (\<lambda>r. key r = i) f t))"
    using Cons.prems by (intro Cons.IH) auto
  ultimately show ?case by simp
qed (simp add: sql_update_def)

section \<open>Properties\<close>

text \<open>Whatever sequence of writes the panel makes, the identifiers and the names of an owner stay unique, every
  variable has the owner its scope says, and no component, template or binding refers to a row that is gone.\<close>

theorem template_integrity:
  assumes "tmpl_step\<^sup>*\<^sup>* empty_tmpl db"
  shows "tmpl_inv db"
  using assms by (induction rule: rtranclp_induct) (auto intro: empty_tmpl_inv tmpl_step_inv)

theorem template_integrity_witness: "tmpl_inv (drop_node ''n'' empty_tmpl)"
  by (rule template_integrity) (blast intro: tmpl_step.lose_node)

text \<open>C34. A variable is read back as it was put: its name, its generator and its components in the order of their
  names, the secret ones opened. A row that existed keeps its owner, and no other variable changes.\<close>

theorem variable_roundtrip:
  assumes "box_ok b" and "\<And>n. nonce_ok b (nonces n)" and "tmpl_inv db"
    and put: "PutVariable b nonces newid now v db = Inr (v', db')"
  shows "\<exists>r. GetVariable b (v_id v') db' = Inr r \<and> v_name r = v_name v \<and> v_generator r = v_generator v
      \<and> v_components r = sort_key cp_name (v_components v)
      \<and> (v_scope r, v_profile_id r, v_node_id r) =
          (case sql_row (\<lambda>x. v_id x = v_id v') (td_variables db) of
             None \<Rightarrow> (v_scope v, v_profile_id v, v_node_id v)
           | Some x \<Rightarrow> (v_scope x, v_profile_id x, v_node_id x))
      \<and> (\<forall>i. i \<noteq> v_id v' \<longrightarrow> GetVariable b i db' = GetVariable b i db)"
proof -
  obtain db1 where up: "upsert_variable (row_of v') db = Inr db1"
    and db': "db' = db1\<lparr>td_components := sql_delete (\<lambda>k. k_variable_id k = v_id v') (td_components db1)
                       @ map (seal_component b nonces (v_id v')) (v_components v')\<rparr>"
    and same: "v_components v' = v_components v" "v_name v' = v_name v" "v_generator v' = v_generator v"
      "v_scope v' = v_scope v" "v_profile_id v' = v_profile_id v" "v_node_id v' = v_node_id v"
    using put_variable_steps [OF put] by metis
  have dist: "distinct (map v_id (td_variables db'))" "distinct (map v_id (td_variables db))"
    using tmpl_inv_PutVariable [OF assms(3) put] assms(3) by (simp_all add: tmpl_inv_defs)
  have vars: "td_variables db' = td_variables db1" by (simp add: db')
  have here: "loadComponents b (v_id v') db' = Inr (sort_key cp_name (v_components v))"
    unfolding db' load_same [OF assms(1,2)] same ..
  have "loadComponents b i db' = loadComponents b i db" if "i \<noteq> v_id v'" for i
    using load_other [OF that] upsert_ids(2) [OF up] by (simp add: db' loadComponents_def)
  then have "GetVariable b i db' = GetVariable b i db" if "i \<noteq> v_id v'" for i
    using that by (simp add: GetVariable_row [OF dist(1)] GetVariable_row [OF dist(2)] vars upsert_row [OF up] split: option.split)
  then show ?thesis
    using same here
    by (simp add: GetVariable_row [OF dist(1)] vars upsert_row [OF up] bind_result_def split: option.split)
qed

definition demo_keys :: variable where
  "demo_keys = \<lparr>v_id = [], v_name = ''reality'', v_scope = ScopeGlobal, v_profile_id = None, v_node_id = None,
     v_generator = ''x25519'', v_created_at = 0, v_updated_at = 0,
     v_components = [\<lparr>cp_name = ''public'', cp_value = ''P'', cp_secret = False\<rparr>,
       \<lparr>cp_name = ''private'', cp_value = ''S'', cp_secret = True\<rparr>]\<rparr>"

definition demo_pool :: tmpl_db where
  "demo_pool = empty_tmpl\<lparr>td_nodes := [''n'']\<rparr>"

definition demo_put :: "variable \<times> tmpl_db" where
  "demo_put = projr (PutVariable (frame_box ''a1'') (\<lambda>_. [7, 200]) ''01'' 5 demo_keys demo_pool)"

lemma demo_put_ok: "PutVariable (frame_box ''a1'') (\<lambda>_. [7, 200]) ''01'' 5 demo_keys demo_pool = Inr (fst demo_put, snd demo_put)"
  by code_simp

lemma demo_pool_inv: "tmpl_inv demo_pool"
  by (simp add: demo_pool_def empty_tmpl_def tmpl_inv_defs)

theorem variable_roundtrip_witness:
  "\<exists>r. GetVariable (frame_box ''a1'') ''01'' (snd demo_put) = Inr r
     \<and> v_components r = [\<lparr>cp_name = ''private'', cp_value = ''S'', cp_secret = True\<rparr>,
         \<lparr>cp_name = ''public'', cp_value = ''P'', cp_secret = False\<rparr>]"
proof -
  have "v_id (fst demo_put) = ''01''" by code_simp
  moreover have "sort_key cp_name (v_components demo_keys) =
      [\<lparr>cp_name = ''private'', cp_value = ''S'', cp_secret = True\<rparr>, \<lparr>cp_name = ''public'', cp_value = ''P'', cp_secret = False\<rparr>]"
    by code_simp
  ultimately show ?thesis
    using variable_roundtrip [OF frame_box_ok(1) frame_box_ok(3) demo_pool_inv demo_put_ok] by auto
qed

text \<open>Moving a variable to another owner changes its owner and nothing else: its components are the same bytes in
  the database, so it has the same value before and after, and every other variable is as it was. The move is
  refused when the name is taken there, before any index has to refuse it.\<close>

theorem move_keeps_value:
  assumes "tmpl_inv db"
  shows "case MoveVariable b i scope p n now db of
      Inr db' \<Rightarrow> \<exists>v. GetVariable b i db = Inr v
        \<and> GetVariable b i db' = Inr (v\<lparr>v_scope := scope, v_profile_id := p, v_node_id := n, v_updated_at := now\<rparr>)
        \<and> td_components db' = td_components db \<and> (\<forall>j. j \<noteq> i \<longrightarrow> GetVariable b j db' = GetVariable b j db)
    | Inl e \<Rightarrow> e \<noteq> MoveStore UniqueViolation"
proof (cases "MoveVariable b i scope p n now db")
  let ?f = "\<lambda>r. r\<lparr>v_scope := scope, v_profile_id := p, v_node_id := n, v_updated_at := now\<rparr>"
  let ?rows = "sql_update (\<lambda>r. v_id r = i) ?f (td_variables db)"
  have inv: "variables_inv db" and dist: "distinct (map v_id (td_variables db))"
    using assms by (simp_all add: tmpl_inv_defs)
  {
    case (Inl e)
    have "distinct (map var_key ?rows)"
      if v: "GetVariable b i db = Inr v" and free: "\<And>j. FindVariableID scope (coalesce p) (coalesce n) (v_name v) db = Inr j \<Longrightarrow> j = i" for v
    proof -
      obtain r where r: "sql_row (\<lambda>x. v_id x = i) (td_variables db) = Some r" "v_name r = v_name v"
        using v by (auto simp: GetVariable_row [OF dist] split: option.splits)
      have other: "var_key x \<noteq> (scope, p, n, v_name v)" if "x \<in> set (td_variables db)" "v_id x \<noteq> i" for x
        using found_key [OF inv that(1)] free that(2) by blast
      have name: "v_name y = v_name v" if "y \<in> set (td_variables db)" "v_id y = i" for y
        using sql_row_key [OF dist that(1)] that(2) r by simp
      have "var_key x \<noteq> var_key (?f y)" if "x \<in> set (td_variables db)" "y \<in> set (td_variables db)" "v_id x \<noteq> i" "v_id y = i" for x y
        using other [OF that(1,3)] name [OF that(2,4)] by (simp add: var_key_def)
      then show ?thesis
        using dist inv by (intro distinct_key_update [where key = v_id]) (auto simp: variables_inv_def)
    qed
    then have "e \<noteq> MoveStore UniqueViolation"
      using Inl GetVariable_error [OF dist, of b i] by (auto simp: MoveVariable_def Let_def split: sum.splits if_splits)
    then show ?thesis by (simp add: Inl)
  next
    case (Inr db')
    obtain v where v: "GetVariable b i db = Inr v" and db': "db' = db\<lparr>td_variables := ?rows\<rparr>"
      using Inr by (auto simp: MoveVariable_def Let_def split: sum.splits if_splits)
    have dist': "distinct (map v_id (td_variables db'))" using dist by (simp add: db')
    have load: "loadComponents b j db' = loadComponents b j db" for j by (simp add: db' loadComponents_def)
    have "GetVariable b j db' = GetVariable b j db" if "j \<noteq> i" for j
      using that unfolding GetVariable_row [OF dist] GetVariable_row [OF dist'] load by (simp add: db' sql_row_update_other)
    moreover have "GetVariable b i db' = Inr (?f v)"
      using v unfolding GetVariable_row [OF dist] GetVariable_row [OF dist'] load
      by (auto simp: db' sql_row_update_same bind_result_def with_components_def var_row.extend_def
          split: option.splits sum.splits)
    ultimately show ?thesis using v by (simp add: Inr db')
  }
qed

definition demo_moved :: tmpl_db where
  "demo_moved = projr (MoveVariable (frame_box ''a1'') ''01'' ScopeNode None (Some ''n'') 9 (snd demo_put))"

theorem move_keeps_value_witness:
  "\<exists>v. GetVariable (frame_box ''a1'') ''01'' (snd demo_put) = Inr v
     \<and> GetVariable (frame_box ''a1'') ''01'' demo_moved
         = Inr (v\<lparr>v_scope := ScopeNode, v_profile_id := None, v_node_id := Some ''n'', v_updated_at := 9\<rparr>)"
proof -
  have inv: "tmpl_inv (snd demo_put)" by (rule tmpl_inv_PutVariable [OF demo_pool_inv demo_put_ok])
  have ok: "MoveVariable (frame_box ''a1'') ''01'' ScopeNode None (Some ''n'') 9 (snd demo_put) = Inr demo_moved"
    by code_simp
  show ?thesis
    using move_keeps_value [OF inv, where b = "frame_box ''a1''" and i = "''01''" and scope = ScopeNode and p = None
        and n = "Some ''n''" and now = 9] unfolding ok by auto
qed

end
