(* ===== verification/Contexts.thy ===== *)
theory Contexts
  imports Access TemplateStore
begin

text \<open>
  The variables a template sees: the first half of \<open>core/internal/profile/profile.go\<close>. The context of a profile on
  a node joins the variables of the fleet, of the profile and of the node, the narrower over the wider, and the
  facts about the node over all of them. A client rendering gets the same context without the secret components.

  The theorems: what a name resolves to, and that what a secret component holds has no influence on any client
  rendering, whatever the template asks for.
\<close>

section \<open>Names\<close>

definition component_name :: "variable \<Rightarrow> component \<Rightarrow> string" where
  "component_name v c = (if cp_name c \<noteq> [] then v_name v @ ''.'' @ cp_name c else v_name v)"

definition flatten_vars :: "variable list \<Rightarrow> (string, string) gomap" where
  "flatten_vars vars = overlay [] (concat (map (\<lambda>v. map (\<lambda>c. (component_name v c, cp_value c)) (v_components v)) vars))"

definition secret_names :: "variable list \<Rightarrow> string list" where
  "secret_names vars = concat (map (\<lambda>v. map (component_name v) (filter cp_secret (v_components v))) vars)"

text \<open>The UTF-8 bytes of the word for a line, and the verb \<open>%02d\<close>.\<close>

definition line_word :: string where
  "line_word = [CHR 0xE7, CHR 0xBA, CHR 0xBF, CHR 0xE8, CHR 0xB7, CHR 0xAF]"

definition pad2 :: "nat \<Rightarrow> string" where
  "pad2 n = (if n < 10 then CHR ''0'' # show_nat n else show_nat n)"

text \<open>\<open>sort.Slice\<close> by the time of creation; nodes created in the same second keep the order of the list, as its
  insertion sort of short slices does.\<close>

definition customerName :: "box \<Rightarrow> node list \<Rightarrow> node \<Rightarrow> string" where
  "customerName b nodes n =
     (if n_display_name n \<noteq> [] then n_display_name n
      else
        (case ListNodes b nodes of
           Inl e \<Rightarrow> line_word
         | Inr ns \<Rightarrow>
             (case List.find (\<lambda>(i, x). n_id x = n_id n) (enumerate 1 (sort_key n_created_at ns)) of
                None \<Rightarrow> line_word
              | Some (i, x) \<Rightarrow> line_word @ '' '' @ pad2 i)))"

definition node_facts :: "box \<Rightarrow> node list \<Rightarrow> node \<Rightarrow> (string, string) gomap" where
  "node_facts b nodes n =
     [(''node.name'', n_name n), (''node.address'', Dialable n), (''node.hostname'', n_hostname n),
      (''node.display_name'', customerName b nodes n)]"

definition contextFor ::
  "box \<Rightarrow> id \<Rightarrow> id \<Rightarrow> node list \<Rightarrow> tmpl_db \<Rightarrow> (db_error, render_context) result" where
  "contextFor b profileID nodeID nodes db =
     bind_result (GlobalVariables b db) (\<lambda>globals.
     bind_result (ProfileVariables b profileID db) (\<lambda>profileVars.
     bind_result (NodeVariables b nodeID db) (\<lambda>nodeVars.
     bind_result (GetNode b nodeID nodes) (\<lambda>n.
       let merged = Merge (flatten_vars globals) (flatten_vars profileVars) (flatten_vars nodeVars) []
       in Inr (NewContext (overlay merged (node_facts b nodes n))
                 (secret_names globals @ secret_names profileVars @ secret_names nodeVars))))))"

definition ClientContext ::
  "box \<Rightarrow> id \<Rightarrow> id \<Rightarrow> node list \<Rightarrow> tmpl_db \<Rightarrow> (db_error, render_context) result" where
  "ClientContext b profileID nodeID nodes db =
     bind_result (contextFor b profileID nodeID nodes db) (\<lambda>ctx. Inr (ForClient ctx))"

fun or_else_list :: "'a option list \<Rightarrow> 'a option" where
  "or_else_list [] = None"
| "or_else_list (x # xs) = (case x of None \<Rightarrow> or_else_list xs | Some y \<Rightarrow> Some y)"

section \<open>Lemmas\<close>

lemma flatten_ok [simp]: "gm_ok (flatten_vars vars)"
  by (simp add: flatten_vars_def overlay_ok)

lemma Merge_get:
  assumes "gm_ok g" and "gm_ok p" and "gm_ok n" and "gm_ok u"
  shows "map_of (Merge g p n u) = map_of g ++ map_of p ++ map_of n ++ map_of u" and "gm_ok (Merge g p n u)"
  using assms by (simp_all add: Merge_def overlay_get_ok overlay_ok)

lemma node_facts_ok [simp]: "gm_ok (node_facts b nodes n)"
  by (simp add: node_facts_def gm_ok_def)

lemma context_steps:
  assumes "contextFor b p n nodes db = Inr ctx"
  obtains gs ps ns row where "GlobalVariables b db = Inr gs" "ProfileVariables b p db = Inr ps" "NodeVariables b n db = Inr ns"
    "GetNode b n nodes = Inr row" "gm_ok (rc_vars ctx)" "rc_client ctx = False"
    "rc_secret ctx = secret_names gs @ secret_names ps @ secret_names ns"
    "map_of (rc_vars ctx) = map_of (flatten_vars gs) ++ map_of (flatten_vars ps) ++ map_of (flatten_vars ns) ++ map_of (node_facts b nodes row)"
  using assms
  by (auto simp: contextFor_def Let_def NewContext_def overlay_get_ok Merge_get overlay_ok)

text \<open>The same pool with other values in its secret components.\<close>

definition respell :: "(comp_row \<Rightarrow> string) \<Rightarrow> comp_row \<Rightarrow> comp_row" where
  "respell f k = (if k_secret k then k\<lparr>k_value := f k\<rparr> else k)"

definition other_secrets :: "(comp_row \<Rightarrow> string) \<Rightarrow> tmpl_db \<Rightarrow> tmpl_db" where
  "other_secrets f db = db\<lparr>td_components := map (respell f) (td_components db)\<rparr>"

definition public_part :: "component \<Rightarrow> string \<times> bool \<times> string option" where
  "public_part c = (cp_name c, cp_secret c, if cp_secret c then None else Some (cp_value c))"

definition public_var :: "variable \<Rightarrow> var_row \<times> (string \<times> bool \<times> string option) list" where
  "public_var v = (row_of v, map public_part (v_components v))"

lemma open_public:
  assumes "open_components b ks = Inr cs" and "open_components b' (map (respell f) ks) = Inr cs'"
  shows "map public_part cs' = map public_part cs"
  using assms
proof (induction ks arbitrary: cs cs')
  case (Cons k ks)
  then obtain c d cs1 cs1' where c: "open_component b k = Inr c" "open_component b' (respell f k) = Inr d"
    and ok: "open_components b ks = Inr cs1" "open_components b' (map (respell f) ks) = Inr cs1'"
    and cs: "cs = c # cs1" "cs' = d # cs1'"
    by auto
  have "public_part d = public_part c"
    using c by (auto simp: open_component_def respell_def public_part_def split: if_splits sum.splits)
  then show ?case using Cons.IH [OF ok] by (simp add: cs)
qed simp

lemma load_public:
  assumes "loadComponents b i db = Inr cs" and "loadComponents b' i (other_secrets f db) = Inr cs'"
  shows "map public_part cs' = map public_part cs"
proof -
  have key: "k_component (respell f k) = k_component k" "k_variable_id (respell f k) = k_variable_id k" for k
    by (simp_all add: respell_def)
  have "filter (\<lambda>k. k_variable_id k = i) (map (respell f) ks) = map (respell f) (filter (\<lambda>k. k_variable_id k = i) ks)" for ks
    by (simp add: filter_map comp_def key)
  then have "sort_key k_component (filter (\<lambda>k. k_variable_id k = i) (td_components (other_secrets f db)))
      = map (respell f) (sort_key k_component (filter (\<lambda>k. k_variable_id k = i) (td_components db)))"
    by (simp add: other_secrets_def sort_key_map_key [of k_component "respell f" k_component, OF key(1)])
  then show ?thesis using assms by (auto simp: loadComponents_def intro: open_public)
qed

lemma scan_public:
  assumes "scanVariables b db rs = Inr vs" and "scanVariables b' (other_secrets f db) rs = Inr vs'"
  shows "map public_var vs' = map public_var vs"
  using assms
proof (induction rs arbitrary: vs vs')
  case (Cons r rs)
  then obtain cs cs' ws ws' where load: "loadComponents b (v_id r) db = Inr cs" "loadComponents b' (v_id r) (other_secrets f db) = Inr cs'"
    and ok: "scanVariables b db rs = Inr ws" "scanVariables b' (other_secrets f db) rs = Inr ws'"
    and vs: "vs = with_components r cs # ws" "vs' = with_components r cs' # ws'"
    by auto
  have "public_var (with_components r cs') = public_var (with_components r cs)"
    using load_public [OF load] by (simp add: public_var_def row_of_def with_components_def var_row.truncate_def var_row.extend_def)
  then show ?case using Cons.IH [OF ok] by (simp add: vs)
qed simp

definition named_parts :: "variable list \<Rightarrow> (string \<times> component) list" where
  "named_parts vars = concat (map (\<lambda>v. map (\<lambda>c. (component_name v c, c)) (v_components v)) vars)"

definition public_value :: "component \<Rightarrow> string option" where
  "public_value c = (if cp_secret c then None else Some (cp_value c))"

lemma named_parts_simps:
  "flatten_vars vars = overlay [] (map (\<lambda>(n, c). (n, cp_value c)) (named_parts vars))"
  "secret_names vars = map fst (filter (\<lambda>(n, c). cp_secret c) (named_parts vars))"
  by (induction vars)
     (auto simp: flatten_vars_def secret_names_def named_parts_def map_concat comp_def filter_map split_def)

lemma public_parts_eq:
  assumes "map public_var vs' = map public_var vs"
  shows "map (\<lambda>(n, c). (n, cp_secret c, public_value c)) (named_parts vs') = map (\<lambda>(n, c). (n, cp_secret c, public_value c)) (named_parts vs)"
proof -
  let ?p = "\<lambda>(r :: var_row, ps). map (\<lambda>(n, s, x). (if n \<noteq> [] then v_name r @ ''.'' @ n else v_name r, s, x)) ps"
  have "map (\<lambda>(n, c). (n, cp_secret c, public_value c)) (named_parts ws) = concat (map ?p (map public_var ws))" for ws
    by (induction ws) (auto simp: named_parts_def public_var_def public_part_def public_value_def component_name_def)
  then show ?thesis by (simp only: assms)
qed

lemma public_names:
  assumes "map public_var vs' = map public_var vs"
  shows "secret_names vs' = secret_names vs"
proof -
  have "secret_names ws = map fst (filter (\<lambda>(n, s, x). s) (map (\<lambda>(n, c). (n, cp_secret c, public_value c)) (named_parts ws)))" for ws
    by (simp add: named_parts_simps filter_map comp_def split_def)
  then show ?thesis by (simp only: public_parts_eq [OF assms])
qed

text \<open>A name that is not the name of a secret shows the public value of the last part of that name.\<close>

lemma map_of_public:
  assumes "k \<notin> fst ` {e \<in> set ps. cp_secret (snd e)}"
  shows "map_of (map (\<lambda>(n, c). (n, cp_value c)) ps) k = Option.bind (map_of (map (\<lambda>(n, c). (n, public_value c)) ps) k) id"
  using assms
proof (induction ps)
  case (Cons e ps)
  obtain n c where e: "e = (n, c)" by fastforce
  have "k \<notin> fst ` {e \<in> set ps. cp_secret (snd e)}" using Cons.prems by auto
  moreover have "\<not> cp_secret c" if "n = k" using Cons.prems that by (force simp: e)
  ultimately show ?case using Cons.IH by (simp add: e public_value_def)
qed simp

lemma flatten_public:
  assumes "map public_var vs' = map public_var vs" and "k \<notin> set (secret_names vs)"
  shows "map_of (flatten_vars vs') k = map_of (flatten_vars vs) k"
proof -
  have get: "map_of (flatten_vars ws) k = Option.bind (map_of (rev (map (\<lambda>(n, c). (n, public_value c)) (named_parts ws))) k) id"
    if "k \<notin> set (secret_names ws)" for ws
  proof -
    have "map_of (flatten_vars ws) k = map_of (map (\<lambda>(n, c). (n, cp_value c)) (rev (named_parts ws))) k"
      by (simp add: named_parts_simps overlay_get rev_map)
    also have "\<dots> = Option.bind (map_of (map (\<lambda>(n, c). (n, public_value c)) (rev (named_parts ws))) k) id"
      using that by (intro map_of_public) (auto simp: named_parts_simps)
    finally show ?thesis by (simp add: rev_map)
  qed
  have "map (\<lambda>(n, c). (n, public_value c)) (named_parts ws)
      = map (\<lambda>(n, s, x). (n, x)) (map (\<lambda>(n, c). (n, cp_secret c, public_value c)) (named_parts ws))" for ws
    by (simp add: split_def)
  then have "map (\<lambda>(n, c). (n, public_value c)) (named_parts vs') = map (\<lambda>(n, c). (n, public_value c)) (named_parts vs)"
    by (simp only: public_parts_eq [OF assms(1)])
  then show ?thesis using get [of vs] get [of vs'] assms(2) public_names [OF assms(1)] by simp
qed

section \<open>Properties\<close>

text \<open>What a name means in a template: the facts about the node before everything, then the variable of the node,
  of the profile, of the fleet.\<close>

theorem context_precedence:
  assumes "contextFor b p n nodes db = Inr ctx"
  shows "\<exists>gs ps ns row. GlobalVariables b db = Inr gs \<and> ProfileVariables b p db = Inr ps \<and> NodeVariables b n db = Inr ns
    \<and> GetNode b n nodes = Inr row
    \<and> resolve ctx name =
       (case or_else_list [map_of (node_facts b nodes row) name, map_of (flatten_vars ns) name,
            map_of (flatten_vars ps) name, map_of (flatten_vars gs) name] of
          None \<Rightarrow> Inl (Undefined name) | Some v \<Rightarrow> Inr v)"
proof -
  obtain gs ps ns row where s: "GlobalVariables b db = Inr gs" "ProfileVariables b p db = Inr ps" "NodeVariables b n db = Inr ns"
    "GetNode b n nodes = Inr row" "rc_client ctx = False"
    "map_of (rc_vars ctx) = map_of (flatten_vars gs) ++ map_of (flatten_vars ps) ++ map_of (flatten_vars ns) ++ map_of (node_facts b nodes row)"
    using context_steps [OF assms] by metis
  then show ?thesis
    by (intro exI [of _ gs] exI [of _ ps] exI [of _ ns] exI [of _ row])
       (auto simp: resolve_def map_add_def split: option.splits)
qed

text \<open>C14. What a secret component holds has no influence on a client rendering: two pools that differ only in the values
  of their secret components, whatever keys they are sealed with, render every template for every credential to the
  same text or the same error.\<close>

theorem secrets_stay_home:
  assumes "ClientContext b p n nodes db = Inr ctx" and "ClientContext b' p n nodes (other_secrets f db) = Inr ctx'"
    and "GetNode b' n nodes = GetNode b n nodes" and "customerName b' nodes = customerName b nodes" and "gm_ok vars"
  shows "Render (With ctx' vars) tmpl = Render (With ctx vars) tmpl"
proof -
  obtain c c' where c: "contextFor b p n nodes db = Inr c" "contextFor b' p n nodes (other_secrets f db) = Inr c'"
    and ctx: "ctx = ForClient c" "ctx' = ForClient c'"
    using assms(1,2) by (auto simp: ClientContext_def)
  obtain gs ps ns row where s: "GlobalVariables b db = Inr gs" "ProfileVariables b p db = Inr ps" "NodeVariables b n db = Inr ns"
    "GetNode b n nodes = Inr row" "gm_ok (rc_vars c)" "rc_client c = False" "rc_secret c = secret_names gs @ secret_names ps @ secret_names ns"
    "map_of (rc_vars c) = map_of (flatten_vars gs) ++ map_of (flatten_vars ps) ++ map_of (flatten_vars ns) ++ map_of (node_facts b nodes row)"
    using c(1) by (rule context_steps)
  obtain gs' ps' ns' row' where s': "GlobalVariables b' (other_secrets f db) = Inr gs'" "ProfileVariables b' p (other_secrets f db) = Inr ps'"
    "NodeVariables b' n (other_secrets f db) = Inr ns'" "GetNode b' n nodes = Inr row'" "gm_ok (rc_vars c')" "rc_client c' = False"
    "rc_secret c' = secret_names gs' @ secret_names ps' @ secret_names ns'"
    "map_of (rc_vars c') = map_of (flatten_vars gs') ++ map_of (flatten_vars ps') ++ map_of (flatten_vars ns') ++ map_of (node_facts b' nodes row')"
    using c(2) by (rule context_steps)
  have vars: "td_variables (other_secrets f db) = td_variables db" by (simp add: other_secrets_def)
  have pub: "map public_var gs' = map public_var gs" "map public_var ps' = map public_var ps" "map public_var ns' = map public_var ns"
    using scan_public [OF s(1) [unfolded GlobalVariables_def] s'(1) [unfolded GlobalVariables_def vars]]
      scan_public [OF s(2) [unfolded ProfileVariables_def] s'(2) [unfolded ProfileVariables_def vars]]
      scan_public [OF s(3) [unfolded NodeVariables_def] s'(3) [unfolded NodeVariables_def vars]] by simp_all
  have "row' = row" using s(4) s'(4) assms(3) by simp
  then have facts: "node_facts b' nodes row' = node_facts b nodes row" using assms(4) by (simp add: node_facts_def)
  have secrets: "rc_secret c' = rc_secret c"
    unfolding s(7) s'(7) public_names [OF pub(1)] public_names [OF pub(2)] public_names [OF pub(3)] ..
  have agree: "map_of (rc_vars c') k = map_of (rc_vars c) k" if "k \<notin> set (rc_secret c')" for k
  proof -
    have "k \<notin> set (secret_names gs)" "k \<notin> set (secret_names ps)" "k \<notin> set (secret_names ns)"
      using that unfolding secrets s(7) by simp_all
    then have "map_of (flatten_vars gs') k = map_of (flatten_vars gs) k" "map_of (flatten_vars ps') k = map_of (flatten_vars ps) k"
      "map_of (flatten_vars ns') k = map_of (flatten_vars ns) k"
      using flatten_public [OF pub(1)] flatten_public [OF pub(2)] flatten_public [OF pub(3)] by blast+
    then show ?thesis using s(8) s'(8) facts by (simp add: map_add_def split: option.split)
  qed
  have "set (rc_secret c') = set (rc_secret c)" by (simp only: secrets)
  then show ?thesis
    unfolding ctx Render_def by (intro render_tokens_cong) (rule resolve_client [OF s'(5) s(5) _ agree assms(5)])
qed

definition demo_line :: render_context where
  "demo_line = projr (contextFor (frame_box ''a1'') ''p'' ''01'' [demo_node] (snd demo_put))"

theorem context_precedence_witness:
  "resolve demo_line ''node.name'' = Inr ''tokyo'' \<and> resolve demo_line ''reality.public'' = Inr ''P''"
proof -
  have ok: "contextFor (frame_box ''a1'') ''p'' ''01'' [demo_node] (snd demo_put) = Inr demo_line" by code_simp
  have reads: "GetNode (frame_box ''a1'') ''01'' [demo_node] = Inr demo_node" "NodeVariables (frame_box ''a1'') ''01'' (snd demo_put) = Inr []"
    "ProfileVariables (frame_box ''a1'') ''p'' (snd demo_put) = Inr []"
    "bind_result (GlobalVariables (frame_box ''a1'') (snd demo_put)) (\<lambda>vs. Inr (flatten_vars vs)) = Inr [(''reality.private'', ''S''), (''reality.public'', ''P'')]"
    by code_simp+
  have empty: "flatten_vars [] = []" and name: "n_name demo_node = ''tokyo''" by code_simp+
  show ?thesis
    using context_precedence [OF ok, of "''node.name''"] context_precedence [OF ok, of "''reality.public''"] reads
    by (auto simp: node_facts_def empty name)
qed

definition demo_client :: "(comp_row \<Rightarrow> string) \<Rightarrow> render_context" where
  "demo_client f = projr (ClientContext (frame_box ''a1'') ''p'' ''01'' [demo_node] (other_secrets f (snd demo_put)))"

theorem secrets_stay_home_witness:
  "Render (With (demo_client (\<lambda>_. ''plain:other'')) [(''user.uuid'', ''u'')]) ''{{reality.private}}''
     = Render (With (demo_client k_value) [(''user.uuid'', ''u'')]) ''{{reality.private}}''"
proof -
  have same: "other_secrets k_value (snd demo_put) = snd demo_put" by code_simp
  have ok: "ClientContext (frame_box ''a1'') ''p'' ''01'' [demo_node] (snd demo_put) = Inr (demo_client k_value)"
    "ClientContext (frame_box ''a1'') ''p'' ''01'' [demo_node] (other_secrets (\<lambda>_. ''plain:other'') (snd demo_put))
      = Inr (demo_client (\<lambda>_. ''plain:other''))"
    by code_simp+
  show ?thesis by (rule secrets_stay_home [OF ok]) (simp_all add: gm_ok_def)
qed

end
