(* ===== verification/Destinations.thy ===== *)
theory Destinations
  imports Prelude
begin

text \<open>
  The lists an operator types: the parsers of \<open>core/internal/store/restricted.go\<close> (address ranges and domain
  suffixes of a restricted destination) and of \<open>core/internal/store/egress.go\<close> (the match of an egress rule),
  with what they use of the packages \<open>net\<close> and \<open>net/netip\<close>. Addresses are lists of bytes. A zone makes both
  callers refuse an address, so an address with a zone does not parse here.

  \<open>strings.ToLower\<close> maps two code points outside ASCII to an ASCII letter, the Kelvin sign and the dotted capital I;
  any other code point outside ASCII stays outside and is refused by the shape of a domain.

  The theorems: what a destination's parsers accept they accept again unchanged, line by line, so the stored and
  displayed list can be saved as it is; a bare address becomes the range of that one address. The parser of an
  egress rule's domains does not have this property: it stores a suffix in a form it refuses.
\<close>

section \<open>Lines\<close>

definition joinLines :: "string list \<Rightarrow> string" where
  "joinLines v = concat (case v of [] \<Rightarrow> [] | l # ls \<Rightarrow> l # map (\<lambda>x. CHR 0x0A # x) ls)"

definition splitLines :: "string \<Rightarrow> string list" where
  "splitLines v = filter (\<lambda>l. l \<noteq> []) (map trim_space (split_on CHR 0x0A v))"

text \<open>The loop the parsers share: each line yields what it appends, or the error that ends the loop.\<close>

fun each_line :: "(string \<Rightarrow> ('e, string list) result) \<Rightarrow> string list \<Rightarrow> ('e, string list) result" where
  "each_line f [] = Inr []"
| "each_line f (l # ls) = bind_result (f l) (\<lambda>out. bind_result (each_line f ls) (\<lambda>outs. Inr (out @ outs)))"

section \<open>Addresses\<close>

definition octet :: "string \<Rightarrow> nat option" where
  "octet s =
     (if s \<noteq> [] \<and> list_all is_digit s \<and> (length s = 1 \<or> hd s \<noteq> CHR ''0'') \<and> read_digits s \<le> 255
      then Some (read_digits s) else None)"

definition parseIPv4 :: "string \<Rightarrow> nat list option" where
  "parseIPv4 s =
     (case those (map octet (split_on CHR ''.'' s)) of
        None \<Rightarrow> None
      | Some bs \<Rightarrow> if length bs = 4 then Some bs else None)"

definition nibble :: "char \<Rightarrow> nat option" where
  "nibble c =
     (if is_digit c then Some (digit_val c)
      else if CHR ''a'' \<le> c \<and> c \<le> CHR ''f'' then Some (of_char c - 87)
      else if CHR ''A'' \<le> c \<and> c \<le> CHR ''F'' then Some (of_char c - 55)
      else None)"

definition is_nibble :: "char \<Rightarrow> bool" where
  "is_nibble c \<longleftrightarrow> nibble c \<noteq> None"

definition hex_value :: "string \<Rightarrow> nat" where
  "hex_value s = foldl (\<lambda>n c. 16 * n + (case nibble c of None \<Rightarrow> 0 | Some v \<Rightarrow> v)) 0 s"

lemma dropWhile_tl_shorter: "dropWhile P s \<noteq> [] \<Longrightarrow> length (tl (dropWhile P s)) < length s"
  by (induction s) auto

text \<open>The loop of \<open>parseIPv6\<close>: the rest of the string, the bytes so far and the place of the ellipsis.\<close>

function v6_loop :: "string \<Rightarrow> nat list \<Rightarrow> nat option \<Rightarrow> (string \<times> nat list \<times> nat option) option" where
  "v6_loop s ip ellipsis =
     (if 16 \<le> length ip then Some (s, ip, ellipsis)
      else
        let digits = takeWhile is_nibble s; rest = dropWhile is_nibble s;
            next_ip = ip @ [hex_value digits div 256, hex_value digits mod 256]
        in if digits = [] \<or> 4 < length digits then None
           else if rest \<noteq> [] \<and> hd rest = CHR ''.'' then
             (if ellipsis = None \<and> length ip \<noteq> 12 then None
              else if 16 < length ip + 4 then None
              else case parseIPv4 s of None \<Rightarrow> None | Some quad \<Rightarrow> Some ([], ip @ quad, ellipsis))
           else if rest = [] then Some ([], next_ip, ellipsis)
           else if hd rest \<noteq> CHR '':'' \<or> tl rest = [] then None
           else if hd (tl rest) = CHR '':'' then
             (if ellipsis \<noteq> None then None
              else if tl (tl rest) = [] then Some ([], next_ip, Some (length next_ip))
              else v6_loop (tl (tl rest)) next_ip (Some (length next_ip)))
           else v6_loop (tl rest) next_ip ellipsis)"
  by pat_completeness auto

termination
proof (relation "measure (\<lambda>(s, ip, e). length s)", goal_cases)
  case (2 s ip ellipsis digits rest next_ip)
  then have "length (tl rest) < length s"
    using dropWhile_tl_shorter [of is_nibble s] by (simp del: length_tl)
  moreover have "length (tl (tl rest)) \<le> length (tl rest)" by simp
  ultimately show ?case by simp
next
  case (3 s ip ellipsis digits rest next_ip)
  then show ?case using dropWhile_tl_shorter [of is_nibble s] by (simp del: length_tl)
qed simp

declare v6_loop.simps [simp del]

definition parseIPv6 :: "string \<Rightarrow> nat list option" where
  "parseIPv6 s =
     (if CHR ''%'' \<in> set s then None
      else if s = ''::'' then Some (replicate 16 0)
      else
        (case (if prefix ''::'' s then v6_loop (drop 2 s) [] (Some 0) else v6_loop s [] None) of
           None \<Rightarrow> None
         | Some (rest, ip, ellipsis) \<Rightarrow>
             if rest \<noteq> [] then None
             else if length ip < 16 then
               (case ellipsis of None \<Rightarrow> None
                | Some e \<Rightarrow> Some (take e ip @ replicate (16 - length ip) 0 @ drop e ip))
             else if ellipsis \<noteq> None then None
             else Some ip))"

datatype addr = V4 "nat list" | V6 "nat list"

definition ParseAddr :: "string \<Rightarrow> addr option" where
  "ParseAddr s =
     (case List.find (\<lambda>c. c = CHR ''.'' \<or> c = CHR '':'' \<or> c = CHR ''%'') s of
        None \<Rightarrow> None
      | Some c \<Rightarrow>
          if c = CHR ''.'' then map_option V4 (parseIPv4 s)
          else if c = CHR '':'' then map_option V6 (parseIPv6 s)
          else None)"

definition To4 :: "addr \<Rightarrow> nat list option" where
  "To4 a =
     (case a of V4 b \<Rightarrow> Some b
      | V6 b \<Rightarrow> if take 12 b = replicate 10 0 @ [255, 255] then Some (drop 12 b) else None)"

fun BitLen :: "addr \<Rightarrow> nat" where
  "BitLen (V4 b) = 32"
| "BitLen (V6 b) = 128"

definition show_v4 :: "nat list \<Rightarrow> string" where
  "show_v4 b = concat (case map show_nat b of [] \<Rightarrow> [] | x # xs \<Rightarrow> x # map (\<lambda>y. CHR ''.'' # y) xs)"

definition ParseCIDR :: "string \<Rightarrow> (addr \<times> nat) option" where
  "ParseCIDR s =
     (case cut_at CHR ''/'' s of
        None \<Rightarrow> None
      | Some (a, bits) \<Rightarrow>
          (case ParseAddr a of
             None \<Rightarrow> None
           | Some ip \<Rightarrow>
               if bits \<noteq> [] \<and> list_all is_digit bits \<and> read_digits bits \<le> BitLen ip
               then Some (ip, read_digits bits) else None))"

section \<open>Destinations\<close>

datatype line_error =
    NotAnAddress string
  | NotARange string
  | AddressAmongDomains string
  | NotADomain string
  | GeoIPAmongDomains string
  | BadGeosite string
  | GeositeAmongAddresses string
  | BadGeoIP string

definition cidr_line :: "string \<Rightarrow> (line_error, string list) result" where
  "cidr_line raw =
     (let line = trim_space raw
      in if line = [] then Inr []
         else
           bind_result
             (if CHR ''/'' \<in> set line then Inr line
              else (case ParseAddr line of
                      None \<Rightarrow> Inl (NotAnAddress line)
                    | Some ip \<Rightarrow> Inr (case To4 ip of Some v4 \<Rightarrow> show_v4 v4 @ ''/32'' | None \<Rightarrow> line @ ''/128'')))
             (\<lambda>line. if ParseCIDR line = None then Inl (NotARange line) else Inr [line]))"

definition ParseCIDRLines :: "string \<Rightarrow> (line_error, string list) result" where
  "ParseCIDRLines text = each_line cidr_line (split_on CHR 0x0A text)"

definition domain_char :: "char \<Rightarrow> bool" where
  "domain_char c \<longleftrightarrow> is_lower c \<or> is_digit c \<or> c = CHR ''-'' \<or> c = CHR ''_''"

definition domainSuffixShaped :: "string \<Rightarrow> bool" where
  "domainSuffixShaped s \<longleftrightarrow> list_all (\<lambda>label. label \<noteq> [] \<and> list_all domain_char label) (split_on CHR ''.'' s)"

definition kelvin_sign :: string where "kelvin_sign = [CHR 0xE2, CHR 0x84, CHR 0xAA]"
definition dotted_i :: string where "dotted_i = [CHR 0xC4, CHR 0xB0]"

function ToLower :: "string \<Rightarrow> string" where
  "ToLower s =
     (if s = [] then []
      else if prefix kelvin_sign s then CHR ''k'' # ToLower (drop 3 s)
      else if prefix dotted_i s then CHR ''i'' # ToLower (drop 2 s)
      else lower_char (hd s) # ToLower (tl s))"
  by pat_completeness auto
termination
  by (relation "measure length") (auto simp: kelvin_sign_def dotted_i_def prefix_def)

declare ToLower.simps [simp del]

definition domain_line :: "string \<Rightarrow> (line_error, string list) result" where
  "domain_line raw =
     (let line = trim_prefix ''.'' (trim_prefix ''*.'' (trim_space raw))
      in if line = [] then Inr []
         else
           let line = ToLower line
           in if ParseAddr line \<noteq> None then Inl (AddressAmongDomains line)
              else if \<not> domainSuffixShaped line then Inl (NotADomain line)
              else Inr [line])"

definition ParseDomainLines :: "string \<Rightarrow> (line_error, string list) result" where
  "ParseDomainLines text = each_line domain_line (split_on CHR 0x0A text)"

section \<open>Matches of egress rules\<close>

datatype geo_kind = Geosite | Geoip | Ext

definition isGeoCategory :: "string \<Rightarrow> geo_kind option" where
  "isGeoCategory v =
     (if prefix ''geosite:'' v then Some Geosite
      else if prefix ''geoip:'' v then Some Geoip
      else if prefix ''ext:'' v then Some Ext
      else None)"

definition geo_tag_char :: "char \<Rightarrow> bool" where
  "geo_tag_char c \<longleftrightarrow> is_alnum c \<or> c \<in> {CHR ''-'', CHR ''_'', CHR ''.'', CHR '':'', CHR ''@''}"

definition validGeoTag :: "string \<Rightarrow> bool" where
  "validGeoTag v =
     (let tag = (case cut_at CHR '':'' v of None \<Rightarrow> v | Some (_, t) \<Rightarrow> t)
      in tag \<noteq> [] \<and> list_all geo_tag_char tag)"

text \<open>\<open>strings.Replace(line, ":!", ":", 1)\<close>.\<close>

fun drop_negation :: "string \<Rightarrow> string" where
  "drop_negation [] = []"
| "drop_negation (c # s) =
     (if c = CHR '':'' \<and> s \<noteq> [] \<and> hd s = CHR ''!'' then c # tl s else c # drop_negation s)"

definition egress_domain_line :: "string \<Rightarrow> (line_error, string list) result" where
  "egress_domain_line raw =
     (let line = trim_space raw
      in if line = [] then Inr []
         else
           (case isGeoCategory line of
              Some kind \<Rightarrow>
                if kind = Geoip then Inl (GeoIPAmongDomains line)
                else if \<not> validGeoTag line then Inl (BadGeosite line)
                else Inr [line]
            | None \<Rightarrow> bind_result (ParseDomainLines line) (\<lambda>suffix. Inr (map ((@) ''domain:'') suffix))))"

definition ParseEgressDomains :: "string \<Rightarrow> (line_error, string list) result" where
  "ParseEgressDomains text = each_line egress_domain_line (split_on CHR 0x0A text)"

definition egress_ip_line :: "string \<Rightarrow> (line_error, string list) result" where
  "egress_ip_line raw =
     (let line = trim_space raw
      in if line = [] then Inr []
         else
           (case isGeoCategory line of
              Some kind \<Rightarrow>
                if kind = Geosite then Inl (GeositeAmongAddresses line)
                else if \<not> validGeoTag (drop_negation line) then Inl (BadGeoIP line)
                else Inr [line]
            | None \<Rightarrow> ParseCIDRLines line))"

definition ParseEgressIPs :: "string \<Rightarrow> (line_error, string list) result" where
  "ParseEgressIPs text = each_line egress_ip_line (split_on CHR 0x0A text)"

section \<open>Lemmas on lines\<close>

definition graphic :: "char \<Rightarrow> bool" where
  "graphic c \<longleftrightarrow> CHR 0x21 \<le> c \<and> c \<le> CHR 0x7E"

lemma space_runes_not_graphic:
  "list_all (\<lambda>r. \<not> graphic (hd r)) space_runes" "list_all (\<lambda>r. \<not> graphic (hd r)) (map rev space_runes)"
  by code_simp+

lemma strip_rune_graphic:
  assumes "list_all (\<lambda>r. \<not> graphic (hd r)) rs" and "s = [] \<or> graphic (hd s)"
  shows "strip_rune rs s = None"
proof -
  have "\<not> (r \<noteq> [] \<and> prefix r s)" if "r \<in> set rs" for r
  proof
    assume r: "r \<noteq> [] \<and> prefix r s"
    then have "hd r = hd s" "s \<noteq> []" by (auto simp: prefix_def hd_append)
    with assms that show False by (auto simp: list_all_iff)
  qed
  then show ?thesis by (auto simp: strip_rune_def find_None_iff split: option.splits dest!: find_Some_iff [THEN iffD1] nth_mem)
qed

lemma trim_space_graphic:
  assumes "\<forall>c\<in>set s. graphic c"
  shows "trim_space s = s"
proof (cases "s = []")
  case False
  have "trim_front space_runes s = s"
    using assms False by (intro trim_front_none strip_rune_graphic space_runes_not_graphic) auto
  moreover have "trim_front (map rev space_runes) (rev s) = rev s"
    using assms False by (intro trim_front_none strip_rune_graphic space_runes_not_graphic) (auto simp: hd_rev)
  ultimately show ?thesis by (simp add: trim_space_def)
qed (simp add: trim_space_id)

definition plain_line :: "string \<Rightarrow> bool" where
  "plain_line l \<longleftrightarrow> l \<noteq> [] \<and> trim_space l = l \<and> CHR 0x0A \<notin> set l"

lemma plain_lineI: "l \<noteq> [] \<Longrightarrow> \<forall>c\<in>set l. graphic c \<Longrightarrow> plain_line l"
  by (auto simp: plain_line_def trim_space_graphic graphic_def)

lemma split_joined:
  "CHR 0x0A \<notin> set l \<Longrightarrow> list_all plain_line ls \<Longrightarrow>
     split_on CHR 0x0A (l @ concat (map (\<lambda>x. CHR 0x0A # x) ls)) = l # ls"
proof (induction ls arbitrary: l)
  case Nil
  then show ?case by (simp add: split_on_no_sep)
next
  case (Cons x ls)
  then show ?case by (simp add: split_on_append_sep plain_line_def)
qed

lemma split_joinLines: "list_all plain_line ls \<Longrightarrow> split_on CHR 0x0A (joinLines ls) = (if ls = [] then [[]] else ls)"
  using split_joined by (cases ls) (auto simp: joinLines_def plain_line_def)

lemma splitLines_joinLines:
  assumes "list_all plain_line ls"
  shows "splitLines (joinLines ls) = ls"
proof -
  have "map trim_space xs = xs" "filter (\<lambda>l. l \<noteq> []) xs = xs" if "list_all plain_line xs" for xs
    using that by (induction xs) (auto simp: plain_line_def)
  then show ?thesis using assms by (simp add: splitLines_def split_joinLines trim_space_id)
qed

lemma joinLines_empty: "joinLines ls = [] \<longleftrightarrow> ls = [] \<or> ls = [[]]"
  by (cases ls) (auto simp: joinLines_def)

lemma splitLines_nonempty: "l \<in> set (splitLines v) \<Longrightarrow> l \<noteq> []"
  by (simp add: splitLines_def)

lemma joinLines_splitLines_empty: "joinLines (splitLines v) = [] \<Longrightarrow> splitLines v = []"
  using splitLines_nonempty [of "[]" v] by (auto simp: joinLines_empty)

lemma each_line_out:
  "each_line f ls = Inr out \<Longrightarrow> o' \<in> set out \<Longrightarrow> \<exists>l\<in>set ls. \<exists>os. f l = Inr os \<and> o' \<in> set os"
  by (induction ls arbitrary: out) (auto simp: bind_result_eq_Inr)

lemma each_line_fixed: "(\<And>l. l \<in> set ls \<Longrightarrow> f l = Inr [l]) \<Longrightarrow> each_line f ls = Inr ls"
  by (induction ls) simp_all

text \<open>A parser whose every output is a plain line it maps to itself accepts its own output unchanged.\<close>

locale line_parser =
  fixes f :: "string \<Rightarrow> ('e, string list) result"
  assumes blank: "f [] = Inr []"
    and out_fixed: "f l = Inr os \<Longrightarrow> o' \<in> set os \<Longrightarrow> plain_line o' \<and> f o' = Inr [o']"
begin

lemma out_plain: "each_line f ls = Inr out \<Longrightarrow> list_all plain_line out"
  using each_line_out [of f ls out] out_fixed by (auto simp: list_all_iff)

lemma stable:
  assumes "each_line f ls = Inr out"
  shows "each_line f (split_on CHR 0x0A (joinLines out)) = Inr out"
proof (cases "out = []")
  case True
  then show ?thesis by (simp add: joinLines_def blank)
next
  case False
  have "f l = Inr [l]" if "l \<in> set out" for l using each_line_out [OF assms that] out_fixed by blast
  with False show ?thesis by (simp add: split_joinLines [OF out_plain [OF assms]] each_line_fixed)
qed

lemma stored: "each_line f ls = Inr out \<Longrightarrow> splitLines (joinLines out) = out"
  by (rule splitLines_joinLines [OF out_plain])

end

section \<open>Lemmas on addresses\<close>

definition addr_char :: "char \<Rightarrow> bool" where
  "addr_char c \<longleftrightarrow> graphic c \<and> c \<noteq> CHR ''/''"

lemma split_on_chars: "set s \<subseteq> insert c (\<Union> (set ` set (split_on c s)))"
proof (induction s)
  case (Cons x s)
  then show ?case by (cases "split_on c s") auto
qed simp

lemma those_SomeD: "those xs = Some ys \<Longrightarrow> list_all2 (\<lambda>x y. x = Some y) xs ys"
  by (induction xs arbitrary: ys) (auto split: option.splits)

lemma list_all2_left: "list_all2 P xs ys \<Longrightarrow> x \<in> set xs \<Longrightarrow> \<exists>y. P x y"
  by (metis in_set_conv_nth list_all2_conv_all_nth)

lemma is_digit_addr: "is_digit c \<Longrightarrow> addr_char c"
  by (auto simp: is_digit_def addr_char_def graphic_def less_eq_char_def)

lemma is_nibble_addr: "is_nibble c \<Longrightarrow> addr_char c"
  by (auto simp: is_nibble_def nibble_def is_digit_def addr_char_def graphic_def less_eq_char_def split: if_splits)

lemma parseIPv4_chars:
  assumes "parseIPv4 s = Some b"
  shows "\<forall>c\<in>set s. addr_char c"
proof -
  obtain bs where "those (map octet (split_on CHR ''.'' s)) = Some bs"
    using assms by (auto simp: parseIPv4_def split: option.splits)
  then have "list_all2 (\<lambda>x y. x = Some y) (map octet (split_on CHR ''.'' s)) bs" by (rule those_SomeD)
  then have "octet l \<noteq> None" if "l \<in> set (split_on CHR ''.'' s)" for l
    using that list_all2_left [of _ "map octet (split_on CHR ''.'' s)" bs "octet l"] by auto
  then have "l \<in> set (split_on CHR ''.'' s) \<Longrightarrow> c \<in> set l \<Longrightarrow> addr_char c" for l c
    by (fastforce simp: octet_def list_all_iff is_digit_addr split: if_splits)
  moreover have "addr_char CHR ''.''" by code_simp
  ultimately show ?thesis using split_on_chars [of s "CHR ''.''"] by blast
qed

lemma addr_colon: "addr_char CHR '':''"
  by code_simp

lemma v6_loop_chars:
  "v6_loop s ip e = Some ([], ip', e') \<Longrightarrow> \<forall>c\<in>set s. addr_char c"
proof (induction s ip e rule: v6_loop.induct)
  case (1 s ip e)
  let ?d = "takeWhile is_nibble s" and ?r = "dropWhile is_nibble s"
  have split: "s = ?d @ ?r" by simp
  have digits: "\<forall>c\<in>set ?d. addr_char c" using is_nibble_addr by (auto dest: set_takeWhileD)
  show ?case
  proof (cases "16 \<le> length ip")
    case True
    with "1.prems" show ?thesis by (simp add: v6_loop.simps)
  next
    case short: False
    have ok: "\<not> (?d = [] \<or> 4 < length ?d)"
      using "1.prems" short by (subst (asm) v6_loop.simps) (auto simp: Let_def split: if_splits)
    consider "?r = []" | "?r \<noteq> []" "hd ?r = CHR ''.''" | "?r \<noteq> []" "hd ?r \<noteq> CHR ''.''" by blast
    then show ?thesis
    proof cases
      case 1
      with split have "set s = set ?d" by (metis append_Nil2)
      with digits show ?thesis by simp
    next
      case 2
      with "1.prems" short ok obtain quad where "parseIPv4 s = Some quad"
        by (subst (asm) v6_loop.simps) (auto simp: Let_def split: if_splits option.splits)
      then show ?thesis by (rule parseIPv4_chars)
    next
      case 3
      with "1.prems" short ok have colon: "hd ?r = CHR '':''" "tl ?r \<noteq> []"
        by (subst (asm) v6_loop.simps, auto simp: Let_def split: if_splits)+
      from 3(1) colon(1) have r: "?r = CHR '':'' # tl ?r" by (metis list.collapse)
      have "\<forall>c\<in>set (tl ?r). addr_char c"
      proof (cases "hd (tl ?r) = CHR '':''")
        case True
        have r2: "tl ?r = CHR '':'' # tl (tl ?r)" using colon(2) True by (metis list.collapse)
        have "\<forall>c\<in>set (tl (tl ?r)). addr_char c"
        proof (cases "tl (tl ?r) = []")
          case False
          have none: "e = None" using "1.prems" short ok 3 colon True
            by (subst (asm) v6_loop.simps) (simp add: Let_def del: dropWhile_eq_Nil_conv split: if_splits)
          from "1.prems" short ok 3 colon True False none
          have "v6_loop (tl (tl ?r)) (ip @ [hex_value ?d div 256, hex_value ?d mod 256])
              (Some (length (ip @ [hex_value ?d div 256, hex_value ?d mod 256]))) = Some ([], ip', e')"
            by (subst (asm) v6_loop.simps) (simp add: Let_def del: dropWhile_eq_Nil_conv)
          with "1.IH"(1) [OF short refl refl refl] ok 3 colon True False none show ?thesis by simp
        qed simp
        with r2 addr_colon show ?thesis by (metis set_ConsD)
      next
        case False
        from "1.prems" short ok 3 colon False
        have "v6_loop (tl ?r) (ip @ [hex_value ?d div 256, hex_value ?d mod 256]) e = Some ([], ip', e')"
          by (subst (asm) v6_loop.simps) (simp add: Let_def del: dropWhile_eq_Nil_conv)
        with "1.IH"(2) [OF short refl refl refl] ok 3 colon False show ?thesis by simp
      qed
      with r addr_colon digits split show ?thesis by (metis Un_iff set_ConsD set_append)
    qed
  qed
qed

lemma parseIPv6_chars:
  assumes "parseIPv6 s = Some b"
  shows "\<forall>c\<in>set s. addr_char c"
proof (cases "s = ''::''")
  case True
  then show ?thesis by (simp add: addr_colon)
next
  case False
  show ?thesis
  proof (cases "prefix ''::'' s")
    case True
    then obtain t where s: "s = ''::'' @ t" by (auto simp: prefix_def)
    with assms False obtain ip e where "v6_loop t [] (Some 0) = Some ([], ip, e)"
      by (auto simp: parseIPv6_def split: if_splits option.splits prod.splits)
    from v6_loop_chars [OF this] s show ?thesis by (simp add: addr_colon)
  next
    case no: False
    with assms False obtain ip e where "v6_loop s [] None = Some ([], ip, e)"
      by (auto simp: parseIPv6_def split: if_splits option.splits prod.splits)
    then show ?thesis by (rule v6_loop_chars)
  qed
qed

lemma ParseAddr_chars: "ParseAddr s = Some a \<Longrightarrow> \<forall>c\<in>set s. addr_char c"
  using parseIPv4_chars parseIPv6_chars by (auto simp: ParseAddr_def split: option.splits if_splits)

lemma cut_at_Some: "cut_at c s = Some (a, b) \<Longrightarrow> s = a @ c # b"
proof -
  assume cut: "cut_at c s = Some (a, b)"
  then have "c \<in> set s" "a = takeWhile (\<lambda>x. x \<noteq> c) s" "b = tl (dropWhile (\<lambda>x. x \<noteq> c) s)"
    by (auto simp: cut_at_def split: if_splits)
  moreover from this(1) have "dropWhile (\<lambda>x. x \<noteq> c) s = c # tl (dropWhile (\<lambda>x. x \<noteq> c) s)"
    by (induction s) auto
  ultimately show ?thesis using takeWhile_dropWhile_id [of "\<lambda>x. x \<noteq> c" s] by simp
qed

lemma ParseCIDR_chars:
  assumes "ParseCIDR s = Some r"
  shows "\<forall>c\<in>set s. graphic c" and "CHR ''/'' \<in> set s"
proof -
  obtain a bits where cut: "cut_at CHR ''/'' s = Some (a, bits)"
    using assms by (cases "cut_at CHR ''/'' s") (auto simp: ParseCIDR_def)
  from cut_at_Some [OF cut] have s: "s = a @ CHR ''/'' # bits" .
  obtain ip where "ParseAddr a = Some ip" "list_all is_digit bits"
    using assms cut by (auto simp: ParseCIDR_def split: option.splits if_splits)
  moreover have "graphic CHR ''/''" by code_simp
  ultimately show "\<forall>c\<in>set s. graphic c"
    using ParseAddr_chars is_digit_addr by (auto simp: s list_all_iff addr_char_def)
  show "CHR ''/'' \<in> set s" by (simp add: s)
qed

lemma cidr_line_fixed:
  assumes "ParseCIDR l \<noteq> None"
  shows "plain_line l" and "cidr_line l = Inr [l]"
proof -
  from assms obtain r where r: "ParseCIDR l = Some r" by blast
  note chars = ParseCIDR_chars [OF r]
  have "l \<noteq> []" using chars(2) by auto
  then show "plain_line l" using chars(1) by (rule plain_lineI)
  show "cidr_line l = Inr [l]"
    using \<open>l \<noteq> []\<close> chars(2) trim_space_graphic [OF chars(1)] r by (simp add: cidr_line_def)
qed

lemma cidr_line_out: "cidr_line l = Inr os \<Longrightarrow> o' \<in> set os \<Longrightarrow> ParseCIDR o' \<noteq> None"
  by (auto simp: cidr_line_def Let_def bind_result_eq_Inr split: if_splits)

interpretation cidrs: line_parser cidr_line
proof
  show "cidr_line [] = Inr []" by (simp add: cidr_line_def trim_space_id)
qed (use cidr_line_out cidr_line_fixed in blast)

section \<open>Lemmas on domains\<close>

lemma domain_char_graphic: "domain_char c \<Longrightarrow> graphic c \<and> c \<noteq> CHR ''*'' \<and> c \<noteq> CHR ''.'' \<and> c \<noteq> CHR '':''"
  by (auto simp: domain_char_def is_lower_def is_digit_def graphic_def less_eq_char_def)

lemma domain_char_not_upper: "domain_char c \<Longrightarrow> \<not> is_upper c \<and> c < CHR 0x80"
proof -
  assume "domain_char c"
  then have "c \<le> CHR ''z''" "\<not> is_upper c"
    by (auto simp: domain_char_def is_lower_def is_digit_def is_upper_def less_eq_char_def)
  then show ?thesis by (simp add: order_le_less_trans)
qed

lemma shaped_chars:
  assumes "domainSuffixShaped s"
  shows "\<forall>c\<in>set s. domain_char c \<or> c = CHR ''.''" and "s \<noteq> []" and "hd s \<noteq> CHR ''.''"
proof -
  show "\<forall>c\<in>set s. domain_char c \<or> c = CHR ''.''"
    using assms split_on_chars [of s "CHR ''.''"] by (fastforce simp: domainSuffixShaped_def list_all_iff)
  show "s \<noteq> []" using assms by (auto simp: domainSuffixShaped_def)
  show "hd s \<noteq> CHR ''.''" using assms by (cases s) (auto simp: domainSuffixShaped_def)
qed

lemma ToLower_id: "\<forall>c\<in>set s. \<not> is_upper c \<and> c < CHR 0x80 \<Longrightarrow> ToLower s = s"
proof (induction s rule: ToLower.induct)
  case (1 s)
  show ?case
  proof (cases s)
    case (Cons c t)
    with 1(4) have "\<not> prefix kelvin_sign s" "\<not> prefix dotted_i s" "lower_char c = c"
      by (auto simp: kelvin_sign_def dotted_i_def lower_char_def)
    with 1 Cons show ?thesis by (simp add: ToLower.simps [of "c # t"])
  qed (simp add: ToLower.simps)
qed

lemma domain_line_out:
  assumes "domain_line l = Inr os" and "o' \<in> set os"
  shows "domainSuffixShaped o' \<and> ParseAddr o' = None"
  using assms by (auto simp: domain_line_def Let_def split: if_splits)

lemma domain_line_fixed:
  assumes "domainSuffixShaped l" and "ParseAddr l = None"
  shows "plain_line l" and "domain_line l = Inr [l]"
proof -
  note chars = shaped_chars [OF assms(1)]
  have dot: "graphic CHR ''.''" "\<not> is_upper CHR ''.''" "CHR ''.'' < CHR 0x80" by code_simp+
  have graphic: "\<forall>c\<in>set l. graphic c" using chars(1) domain_char_graphic dot(1) by blast
  have star: "CHR ''*'' \<notin> set l" using chars(1) domain_char_graphic by fastforce
  show "plain_line l" using chars(2) graphic by (rule plain_lineI)
  have "\<not> prefix ''*.'' l" "\<not> prefix ''.'' l"
    using star chars(3) by (auto simp: prefix_def)
  then have strip: "trim_prefix ''.'' (trim_prefix ''*.'' (trim_space l)) = l"
    by (simp add: trim_space_graphic [OF graphic] trim_prefix_def)
  have lower: "ToLower l = l" using chars(1) domain_char_not_upper dot(2,3) by (intro ToLower_id) blast
  show "domain_line l = Inr [l]"
    using assms chars(2) by (simp add: domain_line_def strip lower Let_def)
qed

interpretation domains: line_parser domain_line
proof
  show "domain_line [] = Inr []" by (simp add: domain_line_def trim_space_id trim_prefix_def)
qed (use domain_line_out domain_line_fixed in blast)

section \<open>Properties\<close>

text \<open>What the parsers of a restricted destination accept is stable: the stored lists read back as they were
  written, and the displayed lines, saved again, are accepted unchanged. Every accepted address line is a
  range, and every accepted domain is a suffix of hostname labels that is not an address.\<close>

theorem destination_lines_stable:
  assumes "ParseCIDRLines cidrs = Inr cs" and "ParseDomainLines domains = Inr ds"
  shows "splitLines (joinLines cs) = cs \<and> splitLines (joinLines ds) = ds
    \<and> ParseCIDRLines (joinLines cs) = Inr cs \<and> ParseDomainLines (joinLines ds) = Inr ds
    \<and> list_all (\<lambda>c. ParseCIDR c \<noteq> None) cs \<and> list_all (\<lambda>d. domainSuffixShaped d \<and> ParseAddr d = None) ds"
proof -
  note c = assms(1) [unfolded ParseCIDRLines_def] and d = assms(2) [unfolded ParseDomainLines_def]
  have "list_all (\<lambda>c. ParseCIDR c \<noteq> None) cs"
    using each_line_out [OF c] cidr_line_out by (fastforce simp: list_all_iff)
  moreover have "list_all (\<lambda>d. domainSuffixShaped d \<and> ParseAddr d = None) ds"
    using each_line_out [OF d] domain_line_out by (fastforce simp: list_all_iff)
  ultimately show ?thesis
    using cidrs.stored [OF c] cidrs.stable [OF c] domains.stored [OF d] domains.stable [OF d]
    by (simp add: ParseCIDRLines_def ParseDomainLines_def)
qed

theorem destination_lines_stable_witness:
  "ParseCIDRLines (joinLines [''10.0.0.0/8'', ''::1/128'']) = Inr [''10.0.0.0/8'', ''::1/128'']
    \<and> ParseDomainLines (joinLines [''dn42'']) = Inr [''dn42'']"
proof -
  have "ParseCIDRLines (joinLines [''10.0.0.0/8'', '' ::1 '']) = Inr [''10.0.0.0/8'', ''::1/128'']"
    "ParseDomainLines ''*.DN42'' = Inr [''dn42'']"
    by code_simp+
  from destination_lines_stable [OF this] show ?thesis by simp
qed

lemma split_show_v4:
  assumes "length b = 4"
  shows "split_on CHR ''.'' (show_v4 b) = map show_nat b"
proof -
  from assms obtain p q r s where b: "b = [p, q, r, s]" by (auto simp: length_Suc_conv numeral_eq_Suc)
  have dot: "CHR ''.'' \<notin> set (show_nat n)" for n by (rule show_nat_no_char) code_simp
  show ?thesis by (simp add: b show_v4_def split_on_append_sep split_on_no_sep dot)
qed

lemma show_nat_leading: "length (show_nat n) = 1 \<or> hd (show_nat n) \<noteq> CHR ''0''"
proof (induction n rule: show_nat.induct)
  case (1 n)
  show ?case
  proof (cases "n < 10")
    case False
    let ?m = "n div 10"
    have "hd (show_nat n) = hd (show_nat ?m)" using False by (subst show_nat.simps) simp
    moreover have "hd (show_nat ?m) \<noteq> CHR ''0''"
    proof (cases "?m < 10")
      case True
      have "?m \<noteq> 0" using False by simp
      have "digit_char ?m \<noteq> digit_char 0"
        using True \<open>?m \<noteq> 0\<close> digit_val_char [of ?m] digit_val_char [of 0] by (metis zero_less_numeral)
      moreover have "digit_char 0 = CHR ''0''" by code_simp
      ultimately show ?thesis using True by (subst show_nat.simps) simp
    next
      case big: False
      have "length (show_nat ?m) \<noteq> 1"
        using big by (subst show_nat.simps) (simp add: show_nat_nonempty)
      with 1 False show ?thesis by simp
    qed
    ultimately show ?thesis by simp
  qed (subst show_nat.simps, simp)
qed

lemma octet_show_nat: "n < 256 \<Longrightarrow> octet (show_nat n) = Some n"
  using show_nat_leading [of n] by (simp add: octet_def show_nat_digits)

lemma parse_show_v4:
  assumes "length b = 4" and "list_all (\<lambda>n. n < 256) b"
  shows "parseIPv4 (show_v4 b) = Some b"
proof -
  have "map octet (map show_nat b) = map Some b"
    using assms(2) by (auto simp: list_all_iff octet_show_nat)
  moreover have "those (map Some b) = Some b" by (induction b) simp_all
  ultimately show ?thesis using assms(1) by (simp add: parseIPv4_def split_show_v4 del: map_map)
qed

lemma octet_bound: "octet s = Some n \<Longrightarrow> n < 256"
  by (auto simp: octet_def split: if_splits)

lemma parseIPv4_bytes:
  assumes "parseIPv4 s = Some b"
  shows "length b = 4" and "list_all (\<lambda>n. n < 256) b"
proof -
  from assms have those: "those (map octet (split_on CHR ''.'' s)) = Some b" and len: "length b = 4"
    by (auto simp: parseIPv4_def split: option.splits if_splits)
  show "length b = 4" by (rule len)
  from those_SomeD [OF those] have "\<exists>l. octet l = Some n" if "n \<in> set b" for n
    using that by (auto simp: list_all2_conv_all_nth in_set_conv_nth)
  then show "list_all (\<lambda>n. n < 256) b" using octet_bound by (auto simp: list_all_iff)
qed

lemma hex_value_bytes:
  assumes "length d \<le> 4" and "\<forall>c\<in>set d. is_nibble c"
  shows "hex_value d div 256 < 256"
proof -
  have nib: "(case nibble c of None \<Rightarrow> 0 | Some v \<Rightarrow> v) \<le> 15" for c
    by (auto simp: nibble_def is_digit_def digit_val_def less_eq_char_def split: option.splits if_splits)
  have "foldl (\<lambda>n c. 16 * n + (case nibble c of None \<Rightarrow> 0 | Some v \<Rightarrow> v)) a d < (a + 1) * 16 ^ length d" for a
  proof (induction d arbitrary: a)
    case (Cons c d)
    let ?v = "case nibble c of None \<Rightarrow> 0 | Some v \<Rightarrow> v"
    from Cons [of "16 * a + ?v"]
    have "foldl (\<lambda>n c. 16 * n + (case nibble c of None \<Rightarrow> 0 | Some v \<Rightarrow> v)) a (c # d) < (16 * a + ?v + 1) * 16 ^ length d"
      by simp
    also have "\<dots> \<le> (16 * (a + 1)) * 16 ^ length d" using nib [of c] by (intro mult_right_mono) simp_all
    also have "\<dots> = (a + 1) * 16 ^ length (c # d)" by (simp add: algebra_simps)
    finally show ?case .
  qed simp
  from this [of 0] have "hex_value d < 16 ^ length d" by (simp add: hex_value_def)
  also have "\<dots> \<le> 16 ^ 4" using assms(1) by (intro power_increasing) simp_all
  finally show ?thesis by simp
qed

definition v6_bytes :: "nat list \<Rightarrow> bool" where
  "v6_bytes ip \<longleftrightarrow> even (length ip) \<and> length ip \<le> 16 \<and> list_all (\<lambda>n. n < 256) ip"

lemma v6_bytes_group:
  assumes "v6_bytes ip" and "\<not> 16 \<le> length ip" and "length d \<le> 4" and "\<forall>c\<in>set d. is_nibble c"
  shows "v6_bytes (ip @ [hex_value d div 256, hex_value d mod 256])"
proof -
  have "length ip \<noteq> 15" using assms(1) by (auto simp: v6_bytes_def)
  with assms hex_value_bytes [OF assms(3,4)] show ?thesis by (simp add: v6_bytes_def)
qed

lemma v6_loop_bytes: "v6_loop s ip e = Some (r, ip', e') \<Longrightarrow> v6_bytes ip \<Longrightarrow> v6_bytes ip'"
proof (induction s ip e rule: v6_loop.induct)
  case (1 s ip e)
  let ?d = "takeWhile is_nibble s" and ?r = "dropWhile is_nibble s"
  let ?next = "ip @ [hex_value ?d div 256, hex_value ?d mod 256]"
  show ?case
  proof (cases "16 \<le> length ip")
    case True
    with "1.prems" show ?thesis by (simp add: v6_loop.simps)
  next
    case short: False
    note run = "1.prems"(1) [unfolded v6_loop.simps [of s ip e] Let_def]
    have ok: "\<not> (?d = [] \<or> 4 < length ?d)" using run short by (auto split: if_splits)
    have grown: "v6_bytes ?next"
      using "1.prems"(2) short ok by (intro v6_bytes_group) (auto dest: set_takeWhileD)
    show ?thesis
    proof (cases "?r \<noteq> [] \<and> hd ?r = CHR ''.''")
      case True
      with run short ok obtain quad where "parseIPv4 s = Some quad" "ip' = ip @ quad" "length ip + 4 \<le> 16"
        by (auto simp del: dropWhile_eq_Nil_conv split: if_splits option.splits)
      with parseIPv4_bytes [of s quad] "1.prems"(2) show ?thesis by (simp add: v6_bytes_def)
    next
      case dot: False
      consider (fin) "ip' = ?next"
        | (ell) "?r \<noteq> []" "hd ?r = CHR '':''" "tl ?r \<noteq> []" "hd (tl ?r) = CHR '':''" "e = None" "tl (tl ?r) \<noteq> []"
            "v6_loop (tl (tl ?r)) ?next (Some (length ?next)) = Some (r, ip', e')"
        | (more) "?r \<noteq> []" "hd ?r = CHR '':''" "tl ?r \<noteq> []" "hd (tl ?r) \<noteq> CHR '':''" "v6_loop (tl ?r) ?next e = Some (r, ip', e')"
        using run short ok dot by (auto simp del: dropWhile_eq_Nil_conv takeWhile_eq_Nil_iff split: if_splits)
      then show ?thesis
      proof cases
        case fin
        with grown show ?thesis by simp
      next
        case ell
        from "1.IH"(1) [OF short refl refl refl ok dot _ _ ell(4) _ ell(6,7) grown] ell(1,2,3,5) show ?thesis by simp
      next
        case more
        from "1.IH"(2) [OF short refl refl refl ok dot _ _ more(4,5) grown] more(1,2,3) show ?thesis by simp
      qed
    qed
  qed
qed

lemma parseIPv6_bytes:
  assumes "parseIPv6 s = Some b"
  shows "length b = 16" and "list_all (\<lambda>n. n < 256) b"
proof -
  have "length b = 16 \<and> list_all (\<lambda>n. n < 256) b"
  proof (cases "s = ''::''")
    case True
    with assms have "b = replicate 16 0" by (simp add: parseIPv6_def)
    then show ?thesis by (simp add: list_all_iff)
  next
    case False
    with assms obtain ip e where run: "(if prefix ''::'' s then v6_loop (drop 2 s) [] (Some 0) else v6_loop s [] None) = Some ([], ip, e)"
      and b: "b = ip \<and> \<not> length ip < 16 \<or> (\<exists>k. length ip < 16 \<and> b = take k ip @ replicate (16 - length ip) 0 @ drop k ip)"
      by (auto simp: parseIPv6_def split: if_splits option.splits prod.splits)
    have "v6_bytes []" by (simp add: v6_bytes_def)
    with run v6_loop_bytes have "v6_bytes ip" by (metis (full_types))
    moreover have "list_all P (take k ip)" "list_all P (drop k ip)" if "list_all P ip" for P :: "nat \<Rightarrow> bool" and k
      using that by (auto simp: list_all_iff dest: in_set_takeD in_set_dropD)
    ultimately show ?thesis using b by (auto simp: v6_bytes_def) (auto simp: list_all_iff)
  qed
  then show "length b = 16" "list_all (\<lambda>n. n < 256) b" by simp_all
qed

lemma To4_bytes:
  assumes "ParseAddr s = Some ip" and "To4 ip = Some v4"
  shows "length v4 = 4" and "list_all (\<lambda>n. n < 256) v4"
proof -
  have "length v4 = 4 \<and> list_all (\<lambda>n. n < 256) v4"
  proof (cases ip)
    case (V4 b)
    with assms have "parseIPv4 s = Some b" "v4 = b"
      by (auto simp: ParseAddr_def To4_def split: option.splits if_splits)
    with parseIPv4_bytes show ?thesis by blast
  next
    case (V6 b)
    with assms have "parseIPv6 s = Some b" "v4 = drop 12 b"
      by (auto simp: ParseAddr_def To4_def split: option.splits if_splits)
    with parseIPv6_bytes [of s b] show ?thesis by (auto simp: list_all_iff dest: in_set_dropD)
  qed
  then show "length v4 = 4" "list_all (\<lambda>n. n < 256) v4" by simp_all
qed

lemma ParseAddr_show_v4:
  assumes "length b = 4" and "list_all (\<lambda>n. n < 256) b"
  shows "ParseAddr (show_v4 b) = Some (V4 b)"
proof -
  from assms(1) obtain p q r s where b: "b = [p, q, r, s]" by (auto simp: length_Suc_conv numeral_eq_Suc)
  have "List.find P (show_nat n @ CHR ''.'' # t) = Some CHR ''.''"
    if "P = (\<lambda>c. c = CHR ''.'' \<or> c = CHR '':'' \<or> c = CHR ''%'')" for P n t
  proof -
    have "\<not> P c" if "is_digit c" for c using that \<open>P = _\<close> by (auto simp: is_digit_def less_eq_char_def)
    then have "\<not> P c" if "c \<in> set (show_nat n)" for c using that show_nat_digits [of n] by (simp add: list_all_iff)
    moreover have "List.find P (xs @ CHR ''.'' # t) = Some CHR ''.''" if "\<forall>c\<in>set xs. \<not> P c" for xs
      using that \<open>P = _\<close> by (induction xs) auto
    ultimately show ?thesis by blast
  qed
  then have "List.find (\<lambda>c. c = CHR ''.'' \<or> c = CHR '':'' \<or> c = CHR ''%'') (show_v4 b) = Some CHR ''.''"
    by (simp add: b show_v4_def)
  with parse_show_v4 [OF assms] show ?thesis by (simp add: ParseAddr_def)
qed

lemma ParseCIDR_host:
  assumes "ParseAddr a = Some ip" and "list_all is_digit bits" and "bits \<noteq> []" and "read_digits bits \<le> BitLen ip"
  shows "ParseCIDR (a @ CHR ''/'' # bits) = Some (ip, read_digits bits)"
proof -
  have "CHR ''/'' \<notin> set a" using ParseAddr_chars [OF assms(1)] by (auto simp: addr_char_def)
  with assms show ?thesis by (simp add: ParseCIDR_def)
qed

text \<open>A bare address is accepted and becomes the range of that one address; an IPv6 form of an IPv4 address
  becomes the range of the IPv4 address it means.\<close>

theorem bare_address_is_host:
  assumes "ParseAddr line = Some ip"
  shows "\<exists>l a. ParseCIDRLines line = Inr [l] \<and> ParseCIDR l = Some (a, BitLen a)
    \<and> (case To4 ip of Some v4 \<Rightarrow> a = V4 v4 | None \<Rightarrow> a = ip)"
proof -
  have addr: "\<forall>c\<in>set line. addr_char c" using ParseAddr_chars [OF assms] .
  have chars: "\<forall>c\<in>set line. graphic c" "CHR ''/'' \<notin> set line" "CHR 0x0A \<notin> set line" "line \<noteq> []"
  proof -
    show "\<forall>c\<in>set line. graphic c" using addr by (simp add: addr_char_def)
    have "\<not> addr_char CHR ''/''" "\<not> addr_char CHR 0x0A" by code_simp+
    then show "CHR ''/'' \<notin> set line" "CHR 0x0A \<notin> set line" using addr by blast+
    show "line \<noteq> []" using assms by (auto simp: ParseAddr_def)
  qed
  have digits: "list_all is_digit ''32''" "list_all is_digit ''128''" "read_digits ''32'' = 32" "read_digits ''128'' = 128"
    by code_simp+
  define l where "l = (case To4 ip of Some v4 \<Rightarrow> show_v4 v4 @ ''/32'' | None \<Rightarrow> line @ ''/128'')"
  define a where "a = (case To4 ip of Some v4 \<Rightarrow> V4 v4 | None \<Rightarrow> ip)"
  have host: "ParseCIDR l = Some (a, BitLen a)"
  proof (cases "To4 ip")
    case None
    then have "BitLen ip = 128" by (cases ip) (simp_all add: To4_def)
    with None ParseCIDR_host [OF assms digits(2)] digits(4) show ?thesis by (simp add: l_def a_def)
  next
    case (Some v4)
    from ParseCIDR_host [OF ParseAddr_show_v4 [OF To4_bytes [OF assms Some]] digits(1)] Some digits(3)
    show ?thesis by (simp add: l_def a_def)
  qed
  have "ParseCIDRLines line = bind_result (cidr_line line) (\<lambda>out. Inr out)"
    by (simp add: ParseCIDRLines_def split_on_no_sep [OF chars(3)])
  also have "\<dots> = Inr [l]"
    using chars(2,4) assms host by (simp add: cidr_line_def trim_space_graphic [OF chars(1)] l_def [symmetric])
  finally show ?thesis using host by (auto simp: a_def split: option.splits)
qed

theorem bare_address_is_host_witness:
  "\<exists>l. ParseCIDRLines ''10.0.0.1'' = Inr [l] \<and> ParseCIDR l = Some (V4 [10, 0, 0, 1], 32)"
proof -
  have addr: "ParseAddr ''10.0.0.1'' = Some (V4 [10, 0, 0, 1])" by code_simp
  from bare_address_is_host [OF addr] show ?thesis by (simp add: To4_def)
qed

lemma is_ok_each_line: "is_ok (each_line f ls) \<longleftrightarrow> (\<forall>l\<in>set ls. is_ok (f l))"
proof (induction ls)
  case (Cons l ls)
  then show ?case by (cases "f l"; cases "each_line f ls") simp_all
qed simp

lemma geo_tag_char_graphic: "geo_tag_char c \<Longrightarrow> graphic c"
  by (auto simp: geo_tag_char_def is_alnum_def is_lower_def is_upper_def is_digit_def graphic_def less_eq_char_def)

lemma graphic_sep: "graphic CHR '':''"
  by code_simp

lemma tagged_plain:
  assumes "validGeoTag l" and "l = p @ CHR '':'' # t" and "CHR '':'' \<notin> set p" and "\<forall>c\<in>set p. graphic c"
  shows "plain_line l"
proof -
  have "\<forall>c\<in>set t. graphic c"
    using assms(1,3) by (simp add: validGeoTag_def assms(2) Let_def list_all_iff geo_tag_char_graphic)
  with assms(4) graphic_sep show ?thesis by (intro plain_lineI) (auto simp: assms(2))
qed

lemma valid_geosite_plain:
  assumes "isGeoCategory l = Some kind" and "validGeoTag l"
  shows "plain_line l"
proof -
  have "(\<exists>t. l = ''geosite'' @ CHR '':'' # t) \<or> (\<exists>t. l = ''geoip'' @ CHR '':'' # t) \<or> (\<exists>t. l = ''ext'' @ CHR '':'' # t)"
    using assms(1) by (auto simp: isGeoCategory_def prefix_def split: if_splits)
  then show ?thesis
  proof (elim disjE exE)
    show "plain_line l" if "l = ''geosite'' @ CHR '':'' # t" for t using that by (rule tagged_plain [OF assms(2)]) code_simp+
    show "plain_line l" if "l = ''geoip'' @ CHR '':'' # t" for t using that by (rule tagged_plain [OF assms(2)]) code_simp+
    show "plain_line l" if "l = ''ext'' @ CHR '':'' # t" for t using that by (rule tagged_plain [OF assms(2)]) code_simp+
  qed
qed

lemma egress_domain_out:
  assumes "egress_domain_line l = Inr os" and "o' \<in> set os"
  shows "plain_line o'"
proof (cases "isGeoCategory (trim_space l)")
  case (Some kind)
  with assms have "o' = trim_space l" "validGeoTag o'" by (auto simp: egress_domain_line_def Let_def split: if_splits)
  with Some valid_geosite_plain show ?thesis by simp
next
  case None
  with assms obtain ds d where ds: "each_line domain_line (split_on CHR 0x0A (trim_space l)) = Inr ds" "d \<in> set ds" "o' = ''domain:'' @ d"
    by (auto simp: egress_domain_line_def ParseDomainLines_def Let_def bind_result_eq_Inr split: if_splits)
  then have "domainSuffixShaped d" using each_line_out [OF ds(1,2)] domain_line_out by blast
  then have "\<forall>c\<in>set d. graphic c" using shaped_chars(1) domain_char_graphic by (fastforce simp: graphic_def)
  moreover have "\<forall>c\<in>set ''domain:''. graphic c" by code_simp
  ultimately show ?thesis unfolding ds(3) by (intro plain_lineI) auto
qed

lemma ToLower_Cons: "c < CHR 0x80 \<Longrightarrow> ToLower (c # s) = lower_char c # ToLower s"
  by (subst ToLower.simps) (auto simp: kelvin_sign_def dotted_i_def)

lemma domain_prefix_refused: "\<not> is_ok (egress_domain_line d)" if "prefix ''domain:'' d" "plain_line d"
proof -
  from that(1) obtain x where d: "d = ''domain:'' @ x" by (auto simp: prefix_def)
  have trim: "trim_space d = d" "CHR 0x0A \<notin> set d" "d \<noteq> []" using that(2) by (simp_all add: plain_line_def)
  have geo: "isGeoCategory d = None" by (simp add: isGeoCategory_def d)
  have "ToLower d = ''domain:'' @ ToLower x"
    by (simp add: d ToLower_Cons less_char_def lower_char_def is_upper_def less_eq_char_def)
  moreover have "\<not> domainSuffixShaped (''domain:'' @ y)" for y
    using shaped_chars(1) [of "''domain:'' @ y"] domain_char_graphic by fastforce
  moreover have "trim_prefix ''.'' (trim_prefix ''*.'' d) = d" by (simp add: d trim_prefix_def)
  ultimately have "\<not> is_ok (domain_line d)"
    by (simp add: domain_line_def trim(1,3) Let_def)
  then have "\<not> is_ok (ParseDomainLines d)"
    by (simp add: ParseDomainLines_def split_on_no_sep [OF trim(2)] is_ok_each_line del: each_line.simps)
  then show ?thesis
    using trim(1,3) geo by (cases "ParseDomainLines d") (simp_all add: egress_domain_line_def)
qed

text \<open>The parser of an egress rule's domains stores a suffix with the prefix \<open>domain:\<close> and refuses that very form:
  a rule that matches any plain suffix cannot be saved again from the lines that are stored and displayed for it.\<close>

theorem edited_suffix_refused:
  assumes "ParseEgressDomains text = Inr ds" and "prefix ''domain:'' d" and "d \<in> set ds"
  shows "\<not> is_ok (ParseEgressDomains (joinLines ds))"
proof -
  note run = assms(1) [unfolded ParseEgressDomains_def]
  have plain: "list_all plain_line ds" using each_line_out [OF run] egress_domain_out by (fastforce simp: list_all_iff)
  with assms(3) have "plain_line d" by (simp add: list_all_iff)
  from domain_prefix_refused [OF assms(2) this] assms(3) show ?thesis
    by (auto simp: ParseEgressDomains_def split_joinLines [OF plain] is_ok_each_line)
qed

theorem edited_suffix_refused_witness:
  "ParseEgressDomains ''nflxvideo.net'' = Inr [''domain:nflxvideo.net''] \<and> \<not> is_ok (ParseEgressDomains ''domain:nflxvideo.net'')"
proof -
  have run: "ParseEgressDomains ''nflxvideo.net'' = Inr [''domain:nflxvideo.net'']" by code_simp
  from edited_suffix_refused [OF run, of "''domain:nflxvideo.net''"] run show ?thesis by (simp add: joinLines_def)
qed

end
