(* ===== verification/Egress.thy ===== *)
theory Egress
  imports NodeStore Destinations
begin

text \<open>
  Per-node egress rules: the table of \<open>core/internal/store/egress.go\<close> and the handlers of
  \<open>core/internal/api/egress.go\<close>. A rule sends the traffic it matches out of its node directly, through
  an external proxy, or through another node of the fleet. Fleet landings chain, so the handlers refuse a
  landing from which a walk over the enabled landings comes back to the rule's own node.

  The walk is a depth-first search that shares one set of visited nodes between its branches. It is
  modelled with fuel; the theorems show that as much fuel as there are rules is enough, that it decides
  reachability, that a created rule keeps the landings free of loops, and that switching a rule on does
  not. What is stored is read back as it was written. The match lists are parsed in the theory \<open>Destinations\<close>.
\<close>

section \<open>Rules\<close>

definition EgressDirect :: string where "EgressDirect = ''direct''"
definition EgressExternal :: string where "EgressExternal = ''external''"
definition EgressNode :: string where "EgressNode = ''node''"

record egress_rule =
  er_id :: id
  er_node_id :: id
  er_label :: string
  er_domains :: "string list"
  er_ips :: "string list"
  er_target_kind :: string
  er_target_proxy_id :: id
  er_target_node_id :: id
  er_target_profile_id :: id
  er_secret :: string
  er_enabled :: bool
  er_sort_order :: int
  er_created_at :: int

text \<open>The row in the database: lists as lines, the secret sealed, an absent target \<open>NULL\<close> and read as empty.\<close>

record egress_row =
  ew_id :: id
  ew_node_id :: id
  ew_label :: string
  ew_domains :: string
  ew_ips :: string
  ew_target_kind :: string
  ew_target_proxy_id :: "id option"
  ew_target_node_id :: "id option"
  ew_target_profile_id :: "id option"
  ew_secret :: string
  ew_enabled :: bool
  ew_sort_order :: int
  ew_created_at :: int

text \<open>The rules, and the keys of the tables they refer to.\<close>

record egress_db =
  ed_rules :: "egress_row list"
  ed_nodes :: "id list"
  ed_proxies :: "id list"
  ed_profiles :: "id list"
  ed_profile_nodes :: "(id \<times> id) list"

definition scanEgress :: "box \<Rightarrow> egress_row \<Rightarrow> (db_error, egress_rule) result" where
  "scanEgress b w =
     bind_result
       (if ew_secret w = [] then Inr []
        else (case Open b (sealed_aad (EgressRuleKey (ew_id w))) (ew_secret w) of
                Inl e \<Rightarrow> Inl (Sealing e)
              | Inr plain \<Rightarrow> Inr plain))
       (\<lambda>secret. Inr
         \<lparr>er_id = ew_id w, er_node_id = ew_node_id w, er_label = ew_label w,
          er_domains = splitLines (ew_domains w), er_ips = splitLines (ew_ips w),
          er_target_kind = ew_target_kind w, er_target_proxy_id = coalesce (ew_target_proxy_id w),
          er_target_node_id = coalesce (ew_target_node_id w),
          er_target_profile_id = coalesce (ew_target_profile_id w),
          er_secret = secret, er_enabled = ew_enabled w, er_sort_order = ew_sort_order w,
          er_created_at = ew_created_at w\<rparr>)"

fun scan_egress_rows :: "box \<Rightarrow> egress_row list \<Rightarrow> (db_error, egress_rule list) result" where
  "scan_egress_rows b [] = Inr []"
| "scan_egress_rows b (w # ws) =
     bind_result (scanEgress b w) (\<lambda>r. bind_result (scan_egress_rows b ws) (\<lambda>rs. Inr (r # rs)))"

text \<open>The \<open>CHECK\<close> and foreign key constraints of the table.\<close>

definition target_ok :: "string \<Rightarrow> id option \<Rightarrow> id option \<Rightarrow> id option \<Rightarrow> bool" where
  "target_ok kind proxy node profile \<longleftrightarrow>
     (kind = EgressDirect \<and> proxy = None \<and> node = None)
     \<or> (kind = EgressExternal \<and> proxy \<noteq> None \<and> node = None)
     \<or> (kind = EgressNode \<and> proxy = None \<and> node \<noteq> None \<and> profile \<noteq> None)"

definition refers :: "id option \<Rightarrow> id list \<Rightarrow> bool" where
  "refers r ids \<longleftrightarrow> (case r of None \<Rightarrow> True | Some i \<Rightarrow> i \<in> set ids)"

definition row_ok :: "egress_db \<Rightarrow> egress_row \<Rightarrow> bool" where
  "row_ok db w \<longleftrightarrow>
     target_ok (ew_target_kind w) (ew_target_proxy_id w) (ew_target_node_id w) (ew_target_profile_id w)
     \<and> (ew_domains w \<noteq> [] \<or> ew_ips w \<noteq> [])
     \<and> ew_node_id w \<in> set (ed_nodes db) \<and> refers (ew_target_proxy_id w) (ed_proxies db)
     \<and> refers (ew_target_node_id w) (ed_nodes db) \<and> refers (ew_target_profile_id w) (ed_profiles db)"

definition egress_inv :: "egress_db \<Rightarrow> bool" where
  "egress_inv db \<longleftrightarrow> distinct (map ew_id (ed_rules db)) \<and> list_all (row_ok db) (ed_rules db)"

definition seal_dial :: "box \<Rightarrow> bytes \<Rightarrow> id \<Rightarrow> string \<Rightarrow> string" where
  "seal_dial b nonce i secret =
     (if secret = [] then [] else Seal b nonce (sealed_aad (EgressRuleKey i)) secret)"

definition last_order :: "id \<Rightarrow> egress_row list \<Rightarrow> int" where
  "last_order node rows = fold max (map ew_sort_order (filter (\<lambda>w. ew_node_id w = node) rows)) 0"

text \<open>\<open>COALESCE(MAX(sort_order), 0) + 1\<close>; positions are positive, so the maximum with 0 is the same.\<close>

definition CreateEgressRule ::
  "box \<Rightarrow> bytes \<Rightarrow> id \<Rightarrow> int \<Rightarrow> egress_rule \<Rightarrow> egress_db \<Rightarrow> (db_error, egress_rule \<times> egress_db) result" where
  "CreateEgressRule b nonce newid now r db =
     (let r = r\<lparr>er_id := newid, er_created_at := now\<rparr>;
          w = \<lparr>ew_id = newid, ew_node_id = er_node_id r, ew_label = er_label r,
               ew_domains = joinLines (er_domains r), ew_ips = joinLines (er_ips r),
               ew_target_kind = er_target_kind r, ew_target_proxy_id = nullIfEmpty (er_target_proxy_id r),
               ew_target_node_id = nullIfEmpty (er_target_node_id r),
               ew_target_profile_id = nullIfEmpty (er_target_profile_id r),
               ew_secret = seal_dial b nonce newid (er_secret r), ew_enabled = er_enabled r,
               ew_sort_order = last_order (er_node_id r) (ed_rules db) + 1, ew_created_at = now\<rparr>
      in if newid \<in> set (map ew_id (ed_rules db)) then Inl UniqueViolation
         else if \<not> row_ok db w then Inl ForeignKey
         else Inr (r, db\<lparr>ed_rules := ed_rules db @ [w]\<rparr>))"

definition update_rule :: "id \<Rightarrow> (egress_row \<Rightarrow> egress_row) \<Rightarrow> egress_db \<Rightarrow> (db_error, egress_db) result" where
  "update_rule i f db =
     (if i \<notin> set (map ew_id (ed_rules db)) then Inl ErrNoRows
      else if list_ex (\<lambda>w. ew_id w = i \<and> \<not> row_ok db (f w)) (ed_rules db) then Inl ForeignKey
      else Inr (db\<lparr>ed_rules := sql_update (\<lambda>w. ew_id w = i) f (ed_rules db)\<rparr>))"

definition UpdateEgressRule ::
  "id \<Rightarrow> string \<Rightarrow> string list \<Rightarrow> string list \<Rightarrow> bool \<Rightarrow> egress_db \<Rightarrow> (db_error, egress_db) result" where
  "UpdateEgressRule i label domains ips enabled =
     update_rule i (\<lambda>w. w\<lparr>ew_label := label, ew_domains := joinLines domains, ew_ips := joinLines ips,
                           ew_enabled := enabled\<rparr>)"

definition DeleteEgressRule :: "id \<Rightarrow> egress_db \<Rightarrow> (db_error, egress_db) result" where
  "DeleteEgressRule i db =
     (if i \<notin> set (map ew_id (ed_rules db)) then Inl ErrNoRows
      else Inr (db\<lparr>ed_rules := sql_delete (\<lambda>w. ew_id w = i) (ed_rules db)\<rparr>))"

definition GetEgressRule :: "box \<Rightarrow> id \<Rightarrow> egress_db \<Rightarrow> (db_error, egress_rule) result" where
  "GetEgressRule b i db =
     (case sql_row (\<lambda>w. ew_id w = i) (ed_rules db) of None \<Rightarrow> Inl ErrNoRows | Some w \<Rightarrow> scanEgress b w)"

definition in_order :: "egress_row list \<Rightarrow> egress_row list" where
  "in_order ws = sort_key ew_sort_order (sort_key ew_created_at ws)"

definition EgressRulesOn :: "box \<Rightarrow> id \<Rightarrow> egress_db \<Rightarrow> (db_error, egress_rule list) result" where
  "EgressRulesOn b node db =
     scan_egress_rows b (in_order (filter (\<lambda>w. ew_node_id w = node) (ed_rules db)))"

definition lands_on :: "id \<Rightarrow> egress_row \<Rightarrow> bool" where
  "lands_on node w \<longleftrightarrow> ew_target_node_id w = Some node \<and> ew_target_kind w = EgressNode \<and> ew_enabled w"

definition EgressRulesLandingOn :: "box \<Rightarrow> id \<Rightarrow> egress_db \<Rightarrow> (db_error, egress_rule list) result" where
  "EgressRulesLandingOn b node db = scan_egress_rows b (in_order (filter (lands_on node) (ed_rules db)))"

fun reorder_from :: "int \<Rightarrow> id \<Rightarrow> id list \<Rightarrow> egress_row list \<Rightarrow> egress_row list" where
  "reorder_from i node [] ws = ws"
| "reorder_from i node (x # xs) ws =
     reorder_from (i + 1) node xs
       (sql_update (\<lambda>w. ew_id w = x \<and> ew_node_id w = node) (\<lambda>w. w\<lparr>ew_sort_order := i\<rparr>) ws)"

definition ReorderEgressRules :: "id \<Rightarrow> id list \<Rightarrow> egress_db \<Rightarrow> egress_db" where
  "ReorderEgressRules node ids db = db\<lparr>ed_rules := reorder_from 1 node ids (ed_rules db)\<rparr>"

definition EgressSourceNodesFor :: "id list \<Rightarrow> egress_db \<Rightarrow> id list" where
  "EgressSourceNodesFor nodes db =
     remdups (map ew_node_id (filter (\<lambda>w. list_ex (\<lambda>n. lands_on n w) nodes) (ed_rules db)))"

definition SetEgressTarget ::
  "box \<Rightarrow> bytes \<Rightarrow> id \<Rightarrow> string \<Rightarrow> id \<Rightarrow> id \<Rightarrow> id \<Rightarrow> string \<Rightarrow> egress_db \<Rightarrow> (db_error, egress_db) result" where
  "SetEgressTarget b nonce i kind proxy node profile secret =
     update_rule i (\<lambda>w. w\<lparr>ew_target_kind := kind, ew_target_proxy_id := nullIfEmpty proxy,
       ew_target_node_id := nullIfEmpty node, ew_target_profile_id := nullIfEmpty profile,
       ew_secret := seal_dial b nonce i secret\<rparr>)"

section \<open>Loops\<close>

definition landings :: "box \<Rightarrow> egress_db \<Rightarrow> id \<Rightarrow> id list" where
  "landings b db from =
     (case EgressRulesOn b from db of
        Inl e \<Rightarrow> []
      | Inr rs \<Rightarrow> map er_target_node_id (filter (\<lambda>r. er_enabled r \<and> er_target_kind r = EgressNode) rs))"

text \<open>The walk with its set of visited nodes, over any successor function; \<^term>\<open>None\<close> is fuel running out.\<close>

fun reaches :: "nat \<Rightarrow> (id \<Rightarrow> id list) \<Rightarrow> id \<Rightarrow> id \<Rightarrow> id list \<Rightarrow> (bool \<times> id list) option"
and reaches_any :: "nat \<Rightarrow> (id \<Rightarrow> id list) \<Rightarrow> id list \<Rightarrow> id \<Rightarrow> id list \<Rightarrow> (bool \<times> id list) option" where
  "reaches 0 succ src to seen = None"
| "reaches (Suc n) succ src to seen =
     (if src = to then Some (True, seen)
      else if src \<in> set seen then Some (False, seen)
      else reaches_any n succ (succ src) to (src # seen))"
| "reaches_any n succ [] to seen = Some (False, seen)"
| "reaches_any n succ (t # ts) to seen =
     (case reaches n succ t to seen of
        None \<Rightarrow> None
      | Some (found, seen') \<Rightarrow> if found then Some (True, seen') else reaches_any n succ ts to seen')"

definition egressReaches :: "box \<Rightarrow> egress_db \<Rightarrow> id \<Rightarrow> id \<Rightarrow> (bool \<times> id list) option" where
  "egressReaches b db src to = reaches (length (ed_rules db) + 2) (landings b db) src to []"

section \<open>The handlers\<close>

record egress_target =
  et_kind :: string
  et_proxy_id :: id
  et_node_id :: id
  et_profile_id :: id

text \<open>The refusals, each a message to the operator; the last is the error of the store.\<close>

datatype egress_error =
    LabelRequired
  | BadLine line_error
  | NothingToMatch
  | NoSuchProxy
  | OwnNode
  | NoSuchNode
  | NotBound
  | WouldLoop
  | UnknownKind
  | OutOfFuel
  | StoreError db_error

definition resolveEgressTarget ::
  "box \<Rightarrow> egress_db \<Rightarrow> id \<Rightarrow> string \<Rightarrow> id \<Rightarrow> id \<Rightarrow> id \<Rightarrow> (egress_error, egress_target) result" where
  "resolveEgressTarget b db onNode kind proxy node profile =
     (if kind = EgressDirect then
        Inr \<lparr>et_kind = kind, et_proxy_id = [], et_node_id = [], et_profile_id = []\<rparr>
      else if kind = EgressExternal then
        (if proxy \<notin> set (ed_proxies db) then Inl NoSuchProxy
         else Inr \<lparr>et_kind = kind, et_proxy_id = proxy, et_node_id = [], et_profile_id = []\<rparr>)
      else if kind = EgressNode then
        (if node = onNode then Inl OwnNode
         else if node \<notin> set (ed_nodes db) then Inl NoSuchNode
         else if (profile, node) \<notin> set (ed_profile_nodes db) then Inl NotBound
         else
           (case egressReaches b db node onNode of
              None \<Rightarrow> Inl OutOfFuel
            | Some (found, _) \<Rightarrow>
                if found then Inl WouldLoop
                else Inr \<lparr>et_kind = kind, et_proxy_id = [], et_node_id = node, et_profile_id = profile\<rparr>))
      else Inl UnknownKind)"

text \<open>The decoded request of \<open>createEgress\<close>; \<open>uuid\<close> is the freshly generated credential.\<close>

record egress_request =
  eq_label :: string
  eq_domains :: string
  eq_ips :: string
  eq_kind :: string
  eq_proxy_id :: id
  eq_node_id :: id
  eq_profile_id :: id

definition createEgress ::
  "box \<Rightarrow> bytes \<Rightarrow> id \<Rightarrow> int \<Rightarrow> string \<Rightarrow> id \<Rightarrow> egress_request \<Rightarrow> egress_db \<Rightarrow>
   (egress_error, egress_rule \<times> egress_db) result" where
  "createEgress b nonce newid now uuid nodeID req db =
     (if nodeID \<notin> set (ed_nodes db) then Inl NoSuchNode
      else if trim_space (eq_label req) = [] then Inl LabelRequired
      else
        (case ParseEgressDomains (eq_domains req) of
           Inl e \<Rightarrow> Inl (BadLine e)
         | Inr domains \<Rightarrow>
        (case ParseEgressIPs (eq_ips req) of
           Inl e \<Rightarrow> Inl (BadLine e)
         | Inr ips \<Rightarrow>
             if domains = [] \<and> ips = [] then Inl NothingToMatch
             else
               bind_result (resolveEgressTarget b db nodeID (eq_kind req) (eq_proxy_id req) (eq_node_id req) (eq_profile_id req))
                 (\<lambda>target.
                    let secret = (if et_kind target = EgressNode then uuid else []);
                        rule = \<lparr>er_id = [], er_node_id = nodeID, er_label = trim_space (eq_label req),
                                er_domains = domains, er_ips = ips, er_target_kind = et_kind target,
                                er_target_proxy_id = et_proxy_id target, er_target_node_id = et_node_id target,
                                er_target_profile_id = et_profile_id target, er_secret = secret, er_enabled = True,
                                er_sort_order = 0, er_created_at = 0\<rparr>
                    in case CreateEgressRule b nonce newid now rule db of
                         Inl e \<Rightarrow> Inl (StoreError e)
                       | Inr x \<Rightarrow> Inr x))))"

text \<open>The request of \<open>updateEgress\<close>: an absent field is \<^term>\<open>None\<close>.\<close>

record egress_patch =
  ep_label :: "string option"
  ep_domains :: "string option"
  ep_ips :: "string option"
  ep_enabled :: "bool option"
  ep_kind :: "string option"
  ep_proxy_id :: id
  ep_node_id :: id
  ep_profile_id :: id

definition the_or :: "'a \<Rightarrow> 'a option \<Rightarrow> 'a" where
  "the_or d x = (case x of None \<Rightarrow> d | Some v \<Rightarrow> v)"

definition moved_secret :: "string \<Rightarrow> egress_rule \<Rightarrow> egress_target \<Rightarrow> string" where
  "moved_secret uuid previous target =
     (if et_kind target \<noteq> EgressNode then []
      else if er_target_kind previous \<noteq> EgressNode \<or> er_target_node_id previous \<noteq> et_node_id target
              \<or> er_target_profile_id previous \<noteq> et_profile_id target then uuid
      else er_secret previous)"

text \<open>
  The store is written before the landing is checked, so a refused landing leaves the new label and match;
  the result carries the database in both cases.
\<close>

definition move_target ::
  "box \<Rightarrow> bytes \<Rightarrow> string \<Rightarrow> egress_rule \<Rightarrow> egress_patch \<Rightarrow> egress_db \<Rightarrow> egress_error option \<times> egress_db" where
  "move_target b nonce uuid rule patch db =
     (case ep_kind patch of
        None \<Rightarrow> (None, db)
      | Some kind \<Rightarrow>
          if kind = [] then (None, db)
          else
            (case resolveEgressTarget b db (er_node_id rule) kind (ep_proxy_id patch) (ep_node_id patch) (ep_profile_id patch) of
               Inl e \<Rightarrow> (Some e, db)
             | Inr target \<Rightarrow>
                 (case SetEgressTarget b nonce (er_id rule) (et_kind target) (et_proxy_id target)
                         (et_node_id target) (et_profile_id target) (moved_secret uuid rule target) db of
                    Inl e \<Rightarrow> (Some (StoreError e), db)
                  | Inr db' \<Rightarrow> (None, db'))))"

definition updateEgress ::
  "box \<Rightarrow> bytes \<Rightarrow> string \<Rightarrow> id \<Rightarrow> egress_patch \<Rightarrow> egress_db \<Rightarrow> egress_error option \<times> egress_db" where
  "updateEgress b nonce uuid ruleID patch db =
     (case GetEgressRule b ruleID db of
        Inl e \<Rightarrow> (Some (StoreError e), db)
      | Inr rule \<Rightarrow>
          (let label = (case ep_label patch of None \<Rightarrow> er_label rule | Some l \<Rightarrow> trim_space l);
               enabled = the_or (er_enabled rule) (ep_enabled patch)
           in if ep_label patch \<noteq> None \<and> label = [] then (Some LabelRequired, db)
              else
                (case (case ep_domains patch of None \<Rightarrow> Inr (er_domains rule) | Some t \<Rightarrow> ParseEgressDomains t) of
                   Inl e \<Rightarrow> (Some (BadLine e), db)
                 | Inr domains \<Rightarrow>
                (case (case ep_ips patch of None \<Rightarrow> Inr (er_ips rule) | Some t \<Rightarrow> ParseEgressIPs t) of
                   Inl e \<Rightarrow> (Some (BadLine e), db)
                 | Inr ips \<Rightarrow>
                     if domains = [] \<and> ips = [] then (Some NothingToMatch, db)
                     else
                       (case UpdateEgressRule (er_id rule) label domains ips enabled db of
                          Inl e \<Rightarrow> (Some (StoreError e), db)
                        | Inr db' \<Rightarrow> move_target b nonce uuid rule patch db')))))"

section \<open>The walk decides reachability\<close>

definition edges :: "(id \<Rightarrow> id list) \<Rightarrow> (id \<times> id) set" where
  "edges succ = {(a, c). c \<in> set (succ a)}"

lemma in_edges [simp]: "(a, c) \<in> edges succ \<longleftrightarrow> c \<in> set (succ a)"
  by (simp add: edges_def)

text \<open>A positive answer is a path.\<close>

lemma reaches_sound:
  shows "reaches n succ src to seen = Some (True, seen') \<Longrightarrow> (src, to) \<in> (edges succ)\<^sup>*"
    and "reaches_any n succ ts to seen = Some (True, seen') \<Longrightarrow> \<exists>t\<in>set ts. (t, to) \<in> (edges succ)\<^sup>*"
proof (induction n succ src to seen and n succ ts to seen arbitrary: seen' and seen' rule: reaches_reaches_any.induct)
  case (2 n succ src to seen)
  then show ?case
    by (auto split: if_splits intro: converse_rtrancl_into_rtrancl)
next
  case (4 n succ t ts to seen)
  then obtain f s where s: "reaches n succ t to seen = Some (f, s)" by (fastforce split: option.splits)
  show ?case
  proof (cases f)
    case True
    then show ?thesis using 4(1) s by simp
  next
    case False
    then have "reaches_any n succ ts to s = Some (True, seen')" using 4(3) s by simp
    then show ?thesis using 4(2) [OF s refl] False by simp
  qed
qed auto

text \<open>A negative answer explored everything: each node visited since has all its successors among the visited.\<close>

definition explored :: "(id \<Rightarrow> id list) \<Rightarrow> id list \<Rightarrow> id list \<Rightarrow> bool" where
  "explored succ seen seen' \<longleftrightarrow>
     set seen \<subseteq> set seen' \<and> (\<forall>x\<in>set seen' - set seen. set (succ x) \<subseteq> set seen')"

lemma explored_refl [simp]: "explored succ seen seen"
  by (simp add: explored_def)

lemma explored_trans: "explored succ a c \<Longrightarrow> explored succ c d \<Longrightarrow> explored succ a d"
  unfolding explored_def by blast

lemma reaches_complete:
  shows "reaches n succ src to seen = Some (False, seen') \<Longrightarrow> to \<notin> set seen \<Longrightarrow>
      explored succ seen seen' \<and> src \<in> set seen' \<and> to \<notin> set seen'"
    and "reaches_any n succ ts to seen = Some (False, seen') \<Longrightarrow> to \<notin> set seen \<Longrightarrow>
      explored succ seen seen' \<and> set ts \<subseteq> set seen' \<and> to \<notin> set seen'"
proof (induction n succ src to seen and n succ ts to seen arbitrary: seen' and seen' rule: reaches_reaches_any.induct)
  case (2 n succ src to seen)
  show ?case
  proof (cases "src = to \<or> src \<in> set seen")
    case True
    then show ?thesis using 2(2,3) by (auto split: if_splits)
  next
    case False
    then have "to \<noteq> src" by auto
    then have "explored succ (src # seen) seen' \<and> set (succ src) \<subseteq> set seen' \<and> to \<notin> set seen'"
      using 2 False by simp
    then show ?thesis by (auto simp: explored_def)
  qed
next
  case (4 n succ t ts to seen)
  then obtain s where s: "reaches n succ t to seen = Some (False, s)" "reaches_any n succ ts to s = Some (False, seen')"
    by (auto split: option.splits if_splits)
  have 1: "explored succ seen s \<and> t \<in> set s \<and> to \<notin> set s" using 4(1) s(1) 4(4) by blast
  then have 2: "explored succ s seen' \<and> set ts \<subseteq> set seen' \<and> to \<notin> set seen'"
    using 4(2) [OF s(1) refl] s(2) by auto
  have "set s \<subseteq> set seen'" using 2 by (simp add: explored_def)
  then show ?case using 1 2 explored_trans [of succ seen s seen'] by auto
qed auto

lemma reaches_False:
  assumes "reaches n succ src to [] = Some (False, seen)"
  shows "(src, to) \<notin> (edges succ)\<^sup>*"
proof
  assume "(src, to) \<in> (edges succ)\<^sup>*"
  moreover have e: "explored succ [] seen" "src \<in> set seen" "to \<notin> set seen"
    using reaches_complete(1) [OF assms] by auto
  ultimately have "to \<in> set seen"
    by (induction rule: rtrancl_induct) (auto simp: explored_def)
  with e(3) show False by simp
qed

lemma reaches_grows:
  shows "reaches n succ src to seen = Some (f, seen') \<Longrightarrow> set seen \<subseteq> set seen'"
    and "reaches_any n succ ts to seen = Some (f, seen') \<Longrightarrow> set seen \<subseteq> set seen'"
proof (induction n succ src to seen and n succ ts to seen arbitrary: f seen' and f seen' rule: reaches_reaches_any.induct)
  case (4 n succ t ts to seen)
  then show ?case by (fastforce split: option.splits if_splits)
qed (auto split: if_splits)

text \<open>Enough fuel: one unit more than the nodes with successors that are still to be visited.\<close>

lemma reaches_fuel:
  assumes "finite V" and "\<And>x. succ x \<noteq> [] \<Longrightarrow> x \<in> V"
  shows "card (V - set seen) < n \<Longrightarrow> reaches n succ src to seen \<noteq> None"
    and "card (V - set seen) < n \<Longrightarrow> reaches_any n succ ts to seen \<noteq> None"
  using assms
proof (induction n succ src to seen and n succ ts to seen rule: reaches_reaches_any.induct)
  case (2 n succ src to seen)
  show ?case
  proof (cases "src \<in> V \<and> src \<notin> set seen")
    case True
    then have "V - set (src # seen) \<subset> V - set seen" by auto
    then have "card (V - set (src # seen)) < card (V - set seen)"
      using 2(3) by (intro psubset_card_mono) auto
    then show ?thesis using 2 by auto
  next
    case False
    then have "src \<in> set seen \<or> succ src = []" using 2(4) by blast
    then show ?thesis by auto
  qed
next
  case (4 n succ t ts to seen)
  then obtain f s where s: "reaches n succ t to seen = Some (f, s)" by fastforce
  have "card (V - set s) \<le> card (V - set seen)"
    using reaches_grows(1) [OF s] 4(4) by (intro card_mono) auto
  then show ?case using 4 s by auto
qed auto

lemma set_in_order [simp]: "set (in_order ws) = set ws"
  by (simp add: in_order_def)

lemma scan_egress_rows_set:
  "scan_egress_rows b ws = Inr rs \<Longrightarrow> set rs = {r. \<exists>w\<in>set ws. scanEgress b w = Inr r}"
  by (induction ws arbitrary: rs) (auto simp: bind_result_eq_Inr)

lemma scan_egress_rows_ok: "is_ok (scan_egress_rows b ws) \<longleftrightarrow> (\<forall>w\<in>set ws. is_ok (scanEgress b w))"
proof (induction ws)
  case (Cons w ws)
  then show ?case by (cases "scanEgress b w"; cases "scan_egress_rows b ws") auto
qed simp

lemma scanEgress_fields:
  "scanEgress b w = Inr r \<Longrightarrow> er_id r = ew_id w \<and> er_node_id r = ew_node_id w \<and> er_enabled r = ew_enabled w
     \<and> er_target_kind r = ew_target_kind w \<and> er_target_node_id r = coalesce (ew_target_node_id w)"
  by (auto simp: scanEgress_def bind_result_eq_Inr)

text \<open>Every sealed secret of the table opens.\<close>

definition readable :: "box \<Rightarrow> egress_db \<Rightarrow> bool" where
  "readable b db \<longleftrightarrow> list_all (\<lambda>w. is_ok (scanEgress b w)) (ed_rules db)"

lemma in_landings:
  assumes "readable b db"
  shows "y \<in> set (landings b db x) \<longleftrightarrow>
    (\<exists>w\<in>set (ed_rules db). ew_node_id w = x \<and> ew_enabled w \<and> ew_target_kind w = EgressNode
       \<and> coalesce (ew_target_node_id w) = y)"
proof -
  let ?ws = "in_order (filter (\<lambda>w. ew_node_id w = x) (ed_rules db))"
  have "is_ok (scan_egress_rows b ?ws)"
    using assms by (auto simp: scan_egress_rows_ok readable_def list_all_iff)
  then obtain rs where rs: "scan_egress_rows b ?ws = Inr rs" by (auto simp: is_ok_def split: sum.splits)
  have "y \<in> set (landings b db x) \<longleftrightarrow> (\<exists>r\<in>set rs. er_enabled r \<and> er_target_kind r = EgressNode \<and> er_target_node_id r = y)"
    using rs by (auto simp: landings_def EgressRulesOn_def)
  moreover have "\<exists>r. scanEgress b w = Inr r" if "w \<in> set (ed_rules db)" for w
    using assms that by (cases "scanEgress b w") (auto simp: readable_def list_all_iff)
  ultimately show ?thesis
    using scanEgress_fields by (fastforce simp: scan_egress_rows_set [OF rs])
qed

lemma landings_source: "landings b db x \<noteq> [] \<Longrightarrow> x \<in> set (map ew_node_id (ed_rules db))"
proof -
  assume l: "landings b db x \<noteq> []"
  have "filter (\<lambda>w. ew_node_id w = x) (ed_rules db) \<noteq> []"
  proof
    assume "filter (\<lambda>w. ew_node_id w = x) (ed_rules db) = []"
    then have "landings b db x = []" by (simp add: landings_def EgressRulesOn_def in_order_def)
    with l show False by simp
  qed
  then show ?thesis by (auto simp: filter_empty_conv)
qed

lemma egressReaches_Some: "egressReaches b db src to \<noteq> None"
proof -
  have "card (set (map ew_node_id (ed_rules db)) - set []) < length (ed_rules db) + 2"
    using card_length [of "map ew_node_id (ed_rules db)"] by simp
  then show ?thesis
    unfolding egressReaches_def
    by (rule reaches_fuel(1) [rotated 2]) (use landings_source in auto)
qed

definition landing_graph :: "box \<Rightarrow> egress_db \<Rightarrow> (id \<times> id) set" where
  "landing_graph b db = edges (landings b db)"

definition landing_pairs :: "egress_row list \<Rightarrow> (id \<times> id) set" where
  "landing_pairs ws = (\<lambda>w. (ew_node_id w, coalesce (ew_target_node_id w))) `
     set (filter (\<lambda>w. ew_enabled w \<and> ew_target_kind w = EgressNode) ws)"

lemma landing_graph_pairs: "readable b db \<Longrightarrow> landing_graph b db = landing_pairs (ed_rules db)"
  by (force simp: landing_graph_def edges_def in_landings landing_pairs_def)

lemma egressReaches_iff:
  obtains found seen where "egressReaches b db src to = Some (found, seen)"
    "found \<longleftrightarrow> (src, to) \<in> (landing_graph b db)\<^sup>*"
proof -
  obtain found seen where f: "egressReaches b db src to = Some (found, seen)"
    using egressReaches_Some [of b db src to] by auto
  then have "found \<longleftrightarrow> (src, to) \<in> (landing_graph b db)\<^sup>*"
    unfolding egressReaches_def landing_graph_def
    using reaches_sound(1) [of "length (ed_rules db) + 2" "landings b db" src to "[]" seen]
      reaches_False [of "length (ed_rules db) + 2" "landings b db" src to seen]
    by (cases found) auto
  with f that show ?thesis by blast
qed

section \<open>Properties\<close>

text \<open>C32. The walk over the landings always answers within the fuel given by the number of rules, and its answer is
  whether the one node is reachable from the other along enabled fleet landings.\<close>

theorem egress_walk_decides:
  "\<exists>found seen. egressReaches b db src to = Some (found, seen) \<and> (found \<longleftrightarrow> (src, to) \<in> (landing_graph b db)\<^sup>*)"
  by (rule egressReaches_iff [of b db src to]) blast

lemma scanEgress_stored:
  assumes "box_ok b" "nonce_ok b nonce"
    and "ew_secret w = seal_dial b nonce (ew_id w) secret"
  shows "is_ok (scanEgress b w)"
  using assms Open_Seal [of b nonce "sealed_aad (EgressRuleKey (ew_id w))" secret]
  by (auto simp: scanEgress_def seal_dial_def)

lemma row_ok_rules [simp]: "row_ok (db\<lparr>ed_rules := ws\<rparr>) = row_ok db"
  by (simp add: fun_eq_iff row_ok_def)

lemma createEgressE:
  assumes "createEgress b nonce newid now uuid nodeID req db = Inr (r, db')"
  obtains target w where
    "resolveEgressTarget b db nodeID (eq_kind req) (eq_proxy_id req) (eq_node_id req) (eq_profile_id req) = Inr target"
    "db' = db\<lparr>ed_rules := ed_rules db @ [w]\<rparr>" "ew_id w = newid" "newid \<notin> set (map ew_id (ed_rules db))"
    "row_ok db w" "ew_node_id w = nodeID" "ew_enabled w" "ew_target_kind w = et_kind target"
    "ew_target_node_id w = nullIfEmpty (et_node_id target)"
    "\<exists>secret. ew_secret w = seal_dial b nonce newid secret"
proof -
  obtain domains ips where parsed: "ParseEgressDomains (eq_domains req) = Inr domains" "ParseEgressIPs (eq_ips req) = Inr ips"
    using assms by (auto simp: createEgress_def split: if_splits sum.splits)
  obtain target where t: "resolveEgressTarget b db nodeID (eq_kind req) (eq_proxy_id req) (eq_node_id req) (eq_profile_id req) = Inr target"
    using assms by (auto simp: createEgress_def parsed bind_result_eq_Inr split: if_splits)
  let ?w = "\<lparr>ew_id = newid, ew_node_id = nodeID, ew_label = trim_space (eq_label req),
     ew_domains = joinLines domains, ew_ips = joinLines ips, ew_target_kind = et_kind target,
     ew_target_proxy_id = nullIfEmpty (et_proxy_id target), ew_target_node_id = nullIfEmpty (et_node_id target),
     ew_target_profile_id = nullIfEmpty (et_profile_id target),
     ew_secret = seal_dial b nonce newid (if et_kind target = EgressNode then uuid else []), ew_enabled = True,
     ew_sort_order = last_order nodeID (ed_rules db) + 1, ew_created_at = now\<rparr>"
  have "db' = db\<lparr>ed_rules := ed_rules db @ [?w]\<rparr> \<and> newid \<notin> set (map ew_id (ed_rules db)) \<and> row_ok db ?w"
    using assms t by (simp add: createEgress_def CreateEgressRule_def parsed Let_def del: set_map split: if_splits sum.splits)
  then show ?thesis using that [OF t, of ?w] by auto
qed

lemma resolve_node:
  assumes "resolveEgressTarget b db onNode kind proxy node profile = Inr target" and "et_kind target = EgressNode"
  shows "et_node_id target = node \<and> node \<noteq> onNode \<and> node \<in> set (ed_nodes db) \<and> (node, onNode) \<notin> (landing_graph b db)\<^sup>*"
proof -
  obtain found seen where f: "egressReaches b db node onNode = Some (found, seen)"
    "found \<longleftrightarrow> (node, onNode) \<in> (landing_graph b db)\<^sup>*" by (rule egressReaches_iff)
  have "EgressDirect \<noteq> EgressNode" "EgressExternal \<noteq> EgressNode" by code_simp+
  then show ?thesis
    using assms f by (auto simp: resolveEgressTarget_def split: if_splits)
qed

text \<open>C31. Creating a rule keeps the fleet landings free of loops, whatever landing is asked for, and keeps every
  constraint of the table and the readability of its secrets.\<close>

theorem created_landing_keeps_acyclic:
  assumes "createEgress b nonce newid now uuid nodeID req db = Inr (r, db')"
    and "egress_inv db" and "readable b db" and "acyclic (landing_graph b db)"
    and "box_ok b" and "nonce_ok b nonce"
  shows "acyclic (landing_graph b db') \<and> egress_inv db' \<and> readable b db'"
proof -
  obtain target w where
    t: "resolveEgressTarget b db nodeID (eq_kind req) (eq_proxy_id req) (eq_node_id req) (eq_profile_id req) = Inr target"
    and db': "db' = db\<lparr>ed_rules := ed_rules db @ [w]\<rparr>" and w: "ew_id w = newid" "newid \<notin> set (map ew_id (ed_rules db))"
    "row_ok db w" "ew_node_id w = nodeID" "ew_enabled w" "ew_target_kind w = et_kind target"
    "ew_target_node_id w = nullIfEmpty (et_node_id target)" and s: "\<exists>secret. ew_secret w = seal_dial b nonce newid secret"
    using assms(1) by (rule createEgressE)
  have scan: "is_ok (scanEgress b w)" using s w(1) scanEgress_stored [OF assms(5,6)] by auto
  have r': "readable b db'" using assms(3) scan by (simp add: readable_def db')
  have inv: "egress_inv db'" using assms(2) w by (auto simp: egress_inv_def db')
  have g: "landing_graph b db' = landing_graph b db \<union>
      (if et_kind target = EgressNode then {(nodeID, et_node_id target)} else {})"
    unfolding landing_graph_pairs [OF r'] landing_graph_pairs [OF assms(3)]
    using w by (auto simp: landing_pairs_def db')
  have "acyclic (landing_graph b db')"
  proof (cases "et_kind target = EgressNode")
    case True
    then have "(et_node_id target, nodeID) \<notin> (landing_graph b db)\<^sup>*" using resolve_node [OF t] by simp
    then show ?thesis using True assms(4) by (simp add: g acyclic_insert)
  qed (use assms(4) in \<open>simp add: g\<close>)
  then show ?thesis using r' inv by simp
qed

text \<open>The patch that only switches a rule on.\<close>

definition switch_on :: egress_patch where
  "switch_on = \<lparr>ep_label = None, ep_domains = None, ep_ips = None, ep_enabled = Some True, ep_kind = None,
     ep_proxy_id = [], ep_node_id = [], ep_profile_id = []\<rparr>"

lemma updateEgress_switch_on:
  assumes "egress_inv db" and "w \<in> set (ed_rules db)" and "scanEgress b w = Inr rule"
    and "er_domains rule \<noteq> [] \<or> er_ips rule \<noteq> []"
  shows "\<exists>f. updateEgress b nonce uuid (ew_id w) switch_on db =
      (None, db\<lparr>ed_rules := sql_update (\<lambda>x. ew_id x = ew_id w) f (ed_rules db)\<rparr>)
    \<and> (\<forall>x. ew_enabled (f x) \<and> ew_node_id (f x) = ew_node_id x \<and> ew_target_kind (f x) = ew_target_kind x
         \<and> ew_target_node_id (f x) = ew_target_node_id x \<and> ew_id (f x) = ew_id x \<and> ew_secret (f x) = ew_secret x)"
proof -
  let ?f = "\<lambda>x. x\<lparr>ew_label := er_label rule, ew_domains := joinLines (er_domains rule), ew_ips := joinLines (er_ips rule),
     ew_enabled := True\<rparr>"
  have d: "distinct (map ew_id (ed_rules db))" "row_ok db w" using assms(1,2) by (auto simp: egress_inv_def list_all_iff)
  have get: "GetEgressRule b (ew_id w) db = Inr rule"
    using sql_row_key [OF d(1) assms(2)] assms(3) by (simp add: GetEgressRule_def)
  have rule: "er_id rule = ew_id w" "er_domains rule = splitLines (ew_domains w)" "er_ips rule = splitLines (ew_ips w)"
    using assms(3) by (auto simp: scanEgress_def bind_result_eq_Inr)
  have "row_ok db (?f w)"
    using d(2) assms(4) joinLines_splitLines_empty [of "ew_domains w"] joinLines_splitLines_empty [of "ew_ips w"]
    by (auto simp: row_ok_def rule)
  moreover have "x = w" if "x \<in> set (ed_rules db)" "ew_id x = ew_id w" for x
    using d(1) that assms(2) by (auto simp: distinct_map inj_on_def)
  ultimately have "\<not> list_ex (\<lambda>x. ew_id x = ew_id w \<and> \<not> row_ok db (?f x)) (ed_rules db)"
    by (auto simp: list_ex_iff)
  then have "UpdateEgressRule (ew_id w) (er_label rule) (er_domains rule) (er_ips rule) True db =
      Inr (db\<lparr>ed_rules := sql_update (\<lambda>x. ew_id x = ew_id w) ?f (ed_rules db)\<rparr>)"
    using assms(2) by (auto simp: UpdateEgressRule_def update_rule_def)
  then have "updateEgress b nonce uuid (ew_id w) switch_on db =
      (None, db\<lparr>ed_rules := sql_update (\<lambda>x. ew_id x = ew_id w) ?f (ed_rules db)\<rparr>)"
    using assms(4) by (auto simp: updateEgress_def get switch_on_def the_or_def move_target_def rule(1))
  then show ?thesis by (intro exI [of _ ?f]) simp
qed

text \<open>Switching a disabled rule on is not checked: when its landing already leads back to its node, the update
  succeeds and closes a loop of enabled landings.\<close>

theorem switching_on_closes_loop:
  assumes "egress_inv db" and "readable b db" and "w \<in> set (ed_rules db)" and "scanEgress b w = Inr rule"
    and "er_domains rule \<noteq> [] \<or> er_ips rule \<noteq> []"
    and "ew_target_kind w = EgressNode" and "(coalesce (ew_target_node_id w), ew_node_id w) \<in> (landing_graph b db)\<^sup>*"
  shows "\<exists>db'. updateEgress b nonce uuid (ew_id w) switch_on db = (None, db') \<and> \<not> acyclic (landing_graph b db')"
proof -
  obtain f where f: "updateEgress b nonce uuid (ew_id w) switch_on db =
      (None, db\<lparr>ed_rules := sql_update (\<lambda>x. ew_id x = ew_id w) f (ed_rules db)\<rparr>)"
    and same: "\<And>x. ew_enabled (f x) \<and> ew_node_id (f x) = ew_node_id x \<and> ew_target_kind (f x) = ew_target_kind x
         \<and> ew_target_node_id (f x) = ew_target_node_id x \<and> ew_id (f x) = ew_id x \<and> ew_secret (f x) = ew_secret x"
    using updateEgress_switch_on [OF assms(1,3-5)] by blast
  let ?db = "db\<lparr>ed_rules := sql_update (\<lambda>x. ew_id x = ew_id w) f (ed_rules db)\<rparr>"
  have "is_ok (scanEgress b (f x)) = is_ok (scanEgress b x)" for x
    using same [of x] by (auto simp: scanEgress_def split: sum.splits)
  then have r: "readable b ?db" using assms(2) by (auto simp: readable_def list_all_iff set_sql_update)
  have pairs: "landing_graph b ?db = landing_pairs (sql_update (\<lambda>x. ew_id x = ew_id w) f (ed_rules db))"
    using landing_graph_pairs [OF r] by simp
  have sub: "landing_graph b db \<subseteq> landing_graph b ?db"
    unfolding pairs landing_graph_pairs [OF assms(2)]
  proof
    fix e assume "e \<in> landing_pairs (ed_rules db)"
    then obtain x where x: "x \<in> set (ed_rules db)" "ew_enabled x" "ew_target_kind x = EgressNode"
        "e = (ew_node_id x, coalesce (ew_target_node_id x))" by (auto simp: landing_pairs_def)
    define y where "y = (if ew_id x = ew_id w then f x else x)"
    have "y \<in> set (sql_update (\<lambda>x. ew_id x = ew_id w) f (ed_rules db))" "ew_enabled y" "ew_target_kind y = EgressNode"
        "e = (ew_node_id y, coalesce (ew_target_node_id y))"
      using x same [of x] by (auto simp: y_def set_sql_update)
    then show "e \<in> landing_pairs (sql_update (\<lambda>x. ew_id x = ew_id w) f (ed_rules db))"
      by (auto simp: landing_pairs_def)
  qed
  have "(ew_node_id w, coalesce (ew_target_node_id w)) \<in> landing_graph b ?db"
  proof -
    have "f w \<in> set (sql_update (\<lambda>x. ew_id x = ew_id w) f (ed_rules db))" "ew_enabled (f w)" "ew_target_kind (f w) = EgressNode"
      using assms(3,6) same [of w] by (auto simp: set_sql_update)
    then show ?thesis unfolding pairs using same [of w] by (force simp: landing_pairs_def image_iff)
  qed
  moreover have "(coalesce (ew_target_node_id w), ew_node_id w) \<in> (landing_graph b ?db)\<^sup>*"
    using assms(7) rtrancl_mono [OF sub] by blast
  ultimately have "(ew_node_id w, ew_node_id w) \<in> (landing_graph b ?db)\<^sup>+" by (rule rtrancl_into_trancl2)
  then show ?thesis using f by (auto simp: acyclic_def)
qed

section \<open>What is stored is read back\<close>

text \<open>A created rule is read back as it was returned, in the last place of its node.\<close>

lemma created_rule_read_back:
  assumes "CreateEgressRule b nonce newid now r db = Inr (r', db')"
    and "list_all plain_line (er_domains r)" "list_all plain_line (er_ips r)" "box_ok b" "nonce_ok b nonce"
  shows "GetEgressRule b newid db' = Inr (r'\<lparr>er_sort_order := last_order (er_node_id r) (ed_rules db) + 1\<rparr>)"
proof -
  from assms(1) have fresh: "newid \<notin> set (map ew_id (ed_rules db))"
    and r': "r' = r\<lparr>er_id := newid, er_created_at := now\<rparr>"
    by (auto simp: CreateEgressRule_def Let_def simp del: set_map split: if_splits)
  have none: "sql_row (\<lambda>w. ew_id w = newid) (ed_rules db @ [w]) = (if ew_id w = newid then Some w else None)" for w
  proof -
    have "sql_row (\<lambda>w. ew_id w = newid) (ed_rules db) = None" using fresh by (auto simp: sql_row_None)
    then show ?thesis by (simp add: sql_row_append) (simp add: sql_row_def)
  qed
  show ?thesis
    using assms(1) none Open_Seal [OF assms(4,5)]
    by (auto simp: CreateEgressRule_def Let_def GetEgressRule_def scanEgress_def seal_dial_def r'
        splitLines_joinLines [OF assms(2)] splitLines_joinLines [OF assms(3)] Seal_nonempty simp del: set_map split: if_splits)
qed

section \<open>Witnesses\<close>

definition demo_row :: "id \<Rightarrow> id \<Rightarrow> id \<Rightarrow> bool \<Rightarrow> egress_row" where
  "demo_row i node target on =
     \<lparr>ew_id = i, ew_node_id = node, ew_label = ''l'', ew_domains = ''geosite:x'', ew_ips = [], ew_target_kind = EgressNode,
      ew_target_proxy_id = None, ew_target_node_id = Some target, ew_target_profile_id = Some ''p'',
      ew_secret = ''plain:s'', ew_enabled = on, ew_sort_order = 1, ew_created_at = 1\<rparr>"

definition demo_fleet :: "egress_row list \<Rightarrow> egress_db" where
  "demo_fleet rows = \<lparr>ed_rules = rows, ed_nodes = [''a'', ''b'', ''c''], ed_proxies = [], ed_profiles = [''p''],
     ed_profile_nodes = [(''p'', ''a''), (''p'', ''b''), (''p'', ''c'')]\<rparr>"

definition demo_request :: egress_request where
  "demo_request = \<lparr>eq_label = ''new'', eq_domains = ''geosite:y'', eq_ips = [], eq_kind = EgressNode, eq_proxy_id = [],
     eq_node_id = ''c'', eq_profile_id = ''p''\<rparr>"

definition demo_created :: "egress_rule \<times> egress_db" where
  "demo_created = (case createEgress plain_box [] ''2'' 5 ''u'' ''b'' demo_request (demo_fleet [demo_row ''1'' ''a'' ''b'' True]) of
     Inr x \<Rightarrow> x)"

lemma demo_fleet_ok:
  "egress_inv (demo_fleet [demo_row ''1'' ''a'' ''b'' True])" "readable plain_box (demo_fleet [demo_row ''1'' ''a'' ''b'' True])"
  "egress_inv (demo_fleet [demo_row ''1'' ''a'' ''b'' True, demo_row ''2'' ''b'' ''a'' False])"
  "readable plain_box (demo_fleet [demo_row ''1'' ''a'' ''b'' True, demo_row ''2'' ''b'' ''a'' False])"
  by code_simp+

lemma plain_box_ok: "box_ok plain_box" "nonce_ok plain_box []"
  by (simp_all add: box_ok_def nonce_ok_def plain_box_def)

theorem created_landing_keeps_acyclic_witness:
  "createEgress plain_box [] ''2'' 5 ''u'' ''b'' demo_request (demo_fleet [demo_row ''1'' ''a'' ''b'' True]) = Inr demo_created
   \<and> acyclic (landing_graph plain_box (snd demo_created))"
proof -
  let ?db = "demo_fleet [demo_row ''1'' ''a'' ''b'' True]"
  have c: "createEgress plain_box [] ''2'' 5 ''u'' ''b'' demo_request ?db = Inr (fst demo_created, snd demo_created)"
    by code_simp
  have "landing_graph plain_box ?db = {(''a'', ''b'')}"
    by (simp add: landing_graph_pairs demo_fleet_ok) (simp add: landing_pairs_def demo_fleet_def demo_row_def)
  then have ac: "acyclic (landing_graph plain_box ?db)"
    by (simp add: acyclic_insert) (simp add: acyclic_def)
  show ?thesis
    using c created_landing_keeps_acyclic [OF c demo_fleet_ok(1,2) ac plain_box_ok] by simp
qed

theorem switching_on_closes_loop_witness:
  "\<exists>db'. updateEgress plain_box [] ''u'' ''2'' switch_on
      (demo_fleet [demo_row ''1'' ''a'' ''b'' True, demo_row ''2'' ''b'' ''a'' False]) = (None, db')
     \<and> \<not> acyclic (landing_graph plain_box db')"
proof -
  let ?db = "demo_fleet [demo_row ''1'' ''a'' ''b'' True, demo_row ''2'' ''b'' ''a'' False]"
  let ?w = "demo_row ''2'' ''b'' ''a'' False"
  obtain rule where rule: "scanEgress plain_box ?w = Inr rule" "er_domains rule \<noteq> []"
  proof
    show "scanEgress plain_box ?w = Inr (case scanEgress plain_box ?w of Inr r \<Rightarrow> r)" by code_simp
    show "er_domains (case scanEgress plain_box ?w of Inr r \<Rightarrow> r) \<noteq> []" by code_simp
  qed
  have "landing_graph plain_box ?db = {(''a'', ''b'')}"
    by (simp add: landing_graph_pairs demo_fleet_ok) (simp add: landing_pairs_def demo_fleet_def demo_row_def)
  then have "(''a'', ''b'') \<in> (landing_graph plain_box ?db)\<^sup>*" by auto
  moreover have "?w \<in> set (ed_rules ?db)" by (simp add: demo_fleet_def)
  ultimately show ?thesis
    using switching_on_closes_loop [OF demo_fleet_ok(3,4), of ?w rule "[]" "''u''"] rule by (simp add: demo_row_def)
qed

end
