(* ===== verification/Archive.thy ===== *)
theory Archive
  imports Prelude
begin

text \<open>
  Package \<open>xrayarchive\<close> (\<open>internal/xrayarchive/archive.go\<close>), shared by the panel and the agent, and the
  relay that carries an archive from one to the other: \<open>ReadChunk\<close> of
  \<open>core/internal/kernel/fetch.go\<close> on the panel, \<open>downloadViaRelay\<close> of
  \<open>agent/internal/xray/install.go\<close> on the node.

  A file is its bytes. \<open>crypto/sha256\<close> and \<open>archive/zip\<close> are the arguments \<open>sha256\<close> and \<open>unzip\<close>: the
  hash as hexadecimal text, and the entries of a zip file in order (an entry that cannot be read has
  no content). Only wanted names are unpacked, nothing unverified passes \<open>Verify\<close>, and a relayed
  archive arrives whole.
\<close>

type_synonym content = string

section \<open>Verify and unpack\<close>

definition BinaryName :: string where "BinaryName = ''xray''"

definition wanted :: "string \<Rightarrow> bool" where
  "wanted n \<longleftrightarrow> n \<in> {BinaryName, ''geoip.dat'', ''geosite.dat''}"

definition maxEntry :: int where "maxEntry = 256 * 2 ^ 20"

datatype archive_error =
    NoChecksum | NoFile | ChecksumMismatch string string | NotAZip | Unreadable string | TooLarge string
  | NoBinary

text \<open>\<open>strings.EqualFold\<close> on hexadecimal text.\<close>

definition equal_fold :: "string \<Rightarrow> string \<Rightarrow> bool" where
  "equal_fold a b \<longleftrightarrow> to_lower a = to_lower b"

definition Verify :: "(content \<Rightarrow> string) \<Rightarrow> content option \<Rightarrow> string \<Rightarrow> archive_error option" where
  "Verify sha256 file wantHex =
     (if length wantHex \<noteq> 64 then Some NoChecksum
      else (case file of
              None \<Rightarrow> Some NoFile
            | Some data \<Rightarrow>
                if equal_fold (sha256 data) wantHex then None
                else Some (ChecksumMismatch (sha256 data) wantHex)))"

text \<open>\<open>filepath.Base\<close>.\<close>

definition base_name :: "string \<Rightarrow> string" where
  "base_name p =
     (if p = [] then ''.''
      else (let q = trim_right_char CHR ''/'' p
            in if q = [] then ''/'' else rev (takeWhile (\<lambda>c. c \<noteq> CHR ''/'') (rev q))))"

text \<open>A file on disk: its content, whether it is executable, whether it is a directory.\<close>

record disk_file =
  f_data :: content
  f_exec :: bool
  f_dir :: bool

definition extract_entry :: "string \<times> content option \<Rightarrow> string \<Rightarrow> (archive_error, content) result" where
  "extract_entry f name =
     (case snd f of
        None \<Rightarrow> Inl (Unreadable name)
      | Some data \<Rightarrow> if int (length data) > maxEntry then Inl (TooLarge name) else Inr data)"

fun unpack_entries ::
  "(string \<times> content option) list \<Rightarrow> (string, disk_file) gomap \<Rightarrow> (archive_error, (string, disk_file) gomap) result" where
  "unpack_entries [] dir = Inr dir"
| "unpack_entries (f # fs) dir =
     (let name = base_name (fst f) in
      if \<not> wanted name then unpack_entries fs dir
      else (case extract_entry f name of
              Inl e \<Rightarrow> Inl e
            | Inr data \<Rightarrow>
                unpack_entries fs
                  (AList.update name \<lparr>f_data = data, f_exec = (name = BinaryName), f_dir = False\<rparr> dir)))"

definition Unpack ::
  "(content \<Rightarrow> (string \<times> content option) list option) \<Rightarrow> content \<Rightarrow> (archive_error, (string, disk_file) gomap) result" where
  "Unpack unzip archive =
     (case unzip archive of
        None \<Rightarrow> Inl NotAZip
      | Some fs \<Rightarrow>
          bind_result (unpack_entries fs [])
            (\<lambda>dir. if map_of dir BinaryName = None then Inl NoBinary else Inr dir))"

section \<open>The relay\<close>

text \<open>The panel's side: up to \<open>n\<close> bytes of the archive at an offset, and whether they reach its end.\<close>

definition ReadChunk :: "content \<Rightarrow> int \<Rightarrow> int \<Rightarrow> (string, content \<times> bool) result" where
  "ReadChunk file off n =
     (let size = int (length file) in
      if off > size \<or> off < 0
      then Inl (''offset '' @ show_int off @ '' is outside the '' @ show_int size @ '' byte archive'')
      else (let n = (if n > size - off then size - off else n);
                buf = take (nat n) (drop (nat off) file)
            in Inr (buf, off + int (length buf) \<ge> size)))"

definition relayChunkSize :: int where "relayChunkSize = 256 * 2 ^ 10"

text \<open>The node's side: it asks for the next chunk until one is the last. The loop is bounded by a
  number of rounds; None is the loop still running.\<close>

fun downloadViaRelay ::
  "nat \<Rightarrow> (int \<Rightarrow> (string, content \<times> bool) result) \<Rightarrow> int \<Rightarrow> content \<Rightarrow> (string, content) result option" where
  "downloadViaRelay 0 chunk offset f = None"
| "downloadViaRelay (Suc k) chunk offset f =
     (case chunk offset of
        Inl e \<Rightarrow> Some (Inl e)
      | Inr (data, final) \<Rightarrow>
          (let f = (if data \<noteq> [] then f @ data else f);
               offset = (if data \<noteq> [] then offset + int (length data) else offset)
           in if final then Some (Inr f)
              else if data = [] then Some (Inl (''the relay returned an empty chunk at offset '' @ show_int offset
                                                @ '' without ending the transfer''))
              else downloadViaRelay k chunk offset f))"

text \<open>What the node relies on: a chunk at an offset inside the archive is what stands there, it is not
  empty before the end, and exactly a chunk that reaches the end is the last.\<close>

locale relay =
  fixes chunk :: "int \<Rightarrow> (string, content \<times> bool) result" and archive :: content
  assumes chunk_slice: "off \<le> length archive \<Longrightarrow>
      \<exists>data final. chunk (int off) = Inr (data, final) \<and> (\<exists>rest. drop off archive = data @ rest)
        \<and> (final \<longleftrightarrow> off + length data = length archive) \<and> (data = [] \<longrightarrow> final)"
begin

lemma relay_reassembles:
  assumes "off \<le> length archive" "length archive - off < k"
  shows "downloadViaRelay k chunk (int off) (take off archive) = Some (Inr archive)"
  using assms
proof (induction k arbitrary: off)
  case (Suc k)
  obtain data final rest where
    c: "chunk (int off) = Inr (data, final)" "drop off archive = data @ rest"
      "final \<longleftrightarrow> off + length data = length archive" "data = [] \<longrightarrow> final"
    using chunk_slice [OF Suc.prems(1)] by blast
  have grown: "take off archive @ data = take (off + length data) archive"
    using c(2) by (simp add: take_add)
  have bound: "off + length data \<le> length archive"
    using arg_cong [OF c(2), of length] Suc.prems(1) by simp
  show ?case
  proof (cases "data = []")
    case True
    then show ?thesis using c grown by simp
  next
    case False
    then have "downloadViaRelay k chunk (int (off + length data)) (take (off + length data) archive) = Some (Inr archive)"
      by (intro Suc.IH) (use bound Suc.prems in \<open>auto simp flip: length_greater_0_conv\<close>)
    then show ?thesis using c grown False bound by (simp add: Let_def)
  qed
qed simp

end

lemma ReadChunk_slice:
  assumes "off \<le> length file" "0 < n"
  shows "\<exists>data final. ReadChunk file (int off) n = Inr (data, final) \<and> (\<exists>rest. drop off file = data @ rest)
        \<and> (final \<longleftrightarrow> off + length data = length file) \<and> (data = [] \<longrightarrow> final)"
proof -
  define m where "m = nat (if n > int (length file) - int off then int (length file) - int off else n)"
  have "\<exists>rest. drop off file = take m (drop off file) @ rest"
    by (metis append_take_drop_id)
  moreover have "ReadChunk file (int off) n = Inr (take m (drop off file), off + length (take m (drop off file)) = length file)"
    using assms by (auto simp: ReadChunk_def Let_def m_def)
  moreover have "take m (drop off file) = [] \<longrightarrow> off + length (take m (drop off file)) = length file"
    using assms by (auto simp: m_def split: if_splits)
  ultimately show ?thesis by blast
qed

interpretation panel_relay: relay "\<lambda>off. ReadChunk archive off relayChunkSize" archive for archive
  by unfold_locales (rule ReadChunk_slice, simp_all add: relayChunkSize_def)

section \<open>Properties\<close>

lemma unpack_entries_safe:
  assumes "unpack_entries fs dir = Inr dir'"
    and "\<And>n f. map_of dir n = Some f \<Longrightarrow> P n f"
    and "\<And>p data. (p, Some data) \<in> set fs \<Longrightarrow> wanted (base_name p) \<Longrightarrow> int (length data) \<le> maxEntry \<Longrightarrow>
           P (base_name p) \<lparr>f_data = data, f_exec = (base_name p = BinaryName), f_dir = False\<rparr>"
    and "map_of dir' n = Some f"
  shows "P n f"
  using assms
proof (induction fs dir rule: unpack_entries.induct)
  case (2 e fs dir)
  show ?case
  proof (cases "wanted (base_name (fst e))")
    case True
    then obtain data where d: "snd e = Some data" "int (length data) \<le> maxEntry"
      using "2.prems"(1) by (auto simp: Let_def extract_entry_def split: option.splits if_splits sum.splits)
    then have x: "extract_entry e (base_name (fst e)) = Inr data" by (simp add: extract_entry_def)
    have e: "e = (fst e, Some data)" using d(1) by (metis prod.collapse)
    show ?thesis
    proof (rule "2.IH"(2) [OF refl _ x])
      show "unpack_entries fs (AList.update (base_name (fst e))
          \<lparr>f_data = data, f_exec = (base_name (fst e) = BinaryName), f_dir = False\<rparr> dir) = Inr dir'"
        using "2.prems"(1) True x by (simp add: Let_def)
      show "P n g" if "map_of (AList.update (base_name (fst e))
          \<lparr>f_data = data, f_exec = (base_name (fst e) = BinaryName), f_dir = False\<rparr> dir) n = Some g" for n g
        using that "2.prems"(2) [of n g] "2.prems"(3) [of "fst e" data] d True e
        by (auto split: if_splits simp: list.set_intros)
    qed (use True "2.prems" in auto)
  next
    case False
    then show ?thesis using "2.prems" "2.IH"(1) by (auto simp: Let_def)
  qed
qed auto

lemma Unpack_entry:
  assumes "Unpack unzip archive = Inr dir" and "map_of dir n = Some f"
  shows "wanted n \<and> (f_exec f \<longleftrightarrow> n = BinaryName) \<and> \<not> f_dir f \<and> int (length (f_data f)) \<le> maxEntry
    \<and> (\<exists>fs p. unzip archive = Some fs \<and> (p, Some (f_data f)) \<in> set fs \<and> base_name p = n)"
proof -
  obtain fs where fs: "unzip archive = Some fs" "unpack_entries fs [] = Inr dir"
    using assms(1) by (auto simp: Unpack_def bind_result_eq_Inr split: option.splits if_splits)
  show ?thesis
    by (rule unpack_entries_safe [OF fs(2), where n = n and f = f])
      (use assms(2) fs(1) in auto)
qed

lemma Unpack_binary:
  "Unpack unzip archive = Inr dir \<Longrightarrow> \<exists>f. map_of dir BinaryName = Some f \<and> f_exec f \<and> \<not> f_dir f"
  using Unpack_entry [of unzip archive dir BinaryName]
  by (auto simp: Unpack_def bind_result_eq_Inr split: option.splits if_splits)

lemma Verify_ok:
  "Verify sha256 f want = None \<longleftrightarrow>
     length want = 64 \<and> (\<exists>data. f = Some data \<and> to_lower (sha256 data) = to_lower want)"
  by (auto simp: Verify_def equal_fold_def split: option.splits)

text \<open>Whatever the archive, a node that asks the panel for it chunk by chunk ends after at most one
  round per byte and one more, without an error, with exactly the panel's file.\<close>

theorem relay_delivers_archive:
  "downloadViaRelay (Suc (length archive)) (\<lambda>off. ReadChunk archive off relayChunkSize) 0 [] = Some (Inr archive)"
  using panel_relay.relay_reassembles [of 0 archive "Suc (length archive)"] by simp

text \<open>An archive that unpacks leaves only whitelisted names, none with a path in it: an executable
  \<open>xray\<close> and nothing else executable, each file within the size limit and with the content of an
  entry of that base name, even where entry names climb out of the directory.\<close>

theorem unpack_whitelists:
  assumes "Unpack unzip archive = Inr dir"
  shows "fst ` set dir \<subseteq> {''xray'', ''geoip.dat'', ''geosite.dat''}
    \<and> map_of dir ''xray'' \<noteq> None
    \<and> (\<forall>n f. map_of dir n = Some f \<longrightarrow> (f_exec f \<longleftrightarrow> n = ''xray'') \<and> int (length (f_data f)) \<le> maxEntry
          \<and> (\<exists>fs p. unzip archive = Some fs \<and> (p, Some (f_data f)) \<in> set fs \<and> base_name p = n))"
proof (intro conjI allI impI)
  show "fst ` set dir \<subseteq> {''xray'', ''geoip.dat'', ''geosite.dat''}"
  proof
    fix n assume "n \<in> fst ` set dir"
    then obtain f where "map_of dir n = Some f" by (metis map_of_eq_None_iff not_None_eq)
    then show "n \<in> {''xray'', ''geoip.dat'', ''geosite.dat''}"
      using Unpack_entry [OF assms] by (simp add: wanted_def BinaryName_def)
  qed
  show "map_of dir ''xray'' \<noteq> None"
    using Unpack_binary [OF assms] by (auto simp: BinaryName_def)
next
  fix n f assume f: "map_of dir n = Some f"
  note e = Unpack_entry [OF assms f]
  show "f_exec f \<longleftrightarrow> n = ''xray''" using e by (simp add: BinaryName_def)
  show "int (length (f_data f)) \<le> maxEntry" using e by simp
  show "\<exists>fs p. unzip archive = Some fs \<and> (p, Some (f_data f)) \<in> set fs \<and> base_name p = n" using e by simp
qed

definition demo_zip :: "content \<Rightarrow> (string \<times> content option) list option" where
  "demo_zip a = Some [(''README.md'', Some ''hello''), (''../../xray'', Some a), (''geoip.dat'', Some ''ip'')]"

theorem unpack_whitelists_witness:
  "\<exists>dir. Unpack demo_zip ''ELF'' = Inr dir \<and> length dir = 2
     \<and> fst ` set dir \<subseteq> {''xray'', ''geoip.dat'', ''geosite.dat''}"
proof -
  have u: "Unpack demo_zip ''ELF'' = Inr [(''xray'', \<lparr>f_data = ''ELF'', f_exec = True, f_dir = False\<rparr>),
           (''geoip.dat'', \<lparr>f_data = ''ip'', f_exec = False, f_dir = False\<rparr>)]" by code_simp
  show ?thesis using unpack_whitelists [OF u, THEN conjunct1] u by simp
qed

end
