(* ===== verification/Kernel.thy ===== *)
theory Kernel
  imports Archive Versions
begin

text \<open>
  The panel's kernels: package \<open>release\<close> (\<open>core/internal/release/release.go\<close>), what upstream offers and
  what it should hash to; the registry of the binaries the panel validates with
  (\<open>core/internal/kernel/registry.go\<close>); and the fetcher that fills it
  (\<open>core/internal/kernel/fetch.go\<close>).

  The state is the kernel directory: its entries, the archive cache and the registry's map. The network,
  the hash, the zip reader and running a binary are the record \<open>outside\<close>. Downloads of one archive are
  single-flight and installs of one version hold a lock, so an install is one step. Disk faults are not
  modelled. The theorems show that the newest release is a greatest one, that the checksum read from a
  digest file is a full SHA-256, that an installed kernel came from a verified archive and no other is
  lost, and that the check of an installed binary's own version never asks the binary.
\<close>

section \<open>Releases\<close>

record release =
  rl_version :: string
  rl_tag :: string
  rl_prerelease :: bool
  rl_published_at :: int
  rl_assets :: "(string, string) gomap"

definition empty_release :: release where
  "empty_release = \<lparr>rl_version = [], rl_tag = [], rl_prerelease = False, rl_published_at = 0, rl_assets = []\<rparr>"

definition asset_table :: "(string, string) gomap" where
  "asset_table =
     [(''linux/amd64'', ''Xray-linux-64.zip''), (''linux/arm64'', ''Xray-linux-arm64-v8a.zip''),
      (''linux/386'', ''Xray-linux-32.zip''), (''linux/arm'', ''Xray-linux-arm32-v7a.zip''),
      (''linux/riscv64'', ''Xray-linux-riscv64.zip''), (''linux/s390x'', ''Xray-linux-s390x.zip''),
      (''linux/ppc64le'', ''Xray-linux-ppc64le.zip''), (''linux/loong64'', ''Xray-linux-loong64.zip''),
      (''darwin/amd64'', ''Xray-macos-64.zip''), (''darwin/arm64'', ''Xray-macos-arm64-v8a.zip''),
      (''freebsd/amd64'', ''Xray-freebsd-64.zip''), (''freebsd/arm64'', ''Xray-freebsd-arm64-v8a.zip'')]"

definition assetName :: "string \<Rightarrow> string option" where
  "assetName platform = map_of asset_table (trim_space platform)"

datatype asset_error = NoAssetFor string | NoAssetNamed string string | NoDigestFor string string

definition AssetFor :: "release \<Rightarrow> string \<Rightarrow> (asset_error, string \<times> string) result" where
  "AssetFor r platform =
     (case assetName platform of
        None \<Rightarrow> Inl (NoAssetFor platform)
      | Some name \<Rightarrow>
          (case map_of (rl_assets r) name of
             None \<Rightarrow> Inl (NoAssetNamed (rl_tag r) name)
           | Some archive \<Rightarrow>
               (case map_of (rl_assets r) (name @ ''.dgst'') of
                  None \<Rightarrow> Inl (NoDigestFor (rl_tag r) name)
                | Some digest \<Rightarrow> Inr (archive, digest))))"

text \<open>The release list as GitHub answers it, decoded.\<close>

record raw_release =
  rw_tag_name :: string
  rw_prerelease :: bool
  rw_draft :: bool
  rw_published_at :: int
  rw_assets :: "(string \<times> string) list"

definition release_of :: "raw_release \<Rightarrow> release" where
  "release_of r =
     \<lparr>rl_version = NormalizeVersion (rw_tag_name r), rl_tag = rw_tag_name r, rl_prerelease = rw_prerelease r,
      rl_published_at = rw_published_at r,
      rl_assets = fold (\<lambda>(n, u). AList.update n u) (rw_assets r) []\<rparr>"

definition listFrom :: "raw_release list \<Rightarrow> release list" where
  "listFrom raw = map release_of (filter (\<lambda>r. \<not> rw_draft r) raw)"

definition pickLatest :: "release list \<Rightarrow> bool \<Rightarrow> release" where
  "pickLatest rs includePrerelease =
     foldl (\<lambda>best r. if rl_prerelease r \<and> \<not> includePrerelease then best
                      else if rl_version best = [] \<or> CompareVersions (rl_version r) (rl_version best) > 0 then r
                      else best) empty_release rs"

text \<open>\<open>ParseDigest\<close>: the first line labelled as a SHA-256 that carries a whole one.\<close>

definition digest_of_line :: "string \<Rightarrow> string option" where
  "digest_of_line line =
     (case cut_at CHR ''='' line of
        None \<Rightarrow> None
      | Some (label, value) \<Rightarrow>
          if trim_space label \<in> {''SHA2-256'', ''SHA256''}
          then (let v = to_lower (trim_space value)
                in if length v = 64 \<and> list_all is_hex v then Some v else None)
          else None)"

fun first_digest :: "string list \<Rightarrow> string" where
  "first_digest [] = []"
| "first_digest (line # ls) = (case digest_of_line line of Some v \<Rightarrow> v | None \<Rightarrow> first_digest ls)"

definition ParseDigest :: "string \<Rightarrow> string" where
  "ParseDigest body = first_digest (split_on (CHR 0x0A) body)"

section \<open>The outside and the kernel directory\<close>

record outside =
  o_list :: "nat \<Rightarrow> string + raw_release list"
  o_get :: "string \<Rightarrow> string + content"
  o_sha256 :: "content \<Rightarrow> string"
  o_unzip :: "content \<Rightarrow> (string \<times> content option) list option"
  o_run :: "content \<Rightarrow> string option"
  o_platform :: string

datatype dirent = Plain | Dir "(string, disk_file) gomap"

record kernels =
  k_dir :: string
  k_baked :: "content option"
  k_entries :: "(string, dirent) gomap"
  k_archives :: "(string, content) gomap"
  k_scanned :: "(string, string) gomap"

datatype kernel_error =
    Network string | NoSHA256Line string | NoURL | BadArchive archive_error | NoKernelDir | Mislabelled string string

text \<open>\<open>Client.Checksum\<close>: the body is read up to 8 KiB.\<close>

definition Checksum :: "outside \<Rightarrow> string \<Rightarrow> (kernel_error, string) result" where
  "Checksum w dgstURL =
     (case o_get w dgstURL of
        Inl e \<Rightarrow> Inl (Network e)
      | Inr body \<Rightarrow>
          (let sum = ParseDigest (if int (length body) \<le> 8192 then body else take 8192 body)
           in if sum = [] then Inl (NoSHA256Line dgstURL) else Inr sum))"

text \<open>\<open>strings.Fields\<close>.\<close>

function split_fields :: "string \<Rightarrow> string \<Rightarrow> string list" where
  "split_fields word s =
     (case s of
        [] \<Rightarrow> if word = [] then [] else [word]
      | c # r \<Rightarrow>
          (case strip_rune space_runes s of
             Some s' \<Rightarrow> if word = [] then split_fields [] s' else word # split_fields [] s'
           | None \<Rightarrow> split_fields (word @ [c]) r))"
  by pat_completeness auto
termination
  by (relation "measure (\<lambda>(_, s). length s)") (auto dest: strip_rune_shorter)

declare split_fields.simps [simp del]

text \<open>\<open>Xray.Version\<close>: the second word of the first line the binary prints.\<close>

definition first_line :: "string \<Rightarrow> string" where
  "first_line out = takeWhile (\<lambda>c. c \<noteq> CHR 0x0A) out"

definition xray_version :: "outside \<Rightarrow> content option \<Rightarrow> string" where
  "xray_version w bin =
     (case Option.bind bin (o_run w) of
        None \<Rightarrow> []
      | Some out \<Rightarrow>
          (let f = split_fields [] (first_line out) in if length f \<ge> 2 then NormalizeVersion (f ! 1) else []))"

section \<open>The registry\<close>

definition archiveDir :: string where "archiveDir = ''.archives''"

definition contains_str :: "string \<Rightarrow> string \<Rightarrow> bool" where
  "contains_str sub s \<longleftrightarrow> list_ex (prefix sub) (suffixes s)"

definition usable :: "(string, disk_file) gomap \<Rightarrow> bool" where
  "usable files \<longleftrightarrow> (case map_of files BinaryName of None \<Rightarrow> False | Some f \<Rightarrow> \<not> f_dir f \<and> f_exec f)"

fun scan_entry :: "string \<times> dirent \<Rightarrow> (string, string) gomap \<Rightarrow> (string, string) gomap" where
  "scan_entry (name, Plain) found = found"
| "scan_entry (name, Dir files) found =
     (if name = archiveDir \<or> contains_str ''.staging-'' name then found
      else (let version = NormalizeVersion name in
            if version = [] then found
            else if usable files then AList.update version name found else found))"

definition Rescan :: "kernels \<Rightarrow> kernels" where
  "Rescan k = k\<lparr>k_scanned := if k_dir k \<noteq> [] then fold scan_entry (sort_key fst (k_entries k)) [] else []\<rparr>"

record resolution =
  rs_bin :: "content option"
  rs_version :: string
  rs_want :: string
  rs_exact :: bool

definition binary_at :: "kernels \<Rightarrow> string \<Rightarrow> content option" where
  "binary_at k name =
     (case map_of (k_entries k) name of Some (Dir files) \<Rightarrow> map_option f_data (map_of files BinaryName) | _ \<Rightarrow> None)"

definition For :: "outside \<Rightarrow> string \<Rightarrow> kernels \<Rightarrow> resolution" where
  "For w want k =
     (let want = NormalizeVersion want;
          bakedVersion = xray_version w (k_baked k);
          fallback = \<lparr>rs_bin = k_baked k, rs_version = bakedVersion, rs_want = want,
                      rs_exact = (want \<noteq> [] \<and> want = bakedVersion)\<rparr>
      in case map_of (k_scanned k) want of
           Some name \<Rightarrow> if want \<noteq> []
                        then \<lparr>rs_bin = binary_at k name, rs_version = want, rs_want = want, rs_exact = True\<rparr>
                        else fallback
         | None \<Rightarrow> fallback)"

definition Has :: "outside \<Rightarrow> string \<Rightarrow> kernels \<Rightarrow> bool" where
  "Has w version k =
     (let version = NormalizeVersion version in
      version \<noteq> [] \<and> (map_of (k_scanned k) version \<noteq> None \<or> version = xray_version w (k_baked k)))"

section \<open>The fetcher\<close>

definition ArchivePath :: "string \<Rightarrow> string \<Rightarrow> string" where
  "ArchivePath version platform =
     version @ ''_'' @ map (\<lambda>c. if c = CHR ''/'' then CHR ''-'' else c) platform @ ''.zip''"

definition fetch :: "outside \<Rightarrow> string \<Rightarrow> string \<Rightarrow> string \<Rightarrow> kernels \<Rightarrow> (kernel_error, string) result \<times> kernels" where
  "fetch w dest url sha k =
     (if url = [] then (Inl NoURL, k)
      else (case o_get w url of
              Inl e \<Rightarrow> (Inl (Network e), k)
            | Inr body \<Rightarrow>
                (case Verify (o_sha256 w) (Some body) sha of
                   Some e \<Rightarrow> (Inl (BadArchive e), k)
                 | None \<Rightarrow> (Inr dest, k\<lparr>k_archives := AList.update dest body (k_archives k)\<rparr>))))"

definition EnsureArchive ::
  "outside \<Rightarrow> string \<Rightarrow> string \<Rightarrow> string \<Rightarrow> string \<Rightarrow> kernels \<Rightarrow> (kernel_error, string) result \<times> kernels" where
  "EnsureArchive w version platform url sha k =
     (let dest = ArchivePath version platform in
      if Verify (o_sha256 w) (map_of (k_archives k) dest) sha = None then (Inr dest, k)
      else fetch w dest url sha k)"

definition Install :: "outside \<Rightarrow> string \<Rightarrow> string \<Rightarrow> string \<Rightarrow> kernels \<Rightarrow> kernel_error option \<times> kernels" where
  "Install w version url sha k =
     (if k_dir k = [] then (Some NoKernelDir, k)
      else if Has w version k then (None, k)
      else (case EnsureArchive w version (o_platform w) url sha k of
              (Inl e, k) \<Rightarrow> (Some e, k)
            | (Inr dest, k) \<Rightarrow>
                (case Unpack (o_unzip w) (the (map_of (k_archives k) dest)) of
                   Inl e \<Rightarrow> (Some (BadArchive e), k)
                 | Inr files \<Rightarrow>
                     (let k = Rescan (k\<lparr>k_entries := AList.update version (Dir files) (k_entries k)\<rparr>);
                          got = For w version k
                      in if \<not> rs_exact got
                         then (Some (Mislabelled version (rs_version got)),
                               Rescan (k\<lparr>k_entries := AList.delete version (k_entries k)\<rparr>))
                         else (None, k)))))"

section \<open>What the registry sees\<close>

definition scans :: "string \<Rightarrow> dirent \<Rightarrow> string \<Rightarrow> bool" where
  "scans name d v \<longleftrightarrow>
     (\<exists>files. d = Dir files \<and> name \<noteq> archiveDir \<and> \<not> contains_str ''.staging-'' name
        \<and> NormalizeVersion name = v \<and> v \<noteq> [] \<and> usable files)"

definition registry_ok :: "kernels \<Rightarrow> bool" where
  "registry_ok k \<longleftrightarrow> gm_ok (k_entries k) \<and> k_scanned k = k_scanned (Rescan k)"

lemma scan_entries_dom:
  "map_of (fold scan_entry xs found) v \<noteq> None \<longleftrightarrow>
     (\<exists>(n, d)\<in>set xs. scans n d v) \<or> map_of found v \<noteq> None"
proof (induction xs arbitrary: found)
  case (Cons x xs)
  obtain n d where x: "x = (n, d)" by (cases x)
  have "map_of (scan_entry (n, d) found) v \<noteq> None \<longleftrightarrow> scans n d v \<or> map_of found v \<noteq> None"
    by (cases d) (auto simp: scans_def Let_def)
  then show ?case using Cons.IH [of "scan_entry (n, d) found"] by (auto simp: x)
qed simp

lemma scanned_dom:
  assumes "registry_ok k"
  shows "map_of (k_scanned k) v \<noteq> None \<longleftrightarrow> k_dir k \<noteq> [] \<and> (\<exists>n d. map_of (k_entries k) n = Some d \<and> scans n d v)"
proof -
  have "k_scanned k = (if k_dir k \<noteq> [] then fold scan_entry (sort_key fst (k_entries k)) [] else [])"
    using assms by (simp add: registry_ok_def Rescan_def)
  moreover have "gm_ok (k_entries k)" using assms by (simp add: registry_ok_def)
  ultimately show ?thesis
    using scan_entries_dom [of "sort_key fst (k_entries k)" "[]" v]
    by (auto simp: gm_ok_def map_of_eq_Some_iff)
qed

lemma Rescan_fields [simp]:
  "k_dir (Rescan k) = k_dir k" "k_baked (Rescan k) = k_baked k" "k_entries (Rescan k) = k_entries k"
  "k_archives (Rescan k) = k_archives k"
  by (simp_all add: Rescan_def)

lemma Rescan_ok: "gm_ok (k_entries k) \<Longrightarrow> registry_ok (Rescan k)"
  by (simp add: registry_ok_def Rescan_def)

lemma Has_scanned:
  "Has w v k \<longleftrightarrow> NormalizeVersion v \<noteq> []
     \<and> (map_of (k_scanned k) (NormalizeVersion v) \<noteq> None \<or> NormalizeVersion v = xray_version w (k_baked k))"
  by (simp add: Has_def Let_def)

lemma For_exact: "rs_exact (For w v k) \<longleftrightarrow> Has w v k"
  by (auto simp: For_def Has_def Let_def split: option.splits)

text \<open>An entry the panel could not use before is replaced or removed without losing another.\<close>

lemma Has_entries_mono:
  assumes "registry_ok k" "\<not> Has w v k" "Has w u k"
    and "gm_ok es" "\<And>n. n \<noteq> v \<Longrightarrow> map_of es n = map_of (k_entries k) n"
  shows "Has w u (Rescan (k\<lparr>k_entries := es\<rparr>))"
proof (cases "map_of (k_scanned k) (NormalizeVersion u)")
  case None
  then show ?thesis using assms(3) by (auto simp: Has_scanned)
next
  case (Some name)
  let ?k = "Rescan (k\<lparr>k_entries := es\<rparr>)"
  obtain n d where nd: "k_dir k \<noteq> []" "map_of (k_entries k) n = Some d" "scans n d (NormalizeVersion u)"
    using scanned_dom [OF assms(1)] Some by blast
  have "n \<noteq> v"
  proof
    assume "n = v"
    then have "NormalizeVersion v = NormalizeVersion u" using nd(3) by (auto simp: scans_def)
    then have "Has w v k" using assms(3) by (simp add: Has_scanned)
    then show False using assms(2) by simp
  qed
  then have "map_of es n = Some d" using nd(2) assms(5) by simp
  moreover have "registry_ok ?k" by (rule Rescan_ok) (use assms(4) in simp)
  ultimately have "map_of (k_scanned ?k) (NormalizeVersion u) \<noteq> None"
    using scanned_dom [of ?k "NormalizeVersion u"] nd(1,3) by auto
  then show ?thesis using assms(3) by (simp add: Has_scanned)
qed

lemma EnsureArchive_frame:
  assumes "EnsureArchive w v p url sha k = (r, k')"
  shows "\<exists>as. k' = k\<lparr>k_archives := as\<rparr>"
    and "r = Inr dest \<Longrightarrow> dest = ArchivePath v p \<and> Verify (o_sha256 w) (map_of (k_archives k') dest) sha = None"
  using assms
  by (force simp: EnsureArchive_def fetch_def Let_def split: if_splits sum.splits option.splits
      intro: exI [of _ "k_archives k"])+

lemma Install_cases:
  assumes "Install w v url sha k = (r, k')"
  obtains (same) as where "k' = k\<lparr>k_archives := as\<rparr>" "r = None \<Longrightarrow> k' = k \<and> Has w v k"
  | (installed) as archive files where "r = None" "\<not> Has w v k"
      "map_of as (ArchivePath v (o_platform w)) = Some archive"
      "Verify (o_sha256 w) (Some archive) sha = None" "Unpack (o_unzip w) archive = Inr files"
      "k' = Rescan (k\<lparr>k_archives := as, k_entries := AList.update v (Dir files) (k_entries k)\<rparr>)"
      "Has w v k'"
  | (undone) as es where "r \<noteq> None" "\<not> Has w v k"
      "k' = Rescan (k\<lparr>k_archives := as, k_entries := AList.delete v es\<rparr>)"
      "es = AList.update v (the (map_of es v)) (k_entries k)"
proof (cases "k_dir k = [] \<or> Has w v k")
  case True
  then show ?thesis using assms by (intro same [of "k_archives k"]) (auto simp: Install_def split: if_splits)
next
  case False
  obtain res k1 where e: "EnsureArchive w v (o_platform w) url sha k = (res, k1)" by fastforce
  obtain as where k1: "k1 = k\<lparr>k_archives := as\<rparr>" using EnsureArchive_frame(1) [OF e] by blast
  show ?thesis
  proof (cases res)
    case (Inl err)
    then show ?thesis using assms False e k1 by (intro same [of as]) (auto simp: Install_def)
  next
    case (Inr dest)
    note ok = EnsureArchive_frame(2) [OF e Inr]
    then obtain archive where a: "map_of as dest = Some archive" "Verify (o_sha256 w) (Some archive) sha = None"
      using k1 by (auto simp: Verify_ok)
    show ?thesis
    proof (cases "Unpack (o_unzip w) archive")
      case (Inl err)
      then show ?thesis using assms False e k1 Inr a by (intro same [of as]) (auto simp: Install_def)
    next
      case files: (Inr files)
      let ?k = "Rescan (k\<lparr>k_archives := as, k_entries := AList.update v (Dir files) (k_entries k)\<rparr>)"
      have i: "Install w v url sha k =
          (if Has w v ?k then (None, ?k)
           else (Some (Mislabelled v (rs_version (For w v ?k))),
                 Rescan (?k\<lparr>k_entries := AList.delete v (k_entries ?k)\<rparr>)))"
        using False e k1 Inr a files by (simp add: Install_def Let_def For_exact)
      have r: "Rescan (?k\<lparr>k_entries := es\<rparr>) = Rescan (k\<lparr>k_archives := as, k_entries := es\<rparr>)" for es
        by (simp add: Rescan_def)
      show ?thesis
      proof (cases "Has w v ?k")
        case True
        then show ?thesis using i assms False a ok files by (intro installed [of as archive files]) auto
      next
        case nothas: False
        then show ?thesis
          using i assms False r by (intro undone [of "AList.update v (Dir files) (k_entries k)" as]) auto
      qed
    qed
  qed
qed

section \<open>Properties\<close>

lemma Has_archives [simp]: "Has w u (k\<lparr>k_archives := as\<rparr>) = Has w u k"
  by (simp add: Has_scanned)

lemma registry_ok_archives [simp]: "registry_ok (k\<lparr>k_archives := as\<rparr>) = registry_ok k"
  by (simp add: registry_ok_def Rescan_def)

lemma Install_keeps:
  assumes "registry_ok k" "Install w v url sha k = (r, k')"
  shows "registry_ok k' \<and> (\<forall>u. Has w u k \<longrightarrow> Has w u k')"
proof -
  have ok: "gm_ok (k_entries k)" using assms(1) by (simp add: registry_ok_def)
  from assms(2) show ?thesis
  proof (cases rule: Install_cases)
    case (same as)
    then show ?thesis using assms(1) by simp
  next
    case (installed as archive files)
    have "Has w u k'" if "Has w u k" for u
      using Has_entries_mono [of "k\<lparr>k_archives := as\<rparr>" w v u "AList.update v (Dir files) (k_entries k)"]
        installed that assms(1) ok by (simp add: gm_ok_intros)
    moreover have "registry_ok k'" unfolding installed(6) by (rule Rescan_ok) (use ok in simp)
    ultimately show ?thesis by blast
  next
    case (undone as es)
    have es: "gm_ok es" by (subst undone(4)) (use ok in simp)
    have m: "map_of (AList.delete v es) n = map_of (k_entries k) n" if "n \<noteq> v" for n
      using that by (subst undone(4)) simp
    have "Has w u k'" if "Has w u k" for u
      using Has_entries_mono [of "k\<lparr>k_archives := as\<rparr>" w v u "AList.delete v es"] undone(2,3) that assms(1) es m
      by simp
    moreover have "registry_ok k'" unfolding undone(3) by (rule Rescan_ok) (use es in simp)
    ultimately show ?thesis by blast
  qed
qed

text \<open>Installing a kernel on the panel: whatever happens, no version the panel could validate with
  is lost and the registry still mirrors the directory. When it succeeds the panel has the version,
  and unless it had it before, the version's directory is what a whitelisting unpack made of an
  archive whose SHA-256 is the one given, a full one.\<close>

theorem panel_install_verified:
  assumes "registry_ok k" "Install w v url sha k = (r, k')"
  shows "registry_ok k' \<and> (\<forall>u. Has w u k \<longrightarrow> Has w u k')
    \<and> (r = None \<longrightarrow> Has w v k')
    \<and> (r = None \<and> \<not> Has w v k \<longrightarrow>
        (\<exists>archive files. map_of (k_archives k') (ArchivePath v (o_platform w)) = Some archive
           \<and> length sha = 64 \<and> to_lower (o_sha256 w archive) = to_lower sha
           \<and> Unpack (o_unzip w) archive = Inr files \<and> map_of (k_entries k') v = Some (Dir files)))"
proof -
  have "r = None \<longrightarrow> Has w v k'"
    using assms(2) by (cases rule: Install_cases) auto
  moreover have "r = None \<and> \<not> Has w v k \<longrightarrow>
        (\<exists>archive files. map_of (k_archives k') (ArchivePath v (o_platform w)) = Some archive
           \<and> length sha = 64 \<and> to_lower (o_sha256 w archive) = to_lower sha
           \<and> Unpack (o_unzip w) archive = Inr files \<and> map_of (k_entries k') v = Some (Dir files))"
    using assms(2) by (cases rule: Install_cases) (auto simp: Verify_ok)
  ultimately show ?thesis using Install_keeps [OF assms] by blast
qed

text \<open>An upstream whose archive hashes as announced and whose binary calls itself 1.0.0.\<close>

definition demo_outside :: outside where
  "demo_outside =
     \<lparr>o_list = (\<lambda>n. Inr []), o_get = (\<lambda>url. if url = ''https://a/x.zip'' then Inr ''ELF'' else Inl ''404''),
      o_sha256 = (\<lambda>b. replicate 64 (CHR ''a'')), o_unzip = demo_zip, o_run = (\<lambda>b. Some ''Xray 1.0.0 (demo)''),
      o_platform = ''linux/amd64''\<rparr>"

definition demo_kernels :: kernels where
  "demo_kernels = \<lparr>k_dir = ''/kernels'', k_baked = None, k_entries = [(''26.1.1'', Plain)], k_archives = [], k_scanned = []\<rparr>"

lemma demo_kernels_ok: "registry_ok demo_kernels"
  by (simp add: registry_ok_def gm_ok_def Rescan_def demo_kernels_def)

lemma demo_install:
  "fst (Install demo_outside ''26.7.11'' ''https://a/x.zip'' (replicate 64 (CHR ''A'')) demo_kernels) = None"
  "\<not> Has demo_outside ''26.7.11'' demo_kernels"
  by code_simp+

theorem panel_install_verified_witness:
  "Has demo_outside ''26.7.11''
     (snd (Install demo_outside ''26.7.11'' ''https://a/x.zip'' (replicate 64 (CHR ''A'')) demo_kernels))"
  using panel_install_verified [OF demo_kernels_ok surjective_pairing] demo_install(1) by blast

lemma xray_version_run:
  "(\<And>b. bin = Some b \<Longrightarrow> run b = o_run w b) \<Longrightarrow> xray_version (w\<lparr>o_run := run\<rparr>) bin = xray_version w bin"
  by (cases bin) (simp_all add: xray_version_def)

text \<open>The panel's install never asks the unpacked binary what it is: its outcome and the resulting
  state are the same whatever any binary but the panel's own prints as its version. An archive that
  hashes correctly but holds another build is installed under the requested version.\<close>

theorem panel_install_never_asks:
  assumes "\<forall>b. k_baked k = Some b \<longrightarrow> run b = o_run w b"
  shows "Install (w\<lparr>o_run := run\<rparr>) v url sha k = Install w v url sha k"
proof -
  have baked: "xray_version (w\<lparr>o_run := run\<rparr>) (k_baked k) = xray_version w (k_baked k)"
    by (rule xray_version_run) (use assms in simp)
  have "fetch (w\<lparr>o_run := run\<rparr>) d url sha k = fetch w d url sha k" for d
    by (simp add: fetch_def split: sum.splits)
  then have e: "EnsureArchive (w\<lparr>o_run := run\<rparr>) v p url sha k = EnsureArchive w v p url sha k" for p
    by (simp add: EnsureArchive_def Let_def cong: if_cong)
  obtain r k1 where k1: "EnsureArchive w v (o_platform w) url sha k = (r, k1)" by fastforce
  have b1: "k_baked k1 = k_baked k" using EnsureArchive_frame(1) [OF k1] by auto
  have "For (w\<lparr>o_run := run\<rparr>) v k2 = For w v k2" if "k_baked k2 = k_baked k" for k2
    using baked that by (simp add: For_def)
  moreover have "Has (w\<lparr>o_run := run\<rparr>) v k = Has w v k"
    using baked by (simp add: Has_def)
  ultimately show ?thesis
    using e k1 b1 by (simp add: Install_def Let_def split: sum.splits)
qed

theorem panel_install_never_asks_witness:
  "Install (demo_outside\<lparr>o_run := (\<lambda>b. Some ''Evil 6.6.6'')\<rparr>) ''26.7.11'' ''https://a/x.zip''
       (replicate 64 (CHR ''A'')) demo_kernels
     = Install demo_outside ''26.7.11'' ''https://a/x.zip'' (replicate 64 (CHR ''A'')) demo_kernels
   \<and> (let k = snd (Install demo_outside ''26.7.11'' ''https://a/x.zip'' (replicate 64 (CHR ''A'')) demo_kernels);
          got = For demo_outside ''26.7.11'' k
      in rs_exact got \<and> rs_version got = ''26.7.11'' \<and> xray_version demo_outside (rs_bin got) = ''1.0.0'')"
proof
  show "Install (demo_outside\<lparr>o_run := (\<lambda>b. Some ''Evil 6.6.6'')\<rparr>) ''26.7.11'' ''https://a/x.zip''
       (replicate 64 (CHR ''A'')) demo_kernels
     = Install demo_outside ''26.7.11'' ''https://a/x.zip'' (replicate 64 (CHR ''A'')) demo_kernels"
    by (rule panel_install_never_asks) (simp add: demo_kernels_def)
  show "let k = snd (Install demo_outside ''26.7.11'' ''https://a/x.zip'' (replicate 64 (CHR ''A'')) demo_kernels);
          got = For demo_outside ''26.7.11'' k
      in rs_exact got \<and> rs_version got = ''26.7.11'' \<and> xray_version demo_outside (rs_bin got) = ''1.0.0''"
    by code_simp
qed

lemma first_digest_shape: "first_digest ls \<noteq> [] \<Longrightarrow> length (first_digest ls) = 64 \<and> list_all is_hex (first_digest ls)"
  by (induction ls) (auto simp: digest_of_line_def Let_def split: option.splits if_splits)

text \<open>A running best, over any comparison.\<close>

context comparison
begin

lemma best_so_far:
  fixes f :: "'r \<Rightarrow> 'a" and skip unset :: "'r \<Rightarrow> bool"
  assumes "\<not> unset best" "\<forall>r\<in>set rs. \<not> skip r \<longrightarrow> \<not> unset r"
  defines "step \<equiv> \<lambda>best r. if skip r then best else if unset best \<or> cmp (f r) (f best) > 0 then r else best"
  shows "foldl step best rs \<in> insert best {r \<in> set rs. \<not> skip r} \<and> cmp (f best) (f (foldl step best rs)) \<le> 0
    \<and> (\<forall>r\<in>set rs. \<not> skip r \<longrightarrow> cmp (f r) (f (foldl step best rs)) \<le> 0)"
  using assms(1,2)
proof (induction rs arbitrary: best)
  case Nil
  then show ?case by (simp add: cmp_refl)
next
  case (Cons x rs)
  have next_best: "\<not> unset (step best x)" "step best x = best \<or> step best x = x \<and> \<not> skip x"
    "cmp (f best) (f (step best x)) \<le> 0" "\<not> skip x \<Longrightarrow> cmp (f x) (f (step best x)) \<le> 0"
    using Cons.prems cmp_refl [of "f best"] cmp_refl [of "f x"] cmp_swap [of "f x" "f best"]
    by (auto simp: step_def)
  have rest: "\<forall>r\<in>set rs. \<not> skip r \<longrightarrow> \<not> unset r" using Cons.prems(2) by simp
  note ih = Cons.IH [OF next_best(1) rest]
  have "cmp (f best) (f (foldl step (step best x) rs)) \<le> 0"
    "\<not> skip x \<Longrightarrow> cmp (f x) (f (foldl step (step best x) rs)) \<le> 0"
    using ih cmp_trans next_best(3,4) by blast+
  then show ?case using ih next_best(2) by auto
qed

end

interpretation cv: comparison CompareVersions
  by unfold_locales (unfold CompareVersions_lex, rule ver.cmp_swap, erule (1) ver.cmp_trans)

lemma pick_best:
  assumes "\<forall>r\<in>set rs. rl_version r \<noteq> []" "r0 \<in> set rs" "\<not> (rl_prerelease r0 \<and> \<not> pre)"
  shows "pickLatest rs pre \<in> {r \<in> set rs. \<not> (rl_prerelease r \<and> \<not> pre)}
    \<and> (\<forall>r\<in>set rs. \<not> (rl_prerelease r \<and> \<not> pre) \<longrightarrow>
         CompareVersions (rl_version r) (rl_version (pickLatest rs pre)) \<le> 0)"
  using assms
proof (induction rs)
  case (Cons x rs)
  let ?skip = "\<lambda>r. rl_prerelease r \<and> \<not> pre"
  show ?case
  proof (cases "?skip x")
    case True
    then have "pickLatest (x # rs) pre = pickLatest rs pre" by (simp add: pickLatest_def)
    then show ?thesis using Cons True by auto
  next
    case False
    have "pickLatest (x # rs) pre = foldl (\<lambda>best r. if ?skip r then best
        else if rl_version best = [] \<or> CompareVersions (rl_version r) (rl_version best) > 0 then r else best) x rs"
      unfolding pickLatest_def empty_release_def foldl_Cons if_not_P [OF False] by simp
    then show ?thesis
      using cv.best_so_far [where unset = "\<lambda>r. rl_version r = []" and best = x and rs = rs and skip = ?skip and f = rl_version] Cons.prems(1) False by auto
  qed
qed simp

text \<open>The release offered as the newest is one of the upstream list, not a draft, a prerelease only
  when those are followed, and no other eligible release compares newer, in whatever order upstream
  lists them.\<close>

theorem newest_release:
  assumes "r0 \<in> set (listFrom raw)" "\<not> rl_prerelease r0 \<or> pre" "\<forall>r\<in>set raw. NormalizeVersion (rw_tag_name r) \<noteq> []"
  defines "best \<equiv> pickLatest (listFrom raw) pre"
  shows "(\<exists>d\<in>set raw. best = release_of d \<and> \<not> rw_draft d) \<and> (rl_prerelease best \<longrightarrow> pre)
    \<and> (\<forall>d\<in>set raw. \<not> rw_draft d \<and> (rw_prerelease d \<longrightarrow> pre) \<longrightarrow>
         CompareVersions (NormalizeVersion (rw_tag_name d)) (rl_version best) \<le> 0)"
proof -
  have ne: "\<forall>r\<in>set (listFrom raw). rl_version r \<noteq> []"
    using assms(3) by (auto simp: listFrom_def release_of_def)
  have "\<not> (rl_prerelease r0 \<and> \<not> pre)" using assms(2) by simp
  note b = pick_best [OF ne assms(1) this, folded best_def]
  have "CompareVersions (NormalizeVersion (rw_tag_name d)) (rl_version best) \<le> 0"
    if d: "d \<in> set raw" "\<not> rw_draft d" "rw_prerelease d \<longrightarrow> pre" for d
  proof -
    have "release_of d \<in> set (listFrom raw)" using d by (auto simp: listFrom_def)
    then show ?thesis using b d(3) by (auto simp: release_of_def)
  qed
  then show ?thesis using b by (auto simp: listFrom_def)
qed

definition demo_raw :: "string \<Rightarrow> bool \<Rightarrow> bool \<Rightarrow> raw_release" where
  "demo_raw tag pre draft = \<lparr>rw_tag_name = tag, rw_prerelease = pre, rw_draft = draft, rw_published_at = 0, rw_assets = []\<rparr>"

theorem newest_release_witness:
  "CompareVersions (NormalizeVersion ''v26.3.27'')
     (rl_version (pickLatest (listFrom [demo_raw ''v26.3.27'' False False, demo_raw ''v26.10.1'' True False,
        demo_raw ''v27.1.1'' True True]) True)) \<le> 0"
proof -
  let ?raw = "[demo_raw ''v26.3.27'' False False, demo_raw ''v26.10.1'' True False, demo_raw ''v27.1.1'' True True]"
  have "release_of (demo_raw ''v26.3.27'' False False) \<in> set (listFrom ?raw)"
    by (simp add: listFrom_def demo_raw_def)
  moreover have "\<forall>r\<in>set ?raw. NormalizeVersion (rw_tag_name r) \<noteq> []" by code_simp
  ultimately show ?thesis
    using newest_release [of "release_of (demo_raw ''v26.3.27'' False False)" ?raw True]
    by (simp add: demo_raw_def)
qed

end
