(* ===== verification/ExitOutbound.thy ===== *)
theory ExitOutbound
  imports Json
begin

text \<open>
  Dialling somebody else's proxy: \<open>core/internal/external/outbound.go\<close>. A stored proxy is a clash proxy in
  YAML; a node that relays for it needs the same proxy as an Xray outbound in JSON.

  The YAML reader is a package outside the repository and an argument here. A decoded value is one of the types
  its decoder makes of a document; a \<open>float64\<close> carries its truncation to \<open>int\<close> and the literal
  \<open>json.Marshal\<close> prints for it, and a value of a type the code never looks at (a time, a large unsigned number)
  the JSON it prints. \<open>any_ok\<close> says these are JSON.

  The theorems: an outbound that is made carries the tag its routing rules name and dials the proxy's own server
  and port; a trojan proxy that says nothing about its security is dialled with TLS, one with an empty
  \<open>reality-opts\<close> is dialled in plain text; transports Xray no longer has are refused.
\<close>

section \<open>Decoded YAML\<close>

datatype any =
    ANil
  | ABool bool
  | AInt int
  | AFloat int string
  | AStr string
  | AList "any list"
  | AMap "(string \<times> any) list"
  | AAnyMap "(string \<times> any) list"
  | AOther json

type_synonym any_map = "(string \<times> any) list"

datatype outbound_error =
    NotYaml
  | NoServerPort
  | NoType
  | BadProtocol string
  | H2Removed
  | BadTransport string
  | NotJson

text \<open>\<open>v.(string)\<close> with the zero value for any other type, and its trimmed form \<open>str\<close>.\<close>

definition raw_str :: "any option \<Rightarrow> string" where
  "raw_str v = (case v of Some (AStr s) \<Rightarrow> s | _ \<Rightarrow> [])"

definition str :: "any option \<Rightarrow> string" where
  "str v = trim_space (raw_str v)"

definition firstOf :: "string list \<Rightarrow> string" where
  "firstOf vals = (case find (\<lambda>v. v \<noteq> []) vals of None \<Rightarrow> [] | Some v \<Rightarrow> v)"

definition intOf :: "any option \<Rightarrow> int" where
  "intOf v = (case v of Some (AInt n) \<Rightarrow> n | Some (AFloat n l) \<Rightarrow> n | _ \<Rightarrow> 0)"

definition is_true :: "any option \<Rightarrow> bool" where
  "is_true v \<longleftrightarrow> v = Some (ABool True)"

definition mapOf :: "any option \<Rightarrow> any_map option" where
  "mapOf v = (case v of Some (AMap m) \<Rightarrow> Some m | Some (AAnyMap m) \<Rightarrow> Some m | _ \<Rightarrow> None)"

definition listOf :: "any option \<Rightarrow> any list option" where
  "listOf v =
     (case v of
        Some (AList l) \<Rightarrow> if l = [] then None else Some l
      | Some (AStr s) \<Rightarrow> if s = [] then None else Some [AStr s]
      | _ \<Rightarrow> None)"

fun normalise :: "any \<Rightarrow> any" where
  "normalise (AMap m) = AMap (map (\<lambda>(k, v). (k, normalise v)) m)"
| "normalise (AAnyMap m) = AMap (map (\<lambda>(k, v). (k, normalise v)) m)"
| "normalise (AList l) = AList (map normalise l)"
| "normalise v = v"

text \<open>\<open>json.Marshal\<close> of a decoded value; a map with keys that are not strings is an error.\<close>

fun marshal_any :: "any \<Rightarrow> json option" where
  "marshal_any ANil = Some JNull"
| "marshal_any (ABool b) = Some (JBool b)"
| "marshal_any (AInt n) = Some (JNum (show_int n))"
| "marshal_any (AFloat n l) = Some (JNum l)"
| "marshal_any (AStr s) = Some (JStr s)"
| "marshal_any (AList l) = map_option JArr (those (map marshal_any l))"
| "marshal_any (AMap m) =
     map_option (\<lambda>vs. JObj (go_map (zip (map fst m) vs))) (those (map (\<lambda>e. marshal_any (snd e)) m))"
| "marshal_any (AAnyMap m) = None"
| "marshal_any (AOther j) = Some j"

section \<open>Security and transport\<close>

text \<open>\<open>if s != "" { m[k] = s }\<close>.\<close>

definition opt_str :: "string \<Rightarrow> string \<Rightarrow> any_map" where
  "opt_str k s = (if s = [] then [] else [(k, AStr s)])"

definition security_settings :: "any_map \<Rightarrow> any_map" where
  "security_settings p =
     (let sni = firstOf [str (map_of p ''servername''), str (map_of p ''sni'')];
          fp = str (map_of p ''client-fingerprint'')
      in case mapOf (map_of p ''reality-opts'') of
           Some ro \<Rightarrow>
             [(''security'', AStr ''reality''),
              (''realitySettings'', AMap ([(''serverName'', AStr sni), (''publicKey'', AStr (str (map_of ro ''public-key'')))]
                 @ opt_str ''shortId'' (str (map_of ro ''short-id'')) @ opt_str ''fingerprint'' fp))]
         | None \<Rightarrow>
             if is_true (map_of p ''tls'') then
               [(''security'', AStr ''tls''),
                (''tlsSettings'', AMap (opt_str ''serverName'' sni @ opt_str ''fingerprint'' fp
                   @ (if is_true (map_of p ''skip-cert-verify'') then [(''allowInsecure'', ABool True)] else [])
                   @ (case listOf (map_of p ''alpn'') of None \<Rightarrow> [] | Some l \<Rightarrow> [(''alpn'', AList l)])))]
             else [])"

definition some_headers :: "any_map \<Rightarrow> any_map" where
  "some_headers opts =
     (case mapOf (map_of opts ''headers'') of Some (h # hs) \<Rightarrow> [(''headers'', AMap (h # hs))] | _ \<Rightarrow> [])"

definition http_header :: "any_map \<Rightarrow> any" where
  "http_header opts =
     (let req = (case listOf (map_of opts ''path'') of None \<Rightarrow> [] | Some l \<Rightarrow> [(''path'', AList l)]) @ some_headers opts
      in AMap ((''type'', AStr ''http'') # (if req = [] then [] else [(''request'', AMap req)])))"

definition tcp_http :: "any_map \<Rightarrow> any_map" where
  "tcp_http opts = [(''network'', AStr ''tcp''), (''tcpSettings'', AMap [(''header'', http_header opts)])]"

definition ws_settings :: "any_map \<Rightarrow> any_map" where
  "ws_settings p =
     (case mapOf (map_of p ''ws-opts'') of
        None \<Rightarrow> [(''network'', AStr ''ws'')]
      | Some opts \<Rightarrow>
          (let path = opt_str ''path'' (str (map_of opts ''path'')); w = path @ some_headers opts
           in if is_true (map_of opts ''v2ray-http-upgrade'')
              then [(''network'', AStr ''httpupgrade''), (''httpupgradeSettings'', AMap path)]
              else (''network'', AStr ''ws'') # (if w = [] then [] else [(''wsSettings'', AMap w)])))"

definition grpc_settings :: "any_map \<Rightarrow> any_map" where
  "grpc_settings p =
     (''network'', AStr ''grpc'') #
       (case mapOf (map_of p ''grpc-opts'') of
          None \<Rightarrow> []
        | Some opts \<Rightarrow>
            (let svc = str (map_of opts ''grpc-service-name'')
             in if svc = [] then [] else [(''grpcSettings'', AMap [(''serviceName'', AStr svc)])]))"

definition xhttp_settings :: "any_map \<Rightarrow> any_map" where
  "xhttp_settings p =
     (let x = (case mapOf (map_of p ''xhttp-opts'') of
                 None \<Rightarrow> []
               | Some opts \<Rightarrow>
                   opt_str ''path'' (str (map_of opts ''path'')) @ opt_str ''host'' (str (map_of opts ''host''))
                   @ opt_str ''mode'' (str (map_of opts ''mode''))
                   @ (case map_of opts ''extra'' of None \<Rightarrow> [] | Some v \<Rightarrow> if v = ANil then [] else [(''extra'', normalise v)]))
      in (''network'', AStr ''xhttp'') # (if x = [] then [] else [(''xhttpSettings'', AMap x)]))"

definition transport_settings :: "any_map \<Rightarrow> (outbound_error, any_map) result" where
  "transport_settings p =
     (let net = str (map_of p ''network''); http_opts = mapOf (map_of p ''http-opts'')
      in if net = [] \<or> net = ''tcp'' then Inr (case http_opts of None \<Rightarrow> [] | Some opts \<Rightarrow> tcp_http opts)
         else if net = ''ws'' then Inr (ws_settings p)
         else if net = ''grpc'' then Inr (grpc_settings p)
         else if net = ''h2'' then Inl H2Removed
         else if net = ''http'' then Inr (tcp_http (case http_opts of None \<Rightarrow> [] | Some opts \<Rightarrow> opts))
         else if net = ''xhttp'' \<or> net = ''splithttp'' then Inr (xhttp_settings p)
         else Inl (BadTransport net))"

definition streamSettings :: "any_map \<Rightarrow> (outbound_error, any_map) result" where
  "streamSettings p = bind_result (transport_settings p) (\<lambda>t. Inr (security_settings p @ t))"

section \<open>The outbound\<close>

definition endpoint :: "string \<Rightarrow> int \<Rightarrow> any_map" where
  "endpoint server port = [(''address'', AStr server), (''port'', AInt port)]"

definition vnext :: "string \<Rightarrow> int \<Rightarrow> any_map \<Rightarrow> any" where
  "vnext server port user = AMap [(''vnext'', AList [AMap (endpoint server port @ [(''users'', AList [AMap user])])])]"

definition servers :: "string \<Rightarrow> int \<Rightarrow> any_map \<Rightarrow> any" where
  "servers server port rest = AMap [(''servers'', AList [AMap (endpoint server port @ rest)])]"

definition protocol_settings :: "any_map \<Rightarrow> string \<Rightarrow> int \<Rightarrow> (outbound_error, string \<times> any) result" where
  "protocol_settings p server port =
     (let typ = raw_str (map_of p ''type'');
          uuid = str (map_of p ''uuid''); password = str (map_of p ''password''); cipher = str (map_of p ''cipher'')
      in if typ = ''vless'' then
           Inr (typ, vnext server port
             ([(''id'', AStr uuid), (''encryption'', AStr ''none'')] @ opt_str ''flow'' (str (map_of p ''flow''))))
         else if typ = ''vmess'' then
           Inr (typ, vnext server port
             ([(''id'', AStr uuid), (''alterId'', AInt (intOf (map_of p ''alterId'')))] @ opt_str ''security'' cipher))
         else if typ = ''trojan'' then Inr (typ, servers server port [(''password'', AStr password)])
         else if typ = ''ss'' \<or> typ = ''shadowsocks'' then
           Inr (''shadowsocks'', servers server port [(''method'', AStr cipher), (''password'', AStr password)])
         else if typ = [] then Inl NoType
         else Inl (BadProtocol typ))"

text \<open>Clash leaves the security of trojan implicit.\<close>

definition implied_tls :: "any_map \<Rightarrow> any_map" where
  "implied_tls p =
     (if raw_str (map_of p ''type'') = ''trojan'' \<and> map_of p ''reality-opts'' = None \<and> map_of p ''tls'' = None
      then AList.update ''tls'' (ABool True) p else p)"

definition XrayOutbound ::
  "(string \<Rightarrow> any_map option) \<Rightarrow> string \<Rightarrow> string \<Rightarrow> (outbound_error, string) result" where
  "XrayOutbound yaml clashYAML tag =
     (case yaml clashYAML of
        None \<Rightarrow> Inl NotYaml
      | Some p \<Rightarrow>
          (let server = raw_str (map_of p ''server''); port = intOf (map_of p ''port'')
           in if server = [] \<or> port = 0 then Inl NoServerPort
              else
                bind_result (protocol_settings p server port) (\<lambda>(protocol, settings).
                bind_result (streamSettings (implied_tls p)) (\<lambda>ss.
                  case marshal_any (AMap ([(''tag'', AStr tag), (''protocol'', AStr protocol), (''settings'', settings)]
                         @ (if ss = [] then [] else [(''streamSettings'', AMap ss)]))) of
                    None \<Rightarrow> Inl NotJson
                  | Some j \<Rightarrow> Inr (json_pretty 0 j)))))"

section \<open>Lemmas\<close>

fun any_ok :: "any \<Rightarrow> bool" where
  "any_ok (AFloat n l) \<longleftrightarrow> num_lit l"
| "any_ok (AOther j) \<longleftrightarrow> json_ok j"
| "any_ok (AList l) \<longleftrightarrow> list_all any_ok l"
| "any_ok (AMap m) \<longleftrightarrow> list_all (\<lambda>e. any_ok (snd e)) m"
| "any_ok (AAnyMap m) \<longleftrightarrow> list_all (\<lambda>e. any_ok (snd e)) m"
| "any_ok v \<longleftrightarrow> True"

lemma show_nat_hd: "0 < n \<Longrightarrow> hd (show_nat n) \<noteq> CHR ''0''"
proof (induction n rule: show_nat.induct)
  case (1 n)
  have "digit_char n \<noteq> CHR ''0''" if "n < 10"
    using 1(2) digit_val_char [OF that] by (auto simp: digit_val_def)
  moreover have "show_nat (n div 10) \<noteq> []" by simp
  ultimately show ?case using 1 by (subst show_nat.simps) (auto simp: hd_append)
qed

lemma scan_unsigned_show_nat: "scan_unsigned (show_nat n) = Some (show_nat n, [])"
proof -
  have digits: "list_all is_digit (show_nat n)" by (rule show_nat_digits)
  then have all: "takeWhile is_digit (show_nat n) = show_nat n" "dropWhile is_digit (show_nat n) = []"
    by (auto simp: list_all_iff)
  have "scan_int (show_nat n) = Some (show_nat n, [])"
  proof (cases "n = 0")
    case True
    then have "show_nat n = ''0''" by (subst show_nat.simps) (simp add: digit_char_def, code_simp)
    then show ?thesis by (simp add: scan_int_def)
  next
    case False
    then show ?thesis
      using show_nat_hd [of n] all by (cases "show_nat n") (auto simp: scan_int_def scan_digits_def)
  qed
  then show ?thesis by (simp add: scan_unsigned_def scan_frac_def scan_exp_def)
qed

lemma num_lit_show_int [simp]: "num_lit (show_int n)"
proof (cases "n < 0")
  case True
  then show ?thesis by (simp add: num_lit_def show_int_def read_num_def scan_unsigned_show_nat)
next
  case False
  have "\<not> is_digit CHR ''-''" by code_simp
  then have "hd (show_nat (nat n)) \<noteq> CHR ''-''"
    using show_nat_no_char by (metis hd_in_set show_nat_nonempty)
  with False show ?thesis
    using read_num_unsigned [of "show_nat (nat n)" "[]"] by (simp add: num_lit_def show_int_def scan_unsigned_show_nat)
qed

lemma those_Some: "those xs = Some ys \<longleftrightarrow> xs = map Some ys"
proof (induction xs arbitrary: ys)
  case (Cons x xs)
  then show ?case by (cases x; cases ys) auto
qed auto

lemma map_of_go_map: "map_of (go_map kvs) = map_of (rev kvs)"
  by (induction kvs rule: rev_induct) (auto simp: go_map_snoc fun_eq_iff simp: go_map_def)

lemma map_of_rev_distinct: "distinct (map fst m) \<Longrightarrow> map_of (rev m) = map_of m"
  by (rule map_of_eqI) (auto simp: rev_map [symmetric] dest: map_of_is_SomeI weak_map_of_SomeI)

lemma marshal_ok: "any_ok v \<Longrightarrow> marshal_any v = Some j \<Longrightarrow> json_ok j"
proof (induction v arbitrary: j rule: marshal_any.induct)
  case (6 l)
  then obtain js where js: "map marshal_any l = map Some js" "j = JArr js" by (auto simp: those_Some)
  have "json_ok x" if "x \<in> set js" for x
  proof -
    have "Some x \<in> set (map marshal_any l)" using js(1) that by simp
    then obtain v where v: "v \<in> set l" "marshal_any v = Some x" by auto
    then show ?thesis using 6(1) 6(2) by (auto simp: list_all_iff)
  qed
  then show ?case using js by (simp add: list_all_iff)
next
  case (7 m)
  then obtain js where js: "map (\<lambda>e. marshal_any (snd e)) m = map Some js" "j = JObj (go_map (zip (map fst m) js))"
    by (auto simp: those_Some)
  have "json_ok x" if "x \<in> set js" for x
  proof -
    have "Some x \<in> set (map (\<lambda>e. marshal_any (snd e)) m)" using js(1) that by simp
    then obtain e where e: "e \<in> set m" "marshal_any (snd e) = Some x" by auto
    then show ?thesis using 7(1) 7(2) by (auto simp: list_all_iff)
  qed
  then have "list_all (\<lambda>e. json_ok (snd e)) (zip (map fst m) js)"
    by (auto simp: list_all_iff dest: set_zip_rightD)
  then show ?case using js by (simp add: go_map_ok)
qed auto

text \<open>Reading a marshalled map is reading the map.\<close>

lemma marshal_get:
  assumes "marshal_any (AMap m) = Some j" and "distinct (map fst m)"
  shows "\<exists>ms. j = JObj ms \<and> (\<forall>k. map_of ms k = (case map_of m k of None \<Rightarrow> None | Some v \<Rightarrow> marshal_any v))"
proof -
  obtain js where js: "map (\<lambda>e. marshal_any (snd e)) m = map Some js" "j = JObj (go_map (zip (map fst m) js))"
    using assms(1) by (auto simp: those_Some)
  have len: "length m = length js" using arg_cong [OF js(1), of length] by simp
  have "map_of (zip (map fst m) js) k = (case map_of m k of None \<Rightarrow> None | Some v \<Rightarrow> marshal_any v)" for k
    using len js(1)
  proof (induction m js rule: list_induct2)
    case (Cons e m j js)
    then show ?case by (cases e) auto
  qed simp
  moreover have "map_of (rev (zip (map fst m) js)) = map_of (zip (map fst m) js)"
    using assms(2) len by (intro map_of_rev_distinct) simp
  ultimately show ?thesis using js(2) by (auto simp: map_of_go_map)
qed

text \<open>Where an outbound connects to, and how it is protected, read from its JSON.\<close>

fun field_of :: "string \<Rightarrow> json option \<Rightarrow> json option" where
  "field_of k (Some (JObj m)) = map_of m k"
| "field_of k _ = None"

fun head_of :: "json option \<Rightarrow> json option" where
  "head_of (Some (JArr (x # xs))) = Some x"
| "head_of _ = None"

definition dial_target :: "json option \<Rightarrow> json option \<times> json option" where
  "dial_target ob =
     (let s = field_of ''settings'' ob;
          peer = head_of (if field_of ''vnext'' s \<noteq> None then field_of ''vnext'' s else field_of ''servers'' s)
      in (field_of ''address'' peer, field_of ''port'' peer))"

definition security_of :: "json option \<Rightarrow> json option" where
  "security_of ob = field_of ''security'' (field_of ''streamSettings'' ob)"

lemma field_marshal:
  assumes "distinct (map fst m)" and "marshal_any (AMap m) \<noteq> None"
  shows "field_of k (marshal_any (AMap m)) = (case map_of m k of None \<Rightarrow> None | Some v \<Rightarrow> marshal_any v)"
proof -
  obtain j where "marshal_any (AMap m) = Some j" using assms(2) by blast
  with marshal_get [OF this assms(1)] show ?thesis by (auto simp del: marshal_any.simps)
qed

lemma marshal_member:
  assumes "marshal_any (AMap m) \<noteq> None" and "map_of m k = Some v"
  shows "marshal_any v \<noteq> None"
proof -
  obtain js where "map (\<lambda>e. marshal_any (snd e)) m = map Some js"
    using assms(1) by (auto simp: those_Some)
  then have "marshal_any (snd e) \<in> Some ` set js" if "e \<in> set m" for e
    using that by (metis image_eqI list.set_map)
  then show ?thesis using map_of_SomeD [OF assms(2)] by force
qed

lemma head_marshal: "marshal_any (AList [v]) \<noteq> None \<Longrightarrow> head_of (marshal_any (AList [v])) = marshal_any v"
  by (cases "marshal_any v") auto

lemma marshal_one: "marshal_any (AList [v]) \<noteq> None \<Longrightarrow> marshal_any v \<noteq> None"
  by (cases "marshal_any v") auto

lemma peer_target:
  assumes "marshal_any (AMap (endpoint server port @ rest)) \<noteq> None" and "distinct (map fst (endpoint server port @ rest))"
  shows "field_of ''address'' (marshal_any (AMap (endpoint server port @ rest))) = Some (JStr server)"
    and "field_of ''port'' (marshal_any (AMap (endpoint server port @ rest))) = Some (JNum (show_int port))"
  unfolding field_marshal [OF assms(2,1)] by (simp_all add: endpoint_def)

lemma settings_target:
  assumes "protocol_settings p server port = Inr (protocol, settings)" and "marshal_any settings \<noteq> None"
    and "field_of ''settings'' ob = marshal_any settings"
  shows "dial_target ob = (Some (JStr server), Some (JNum (show_int port)))"
proof -
  consider (vnext) user where "settings = vnext server port user"
    | (servers) rest where "settings = servers server port rest" "distinct (map fst (endpoint server port @ rest))"
    using assms(1) by (auto simp: protocol_settings_def Let_def endpoint_def split: if_splits)
  then show ?thesis
  proof cases
    case vnext
    let ?peer = "AMap (endpoint server port @ [(''users'', AList [AMap user])])"
    have s: "settings = AMap [(''vnext'', AList [?peer])]" using vnext by (simp add: vnext_def)
    have ok: "marshal_any (AList [?peer]) \<noteq> None"
      using assms(2) unfolding s by (rule marshal_member) simp
    have "field_of ''vnext'' (marshal_any settings) = marshal_any (AList [?peer])"
      using assms(2) field_marshal [of "[(''vnext'', AList [?peer])]" "''vnext''"] by (simp add: s del: marshal_any.simps)
    moreover have "marshal_any ?peer \<noteq> None" using ok by (rule marshal_one)
    ultimately show ?thesis
      using ok assms(3) peer_target [of server port] head_marshal [OF ok]
      by (simp add: dial_target_def Let_def endpoint_def del: marshal_any.simps)
  next
    case servers
    let ?peer = "AMap (endpoint server port @ rest)"
    have s: "settings = AMap [(''servers'', AList [?peer])]" using servers by (simp add: servers_def)
    have ok: "marshal_any (AList [?peer]) \<noteq> None"
      using assms(2) unfolding s by (rule marshal_member) simp
    have "field_of ''servers'' (marshal_any settings) = marshal_any (AList [?peer])"
      "field_of ''vnext'' (marshal_any settings) = None"
      using assms(2) field_marshal [of "[(''servers'', AList [?peer])]"] by (simp_all add: s del: marshal_any.simps)
    moreover have "marshal_any ?peer \<noteq> None" using ok by (rule marshal_one)
    ultimately show ?thesis
      using ok assms(3) peer_target [of server port rest] servers(2) head_marshal [OF ok]
      by (simp add: dial_target_def Let_def del: marshal_any.simps)
  qed
qed

text \<open>The steps of a conversion that succeeds.\<close>

lemma outbound_steps:
  assumes "XrayOutbound yaml clash tag = Inr out" and "yaml clash = Some p"
  obtains protocol settings ss j where
    "protocol_settings p (raw_str (map_of p ''server'')) (intOf (map_of p ''port'')) = Inr (protocol, settings)"
    "streamSettings (implied_tls p) = Inr ss"
    "marshal_any (AMap ([(''tag'', AStr tag), (''protocol'', AStr protocol), (''settings'', settings)]
        @ (if ss = [] then [] else [(''streamSettings'', AMap ss)]))) = Some j"
    "out = json_pretty 0 j" "raw_str (map_of p ''server'') \<noteq> []" "intOf (map_of p ''port'') \<noteq> 0"
  using assms by (auto simp: XrayOutbound_def Let_def bind_result_def simp del: marshal_any.simps split: if_splits sum.splits option.splits)

lemma str_ok [simp]: "any_ok (AStr s)" "list_all (\<lambda>e. any_ok (snd e)) (opt_str k s)"
  by (simp_all add: opt_str_def)

lemma any_ok_parts:
  assumes "list_all (\<lambda>e. any_ok (snd e)) p"
  shows "mapOf (map_of p k) = Some m \<Longrightarrow> list_all (\<lambda>e. any_ok (snd e)) m"
    and "listOf (map_of p k) = Some l \<Longrightarrow> list_all any_ok l"
proof -
  have v: "any_ok v" if "map_of p k = Some v" for v
    using assms map_of_SomeD [OF that] by (auto simp: list_all_iff)
  show "mapOf (map_of p k) = Some m \<Longrightarrow> list_all (\<lambda>e. any_ok (snd e)) m"
    using v by (auto simp: mapOf_def split: option.splits any.splits)
  show "listOf (map_of p k) = Some l \<Longrightarrow> list_all any_ok l"
    using v by (auto simp: listOf_def split: option.splits any.splits if_splits)
qed

lemma normalise_ok: "any_ok v \<Longrightarrow> any_ok (normalise v)"
  by (induction v rule: normalise.induct) (auto simp: list_all_iff)

lemma transport_cases:
  assumes "transport_settings p = Inr t"
  obtains (none) "t = []"
    | (tcp) opts where "t = tcp_http opts" "opts = [] \<or> mapOf (map_of p ''http-opts'') = Some opts"
    | (ws) "t = ws_settings p" | (grpc) "t = grpc_settings p" | (xhttp) "t = xhttp_settings p"
  using assms unfolding transport_settings_def Let_def by (auto split: if_splits option.splits)

lemma stream_ok:
  assumes "list_all (\<lambda>e. any_ok (snd e)) p" and "streamSettings p = Inr ss"
  shows "list_all (\<lambda>e. any_ok (snd e)) ss"
proof -
  note parts = any_ok_parts [OF assms(1)]
  have headers: "list_all (\<lambda>e. any_ok (snd e)) (some_headers opts)" if "list_all (\<lambda>e. any_ok (snd e)) opts" for opts
    using any_ok_parts(1) [OF that, of "''headers''"] by (auto simp: some_headers_def split: option.splits list.splits)
  have tcp_ok: "list_all (\<lambda>e. any_ok (snd e)) (tcp_http opts)" if "list_all (\<lambda>e. any_ok (snd e)) opts" for opts
    using any_ok_parts(2) [OF that, of "''path''"] headers [OF that]
    by (auto simp: tcp_http_def http_header_def Let_def split: option.splits)
  have ws: "list_all (\<lambda>e. any_ok (snd e)) (ws_settings p)"
    using parts(1) [of "''ws-opts''"] headers by (auto simp: ws_settings_def Let_def split: option.splits)
  have grpc: "list_all (\<lambda>e. any_ok (snd e)) (grpc_settings p)"
    by (auto simp: grpc_settings_def Let_def split: option.splits)
  have extra: "any_ok (normalise v)" if "mapOf (map_of p ''xhttp-opts'') = Some opts" "map_of opts ''extra'' = Some v" for opts v
    using parts(1) [OF that(1)] bspec [OF _ map_of_SomeD [OF that(2)], of "\<lambda>e. any_ok (snd e)"]
    by (intro normalise_ok) (simp add: list_all_iff)
  have xhttp: "list_all (\<lambda>e. any_ok (snd e)) (xhttp_settings p)"
    using extra by (auto simp: xhttp_settings_def Let_def simp del: normalise.simps split: option.splits)
  have "list_all (\<lambda>e. any_ok (snd e)) (security_settings p)"
    using parts(2) [of "''alpn''"]
    by (cases "mapOf (map_of p ''reality-opts'')"; cases "listOf (map_of p ''alpn'')") (simp_all add: security_settings_def Let_def)
  moreover have "list_all (\<lambda>e. any_ok (snd e)) t" if "transport_settings p = Inr t" for t
    using that
  proof (cases rule: transport_cases)
    case (tcp opts)
    then show ?thesis using tcp_ok parts(1) [of "''http-opts''"] by auto
  qed (simp_all add: ws grpc xhttp)
  ultimately show ?thesis
    using assms(2) by (auto simp: streamSettings_def bind_result_def split: sum.splits)
qed

lemma protocol_ok: "protocol_settings p server port = Inr (protocol, settings) \<Longrightarrow> any_ok settings"
  by (auto simp: protocol_settings_def Let_def vnext_def servers_def endpoint_def split: if_splits)

lemma implied_tls_ok: "list_all (\<lambda>e. any_ok (snd e)) p \<Longrightarrow> list_all (\<lambda>e. any_ok (snd e)) (implied_tls p)"
proof -
  assume "list_all (\<lambda>e. any_ok (snd e)) p"
  then have "list_all (\<lambda>e. any_ok (snd e)) (AList.update k (ABool True) p)" for k
    by (induction p) auto
  with \<open>list_all _ p\<close> show ?thesis by (simp add: implied_tls_def)
qed

lemma outbound_fields:
  assumes "XrayOutbound yaml clash tag = Inr out" and "yaml clash = Some p" and "list_all (\<lambda>e. any_ok (snd e)) p"
  obtains protocol settings ss where
    "protocol_settings p (raw_str (map_of p ''server'')) (intOf (map_of p ''port'')) = Inr (protocol, settings)"
    "streamSettings (implied_tls p) = Inr ss" "marshal_any settings \<noteq> None" "ss \<noteq> [] \<longrightarrow> marshal_any (AMap ss) \<noteq> None"
    "field_of ''tag'' (json_parse out) = Some (JStr tag)" "field_of ''protocol'' (json_parse out) = Some (JStr protocol)"
    "field_of ''settings'' (json_parse out) = marshal_any settings"
    "field_of ''streamSettings'' (json_parse out) = (if ss = [] then None else marshal_any (AMap ss))"
proof -
  obtain protocol settings ss j where steps:
    "protocol_settings p (raw_str (map_of p ''server'')) (intOf (map_of p ''port'')) = Inr (protocol, settings)"
    "streamSettings (implied_tls p) = Inr ss"
    and j: "marshal_any (AMap ([(''tag'', AStr tag), (''protocol'', AStr protocol), (''settings'', settings)]
        @ (if ss = [] then [] else [(''streamSettings'', AMap ss)]))) = Some j"
    and out: "out = json_pretty 0 j"
    using outbound_steps [OF assms(1,2)] by metis
  let ?m = "[(''tag'', AStr tag), (''protocol'', AStr protocol), (''settings'', settings)]
        @ (if ss = [] then [] else [(''streamSettings'', AMap ss)])"
  have "any_ok (AMap ?m)"
    using protocol_ok [OF steps(1)] stream_ok [OF implied_tls_ok [OF assms(3)] steps(2)] by simp
  then have parse: "json_parse out = marshal_any (AMap ?m)"
    using marshal_ok [OF _ j] j by (simp add: out del: marshal_any.simps json_show.simps)
  have dist: "distinct (map fst ?m)" by simp
  have ok: "marshal_any (AMap ?m) \<noteq> None" unfolding j by blast
  note get = field_marshal [OF dist ok]
  have "marshal_any settings \<noteq> None" by (rule marshal_member [OF ok, of "''settings''"]) simp
  moreover have "ss \<noteq> [] \<longrightarrow> marshal_any (AMap ss) \<noteq> None"
    using marshal_member [OF ok, of "''streamSettings''" "AMap ss"] by (auto simp del: marshal_any.simps)
  ultimately show ?thesis
    using that [OF steps] get unfolding parse by (simp del: marshal_any.simps add: marshal_any.simps(5))
qed

lemma transport_keys:
  assumes "transport_settings p = Inr t"
  shows "distinct (map fst t)" and "''security'' \<notin> set (map fst t)" and "''tlsSettings'' \<notin> set (map fst t)"
proof -
  let ?K = "\<lambda>t :: any_map. distinct (map fst t) \<and> ''security'' \<notin> set (map fst t) \<and> ''tlsSettings'' \<notin> set (map fst t)"
  have "?K t" using assms
  proof (cases rule: transport_cases)
    case grpc
    then show ?thesis by (cases "mapOf (map_of p ''grpc-opts'')") (simp_all add: grpc_settings_def Let_def)
  qed (simp_all add: tcp_http_def ws_settings_def xhttp_settings_def Let_def split: option.split)
  then show "distinct (map fst t)" "''security'' \<notin> set (map fst t)" "''tlsSettings'' \<notin> set (map fst t)" by simp_all
qed

section \<open>Properties\<close>

text \<open>An outbound made for a stored proxy carries the tag the routing rules name and connects to the server and
  the port the proxy names, whatever its protocol, security and transport.\<close>

theorem exit_outbound_dials:
  assumes "XrayOutbound yaml clash tag = Inr out" and "yaml clash = Some p" and "list_all (\<lambda>e. any_ok (snd e)) p"
  shows "field_of ''tag'' (json_parse out) = Some (JStr tag)
    \<and> dial_target (json_parse out) = (Some (JStr (raw_str (map_of p ''server''))), Some (JNum (show_int (intOf (map_of p ''port'')))))"
proof -
  obtain protocol settings ss where
    "protocol_settings p (raw_str (map_of p ''server'')) (intOf (map_of p ''port'')) = Inr (protocol, settings)"
    and tag: "field_of ''tag'' (json_parse out) = Some (JStr tag)"
    and "marshal_any settings \<noteq> None" "field_of ''settings'' (json_parse out) = marshal_any settings"
    using outbound_fields [OF assms] by metis
  from settings_target [OF this(1) this(3) this(4)] tag show ?thesis by simp
qed

definition demo_trojan :: any_map where
  "demo_trojan = [(''type'', AStr ''trojan''), (''server'', AStr ''t.example''), (''port'', AInt 443), (''password'', AStr ''pw'')]"

definition demo_outbound :: "any_map \<Rightarrow> string" where
  "demo_outbound p = projr (XrayOutbound (\<lambda>_. Some p) ''doc'' ''exit-7'')"

lemma demo_outbound_ok: "XrayOutbound (\<lambda>_. Some demo_trojan) ''doc'' ''exit-7'' = Inr (demo_outbound demo_trojan)"
  by code_simp

theorem exit_outbound_dials_witness:
  "dial_target (json_parse (demo_outbound demo_trojan)) = (Some (JStr ''t.example''), Some (JNum ''443''))"
proof -
  have "show_int 443 = ''443''" by code_simp
  then show ?thesis
    using exit_outbound_dials [OF demo_outbound_ok, of demo_trojan] by (simp add: demo_trojan_def raw_str_def intOf_def)
qed

text \<open>A trojan proxy that says nothing about its security is dialled with TLS: the protocol has no plain text
  mode, so a proxy that leaves it out means TLS.\<close>

theorem trojan_speaks_tls:
  assumes "XrayOutbound yaml clash tag = Inr out" and "yaml clash = Some p" and "list_all (\<lambda>e. any_ok (snd e)) p"
    and "raw_str (map_of p ''type'') = ''trojan''" and "map_of p ''tls'' = None" and "map_of p ''reality-opts'' = None"
  shows "security_of (json_parse out) = Some (JStr ''tls'')"
proof -
  obtain ss where ss: "streamSettings (implied_tls p) = Inr ss" and ok: "ss \<noteq> [] \<longrightarrow> marshal_any (AMap ss) \<noteq> None"
    and field: "field_of ''streamSettings'' (json_parse out) = (if ss = [] then None else marshal_any (AMap ss))"
    using outbound_fields [OF assms(1,2,3)] by metis
  have p: "implied_tls p = AList.update ''tls'' (ABool True) p" using assms(4,5,6) by (simp add: implied_tls_def)
  have "map_of (AList.update ''tls'' (ABool True) p) ''reality-opts'' = None"
    "map_of (AList.update ''tls'' (ABool True) p) ''tls'' = Some (ABool True)"
    using assms(6) by simp_all
  then obtain x where sec: "security_settings (implied_tls p) = [(''security'', AStr ''tls''), (''tlsSettings'', x)]"
    unfolding p security_settings_def Let_def is_true_def mapOf_def by (simp del: gm_get_put)
  obtain t where t: "transport_settings (implied_tls p) = Inr t" and ss_eq: "ss = security_settings (implied_tls p) @ t"
    using ss by (auto simp: streamSettings_def bind_result_def split: sum.splits)
  note keys = transport_keys [OF t]
  have "map_of ss ''security'' = Some (AStr ''tls'')" using ss_eq sec by simp
  moreover have "distinct (map fst ss)" using keys by (auto simp: ss_eq sec)
  ultimately show ?thesis
    using field ok ss_eq sec field_marshal [of ss "''security''"] by (simp add: security_of_def del: marshal_any.simps(7))
qed

theorem trojan_speaks_tls_witness: "security_of (json_parse (demo_outbound demo_trojan)) = Some (JStr ''tls'')"
  by (rule trojan_speaks_tls [OF demo_outbound_ok refl]) (simp_all add: demo_trojan_def raw_str_def)

text \<open>A trojan proxy whose \<open>reality-opts\<close> is there and empty gets neither REALITY nor TLS: the presence of the
  key suppresses the implied TLS, and a value that is no map is not REALITY. The outbound is made without an error
  and speaks plain text.\<close>

theorem trojan_plaintext:
  "\<exists>out. XrayOutbound (\<lambda>_. Some (demo_trojan @ [(''reality-opts'', ANil)])) ''doc'' ''exit-7'' = Inr out
     \<and> security_of (json_parse out) = None"
  by (rule exI [of _ "demo_outbound (demo_trojan @ [(''reality-opts'', ANil)])"]) code_simp

end
