(* ===== verification/External.thy ===== *)
theory External
  imports AccessSpec
begin

text \<open>
  Other people's nodes: \<open>core/internal/store/external.go\<close>. A source is a subscription of somebody else; its
  proxies are replaced at every refresh, matched to the rows they had by name and then by endpoint, so that
  what the operator set for a proxy and who may use it stay with it. A proxy may be dialled through a node of
  the fleet or through another proxy.

  The access tables read three columns of a proxy; \<open>set_proxies\<close> keeps the two views of the table in step.
  Absent chains and names are \<open>NULL\<close> in the table and empty here. Deleting a proxy also deletes credentials and
  egress rules that leave through it; those tables are not part of this state.

  The theorems: the chain check is complete although it is bounded, so chains between proxies stay free of
  loops; a refresh opens nothing to anybody and keeps the settings of every row that survives; but the one
  pass over the fresh list lets a renamed proxy take the row of a proxy that still carries its name.
\<close>

section \<open>Tables\<close>

record ext_sub =
  xs_id :: id
  xs_name :: string
  xs_url :: string
  xs_body :: string
  xs_enabled :: bool
  xs_fetched_at :: "int option"
  xs_last_error :: string
  xs_created_at :: int
  xs_updated_at :: int

record external_proxy =
  xp_id :: id
  xp_sub_id :: id
  xp_name :: string
  xp_type :: string
  xp_server :: string
  xp_port :: int
  xp_config :: string
  xp_display_name :: string
  xp_chain_node_id :: id
  xp_chain_proxy_id :: id
  xp_enabled :: bool
  xp_ord :: int
  xp_sort_order :: int
  xp_traffic_rate :: rat
  xp_relay_exposed :: bool

definition Relayed :: "external_proxy \<Rightarrow> bool" where
  "Relayed p \<longleftrightarrow> xp_chain_node_id p \<noteq> []"

definition Label :: "external_proxy \<Rightarrow> string" where
  "Label p = (if xp_display_name p \<noteq> [] then xp_display_name p else xp_name p)"

text \<open>The target, and whether it is another proxy; \<^term>\<open>None\<close> for a direct dial.\<close>

definition ChainTarget :: "external_proxy \<Rightarrow> (id \<times> bool) option" where
  "ChainTarget p =
     (if xp_chain_proxy_id p \<noteq> [] then Some (xp_chain_proxy_id p, True)
      else if xp_chain_node_id p \<noteq> [] then Some (xp_chain_node_id p, False)
      else None)"

record ext_db =
  xd_subs :: "ext_sub list"
  xd_proxies :: "external_proxy list"
  xd_access :: access_db

definition access_row :: "external_proxy \<Rightarrow> ext_proxy" where
  "access_row p = \<lparr>x_id = xp_id p, x_sort_order = xp_sort_order p, x_traffic_rate = xp_traffic_rate p\<rparr>"

definition set_proxies :: "external_proxy list \<Rightarrow> ext_db \<Rightarrow> ext_db" where
  "set_proxies ps db = db\<lparr>xd_proxies := ps, xd_access := (xd_access db)\<lparr>ad_proxies := map access_row ps\<rparr>\<rparr>"

definition ext_inv :: "ext_db \<Rightarrow> bool" where
  "ext_inv db \<longleftrightarrow>
     access_inv (xd_access db) \<and> ad_proxies (xd_access db) = map access_row (xd_proxies db)
     \<and> distinct (map xs_id (xd_subs db)) \<and> distinct (map xs_name (xd_subs db))
     \<and> list_all (\<lambda>p. xp_id p \<noteq> [] \<and> xp_sub_id p \<in> set (map xs_id (xd_subs db))
          \<and> (xp_chain_proxy_id p = [] \<or> xp_chain_proxy_id p \<in> set (map xp_id (xd_proxies db)))) (xd_proxies db)"

section \<open>Sources\<close>

definition CreateExternalSub ::
  "id \<Rightarrow> int \<Rightarrow> string \<Rightarrow> string \<Rightarrow> string \<Rightarrow> ext_db \<Rightarrow> (db_error, ext_sub \<times> ext_db) result" where
  "CreateExternalSub newid now name url body db =
     (let e = \<lparr>xs_id = newid, xs_name = name, xs_url = url, xs_body = body, xs_enabled = True, xs_fetched_at = None,
               xs_last_error = [], xs_created_at = now, xs_updated_at = now\<rparr>
      in if newid \<in> set (map xs_id (xd_subs db)) \<or> name \<in> set (map xs_name (xd_subs db)) then Inl UniqueViolation
         else Inr (e, db\<lparr>xd_subs := xd_subs db @ [e]\<rparr>))"

definition GetExternalSub :: "id \<Rightarrow> ext_db \<Rightarrow> (db_error, ext_sub) result" where
  "GetExternalSub i db =
     (case sql_row (\<lambda>e. xs_id e = i) (xd_subs db) of None \<Rightarrow> Inl ErrNoRows | Some e \<Rightarrow> Inr e)"

definition UpdateExternalSub ::
  "id \<Rightarrow> string \<Rightarrow> string \<Rightarrow> bool \<Rightarrow> int \<Rightarrow> ext_db \<Rightarrow> (db_error, ext_db) result" where
  "UpdateExternalSub i name url enabled now db =
     (if i \<notin> set (map xs_id (xd_subs db)) then Inl ErrNoRows
      else if list_ex (\<lambda>e. xs_id e \<noteq> i \<and> xs_name e = name) (xd_subs db) then Inl UniqueViolation
      else Inr (db\<lparr>xd_subs := sql_update (\<lambda>e. xs_id e = i)
             (\<lambda>e. e\<lparr>xs_name := name, xs_url := url, xs_enabled := enabled, xs_updated_at := now\<rparr>) (xd_subs db)\<rparr>))"

text \<open>A deleted proxy takes its access rows with it and leaves the proxies dialled through it direct.\<close>

definition unchain :: "id \<Rightarrow> external_proxy \<Rightarrow> external_proxy" where
  "unchain x p = (if xp_chain_proxy_id p = x then p\<lparr>xp_chain_proxy_id := []\<rparr> else p)"

definition delete_proxy :: "id \<Rightarrow> ext_db \<Rightarrow> ext_db" where
  "delete_proxy x db =
     (let db = set_proxies (map (unchain x) (sql_delete (\<lambda>p. xp_id p = x) (xd_proxies db))) db
      in db\<lparr>xd_access := forget_object External x (xd_access db)\<rparr>)"

definition DeleteExternalSub :: "id \<Rightarrow> ext_db \<Rightarrow> (db_error, ext_db) result" where
  "DeleteExternalSub i db =
     (if i \<notin> set (map xs_id (xd_subs db)) then Inl ErrNoRows
      else
        (let gone = map xp_id (filter (\<lambda>p. xp_sub_id p = i) (xd_proxies db));
             db = fold delete_proxy gone db
         in Inr (db\<lparr>xd_subs := sql_delete (\<lambda>e. xs_id e = i) (xd_subs db)\<rparr>)))"

definition SaveExternalFetch :: "id \<Rightarrow> string \<Rightarrow> string \<Rightarrow> int \<Rightarrow> ext_db \<Rightarrow> ext_db" where
  "SaveExternalFetch i body failure now db =
     db\<lparr>xd_subs := sql_update (\<lambda>e. xs_id e = i)
          (\<lambda>e. if failure \<noteq> [] then e\<lparr>xs_last_error := failure, xs_updated_at := now\<rparr>
               else e\<lparr>xs_body := body, xs_fetched_at := Some now, xs_last_error := [], xs_updated_at := now\<rparr>) (xd_subs db)\<rparr>"

section \<open>Proxies\<close>

definition ExternalProxies :: "id \<Rightarrow> ext_db \<Rightarrow> external_proxy list" where
  "ExternalProxies sub db = sort_key xp_ord (filter (\<lambda>p. xp_sub_id p = sub) (xd_proxies db))"

text \<open>\<open>ORDER BY sort_order = 0, sort_order, sub_id, ord\<close>: stable sorts, the least significant key first.\<close>

definition EnabledExternalProxies :: "ext_db \<Rightarrow> external_proxy list" where
  "EnabledExternalProxies db =
     sort_key (\<lambda>p. if xp_sort_order p = 0 then 1 else (0::nat)) (sort_key xp_sort_order (sort_key xp_sub_id (sort_key xp_ord
       (filter (\<lambda>p. xp_enabled p \<and> list_ex (\<lambda>e. xs_id e = xp_sub_id p \<and> xs_enabled e) (xd_subs db)) (xd_proxies db)))))"

definition GetExternalProxy :: "id \<Rightarrow> ext_db \<Rightarrow> (db_error, external_proxy) result" where
  "GetExternalProxy i db =
     (case sql_row (\<lambda>p. xp_id p = i) (xd_proxies db) of None \<Rightarrow> Inl ErrNoRows | Some p \<Rightarrow> Inr p)"

definition endpointKey :: "string \<Rightarrow> int \<Rightarrow> string \<Rightarrow> string" where
  "endpointKey server port typ = server @ ''|'' @ show_int port @ ''|'' @ typ"

definition endpoint_of :: "external_proxy \<Rightarrow> string" where
  "endpoint_of p = endpointKey (xp_server p) (xp_port p) (xp_type p)"

text \<open>A Go map filled in a loop: the last entry of a key wins.\<close>

definition last_by :: "('a \<Rightarrow> 'k) \<Rightarrow> 'a list \<Rightarrow> 'k \<Rightarrow> 'a option" where
  "last_by key xs k = List.find (\<lambda>x. key x = k) (rev xs)"

definition match_row :: "external_proxy list \<Rightarrow> id list \<Rightarrow> external_proxy \<Rightarrow> external_proxy option" where
  "match_row old kept p =
     (case (case last_by xp_name old (xp_name p) of Some q \<Rightarrow> Some q | None \<Rightarrow> last_by endpoint_of old (endpoint_of p)) of
        None \<Rightarrow> None
      | Some q \<Rightarrow> if xp_id q \<in> set kept then None else Some q)"

definition refreshed :: "int \<Rightarrow> external_proxy \<Rightarrow> external_proxy \<Rightarrow> external_proxy" where
  "refreshed i p q =
     q\<lparr>xp_name := xp_name p, xp_type := xp_type p, xp_server := xp_server p, xp_port := xp_port p,
       xp_config := xp_config p, xp_ord := i\<rparr>"

definition new_proxy :: "id \<Rightarrow> id \<Rightarrow> int \<Rightarrow> external_proxy \<Rightarrow> external_proxy" where
  "new_proxy newid sub i p =
     \<lparr>xp_id = newid, xp_sub_id = sub, xp_name = xp_name p, xp_type = xp_type p, xp_server = xp_server p,
      xp_port = xp_port p, xp_config = xp_config p, xp_display_name = [], xp_chain_node_id = [],
      xp_chain_proxy_id = [], xp_enabled = True, xp_ord = i, xp_sort_order = 0, xp_traffic_rate = 1,
      xp_relay_exposed = False\<rparr>"

text \<open>The loop over the fresh list, with the rows already claimed. \<open>newid i\<close> is the identifier generated at position \<open>i\<close>.\<close>

fun refresh_loop ::
  "(int \<Rightarrow> id) \<Rightarrow> id \<Rightarrow> external_proxy list \<Rightarrow> int \<Rightarrow> external_proxy list \<Rightarrow> id list \<Rightarrow> ext_db \<Rightarrow>
   (db_error, id list \<times> ext_db) result" where
  "refresh_loop newid sub old i [] kept db = Inr (kept, db)"
| "refresh_loop newid sub old i (p # ps) kept db =
     (case match_row old kept p of
        Some q \<Rightarrow>
          refresh_loop newid sub old (i + 1) ps (xp_id q # kept)
            (set_proxies (sql_update (\<lambda>r. xp_id r = xp_id q) (refreshed i p) (xd_proxies db)) db)
      | None \<Rightarrow>
          if newid i \<in> set (map xp_id (xd_proxies db)) then Inl UniqueViolation
          else if sub \<notin> set (map xs_id (xd_subs db)) then Inl ForeignKey
          else
            (let db = set_proxies (xd_proxies db @ [new_proxy (newid i) sub i p]) db
             in refresh_loop newid sub old (i + 1) ps (newid i # kept)
                  (db\<lparr>xd_access := deny_everyone External (newid i) (xd_access db)\<rparr>)))"

definition ReplaceExternalProxies ::
  "(int \<Rightarrow> id) \<Rightarrow> id \<Rightarrow> external_proxy list \<Rightarrow> ext_db \<Rightarrow> (db_error, ext_db) result" where
  "ReplaceExternalProxies newid sub fresh db =
     (let old = ExternalProxies sub db
      in bind_result (refresh_loop newid sub old 0 fresh [] db)
           (\<lambda>(kept, db). Inr (fold delete_proxy (filter (\<lambda>i. i \<notin> set kept) (map xp_id old)) db)))"

datatype chain_error = TwoChains | ErrChainCycle | ChainStore db_error

text \<open>The map of the chains, absent entries reading as the empty string, and the bounded walk.\<close>

definition next_of :: "external_proxy list \<Rightarrow> id \<Rightarrow> id" where
  "next_of ps x = (case last_by xp_id (filter (\<lambda>p. xp_chain_proxy_id p \<noteq> []) ps) x of None \<Rightarrow> [] | Some p \<Rightarrow> xp_chain_proxy_id p)"

fun chain_walk :: "nat \<Rightarrow> (id \<Rightarrow> id) \<Rightarrow> id \<Rightarrow> id \<Rightarrow> bool" where
  "chain_walk steps nxt spot i =
     (if spot = [] then False
      else if spot = i then True
      else (case steps of 0 \<Rightarrow> False | Suc n \<Rightarrow> chain_walk n nxt (nxt spot) i))"

declare chain_walk.simps [simp del]

definition checkExternalChain :: "id \<Rightarrow> id \<Rightarrow> ext_db \<Rightarrow> bool" where
  "checkExternalChain i target db \<longleftrightarrow>
     i \<noteq> target
     \<and> \<not> chain_walk (length (remdups (map xp_id (filter (\<lambda>p. xp_chain_proxy_id p \<noteq> []) (xd_proxies db)))))
          (next_of (xd_proxies db)) target i"

definition update_proxy ::
  "id \<Rightarrow> (external_proxy \<Rightarrow> external_proxy) \<Rightarrow> ext_db \<Rightarrow> (db_error, ext_db) result" where
  "update_proxy i f db =
     (if i \<notin> set (map xp_id (xd_proxies db)) then Inl ErrNoRows
      else Inr (set_proxies (sql_update (\<lambda>p. xp_id p = i) f (xd_proxies db)) db))"

definition SetExternalProxy ::
  "id \<Rightarrow> id \<Rightarrow> id \<Rightarrow> bool \<Rightarrow> ext_db \<Rightarrow> (chain_error, ext_db) result" where
  "SetExternalProxy i chainNode chainProxy enabled db =
     (if chainNode \<noteq> [] \<and> chainProxy \<noteq> [] then Inl TwoChains
      else if chainProxy \<noteq> [] \<and> \<not> checkExternalChain i chainProxy db then Inl ErrChainCycle
      else if i \<in> set (map xp_id (xd_proxies db))
              \<and> (chainNode \<noteq> [] \<and> chainNode \<notin> set (universe (xd_access db) Node)
                 \<or> chainProxy \<noteq> [] \<and> chainProxy \<notin> set (map xp_id (xd_proxies db))) then Inl (ChainStore ForeignKey)
      else
        (case update_proxy i (\<lambda>p. p\<lparr>xp_chain_node_id := chainNode, xp_chain_proxy_id := chainProxy, xp_enabled := enabled\<rparr>) db of
           Inl e \<Rightarrow> Inl (ChainStore e)
         | Inr db' \<Rightarrow> Inr db'))"

definition RenameExternalProxy :: "id \<Rightarrow> string \<Rightarrow> ext_db \<Rightarrow> (db_error, ext_db) result" where
  "RenameExternalProxy i displayName = update_proxy i (\<lambda>p. p\<lparr>xp_display_name := displayName\<rparr>)"

definition SetExternalProxyExposed :: "id \<Rightarrow> bool \<Rightarrow> ext_db \<Rightarrow> (db_error, ext_db) result" where
  "SetExternalProxyExposed i exposed = update_proxy i (\<lambda>p. p\<lparr>xp_relay_exposed := exposed\<rparr>)"

definition SetExternalProxyTrafficRate :: "id \<Rightarrow> rat \<Rightarrow> ext_db \<Rightarrow> (db_error, ext_db) result" where
  "SetExternalProxyTrafficRate i rate = update_proxy i (\<lambda>p. p\<lparr>xp_traffic_rate := rate\<rparr>)"

section \<open>Chains\<close>

lemma proxies_fields [simp]:
  "user_ids (a\<lparr>ad_proxies := xs\<rparr>) = user_ids a" "group_ids (a\<lparr>ad_proxies := xs\<rparr>) = group_ids a"
  by (simp_all add: user_ids_def group_ids_def)

definition chain_graph :: "external_proxy list \<Rightarrow> (id \<times> id) set" where
  "chain_graph ps = {(xp_id p, xp_chain_proxy_id p) |p. p \<in> set ps \<and> xp_chain_proxy_id p \<noteq> []}"

lemma last_by_Some: "last_by key xs k = Some x \<Longrightarrow> x \<in> set xs \<and> key x = k"
  by (auto simp: last_by_def find_Some_iff) (metis nth_mem set_rev length_rev)

lemma last_by_None: "last_by key xs k = None \<longleftrightarrow> (\<forall>x\<in>set xs. key x \<noteq> k)"
  by (auto simp: last_by_def find_None_iff)

lemma next_of_graph:
  assumes "distinct (map xp_id ps)"
  shows "(x, y) \<in> chain_graph ps \<longleftrightarrow> next_of ps x = y \<and> y \<noteq> []"
proof -
  let ?chained = "filter (\<lambda>p. xp_chain_proxy_id p \<noteq> []) ps"
  have "(x, y) \<in> chain_graph ps \<Longrightarrow> next_of ps x = y \<and> y \<noteq> []"
  proof -
    assume "(x, y) \<in> chain_graph ps"
    then obtain p where p: "p \<in> set ps" "xp_id p = x" "xp_chain_proxy_id p = y" "y \<noteq> []" by (auto simp: chain_graph_def)
    then obtain q where q: "last_by xp_id ?chained x = Some q"
      by (cases "last_by xp_id ?chained x") (auto simp: last_by_None)
    from last_by_Some [OF q] p assms have "q = p" by (auto simp: distinct_map inj_on_def)
    with p q show ?thesis by (simp add: next_of_def)
  qed
  moreover have "(x, y) \<in> chain_graph ps" if "next_of ps x = y" "y \<noteq> []"
    using that by (auto simp: next_of_def chain_graph_def split: option.splits dest!: last_by_Some)
  ultimately show ?thesis by blast
qed

lemma next_of_dom: "next_of ps x \<noteq> [] \<Longrightarrow> x \<in> set (map xp_id (filter (\<lambda>p. xp_chain_proxy_id p \<noteq> []) ps))"
  by (auto simp: next_of_def split: option.splits dest!: last_by_Some)

text \<open>Along a chain the walk finds its goal within as many steps as there are chained proxies.\<close>

lemma chain_walk_finds:
  "\<forall>j<k. (f ^^ j) a \<noteq> [] \<Longrightarrow> (f ^^ k) a = i \<Longrightarrow> i \<noteq> [] \<Longrightarrow> k \<le> n \<Longrightarrow> chain_walk n f a i"
proof (induction k arbitrary: n a)
  case 0
  then show ?case by (simp add: chain_walk.simps)
next
  case (Suc k)
  have "a \<noteq> []" using Suc.prems(1) by (metis funpow_0 zero_less_Suc)
  from Suc.prems(4) obtain m where n: "n = Suc m" "k \<le> m" by (cases n) auto
  have "\<forall>j<k. (f ^^ j) (f a) \<noteq> []" using Suc.prems(1) by (metis Suc_less_eq funpow_Suc_right comp_apply)
  moreover have "(f ^^ k) (f a) = i" using Suc.prems(2) by (metis funpow_Suc_right comp_apply)
  ultimately have "chain_walk m f (f a) i" using Suc.IH n(2) Suc.prems(3) by blast
  with \<open>a \<noteq> []\<close> n(1) show ?case by (subst chain_walk.simps) simp
qed

lemma graph_path:
  assumes "(a, i) \<in> (chain_graph ps)\<^sup>*" and "distinct (map xp_id ps)" and "a \<noteq> []"
  shows "\<exists>k. (next_of ps ^^ k) a = i \<and> (\<forall>j\<le>k. (next_of ps ^^ j) a \<noteq> [])"
  using assms(1)
proof (induction rule: rtrancl_induct)
  case base
  show ?case using assms(3) by (intro exI [of _ 0]) simp
next
  case (step y z)
  then obtain k where k: "(next_of ps ^^ k) a = y" "\<forall>j\<le>k. (next_of ps ^^ j) a \<noteq> []" by blast
  have "next_of ps y = z" "z \<noteq> []" using step(2) next_of_graph [OF assms(2)] by simp_all
  with k have "(next_of ps ^^ Suc k) a = z" "\<forall>j\<le>Suc k. (next_of ps ^^ j) a \<noteq> []" by (auto simp: le_Suc_eq)
  then show ?case by blast
qed

lemma least_path_short:
  fixes f :: "'a \<Rightarrow> 'a"
  assumes "(f ^^ k) a = i" and "\<forall>j<k. (f ^^ j) a \<in> D" and "finite D" and "\<forall>j<k. (f ^^ j) a \<noteq> i"
  shows "k \<le> card D"
proof -
  have "inj_on (\<lambda>j. (f ^^ j) a) {0..<k}"
  proof (rule linorder_inj_onI', unfold atLeastLessThan_iff)
    fix p q assume pq: "0 \<le> p \<and> p < k" "0 \<le> q \<and> q < k" "p < q"
    show "(f ^^ p) a \<noteq> (f ^^ q) a"
    proof
      assume eq: "(f ^^ p) a = (f ^^ q) a"
      have "(f ^^ (k - q + p)) a = (f ^^ (k - q)) ((f ^^ q) a)" by (simp add: funpow_add eq)
      also have "\<dots> = (f ^^ (k - q + q)) a" by (simp add: funpow_add)
      also have "\<dots> = i" using pq assms(1) by simp
      finally show False using assms(4) pq by (metis add.commute add_less_cancel_left le_add_diff_inverse2 less_imp_le)
    qed
  qed
  then have "card ((\<lambda>j. (f ^^ j) a) ` {0..<k}) = k" by (simp add: card_image)
  moreover have "(\<lambda>j. (f ^^ j) a) ` {0..<k} \<subseteq> D" using assms(2) by auto
  ultimately show ?thesis using card_mono [OF assms(3)] by metis
qed

lemma checkExternalChain_complete:
  assumes "distinct (map xp_id (xd_proxies db))" and "target \<noteq> []" and "i \<noteq> []" and "checkExternalChain i target db"
  shows "(target, i) \<notin> (chain_graph (xd_proxies db))\<^sup>*"
proof
  let ?f = "next_of (xd_proxies db)"
  let ?D = "set (map xp_id (filter (\<lambda>p. xp_chain_proxy_id p \<noteq> []) (xd_proxies db)))"
  assume "(target, i) \<in> (chain_graph (xd_proxies db))\<^sup>*"
  from graph_path [OF this assms(1,2)] obtain k0 where k0: "(?f ^^ k0) target = i" "\<forall>j\<le>k0. (?f ^^ j) target \<noteq> []" by blast
  define k where "k = (LEAST k. (?f ^^ k) target = i)"
  have k: "(?f ^^ k) target = i" unfolding k_def by (rule LeastI) (rule k0(1))
  have least: "\<forall>j<k. (?f ^^ j) target \<noteq> i" unfolding k_def using not_less_Least by blast
  have "k \<le> k0" unfolding k_def by (rule Least_le) (rule k0(1))
  with k0(2) have full: "\<forall>j\<le>k. (?f ^^ j) target \<noteq> []" by auto
  have "\<forall>j<k. (?f ^^ j) target \<in> ?D"
  proof (intro allI impI)
    fix j assume "j < k"
    then have "?f ((?f ^^ j) target) \<noteq> []" using full by (metis Suc_leI comp_apply funpow.simps(2))
    then show "(?f ^^ j) target \<in> ?D" by (rule next_of_dom)
  qed
  from least_path_short [OF k this _ least]
  have "k \<le> card ?D" by simp
  also have "card ?D = length (remdups (map xp_id (filter (\<lambda>p. xp_chain_proxy_id p \<noteq> []) (xd_proxies db))))"
    by (simp only: length_remdups_card_conv)
  finally have "chain_walk (length (remdups (map xp_id (filter (\<lambda>p. xp_chain_proxy_id p \<noteq> []) (xd_proxies db))))) ?f target i"
    using full by (intro chain_walk_finds [OF _ k assms(3)]) auto
  with assms(4) show False by (simp add: checkExternalChain_def)
qed

lemma ext_distinct: "ext_inv db \<Longrightarrow> distinct (map xp_id (xd_proxies db))"
proof -
  assume inv: "ext_inv db"
  then have "distinct (universe (xd_access db) External)" by (simp add: ext_inv_def access_inv_def rows_ok_def)
  moreover have "universe (xd_access db) External = map xp_id (xd_proxies db)"
    using inv by (simp add: ext_inv_def access_row_def comp_def universe.simps)
  ultimately show ?thesis by simp
qed

lemma SetExternalProxy_Inr:
  assumes "SetExternalProxy i chainNode chainProxy enabled db = Inr db'"
  shows "chainProxy = [] \<or> checkExternalChain i chainProxy db" and "i \<in> set (map xp_id (xd_proxies db))"
    and "chainProxy = [] \<or> chainProxy \<in> set (map xp_id (xd_proxies db))"
    and "db' = set_proxies (sql_update (\<lambda>p. xp_id p = i)
       (\<lambda>p. p\<lparr>xp_chain_node_id := chainNode, xp_chain_proxy_id := chainProxy, xp_enabled := enabled\<rparr>) (xd_proxies db)) db"
  using assms by (auto simp: SetExternalProxy_def update_proxy_def simp del: set_map split: if_splits)

text \<open>C37. Settling how a proxy is dialled keeps the chains between proxies free of loops: a target from which the chain
  comes back is refused, however long the chain, although the check walks at most as many steps as there are
  chained proxies.\<close>

theorem external_chain_acyclic:
  assumes "ext_inv db" and "acyclic (chain_graph (xd_proxies db))"
    and "SetExternalProxy i chainNode chainProxy enabled db = Inr db'"
  shows "acyclic (chain_graph (xd_proxies db')) \<and> ext_inv db'"
proof -
  let ?f = "\<lambda>p. p\<lparr>xp_chain_node_id := chainNode, xp_chain_proxy_id := chainProxy, xp_enabled := enabled\<rparr>"
  let ?ps = "sql_update (\<lambda>p. xp_id p = i) ?f (xd_proxies db)"
  note set = SetExternalProxy_Inr [OF assms(3)]
  note check = set(1) and i = set(2) and known = set(3) and db' = set(4)
  have "i \<noteq> []" using assms(1) i by (auto simp: ext_inv_def list_all_iff)
  let ?r = "{e \<in> chain_graph (xd_proxies db). fst e \<noteq> i}"
  have sub: "chain_graph ?ps \<subseteq> (if chainProxy = [] then ?r else insert (i, chainProxy) ?r)"
    by (auto simp: chain_graph_def set_sql_update split: if_splits)
  have r: "acyclic ?r" using assms(2) by (rule acyclic_subset) auto
  have "acyclic (if chainProxy = [] then ?r else insert (i, chainProxy) ?r)"
  proof (cases "chainProxy = []")
    case False
    have "(chainProxy, i) \<notin> (chain_graph (xd_proxies db))\<^sup>*"
      using check False by (intro checkExternalChain_complete [OF ext_distinct [OF assms(1)] False \<open>i \<noteq> []\<close>]) simp
    moreover have "?r\<^sup>* \<subseteq> (chain_graph (xd_proxies db))\<^sup>*" by (rule rtrancl_mono) auto
    ultimately show ?thesis using r False by (auto simp: acyclic_insert)
  qed (use r in simp)
  then have "acyclic (chain_graph ?ps)" using sub by (rule acyclic_subset)
  moreover have "ext_inv db'"
  proof -
    have ids: "map xp_id ?ps = map xp_id (xd_proxies db)" by simp
    have rows: "map access_row ?ps = map access_row (xd_proxies db)" by (auto simp: sql_update_def access_row_def)
    have "xd_access db' = xd_access db"
      using assms(1) by (simp add: db' set_proxies_def rows ext_inv_def)
    moreover have "xd_subs db' = xd_subs db" "xd_proxies db' = ?ps" by (simp_all add: db' set_proxies_def)
    ultimately show ?thesis
      using assms(1) known unfolding ext_inv_def
      by (simp add: ids rows del: set_map) (auto simp: list_all_iff set_sql_update)
  qed
  ultimately show ?thesis by (simp add: db' set_proxies_def)
qed

section \<open>Refreshing a source\<close>

definition usable :: "ext_db \<Rightarrow> id \<Rightarrow> id set" where
  "usable db u = set (universe (xd_access db) External) - effectiveDenies (xd_access db) u External"

text \<open>What the operator decided for a proxy, apart from a chain through a proxy that may be gone.\<close>

definition settings :: "external_proxy \<Rightarrow> string \<times> id \<times> bool \<times> int \<times> rat \<times> bool \<times> id" where
  "settings p = (xp_display_name p, xp_chain_node_id p, xp_enabled p, xp_sort_order p, xp_traffic_rate p, xp_relay_exposed p, xp_sub_id p)"

text \<open>From one state of the table to another nothing opens, and rows that were there keep their settings.\<close>

definition carries :: "ext_db \<Rightarrow> ext_db \<Rightarrow> bool" where
  "carries db db' \<longleftrightarrow>
     user_ids (xd_access db') = user_ids (xd_access db)
     \<and> (\<forall>u\<in>set (user_ids (xd_access db)). usable db' u \<subseteq> usable db u)
     \<and> (\<forall>p'\<in>set (xd_proxies db'). \<forall>p\<in>set (xd_proxies db). xp_id p' = xp_id p \<longrightarrow>
          settings p' = settings p \<and> xp_chain_proxy_id p' \<in> {xp_chain_proxy_id p, []})"

lemma carries_refl: "ext_inv db \<Longrightarrow> carries db db"
  using ext_distinct [of db] by (auto simp: carries_def distinct_map inj_on_def)

lemma carriesI:
  assumes "carries db0 db" and "user_ids (xd_access db') = user_ids (xd_access db)"
    and "\<forall>u\<in>set (user_ids (xd_access db)). usable db' u \<subseteq> usable db u"
    and "\<forall>p'\<in>set (xd_proxies db'). \<forall>p\<in>set (xd_proxies db0). xp_id p' = xp_id p \<longrightarrow>
          settings p' = settings p \<and> xp_chain_proxy_id p' \<in> {xp_chain_proxy_id p, []}"
  shows "carries db0 db'"
proof -
  have "usable db' u \<subseteq> usable db0 u" if "u \<in> set (user_ids (xd_access db0))" for u
    using assms(1,3) that unfolding carries_def by (metis order_trans)
  then show ?thesis using assms(1,2,4) unfolding carries_def by simp
qed

lemma refreshed_columns [simp]:
  "settings (refreshed i p q) = settings q" "xp_chain_proxy_id (refreshed i p q) = xp_chain_proxy_id q"
  "xp_id (refreshed i p q) = xp_id q" "access_row (refreshed i p q) = access_row q" "xp_sub_id (refreshed i p q) = xp_sub_id q"
  by (simp_all add: refreshed_def settings_def access_row_def)

lemma set_proxies_same:
  assumes "ext_inv db" and "map access_row ps = map access_row (xd_proxies db)"
  shows "set_proxies ps db = db\<lparr>xd_proxies := ps\<rparr>"
  using assms by (simp add: set_proxies_def ext_inv_def)

lemma refresh_update:
  fixes x :: id and i :: int and p :: external_proxy
  assumes "ext_inv db" and "carries db0 db"
  defines "db' \<equiv> set_proxies (sql_update (\<lambda>r. xp_id r = x) (refreshed i p) (xd_proxies db)) db"
  shows "ext_inv db' \<and> carries db0 db' \<and> xd_subs db' = xd_subs db \<and> map xp_id (xd_proxies db') = map xp_id (xd_proxies db)"
proof -
  let ?ps = "sql_update (\<lambda>r. xp_id r = x) (refreshed i p) (xd_proxies db)"
  have rows: "map access_row ?ps = map access_row (xd_proxies db)" by (auto simp: sql_update_def)
  have ids: "map xp_id ?ps = map xp_id (xd_proxies db)" by simp
  have db': "db' = db\<lparr>xd_proxies := ?ps\<rparr>" unfolding db'_def by (rule set_proxies_same [OF assms(1) rows])
  have "ext_inv db'"
    using assms(1) unfolding ext_inv_def db' by (simp add: ids rows del: set_map) (auto simp: list_all_iff set_sql_update)
  moreover have "carries db0 db'"
    using assms(2) unfolding carries_def db' by (auto simp: usable_def set_sql_update)
  ultimately show ?thesis by (simp add: db')
qed

lemma refresh_insert:
  fixes newid sub :: id and i :: int and p :: external_proxy
  assumes "ext_inv db" and "carries db0 db" and "newid \<notin> set (map xp_id (xd_proxies db))" and "sub \<in> set (map xs_id (xd_subs db))"
    and "newid \<noteq> []" and "newid \<notin> set (map xp_id (xd_proxies db0))"
  defines "db1 \<equiv> set_proxies (xd_proxies db @ [new_proxy newid sub i p]) db"
  defines "db' \<equiv> db1\<lparr>xd_access := deny_everyone External newid (xd_access db1)\<rparr>"
  shows "ext_inv db' \<and> carries db0 db' \<and> xd_subs db' = xd_subs db \<and> map xp_id (xd_proxies db') = map xp_id (xd_proxies db) @ [newid]"
proof -
  have uni: "universe (xd_access db) External = map xp_id (xd_proxies db)"
    using assms(1) by (simp add: ext_inv_def access_row_def comp_def universe.simps)
  have uni1: "universe (xd_access db1) External = map xp_id (xd_proxies db) @ [newid]"
    by (simp add: db1_def set_proxies_def access_row_def comp_def new_proxy_def universe.simps)
  have other: "universe (xd_access db1) d = universe (xd_access db) d" if "d \<noteq> External" for d
    using that by (cases d) (simp_all add: db1_def set_proxies_def universe.simps)
  have same: "user_ids (xd_access db1) = user_ids (xd_access db)" "group_ids (xd_access db1) = group_ids (xd_access db)"
    "ad_users (xd_access db1) = ad_users (xd_access db)" "ad_groups (xd_access db1) = ad_groups (xd_access db)"
    "ad_user_denies (xd_access db1) = ad_user_denies (xd_access db)" "ad_user_allows (xd_access db1) = ad_user_allows (xd_access db)"
    "ad_group_denies (xd_access db1) = ad_group_denies (xd_access db)" "ad_profiles (xd_access db1) = ad_profiles (xd_access db)"
    "ad_user_profiles (xd_access db1) = ad_user_profiles (xd_access db)" "ad_group_profiles (xd_access db1) = ad_group_profiles (xd_access db)"
    "ad_user_profile_denies (xd_access db1) = ad_user_profile_denies (xd_access db)"
    by (simp_all add: db1_def set_proxies_def user_ids_def group_ids_def)
  have acc: "access_inv (xd_access db)" using assms(1) by (simp add: ext_inv_def)
  have "distinct (universe (xd_access db1) d)" for d
    using acc assms(3) other [of d] uni1 ext_distinct [OF assms(1)] by (cases "d = External") (auto simp: access_inv_def rows_ok_def)
  then have "rows_ok (xd_access db1)" using acc by (simp add: access_inv_def rows_ok_def same)
  moreover have "dim_ok (xd_access db1) d" for d
  proof -
    have "dim_ok (xd_access db) d" using acc by (simp add: access_inv_def)
    then show ?thesis using other [of d] uni uni1 by (cases "d = External") (auto simp: dim_ok_def same)
  qed
  moreover have "profiles_ok (xd_access db1)" using acc by (simp add: access_inv_def profiles_ok_def same)
  ultimately have acc1: "access_inv (xd_access db1)" by (simp add: access_inv_def)
  have "dim_ok (xd_access db) External" using acc by (simp add: access_inv_def)
  then have "newid \<notin> snd ` ad_user_allows (xd_access db1) External"
    using assms(3) uni by (auto simp: dim_ok_def same)
  then have acc': "access_inv (xd_access db')"
    using deny_everyone_inv [OF acc1, of newid External] uni1 by (simp add: db'_def)
  have "xd_proxies db' = xd_proxies db @ [new_proxy newid sub i p]" "xd_subs db' = xd_subs db"
    "ad_proxies (xd_access db') = map access_row (xd_proxies db @ [new_proxy newid sub i p])"
    by (simp_all add: db'_def db1_def set_proxies_def deny_everyone_def)
  note fields = this
  have "ext_inv db'"
    using assms(1,4,5) acc' unfolding ext_inv_def fields by (auto simp: list_all_iff new_proxy_def)
  note inv' = this
  have "usable db' u \<subseteq> usable db u" if u: "u \<in> set (user_ids (xd_access db))" for u
  proof -
    have "newid \<in> effectiveDenies (xd_access db') u External"
      using u same(1) by (simp add: db'_def effectiveDenies_def deny_everyone_def)
    moreover have "effectiveDenies (xd_access db) u External \<subseteq> effectiveDenies (xd_access db') u External"
      by (auto simp: db'_def effectiveDenies_def deny_everyone_def group_of_def user_row_def same split: option.splits)
    moreover have "universe (xd_access db') External = map xp_id (xd_proxies db) @ [newid]"
      using uni1 by (simp add: db'_def deny_everyone_def)
    ultimately show ?thesis using uni by (auto simp: usable_def)
  qed
  moreover have "user_ids (xd_access db') = user_ids (xd_access db)"
    using same(1) by (simp add: db'_def deny_everyone_def)
  ultimately have "carries db0 db'"
    using assms(2,6) by (intro carriesI [OF assms(2)]) (auto simp: fields carries_def new_proxy_def)
  with inv' show ?thesis using fields by (simp add: new_proxy_def)
qed


lemma refresh_loop_carries:
  assumes "refresh_loop newid sub old i fresh kept db = Inr (kept', db')"
    and "ext_inv db" and "carries db0 db" and "\<And>j. newid j \<noteq> [] \<and> newid j \<notin> set (map xp_id (xd_proxies db0))"
  shows "ext_inv db' \<and> carries db0 db' \<and> set (map xp_id (xd_proxies db)) \<subseteq> set (map xp_id (xd_proxies db'))"
  using assms(1-3)
proof (induction fresh arbitrary: i kept db)
  case (Cons p ps)
  show ?case
  proof (cases "match_row old kept p")
    case (Some q)
    note upd = refresh_update [OF Cons.prems(2,3), of "xp_id q" i p]
    from Cons.prems(1) Some have "refresh_loop newid sub old (i + 1) ps (xp_id q # kept)
        (set_proxies (sql_update (\<lambda>r. xp_id r = xp_id q) (refreshed i p) (xd_proxies db)) db) = Inr (kept', db')" by simp
    from Cons.IH [OF this] upd show ?thesis by simp
  next
    case None
    let ?db1 = "set_proxies (xd_proxies db @ [new_proxy (newid i) sub i p]) db"
    from Cons.prems(1) None have fresh: "newid i \<notin> set (map xp_id (xd_proxies db))" "sub \<in> set (map xs_id (xd_subs db))"
      and run: "refresh_loop newid sub old (i + 1) ps (newid i # kept)
        (?db1\<lparr>xd_access := deny_everyone External (newid i) (xd_access ?db1)\<rparr>) = Inr (kept', db')"
      by (auto simp: Let_def simp del: set_map split: if_splits)
    note ins = refresh_insert [OF Cons.prems(2,3) fresh, of i p]
    have "set (map xp_id (xd_proxies db)) \<subseteq> set (map xp_id (xd_proxies db) @ [newid i])" by auto
    with Cons.IH [OF run] ins assms(4) [of i] show ?thesis by (metis (no_types, lifting) order_trans)
  qed
qed simp

lemma unchain_columns [simp]:
  "settings (unchain x p) = settings p" "xp_id (unchain x p) = xp_id p" "access_row (unchain x p) = access_row p"
  "xp_sub_id (unchain x p) = xp_sub_id p" "xp_chain_proxy_id (unchain x p) = (if xp_chain_proxy_id p = x then [] else xp_chain_proxy_id p)"
  by (simp_all add: unchain_def settings_def access_row_def)

lemma delete_proxy_carries:
  assumes "ext_inv db" and "carries db0 db"
  shows "ext_inv (delete_proxy x db) \<and> carries db0 (delete_proxy x db)"
proof -
  let ?ps = "map (unchain x) (sql_delete (\<lambda>p. xp_id p = x) (xd_proxies db))"
  let ?db' = "delete_proxy x db"
  have fields: "xd_proxies ?db' = ?ps" "xd_subs ?db' = xd_subs db"
    "ad_proxies (xd_access ?db') = map access_row ?ps" "user_ids (xd_access ?db') = user_ids (xd_access db)"
    by (simp_all add: delete_proxy_def set_proxies_def Let_def forget_object_def user_ids_def)
  have acc: "access_inv (xd_access db)" "ad_proxies (xd_access db) = map access_row (xd_proxies db)"
    using assms(1) by (simp_all add: ext_inv_def)
  have uni: "universe (xd_access db) External = map xp_id (xd_proxies db)"
    using acc(2) by (simp add: access_row_def comp_def universe.simps)
  have uni': "set (universe (xd_access ?db') External) = set (universe (xd_access db) External) - {x}"
    using fields(3) uni by (auto simp: access_row_def comp_def universe.simps set_sql_delete)
  have "access_inv (xd_access ?db')"
  proof -
    let ?a = "(xd_access db)\<lparr>ad_proxies := map access_row ?ps\<rparr>"
    have ids: "map xp_id ?ps = map xp_id (sql_delete (\<lambda>p. xp_id p = x) (xd_proxies db))" by simp
    have "distinct (universe ?a d)" for d
      using acc(1) ext_distinct [OF assms(1)]
      by (cases d) (auto simp: access_inv_def rows_ok_def universe.simps access_row_def comp_def sql_delete_def distinct_map_filter dest: spec [of _ d])
    then have rows: "rows_ok ?a" using acc(1) by (simp add: access_inv_def rows_ok_def user_ids_def group_ids_def)
    have dims: "dim_ok (xd_access db) d" for d using acc(1) by (simp add: access_inv_def)
    have other: "universe ?a d = universe (xd_access db) d" if "d \<noteq> External" for d
      using that by (cases d) (simp_all add: universe.simps)
    have ext: "insert x (set (universe ?a External)) \<supseteq> set (universe (xd_access db) External)"
      using uni by (auto simp: universe.simps access_row_def set_sql_delete)
    have "profiles_ok ?a" using acc(1) by (simp add: access_inv_def profiles_ok_def)
    moreover have "e \<noteq> External \<Longrightarrow> dim_ok ?a e" for e using dims [of e] other [of e] by (simp add: dim_ok_def)
    moreover have "A \<subseteq> B \<times> insert x (set (universe ?a External))"
      if "A \<subseteq> B \<times> set (universe (xd_access db) External)" for A :: "(id \<times> id) set" and B
      using that ext by blast
    ultimately have "access_inv (forget_object External x ?a)"
      using rows dims [of External] by (intro forget_object_inv) (simp_all add: dim_ok_def)
    then show ?thesis by (simp add: delete_proxy_def set_proxies_def Let_def)
  qed
  then have "ext_inv ?db'"
    using assms(1) unfolding ext_inv_def fields by (auto simp: list_all_iff set_sql_delete image_iff)
  moreover have "usable ?db' u \<subseteq> usable db u" for u
  proof -
    have "effectiveDenies (xd_access ?db') u External \<supseteq> effectiveDenies (xd_access db) u External - {x}"
      by (auto simp: delete_proxy_def set_proxies_def Let_def forget_object_def effectiveDenies_def group_of_def user_row_def split: option.splits)
    then show ?thesis using uni' by (auto simp: usable_def)
  qed
  then have "carries db0 ?db'"
    using assms(2) fields(4) by (intro carriesI [OF assms(2)]) (auto simp: fields(1) carries_def set_sql_delete split: if_splits)
  ultimately show ?thesis by simp
qed

lemma fold_delete_carries:
  "ext_inv db \<Longrightarrow> carries db0 db \<Longrightarrow> ext_inv (fold delete_proxy xs db) \<and> carries db0 (fold delete_proxy xs db)"
  by (induction xs arbitrary: db) (simp_all add: delete_proxy_carries)

text \<open>C39. A refresh opens nothing and loses no decision: no subscriber can use a proxy afterwards that they could not
  use before, a proxy the source adds is closed to everybody, and every row that survives keeps its label, its
  place, its rate, whether it is enabled and exposed, and its chain unless the proxy it went through is gone.\<close>

theorem refresh_opens_nothing:
  assumes "ext_inv db" and "ReplaceExternalProxies newid sub fresh db = Inr db'"
    and "\<forall>j. newid j \<noteq> [] \<and> newid j \<notin> set (map xp_id (xd_proxies db))"
  shows "ext_inv db' \<and> carries db db'"
proof -
  obtain kept db1 where run: "refresh_loop newid sub (ExternalProxies sub db) 0 fresh [] db = Inr (kept, db1)"
    and db': "db' = fold delete_proxy (filter (\<lambda>i. i \<notin> set kept) (map xp_id (ExternalProxies sub db))) db1"
    using assms(2) by (auto simp: ReplaceExternalProxies_def Let_def bind_result_eq_Inr)
  have "ext_inv db1 \<and> carries db db1"
    using refresh_loop_carries [OF run assms(1) carries_refl [OF assms(1)]] assms(3) by blast
  then show ?thesis unfolding db' using fold_delete_carries by blast
qed


section \<open>Witnesses\<close>

definition demo_proxy :: "id \<Rightarrow> string \<Rightarrow> string \<Rightarrow> external_proxy" where
  "demo_proxy i name server =
     \<lparr>xp_id = i, xp_sub_id = ''s'', xp_name = name, xp_type = ''ss'', xp_server = server, xp_port = 443, xp_config = [],
      xp_display_name = ''mine'', xp_chain_node_id = [], xp_chain_proxy_id = [], xp_enabled = True, xp_ord = 0,
      xp_sort_order = 3, xp_traffic_rate = 2, xp_relay_exposed = True\<rparr>"

definition demo_ext :: ext_db where
  "demo_ext =
     \<lparr>xd_subs = [\<lparr>xs_id = ''s'', xs_name = ''provider'', xs_url = [], xs_body = [], xs_enabled = True, xs_fetched_at = None,
        xs_last_error = [], xs_created_at = 0, xs_updated_at = 0\<rparr>],
      xd_proxies = [demo_proxy ''a'' ''A'' ''h1'', demo_proxy ''b'' ''B'' ''h2''],
      xd_access = (empty_access [] [])\<lparr>ad_users := [demo_user\<lparr>u_group_id := None\<rparr>],
        ad_proxies := map access_row [demo_proxy ''a'' ''A'' ''h1'', demo_proxy ''b'' ''B'' ''h2''],
        ad_user_denies := (\<lambda>d. if d = External then {(''u'', ''a'')} else {})\<rparr>\<rparr>"

lemma demo_ext_inv: "ext_inv demo_ext"
proof -
  let ?a = "xd_access demo_ext"
  have ids: "user_ids ?a = [''u'']" "group_ids ?a = []" "universe ?a Node = []" "universe ?a Relay = []"
    "universe ?a External = [''a'', ''b'']"
    by (simp_all add: demo_ext_def empty_access_def user_ids_def group_ids_def demo_user_def universe.simps access_row_def demo_proxy_def)
  have "distinct (universe ?a d)" for d by (cases d) (simp_all add: ids)
  then have "rows_ok ?a" by (simp add: rows_ok_def ids) (simp add: demo_ext_def empty_access_def demo_user_def)
  moreover have "profiles_ok ?a" by (simp add: profiles_ok_def demo_ext_def empty_access_def)
  moreover have "dim_ok ?a d" for d
    by (cases d) (simp_all add: dim_ok_def ids, simp_all add: demo_ext_def empty_access_def)
  ultimately have "access_inv ?a" by (simp add: access_inv_def)
  then show ?thesis by (simp add: ext_inv_def) (simp add: demo_ext_def demo_proxy_def)
qed

theorem external_chain_acyclic_witness:
  "\<exists>db'. SetExternalProxy ''a'' [] ''b'' True demo_ext = Inr db' \<and> acyclic (chain_graph (xd_proxies db'))
     \<and> SetExternalProxy ''b'' [] ''a'' True db' = Inl ErrChainCycle"
proof -
  let ?db = "case SetExternalProxy ''a'' [] ''b'' True demo_ext of Inr x \<Rightarrow> x | Inl e \<Rightarrow> demo_ext"
  have run: "SetExternalProxy ''a'' [] ''b'' True demo_ext = Inr ?db"
    by (simp add: SetExternalProxy_def checkExternalChain_def update_proxy_def demo_ext_def demo_proxy_def chain_walk.simps next_of_def last_by_def)
  have "chain_graph (xd_proxies demo_ext) = {}" by (auto simp: chain_graph_def demo_ext_def demo_proxy_def)
  then have "acyclic (chain_graph (xd_proxies demo_ext))" by (simp add: acyclic_def)
  from external_chain_acyclic [OF demo_ext_inv this run] have "acyclic (chain_graph (xd_proxies ?db))" by simp
  moreover have "SetExternalProxy ''b'' [] ''a'' True ?db = Inl ErrChainCycle"
    by (simp add: SetExternalProxy_def checkExternalChain_def update_proxy_def demo_ext_def demo_proxy_def set_proxies_def
        chain_walk.simps next_of_def last_by_def sql_update_def)
  ultimately show ?thesis using run by blast
qed

definition demo_newid :: "int \<Rightarrow> id" where
  "demo_newid i = CHR ''n'' # show_int i"

theorem refresh_opens_nothing_witness:
  "\<exists>db'. ReplaceExternalProxies demo_newid ''s'' [demo_proxy [] ''A2'' ''h1'', demo_proxy [] ''C'' ''h3''] demo_ext = Inr db'
     \<and> carries demo_ext db' \<and> map xp_id (xd_proxies db') = [''a'', ''n1'']"
proof -
  let ?run = "ReplaceExternalProxies demo_newid ''s'' [demo_proxy [] ''A2'' ''h1'', demo_proxy [] ''C'' ''h3''] demo_ext"
  have shape: "is_ok ?run \<and> (case ?run of Inr db \<Rightarrow> map xp_id (xd_proxies db) | Inl e \<Rightarrow> []) = [''a'', ''n1'']"
    by code_simp
  then obtain db' where run: "?run = Inr db'" by (cases ?run) simp_all
  have "\<forall>j. demo_newid j \<noteq> [] \<and> demo_newid j \<notin> set (map xp_id (xd_proxies demo_ext))"
    by (simp add: demo_newid_def demo_ext_def demo_proxy_def)
  from refresh_opens_nothing [OF demo_ext_inv run this] run shape show ?thesis by auto
qed

text \<open>One pass over the fresh list is not the matching that is promised, by name and failing that by endpoint: a proxy
  under a new name takes by its endpoint the row of a proxy that is still in the list under its own name, and
  that proxy comes out as a new row, without its settings and closed to everybody.\<close>

theorem renamed_takes_row:
  "\<exists>db'. ReplaceExternalProxies demo_newid ''s'' [demo_proxy [] ''C'' ''h2'', demo_proxy [] ''B'' ''h3''] demo_ext = Inr db'
     \<and> map (\<lambda>p. (xp_id p, xp_name p, xp_display_name p)) (xd_proxies db') = [(''b'', ''C'', ''mine''), (''n1'', ''B'', [])]"
proof -
  let ?run = "ReplaceExternalProxies demo_newid ''s'' [demo_proxy [] ''C'' ''h2'', demo_proxy [] ''B'' ''h3''] demo_ext"
  have "is_ok ?run \<and> (case ?run of Inr db \<Rightarrow> map (\<lambda>p. (xp_id p, xp_name p, xp_display_name p)) (xd_proxies db) | Inl e \<Rightarrow> [])
      = [(''b'', ''C'', ''mine''), (''n1'', ''B'', [])]"
    by code_simp
  then show ?thesis by (cases ?run) simp_all
qed


end
