(* ===== verification/Restricted.thy ===== *)
theory Restricted
  imports Assemble Credentials Egress
begin

text \<open>
  Networks some nodes can reach and most subscribers must not: the destination tables of
  \<open>core/internal/store/restricted.go\<close>, the relay queries of \<open>core/internal/store/relay.go\<close> they are enforced
  through, and \<open>core/internal/profile/restricted.go\<close>, which decides for one node what is blocked and for whom.

  A destination admits the subscribers and the members of the groups it names, and nobody else. It is enforced on
  the nodes it names and on the nodes that send traffic straight to them: the entries of relay lines and the
  sources of egress rules, where a connection still carries its subscriber's email.

  The theorems: where a destination is enforced every credential of an outsider is blocked and no credential of
  an admitted subscriber is; a change of a destination re-applies every node that enforces it; but traffic that
  takes two hops to the destination is enforced nowhere.
\<close>

section \<open>Relay lines\<close>

definition scanRelay :: "box \<Rightarrow> node_relay \<Rightarrow> (db_error, node_relay) result" where
  "scanRelay b r =
     (case Open b (sealed_aad (NodeRelayKey (r_id r))) (r_secret r) of
        Inl e \<Rightarrow> Inl (Sealing e)
      | Inr plain \<Rightarrow> Inr (r\<lparr>r_secret := plain\<rparr>))"

fun scan_relays :: "box \<Rightarrow> node_relay list \<Rightarrow> (db_error, node_relay list) result" where
  "scan_relays b [] = Inr []"
| "scan_relays b (r # rs) = bind_result (scanRelay b r) (\<lambda>x. bind_result (scan_relays b rs) (\<lambda>xs. Inr (x # xs)))"

text \<open>\<open>ORDER BY sort_order = 0, sort_order, created_at\<close>.\<close>

definition queryRelays :: "box \<Rightarrow> (node_relay \<Rightarrow> bool) \<Rightarrow> access_db \<Rightarrow> (db_error, node_relay list) result" where
  "queryRelays b P db =
     scan_relays b (sort_key (\<lambda>r. r_sort_order r = 0) (sort_key r_sort_order (sort_key r_created_at (filter P (ad_relays db)))))"

definition GetNodeRelay :: "box \<Rightarrow> id \<Rightarrow> access_db \<Rightarrow> (db_error, node_relay) result" where
  "GetNodeRelay b i db =
     (case sql_row (\<lambda>r. r_id r = i) (ad_relays db) of None \<Rightarrow> Inl ErrNoRows | Some r \<Rightarrow> scanRelay b r)"

definition ListNodeRelays :: "box \<Rightarrow> access_db \<Rightarrow> (db_error, node_relay list) result" where
  "ListNodeRelays b = queryRelays b (\<lambda>r. True)"

definition RelaysFromEntry :: "box \<Rightarrow> id \<Rightarrow> access_db \<Rightarrow> (db_error, node_relay list) result" where
  "RelaysFromEntry b node = queryRelays b (\<lambda>r. r_entry_node_id r = node \<and> r_enabled r)"

definition RelaysToExit :: "box \<Rightarrow> id \<Rightarrow> access_db \<Rightarrow> (db_error, node_relay list) result" where
  "RelaysToExit b node = queryRelays b (\<lambda>r. r_exit_node_id r = node \<and> r_enabled r)"

definition UpdateNodeRelay :: "id \<Rightarrow> string \<Rightarrow> bool \<Rightarrow> rat \<Rightarrow> access_db \<Rightarrow> (db_error, access_db) result" where
  "UpdateNodeRelay i label enabled rate db =
     (if i \<notin> set (universe db Relay) then Inl ErrNoRows
      else Inr (db\<lparr>ad_relays := sql_update (\<lambda>r. r_id r = i)
             (\<lambda>r. r\<lparr>r_label := label, r_enabled := enabled, r_traffic_rate := rate\<rparr>) (ad_relays db)\<rparr>))"

definition ListUsers :: "access_db \<Rightarrow> user list" where
  "ListUsers db = sort_key u_name (ad_users db)"

section \<open>Destinations\<close>

record restricted_row =
  rw_id :: id
  rw_name :: string
  rw_cidrs :: string
  rw_domains :: string
  rw_created_at :: int

record restricted_dest =
  rd_id :: id
  rd_name :: string
  rd_cidrs :: "string list"
  rd_domains :: "string list"
  rd_node_ids :: "id list"
  rd_allowed_user_ids :: "id list"
  rd_allowed_group_ids :: "id list"
  rd_created_at :: int

text \<open>The rows, and the three key tables as lists of pairs.\<close>

record restricted_db =
  rs_rows :: "restricted_row list"
  rs_nodes :: "(id \<times> id) list"
  rs_allows :: "(id \<times> id) list"
  rs_group_allows :: "(id \<times> id) list"

definition CreateRestrictedDestination ::
  "id \<Rightarrow> int \<Rightarrow> string \<Rightarrow> string list \<Rightarrow> string list \<Rightarrow> restricted_db \<Rightarrow> (db_error, restricted_dest \<times> restricted_db) result" where
  "CreateRestrictedDestination newid now name cidrs domains db =
     (if newid \<in> set (map rw_id (rs_rows db)) then Inl UniqueViolation
      else Inr (\<lparr>rd_id = newid, rd_name = name, rd_cidrs = cidrs, rd_domains = domains, rd_node_ids = [],
                 rd_allowed_user_ids = [], rd_allowed_group_ids = [], rd_created_at = now\<rparr>,
                db\<lparr>rs_rows := rs_rows db @ [\<lparr>rw_id = newid, rw_name = name, rw_cidrs = joinLines cidrs,
                     rw_domains = joinLines domains, rw_created_at = now\<rparr>]\<rparr>))"

definition UpdateRestrictedDestination ::
  "id \<Rightarrow> string \<Rightarrow> string list \<Rightarrow> string list \<Rightarrow> restricted_db \<Rightarrow> (db_error, restricted_db) result" where
  "UpdateRestrictedDestination i name cidrs domains db =
     (if i \<notin> set (map rw_id (rs_rows db)) then Inl ErrNoRows
      else Inr (db\<lparr>rs_rows := sql_update (\<lambda>r. rw_id r = i)
             (\<lambda>r. r\<lparr>rw_name := name, rw_cidrs := joinLines cidrs, rw_domains := joinLines domains\<rparr>) (rs_rows db)\<rparr>))"

definition DeleteRestrictedDestination :: "id \<Rightarrow> restricted_db \<Rightarrow> (db_error, restricted_db) result" where
  "DeleteRestrictedDestination i db =
     (if i \<notin> set (map rw_id (rs_rows db)) then Inl ErrNoRows
      else Inr \<lparr>rs_rows = sql_delete (\<lambda>r. rw_id r = i) (rs_rows db), rs_nodes = sql_delete (\<lambda>e. fst e = i) (rs_nodes db),
                rs_allows = sql_delete (\<lambda>e. fst e = i) (rs_allows db),
                rs_group_allows = sql_delete (\<lambda>e. fst e = i) (rs_group_allows db)\<rparr>)"

text \<open>The whole set of one destination at once; a pair that is there already is ignored, an unknown end is an error.\<close>

definition replaceSet :: "id list \<Rightarrow> id list \<Rightarrow> id \<Rightarrow> id list \<Rightarrow> (id \<times> id) list \<Rightarrow> (db_error, (id \<times> id) list) result" where
  "replaceSet dests ends key ids t =
     (if ids \<noteq> [] \<and> key \<notin> set dests \<or> \<not> set ids \<subseteq> set ends then Inl ForeignKey
      else Inr (sql_delete (\<lambda>e. fst e = key) t @ map (Pair key) (remdups ids)))"

definition SetRestrictedDestinationNodes :: "access_db \<Rightarrow> id \<Rightarrow> id list \<Rightarrow> restricted_db \<Rightarrow> (db_error, restricted_db) result" where
  "SetRestrictedDestinationNodes adb i ids db =
     bind_result (replaceSet (map rw_id (rs_rows db)) (universe adb Node) i ids (rs_nodes db)) (\<lambda>t. Inr (db\<lparr>rs_nodes := t\<rparr>))"

definition SetRestrictedDestinationAllows :: "access_db \<Rightarrow> id \<Rightarrow> id list \<Rightarrow> restricted_db \<Rightarrow> (db_error, restricted_db) result" where
  "SetRestrictedDestinationAllows adb i ids db =
     bind_result (replaceSet (map rw_id (rs_rows db)) (user_ids adb) i ids (rs_allows db)) (\<lambda>t. Inr (db\<lparr>rs_allows := t\<rparr>))"

definition SetRestrictedDestinationGroupAllows :: "access_db \<Rightarrow> id \<Rightarrow> id list \<Rightarrow> restricted_db \<Rightarrow> (db_error, restricted_db) result" where
  "SetRestrictedDestinationGroupAllows adb i ids db =
     bind_result (replaceSet (map rw_id (rs_rows db)) (group_ids adb) i ids (rs_group_allows db)) (\<lambda>t. Inr (db\<lparr>rs_group_allows := t\<rparr>))"

definition stringColumn :: "id \<Rightarrow> (id \<times> id) list \<Rightarrow> id list" where
  "stringColumn key t = map snd (filter (\<lambda>e. fst e = key) t)"

definition ListRestrictedDestinations :: "restricted_db \<Rightarrow> restricted_dest list" where
  "ListRestrictedDestinations db =
     map (\<lambda>r. \<lparr>rd_id = rw_id r, rd_name = rw_name r, rd_cidrs = splitLines (rw_cidrs r), rd_domains = splitLines (rw_domains r),
               rd_node_ids = stringColumn (rw_id r) (rs_nodes db), rd_allowed_user_ids = stringColumn (rw_id r) (rs_allows db),
               rd_allowed_group_ids = stringColumn (rw_id r) (rs_group_allows db), rd_created_at = rw_created_at r\<rparr>)
       (sort_key rw_created_at (rs_rows db))"

definition GetRestrictedDestination :: "id \<Rightarrow> restricted_db \<Rightarrow> (db_error, restricted_dest) result" where
  "GetRestrictedDestination i db =
     (case find (\<lambda>d. rd_id d = i) (ListRestrictedDestinations db) of None \<Rightarrow> Inl ErrNoRows | Some d \<Rightarrow> Inr d)"

section \<open>Blocks\<close>

definition dest_applies :: "id \<Rightarrow> id list \<Rightarrow> restricted_dest \<Rightarrow> bool" where
  "dest_applies node exitOf d \<longleftrightarrow> list_ex (\<lambda>nid. nid = node \<or> nid \<in> set exitOf) (rd_node_ids d)"

definition admitted :: "access_db \<Rightarrow> restricted_dest \<Rightarrow> id list" where
  "admitted adb d = rd_allowed_user_ids d @ concat (map (GroupMemberIDs adb) (rd_allowed_group_ids d))"

definition barred_emails :: "access_db \<Rightarrow> credential list \<Rightarrow> restricted_dest \<Rightarrow> string list" where
  "barred_emails adb creds d =
     concat (map (\<lambda>u. if u_id u \<in> set (admitted adb d) then []
                       else map c_email (filter (\<lambda>c. c_user_id c = u_id u) creds)) (ListUsers adb))"

definition block_for :: "id \<Rightarrow> id list \<Rightarrow> access_db \<Rightarrow> credential list \<Rightarrow> restricted_dest \<Rightarrow> block_source list" where
  "block_for node exitOf adb creds d =
     (if \<not> dest_applies node exitOf d \<or> barred_emails adb creds d = [] then []
      else [\<lparr>bl_cidrs = rd_cidrs d, bl_domains = rd_domains d, bl_emails = barred_emails adb creds d\<rparr>])"

text \<open>The nodes this one sends traffic to: exits of its relay lines and landings of its egress rules.\<close>

definition exits_of :: "node_relay list \<Rightarrow> egress_rule list \<Rightarrow> id list" where
  "exits_of relays egress =
     map r_exit_node_id relays
     @ map er_target_node_id (filter (\<lambda>r. er_enabled r \<and> er_target_kind r = EgressNode \<and> er_target_node_id r \<noteq> []) egress)"

definition blocksFor ::
  "box \<Rightarrow> id \<Rightarrow> cred_db \<Rightarrow> egress_db \<Rightarrow> restricted_db \<Rightarrow> (db_error, block_source list) result" where
  "blocksFor b node cdb edb rdb =
     (let dests = ListRestrictedDestinations rdb; adb = cd_access cdb
      in if dests = [] then Inr []
         else
           bind_result (RelaysFromEntry b node adb) (\<lambda>relays.
           bind_result (EgressRulesOn b node edb) (\<lambda>egress.
           bind_result (NodeCredentials b node cdb) (\<lambda>creds.
             Inr (concat (map (block_for node (exits_of relays egress) adb creds) dests))))))"

definition RestrictedNodeIDs ::
  "box \<Rightarrow> id \<Rightarrow> access_db \<Rightarrow> egress_db \<Rightarrow> restricted_db \<Rightarrow> (db_error, id list) result" where
  "RestrictedNodeIDs b destID adb edb rdb =
     bind_result (GetRestrictedDestination destID rdb) (\<lambda>d.
     bind_result (ListNodeRelays b adb) (\<lambda>relays.
       Inr (distinct_from {}
         (rd_node_ids d
          @ concat (map (\<lambda>rl. if \<not> r_enabled rl then []
                               else map (\<lambda>_. r_entry_node_id rl) (filter (\<lambda>nid. r_exit_node_id rl = nid) (rd_node_ids d))) relays)
          @ EgressSourceNodesFor (rd_node_ids d) edb))))"

section \<open>Lemmas\<close>

text \<open>Opening the secrets of rows changes no other column.\<close>

lemma scan_relays_map:
  assumes "scan_relays b rs = Inr xs" and "\<And>r s. f (r\<lparr>r_secret := s\<rparr>) = f r"
  shows "map f xs = map f rs"
  using assms
proof (induction rs arbitrary: xs)
  case (Cons r rs)
  then obtain x ys where x: "scanRelay b r = Inr x" and ys: "scan_relays b rs = Inr ys" "xs = x # ys"
    by (auto simp: bind_result_def split: sum.splits)
  obtain s where "x = r\<lparr>r_secret := s\<rparr>" using x by (auto simp: scanRelay_def split: sum.splits)
  then show ?case using Cons ys by simp
qed simp

lemma scan_egress_map:
  assumes "scan_egress_rows b ws = Inr rs"
    and "\<And>w r. scanEgress b w = Inr r \<Longrightarrow> f r = g w"
  shows "map f rs = map g ws"
  using assms
proof (induction ws arbitrary: rs)
  case (Cons w ws)
  then obtain x ys where "scanEgress b w = Inr x" "scan_egress_rows b ws = Inr ys" "rs = x # ys"
    by (auto simp: bind_result_def split: sum.splits)
  then show ?case using Cons by simp
qed simp

lemma scan_credentials_map:
  assumes "scanCredentials b cs = Inr xs" and "\<And>c s. f (c\<lparr>c_secret := s\<rparr>) = f c"
  shows "map f xs = map f cs"
  using assms
proof (induction cs arbitrary: xs)
  case (Cons c cs)
  then obtain x ys where x: "scanCredential b c = Inr x" and ys: "scanCredentials b cs = Inr ys" "xs = x # ys"
    by (auto simp: bind_result_def split: sum.splits)
  obtain s where "x = c\<lparr>c_secret := s\<rparr>" using x by (auto simp: scanCredential_def split: sum.splits)
  then show ?case using Cons ys by simp
qed simp

lemma query_relays_set:
  assumes "queryRelays b P db = Inr xs" and "\<And>r s. f (r\<lparr>r_secret := s\<rparr>) = f r"
  shows "set (map f xs) = f ` {r \<in> set (ad_relays db). P r}"
  using assms(1) unfolding queryRelays_def by (subst scan_relays_map [OF _ assms(2)]) auto

definition landing :: "egress_row \<Rightarrow> bool \<times> string \<times> id" where
  "landing w = (ew_enabled w, ew_target_kind w, coalesce (ew_target_node_id w))"

lemma egress_on_set:
  assumes "EgressRulesOn b node db = Inr rs"
  shows "set (map (\<lambda>r. (er_enabled r, er_target_kind r, er_target_node_id r)) rs) = landing ` {w \<in> set (ed_rules db). ew_node_id w = node}"
proof -
  have "map (\<lambda>r. (er_enabled r, er_target_kind r, er_target_node_id r)) rs
      = map landing (in_order (filter (\<lambda>w. ew_node_id w = node) (ed_rules db)))"
    using assms unfolding EgressRulesOn_def
    by (rule scan_egress_map) (auto simp: scanEgress_def landing_def bind_result_def split: sum.splits if_splits)
  then show ?thesis by (simp add: in_order_def)
qed

lemma exits_of_set:
  assumes "RelaysFromEntry b node adb = Inr relays" and "EgressRulesOn b node edb = Inr egress"
  shows "set (exits_of relays egress) =
    r_exit_node_id ` {r \<in> set (ad_relays adb). r_entry_node_id r = node \<and> r_enabled r}
    \<union> {t. t \<noteq> [] \<and> (\<exists>w\<in>set (ed_rules edb). ew_node_id w = node \<and> lands_on t w)}"
proof -
  have relays: "set (map r_exit_node_id relays) = r_exit_node_id ` {r \<in> set (ad_relays adb). r_entry_node_id r = node \<and> r_enabled r}"
    using assms(1) unfolding RelaysFromEntry_def by (rule query_relays_set) simp
  have "t \<in> set (map er_target_node_id (filter (\<lambda>r. er_enabled r \<and> er_target_kind r = EgressNode \<and> er_target_node_id r \<noteq> []) egress))
      \<longleftrightarrow> t \<noteq> [] \<and> (True, EgressNode, t) \<in> set (map (\<lambda>r. (er_enabled r, er_target_kind r, er_target_node_id r)) egress)" for t
    by auto
  moreover have "(True, EgressNode, t) \<in> landing ` {w \<in> set (ed_rules edb). ew_node_id w = node}
      \<longleftrightarrow> (\<exists>w\<in>set (ed_rules edb). ew_node_id w = node \<and> lands_on t w)" if "t \<noteq> []" for t
    using that by (auto simp: landing_def lands_on_def image_iff coalesce_def split: option.splits)
  ultimately have "set (map er_target_node_id (filter (\<lambda>r. er_enabled r \<and> er_target_kind r = EgressNode \<and> er_target_node_id r \<noteq> []) egress))
      = {t. t \<noteq> [] \<and> (\<exists>w\<in>set (ed_rules edb). ew_node_id w = node \<and> lands_on t w)}"
    unfolding egress_on_set [OF assms(2)] by blast
  with relays show ?thesis unfolding exits_of_def set_append by simp
qed

lemma node_credentials_set:
  assumes "NodeCredentials b node db = Inr creds"
  shows "set (map (\<lambda>c. (c_user_id c, c_email c)) creds)
    = (\<lambda>c. (c_user_id c, c_email c)) ` {c \<in> set (cd_creds db). c_node_id c = node}"
  using assms unfolding NodeCredentials_def by (subst scan_credentials_map) auto

lemma barred_emails_set:
  "set (barred_emails adb creds d) =
     {e. \<exists>u. u \<in> set (user_ids adb) \<and> u \<notin> set (admitted adb d) \<and> (u, e) \<in> set (map (\<lambda>c. (c_user_id c, c_email c)) creds)}"
  by (auto simp: barred_emails_def ListUsers_def user_ids_def) force+

lemma one_holder:
  "u \<in> U \<Longrightarrow> (u, e) \<in> S \<Longrightarrow> (\<And>v. (v, e) \<in> S \<Longrightarrow> v = u) \<Longrightarrow> (\<exists>v. v \<in> U \<and> v \<notin> A \<and> (v, e) \<in> S) \<longleftrightarrow> u \<notin> A"
  by blast

lemma reached_iff:
  "(\<And>t. t \<in> R \<Longrightarrow> P t) \<Longrightarrow> x \<in> R \<or> (\<exists>t\<in>R. t \<in> X) \<or> (\<exists>t\<in>R. Q t) \<longleftrightarrow> (\<exists>t\<in>R. t = x \<or> t \<in> X \<or> P t \<and> Q t)"
  by blast

lemma blocks_are_exact:
  assumes ok: "blocksFor b node cdb edb rdb = Inr blocks" and inv: "cred_inv cdb"
    and relays: "RelaysFromEntry b node (cd_access cdb) = Inr relays" and egress: "EgressRulesOn b node edb = Inr egress"
    and d: "d \<in> set (ListRestrictedDestinations rdb)" and c: "c \<in> set (cd_creds cdb)" "c_node_id c = node"
  shows "(dest_applies node (exits_of relays egress) d \<and> c_user_id c \<notin> set (admitted (cd_access cdb) d) \<longrightarrow>
           (\<exists>bl\<in>set blocks. bl_cidrs bl = rd_cidrs d \<and> bl_domains bl = rd_domains d \<and> c_email c \<in> set (bl_emails bl)))
    \<and> (\<forall>bl\<in>set blocks. bl_emails bl \<noteq> [] \<and>
        (\<exists>d'\<in>set (ListRestrictedDestinations rdb). dest_applies node (exits_of relays egress) d'
           \<and> bl_cidrs bl = rd_cidrs d' \<and> bl_domains bl = rd_domains d'
           \<and> (c_email c \<in> set (bl_emails bl) \<longrightarrow> c_user_id c \<notin> set (admitted (cd_access cdb) d'))))"
proof -
  let ?adb = "cd_access cdb" and ?ex = "exits_of relays egress"
  obtain creds where creds: "NodeCredentials b node cdb = Inr creds"
    and blocks: "blocks = concat (map (block_for node ?ex ?adb creds) (ListRestrictedDestinations rdb))"
    using ok d relays egress by (auto simp: blocksFor_def Let_def bind_result_eq_Inr split: if_splits)
  have emails: "c_email c \<in> set (barred_emails ?adb creds d') \<longleftrightarrow> c_user_id c \<notin> set (admitted ?adb d')" for d'
  proof -
    have known: "c_user_id c \<in> set (user_ids ?adb)" using inv c by (auto simp: cred_inv_def cred_refs_def list_all_iff)
    have owner: "c_user_id c' = c_user_id c" if "c' \<in> set (cd_creds cdb)" "c_email c' = c_email c" for c'
      using inv c(1) that by (auto simp: cred_inv_def distinct_map inj_on_def)
    let ?S = "(\<lambda>c. (c_user_id c, c_email c)) ` {c \<in> set (cd_creds cdb). c_node_id c = node}"
    have here: "(c_user_id c, c_email c) \<in> ?S" using c by (intro image_eqI [of _ _ c]) simp_all
    have only: "u = c_user_id c" if s: "(u, c_email c) \<in> ?S" for u
    proof -
      obtain c' where "c' \<in> set (cd_creds cdb)" "c_email c' = c_email c" "u = c_user_id c'" using s by fastforce
      then show ?thesis using owner by simp
    qed
    show ?thesis
      unfolding barred_emails_set node_credentials_set [OF creds] mem_Collect_eq by (rule one_holder [OF known here only])
  qed
  have first: "\<exists>bl\<in>set blocks. bl_cidrs bl = rd_cidrs d \<and> bl_domains bl = rd_domains d \<and> c_email c \<in> set (bl_emails bl)"
    if "dest_applies node ?ex d" "c_user_id c \<notin> set (admitted ?adb d)"
  proof -
    have "c_email c \<in> set (barred_emails ?adb creds d)" using emails that by blast
    then have "\<lparr>bl_cidrs = rd_cidrs d, bl_domains = rd_domains d, bl_emails = barred_emails ?adb creds d\<rparr> \<in> set blocks"
      using that d by (auto simp: blocks block_for_def intro!: bexI [of _ d])
    then show ?thesis
      using \<open>c_email c \<in> _\<close>
      by (intro bexI [of _ "\<lparr>bl_cidrs = rd_cidrs d, bl_domains = rd_domains d, bl_emails = barred_emails ?adb creds d\<rparr>"]) simp_all
  qed
  have second: "bl_emails bl \<noteq> [] \<and> (\<exists>d'\<in>set (ListRestrictedDestinations rdb). dest_applies node ?ex d'
           \<and> bl_cidrs bl = rd_cidrs d' \<and> bl_domains bl = rd_domains d'
           \<and> (c_email c \<in> set (bl_emails bl) \<longrightarrow> c_user_id c \<notin> set (admitted ?adb d')))" if bl_in: "bl \<in> set blocks" for bl
  proof -
    obtain d' where d': "d' \<in> set (ListRestrictedDestinations rdb)" "dest_applies node ?ex d'" "barred_emails ?adb creds d' \<noteq> []"
      and bl: "bl = \<lparr>bl_cidrs = rd_cidrs d', bl_domains = rd_domains d', bl_emails = barred_emails ?adb creds d'\<rparr>"
      using bl_in by (auto simp: blocks block_for_def split: if_splits)
    show ?thesis using d' emails [of d'] by (auto simp: bl)
  qed
  show ?thesis
  proof (intro conjI impI ballI, goal_cases)
    case 1
    then show ?case using first by simp
  next
    case (2 bl)
    then show ?case using second by simp
  next
    case (3 bl)
    then show ?case using second by simp
  qed
qed

section \<open>Properties\<close>

text \<open>C9. What is blocked on a node: for every destination enforced there, exactly the credentials on that node of
  subscribers the destination does not admit, in person or through their group. No block is empty, which would
  match everybody.\<close>

theorem blocks_exact:
  assumes ok: "blocksFor b node cdb edb rdb = Inr blocks" and inv: "cred_inv cdb"
    and relays: "RelaysFromEntry b node (cd_access cdb) = Inr relays" and egress: "EgressRulesOn b node edb = Inr egress"
    and d: "d \<in> set (ListRestrictedDestinations rdb)" and c: "c \<in> set (cd_creds cdb)" "c_node_id c = node"
  shows "(dest_applies node (exits_of relays egress) d \<and> c_user_id c \<notin> set (admitted (cd_access cdb) d) \<longrightarrow>
           (\<exists>bl\<in>set blocks. bl_cidrs bl = rd_cidrs d \<and> bl_domains bl = rd_domains d \<and> c_email c \<in> set (bl_emails bl)))
    \<and> (\<forall>bl\<in>set blocks. bl_emails bl \<noteq> [] \<and>
        (\<exists>d'\<in>set (ListRestrictedDestinations rdb). dest_applies node (exits_of relays egress) d'
           \<and> bl_cidrs bl = rd_cidrs d' \<and> bl_domains bl = rd_domains d'
           \<and> (c_email c \<in> set (bl_emails bl) \<longrightarrow> c_user_id c \<notin> set (admitted (cd_access cdb) d'))))"
  using assms by (rule blocks_are_exact)

text \<open>A change of a destination re-applies the right nodes: the list of the nodes to re-apply holds a node exactly
  when the destination is enforced there.\<close>

theorem restricted_nodes_complete:
  assumes "RestrictedNodeIDs b i adb edb rdb = Inr ids" and "GetRestrictedDestination i rdb = Inr d"
    and "[] \<notin> set (rd_node_ids d)"
    and relays: "RelaysFromEntry b node adb = Inr relays" and egress: "EgressRulesOn b node edb = Inr egress"
  shows "node \<in> set ids \<longleftrightarrow> dest_applies node (exits_of relays egress) d"
proof -
  obtain all where all: "ListNodeRelays b adb = Inr all"
    and ids: "ids = distinct_from {} (rd_node_ids d
          @ concat (map (\<lambda>rl. if \<not> r_enabled rl then []
                               else map (\<lambda>_. r_entry_node_id rl) (filter (\<lambda>nid. r_exit_node_id rl = nid) (rd_node_ids d))) all)
          @ EgressSourceNodesFor (rd_node_ids d) edb)"
    using assms(1,2) by (auto simp: RestrictedNodeIDs_def bind_result_eq_Inr)
  have rows: "set (map (\<lambda>r. (r_enabled r, r_entry_node_id r, r_exit_node_id r)) all)
      = (\<lambda>r. (r_enabled r, r_entry_node_id r, r_exit_node_id r)) ` set (ad_relays adb)"
    using query_relays_set [OF all [unfolded ListNodeRelays_def], of "\<lambda>r. (r_enabled r, r_entry_node_id r, r_exit_node_id r)"] by simp
  have "node \<in> set (concat (map (\<lambda>rl. if \<not> r_enabled rl then []
        else map (\<lambda>_. r_entry_node_id rl) (filter (\<lambda>nid. r_exit_node_id rl = nid) (rd_node_ids d))) all))
      \<longleftrightarrow> (\<exists>t\<in>set (rd_node_ids d). (True, node, t) \<in> set (map (\<lambda>r. (r_enabled r, r_entry_node_id r, r_exit_node_id r)) all))"
    by (auto split: if_splits)
  also have "\<dots> \<longleftrightarrow> (\<exists>t\<in>set (rd_node_ids d). t \<in> r_exit_node_id ` {r \<in> set (ad_relays adb). r_entry_node_id r = node \<and> r_enabled r})"
    unfolding rows by auto
  finally have entry: "node \<in> set (concat (map (\<lambda>rl. if \<not> r_enabled rl then []
        else map (\<lambda>_. r_entry_node_id rl) (filter (\<lambda>nid. r_exit_node_id rl = nid) (rd_node_ids d))) all)) \<longleftrightarrow> \<dots>" .
  have source: "node \<in> set (EgressSourceNodesFor (rd_node_ids d) edb)
      \<longleftrightarrow> (\<exists>t\<in>set (rd_node_ids d). \<exists>w\<in>set (ed_rules edb). ew_node_id w = node \<and> lands_on t w)"
    by (auto simp: EgressSourceNodesFor_def list_ex_iff)
  have nonempty: "t \<noteq> []" if "t \<in> set (rd_node_ids d)" for t using assms(3) that by blast
  show ?thesis
    unfolding ids set_distinct_from set_append dest_applies_def exits_of_set [OF relays egress] list_ex_iff Un_iff Diff_empty
      mem_Collect_eq entry source
    by (rule reached_iff) (rule nonempty)
qed

text \<open>Three nodes in a row: an egress rule sends traffic of \<open>a\<close> to \<open>b\<close>, one of \<open>b\<close> sends it on to \<open>c\<close>. A
  subscriber holds a credential on \<open>a\<close>.\<close>

definition demo_row3 :: access_db where
  "demo_row3 = (empty_access [''p''] [])\<lparr>ad_users := [demo_user\<lparr>u_group_id := None\<rparr>],
     ad_nodes := map (\<lambda>i. demo_node\<lparr>n_id := i, n_name := i, n_join_token_hash := None, n_credential_hash := None\<rparr>) [''a'', ''b'', ''c'']\<rparr>"

definition demo_cred :: credential where
  "demo_cred = \<lparr>c_id = ''k'', c_user_id = ''u'', c_profile_id = ''p'', c_node_id = ''a'', c_exit_proxy_id = [], c_exit_relay_id = [],
     c_email = ''u@a'', c_secret = ''plain:s'', c_up_bytes = 0, c_down_bytes = 0, c_created_at = 0\<rparr>"

definition demo_holder :: cred_db where
  "demo_holder = \<lparr>cd_access = demo_row3, cd_creds = [demo_cred]\<rparr>"

definition demo_chain :: egress_db where
  "demo_chain = demo_fleet [demo_row ''1'' ''a'' ''b'' True, demo_row ''2'' ''b'' ''c'' True]"

definition demo_dest :: "id \<Rightarrow> restricted_db" where
  "demo_dest node = \<lparr>rs_rows = [\<lparr>rw_id = ''d'', rw_name = ''dn42'', rw_cidrs = ''172.20.0.0/14'', rw_domains = ''dn42'', rw_created_at = 1\<rparr>],
     rs_nodes = [(''d'', node)], rs_allows = [], rs_group_allows = []\<rparr>"

lemma demo_row3_ids:
  "user_ids demo_row3 = [''u'']" "group_ids demo_row3 = []" "universe demo_row3 Node = [''a'', ''b'', ''c'']"
  "universe demo_row3 Relay = []" "universe demo_row3 External = []" "ad_profiles demo_row3 = [''p'']"
  by (simp_all add: demo_row3_def empty_access_def user_ids_def group_ids_def demo_user_def demo_node_def universe.simps)

lemma demo_holder_inv: "cred_inv demo_holder"
proof -
  have "distinct (universe demo_row3 d)" for d by (cases d) (simp_all add: demo_row3_ids)
  then have "rows_ok demo_row3"
    by (simp add: rows_ok_def demo_row3_ids) (simp add: demo_row3_def empty_access_def demo_user_def)
  moreover have "profiles_ok demo_row3"
    by (simp add: profiles_ok_def demo_row3_ids) (simp add: demo_row3_def empty_access_def)
  moreover have "dim_ok demo_row3 d" for d
    by (cases d) (simp_all add: dim_ok_def demo_row3_ids, simp_all add: demo_row3_def empty_access_def)
  ultimately show ?thesis
    by (simp add: cred_inv_def access_inv_def demo_holder_def cred_refs_def demo_row3_ids demo_cred_def)
qed

definition demo_blocks :: "block_source list" where
  "demo_blocks = [\<lparr>bl_cidrs = [''172.20.0.0/14''], bl_domains = [''dn42''], bl_emails = [''u@a'']\<rparr>]"

theorem blocks_exact_witness:
  "blocksFor plain_box ''a'' demo_holder demo_chain (demo_dest ''b'') = Inr demo_blocks
   \<and> (\<exists>bl\<in>set demo_blocks. bl_cidrs bl = [''172.20.0.0/14''] \<and> ''u@a'' \<in> set (bl_emails bl))"
proof -
  let ?d = "hd (ListRestrictedDestinations (demo_dest ''b''))"
  let ?eg = "projr (EgressRulesOn plain_box ''a'' demo_chain)"
  have ok: "blocksFor plain_box ''a'' demo_holder demo_chain (demo_dest ''b'') = Inr demo_blocks" by code_simp
  have relays: "RelaysFromEntry plain_box ''a'' (cd_access demo_holder) = Inr []" by code_simp
  have egress: "EgressRulesOn plain_box ''a'' demo_chain = Inr ?eg" by code_simp
  have d: "?d \<in> set (ListRestrictedDestinations (demo_dest ''b''))" by code_simp
  have c: "demo_cred \<in> set (cd_creds demo_holder)" "c_node_id demo_cred = ''a''" by code_simp+
  have "dest_applies ''a'' (exits_of [] ?eg) ?d \<and> c_user_id demo_cred \<notin> set (admitted (cd_access demo_holder) ?d)" by code_simp
  moreover have "rd_cidrs ?d = [''172.20.0.0/14'']" "c_email demo_cred = ''u@a''" by code_simp+
  ultimately show ?thesis
    using ok blocks_exact [OF ok demo_holder_inv relays egress d c, THEN conjunct1] by auto
qed

theorem restricted_nodes_complete_witness:
  "\<exists>ids. RestrictedNodeIDs plain_box ''d'' demo_row3 demo_chain (demo_dest ''b'') = Inr ids \<and> ''a'' \<in> set ids \<and> ''c'' \<notin> set ids"
proof -
  let ?ids = "projr (RestrictedNodeIDs plain_box ''d'' demo_row3 demo_chain (demo_dest ''b''))"
  let ?d = "projr (GetRestrictedDestination ''d'' (demo_dest ''b''))"
  let ?eg = "\<lambda>n. projr (EgressRulesOn plain_box n demo_chain)"
  have ids: "RestrictedNodeIDs plain_box ''d'' demo_row3 demo_chain (demo_dest ''b'') = Inr ?ids"
    and d: "GetRestrictedDestination ''d'' (demo_dest ''b'') = Inr ?d" "[] \<notin> set (rd_node_ids ?d)"
    and a: "RelaysFromEntry plain_box ''a'' demo_row3 = Inr []" "EgressRulesOn plain_box ''a'' demo_chain = Inr (?eg ''a'')"
    and c: "RelaysFromEntry plain_box ''c'' demo_row3 = Inr []" "EgressRulesOn plain_box ''c'' demo_chain = Inr (?eg ''c'')"
    by code_simp+
  have "dest_applies ''a'' (exits_of [] (?eg ''a'')) ?d" "\<not> dest_applies ''c'' (exits_of [] (?eg ''c'')) ?d" by code_simp+
  then show ?thesis
    using ids restricted_nodes_complete [OF ids d a] restricted_nodes_complete [OF ids d c] by blast
qed

text \<open>Two hops away a destination is enforced nowhere. The network is on \<open>c\<close>, which admits nobody; the traffic of the
  subscriber on \<open>a\<close> reaches \<open>c\<close> by the two rules; and neither \<open>a\<close>, where the connection is still the
  subscriber's, nor \<open>b\<close>, where it is the link's, blocks anything.\<close>

theorem two_hop_bypass:
  "map_option fst (egressReaches plain_box demo_chain ''a'' ''c'') = Some True
   \<and> admitted demo_row3 (hd (ListRestrictedDestinations (demo_dest ''c''))) = []
   \<and> map c_user_id (cd_creds demo_holder) = [''u'']
   \<and> blocksFor plain_box ''a'' demo_holder demo_chain (demo_dest ''c'') = Inr []
   \<and> blocksFor plain_box ''b'' demo_holder demo_chain (demo_dest ''c'') = Inr []"
  by code_simp

end
