(* ===== verification/Panel.thy ===== *)
theory Panel
  imports Contexts ExitOutbound External Restricted
begin

text \<open>
  The panel's tables side by side, and what one node needs to dial another: \<open>core/internal/profile/relay.go\<close>,
  \<open>egress.go\<close> and \<open>probe.go\<close>. An outbound towards a node of the fleet is the rendering of the exit profile's
  \<open>xray-json\<close> client template under a machine credential, decoded, its tag pinned and encoded again.

  Decoding into \<open>map[string]any\<close> turns a number into a \<open>float64\<close>; what \<open>json.Marshal\<close> prints for it is the
  parameter \<open>fl\<close>, \<^term>\<open>None\<close> when the literal is out of range. The tables share the rows of nodes, users and
  external proxies; the views below give each store the tables it reads.

  The theorems: a pinned outbound always carries the tag the routing rules name and everything else the template
  said; a template that renders to \<open>null\<close> panics; an entry node and its exit agree on the credential of a line; the
  probe connects as an enabled subscriber of the profile it tests, which need not be one the node admits.
\<close>

section \<open>The tables\<close>

record push =
  ps_node :: id
  ps_version :: int
  ps_config :: string
  ps_probe :: string

record panel =
  pl_creds :: cred_db
  pl_tmpl :: tmpl_db
  pl_subs :: "ext_sub list"
  pl_proxies :: "external_proxy list"
  pl_egress :: "egress_row list"
  pl_restricted :: restricted_db
  pl_configs :: "node_config list"
  pl_outbox :: "push list"

abbreviation pl_access :: "panel \<Rightarrow> access_db" where
  "pl_access p \<equiv> cd_access (pl_creds p)"

abbreviation pl_nodes :: "panel \<Rightarrow> node list" where
  "pl_nodes p \<equiv> ad_nodes (cd_access (pl_creds p))"

definition ext_view :: "panel \<Rightarrow> ext_db" where
  "ext_view p = \<lparr>xd_subs = pl_subs p, xd_proxies = pl_proxies p, xd_access = pl_access p\<rparr>"

definition egress_view :: "panel \<Rightarrow> egress_db" where
  "egress_view p =
     \<lparr>ed_rules = pl_egress p, ed_nodes = map n_id (pl_nodes p), ed_proxies = map xp_id (pl_proxies p),
      ed_profiles = profile_ids (pl_tmpl p), ed_profile_nodes = td_profile_nodes (pl_tmpl p)\<rparr>"

section \<open>Errors\<close>

datatype panel_error =
    Db db_error
  | LoadingProfile id db_error
  | NoInboundTemplate string
  | EntryFailed string string render_error
  | NoXrayJson string
  | OutboundRender render_error
  | NotOneObject
  | Panic
  | OnRelay string panel_error
  | OnExit string outbound_error
  | OnRule string panel_error
  | RuleProxyGone string db_error
  | RuleProxy string outbound_error
  | UnknownTarget string string
  | Assembling assemble_error
  | TestRejected string
  | VersionRejected int string
  | Rederiving int assemble_error

definition of_db :: "(db_error, 'a) result \<Rightarrow> (panel_error, 'a) result" where
  "of_db r = (case r of Inl e \<Rightarrow> Inl (Db e) | Inr x \<Rightarrow> Inr x)"

text \<open>\<open>fmt.Errorf\<close> around an error; a panic is not an error and passes through.\<close>

definition wrapped :: "(panel_error \<Rightarrow> panel_error) \<Rightarrow> (panel_error, 'a) result \<Rightarrow> (panel_error, 'a) result" where
  "wrapped f r = (case r of Inl e \<Rightarrow> Inl (if e = Panic then Panic else f e) | Inr x \<Rightarrow> Inr x)"

section \<open>Pinned outbounds\<close>

definition RelayTag :: "id \<Rightarrow> string" where "RelayTag i = ''relay-'' @ i"
definition ExitTag :: "id \<Rightarrow> string" where "ExitTag i = ''exit-'' @ i"
definition EgressTag :: "id \<Rightarrow> string" where "EgressTag i = ''egress-'' @ i"
definition clientKindXrayJSON :: string where "clientKindXrayJSON = ''xray-json''"
definition ProbeTag :: string where "ProbeTag = ''probe-out''"

fun decode_any :: "(string \<Rightarrow> string option) \<Rightarrow> json \<Rightarrow> json option" where
  "decode_any fl (JNum l) = map_option JNum (fl l)"
| "decode_any fl (JArr xs) = map_option JArr (those (map (decode_any fl) xs))"
| "decode_any fl (JObj ms) =
     map_option (\<lambda>ms. JObj (go_map ms)) (those (map (\<lambda>(k, v). map_option (Pair k) (decode_any fl v)) ms))"
| "decode_any fl j = Some j"

definition pin_tag :: "(string \<Rightarrow> string option) \<Rightarrow> string \<Rightarrow> string \<Rightarrow> (panel_error, string) result" where
  "pin_tag fl tag body =
     (case Option.bind (json_parse body) (decode_any fl) of
        Some (JObj ob) \<Rightarrow> Inr (json_compact (JObj (obj_set ''tag'' (JStr tag) ob)))
      | Some JNull \<Rightarrow> Inl Panic
      | _ \<Rightarrow> Inl NotOneObject)"

definition template_of :: "id \<Rightarrow> tmpl_db \<Rightarrow> string" where
  "template_of profileID t = coalesce (map_of (ClientTemplates profileID t) clientKindXrayJSON)"

definition profile_label :: "id \<Rightarrow> tmpl_db \<Rightarrow> string" where
  "profile_label profileID t = (case GetProfile profileID t of Inl e \<Rightarrow> profileID | Inr p \<Rightarrow> pf_name p)"

definition dial_outbound ::
  "box \<Rightarrow> (string \<Rightarrow> string option) \<Rightarrow> string \<Rightarrow> id \<Rightarrow> id \<Rightarrow> (string, string) gomap \<Rightarrow> panel \<Rightarrow>
   (panel_error, string) result" where
  "dial_outbound b fl tag profileID nodeID vars p =
     (let tmpl = template_of profileID (pl_tmpl p) in
      if tmpl = [] then Inl (NoXrayJson (profile_label profileID (pl_tmpl p)))
      else
        bind_result (of_db (ClientContext b profileID nodeID (pl_nodes p) (pl_tmpl p))) (\<lambda>ctx.
          case Render (With ctx vars) tmpl of
            Inl e \<Rightarrow> Inl (OutboundRender e)
          | Inr body \<Rightarrow> pin_tag fl tag body))"

definition relayOutbound ::
  "box \<Rightarrow> (string \<Rightarrow> string option) \<Rightarrow> node_relay \<Rightarrow> panel \<Rightarrow> (panel_error, string) result" where
  "relayOutbound b fl r =
     dial_outbound b fl (RelayTag (r_id r)) (r_profile_id r) (r_exit_node_id r)
       (RelayVars (r_id r) (r_secret r) (r_profile_id r) (r_exit_node_id r))"

definition egressOutbound ::
  "box \<Rightarrow> (string \<Rightarrow> string option) \<Rightarrow> egress_rule \<Rightarrow> panel \<Rightarrow> (panel_error, string) result" where
  "egressOutbound b fl r =
     dial_outbound b fl (EgressTag (er_id r)) (er_target_profile_id r) (er_target_node_id r)
       (EgressVars (er_id r) (er_secret r) (er_target_profile_id r) (er_target_node_id r))"

section \<open>Client entries\<close>

text \<open>One rendered client entry for each set of variables; \<open>who\<close> names it in the error.\<close>

fun render_entries ::
  "profile \<Rightarrow> render_context \<Rightarrow> (string \<times> (string, string) gomap) list \<Rightarrow> (panel_error, string list) result" where
  "render_entries p ctx [] = Inr []"
| "render_entries p ctx ((who, vars) # es) =
     (case Render (With ctx vars) (pf_client_entry p) of
        Inl e \<Rightarrow> Inl (EntryFailed (pf_name p) who e)
      | Inr s \<Rightarrow> bind_result (render_entries p ctx es) (\<lambda>ss. Inr (s # ss)))"

definition renderCredentials ::
  "profile \<Rightarrow> render_context \<Rightarrow> credential list \<Rightarrow> (panel_error, string list) result" where
  "renderCredentials p ctx creds =
     (if pf_client_entry p = [] then Inr []
      else render_entries p ctx (map (\<lambda>c. (c_email c, CredentialVars c)) creds))"

definition relayClientEntries ::
  "box \<Rightarrow> profile \<Rightarrow> id \<Rightarrow> render_context \<Rightarrow> panel \<Rightarrow> (panel_error, string list) result" where
  "relayClientEntries b p nodeID ctx pl =
     (if pf_client_entry p = [] then Inr []
      else
        bind_result (of_db (RelaysToExit b nodeID (pl_access pl))) (\<lambda>relays.
          render_entries p ctx
            (map (\<lambda>r. (r_label r, RelayVars (r_id r) (r_secret r) (pf_id p) nodeID))
               (filter (\<lambda>r. r_profile_id r = pf_id p) relays))))"

definition egressClientEntries ::
  "box \<Rightarrow> profile \<Rightarrow> id \<Rightarrow> render_context \<Rightarrow> panel \<Rightarrow> (panel_error, string list) result" where
  "egressClientEntries b p nodeID ctx pl =
     (if pf_client_entry p = [] then Inr []
      else
        bind_result (of_db (EgressRulesLandingOn b nodeID (egress_view pl))) (\<lambda>rules.
          render_entries p ctx
            (map (\<lambda>r. (er_label r, EgressVars (er_id r) (er_secret r) (er_target_profile_id r) (er_target_node_id r)))
               (filter (\<lambda>r. er_target_profile_id r = pf_id p) rules))))"

section \<open>Who may take a line\<close>

definition allowed_but :: "(db_error, id set) result \<Rightarrow> access_db \<Rightarrow> (panel_error, id set) result" where
  "allowed_but denies adb =
     bind_result (of_db denies) (\<lambda>denied. Inr (set (filter (\<lambda>u. u \<notin> denied) (map u_id (ListUsers adb)))))"

definition allowedUsers :: "id \<Rightarrow> access_db \<Rightarrow> (panel_error, id set) result" where
  "allowedUsers proxyID adb = allowed_but (ExternalProxyDenies adb proxyID) adb"

definition allowedOnRelay :: "id \<Rightarrow> access_db \<Rightarrow> (panel_error, id set) result" where
  "allowedOnRelay relayID adb = allowed_but (NodeRelayDenies adb relayID) adb"

definition relayedExits :: "id \<Rightarrow> panel \<Rightarrow> external_proxy list" where
  "relayedExits nodeID p = filter (\<lambda>x. xp_chain_node_id x = nodeID) (EnabledExternalProxies (ext_view p))"

section \<open>The probe\<close>

datatype probe_reason =
    NoProfiles
  | NoProbeTemplate
  | NoCredentials db_error
  | NobodyEntitled
  | EverybodyDisabled
  | NoIdentity
  | NoClientContext db_error
  | ProbeRender render_error
  | ProbeNotObject

datatype probe = Probe string | NoProbe probe_reason | ProbePanic

definition probeCredential ::
  "box \<Rightarrow> id \<Rightarrow> id \<Rightarrow> cred_db \<Rightarrow> (probe_reason, credential) result" where
  "probeCredential b profileID nodeID cdb =
     (case NodeCredentials b nodeID cdb of
        Inl e \<Rightarrow> Inl (NoCredentials e)
      | Inr all \<Rightarrow>
          (let creds = filter (\<lambda>c. c_profile_id c = profileID) all in
           if creds = [] then Inl NobodyEntitled
           else
             (case find (\<lambda>c. case user_row (cd_access cdb) (c_user_id c) of None \<Rightarrow> False | Some u \<Rightarrow> u_enabled u)
                     (sort_key c_id creds) of
                None \<Rightarrow> Inl EverybodyDisabled
              | Some c \<Rightarrow> Inr c)))"

definition probeFor :: "box \<Rightarrow> (string \<Rightarrow> string option) \<Rightarrow> id \<Rightarrow> id \<Rightarrow> panel \<Rightarrow> probe" where
  "probeFor b fl profileID nodeID p =
     (let tmpl = template_of profileID (pl_tmpl p) in
      if tmpl = [] then NoProbe NoProbeTemplate
      else
        (case probeCredential b profileID nodeID (pl_creds p) of
           Inl why \<Rightarrow> NoProbe why
         | Inr cred \<Rightarrow>
             if c_id cred = [] then NoProbe NoIdentity
             else
               (case ClientContext b profileID nodeID (pl_nodes p) (pl_tmpl p) of
                  Inl e \<Rightarrow> NoProbe (NoClientContext e)
                | Inr ctx \<Rightarrow>
                    (case Render (With ctx (CredentialVars cred)) tmpl of
                       Inl e \<Rightarrow> NoProbe (ProbeRender e)
                     | Inr body \<Rightarrow>
                         (case pin_tag fl ProbeTag body of
                            Inr s \<Rightarrow> Probe s
                          | Inl e \<Rightarrow> if e = Panic then ProbePanic else NoProbe ProbeNotObject)))))"

text \<open>The first probe that can be made, or the reason of the first profile.\<close>

fun first_probe :: "(id \<Rightarrow> probe) \<Rightarrow> probe_reason option \<Rightarrow> id list \<Rightarrow> probe" where
  "first_probe f why [] = NoProbe (case why of None \<Rightarrow> NoProfiles | Some r \<Rightarrow> r)"
| "first_probe f why (pid # pids) =
     (case f pid of
        Probe s \<Rightarrow> Probe s
      | ProbePanic \<Rightarrow> ProbePanic
      | NoProbe r \<Rightarrow> first_probe f (case why of None \<Rightarrow> Some r | Some w \<Rightarrow> Some w) pids)"

definition ProbeOutbound :: "box \<Rightarrow> (string \<Rightarrow> string option) \<Rightarrow> id \<Rightarrow> panel \<Rightarrow> probe" where
  "ProbeOutbound b fl nodeID p =
     first_probe (\<lambda>pid. probeFor b fl pid nodeID p) None (sort (NodeProfileIDs nodeID (pl_tmpl p)))"

section \<open>Lemmas\<close>

definition prints_numbers :: "(string \<Rightarrow> string option) \<Rightarrow> bool" where
  "prints_numbers fl \<longleftrightarrow> (\<forall>l l'. fl l = Some l' \<longrightarrow> num_lit l')"

lemma those_list_all:
  assumes "those (map f xs) = Some ys" and "\<And>x y. x \<in> set xs \<Longrightarrow> f x = Some y \<Longrightarrow> P y"
  shows "list_all P ys"
proof -
  have "map f xs = map Some ys" using assms(1) by (simp add: those_Some)
  then have "Some y \<in> set (map f xs)" if "y \<in> set ys" for y using that by simp
  then show ?thesis using assms(2) by (fastforce simp: list_all_iff)
qed

lemma list_all2_mem: "list_all2 P xs ys \<Longrightarrow> x \<in> set xs \<Longrightarrow> \<exists>y\<in>set ys. P x y"
  by (induction rule: list_all2_induct) auto

lemma decode_any_ok:
  assumes "prints_numbers fl"
  shows "decode_any fl j = Some j' \<Longrightarrow> json_ok j'"
  using assms
proof (induction fl j arbitrary: j' rule: decode_any.induct)
  case (2 fl xs)
  then show ?case by (auto elim!: those_list_all)
next
  case (3 fl ms)
  then obtain kvs where kvs: "those (map (\<lambda>(k, v). map_option (Pair k) (decode_any fl v)) ms) = Some kvs" "j' = JObj (go_map kvs)"
    by auto
  have "list_all (\<lambda>e. json_ok (snd e)) kvs"
    using kvs(1) by (rule those_list_all) (use 3 in \<open>auto\<close>)
  then show ?case by (simp add: kvs go_map_ok)
qed (auto simp: prints_numbers_def)

lemma pin_tagE:
  assumes "pin_tag fl tag body = Inr s"
  obtains j ob where "json_parse body = Some j" "decode_any fl j = Some (JObj ob)"
    "s = json_compact (JObj (obj_set ''tag'' (JStr tag) ob))"
  using assms
  by (auto simp: pin_tag_def Option.bind_eq_Some_conv split: option.splits json.splits)

lemma dial_outboundE:
  assumes "dial_outbound b fl tag profileID nodeID vars p = Inr s"
  obtains ctx body where "ClientContext b profileID nodeID (pl_nodes p) (pl_tmpl p) = Inr ctx"
    "Render (With ctx vars) (template_of profileID (pl_tmpl p)) = Inr body" "pin_tag fl tag body = Inr s"
  using assms by (auto simp: dial_outbound_def of_db_def Let_def split: if_splits sum.splits)

lemma render_entries_iff:
  "render_entries p ctx es = Inr ss \<longleftrightarrow>
     list_all2 (\<lambda>(who, vars) s. Render (With ctx vars) (pf_client_entry p) = Inr s) es ss"
proof (induction es arbitrary: ss)
  case (Cons e es)
  show ?case by (cases e; cases ss; cases "Render (With ctx (snd e)) (pf_client_entry p)") (auto simp: Cons)
qed auto

lemma render_entries_mem:
  assumes "render_entries p ctx es = Inr ss" and "(who, vars) \<in> set es"
  shows "\<exists>s\<in>set ss. Render (With ctx vars) (pf_client_entry p) = Inr s"
  using list_all2_mem [OF assms(1) [unfolded render_entries_iff] assms(2)] by simp

section \<open>Properties\<close>

text \<open>An outbound towards a node of the fleet is valid JSON that carries the tag its routing rules name, whatever tag
  the template gave itself, and every other member is the template's.\<close>

theorem pinned_outbound:
  assumes "prints_numbers fl" and "dial_outbound b fl tag profileID nodeID vars p = Inr s"
  shows "\<exists>ctx body j ob. ClientContext b profileID nodeID (pl_nodes p) (pl_tmpl p) = Inr ctx
    \<and> Render (With ctx vars) (template_of profileID (pl_tmpl p)) = Inr body
    \<and> json_parse body = Some j \<and> decode_any fl j = Some (JObj ob)
    \<and> (\<exists>out. json_parse s = Some (JObj out) \<and> map_of out = (map_of ob)(''tag'' \<mapsto> JStr tag))"
proof -
  obtain ctx body where c: "ClientContext b profileID nodeID (pl_nodes p) (pl_tmpl p) = Inr ctx"
    "Render (With ctx vars) (template_of profileID (pl_tmpl p)) = Inr body" "pin_tag fl tag body = Inr s"
    using assms(2) by (rule dial_outboundE)
  obtain j ob where j: "json_parse body = Some j" "decode_any fl j = Some (JObj ob)"
    "s = json_compact (JObj (obj_set ''tag'' (JStr tag) ob))"
    using c(3) by (rule pin_tagE)
  have "json_parse s = Some (JObj (obj_set ''tag'' (JStr tag) ob))"
    using decode_any_ok [OF assms(1) j(2)] unfolding j(3) by (intro parse_pretty) simp
  then show ?thesis
    using c(1,2) j(1,2) map_of_obj_set [of "''tag''" "JStr tag" ob]
    by (intro exI [of _ ctx] exI [of _ body] exI [of _ j] exI [of _ ob] exI [of _ "obj_set ''tag'' (JStr tag) ob"] conjI)
qed

lemma scan_relays_set:
  "scan_relays b rs = Inr xs \<Longrightarrow> set xs = {x. \<exists>r\<in>set rs. scanRelay b r = Inr x}"
  by (induction rs arbitrary: xs) auto

lemma queryRelays_set:
  assumes "queryRelays b P adb = Inr xs"
  shows "set xs = {x. \<exists>r\<in>set (ad_relays adb). P r \<and> scanRelay b r = Inr x}"
  using scan_relays_set [OF assms [unfolded queryRelays_def]] by auto

text \<open>C33. A line's two ends agree: the credential the entry node presents in the outbound of an enabled line is one of
  the clients the exit node is given for the line's profile, and the two are rendered from the same variables.\<close>

theorem line_credential_installed:
  assumes "RelaysFromEntry b entry (pl_access pl) = Inr lines" and "r \<in> set lines"
    and "relayClientEntries b p (r_exit_node_id r) ctx pl = Inr clients"
    and "pf_id p = r_profile_id r" and "pf_client_entry p \<noteq> []"
  shows "\<exists>vars. (\<forall>fl. relayOutbound b fl r pl
      = dial_outbound b fl (RelayTag (r_id r)) (r_profile_id r) (r_exit_node_id r) vars pl)
    \<and> (\<exists>s\<in>set clients. Render (With ctx vars) (pf_client_entry p) = Inr s)"
proof -
  obtain w where w: "w \<in> set (ad_relays (pl_access pl))" "r_enabled w" "scanRelay b w = Inr r"
    using assms(2) by (auto simp: queryRelays_set [OF assms(1) [unfolded RelaysFromEntry_def]])
  have same: "r_exit_node_id w = r_exit_node_id r"
    using w(3) by (auto simp: scanRelay_def split: sum.splits)
  obtain landing where l: "RelaysToExit b (r_exit_node_id r) (pl_access pl) = Inr landing"
    and run: "render_entries p ctx (map (\<lambda>x. (r_label x, RelayVars (r_id x) (r_secret x) (pf_id p) (r_exit_node_id r)))
        (filter (\<lambda>x. r_profile_id x = pf_id p) landing)) = Inr clients"
    using assms(3,5) by (auto simp: relayClientEntries_def of_db_def split: sum.splits)
  have "r \<in> set landing"
    using w same by (auto simp: queryRelays_set [OF l [unfolded RelaysToExit_def]])
  then have "(r_label r, RelayVars (r_id r) (r_secret r) (r_profile_id r) (r_exit_node_id r)) \<in>
      set (map (\<lambda>x. (r_label x, RelayVars (r_id x) (r_secret x) (pf_id p) (r_exit_node_id r)))
        (filter (\<lambda>x. r_profile_id x = pf_id p) landing))"
    using assms(4) by force
  from render_entries_mem [OF run this] show ?thesis unfolding relayOutbound_def by blast
qed

text \<open>The same for an enabled egress rule that lands on a node of the fleet.\<close>

theorem landing_credential_installed:
  assumes "EgressRulesOn b source (egress_view pl) = Inr rules" and "r \<in> set rules"
    and "er_enabled r" and "er_target_kind r = EgressNode" and "er_target_node_id r \<noteq> []"
    and "egressClientEntries b p (er_target_node_id r) ctx pl = Inr clients"
    and "pf_id p = er_target_profile_id r" and "pf_client_entry p \<noteq> []"
  shows "\<exists>vars. (\<forall>fl. egressOutbound b fl r pl
      = dial_outbound b fl (EgressTag (er_id r)) (er_target_profile_id r) (er_target_node_id r) vars pl)
    \<and> (\<exists>s\<in>set clients. Render (With ctx vars) (pf_client_entry p) = Inr s)"
proof -
  obtain w where w: "w \<in> set (pl_egress pl)" "scanEgress b w = Inr r"
    using assms(2)
    by (auto simp: scan_egress_rows_set [OF assms(1) [unfolded EgressRulesOn_def]] in_order_def egress_view_def)
  have lands: "lands_on (er_target_node_id r) w"
    using w(2) assms(3-5) by (auto simp: scanEgress_def lands_on_def coalesce_def split: sum.splits if_splits option.splits)
  obtain landing where l: "EgressRulesLandingOn b (er_target_node_id r) (egress_view pl) = Inr landing"
    and run: "render_entries p ctx (map (\<lambda>x. (er_label x, EgressVars (er_id x) (er_secret x) (er_target_profile_id x) (er_target_node_id x)))
        (filter (\<lambda>x. er_target_profile_id x = pf_id p) landing)) = Inr clients"
    using assms(6,8) by (auto simp: egressClientEntries_def of_db_def split: sum.splits)
  have "r \<in> set landing"
    using w lands by (auto simp: scan_egress_rows_set [OF l [unfolded EgressRulesLandingOn_def]] in_order_def egress_view_def)
  then have "(er_label r, EgressVars (er_id r) (er_secret r) (er_target_profile_id r) (er_target_node_id r)) \<in>
      set (map (\<lambda>x. (er_label x, EgressVars (er_id x) (er_secret x) (er_target_profile_id x) (er_target_node_id x)))
        (filter (\<lambda>x. er_target_profile_id x = pf_id p) landing))"
    using assms(7) by force
  from render_entries_mem [OF run this] show ?thesis unfolding egressOutbound_def by blast
qed

text \<open>A template that renders to \<open>null\<close> decodes without an error into a nil map, and pinning the tag panics.\<close>

theorem null_outbound_panics:
  assumes "ClientContext b profileID nodeID (pl_nodes p) (pl_tmpl p) = Inr ctx"
    and "Render (With ctx vars) (template_of profileID (pl_tmpl p)) = Inr body" and "json_parse body = Some JNull"
    and "template_of profileID (pl_tmpl p) \<noteq> []"
  shows "dial_outbound b fl tag profileID nodeID vars p = Inl Panic"
  using assms by (simp add: dial_outbound_def of_db_def pin_tag_def)

section \<open>A small fleet\<close>

text \<open>Three nodes, a subscriber with the profile, and a line from \<open>a\<close> to \<open>b\<close>.\<close>

definition demo_line_row :: node_relay where
  "demo_line_row = \<lparr>r_id = ''1'', r_entry_node_id = ''a'', r_exit_node_id = ''b'', r_profile_id = ''p'', r_label = ''l'',
     r_secret = ''plain:k'', r_enabled = True, r_sort_order = 0, r_traffic_rate = 1, r_created_at = 0\<rparr>"

definition demo_profile :: profile where
  "demo_profile = \<lparr>pf_id = ''p'', pf_name = ''p'', pf_inbound_template = ''{\"tag\":\"in\"}'',
     pf_client_entry = ''{\"id\":\"{{user.uuid}}\"}'', pf_created_at = 0, pf_updated_at = 0\<rparr>"

definition demo_templates :: "string \<Rightarrow> tmpl_db" where
  "demo_templates body = empty_tmpl\<lparr>td_nodes := [''a'', ''b'', ''c''], td_profiles := [demo_profile],
     td_client_templates := [\<lparr>ct_profile_id = ''p'', ct_client = ''xray-json'', ct_template = body, ct_serve = True\<rparr>],
     td_profile_nodes := [(''p'', ''a''), (''p'', ''b'')]\<rparr>"

definition demo_panel :: "string \<Rightarrow> int \<Rightarrow> panel" where
  "demo_panel body expires = \<lparr>pl_creds = demo_holder\<lparr>cd_access := demo_row3\<lparr>ad_relays := [demo_line_row],
       ad_user_profiles := {(''u'', ''p'')}, ad_users := [demo_user\<lparr>u_group_id := None, u_expires_at := expires\<rparr>]\<rparr>\<rparr>,
     pl_tmpl = demo_templates body, pl_subs = [], pl_proxies = [], pl_egress = ed_rules demo_chain,
     pl_restricted = demo_dest ''b'', pl_configs = [], pl_outbox = []\<rparr>"

definition demo_dial :: string where
  "demo_dial = ''{\"tag\":\"mine\",\"id\":\"{{user.uuid}}\"}''"

definition demo_ctx :: "id \<Rightarrow> render_context" where
  "demo_ctx node = projr (ClientContext plain_box ''p'' node (pl_nodes (demo_panel demo_dial 0)) (demo_templates demo_dial))"

lemma demo_line_dials:
  "relayOutbound plain_box Some (demo_line_row\<lparr>r_secret := ''k''\<rparr>) (demo_panel demo_dial 0)
     = Inr ''{\"id\":\"k\",\"tag\":\"relay-1\"}''"
  by code_simp

theorem pinned_outbound_witness:
  "\<exists>out. json_parse ''{\"id\":\"k\",\"tag\":\"relay-1\"}'' = Some (JObj out) \<and> map_of out ''tag'' = Some (JStr ''relay-1'')"
proof -
  have "prints_numbers (\<lambda>l. None)" by (simp add: prints_numbers_def)
  moreover have "dial_outbound plain_box (\<lambda>l. None) ''relay-1'' ''p'' ''b'' (RelayVars ''1'' ''k'' ''p'' ''b'') (demo_panel demo_dial 0)
      = Inr ''{\"id\":\"k\",\"tag\":\"relay-1\"}''"
    by code_simp
  ultimately show ?thesis by (rule pinned_outbound [THEN exE]) auto
qed

theorem line_credential_installed_witness:
  "\<exists>s\<in>set [''{\"id\":\"k\"}'']. \<exists>vars. Render (With (demo_ctx ''b'') vars) (pf_client_entry demo_profile) = Inr s"
proof -
  have "RelaysFromEntry plain_box ''a'' (pl_access (demo_panel demo_dial 0)) = Inr [demo_line_row\<lparr>r_secret := ''k''\<rparr>]"
    "demo_line_row\<lparr>r_secret := ''k''\<rparr> \<in> set [demo_line_row\<lparr>r_secret := ''k''\<rparr>]"
    "relayClientEntries plain_box demo_profile (r_exit_node_id (demo_line_row\<lparr>r_secret := ''k''\<rparr>)) (demo_ctx ''b'') (demo_panel demo_dial 0)
      = Inr [''{\"id\":\"k\"}'']"
    "pf_id demo_profile = r_profile_id (demo_line_row\<lparr>r_secret := ''k''\<rparr>)" "pf_client_entry demo_profile \<noteq> []"
    by code_simp+
  from line_credential_installed [OF this] show ?thesis by blast
qed

definition demo_rule :: egress_rule where
  "demo_rule = hd (projr (EgressRulesOn plain_box ''a'' (egress_view (demo_panel demo_dial 0))))"

theorem landing_credential_installed_witness:
  "\<exists>s\<in>set (projr (egressClientEntries plain_box demo_profile ''b'' (demo_ctx ''b'') (demo_panel demo_dial 0))).
     \<exists>vars. Render (With (demo_ctx ''b'') vars) (pf_client_entry demo_profile) = Inr s"
proof -
  have "EgressRulesOn plain_box ''a'' (egress_view (demo_panel demo_dial 0)) = Inr [demo_rule]" "demo_rule \<in> set [demo_rule]"
    "er_enabled demo_rule" "er_target_kind demo_rule = EgressNode" "er_target_node_id demo_rule \<noteq> []"
    "egressClientEntries plain_box demo_profile (er_target_node_id demo_rule) (demo_ctx ''b'') (demo_panel demo_dial 0)
      = Inr (projr (egressClientEntries plain_box demo_profile ''b'' (demo_ctx ''b'') (demo_panel demo_dial 0)))"
    "pf_id demo_profile = er_target_profile_id demo_rule" "pf_client_entry demo_profile \<noteq> []"
    by code_simp+
  from landing_credential_installed [OF this] show ?thesis by blast
qed

theorem null_outbound_panics_witness:
  "dial_outbound plain_box Some ''relay-1'' ''p'' ''b'' (RelayVars ''1'' ''k'' ''p'' ''b'') (demo_panel ''null'' 0) = Inl Panic"
proof -
  let ?p = "demo_panel ''null'' 0" and ?c = "projr (ClientContext plain_box ''p'' ''b'' (pl_nodes (demo_panel ''null'' 0)) (demo_templates ''null''))"
  have "ClientContext plain_box ''p'' ''b'' (pl_nodes ?p) (pl_tmpl ?p) = Inr ?c"
    "Render (With ?c (RelayVars ''1'' ''k'' ''p'' ''b'')) (template_of ''p'' (pl_tmpl ?p)) = Inr ''null''"
    "json_parse ''null'' = Some JNull" "template_of ''p'' (pl_tmpl ?p) \<noteq> []"
    by code_simp+
  then show ?thesis by (rule null_outbound_panics)
qed

section \<open>The identity of the probe\<close>

lemma scanCredentials_set:
  "scanCredentials b cs = Inr xs \<Longrightarrow> set xs = {x. \<exists>c\<in>set cs. scanCredential b c = Inr x}"
  by (induction cs arbitrary: xs) auto

text \<open>The probe connects under a credential of the node and profile it tests, held by an enabled subscriber.\<close>

theorem probe_identity:
  assumes "probeCredential b profileID nodeID cdb = Inr c"
  shows "\<exists>row u. row \<in> set (cd_creds cdb) \<and> scanCredential b row = Inr c \<and> c_node_id c = nodeID \<and> c_profile_id c = profileID
    \<and> user_row (cd_access cdb) (c_user_id c) = Some u \<and> u_enabled u"
proof -
  obtain cs where cs: "NodeCredentials b nodeID cdb = Inr cs" "c \<in> set cs" "c_profile_id c = profileID"
    and u: "case user_row (cd_access cdb) (c_user_id c) of None \<Rightarrow> False | Some u \<Rightarrow> u_enabled u"
    using assms by (auto simp: probeCredential_def Let_def split: sum.splits if_splits option.split_asm dest!: find_SomeD)
  obtain row where row: "row \<in> set (cd_creds cdb)" "c_node_id row = nodeID" "scanCredential b row = Inr c"
    using cs(2) scanCredentials_set [OF cs(1) [unfolded NodeCredentials_def]] by auto
  then have "c_node_id c = nodeID" by (auto simp: scanCredential_def split: sum.splits)
  then show ?thesis using cs(3) row u by (auto split: option.splits)
qed

theorem probe_identity_witness:
  "\<exists>u. user_row (pl_access (demo_panel demo_dial 0)) ''u'' = Some u \<and> u_enabled u"
proof -
  have "probeCredential plain_box ''p'' ''a'' (pl_creds (demo_panel demo_dial 0)) = Inr (demo_cred\<lparr>c_secret := ''s''\<rparr>)"
    "c_user_id (demo_cred\<lparr>c_secret := ''s''\<rparr>) = ''u''"
    by code_simp+
  then show ?thesis using probe_identity [of plain_box "''p''" "''a''" "pl_creds (demo_panel demo_dial 0)" "demo_cred\<lparr>c_secret := ''s''\<rparr>"] by auto
qed

text \<open>It need not be one the node admits: a subscriber who has expired is not among the clients of the node but is
  still who the probe connects as.\<close>

theorem probe_as_expired:
  "bind_result (EnsureCredentials plain_box (\<lambda>u. (''k2'', ''s2'', [])) 100 ''p'' ''a'' (pl_creds (demo_panel demo_dial 50)))
       (\<lambda>(clients, cdb). Inr (clients, cd_creds cdb)) = Inr ([], [demo_cred])
   \<and> ProbeOutbound plain_box Some ''a'' (demo_panel demo_dial 50) = Probe ''{\"id\":\"s\",\"tag\":\"probe-out\"}''"
  by code_simp

end
