(* ===== verification/Delivery.thy ===== *)
theory Delivery
  imports Advisories Kernel Panel
begin

text \<open>
  Assembly and delivery of a node's configuration: the second half of \<open>core/internal/profile/profile.go\<close>, with the
  landings of \<open>egress.go\<close>. Operations run against the tables in \<^typ>\<open>panel\<close>; what they have written stays when a
  later step fails. The kernel registry \<open>k\<close> with its outside \<open>w\<close>, the verdict \<open>xt\<close> of \<open>xray -test\<close>, the YAML
  reader, the printing of numbers and everything random (identifiers, secrets and nonces of credentials) are
  parameters. A push goes to the outbox whether or not the node is connected: the code only logs a failure.

  The theorems: routing of the assembled configuration follows the tables (a barred subscriber's connection to a
  restricted destination is dropped, the credential of a line leaves by that line and only by it, an ordinary
  credential by none); nothing reaches the history or a node unless the node's kernel accepts it, and both get the
  same bytes; a rollback carries the present restrictions; a preview mints the credentials an apply would.
\<close>

section \<open>Actions\<close>

type_synonym 'a act = "panel \<Rightarrow> (panel_error, 'a) result \<times> panel"

definition then_do :: "'a act \<Rightarrow> ('a \<Rightarrow> 'b act) \<Rightarrow> 'b act" where
  "then_do m f p = (case m p of (Inl e, p') \<Rightarrow> (Inl e, p') | (Inr x, p') \<Rightarrow> f x p')"

definition reading :: "(panel \<Rightarrow> (panel_error, 'a) result) \<Rightarrow> 'a act" where
  "reading f p = (f p, p)"

fun for_each :: "('x \<Rightarrow> 'a act) \<Rightarrow> 'x list \<Rightarrow> 'a list act" where
  "for_each f [] = reading (\<lambda>_. Inr [])"
| "for_each f (x # xs) = then_do (f x) (\<lambda>y. then_do (for_each f xs) (\<lambda>ys. reading (\<lambda>_. Inr (y # ys))))"

fun try_map :: "('x \<Rightarrow> ('e, 'a) result) \<Rightarrow> 'x list \<Rightarrow> ('e, 'a list) result" where
  "try_map f [] = Inr []"
| "try_map f (x # xs) = bind_result (f x) (\<lambda>y. bind_result (try_map f xs) (\<lambda>ys. Inr (y # ys)))"

section \<open>Credentials\<close>

text \<open>The credentials table when the minting loop stops at an error: what it put before stays.\<close>

fun ensure_state ::
  "box \<Rightarrow> mint \<Rightarrow> int \<Rightarrow> id \<Rightarrow> id \<Rightarrow> id \<Rightarrow> id \<Rightarrow> id set option \<Rightarrow> id list \<Rightarrow> cred_db \<Rightarrow> cred_db" where
  "ensure_state b mint now profile node exitID relayID allowed [] db = db"
| "ensure_state b mint now profile node exitID relayID allowed (uid # uids) db =
     (case user_row (cd_access db) uid of
        None \<Rightarrow> ensure_state b mint now profile node exitID relayID allowed uids db
      | Some u \<Rightarrow>
          if (case allowed of None \<Rightarrow> False | Some a \<Rightarrow> u_id u \<notin> a)
          then ensure_state b mint now profile node exitID relayID allowed uids db
          else
            (case mint uid of (newid, secret, nonce) \<Rightarrow>
               case PutCredential b nonce newid now (new_credential u profile node exitID relayID secret) db of
                 Inl e \<Rightarrow> db
               | Inr (c, db) \<Rightarrow> ensure_state b mint now profile node exitID relayID allowed uids db))"

definition ensure ::
  "box \<Rightarrow> mint \<Rightarrow> int \<Rightarrow> id \<Rightarrow> id \<Rightarrow> id \<Rightarrow> id \<Rightarrow> id set option \<Rightarrow> credential list act" where
  "ensure b mint now profile node exitID relayID allowed p =
     (case ensureForExit b mint now profile node exitID relayID allowed (pl_creds p) of
        Inl e \<Rightarrow>
          (Inl (Db e), p\<lparr>pl_creds := ensure_state b mint now profile node exitID relayID allowed
                           (ProfileUserIDs (pl_access p) profile) (pl_creds p)\<rparr>)
      | Inr (cs, cdb) \<Rightarrow> (Inr cs, p\<lparr>pl_creds := cdb\<rparr>))"

text \<open>What the minting of each access point and exit draws.\<close>

type_synonym mints = "id \<Rightarrow> id \<Rightarrow> id \<Rightarrow> mint"

definition renderClients ::
  "box \<Rightarrow> mints \<Rightarrow> int \<Rightarrow> profile \<Rightarrow> id \<Rightarrow> render_context \<Rightarrow> string list act" where
  "renderClients b mints now pf nodeID ctx =
     (if pf_client_entry pf = [] then reading (\<lambda>_. Inr [])
      else
        then_do (ensure b (mints (pf_id pf) [] []) now (pf_id pf) nodeID [] [] None) (\<lambda>creds.
        reading (\<lambda>_. renderCredentials pf ctx creds)))"

text \<open>The clients of one exit or line of this node, and the stats keys its routing rule will match.\<close>

definition line_clients ::
  "box \<Rightarrow> mints \<Rightarrow> int \<Rightarrow> id \<Rightarrow> profile \<Rightarrow> id \<Rightarrow> render_context \<Rightarrow> id \<Rightarrow> id \<Rightarrow>
   (access_db \<Rightarrow> (panel_error, id set) result) \<Rightarrow> (string list \<times> string list) act" where
  "line_clients b mints now pid pf nodeID ctx exitID relayID allowed =
     then_do (reading (\<lambda>p. allowed (pl_access p))) (\<lambda>who.
     then_do (ensure b (mints pid exitID relayID) now pid nodeID exitID relayID (Some who)) (\<lambda>creds.
     then_do (reading (\<lambda>_. renderCredentials pf ctx creds)) (\<lambda>rendered.
     reading (\<lambda>_. Inr (rendered, map c_email creds)))))"

section \<open>The sources of a configuration\<close>

record profile_run =
  run_source :: inbound_source
  run_exits :: "(id \<times> string list) list"
  run_relays :: "(id \<times> string list) list"

definition profile_source ::
  "box \<Rightarrow> mints \<Rightarrow> int \<Rightarrow> id \<Rightarrow> external_proxy list \<Rightarrow> node_relay list \<Rightarrow> id \<Rightarrow> profile_run act" where
  "profile_source b mints now nodeID relayed relays pid =
     then_do (reading (\<lambda>p. case GetProfile pid (pl_tmpl p) of
         Inl e \<Rightarrow> Inl (LoadingProfile pid e)
       | Inr pf \<Rightarrow> if pf_inbound_template pf = [] then Inl (NoInboundTemplate (pf_name pf)) else Inr pf)) (\<lambda>pf.
     then_do (reading (\<lambda>p. of_db (contextFor b pid nodeID (pl_nodes p) (pl_tmpl p)))) (\<lambda>ctx.
     then_do (renderClients b mints now pf nodeID ctx) (\<lambda>clients.
     then_do (reading (relayClientEntries b pf nodeID ctx)) (\<lambda>machine.
     then_do (reading (egressClientEntries b pf nodeID ctx)) (\<lambda>egressIn.
     then_do (for_each (\<lambda>ex. line_clients b mints now pid pf nodeID ctx (xp_id ex) [] (allowedUsers (xp_id ex))) relayed) (\<lambda>exits.
     then_do (for_each (\<lambda>rl. line_clients b mints now pid pf nodeID ctx [] (r_id rl) (allowedOnRelay (r_id rl))) relays) (\<lambda>lines.
     reading (\<lambda>_. Inr
       \<lparr>run_source = \<lparr>src_profile_id = pid, src_profile_name = pf_name pf, src_template = pf_inbound_template pf, src_ctx = ctx,
          src_clients = clients @ machine @ egressIn @ concat (map fst exits) @ concat (map fst lines)\<rparr>,
        run_exits = zip (map xp_id relayed) (map snd exits),
        run_relays = zip (map r_id relays) (map snd lines)\<rparr>))))))))"

text \<open>\<open>emails[id] = append(emails[id], ...)\<close> over all profiles.\<close>

definition emails_of :: "id \<Rightarrow> (id \<times> string list) list \<Rightarrow> string list" where
  "emails_of i runs = concat (map snd (filter (\<lambda>e. fst e = i) runs))"

definition relay_exit ::
  "box \<Rightarrow> (string \<Rightarrow> string option) \<Rightarrow> (id \<times> string list) list \<Rightarrow> panel \<Rightarrow> node_relay \<Rightarrow> (panel_error, exit_source) result" where
  "relay_exit b fl emails p rl =
     bind_result (wrapped (OnRelay (r_label rl)) (relayOutbound b fl rl p)) (\<lambda>ob.
       Inr \<lparr>ex_tag = RelayTag (r_id rl), ex_outbound = ob, ex_emails = emails_of (r_id rl) emails\<rparr>)"

definition external_exit ::
  "(string \<Rightarrow> any_map option) \<Rightarrow> (id \<times> string list) list \<Rightarrow> external_proxy \<Rightarrow> (panel_error, exit_source) result" where
  "external_exit yaml emails ex =
     (case XrayOutbound yaml (xp_config ex) (ExitTag (xp_id ex)) of
        Inl e \<Rightarrow> Inl (OnExit (Label ex) e)
      | Inr ob \<Rightarrow> Inr \<lparr>ex_tag = ExitTag (xp_id ex), ex_outbound = ob, ex_emails = emails_of (xp_id ex) emails\<rparr>)"

text \<open>An outbound that exists under its tag is not built again.\<close>

fun egress_loop ::
  "box \<Rightarrow> (string \<Rightarrow> any_map option) \<Rightarrow> (string \<Rightarrow> string option) \<Rightarrow> panel \<Rightarrow> string list \<Rightarrow> egress_rule list \<Rightarrow>
   (panel_error, egress_source list) result" where
  "egress_loop b yaml fl p existing [] = Inr []"
| "egress_loop b yaml fl p existing (r # rs) =
     (let src = (\<lambda>tag ob. \<lparr>eg_tag = tag, eg_outbound = ob, eg_domains = er_domains r, eg_ips = er_ips r\<rparr>);
          continue = (\<lambda>s existing. bind_result (egress_loop b yaml fl p existing rs) (\<lambda>ss. Inr (s # ss)))
      in if \<not> er_enabled r then egress_loop b yaml fl p existing rs
         else if er_target_kind r = EgressDirect then continue (src ''direct'' []) existing
         else if er_target_kind r = EgressExternal then
           (case GetExternalProxy (er_target_proxy_id r) (ext_view p) of
              Inl e \<Rightarrow> Inl (RuleProxyGone (er_label r) e)
            | Inr x \<Rightarrow>
                (let tag = ExitTag (xp_id x) in
                 if tag \<in> set existing then continue (src tag []) existing
                 else
                   (case XrayOutbound yaml (xp_config x) tag of
                      Inl e \<Rightarrow> Inl (RuleProxy (er_label r) e)
                    | Inr ob \<Rightarrow> continue (src tag ob) (tag # existing))))
         else if er_target_kind r = EgressNode then
           bind_result (wrapped (OnRule (er_label r)) (egressOutbound b fl r p)) (\<lambda>ob.
             continue (src (EgressTag (er_id r)) ob) (EgressTag (er_id r) # existing))
         else Inl (UnknownTarget (er_label r) (er_target_kind r)))"

definition egressFor ::
  "box \<Rightarrow> (string \<Rightarrow> any_map option) \<Rightarrow> (string \<Rightarrow> string option) \<Rightarrow> id \<Rightarrow> string list \<Rightarrow> panel \<Rightarrow>
   (panel_error, egress_source list) result" where
  "egressFor b yaml fl nodeID existing p =
     bind_result (of_db (EgressRulesOn b nodeID (egress_view p))) (egress_loop b yaml fl p existing)"

definition assembling :: "(assemble_error, 'a) result \<Rightarrow> (panel_error, 'a) result" where
  "assembling r = (case r of Inl e \<Rightarrow> Inl (Assembling e) | Inr x \<Rightarrow> Inr x)"

definition Service_AssembleNode ::
  "box \<Rightarrow> (string \<Rightarrow> any_map option) \<Rightarrow> (string \<Rightarrow> string option) \<Rightarrow> mints \<Rightarrow> int \<Rightarrow> id \<Rightarrow> string act" where
  "Service_AssembleNode b yaml fl mints now nodeID =
     then_do (reading (\<lambda>p. of_db (GetNode b nodeID (pl_nodes p)))) (\<lambda>n.
     then_do (reading (\<lambda>p. Inr (NodeProfileIDs nodeID (pl_tmpl p)))) (\<lambda>profileIDs.
     then_do (reading (\<lambda>p. Inr (relayedExits nodeID p))) (\<lambda>relayed.
     then_do (reading (\<lambda>p. of_db (RelaysFromEntry b nodeID (pl_access p)))) (\<lambda>relays.
     then_do (for_each (profile_source b mints now nodeID relayed relays) profileIDs) (\<lambda>runs.
     then_do (reading (\<lambda>p. try_map (relay_exit b fl (concat (map run_relays runs)) p) relays)) (\<lambda>lines.
     then_do (reading (\<lambda>p. try_map (external_exit yaml (concat (map run_exits runs))) relayed)) (\<lambda>externals.
     then_do (reading (\<lambda>p. of_db (blocksFor b nodeID (pl_creds p) (egress_view p) (pl_restricted p)))) (\<lambda>blocks.
     then_do (reading (\<lambda>p. egressFor b yaml fl nodeID (map ex_tag (lines @ externals)) p)) (\<lambda>egress.
     reading (\<lambda>p. assembling
       (AssembleNodeWithEgress (n_config_skeleton n) (map run_source runs) (lines @ externals) blocks egress)))))))))))"

section \<open>Validation and delivery\<close>

definition kernelFor :: "box \<Rightarrow> outside \<Rightarrow> kernels \<Rightarrow> id \<Rightarrow> panel \<Rightarrow> resolution" where
  "kernelFor b w k nodeID p =
     (case GetNode b nodeID (pl_nodes p) of
        Inl e \<Rightarrow> For w [] k
      | Inr n \<Rightarrow> For w (if n_xray_installed_version n = [] then n_xray_version n else n_xray_installed_version n) k)"

text \<open>The complaint of \<open>xray -test\<close>; \<^term>\<open>None\<close> when it has none or no binary is there to ask.\<close>

definition complaint :: "(content \<Rightarrow> string \<Rightarrow> string option) \<Rightarrow> resolution \<Rightarrow> string \<Rightarrow> string option" where
  "complaint xt res cfg = Option.bind (rs_bin res) (\<lambda>bin. xt bin cfg)"

definition Describe :: "resolution \<Rightarrow> string" where
  "Describe r =
     (if rs_exact r then ''xray '' @ rs_version r
      else if rs_want r = [] then ''xray '' @ rs_version r @ '' (the node has not reported a version)''
      else ''xray '' @ rs_version r @ '' (the node runs '' @ rs_want r @ '', which the panel does not have)'')"

definition store_and_push ::
  "box \<Rightarrow> (string \<Rightarrow> string option) \<Rightarrow> bytes \<times> bytes \<Rightarrow> int \<Rightarrow> id \<Rightarrow> string \<Rightarrow> int act" where
  "store_and_push b fl nonces now nodeID cfg p =
     (case ProbeOutbound b fl nodeID p of
        ProbePanic \<Rightarrow> (Inl Panic, p)
      | pr \<Rightarrow>
          (case InsertConfig b (fst nonces) (snd nonces) (set (map n_id (pl_nodes p))) nodeID cfg
                  (case pr of Probe s \<Rightarrow> s | _ \<Rightarrow> []) now (pl_configs p) of
             (Inl e, t) \<Rightarrow> (Inl (Db e), p\<lparr>pl_configs := t\<rparr>)
           | (Inr c, t) \<Rightarrow>
               (Inr (nc_version c),
                p\<lparr>pl_configs := t,
                  pl_outbox := pl_outbox p @ [\<lparr>ps_node = nodeID, ps_version = nc_version c, ps_config = nc_config c,
                                              ps_probe = nc_probe_outbound c\<rparr>]\<rparr>)))"

definition Apply ::
  "box \<Rightarrow> (string \<Rightarrow> any_map option) \<Rightarrow> (string \<Rightarrow> string option) \<Rightarrow> outside \<Rightarrow> kernels \<Rightarrow> (content \<Rightarrow> string \<Rightarrow> string option) \<Rightarrow>
   mints \<Rightarrow> bytes \<times> bytes \<Rightarrow> int \<Rightarrow> id \<Rightarrow> int act" where
  "Apply b yaml fl w k xt mints nonces now nodeID =
     then_do (Service_AssembleNode b yaml fl mints now nodeID) (\<lambda>cfg.
     then_do (reading (\<lambda>p. case complaint xt (kernelFor b w k nodeID p) cfg of
         Some msg \<Rightarrow> Inl (TestRejected msg) | None \<Rightarrow> Inr ())) (\<lambda>_.
     store_and_push b fl nonces now nodeID cfg))"

definition Rollback ::
  "box \<Rightarrow> (string \<Rightarrow> string option) \<Rightarrow> outside \<Rightarrow> kernels \<Rightarrow> (content \<Rightarrow> string \<Rightarrow> string option) \<Rightarrow>
   bytes \<times> bytes \<Rightarrow> int \<Rightarrow> id \<Rightarrow> int \<Rightarrow> int act" where
  "Rollback b fl w k xt nonces now nodeID version =
     then_do (reading (\<lambda>p. of_db (ConfigAt b nodeID version (pl_configs p)))) (\<lambda>old.
     then_do (reading (\<lambda>p. of_db (blocksFor b nodeID (pl_creds p) (egress_view p) (pl_restricted p)))) (\<lambda>blocks.
     then_do (reading (\<lambda>p. case ReplaceBlocks (nc_config old) blocks of
         Inl e \<Rightarrow> Inl (if e = NilMapPanic then Panic else Rederiving version e) | Inr cfg \<Rightarrow> Inr cfg)) (\<lambda>cfg.
     then_do (reading (\<lambda>p. case complaint xt (kernelFor b w k nodeID p) cfg of
         Some msg \<Rightarrow> Inl (VersionRejected version msg) | None \<Rightarrow> Inr ())) (\<lambda>_.
     store_and_push b fl nonces now nodeID cfg))))"

text \<open>One apply after the other; a panic ends the loop with the request.\<close>

fun apply_all :: "(id \<Rightarrow> int act) \<Rightarrow> id list \<Rightarrow> panel \<Rightarrow> (id \<times> (panel_error, int) result) list \<times> panel" where
  "apply_all f [] p = ([], p)"
| "apply_all f (i # is) p =
     (case f i p of
        (r, p') \<Rightarrow>
          if r = Inl Panic then ([(i, r)], p')
          else (case apply_all f is p' of (rs, p'') \<Rightarrow> ((i, r) # rs, p'')))"

definition ApplyBoundNodes ::
  "box \<Rightarrow> (string \<Rightarrow> any_map option) \<Rightarrow> (string \<Rightarrow> string option) \<Rightarrow> outside \<Rightarrow> kernels \<Rightarrow> (content \<Rightarrow> string \<Rightarrow> string option) \<Rightarrow>
   (id \<Rightarrow> mints) \<Rightarrow> (id \<Rightarrow> bytes \<times> bytes) \<Rightarrow> int \<Rightarrow> id \<Rightarrow> panel \<Rightarrow> (id \<times> (panel_error, int) result) list \<times> panel" where
  "ApplyBoundNodes b yaml fl w k xt mints nonces now profileID p =
     apply_all (\<lambda>i. Apply b yaml fl w k xt (mints i) (nonces i) now i) (ProfileNodeIDs profileID (pl_tmpl p)) p"

section \<open>Preview\<close>

record preview =
  pv_config :: string
  pv_inbound_tags :: "string list"
  pv_kernel_version :: string
  pv_kernel_exact :: bool
  pv_kernel_note :: string
  pv_tested :: bool
  pv_test_error :: string
  pv_advisories :: "advisory list"

definition egress_tags :: "box \<Rightarrow> id \<Rightarrow> panel \<Rightarrow> string list" where
  "egress_tags b nodeID p =
     (case EgressRulesOn b nodeID (egress_view p) of
        Inl e \<Rightarrow> []
      | Inr rules \<Rightarrow>
          concat (map (\<lambda>r.
            if er_target_kind r = EgressDirect then [''direct'']
            else if er_target_kind r = EgressExternal then [ExitTag (er_target_proxy_id r)]
            else if er_target_kind r = EgressNode then [EgressTag (er_id r)]
            else []) (filter er_enabled rules)))"

text \<open>Ranging over a Go map visits its keys in no particular order; only whether a kind is there is used.\<close>

definition clientKindsOn :: "id \<Rightarrow> panel \<Rightarrow> string list" where
  "clientKindsOn nodeID p =
     distinct_from {} (concat (map (\<lambda>pid. map fst (ServedClientTemplates pid (pl_tmpl p))) (NodeProfileIDs nodeID (pl_tmpl p))))"

definition Service_Preview ::
  "box \<Rightarrow> (string \<Rightarrow> any_map option) \<Rightarrow> (string \<Rightarrow> string option) \<Rightarrow> outside \<Rightarrow> kernels \<Rightarrow> (content \<Rightarrow> string \<Rightarrow> string option) \<Rightarrow>
   mints \<Rightarrow> int \<Rightarrow> id \<Rightarrow> preview act" where
  "Service_Preview b yaml fl w k xt mints now nodeID =
     then_do (Service_AssembleNode b yaml fl mints now nodeID) (\<lambda>cfg.
     reading (\<lambda>p. let res = kernelFor b w k nodeID p in Inr
       \<lparr>pv_config = cfg, pv_inbound_tags = the_or [] (InboundTags cfg),
        pv_kernel_version = rs_version res, pv_kernel_exact = rs_exact res,
        pv_kernel_note = (if rs_exact res then [] else Describe res),
        pv_tested = (rs_bin res \<noteq> None),
        pv_test_error = the_or [] (complaint xt res cfg),
        pv_advisories = Advisories cfg (clientKindsOn nodeID p) (egress_tags b nodeID p)\<rparr>))"

section \<open>Running an action\<close>

lemma reading_run [simp]: "reading f p = (r, p') \<longleftrightarrow> f p = r \<and> p = p'"
  by (auto simp: reading_def)

lemma snd_reading [simp]: "snd (reading f p) = p"
  by (simp add: reading_def)

lemma then_do_Inr:
  "then_do m f p = (Inr y, p'') \<longleftrightarrow> (\<exists>x p'. m p = (Inr x, p') \<and> f x p' = (Inr y, p''))"
  by (auto simp: then_do_def split: prod.splits sum.splits)

lemma then_do_cases:
  obtains (failed) e p' where "m p = (Inl e, p')" "then_do m f p = (Inl e, p')"
    | (passed) x p' where "m p = (Inr x, p')" "then_do m f p = f x p'"
  by (cases "m p"; cases "fst (m p)") (auto simp: then_do_def)

lemma of_db_Inr [simp]: "of_db r = Inr x \<longleftrightarrow> r = Inr x"
  by (cases r) (simp_all add: of_db_def)

lemma wrapped_Inr [simp]: "wrapped f r = Inr x \<longleftrightarrow> r = Inr x"
  by (cases r) (simp_all add: wrapped_def)

lemma assembling_Inr [simp]: "assembling r = Inr x \<longleftrightarrow> r = Inr x"
  by (cases r) (simp_all add: assembling_def)

lemma try_map_Inr: "try_map f xs = Inr ys \<longleftrightarrow> list_all2 (\<lambda>x y. f x = Inr y) xs ys"
proof (induction xs arbitrary: ys)
  case (Cons x xs)
  then show ?case by (cases ys) auto
qed auto

text \<open>The only thing assembly writes is new credentials.\<close>

definition extends :: "panel \<Rightarrow> panel \<Rightarrow> bool" where
  "extends p p' \<longleftrightarrow> cred_inv (pl_creds p') \<and>
     (\<exists>new. p' = p\<lparr>pl_creds := (pl_creds p)\<lparr>cd_creds := cd_creds (pl_creds p) @ new\<rparr>\<rparr>)"

lemma extends_refl: "cred_inv (pl_creds p) \<Longrightarrow> extends p p"
  unfolding extends_def by (intro conjI exI [of _ "[]"]) simp_all

lemma extends_trans: "extends p p' \<Longrightarrow> extends p' p'' \<Longrightarrow> extends p p''"
  by (auto simp: extends_def)

lemma extends_same:
  assumes "extends p p'"
  shows "cred_inv (pl_creds p')" "pl_access p' = pl_access p" "pl_tmpl p' = pl_tmpl p" "pl_restricted p' = pl_restricted p"
    "pl_configs p' = pl_configs p" "pl_outbox p' = pl_outbox p" "ext_view p' = ext_view p" "egress_view p' = egress_view p"
    "\<exists>new. cd_creds (pl_creds p') = cd_creds (pl_creds p) @ new" "pl_proxies p' = pl_proxies p" "pl_egress p' = pl_egress p"
  using assms by (auto simp: extends_def ext_view_def egress_view_def)

text \<open>An action and its repetition with other random values: the first only adds credentials, and once it has
  succeeded the second finds everything there, in any table that has grown since.\<close>

definition settles :: "'a act \<Rightarrow> 'a act \<Rightarrow> bool" where
  "settles m m' \<longleftrightarrow> (\<forall>p. cred_inv (pl_creds p) \<longrightarrow>
     extends p (snd (m p)) \<and> (\<forall>x p2. fst (m p) = Inr x \<longrightarrow> extends (snd (m p)) p2 \<longrightarrow> m' p2 = (Inr x, p2)))"

lemma settlesD:
  assumes "settles m m'" and "cred_inv (pl_creds p)" and "m p = (r, p1)"
  shows "extends p p1" and "r = Inr x \<Longrightarrow> extends p1 p2 \<Longrightarrow> m' p2 = (Inr x, p2)"
  using assms unfolding settles_def by (metis fst_conv snd_conv)+

lemma settlesI:
  assumes "\<And>p r p1. cred_inv (pl_creds p) \<Longrightarrow> m p = (r, p1) \<Longrightarrow> extends p p1"
    and "\<And>p x p1 p2. cred_inv (pl_creds p) \<Longrightarrow> m p = (Inr x, p1) \<Longrightarrow> extends p1 p2 \<Longrightarrow> m' p2 = (Inr x, p2)"
  shows "settles m m'"
  unfolding settles_def using assms by (metis prod.collapse)

lemma settles_reading:
  assumes "\<And>p p'. extends p p' \<Longrightarrow> f p' = f p"
  shows "settles (reading f) (reading f)"
  by (rule settlesI) (auto simp: extends_refl assms)

lemma settles_then:
  assumes m: "settles m m'" and f: "\<And>x. settles (f x) (f' x)"
  shows "settles (then_do m f) (then_do m' f')"
proof (rule settlesI)
  fix p r p1
  assume p: "cred_inv (pl_creds p)" and run: "then_do m f p = (r, p1)"
  show "extends p p1"
  proof (cases rule: then_do_cases [of m p f])
    case (failed e p')
    then show ?thesis using settlesD(1) [OF m p failed(1)] run by simp
  next
    case (passed x p')
    note one = settlesD(1) [OF m p passed(1)]
    have y: "f x p' = (r, p1)" using passed(2) run by simp
    show ?thesis by (rule extends_trans [OF one settlesD(1) [OF f extends_same(1) [OF one] y]])
  qed
next
  fix p y p1 p2
  assume p: "cred_inv (pl_creds p)" and run: "then_do m f p = (Inr y, p1)" and p2: "extends p1 p2"
  obtain x p' where x: "m p = (Inr x, p')" and y: "f x p' = (Inr y, p1)" using run by (auto simp: then_do_Inr)
  note one = settlesD(1) [OF m p x]
  have "extends p' p2" using settlesD(1) [OF f extends_same(1) [OF one] y] p2 by (rule extends_trans)
  then have "m' p2 = (Inr x, p2)" using settlesD(2) [OF m p x] by simp
  moreover have "f' x p2 = (Inr y, p2)" using settlesD(2) [OF f extends_same(1) [OF one] y] p2 by simp
  ultimately show "then_do m' f' p2 = (Inr y, p2)" by (simp add: then_do_def)
qed

lemma settles_each: "(\<And>x. settles (f x) (f' x)) \<Longrightarrow> settles (for_each f xs) (for_each f' xs)"
  by (induction xs) (auto intro!: settles_then settles_reading)

lemma grown_db: "cd_access db' = cd_access db \<Longrightarrow> cd_creds db' = cs \<Longrightarrow> db' = (db :: cred_db)\<lparr>cd_creds := cs\<rparr>"
  by (cases db; cases db') simp

lemma ensure_state_frame:
  assumes "cred_inv db"
  shows "cred_inv (ensure_state b mint now profile node exitID relayID allowed uids db) \<and>
    (\<exists>new. ensure_state b mint now profile node exitID relayID allowed uids db = db\<lparr>cd_creds := cd_creds db @ new\<rparr>)"
  using assms
proof (induction uids arbitrary: db)
  case Nil
  then show ?case by (intro conjI exI [of _ "[]"]) simp_all
next
  case (Cons uid uids)
  have stay: "cred_inv db \<and> (\<exists>new. db = db\<lparr>cd_creds := cd_creds db @ new\<rparr>)"
    using Cons.prems by (intro conjI exI [of _ "[]"]) simp_all
  show ?case
  proof (cases "user_row (cd_access db) uid")
    case None
    then show ?thesis using Cons by simp
  next
    case (Some u)
    obtain newid secret nonce where mint: "mint uid = (newid, secret, nonce)" by (cases "mint uid") auto
    let ?put = "PutCredential b nonce newid now (new_credential u profile node exitID relayID secret) db"
    show ?thesis
    proof (cases ?put)
      case (Inl e)
      then show ?thesis using Cons stay by (auto simp: Some mint split: option.split)
    next
      case (Inr r)
      obtain c db1 where r: "?put = Inr (c, db1)" by (cases r) (simp add: Inr)
      note put = PutCredential_inv [OF Cons.prems r]
      then obtain new where new: "db1 = db\<lparr>cd_creds := cd_creds db @ new\<rparr>" using grown_db by blast
      show ?thesis using Cons.IH [OF Cons.prems] Cons.IH [OF put(1)] by (auto simp: Some mint r new split: option.split)
    qed
  qed
qed

lemma ensure_loop_stable:
  assumes "box_ok b" and "\<And>uid. nonce_ok b (snd (snd (mint uid)))" and "cred_inv db"
    and "ensure_loop b mint now profile node exitID relayID allowed uids db = Inr (cs, db1)"
    and "cd_creds db2 = cd_creds db1 @ later" and "cd_access db2 = cd_access db1"
  shows "ensure_loop b mint2 now profile node exitID relayID allowed uids db2 = Inr (cs, db2)"
  using assms(3,4)
proof (induction uids arbitrary: db cs)
  case (Cons uid uids)
  have acc: "cd_access db2 = cd_access db" using ensure_loop_frame [OF Cons.prems] assms(6) by simp
  from Cons.prems(2) show ?case
  proof (cases rule: ensure_loop_cases)
    case skipped
    with Cons acc show ?thesis by (simp add: ensure_loop_skip)
  next
    case (ensured u c cs1 dbu)
    note put = PutCredential_inv [OF Cons.prems(1) ensured(3)]
    have id: "u_id u = uid" using user_row_id [OF ensured(1)] .
    have "FindCredentialForExit b uid profile node exitID relayID dbu = Inr c"
      using PutCredential_found [OF assms(1,2) _ _ ensured(3)] id by simp
    moreover obtain new where "cd_creds db1 = cd_creds dbu @ new"
      using ensure_loop_frame [OF put(1) ensured(4)] by blast
    then have "cd_creds db2 = cd_creds dbu @ new @ later" using assms(5) by simp
    ultimately have "FindCredentialForExit b uid profile node exitID relayID db2 = Inr c" by (rule Find_append)
    with id have again: "PutCredential b nonce newid now (new_credential u profile node exitID relayID s) db2 = Inr (c, db2)"
      for nonce newid s by (simp add: PutCredential_def)
    from ensured(1) acc have row: "user_row (cd_access db2) uid = Some u" by simp
    show ?thesis
      using Cons.IH [OF put(1) ensured(4)] ensured(5)
      by (simp add: ensure_loop_step [OF row ensured(2)] again)
  qed
qed simp

lemma settles_ensure:
  assumes "box_ok b" and "\<And>uid. nonce_ok b (snd (snd (mint uid)))"
  shows "settles (ensure b mint now profile node exitID relayID allowed) (ensure b mint2 now profile node exitID relayID allowed)"
proof (rule settlesI)
  fix p r p1
  assume p: "cred_inv (pl_creds p)" and run: "ensure b mint now profile node exitID relayID allowed p = (r, p1)"
  show "extends p p1"
  proof (cases "ensureForExit b mint now profile node exitID relayID allowed (pl_creds p)")
    case (Inl e)
    then have "p1 = p\<lparr>pl_creds := ensure_state b mint now profile node exitID relayID allowed
        (ProfileUserIDs (pl_access p) profile) (pl_creds p)\<rparr>"
      using run by (simp add: ensure_def)
    then show ?thesis using ensure_state_frame [OF p] by (fastforce simp: extends_def)
  next
    case (Inr x)
    then obtain cs db where db: "ensureForExit b mint now profile node exitID relayID allowed (pl_creds p) = Inr (cs, db)" by (cases x) simp
    then have p1: "p1 = p\<lparr>pl_creds := db\<rparr>" using run by (simp add: ensure_def)
    have "cred_inv db" "cd_access db = cd_access (pl_creds p)" "\<exists>new. cd_creds db = cd_creds (pl_creds p) @ new"
      using ensure_loop_frame [OF p db [unfolded ensureForExit_def]] by simp_all
    then show ?thesis using grown_db by (fastforce simp: extends_def p1)
  qed
next
  fix p cs p1 p2
  assume p: "cred_inv (pl_creds p)" and run: "ensure b mint now profile node exitID relayID allowed p = (Inr cs, p1)"
    and p2: "extends p1 p2"
  have db: "ensureForExit b mint now profile node exitID relayID allowed (pl_creds p) = Inr (cs, pl_creds p1)"
    using run by (auto simp: ensure_def split: sum.splits)
  have acc: "cd_access (pl_creds p1) = cd_access (pl_creds p)"
    using ensure_loop_frame [OF p db [unfolded ensureForExit_def]] by simp
  obtain later where "cd_creds (pl_creds p2) = cd_creds (pl_creds p1) @ later" using extends_same(9) [OF p2] by blast
  then have "ensureForExit b mint2 now profile node exitID relayID allowed (pl_creds p2) = Inr (cs, pl_creds p2)"
    unfolding ensureForExit_def extends_same(2) [OF p2] acc
    by (rule ensure_loop_stable [OF assms p db [unfolded ensureForExit_def]]) (simp add: extends_same(2) [OF p2])
  then show "ensure b mint2 now profile node exitID relayID allowed p2 = (Inr cs, p2)" by (simp add: ensure_def)
qed

lemma settles_pure: "settles (reading (\<lambda>_. r)) (reading (\<lambda>_. r))"
  by (rule settles_reading) simp

definition nonces_ok :: "box \<Rightarrow> mints \<Rightarrow> bool" where
  "nonces_ok b mints \<longleftrightarrow> (\<forall>p x r uid. nonce_ok b (snd (snd (mints p x r uid))))"

lemma settles_line:
  assumes "box_ok b" and "nonces_ok b mints"
  shows "settles (line_clients b mints now pid pf node ctx exitID relayID allowed)
    (line_clients b mints2 now pid pf node ctx exitID relayID allowed)"
  unfolding line_clients_def using assms
  by (intro settles_then settles_pure settles_ensure settles_reading) (simp_all add: extends_same nonces_ok_def)

lemma settles_profile:
  assumes "box_ok b" and "nonces_ok b mints"
  shows "settles (profile_source b mints now node relayed relays pid) (profile_source b mints2 now node relayed relays pid)"
proof -
  have "settles (renderClients b mints now pf node ctx) (renderClients b mints2 now pf node ctx)" for pf ctx
    using assms by (auto simp: renderClients_def nonces_ok_def intro!: settles_then settles_ensure settles_pure)
  moreover have "settles (reading (relayClientEntries b pf node ctx)) (reading (relayClientEntries b pf node ctx))"
    "settles (reading (egressClientEntries b pf node ctx)) (reading (egressClientEntries b pf node ctx))" for pf ctx
    by (auto simp: relayClientEntries_def egressClientEntries_def extends_same intro!: settles_reading)
  ultimately show ?thesis
    unfolding profile_source_def using assms
    by (intro settles_then settles_each settles_line settles_pure) (auto intro!: settles_reading simp: extends_same)
qed

lemma assembleE:
  assumes "Service_AssembleNode b yaml fl mints now node p = (Inr out, p')"
  obtains n relays runs lines externals blocks egress where
    "GetNode b node (pl_nodes p) = Inr n" "RelaysFromEntry b node (pl_access p) = Inr relays"
    "for_each (profile_source b mints now node (relayedExits node p) relays) (NodeProfileIDs node (pl_tmpl p)) p = (Inr runs, p')"
    "try_map (relay_exit b fl (concat (map run_relays runs)) p') relays = Inr lines"
    "try_map (external_exit yaml (concat (map run_exits runs))) (relayedExits node p) = Inr externals"
    "blocksFor b node (pl_creds p') (egress_view p') (pl_restricted p') = Inr blocks"
    "egressFor b yaml fl node (map ex_tag (lines @ externals)) p' = Inr egress"
    "AssembleNodeWithEgress (n_config_skeleton n) (map run_source runs) (lines @ externals) blocks egress = Inr out"
  using assms unfolding Service_AssembleNode_def
  by (auto simp: then_do_Inr simp del: map_append)

lemma assembleI:
  assumes "GetNode b node (pl_nodes p) = Inr n" and "RelaysFromEntry b node (pl_access p) = Inr relays"
    and "for_each (profile_source b mints now node (relayedExits node p) relays) (NodeProfileIDs node (pl_tmpl p)) p = (Inr runs, p')"
    and "try_map (relay_exit b fl (concat (map run_relays runs)) p') relays = Inr lines"
    and "try_map (external_exit yaml (concat (map run_exits runs))) (relayedExits node p) = Inr externals"
    and "blocksFor b node (pl_creds p') (egress_view p') (pl_restricted p') = Inr blocks"
    and "egressFor b yaml fl node (map ex_tag (lines @ externals)) p' = Inr egress"
    and "AssembleNodeWithEgress (n_config_skeleton n) (map run_source runs) (lines @ externals) blocks egress = Inr out"
  shows "Service_AssembleNode b yaml fl mints now node p = (Inr out, p')"
  unfolding Service_AssembleNode_def by (simp add: then_do_def reading_def assms of_db_def assembling_def del: map_append)

lemma settles_sources:
  assumes "box_ok b" and "nonces_ok b mints"
  shows "settles (for_each (profile_source b mints now node relayed relays) pids)
    (for_each (profile_source b mints2 now node relayed relays) pids)"
  using settles_profile [OF assms] by (rule settles_each)

lemma relayedExits_extends: "extends p p' \<Longrightarrow> relayedExits node p' = relayedExits node p"
  by (simp add: relayedExits_def extends_same)

definition grows :: "'a act \<Rightarrow> bool" where
  "grows m \<longleftrightarrow> (\<forall>p. cred_inv (pl_creds p) \<longrightarrow> extends p (snd (m p)))"

lemma grows_settles: "settles m m' \<Longrightarrow> grows m"
  by (auto simp: grows_def settles_def)

lemma grows_reading: "grows (reading f)"
  by (simp add: grows_def extends_refl)

lemma grows_then:
  assumes "grows m" and "\<And>x. grows (f x)"
  shows "grows (then_do m f)"
  unfolding grows_def
proof (intro allI impI)
  fix p :: panel
  assume p: "cred_inv (pl_creds p)"
  have m: "extends p (snd (m p))" using assms(1) p by (simp add: grows_def)
  have f: "extends (snd (m p)) (snd (f x (snd (m p))))" for x
    using assms(2) extends_same(1) [OF m] by (simp add: grows_def)
  show "extends p (snd (then_do m f p))"
  proof (cases rule: then_do_cases [of m p f])
    case (failed e p')
    then show ?thesis using m by simp
  next
    case (passed x p')
    then show ?thesis using extends_trans [OF m f, of x] by simp
  qed
qed

lemma assembly_grows:
  assumes "box_ok b" and "nonces_ok b mints"
  shows "grows (Service_AssembleNode b yaml fl mints now node)"
  unfolding Service_AssembleNode_def
  by (intro grows_then grows_reading grows_settles [OF settles_sources [OF assms, where ?mints2.0 = mints]])

lemma assembly_extends:
  assumes "box_ok b" and "nonces_ok b mints" and "cred_inv (pl_creds p)" and "Service_AssembleNode b yaml fl mints now node p = (r, p')"
  shows "extends p p'"
  using assembly_grows [OF assms(1,2), of yaml fl now node] assms(3,4) unfolding grows_def by (metis snd_conv)

section \<open>Whose credential a line takes\<close>

definition granted :: "(access_db \<Rightarrow> (panel_error, id set) result) \<Rightarrow> access_db \<Rightarrow> int \<Rightarrow> id \<Rightarrow> bool" where
  "granted allowed adb now u = (case allowed adb of Inl e \<Rightarrow> False | Inr who \<Rightarrow> in_force adb now (Some who) u)"

text \<open>A stored credential that a line of this node serves: minted for the line, its holder entitled to the profile,
  allowed on the line and in force.\<close>

definition rides ::
  "(access_db \<Rightarrow> (panel_error, id set) result) \<Rightarrow> access_db \<Rightarrow> int \<Rightarrow> id \<Rightarrow> id \<Rightarrow> id \<Rightarrow> id \<Rightarrow> credential \<Rightarrow> bool" where
  "rides allowed adb now pid node exitID relayID c \<longleftrightarrow>
     cred_key c = (c_user_id c, pid, node, exitID, relayID) \<and> c_user_id c \<in> set (ProfileUserIDs adb pid)
     \<and> granted allowed adb now (c_user_id c)"

lemma ensure_Inr:
  "ensure b mint now profile node exitID relayID allowed p = (Inr cs, p') \<longleftrightarrow>
     (\<exists>cdb. ensureForExit b mint now profile node exitID relayID allowed (pl_creds p) = Inr (cs, cdb) \<and> p' = p\<lparr>pl_creds := cdb\<rparr>)"
  by (cases "ensureForExit b mint now profile node exitID relayID allowed (pl_creds p)") (auto simp: ensure_def)

lemma found_row:
  assumes "FindCredentialForExit b u pid node exitID relayID db = Inr c"
  obtains row where "row \<in> set (cd_creds db)" "cred_key row = (u, pid, node, exitID, relayID)" "c_email row = c_email c"
proof -
  obtain row where row: "sql_row (\<lambda>c. cred_key c = (u, pid, node, exitID, relayID)) (cd_creds db) = Some row" "scanCredential b row = Inr c"
    using assms by (auto simp: FindCredentialForExit_def split: option.splits)
  then have "c_email row = c_email c" by (auto simp: scanCredential_def split: sum.splits)
  then show ?thesis using that find_SomeD [OF row(1) [unfolded sql_row_def]] by blast
qed

lemma one_row:
  assumes "cred_inv db" and "c \<in> set (cd_creds db)" and "c' \<in> set (cd_creds db)"
  shows "c_email c = c_email c' \<Longrightarrow> c = c'" and "cred_key c = cred_key c' \<Longrightarrow> c = c'"
  using assms by (auto simp: cred_inv_def distinct_map inj_on_def)

lemma line_emails:
  assumes ok: "box_ok b" "nonces_ok b mints" and q: "cred_inv (pl_creds q)"
    and run: "line_clients b mints now pid pf node ctx exitID relayID allowed q = (Inr (rendered, emails), q')"
    and ext: "extends q' p'" and c: "c \<in> set (cd_creds (pl_creds p'))"
  shows "c_email c \<in> set emails \<longleftrightarrow> rides allowed (pl_access p') now pid node exitID relayID c"
proof -
  let ?adb = "pl_access p'"
  obtain who creds where who: "allowed (pl_access q) = Inr who" and emails: "emails = map c_email creds"
    and mint: "ensureForExit b (mints pid exitID relayID) now pid node exitID relayID (Some who) (pl_creds q) = Inr (creds, pl_creds q')"
    using run by (auto simp: line_clients_def then_do_Inr ensure_Inr)
  note loop = mint [unfolded ensureForExit_def]
  have nonce: "\<And>uid. nonce_ok b (snd (snd (mints pid exitID relayID uid)))" using ok(2) by (simp add: nonces_ok_def)
  have acc: "pl_access q = ?adb" using ensure_loop_frame [OF q loop] extends_same(2) [OF ext] by simp
  have users: "map c_user_id creds = filter (in_force ?adb now (Some who)) (ProfileUserIDs ?adb pid)"
    using ensure_loop_result(1) [OF q ok(1) nonce loop] unfolding acc .
  have found: "FindCredentialForExit b (c_user_id k) pid node exitID relayID (pl_creds p') = Inr k" if "k \<in> set creds" for k
    using ensure_loop_result(2) [OF q ok(1) nonce loop] that extends_same(9) [OF ext] Find_append by blast
  note inv = extends_same(1) [OF ext]
  show ?thesis
  proof
    assume "c_email c \<in> set emails"
    then obtain k where k: "k \<in> set creds" "c_email c = c_email k" by (auto simp: emails)
    obtain row where row: "row \<in> set (cd_creds (pl_creds p'))" "cred_key row = (c_user_id k, pid, node, exitID, relayID)" "c_email row = c_email k"
      using found [OF k(1)] by (rule found_row)
    have "c = row" using one_row(1) [OF inv c row(1)] k(2) row(3) by simp
    moreover from this have "c_user_id k = c_user_id c" using row(2) by (simp add: cred_key_def)
    moreover have "c_user_id k \<in> set (filter (in_force ?adb now (Some who)) (ProfileUserIDs ?adb pid))"
      unfolding users [symmetric] using k(1) by simp
    ultimately show "rides allowed ?adb now pid node exitID relayID c"
      using row(2) who acc by (simp add: rides_def granted_def)
  next
    assume r: "rides allowed ?adb now pid node exitID relayID c"
    then have "c_user_id c \<in> set (map c_user_id creds)"
      unfolding users using who acc by (simp add: rides_def granted_def)
    then obtain k where k: "k \<in> set creds" "c_user_id c = c_user_id k" by auto
    obtain row where row: "row \<in> set (cd_creds (pl_creds p'))" "cred_key row = (c_user_id k, pid, node, exitID, relayID)" "c_email row = c_email k"
      using found [OF k(1)] by (rule found_row)
    have "c = row" using one_row(2) [OF inv c row(1)] r row(2) k(2) by (simp add: rides_def)
    then show "c_email c \<in> set emails" using k(1) row(3) by (simp add: emails)
  qed
qed

lemma for_each_runs:
  assumes "\<And>x. grows (f x)" and "cred_inv (pl_creds q)" and "for_each f xs q = (Inr ys, q')"
  shows "list_all2 (\<lambda>x y. \<exists>q1 q2. extends q q1 \<and> f x q1 = (Inr y, q2) \<and> extends q2 q') xs ys \<and> extends q q'"
  using assms(2,3)
proof (induction xs arbitrary: q ys)
  case Nil
  then show ?case by (auto simp: extends_refl)
next
  case (Cons x xs)
  obtain y q1 zs where y: "f x q = (Inr y, q1)" and zs: "for_each f xs q1 = (Inr zs, q')" "ys = y # zs"
    using Cons.prems(2) by (auto simp: then_do_Inr)
  have one: "extends q q1" using assms(1) Cons.prems(1) y unfolding grows_def by (metis snd_conv)
  note IH = Cons.IH [OF extends_same(1) [OF one] zs(1)]
  have "list_all2 (\<lambda>x y. \<exists>r1 r2. extends q r1 \<and> f x r1 = (Inr y, r2) \<and> extends r2 q') xs zs"
    using IH by (elim conjE list_all2_mono) (use extends_trans [OF one] in blast)
  then show ?case
    using y extends_refl [OF Cons.prems(1)] IH extends_trans [OF one] by (auto simp: zs(2))
qed

lemma zip_emails:
  assumes "list_all2 R xs ys" and "\<And>x y. R x y \<Longrightarrow> e \<in> set (snd y) \<longleftrightarrow> Q x"
  shows "(\<exists>es. (i, es) \<in> set (zip (map key xs) (map snd ys)) \<and> e \<in> set es) \<longleftrightarrow> (\<exists>x\<in>set xs. key x = i \<and> Q x)"
  using assms(1) by (induction rule: list_all2_induct) (use assms(2) in auto)

lemma lines_emails:
  assumes ok: "box_ok b" "nonces_ok b mints" and q: "cred_inv (pl_creds q)"
    and run: "for_each (\<lambda>x. line_clients b mints now pid pf node ctx (ex x) (re x) (al x)) xs q = (Inr ys, q')"
    and ext: "extends q' p'" and c: "c \<in> set (cd_creds (pl_creds p'))"
  shows "(\<exists>es. (i, es) \<in> set (zip (map key xs) (map snd ys)) \<and> c_email c \<in> set es) \<longleftrightarrow>
    (\<exists>x\<in>set xs. key x = i \<and> rides (al x) (pl_access p') now pid node (ex x) (re x) c)"
proof -
  let ?f = "\<lambda>x. line_clients b mints now pid pf node ctx (ex x) (re x) (al x)"
  have grow: "grows (?f x)" for x by (rule grows_settles [OF settles_line [OF ok, where ?mints2.0 = mints]])
  have all: "list_all2 (\<lambda>x y. \<exists>q1 q2. extends q q1 \<and> ?f x q1 = (Inr y, q2) \<and> extends q2 q') xs ys"
    using for_each_runs [OF grow q run] by blast
  show ?thesis
  proof (rule zip_emails [OF all])
    fix x y
    assume "\<exists>q1 q2. extends q q1 \<and> ?f x q1 = (Inr y, q2) \<and> extends q2 q'"
    then obtain q1 q2 where r: "extends q q1" "?f x q1 = (Inr (fst y, snd y), q2)" "extends q2 q'" by auto
    show "c_email c \<in> set (snd y) \<longleftrightarrow> rides (al x) (pl_access p') now pid node (ex x) (re x) c"
      by (rule line_emails [OF ok extends_same(1) [OF r(1)] r(2) extends_trans [OF r(3) ext] c])
  qed
qed

lemma profile_sourceE:
  assumes "profile_source b mints now node relayed relays pid q = (Inr run, q')"
  obtains pf ctx clients q1 exits q2 lines where
    "GetProfile pid (pl_tmpl q) = Inr pf" "contextFor b pid node (pl_nodes q) (pl_tmpl q) = Inr ctx"
    "renderClients b mints now pf node ctx q = (Inr clients, q1)"
    "for_each (\<lambda>ex. line_clients b mints now pid pf node ctx (xp_id ex) [] (allowedUsers (xp_id ex))) relayed q1 = (Inr exits, q2)"
    "for_each (\<lambda>rl. line_clients b mints now pid pf node ctx [] (r_id rl) (allowedOnRelay (r_id rl))) relays q2 = (Inr lines, q')"
    "run_exits run = zip (map xp_id relayed) (map snd exits)" "run_relays run = zip (map r_id relays) (map snd lines)"
  using assms unfolding profile_source_def
  by (auto simp: then_do_Inr split: sum.split_asm if_split_asm)

lemma profile_emails:
  assumes ok: "box_ok b" "nonces_ok b mints" and q: "cred_inv (pl_creds q)"
    and run: "profile_source b mints now node relayed relays pid q = (Inr run, q')"
    and ext: "extends q' p'" and c: "c \<in> set (cd_creds (pl_creds p'))"
  shows "(\<exists>es. (i, es) \<in> set (run_exits run) \<and> c_email c \<in> set es) \<longleftrightarrow>
      (\<exists>x\<in>set relayed. xp_id x = i \<and> rides (allowedUsers i) (pl_access p') now pid node i [] c)"
    and "(\<exists>es. (i, es) \<in> set (run_relays run) \<and> c_email c \<in> set es) \<longleftrightarrow>
      (\<exists>x\<in>set relays. r_id x = i \<and> rides (allowedOnRelay i) (pl_access p') now pid node [] i c)"
proof -
  obtain pf ctx clients q1 exits q2 lines where
    "GetProfile pid (pl_tmpl q) = Inr pf" "contextFor b pid node (pl_nodes q) (pl_tmpl q) = Inr ctx"
    and s: "renderClients b mints now pf node ctx q = (Inr clients, q1)"
    "for_each (\<lambda>ex. line_clients b mints now pid pf node ctx (xp_id ex) [] (allowedUsers (xp_id ex))) relayed q1 = (Inr exits, q2)"
    "for_each (\<lambda>rl. line_clients b mints now pid pf node ctx [] (r_id rl) (allowedOnRelay (r_id rl))) relays q2 = (Inr lines, q')"
    and r: "run_exits run = zip (map xp_id relayed) (map snd exits)" "run_relays run = zip (map r_id relays) (map snd lines)"
    using run by (rule profile_sourceE)
  have "grows (renderClients b mints now pf node ctx)"
    using ok by (auto simp: renderClients_def nonces_ok_def intro!: grows_then grows_reading grows_settles [OF settles_ensure])
  then have q1: "cred_inv (pl_creds q1)" using q s(1) extends_same(1) unfolding grows_def by (metis snd_conv)
  have grow: "grows (line_clients b mints now pid pf node ctx e r a)" for e r a
    by (rule grows_settles [OF settles_line [OF ok, where ?mints2.0 = mints]])
  have q2: "extends q1 q2" using for_each_runs [OF grow q1 s(2)] by blast
  have q': "extends q2 q'" using for_each_runs [OF grow extends_same(1) [OF q2] s(3)] by blast
  show "(\<exists>es. (i, es) \<in> set (run_exits run) \<and> c_email c \<in> set es) \<longleftrightarrow>
      (\<exists>x\<in>set relayed. xp_id x = i \<and> rides (allowedUsers i) (pl_access p') now pid node i [] c)"
    unfolding r(1) lines_emails [OF ok q1 s(2) extends_trans [OF q' ext] c] by auto
  show "(\<exists>es. (i, es) \<in> set (run_relays run) \<and> c_email c \<in> set es) \<longleftrightarrow>
      (\<exists>x\<in>set relays. r_id x = i \<and> rides (allowedOnRelay i) (pl_access p') now pid node [] i c)"
    unfolding r(2) lines_emails [OF ok extends_same(1) [OF q2] s(3) ext c] by auto
qed

lemma emails_of_mem: "e \<in> set (emails_of i rs) \<longleftrightarrow> (\<exists>es. (i, es) \<in> set rs \<and> e \<in> set es)"
  by (force simp: emails_of_def)

lemma runs_emails:
  assumes "list_all2 R pids runs"
    and "\<And>pid run. R pid run \<Longrightarrow> (\<exists>es. (i, es) \<in> set (part run) \<and> e \<in> set es) \<longleftrightarrow> A \<and> Q pid"
  shows "e \<in> set (emails_of i (concat (map part runs))) \<longleftrightarrow> A \<and> (\<exists>pid\<in>set pids. Q pid)"
proof -
  have "(\<exists>run\<in>set runs. \<exists>es. (i, es) \<in> set (part run) \<and> e \<in> set es) \<longleftrightarrow> A \<and> (\<exists>pid\<in>set pids. Q pid)"
    using assms(1) by (induction rule: list_all2_induct) (use assms(2) in auto)
  then show ?thesis unfolding emails_of_mem by auto
qed

lemma find_append: "find P (xs @ ys) = (case find P xs of None \<Rightarrow> find P ys | Some x \<Rightarrow> Some x)"
  by (induction xs) simp_all

lemma find_source:
  assumes "list_all2 R xs es" and "\<And>x e. R x e \<Longrightarrow> ex_tag e = T (key x) \<and> (P e \<longleftrightarrow> key x = k \<and> S)"
  shows "map_option ex_tag (find P es) = (if k \<in> key ` set xs \<and> S then Some (T k) else None)"
  using assms(1) by (induction rule: list_all2_induct) (use assms(2) in auto)

definition on_relay :: "int \<Rightarrow> id \<Rightarrow> panel \<Rightarrow> credential \<Rightarrow> bool" where
  "on_relay now node p c \<longleftrightarrow> c_profile_id c \<in> set (NodeProfileIDs node (pl_tmpl p))
     \<and> rides (allowedOnRelay (c_exit_relay_id c)) (pl_access p) now (c_profile_id c) node [] (c_exit_relay_id c) c"

definition on_exit :: "int \<Rightarrow> id \<Rightarrow> panel \<Rightarrow> credential \<Rightarrow> bool" where
  "on_exit now node p c \<longleftrightarrow> c_profile_id c \<in> set (NodeProfileIDs node (pl_tmpl p))
     \<and> rides (allowedUsers (c_exit_proxy_id c)) (pl_access p) now (c_profile_id c) node (c_exit_proxy_id c) [] c"

text \<open>The outbound a credential's own line gives it.\<close>

definition line_tag :: "box \<Rightarrow> int \<Rightarrow> id \<Rightarrow> panel \<Rightarrow> credential \<Rightarrow> string option" where
  "line_tag b now node p c =
     (case RelaysFromEntry b node (pl_access p) of
        Inl e \<Rightarrow> None
      | Inr relays \<Rightarrow>
          if c_exit_relay_id c \<in> r_id ` set relays \<and> on_relay now node p c then Some (RelayTag (c_exit_relay_id c))
          else if c_exit_proxy_id c \<in> xp_id ` set (relayedExits node p) \<and> on_exit now node p c
          then Some (ExitTag (c_exit_proxy_id c)) else None)"

lemma rides_key:
  "rides al adb now pid node ex re c \<Longrightarrow> c_profile_id c = pid \<and> c_node_id c = node \<and> c_exit_proxy_id c = ex \<and> c_exit_relay_id c = re"
  by (simp add: rides_def cred_key_def)

lemma find_exits:
  assumes ok: "box_ok b" "nonces_ok b mints" and p: "cred_inv (pl_creds p)"
    and relays: "RelaysFromEntry b node (pl_access p) = Inr relays"
    and runs: "for_each (profile_source b mints now node (relayedExits node p) relays) (NodeProfileIDs node (pl_tmpl p)) p = (Inr runs, p')"
    and lines: "try_map (relay_exit b fl (concat (map run_relays runs)) p') relays = Inr lines"
    and externals: "try_map (external_exit yaml (concat (map run_exits runs))) (relayedExits node p) = Inr externals"
    and c: "c \<in> set (cd_creds (pl_creds p'))"
  shows "map_option ex_tag (find (\<lambda>e. c_email c \<in> set (ex_emails e)) (lines @ externals)) = line_tag b now node p c"
proof -
  let ?f = "profile_source b mints now node (relayedExits node p) relays" and ?pids = "NodeProfileIDs node (pl_tmpl p)"
  let ?P = "\<lambda>e. c_email c \<in> set (ex_emails e)"
  have grow: "grows (?f x)" for x by (rule grows_settles [OF settles_profile [OF ok, where ?mints2.0 = mints]])
  note all = for_each_runs [OF grow p runs]
  have acc: "pl_access p' = pl_access p" using all extends_same(2) by blast
  let ?R = "\<lambda>x y. \<exists>q1 q2. extends p q1 \<and> ?f x q1 = (Inr y, q2) \<and> extends q2 p'"
  have r: "c_email c \<in> set (emails_of i (concat (map run_relays runs))) \<longleftrightarrow>
      i \<in> r_id ` set relays \<and> (\<exists>pid\<in>set ?pids. rides (allowedOnRelay i) (pl_access p) now pid node [] i c)" for i
  proof (rule runs_emails [where R = ?R])
    fix pid run
    assume "?R pid run"
    then obtain q1 q2 where q: "extends p q1" "?f pid q1 = (Inr run, q2)" "extends q2 p'" by blast
    show "(\<exists>es. (i, es) \<in> set (run_relays run) \<and> c_email c \<in> set es) \<longleftrightarrow>
        i \<in> r_id ` set relays \<and> rides (allowedOnRelay i) (pl_access p) now pid node [] i c"
      unfolding profile_emails(2) [OF ok extends_same(1) [OF q(1)] q(2,3) c] acc by auto
  qed (use all in blast)
  have x: "c_email c \<in> set (emails_of i (concat (map run_exits runs))) \<longleftrightarrow>
      i \<in> xp_id ` set (relayedExits node p) \<and> (\<exists>pid\<in>set ?pids. rides (allowedUsers i) (pl_access p) now pid node i [] c)" for i
  proof (rule runs_emails [where R = ?R])
    fix pid run
    assume "?R pid run"
    then obtain q1 q2 where q: "extends p q1" "?f pid q1 = (Inr run, q2)" "extends q2 p'" by blast
    show "(\<exists>es. (i, es) \<in> set (run_exits run) \<and> c_email c \<in> set es) \<longleftrightarrow>
        i \<in> xp_id ` set (relayedExits node p) \<and> rides (allowedUsers i) (pl_access p) now pid node i [] c"
      unfolding profile_emails(1) [OF ok extends_same(1) [OF q(1)] q(2,3) c] acc by auto
  qed (use all in blast)
  have rel: "(\<exists>pid\<in>set ?pids. rides (allowedOnRelay i) (pl_access p) now pid node [] i c) \<longleftrightarrow> i = c_exit_relay_id c \<and> on_relay now node p c" for i
    unfolding on_relay_def using rides_key by metis
  have ext: "(\<exists>pid\<in>set ?pids. rides (allowedUsers i) (pl_access p) now pid node i [] c) \<longleftrightarrow> i = c_exit_proxy_id c \<and> on_exit now node p c" for i
    unfolding on_exit_def using rides_key by metis
  let ?k = "c_exit_relay_id c" and ?x = "c_exit_proxy_id c"
  have one: "map_option ex_tag (find ?P lines) = (if ?k \<in> r_id ` set relays \<and> (?k \<in> r_id ` set relays \<and> on_relay now node p c) then Some (RelayTag ?k) else None)"
    by (rule find_source [OF lines [unfolded try_map_Inr]]) (auto simp: relay_exit_def r rel)
  have two: "map_option ex_tag (find ?P externals) =
      (if ?x \<in> xp_id ` set (relayedExits node p) \<and> (?x \<in> xp_id ` set (relayedExits node p) \<and> on_exit now node p c) then Some (ExitTag ?x) else None)"
    by (rule find_source [OF externals [unfolded try_map_Inr]]) (auto simp: external_exit_def x ext split: sum.split_asm)
  have "map_option ex_tag (find ?P (lines @ externals)) = or_else (map_option ex_tag (find ?P lines)) (map_option ex_tag (find ?P externals))"
    by (simp add: find_append or_else_def split: option.split)
  then show ?thesis unfolding one two line_tag_def relays by simp
qed

section \<open>Landings and restrictions\<close>

definition takes :: "('c, 'x) xray_scheme \<Rightarrow> 'c \<Rightarrow> egress_rule \<Rightarrow> bool" where
  "takes x conn r \<longleftrightarrow> list_ex (xr_domain x conn) (er_domains r) \<or> list_ex (xr_ip x conn) (er_ips r)"

definition landing_tag :: "egress_rule \<Rightarrow> string" where
  "landing_tag r =
     (if er_target_kind r = EgressDirect then ''direct''
      else if er_target_kind r = EgressExternal then ExitTag (er_target_proxy_id r)
      else EgressTag (er_id r))"

lemma GetExternalProxy_id: "GetExternalProxy i xdb = Inr x \<Longrightarrow> xp_id x = i"
  by (auto simp: GetExternalProxy_def sql_row_def find_Some_iff split: option.splits)

lemma egress_loop_sources:
  "egress_loop b yaml fl p existing rules = Inr sources \<Longrightarrow>
     list_all2 (\<lambda>r s. eg_tag s = landing_tag r \<and> eg_domains s = er_domains r \<and> eg_ips s = er_ips r) (filter er_enabled rules) sources"
proof (induction rules arbitrary: existing sources)
  case (Cons r rules)
  show ?case
  proof (cases "er_enabled r")
    case False
    then show ?thesis using Cons by (simp add: Let_def)
  next
    case True
    consider "er_target_kind r = EgressDirect" | "er_target_kind r = EgressExternal" "er_target_kind r \<noteq> EgressDirect"
      | "er_target_kind r = EgressNode" "er_target_kind r \<noteq> EgressDirect" "er_target_kind r \<noteq> EgressExternal"
      using Cons.prems True by (auto simp: Let_def split: if_split_asm)
    then show ?thesis
    proof cases
      case 1
      then show ?thesis using Cons True by (auto simp: Let_def landing_tag_def)
    next
      case 2
      then show ?thesis using Cons True
        by (auto simp: Let_def landing_tag_def GetExternalProxy_id split: sum.split_asm if_split_asm)
    next
      case 3
      then show ?thesis using Cons True by (auto simp: Let_def landing_tag_def)
    qed
  qed
qed simp

lemma find_landing:
  assumes "list_all2 (\<lambda>r s. eg_tag s = landing_tag r \<and> eg_domains s = er_domains r \<and> eg_ips s = er_ips r) rules sources"
  shows "map_option eg_tag (find (lands_by x conn) sources) = map_option landing_tag (find (takes x conn) rules)"
  using assms by (induction rule: list_all2_induct) (auto simp: lands_by_def takes_def)

definition enforced :: "box \<Rightarrow> id \<Rightarrow> panel \<Rightarrow> restricted_dest \<Rightarrow> bool" where
  "enforced b node p d =
     (case (RelaysFromEntry b node (pl_access p), EgressRulesOn b node (egress_view p)) of
        (Inr relays, Inr rules) \<Rightarrow> dest_applies node (exits_of relays rules) d
      | _ \<Rightarrow> False)"

definition goes_to :: "('c, 'x) xray_scheme \<Rightarrow> 'c \<Rightarrow> restricted_dest \<Rightarrow> bool" where
  "goes_to x conn d \<longleftrightarrow> list_ex (xr_ip x conn) (rd_cidrs d) \<or> list_ex (\<lambda>s. xr_domain x conn (''domain:'' @ s)) (rd_domains d)"

text \<open>A subscriber's connection the access policy forbids on a node.\<close>

definition barred_from :: "box \<Rightarrow> id \<Rightarrow> panel \<Rightarrow> ('c, 'x) xray_scheme \<Rightarrow> 'c \<Rightarrow> id \<Rightarrow> bool" where
  "barred_from b node p x conn u \<longleftrightarrow>
     list_ex (\<lambda>d. enforced b node p d \<and> u \<notin> set (admitted (pl_access p) d) \<and> goes_to x conn d)
       (ListRestrictedDestinations (pl_restricted p))"

lemma blocks_policy:
  assumes ok: "blocksFor b node (pl_creds p) (egress_view p) (pl_restricted p) = Inr blocks" and inv: "cred_inv (pl_creds p)"
    and relays: "RelaysFromEntry b node (pl_access p) = Inr relays" and rules: "EgressRulesOn b node (egress_view p) = Inr rules"
    and c: "c \<in> set (cd_creds (pl_creds p))" "c_node_id c = node" and user: "xr_user x conn = c_email c"
  shows "list_ex (barred_by x conn) blocks \<longleftrightarrow> barred_from b node p x conn (c_user_id c)"
proof
  let ?ds = "ListRestrictedDestinations (pl_restricted p)"
  note exact = blocks_are_exact [OF ok inv relays rules _ c]
  have enf: "enforced b node p d = dest_applies node (exits_of relays rules) d" for d
    by (simp add: enforced_def relays rules)
  {
    assume "list_ex (barred_by x conn) blocks"
    then obtain bl where bl: "bl \<in> set blocks" "barred_by x conn bl" by (auto simp: list_ex_iff)
    have "?ds \<noteq> []" using bl(1) ok by (auto simp: blocksFor_def)
    then obtain d where "d \<in> set ?ds" by (cases ?ds) auto
    from exact [OF this] bl(1) obtain d' where d': "d' \<in> set ?ds" "dest_applies node (exits_of relays rules) d'"
      "bl_cidrs bl = rd_cidrs d'" "bl_domains bl = rd_domains d'"
      "c_email c \<in> set (bl_emails bl) \<longrightarrow> c_user_id c \<notin> set (admitted (pl_access p) d')"
      by blast
    have "c_email c \<in> set (bl_emails bl)" "goes_to x conn d'"
      using bl(2) user d'(3,4) by (simp_all add: barred_by_def goes_to_def)
    then show "barred_from b node p x conn (c_user_id c)"
      using d' unfolding barred_from_def list_ex_iff enf by blast
  }
  {
    assume "barred_from b node p x conn (c_user_id c)"
    then obtain d where d: "d \<in> set ?ds" "dest_applies node (exits_of relays rules) d" "c_user_id c \<notin> set (admitted (pl_access p) d)" "goes_to x conn d"
      unfolding barred_from_def list_ex_iff enf by blast
    from exact [OF d(1)] d(2,3) obtain bl where "bl \<in> set blocks" "bl_cidrs bl = rd_cidrs d" "bl_domains bl = rd_domains d" "c_email c \<in> set (bl_emails bl)"
      by blast
    then show "list_ex (barred_by x conn) blocks"
      using d(4) user unfolding list_ex_iff barred_by_def goes_to_def by (intro bexI [of _ bl]) simp_all
  }
qed

lemma barred_extends: "extends p p' \<Longrightarrow> barred_from b node p' x conn u = barred_from b node p x conn u"
  by (simp add: barred_from_def enforced_def extends_same)

section \<open>Properties\<close>

text \<open>Assembling again, with whatever random values, yields the same configuration and changes nothing.\<close>

lemma assembly_repeats:
  assumes "box_ok b" and "nonces_ok b mints" and "cred_inv (pl_creds p)"
    and "Service_AssembleNode b yaml fl mints now node p = (Inr out, p')"
  shows "Service_AssembleNode b yaml fl mints2 now node p' = (Inr out, p')"
proof -
  have ext: "extends p p'" by (rule assembly_extends [OF assms])
  obtain n relays runs lines externals blocks egress where
    s: "GetNode b node (pl_nodes p) = Inr n" "RelaysFromEntry b node (pl_access p) = Inr relays"
    "for_each (profile_source b mints now node (relayedExits node p) relays) (NodeProfileIDs node (pl_tmpl p)) p = (Inr runs, p')"
    "try_map (relay_exit b fl (concat (map run_relays runs)) p') relays = Inr lines"
    "try_map (external_exit yaml (concat (map run_exits runs))) (relayedExits node p) = Inr externals"
    "blocksFor b node (pl_creds p') (egress_view p') (pl_restricted p') = Inr blocks"
    "egressFor b yaml fl node (map ex_tag (lines @ externals)) p' = Inr egress"
    "AssembleNodeWithEgress (n_config_skeleton n) (map run_source runs) (lines @ externals) blocks egress = Inr out"
    using assms(4) by (rule assembleE)
  have runs: "for_each (profile_source b mints2 now node (relayedExits node p) relays) (NodeProfileIDs node (pl_tmpl p)) p' = (Inr runs, p')"
    using settlesD(2) [OF settles_sources [OF assms(1,2)] assms(3) s(3) refl extends_refl [OF extends_same(1) [OF ext]]] .
  show ?thesis
    by (rule assembleI [where n = n and relays = relays and runs = runs and lines = lines and externals = externals
        and blocks = blocks and egress = egress])
       (simp_all only: extends_same(2,3) [OF ext] relayedExits_extends [OF ext] s runs)
qed

text \<open>C1. Where a subscriber's connection leaves a node, in terms of the panel's tables alone. Under a stored credential, a
  connection to a destination that is restricted for its holder is dropped. What is left goes where the first
  enabled egress rule that names its destination says. What no rule names leaves by the line or external exit the
  credential was minted for, as long as its holder may take it, and otherwise as the operator's own rules say.\<close>

theorem node_routing:
  assumes ok: "box_ok b" "nonces_ok b mints" and inv: "cred_inv (pl_creds p)" and x: "reads_rules x"
    and run: "Service_AssembleNode b yaml fl mints now node p = (Inr out, p')"
    and n: "GetNode b node (pl_nodes p) = Inr n" and rules: "EgressRulesOn b node (egress_view p) = Inr rules"
    and c: "c \<in> set (cd_creds (pl_creds p'))" "c_node_id c = node"
    and conn: "xr_user x conn = c_email c" "xr_inbound x conn \<noteq> APIInboundTag"
  shows "route x (routing_rules (read_config out)) conn =
    (if barred_from b node p x conn (c_user_id c) then Some BlackholeTag
     else case find (takes x conn) (filter er_enabled rules) of
       Some r \<Rightarrow> Some (landing_tag r)
     | None \<Rightarrow> or_else (line_tag b now node p c) (route x (routing_rules (skeleton_config (n_config_skeleton n))) conn))"
proof -
  have ext: "extends p p'" by (rule assembly_extends [OF ok inv run])
  obtain n' relays runs lines externals blocks egress where
    s: "GetNode b node (pl_nodes p) = Inr n'" "RelaysFromEntry b node (pl_access p) = Inr relays"
    "for_each (profile_source b mints now node (relayedExits node p) relays) (NodeProfileIDs node (pl_tmpl p)) p = (Inr runs, p')"
    "try_map (relay_exit b fl (concat (map run_relays runs)) p') relays = Inr lines"
    "try_map (external_exit yaml (concat (map run_exits runs))) (relayedExits node p) = Inr externals"
    "blocksFor b node (pl_creds p') (egress_view p') (pl_restricted p') = Inr blocks"
    "egressFor b yaml fl node (map ex_tag (lines @ externals)) p' = Inr egress"
    "AssembleNodeWithEgress (n_config_skeleton n') (map run_source runs) (lines @ externals) blocks egress = Inr out"
    using run by (rule assembleE)
  have rules': "EgressRulesOn b node (egress_view p') = Inr rules" and relays': "RelaysFromEntry b node (pl_access p') = Inr relays"
    using rules s(2) by (simp_all add: extends_same [OF ext])
  have barred: "list_ex (barred_by x conn) blocks \<longleftrightarrow> barred_from b node p x conn (c_user_id c)"
    using blocks_policy [OF s(6) extends_same(1) [OF ext] relays' rules' c conn(1)] barred_extends [OF ext] by simp
  have "egress_loop b yaml fl p' (map ex_tag (lines @ externals)) rules = Inr egress"
    using s(7) by (simp add: egressFor_def rules' of_db_def del: map_append)
  then have landing: "map_option eg_tag (find (lands_by x conn) egress) = map_option landing_tag (find (takes x conn) (filter er_enabled rules))"
    by (intro find_landing egress_loop_sources)
  have line: "map_option ex_tag (find (\<lambda>e. c_email c \<in> set (ex_emails e)) (lines @ externals)) = line_tag b now node p c"
    by (rule find_exits [OF ok inv s(2-5) c(1)])
  have policy: "node_policy x blocks egress (lines @ externals) conn =
      (if barred_from b node p x conn (c_user_id c) then Some BlackholeTag
       else or_else (map_option landing_tag (find (takes x conn) (filter er_enabled rules))) (line_tag b now node p c))"
    unfolding node_policy_def barred conn(1) line landing [symmetric] by (simp add: or_else_def split: option.split)
  show ?thesis
    using assembled_routes [OF s(8) x, of conn] conn(2) n s(1)
    by (simp add: policy or_else_assoc split: option.split)
qed

lemma store_and_pushE:
  assumes "configs_ok (pl_configs p)" and "box_ok b" and "nonce_ok b (fst nonces)" and "nonce_ok b (snd nonces)"
    and "store_and_push b fl nonces now node cfg p = (r, p')"
  shows "case r of
      Inl e \<Rightarrow> p' = p
    | Inr v \<Rightarrow> \<exists>c. nc_config c = cfg \<and> nc_version c = v \<and> (\<forall>old\<in>set (node_versions node (pl_configs p)). old < v)
        \<and> configs_ok (pl_configs p') \<and> LatestConfig b node (pl_configs p') = Inr c \<and> LatestPushableConfig b node (pl_configs p') = Inr c
        \<and> pl_outbox p' = pl_outbox p @ [\<lparr>ps_node = node, ps_version = v, ps_config = cfg, ps_probe = nc_probe_outbound c\<rparr>]
        \<and> pl_creds p' = pl_creds p"
proof -
  define pr where "pr = ProbeOutbound b fl node p"
  define ins where "ins = InsertConfig b (fst nonces) (snd nonces) (set (map n_id (pl_nodes p))) node cfg
    (case pr of Probe s \<Rightarrow> s | _ \<Rightarrow> []) now (pl_configs p)"
  show ?thesis
  proof (cases "pr = ProbePanic \<or> node \<notin> set (map n_id (pl_nodes p))")
    case True
    then show ?thesis
      using assms(5) by (auto simp: store_and_push_def pr_def [symmetric] InsertConfig_def Let_def split: probe.splits)
  next
    case False
    have run: "store_and_push b fl nonces now node cfg p =
        (case ins of
           (Inl e, t) \<Rightarrow> (Inl (Db e), p\<lparr>pl_configs := t\<rparr>)
         | (Inr c, t) \<Rightarrow> (Inr (nc_version c), p\<lparr>pl_configs := t, pl_outbox := pl_outbox p @ [\<lparr>ps_node = node, ps_version = nc_version c,
              ps_config = nc_config c, ps_probe = nc_probe_outbound c\<rparr>]\<rparr>))"
      using False by (cases pr) (auto simp: store_and_push_def pr_def [symmetric] ins_def)
    obtain ri t where ins: "InsertConfig b (fst nonces) (snd nonces) (set (map n_id (pl_nodes p))) node cfg
        (case pr of Probe s \<Rightarrow> s | _ \<Rightarrow> []) now (pl_configs p) = (ri, t)" "ins = (ri, t)"
      unfolding ins_def by fastforce
    obtain c where c: "ri = Inr c" "nc_config c = cfg" "configs_ok t" "\<forall>v\<in>set (node_versions node (pl_configs p)). v < nc_version c"
      "LatestConfig b node t = Inr c" "LatestPushableConfig b node t = Inr c"
      using inserted_config [OF assms(1-4) _ ins(1)] False by blast
    show ?thesis using assms(5) c by (auto simp: run ins(2))
  qed
qed

lemma then_do_run:
  "m p = (Inl e, p1) \<Longrightarrow> then_do m f p = (Inl e, p1)" "m p = (Inr x, p1) \<Longrightarrow> then_do m f p = f x p1"
  by (simp_all add: then_do_def)

lemma kernelFor_extends: "extends p p' \<Longrightarrow> kernelFor b w k node p' = kernelFor b w k node p"
  by (simp add: kernelFor_def extends_same)


lemma blocks_policy_stored:
  assumes ok: "blocksFor b node (pl_creds p) (egress_view p) (pl_restricted p) = Inr blocks" and inv: "cred_inv (pl_creds p)"
    and c: "c \<in> set (cd_creds (pl_creds p))" "c_node_id c = node" and user: "xr_user x conn = c_email c"
  shows "list_ex (barred_by x conn) blocks \<longleftrightarrow> barred_from b node p x conn (c_user_id c)"
proof (cases "ListRestrictedDestinations (pl_restricted p) = []")
  case True
  then show ?thesis using ok by (simp add: blocksFor_def barred_from_def)
next
  case False
  then obtain relays rules where "RelaysFromEntry b node (pl_access p) = Inr relays" "EgressRulesOn b node (egress_view p) = Inr rules"
    using ok by (auto simp: blocksFor_def Let_def)
  from blocks_policy [OF ok inv this c user] show ?thesis .
qed

text \<open>C5. A rollback brings back an old configuration under the access policy of today: in what is stored and pushed, a
  connection is dropped exactly when its destination is restricted for its holder now, whatever the old version
  dropped, and otherwise takes the old version's rules. It passes the same check as an apply, and a rollback that
  fails leaves everything as it was.\<close>

theorem rollback_restricts:
  assumes "box_ok b" and "nonce_ok b (fst nonces)" and "nonce_ok b (snd nonces)" and "cred_inv (pl_creds p)" and "configs_ok (pl_configs p)"
    and "Rollback b fl w k xt nonces now node version p = (r, p')" and "reads_rules x"
    and "c \<in> set (cd_creds (pl_creds p))" and "c_node_id c = node" and "xr_user x conn = c_email c"
  shows "case r of
      Inl e \<Rightarrow> p' = p
    | Inr v \<Rightarrow> \<exists>old cfg new. ConfigAt b node version (pl_configs p) = Inr old
        \<and> complaint xt (kernelFor b w k node p) cfg = None
        \<and> nc_config new = cfg \<and> nc_version new = v \<and> (\<forall>v'\<in>set (node_versions node (pl_configs p)). v' < v)
        \<and> LatestConfig b node (pl_configs p') = Inr new
        \<and> pl_outbox p' = pl_outbox p @ [\<lparr>ps_node = node, ps_version = v, ps_config = cfg, ps_probe = nc_probe_outbound new\<rparr>]
        \<and> route x (routing_rules (read_config cfg)) conn =
            (if barred_from b node p x conn (c_user_id c) then Some BlackholeTag
             else route x (filter (\<lambda>r. \<not> goes_nowhere ''outboundtag'' r) (routing_rules (read_config (nc_config old)))) conn)"
proof -
  consider (failed) e where "r = Inl e" "p' = p"
    | (passed) old blocks cfg where "ConfigAt b node version (pl_configs p) = Inr old"
      "blocksFor b node (pl_creds p) (egress_view p) (pl_restricted p) = Inr blocks" "ReplaceBlocks (nc_config old) blocks = Inr cfg"
      "complaint xt (kernelFor b w k node p) cfg = None" "store_and_push b fl nonces now node cfg p = (r, p')"
    using assms(6) unfolding Rollback_def
    by (auto simp: then_do_def reading_def of_db_def split: sum.split_asm option.split_asm)
  then show ?thesis
  proof cases
    case failed
    then show ?thesis by simp
  next
    case (passed old blocks cfg)
    have "routing_rules (read_config cfg) = concat (map block_rules blocks)
        @ filter (\<lambda>r. \<not> goes_nowhere ''outboundtag'' r) (routing_rules (read_config (nc_config old)))"
      by (rule ReplaceBlocksE(2) [OF passed(3)])
    then have "route x (routing_rules (read_config cfg)) conn =
        (if barred_from b node p x conn (c_user_id c) then Some BlackholeTag
         else route x (filter (\<lambda>r. \<not> goes_nowhere ''outboundtag'' r) (routing_rules (read_config (nc_config old)))) conn)"
      using blocks_policy_stored [OF passed(2) assms(4,8-10)] by (simp add: route_blocks [OF assms(7)])
    with store_and_pushE [OF assms(5,1-3) passed(5)] passed(1,4) show ?thesis
      by (cases r) auto
  qed
qed

text \<open>Re-applying the nodes of a profile visits the bound nodes in order, all of them unless one panics.\<close>

lemma apply_all_visits:
  "apply_all f is p = (rs, p') \<Longrightarrow>
     (\<exists>rest. is = map fst rs @ rest \<and> (rest = [] \<or> Inl Panic \<in> snd ` set rs))"
proof (induction "is" arbitrary: p rs)
  case (Cons i "is")
  obtain r p1 where r: "f i p = (r, p1)" by fastforce
  obtain rs1 p2 where rs: "apply_all f is p1 = (rs1, p2)" by fastforce
  show ?case using Cons r rs by (fastforce split: if_split_asm)
qed simp

text \<open>C20. What a preview shows is what an apply delivers. With nothing else changed in between, an apply assembles the very
  bytes the preview showed, whatever random values it draws, is refused exactly when the preview reported a
  complaint of the kernel, and mints nothing: the preview has already minted every credential.\<close>

theorem preview_is_applied:
  assumes "box_ok b" and "nonces_ok b mints" and "cred_inv (pl_creds p)"
    and "Service_Preview b yaml fl w k xt mints now node p = (Inr pv, p1)"
  shows "Apply b yaml fl w k xt mints2 nonces now node p1 =
      (case complaint xt (kernelFor b w k node p1) (pv_config pv) of
         Some msg \<Rightarrow> (Inl (TestRejected msg), p1)
       | None \<Rightarrow> store_and_push b fl nonces now node (pv_config pv) p1)
    \<and> pv_test_error pv = the_or [] (complaint xt (kernelFor b w k node p1) (pv_config pv))
    \<and> (pv_tested pv \<longleftrightarrow> rs_bin (kernelFor b w k node p1) \<noteq> None) \<and> extends p p1"
proof -
  have run: "Service_AssembleNode b yaml fl mints now node p = (Inr (pv_config pv), p1)"
    and pv: "pv_test_error pv = the_or [] (complaint xt (kernelFor b w k node p1) (pv_config pv))"
      "pv_tested pv \<longleftrightarrow> rs_bin (kernelFor b w k node p1) \<noteq> None"
    using assms(4) by (auto simp: Service_Preview_def then_do_Inr Let_def)
  have "Service_AssembleNode b yaml fl mints2 now node p1 = (Inr (pv_config pv), p1)"
    by (rule assembly_repeats [OF assms(1-3) run])
  then show ?thesis
    using pv assembly_extends [OF assms(1-3) run]
    by (simp add: Apply_def then_do_run(2)) (simp add: then_do_def reading_def split: option.split)
qed

section \<open>The small fleet delivered\<close>

definition demo_mints :: mints where
  "demo_mints pid ex re u = (concat [''k'', pid, ex, re, u], ''s'', [])"

definition demo_pl :: panel where
  "demo_pl = (demo_panel demo_dial 0)\<lparr>pl_configs := [\<lparr>nc_node_id = ''a'', nc_version = 1, nc_config = ''plain:{}'',
     nc_probe_outbound = [], nc_created_at = 0, nc_applied = 1, nc_error = []\<rparr>]\<rparr>"

abbreviation demo_yaml :: "string \<Rightarrow> any_map option" where
  "demo_yaml \<equiv> \<lambda>_. None"

abbreviation demo_test :: "content \<Rightarrow> string \<Rightarrow> string option" where
  "demo_test \<equiv> \<lambda>_ _. Some ''no''"

definition demo_apply :: "(panel_error, int) result \<times> panel" where
  "demo_apply = Apply plain_box demo_yaml Some demo_outside demo_kernels demo_test demo_mints ([], []) 10 ''a'' demo_pl"

lemma demo_apply_ok: "fst demo_apply = Inr 2"
  by code_simp

definition demo_config_a :: string where
  "demo_config_a = projr (fst (Service_AssembleNode plain_box demo_yaml Some demo_mints 10 ''a'' demo_pl))"

definition demo_after :: panel where
  "demo_after = snd (Service_AssembleNode plain_box demo_yaml Some demo_mints 10 ''a'' demo_pl)"

lemma demo_assembles: "Service_AssembleNode plain_box demo_yaml Some demo_mints 10 ''a'' demo_pl = (Inr demo_config_a, demo_after)"
proof -
  have "Apply plain_box demo_yaml Some demo_outside demo_kernels demo_test demo_mints ([], []) 10 ''a'' demo_pl = (Inr 2, snd demo_apply)"
    using demo_apply_ok by (simp add: demo_apply_def prod_eq_iff)
  then obtain cfg p where "Service_AssembleNode plain_box demo_yaml Some demo_mints 10 ''a'' demo_pl = (Inr cfg, p)"
    unfolding Apply_def then_do_Inr by blast
  then show ?thesis by (simp add: demo_config_a_def demo_after_def)
qed

lemma plain_ok: "box_ok plain_box" "nonce_ok plain_box []" "nonces_ok plain_box demo_mints"
  by (simp_all add: box_ok_def nonce_ok_def plain_box_def nonces_ok_def demo_mints_def)

lemma demo_pl_inv: "cred_inv (pl_creds demo_pl)"
proof -
  let ?a = "pl_access demo_pl"
  have ids: "user_ids ?a = [''u'']" "group_ids ?a = []" "universe ?a Node = [''a'', ''b'', ''c'']"
    "universe ?a Relay = [''1'']" "universe ?a External = []" "ad_profiles ?a = [''p'']"
    by code_simp+
  have "distinct (universe ?a d)" for d by (cases d) (simp_all add: ids)
  moreover have "distinct (map u_name (ad_users ?a))" "distinct (map g_name (ad_groups ?a))" by code_simp+
  ultimately have "rows_ok ?a"
    by (simp add: rows_ok_def ids) (simp add: demo_pl_def demo_panel_def demo_row3_def empty_access_def demo_user_def)
  moreover have "profiles_ok ?a"
    by (simp add: profiles_ok_def ids) (simp add: demo_pl_def demo_panel_def demo_row3_def empty_access_def)
  moreover have "dim_ok ?a d" for d
    by (cases d) (simp_all add: dim_ok_def ids, simp_all add: demo_pl_def demo_panel_def demo_row3_def empty_access_def)
  ultimately have "access_inv ?a" by (simp add: access_inv_def)
  moreover have "cd_creds (pl_creds demo_pl) = [demo_cred]" by code_simp
  moreover have "cred_refs ?a demo_cred"
    unfolding cred_refs_def ids by (simp add: demo_cred_def)
  ultimately show ?thesis by (simp add: cred_inv_def)
qed

lemma demo_cred_kept: "demo_cred \<in> set (cd_creds (pl_creds demo_after))" "c_node_id demo_cred = ''a''"
proof -
  obtain new where "cd_creds (pl_creds demo_after) = cd_creds (pl_creds demo_pl) @ new"
    using extends_same(9) [OF assembly_extends [OF plain_ok(1,3) demo_pl_inv demo_assembles]] by blast
  moreover have "demo_cred \<in> set (cd_creds (pl_creds demo_pl))" by code_simp
  ultimately show "demo_cred \<in> set (cd_creds (pl_creds demo_after))" by simp
qed code_simp

theorem node_routing_witness:
  "route demo_xray (routing_rules (read_config demo_config_a)) \<lparr>dc_user = ''u@a'', dc_inbound = ''in'', dc_dest = ''172.20.0.0/14''\<rparr>
     = Some BlackholeTag"
proof -
  let ?conn = "\<lparr>dc_user = ''u@a'', dc_inbound = ''in'', dc_dest = ''172.20.0.0/14''\<rparr>"
  let ?n = "projr (GetNode plain_box ''a'' (pl_nodes demo_pl))" and ?rules = "projr (EgressRulesOn plain_box ''a'' (egress_view demo_pl))"
  have n: "GetNode plain_box ''a'' (pl_nodes demo_pl) = Inr ?n" and rules: "EgressRulesOn plain_box ''a'' (egress_view demo_pl) = Inr ?rules"
    and conn: "xr_user demo_xray ?conn = c_email demo_cred" "xr_inbound demo_xray ?conn \<noteq> APIInboundTag"
    and barred: "barred_from plain_box ''a'' demo_pl demo_xray ?conn (c_user_id demo_cred)"
    by code_simp+
  show ?thesis
    using node_routing [OF plain_ok(1,3) demo_pl_inv demo_reads demo_assembles n rules demo_cred_kept conn] barred by simp
qed


definition demo_rollback :: "(panel_error, int) result \<times> panel" where
  "demo_rollback = Rollback plain_box Some demo_outside demo_kernels demo_test ([], []) 10 ''a'' 1 demo_pl"

theorem rollback_restricts_witness:
  "\<exists>cfg. map ps_config (pl_outbox (snd demo_rollback)) = [cfg]
     \<and> route demo_xray (routing_rules (read_config cfg)) \<lparr>dc_user = ''u@a'', dc_inbound = ''in'', dc_dest = ''172.20.0.0/14''\<rparr>
         = Some BlackholeTag"
proof -
  let ?conn = "\<lparr>dc_user = ''u@a'', dc_inbound = ''in'', dc_dest = ''172.20.0.0/14''\<rparr>"
  have ok: "fst demo_rollback = Inr 2" by code_simp
  have run: "Rollback plain_box Some demo_outside demo_kernels demo_test ([], []) 10 ''a'' 1 demo_pl = (Inr 2, snd demo_rollback)"
    using ok by (simp add: demo_rollback_def prod_eq_iff)
  have nonce: "nonce_ok plain_box (fst ([], []))" "nonce_ok plain_box (snd ([], []))" using plain_ok by simp_all
  have facts: "configs_ok (pl_configs demo_pl)" "pl_outbox demo_pl = []" "demo_cred \<in> set (cd_creds (pl_creds demo_pl))"
    "c_node_id demo_cred = ''a''" "xr_user demo_xray ?conn = c_email demo_cred"
    "barred_from plain_box ''a'' demo_pl demo_xray ?conn (c_user_id demo_cred)"
    by code_simp+
  show ?thesis
    using rollback_restricts [OF plain_ok(1) nonce demo_pl_inv facts(1) run demo_reads facts(3-5)] facts(2,6) by auto
qed

definition demo_preview :: preview where
  "demo_preview = projr (fst (Service_Preview plain_box demo_yaml Some demo_outside demo_kernels demo_test demo_mints 10 ''a'' demo_pl))"

theorem preview_is_applied_witness:
  "Apply plain_box demo_yaml Some demo_outside demo_kernels demo_test (\<lambda>_ _ _ _. (''other'', ''other'', [])) ([], []) 10 ''a'' demo_after
     = store_and_push plain_box Some ([], []) 10 ''a'' (pv_config demo_preview) demo_after"
proof -
  have run: "Service_Preview plain_box demo_yaml Some demo_outside demo_kernels demo_test demo_mints 10 ''a'' demo_pl = (Inr demo_preview, demo_after)"
    by (simp add: demo_preview_def Service_Preview_def then_do_def demo_assembles reading_def Let_def)
  have "kernelFor plain_box demo_outside demo_kernels ''a'' demo_after = kernelFor plain_box demo_outside demo_kernels ''a'' demo_pl"
    by (rule kernelFor_extends [OF assembly_extends [OF plain_ok(1,3) demo_pl_inv demo_assembles]])
  moreover have "rs_bin (kernelFor plain_box demo_outside demo_kernels ''a'' demo_pl) = None" by code_simp
  ultimately show ?thesis
    using preview_is_applied [OF plain_ok(1,3) demo_pl_inv run, of "\<lambda>_ _ _ _. (''other'', ''other'', [])" "([], [])"]
    by (simp add: complaint_def)
qed

text \<open>The preview has written: the subscriber's credential for the line was not there before.\<close>

lemma preview_mints:
  "map c_email (cd_creds (pl_creds demo_pl)) = [''u@a'']
   \<and> map c_email (cd_creds (pl_creds demo_after)) = [''u@a'', ''ann.u@p.a.r1'']"
  by code_simp

end
