(* ===== verification/Enforce.thy ===== *)
theory Enforce
  imports Delivery
begin

text \<open>
  The sweep that keeps the nodes in line with the entitlements: \<open>core/internal/profile/enforce.go\<close>. What a user
  may do follows from the row; \<open>users.active\<close> records what the nodes were last told, and only the difference is
  sent. Whether the session of a node takes a frame is the parameter \<open>send\<close> (absent when no pusher is wired up);
  frames taken are kept in order. The sweep reads the clock more than once; the model reads it once.

  The loop that catches up with missed periods adds 64-bit integers and may in principle not end, so it is a
  partial function, and with it the sweep.

  The theorems: the loop ends with an expiry within one period from now, in step with the old one; a renewed user
  who is enabled is allowed again; what is sent for a user whose access changed is one operation for each credential,
  and the flag is set only when every one was taken; a sweep that finds nothing to do changes and sends nothing; and
  every node that serves a user whose access changed is assembled again.
\<close>

section \<open>Operations on a running kernel\<close>

datatype op_kind = OpAdd | OpRemove

record user_op =
  uo_kind :: op_kind
  uo_inbound_tag :: string
  uo_email :: string
  uo_account :: string

record fleet =
  ft_panel :: panel
  ft_ops :: "(id \<times> user_op) list"

abbreviation ft_access :: "fleet \<Rightarrow> access_db" where
  "ft_access s \<equiv> cd_access (pl_creds (ft_panel s))"

definition on_access :: "(access_db \<Rightarrow> access_db) \<Rightarrow> fleet \<Rightarrow> fleet" where
  "on_access f s =
     s\<lparr>ft_panel := (ft_panel s)\<lparr>pl_creds := (pl_creds (ft_panel s))\<lparr>cd_access := f (ft_access s)\<rparr>\<rparr>\<rparr>"

type_synonym sender = "(id \<Rightarrow> user_op \<Rightarrow> bool) option"

datatype sync_error =
    SyncDb db_error
  | TaglessTemplate string
  | TagRender string render_error
  | NotAnInbound string
  | NoInboundTag string
  | NoClientEntry string
  | EntryRender render_error
  | NotTaken

definition map_err :: "('e \<Rightarrow> 'f) \<Rightarrow> ('e, 'a) result \<Rightarrow> ('f, 'a) result" where
  "map_err f r = (case r of Inl e \<Rightarrow> Inl (f e) | Inr x \<Rightarrow> Inr x)"

abbreviation sync_db :: "(db_error, 'a) result \<Rightarrow> (sync_error, 'a) result" where
  "sync_db \<equiv> map_err SyncDb"

definition InboundTagFor :: "box \<Rightarrow> id \<Rightarrow> id \<Rightarrow> panel \<Rightarrow> (sync_error, string) result" where
  "InboundTagFor b profileID nodeID p =
     bind_result (sync_db (GetProfile profileID (pl_tmpl p))) (\<lambda>pf.
       if pf_inbound_template pf = [] then Inl (TaglessTemplate (pf_name pf))
       else
         bind_result (sync_db (contextFor b profileID nodeID (pl_nodes p) (pl_tmpl p))) (\<lambda>ctx.
         bind_result (map_err (TagRender (pf_name pf)) (Render ctx (pf_inbound_template pf))) (\<lambda>rendered.
           case Option.bind (json_parse rendered) (str_field ''tag'' []) of
             None \<Rightarrow> Inl (NotAnInbound (pf_name pf))
           | Some tag \<Rightarrow> if tag = [] then Inl (NoInboundTag (pf_name pf)) else Inr tag)))"

text \<open>The operation for one credential.\<close>

definition user_op_for :: "box \<Rightarrow> credential \<Rightarrow> bool \<Rightarrow> panel \<Rightarrow> (sync_error, user_op) result" where
  "user_op_for b c allow p =
     bind_result (InboundTagFor b (c_profile_id c) (c_node_id c) p) (\<lambda>tag.
       if \<not> allow then Inr \<lparr>uo_kind = OpRemove, uo_inbound_tag = tag, uo_email = c_email c, uo_account = []\<rparr>
       else
         bind_result (sync_db (GetProfile (c_profile_id c) (pl_tmpl p))) (\<lambda>pf.
           if pf_client_entry pf = [] then Inl (NoClientEntry (pf_name pf))
           else
             bind_result (sync_db (contextFor b (c_profile_id c) (c_node_id c) (pl_nodes p) (pl_tmpl p))) (\<lambda>ctx.
             bind_result (map_err EntryRender (Render (With ctx (CredentialVars c)) (pf_client_entry pf))) (\<lambda>entry.
               Inr \<lparr>uo_kind = OpAdd, uo_inbound_tag = tag, uo_email = c_email c, uo_account = entry\<rparr>))))"

definition pushUserOp ::
  "box \<Rightarrow> (id \<Rightarrow> user_op \<Rightarrow> bool) \<Rightarrow> credential \<Rightarrow> bool \<Rightarrow> fleet \<Rightarrow> sync_error option \<times> fleet" where
  "pushUserOp b send c allow s =
     (case user_op_for b c allow (ft_panel s) of
        Inl e \<Rightarrow> (Some e, s)
      | Inr op \<Rightarrow>
          if send (c_node_id c) op then (None, s\<lparr>ft_ops := ft_ops s @ [(c_node_id c, op)]\<rparr>)
          else (Some NotTaken, s))"

fun push_all ::
  "box \<Rightarrow> (id \<Rightarrow> user_op \<Rightarrow> bool) \<Rightarrow> bool \<Rightarrow> credential list \<Rightarrow> fleet \<Rightarrow> bool \<times> fleet" where
  "push_all b send allow [] s = (True, s)"
| "push_all b send allow (c # cs) s =
     (case pushUserOp b send c allow s of
        (e, s') \<Rightarrow> (case push_all b send allow cs s' of (ok, s'') \<Rightarrow> (e = None \<and> ok, s'')))"

definition SyncUser :: "box \<Rightarrow> sender \<Rightarrow> int \<Rightarrow> id \<Rightarrow> fleet \<Rightarrow> (sync_error, bool) result \<times> fleet" where
  "SyncUser b ops now uid s =
     (case ops of
        None \<Rightarrow> (Inr False, s)
      | Some send \<Rightarrow>
          (case user_row (ft_access s) uid of
             None \<Rightarrow> (Inl (SyncDb ErrNoRows), s)
           | Some u \<Rightarrow>
               (let want = Allowed u now in
                if want = u_active u then (Inr False, s)
                else
                  (case UserCredentials b uid (pl_creds (ft_panel s)) of
                     Inl e \<Rightarrow> (Inl (SyncDb e), s)
                   | Inr creds \<Rightarrow>
                       if creds = [] then (Inr False, on_access (SetUserActive uid want now) s)
                       else
                         (case push_all b send want creds s of
                            (ok, s') \<Rightarrow> (Inr True, if ok then on_access (SetUserActive uid want now) s' else s'))))))"

fun remove_each :: "box \<Rightarrow> (id \<Rightarrow> user_op \<Rightarrow> bool) \<Rightarrow> credential list \<Rightarrow> fleet \<Rightarrow> fleet" where
  "remove_each b send [] s = s"
| "remove_each b send (c # cs) s =
     (case InboundTagFor b (c_profile_id c) (c_node_id c) (ft_panel s) of
        Inl e \<Rightarrow> remove_each b send cs s
      | Inr tag \<Rightarrow>
          (let op = \<lparr>uo_kind = OpRemove, uo_inbound_tag = tag, uo_email = c_email c, uo_account = []\<rparr>
           in remove_each b send cs
                (if send (c_node_id c) op then s\<lparr>ft_ops := ft_ops s @ [(c_node_id c, op)]\<rparr> else s)))"

definition RemoveUserFromProfile :: "box \<Rightarrow> sender \<Rightarrow> id \<Rightarrow> id \<Rightarrow> fleet \<Rightarrow> (sync_error, unit) result \<times> fleet" where
  "RemoveUserFromProfile b ops uid profileID s =
     (case ops of
        None \<Rightarrow> (Inr (), s)
      | Some send \<Rightarrow>
          (case UserCredentials b uid (pl_creds (ft_panel s)) of
             Inl e \<Rightarrow> (Inl (SyncDb e), s)
           | Inr creds \<Rightarrow> (Inr (), remove_each b send (filter (\<lambda>c. c_profile_id c = profileID) creds) s)))"

definition NodesForUser :: "box \<Rightarrow> id \<Rightarrow> panel \<Rightarrow> (db_error, id list) result" where
  "NodesForUser b uid p =
     bind_result (UserCredentials b uid (pl_creds p)) (\<lambda>creds. Inr (distinct_from {} (map c_node_id creds)))"

definition NodesForUserProfile :: "box \<Rightarrow> id \<Rightarrow> id \<Rightarrow> panel \<Rightarrow> (db_error, id list) result" where
  "NodesForUserProfile b uid profileID p =
     bind_result (UserCredentials b uid (pl_creds p)) (\<lambda>creds.
       Inr (distinct_from {} (map c_node_id (filter (\<lambda>c. c_profile_id c = profileID) creds))))"

section \<open>Renewal\<close>

partial_function (option) catch_up :: "int \<Rightarrow> int \<Rightarrow> int \<Rightarrow> int option" where
  "catch_up now period nxt = (if nxt \<le> now then catch_up now period (wrap64 (nxt + period)) else Some nxt)"

definition due :: "user \<Rightarrow> int \<Rightarrow> bool" where
  "due u now \<longleftrightarrow> \<not> (u_renew_period u \<le> 0 \<or> u_expires_at u = 0 \<or> now < u_expires_at u)"

definition renewIfDue :: "user \<Rightarrow> int \<Rightarrow> fleet \<Rightarrow> (bool \<times> fleet) option" where
  "renewIfDue u now s =
     (if \<not> due u now then Some (False, s)
      else map_option (\<lambda>nxt. (True, on_access (RenewUser (u_id u) nxt now) s)) (catch_up now (u_renew_period u) (u_expires_at u)))"

section \<open>The sweep\<close>

text \<open>One user: who changed, and the nodes whose stored configuration no longer matches.\<close>

definition sweep_user :: "box \<Rightarrow> sender \<Rightarrow> int \<Rightarrow> user \<Rightarrow> fleet \<Rightarrow> (nat \<times> id list \<times> fleet) option" where
  "sweep_user b ops now u s =
     map_option (\<lambda>(renewed, s).
       case SyncUser b ops now (u_id u) s of
         (Inr True, s) \<Rightarrow> (1, (case NodesForUser b (u_id u) (ft_panel s) of Inl e \<Rightarrow> [] | Inr nodes \<Rightarrow> nodes), s)
       | (_, s) \<Rightarrow> (0, [], s)) (renewIfDue u now s)"

fun sweep :: "box \<Rightarrow> sender \<Rightarrow> int \<Rightarrow> user list \<Rightarrow> fleet \<Rightarrow> (nat \<times> id list \<times> fleet) option" where
  "sweep b ops now [] s = Some (0, [], s)"
| "sweep b ops now (u # us) s =
     Option.bind (sweep_user b ops now u s) (\<lambda>(n, dirty, s).
       map_option (\<lambda>(n', dirty', s). (n + n', dirty @ dirty', s)) (sweep b ops now us s))"

definition ApplyUserNodes :: "(id \<Rightarrow> int act) \<Rightarrow> id list \<Rightarrow> panel \<Rightarrow> (id \<times> (panel_error, int) result) list \<times> panel" where
  "ApplyUserNodes app nodeIDs p = apply_all app (distinct_from {} nodeIDs) p"

definition EnforceQuotas ::
  "box \<Rightarrow> sender \<Rightarrow> (id \<Rightarrow> int act) \<Rightarrow> int \<Rightarrow> fleet \<Rightarrow> (nat \<times> (id \<times> (panel_error, int) result) list \<times> fleet) option" where
  "EnforceQuotas b ops app now s =
     map_option (\<lambda>(changed, dirty, s).
       case ApplyUserNodes app dirty (ft_panel s) of (results, p) \<Rightarrow> (changed, results, s\<lparr>ft_panel := p\<rparr>))
       (sweep b ops now (ListUsers (ft_access s)) s)"

section \<open>Lemmas\<close>

declare catch_up.simps [code]

lemma on_access_parts [simp]:
  "ft_access (on_access f s) = f (ft_access s)" "ft_ops (on_access f s) = ft_ops s"
  "cd_creds (pl_creds (ft_panel (on_access f s))) = cd_creds (pl_creds (ft_panel s))"
  by (simp_all add: on_access_def)

lemma map_err_Inr [simp]: "map_err f r = Inr x \<longleftrightarrow> r = Inr x"
  by (cases r) (simp_all add: map_err_def)

lemma UserCredentials_cong: "cd_creds db' = cd_creds db \<Longrightarrow> UserCredentials b u db' = UserCredentials b u db"
  by (simp add: UserCredentials_def)

lemma catch_up_lands:
  assumes "0 < period" and "now + period \<le> max_int64"
  shows "min_int64 \<le> nxt \<Longrightarrow> nxt \<le> now \<Longrightarrow>
    \<exists>y. catch_up now period nxt = Some y \<and> now < y \<and> y \<le> now + period \<and> period dvd (y - nxt)"
proof (induction "nat (now - nxt)" arbitrary: nxt rule: less_induct)
  case less
  have w: "wrap64 (nxt + period) = nxt + period"
    using assms less.prems by (intro wrap64_id) simp_all
  show ?case
  proof (cases "nxt + period \<le> now")
    case True
    have "nat (now - (nxt + period)) < nat (now - nxt)" "min_int64 \<le> nxt + period" using True assms(1) less.prems by simp_all
    from less.hyps [OF this True] obtain y where y: "catch_up now period (nxt + period) = Some y" "now < y" "y \<le> now + period" "period dvd (y - (nxt + period))"
      by blast
    have "period dvd (y - (nxt + period)) + period" using y(4) by (intro dvd_add) simp_all
    then show ?thesis using y(1-3) less.prems by (subst catch_up.simps) (simp add: w)
  next
    case False
    then have "catch_up now period (nxt + period) = Some (nxt + period)" by (subst catch_up.simps) simp
    then show ?thesis using False less.prems by (subst catch_up.simps) (simp add: w)
  qed
qed

text \<open>What is sent for a list of credentials.\<close>

definition taken :: "box \<Rightarrow> (id \<Rightarrow> user_op \<Rightarrow> bool) \<Rightarrow> bool \<Rightarrow> panel \<Rightarrow> credential \<Rightarrow> user_op option" where
  "taken b send allow p c =
     (case user_op_for b c allow p of Inl e \<Rightarrow> None | Inr op \<Rightarrow> if send (c_node_id c) op then Some op else None)"

lemma pushUserOp_taken:
  "taken b send allow (ft_panel s) c = None \<Longrightarrow> \<exists>e. pushUserOp b send c allow s = (Some e, s)"
  "taken b send allow (ft_panel s) c = Some op \<Longrightarrow> pushUserOp b send c allow s = (None, s\<lparr>ft_ops := ft_ops s @ [(c_node_id c, op)]\<rparr>)"
  by (cases "user_op_for b c allow (ft_panel s)"; auto simp: pushUserOp_def taken_def split: if_split_asm)+

lemma push_all_exact:
  "push_all b send allow cs s =
     (list_all (\<lambda>c. taken b send allow (ft_panel s) c \<noteq> None) cs,
      s\<lparr>ft_ops := ft_ops s @ List.map_filter (\<lambda>c. map_option (Pair (c_node_id c)) (taken b send allow (ft_panel s) c)) cs\<rparr>)"
proof (induction cs arbitrary: s)
  case (Cons c cs)
  show ?case
  proof (cases "taken b send allow (ft_panel s) c")
    case None
    then obtain e where "pushUserOp b send c allow s = (Some e, s)" using pushUserOp_taken(1) by blast
    then show ?thesis by (simp add: Cons None map_filter_simps)
  next
    case (Some op)
    then show ?thesis by (simp add: Cons pushUserOp_taken(2) map_filter_simps)
  qed
qed (simp add: map_filter_simps)

lemma op_of:
  assumes "taken b send allow p c = Some op"
  shows "uo_email op = c_email c" "uo_kind op = (if allow then OpAdd else OpRemove)"
    "InboundTagFor b (c_profile_id c) (c_node_id c) p = Inr (uo_inbound_tag op)"
proof -
  have "user_op_for b c allow p = Inr op" using assms by (auto simp: taken_def split: sum.split_asm if_split_asm)
  then show "uo_email op = c_email c" "uo_kind op = (if allow then OpAdd else OpRemove)"
    "InboundTagFor b (c_profile_id c) (c_node_id c) p = Inr (uo_inbound_tag op)"
    by (auto simp: user_op_for_def split: if_split_asm)
qed

section \<open>Properties\<close>

text \<open>C40. Renewal ends and lands in the present. As long as the end of the period after the present one fits in 64 bits, a user
  whose period is over is given an expiry after now and at most one period away, a whole number of periods after the
  old one, and a fresh quota; nobody else's row changes; and an enabled user is allowed again.\<close>

theorem renewal_lands:
  assumes "user_row (ft_access s) (u_id u) = Some u" and "due u now"
    and "now + u_renew_period u \<le> max_int64" and "min_int64 \<le> u_expires_at u"
  shows "\<exists>e s'. renewIfDue u now s = Some (True, s') \<and> now < e \<and> e \<le> now + u_renew_period u
    \<and> u_renew_period u dvd (e - u_expires_at u)
    \<and> user_row (ft_access s') (u_id u) = Some (u\<lparr>u_expires_at := e, u_used_bytes := 0, u_updated_at := now\<rparr>)
    \<and> (\<forall>v. v \<noteq> u_id u \<longrightarrow> user_row (ft_access s') v = user_row (ft_access s) v)
    \<and> (u_enabled u \<and> 0 \<le> u_quota_bytes u \<longrightarrow> Allowed (u\<lparr>u_expires_at := e, u_used_bytes := 0, u_updated_at := now\<rparr>) now)"
proof -
  have d: "0 < u_renew_period u" "u_expires_at u \<le> now" using assms(2) by (auto simp: due_def)
  obtain e where e: "catch_up now (u_renew_period u) (u_expires_at u) = Some e" "now < e" "e \<le> now + u_renew_period u"
    "u_renew_period u dvd (e - u_expires_at u)"
    using catch_up_lands [OF d(1) assms(3,4) d(2)] by blast
  let ?s = "on_access (RenewUser (u_id u) e now) s"
  have row: "user_row (ft_access ?s) v = map_option (\<lambda>r. if u_id r = u_id u then r\<lparr>u_expires_at := e, u_used_bytes := 0, u_updated_at := now\<rparr> else r)
      (user_row (ft_access s) v)" for v
    by (simp add: RenewUser_def user_row_update)
  have "user_row (ft_access ?s) v = user_row (ft_access s) v" if "v \<noteq> u_id u" for v
    using that user_row_id [of "ft_access s" v] unfolding row by (cases "user_row (ft_access s) v") auto
  moreover have "renewIfDue u now s = Some (True, ?s)" by (simp add: renewIfDue_def assms(2) e(1))
  moreover have "user_row (ft_access ?s) (u_id u) = Some (u\<lparr>u_expires_at := e, u_used_bytes := 0, u_updated_at := now\<rparr>)"
    unfolding row assms(1) by simp
  moreover have "Allowed (u\<lparr>u_expires_at := e, u_used_bytes := 0, u_updated_at := now\<rparr>) now" if "u_enabled u" "0 \<le> u_quota_bytes u"
    using that e(2) by (auto simp: Allowed_def Reason_def)
  ultimately show ?thesis using e(2-4) by blast
qed

text \<open>What a change of access sends: one operation for each credential whose node takes it, naming the credential and
  the inbound the profile renders to there. The flag follows the entitlement once every operation was taken, and
  stays as it was when one was not, so that the next sweep tries again.\<close>

theorem sync_user_exact:
  assumes "user_row (ft_access s) uid = Some u" and "Allowed u now \<noteq> u_active u"
    and "UserCredentials b uid (pl_creds (ft_panel s)) = Inr creds" and "creds \<noteq> []"
    and "SyncUser b (Some send) now uid s = (r, s')"
  shows "r = Inr True
    \<and> ft_ops s' = ft_ops s @ List.map_filter (\<lambda>c. map_option (Pair (c_node_id c)) (taken b send (Allowed u now) (ft_panel s) c)) creds
    \<and> (\<forall>c op. taken b send (Allowed u now) (ft_panel s) c = Some op \<longrightarrow>
         uo_email op = c_email c \<and> uo_kind op = (if Allowed u now then OpAdd else OpRemove)
         \<and> InboundTagFor b (c_profile_id c) (c_node_id c) (ft_panel s) = Inr (uo_inbound_tag op))
    \<and> (if list_all (\<lambda>c. taken b send (Allowed u now) (ft_panel s) c \<noteq> None) creds
       then user_row (ft_access s') uid = Some (u\<lparr>u_active := Allowed u now, u_updated_at := now\<rparr>)
       else ft_panel s' = ft_panel s)"
proof -
  have run: "SyncUser b (Some send) now uid s =
      (case push_all b send (Allowed u now) creds s of
         (ok, s') \<Rightarrow> (Inr True, if ok then on_access (SetUserActive uid (Allowed u now) now) s' else s'))"
    by (simp add: SyncUser_def Let_def assms(1-4))
  have ops: "\<forall>c op. taken b send (Allowed u now) (ft_panel s) c = Some op \<longrightarrow>
         uo_email op = c_email c \<and> uo_kind op = (if Allowed u now then OpAdd else OpRemove)
         \<and> InboundTagFor b (c_profile_id c) (c_node_id c) (ft_panel s) = Inr (uo_inbound_tag op)"
    using op_of by metis
  have "u_id u = uid" using user_row_id [OF assms(1)] .
  then have row: "user_row (SetUserActive uid (Allowed u now) now (ft_access s)) uid = Some (u\<lparr>u_active := Allowed u now, u_updated_at := now\<rparr>)"
    using assms(1) by (simp add: SetUserActive_def user_row_update)
  show ?thesis
    using assms(5) ops row unfolding run push_all_exact by (auto simp: on_access_def)
qed

lemma SyncUser_effect:
  assumes "SyncUser b ops now uid s = (r, s')"
  shows "cd_creds (pl_creds (ft_panel s')) = cd_creds (pl_creds (ft_panel s)) \<and>
    (\<exists>new. ft_ops s' = ft_ops s @ new \<and>
      (new = [] \<or> r = Inr True \<and> (\<exists>creds. UserCredentials b uid (pl_creds (ft_panel s)) = Inr creds \<and> fst ` set new \<subseteq> c_node_id ` set creds)))"
proof -
  have idle: ?thesis if "s' = s \<or> (\<exists>f. s' = on_access f s)"
    using that by (intro conjI exI [of _ "[]"]) (auto simp: on_access_def)
  show ?thesis
  proof (cases "\<exists>send u creds. ops = Some send \<and> user_row (ft_access s) uid = Some u \<and> Allowed u now \<noteq> u_active u
      \<and> UserCredentials b uid (pl_creds (ft_panel s)) = Inr creds \<and> creds \<noteq> []")
    case False
    then have "s' = s \<or> (\<exists>f. s' = on_access f s)"
      using assms by (auto simp: SyncUser_def Let_def split: option.split_asm sum.split_asm if_split_asm)
    then show ?thesis by (rule idle)
  next
    case True
    then obtain send u creds where c: "ops = Some send" "user_row (ft_access s) uid = Some u" "Allowed u now \<noteq> u_active u"
      "UserCredentials b uid (pl_creds (ft_panel s)) = Inr creds" "creds \<noteq> []" by blast
    let ?new = "List.map_filter (\<lambda>c. map_option (Pair (c_node_id c)) (taken b send (Allowed u now) (ft_panel s) c)) creds"
    have "fst ` set ?new \<subseteq> c_node_id ` set creds" by (auto simp: set_map_filter)
    moreover have "(r, s') = (Inr True, if list_all (\<lambda>c. taken b send (Allowed u now) (ft_panel s) c \<noteq> None) creds
        then on_access (SetUserActive uid (Allowed u now) now) (s\<lparr>ft_ops := ft_ops s @ ?new\<rparr>) else s\<lparr>ft_ops := ft_ops s @ ?new\<rparr>)"
      unfolding assms [symmetric] c(1) by (simp add: SyncUser_def Let_def c(2-5) push_all_exact)
    ultimately show ?thesis using c(4) by (intro conjI exI [of _ ?new]) (auto simp: on_access_def)
  qed
qed

lemma sweep_user_effect:
  assumes "sweep_user b ops now u s = Some (n, dirty, s')"
  shows "cd_creds (pl_creds (ft_panel s')) = cd_creds (pl_creds (ft_panel s)) \<and> (\<exists>new. ft_ops s' = ft_ops s @ new \<and> fst ` set new \<subseteq> set dirty)"
proof -
  obtain renewed s1 where s1: "renewIfDue u now s = Some (renewed, s1)"
    using assms by (cases "renewIfDue u now s") (auto simp: sweep_user_def)
  have same: "cd_creds (pl_creds (ft_panel s1)) = cd_creds (pl_creds (ft_panel s))" "ft_ops s1 = ft_ops s"
    using s1 by (auto simp: renewIfDue_def split: if_split_asm)
  obtain r s2 where r: "SyncUser b ops now (u_id u) s1 = (r, s2)" by fastforce
  note eff = SyncUser_effect [OF r]
  have s': "s' = s2" using assms by (auto simp: sweep_user_def s1 r split: sum.split_asm bool.split_asm)
  obtain new where new: "ft_ops s2 = ft_ops s1 @ new" and
    why: "new = [] \<or> r = Inr True \<and> (\<exists>creds. UserCredentials b (u_id u) (pl_creds (ft_panel s1)) = Inr creds \<and> fst ` set new \<subseteq> c_node_id ` set creds)"
    using eff by blast
  have "fst ` set new \<subseteq> set dirty"
  proof (cases "new = []")
    case False
    then obtain creds where c: "r = Inr True" "UserCredentials b (u_id u) (pl_creds (ft_panel s1)) = Inr creds" "fst ` set new \<subseteq> c_node_id ` set creds"
      using why by blast
    have "UserCredentials b (u_id u) (pl_creds (ft_panel s2)) = Inr creds"
      using c(2) eff UserCredentials_cong by metis
    then have "dirty = distinct_from {} (map c_node_id creds)"
      using assms by (simp add: sweep_user_def s1 r c(1) NodesForUser_def)
    then show ?thesis using c(3) by (simp add: set_distinct_from)
  qed simp
  then show ?thesis using new same eff s' by auto
qed

lemma sweep_effect:
  "sweep b ops now us s = Some (n, dirty, s') \<Longrightarrow> \<exists>new. ft_ops s' = ft_ops s @ new \<and> fst ` set new \<subseteq> set dirty"
proof (induction us arbitrary: s n dirty)
  case (Cons u us)
  obtain n1 d1 s1 n2 d2 where one: "sweep_user b ops now u s = Some (n1, d1, s1)" and two: "sweep b ops now us s1 = Some (n2, d2, s')"
    and d: "dirty = d1 @ d2"
    using Cons.prems by (auto simp: Option.bind_eq_Some_conv)
  obtain a where a: "ft_ops s1 = ft_ops s @ a" "fst ` set a \<subseteq> set d1" using sweep_user_effect [OF one] by blast
  obtain c where c: "ft_ops s' = ft_ops s1 @ c" "fst ` set c \<subseteq> set d2" using Cons.IH [OF two] by blast
  show ?case using a c d by (intro exI [of _ "a @ c"]) auto
qed simp


text \<open>A sweep over a fleet that is as it should be does nothing: when nobody is due and every flag matches the
  entitlement, no row changes, nothing is sent and no node is assembled.\<close>

theorem sweep_idle:
  assumes "distinct (user_ids (ft_access s))" and "list_all (\<lambda>u. \<not> due u now \<and> u_active u = Allowed u now) (ad_users (ft_access s))"
  shows "EnforceQuotas b ops app now s = Some (0, [], s)"
proof -
  have one: "sweep_user b ops now u s = Some (0, [], s)" if "u \<in> set (ad_users (ft_access s))" for u
  proof -
    have "user_row (ft_access s) (u_id u) = Some u" by (rule user_row_of [OF assms(1) that])
    then have "SyncUser b ops now (u_id u) s = (Inr False, s)"
      using assms(2) that by (auto simp: SyncUser_def list_all_iff split: option.split)
    then show ?thesis using assms(2) that by (auto simp: sweep_user_def renewIfDue_def list_all_iff)
  qed
  have "sweep b ops now us s = Some (0, [], s)" if "set us \<subseteq> set (ad_users (ft_access s))" for us
    using that one by (induction us) auto
  then have "sweep b ops now (ListUsers (ft_access s)) s = Some (0, [], s)" by (simp add: ListUsers_def)
  then show ?thesis by (simp add: EnforceQuotas_def ApplyUserNodes_def)
qed

text \<open>While a node does not take operations, every sweep does the work again: the flag stays behind, the user counts as
  changed, and all nodes of the user are assembled and stored once more.\<close>

theorem offline_node_reapplies:
  assumes "user_row (ft_access s) (u_id u) = Some u" and "\<not> due u now" and "Allowed u now \<noteq> u_active u"
    and "UserCredentials b (u_id u) (pl_creds (ft_panel s)) = Inr creds"
    and "c \<in> set creds" and "\<forall>op. \<not> send (c_node_id c) op"
  shows "\<exists>nodes s'. sweep_user b (Some send) now u s = Some (1, nodes, s') \<and> ft_panel s' = ft_panel s
    \<and> set nodes = c_node_id ` set creds"
proof -
  have "taken b send (Allowed u now) (ft_panel s) c = None" using assms(6) by (simp add: taken_def split: sum.split)
  then have "\<not> list_all (\<lambda>c. taken b send (Allowed u now) (ft_panel s) c \<noteq> None) creds"
    using assms(5) by (auto simp: list_all_iff)
  then have "\<exists>new. SyncUser b (Some send) now (u_id u) s = (Inr True, s\<lparr>ft_ops := new\<rparr>)"
    using assms(1,3-5) by (auto simp: SyncUser_def Let_def push_all_exact)
  then show ?thesis using assms(2,4) by (auto simp: sweep_user_def renewIfDue_def NodesForUser_def set_distinct_from)
qed

section \<open>Sweeps of the small fleet\<close>

definition demo_fleet_of :: "user \<Rightarrow> fleet" where
  "demo_fleet_of u = on_access (\<lambda>a. a\<lparr>ad_users := [u]\<rparr>) \<lparr>ft_panel = demo_pl, ft_ops = []\<rparr>"

definition demo_member :: user where
  "demo_member = demo_user\<lparr>u_group_id := None\<rparr>"

definition demo_lapsed :: user where
  "demo_lapsed = demo_member\<lparr>u_expires_at := 50, u_renew_period := 30\<rparr>"

theorem renewal_lands_witness:
  "\<exists>e s'. renewIfDue demo_lapsed 100 (demo_fleet_of demo_lapsed) = Some (True, s') \<and> 100 < e \<and> e \<le> (130 :: int) \<and> 30 dvd (e - 50)"
proof -
  have "user_row (ft_access (demo_fleet_of demo_lapsed)) (u_id demo_lapsed) = Some demo_lapsed" "due demo_lapsed 100"
    "100 + u_renew_period demo_lapsed \<le> max_int64" "min_int64 \<le> u_expires_at demo_lapsed" by code_simp+
  moreover have "u_renew_period demo_lapsed = 30" "u_expires_at demo_lapsed = 50" by code_simp+
  ultimately show ?thesis using renewal_lands [of "demo_fleet_of demo_lapsed" demo_lapsed 100] by auto
qed

abbreviation takes_all :: "id \<Rightarrow> user_op \<Rightarrow> bool" where
  "takes_all \<equiv> \<lambda>_ _. True"

abbreviation takes_none :: "id \<Rightarrow> user_op \<Rightarrow> bool" where
  "takes_none \<equiv> \<lambda>_ _. False"

lemma demo_member_facts:
  "user_row (ft_access (demo_fleet_of demo_member)) ''u'' = Some demo_member" "Allowed demo_member 10 \<noteq> u_active demo_member"
  "UserCredentials plain_box ''u'' (pl_creds (ft_panel (demo_fleet_of demo_member))) = Inr [demo_cred\<lparr>c_secret := ''s''\<rparr>]"
  "u_id demo_member = ''u''" "\<not> due demo_member 10"
  by code_simp+

theorem sync_user_exact_witness:
  "map (\<lambda>(n, op). (n, uo_kind op, uo_email op, uo_inbound_tag op)) (ft_ops (snd (SyncUser plain_box (Some takes_all) 10 ''u'' (demo_fleet_of demo_member))))
     = [(''a'', OpAdd, ''u@a'', ''in'')]"
proof -
  have "map (\<lambda>(n, op). (n, uo_kind op, uo_email op, uo_inbound_tag op))
      (List.map_filter (\<lambda>c. map_option (Pair (c_node_id c)) (taken plain_box takes_all (Allowed demo_member 10) (ft_panel (demo_fleet_of demo_member)) c))
         [demo_cred\<lparr>c_secret := ''s''\<rparr>]) = [(''a'', OpAdd, ''u@a'', ''in'')]"
    by code_simp
  moreover have "ft_ops (demo_fleet_of demo_member) = []" by code_simp
  ultimately show ?thesis
    using sync_user_exact [OF demo_member_facts(1-3) _ prod.collapse [symmetric], of takes_all] by simp
qed


theorem sweep_idle_witness:
  "EnforceQuotas plain_box (Some takes_all)
     (\<lambda>i. Apply plain_box demo_yaml Some demo_outside demo_kernels demo_test demo_mints ([], []) 10 i) 10
     (demo_fleet_of (demo_member\<lparr>u_active := True\<rparr>))
   = Some (0, [], demo_fleet_of (demo_member\<lparr>u_active := True\<rparr>))"
proof (rule sweep_idle)
  show "distinct (user_ids (ft_access (demo_fleet_of (demo_member\<lparr>u_active := True\<rparr>))))"
    "list_all (\<lambda>u. \<not> due u 10 \<and> u_active u = Allowed u 10) (ad_users (ft_access (demo_fleet_of (demo_member\<lparr>u_active := True\<rparr>))))"
    by code_simp+
qed

theorem offline_node_reapplies_witness:
  "\<exists>nodes s'. sweep_user plain_box (Some takes_none) 10 demo_member (demo_fleet_of demo_member) = Some (1, nodes, s')
     \<and> ft_panel s' = ft_panel (demo_fleet_of demo_member) \<and> set nodes = {''a''}"
proof -
  have "c_node_id (demo_cred\<lparr>c_secret := ''s''\<rparr>) = ''a''" by code_simp
  then show ?thesis
    using offline_node_reapplies [of "demo_fleet_of demo_member" demo_member 10 plain_box "[demo_cred\<lparr>c_secret := ''s''\<rparr>]" "demo_cred\<lparr>c_secret := ''s''\<rparr>" takes_none]
    by (simp add: demo_member_facts)
qed

end
