(* ===== verification/Portal.thy ===== *)
theory Portal
  imports Access Login
begin

text \<open>
  The subscribers' side: login identities, sessions and one-time links (\<open>core/internal/store/portal.go\<close>) and the
  handlers over them (\<open>core/internal/api/portal.go\<close>, \<open>portal_auth.go\<close>). Requests are decoded bodies and the handlers
  return a reply with the tables they leave, as in \<open>Login\<close>; the address parser of \<open>net/mail\<close> is part of the
  environment. Letters outside ASCII in an address keep their case here.

  The theorems: every session of a run was earned by giving the password of an account that was switched on, or by
  spending a link an operator issued for that subscriber within seven days; a subscriber who is switched off is locked out
  until an operator switches them on; no request moves the address of an account; and who claims an account signs in
  with what they chose, once for each link.
\<close>

section \<open>Tables\<close>

record user_account =
  ua_user_id :: id
  ua_email :: string
  ua_password_hash :: string
  ua_email_verified :: bool
  ua_disabled :: bool
  ua_created_at :: int
  ua_updated_at :: int
  ua_last_login :: int

record portal_session =
  ps_token_hash :: string
  ps_user_id :: id
  ps_created_at :: int
  ps_expires_at :: int

record portal_challenge =
  pc_token_hash :: string
  pc_user_id :: id
  pc_purpose :: string
  pc_data :: string
  pc_attempts :: nat
  pc_created_at :: int
  pc_expires_at :: int

record portal_db =
  po_access :: access_db
  po_accounts :: "user_account list"
  po_sessions :: "portal_session list"
  po_challenges :: "portal_challenge list"
  po_audit :: "audit_entry list"

definition PortalSessionTTL :: duration where "PortalSessionTTL = 30 * 24 * hour"
definition PortalClaimTTL :: duration where "PortalClaimTTL = 7 * 24 * hour"
definition MaxPortalAttempts :: nat where "MaxPortalAttempts = 5"
definition PortalPurposeClaim :: string where "PortalPurposeClaim = ''claim''"

section \<open>Store\<close>

definition NormalizeEmail :: "string \<Rightarrow> string" where
  "NormalizeEmail email = to_lower (trim_space email)"

definition GetUser :: "id \<Rightarrow> portal_db \<Rightarrow> (db_error, user) result" where
  "GetUser i db = found (user_row (po_access db) i)"

definition CreateUserAccount ::
  "time \<Rightarrow> id \<Rightarrow> string \<Rightarrow> string \<Rightarrow> portal_db \<Rightarrow> (db_error, user_account \<times> portal_db) result" where
  "CreateUserAccount now userID email passwordHash db =
     (let a = \<lparr>ua_user_id = userID, ua_email = NormalizeEmail email, ua_password_hash = passwordHash,
               ua_email_verified = False, ua_disabled = False, ua_created_at = to_unix now, ua_updated_at = to_unix now,
               ua_last_login = 0\<rparr>
      in if userID \<in> set (map ua_user_id (po_accounts db)) \<or> ua_email a \<in> set (map ua_email (po_accounts db))
         then Inl UniqueViolation
         else if userID \<notin> set (user_ids (po_access db)) then Inl ForeignKey
         else Inr (a, db\<lparr>po_accounts := po_accounts db @ [a]\<rparr>))"

definition UserAccountByEmail :: "string \<Rightarrow> portal_db \<Rightarrow> (db_error, user_account) result" where
  "UserAccountByEmail email db = found (sql_row (\<lambda>a. ua_email a = NormalizeEmail email) (po_accounts db))"

definition UserAccount :: "id \<Rightarrow> portal_db \<Rightarrow> (db_error, user_account) result" where
  "UserAccount userID db = found (sql_row (\<lambda>a. ua_user_id a = userID) (po_accounts db))"

definition update_account :: "id \<Rightarrow> (user_account \<Rightarrow> user_account) \<Rightarrow> portal_db \<Rightarrow> portal_db" where
  "update_account userID f db = db\<lparr>po_accounts := sql_update (\<lambda>a. ua_user_id a = userID) f (po_accounts db)\<rparr>"

definition DeletePortalSessionsFor :: "id \<Rightarrow> portal_db \<Rightarrow> portal_db" where
  "DeletePortalSessionsFor userID db = db\<lparr>po_sessions := sql_delete (\<lambda>s. ps_user_id s = userID) (po_sessions db)\<rparr>"

definition SetUserAccountPassword :: "time \<Rightarrow> id \<Rightarrow> string \<Rightarrow> portal_db \<Rightarrow> (db_error, portal_db) result" where
  "SetUserAccountPassword now userID passwordHash db =
     (if rows_affected (\<lambda>a. ua_user_id a = userID) (po_accounts db) = 0 then Inl ErrNoRows
      else Inr (DeletePortalSessionsFor userID
             (update_account userID (\<lambda>a. a\<lparr>ua_password_hash := passwordHash, ua_updated_at := to_unix now\<rparr>) db)))"

definition SetUserAccountDisabled :: "time \<Rightarrow> id \<Rightarrow> bool \<Rightarrow> portal_db \<Rightarrow> portal_db" where
  "SetUserAccountDisabled now userID disabled db =
     (let db = update_account userID (\<lambda>a. a\<lparr>ua_disabled := disabled, ua_updated_at := to_unix now\<rparr>) db
      in if disabled then DeletePortalSessionsFor userID db else db)"

definition TouchUserAccountLogin :: "time \<Rightarrow> id \<Rightarrow> portal_db \<Rightarrow> portal_db" where
  "TouchUserAccountLogin now userID = update_account userID (\<lambda>a. a\<lparr>ua_last_login := to_unix now\<rparr>)"

definition CreatePortalSession ::
  "time \<Rightarrow> string \<Rightarrow> id \<Rightarrow> duration \<Rightarrow> portal_db \<Rightarrow> (db_error, portal_db) result" where
  "CreatePortalSession now tokenHash userID ttl db =
     (if tokenHash \<in> set (map ps_token_hash (po_sessions db)) then Inl UniqueViolation
      else if userID \<notin> set (user_ids (po_access db)) then Inl ForeignKey
      else Inr (db\<lparr>po_sessions := po_sessions db @
             [\<lparr>ps_token_hash = tokenHash, ps_user_id = userID, ps_created_at = to_unix now,
               ps_expires_at = to_unix (now + ttl)\<rparr>]\<rparr>))"

definition live_session :: "time \<Rightarrow> string \<Rightarrow> portal_db \<Rightarrow> portal_session \<Rightarrow> bool" where
  "live_session now tokenHash db s \<longleftrightarrow> ps_token_hash s = tokenHash \<and> ps_expires_at s > to_unix now
     \<and> list_ex (\<lambda>a. ua_user_id a = ps_user_id s \<and> \<not> ua_disabled a) (po_accounts db)"

definition UserByPortalSession :: "time \<Rightarrow> string \<Rightarrow> portal_db \<Rightarrow> (db_error, user) result" where
  "UserByPortalSession now tokenHash db =
     (case sql_row (live_session now tokenHash db) (po_sessions db) of
        None \<Rightarrow> Inl ErrNoRows
      | Some s \<Rightarrow> GetUser (ps_user_id s) db)"

definition DeletePortalSession :: "string \<Rightarrow> portal_db \<Rightarrow> portal_db" where
  "DeletePortalSession tokenHash db = db\<lparr>po_sessions := sql_delete (\<lambda>s. ps_token_hash s = tokenHash) (po_sessions db)\<rparr>"

definition PrunePortalSessions :: "time \<Rightarrow> portal_db \<Rightarrow> nat \<times> portal_db" where
  "PrunePortalSessions now db =
     (let old = (\<lambda>s. ps_expires_at s \<le> to_unix now)
      in (rows_affected old (po_sessions db), db\<lparr>po_sessions := sql_delete old (po_sessions db)\<rparr>))"

definition CreatePortalChallenge ::
  "time \<Rightarrow> string \<Rightarrow> id \<Rightarrow> string \<Rightarrow> string \<Rightarrow> duration \<Rightarrow> portal_db \<Rightarrow> (db_error, portal_db) result" where
  "CreatePortalChallenge now tokenHash userID purpose data ttl db =
     (let c = \<lparr>pc_token_hash = tokenHash, pc_user_id = userID, pc_purpose = purpose, pc_data = data, pc_attempts = 0,
               pc_created_at = to_unix now, pc_expires_at = to_unix (now + ttl)\<rparr>
      in if userID \<notin> set (user_ids (po_access db)) then Inl ForeignKey
         else if list_ex (\<lambda>r. pc_token_hash r = tokenHash) (po_challenges db)
         then Inr (db\<lparr>po_challenges := sql_update (\<lambda>r. pc_token_hash r = tokenHash) (\<lambda>r. c) (po_challenges db)\<rparr>)
         else Inr (db\<lparr>po_challenges := po_challenges db @ [c]\<rparr>))"

definition GetPortalChallenge :: "time \<Rightarrow> string \<Rightarrow> string \<Rightarrow> portal_db \<Rightarrow> (db_error, portal_challenge) result" where
  "GetPortalChallenge now tokenHash purpose db =
     found (sql_row (\<lambda>c. pc_token_hash c = tokenHash \<and> pc_purpose c = purpose \<and> pc_expires_at c > to_unix now)
       (po_challenges db))"

definition DeletePortalChallenge :: "string \<Rightarrow> portal_db \<Rightarrow> portal_db" where
  "DeletePortalChallenge tokenHash db =
     db\<lparr>po_challenges := sql_delete (\<lambda>c. pc_token_hash c = tokenHash) (po_challenges db)\<rparr>"

definition BumpPortalChallengeAttempts :: "string \<Rightarrow> portal_db \<Rightarrow> (db_error, bool \<times> portal_db) result" where
  "BumpPortalChallengeAttempts tokenHash db =
     (case sql_row (\<lambda>c. pc_token_hash c = tokenHash) (po_challenges db) of
        None \<Rightarrow> Inl ErrNoRows
      | Some c \<Rightarrow> Inr (pc_attempts c + 1 \<ge> MaxPortalAttempts,
          db\<lparr>po_challenges := sql_update (\<lambda>c. pc_token_hash c = tokenHash) (\<lambda>c. c\<lparr>pc_attempts := pc_attempts c + 1\<rparr>)
               (po_challenges db)\<rparr>))"

definition PrunePortalChallenges :: "time \<Rightarrow> portal_db \<Rightarrow> nat \<times> portal_db" where
  "PrunePortalChallenges now db =
     (let old = (\<lambda>c. pc_expires_at c \<le> to_unix now)
      in (rows_affected old (po_challenges db), db\<lparr>po_challenges := sql_delete old (po_challenges db)\<rparr>))"

text \<open>Deleting a subscriber deletes the rows that refer to them.\<close>

definition delete_subscriber :: "id \<Rightarrow> portal_db \<Rightarrow> portal_db" where
  "delete_subscriber i db =
     (case DeleteUser i (po_access db) of
        Inl _ \<Rightarrow> db
      | Inr a \<Rightarrow> db\<lparr>po_access := a, po_accounts := sql_delete (\<lambda>r. ua_user_id r = i) (po_accounts db),
                    po_sessions := sql_delete (\<lambda>r. ps_user_id r = i) (po_sessions db),
                    po_challenges := sql_delete (\<lambda>r. pc_user_id r = i) (po_challenges db)\<rparr>)"

section \<open>Handlers\<close>

definition PortalOff :: string where "PortalOff = ''off''"
definition PortalClosed :: string where "PortalClosed = ''closed''"
definition PortalOpen :: string where "PortalOpen = ''open''"

record portal_config =
  pg_mode :: string
  pg_invite_code :: string
  pg_public_url :: string

definition PortalFromEnv :: "string \<Rightarrow> string \<Rightarrow> string \<Rightarrow> portal_config" where
  "PortalFromEnv mode invite publicURL =
     (let mode = to_lower (trim_space mode)
      in \<lparr>pg_mode = (if mode = PortalClosed \<or> mode = PortalOpen then mode else PortalOff), pg_invite_code = invite,
          pg_public_url = publicURL\<rparr>)"

record portal_env =
  pe_sha256 :: "string \<Rightarrow> bytes"
  pe_kdf :: kdf
  pe_box :: box
  pe_config :: portal_config
  pe_address :: "string \<Rightarrow> string option"

text \<open>The random values of a request: a secret, the identifier of a row and the one a name is made of, a nonce and a
  salt.\<close>

record portal_draws =
  pd_token :: string
  pd_id :: id
  pd_name_id :: id
  pd_nonce :: bytes
  pd_salt :: bytes

record portal_identity =
  pi_user_id :: id
  pi_name :: string
  pi_email :: string

datatype portal_reply =
    Denied nat string
  | Failed string
  | Session string int
  | Empty
  | ClaimFor string
  | Accepted
  | ClaimLink string int

abbreviation token_hash :: "portal_env \<Rightarrow> string \<Rightarrow> string" where
  "token_hash env \<equiv> HashSecret (pe_sha256 env)"

definition issuePortalSession :: "portal_env \<Rightarrow> portal_draws \<Rightarrow> time \<Rightarrow> id \<Rightarrow> portal_db \<Rightarrow> portal_reply \<times> portal_db" where
  "issuePortalSession env dr now userID db =
     (case CreatePortalSession now (token_hash env (pd_token dr)) userID PortalSessionTTL db of
        Inl _ \<Rightarrow> (Failed ''create portal session'', db)
      | Inr db \<Rightarrow> (Session (pd_token dr) (to_unix (now + PortalSessionTTL)), TouchUserAccountLogin now userID db))"

definition portalLogin ::
  "portal_env \<Rightarrow> portal_draws \<Rightarrow> time \<Rightarrow> string \<Rightarrow> string \<Rightarrow> portal_db \<Rightarrow> portal_reply \<times> portal_db" where
  "portalLogin env dr now email password db =
     (case UserAccountByEmail email db of
        Inl _ \<Rightarrow> (Denied 401 ''incorrect email or password'', db)
      | Inr a \<Rightarrow>
          if ua_disabled a then (Denied 401 ''incorrect email or password'', db)
          else if \<not> VerifyPassword (pe_kdf env) password (ua_password_hash a)
          then (Denied 401 ''incorrect email or password'', db)
          else issuePortalSession env dr now (ua_user_id a) db)"

definition portalLogout :: "portal_env \<Rightarrow> string \<Rightarrow> portal_identity \<Rightarrow> portal_db \<Rightarrow> portal_reply \<times> portal_db" where
  "portalLogout env token me db = (Empty, DeletePortalSession (token_hash env token) db)"

definition portalChangePassword ::
  "portal_env \<Rightarrow> portal_draws \<Rightarrow> time \<Rightarrow> string \<Rightarrow> string \<Rightarrow> portal_identity \<Rightarrow> portal_db \<Rightarrow> portal_reply \<times> portal_db" where
  "portalChangePassword env dr now current new me db =
     (if length new < MinPasswordLen then (Denied 400 ''password must be at least 8 characters'', db)
      else (case UserAccount (pi_user_id me) db of
              Inl _ \<Rightarrow> (Failed ''load account'', db)
            | Inr a \<Rightarrow>
                if \<not> VerifyPassword (pe_kdf env) current (ua_password_hash a)
                then (Denied 401 ''current password is incorrect'', db)
                else (case HashPassword (pe_kdf env) (pd_salt dr) new of
                        None \<Rightarrow> (Failed ''hash password'', db)
                      | Some hash \<Rightarrow>
                          (case SetUserAccountPassword now (pi_user_id me) hash db of
                             Inl _ \<Rightarrow> (Failed ''set password'', db)
                           | Inr db \<Rightarrow> (Empty, db)))))"

definition portalClaimLookup :: "portal_env \<Rightarrow> time \<Rightarrow> string \<Rightarrow> portal_db \<Rightarrow> portal_reply \<times> portal_db" where
  "portalClaimLookup env now token db =
     (case GetPortalChallenge now (token_hash env token) PortalPurposeClaim db of
        Inl _ \<Rightarrow> (Denied 401 ''that link is invalid or has expired'', db)
      | Inr ch \<Rightarrow>
          (case GetUser (pc_user_id ch) db of
             Inl _ \<Rightarrow> (Denied 401 ''that link is invalid or has expired'', db)
           | Inr u \<Rightarrow> (ClaimFor (u_name u), db)))"

text \<open>What \<open>portalClaim\<close> does to the account: the new password for one that exists, under its address, or a new one.\<close>

definition claim_account :: "time \<Rightarrow> id \<Rightarrow> string \<Rightarrow> string \<Rightarrow> portal_db \<Rightarrow> (portal_reply, portal_db) result" where
  "claim_account now userID email passwordHash db =
     (case UserAccount userID db of
        Inr existing \<Rightarrow>
          if trim_space email \<noteq> [] \<and> NormalizeEmail email \<noteq> ua_email existing
          then Inl (Denied 400 ''this link can set a new password but cannot change the email address'')
          else (case SetUserAccountPassword now userID passwordHash db of
                  Inl _ \<Rightarrow> Inl (Failed ''set password'')
                | Inr db \<Rightarrow> Inr db)
      | Inl _ \<Rightarrow>
          (let addr = NormalizeEmail email
           in if addr = [] then Inl (Denied 400 ''an email address is required to claim this account'')
              else (case CreateUserAccount now userID addr passwordHash db of
                      Inl UniqueViolation \<Rightarrow> Inl (Denied 409 ''that email address is already in use'')
                    | Inl _ \<Rightarrow> Inl (Failed ''create account'')
                    | Inr (a, db) \<Rightarrow> Inr db)))"

definition portalClaim ::
  "portal_env \<Rightarrow> portal_draws \<Rightarrow> time \<Rightarrow> string \<Rightarrow> string \<Rightarrow> string \<Rightarrow> portal_db \<Rightarrow> portal_reply \<times> portal_db" where
  "portalClaim env dr now token email password db =
     (if length password < MinPasswordLen then (Denied 400 ''password must be at least 8 characters'', db)
      else
        (let hashOfToken = token_hash env token
         in case GetPortalChallenge now hashOfToken PortalPurposeClaim db of
              Inl _ \<Rightarrow> (Denied 401 ''that link is invalid or has expired'', db)
            | Inr ch \<Rightarrow>
                (case HashPassword (pe_kdf env) (pd_salt dr) password of
                   None \<Rightarrow> (Failed ''hash password'', db)
                 | Some passwordHash \<Rightarrow>
                     (case claim_account now (pc_user_id ch) email passwordHash db of
                        Inl r \<Rightarrow> (r, db)
                      | Inr db \<Rightarrow>
                          issuePortalSession env dr now (pc_user_id ch)
                            (DeletePortalSessionsFor (pc_user_id ch) (DeletePortalChallenge hashOfToken db))))))"

definition portal_audit :: "time \<Rightarrow> identity \<Rightarrow> string \<Rightarrow> user \<Rightarrow> string \<Rightarrow> portal_db \<Rightarrow> portal_db" where
  "portal_audit now actor action u detail db =
     db\<lparr>po_audit := po_audit db @
          [\<lparr>ae_at = to_unix now, ae_actor_id = i_id actor, ae_actor_name = i_name actor, ae_action = action,
            ae_target_id = u_id u, ae_target_name = u_name u, ae_detail = detail\<rparr>]\<rparr>"

definition setPortalAccess :: "time \<Rightarrow> identity \<Rightarrow> id \<Rightarrow> bool \<Rightarrow> portal_db \<Rightarrow> portal_reply \<times> portal_db" where
  "setPortalAccess now actor i disabled db =
     (case GetUser i db of
        Inl _ \<Rightarrow> (Denied 404 ''no such user'', db)
      | Inr u \<Rightarrow>
          (case UserAccount (u_id u) db of
             Inl _ \<Rightarrow> (Denied 404 ''this user has no portal account'', db)
           | Inr _ \<Rightarrow>
               (Empty, portal_audit now actor ''user.portal_access'' u (if disabled then ''disabled'' else ''enabled'')
                  (SetUserAccountDisabled now (u_id u) disabled db))))"

definition issuePortalLink ::
  "portal_env \<Rightarrow> portal_draws \<Rightarrow> time \<Rightarrow> identity \<Rightarrow> id \<Rightarrow> portal_db \<Rightarrow> portal_reply \<times> portal_db" where
  "issuePortalLink env dr now actor i db =
     (case GetUser i db of
        Inl _ \<Rightarrow> (Denied 404 ''no such user'', db)
      | Inr u \<Rightarrow>
          (case CreatePortalChallenge now (token_hash env (pd_token dr)) (u_id u) PortalPurposeClaim [] PortalClaimTTL db of
             Inl _ \<Rightarrow> (Failed ''create claim challenge'', db)
           | Inr db \<Rightarrow>
               (ClaimLink (trim_right_char CHR ''/'' (pg_public_url (pe_config env)) @ ''/#/claim/'' @ pd_token dr)
                  (to_unix (now + PortalClaimTTL)),
                portal_audit now actor ''user.portal_link'' u [] db)))"

definition newSubscriberName :: "id \<Rightarrow> string" where
  "newSubscriberName i = ''u'' @ take 10 i"

definition new_subscriber :: "string \<Rightarrow> user" where
  "new_subscriber name =
     \<lparr>u_id = [], u_name = name, u_quota_bytes = 0, u_used_bytes = 0, u_expires_at = 0, u_renew_period = 0,
      u_enabled = True, u_active = False, u_device_limit = 0, u_ruleset_id = None, u_ruleset_none = False,
      u_group_id = None, u_created_at = 0, u_updated_at = 0, u_sub_token_hash = [], u_sub_token_enc = []\<rparr>"

definition createSubscriber ::
  "portal_env \<Rightarrow> portal_draws \<Rightarrow> time \<Rightarrow> string \<Rightarrow> string \<Rightarrow> portal_db \<Rightarrow> db_error option \<times> portal_db" where
  "createSubscriber env dr now email passwordHash db =
     (case createUser (pe_box env) (pd_nonce dr) (pd_id dr) (to_unix now)
             (new_subscriber (newSubscriberName (pd_name_id dr))) (token_hash env (pd_token dr)) (pd_token dr)
             (po_access db) of
        Inl e \<Rightarrow> (Some e, db)
      | Inr (u, a) \<Rightarrow>
          (let db = db\<lparr>po_access := a\<rparr>
           in case CreateUserAccount now (u_id u) email passwordHash db of
                Inl e \<Rightarrow> (Some e, db)
              | Inr (_, db) \<Rightarrow> (None, db)))"

definition portalRegister ::
  "portal_env \<Rightarrow> portal_draws \<Rightarrow> time \<Rightarrow> string \<Rightarrow> string \<Rightarrow> string \<Rightarrow> portal_db \<Rightarrow> portal_reply \<times> portal_db" where
  "portalRegister env dr now email password inviteCode db =
     (if pg_mode (pe_config env) \<noteq> PortalOpen then (Denied 403 ''registration is closed on this panel'', db)
      else if pg_invite_code (pe_config env) \<noteq> [] \<and> trim_space inviteCode \<noteq> pg_invite_code (pe_config env)
      then (Denied 403 ''that registration code is not valid'', db)
      else
        (case pe_address env (trim_space email) of
           None \<Rightarrow> (Denied 400 ''that is not a valid email address'', db)
         | Some addr \<Rightarrow>
             if length password < MinPasswordLen then (Denied 400 ''password must be at least 8 characters'', db)
             else
               (case UserAccountByEmail addr db of
                  Inr _ \<Rightarrow> (Accepted, db)
                | Inl e \<Rightarrow>
                    if e \<noteq> ErrNoRows then (Failed ''look up account'', db)
                    else
                      (case HashPassword (pe_kdf env) (pd_salt dr) password of
                         None \<Rightarrow> (Failed ''hash password'', db)
                       | Some hash \<Rightarrow>
                           (case createSubscriber env dr now addr hash db of
                              (Some _, db) \<Rightarrow> (Failed ''create account'', db)
                            | (None, db) \<Rightarrow> (Accepted, db))))))"

definition requireUser ::
  "portal_env \<Rightarrow> time \<Rightarrow> string \<Rightarrow> (portal_identity \<Rightarrow> portal_db \<Rightarrow> portal_reply \<times> portal_db) \<Rightarrow> portal_db
   \<Rightarrow> portal_reply \<times> portal_db" where
  "requireUser env now token h db =
     (if token = [] then (Denied 401 ''missing or invalid credentials'', db)
      else (case UserByPortalSession now (token_hash env token) db of
              Inl _ \<Rightarrow> (Denied 401 ''missing or invalid credentials'', db)
            | Inr u \<Rightarrow>
                (let email = (case UserAccount (u_id u) db of Inl _ \<Rightarrow> [] | Inr acct \<Rightarrow> ua_email acct)
                 in h \<lparr>pi_user_id = u_id u, pi_name = u_name u, pi_email = email\<rparr> db)))"

section \<open>Requests\<close>

datatype portal_request =
    PortalLogin string string
  | PortalRegister string string string
  | ClaimLookup string
  | Claim string string string
  | PortalLogout string
  | ChangePassword string string string
  | SetAccess identity id bool
  | IssueLink identity id
  | Prune
  | Remove id

fun portal_serve ::
  "portal_env \<Rightarrow> portal_draws \<Rightarrow> time \<Rightarrow> portal_request \<Rightarrow> portal_db \<Rightarrow> portal_reply \<times> portal_db" where
  "portal_serve env dr now (PortalLogin email password) db = portalLogin env dr now email password db"
| "portal_serve env dr now (PortalRegister email password code) db = portalRegister env dr now email password code db"
| "portal_serve env dr now (ClaimLookup token) db = portalClaimLookup env now token db"
| "portal_serve env dr now (Claim token email password) db = portalClaim env dr now token email password db"
| "portal_serve env dr now (PortalLogout token) db = requireUser env now token (portalLogout env token) db"
| "portal_serve env dr now (ChangePassword token current new) db =
     requireUser env now token (portalChangePassword env dr now current new) db"
| "portal_serve env dr now (SetAccess actor i disabled) db = setPortalAccess now actor i disabled db"
| "portal_serve env dr now (IssueLink actor i) db = issuePortalLink env dr now actor i db"
| "portal_serve env dr now Prune db = (Empty, snd (PrunePortalChallenges now (snd (PrunePortalSessions now db))))"
| "portal_serve env dr now (Remove i) db = (Empty, delete_subscriber i db)"
section \<open>Addresses\<close>

lemma strip_rune_None_iff: "strip_rune rs s = None \<longleftrightarrow> (\<forall>r\<in>set rs. r \<noteq> [] \<longrightarrow> \<not> prefix r s)"
  by (auto simp: strip_rune_def find_None_iff dest!: find_SomeD split: option.split)

lemma trim_front_stripped: "strip_rune rs (trim_front rs s) = None"
proof (induction rs s rule: trim_front.induct)
  case (1 rs s)
  then show ?case by (cases "strip_rune rs s") (simp_all add: trim_front.simps[of rs s])
qed

lemma trim_front_suffix: "suffix (trim_front rs s) s"
proof (induction rs s rule: trim_front.induct)
  case (1 rs s)
  have "suffix s' s" if "strip_rune rs s = Some s'" for s'
    using that by (auto simp: strip_rune_def suffix_drop split: option.splits)
  then show ?case
    using 1 by (cases "strip_rune rs s") (auto simp: trim_front.simps[of rs s] intro: suffix_order.trans)
qed

lemma trim_space_idem [simp]: "trim_space (trim_space s) = trim_space s"
proof -
  define t where "t = trim_front space_runes s"
  define r where "r = trim_front (map rev space_runes) (rev t)"
  have "prefix (rev r) t" using trim_front_suffix[of "map rev space_runes" "rev t"] by (simp add: r_def suffix_to_prefix)
  moreover have "strip_rune space_runes t = None" unfolding t_def by (rule trim_front_stripped)
  ultimately have "strip_rune space_runes (rev r) = None"
    unfolding strip_rune_None_iff by (meson prefix_order.trans)
  then have "trim_front space_runes (rev r) = rev r" by (rule trim_front_none)
  moreover have "trim_front (map rev space_runes) r = r"
    unfolding r_def by (rule trim_front_none) (rule trim_front_stripped)
  ultimately show ?thesis by (simp add: trim_space_def t_def[symmetric] r_def[symmetric])
qed

lemma lower_char_lower:
  assumes "lower_char c \<noteq> c"
  shows "is_lower (lower_char c) \<and> \<not> is_upper (lower_char c)"
proof -
  have "65 \<le> (of_char c :: nat)" "of_char c \<le> (90 :: nat)"
    using assms by (auto simp: lower_char_def is_upper_def less_eq_char_def split: if_splits)
  then show ?thesis using assms by (auto simp: lower_char_def is_lower_def is_upper_def less_eq_char_def)
qed

lemma lower_char_idem [simp]: "lower_char (lower_char c) = lower_char c"
  using lower_char_lower[of c] by (cases "lower_char c = c") (simp_all add: lower_char_def)

lemma to_lower_idem [simp]: "to_lower (to_lower s) = to_lower s"
  by (simp add: to_lower_def)

lemma drop_lower: "drop n (to_lower s) = to_lower (drop n s)"
  by (simp add: to_lower_def drop_map)

lemma rev_lower: "rev (to_lower s) = to_lower (rev s)"
  by (simp add: to_lower_def rev_map)

definition caseless :: "string \<Rightarrow> bool" where
  "caseless r \<longleftrightarrow> list_all (\<lambda>c. \<not> is_lower c \<and> lower_char c = c) r"

lemma caseless_spaces: "list_all caseless space_runes" "list_all caseless (map rev space_runes)"
  by code_simp+

lemma prefix_lower: "caseless r \<Longrightarrow> prefix r (to_lower s) \<longleftrightarrow> prefix r s"
proof (induction r arbitrary: s)
  case (Cons c r)
  then show ?case
    using lower_char_lower by (cases s) (auto simp: to_lower_def caseless_def)
qed simp

lemma trim_front_lower:
  assumes "list_all caseless rs"
  shows "trim_front rs (to_lower s) = to_lower (trim_front rs s)"
  using assms
proof (induction rs s rule: trim_front.induct)
  case (1 rs s)
  have same: "find (\<lambda>r. r \<noteq> [] \<and> prefix r (to_lower s)) rs = find (\<lambda>r. r \<noteq> [] \<and> prefix r s) rs"
    using "1.prems" by (intro find_cong) (auto simp: list_all_iff prefix_lower)
  have strip: "strip_rune rs (to_lower s) = map_option to_lower (strip_rune rs s)"
    by (simp add: strip_rune_def same drop_lower split: option.split)
  show ?case
    using 1 by (cases "strip_rune rs s") (simp_all add: trim_front.simps[of rs s] trim_front.simps[of rs "to_lower s"] strip)
qed

lemma trim_space_lower: "trim_space (to_lower s) = to_lower (trim_space s)"
  by (simp add: trim_space_def trim_front_lower caseless_spaces rev_lower)

lemma NormalizeEmail_idem [simp]: "NormalizeEmail (NormalizeEmail e) = NormalizeEmail e"
  by (simp add: NormalizeEmail_def trim_space_lower)
section \<open>Integrity\<close>

abbreviation known :: "portal_db \<Rightarrow> id set" where
  "known db \<equiv> set (user_ids (po_access db))"

definition accounts_of :: "portal_db \<Rightarrow> (id \<times> string \<times> bool) list" where
  "accounts_of db = map (\<lambda>a. (ua_user_id a, ua_email a, ua_disabled a)) (po_accounts db)"

definition accounts_ok :: "id set \<Rightarrow> (id \<times> string \<times> bool) list \<Rightarrow> bool" where
  "accounts_ok U A \<longleftrightarrow> distinct (map fst A) \<and> distinct (map (fst \<circ> snd) A) \<and> fst ` set A \<subseteq> U"

definition keyed :: "('r \<Rightarrow> string) \<Rightarrow> ('r \<Rightarrow> id) \<Rightarrow> id set \<Rightarrow> 'r list \<Rightarrow> bool" where
  "keyed key owner U t \<longleftrightarrow> distinct (map key t) \<and> owner ` set t \<subseteq> U"

definition portal_ok :: "portal_db \<Rightarrow> bool" where
  "portal_ok db \<longleftrightarrow> distinct (user_ids (po_access db)) \<and> accounts_ok (known db) (accounts_of db)
     \<and> keyed ps_token_hash ps_user_id (known db) (po_sessions db)
     \<and> keyed pc_token_hash pc_user_id (known db) (po_challenges db)"

lemma keyed_delete [intro]: "keyed key owner U t \<Longrightarrow> keyed key owner U (sql_delete P t)"
  by (auto simp: keyed_def sql_delete_def intro: distinct_filter) (metis distinct_map distinct_map_filter)

lemma keyed_append [intro]:
  "keyed key owner U t \<Longrightarrow> key r \<notin> key ` set t \<Longrightarrow> owner r \<in> U \<Longrightarrow> keyed key owner U (t @ [r])"
  by (auto simp: keyed_def)

lemma keyed_update [intro]:
  "keyed key owner U t \<Longrightarrow> (\<And>r. P r \<Longrightarrow> key (f r) = key r) \<Longrightarrow> (\<And>r. owner r \<in> U \<Longrightarrow> P r \<Longrightarrow> owner (f r) \<in> U) \<Longrightarrow>
   keyed key owner U (sql_update P f t)"
  by (auto simp: keyed_def set_sql_update)

lemma accounts_of_fields [simp]:
  "accounts_of (db\<lparr>po_access := x\<rparr>) = accounts_of db" "accounts_of (db\<lparr>po_sessions := s\<rparr>) = accounts_of db"
  "accounts_of (db\<lparr>po_challenges := c\<rparr>) = accounts_of db" "accounts_of (db\<lparr>po_audit := l\<rparr>) = accounts_of db"
  by (simp_all add: accounts_of_def)

lemma ok_set_sessions:
  "portal_ok db \<Longrightarrow> keyed ps_token_hash ps_user_id (known db) s \<Longrightarrow> portal_ok (db\<lparr>po_sessions := s\<rparr>)"
  by (simp add: portal_ok_def)

lemma ok_set_challenges:
  "portal_ok db \<Longrightarrow> keyed pc_token_hash pc_user_id (known db) c \<Longrightarrow> portal_ok (db\<lparr>po_challenges := c\<rparr>)"
  by (simp add: portal_ok_def)

lemma ok_set_audit [simp]: "portal_ok (db\<lparr>po_audit := l\<rparr>) \<longleftrightarrow> portal_ok db"
  by (simp add: portal_ok_def)

lemma portal_okD:
  "portal_ok db \<Longrightarrow> keyed ps_token_hash ps_user_id (known db) (po_sessions db)"
  "portal_ok db \<Longrightarrow> keyed pc_token_hash pc_user_id (known db) (po_challenges db)"
  "portal_ok db \<Longrightarrow> accounts_ok (known db) (accounts_of db)"
  by (simp_all add: portal_ok_def)

lemmas ok_set = ok_set_sessions ok_set_challenges keyed_delete keyed_append keyed_update portal_okD

lemma update_account_fields [simp]:
  "po_access (update_account i f db) = po_access db" "po_sessions (update_account i f db) = po_sessions db"
  "po_challenges (update_account i f db) = po_challenges db"
  by (simp_all add: update_account_def)

lemma accounts_update:
  assumes "\<And>a. ua_user_id (f a) = ua_user_id a" "\<And>a. ua_email (f a) = ua_email a"
    "\<And>a. ua_disabled (f a) = d (ua_disabled a)"
  shows "accounts_of (update_account i f db) = map (\<lambda>(u, e, x). (u, e, if u = i then d x else x)) (accounts_of db)"
  by (simp add: accounts_of_def update_account_def sql_update_def assms)

lemma switched_ok: "accounts_ok U A \<Longrightarrow> accounts_ok U (map (\<lambda>(u, e, x). (u, e, if u = i then d x else x)) A)"
  by (auto simp: accounts_ok_def comp_def split_def image_image)

lemma ok_update_account:
  assumes "portal_ok db" and "\<And>a. ua_user_id (f a) = ua_user_id a" "\<And>a. ua_email (f a) = ua_email a"
    "\<And>a. ua_disabled (f a) = d (ua_disabled a)"
  shows "portal_ok (update_account i f db)"
  using assms(1) switched_ok by (simp add: portal_ok_def accounts_update[OF assms(2-4)])

lemma ok_touch: "portal_ok db \<Longrightarrow> portal_ok (TouchUserAccountLogin now i db)"
  unfolding TouchUserAccountLogin_def by (rule ok_update_account[where d = id]) simp_all

lemma ok_sessions_for: "portal_ok db \<Longrightarrow> portal_ok (DeletePortalSessionsFor i db)"
  by (simp add: DeletePortalSessionsFor_def ok_set)

lemma ok_password: "portal_ok db \<Longrightarrow> SetUserAccountPassword now i h db = Inr db' \<Longrightarrow> portal_ok db'"
  by (auto simp: SetUserAccountPassword_def split: if_splits intro!: ok_sessions_for ok_update_account[where d = id])

lemma ok_disabled: "portal_ok db \<Longrightarrow> portal_ok (SetUserAccountDisabled now i d db)"
  by (auto simp: SetUserAccountDisabled_def Let_def intro!: ok_sessions_for ok_update_account[where d = "\<lambda>_. d"])

lemma accounts_ok_append:
  "accounts_ok U A \<Longrightarrow> u \<notin> fst ` set A \<Longrightarrow> e \<notin> (fst \<circ> snd) ` set A \<Longrightarrow> u \<in> U \<Longrightarrow> accounts_ok U (A @ [(u, e, d)])"
  by (auto simp: accounts_ok_def)

lemma created_account:
  assumes "CreateUserAccount now i e h db = Inr (a, db')"
  shows "accounts_of db' = accounts_of db @ [(i, NormalizeEmail e, False)]" "i \<notin> fst ` set (accounts_of db)"
    "NormalizeEmail e \<notin> (fst \<circ> snd) ` set (accounts_of db)" "i \<in> known db" "po_access db' = po_access db"
    "po_sessions db' = po_sessions db" "po_challenges db' = po_challenges db"
  using assms by (auto simp: CreateUserAccount_def Let_def accounts_of_def split: if_splits)

lemma ok_create_account:
  assumes "portal_ok db" and "CreateUserAccount now i e h db = Inr (a, db')"
  shows "portal_ok db'"
  using assms(1) created_account[OF assms(2)] by (simp add: portal_ok_def accounts_ok_append)

lemma ok_create_session: "portal_ok db \<Longrightarrow> CreatePortalSession now h i ttl db = Inr db' \<Longrightarrow> portal_ok db'"
  by (auto simp: CreatePortalSession_def split: if_splits intro!: ok_set)

lemma ok_create_challenge: "portal_ok db \<Longrightarrow> CreatePortalChallenge now h i p d ttl db = Inr db' \<Longrightarrow> portal_ok db'"
  by (auto simp: CreatePortalChallenge_def Let_def list_ex_iff split: if_splits intro!: ok_set)

lemma ok_deletes:
  "portal_ok db \<Longrightarrow> portal_ok (DeletePortalSession h db)"
  "portal_ok db \<Longrightarrow> portal_ok (DeletePortalChallenge h db)"
  "portal_ok db \<Longrightarrow> portal_ok (snd (PrunePortalSessions now db))"
  "portal_ok db \<Longrightarrow> portal_ok (snd (PrunePortalChallenges now db))"
  by (simp_all add: DeletePortalSession_def DeletePortalChallenge_def PrunePortalSessions_def PrunePortalChallenges_def
      Let_def ok_set)
lemma created_user:
  assumes "createUser b nonce uid now u h tok a = Inr (u', a')"
  shows "user_ids a' = user_ids a @ [uid]" "uid \<notin> set (user_ids a)" "u_id u' = uid"
  using assms by (auto simp: createUser_def bind_result_def Let_def user_ids_def inserted_user_def
      split: sum.splits if_splits)

lemma keyed_mono: "keyed key owner U t \<Longrightarrow> U \<subseteq> V \<Longrightarrow> keyed key owner V t"
  by (auto simp: keyed_def)

lemma accounts_ok_mono: "accounts_ok U A \<Longrightarrow> U \<subseteq> V \<Longrightarrow> accounts_ok V A"
  by (auto simp: accounts_ok_def)

lemma ok_new_user:
  assumes "portal_ok db" and "createUser b nonce uid now u h tok (po_access db) = Inr (u', a)"
  shows "portal_ok (db\<lparr>po_access := a\<rparr>)"
proof -
  have "set (user_ids (po_access db)) \<subseteq> set (user_ids a)" "distinct (user_ids a)"
    using created_user[OF assms(2)] assms(1) by (auto simp: portal_ok_def)
  with assms(1) show ?thesis by (auto simp: portal_ok_def intro: keyed_mono accounts_ok_mono)
qed

lemma ok_subscriber:
  assumes "portal_ok db"
  shows "portal_ok (snd (createSubscriber env dr now e h db))"
  using assms by (auto simp: createSubscriber_def Let_def split: sum.split prod.split
      intro: ok_new_user ok_create_account)

lemma delete_subscriber_eq:
  "delete_subscriber i db = (if i \<in> known db then
     db\<lparr>po_access := clear_own i ((po_access db)\<lparr>ad_users := sql_delete (\<lambda>r. u_id r = i) (ad_users (po_access db))\<rparr>),
        po_accounts := sql_delete (\<lambda>r. ua_user_id r = i) (po_accounts db),
        po_sessions := sql_delete (\<lambda>r. ps_user_id r = i) (po_sessions db),
        po_challenges := sql_delete (\<lambda>r. pc_user_id r = i) (po_challenges db)\<rparr> else db)"
  by (simp add: delete_subscriber_def DeleteUser_def)

lemma known_deleted:
  "user_ids (clear_own i (a\<lparr>ad_users := sql_delete (\<lambda>r. u_id r = i) (ad_users a)\<rparr>)) = filter (\<lambda>u. u \<noteq> i) (user_ids a)"
  by (simp add: clear_own_def user_ids_def sql_delete_def filter_map comp_def)

lemma accounts_deleted:
  "accounts_of (db\<lparr>po_accounts := sql_delete (\<lambda>r. ua_user_id r = i) (po_accounts db)\<rparr>)
     = filter (\<lambda>k. fst k \<noteq> i) (accounts_of db)"
  by (simp add: accounts_of_def sql_delete_def filter_map comp_def)

lemma keyed_deleted: "keyed key owner U t \<Longrightarrow> keyed key owner (U - {i}) (sql_delete (\<lambda>r. owner r = i) t)"
  using keyed_delete[of key owner U t "\<lambda>r. owner r = i"] by (auto simp: keyed_def sql_delete_def)

lemma accounts_ok_deleted: "accounts_ok U A \<Longrightarrow> accounts_ok (U - {i}) (filter (\<lambda>k. fst k \<noteq> i) A)"
  by (auto simp: accounts_ok_def distinct_map_filter)

lemma ok_delete_subscriber:
  assumes "portal_ok db"
  shows "portal_ok (delete_subscriber i db)"
proof (cases "i \<in> known db")
  case True
  define a where "a = clear_own i ((po_access db)\<lparr>ad_users := sql_delete (\<lambda>r. u_id r = i) (ad_users (po_access db))\<rparr>)"
  have ids: "user_ids a = filter (\<lambda>u. u \<noteq> i) (user_ids (po_access db))" unfolding a_def by (rule known_deleted)
  then have U: "set (user_ids a) = known db - {i}" by auto
  have "distinct (user_ids a)" using assms ids by (simp add: portal_ok_def)
  then show ?thesis
    using assms True
    by (auto simp: portal_ok_def delete_subscriber_eq a_def[symmetric] U accounts_of_def sql_delete_def[symmetric]
        intro!: keyed_deleted)
       (use accounts_ok_deleted[of "known db" "accounts_of db" i] accounts_deleted[of i db] in
         \<open>simp add: accounts_of_def\<close>)
qed (simp add: delete_subscriber_eq assms)

lemma ok_issue:
  "portal_ok db \<Longrightarrow> portal_ok (snd (issuePortalSession env dr now i db))"
  by (auto simp: issuePortalSession_def split: sum.split intro: ok_touch ok_create_session)

lemma ok_claim_account: "portal_ok db \<Longrightarrow> claim_account now i e h db = Inr db' \<Longrightarrow> portal_ok db'"
  by (auto simp: claim_account_def Let_def split: sum.splits if_splits db_error.splits
      intro: ok_password ok_create_account)

lemma ok_claim:
  "portal_ok db \<Longrightarrow> portal_ok (snd (portalClaim env dr now token e p db))"
  by (auto simp: portalClaim_def Let_def split: sum.split option.split
      intro!: ok_issue ok_sessions_for ok_deletes intro: ok_claim_account)

lemma ok_register: "portal_ok db \<Longrightarrow> portal_ok (snd (portalRegister env dr now e p c db))"
  using ok_subscriber[of db env dr now]
  by (auto simp: portalRegister_def split: sum.split option.split prod.split) (metis snd_conv)+

lemma ok_require:
  "portal_ok db \<Longrightarrow> (\<And>me. portal_ok (snd (h me db))) \<Longrightarrow> portal_ok (snd (requireUser env now token h db))"
  by (simp add: requireUser_def Let_def split: sum.split)

lemma ok_change: "portal_ok db \<Longrightarrow> portal_ok (snd (portalChangePassword env dr now c p me db))"
  by (auto simp: portalChangePassword_def split: sum.split option.split intro: ok_password)

lemma ok_operator:
  "portal_ok db \<Longrightarrow> portal_ok (snd (setPortalAccess now actor i d db))"
  "portal_ok db \<Longrightarrow> portal_ok (snd (issuePortalLink env dr now actor i db))"
  by (auto simp: setPortalAccess_def issuePortalLink_def portal_audit_def split: sum.split
      intro: ok_disabled ok_create_challenge)
lemma serve_ok:
  assumes "portal_ok db" and "portal_serve env dr now r db = (rep, db')"
  shows "portal_ok db'"
proof -
  have issue: "portal_ok (snd (portalLogin env dr now e p db))" for e p
    using assms(1) by (auto simp: portalLogin_def split: sum.split intro: ok_issue)
  have out: "portal_ok (snd (portalLogout env t me db))" for t me
    using assms(1) by (simp add: portalLogout_def ok_deletes)
  have "portal_ok (snd (portal_serve env dr now r db))"
    using assms(1) issue out
    by (cases r) (simp_all add: ok_register ok_claim ok_require ok_change ok_operator ok_deletes ok_delete_subscriber,
        auto simp: portalClaimLookup_def split: sum.split)
  with assms(2) show ?thesis by simp
qed

section \<open>Accounts\<close>

text \<open>What a request may do to the accounts.\<close>

definition account_step :: "portal_request \<Rightarrow> (id \<times> string \<times> bool) list \<Rightarrow> (id \<times> string \<times> bool) list \<Rightarrow> bool" where
  "account_step r A A' \<longleftrightarrow> A' = A \<or> (\<exists>u e. A' = A @ [(u, e, False)] \<and> u \<notin> fst ` set A)
     \<or> (\<exists>i. r = Remove i \<and> A' = filter (\<lambda>k. fst k \<noteq> i) A)
     \<or> (\<exists>actor i d. r = SetAccess actor i d \<and> A' = map (\<lambda>(u, e, x). (u, e, if u = i then d else x)) A)"

lemma account_step_same [simp]: "account_step r A A"
  by (simp add: account_step_def)

lemma account_step_created:
  "CreateUserAccount now i e h db = Inr (a, db') \<Longrightarrow> account_step r (accounts_of db) (accounts_of db')"
  unfolding account_step_def by (frule created_account(1), drule created_account(2)) blast

lemma accounts_same:
  assumes "\<And>a. ua_user_id (f a) = ua_user_id a" "\<And>a. ua_email (f a) = ua_email a"
    "\<And>a. ua_disabled (f a) = ua_disabled a"
  shows "accounts_of (update_account i f db) = accounts_of db"
  by (simp add: accounts_of_def update_account_def sql_update_def assms)

lemma accounts_kept [simp]:
  "accounts_of (TouchUserAccountLogin now i db) = accounts_of db"
  "accounts_of (DeletePortalSessionsFor i db) = accounts_of db"
  "accounts_of (DeletePortalSession h db) = accounts_of db"
  "accounts_of (DeletePortalChallenge h db) = accounts_of db"
  "accounts_of (snd (PrunePortalSessions now db)) = accounts_of db"
  "accounts_of (snd (PrunePortalChallenges now db)) = accounts_of db"
  "accounts_of (portal_audit now actor act u d db) = accounts_of db"
  by (simp_all add: TouchUserAccountLogin_def accounts_same DeletePortalSessionsFor_def
      DeletePortalSession_def DeletePortalChallenge_def PrunePortalSessions_def PrunePortalChallenges_def Let_def
      portal_audit_def)

lemma accounts_password: "SetUserAccountPassword now i h db = Inr db' \<Longrightarrow> accounts_of db' = accounts_of db"
  by (auto simp: SetUserAccountPassword_def accounts_same split: if_splits)

lemma accounts_disabled:
  "accounts_of (SetUserAccountDisabled now i d db) = map (\<lambda>(u, e, x). (u, e, if u = i then d else x)) (accounts_of db)"
  by (simp add: SetUserAccountDisabled_def Let_def accounts_update[where d = "\<lambda>_. d"])

lemma accounts_create: "CreatePortalSession now h i ttl db = Inr db' \<Longrightarrow> accounts_of db' = accounts_of db"
  by (auto simp: CreatePortalSession_def split: if_splits)

lemma accounts_link: "CreatePortalChallenge now h i p d ttl db = Inr db' \<Longrightarrow> accounts_of db' = accounts_of db"
  by (auto simp: CreatePortalChallenge_def Let_def split: if_splits)

lemma accounts_issue [simp]: "accounts_of (snd (issuePortalSession env dr now i db)) = accounts_of db"
  by (auto simp: issuePortalSession_def accounts_create split: sum.split)

lemma accounts_claimed:
  "claim_account now i e h db = Inr db' \<Longrightarrow> account_step r (accounts_of db) (accounts_of db')"
  by (auto simp: claim_account_def Let_def accounts_password dest: account_step_created
      split: sum.splits if_splits db_error.splits)

lemma accounts_subscriber:
  "account_step r (accounts_of db) (accounts_of (snd (createSubscriber env dr now e h db)))"
  using account_step_created[of now _ e h "db\<lparr>po_access := _\<rparr>" _ _ r]
  by (simp add: createSubscriber_def Let_def split: sum.split prod.split)

lemma serve_accounts:
  assumes "portal_serve env dr now r db = (rep, db')"
  shows "account_step r (accounts_of db) (accounts_of db')"
proof -
  have claim: "account_step r (accounts_of db) (accounts_of (snd (portalClaim env dr now t e p db)))" for t e p
    by (auto simp: portalClaim_def Let_def dest: accounts_claimed split: sum.split option.split)
  have register: "account_step r (accounts_of db) (accounts_of (snd (portalRegister env dr now e p c db)))" for e p c
    using accounts_subscriber[of r db env dr now]
    by (auto simp: portalRegister_def split: sum.split option.split prod.split) (metis snd_conv)+
  have change: "accounts_of (snd (portalChangePassword env dr now c p me db)) = accounts_of db" for c p me
    by (auto simp: portalChangePassword_def dest: accounts_password split: sum.split option.split)
  have require: "accounts_of (snd (requireUser env now t h db)) = accounts_of db"
    if "\<And>me. accounts_of (snd (h me db)) = accounts_of db" for t h
    using that by (simp add: requireUser_def Let_def split: sum.split)
  have "account_step r (accounts_of db) (accounts_of (snd (portal_serve env dr now r db)))"
  proof (cases r)
    case (SetAccess actor i d)
    show ?thesis
    proof (cases "user_row (po_access db) i")
      case (Some u)
      then show ?thesis using SetAccess user_row_id[OF Some]
        by (auto simp: setPortalAccess_def accounts_disabled account_step_def GetUser_def found_def split: sum.split)
    qed (simp add: SetAccess setPortalAccess_def GetUser_def found_def)
  next
    case (Remove i)
    then show ?thesis using accounts_deleted[of i db]
      by (auto simp: delete_subscriber_eq account_step_def accounts_of_def)
  qed (use claim register in \<open>simp_all add: require change portalLogout_def\<close>,
       auto simp: portalLogin_def portalClaimLookup_def issuePortalLink_def dest: accounts_link split: sum.split)
  with assms show ?thesis by simp
qed
section \<open>Sessions\<close>

definition password_proof :: "portal_env \<Rightarrow> portal_request \<Rightarrow> portal_db \<Rightarrow> id \<Rightarrow> bool" where
  "password_proof env r db i \<longleftrightarrow> (\<exists>email password. r = PortalLogin email password \<and>
     (\<exists>a\<in>set (po_accounts db). ua_user_id a = i \<and> ua_email a = NormalizeEmail email \<and> \<not> ua_disabled a
        \<and> VerifyPassword (pe_kdf env) password (ua_password_hash a)))"

definition link_spent :: "portal_env \<Rightarrow> time \<Rightarrow> portal_request \<Rightarrow> portal_db \<Rightarrow> portal_challenge \<Rightarrow> bool" where
  "link_spent env now r db ch \<longleftrightarrow> (\<exists>token email password. r = Claim token email password \<and>
     ch \<in> set (po_challenges db) \<and> pc_token_hash ch = token_hash env token \<and> to_unix now < pc_expires_at ch)"

definition granted :: "portal_env \<Rightarrow> time \<Rightarrow> portal_request \<Rightarrow> portal_db \<Rightarrow> portal_session \<Rightarrow> bool" where
  "granted env now r db s \<longleftrightarrow> ps_expires_at s = to_unix (now + PortalSessionTTL)
     \<and> (password_proof env r db (ps_user_id s) \<or> (\<exists>ch. link_spent env now r db ch \<and> pc_user_id ch = ps_user_id s))"

definition session_step :: "portal_env \<Rightarrow> time \<Rightarrow> portal_request \<Rightarrow> portal_db \<Rightarrow> portal_db \<Rightarrow> bool" where
  "session_step env now r db db' \<longleftrightarrow>
     (\<forall>s\<in>set (po_sessions db'). s \<in> set (po_sessions db) \<or> granted env now r db s)
     \<and> (\<forall>c\<in>set (po_challenges db'). c \<in> set (po_challenges db) \<or>
          (\<exists>actor. r = IssueLink actor (pc_user_id c)) \<and> pc_expires_at c = to_unix (now + PortalClaimTTL))"

definition fewer :: "portal_db \<Rightarrow> portal_db \<Rightarrow> bool" where
  "fewer db db' \<longleftrightarrow> set (po_sessions db') \<subseteq> set (po_sessions db) \<and> set (po_challenges db') \<subseteq> set (po_challenges db)"

lemma fewer_step: "fewer db db' \<Longrightarrow> session_step env now r db db'"
  by (auto simp: fewer_def session_step_def)

lemma fewer_refl [simp]: "fewer db db"
  by (simp add: fewer_def)

lemma fewer_trans: "fewer a b \<Longrightarrow> fewer b c \<Longrightarrow> fewer a c"
  by (auto simp: fewer_def)

lemma fewer_ops:
  "fewer db (DeletePortalSessionsFor i db)" "fewer db (DeletePortalSession h db)" "fewer db (DeletePortalChallenge h db)"
  "fewer db (snd (PrunePortalSessions now db))" "fewer db (snd (PrunePortalChallenges now db))"
  "fewer db (portal_audit now actor act u d db)" "fewer db (TouchUserAccountLogin now i db)"
  "fewer db (SetUserAccountDisabled now i off db)" "fewer db (delete_subscriber i db)"
  by (auto simp: fewer_def DeletePortalSessionsFor_def DeletePortalSession_def DeletePortalChallenge_def
      PrunePortalSessions_def PrunePortalChallenges_def Let_def portal_audit_def TouchUserAccountLogin_def
      SetUserAccountDisabled_def delete_subscriber_eq sql_delete_def)

lemma fewer_password: "SetUserAccountPassword now i h db = Inr db' \<Longrightarrow> fewer db db'"
  by (auto simp: SetUserAccountPassword_def fewer_def DeletePortalSessionsFor_def sql_delete_def split: if_splits)

lemma fewer_account: "CreateUserAccount now i e h db = Inr (a, db') \<Longrightarrow> fewer db db'"
  using created_account(6,7) by (simp add: fewer_def)

lemma fewer_claimed: "claim_account now i e h db = Inr db' \<Longrightarrow> fewer db db'"
  by (auto simp: claim_account_def Let_def dest: fewer_password fewer_account split: sum.splits if_splits db_error.splits)

lemma fewer_subscriber: "fewer db (snd (createSubscriber env dr now e h db))"
  using fewer_account[of now _ e h "db\<lparr>po_access := _\<rparr>"]
  by (simp add: createSubscriber_def Let_def fewer_def split: sum.split prod.split)

lemma fewer_register: "fewer db (snd (portalRegister env dr now e p c db))"
  using fewer_subscriber[of db env dr now]
  by (auto simp: portalRegister_def split: sum.split option.split prod.split) (metis snd_conv)+

lemma fewer_change: "fewer db (snd (portalChangePassword env dr now c p me db))"
  by (auto simp: portalChangePassword_def dest: fewer_password split: sum.split option.split)

lemma fewer_require: "(\<And>me. fewer db (snd (h me db))) \<Longrightarrow> fewer db (snd (requireUser env now t h db))"
  by (simp add: requireUser_def Let_def split: sum.split)

lemma issued_session:
  assumes "s \<in> set (po_sessions (snd (issuePortalSession env dr now i db)))"
  shows "s \<in> set (po_sessions db) \<or> ps_user_id s = i \<and> ps_expires_at s = to_unix (now + PortalSessionTTL)"
  using assms by (auto simp: issuePortalSession_def CreatePortalSession_def TouchUserAccountLogin_def
      split: sum.splits if_splits)

lemma issued_challenges: "po_challenges (snd (issuePortalSession env dr now i db)) = po_challenges db"
  by (auto simp: issuePortalSession_def CreatePortalSession_def TouchUserAccountLogin_def split: sum.splits if_splits)

lemma issue_step:
  assumes "fewer db db1" and "password_proof env r db i \<or> (\<exists>ch. link_spent env now r db ch \<and> pc_user_id ch = i)"
  shows "session_step env now r db (snd (issuePortalSession env dr now i db1))"
  unfolding session_step_def
proof (intro conjI ballI)
  fix s assume "s \<in> set (po_sessions (snd (issuePortalSession env dr now i db1)))"
  from issued_session[OF this] show "s \<in> set (po_sessions db) \<or> granted env now r db s"
    using assms by (auto simp: fewer_def granted_def)
next
  fix c assume "c \<in> set (po_challenges (snd (issuePortalSession env dr now i db1)))"
  then show "c \<in> set (po_challenges db) \<or>
      (\<exists>actor. r = IssueLink actor (pc_user_id c)) \<and> pc_expires_at c = to_unix (now + PortalClaimTTL)"
    using assms(1) by (auto simp: issued_challenges fewer_def)
qed

lemma account_found:
  "UserAccountByEmail e db = Inr a \<Longrightarrow> a \<in> set (po_accounts db) \<and> ua_email a = NormalizeEmail e"
  "UserAccount i db = Inr a \<Longrightarrow> a \<in> set (po_accounts db) \<and> ua_user_id a = i"
  using sql_row_Some by (fastforce simp: UserAccountByEmail_def UserAccount_def found_def split: option.splits)+

lemma challenge_found:
  "GetPortalChallenge now h p db = Inr c \<Longrightarrow> c \<in> set (po_challenges db) \<and> pc_token_hash c = h \<and> pc_purpose c = p
     \<and> to_unix now < pc_expires_at c"
  using sql_row_Some by (fastforce simp: GetPortalChallenge_def found_def split: option.splits)

lemma user_found: "GetUser i db = Inr u \<Longrightarrow> u_id u = i"
  by (auto simp: GetUser_def found_def dest: user_row_id split: option.splits)

lemma login_step:
  "session_step env now (PortalLogin e p) db (snd (portalLogin env dr now e p db))"
proof (cases "UserAccountByEmail e db")
  case (Inr a)
  have "password_proof env (PortalLogin e p) db (ua_user_id a)"
    if "\<not> ua_disabled a" "VerifyPassword (pe_kdf env) p (ua_password_hash a)"
    using account_found(1)[OF Inr] that by (auto simp: password_proof_def)
  then show ?thesis by (simp add: portalLogin_def Inr issue_step fewer_step)
qed (simp add: portalLogin_def fewer_step)

lemma claim_step:
  "session_step env now (Claim t e p) db (snd (portalClaim env dr now t e p db))"
proof (cases "GetPortalChallenge now (token_hash env t) PortalPurposeClaim db")
  case (Inr ch)
  have spent: "link_spent env now (Claim t e p) db ch"
    using challenge_found[OF Inr] by (simp add: link_spent_def)
  have clean: "fewer db (DeletePortalSessionsFor (pc_user_id ch) (DeletePortalChallenge (token_hash env t) db1))"
    if "claim_account now (pc_user_id ch) e h db = Inr db1" for h db1
    using fewer_claimed[OF that] fewer_ops(1,3) by (meson fewer_trans)
  show ?thesis
    using spent clean by (auto simp: portalClaim_def Inr fewer_step split: option.split sum.split intro!: issue_step)
qed (simp add: portalClaim_def fewer_step)

lemma link_step:
  "session_step env now (IssueLink actor i) db (snd (issuePortalLink env dr now actor i db))"
proof (cases "GetUser i db")
  case (Inr u)
  have new: "session_step env now (IssueLink actor i) db db'"
    if "CreatePortalChallenge now h i p d PortalClaimTTL db = Inr db'" for db' h p d
    using that by (auto simp: CreatePortalChallenge_def Let_def session_step_def set_sql_update split: if_splits)
  have audit: "session_step env now r db (portal_audit now actor act u d db') \<longleftrightarrow> session_step env now r db db'"
    for r db' act d
    by (simp add: session_step_def portal_audit_def)
  show ?thesis using user_found[OF Inr] new by (simp add: issuePortalLink_def Inr audit fewer_step split: sum.split)
qed (simp add: issuePortalLink_def fewer_step)

lemma serve_sessions:
  assumes "portal_serve env dr now r db = (rep, db')"
  shows "session_step env now r db db'"
proof -
  have "session_step env now r db (snd (portal_serve env dr now r db))"
  proof (cases r)
    case Prune
    then show ?thesis by (auto intro!: fewer_step intro: fewer_trans fewer_ops)
  next
    case (SetAccess actor i d)
    then show ?thesis
      by (auto simp: setPortalAccess_def split: sum.split intro!: fewer_step intro: fewer_trans fewer_ops)
  qed (auto simp: login_step claim_step link_step fewer_register fewer_require fewer_change fewer_ops portalLogout_def
      portalClaimLookup_def split: sum.split intro!: fewer_step)
  with assms show ?thesis by simp
qed
section \<open>Runs\<close>

text \<open>A run of the panel with what each request found; the newest is first.\<close>

inductive portal_run :: "portal_env \<Rightarrow> (time \<times> portal_request \<times> portal_db) list \<Rightarrow> portal_db \<Rightarrow> bool" for env where
  start: "portal_ok db \<Longrightarrow> po_sessions db = [] \<Longrightarrow> po_challenges db = [] \<Longrightarrow> portal_run env [] db"
| step: "portal_run env hist db \<Longrightarrow> portal_serve env dr now r db = (rep, db') \<Longrightarrow>
    portal_run env ((now, r, db) # hist) db'"

inductive_cases portal_run_ConsE: "portal_run env (x # hist) db"

definition issued :: "(time \<times> portal_request \<times> portal_db) list \<Rightarrow> id \<Rightarrow> int \<Rightarrow> bool" where
  "issued hist i e \<longleftrightarrow> (\<exists>t actor db. (t, IssueLink actor i, db) \<in> set hist \<and> e = to_unix (t + PortalClaimTTL))"

definition proof_of :: "portal_env \<Rightarrow> (time \<times> portal_request \<times> portal_db) list \<Rightarrow> id \<Rightarrow> time \<Rightarrow> bool" where
  "proof_of env hist i t \<longleftrightarrow> (\<exists>r db. (t, r, db) \<in> set hist \<and>
     (password_proof env r db i \<or>
      (\<exists>ch. link_spent env t r db ch \<and> pc_user_id ch = i \<and> issued hist i (pc_expires_at ch))))"

lemma issued_later: "issued hist i e \<Longrightarrow> issued (x # hist) i e"
  by (auto simp: issued_def)

lemma proof_later: "proof_of env hist i t \<Longrightarrow> proof_of env (x # hist) i t"
  unfolding proof_of_def by (elim exE conjE disjE) (auto dest: issued_later)

lemma links_issued: "portal_run env hist db \<Longrightarrow> c \<in> set (po_challenges db) \<Longrightarrow> issued hist (pc_user_id c) (pc_expires_at c)"
proof (induction arbitrary: c rule: portal_run.induct)
  case (step hist db dr now r rep db')
  from serve_sessions[OF step.hyps(2)] step.prems
  consider "c \<in> set (po_challenges db)"
    | actor where "r = IssueLink actor (pc_user_id c)" "pc_expires_at c = to_unix (now + PortalClaimTTL)"
    by (auto simp: session_step_def)
  then show ?case
  proof cases
    case 1
    then show ?thesis by (intro issued_later step.IH)
  next
    case 2
    then show ?thesis by (auto simp: issued_def)
  qed
qed simp

lemma sessions_proved:
  "portal_run env hist db \<Longrightarrow> s \<in> set (po_sessions db) \<Longrightarrow>
   \<exists>t. proof_of env hist (ps_user_id s) t \<and> ps_expires_at s = to_unix (t + PortalSessionTTL)"
proof (induction arbitrary: s rule: portal_run.induct)
  case (step hist db dr now r rep db')
  from serve_sessions[OF step.hyps(2)] step.prems
  consider "s \<in> set (po_sessions db)" | "granted env now r db s" by (auto simp: session_step_def)
  then show ?case
  proof cases
    case 1
    then show ?thesis using step.IH proof_later by blast
  next
    case 2
    have "issued hist (pc_user_id ch) (pc_expires_at ch)" if "link_spent env now r db ch" for ch
      using that links_issued[OF step.hyps(1)] by (auto simp: link_spent_def)
    then have "proof_of env ((now, r, db) # hist) (ps_user_id s) now"
      using 2 issued_later unfolding proof_of_def granted_def by (metis list.set_intros(1))
    then show ?thesis using 2 by (auto simp: granted_def)
  qed
qed simp

lemma session_row:
  assumes "UserByPortalSession now h db = Inr u"
  obtains s where "s \<in> set (po_sessions db)" "ps_token_hash s = h" "ps_user_id s = u_id u" "to_unix now < ps_expires_at s"
    "\<exists>e. (u_id u, e, False) \<in> set (accounts_of db)"
proof -
  obtain s where s: "sql_row (live_session now h db) (po_sessions db) = Some s" "GetUser (ps_user_id s) db = Inr u"
    using assms by (auto simp: UserByPortalSession_def split: option.splits)
  have u: "u_id u = ps_user_id s" using s(2) by (rule user_found)
  have "s \<in> set (po_sessions db)" "live_session now h db s" using sql_row_Some[OF s(1)] by auto
  moreover from this obtain a where a: "a \<in> set (po_accounts db)" "ua_user_id a = u_id u" "\<not> ua_disabled a"
    by (auto simp: live_session_def list_ex_iff u)
  moreover have "(u_id u, ua_email a, False) \<in> set (accounts_of db)"
    using a by (force simp: accounts_of_def)
  ultimately show ?thesis by (intro that[of s]) (auto simp: live_session_def u)
qed

text \<open>C10. Whoever a session token stands for, within thirty days before somebody gave the password of that account, which
  was switched on, or spent a live link that an operator had issued for this subscriber.\<close>

theorem portal_session_earned:
  assumes "portal_run env hist db" and "UserByPortalSession now (token_hash env token) db = Inr u"
  shows "\<exists>t r db0. (t, r, db0) \<in> set hist \<and> to_unix now < to_unix (t + PortalSessionTTL)
    \<and> (password_proof env r db0 (u_id u) \<or>
       (\<exists>ch. link_spent env t r db0 ch \<and> pc_user_id ch = u_id u
         \<and> (\<exists>t1 actor db1. (t1, IssueLink actor (u_id u), db1) \<in> set hist
              \<and> pc_expires_at ch = to_unix (t1 + PortalClaimTTL))))"
proof -
  obtain s where s: "s \<in> set (po_sessions db)" "ps_user_id s = u_id u" "to_unix now < ps_expires_at s"
    using session_row[OF assms(2)] by metis
  from sessions_proved[OF assms(1) s(1)] obtain t r db0 where p: "(t, r, db0) \<in> set hist"
      "ps_expires_at s = to_unix (t + PortalSessionTTL)"
      "password_proof env r db0 (u_id u) \<or>
        (\<exists>ch. link_spent env t r db0 ch \<and> pc_user_id ch = u_id u \<and> issued hist (u_id u) (pc_expires_at ch))"
    by (auto simp: proof_of_def s(2))
  then show ?thesis using s(3) unfolding issued_def by (intro exI[of _ t] exI[of _ r] exI[of _ db0]) auto
qed

text \<open>Every request keeps the tables sound (one account for a subscriber and for an address, sessions and links of
  subscribers there are) and no request changes the address of an account.\<close>

theorem addresses_stay:
  assumes "portal_ok db" and "portal_serve env dr now r db = (rep, db')"
  shows "portal_ok db' \<and> (\<forall>i e d e' d'. (i, e, d) \<in> set (accounts_of db) \<longrightarrow> (i, e', d') \<in> set (accounts_of db') \<longrightarrow> e' = e)"
proof -
  have one: "distinct (map fst (accounts_of db))" using assms(1) by (simp add: portal_ok_def accounts_ok_def)
  have same: "e' = e" if "(i, e, d) \<in> set (accounts_of db)" "(i, e', d') \<in> set (accounts_of db)" for i e d e' d'
    using that one by (metis Pair_inject eq_key_imp_eq_value)
  show ?thesis
    using serve_ok[OF assms] serve_accounts[OF assms(2)] same
    by (auto simp: account_step_def image_iff split: if_splits)
qed

inductive portal_trace :: "portal_env \<Rightarrow> portal_request list \<Rightarrow> portal_db \<Rightarrow> portal_db \<Rightarrow> bool" for env where
  trace_none: "portal_trace env [] db db"
| trace_more: "portal_trace env rs db db1 \<Longrightarrow> portal_serve env dr now r db1 = (rep, db2) \<Longrightarrow>
    portal_trace env (rs @ [r]) db db2"

definition locked :: "id \<Rightarrow> (id \<times> string \<times> bool) list \<Rightarrow> bool" where
  "locked i A \<longleftrightarrow> i \<in> fst ` set A \<and> (\<forall>(u, e, d) \<in> set A. u = i \<longrightarrow> d)"

lemma locked_step:
  assumes "locked i A" and "account_step r A A'" and "r \<noteq> Remove i" and "\<nexists>actor. r = SetAccess actor i False"
  shows "locked i A'"
  using assms unfolding account_step_def
  by (elim disjE exE conjE) (force simp: locked_def)+

lemma switched_off:
  assumes "setPortalAccess now actor i True db = (Empty, db1)"
  obtains a where "UserAccount i db = Inr a"
    and "accounts_of db1 = map (\<lambda>(u, e, x). (u, e, if u = i then True else x)) (accounts_of db)"
proof (cases "GetUser i db")
  case (Inl err)
  then show ?thesis using assms by (simp add: setPortalAccess_def)
next
  case (Inr x)
  note u = user_found[OF Inr]
  show ?thesis
  proof (cases "UserAccount i db")
    case (Inl err)
    then show ?thesis using assms Inr u by (simp add: setPortalAccess_def)
  next
    case (Inr a)
    have "db1 = portal_audit now actor ''user.portal_access'' x ''disabled'' (SetUserAccountDisabled now i True db)"
      using assms \<open>GetUser i db = Inr x\<close> Inr u by (simp add: setPortalAccess_def)
    then show ?thesis using Inr by (intro that[of a]) (simp_all add: accounts_disabled)
  qed
qed

lemma locked_map:
  assumes "(i, e, d) \<in> set A"
  shows "locked i (map (\<lambda>(u, e, x). (u, e, if u = i then True else x)) A)"
proof -
  have "i \<in> fst ` (\<lambda>(u, e, x). (u, e, if u = i then True else x)) ` set A"
    using imageI[OF imageI[OF assms], of fst "\<lambda>(u, e, x). (u, e, if u = i then True else x)"] by simp
  then show ?thesis by (auto simp: locked_def)
qed

text \<open>C29. A subscriber an operator switches off: whatever is requested afterwards, no token stands for them, until an operator
  switches them on or deletes them.\<close>

theorem switched_off_stays_out:
  assumes "setPortalAccess now actor i True db = (Empty, db1)" and "portal_trace env rs db1 db2"
    and "Remove i \<notin> set rs" and "\<forall>actor. SetAccess actor i False \<notin> set rs"
    and "UserByPortalSession t h db2 = Inr u"
  shows "u_id u \<noteq> i"
proof -
  obtain a where a: "UserAccount i db = Inr a"
      and db1: "accounts_of db1 = map (\<lambda>(u, e, x). (u, e, if u = i then True else x)) (accounts_of db)"
    using assms(1) by (rule switched_off)
  have "(i, ua_email a, ua_disabled a) \<in> set (accounts_of db)"
    using account_found(2)[OF a] by (auto simp: accounts_of_def)
  then have start: "locked i (accounts_of db1)" unfolding db1 by (rule locked_map)
  have "locked i (accounts_of db2)"
    using assms(2-4) start
  proof (induction rule: portal_trace.induct)
    case (trace_more rs db db1 dr now r rep db2)
    then show ?case using locked_step[OF _ serve_accounts[OF trace_more.hyps(2)]] by auto
  qed
  moreover obtain e where "(u_id u, e, False) \<in> set (accounts_of db2)"
    using session_row[OF assms(5)] by blast
  ultimately show ?thesis by (auto simp: locked_def)
qed
section \<open>Claiming\<close>

definition signs_in :: "id \<Rightarrow> string \<Rightarrow> string \<Rightarrow> portal_db \<Rightarrow> bool" where
  "signs_in i email h db \<longleftrightarrow>
     (\<exists>a\<in>set (po_accounts db). ua_user_id a = i \<and> ua_email a = email \<and> ua_password_hash a = h \<and> \<not> ua_disabled a)"

lemma claimE:
  assumes "portalClaim env dr now token email password db = (Session tok e, db1)"
    and "GetPortalChallenge now (token_hash env token) PortalPurposeClaim db = Inr ch"
  obtains h dbc where "HashPassword (pe_kdf env) (pd_salt dr) password = Some h"
    and "claim_account now (pc_user_id ch) email h db = Inr dbc"
    and "issuePortalSession env dr now (pc_user_id ch)
           (DeletePortalSessionsFor (pc_user_id ch) (DeletePortalChallenge (token_hash env token) dbc)) = (Session tok e, db1)"
  using assms by (auto simp: portalClaim_def claim_account_def Let_def
      split: if_splits option.splits sum.splits db_error.splits)

lemma sessionE:
  assumes "issuePortalSession env dr now i db = (Session tok e, db')"
  obtains "tok = pd_token dr" and "token_hash env tok \<notin> ps_token_hash ` set (po_sessions db)" and "i \<in> known db"
    and "db' = TouchUserAccountLogin now i (db\<lparr>po_sessions := po_sessions db @
      [\<lparr>ps_token_hash = token_hash env tok, ps_user_id = i, ps_created_at = to_unix now,
        ps_expires_at = to_unix (now + PortalSessionTTL)\<rparr>]\<rparr>)"
  using assms by (auto simp: issuePortalSession_def CreatePortalSession_def split: sum.splits if_splits)

lemma account_unique:
  assumes "portal_ok db" and "a \<in> set (po_accounts db)"
  shows "UserAccount (ua_user_id a) db = Inr a" and "ua_email a = NormalizeEmail e \<Longrightarrow> UserAccountByEmail e db = Inr a"
proof -
  have d: "distinct (map ua_user_id (po_accounts db))" "distinct (map ua_email (po_accounts db))"
    using assms(1) by (simp_all add: portal_ok_def accounts_ok_def accounts_of_def comp_def)
  show "UserAccount (ua_user_id a) db = Inr a"
    using sql_row_key[OF d(1) assms(2)] by (simp add: UserAccount_def found_def)
  show "UserAccountByEmail e db = Inr a" if "ua_email a = NormalizeEmail e"
    using sql_row_key[OF d(2) assms(2)] that by (simp add: UserAccountByEmail_def found_def)
qed

lemma signs_in_update:
  assumes "signs_in i e h db" and "\<And>a. ua_user_id (f a) = ua_user_id a" "\<And>a. ua_email (f a) = ua_email a"
    "\<And>a. ua_password_hash (f a) = ua_password_hash a" "\<And>a. ua_disabled (f a) = ua_disabled a"
  shows "signs_in i e h (update_account j f db)"
proof -
  obtain a where a: "a \<in> set (po_accounts db)" "ua_user_id a = i" "ua_email a = e" "ua_password_hash a = h"
    "\<not> ua_disabled a" using assms(1) by (auto simp: signs_in_def)
  then have "(if ua_user_id a = j then f a else a) \<in> set (po_accounts (update_account j f db))"
    by (auto simp: update_account_def set_sql_update)
  then show ?thesis using a assms(2-5) unfolding signs_in_def
    by (intro bexI[of _ "if ua_user_id a = j then f a else a"]) simp_all
qed

lemma claimed_signs_in:
  assumes "claim_account now i email h db = Inr dbc" and "trim_space email \<noteq> []" and "portal_ok db"
    and "\<forall>a. UserAccount i db = Inr a \<longrightarrow> \<not> ua_disabled a"
  shows "signs_in i (NormalizeEmail email) h dbc"
proof (cases "UserAccount i db")
  case (Inl err)
  then obtain a where "CreateUserAccount now i (NormalizeEmail email) h db = Inr (a, dbc)"
    using assms(1) by (auto simp: claim_account_def Let_def split: if_splits sum.splits db_error.splits)
  then show ?thesis by (auto simp: CreateUserAccount_def Let_def signs_in_def split: if_splits)
next
  case (Inr a)
  have a: "a \<in> set (po_accounts db)" "ua_user_id a = i" using account_found(2)[OF Inr] by auto
  have e: "ua_email a = NormalizeEmail email" and dbc: "SetUserAccountPassword now i h db = Inr dbc"
    using assms(1,2) Inr by (auto simp: claim_account_def split: if_splits sum.splits)
  define f :: "user_account \<Rightarrow> user_account" where "f = (\<lambda>a. a\<lparr>ua_password_hash := h, ua_updated_at := to_unix now\<rparr>)"
  have "po_accounts dbc = sql_update (\<lambda>a. ua_user_id a = i) f (po_accounts db)"
    using dbc by (auto simp: SetUserAccountPassword_def DeletePortalSessionsFor_def update_account_def f_def split: if_splits)
  then have "f a \<in> set (po_accounts dbc)" using a by (auto simp: set_sql_update)
  then show ?thesis using a e assms(4) Inr unfolding signs_in_def by (intro bexI[of _ "f a"]) (simp_all add: f_def)
qed

lemma login_works:
  assumes "portal_ok db" and "signs_in i (NormalizeEmail email) h db" and "VerifyPassword (pe_kdf env) password h"
    and "token_hash env (pd_token dr) \<notin> ps_token_hash ` set (po_sessions db)"
  obtains u db' where "portalLogin env dr now email password db
      = (Session (pd_token dr) (to_unix (now + PortalSessionTTL)), db')"
    and "UserByPortalSession now (token_hash env (pd_token dr)) db' = Inr u" and "u_id u = i"
proof -
  obtain a where a: "a \<in> set (po_accounts db)" "ua_user_id a = i" "ua_email a = NormalizeEmail email"
    "ua_password_hash a = h" "\<not> ua_disabled a" using assms(2) by (auto simp: signs_in_def)
  have "i \<in> known db" using a assms(1) by (force simp: portal_ok_def accounts_ok_def accounts_of_def)
  then obtain u where u: "user_row (po_access db) i = Some u"
    by (cases "user_row (po_access db) i") (auto simp: user_row_def sql_row_None user_ids_def)
  define s where "s = \<lparr>ps_token_hash = token_hash env (pd_token dr), ps_user_id = i, ps_created_at = to_unix now,
        ps_expires_at = to_unix (now + PortalSessionTTL)\<rparr>"
  define db' where "db' = TouchUserAccountLogin now i (db\<lparr>po_sessions := po_sessions db @ [s]\<rparr>)"
  have login: "portalLogin env dr now email password db = (Session (pd_token dr) (to_unix (now + PortalSessionTTL)), db')"
    using account_unique(2)[OF assms(1) a(1,3)] a(2,4,5) assms(3,4) \<open>i \<in> known db\<close>
    by (simp add: portalLogin_def issuePortalSession_def CreatePortalSession_def db'_def s_def)
  have "signs_in i (NormalizeEmail email) h db'"
    unfolding db'_def TouchUserAccountLogin_def
    by (rule signs_in_update) (use assms(2) in \<open>simp_all add: signs_in_def\<close>)
  then have "live_session now (token_hash env (pd_token dr)) db' s"
    by (auto simp: live_session_def s_def signs_in_def list_ex_iff to_unix_def PortalSessionTTL_def hour_def minute_def second_def)
  moreover have "sql_row (live_session now (token_hash env (pd_token dr)) db') (po_sessions db) = None"
    using assms(4) by (auto simp: sql_row_None live_session_def image_iff)
  ultimately have "sql_row (live_session now (token_hash env (pd_token dr)) db') (po_sessions db') = Some s"
    by (simp add: db'_def TouchUserAccountLogin_def sql_row_append) (simp add: sql_row_def)
  then have "UserByPortalSession now (token_hash env (pd_token dr)) db' = Inr u"
    using u by (simp add: UserByPortalSession_def s_def GetUser_def db'_def TouchUserAccountLogin_def found_def)
  with login user_row_id[OF u] show ?thesis using that by blast
qed


lemma link_gone: "GetPortalChallenge now h p (DeletePortalChallenge h db) = Inl ErrNoRows"
proof -
  have "sql_row (\<lambda>c. pc_token_hash c = h \<and> pc_purpose c = p \<and> to_unix now < pc_expires_at c)
      (sql_delete (\<lambda>c. pc_token_hash c = h) (po_challenges db)) = None"
    by (auto simp: sql_row_None sql_delete_def)
  then show ?thesis by (simp add: GetPortalChallenge_def DeletePortalChallenge_def found_def)
qed

lemma link_other:
  "h \<noteq> h' \<Longrightarrow> GetPortalChallenge now h' p (DeletePortalChallenge h db) = GetPortalChallenge now h' p db"
proof -
  have "find (\<lambda>c. pc_token_hash c = h' \<and> P c) (filter (\<lambda>c. pc_token_hash c \<noteq> h) t) = find (\<lambda>c. pc_token_hash c = h' \<and> P c) t"
    if "h \<noteq> h'" for P and t :: "portal_challenge list"
    using that by (induction t) auto
  then show "h \<noteq> h' \<Longrightarrow> ?thesis"
    by (simp add: GetPortalChallenge_def DeletePortalChallenge_def sql_row_def sql_delete_def)
qed

lemma same_links: "po_challenges db' = po_challenges db \<Longrightarrow> GetPortalChallenge now h p db' = GetPortalChallenge now h p db"
  by (simp add: GetPortalChallenge_def)

lemma claimed_links: "claim_account now i e h db = Inr dbc \<Longrightarrow> po_challenges dbc = po_challenges db"
  by (auto simp: claim_account_def SetUserAccountPassword_def DeletePortalSessionsFor_def Let_def
      dest: created_account(7) split: sum.splits if_splits db_error.splits)

lemma links_after_claim:
  assumes "portalClaim env dr now token email password db = (Session tok e, db1)"
  shows "GetPortalChallenge t h p db1 = GetPortalChallenge t h p (DeletePortalChallenge (token_hash env token) db)"
proof -
  obtain ch where ch: "GetPortalChallenge now (token_hash env token) PortalPurposeClaim db = Inr ch"
    using assms by (auto simp: portalClaim_def Let_def split: if_splits sum.splits)
  obtain h' dbc where "claim_account now (pc_user_id ch) email h' db = Inr dbc"
    and i: "issuePortalSession env dr now (pc_user_id ch)
      (DeletePortalSessionsFor (pc_user_id ch) (DeletePortalChallenge (token_hash env token) dbc)) = (Session tok e, db1)"
    using claimE[OF assms ch] .
  then have "po_challenges db1 = po_challenges (DeletePortalChallenge (token_hash env token) db)"
    using claimed_links issued_challenges[of env dr now "pc_user_id ch"
        "DeletePortalSessionsFor (pc_user_id ch) (DeletePortalChallenge (token_hash env token) dbc)"]
    by (simp add: DeletePortalSessionsFor_def DeletePortalChallenge_def)
  then show ?thesis by (rule same_links)
qed


lemma claim_signs_in:
  assumes "portal_ok db" and "GetPortalChallenge now (token_hash env token) PortalPurposeClaim db = Inr ch"
    and "\<forall>a. UserAccount (pc_user_id ch) db = Inr a \<longrightarrow> \<not> ua_disabled a" and "trim_space email \<noteq> []"
    and "portalClaim env dr now token email password db = (Session tok e, db1)"
  shows "\<exists>h. HashPassword (pe_kdf env) (pd_salt dr) password = Some h \<and> signs_in (pc_user_id ch) (NormalizeEmail email) h db1"
proof -
  obtain h dbc where h: "HashPassword (pe_kdf env) (pd_salt dr) password = Some h"
    and c: "claim_account now (pc_user_id ch) email h db = Inr dbc"
    and i: "issuePortalSession env dr now (pc_user_id ch)
      (DeletePortalSessionsFor (pc_user_id ch) (DeletePortalChallenge (token_hash env token) dbc)) = (Session tok e, db1)"
    using claimE[OF assms(5,2)] .
  have "signs_in (pc_user_id ch) (NormalizeEmail email) h dbc"
    using c assms(4,1,3) by (rule claimed_signs_in)
  then have "signs_in (pc_user_id ch) (NormalizeEmail email) h db1"
    using i by (elim sessionE) (auto simp: TouchUserAccountLogin_def DeletePortalSessionsFor_def DeletePortalChallenge_def
        signs_in_def intro!: signs_in_update[unfolded signs_in_def])
  with h show ?thesis by blast
qed

text \<open>Who claims an account with an address and a password signs in with them from then on, as the subscriber the link was
  issued for, and the link is spent. (The account is not switched off, and the random token of the login is new.)\<close>

theorem claimed_account_signs_in:
  assumes "portal_ok db" and "GetPortalChallenge now (token_hash env token) PortalPurposeClaim db = Inr ch"
    and "\<forall>a. UserAccount (pc_user_id ch) db = Inr a \<longrightarrow> \<not> ua_disabled a" and "trim_space email \<noteq> []"
    and "portalClaim env dr now token email password db = (Session tok e, db1)"
    and "kdf_ok (pe_kdf env)" and "list_all byte_ok (pd_salt dr)"
    and "token_hash env (pd_token dr') \<notin> ps_token_hash ` set (po_sessions db1)"
  shows "(\<exists>u db2. portalLogin env dr' now' email password db1
            = (Session (pd_token dr') (to_unix (now' + PortalSessionTTL)), db2)
          \<and> UserByPortalSession now' (token_hash env (pd_token dr')) db2 = Inr u \<and> u_id u = pc_user_id ch)
    \<and> GetPortalChallenge t (token_hash env token) PortalPurposeClaim db1 = Inl ErrNoRows"
proof
  obtain h where h: "HashPassword (pe_kdf env) (pd_salt dr) password = Some h"
    and s: "signs_in (pc_user_id ch) (NormalizeEmail email) h db1"
    using claim_signs_in[OF assms(1-5)] by blast
  have ok: "portal_ok db1" using ok_claim[OF assms(1)] assms(5) by (metis snd_conv)
  have "VerifyPassword (pe_kdf env) password h" by (rule password_verifies(1)[OF assms(6,7) h])
  from login_works[OF ok s this assms(8)]
  show "\<exists>u db2. portalLogin env dr' now' email password db1
            = (Session (pd_token dr') (to_unix (now' + PortalSessionTTL)), db2)
          \<and> UserByPortalSession now' (token_hash env (pd_token dr')) db2 = Inr u \<and> u_id u = pc_user_id ch"
    by (metis (no_types, lifting))
  show "GetPortalChallenge t (token_hash env token) PortalPurposeClaim db1 = Inl ErrNoRows"
    by (simp add: links_after_claim[OF assms(5)] link_gone)
qed

text \<open>Another link stays as good as it was: the links that were issued before outlive the claim, and so a new password.\<close>

theorem other_links_survive:
  assumes "portalClaim env dr now token email password db = (Session tok e, db1)"
    and "token_hash env token' \<noteq> token_hash env token"
  shows "GetPortalChallenge t (token_hash env token') PortalPurposeClaim db1
    = GetPortalChallenge t (token_hash env token') PortalPurposeClaim db"
  using assms(2) by (simp add: links_after_claim[OF assms(1)] link_other)
section \<open>Examples\<close>

definition portal_kdf :: kdf where
  "portal_kdf p s i n = Some (take n (map of_char p @ replicate n 0))"

definition demo_portal :: portal_env where
  "demo_portal = \<lparr>pe_sha256 = map of_char, pe_kdf = portal_kdf, pe_box = plain_box,
     pe_config = \<lparr>pg_mode = PortalClosed, pg_invite_code = [], pg_public_url = ''https://panel''\<rparr>, pe_address = Some\<rparr>"

definition demo_draw :: "string \<Rightarrow> portal_draws" where
  "demo_draw token = \<lparr>pd_token = token, pd_id = ''00000000000000ff'', pd_name_id = ''00000000000000fe'', pd_nonce = [], pd_salt = [7]\<rparr>"

definition demo_subscribers :: access_db where
  "demo_subscribers = \<lparr>ad_users = map (\<lambda>n. (new_subscriber n)\<lparr>u_id := n\<rparr>) [''ada'', ''bob'', ''cyd''], ad_groups = [], ad_nodes = [],
     ad_relays = [], ad_proxies = [], ad_profiles = [], ad_rulesets = [], ad_user_profiles = {}, ad_user_profile_denies = {},
     ad_group_profiles = {}, ad_user_denies = (\<lambda>_. {}), ad_user_allows = (\<lambda>_. {}), ad_group_denies = (\<lambda>_. {})\<rparr>"

definition demo_account :: "id \<Rightarrow> string \<Rightarrow> user_account" where
  "demo_account i email = \<lparr>ua_user_id = i, ua_email = email,
     ua_password_hash = ''pbkdf2$1$Bw$'' @ b64_encode (map of_char ''longpass''), ua_email_verified = False,
     ua_disabled = False, ua_created_at = 0, ua_updated_at = 0, ua_last_login = 0\<rparr>"

definition demo_tables :: "portal_challenge list \<Rightarrow> portal_db" where
  "demo_tables links = \<lparr>po_access = demo_subscribers, po_accounts = [demo_account ''ada'' ''a@b'', demo_account ''bob'' ''b@b''],
     po_sessions = [], po_challenges = links, po_audit = []\<rparr>"

definition demo_link :: portal_challenge where
  "demo_link = \<lparr>pc_token_hash = token_hash demo_portal ''link'', pc_user_id = ''cyd'', pc_purpose = PortalPurposeClaim,
     pc_data = [], pc_attempts = 0, pc_created_at = 0, pc_expires_at = 5000\<rparr>"

definition demo_reply :: "portal_draws \<Rightarrow> int \<Rightarrow> portal_request \<Rightarrow> portal_db \<Rightarrow> portal_db" where
  "demo_reply dr t r db = snd (portal_serve demo_portal dr (unix_time t) r db)"

lemma demo_reply_serve:
  "portal_serve demo_portal dr (unix_time t) r db = (fst (portal_serve demo_portal dr (unix_time t) r db), demo_reply dr t r db)"
  by (simp add: demo_reply_def)

lemma demo_tables_ok: "portal_ok (demo_tables [])" "portal_ok (demo_tables [demo_link])"
  by code_simp+

abbreviation demo_signed_in :: portal_db where
  "demo_signed_in \<equiv> demo_reply (demo_draw ''tok'') 1000 (PortalLogin '' B@B'' ''longpass'') (demo_tables [])"

lemma demo_portal_run:
  "portal_run demo_portal [(unix_time 1000, PortalLogin '' B@B'' ''longpass'', demo_tables [])] demo_signed_in"
  by (rule portal_run.step[OF portal_run.start[OF demo_tables_ok(1)] demo_reply_serve]) (simp_all add: demo_tables_def)

lemma demo_portal_user:
  "\<exists>u. UserByPortalSession (unix_time 2000) (token_hash demo_portal ''tok'') demo_signed_in = Inr u \<and> u_id u = ''bob''"
proof -
  have "(case UserByPortalSession (unix_time 2000) (token_hash demo_portal ''tok'') demo_signed_in of
      Inl _ \<Rightarrow> False | Inr u \<Rightarrow> u_id u = ''bob'')" by code_simp
  then show ?thesis by (simp split: sum.splits)
qed

theorem portal_session_earned_witness:
  "\<exists>t r db0. (t, r, db0) \<in> set [(unix_time 1000, PortalLogin '' B@B'' ''longpass'', demo_tables [])]
    \<and> to_unix (unix_time 2000) < to_unix (t + PortalSessionTTL)
    \<and> (password_proof demo_portal r db0 ''bob'' \<or>
       (\<exists>ch. link_spent demo_portal t r db0 ch \<and> pc_user_id ch = ''bob''
         \<and> (\<exists>t1 actor db1. (t1, IssueLink actor ''bob'', db1) \<in> set [(unix_time 1000, PortalLogin '' B@B'' ''longpass'', demo_tables [])]
              \<and> pc_expires_at ch = to_unix (t1 + PortalClaimTTL))))"
proof -
  obtain u where u: "UserByPortalSession (unix_time 2000) (token_hash demo_portal ''tok'') demo_signed_in = Inr u"
    "u_id u = ''bob''" using demo_portal_user by blast
  show ?thesis using portal_session_earned[OF demo_portal_run u(1)] unfolding u(2) .
qed

theorem addresses_stay_witness:
  "portal_ok demo_signed_in \<and> (\<exists>e' d'. (''bob'', e', d') \<in> set (accounts_of demo_signed_in) \<and> e' = ''b@b'')"
proof -
  have old: "(''bob'', ''b@b'', False) \<in> set (accounts_of (demo_tables []))" by code_simp
  have "''bob'' \<in> fst ` set (accounts_of demo_signed_in)" by code_simp
  then obtain e' d' where new: "(''bob'', e', d') \<in> set (accounts_of demo_signed_in)" by auto
  note stays = addresses_stay[OF demo_tables_ok(1) demo_reply_serve[of "demo_draw ''tok''" 1000 "PortalLogin '' B@B'' ''longpass''"]]
  have "e' = ''b@b''" using conjunct2[OF stays] old new by blast
  then show ?thesis using conjunct1[OF stays] new by blast
qed

definition demo_off :: portal_db where
  "demo_off = snd (setPortalAccess (unix_time 900) EnvTokenIdentity ''ada'' True (demo_tables []))"

theorem switched_off_stays_out_witness:
  "\<exists>u. UserByPortalSession (unix_time 2000) (token_hash demo_portal ''tok'')
      (demo_reply (demo_draw ''tok'') 1000 (PortalLogin '' B@B'' ''longpass'') demo_off) = Inr u \<and> u_id u \<noteq> ''ada''"
proof -
  have "fst (setPortalAccess (unix_time 900) EnvTokenIdentity ''ada'' True (demo_tables [])) = Empty" by code_simp
  then have off: "setPortalAccess (unix_time 900) EnvTokenIdentity ''ada'' True (demo_tables []) = (Empty, demo_off)"
    by (simp add: demo_off_def prod_eq_iff)
  have trace: "portal_trace demo_portal ([] @ [PortalLogin '' B@B'' ''longpass'']) demo_off
      (demo_reply (demo_draw ''tok'') 1000 (PortalLogin '' B@B'' ''longpass'') demo_off)"
    by (rule trace_more[OF trace_none demo_reply_serve])
  have "(case UserByPortalSession (unix_time 2000) (token_hash demo_portal ''tok'')
      (demo_reply (demo_draw ''tok'') 1000 (PortalLogin '' B@B'' ''longpass'') demo_off) of Inl _ \<Rightarrow> False | Inr u \<Rightarrow> True)"
    by code_simp
  then obtain u where "UserByPortalSession (unix_time 2000) (token_hash demo_portal ''tok'')
      (demo_reply (demo_draw ''tok'') 1000 (PortalLogin '' B@B'' ''longpass'') demo_off) = Inr u"
    by (auto split: sum.splits)
  with switched_off_stays_out[OF off trace] show ?thesis by auto
qed


lemma portal_kdf_ok: "kdf_ok portal_kdf"
  by (auto simp: kdf_ok_def portal_kdf_def list_all_iff byte_ok_def of_char_less_256 dest!: in_set_takeD)

lemma demo_link_found:
  "GetPortalChallenge (unix_time 1000) (token_hash demo_portal ''link'') PortalPurposeClaim (demo_tables [demo_link]) = Inr demo_link"
  by (simp add: GetPortalChallenge_def demo_tables_def demo_link_def sql_row_def found_def)

lemma demo_claim:
  "\<exists>h db1. HashPassword portal_kdf [7] ''longpass'' = Some h \<and>
     portalClaim demo_portal (demo_draw ''tok'') (unix_time 1000) ''link'' '' C@B'' ''longpass'' (demo_tables [demo_link])
       = (Session ''tok'' (to_unix (unix_time 1000 + PortalSessionTTL)), db1)
     \<and> map ps_token_hash (po_sessions db1) = [token_hash demo_portal ''tok'']"
proof -
  obtain h where h: "HashPassword portal_kdf [7] ''longpass'' = Some h" by (simp add: HashPassword_def portal_kdf_def)
  have e: "NormalizeEmail '' C@B'' = ''c@b''" "NormalizeEmail ''c@b'' = ''c@b''" by code_simp+
  have draw: "pd_salt (demo_draw ''tok'') = [7]" "pd_token (demo_draw ''tok'') = ''tok''" by (simp_all add: demo_draw_def)
  have kdf: "pe_kdf demo_portal = portal_kdf" by (simp add: demo_portal_def)
  have u: "UserAccount ''cyd'' (demo_tables [demo_link]) = Inl ErrNoRows"
    by (simp add: UserAccount_def demo_tables_def demo_account_def sql_row_def found_def)
  have rows: "ua_user_id ` set (po_accounts (demo_tables [demo_link])) = {''ada'', ''bob''}"
      "ua_email ` set (po_accounts (demo_tables [demo_link])) = {''a@b'', ''b@b''}"
      "po_access (demo_tables [demo_link]) = demo_subscribers" "po_sessions (demo_tables [demo_link]) = []"
    by (simp_all add: demo_tables_def demo_account_def)
  have ids: "user_ids demo_subscribers = [''ada'', ''bob'', ''cyd'']" by code_simp
  have "\<exists>dbc. claim_account (unix_time 1000) ''cyd'' '' C@B'' h (demo_tables [demo_link]) = Inr dbc
      \<and> po_sessions dbc = [] \<and> po_access dbc = demo_subscribers"
    by (simp add: claim_account_def u e CreateUserAccount_def ids rows Let_def)
  then obtain dbc where "claim_account (unix_time 1000) ''cyd'' '' C@B'' h (demo_tables [demo_link]) = Inr dbc"
    "po_sessions dbc = []" "po_access dbc = demo_subscribers" by blast
  moreover have "pc_user_id demo_link = ''cyd''" by (simp add: demo_link_def)
  ultimately show ?thesis
    using h demo_link_found
    by (simp add: portalClaim_def draw kdf MinPasswordLen_def issuePortalSession_def CreatePortalSession_def ids
        DeletePortalSessionsFor_def DeletePortalChallenge_def sql_delete_def TouchUserAccountLogin_def)
qed

lemma demo_hashes: "token_hash demo_portal ''tok2'' \<noteq> token_hash demo_portal ''tok''"
  by code_simp

lemma demo_unclaimed: "\<forall>a. UserAccount (pc_user_id demo_link) (demo_tables [demo_link]) = Inr a \<longrightarrow> \<not> ua_disabled a"
  by (simp add: UserAccount_def demo_tables_def demo_account_def demo_link_def sql_row_def found_def)

lemma demo_claim_facts:
  "trim_space '' C@B'' \<noteq> []" "kdf_ok (pe_kdf demo_portal)" "list_all byte_ok (pd_salt (demo_draw ''tok''))"
  by (code_simp, simp add: demo_portal_def portal_kdf_ok, simp add: demo_draw_def byte_ok_def)

lemma demo_names: "pd_token (demo_draw t) = t" "pc_user_id demo_link = ''cyd''"
  by (simp_all add: demo_draw_def demo_link_def)

lemma demo_fresh:
  assumes "map ps_token_hash (po_sessions db1) = [token_hash demo_portal ''tok'']"
  shows "token_hash demo_portal (pd_token (demo_draw ''tok2'')) \<notin> ps_token_hash ` set (po_sessions db1)"
proof -
  have "ps_token_hash ` set (po_sessions db1) = {token_hash demo_portal ''tok''}"
    using arg_cong[OF assms, of set] by (simp only: list.set_map list.set)
  then show ?thesis using demo_hashes by (simp only: demo_names singleton_iff not_False_eq_True)
qed

theorem claimed_account_signs_in_witness:
  "\<exists>db1. portalClaim demo_portal (demo_draw ''tok'') (unix_time 1000) ''link'' '' C@B'' ''longpass'' (demo_tables [demo_link])
       = (Session ''tok'' (to_unix (unix_time 1000 + PortalSessionTTL)), db1)
    \<and> (\<exists>u db2. portalLogin demo_portal (demo_draw ''tok2'') (unix_time 2000) '' C@B'' ''longpass'' db1
            = (Session ''tok2'' (to_unix (unix_time 2000 + PortalSessionTTL)), db2)
          \<and> UserByPortalSession (unix_time 2000) (token_hash demo_portal ''tok2'') db2 = Inr u \<and> u_id u = ''cyd'')
    \<and> GetPortalChallenge (unix_time 2000) (token_hash demo_portal ''link'') PortalPurposeClaim db1 = Inl ErrNoRows"
proof -
  from demo_claim obtain db1 where
    c: "portalClaim demo_portal (demo_draw ''tok'') (unix_time 1000) ''link'' '' C@B'' ''longpass'' (demo_tables [demo_link])
      = (Session ''tok'' (to_unix (unix_time 1000 + PortalSessionTTL)), db1)"
    and s: "map ps_token_hash (po_sessions db1) = [token_hash demo_portal ''tok'']"
    by (elim exE conjE)
  show ?thesis
    by (rule exI, rule conjI, rule c)
       (rule claimed_account_signs_in[OF demo_tables_ok(2) demo_link_found demo_unclaimed demo_claim_facts(1) c
          demo_claim_facts(2,3) demo_fresh[OF s], unfolded demo_names])
qed

end
