(* ===== verification/PortalView.thy ===== *)
theory PortalView
  imports AccessSpec Alerts History Portal TemplateStore
begin

text \<open>
  What a subscriber sees of their own account: package \<open>portal\<close> (\<open>core/internal/portal/\<close>), the queries it makes
  (\<open>core/internal/store/portal.go\<close>, \<open>ruleset.go\<close>) and the page of \<open>core/internal/api/portal_me.go\<close>. The tables are a
  record of those the queries read; a node on the page is a whitelist of fields, as in the code.

  The theorems: the page depends on the rows of the signed-in subscriber only, so nothing about another one reaches it;
  the nodes listed are those the subscriber's profiles are bound to, less the ones withheld, each once; the traffic of
  a node is the series of that subscriber on that node; and the link on the page is the one that was issued last.
\<close>

section \<open>Rulesets\<close>

record ruleset =
  rs_id :: id
  rs_name :: string
  rs_preset :: string
  rs_url :: string
  rs_ini :: string
  rs_fetched_at :: "int option"
  rs_last_error :: string
  rs_created_at :: int
  rs_updated_at :: int

record rule_list =
  rl_url :: string
  rl_body :: string
  rl_etag :: string
  rl_fetched_at :: int

definition CreateRuleset ::
  "id \<Rightarrow> time \<Rightarrow> string \<Rightarrow> string \<Rightarrow> string \<Rightarrow> ruleset list \<Rightarrow> (db_error, ruleset \<times> ruleset list) result" where
  "CreateRuleset newid now name preset url t =
     (let r = \<lparr>rs_id = newid, rs_name = name, rs_preset = preset, rs_url = url, rs_ini = [], rs_fetched_at = None,
               rs_last_error = [], rs_created_at = to_unix now, rs_updated_at = to_unix now\<rparr>
      in if newid \<in> set (map rs_id t) \<or> name \<in> set (map rs_name t) then Inl UniqueViolation else Inr (r, t @ [r]))"

definition GetRuleset :: "id \<Rightarrow> ruleset list \<Rightarrow> (db_error, ruleset) result" where
  "GetRuleset i t = found (sql_row (\<lambda>r. rs_id r = i) t)"

definition ListRulesets :: "ruleset list \<Rightarrow> ruleset list" where
  "ListRulesets t = sort_key rs_name t"

definition UpdateRuleset :: "time \<Rightarrow> id \<Rightarrow> string \<Rightarrow> string \<Rightarrow> ruleset list \<Rightarrow> (db_error, ruleset list) result" where
  "UpdateRuleset now i name url t =
     (if rows_affected (\<lambda>r. rs_id r = i) t = 0 then Inl ErrNoRows
      else if \<exists>r\<in>set t. rs_id r \<noteq> i \<and> rs_name r = name then Inl UniqueViolation
      else Inr (sql_update (\<lambda>r. rs_id r = i) (\<lambda>r. r\<lparr>rs_name := name, rs_url := url, rs_updated_at := to_unix now\<rparr>) t))"

definition DeleteRuleset :: "id \<Rightarrow> ruleset list \<Rightarrow> (db_error, ruleset list) result" where
  "DeleteRuleset i t =
     (if rows_affected (\<lambda>r. rs_id r = i) t = 0 then Inl ErrNoRows else Inr (sql_delete (\<lambda>r. rs_id r = i) t))"

definition SaveRulesetFetch :: "time \<Rightarrow> id \<Rightarrow> string \<Rightarrow> string \<Rightarrow> ruleset list \<Rightarrow> ruleset list" where
  "SaveRulesetFetch now i ini failure t =
     sql_update (\<lambda>r. rs_id r = i)
       (if failure \<noteq> [] then (\<lambda>r. r\<lparr>rs_last_error := failure, rs_updated_at := to_unix now\<rparr>)
        else (\<lambda>r. r\<lparr>rs_ini := ini, rs_fetched_at := Some (to_unix now), rs_last_error := [], rs_updated_at := to_unix now\<rparr>)) t"

definition GetRuleList :: "string \<Rightarrow> rule_list list \<Rightarrow> (db_error, rule_list) result" where
  "GetRuleList url t = found (sql_row (\<lambda>l. rl_url l = url) t)"

definition PutRuleList :: "time \<Rightarrow> rule_list \<Rightarrow> rule_list list \<Rightarrow> rule_list list" where
  "PutRuleList now l t =
     (let l = l\<lparr>rl_fetched_at := to_unix now\<rparr>
      in if list_ex (\<lambda>r. rl_url r = rl_url l) t then sql_update (\<lambda>r. rl_url r = rl_url l) (\<lambda>r. l) t else t @ [l])"

definition PruneRuleLists :: "string set \<Rightarrow> rule_list list \<Rightarrow> nat \<times> rule_list list" where
  "PruneRuleLists keep t = (rows_affected (\<lambda>l. rl_url l \<notin> keep) t, sql_delete (\<lambda>l. rl_url l \<notin> keep) t)"

section \<open>Queries\<close>

record view_db =
  vw_creds :: cred_db
  vw_tmpl :: tmpl_db
  vw_traffic :: "traffic_row_t list"
  vw_devices :: "device_row list"
  vw_alerts :: alert_db
  vw_rulesets :: "ruleset list"

abbreviation vw_access :: "view_db \<Rightarrow> access_db" where
  "vw_access v \<equiv> cd_access (vw_creds v)"

definition SubToken :: "box \<Rightarrow> id \<Rightarrow> access_db \<Rightarrow> (db_error, string) result" where
  "SubToken b userID db =
     (case user_row db userID of
        None \<Rightarrow> Inl ErrNoRows
      | Some r \<Rightarrow>
          if u_sub_token_enc r = [] then Inr []
          else (case Open b (sealed_aad (SubTokenKey userID)) (u_sub_token_enc r) of
                  Inl e \<Rightarrow> Inl (Sealing e)
                | Inr token \<Rightarrow> Inr token))"

type_synonym traffic_point = "int \<times> int \<times> int"

definition series_points :: "traffic_row_t list \<Rightarrow> traffic_point list" where
  "series_points hit =
     map (\<lambda>b. (b, sum_list (map tb_up (filter (\<lambda>r. tb_bucket_start r = b) hit)),
                  sum_list (map tb_down (filter (\<lambda>r. tb_bucket_start r = b) hit))))
       (sorted_list_of_set (set (map tb_bucket_start hit)))"

text \<open>The groups of \<open>GROUP BY node_id, bucket_start\<close> as a map from nodes; \<^term>\<open>None\<close> is the error that no
  user was given.\<close>

definition UserNodeTrafficSeries ::
  "id \<Rightarrow> time \<Rightarrow> time \<Rightarrow> traffic_row_t list \<Rightarrow> (id, traffic_point list) gomap option" where
  "UserNodeTrafficSeries userID a z rows =
     (if userID = [] then None
      else
        (let hit = filter (\<lambda>r. tb_user_id r = userID \<and> to_unix a \<le> tb_bucket_start r \<and> tb_bucket_start r < to_unix z) rows
         in Some (map (\<lambda>n. (n, series_points (filter (\<lambda>r. tb_node_id r = n) hit)))
                   (sorted_list_of_set (set (map tb_node_id hit))))))"

section \<open>Views\<close>

datatype view_error = Store db_error | SeriesNeedsUser | NoDeviceOpens | NoSuchRuleset

definition store_err :: "(db_error, 'a) result \<Rightarrow> (view_error, 'a) result" where
  "store_err r = (case r of Inl e \<Rightarrow> Inl (Store e) | Inr a \<Rightarrow> Inr a)"

record account =
  vc_name :: string
  vc_quota_bytes :: int
  vc_used_bytes :: int
  vc_expires_at :: int
  vc_renew_period :: int
  vc_created_at :: int
  vc_device_limit :: int
  vc_email :: string
  vc_status :: string

definition StatusActive :: string where "StatusActive = ''active''"
definition StatusNoAccess :: string where "StatusNoAccess = ''no_access''"

definition status :: "user \<Rightarrow> nat \<Rightarrow> int \<Rightarrow> string" where
  "status u profileCount now =
     (let reason = Reason u now
      in if reason \<noteq> [] then reason else if profileCount = 0 then StatusNoAccess else StatusActive)"

definition get_user :: "id \<Rightarrow> access_db \<Rightarrow> (view_error, user) result" where
  "get_user i db = store_err (found (user_row db i))"

definition Account :: "portal_identity \<Rightarrow> time \<Rightarrow> view_db \<Rightarrow> (view_error, account) result" where
  "Account me now v =
     bind_result (get_user (pi_user_id me) (vw_access v)) (\<lambda>u.
       Inr \<lparr>vc_name = u_name u, vc_quota_bytes = u_quota_bytes u, vc_used_bytes = u_used_bytes u,
            vc_expires_at = u_expires_at u, vc_renew_period = u_renew_period u, vc_created_at = u_created_at u,
            vc_device_limit = u_device_limit u, vc_email = pi_email me,
            vc_status = status u (length (UserProfileIDs (vw_access v) (u_id u))) (to_unix now)\<rparr>)"

record view_node =
  vn_id :: id
  vn_name :: string
  vn_index :: nat
  vn_availability :: string
  vn_traffic :: "traffic_point list"

definition AvailAvailable :: string where "AvailAvailable = ''available''"
definition AvailProvisioning :: string where "AvailProvisioning = ''provisioning''"
definition AvailUnavailable :: string where "AvailUnavailable = ''unavailable''"

definition availability :: "box \<Rightarrow> id \<Rightarrow> id \<Rightarrow> node \<Rightarrow> view_db \<Rightarrow> string" where
  "availability b userID pid n v =
     (case FindCredential b userID pid (n_id n) [] (vw_creds v) of
        Inl _ \<Rightarrow> AvailProvisioning
      | Inr _ \<Rightarrow>
          if NodeAnnouncedOnline (n_id n) (vw_alerts v) \<and> n_xray_version n \<noteq> [] then AvailAvailable else AvailUnavailable)"

fun profile_loop ::
  "box \<Rightarrow> id \<Rightarrow> view_db \<Rightarrow> (id, traffic_point list) gomap \<Rightarrow> id \<Rightarrow> id list \<Rightarrow> id set \<Rightarrow> view_node list \<times> id set" where
  "profile_loop b userID v series pid [] seen = ([], seen)"
| "profile_loop b userID v series pid (nid # nids) seen =
     (if nid \<in> seen then profile_loop b userID v series pid nids seen
      else if nid \<in> UserNodeDenies (vw_access v) userID then profile_loop b userID v series pid nids (insert nid seen)
      else
        (case GetNode b nid (ad_nodes (vw_access v)) of
           Inl _ \<Rightarrow> profile_loop b userID v series pid nids (insert nid seen)
         | Inr n \<Rightarrow>
             (case profile_loop b userID v series pid nids (insert nid seen) of
                (out, seen) \<Rightarrow>
                  (\<lparr>vn_id = nid, vn_name = n_display_name n, vn_index = 0,
                    vn_availability = availability b userID pid n v,
                    vn_traffic = (case map_of series nid of None \<Rightarrow> [] | Some ps \<Rightarrow> ps)\<rparr> # out, seen))))"

fun profiles_loop ::
  "box \<Rightarrow> id \<Rightarrow> view_db \<Rightarrow> (id, traffic_point list) gomap \<Rightarrow> id list \<Rightarrow> id set \<Rightarrow> view_node list" where
  "profiles_loop b userID v series [] seen = []"
| "profiles_loop b userID v series (pid # pids) seen =
     (case profile_loop b userID v series pid (sort (ProfileNodeIDs pid (vw_tmpl v))) seen of
        (out, seen) \<Rightarrow> out @ profiles_loop b userID v series pids seen)"

definition number_nodes :: "view_node list \<Rightarrow> view_node list" where
  "number_nodes ns = map (\<lambda>(i, n). n\<lparr>vn_index := i + 1\<rparr>) (zip [0..<length ns] ns)"

definition Nodes :: "box \<Rightarrow> portal_identity \<Rightarrow> time \<Rightarrow> view_db \<Rightarrow> (view_error, view_node list) result" where
  "Nodes b me now v =
     (case UserNodeTrafficSeries (pi_user_id me) (now - 24 * hour) now (vw_traffic v) of
        None \<Rightarrow> Inl SeriesNeedsUser
      | Some series \<Rightarrow>
          Inr (number_nodes
            (profiles_loop b (pi_user_id me) v series (sort (UserProfileIDs (vw_access v) (pi_user_id me))) {})))"

record subscription =
  vs_available :: bool
  vs_url :: string
  vs_kinds :: "string list"

definition Kinds :: "string list" where "Kinds = [''xray-json'', ''clash'', ''vless-uri'', ''stash'']"

definition Subscription ::
  "box \<Rightarrow> portal_identity \<Rightarrow> string \<Rightarrow> view_db \<Rightarrow> (view_error, subscription) result" where
  "Subscription b me publicURL v =
     bind_result (store_err (SubToken b (pi_user_id me) (vw_access v))) (\<lambda>token.
       Inr (if token = [] then \<lparr>vs_available = False, vs_url = [], vs_kinds = Kinds\<rparr>
            else \<lparr>vs_available = True, vs_url = trim_right_char CHR ''/'' publicURL @ ''/sub/'' @ token,
                  vs_kinds = Kinds\<rparr>))"

definition Devices :: "box \<Rightarrow> portal_identity \<Rightarrow> view_db \<Rightarrow> (view_error, (string \<times> int) list) result" where
  "Devices b me v =
     (case UserDevices b (pi_user_id me) (vw_devices v) of
        None \<Rightarrow> Inl NoDeviceOpens
      | Some rows \<Rightarrow> Inr (map (\<lambda>d. (de_ip d, de_last_seen d)) rows))"

definition Rules :: "portal_identity \<Rightarrow> view_db \<Rightarrow> (view_error, (id \<times> string) list \<times> id) result" where
  "Rules me v =
     bind_result (get_user (pi_user_id me) (vw_access v)) (\<lambda>u.
       Inr (map (\<lambda>r. (rs_id r, rs_name r)) (ListRulesets (vw_rulesets v)), scanned_ruleset (vw_access v) u))"

definition ChooseRules :: "portal_identity \<Rightarrow> id \<Rightarrow> view_db \<Rightarrow> (view_error, view_db) result" where
  "ChooseRules me rulesetID v =
     (if rulesetID \<noteq> [] \<and> \<not> list_ex (\<lambda>r. rs_id r = rulesetID) (ListRulesets (vw_rulesets v)) then Inl NoSuchRuleset
      else bind_result (store_err (SetUserRuleset (pi_user_id me) rulesetID (vw_access v))) (\<lambda>a.
        Inr (v\<lparr>vw_creds := (vw_creds v)\<lparr>cd_access := a\<rparr>\<rparr>)))"

record portal_page =
  pp_account :: account
  pp_nodes :: "view_node list"
  pp_subscription :: subscription
  pp_rules :: "((id \<times> string) list \<times> id) option"
  pp_devices :: "(string \<times> int) list option"

definition portalMe ::
  "box \<Rightarrow> string \<Rightarrow> bool \<Rightarrow> time \<Rightarrow> portal_identity \<Rightarrow> view_db \<Rightarrow> (view_error, portal_page) result" where
  "portalMe b publicURL online now me v =
     bind_result (Account me now v) (\<lambda>account.
     bind_result (Nodes b me now v) (\<lambda>nodes.
     bind_result (Subscription b me publicURL v) (\<lambda>sub.
     bind_result (Rules me v) (\<lambda>rules.
     bind_result (if online then bind_result (Devices b me v) (\<lambda>ds. Inr (Some ds)) else Inr None) (\<lambda>devices.
       Inr \<lparr>pp_account = account, pp_nodes = nodes, pp_subscription = sub,
            pp_rules = (if fst rules = [] then None else Some rules), pp_devices = devices\<rparr>)))))"

text \<open>An error is answered 400 with its text, success 204.\<close>

definition portalChooseRules :: "portal_identity \<Rightarrow> string \<Rightarrow> view_db \<Rightarrow> view_error option \<times> view_db" where
  "portalChooseRules me rulesetID v =
     (case ChooseRules me (trim_space rulesetID) v of Inl e \<Rightarrow> (Some e, v) | Inr v \<Rightarrow> (None, v))"

section \<open>Only one's own rows\<close>

text \<open>Two states of the tables that differ in rows of other subscribers only.\<close>

definition own_access :: "id \<Rightarrow> access_db \<Rightarrow> access_db \<Rightarrow> bool" where
  "own_access u a a' \<longleftrightarrow> filter (\<lambda>r. u_id r = u) (ad_users a') = filter (\<lambda>r. u_id r = u) (ad_users a)
     \<and> ad_groups a' = ad_groups a \<and> ad_nodes a' = ad_nodes a \<and> ad_group_profiles a' = ad_group_profiles a
     \<and> ad_group_denies a' = ad_group_denies a
     \<and> rel_of (ad_user_profiles a') u = rel_of (ad_user_profiles a) u
     \<and> rel_of (ad_user_profile_denies a') u = rel_of (ad_user_profile_denies a) u
     \<and> (\<forall>d. rel_of (ad_user_denies a' d) u = rel_of (ad_user_denies a d) u
           \<and> rel_of (ad_user_allows a' d) u = rel_of (ad_user_allows a d) u)"

definition same_rows :: "id \<Rightarrow> view_db \<Rightarrow> view_db \<Rightarrow> bool" where
  "same_rows u v v' \<longleftrightarrow> own_access u (vw_access v) (vw_access v')
     \<and> filter (\<lambda>c. c_user_id c = u) (cd_creds (vw_creds v')) = filter (\<lambda>c. c_user_id c = u) (cd_creds (vw_creds v))
     \<and> filter (\<lambda>r. tb_user_id r = u) (vw_traffic v') = filter (\<lambda>r. tb_user_id r = u) (vw_traffic v)
     \<and> filter (\<lambda>r. dv_user_id r = u) (vw_devices v') = filter (\<lambda>r. dv_user_id r = u) (vw_devices v)
     \<and> vw_tmpl v' = vw_tmpl v \<and> vw_alerts v' = vw_alerts v \<and> vw_rulesets v' = vw_rulesets v"

lemma find_filter: "(\<And>x. Q x \<Longrightarrow> P x) \<Longrightarrow> find Q (filter P t) = find Q t"
  by (induction t) auto

lemma own_access_reads:
  assumes "own_access u a a'"
  shows "user_row a' u = user_row a u" "held_profiles a' u = held_profiles a u"
    "UserNodeDenies a' u = UserNodeDenies a u" "ad_nodes a' = ad_nodes a"
    "user_row a u = Some r \<Longrightarrow> scanned_ruleset a' r = scanned_ruleset a r"
proof -
  show row: "user_row a' u = user_row a u"
  proof -
    have "user_row x u = find (\<lambda>r. u_id r = u) (filter (\<lambda>r. u_id r = u) (ad_users x))" for x
      by (subst find_filter) (simp_all add: user_row_def sql_row_def)
    moreover have "filter (\<lambda>r. u_id r = u) (ad_users a') = filter (\<lambda>r. u_id r = u) (ad_users a)"
      using assms by (simp add: own_access_def)
    ultimately show ?thesis by (simp only:)
  qed
  have g: "group_of a' u = group_of a u" by (simp add: group_of_def row)
  show "held_profiles a' u = held_profiles a u" using assms g by (simp add: held_profiles_def own_access_def split: option.split)
  show "UserNodeDenies a' u = UserNodeDenies a u"
    using assms g by (simp add: UserNodeDenies_def effectiveDenies_def own_access_def split: option.split)
  show "ad_nodes a' = ad_nodes a" using assms by (simp add: own_access_def)
  show "scanned_ruleset a' r = scanned_ruleset a r"
    using assms by (simp add: scanned_ruleset_def group_ruleset_def group_row_def own_access_def split: option.split)
qed

lemma same_credentials:
  assumes "filter (\<lambda>c. c_user_id c = u) (cd_creds d') = filter (\<lambda>c. c_user_id c = u) (cd_creds d)"
  shows "FindCredential b u p n x d' = FindCredential b u p n x d"
proof -
  have own: "find (\<lambda>c. cred_key c = (u, p, n, x, [])) t
      = find (\<lambda>c. cred_key c = (u, p, n, x, [])) (filter (\<lambda>c. c_user_id c = u) t)" for t
    by (rule find_filter[symmetric]) (simp add: cred_key_def)
  have "find (\<lambda>c. cred_key c = (u, p, n, x, [])) (cd_creds d') = find (\<lambda>c. cred_key c = (u, p, n, x, [])) (cd_creds d)"
    unfolding own[of "cd_creds d'"] own[of "cd_creds d"] assms ..
  then show ?thesis by (simp add: FindCredential_def FindCredentialForExit_def sql_row_def)
qed

lemma same_series:
  assumes "filter (\<lambda>r. tb_user_id r = u) t' = filter (\<lambda>r. tb_user_id r = u) t"
  shows "UserNodeTrafficSeries u a z t' = UserNodeTrafficSeries u a z t"
proof -
  define P :: "traffic_row_t \<Rightarrow> bool" where "P = (\<lambda>r. to_unix a \<le> tb_bucket_start r \<and> tb_bucket_start r < to_unix z)"
  have own: "filter (\<lambda>r. tb_user_id r = u \<and> to_unix a \<le> tb_bucket_start r \<and> tb_bucket_start r < to_unix z) s
      = filter P (filter (\<lambda>r. tb_user_id r = u) s)" for s
    by (simp add: P_def conj_ac)
  show ?thesis unfolding UserNodeTrafficSeries_def own assms ..
qed

lemma same_loop:
  assumes "same_rows u v v'"
  shows "profile_loop b u v' series pid nids seen = profile_loop b u v series pid nids seen"
proof -
  have acc: "own_access u (vw_access v) (vw_access v')" using assms by (simp add: same_rows_def)
  have creds: "FindCredential b u p n x (vw_creds v') = FindCredential b u p n x (vw_creds v)" for p n x
    using assms by (intro same_credentials) (simp add: same_rows_def)
  have alerts: "vw_alerts v' = vw_alerts v" using assms by (simp add: same_rows_def)
  have avail: "availability b u pid n v' = availability b u pid n v" for n
    unfolding availability_def creds alerts ..
  show ?thesis
  proof (induction nids arbitrary: seen)
    case (Cons nid nids)
    then show ?case by (simp add: own_access_reads(3,4)[OF acc] avail split: sum.split)
  qed simp
qed

lemma same_loops:
  assumes "same_rows u v v'"
  shows "profiles_loop b u v' series pids seen = profiles_loop b u v series pids seen"
proof -
  have "vw_tmpl v' = vw_tmpl v" using assms by (simp add: same_rows_def)
  then show ?thesis by (induction pids arbitrary: seen) (simp_all add: same_loop[OF assms] split: prod.split)
qed

text \<open>C17. Nothing on the page of a subscriber depends on a row that is not theirs: whatever else the tables hold about other
  subscribers, their credentials, traffic, addresses, grants and tokens, the page is the same.\<close>

theorem page_is_own:
  assumes "same_rows (pi_user_id me) v v'"
  shows "portalMe b publicURL online now me v' = portalMe b publicURL online now me v"
proof -
  let ?u = "pi_user_id me"
  have a: "own_access ?u (vw_access v) (vw_access v')" using assms by (simp add: same_rows_def)
  note reads = own_access_reads[OF a]
  have "Account me now v' = Account me now v"
    by (simp add: Account_def get_user_def reads UserProfileIDs_def found_def store_err_def
        split: option.split) (metis reads(2) user_row_id)
  moreover have "Nodes b me now v' = Nodes b me now v"
  proof -
    have "UserNodeTrafficSeries ?u x z (vw_traffic v') = UserNodeTrafficSeries ?u x z (vw_traffic v)" for x z
      using assms by (intro same_series) (simp add: same_rows_def)
    then show ?thesis by (simp add: Nodes_def UserProfileIDs_def reads(2) same_loops[OF assms] split: option.split)
  qed
  moreover have "Subscription b me publicURL v' = Subscription b me publicURL v"
    by (simp add: Subscription_def SubToken_def reads)
  moreover have "Rules me v' = Rules me v"
    using assms reads(5) by (simp add: Rules_def get_user_def reads found_def store_err_def same_rows_def split: option.split)
  moreover have "Devices b me v' = Devices b me v"
    using assms by (simp add: Devices_def UserDevices_def same_rows_def)
  ultimately show ?thesis by (simp add: portalMe_def)
qed
section \<open>The nodes\<close>

definition shown :: "box \<Rightarrow> id \<Rightarrow> view_db \<Rightarrow> id \<Rightarrow> bool" where
  "shown b u v n \<longleftrightarrow> n \<notin> UserNodeDenies (vw_access v) u \<and> is_ok (GetNode b n (ad_nodes (vw_access v)))"

lemma profile_loop_ids:
  assumes "profile_loop b u v series pid nids seen = (out, seen')"
  shows "seen' = seen \<union> set nids \<and> distinct (map vn_id out) \<and> set (map vn_id out) = {n \<in> set nids - seen. shown b u v n}"
  using assms
proof (induction nids arbitrary: seen out)
  case (Cons nid nids)
  show ?case
  proof (cases "nid \<in> seen")
    case True
    then show ?thesis using Cons by auto
  next
    case new: False
    show ?thesis
    proof (cases "shown b u v nid")
      case True
      then obtain n out' where "GetNode b nid (ad_nodes (vw_access v)) = Inr n" "nid \<notin> UserNodeDenies (vw_access v) u"
        and rest: "profile_loop b u v series pid nids (insert nid seen) = (out', seen')" and "map vn_id out = nid # map vn_id out'"
        using Cons.prems new by (auto simp: shown_def is_ok_def split: sum.splits prod.splits)
      with Cons.IH[OF rest] True new show ?thesis by auto
    next
      case False
      then have "profile_loop b u v series pid nids (insert nid seen) = (out, seen')"
        using Cons.prems new by (auto simp: shown_def is_ok_def split: sum.splits if_splits)
      from Cons.IH[OF this] False new show ?thesis by auto
    qed
  qed
qed simp

lemma profiles_loop_ids:
  "distinct (map vn_id (profiles_loop b u v series pids seen))
   \<and> set (map vn_id (profiles_loop b u v series pids seen))
     = {n. (\<exists>p\<in>set pids. n \<in> set (ProfileNodeIDs p (vw_tmpl v))) \<and> n \<notin> seen \<and> shown b u v n}"
proof (induction pids arbitrary: seen)
  case (Cons p pids)
  obtain out seen' where l: "profile_loop b u v series p (sort (ProfileNodeIDs p (vw_tmpl v))) seen = (out, seen')"
    by fastforce
  note ids = profile_loop_ids[OF l]
  show ?case using Cons.IH[of seen'] ids by (auto simp: l)
qed simp

lemma bound_nodes: "n \<in> set (ProfileNodeIDs p db) \<longleftrightarrow> (p, n) \<in> set (td_profile_nodes db)"
  by (force simp: ProfileNodeIDs_def)

lemma numbered:
  "length (number_nodes ns) = length ns" "map vn_id (number_nodes ns) = map vn_id ns"
  "map vn_index (number_nodes ns) = [1..<length ns + 1]"
proof -
  have "map vn_id (number_nodes ns) = map vn_id (map snd (zip [0..<length ns] ns))"
    by (simp add: number_nodes_def comp_def split_def del: map_snd_zip)
  then show "map vn_id (number_nodes ns) = map vn_id ns" by simp
  have "map vn_index (number_nodes ns) = map Suc (map fst (zip [0..<length ns] ns))"
    by (simp add: number_nodes_def comp_def split_def del: map_fst_zip)
  then show "map vn_index (number_nodes ns) = [1..<length ns + 1]" by (simp add: map_Suc_upt)
qed (simp add: number_nodes_def)

text \<open>The nodes on the page are those a profile of the subscriber is bound to, less the ones withheld from them and
  those that cannot be read; each is there once, and they are numbered from one.\<close>

theorem nodes_listed:
  assumes "access_inv (vw_access v)" and "Nodes b me now v = Inr ns"
  shows "set (map vn_id ns) = {n. (\<exists>p\<in>held_profiles (vw_access v) (pi_user_id me). (p, n) \<in> set (td_profile_nodes (vw_tmpl v)))
      \<and> n \<notin> UserNodeDenies (vw_access v) (pi_user_id me) \<and> is_ok (GetNode b n (ad_nodes (vw_access v)))}
    \<and> distinct (map vn_id ns) \<and> map vn_index ns = [1..<length ns + 1]"
proof -
  obtain series where ns: "ns = number_nodes (profiles_loop b (pi_user_id me) v series
      (sort (UserProfileIDs (vw_access v) (pi_user_id me))) {})"
    using assms(2) by (auto simp: Nodes_def split: option.splits)
  have "set (UserProfileIDs (vw_access v) (pi_user_id me)) = held_profiles (vw_access v) (pi_user_id me)"
    using finite_user_tables(1)[OF assms(1)] by (simp add: UserProfileIDs_def)
  then have held: "set (sort (UserProfileIDs (vw_access v) (pi_user_id me))) = held_profiles (vw_access v) (pi_user_id me)"
    by simp
  note ids = profiles_loop_ids[of b "pi_user_id me" v series "sort (UserProfileIDs (vw_access v) (pi_user_id me))" "{}",
      unfolded held bound_nodes shown_def]
  show ?thesis unfolding ns numbered using ids by (simp only: empty_iff not_False_eq_True simp_thms mem_Collect_eq)
qed

section \<open>Traffic and links\<close>

text \<open>The hourly traffic of a node is the series of that subscriber on that node, and nobody else's.\<close>

theorem node_traffic_is_own:
  assumes "UserNodeTrafficSeries u a z rows = Some series" and "n \<noteq> []"
  shows "(case map_of series n of None \<Rightarrow> [] | Some ps \<Rightarrow> ps) = TrafficSeries u n a z rows"
proof -
  define hit where "hit = filter (\<lambda>r. tb_user_id r = u \<and> to_unix a \<le> tb_bucket_start r \<and> tb_bucket_start r < to_unix z) rows"
  have u: "u \<noteq> []" and series: "series = map (\<lambda>n. (n, series_points (filter (\<lambda>r. tb_node_id r = n) hit)))
      (sorted_list_of_set (set (map tb_node_id hit)))"
    using assms(1) by (auto simp: UserNodeTrafficSeries_def hit_def Let_def split: if_splits)
  have "filter (in_window u n a z) rows = filter (\<lambda>r. tb_node_id r = n) hit"
    using u assms(2) by (auto simp: hit_def in_window_def intro!: filter_cong)
  then have t: "TrafficSeries u n a z rows = series_points (filter (\<lambda>r. tb_node_id r = n) hit)"
    by (simp add: TrafficSeries_def series_points_def)
  have "filter (\<lambda>r. tb_node_id r = n) hit = []" if "n \<notin> set (map tb_node_id hit)"
    using that by (auto simp: filter_empty_conv)
  moreover have "series_points [] = []" by (simp add: series_points_def)
  ultimately show ?thesis unfolding t series map_of_map_restrict by (simp add: restrict_map_def)
qed

text \<open>A token that is issued anew is the one of the link on the page from then on.\<close>

theorem link_is_current:
  assumes "ResetSubToken b nonce (pi_user_id me) token h now (vw_access v) = Inr a" and "token \<noteq> []"
    and "box_ok b" and "nonce_ok b nonce"
  shows "Subscription b me publicURL (v\<lparr>vw_creds := (vw_creds v)\<lparr>cd_access := a\<rparr>\<rparr>)
    = Inr \<lparr>vs_available = True, vs_url = trim_right_char CHR ''/'' publicURL @ ''/sub/'' @ token, vs_kinds = Kinds\<rparr>"
proof -
  let ?u = "pi_user_id me"
  define sealed where "sealed = Seal b nonce (sealed_aad (SubTokenKey ?u)) token"
  have a: "a = update_users (\<lambda>r. u_id r = ?u) (\<lambda>r. r\<lparr>u_sub_token_hash := h, u_sub_token_enc := sealed, u_updated_at := now\<rparr>) (vw_access v)"
    and known: "?u \<in> set (user_ids (vw_access v))"
    using assms(1,2) by (auto simp: ResetSubToken_def seal_sub_token_def sealed_def bind_result_def split: if_splits)
  obtain r where r: "user_row (vw_access v) ?u = Some r"
    using known by (cases "user_row (vw_access v) ?u") (auto simp: user_row_def sql_row_None user_ids_def)
  have "user_row a ?u = Some (r\<lparr>u_sub_token_hash := h, u_sub_token_enc := sealed, u_updated_at := now\<rparr>)"
    using r by (simp add: a user_row_def update_users_def sql_row_update_same)
  then show ?thesis
    using assms(2) Open_Seal[OF assms(3,4)] Seal_nonempty[of b nonce]
    by (simp add: Subscription_def SubToken_def sealed_def store_err_def)
qed

text \<open>Who chooses no rules and has a group gets the rules of the group.\<close>

theorem no_rules_is_group_rules:
  assumes "ChooseRules me [] v = Inr v'" and "user_row (vw_access v) (pi_user_id me) = Some r"
    and "u_group_id r = Some g" and "group_ruleset (vw_access v) (Some g) = Some rules"
  shows "Rules me v' = Inr (map (\<lambda>r. (rs_id r, rs_name r)) (ListRulesets (vw_rulesets v)), rules)"
proof -
  let ?f = "\<lambda>r. r\<lparr>u_ruleset_id := None, u_ruleset_none := False\<rparr>"
  have v': "v' = v\<lparr>vw_creds := (vw_creds v)\<lparr>cd_access := update_users (\<lambda>r. u_id r = pi_user_id me) ?f (vw_access v)\<rparr>\<rparr>"
    using assms(1) by (auto simp: ChooseRules_def SetUserRuleset_def store_err_def bind_result_def nullIfEmpty_def
        split: sum.splits if_splits)
  have "user_row (vw_access v') (pi_user_id me) = Some (?f r)"
    using assms(2) by (simp add: v' user_row_def update_users_def sql_row_update_same)
  moreover have "group_ruleset (vw_access v') (Some g) = Some rules"
    using assms(4) by (simp add: v' group_ruleset_def group_row_def update_users_def)
  moreover have "vw_rulesets v' = vw_rulesets v" by (simp add: v')
  ultimately show ?thesis using assms(3) by (simp add: Rules_def get_user_def found_def store_err_def scanned_ruleset_def)
qed
section \<open>Examples\<close>

definition demo_me :: portal_identity where
  "demo_me = \<lparr>pi_user_id = ''00000000000000aa'', pi_name = ''ada'', pi_email = ''a@b''\<rparr>"

definition demo_view :: view_db where
  "demo_view = \<lparr>vw_creds = demo_creds,
     vw_tmpl = \<lparr>td_variables = [], td_components = [], td_profiles = [], td_client_templates = [],
        td_profile_nodes = [(''00000000000000bb'', ''00000000000000cc'')], td_nodes = [''00000000000000cc'']\<rparr>,
     vw_traffic = [\<lparr>tb_bucket_start = 3600, tb_node_id = ''00000000000000cc'', tb_user_id = ''00000000000000aa'', tb_up = 1, tb_down = 2\<rparr>],
     vw_devices = [], vw_alerts = \<lparr>al_targets = [], al_states = []\<rparr>, vw_rulesets = []\<rparr>"

text \<open>The same tables with the traffic of somebody else in them.\<close>

definition demo_crowd :: view_db where
  "demo_crowd = demo_view\<lparr>vw_traffic :=
     \<lparr>tb_bucket_start = 3600, tb_node_id = ''00000000000000cc'', tb_user_id = ''00000000000000dd'', tb_up = 8, tb_down = 9\<rparr>
       # vw_traffic demo_view\<rparr>"

theorem page_is_own_witness:
  "portalMe plain_box ''https://panel/'' True (unix_time 7200) demo_me demo_crowd
     = portalMe plain_box ''https://panel/'' True (unix_time 7200) demo_me demo_view"
  by (rule page_is_own) (simp add: same_rows_def own_access_def demo_crowd_def demo_me_def)

theorem nodes_listed_witness:
  "\<exists>ns. Nodes plain_box demo_me (unix_time 7200) demo_view = Inr ns
    \<and> set (map vn_id ns) = {''00000000000000cc''} \<and> map vn_index ns = [1..<length ns + 1]"
proof -
  have inv: "access_inv (vw_access demo_view)" by (simp add: demo_view_def demo_creds_def demo_people_inv)
  obtain ns where ns: "Nodes plain_box demo_me (unix_time 7200) demo_view = Inr ns"
    by (simp add: Nodes_def UserNodeTrafficSeries_def demo_me_def)
  have held: "held_profiles (vw_access demo_view) (pi_user_id demo_me) = {''00000000000000bb''}"
    by (auto simp: held_profiles_def group_of_def user_row_def sql_row_def demo_view_def demo_creds_def demo_people_def
        empty_access_def demo_user_def demo_me_def rel_of_def)
  have "UserNodeDenies (vw_access demo_view) (pi_user_id demo_me) = {}"
    by (auto simp: UserNodeDenies_def effectiveDenies_def group_of_def user_row_def sql_row_def demo_view_def
        demo_creds_def demo_people_def empty_access_def demo_user_def demo_me_def rel_of_def)
  moreover have "is_ok (GetNode plain_box ''00000000000000cc'' (ad_nodes (vw_access demo_view)))" by code_simp
  moreover have "set (td_profile_nodes (vw_tmpl demo_view)) = {(''00000000000000bb'', ''00000000000000cc'')}"
    by (simp add: demo_view_def)
  ultimately show ?thesis using nodes_listed[OF inv ns] ns by (auto simp: held)
qed

theorem node_traffic_is_own_witness:
  "\<exists>series. UserNodeTrafficSeries ''00000000000000aa'' (unix_time 0) (unix_time 7200) (vw_traffic demo_crowd) = Some series
    \<and> (case map_of series ''00000000000000cc'' of None \<Rightarrow> [] | Some ps \<Rightarrow> ps)
      = TrafficSeries ''00000000000000aa'' ''00000000000000cc'' (unix_time 0) (unix_time 7200) (vw_traffic demo_crowd)"
proof -
  obtain series where s: "UserNodeTrafficSeries ''00000000000000aa'' (unix_time 0) (unix_time 7200) (vw_traffic demo_crowd) = Some series"
    by (simp add: UserNodeTrafficSeries_def Let_def)
  from node_traffic_is_own[OF s] s show ?thesis by auto
qed

theorem link_is_current_witness:
  "\<exists>a. ResetSubToken (frame_box ''a1b2'') [7, 200] ''00000000000000aa'' ''s3cret'' ''hash'' 5 demo_people = Inr a
    \<and> Subscription (frame_box ''a1b2'') demo_me ''https://panel/'' (demo_view\<lparr>vw_creds := demo_creds\<lparr>cd_access := a\<rparr>\<rparr>)
      = Inr \<lparr>vs_available = True, vs_url = trim_right_char CHR ''/'' ''https://panel/'' @ ''/sub/'' @ ''s3cret'', vs_kinds = Kinds\<rparr>"
proof -
  have acc: "vw_access demo_view = demo_people" "vw_creds demo_view = demo_creds" "cd_access demo_creds = demo_people" "pi_user_id demo_me = ''00000000000000aa''"
    by (simp_all add: demo_view_def demo_creds_def demo_me_def)
  have "\<forall>r\<in>set (ad_users demo_people). u_id r = ''00000000000000aa''"
    by (simp add: demo_people_def empty_access_def demo_user_def)
  then obtain a where a: "ResetSubToken (frame_box ''a1b2'') [7, 200] (pi_user_id demo_me) ''s3cret'' ''hash'' 5 (vw_access demo_view) = Inr a"
    by (auto simp: ResetSubToken_def seal_sub_token_def frame_box_ok demo_people_ids acc)
  have "Subscription (frame_box ''a1b2'') demo_me ''https://panel/'' (demo_view\<lparr>vw_creds := (vw_creds demo_view)\<lparr>cd_access := a\<rparr>\<rparr>)
      = Inr \<lparr>vs_available = True, vs_url = trim_right_char CHR ''/'' ''https://panel/'' @ ''/sub/'' @ ''s3cret'', vs_kinds = Kinds\<rparr>"
    by (rule link_is_current[OF a]) (simp_all add: frame_box_ok)
  with a show ?thesis unfolding acc by blast
qed

end
