(* ===== verification/RateLimit.thy ===== *)
theory RateLimit
  imports Prelude
begin

text \<open>
  \<open>core/internal/api/ratelimit.go\<close>: the budget of the routes that answer before anybody has signed in. A bucket counts
  the requests of one key in a window; the map of buckets is bounded by dropping expired ones and, when that frees
  nothing, the one closest to its end. A Go map is an association list whose order is the order of \<open>range\<close>.

  The theorems: the map never grows past its bound, whatever keys are tried; and while the keys fit, a client gets at most
  twice its budget in any stretch of time as long as the window.
\<close>

record limit =
  lim_n :: int
  lim_window :: duration

record bucket =
  b_count :: int
  b_reset :: time

record limiter =
  l_buckets :: "(string, bucket) gomap"
  l_max :: int

definition limitLogin :: limit where "limitLogin = \<lparr>lim_n = 10, lim_window = 5 * minute\<rparr>"
definition limitMFA :: limit where "limitMFA = \<lparr>lim_n = 30, lim_window = 5 * minute\<rparr>"
definition limitEmailCode :: limit where "limitEmailCode = \<lparr>lim_n = 5, lim_window = 15 * minute\<rparr>"
definition limitRegister :: limit where "limitRegister = \<lparr>lim_n = 3, lim_window = hour\<rparr>"
definition limitClaim :: limit where "limitClaim = \<lparr>lim_n = 10, lim_window = hour\<rparr>"
definition limitConfig :: limit where "limitConfig = \<lparr>lim_n = 60, lim_window = minute\<rparr>"
definition limitSubscription :: limit where "limitSubscription = \<lparr>lim_n = 60, lim_window = minute\<rparr>"

definition newLimiter :: "int \<Rightarrow> limiter" where
  "newLimiter m = \<lparr>l_buckets = [], l_max = m\<rparr>"

text \<open>\<open>now.After(b.reset)\<close>.\<close>

definition expired :: "time \<Rightarrow> bucket \<Rightarrow> bool" where
  "expired now b \<longleftrightarrow> now > b_reset b"

definition prune :: "time \<Rightarrow> limiter \<Rightarrow> limiter" where
  "prune now l = l\<lparr>l_buckets := gm_keep (\<lambda>_ b. \<not> expired now b) (l_buckets l)\<rparr>"

text \<open>The loop for the bucket that resets first. Its state is the key so far, empty before the first, and its end.\<close>

fun oldest_key :: "string \<Rightarrow> time \<Rightarrow> (string, bucket) gomap \<Rightarrow> string" where
  "oldest_key key oldest [] = key"
| "oldest_key key oldest ((k, b) # bs) =
     (if key = [] \<or> b_reset b < oldest then oldest_key k (b_reset b) bs else oldest_key key oldest bs)"

definition evict :: "time \<Rightarrow> limiter \<Rightarrow> limiter" where
  "evict now l =
     (let l = prune now l
      in if int (length (l_buckets l)) < l_max l then l
         else l\<lparr>l_buckets := AList.delete (oldest_key [] 0 (l_buckets l)) (l_buckets l)\<rparr>)"

definition allow :: "string \<Rightarrow> limit \<Rightarrow> time \<Rightarrow> limiter \<Rightarrow> (bool \<times> duration) \<times> limiter" where
  "allow key lm now l =
     (let fresh =
        (let l = (if int (length (l_buckets l)) \<ge> l_max l then evict now l else l)
         in ((True, 0), l\<lparr>l_buckets := AList.update key \<lparr>b_count = 1, b_reset = now + lim_window lm\<rparr> (l_buckets l)\<rparr>))
      in case map_of (l_buckets l) key of
           None \<Rightarrow> fresh
         | Some b \<Rightarrow>
             if expired now b then fresh
             else if b_count b \<ge> lim_n lm then ((False, b_reset b - now), l)
             else ((True, 0), l\<lparr>l_buckets := AList.update key (b\<lparr>b_count := b_count b + 1\<rparr>) (l_buckets l)\<rparr>))"

text \<open>The key of a request and the seconds of \<open>Retry-After\<close>: \<open>int(retry.Seconds()) + 1\<close>.\<close>

definition throttle_key :: "string \<Rightarrow> string \<Rightarrow> string" where
  "throttle_key name ip = name @ ''|'' @ ip"

definition throttle :: "string \<Rightarrow> limit \<Rightarrow> string \<Rightarrow> time \<Rightarrow> limiter \<Rightarrow> int option \<times> limiter" where
  "throttle name lm ip now l =
     (case allow (throttle_key name ip) lm now l of
        ((ok, retry), l) \<Rightarrow> (if ok then None else Some (retry div second + 1), l))"

section \<open>The bound on memory\<close>

definition limiter_ok :: "limiter \<Rightarrow> bool" where
  "limiter_ok l \<longleftrightarrow> gm_ok (l_buckets l) \<and> int (length (l_buckets l)) \<le> l_max l \<and> 0 < l_max l
     \<and> [] \<notin> set (map fst (l_buckets l))"
lemma oldest_key_mem:
  "oldest_key k t bs \<in> insert k (set (map fst bs))"
  by (induction k t bs rule: oldest_key.induct) auto

lemma oldest_key_found:
  assumes "bs \<noteq> []" and "[] \<notin> set (map fst bs)"
  shows "oldest_key [] t bs \<in> set (map fst bs)"
  using assms oldest_key_mem [of "fst (hd bs)" "b_reset (snd (hd bs))" "tl bs"] by (cases bs) (auto simp del: set_map)

lemma delete_shorter: "k \<in> set (map fst m) \<Longrightarrow> length (AList.delete k m) < length m"
  by (induction m) (auto simp: le_imp_less_Suc AList.delete_eq)

lemma update_length: "length (AList.update k v m) \<le> Suc (length m)"
  by (induction m) auto

lemma update_length_old: "k \<in> set (map fst m) \<Longrightarrow> length (AList.update k v m) = length m"
  by (induction m) auto

lemma keys_update: "set (map fst (AList.update k v m)) = insert k (set (map fst m))"
  by (induction m) auto

lemma keys_keep: "set (map fst (gm_keep P m)) \<subseteq> set (map fst m)"
  by (auto simp: gm_keep_def)

lemma keys_delete: "set (map fst (AList.delete k m)) \<subseteq> set (map fst m)"
  by (simp add: delete_keys image_set [symmetric])

lemma prune_ok: "limiter_ok l \<Longrightarrow> limiter_ok (prune now l)"
  using gm_keep_length [of "\<lambda>_ b. \<not> expired now b" "l_buckets l"] keys_keep [of "\<lambda>_ b. \<not> expired now b" "l_buckets l"]
  by (auto simp: limiter_ok_def prune_def)

lemma evict_room:
  assumes "limiter_ok l"
  shows "limiter_ok (evict now l)" and "int (length (l_buckets (evict now l))) < l_max (evict now l)"
proof -
  let ?p = "prune now l"
  have p: "limiter_ok ?p" using assms by (rule prune_ok)
  have "limiter_ok (evict now l) \<and> int (length (l_buckets (evict now l))) < l_max (evict now l)"
  proof (cases "int (length (l_buckets ?p)) < l_max ?p")
    case True
    with p show ?thesis by (simp add: evict_def Let_def)
  next
    case False
    with p have "l_buckets ?p \<noteq> []" "[] \<notin> set (map fst (l_buckets ?p))" by (auto simp: limiter_ok_def)
    then have "length (AList.delete (oldest_key [] 0 (l_buckets ?p)) (l_buckets ?p)) < length (l_buckets ?p)"
      by (intro delete_shorter oldest_key_found)
    with False p keys_delete [of "oldest_key [] 0 (l_buckets ?p)" "l_buckets ?p"] show ?thesis
      by (auto simp: evict_def Let_def limiter_ok_def)
  qed
  then show "limiter_ok (evict now l)" and "int (length (l_buckets (evict now l))) < l_max (evict now l)" by auto
qed

lemma put_ok:
  assumes "limiter_ok l" and "key \<noteq> []" and "int (length (l_buckets l)) < l_max l \<or> key \<in> set (map fst (l_buckets l))"
  shows "limiter_ok (l\<lparr>l_buckets := AList.update key b (l_buckets l)\<rparr>)"
  using assms update_length [of key b "l_buckets l"] update_length_old [of key "l_buckets l" b] keys_update [of key b "l_buckets l"]
  by (auto simp: limiter_ok_def simp del: set_map)

text \<open>The map of buckets never grows past its bound, whatever keys are tried.\<close>

theorem limiter_bounded:
  assumes "limiter_ok l" and "key \<noteq> []"
  shows "limiter_ok (snd (allow key lm now l))"
proof -
  let ?l = "if int (length (l_buckets l)) \<ge> l_max l then evict now l else l"
  have "limiter_ok ?l" "int (length (l_buckets ?l)) < l_max ?l" using assms(1) evict_room [of l now] by auto
  then have fresh: "limiter_ok (?l\<lparr>l_buckets := AList.update key b (l_buckets ?l)\<rparr>)" for b
    using assms(2) by (intro put_ok) auto
  have old: "limiter_ok (l\<lparr>l_buckets := AList.update key b (l_buckets l)\<rparr>)" if "map_of (l_buckets l) key = Some c" for b c
    using assms that by (intro put_ok) (auto dest: map_of_SomeD intro: rev_image_eqI)
  show "limiter_ok (snd (allow key lm now l))"
    using assms(1) fresh old by (auto simp: allow_def Let_def split: option.split)
qed

theorem limiter_bounded_witness:
  "limiter_ok (snd (allow ''login|b'' limitLogin 1 (snd (allow ''login|a'' limitLogin 0 (newLimiter 1)))))"
proof -
  have "limiter_ok (snd (allow ''login|a'' limitLogin 0 (newLimiter 1)))" by code_simp
  then show ?thesis by (rule limiter_bounded) simp
qed

section \<open>The budget\<close>

text \<open>The requests of one key that are let through between \<open>a\<close> and \<open>a + w\<close>, in a sequence of requests.\<close>

type_synonym attempt = "string \<times> limit \<times> time"

fun granted :: "string \<Rightarrow> time \<Rightarrow> duration \<Rightarrow> attempt list \<Rightarrow> limiter \<Rightarrow> nat" where
  "granted key a w [] l = 0"
| "granted key a w ((k, lm, t) # rs) l =
     (case allow k lm t l of
        ((ok, _), l) \<Rightarrow> (if ok \<and> k = key \<and> a \<le> t \<and> t \<le> a + w then 1 else 0) + granted key a w rs l)"

text \<open>While all keys fit, eviction drops only what has expired.\<close>

lemma evict_room_prunes:
  assumes "gm_ok (l_buckets l)" and "k \<notin> set (map fst (l_buckets (prune now l)))" and "finite K"
    and "insert k (set (map fst (l_buckets l))) \<subseteq> K" and "int (card K) \<le> l_max l"
  shows "evict now l = prune now l"
proof -
  let ?m = "l_buckets (prune now l)"
  have dist: "distinct (map fst ?m)" using assms(1) by (simp add: prune_def gm_ok_def [symmetric])
  have "set (map fst ?m) \<subseteq> set (map fst (l_buckets l))" using keys_keep by (simp add: prune_def)
  then have "set (map fst ?m) \<subset> K" using assms(2,4) by blast
  then have "card (set (map fst ?m)) < card K" using assms(3) by (rule psubset_card_mono [rotated])
  then have "length ?m < card K" using distinct_card [OF dist] by simp
  then have "int (length ?m) < l_max (prune now l)" using assms(5) by (simp add: prune_def)
  then show ?thesis by (simp add: evict_def)
qed
lemma map_of_prune:
  "gm_ok (l_buckets l) \<Longrightarrow>
   map_of (l_buckets (prune now l)) k =
     (case map_of (l_buckets l) k of None \<Rightarrow> None | Some b \<Rightarrow> if expired now b then None else Some b)"
  by (simp add: prune_def gm.get_keep split: option.split)

definition roomy :: "string set \<Rightarrow> limiter \<Rightarrow> bool" where
  "roomy K l \<longleftrightarrow> finite K \<and> gm_ok (l_buckets l) \<and> set (map fst (l_buckets l)) \<subseteq> K \<and> int (card K) \<le> l_max l"

lemma allow_outcome:
  assumes "allow k lm now l = ((ok, retry), l')" and "roomy K l" and "k \<in> K"
  obtains (fresh) l1 where "ok" "l1 \<in> {l, prune now l}" "\<forall>b. map_of (l_buckets l) k = Some b \<longrightarrow> expired now b"
      "l' = l1\<lparr>l_buckets := AList.update k \<lparr>b_count = 1, b_reset = now + lim_window lm\<rparr> (l_buckets l1)\<rparr>"
    | (refused) "\<not> ok" "l' = l"
    | (counted) b where "ok" "map_of (l_buckets l) k = Some b" "\<not> expired now b" "b_count b < lim_n lm"
      "l' = l\<lparr>l_buckets := AList.update k (b\<lparr>b_count := b_count b + 1\<rparr>) (l_buckets l)\<rparr>"
proof (cases "\<forall>b. map_of (l_buckets l) k = Some b \<longrightarrow> expired now b")
  case True
  then have none: "map_of (l_buckets (prune now l)) k = None"
    using assms(2) by (auto simp: roomy_def map_of_prune split: option.split)
  then have gone: "k \<notin> set (map fst (l_buckets (prune now l)))" by (simp add: map_of_eq_None_iff)
  have ev: "evict now l = prune now l"
    by (rule evict_room_prunes [where K = K, OF _ gone]) (use assms(2,3) in \<open>auto simp: roomy_def\<close>)
  let ?l1 = "if int (length (l_buckets l)) \<ge> l_max l then evict now l else l"
  have "ok" "l' = ?l1\<lparr>l_buckets := AList.update k \<lparr>b_count = 1, b_reset = now + lim_window lm\<rparr> (l_buckets ?l1)\<rparr>"
    using assms(1) True by (auto simp: allow_def Let_def split: option.split_asm)
  moreover have "?l1 \<in> {l, prune now l}" by (simp add: ev)
  ultimately show ?thesis using fresh [of ?l1] True by blast
next
  case False
  then obtain b where "map_of (l_buckets l) k = Some b" "\<not> expired now b" by auto
  then show ?thesis
    using assms(1) refused counted [of b] by (auto simp: allow_def Let_def split: if_split_asm)
qed

lemma allow_roomy:
  assumes "allow k lm now l = ((ok, retry), l')" and "roomy K l" and "k \<in> K"
  shows "roomy K l'"
proof -
  have put: "roomy K (d\<lparr>l_buckets := AList.update k b (l_buckets d)\<rparr>)" if "roomy K d" for b d
    using that assms(3) keys_update [of k b "l_buckets d"] by (simp add: roomy_def del: set_map)
  have prune: "roomy K (prune now l)"
    using assms(2) keys_keep [of "\<lambda>_ b. \<not> expired now b" "l_buckets l"] by (auto simp: roomy_def prune_def simp del: set_map)
  from assms show ?thesis by (cases rule: allow_outcome) (auto intro: put prune simp: assms(2))
qed

text \<open>What is known of the bucket of the key after \<open>c\<close> grants between \<open>a\<close> and \<open>a + w\<close>: it began before \<open>a\<close> and counted them
  all, or it is the second one.\<close>

definition tally :: "int \<Rightarrow> time \<Rightarrow> duration \<Rightarrow> int \<Rightarrow> time \<Rightarrow> bucket option \<Rightarrow> bool" where
  "tally n a w c now st \<longleftrightarrow>
     c \<le> 2 * n \<and> (now < a \<longrightarrow> c = 0) \<and>
     (now \<le> a + w \<longrightarrow>
        (case st of
           None \<Rightarrow> c \<le> n
         | Some b \<Rightarrow> 0 \<le> b_count b \<and> b_count b \<le> n
             \<and> (if b_reset b - w < a then c \<le> b_count b else c \<le> n + b_count b)))"

lemma tally_later: "tally n a w c now st \<Longrightarrow> now \<le> t \<Longrightarrow> tally n a w c t st"
  by (auto simp: tally_def)

lemma tally_dropped: "tally n a w c t (Some b) \<Longrightarrow> expired t b \<Longrightarrow> tally n a w c t None"
  by (auto simp: tally_def expired_def split: if_split_asm)

lemma tally_pruned:
  assumes "tally n a w c t (map_of (l_buckets l) k)" and "gm_ok (l_buckets l)"
  shows "tally n a w c t (map_of (l_buckets (prune t l)) k)"
  using assms(1) tally_dropped by (cases "map_of (l_buckets l) k") (auto simp: map_of_prune [OF assms(2)])

lemma tally_fresh:
  assumes "tally n a w c t st" and "1 \<le> n" and "\<forall>b. st = Some b \<longrightarrow> expired t b"
  shows "tally n a w (c + (if a \<le> t \<and> t \<le> a + w then 1 else 0)) t (Some \<lparr>b_count = 1, b_reset = t + w\<rparr>)"
proof -
  have "tally n a w c t None" using assms(1,3) tally_dropped by (cases st) auto
  with assms(2) show ?thesis by (auto simp: tally_def)
qed

lemma tally_counted:
  assumes "tally n a w c t (Some b)" and "b_count b < n"
  shows "tally n a w (c + (if a \<le> t \<and> t \<le> a + w then 1 else 0)) t (Some (b\<lparr>b_count := b_count b + 1\<rparr>))"
  using assms by (auto simp: tally_def split: if_split_asm)

lemma tally_step:
  assumes "allow k lm' t l = ((ok, retry), l')" and "roomy K l" and "k \<in> K" and "k = key \<Longrightarrow> lm' = lm" and "1 \<le> lim_n lm"
    and "tally (lim_n lm) a (lim_window lm) c t (map_of (l_buckets l) key)"
  shows "tally (lim_n lm) a (lim_window lm) (c + (if ok \<and> k = key \<and> a \<le> t \<and> t \<le> a + lim_window lm then 1 else 0)) t
    (map_of (l_buckets l') key)"
  using assms(1-3)
proof (cases rule: allow_outcome)
  case (fresh l1)
  have same: "tally (lim_n lm) a (lim_window lm) c t (map_of (l_buckets l1) key)"
    using fresh(2) assms(2) tally_pruned [OF assms(6)] assms(6) by (auto simp: roomy_def)
  have new: "tally (lim_n lm) a (lim_window lm) (c + (if a \<le> t \<and> t \<le> a + lim_window lm then 1 else 0)) t
      (Some \<lparr>b_count = 1, b_reset = t + lim_window lm\<rparr>)" if "k = key"
    using tally_fresh [OF assms(6,5)] fresh(3) that by blast
  show ?thesis
  proof (cases "k = key")
    case True
    with new fresh(1,4) assms(4) show ?thesis by simp
  next
    case False
    with same fresh(4) show ?thesis by simp
  qed
next
  case refused
  with assms(6) show ?thesis by simp
next
  case (counted b)
  show ?thesis
  proof (cases "k = key")
    case True
    then show ?thesis using tally_counted [of "lim_n lm" a "lim_window lm" c t b] counted assms(4,6) by simp
  next
    case False
    with counted assms(6) show ?thesis by simp
  qed
qed

lemma granted_tally:
  assumes "sorted (map (\<lambda>r. snd (snd r)) rs)" and "\<forall>r\<in>set rs. now \<le> snd (snd r)" and "\<forall>r\<in>set rs. fst r = key \<longrightarrow> fst (snd r) = lm"
    and "roomy K l" and "fst ` set rs \<subseteq> K" and "1 \<le> lim_n lm"
    and "tally (lim_n lm) a (lim_window lm) c now (map_of (l_buckets l) key)"
  shows "c + int (granted key a (lim_window lm) rs l) \<le> 2 * lim_n lm"
  using assms
proof (induction rs arbitrary: c now l)
  case Nil
  then show ?case by (simp add: tally_def)
next
  case (Cons r rs)
  obtain k lm' t where r: "r = (k, lm', t)" by (cases r)
  obtain ok retry l' where step: "allow k lm' t l = ((ok, retry), l')" by (metis surj_pair)
  let ?c = "c + (if ok \<and> k = key \<and> a \<le> t \<and> t \<le> a + lim_window lm then 1 else 0)"
  from Cons.prems(1-3,5) r have first: "now \<le> t" "k = key \<Longrightarrow> lm' = lm" "k \<in> K"
    and rest: "sorted (map (\<lambda>r. snd (snd r)) rs)" "\<forall>r\<in>set rs. t \<le> snd (snd r)" "\<forall>r\<in>set rs. fst r = key \<longrightarrow> fst (snd r) = lm"
      "fst ` set rs \<subseteq> K" by auto
  note tal = tally_step [OF step Cons.prems(4) first(3,2) Cons.prems(6) tally_later [OF Cons.prems(7) first(1)]]
  note roomy = allow_roomy [OF step Cons.prems(4) first(3)]
  have "?c + int (granted key a (lim_window lm) rs l') \<le> 2 * lim_n lm"
    by (rule Cons.IH [OF rest(1-3) roomy rest(4) Cons.prems(6) tal])
  then show ?case by (auto simp: r step split: if_split_asm)
qed

text \<open>In any stretch of time as long as the window, a client gets at most twice the budget of a route, as the comment on
  fixed windows says, as long as the keys that are tried fit into the map.\<close>

theorem twice_at_most:
  assumes "sorted (map (\<lambda>r. snd (snd r)) rs)" and "\<forall>r\<in>set rs. fst r = key \<longrightarrow> fst (snd r) = lm"
    and "int (card (fst ` set rs)) \<le> m" and "1 \<le> lim_n lm"
  shows "int (granted key a (lim_window lm) rs (newLimiter m)) \<le> 2 * lim_n lm"
proof (cases rs)
  case Nil
  with assms(4) show ?thesis by simp
next
  case (Cons r rest)
  have "roomy (fst ` set rs) (newLimiter m)" using assms(3) by (simp add: roomy_def newLimiter_def)
  moreover have "tally (lim_n lm) a (lim_window lm) 0 (snd (snd r)) (map_of (l_buckets (newLimiter m)) key)"
    using assms(4) by (simp add: tally_def newLimiter_def)
  moreover have "\<forall>x\<in>set rs. snd (snd r) \<le> snd (snd x)" using assms(1) Cons by auto
  ultimately show ?thesis
    using granted_tally [OF assms(1) _ assms(2) _ _ assms(4), where c = 0 and l = "newLimiter m" and K = "fst ` set rs"] by simp
qed

theorem twice_at_most_witness:
  "int (granted ''login|a'' 0 (lim_window limitLogin) [(''login|a'', limitLogin, 5), (''login|b'', limitLogin, 6)] (newLimiter 2)) \<le> 20"
  using twice_at_most [where rs = "[(''login|a'', limitLogin, 5), (''login|b'', limitLogin, 6)]" and key = "''login|a''"
      and lm = limitLogin and m = 2 and a = 0]
  by (simp add: limitLogin_def)

end
