(* ===== verification/AgentKernel.thy ===== *)
theory AgentKernel
  imports Kernel
begin

text \<open>
  The kernel on a node: the process manager (\<open>agent/internal/xray/xray.go\<close>), the switch to another binary
  (\<open>activate.go\<close>) and the installer (\<open>install.go\<close>).

  The manager's state is its record; a binary is named by where it stands, the configured path or the
  directory of an installed version. What the operating system and the network do during one call (whether
  a process starts, exits in the settle window, whether a client gets online, whether the stream to the panel
  is gone) is the record \<open>trial\<close>, an argument of the call. A waiter's report of an exit is the operation
  \<open>waiter\<close>, guarded by the generation as in the code.

  The theorems show that a failed switch is undone, that only a binary that says it is the requested
  version, from a verified archive, is reported in place, and that a rejected config changes nothing; and
  that a switch given up before it began is still recorded as the one to start with.
\<close>

section \<open>The process manager\<close>

datatype binpath = ConfiguredBin string | KernelBin string

datatype xstate = STOPPED | RUNNING | ERROR

record manager =
  m_bin :: binpath
  m_config :: "string option"
  m_state :: xstate
  m_config_version :: int
  m_running_bin :: "binpath option"
  m_running_version :: string
  m_generation :: nat
  m_alive :: bool

definition New :: "binpath \<Rightarrow> string option \<Rightarrow> manager" where
  "New bin persisted = \<lparr>m_bin = bin, m_config = persisted, m_state = STOPPED, m_config_version = 0, m_running_bin = None,
     m_running_version = [], m_generation = 0, m_alive = False\<rparr>"

fun bin_text :: "binpath \<Rightarrow> string" where
  "bin_text (ConfiguredBin p) = p"
| "bin_text (KernelBin v) = ''kernels/'' @ v @ ''/xray''"

definition RunningVersion :: "manager \<Rightarrow> string" where
  "RunningVersion m = (if m_state m \<noteq> RUNNING then [] else m_running_version m)"

definition apiBin :: "manager \<Rightarrow> binpath" where
  "apiBin m = (case m_running_bin m of Some b \<Rightarrow> b | None \<Rightarrow> m_bin m)"

definition stopLocked :: "manager \<Rightarrow> manager" where
  "stopLocked m =
     (if \<not> m_alive m then m\<lparr>m_state := STOPPED\<rparr>
      else m\<lparr>m_generation := m_generation m + 1, m_alive := False, m_running_bin := None,
             m_running_version := [], m_state := STOPPED\<rparr>)"

text \<open>\<open>ver\<close> is what a binary prints as its version, \<open>start\<close> the error of starting it.\<close>

definition startLocked ::
  "(binpath \<Rightarrow> string) \<Rightarrow> (binpath \<Rightarrow> string option) \<Rightarrow> manager \<Rightarrow> string option \<times> manager" where
  "startLocked ver start m =
     (if m_config m = None then (Some ''no config to run'', m)
      else (case start (m_bin m) of
              Some e \<Rightarrow> (Some e, m\<lparr>m_state := ERROR\<rparr>)
            | None \<Rightarrow> (None, m\<lparr>m_alive := True, m_running_bin := Some (m_bin m), m_running_version := ver (m_bin m),
                                m_state := RUNNING, m_generation := m_generation m + 1\<rparr>)))"

definition Start ::
  "(binpath \<Rightarrow> string) \<Rightarrow> (binpath \<Rightarrow> string option) \<Rightarrow> manager \<Rightarrow> string option \<times> manager" where
  "Start ver start m = (if m_state m = RUNNING then (None, m) else startLocked ver start m)"

definition Restart ::
  "(binpath \<Rightarrow> string) \<Rightarrow> (binpath \<Rightarrow> string option) \<Rightarrow> manager \<Rightarrow> string option \<times> manager" where
  "Restart ver start m = startLocked ver start (stopLocked m)"

text \<open>The waiter of one process: only the waiter of the current generation reports a crash.\<close>

definition waiter :: "nat \<Rightarrow> manager \<Rightarrow> manager" where
  "waiter gen m =
     (if m_generation m \<noteq> gen then m
      else m\<lparr>m_alive := False, m_running_bin := None, m_running_version := [], m_state := ERROR\<rparr>)"

record trial =
  t_lookpath :: "binpath \<Rightarrow> bool"
  t_test :: "binpath \<Rightarrow> string option"
  t_start :: "binpath \<Rightarrow> string option"
  t_exits :: bool
  t_tail :: string
  t_baseline :: "string option"
  t_gone_before :: bool
  t_probe :: "string option"
  t_gone_after :: bool

datatype apply_error = Stale int int | BinaryNotFound binpath | TestFailed string | NotStarted string | ExitedAtOnce string

text \<open>\<open>staysUp\<close>: the process exits in the window or it does not.\<close>

definition staysUp :: "trial \<Rightarrow> manager \<Rightarrow> bool \<times> manager" where
  "staysUp t m =
     (let m = (if t_exits t then waiter (m_generation m) m else m) in (m_state m = RUNNING, m))"

definition with_tail :: "string \<Rightarrow> string \<Rightarrow> string \<Rightarrow> string" where
  "with_tail msg sep tail = (if tail \<noteq> [] then msg @ sep @ tail else msg)"

definition Apply :: "(binpath \<Rightarrow> string) \<Rightarrow> trial \<Rightarrow> int \<Rightarrow> string \<Rightarrow> manager \<Rightarrow> apply_error option \<times> manager" where
  "Apply ver t version configJSON m =
     (if m_config_version m \<noteq> 0 \<and> version < m_config_version m
      then (Some (Stale version (m_config_version m)), m)
      else if m_state m = RUNNING \<and> m_config m = Some configJSON
      then (None, m\<lparr>m_config_version := version\<rparr>)
      else if \<not> t_lookpath t (m_bin m) then (Some (BinaryNotFound (m_bin m)), m)
      else (case t_test t (m_bin m) of
              Some out \<Rightarrow> (Some (TestFailed out), m)
            | None \<Rightarrow>
                (let m = m\<lparr>m_config := Some configJSON\<rparr>
                 in case startLocked ver (t_start t) (stopLocked m) of
                      (Some e, m) \<Rightarrow> (Some (NotStarted e), m\<lparr>m_state := ERROR\<rparr>)
                    | (None, m) \<Rightarrow>
                        (let m = m\<lparr>m_config_version := version\<rparr>;
                             (up, m) = staysUp t m
                         in if \<not> up
                            then (Some (ExitedAtOnce (with_tail ''the kernel started and exited immediately''
                                   ('':'' @ [CHR 0x0A]) (t_tail t))), m)
                            else (None, m)))))"

section \<open>Switching the binary\<close>

datatype outcome = OutcomeActive | OutcomeInconclusive | OutcomeFailed

definition rollback :: "(binpath \<Rightarrow> string) \<Rightarrow> trial \<Rightarrow> binpath \<Rightarrow> manager \<Rightarrow> outcome \<times> manager" where
  "rollback ver t prev m = (OutcomeFailed, snd (Restart ver (t_start t) (m\<lparr>m_bin := prev\<rparr>)))"

definition Activate :: "(binpath \<Rightarrow> string) \<Rightarrow> trial \<Rightarrow> binpath \<Rightarrow> manager \<Rightarrow> outcome \<times> string \<times> manager" where
  "Activate ver t bin m =
     (let prev = m_bin m in
      if prev = bin then (OutcomeInconclusive, ''already running this binary'', m)
      else if t_gone_before t
      then (OutcomeInconclusive, ''the panel connection dropped before the upgrade started'', m)
      else (case Restart ver (t_start t) (m\<lparr>m_bin := bin\<rparr>) of
              (Some e, m) \<Rightarrow>
                (let msg = ''could not start '' @ bin_text bin @ '': '' @ e
                 in case Restart ver (t_start t) (m\<lparr>m_bin := prev\<rparr>) of
                      (Some e', m) \<Rightarrow>
                        (OutcomeFailed, msg @ ''; and the previous binary would not start either: '' @ e', m)
                    | (None, m) \<Rightarrow> (OutcomeFailed, msg, m))
            | (None, m) \<Rightarrow>
                (let (up, m) = staysUp t m in
                 if \<not> up
                 then (let msg = with_tail ''the new kernel exited during startup'' ('':'' @ [CHR 0x0A]) (t_tail t);
                           (out, m) = rollback ver t prev m
                       in (out, msg, m))
                 else (case t_baseline t of
                         Some b \<Rightarrow>
                           (OutcomeInconclusive, ''running '' @ bin_text bin
                              @ '', but nothing confirmed a client can get online through it: '' @ b, m)
                       | None \<Rightarrow>
                           (case t_probe t of
                              Some e \<Rightarrow>
                                (let msg = (if t_gone_after t
                                            then ''the panel connection dropped while checking whether traffic flows; ''
                                              @ ''the new kernel was never confirmed, so the previous one was put back''
                                            else with_tail (''a client could get online through this node before ''
                                              @ ''the upgrade and cannot now: '' @ e) [CHR 0x0A] (t_tail t));
                                     (out, m) = rollback ver t prev m
                                 in (out, msg, m))
                            | None \<Rightarrow>
                                (OutcomeActive, ''a client got online through this node on '' @ bin_text bin, m))))))"

section \<open>The installer\<close>

datatype phase = UNSPECIFIED | DOWNLOADING | VERIFYING | INSTALLED | ACTIVATING | ACTIVE | INCONCLUSIVE
  | FAILED | ROLLED_BACK

type_synonym kernel_dirs = "(string, (string, disk_file) gomap) gomap"

record agent =
  ag_mgr :: manager
  ag_kernels :: kernel_dirs
  ag_active :: "string option"
  ag_progress :: "phase list"

record install_req =
  iq_version :: string
  iq_url :: string
  iq_sha256 :: string
  iq_relay :: bool
  iq_activate :: bool

text \<open>The bytes behind a path: the image's binaries are the argument \<open>img\<close>.\<close>

fun read_bin :: "(string \<Rightarrow> content option) \<Rightarrow> kernel_dirs \<Rightarrow> binpath \<Rightarrow> content option" where
  "read_bin img ks (ConfiguredBin p) = img p"
| "read_bin img ks (KernelBin v) =
     Option.bind (map_of ks v) (\<lambda>files. if usable files then map_option f_data (map_of files BinaryName) else None)"

definition versionOf :: "outside \<Rightarrow> (string \<Rightarrow> content option) \<Rightarrow> kernel_dirs \<Rightarrow> binpath \<Rightarrow> string" where
  "versionOf w img ks bin =
     (case Option.bind (read_bin img ks bin) (o_run w) of
        None \<Rightarrow> []
      | Some out \<Rightarrow>
          (let line = first_line out; f = split_fields [] line
           in if length f \<ge> 2 then trim_prefix ''v'' (f ! 1) else trim_space line))"

definition BinaryFor :: "string \<Rightarrow> kernel_dirs \<Rightarrow> binpath option" where
  "BinaryFor version ks =
     (case map_of ks version of
        Some files \<Rightarrow> if usable files then Some (KernelBin version) else None
      | None \<Rightarrow> None)"

definition download :: "outside \<Rightarrow> string \<Rightarrow> (string, content) result" where
  "download w url = (if url = [] then Inl ''no download URL'' else o_get w url)"

datatype install_error =
    NoRelay string | RelayFailed string string | BadDownload archive_error

text \<open>\<open>fetchAndUnpack\<close> with a relay of at most \<open>rounds\<close> chunks, and the phases it reports: None is a relay
  still running.\<close>

definition fetch_archive ::
  "outside \<Rightarrow> nat \<Rightarrow> (int \<Rightarrow> (string, content \<times> bool) result) \<Rightarrow> install_req
     \<Rightarrow> ((install_error, content) result \<times> phase list) option" where
  "fetch_archive w rounds chunk req =
     (case download w (iq_url req) of
        Inr data \<Rightarrow> Some (Inr data, [DOWNLOADING])
      | Inl directErr \<Rightarrow>
          if \<not> iq_relay req then Some (Inl (NoRelay directErr), [DOWNLOADING])
          else (case downloadViaRelay rounds chunk 0 [] of
                  None \<Rightarrow> None
                | Some (Inl e) \<Rightarrow> Some (Inl (RelayFailed directErr e), [DOWNLOADING, DOWNLOADING])
                | Some (Inr data) \<Rightarrow> Some (Inr data, [DOWNLOADING, DOWNLOADING])))"

definition fetchAndUnpack ::
  "outside \<Rightarrow> nat \<Rightarrow> (int \<Rightarrow> (string, content \<times> bool) result) \<Rightarrow> string \<Rightarrow> install_req \<Rightarrow> kernel_dirs
     \<Rightarrow> ((install_error, kernel_dirs) result \<times> phase list) option" where
  "fetchAndUnpack w rounds chunk version req ks =
     (case fetch_archive w rounds chunk req of
        None \<Rightarrow> None
      | Some (Inl e, ps) \<Rightarrow> Some (Inl e, ps)
      | Some (Inr archive, ps) \<Rightarrow>
          Some (case Verify (o_sha256 w) (Some archive) (iq_sha256 req) of
                  Some e \<Rightarrow> Inl (BadDownload e)
                | None \<Rightarrow>
                    (case Unpack (o_unzip w) archive of
                       Inl e \<Rightarrow> Inl (BadDownload e)
                     | Inr files \<Rightarrow> Inr (AList.update version files ks)),
                ps @ [VERIFYING]))"

definition say :: "phase list \<Rightarrow> agent \<Rightarrow> agent" where
  "say ps a = a\<lparr>ag_progress := ag_progress a @ ps\<rparr>"

datatype report = NoVersion | NoSHA256 | FetchFailed install_error | WrongBuild string string | Staged | Judged string

text \<open>The second half of \<open>Install\<close>: the binary is asked what it is, then switched to and recorded.\<close>

definition settle_install ::
  "outside \<Rightarrow> (string \<Rightarrow> content option) \<Rightarrow> trial \<Rightarrow> string \<Rightarrow> bool \<Rightarrow> agent \<Rightarrow> (phase \<times> report) \<times> agent" where
  "settle_install w img t version activate a =
     (let bin = KernelBin version; got = versionOf w img (ag_kernels a) bin in
      if got \<noteq> version
      then ((FAILED, WrongBuild got version), a\<lparr>ag_kernels := AList.delete version (ag_kernels a)\<rparr>)
      else if \<not> activate then ((INSTALLED, Staged), say [INSTALLED] a)
      else (case Activate (versionOf w img (ag_kernels a)) t bin (ag_mgr a) of
              (out, msg, m) \<Rightarrow>
                (let a = say [ACTIVATING] (a\<lparr>ag_mgr := m\<rparr>);
                     recorded = a\<lparr>ag_active := Some (version @ [CHR 0x0A])\<rparr>
                 in case out of
                      OutcomeActive \<Rightarrow> ((ACTIVE, Judged msg), recorded)
                    | OutcomeInconclusive \<Rightarrow> ((INCONCLUSIVE, Judged msg), recorded)
                    | OutcomeFailed \<Rightarrow> ((ROLLED_BACK, Judged msg), a))))"

definition agent_Install ::
  "outside \<Rightarrow> (string \<Rightarrow> content option) \<Rightarrow> trial \<Rightarrow> nat \<Rightarrow> (int \<Rightarrow> (string, content \<times> bool) result) \<Rightarrow> install_req
     \<Rightarrow> agent \<Rightarrow> ((phase \<times> report) \<times> agent) option" where
  "agent_Install w img t rounds chunk req a =
     (let version = trim_prefix ''v'' (trim_space (iq_version req)) in
      if version = [] then Some ((FAILED, NoVersion), a)
      else if length (iq_sha256 req) \<noteq> 64 then Some ((FAILED, NoSHA256), a)
      else (case BinaryFor version (ag_kernels a) of
              Some bin \<Rightarrow> Some (settle_install w img t version (iq_activate req) a)
            | None \<Rightarrow>
                (case fetchAndUnpack w rounds chunk version req (ag_kernels a) of
                   None \<Rightarrow> None
                 | Some (Inl e, ps) \<Rightarrow> Some ((FAILED, FetchFailed e), say ps a)
                 | Some (Inr ks, ps) \<Rightarrow>
                     Some (settle_install w img t version (iq_activate req) (say ps (a\<lparr>ag_kernels := ks\<rparr>))))))"

definition ActiveBinary :: "outside \<Rightarrow> (string \<Rightarrow> content option) \<Rightarrow> agent \<Rightarrow> binpath option" where
  "ActiveBinary w img a =
     (case ag_active a of
        None \<Rightarrow> None
      | Some raw \<Rightarrow>
          (let version = trim_space raw in
           if version = [] then None
           else (case BinaryFor version (ag_kernels a) of
                   None \<Rightarrow> None
                 | Some bin \<Rightarrow> if versionOf w img (ag_kernels a) bin \<noteq> version then None else Some bin)))"

definition Installed :: "kernel_dirs \<Rightarrow> string list" where
  "Installed ks = sort (map fst (filter (\<lambda>(v, files). usable files) ks))"

definition Prune :: "string list \<Rightarrow> kernel_dirs \<Rightarrow> kernel_dirs" where
  "Prune keeps ks = gm_keep (\<lambda>v files. \<not> (v \<in> set (Installed ks) \<and> \<not> (v \<in> set keeps \<and> v \<noteq> []))) ks"

section \<open>The manager's invariant\<close>

text \<open>A process is alive exactly while the manager says it runs, the version reported is that of the
  binary it was started from, and it has a config.\<close>

definition mgr_ok :: "(binpath \<Rightarrow> string) \<Rightarrow> manager \<Rightarrow> bool" where
  "mgr_ok ver m \<longleftrightarrow>
     (m_alive m \<longleftrightarrow> m_state m = RUNNING)
     \<and> (case m_running_bin m of
          None \<Rightarrow> \<not> m_alive m \<and> m_running_version m = []
        | Some b \<Rightarrow> m_alive m \<and> m_running_version m = ver b \<and> m_config m \<noteq> None)"

text \<open>Fields a switch of the process does not touch.\<close>

definition same_config :: "manager \<Rightarrow> manager \<Rightarrow> bool" where
  "same_config m m' \<longleftrightarrow> m_config m' = m_config m \<and> m_config_version m' = m_config_version m"

inductive manager_step :: "(binpath \<Rightarrow> string) \<Rightarrow> manager \<Rightarrow> manager \<Rightarrow> bool" for ver where
  applied: "Apply ver t version configJSON m = (e, m') \<Longrightarrow> manager_step ver m m'"
| started: "Start ver f m = (e, m') \<Longrightarrow> manager_step ver m m'"
| stopped: "manager_step ver m (stopLocked m)"
| restarted: "Restart ver f m = (e, m') \<Longrightarrow> manager_step ver m m'"
| activated: "Activate ver t bin m = (out, msg, m') \<Longrightarrow> manager_step ver m m'"
| exited: "manager_step ver m (waiter gen m)"

lemma stopLocked_ok: "mgr_ok ver m \<Longrightarrow> mgr_ok ver (stopLocked m)"
  by (auto simp: mgr_ok_def stopLocked_def split: option.splits)

lemma stopLocked_fields [simp]:
  "m_bin (stopLocked m) = m_bin m" "m_config (stopLocked m) = m_config m"
  "m_config_version (stopLocked m) = m_config_version m" "m_state (stopLocked m) = STOPPED"
  by (simp_all add: stopLocked_def)

lemma waiter_ok: "mgr_ok ver m \<Longrightarrow> mgr_ok ver (waiter gen m)"
  by (auto simp: mgr_ok_def waiter_def split: option.splits)

lemma waiter_fields [simp]:
  "m_bin (waiter gen m) = m_bin m" "m_config (waiter gen m) = m_config m"
  "m_config_version (waiter gen m) = m_config_version m"
  by (simp_all add: waiter_def)

lemma startLocked_spec:
  assumes "mgr_ok ver m" "m_state m \<noteq> RUNNING" "startLocked ver f m = (e, m')"
  shows "mgr_ok ver m' \<and> same_config m m' \<and> m_bin m' = m_bin m
    \<and> (e = None \<longleftrightarrow> m_config m \<noteq> None \<and> f (m_bin m) = None)
    \<and> (e = None \<longrightarrow> m_state m' = RUNNING \<and> m_running_bin m' = Some (m_bin m))
    \<and> (e \<noteq> None \<longrightarrow> m_state m' \<noteq> RUNNING)"
proof (cases "f (m_bin m)")
  case None
  then show ?thesis using assms by (auto simp: startLocked_def mgr_ok_def same_config_def split: if_splits option.splits)
next
  case (Some err)
  then have "startLocked ver f m = (if m_config m = None then (Some ''no config to run'', m)
      else (Some err, m\<lparr>m_state := ERROR\<rparr>))"
    by (simp add: startLocked_def)
  then have "e \<noteq> None" "m' = m \<or> m' = m\<lparr>m_state := ERROR\<rparr>"
    using assms(3) by (metis option.distinct(1) prod.inject)+
  then show ?thesis using assms(1,2) Some by (auto simp: mgr_ok_def same_config_def split: option.splits)
qed

lemma Restart_spec:
  assumes "mgr_ok ver m" "Restart ver f m = (e, m')"
  shows "mgr_ok ver m' \<and> same_config m m' \<and> m_bin m' = m_bin m
    \<and> (e = None \<longleftrightarrow> m_config m \<noteq> None \<and> f (m_bin m) = None)
    \<and> (e = None \<longrightarrow> m_state m' = RUNNING \<and> m_running_bin m' = Some (m_bin m))
    \<and> (e \<noteq> None \<longrightarrow> m_state m' \<noteq> RUNNING)"
  using startLocked_spec [OF stopLocked_ok [OF assms(1)] _ assms(2) [unfolded Restart_def]]
  unfolding same_config_def stopLocked_fields by blast

lemma mgr_ok_bin [simp]: "mgr_ok ver (m\<lparr>m_bin := b\<rparr>) = mgr_ok ver m"
  by (simp add: mgr_ok_def split: option.splits)

lemma mgr_ok_config:
  "mgr_ok ver m \<Longrightarrow> mgr_ok ver (m\<lparr>m_config := Some c\<rparr>)" "mgr_ok ver m \<Longrightarrow> mgr_ok ver (m\<lparr>m_config_version := v\<rparr>)"
  by (auto simp: mgr_ok_def split: option.splits)

lemma staysUp_spec:
  assumes "mgr_ok ver m" "m_state m = RUNNING" "staysUp t m = (up, m')"
  shows "mgr_ok ver m' \<and> same_config m m' \<and> m_bin m' = m_bin m \<and> (up \<longleftrightarrow> m_state m' = RUNNING) \<and> (up \<longrightarrow> m' = m)
    \<and> (up \<longleftrightarrow> \<not> t_exits t)"
  using assms waiter_ok [OF assms(1)]
  by (auto simp: staysUp_def Let_def same_config_def split: if_splits) (auto simp: waiter_def)

lemma rollback_spec:
  assumes "mgr_ok ver m" "rollback ver t prev m = (out, m')"
  shows "out = OutcomeFailed \<and> mgr_ok ver m' \<and> same_config m m' \<and> m_bin m' = prev
    \<and> (m_config m \<noteq> None \<and> t_start t prev = None \<longrightarrow> m_state m' = RUNNING \<and> m_running_bin m' = Some prev)"
proof -
  obtain e where e: "Restart ver (t_start t) (m\<lparr>m_bin := prev\<rparr>) = (e, m')" "out = OutcomeFailed"
    using assms(2) by (metis rollback_def prod.inject prod.collapse)
  show ?thesis using Restart_spec [OF _ e(1)] e(2) assms(1) by (auto simp: same_config_def)
qed

lemma Activate_cases:
  assumes "mgr_ok ver m" "Activate ver t bin m = (out, msg, m')"
  shows "mgr_ok ver m' \<and> same_config m m'
    \<and> (out = OutcomeFailed \<longrightarrow> m_bin m' = m_bin m
         \<and> (m_config m \<noteq> None \<and> t_start t (m_bin m) = None \<longrightarrow> m_state m' = RUNNING \<and> m_running_bin m' = Some (m_bin m)))
    \<and> (out = OutcomeActive \<longrightarrow> m_bin m' = bin \<and> m_state m' = RUNNING \<and> m_running_bin m' = Some bin
         \<and> t_baseline t = None \<and> t_probe t = None)
    \<and> (out = OutcomeInconclusive \<longrightarrow> m' = m \<or>
         m_bin m' = bin \<and> m_state m' = RUNNING \<and> m_running_bin m' = Some bin \<and> t_baseline t \<noteq> None)"
proof (cases "m_bin m = bin \<or> t_gone_before t")
  case True
  then show ?thesis using assms by (auto simp: Activate_def Let_def same_config_def split: if_splits)
next
  case False
  obtain e m1 where r: "Restart ver (t_start t) (m\<lparr>m_bin := bin\<rparr>) = (e, m1)" by fastforce
  have ok: "mgr_ok ver (m\<lparr>m_bin := bin\<rparr>)" using assms(1) by simp
  note s1 = Restart_spec [OF ok r]
  have c1: "same_config m m1" using s1 by (simp add: same_config_def)
  show ?thesis
  proof (cases e)
    case (Some err)
    obtain e2 m2 where r2: "Restart ver (t_start t) (m1\<lparr>m_bin := m_bin m\<rparr>) = (e2, m2)" by fastforce
    have "mgr_ok ver (m1\<lparr>m_bin := m_bin m\<rparr>)" using s1 by simp
    note s2 = Restart_spec [OF this r2]
    have "m' = m2" "out = OutcomeFailed"
      using assms(2) False r r2 Some by (auto simp: Activate_def Let_def split: option.splits)
    then show ?thesis using s2 c1 by (auto simp: same_config_def)
  next
    case None
    obtain up m2 where u: "staysUp t m1 = (up, m2)" by fastforce
    have run: "m_state m1 = RUNNING" using s1 None by simp
    have "mgr_ok ver m1" using s1 by simp
    note s2 = staysUp_spec [OF this run u]
    obtain out3 m3 where b: "rollback ver t (m_bin m) m2 = (out3, m3)" by fastforce
    note s3 = rollback_spec [OF _ b]
    show ?thesis
    proof (cases "up \<and> (t_baseline t \<noteq> None \<or> t_probe t = None)")
      case True
      then have "m' = m1" "out = (if t_baseline t = None then OutcomeActive else OutcomeInconclusive)"
        using assms(2) False r None u s2 by (auto simp: Activate_def Let_def split: option.splits)
      then show ?thesis using s1 c1 None True by auto
    next
      case rolled: False
      then have "m' = m3" "out = out3"
        using assms(2) False r None u b by (auto simp: Activate_def Let_def split: option.splits if_splits)
      then show ?thesis using s2 s3 c1 by (auto simp: same_config_def)
    qed
  qed
qed

lemma Apply_cases:
  assumes "mgr_ok ver m" "Apply ver t version c m = (e, m')"
  shows "mgr_ok ver m'
    \<and> (e = None \<longrightarrow> m_state m' = RUNNING \<and> m_config m' = Some c \<and> m_config_version m' = version)
    \<and> ((\<exists>a b. e = Some (Stale a b)) \<or> (\<exists>b. e = Some (BinaryNotFound b)) \<or> (\<exists>x. e = Some (TestFailed x)) \<longrightarrow> m' = m)
    \<and> ((\<exists>x. e = Some (NotStarted x)) \<or> (\<exists>x. e = Some (ExitedAtOnce x)) \<longrightarrow>
         m_state m' = ERROR \<and> \<not> m_alive m' \<and> m_config m' = Some c)"
proof (cases "m_config_version m \<noteq> 0 \<and> version < m_config_version m \<or> m_state m = RUNNING \<and> m_config m = Some c
    \<or> \<not> t_lookpath t (m_bin m) \<or> t_test t (m_bin m) \<noteq> None")
  case True
  then show ?thesis using assms mgr_ok_config(2) [OF assms(1), of version]
    by (auto simp: Apply_def split: if_splits)
next
  case False
  let ?m = "stopLocked (m\<lparr>m_config := Some c\<rparr>)"
  obtain x m1 where r: "startLocked ver (t_start t) ?m = (x, m1)" by fastforce
  have "mgr_ok ver ?m" by (intro stopLocked_ok mgr_ok_config assms(1))
  note s1 = startLocked_spec [OF this _ r]
  have c1: "m_config m1 = Some c" using s1 by (simp add: same_config_def)
  show ?thesis
  proof (cases x)
    case (Some err)
    then have "e = Some (NotStarted err)" "m' = m1\<lparr>m_state := ERROR\<rparr>"
      using assms(2) False r by (auto simp: Apply_def Let_def)
    then show ?thesis using s1 c1 Some by (auto simp: mgr_ok_def split: option.splits)
  next
    case None
    obtain up m2 where u: "staysUp t (m1\<lparr>m_config_version := version\<rparr>) = (up, m2)" by fastforce
    have "mgr_ok ver (m1\<lparr>m_config_version := version\<rparr>)" using s1 by (simp add: mgr_ok_config)
    note s2 = staysUp_spec [OF this _ u]
    have "Apply ver t version c m = (if up then (None, m2)
        else (Some (ExitedAtOnce (with_tail ''the kernel started and exited immediately''
               ('':'' @ [CHR 0x0A]) (t_tail t))), m2))"
      using False r None u by (auto simp: Apply_def Let_def)
    then have "(e, m') = (if up then (None, m2)
        else (Some (ExitedAtOnce (with_tail ''the kernel started and exited immediately''
               ('':'' @ [CHR 0x0A]) (t_tail t))), m2))"
      using assms(2) by simp
    then have "m' = m2" "e = None \<longleftrightarrow> up" "e = None \<or> (\<exists>x. e = Some (ExitedAtOnce x))"
      by (cases up; simp)+
    note e = this
    have run: "m_state (m1\<lparr>m_config_version := version\<rparr>) = RUNNING" using s1 None by simp
    have m2: "mgr_ok ver m2" "m_config m2 = Some c" "m_config_version m2 = version" "up \<longleftrightarrow> m_state m2 = RUNNING"
      using s2 [OF run] c1 by (simp_all add: same_config_def)
    have "m_state m2 = ERROR" "\<not> m_alive m2" if "\<not> up"
      using that u run by (auto simp: staysUp_def Let_def waiter_def split: if_splits)
    then show ?thesis using e m2 by (cases up) auto
  qed
qed

lemma manager_step_ok: "manager_step ver m m' \<Longrightarrow> mgr_ok ver m \<Longrightarrow> mgr_ok ver m'"
proof (induction rule: manager_step.induct)
  case (applied t version configJSON m e m')
  then show ?case using Apply_cases by blast
next
  case (started f m e m')
  then show ?case
    using startLocked_spec [of ver m f e m'] by (cases "m_state m = RUNNING") (auto simp: Start_def)
next
  case (stopped m)
  then show ?case by (rule stopLocked_ok)
next
  case (restarted f m e m')
  then show ?case using Restart_spec by blast
next
  case (activated t bin m out msg m')
  then show ?case using Activate_cases by blast
next
  case (exited m gen)
  then show ?case by (rule waiter_ok)
qed

lemma reachable_manager_ok: "(manager_step ver)\<^sup>*\<^sup>* (New bin persisted) m \<Longrightarrow> mgr_ok ver m"
proof (induction rule: rtranclp_induct)
  case base
  show ?case by (simp add: mgr_ok_def New_def)
next
  case (step m m')
  then show ?case using manager_step_ok by blast
qed

section \<open>Installing\<close>

definition in_place :: "phase \<Rightarrow> bool" where
  "in_place p \<longleftrightarrow> p \<in> {INSTALLED, ACTIVE, INCONCLUSIVE}"

lemma say_fields [simp]:
  "ag_mgr (say ps a) = ag_mgr a" "ag_kernels (say ps a) = ag_kernels a" "ag_active (say ps a) = ag_active a"
  by (simp_all add: say_def)

lemma settle_install_spec:
  assumes "settle_install w img t v act a = ((p, rep), a')"
    and "mgr_ok (versionOf w img (ag_kernels a)) (ag_mgr a)"
  shows "(in_place p \<longrightarrow> versionOf w img (ag_kernels a') (KernelBin v) = v \<and> ag_kernels a' = ag_kernels a)
    \<and> (\<not> in_place p \<longrightarrow> ag_active a' = ag_active a \<and> m_bin (ag_mgr a') = m_bin (ag_mgr a) \<and> p \<in> {FAILED, ROLLED_BACK})
    \<and> (p = ACTIVE \<longrightarrow> m_state (ag_mgr a') = RUNNING \<and> m_running_bin (ag_mgr a') = Some (KernelBin v)
         \<and> RunningVersion (ag_mgr a') = v \<and> ag_active a' = Some (v @ [CHR 0x0A]))"
proof (cases "versionOf w img (ag_kernels a) (KernelBin v) = v \<and> act")
  case False
  then show ?thesis using assms(1) by (auto simp: settle_install_def Let_def in_place_def split: if_splits)
next
  case True
  obtain out msg m where A: "Activate (versionOf w img (ag_kernels a)) t (KernelBin v) (ag_mgr a) = (out, msg, m)"
    by (metis prod_cases3)
  note c = Activate_cases [OF assms(2) A]
  have i: "settle_install w img t v act a =
     (case out of OutcomeActive \<Rightarrow> ((ACTIVE, Judged msg), (say [ACTIVATING] (a\<lparr>ag_mgr := m\<rparr>))\<lparr>ag_active := Some (v @ [CHR 0x0A])\<rparr>)
      | OutcomeInconclusive \<Rightarrow> ((INCONCLUSIVE, Judged msg), (say [ACTIVATING] (a\<lparr>ag_mgr := m\<rparr>))\<lparr>ag_active := Some (v @ [CHR 0x0A])\<rparr>)
      | OutcomeFailed \<Rightarrow> ((ROLLED_BACK, Judged msg), say [ACTIVATING] (a\<lparr>ag_mgr := m\<rparr>)))"
    using True A by (simp add: settle_install_def Let_def)
  have "RunningVersion m = v" if "out = OutcomeActive"
    using c that True by (auto simp: mgr_ok_def RunningVersion_def)
  then show ?thesis using assms(1) c True unfolding i by (cases out) (auto simp: in_place_def)
qed

lemma fetchAndUnpack_spec:
  assumes "fetchAndUnpack w rounds chunk v req ks = Some (Inr ks', ps)"
  obtains archive files where "length (iq_sha256 req) = 64"
    "to_lower (o_sha256 w archive) = to_lower (iq_sha256 req)"
    "Unpack (o_unzip w) archive = Inr files" "ks' = AList.update v files ks"
  using assms
  by (auto simp: fetchAndUnpack_def Verify_ok split: option.splits sum.splits prod.splits)

lemma usable_unpacked: "Unpack unzip archive = Inr files \<Longrightarrow> usable files"
  using Unpack_binary by (fastforce simp: usable_def)

text \<open>The agent's invariant: an installed binary it runs or would run calls itself by its directory.\<close>

definition good_bin :: "(binpath \<Rightarrow> string) \<Rightarrow> binpath \<Rightarrow> bool" where
  "good_bin ver b \<longleftrightarrow> (case b of ConfiguredBin p \<Rightarrow> True | KernelBin u \<Rightarrow> u \<noteq> [] \<and> ver b = u)"

definition agent_ok :: "outside \<Rightarrow> (string \<Rightarrow> content option) \<Rightarrow> agent \<Rightarrow> bool" where
  "agent_ok w img a \<longleftrightarrow>
     (let ver = versionOf w img (ag_kernels a); m = ag_mgr a
      in mgr_ok ver m \<and> good_bin ver (m_bin m) \<and> (\<forall>b. m_running_bin m = Some b \<longrightarrow> good_bin ver b))"

lemma mgr_ok_agree:
  "mgr_ok ver m \<Longrightarrow> (\<And>b. m_running_bin m = Some b \<Longrightarrow> ver' b = ver b) \<Longrightarrow> mgr_ok ver' m"
  by (auto simp: mgr_ok_def split: option.splits)

lemma versionOf_agree:
  assumes "\<And>u. u \<noteq> v \<Longrightarrow> map_of ks' u = map_of ks u" "b \<noteq> KernelBin v"
  shows "versionOf w img ks' b = versionOf w img ks b"
  using assms by (cases b) (auto simp: versionOf_def)

lemma versionOf_absent: "BinaryFor v ks = None \<Longrightarrow> versionOf w img ks (KernelBin v) = []"
  by (auto simp: BinaryFor_def versionOf_def split: option.splits if_splits)

text \<open>Replacing or removing a version the agent has no good binary for.\<close>

lemma agent_ok_replace:
  assumes "agent_ok w img a" "versionOf w img (ag_kernels a) (KernelBin v) \<noteq> v \<or> v = []"
    and "\<And>u. u \<noteq> v \<Longrightarrow> map_of ks u = map_of (ag_kernels a) u"
  shows "agent_ok w img (a\<lparr>ag_kernels := ks\<rparr>)"
proof -
  let ?ver = "versionOf w img (ag_kernels a)" and ?ver' = "versionOf w img ks"
  have agree: "?ver' b = ?ver b" if "good_bin ?ver b" for b
    by (rule versionOf_agree [OF assms(3)]) (use that assms(2) in \<open>auto simp: good_bin_def\<close>)
  then have good: "good_bin ?ver' b" if "good_bin ?ver b" for b
    using that by (auto simp: good_bin_def split: binpath.splits)
  show ?thesis
    using assms(1) agree good mgr_ok_agree [of ?ver "ag_mgr a" ?ver'] by (auto simp: agent_ok_def Let_def)
qed

lemma agent_ok_frame:
  "ag_mgr a' = ag_mgr a \<Longrightarrow> ag_kernels a' = ag_kernels a \<Longrightarrow> agent_ok w img a' = agent_ok w img a"
  by (simp add: agent_ok_def)

lemma Activate_bins:
  assumes "mgr_ok ver m" "Activate ver t bin m = (out, msg, m')"
  shows "m_bin m' \<in> {m_bin m, bin} \<and> (\<forall>b. m_running_bin m' = Some b \<longrightarrow> m_running_bin m = Some b \<or> b \<in> {m_bin m, bin})"
proof -
  have r: "m_bin (snd (Restart ver f n)) = m_bin n
      \<and> (\<forall>b. m_running_bin (snd (Restart ver f n)) = Some b \<longrightarrow> m_running_bin n = Some b \<or> b = m_bin n)" for f n
    by (auto simp: Restart_def startLocked_def stopLocked_def split: option.splits if_splits)
  have w: "m_running_bin (waiter g n) = Some b \<Longrightarrow> m_running_bin n = Some b" for g n b
    by (auto simp: waiter_def split: if_splits)
  have b: "m_bin (snd (Restart ver f n)) = m_bin n" for f n using r by blast
  have rb: "m_running_bin (snd (Restart ver f n)) = Some b \<Longrightarrow> m_running_bin n = Some b \<or> b = m_bin n" for f n b
    using r by blast
  show ?thesis
    using assms(2)
    by (auto simp: Activate_def Let_def rollback_def staysUp_def case_prod_unfold b
        split: if_splits option.splits dest!: rb w)
qed

lemma settle_install_ok:
  assumes "agent_ok w img a" "v \<noteq> []" "settle_install w img t v act a = (r, a')"
  shows "agent_ok w img a'"
proof (cases "versionOf w img (ag_kernels a) (KernelBin v) = v \<and> act")
  case False
  then consider "a' = a\<lparr>ag_kernels := AList.delete v (ag_kernels a)\<rparr>" "versionOf w img (ag_kernels a) (KernelBin v) \<noteq> v"
    | "ag_mgr a' = ag_mgr a \<and> ag_kernels a' = ag_kernels a"
    using assms(3) by (auto simp: settle_install_def Let_def split: if_splits)
  then show ?thesis
  proof cases
    case 1
    show ?thesis unfolding 1(1) by (rule agent_ok_replace [OF assms(1), of v]) (use 1(2) in auto)
  next
    case 2
    then show ?thesis using assms(1) agent_ok_frame [of a' a w img] by simp
  qed
next
  case True
  let ?ver = "versionOf w img (ag_kernels a)"
  obtain out msg m where A: "Activate ?ver t (KernelBin v) (ag_mgr a) = (out, msg, m)" by (metis prod_cases3)
  have a': "ag_mgr a' = m" "ag_kernels a' = ag_kernels a"
    using assms(3) True A by (auto simp: settle_install_def Let_def split: outcome.splits)
  have ok: "mgr_ok ?ver (ag_mgr a)" using assms(1) by (simp add: agent_ok_def Let_def)
  have "good_bin ?ver (KernelBin v)" using True assms(2) by (simp add: good_bin_def)
  then show ?thesis
    using Activate_bins [OF ok A] Activate_cases [OF ok A] assms(1) a' by (auto simp: agent_ok_def Let_def)
qed

lemma agent_Install_cases:
  assumes "agent_Install w img t rounds chunk req a = Some ((p, rep), a')"
  defines "v \<equiv> trim_prefix ''v'' (trim_space (iq_version req))"
  obtains (refused) ps where "p = FAILED" "a' = say ps a"
  | (present) "v \<noteq> []" "BinaryFor v (ag_kernels a) \<noteq> None" "settle_install w img t v (iq_activate req) a = ((p, rep), a')"
  | (fetched) archive files ps where "v \<noteq> []" "BinaryFor v (ag_kernels a) = None" "length (iq_sha256 req) = 64"
      "to_lower (o_sha256 w archive) = to_lower (iq_sha256 req)" "Unpack (o_unzip w) archive = Inr files"
      "settle_install w img t v (iq_activate req) (say ps (a\<lparr>ag_kernels := AList.update v files (ag_kernels a)\<rparr>))
         = ((p, rep), a')"
proof (cases "v = [] \<or> length (iq_sha256 req) \<noteq> 64")
  case True
  then show ?thesis
    using assms(1) by (intro refused [of "[]"]) (auto simp: agent_Install_def Let_def say_def simp flip: v_def split: if_splits)
next
  case False
  show ?thesis
  proof (cases "BinaryFor v (ag_kernels a)")
    case (Some bin)
    then show ?thesis
      using assms(1) False by (intro present) (auto simp: agent_Install_def Let_def simp flip: v_def)
  next
    case None
    then have i: "agent_Install w img t rounds chunk req a =
        (case fetchAndUnpack w rounds chunk v req (ag_kernels a) of
           None \<Rightarrow> None
         | Some (Inl e, ps) \<Rightarrow> Some ((FAILED, FetchFailed e), say ps a)
         | Some (Inr ks, ps) \<Rightarrow> Some (settle_install w img t v (iq_activate req) (say ps (a\<lparr>ag_kernels := ks\<rparr>))))"
      using False by (simp add: agent_Install_def Let_def flip: v_def)
    obtain x ps where f: "fetchAndUnpack w rounds chunk v req (ag_kernels a) = Some (x, ps)"
      using assms(1) i by (auto split: option.splits)
    show ?thesis
    proof (cases x)
      case (Inl e)
      then show ?thesis using assms(1) i f by (intro refused [of ps]) auto
    next
      case (Inr ks)
      obtain archive files where u: "length (iq_sha256 req) = 64"
        "to_lower (o_sha256 w archive) = to_lower (iq_sha256 req)"
        "Unpack (o_unzip w) archive = Inr files" "ks = AList.update v files (ag_kernels a)"
        using fetchAndUnpack_spec [OF f [unfolded Inr]] by blast
      then show ?thesis
        using assms(1) i f Inr False None by (intro fetched [of archive files ps]) auto
    qed
  qed
qed

lemma agent_Install_ok:
  assumes "agent_ok w img a" "agent_Install w img t rounds chunk req a = Some (r, a')"
  shows "agent_ok w img a'"
proof -
  obtain p rep where r: "r = (p, rep)" by (cases r)
  from assms(2)[unfolded r] show ?thesis
  proof (cases rule: agent_Install_cases)
    case (refused ps)
    then show ?thesis using assms(1) by (simp add: agent_ok_def)
  next
    case present
    then show ?thesis using settle_install_ok [OF assms(1)] by blast
  next
    case (fetched archive files ps)
    let ?v = "trim_prefix ''v'' (trim_space (iq_version req))"
    have "agent_ok w img (a\<lparr>ag_kernels := AList.update ?v files (ag_kernels a)\<rparr>)"
      by (rule agent_ok_replace [OF assms(1), of ?v])
        (use fetched(1,2) versionOf_absent in \<open>auto simp: versionOf_absent\<close>)
    then show ?thesis
      using settle_install_ok [OF _ fetched(1) fetched(6)] agent_ok_frame
      by (metis say_fields(1,2))
  qed
qed

lemma fetch_archive_ends:
  "Suc (length archive) \<le> rounds \<Longrightarrow> chunk = (\<lambda>off. ReadChunk archive off relayChunkSize) \<Longrightarrow>
     fetch_archive w rounds chunk req \<noteq> None"
  using panel_relay.relay_reassembles [of 0 archive rounds]
  by (simp add: fetch_archive_def split: sum.splits)

section \<open>Properties\<close>

text \<open>What an agent reports after an install instruction. A version reported staged, active or
  inconclusive stands in a directory whose binary itself prints that version, and unless it was there
  before it was unpacked from an archive with the SHA-256 the panel named, a full one. A report of
  failure or rollback leaves the binary to start and the recorded choice as they were. Active means the
  kernel is running from that binary and reports that version. The agent's invariant is kept.\<close>

theorem agent_install_sound:
  assumes "agent_ok w img a" "agent_Install w img t rounds chunk req a = Some ((p, rep), a')"
  defines "v \<equiv> trim_prefix ''v'' (trim_space (iq_version req))"
  shows "agent_ok w img a'
    \<and> (p \<in> {INSTALLED, ACTIVE, INCONCLUSIVE} \<longrightarrow> versionOf w img (ag_kernels a') (KernelBin v) = v
        \<and> (BinaryFor v (ag_kernels a) = None \<longrightarrow>
            (\<exists>archive files. length (iq_sha256 req) = 64 \<and> to_lower (o_sha256 w archive) = to_lower (iq_sha256 req)
               \<and> Unpack (o_unzip w) archive = Inr files \<and> map_of (ag_kernels a') v = Some files)))
    \<and> (p \<notin> {INSTALLED, ACTIVE, INCONCLUSIVE} \<longrightarrow> p \<in> {FAILED, ROLLED_BACK}
        \<and> ag_active a' = ag_active a \<and> m_bin (ag_mgr a') = m_bin (ag_mgr a))
    \<and> (p = ACTIVE \<longrightarrow> m_running_bin (ag_mgr a') = Some (KernelBin v) \<and> RunningVersion (ag_mgr a') = v
        \<and> ag_active a' = Some (v @ [CHR 0x0A]))"
proof -
  have ok: "agent_ok w img a'" by (rule agent_Install_ok [OF assms(1,2)])
  have mgr: "mgr_ok (versionOf w img (ag_kernels b)) (ag_mgr b)" if "agent_ok w img b" for b
    using that by (simp add: agent_ok_def Let_def)
  from assms(2) show ?thesis
  proof (cases rule: agent_Install_cases)
    case (refused ps)
    then show ?thesis using ok by simp
  next
    case present
    note s = settle_install_spec [OF present(3) mgr [OF assms(1)], unfolded in_place_def, folded v_def]
    show ?thesis using s ok present(2) by (auto simp flip: v_def)
  next
    case (fetched archive files ps)
    let ?a = "say ps (a\<lparr>ag_kernels := AList.update v files (ag_kernels a)\<rparr>)"
    have "agent_ok w img ?a"
      using agent_ok_replace [OF assms(1), of v "AList.update v files (ag_kernels a)"] fetched(1,2)
        versionOf_absent [of v "ag_kernels a" w img] agent_ok_frame [of ?a "a\<lparr>ag_kernels := AList.update v files (ag_kernels a)\<rparr>"]
      by (auto simp flip: v_def)
    note s = settle_install_spec [OF fetched(6) mgr, folded v_def, OF this, unfolded in_place_def]
    have "map_of (ag_kernels ?a) v = Some files" by simp
    then have "\<exists>archive files. length (iq_sha256 req) = 64 \<and> to_lower (o_sha256 w archive) = to_lower (iq_sha256 req)
               \<and> Unpack (o_unzip w) archive = Inr files \<and> map_of (ag_kernels ?a) v = Some files"
      using fetched(3,4,5) by blast
    then show ?thesis using s ok by auto
  qed
qed

definition demo_manager :: manager where
  "demo_manager = \<lparr>m_bin = ConfiguredBin ''/usr/bin/xray'', m_config = Some ''{}'', m_state = RUNNING, m_config_version = 3,
     m_running_bin = Some (ConfiguredBin ''/usr/bin/xray''), m_running_version = ''1.0.0'', m_generation = 1, m_alive = True\<rparr>"

definition demo_agent :: agent where
  "demo_agent = \<lparr>ag_mgr = demo_manager, ag_kernels = [], ag_active = None, ag_progress = []\<rparr>"

definition demo_trial :: trial where
  "demo_trial = \<lparr>t_lookpath = (\<lambda>b. True), t_test = (\<lambda>b. None), t_start = (\<lambda>b. None), t_exits = False, t_tail = [],
     t_baseline = None, t_gone_before = False, t_probe = None, t_gone_after = False\<rparr>"

text \<open>Every archive hashes as announced; the configured binary is 1.0.0, any other 26.7.11.\<close>

definition demo_node_outside :: outside where
  "demo_node_outside = demo_outside\<lparr>o_run := (\<lambda>b. if b = ''OLD'' then Some ''Xray 1.0.0'' else Some ''Xray 26.7.11 (Xray)'')\<rparr>"

definition demo_req :: install_req where
  "demo_req = \<lparr>iq_version = ''v26.7.11'', iq_url = ''https://a/x.zip'', iq_sha256 = replicate 64 (CHR ''a''), iq_relay = True,
     iq_activate = True\<rparr>"

definition demo_run :: "trial \<Rightarrow> ((phase \<times> report) \<times> agent) option" where
  "demo_run t = agent_Install demo_node_outside (\<lambda>p. Some ''OLD'') t 1 (\<lambda>off. Inl ''no relay'') demo_req demo_agent"

lemma demo_agent_ok: "agent_ok demo_node_outside (\<lambda>p. Some ''OLD'') demo_agent"
proof -
  have "versionOf demo_node_outside (\<lambda>p. Some ''OLD'') [] (ConfiguredBin ''/usr/bin/xray'') = ''1.0.0''" by code_simp
  then show ?thesis
    by (simp add: agent_ok_def Let_def demo_agent_def demo_manager_def mgr_ok_def good_bin_def)
qed

theorem agent_install_sound_witness:
  "\<exists>rep a'. demo_run demo_trial = Some ((ACTIVE, rep), a')
     \<and> m_running_bin (ag_mgr a') = Some (KernelBin ''26.7.11'') \<and> RunningVersion (ag_mgr a') = ''26.7.11''"
proof -
  have v: "trim_prefix ''v'' (trim_space (iq_version demo_req)) = ''26.7.11''" by code_simp
  have p: "map_option (fst \<circ> fst) (demo_run demo_trial) = Some ACTIVE" by code_simp
  obtain rep a' where r: "demo_run demo_trial = Some ((ACTIVE, rep), a')" using p by (auto simp: demo_run_def)
  show ?thesis
    using agent_install_sound [OF demo_agent_ok r [unfolded demo_run_def]] r unfolding v by blast
qed

text \<open>Switching a running node to another binary. After a failed switch the previous binary is the one
  to start, and it is running again if it can start at all; the switch counts as active only when the
  new binary is running and a client got online both before and after; inconclusive leaves either
  everything as it was or the new binary running on a node where nothing worked before. The config
  and its version are never touched.\<close>

theorem activation_rolls_back:
  assumes "(manager_step ver)\<^sup>*\<^sup>* (New bin0 persisted) m" "Activate ver t bin m = (out, msg, m')"
  shows "m_config m' = m_config m \<and> m_config_version m' = m_config_version m
    \<and> (out = OutcomeFailed \<longrightarrow> m_bin m' = m_bin m
         \<and> (m_config m \<noteq> None \<and> t_start t (m_bin m) = None \<longrightarrow>
              m_state m' = RUNNING \<and> m_running_bin m' = Some (m_bin m) \<and> RunningVersion m' = ver (m_bin m)))
    \<and> (out = OutcomeActive \<longrightarrow> m_bin m' = bin \<and> m_running_bin m' = Some bin \<and> RunningVersion m' = ver bin
         \<and> t_baseline t = None \<and> t_probe t = None)
    \<and> (out = OutcomeInconclusive \<longrightarrow> m' = m \<or>
         m_bin m' = bin \<and> m_running_bin m' = Some bin \<and> RunningVersion m' = ver bin \<and> t_baseline t \<noteq> None)"
proof -
  note c = Activate_cases [OF reachable_manager_ok [OF assms(1)] assms(2)]
  have "RunningVersion m' = ver b" if "m_state m' = RUNNING" "m_running_bin m' = Some b" for b
    using c that by (simp add: mgr_ok_def RunningVersion_def)
  then show ?thesis using c by (auto simp: same_config_def)
qed

theorem activation_rolls_back_witness:
  "\<exists>msg m'. Activate (\<lambda>b. ''1.0.0'') (demo_trial\<lparr>t_exits := True\<rparr>) (KernelBin ''26.7.11'')
       (snd (Start (\<lambda>b. ''1.0.0'') (\<lambda>b. None) (New (ConfiguredBin ''xray'') (Some ''{}'')))) = (OutcomeFailed, msg, m')
     \<and> m_bin m' = ConfiguredBin ''xray'' \<and> m_state m' = RUNNING"
proof -
  let ?ver = "\<lambda>b::binpath. ''1.0.0''" and ?t = "demo_trial\<lparr>t_exits := True\<rparr>"
  let ?m = "snd (Start ?ver (\<lambda>b. None) (New (ConfiguredBin ''xray'') (Some ''{}'')))"
  have "manager_step ?ver (New (ConfiguredBin ''xray'') (Some ''{}'')) ?m"
    by (rule manager_step.started [OF surjective_pairing])
  then have r: "(manager_step ?ver)\<^sup>*\<^sup>* (New (ConfiguredBin ''xray'') (Some ''{}'')) ?m" by blast
  have o: "fst (Activate ?ver ?t (KernelBin ''26.7.11'') ?m) = OutcomeFailed" by code_simp
  obtain msg m' where A: "Activate ?ver ?t (KernelBin ''26.7.11'') ?m = (OutcomeFailed, msg, m')"
    using o by (metis prod.collapse)
  have m: "m_bin ?m = ConfiguredBin ''xray''" "m_config ?m \<noteq> None" "t_start ?t (m_bin ?m) = None"
    by (simp_all add: Start_def New_def startLocked_def demo_trial_def)
  show ?thesis using activation_rolls_back [OF r A] A m by auto
qed

text \<open>Applying a pushed config on a node, on every branch. Success: the kernel runs on that config
  and its version is the reported one. A stale version, a missing binary or a config the kernel's own
  test rejects changes nothing at all. When the kernel does not start or exits at once, the new
  config has replaced the old one on disk and no kernel runs.\<close>

theorem apply_outcomes:
  assumes "(manager_step ver)\<^sup>*\<^sup>* (New bin0 persisted) m" "Apply ver t version c m = (e, m')"
  shows "case e of
      None \<Rightarrow> m_state m' = RUNNING \<and> m_config m' = Some c \<and> m_config_version m' = version
    | Some (Stale v cur) \<Rightarrow> m' = m \<and> version < m_config_version m
    | Some (BinaryNotFound b) \<Rightarrow> m' = m
    | Some (TestFailed out) \<Rightarrow> m' = m
    | Some (NotStarted x) \<Rightarrow> m_state m' = ERROR \<and> \<not> m_alive m' \<and> m_config m' = Some c
    | Some (ExitedAtOnce x) \<Rightarrow> m_state m' = ERROR \<and> \<not> m_alive m' \<and> m_config m' = Some c"
proof -
  note c = Apply_cases [OF reachable_manager_ok [OF assms(1)] assms(2)]
  have "version < m_config_version m" if "e = Some (Stale a b)" for a b
    using assms(2) that
    by (auto simp: Apply_def Let_def split: if_splits option.splits prod.splits)
  then show ?thesis using c by (auto split: option.splits apply_error.splits)
qed

theorem apply_outcomes_witness:
  "m_config (snd (Apply (\<lambda>b. ''1.0.0'') (demo_trial\<lparr>t_exits := True\<rparr>) 4 ''{new}''
      (New (ConfiguredBin ''xray'') (Some ''{}'')))) = Some ''{new}''"
proof -
  let ?m = "New (ConfiguredBin ''xray'') (Some ''{}'')" and ?t = "demo_trial\<lparr>t_exits := True\<rparr>"
  have e: "case fst (Apply (\<lambda>b. ''1.0.0'') ?t 4 ''{new}'' ?m) of Some (ExitedAtOnce x) \<Rightarrow> True | _ \<Rightarrow> False" by code_simp
  then obtain x where x: "fst (Apply (\<lambda>b. ''1.0.0'') ?t 4 ''{new}'' ?m) = Some (ExitedAtOnce x)"
    by (auto split: option.splits apply_error.splits)
  have "Apply (\<lambda>b. ''1.0.0'') ?t 4 ''{new}'' ?m
      = (Some (ExitedAtOnce x), snd (Apply (\<lambda>b. ''1.0.0'') ?t 4 ''{new}'' ?m))"
    using x by (metis prod.collapse)
  from apply_outcomes [OF rtranclp.rtrancl_refl this] show ?thesis by simp
qed

text \<open>When the panel's connection drops after the baseline check, the switch is given up before
  anything is touched, and yet the version is reported inconclusive and recorded as the one the
  agent starts with from now on.\<close>

theorem dropped_switch_recorded:
  assumes "iq_activate req" "length (iq_sha256 req) = 64" "t_gone_before t"
    and "v = trim_prefix ''v'' (trim_space (iq_version req))" "v \<noteq> []"
    and "BinaryFor v (ag_kernels a) \<noteq> None" "versionOf w img (ag_kernels a) (KernelBin v) = v"
    and "m_bin (ag_mgr a) \<noteq> KernelBin v"
  shows "\<exists>msg a'. agent_Install w img t rounds chunk req a = Some ((INCONCLUSIVE, Judged msg), a')
    \<and> ag_mgr a' = ag_mgr a \<and> ag_active a' = Some (v @ [CHR 0x0A])"
  using assms
  by (auto simp: agent_Install_def settle_install_def Activate_def Let_def)

theorem dropped_switch_recorded_witness:
  "\<exists>a a'. m_bin (ag_mgr a') = m_bin (ag_mgr a) \<and> m_bin (ag_mgr a) = ConfiguredBin ''/usr/bin/xray''
     \<and> ActiveBinary demo_node_outside (\<lambda>p. Some ''OLD'') a = None
     \<and> (\<exists>msg. agent_Install demo_node_outside (\<lambda>p. Some ''OLD'') (demo_trial\<lparr>t_gone_before := True\<rparr>) 1
          (\<lambda>off. Inl ''no relay'') demo_req a = Some ((INCONCLUSIVE, Judged msg), a'))
     \<and> ActiveBinary demo_node_outside (\<lambda>p. Some ''OLD'') a' = Some (KernelBin ''26.7.11'')"
proof -
  let ?w = demo_node_outside and ?img = "\<lambda>p::string. Some ''OLD''" and ?t = "demo_trial\<lparr>t_gone_before := True\<rparr>"
  let ?a = "demo_agent\<lparr>ag_kernels := [(''26.7.11'', [(''xray'', \<lparr>f_data = ''NEW'', f_exec = True, f_dir = False\<rparr>)])]\<rparr>"
  have v: "''26.7.11'' = trim_prefix ''v'' (trim_space (iq_version demo_req))" by code_simp
  have b: "BinaryFor ''26.7.11'' (ag_kernels ?a) \<noteq> None" "versionOf ?w ?img (ag_kernels ?a) (KernelBin ''26.7.11'') = ''26.7.11''"
    by code_simp+
  obtain msg a' where i: "agent_Install ?w ?img ?t 1 (\<lambda>off. Inl ''no relay'') demo_req ?a = Some ((INCONCLUSIVE, Judged msg), a')"
      "ag_mgr a' = ag_mgr ?a"
    using dropped_switch_recorded [OF _ _ _ v _ b, of ?t 1 "\<lambda>off. Inl ''no relay''"]
    by (auto simp: demo_req_def demo_trial_def demo_agent_def demo_manager_def)
  have "map_option (\<lambda>r. ActiveBinary ?w ?img (snd r)) (agent_Install ?w ?img ?t 1 (\<lambda>off. Inl ''no relay'') demo_req ?a)
      = Some (Some (KernelBin ''26.7.11''))" by code_simp
  then have "ActiveBinary ?w ?img a' = Some (KernelBin ''26.7.11'')" using i(1) by simp
  moreover have "ActiveBinary ?w ?img ?a = None" by code_simp
  moreover have "m_bin (ag_mgr ?a) = ConfiguredBin ''/usr/bin/xray''" by (simp add: demo_agent_def demo_manager_def)
  ultimately show ?thesis using i by metis
qed

end
