(* ===== verification/Upgrade.thy ===== *)
theory Upgrade
  imports NodeStore AgentKernel
begin

text \<open>
  Package \<open>upgrade\<close> (\<open>core/internal/upgrade/canary.go\<close>, \<open>upgrade.go\<close>) and its tables
  (\<open>core/internal/store/xrayupgrade.go\<close>, \<open>xrayinstall.go\<close>): a kernel upgrade goes to one node first,
  then waits for a person, then to the fleet.

  The state is the two tables, the nodes, the panel's own kernels, the cached answer of upstream, the
  instructions sent, the notifications announced and the goroutines still to run. Requests, agent
  reports, relay requests and goroutines interleave as the steps of a labelled relation. Upstream, the
  reachability of a node and the words of an error are the record \<open>world\<close>, an argument of each step.

  The theorems show which state follows which and who may cause it, that the panel has a kernel
  before any node is told to install it, that a failure announces itself once and a report about a
  superseded attempt changes nothing, and that the relay hands a node nothing but the verified archive
  it was told to install.
\<close>

section \<open>Rows\<close>

datatype ustate = UpgradeCanary | UpgradeAwaitingPromote | UpgradePromoting | UpgradeDone | UpgradeBlocked

record upgrade =
  up_id :: id
  up_version :: string
  up_state :: ustate
  up_canary_node_id :: string
  up_message :: string
  up_started_at :: int
  up_updated_at :: int

definition InFlight :: "upgrade \<Rightarrow> bool" where
  "InFlight u \<longleftrightarrow>
     (case up_state u of UpgradeCanary \<Rightarrow> True | UpgradeAwaitingPromote \<Rightarrow> True | UpgradePromoting \<Rightarrow> True
      | UpgradeBlocked \<Rightarrow> True | UpgradeDone \<Rightarrow> False)"

fun phaseName :: "phase \<Rightarrow> string" where
  "phaseName UNSPECIFIED = ''UNSPECIFIED''"
| "phaseName DOWNLOADING = ''DOWNLOADING''"
| "phaseName VERIFYING = ''VERIFYING''"
| "phaseName INSTALLED = ''INSTALLED''"
| "phaseName ACTIVATING = ''ACTIVATING''"
| "phaseName ACTIVE = ''ACTIVE''"
| "phaseName INCONCLUSIVE = ''INCONCLUSIVE''"
| "phaseName FAILED = ''FAILED''"
| "phaseName ROLLED_BACK = ''ROLLED_BACK''"

record xray_install =
  xi_node_id :: id
  xi_version :: string
  xi_download_url :: string
  xi_sha256 :: string
  xi_activate :: bool
  xi_phase :: string
  xi_message :: string
  xi_started_at :: int
  xi_updated_at :: int

record xray_status =
  xs_version :: string
  xs_phase :: phase
  xs_message :: string
  xs_running_version :: string
  xs_installed_version :: string

record announcement =
  an_title :: string
  an_body :: string
  an_node :: string
  an_online :: bool
  an_at :: int

text \<open>A goroutine: the canary's install with the words of its failure, or the fan-out with the nodes
  left, the failures so far and the number of targets.\<close>

datatype job =
    CanaryInstall upgrade id string
  | FanOut upgrade "node list" "string list" nat

record service =
  us_upgrades :: "upgrade list"
  us_installs :: "xray_install list"
  us_nodes :: "node list"
  us_kernels :: kernels
  us_cached :: release
  us_cached_at :: int
  us_sent :: "(id \<times> string \<times> bool) list"
  us_alerts :: "announcement list"
  us_jobs :: "job list"

datatype upgrade_error =
    NoVersion | NoCanary | NoSuchNode | AlreadyInProgress | NoneInProgress | WrongState ustate
  | NoCanaryToRetry | ChangedState | NodeError db_error | NoPlatform string | Upstream string | NoSuitableRelease
  | NoSuchRelease string | NoAsset asset_error | PanelCannotValidate string asset_error | NoDigest kernel_error
  | PanelInstall string kernel_error | NotReachable string

record world =
  w_out :: outside
  w_send :: "id \<Rightarrow> string option"
  w_text :: "upgrade_error \<Rightarrow> string"

section \<open>Store\<close>

definition upgrades_ok :: "upgrade list \<Rightarrow> bool" where
  "upgrades_ok t \<longleftrightarrow> distinct (map up_id t) \<and> length (filter InFlight t) \<le> 1"

definition ActiveUpgrade :: "upgrade list \<Rightarrow> upgrade option" where
  "ActiveUpgrade t = sql_row InFlight t"

definition StartUpgrade ::
  "id \<Rightarrow> string \<Rightarrow> id \<Rightarrow> int \<Rightarrow> id set \<Rightarrow> upgrade list \<Rightarrow> (upgrade_error, upgrade \<times> upgrade list) result" where
  "StartUpgrade uid version canary ts nodes t =
     (let u = \<lparr>up_id = uid, up_version = version, up_state = UpgradeCanary, up_canary_node_id = canary,
               up_message = [], up_started_at = ts, up_updated_at = ts\<rparr>
      in if \<not> upgrades_ok (t @ [u]) \<or> canary \<noteq> [] \<and> canary \<notin> nodes
         then (if ActiveUpgrade t = None then Inl NoSuchNode else Inl AlreadyInProgress)
         else Inr (u, t @ [u]))"

definition SetUpgradeState ::
  "id \<Rightarrow> ustate \<Rightarrow> ustate \<Rightarrow> string \<Rightarrow> int \<Rightarrow> upgrade list \<Rightarrow> bool \<times> upgrade list" where
  "SetUpgradeState i frm to message ts t =
     (let P = (\<lambda>u. up_id u = i \<and> up_state u = frm);
          t' = sql_update P (\<lambda>u. u\<lparr>up_state := to, up_message := message, up_updated_at := ts\<rparr>) t
      in if upgrades_ok t' then (rows_affected P t > 0, t') else (False, t))"

definition StartXrayInstall :: "xray_install \<Rightarrow> int \<Rightarrow> xray_install list \<Rightarrow> xray_install list" where
  "StartXrayInstall x ts t =
     (let row = x\<lparr>xi_message := [], xi_started_at := ts, xi_updated_at := ts\<rparr>
      in if \<exists>r\<in>set t. xi_node_id r = xi_node_id x
         then sql_update (\<lambda>r. xi_node_id r = xi_node_id x) (\<lambda>r. row) t
         else t @ [row])"

definition UpdateXrayInstall ::
  "id \<Rightarrow> string \<Rightarrow> string \<Rightarrow> string \<Rightarrow> int \<Rightarrow> xray_install list \<Rightarrow> bool \<times> xray_install list" where
  "UpdateXrayInstall nodeID version phase message ts t =
     (let P = (\<lambda>r. xi_node_id r = nodeID \<and> xi_version r = version)
      in (rows_affected P t > 0,
          sql_update P (\<lambda>r. r\<lparr>xi_phase := phase, xi_message := message, xi_updated_at := ts\<rparr>) t))"

definition XrayInstallFor :: "id \<Rightarrow> xray_install list \<Rightarrow> xray_install option" where
  "XrayInstallFor nodeID t = sql_row (\<lambda>r. xi_node_id r = nodeID) t"

section \<open>Installing on one node\<close>

definition releaseCacheTTL :: int where "releaseCacheTTL = 15 * 60"

text \<open>\<open>Client.List\<close> and \<open>Client.Latest\<close> of package \<open>release\<close>, then the service's cache over them.\<close>

definition List :: "outside \<Rightarrow> int \<Rightarrow> (upgrade_error, release list) result" where
  "List w n =
     (let n = (if n \<le> 0 \<or> n > 100 then 10 else n)
      in case o_list w (nat n) of Inl e \<Rightarrow> Inl (Upstream e) | Inr raw \<Rightarrow> Inr (listFrom raw))"

definition client_Latest :: "outside \<Rightarrow> bool \<Rightarrow> (upgrade_error, release) result" where
  "client_Latest w includePrerelease =
     bind_result (List w 10)
       (\<lambda>rs. let best = pickLatest rs includePrerelease
              in if rl_version best = [] then Inl NoSuitableRelease else Inr best)"

definition Latest :: "outside \<Rightarrow> int \<Rightarrow> service \<Rightarrow> (upgrade_error, release) result \<times> service" where
  "Latest w now s =
     (if rl_version (us_cached s) \<noteq> [] \<and> now - us_cached_at s < releaseCacheTTL then (Inr (us_cached s), s)
      else (case client_Latest w True of
              Inl e \<Rightarrow> (Inl e, s)
            | Inr r \<Rightarrow> (Inr r, s\<lparr>us_cached := r, us_cached_at := now\<rparr>)))"

definition find_release :: "outside \<Rightarrow> string \<Rightarrow> (upgrade_error, release) result" where
  "find_release w version =
     bind_result (List w 30)
       (\<lambda>rs. case find (\<lambda>r. rl_version r = version) rs of None \<Rightarrow> Inl (NoSuchRelease version) | Some r \<Rightarrow> Inr r)"

definition releaseFor :: "outside \<Rightarrow> int \<Rightarrow> string \<Rightarrow> service \<Rightarrow> (upgrade_error, release) result \<times> service" where
  "releaseFor w now version s =
     (case Latest w now s of
        (Inr latest, s) \<Rightarrow> if rl_version latest = version then (Inr latest, s) else (find_release w version, s)
      | (Inl e, s) \<Rightarrow> (find_release w version, s))"

text \<open>The panel's own copy of a version, fetched if it is not there. Its platform, not the node's.\<close>

definition ensure_panel_kernel :: "outside \<Rightarrow> release \<Rightarrow> string \<Rightarrow> kernels \<Rightarrow> upgrade_error option \<times> kernels" where
  "ensure_panel_kernel w rel version k =
     (if Has w version k then (None, k)
      else (case AssetFor rel (o_platform w) of
              Inl e \<Rightarrow> (Some (PanelCannotValidate version e), k)
            | Inr (coreArchive, coreDigest) \<Rightarrow>
                (case Checksum w coreDigest of
                   Inl e \<Rightarrow> (Some (NoDigest e), k)
                 | Inr coreSum \<Rightarrow>
                     (case Install w version coreArchive coreSum k of
                        (Some e, k) \<Rightarrow> (Some (PanelInstall version e), k)
                      | (None, k) \<Rightarrow> (None, k)))))"

text \<open>\<open>InstallOn\<close>: the panel fetches the version for itself first, then the attempt is recorded, then
  the node is told.\<close>

definition InstallOn ::
  "box \<Rightarrow> world \<Rightarrow> int \<Rightarrow> id \<Rightarrow> string \<Rightarrow> bool \<Rightarrow> service \<Rightarrow> (upgrade_error, xray_install) result \<times> service" where
  "InstallOn b w now nodeID version activate s =
     (let version = NormalizeVersion version in
      case GetNode b nodeID (us_nodes s) of
        Inl e \<Rightarrow> (Inl (NodeError e), s)
      | Inr n \<Rightarrow>
          (let platform = trim_space (n_platform n) in
           if platform = [] then (Inl (NoPlatform (n_name n)), s)
           else (case releaseFor (w_out w) now version s of
                   (Inl e, s) \<Rightarrow> (Inl e, s)
                 | (Inr rel, s) \<Rightarrow>
                     (case AssetFor rel platform of
                        Inl e \<Rightarrow> (Inl (NoAsset e), s)
                      | Inr (archiveURL, digestURL) \<Rightarrow>
                          (case Checksum (w_out w) digestURL of
                             Inl e \<Rightarrow> (Inl (NoDigest e), s)
                           | Inr digest \<Rightarrow>
                               (case ensure_panel_kernel (w_out w) rel version (us_kernels s) of
                                  (Some e, k) \<Rightarrow> (Inl e, s\<lparr>us_kernels := k\<rparr>)
                                | (None, k) \<Rightarrow>
                                    (let x = \<lparr>xi_node_id = nodeID, xi_version = version, xi_download_url = archiveURL,
                                              xi_sha256 = digest, xi_activate = activate,
                                              xi_phase = phaseName UNSPECIFIED, xi_message = [],
                                              xi_started_at = 0, xi_updated_at = 0\<rparr>;
                                         s = s\<lparr>us_kernels := k,
                                               us_installs := StartXrayInstall x now (us_installs s)\<rparr>
                                     in case w_send w nodeID of
                                          Some e \<Rightarrow> (Inl (NotReachable e), s)
                                        | None \<Rightarrow>
                                            (Inr x, s\<lparr>us_sent := us_sent s @ [(nodeID, version, activate)]\<rparr>))))))))"

section \<open>Relaying an archive\<close>

record xray_chunk =
  xc_version :: string
  xc_offset :: int
  xc_data :: string
  xc_last :: bool
  xc_error :: string

definition relay_refusal :: "string \<Rightarrow> int \<Rightarrow> string \<Rightarrow> xray_chunk" where
  "relay_refusal version offset msg =
     \<lparr>xc_version = version, xc_offset = offset, xc_data = [], xc_last = False, xc_error = msg\<rparr>"

text \<open>The chunk \<open>HandleRelayRequest\<close> sends back: \<open>err\<close> gives the words of a failed fetch.\<close>

definition HandleRelayRequest ::
  "box \<Rightarrow> outside \<Rightarrow> (kernel_error \<Rightarrow> string) \<Rightarrow> id \<Rightarrow> string \<Rightarrow> int \<Rightarrow> service \<Rightarrow> xray_chunk \<times> service" where
  "HandleRelayRequest b w err nodeID reqVersion offset s =
     (let version = NormalizeVersion reqVersion; fail = relay_refusal version offset in
      case XrayInstallFor nodeID (us_installs s) of
        None \<Rightarrow> (fail ''this node has no install in progress'', s)
      | Some x \<Rightarrow>
          if xi_version x \<noteq> version
          then (fail (''this node was told to install '' @ xi_version x @ '', not '' @ version), s)
          else (case GetNode b nodeID (us_nodes s) of
                  Inl e \<Rightarrow> (fail ''the node's platform is unknown'', s)
                | Inr n \<Rightarrow>
                    if n_platform n = [] then (fail ''the node's platform is unknown'', s)
                    else (case EnsureArchive w version (n_platform n) (xi_download_url x) (xi_sha256 x) (us_kernels s) of
                            (Inl e, k) \<Rightarrow>
                              (fail (''the panel could not obtain the archive: '' @ err e), s\<lparr>us_kernels := k\<rparr>)
                          | (Inr path, k) \<Rightarrow>
                              (case ReadChunk (the (map_of (k_archives k) path)) offset relayChunkSize of
                                 Inl e \<Rightarrow> (fail e, s\<lparr>us_kernels := k\<rparr>)
                               | Inr (data, final) \<Rightarrow>
                                   (\<lparr>xc_version = version, xc_offset = offset, xc_data = data, xc_last = final,
                                     xc_error = []\<rparr>, s\<lparr>us_kernels := k\<rparr>)))))"

section \<open>The fleet upgrade\<close>

definition finish :: "upgrade \<Rightarrow> ustate \<Rightarrow> ustate \<Rightarrow> string \<Rightarrow> int \<Rightarrow> service \<Rightarrow> bool \<times> service" where
  "finish u frm to message now s =
     (if frm = to then (False, s)
      else (case SetUpgradeState (up_id u) frm to message now (us_upgrades s) of
              (moved, t) \<Rightarrow> (moved, s\<lparr>us_upgrades := t\<rparr>)))"

definition StartCanary ::
  "id \<Rightarrow> string \<Rightarrow> id \<Rightarrow> int \<Rightarrow> service \<Rightarrow> (upgrade_error, upgrade) result \<times> service" where
  "StartCanary uid version canary now s =
     (let version = NormalizeVersion version in
      if version = [] then (Inl NoVersion, s)
      else if canary = [] then (Inl NoCanary, s)
      else (case StartUpgrade uid version canary now (set (map n_id (us_nodes s))) (us_upgrades s) of
              Inl e \<Rightarrow> (Inl e, s)
            | Inr (u, t) \<Rightarrow>
                (Inr u, s\<lparr>us_upgrades := t,
                          us_jobs := CanaryInstall u canary ''could not start the canary'' # us_jobs s\<rparr>)))"

definition promotionTargets :: "box \<Rightarrow> upgrade \<Rightarrow> node list \<Rightarrow> (db_error, node list) result" where
  "promotionTargets b u t =
     bind_result (ListNodes b t)
       (\<lambda>ns. Inr (sort_key n_name (filter (\<lambda>n. n_id n \<noteq> up_canary_node_id u) ns)))"

definition Promote :: "box \<Rightarrow> int \<Rightarrow> service \<Rightarrow> (upgrade_error, upgrade) result \<times> service" where
  "Promote b now s =
     (case ActiveUpgrade (us_upgrades s) of
        None \<Rightarrow> (Inl NoneInProgress, s)
      | Some u \<Rightarrow>
          if up_state u \<noteq> UpgradeAwaitingPromote then (Inl (WrongState (up_state u)), s)
          else (case SetUpgradeState (up_id u) UpgradeAwaitingPromote UpgradePromoting [] now (us_upgrades s) of
                  (moved, t) \<Rightarrow>
                    if \<not> moved then (Inl ChangedState, s)
                    else (let s = s\<lparr>us_upgrades := t\<rparr>; u = u\<lparr>up_state := UpgradePromoting\<rparr>
                          in case promotionTargets b u (us_nodes s) of
                               Inl e \<Rightarrow> (Inl (NodeError e), s)
                             | Inr targets \<Rightarrow>
                                 if targets = []
                                 then (Inr (u\<lparr>up_state := UpgradeDone\<rparr>),
                                       snd (finish u UpgradePromoting UpgradeDone ''only the canary needed upgrading'' now s))
                                 else (Inr u, s\<lparr>us_jobs := FanOut u targets [] (length targets) # us_jobs s\<rparr>))))"

definition Retry :: "int \<Rightarrow> service \<Rightarrow> (upgrade_error, upgrade) result \<times> service" where
  "Retry now s =
     (case ActiveUpgrade (us_upgrades s) of
        None \<Rightarrow> (Inl NoneInProgress, s)
      | Some u \<Rightarrow>
          if up_state u \<noteq> UpgradeBlocked then (Inl (WrongState (up_state u)), s)
          else if up_canary_node_id u = [] then (Inl NoCanaryToRetry, s)
          else (case SetUpgradeState (up_id u) UpgradeBlocked UpgradeCanary [] now (us_upgrades s) of
                  (moved, t) \<Rightarrow>
                    if \<not> moved then (Inl ChangedState, s)
                    else (let u = u\<lparr>up_state := UpgradeCanary, up_message := []\<rparr>
                          in (Inr u, s\<lparr>us_upgrades := t,
                                us_jobs := CanaryInstall u (up_canary_node_id u) ''could not restart the canary'' # us_jobs s\<rparr>))))"

definition Abandon :: "int \<Rightarrow> service \<Rightarrow> (upgrade_error, upgrade) result \<times> service" where
  "Abandon now s =
     (case ActiveUpgrade (us_upgrades s) of
        None \<Rightarrow> (Inl NoneInProgress, s)
      | Some u \<Rightarrow>
          (case SetUpgradeState (up_id u) (up_state u) UpgradeDone ''abandoned by an operator'' now (us_upgrades s) of
             (moved, t) \<Rightarrow>
               if \<not> moved then (Inl ChangedState, s)
               else (Inr (u\<lparr>up_state := UpgradeDone\<rparr>), s\<lparr>us_upgrades := t\<rparr>)))"

definition settled_phase :: "string \<Rightarrow> bool" where
  "settled_phase p \<longleftrightarrow> p \<in> {''ACTIVE'', ''INCONCLUSIVE'', ''INSTALLED''}"

definition checkPromotionComplete :: "box \<Rightarrow> upgrade \<Rightarrow> int \<Rightarrow> service \<Rightarrow> service" where
  "checkPromotionComplete b u now s =
     (case promotionTargets b u (us_nodes s) of
        Inl e \<Rightarrow> s
      | Inr targets \<Rightarrow>
          if list_all (\<lambda>n. case XrayInstallFor (n_id n) (us_installs s) of
                             None \<Rightarrow> False
                           | Some x \<Rightarrow> xi_version x = up_version u \<and> settled_phase (xi_phase x)) targets
          then snd (finish u UpgradePromoting UpgradeDone
                 (up_version u @ '' is running on '' @ show_nat (length targets + 1) @ '' nodes'') now s)
          else s)"

definition node_label :: "box \<Rightarrow> id \<Rightarrow> service \<Rightarrow> string" where
  "node_label b nodeID s = (case GetNode b nodeID (us_nodes s) of Inl _ \<Rightarrow> nodeID | Inr n \<Rightarrow> n_name n)"

definition block :: "box \<Rightarrow> upgrade \<Rightarrow> id \<Rightarrow> xray_status \<Rightarrow> int \<Rightarrow> service \<Rightarrow> service" where
  "block b u nodeID st now s =
     (let name = node_label b nodeID s;
          rolledBack = (xs_phase st = ROLLED_BACK);
          verb = (if rolledBack then ''rolled back from'' else ''could not install'');
          msg = name @ '' '' @ verb @ '' '' @ up_version u @ '': '' @ xs_message st;
          (moved, s) = finish u (up_state u) UpgradeBlocked msg now s
      in if \<not> moved then s
         else (let body = (if rolledBack
                           then msg @ [CHR 0x0A, CHR 0x0A] @ ''The node is serving again on '' @ xs_running_version st @ ''.''
                           else msg)
               in s\<lparr>us_alerts := us_alerts s @ [\<lparr>an_title = ''Kernel upgrade blocked'', an_body = body,
                      an_node = name, an_online = rolledBack, an_at = now\<rparr>]\<rparr>))"

definition canary_message :: "upgrade \<Rightarrow> xray_status \<Rightarrow> string" where
  "canary_message u st =
     (if xs_phase st = INCONCLUSIVE
      then ''the canary is running '' @ up_version u @ '', but the agent could not confirm it is serving: '' @ xs_message st
      else ''the canary is running '' @ up_version u)"

definition advance :: "box \<Rightarrow> id \<Rightarrow> xray_status \<Rightarrow> int \<Rightarrow> service \<Rightarrow> service" where
  "advance b nodeID st now s =
     (case ActiveUpgrade (us_upgrades s) of
        None \<Rightarrow> s
      | Some u \<Rightarrow>
          if NormalizeVersion (xs_version st) \<noteq> up_version u then s
          else if up_state u = UpgradeBlocked then s
          else if xs_phase st = ROLLED_BACK \<or> xs_phase st = FAILED then block b u nodeID st now s
          else if xs_phase st \<noteq> ACTIVE \<and> xs_phase st \<noteq> INCONCLUSIVE then s
          else (case up_state u of
                  UpgradeCanary \<Rightarrow>
                    if nodeID \<noteq> up_canary_node_id u then s
                    else snd (finish u UpgradeCanary UpgradeAwaitingPromote (canary_message u st) now s)
                | UpgradePromoting \<Rightarrow> checkPromotionComplete b u now s
                | _ \<Rightarrow> s))"

definition HandleStatus :: "box \<Rightarrow> id \<Rightarrow> xray_status \<Rightarrow> int \<Rightarrow> service \<Rightarrow> service" where
  "HandleStatus b nodeID st now s =
     (case UpdateXrayInstall nodeID (NormalizeVersion (xs_version st)) (phaseName (xs_phase st))
             (xs_message st) now (us_installs s) of
        (ok, t) \<Rightarrow>
          if \<not> ok then s
          else (let s = s\<lparr>us_installs := t,
                          us_nodes := snd (SetXrayVersions nodeID (xs_running_version st)
                                             (xs_installed_version st) (us_nodes s))\<rparr>
                in advance b nodeID st now s))"

fun join_space :: "string list \<Rightarrow> string" where
  "join_space [] = []"
| "join_space [x] = x"
| "join_space (x # xs) = x @ '' '' @ join_space xs"

definition installAsync :: "box \<Rightarrow> world \<Rightarrow> int \<Rightarrow> upgrade \<Rightarrow> id \<Rightarrow> string \<Rightarrow> service \<Rightarrow> service" where
  "installAsync b w now u nodeID what s =
     (case InstallOn b w now nodeID (up_version u) True s of
        (Inl e, s) \<Rightarrow> snd (finish u (up_state u) UpgradeBlocked (what @ '': '' @ w_text w e) now s)
      | (Inr _, s) \<Rightarrow> s)"

text \<open>\<open>fanOut\<close>: one round of its loop, and what follows the loop.\<close>

definition fanOut_node :: "box \<Rightarrow> world \<Rightarrow> int \<Rightarrow> upgrade \<Rightarrow> node \<Rightarrow> string list \<Rightarrow> service \<Rightarrow> string list \<times> service" where
  "fanOut_node b w now u n failures s =
     (case InstallOn b w now (n_id n) (up_version u) True s of
        (Inl e, s) \<Rightarrow> (failures @ [n_name n @ '': '' @ w_text w e], s)
      | (Inr _, s) \<Rightarrow> (failures, s))"

definition fanOut_end :: "int \<Rightarrow> upgrade \<Rightarrow> string list \<Rightarrow> nat \<Rightarrow> service \<Rightarrow> service" where
  "fanOut_end now u failures targets s =
     (if failures \<noteq> []
      then snd (finish u UpgradePromoting UpgradeBlocked
              (show_nat (length failures) @ '' of '' @ show_nat targets @ '' nodes could not be reached: ''
                @ ''['' @ join_space failures @ '']'') now s)
      else s)"

text \<open>One goroutine runs on: the canary's whole install, one node of a fan-out, or its end.\<close>

fun run_job :: "box \<Rightarrow> world \<Rightarrow> int \<Rightarrow> job \<Rightarrow> service \<Rightarrow> job option \<times> service" where
  "run_job b w now (CanaryInstall u nodeID what) s = (None, installAsync b w now u nodeID what s)"
| "run_job b w now (FanOut u (n # ns) failures targets) s =
     (case fanOut_node b w now u n failures s of (failures, s) \<Rightarrow> (Some (FanOut u ns failures targets), s))"
| "run_job b w now (FanOut u [] failures targets) s = (None, fanOut_end now u failures targets s)"

definition Prewarm :: "outside \<Rightarrow> int \<Rightarrow> service \<Rightarrow> service" where
  "Prewarm w now s =
     (case Latest w now s of
        (Inl e, s) \<Rightarrow> s
      | (Inr rel, s) \<Rightarrow> s\<lparr>us_kernels := snd (ensure_panel_kernel w rel (rl_version rel) (us_kernels s))\<rparr>)"

section \<open>Steps\<close>

datatype label = StartL | PromoteL | RetryL | AbandonL | Report id xray_status | Background | Fleet

text \<open>Nodes come and go: a deleted node takes its install row with it, and an upgrade whose canary is
  deleted has none.\<close>

definition set_nodes :: "node list \<Rightarrow> service \<Rightarrow> service" where
  "set_nodes ns s =
     s\<lparr>us_nodes := ns,
       us_installs := sql_delete (\<lambda>r. xi_node_id r \<notin> set (map n_id ns)) (us_installs s),
       us_upgrades := sql_update (\<lambda>u. up_canary_node_id u \<notin> set (map n_id ns))
                        (\<lambda>u. u\<lparr>up_canary_node_id := []\<rparr>) (us_upgrades s)\<rparr>"

text \<open>\<open>run\<close>, what a binary prints as its version, is the one thing outside that stays the same from step to
  step. A background step is one goroutine running on, an operator's one-off install, a prewarm or a
  relay request.\<close>

inductive upgrade_step :: "(string \<Rightarrow> string option) \<Rightarrow> label \<Rightarrow> service \<Rightarrow> service \<Rightarrow> bool" for run where
  start: "StartCanary uid version canary now s = (r, s') \<Longrightarrow> upgrade_step run StartL s s'"
| promote: "Promote b now s = (r, s') \<Longrightarrow> upgrade_step run PromoteL s s'"
| retry: "Retry now s = (r, s') \<Longrightarrow> upgrade_step run RetryL s s'"
| abandon: "Abandon now s = (r, s') \<Longrightarrow> upgrade_step run AbandonL s s'"
| report: "HandleStatus b n st now s = s' \<Longrightarrow> upgrade_step run (Report n st) s s'"
| job: "us_jobs s = js @ j # ks \<Longrightarrow> o_run (w_out w) = run \<Longrightarrow>
    run_job b w now j (s\<lparr>us_jobs := js @ ks\<rparr>) = (jo, s') \<Longrightarrow>
    s'' = (case jo of None \<Rightarrow> s' | Some j' \<Rightarrow> s'\<lparr>us_jobs := j' # us_jobs s'\<rparr>) \<Longrightarrow>
    upgrade_step run Background s s''"
| one_off: "o_run (w_out w) = run \<Longrightarrow> InstallOn b w now n v act s = (r, s') \<Longrightarrow> upgrade_step run Background s s'"
| prewarm: "o_run w = run \<Longrightarrow> Prewarm w now s = s' \<Longrightarrow> upgrade_step run Background s s'"
| relay: "o_run w = run \<Longrightarrow> HandleRelayRequest b w err n v off s = (c, s') \<Longrightarrow> upgrade_step run Background s s'"
| fleet: "upgrade_step run Fleet s (set_nodes ns s)"

section \<open>The one upgrade in flight\<close>

lemma InFlight_iff: "InFlight u \<longleftrightarrow> up_state u \<noteq> UpgradeDone"
  by (simp add: InFlight_def split: ustate.splits)

lemma upgrades_ok_Nil: "upgrades_ok []"
  by (simp add: upgrades_ok_def)

lemma active_split:
  assumes "upgrades_ok t" "ActiveUpgrade t = Some u"
  obtains xs ys where "t = xs @ u # ys" "\<forall>x\<in>set xs \<union> set ys. \<not> InFlight x \<and> up_id x \<noteq> up_id u" "InFlight u"
proof -
  have u: "u \<in> set t" "InFlight u" using assms(2) sql_row_Some [of InFlight t u] by (auto simp: ActiveUpgrade_def)
  then obtain xs ys where t: "t = xs @ u # ys" by (meson split_list)
  have "filter InFlight xs = []" "filter InFlight ys = []"
    using assms(1) u(2) by (auto simp: upgrades_ok_def t)
  then have "\<forall>x\<in>set xs \<union> set ys. \<not> InFlight x" by (auto simp: filter_empty_conv)
  moreover have "up_id u \<notin> up_id ` (set xs \<union> set ys)"
    using assms(1) by (simp add: upgrades_ok_def t image_Un)
  then have "\<forall>x\<in>set xs \<union> set ys. up_id x \<noteq> up_id u" by (metis imageI)
  ultimately show ?thesis using that t u(2) by blast
qed

lemma active_of_split:
  "\<forall>x\<in>set xs \<union> set ys. \<not> InFlight x \<Longrightarrow> ActiveUpgrade (xs @ u # ys) = (if InFlight u then Some u else None)"
  by (induction xs) (auto simp: ActiveUpgrade_def sql_row_def find_None_iff)

lemma SetUpgradeState_hit:
  assumes "upgrades_ok t" "ActiveUpgrade t = Some u"
  shows "\<exists>t'. SetUpgradeState (up_id u) (up_state u) to m ts t = (True, t') \<and> upgrades_ok t'
    \<and> ActiveUpgrade t' = (if to = UpgradeDone then None else Some (u\<lparr>up_state := to, up_message := m, up_updated_at := ts\<rparr>))"
proof -
  obtain xs ys where t: "t = xs @ u # ys" "\<forall>x\<in>set xs \<union> set ys. \<not> InFlight x \<and> up_id x \<noteq> up_id u" "InFlight u"
    using active_split [OF assms] by blast
  let ?u = "u\<lparr>up_state := to, up_message := m, up_updated_at := ts\<rparr>"
  let ?P = "\<lambda>r. up_id r = up_id u \<and> up_state r = up_state u"
  have idle: "\<forall>x\<in>set xs \<union> set ys. \<not> ?P x" using t(2) by blast
  have up: "sql_update ?P (\<lambda>r. r\<lparr>up_state := to, up_message := m, up_updated_at := ts\<rparr>) t = xs @ ?u # ys"
    using idle by (simp add: t(1) sql_update_none)
  have quiet: "filter InFlight xs = []" "filter InFlight ys = []" using t(2) by (auto simp: filter_empty_conv)
  have ok: "upgrades_ok (xs @ ?u # ys)"
    using assms(1) quiet by (auto simp: upgrades_ok_def t(1))
  have "0 < rows_affected ?P t" by (simp add: rows_affected_pos t(1))
  then have "SetUpgradeState (up_id u) (up_state u) to m ts t = (True, xs @ ?u # ys)"
    using up ok by (simp add: SetUpgradeState_def Let_def)
  then show ?thesis using ok active_of_split [of xs ys ?u] t(2) by (auto simp: InFlight_iff)
qed

lemma SetUpgradeState_miss:
  assumes "frm \<noteq> UpgradeDone" "\<And>u. ActiveUpgrade t = Some u \<Longrightarrow> up_id u \<noteq> i \<or> up_state u \<noteq> frm" "upgrades_ok t"
  shows "SetUpgradeState i frm to m ts t = (False, t)"
proof -
  let ?P = "\<lambda>r. up_id r = i \<and> up_state r = frm"
  have none: "\<forall>r\<in>set t. \<not> ?P r"
  proof
    fix r assume r: "r \<in> set t"
    show "\<not> ?P r"
    proof
      assume P: "?P r"
      then have "InFlight r" using assms(1) by (simp add: InFlight_iff)
      moreover obtain u where u: "ActiveUpgrade t = Some u"
        using \<open>InFlight r\<close> r by (cases "ActiveUpgrade t") (auto simp: ActiveUpgrade_def sql_row_None)
      ultimately have "r = u" using active_split [OF assms(3) u] r by (metis Un_iff in_set_conv_decomp set_append set_ConsD)
      then show False using assms(2) [OF u] P by simp
    qed
  qed
  then have "sql_update ?P f t = t" for f by (rule sql_update_none)
  moreover have "rows_affected ?P t = 0" using none by simp
  ultimately show ?thesis using assms(3) by (simp add: SetUpgradeState_def Let_def)
qed

text \<open>The fleet seen from outside: no upgrade, or the version, canary and state of the one in flight.\<close>

definition view :: "service \<Rightarrow> (string \<times> id \<times> ustate) option" where
  "view s = map_option (\<lambda>u. (up_version u, up_canary_node_id u, up_state u)) (ActiveUpgrade (us_upgrades s))"

text \<open>\<open>finish\<close> and the guarded update: a move happens exactly when the upgrade in flight is the one
  meant, in the state meant.\<close>

lemma finish_view:
  assumes "upgrades_ok (us_upgrades s)" "frm \<noteq> UpgradeDone" "finish u frm to m now s = (moved, s')"
  shows "upgrades_ok (us_upgrades s') \<and> (\<exists>t. s' = s\<lparr>us_upgrades := t\<rparr>) \<and> (\<not> moved \<longrightarrow> s' = s)
    \<and> (moved \<longrightarrow> frm \<noteq> to \<and> (\<exists>a. ActiveUpgrade (us_upgrades s) = Some a \<and> up_id a = up_id u \<and> up_state a = frm
          \<and> view s' = (if to = UpgradeDone then None else Some (up_version a, up_canary_node_id a, to))))"
proof (cases "frm = to")
  case True
  then show ?thesis using assms(1,3) by (auto simp: finish_def intro: exI [of _ "us_upgrades s"])
next
  case False
  show ?thesis
  proof (cases "\<exists>a. ActiveUpgrade (us_upgrades s) = Some a \<and> up_id a = up_id u \<and> up_state a = frm")
    case True
    then obtain a where a: "ActiveUpgrade (us_upgrades s) = Some a" "up_id a = up_id u" "up_state a = frm" by blast
    show ?thesis
      using SetUpgradeState_hit [OF assms(1) a(1), of to m now] a assms(3) False
      by (auto simp: finish_def view_def)
  next
    case none: False
    then have "SetUpgradeState (up_id u) frm to m now (us_upgrades s) = (False, us_upgrades s)"
      by (intro SetUpgradeState_miss assms) auto
    then show ?thesis using assms False by (auto simp: finish_def intro: exI [of _ "us_upgrades s"])
  qed
qed

section \<open>What an install does\<close>

text \<open>The panel's kernels and the instructions sent, across any call that installs or relays.\<close>

definition has_kernel :: "(string \<Rightarrow> string option) \<Rightarrow> string \<Rightarrow> kernels \<Rightarrow> bool" where
  "has_kernel run v k \<longleftrightarrow> NormalizeVersion v \<noteq> []
     \<and> (map_of (k_scanned k) (NormalizeVersion v) \<noteq> None
        \<or> (\<exists>bin out. k_baked k = Some bin \<and> run bin = Some out
             \<and> (let f = split_fields [] (first_line out) in length f \<ge> 2 \<and> NormalizeVersion v = NormalizeVersion (f ! 1))))"

lemma has_kernel_Has: "has_kernel (o_run w) v k \<longleftrightarrow> Has w v k"
  by (cases "k_baked k"; cases "Option.bind (k_baked k) (o_run w)")
    (auto simp: has_kernel_def Has_scanned xray_version_def Let_def)

definition panel_first :: "(string \<Rightarrow> string option) \<Rightarrow> service \<Rightarrow> bool" where
  "panel_first run s \<longleftrightarrow> registry_ok (us_kernels s)
     \<and> (\<forall>(n, v, act)\<in>set (us_sent s). has_kernel run v (us_kernels s))"

lemma ensure_panel_kernel_spec:
  assumes "registry_ok k" "ensure_panel_kernel w rel v k = (e, k')"
  shows "registry_ok k' \<and> (\<forall>u. Has w u k \<longrightarrow> Has w u k') \<and> (e = None \<longrightarrow> Has w v k')"
proof (cases "Has w v k")
  case True
  then show ?thesis using assms by (simp add: ensure_panel_kernel_def)
next
  case False
  show ?thesis
  proof (cases "\<exists>url d sum. AssetFor rel (o_platform w) = Inr (url, d) \<and> Checksum w d = Inr sum")
    case True
    then obtain url d sum where a: "AssetFor rel (o_platform w) = Inr (url, d)" "Checksum w d = Inr sum" by blast
    obtain r k1 where i: "Install w v url sum k = (r, k1)" by fastforce
    have "k' = k1" "e = None \<longleftrightarrow> r = None"
      using assms(2) False a i by (auto simp: ensure_panel_kernel_def split: option.splits)
    moreover have "r = None \<Longrightarrow> Has w v k1" using i by (cases rule: Install_cases) auto
    ultimately show ?thesis using Install_keeps [OF assms(1) i] by auto
  next
    case none: False
    have "k' = k" "e \<noteq> None"
      using assms(2) False none
      by (auto simp: ensure_panel_kernel_def split: sum.splits option.splits)
    then show ?thesis using assms(1) by auto
  qed
qed

lemma releaseFor_frame:
  assumes "releaseFor w now v s = (r, s')"
  shows "\<exists>c d. s' = s\<lparr>us_cached := c, us_cached_at := d\<rparr>"
  using assms
  by (cases s) (auto simp: releaseFor_def Latest_def split: if_splits sum.splits prod.splits)

text \<open>An install leaves the upgrades, the announcements and the goroutines alone. What it may do is
  extend the panel's kernels, record the attempt, and then send the instruction.\<close>

lemma InstallOn_cases:
  assumes "InstallOn b w now n v act s = (r, s')"
  obtains (early) c d where "s' = s\<lparr>us_cached := c, us_cached_at := d\<rparr>" "\<exists>e. r = Inl e"
  | (panel) c d rel k e where "ensure_panel_kernel (w_out w) rel (NormalizeVersion v) (us_kernels s) = (Some e, k)"
      "s' = s\<lparr>us_cached := c, us_cached_at := d, us_kernels := k\<rparr>" "r = Inl e"
  | (told) c d rel k x where "ensure_panel_kernel (w_out w) rel (NormalizeVersion v) (us_kernels s) = (None, k)"
      "xi_node_id x = n" "xi_version x = NormalizeVersion v"
      "s' = s\<lparr>us_cached := c, us_cached_at := d, us_kernels := k, us_installs := StartXrayInstall x now (us_installs s),
              us_sent := us_sent s @ (if w_send w n = None then [(n, NormalizeVersion v, act)] else [])\<rparr>"
      "(\<exists>y. r = Inr y) \<longleftrightarrow> w_send w n = None"
proof (cases "\<exists>m. GetNode b n (us_nodes s) = Inr m \<and> trim_space (n_platform m) \<noteq> []")
  case False
  then show ?thesis
    using assms by (intro early [of "us_cached_at s" "us_cached s"]) (auto simp: InstallOn_def Let_def split: sum.splits)
next
  case True
  then obtain m where m: "GetNode b n (us_nodes s) = Inr m" "trim_space (n_platform m) \<noteq> []" by blast
  obtain rr s1 where rf: "releaseFor (w_out w) now (NormalizeVersion v) s = (rr, s1)" by fastforce
  obtain c d where s1: "s1 = s\<lparr>us_cached := c, us_cached_at := d\<rparr>" using releaseFor_frame [OF rf] by blast
  show ?thesis
  proof (cases "\<exists>rel url du sum. rr = Inr rel \<and> AssetFor rel (trim_space (n_platform m)) = Inr (url, du)
      \<and> Checksum (w_out w) du = Inr sum")
    case False
    then show ?thesis
      using assms m rf s1 by (intro early [of d c]) (auto simp: InstallOn_def Let_def split: sum.splits)
  next
    case True
    then obtain rel url du sum where a: "rr = Inr rel" "AssetFor rel (trim_space (n_platform m)) = Inr (url, du)"
      "Checksum (w_out w) du = Inr sum" by blast
    obtain e k where p: "ensure_panel_kernel (w_out w) rel (NormalizeVersion v) (us_kernels s) = (e, k)" by fastforce
    show ?thesis
    proof (cases e)
      case (Some err)
      then show ?thesis using assms m rf s1 a p by (intro panel [of rel err k d c]) (auto simp: InstallOn_def Let_def)
    next
      case None
      let ?x = "\<lparr>xi_node_id = n, xi_version = NormalizeVersion v, xi_download_url = url, xi_sha256 = sum,
        xi_activate = act, xi_phase = phaseName UNSPECIFIED, xi_message = [], xi_started_at = 0, xi_updated_at = 0\<rparr>"
      show ?thesis
        using assms m rf s1 a p None
        by (intro told [of rel k ?x d c]) (auto simp: InstallOn_def Let_def split: option.splits)
    qed
  qed
qed

section \<open>The state machine the code implements\<close>

text \<open>The canary, the person and the fleet, as a machine on what is in flight.\<close>

inductive fleet_step :: "label \<Rightarrow> (string \<times> id \<times> ustate) option \<Rightarrow> (string \<times> id \<times> ustate) option \<Rightarrow> bool" where
  idle: "fleet_step l a a"
| begun: "v \<noteq> [] \<Longrightarrow> c \<noteq> [] \<Longrightarrow> fleet_step StartL None (Some (v, c, UpgradeCanary))"
| proven: "NormalizeVersion (xs_version st) = v \<Longrightarrow> xs_phase st \<in> {ACTIVE, INCONCLUSIVE} \<Longrightarrow>
    fleet_step (Report c st) (Some (v, c, UpgradeCanary)) (Some (v, c, UpgradeAwaitingPromote))"
| failed: "NormalizeVersion (xs_version st) = v \<Longrightarrow> xs_phase st \<in> {FAILED, ROLLED_BACK} \<Longrightarrow> a \<noteq> UpgradeBlocked \<Longrightarrow>
    a \<noteq> UpgradeDone \<Longrightarrow> fleet_step (Report n st) (Some (v, c, a)) (Some (v, c, UpgradeBlocked))"
| unreachable: "a \<in> {UpgradeCanary, UpgradePromoting} \<Longrightarrow>
    fleet_step Background (Some (v, c, a)) (Some (v, c, UpgradeBlocked))"
| promoted: "fleet_step PromoteL (Some (v, c, UpgradeAwaitingPromote)) (Some (v, c, UpgradePromoting))"
| alone: "fleet_step PromoteL (Some (v, c, UpgradeAwaitingPromote)) None"
| completed: "NormalizeVersion (xs_version st) = v \<Longrightarrow> xs_phase st \<in> {ACTIVE, INCONCLUSIVE} \<Longrightarrow>
    fleet_step (Report n st) (Some (v, c, UpgradePromoting)) None"
| retried: "c \<noteq> [] \<Longrightarrow> fleet_step RetryL (Some (v, c, UpgradeBlocked)) (Some (v, c, UpgradeCanary))"
| abandoned: "fleet_step AbandonL (Some (v, c, a)) None"
| orphaned: "fleet_step Fleet (Some (v, c, a)) (Some (v, [], a))"

inductive_cases promoting_from: "fleet_step l a (Some (v, c, UpgradePromoting))"

definition jobs_ok :: "service \<Rightarrow> bool" where
  "jobs_ok s \<longleftrightarrow> (\<forall>j\<in>set (us_jobs s). case j of CanaryInstall u n what \<Rightarrow> up_state u = UpgradeCanary | FanOut u ns fs k \<Rightarrow> True)"

definition service_ok :: "(string \<Rightarrow> string option) \<Rightarrow> service \<Rightarrow> bool" where
  "service_ok run s \<longleftrightarrow> upgrades_ok (us_upgrades s) \<and> jobs_ok s \<and> panel_first run s"

lemma service_ok_upgrades:
  "service_ok run s \<Longrightarrow> upgrades_ok t \<Longrightarrow> service_ok run (s\<lparr>us_upgrades := t\<rparr>)"
  by (simp add: service_ok_def jobs_ok_def panel_first_def)

lemma view_frame: "us_upgrades s' = us_upgrades s \<Longrightarrow> view s' = view s"
  by (simp add: view_def)

lemma view_active: "ActiveUpgrade (us_upgrades s) = Some u \<Longrightarrow> view s = Some (up_version u, up_canary_node_id u, up_state u)"
  by (simp add: view_def)

lemma active_state: "ActiveUpgrade t = Some u \<Longrightarrow> up_state u \<noteq> UpgradeDone"
  using sql_row_Some [of InFlight t u] by (simp add: ActiveUpgrade_def InFlight_iff)

lemma finish_step:
  assumes "service_ok run s" "frm \<noteq> UpgradeDone" "finish u frm to m now s = (moved, s')"
    and "\<And>v c. view s = Some (v, c, frm) \<Longrightarrow> fleet_step l (Some (v, c, frm)) (if to = UpgradeDone then None else Some (v, c, to))"
  shows "service_ok run s' \<and> fleet_step l (view s) (view s')"
proof -
  have ok: "upgrades_ok (us_upgrades s)" using assms(1) by (simp add: service_ok_def)
  note f = finish_view [OF ok assms(2,3)]
  then obtain t where t: "s' = s\<lparr>us_upgrades := t\<rparr>" "upgrades_ok (us_upgrades s')" by blast
  have "service_ok run s'" unfolding t(1) by (rule service_ok_upgrades [OF assms(1)]) (use t in simp)
  moreover have "fleet_step l (view s) (view s')"
    using f assms(4) view_active fleet_step.idle by (cases moved) auto
  ultimately show ?thesis by blast
qed

lemma install_step:
  assumes "service_ok (o_run (w_out w)) s" "InstallOn b w now n v act s = (r, s')"
  shows "service_ok (o_run (w_out w)) s' \<and> us_upgrades s' = us_upgrades s \<and> us_jobs s' = us_jobs s \<and> us_alerts s' = us_alerts s"
proof -
  have reg: "registry_ok (us_kernels s)" using assms(1) by (simp add: service_ok_def panel_first_def)
  from assms(2) show ?thesis
  proof (cases rule: InstallOn_cases)
    case (early c d)
    then show ?thesis using assms(1) by (simp add: service_ok_def panel_first_def jobs_ok_def)
  next
    case (panel c d rel k e)
    then show ?thesis using assms(1) ensure_panel_kernel_spec [OF reg panel(1)]
      by (auto simp: service_ok_def panel_first_def jobs_ok_def has_kernel_Has)
  next
    case (told c d rel k x)
    then show ?thesis using assms(1) ensure_panel_kernel_spec [OF reg told(1)]
      by (auto simp: service_ok_def panel_first_def jobs_ok_def has_kernel_Has split: if_splits)
  qed
qed

lemma block_eq:
  "\<exists>msg a. block b u n st now s =
     (case finish u (up_state u) UpgradeBlocked msg now s of
        (moved, s1) \<Rightarrow> s1\<lparr>us_alerts := us_alerts s1 @ (if moved then [a] else [])\<rparr>)"
proof (intro exI)
  let ?name = "node_label b n s"
  let ?msg = "?name @ '' '' @ (if xs_phase st = ROLLED_BACK then ''rolled back from'' else ''could not install'')
     @ '' '' @ up_version u @ '': '' @ xs_message st"
  let ?body = "if xs_phase st = ROLLED_BACK
     then ?msg @ [CHR 0x0A, CHR 0x0A] @ ''The node is serving again on '' @ xs_running_version st @ ''.'' else ?msg"
  show "block b u n st now s =
     (case finish u (up_state u) UpgradeBlocked ?msg now s of
        (moved, s1) \<Rightarrow> s1\<lparr>us_alerts := us_alerts s1 @ (if moved then [\<lparr>an_title = ''Kernel upgrade blocked'',
            an_body = ?body, an_node = ?name, an_online = (xs_phase st = ROLLED_BACK), an_at = now\<rparr>] else [])\<rparr>)"
    by (simp add: block_def Let_def split: prod.splits)
qed

lemma view_alerts [simp]: "view (s\<lparr>us_alerts := a\<rparr>) = view s"
  by (simp add: view_def)

lemma service_ok_alerts [simp]: "service_ok run (s\<lparr>us_alerts := a\<rparr>) = service_ok run s"
  by (simp add: service_ok_def jobs_ok_def panel_first_def)

lemma block_step:
  assumes "service_ok run s" "ActiveUpgrade (us_upgrades s) = Some u" "up_state u \<noteq> UpgradeBlocked"
    and "NormalizeVersion (xs_version st) = up_version u" "xs_phase st \<in> {FAILED, ROLLED_BACK}"
  shows "service_ok run (block b u n st now s) \<and> fleet_step (Report n st) (view s) (view (block b u n st now s))"
proof -
  obtain msg a where e: "block b u n st now s = (case finish u (up_state u) UpgradeBlocked msg now s of
        (moved, s1) \<Rightarrow> s1\<lparr>us_alerts := us_alerts s1 @ (if moved then [a] else [])\<rparr>)"
    using block_eq by blast
  obtain moved s1 where f: "finish u (up_state u) UpgradeBlocked msg now s = (moved, s1)" by fastforce
  have "service_ok run s1 \<and> fleet_step (Report n st) (view s) (view s1)"
    by (rule finish_step [OF assms(1) active_state [OF assms(2)] f])
      (use assms view_active [OF assms(2)] active_state [OF assms(2)] fleet_step.failed in auto)
  then show ?thesis by (simp add: e f)
qed

lemma checkPromotionComplete_eq:
  "checkPromotionComplete b u now s = s \<or>
   (\<exists>msg. checkPromotionComplete b u now s = snd (finish u UpgradePromoting UpgradeDone msg now s))"
  by (auto simp: checkPromotionComplete_def split: sum.splits)

lemma finish_step_snd:
  assumes "service_ok run s" "frm \<noteq> UpgradeDone"
    and "\<And>v c. view s = Some (v, c, frm) \<Longrightarrow> fleet_step l (Some (v, c, frm)) (if to = UpgradeDone then None else Some (v, c, to))"
  shows "service_ok run (snd (finish u frm to m now s)) \<and> fleet_step l (view s) (view (snd (finish u frm to m now s)))"
  using finish_step [OF assms(1,2) _ assms(3)] by (metis prod.collapse)

lemma advance_step:
  assumes "service_ok run s"
  shows "service_ok run (advance b n st now s) \<and> fleet_step (Report n st) (view s) (view (advance b n st now s))"
proof (cases "ActiveUpgrade (us_upgrades s)")
  case None
  then show ?thesis using assms by (simp add: advance_def fleet_step.idle)
next
  case (Some u)
  note v = view_active [OF Some]
  show ?thesis
  proof (cases "NormalizeVersion (xs_version st) \<noteq> up_version u \<or> up_state u = UpgradeBlocked
      \<or> xs_phase st \<notin> {ROLLED_BACK, FAILED, ACTIVE, INCONCLUSIVE}")
    case True
    then have "advance b n st now s = s" using Some by (auto simp: advance_def)
    then show ?thesis using assms fleet_step.idle by simp
  next
    case False
    show ?thesis
    proof (cases "xs_phase st \<in> {ROLLED_BACK, FAILED}")
      case True
      then have "advance b n st now s = block b u n st now s" using Some False by (auto simp: advance_def)
      then show ?thesis using block_step [OF assms Some] True False by auto
    next
      case up: False
      have idle: "advance b n st now s = s"
        if "up_state u \<notin> {UpgradeCanary, UpgradePromoting} \<or> up_state u = UpgradeCanary \<and> n \<noteq> up_canary_node_id u"
        using that Some False up by (cases "up_state u") (auto simp: advance_def)
      have canary: "advance b n st now s = snd (finish u UpgradeCanary UpgradeAwaitingPromote (canary_message u st) now s)"
        if "up_state u = UpgradeCanary" "n = up_canary_node_id u"
        using that Some False up by (auto simp: advance_def)
      have rest: "advance b n st now s = checkPromotionComplete b u now s" if "up_state u = UpgradePromoting"
        using that Some False up by (auto simp: advance_def)
      consider "advance b n st now s = s"
        | msg where "up_state u = UpgradeCanary" "n = up_canary_node_id u"
            "advance b n st now s = snd (finish u UpgradeCanary UpgradeAwaitingPromote msg now s)"
        | msg where "up_state u = UpgradePromoting"
            "advance b n st now s = snd (finish u UpgradePromoting UpgradeDone msg now s)"
        using idle canary rest checkPromotionComplete_eq [of b u now s] by fastforce
      then show ?thesis
      proof cases
        case 1
        then show ?thesis using assms fleet_step.idle by simp
      next
        case (2 msg)
        show ?thesis unfolding 2(3)
          by (rule finish_step_snd [OF assms]) (use 2 False up v fleet_step.proven in auto)
      next
        case (3 msg)
        show ?thesis unfolding 3(2)
          by (rule finish_step_snd [OF assms]) (use 3 False up v fleet_step.completed in auto)
      qed
    qed
  qed
qed

lemma StartCanary_step:
  assumes "service_ok run s" "StartCanary uid version canary now s = (r, s')"
  shows "service_ok run s' \<and> fleet_step StartL (view s) (view s')"
proof (cases "\<exists>u t. StartUpgrade uid (NormalizeVersion version) canary now (set (map n_id (us_nodes s))) (us_upgrades s) = Inr (u, t)
    \<and> NormalizeVersion version \<noteq> [] \<and> canary \<noteq> []")
  case False
  then have "s' = s" using assms(2) by (auto simp: StartCanary_def Let_def split: if_splits sum.splits)
  then show ?thesis using assms(1) fleet_step.idle by simp
next
  case True
  then obtain u t where st: "StartUpgrade uid (NormalizeVersion version) canary now (set (map n_id (us_nodes s))) (us_upgrades s) = Inr (u, t)"
    "NormalizeVersion version \<noteq> []" "canary \<noteq> []" by blast
  have u: "up_state u = UpgradeCanary" "up_version u = NormalizeVersion version" "up_canary_node_id u = canary"
    "t = us_upgrades s @ [u]" "upgrades_ok t"
    using st(1) by (auto simp: StartUpgrade_def Let_def split: if_splits)
  have s': "s' = s\<lparr>us_upgrades := t, us_jobs := CanaryInstall u canary ''could not start the canary'' # us_jobs s\<rparr>"
    using assms(2) st by (simp add: StartCanary_def Let_def)
  have "filter InFlight (us_upgrades s) = []"
    using u(1,4,5) by (auto simp: upgrades_ok_def InFlight_iff)
  then have none: "\<forall>x\<in>set (us_upgrades s) \<union> set []. \<not> InFlight x" by (auto simp: filter_empty_conv)
  then have "view s = None" by (simp add: view_def ActiveUpgrade_def sql_row_None)
  moreover have "view s' = Some (NormalizeVersion version, canary, UpgradeCanary)"
    using active_of_split [OF none, of u] u by (simp add: view_def s' InFlight_iff)
  moreover have "service_ok run s'" using assms(1) u by (auto simp: s' service_ok_def jobs_ok_def panel_first_def)
  ultimately show ?thesis using st(2,3) fleet_step.begun by simp
qed

lemma guarded_move:
  assumes "service_ok run s" "ActiveUpgrade (us_upgrades s) = Some u"
  obtains t where "SetUpgradeState (up_id u) (up_state u) to m ts (us_upgrades s) = (True, t)"
    "service_ok run (s\<lparr>us_upgrades := t\<rparr>)"
    "view (s\<lparr>us_upgrades := t\<rparr>) = (if to = UpgradeDone then None else Some (up_version u, up_canary_node_id u, to))"
    "ActiveUpgrade t = (if to = UpgradeDone then None else Some (u\<lparr>up_state := to, up_message := m, up_updated_at := ts\<rparr>))"
proof -
  have "upgrades_ok (us_upgrades s)" using assms(1) by (simp add: service_ok_def)
  from SetUpgradeState_hit [OF this assms(2), of to m ts] that service_ok_upgrades [OF assms(1)]
  show ?thesis by (auto simp: view_def)
qed

lemma service_ok_job:
  "service_ok run s \<Longrightarrow> (case j of CanaryInstall u n what \<Rightarrow> up_state u = UpgradeCanary | FanOut u ns fs k \<Rightarrow> True) \<Longrightarrow>
     service_ok run (s\<lparr>us_jobs := j # us_jobs s\<rparr>)"
  by (simp add: service_ok_def jobs_ok_def panel_first_def)

lemma view_jobs [simp]: "view (s\<lparr>us_jobs := j\<rparr>) = view s"
  by (simp add: view_def)

lemma Promote_step:
  assumes "service_ok run s" "Promote b now s = (r, s')"
  shows "service_ok run s' \<and> fleet_step PromoteL (view s) (view s')"
proof (cases "\<exists>u. ActiveUpgrade (us_upgrades s) = Some u \<and> up_state u = UpgradeAwaitingPromote")
  case False
  then have "s' = s" using assms(2) by (auto simp: Promote_def split: option.splits if_splits)
  then show ?thesis using assms(1) fleet_step.idle by simp
next
  case True
  then obtain u where u: "ActiveUpgrade (us_upgrades s) = Some u" "up_state u = UpgradeAwaitingPromote" by blast
  obtain t where t: "SetUpgradeState (up_id u) (up_state u) UpgradePromoting [] now (us_upgrades s) = (True, t)"
      "service_ok run (s\<lparr>us_upgrades := t\<rparr>)"
      "view (s\<lparr>us_upgrades := t\<rparr>) = Some (up_version u, up_canary_node_id u, UpgradePromoting)"
    using guarded_move [OF assms(1) u(1), of UpgradePromoting "[]" now] by auto
  let ?s = "s\<lparr>us_upgrades := t\<rparr>" and ?u = "u\<lparr>up_state := UpgradePromoting\<rparr>"
  consider "s' = ?s"
    | ns where "s' = ?s\<lparr>us_jobs := FanOut ?u ns [] (length ns) # us_jobs s\<rparr>"
    | "s' = snd (finish ?u UpgradePromoting UpgradeDone ''only the canary needed upgrading'' now ?s)"
    using assms(2) u t(1) by (auto simp: Promote_def Let_def split: sum.splits if_splits)
  then show ?thesis
  proof cases
    case 1
    then show ?thesis using t u view_active [OF u(1)] fleet_step.promoted by simp
  next
    case (2 ns)
    then show ?thesis
      using service_ok_job [OF t(2), of "FanOut ?u ns [] (length ns)"] t u view_active [OF u(1)] fleet_step.promoted by simp
  next
    case 3
    obtain moved s2 where f: "finish ?u UpgradePromoting UpgradeDone ''only the canary needed upgrading'' now ?s = (moved, s2)"
      by fastforce
    have ok: "upgrades_ok (us_upgrades ?s)" using t(2) by (simp add: service_ok_def)
    have d: "UpgradePromoting \<noteq> UpgradeDone" by simp
    note fv = finish_view [OF ok d f]
    then obtain t2 where "s2 = ?s\<lparr>us_upgrades := t2\<rparr>" "upgrades_ok t2" by (metis (no_types, lifting) service.select_convs(1) service.surjective service.update_convs(1))
    then have "service_ok run s2" using service_ok_upgrades [OF t(2)] by simp
    moreover have "view s2 = None \<or> view s2 = view ?s" using fv by auto
    ultimately show ?thesis
      using 3 f t u view_active [OF u(1)] fleet_step.promoted fleet_step.alone by auto
  qed
qed

lemma Retry_step:
  assumes "service_ok run s" "Retry now s = (r, s')"
  shows "service_ok run s' \<and> fleet_step RetryL (view s) (view s')"
proof (cases "\<exists>u. ActiveUpgrade (us_upgrades s) = Some u \<and> up_state u = UpgradeBlocked \<and> up_canary_node_id u \<noteq> []")
  case False
  then have "s' = s" using assms(2) by (auto simp: Retry_def split: option.splits if_splits)
  then show ?thesis using assms(1) fleet_step.idle by simp
next
  case True
  then obtain u where u: "ActiveUpgrade (us_upgrades s) = Some u" "up_state u = UpgradeBlocked" "up_canary_node_id u \<noteq> []"
    by blast
  obtain t where t: "SetUpgradeState (up_id u) (up_state u) UpgradeCanary [] now (us_upgrades s) = (True, t)"
      "service_ok run (s\<lparr>us_upgrades := t\<rparr>)"
      "view (s\<lparr>us_upgrades := t\<rparr>) = Some (up_version u, up_canary_node_id u, UpgradeCanary)"
    using guarded_move [OF assms(1) u(1), of UpgradeCanary "[]" now] by auto
  let ?j = "CanaryInstall (u\<lparr>up_state := UpgradeCanary, up_message := []\<rparr>) (up_canary_node_id u) ''could not restart the canary''"
  have "s' = (s\<lparr>us_upgrades := t\<rparr>)\<lparr>us_jobs := ?j # us_jobs (s\<lparr>us_upgrades := t\<rparr>)\<rparr>"
    using assms(2) u t(1) by (auto simp: Retry_def Let_def)
  then show ?thesis
    using service_ok_job [OF t(2), of ?j] t(3) u view_active [OF u(1)] fleet_step.retried by simp
qed

lemma Abandon_step:
  assumes "service_ok run s" "Abandon now s = (r, s')"
  shows "service_ok run s' \<and> fleet_step AbandonL (view s) (view s') \<and> view s' = None
    \<and> (view s \<noteq> None \<longrightarrow> (\<exists>u. r = Inr u)) \<and> us_nodes s' = us_nodes s \<and> us_jobs s' = us_jobs s"
proof (cases "ActiveUpgrade (us_upgrades s)")
  case None
  then show ?thesis using assms fleet_step.idle by (simp add: Abandon_def view_def)
next
  case (Some u)
  obtain t where t: "SetUpgradeState (up_id u) (up_state u) UpgradeDone ''abandoned by an operator'' now (us_upgrades s) = (True, t)"
      "service_ok run (s\<lparr>us_upgrades := t\<rparr>)" "view (s\<lparr>us_upgrades := t\<rparr>) = None"
    using guarded_move [OF assms(1) Some, of UpgradeDone "''abandoned by an operator''" now] by auto
  have "s' = s\<lparr>us_upgrades := t\<rparr>" "\<exists>u. r = Inr u" using assms(2) Some t(1) by (auto simp: Abandon_def)
  then show ?thesis using t view_active [OF Some] fleet_step.abandoned by simp
qed

lemma HandleStatus_step:
  assumes "service_ok run s"
  shows "service_ok run (HandleStatus b n st now s) \<and> fleet_step (Report n st) (view s) (view (HandleStatus b n st now s))"
proof -
  obtain ok t where u: "UpdateXrayInstall n (NormalizeVersion (xs_version st)) (phaseName (xs_phase st)) (xs_message st) now
      (us_installs s) = (ok, t)" by fastforce
  let ?s = "s\<lparr>us_installs := t, us_nodes := snd (SetXrayVersions n (xs_running_version st) (xs_installed_version st) (us_nodes s))\<rparr>"
  have "service_ok run ?s" "view ?s = view s"
    using assms by (simp_all add: service_ok_def jobs_ok_def panel_first_def view_def)
  then show ?thesis
    using assms u advance_step [of run ?s b n st now] fleet_step.idle by (auto simp: HandleStatus_def Let_def)
qed

lemma run_job_step:
  assumes "service_ok (o_run (w_out w)) s" "run_job b w now j s = (jo, s')"
    and "case j of CanaryInstall u n what \<Rightarrow> up_state u = UpgradeCanary | FanOut u ns fs k \<Rightarrow> True"
  shows "service_ok (o_run (w_out w)) s' \<and> fleet_step Background (view s) (view s')
    \<and> (case jo of None \<Rightarrow> True | Some (CanaryInstall u n what) \<Rightarrow> up_state u = UpgradeCanary | Some (FanOut u ns fs k) \<Rightarrow> True)"
proof -
  let ?run = "o_run (w_out w)"
  have blocked: "service_ok ?run (snd (finish u frm UpgradeBlocked m now s1)) \<and>
      fleet_step Background (view s1) (view (snd (finish u frm UpgradeBlocked m now s1)))"
    if "service_ok ?run s1" "frm \<in> {UpgradeCanary, UpgradePromoting}" for u frm m s1
    by (rule finish_step_snd [OF that(1)]) (use that(2) fleet_step.unreachable in auto)
  show ?thesis
  proof (cases j)
    case (CanaryInstall u n what)
    obtain r s1 where i: "InstallOn b w now n (up_version u) True s = (r, s1)" by fastforce
    note s1 = install_step [OF assms(1) i]
    show ?thesis
      using blocked [of s1 "up_state u" u] s1 assms(2,3) CanaryInstall i view_frame [of s1 s] fleet_step.idle
      by (cases r) (auto simp: installAsync_def)
  next
    case (FanOut u ns fs k)
    show ?thesis
    proof (cases ns)
      case Nil
      then show ?thesis
        using blocked [OF assms(1), of UpgradePromoting u] assms FanOut fleet_step.idle
        by (auto simp: fanOut_end_def split: if_splits)
    next
      case (Cons n ns')
      obtain r s1 where i: "InstallOn b w now (n_id n) (up_version u) True s = (r, s1)" by fastforce
      note s1 = install_step [OF assms(1) i]
      show ?thesis
        using s1 assms(2) FanOut Cons i view_frame [of s1 s] fleet_step.idle
        by (cases r) (auto simp: fanOut_node_def)
    qed
  qed
qed

lemma EnsureArchive_ok:
  "EnsureArchive w v p url sha k = (r, k') \<Longrightarrow> registry_ok k' = registry_ok k \<and> has_kernel run u k' = has_kernel run u k"
  using EnsureArchive_frame(1) [of w v p url sha k r k'] by (auto simp: has_kernel_def)

lemma ReadChunk_error: "ReadChunk f off n = Inl e \<Longrightarrow> e \<noteq> []"
  by (auto simp: ReadChunk_def Let_def split: if_splits)

lemma relay_refusal_error [simp]: "xc_error (relay_refusal v off m) = m"
  by (simp add: relay_refusal_def)

lemma HandleRelayRequest_cases:
  assumes "HandleRelayRequest b w err n v off s = (c, s')"
  obtains (refused) "s' = s" "xc_error c \<noteq> []"
  | (served) x p r k where "XrayInstallFor n (us_installs s) = Some x" "xi_version x = NormalizeVersion v"
      "EnsureArchive w (NormalizeVersion v) p (xi_download_url x) (xi_sha256 x) (us_kernels s) = (r, k)"
      "s' = s\<lparr>us_kernels := k\<rparr>"
      "xc_error c = [] \<longrightarrow> (\<exists>path. r = Inr path \<and>
         ReadChunk (the (map_of (k_archives k) path)) off relayChunkSize = Inr (xc_data c, xc_last c))"
proof (cases "\<exists>x m. XrayInstallFor n (us_installs s) = Some x \<and> xi_version x = NormalizeVersion v
    \<and> GetNode b n (us_nodes s) = Inr m \<and> n_platform m \<noteq> []")
  case False
  then show ?thesis
    using assms by (intro refused) (auto simp: HandleRelayRequest_def Let_def split: option.splits if_splits sum.splits)
next
  case True
  then obtain x m where x: "XrayInstallFor n (us_installs s) = Some x" "xi_version x = NormalizeVersion v"
    "GetNode b n (us_nodes s) = Inr m" "n_platform m \<noteq> []" by blast
  obtain r k where e: "EnsureArchive w (NormalizeVersion v) (n_platform m) (xi_download_url x) (xi_sha256 x) (us_kernels s) = (r, k)"
    by fastforce
  show ?thesis
  proof (cases r)
    case (Inl err)
    then show ?thesis using assms x e by (intro served [OF x(1,2) e]) (auto simp: HandleRelayRequest_def Let_def)
  next
    case (Inr path)
    show ?thesis
    proof (cases "ReadChunk (the (map_of (k_archives k) path)) off relayChunkSize")
      case (Inl err)
      then show ?thesis
        using assms x e Inr ReadChunk_error [OF Inl]
        by (intro served [OF x(1,2) e]) (auto simp: HandleRelayRequest_def Let_def)
    next
      case chunk: (Inr d)
      then show ?thesis
        using assms x e Inr by (intro served [OF x(1,2) e]) (auto simp: HandleRelayRequest_def Let_def split: prod.splits)
    qed
  qed
qed

lemma service_ok_kernels:
  "service_ok run s \<Longrightarrow> registry_ok k \<Longrightarrow> (\<And>u. has_kernel run u (us_kernels s) \<Longrightarrow> has_kernel run u k) \<Longrightarrow>
     service_ok run (s\<lparr>us_kernels := k\<rparr>)"
  by (auto simp: service_ok_def jobs_ok_def panel_first_def)

lemma relay_step:
  assumes "service_ok run s" "HandleRelayRequest b w err n v off s = (c, s')"
  shows "service_ok run s' \<and> view s' = view s"
proof -
  have reg: "registry_ok (us_kernels s)" using assms(1) by (simp add: service_ok_def panel_first_def)
  from assms(2) show ?thesis
  proof (cases rule: HandleRelayRequest_cases)
    case refused
    then show ?thesis using assms(1) by simp
  next
    case (served x p r k)
    then show ?thesis
      using EnsureArchive_ok [OF served(3)] reg service_ok_kernels [OF assms(1)] by (simp add: view_def)
  qed
qed

lemma prewarm_step:
  assumes "service_ok (o_run w) s"
  shows "service_ok (o_run w) (Prewarm w now s) \<and> view (Prewarm w now s) = view s"
proof -
  obtain r s1 where l: "Latest w now s = (r, s1)" by fastforce
  then have s1: "us_kernels s1 = us_kernels s" "service_ok (o_run w) s1" "view s1 = view s"
    using assms by (auto simp: Latest_def service_ok_def jobs_ok_def panel_first_def view_def split: if_splits sum.splits)
  have reg: "registry_ok (us_kernels s1)" using s1(2) by (simp add: service_ok_def panel_first_def)
  show ?thesis
  proof (cases r)
    case (Inl e)
    then show ?thesis using l s1 by (simp add: Prewarm_def)
  next
    case (Inr rel)
    obtain e k where p: "ensure_panel_kernel w rel (rl_version rel) (us_kernels s1) = (e, k)" by fastforce
    show ?thesis
      using l Inr p s1 ensure_panel_kernel_spec [OF reg p] service_ok_kernels [OF s1(2), of k]
      by (simp add: Prewarm_def has_kernel_Has view_def)
  qed
qed

lemma set_nodes_step:
  assumes "service_ok run s"
  shows "service_ok run (set_nodes ns s) \<and> fleet_step Fleet (view s) (view (set_nodes ns s))"
proof -
  let ?P = "\<lambda>u. up_canary_node_id u \<notin> set (map n_id ns)" and ?f = "\<lambda>u::upgrade. u\<lparr>up_canary_node_id := []\<rparr>"
  have fl: "InFlight (if ?P u then ?f u else u) = InFlight u" for u by (simp add: InFlight_iff)
  have "filter InFlight (sql_update ?P ?f t) = sql_update ?P ?f (filter InFlight t)" for t
    using fl by (induction t) (auto simp: sql_update_def InFlight_iff)
  then have "upgrades_ok (sql_update ?P ?f t) = upgrades_ok t" for t by (simp add: upgrades_ok_def)
  then have ok: "service_ok run (set_nodes ns s)"
    using assms by (simp add: service_ok_def jobs_ok_def panel_first_def set_nodes_def)
  have "ActiveUpgrade (sql_update ?P ?f t) = map_option (\<lambda>u. if ?P u then ?f u else u) (ActiveUpgrade t)" for t
    by (induction t) (auto simp: ActiveUpgrade_def sql_row_def sql_update_def InFlight_iff)
  then have "view (set_nodes ns s) = map_option (\<lambda>u. (up_version u, if ?P u then [] else up_canary_node_id u, up_state u))
      (ActiveUpgrade (us_upgrades s))"
    by (auto simp: view_def set_nodes_def option.map_comp comp_def intro!: option.map_cong)
  then have "fleet_step Fleet (view s) (view (set_nodes ns s))"
    by (cases "ActiveUpgrade (us_upgrades s)") (auto simp: view_def intro: fleet_step.idle fleet_step.orphaned)
  then show ?thesis using ok by blast
qed

lemma upgrade_step_sim:
  "upgrade_step run l s s' \<Longrightarrow> service_ok run s \<Longrightarrow> service_ok run s' \<and> fleet_step l (view s) (view s')"
proof (induction rule: upgrade_step.induct)
  case (start uid version canary now s r s')
  then show ?case by (rule StartCanary_step [rotated])
next
  case (promote b now s r s')
  then show ?case by (rule Promote_step [rotated])
next
  case (retry now s r s')
  then show ?case by (rule Retry_step [rotated])
next
  case (abandon now s r s')
  then show ?case using Abandon_step by blast
next
  case (report b n st now s s')
  then show ?case using HandleStatus_step by blast
next
  case (job s js j ks w b now jo s' s'')
  let ?s = "s\<lparr>us_jobs := js @ ks\<rparr>"
  have ok: "service_ok (o_run (w_out w)) ?s" using job by (auto simp: service_ok_def jobs_ok_def panel_first_def)
  have j: "case j of CanaryInstall u n what \<Rightarrow> up_state u = UpgradeCanary | FanOut u ns fs k \<Rightarrow> True"
    using job by (simp add: service_ok_def jobs_ok_def)
  note r = run_job_step [OF ok job(3) j]
  show ?case
    using r job(2,4) service_ok_job [of run s'] by (auto split: option.splits job.splits)
next
  case (one_off w b now n v act s r s')
  then show ?case using install_step [of w s b now n v act r s'] view_frame [of s' s] fleet_step.idle by auto
next
  case (prewarm w now s s')
  then show ?case using prewarm_step [of w s now] fleet_step.idle by auto
next
  case (relay w b err n v off s c s')
  then show ?case using relay_step [of run s b w err n v off c s'] fleet_step.idle by auto
next
  case (fleet s ns)
  then show ?case by (rule set_nodes_step)
qed

section \<open>Reachable states\<close>

definition fresh :: "service \<Rightarrow> bool" where
  "fresh s \<longleftrightarrow> us_upgrades s = [] \<and> us_jobs s = [] \<and> us_sent s = [] \<and> registry_ok (us_kernels s)"

inductive reachable :: "(string \<Rightarrow> string option) \<Rightarrow> service \<Rightarrow> bool" for run where
  init: "fresh s \<Longrightarrow> reachable run s"
| step: "reachable run s \<Longrightarrow> upgrade_step run l s s' \<Longrightarrow> reachable run s'"

lemma fresh_ok: "fresh s \<Longrightarrow> service_ok run s"
  by (simp add: fresh_def service_ok_def upgrades_ok_Nil jobs_ok_def panel_first_def)

lemma reachable_ok: "reachable run s \<Longrightarrow> service_ok run s"
proof (induction rule: reachable.induct)
  case (init s)
  then show ?case by (rule fresh_ok)
next
  case (step s l s')
  then show ?case using upgrade_step_sim by blast
qed

lemma finish_frame:
  "finish u frm to m now s = (moved, s') \<Longrightarrow> \<exists>t. s' = s\<lparr>us_upgrades := t\<rparr>"
  by (auto simp: finish_def split: if_splits prod.splits intro: exI [of _ "us_upgrades s"])

text \<open>What a report leaves alone, and the notification it sends.\<close>

definition quiet :: "service \<Rightarrow> service \<Rightarrow> bool" where
  "quiet s s' \<longleftrightarrow> us_sent s' = us_sent s \<and> us_jobs s' = us_jobs s \<and> us_kernels s' = us_kernels s
    \<and> (\<exists>as. us_alerts s' = us_alerts s @ as \<and> length as = (if (\<exists>v c. view s' = Some (v, c, UpgradeBlocked))
          \<and> \<not> (\<exists>v c. view s = Some (v, c, UpgradeBlocked)) then 1 else 0))"

lemma quiet_same: "quiet s s"
  unfolding quiet_def by (intro conjI exI [of _ "[]"]) auto

lemma quiet_finish:
  assumes "upgrades_ok (us_upgrades s)" "frm \<noteq> UpgradeDone" "to \<noteq> UpgradeBlocked"
  shows "quiet s (snd (finish u frm to m now s))"
proof -
  obtain moved s' where f: "finish u frm to m now s = (moved, s')" by fastforce
  note v = finish_view [OF assms(1,2) f]
  obtain t where t: "s' = s\<lparr>us_upgrades := t\<rparr>" using finish_frame [OF f] by blast
  have "\<not> (\<exists>v c. view s' = Some (v, c, UpgradeBlocked)) \<or> s' = s" using v assms(3) by (cases moved) (auto split: if_splits)
  then have "(\<exists>v c. view s' = Some (v, c, UpgradeBlocked)) \<longrightarrow> (\<exists>v c. view s = Some (v, c, UpgradeBlocked))" by auto
  moreover have "us_sent s' = us_sent s" "us_jobs s' = us_jobs s" "us_kernels s' = us_kernels s" "us_alerts s' = us_alerts s"
    by (simp_all add: t)
  ultimately show ?thesis unfolding quiet_def f snd_conv by auto
qed

lemma quiet_block:
  assumes "upgrades_ok (us_upgrades s)" "ActiveUpgrade (us_upgrades s) = Some u" "up_state u \<noteq> UpgradeBlocked"
  shows "quiet s (block b u n st now s)"
proof -
  obtain msg a where e: "block b u n st now s = (case finish u (up_state u) UpgradeBlocked msg now s of
        (moved, s1) \<Rightarrow> s1\<lparr>us_alerts := us_alerts s1 @ (if moved then [a] else [])\<rparr>)"
    using block_eq by blast
  obtain moved s1 where f: "finish u (up_state u) UpgradeBlocked msg now s = (moved, s1)" by fastforce
  note v = finish_view [OF assms(1) active_state [OF assms(2)] f]
  obtain t where t: "s1 = s\<lparr>us_upgrades := t\<rparr>" using finish_frame [OF f] by blast
  have nb: "\<not> (\<exists>v c. view s = Some (v, c, UpgradeBlocked))" using view_active [OF assms(2)] assms(3) by simp
  have "moved \<longleftrightarrow> (\<exists>v c. view s1 = Some (v, c, UpgradeBlocked))" using v nb by auto
  then show ?thesis unfolding quiet_def e f using nb by (auto simp: t)
qed

lemma quiet_advance:
  assumes "upgrades_ok (us_upgrades s)"
  shows "quiet s (advance b n st now s)"
proof (cases "ActiveUpgrade (us_upgrades s)")
  case None
  then show ?thesis by (simp add: advance_def quiet_same)
next
  case (Some u)
  have "quiet s (checkPromotionComplete b u now s)"
    using checkPromotionComplete_eq [of b u now s] quiet_same [of s] quiet_finish [OF assms, of UpgradePromoting UpgradeDone u]
    by auto
  then show ?thesis
    using Some quiet_same [of s] quiet_block [OF assms Some]
      quiet_finish [OF assms, of UpgradeCanary UpgradeAwaitingPromote u]
    by (cases "up_state u") (auto simp: advance_def)
qed

lemma HandleStatus_alerts:
  assumes "upgrades_ok (us_upgrades s)"
  shows "quiet s (HandleStatus b n st now s)"
proof -
  obtain ok t where u: "UpdateXrayInstall n (NormalizeVersion (xs_version st)) (phaseName (xs_phase st)) (xs_message st) now
      (us_installs s) = (ok, t)" by fastforce
  let ?s = "s\<lparr>us_installs := t, us_nodes := snd (SetXrayVersions n (xs_running_version st) (xs_installed_version st) (us_nodes s))\<rparr>"
  have "quiet ?s (advance b n st now ?s)" by (rule quiet_advance) (use assms in simp)
  moreover have "view ?s = view s" by (simp add: view_def)
  ultimately show ?thesis using u quiet_same [of s] by (auto simp: HandleStatus_def Let_def quiet_def)
qed

section \<open>Properties\<close>

text \<open>C19. The upgrade code refines its state machine: from every reachable state, every request, report,
  goroutine, relay and change of the fleet moves the upgrade in flight only as the machine allows.
  Awaiting promotion is entered only on the canary's own report of that version, promoting only by a
  person's request out of awaiting promotion, a blocked upgrade moves only when retried or abandoned, and
  a finished one never comes back.\<close>

theorem upgrade_refines_machine:
  assumes "reachable run s" "upgrade_step run l s s'"
  shows "fleet_step l (view s) (view s')"
  using upgrade_step_sim [OF assms(2) reachable_ok [OF assms(1)]] by blast

definition demo_service :: service where
  "demo_service = \<lparr>us_upgrades = [], us_installs = [], us_nodes = [demo_node], us_kernels = demo_kernels,
     us_cached = empty_release, us_cached_at = 0, us_sent = [], us_alerts = [], us_jobs = []\<rparr>"

lemma demo_service_reachable: "reachable run demo_service"
  using demo_kernels_ok by (simp add: reachable.init fresh_def demo_service_def)

theorem upgrade_refines_machine_witness:
  "fleet_step StartL None (view (snd (StartCanary ''u1'' ''v26.7.11'' (n_id demo_node) 5 demo_service)))"
proof -
  have "upgrade_step Some StartL demo_service (snd (StartCanary ''u1'' ''v26.7.11'' (n_id demo_node) 5 demo_service))"
    by (rule upgrade_step.start [OF surjective_pairing])
  from upgrade_refines_machine [OF demo_service_reachable this] show ?thesis
    by (simp add: view_def demo_service_def ActiveUpgrade_def sql_row_def)
qed

text \<open>C26. The panel comes first: in every reachable state, each kernel version any node was ever told to
  install is one the panel can itself validate configs with, and at most one upgrade is in flight.\<close>

theorem panel_validates_first:
  assumes "reachable run s" "(n, v, act) \<in> set (us_sent s)" "o_run w = run"
  shows "Has w v (us_kernels s) \<and> length (filter InFlight (us_upgrades s)) \<le> 1"
  using reachable_ok [OF assms(1)] assms(2,3) has_kernel_Has [of w v "us_kernels s"]
  by (auto simp: service_ok_def panel_first_def upgrades_ok_def)

text \<open>An upstream with one release, for the panel's platform and the node's.\<close>

definition demo_upstream :: outside where
  "demo_upstream = demo_outside\<lparr>
     o_list := (\<lambda>n. Inr [\<lparr>rw_tag_name = ''v26.7.11'', rw_prerelease = True, rw_draft = False, rw_published_at = 0,
        rw_assets = [(''Xray-linux-64.zip'', ''https://a/x.zip''), (''Xray-linux-64.zip.dgst'', ''https://a/x.dgst'')]\<rparr>]),
     o_get := (\<lambda>url. if url = ''https://a/x.zip'' then Inr ''ELF''
        else if url = ''https://a/x.dgst'' then Inr (''SHA2-256= '' @ replicate 64 (CHR ''a'')) else Inl ''404'')\<rparr>"

definition demo_world :: world where
  "demo_world = \<lparr>w_out = demo_upstream, w_send = (\<lambda>n. None), w_text = (\<lambda>e. ''error'')\<rparr>"

definition demo_fleet :: service where
  "demo_fleet = demo_service\<lparr>us_nodes := [demo_node\<lparr>n_platform := ''linux/amd64''\<rparr>]\<rparr>"

lemma demo_fleet_reachable: "reachable run demo_fleet"
  using demo_kernels_ok by (simp add: reachable.init fresh_def demo_fleet_def demo_service_def)

theorem panel_validates_first_witness:
  "Has demo_upstream ''26.7.11''
     (us_kernels (snd (InstallOn plain_box demo_world 7 ''01'' ''v26.7.11'' True demo_fleet)))"
proof -
  let ?s = "snd (InstallOn plain_box demo_world 7 ''01'' ''v26.7.11'' True demo_fleet)"
  have "upgrade_step (o_run demo_upstream) Background demo_fleet ?s"
    by (rule upgrade_step.one_off [OF _ surjective_pairing]) (simp add: demo_world_def)
  then have r: "reachable (o_run demo_upstream) ?s" by (rule reachable.step [OF demo_fleet_reachable])
  have "us_sent ?s = [(''01'', ''26.7.11'', True)]" by code_simp
  then have "(''01'', ''26.7.11'', True) \<in> set (us_sent ?s)" by simp
  from panel_validates_first [OF r this refl] show ?thesis by blast
qed

text \<open>One report of an agent. About an attempt the node is no longer making it changes nothing. Otherwise
  no instruction is sent and no goroutine started by it, and exactly one notification goes out if it
  moves the upgrade in flight to blocked, none if it does not: later failures of a blocked upgrade
  are silent.\<close>

theorem report_announces_once:
  assumes "reachable run s" "HandleStatus b n st now s = s'"
  shows "((\<forall>x\<in>set (us_installs s). xi_node_id x \<noteq> n \<or> xi_version x \<noteq> NormalizeVersion (xs_version st)) \<longrightarrow> s' = s)
    \<and> us_sent s' = us_sent s \<and> us_jobs s' = us_jobs s \<and> us_kernels s' = us_kernels s
    \<and> (let blocked = (\<lambda>s. \<exists>v c. view s = Some (v, c, UpgradeBlocked))
       in \<exists>as. us_alerts s' = us_alerts s @ as \<and> length as = (if blocked s' \<and> \<not> blocked s then 1 else 0))"
proof -
  have drop: "s' = s" if "\<forall>x\<in>set (us_installs s). xi_node_id x \<noteq> n \<or> xi_version x \<noteq> NormalizeVersion (xs_version st)"
    using assms(2) that by (auto simp: HandleStatus_def UpdateXrayInstall_def Let_def)
  have "upgrades_ok (us_upgrades s)" using reachable_ok [OF assms(1)] by (simp add: service_ok_def)
  then have rest: "us_sent s' = us_sent s \<and> us_jobs s' = us_jobs s \<and> us_kernels s' = us_kernels s
    \<and> (\<exists>as. us_alerts s' = us_alerts s @ as \<and> length as = (if (\<exists>v c. view s' = Some (v, c, UpgradeBlocked))
          \<and> \<not> (\<exists>v c. view s = Some (v, c, UpgradeBlocked)) then 1 else 0))"
    using HandleStatus_alerts [of s b n st now] assms(2) unfolding quiet_def by blast
  then show ?thesis using drop by (simp add: Let_def)
qed

definition demo_status :: "phase \<Rightarrow> xray_status" where
  "demo_status p = \<lparr>xs_version = ''v26.7.11'', xs_phase = p, xs_message = ''m'', xs_running_version = ''1.0.0'',
     xs_installed_version = ''1.0.0''\<rparr>"

theorem report_announces_once_witness:
  "HandleStatus plain_box ''01'' (demo_status FAILED) 9 demo_fleet = demo_fleet"
  using report_announces_once [OF demo_fleet_reachable refl, where b = plain_box and n = "''01''" and st = "demo_status FAILED" and now = 9]
  by (simp add: demo_fleet_def demo_service_def)

text \<open>The relay is not a download proxy: data goes to a node only for the version it was told to install,
  and it is the part asked for of a cached archive that has the SHA-256 recorded with that
  instruction, a full one. Everything else is refused with a reason.\<close>

theorem relay_serves_instructed_archive:
  assumes "HandleRelayRequest b w err n v off s = (c, s')" "xc_error c = []"
  shows "\<exists>x archive. XrayInstallFor n (us_installs s) = Some x \<and> xi_version x = NormalizeVersion v
    \<and> length (xi_sha256 x) = 64 \<and> to_lower (o_sha256 w archive) = to_lower (xi_sha256 x)
    \<and> ReadChunk archive off relayChunkSize = Inr (xc_data c, xc_last c)"
  using assms(1)
proof (cases rule: HandleRelayRequest_cases)
  case refused
  then show ?thesis using assms(2) by simp
next
  case (served x p r k)
  then obtain path where path: "r = Inr path"
    "ReadChunk (the (map_of (k_archives k) path)) off relayChunkSize = Inr (xc_data c, xc_last c)"
    using assms(2) by blast
  then have "Verify (o_sha256 w) (map_of (k_archives k) path) (xi_sha256 x) = None"
    using EnsureArchive_frame(2) [OF served(3)] by blast
  then obtain archive where "map_of (k_archives k) path = Some archive" "length (xi_sha256 x) = 64"
    "to_lower (o_sha256 w archive) = to_lower (xi_sha256 x)"
    by (auto simp: Verify_ok)
  then show ?thesis using served(1,2) path(2) by auto
qed

definition demo_installing :: service where
  "demo_installing = snd (InstallOn plain_box demo_world 7 ''01'' ''v26.7.11'' True demo_fleet)"

theorem relay_serves_instructed_archive_witness:
  "\<exists>c s'. HandleRelayRequest plain_box demo_upstream (\<lambda>e. ''error'') ''01'' ''26.7.11'' 0 demo_installing = (c, s')
     \<and> xc_data c = ''ELF'' \<and> (\<exists>x archive. XrayInstallFor ''01'' (us_installs demo_installing) = Some x
          \<and> ReadChunk archive 0 relayChunkSize = Inr (''ELF'', xc_last c))"
proof -
  let ?r = "HandleRelayRequest plain_box demo_upstream (\<lambda>e. ''error'') ''01'' ''26.7.11'' 0 demo_installing"
  have c: "xc_error (fst ?r) = [] \<and> xc_data (fst ?r) = ''ELF''" by code_simp
  have r: "?r = (fst ?r, snd ?r)" by simp
  show ?thesis using relay_serves_instructed_archive [OF r c [THEN conjunct1]] c r by metis
qed

text \<open>No upgrade can wedge the fleet: from every reachable state with an upgrade in flight, whatever its
  state, abandoning it succeeds and a new upgrade on any existing node can start at once.\<close>

theorem abandon_unblocks:
  assumes "reachable run s" "view s \<noteq> None"
    and "canary \<in> n_id ` set (us_nodes s)" "canary \<noteq> []" "NormalizeVersion version \<noteq> []"
    and "uid \<notin> up_id ` set (us_upgrades s)"
  shows "\<exists>u u'. fst (Abandon now s) = Inr u \<and>
    fst (StartCanary uid version canary now' (snd (Abandon now s))) = Inr u' \<and> up_state u' = UpgradeCanary"
proof -
  let ?s = "snd (Abandon now s)"
  have ok: "service_ok run s" by (rule reachable_ok [OF assms(1)])
  note a = Abandon_step [OF ok surjective_pairing [of "Abandon now s"]]
  have oks: "upgrades_ok (us_upgrades ?s)" using a by (simp add: service_ok_def)
  have "ActiveUpgrade (us_upgrades ?s) = None" using a by (simp add: view_def)
  then have none: "filter InFlight (us_upgrades ?s) = []"
    by (simp add: ActiveUpgrade_def sql_row_None filter_empty_conv)
  have ids: "map up_id (us_upgrades ?s) = map up_id (us_upgrades s)"
    by (simp add: Abandon_def SetUpgradeState_def Let_def split: option.splits)
  have "uid \<notin> set (map up_id (us_upgrades ?s))" unfolding ids using assms(6) by simp
  then have "upgrades_ok (us_upgrades ?s @ [x])" if "up_id x = uid" for x
    using oks none that by (auto simp: upgrades_ok_def)
  moreover have "us_nodes ?s = us_nodes s" using a by simp
  ultimately show ?thesis
    using a assms(2-5) by (auto simp: StartCanary_def StartUpgrade_def Let_def)
qed

theorem abandon_unblocks_witness:
  "\<exists>u'. fst (StartCanary ''u2'' ''26.8.1'' ''01'' 11
       (snd (Abandon 10 (snd (StartCanary ''u1'' ''v26.7.11'' ''01'' 9 demo_fleet))))) = Inr u' \<and> up_state u' = UpgradeCanary"
proof -
  let ?s = "snd (StartCanary ''u1'' ''v26.7.11'' ''01'' 9 demo_fleet)"
  have r: "reachable Some ?s"
    by (rule reachable.step [OF demo_fleet_reachable upgrade_step.start [OF surjective_pairing]])
  have h: "view ?s \<noteq> None" "''01'' \<in> n_id ` set (us_nodes ?s)" "NormalizeVersion ''26.8.1'' \<noteq> []"
    "''u2'' \<notin> up_id ` set (us_upgrades ?s)"
    by code_simp+
  show ?thesis using abandon_unblocks [OF r h(1,2) _ h(3,4), of 10 11] by blast
qed

text \<open>Abandoning an upgrade does not stop its fan-out: the goroutine started by the promotion goes on
  telling nodes to install, although nothing is in flight any more.\<close>

lemma abandoned_fanout_continues:
  assumes "us_jobs s = FanOut u (n # ns) fs k # js" "reachable run s" "o_run (w_out w) = run"
    and "fst (InstallOn b w now (n_id n) (up_version u) True ((snd (Abandon now s))\<lparr>us_jobs := js\<rparr>)) = Inr x"
  shows "\<exists>s'. upgrade_step run Background (snd (Abandon now s)) s' \<and> view (snd (Abandon now s)) = None \<and> view s' = None
    \<and> us_sent s' = us_sent s @ [(n_id n, NormalizeVersion (up_version u), True)]"
proof -
  let ?s = "snd (Abandon now s)" and ?t = "(snd (Abandon now s))\<lparr>us_jobs := js\<rparr>"
  note a = Abandon_step [OF reachable_ok [OF assms(2)] surjective_pairing [of "Abandon now s"]]
  have sent: "us_sent ?s = us_sent s" by (simp add: Abandon_def split: option.splits prod.splits)
  obtain s1 where i: "InstallOn b w now (n_id n) (up_version u) True ?t = (Inr x, s1)"
    using assms(4) by (metis prod.collapse)
  have "us_jobs ?s = us_jobs s" using a by blast
  then have jobs: "us_jobs ?s = [] @ FanOut u (n # ns) fs k # js" unfolding assms(1) append_Nil .
  have "run_job b w now (FanOut u (n # ns) fs k) ((snd (Abandon now s))\<lparr>us_jobs := [] @ js\<rparr>) = (Some (FanOut u ns fs k), s1)"
    using i by (simp add: fanOut_node_def)
  note st = upgrade_step.job [OF jobs assms(3) this refl]
  from i have "us_sent s1 = us_sent s @ [(n_id n, NormalizeVersion (up_version u), True)] \<and> us_upgrades s1 = us_upgrades ?s"
    by (cases rule: InstallOn_cases) (auto simp: sent)
  then show ?thesis using st a view_frame [of s1 ?s] by (intro exI conjI) (auto simp: view_def)
qed

end
