(* ===== verification/Spec2Isabelle.thy ===== *)
theory Spec2Isabelle
  imports Admins Advisories Alerts Assemble Channel Contexts Credentials Egress Enforce ExitOutbound External Panel PortalView RateLimit Restricted TemplateStore Upgrade
begin

text \<open>
  Verification of chiral, a control panel for a fleet of Xray proxy nodes.

  \<^bold>\<open>The program.\<close> The panel (\<open>core/\<close>) keeps nodes, profiles (inbound templates), subscribers, lines between nodes,
  other people's proxies and egress rules in an SQLite database. From these it assembles the \<open>config.json\<close> of each
  node, tests it against the kernel of that node, stores it as a version and pushes it over a session to the agent
  (\<open>agent/\<close>), which runs Xray, reports traffic and switches the kernel on request. What a subscriber may use follows
  from groups, exceptions and denials; the panel mints one credential per subscriber, profile, node and exit and
  splices it into the inbound, routes each exit by the credential's stats key, and blocks the destinations a
  subscriber must not reach. A sweep renews, suspends and restores subscribers. An upgrade installs a kernel on one
  node first and on the others after a promotion.

  \<^bold>\<open>The theories.\<close> Every theory names its source file; a definition has the name of the Go function, a record or
  datatype the name of the struct or a short form of it. An operation takes the tables it reads and returns the
  tables it leaves, with \<open>Inl\<close> of an error value for every error return.

  \<^item> \<open>Prelude\<close>: byte strings, result type, SQL row access, Go maps as association lists with distinct keys, times, and
    the order of \<open>ORDER BY\<close>.
  \<^item> \<open>SecretBox\<close>: \<open>secret/secret.go\<close>, \<open>store/rotate.go\<close>. A sealed value opens only in its own column and row; rotation
    is all or nothing and keeps every secret.
  \<^item> \<open>Users\<close>: \<open>user/user.go\<close>. Entitlement of a user at an instant and the stats keys, which are injective and safe
    as tags.
  \<^item> \<open>NodeStore\<close>: \<open>store/store.go\<close>. Registration by a one-time token, config versions and their pruning.
  \<^item> \<open>Access\<close> and \<open>AccessSpec\<close>: \<open>store/group.go\<close>, \<open>store/user.go\<close>, the access half of \<open>store/relay.go\<close> and
    \<open>store/external.go\<close>. Every write to the access tables is a step of \<open>access_step\<close>; the invariant \<open>access_inv\<close> holds
    in every reachable state, the editors reach the requested end state, both ends of the relation agree, and leaving
    or deleting a group takes nothing away.
  \<^item> \<open>Versions\<close>, \<open>Kernel\<close>, \<open>Archive\<close>, \<open>AgentKernel\<close>, \<open>Upgrade\<close>: \<open>template/version.go\<close>, \<open>release/\<close>, \<open>kernel/\<close>,
    \<open>internal/xrayarchive/\<close>, \<open>agent/internal/xray/\<close>, \<open>upgrade/\<close>, \<open>store/xrayinstall.go\<close>, \<open>store/xrayupgrade.go\<close>. Version order,
    verified installs, relayed archives, the switch with rollback on a node, and the fleet upgrade as a labelled step
    relation with its goroutines as jobs, which refines the machine canary, waiting, promoting, finished.
  \<^item> \<open>Json\<close>, \<open>TemplateEngine\<close>, \<open>Assemble\<close>: \<open>encoding/json\<close> as far as it is used, \<open>template/engine.go\<close>,
    \<open>template/assemble.go\<close>, \<open>template/api.go\<close>. The assembled document: its parts, its clients, the routing it decides
    and the management API that is added to it.
  \<^item> \<open>Credentials\<close>: the credential half of \<open>store/user.go\<close> and the minting of \<open>user/user.go\<close>; traffic billing.
  \<^item> \<open>Destinations\<close>, \<open>Egress\<close>: the parsers of lists an operator types and the egress rules of \<open>store/egress.go\<close> with the
    handlers of \<open>api/egress.go\<close>; no rule that is created closes a loop.
  \<^item> \<open>External\<close>, \<open>ExitOutbound\<close>: \<open>store/external.go\<close> and \<open>external/outbound.go\<close>; refreshing a source, chains of proxies
    and their translation into Xray outbounds.
  \<^item> \<open>TemplateStore\<close>: \<open>store/template.go\<close>; the pool of variables, profiles, skeletons and client templates.
  \<^item> \<open>Restricted\<close>: \<open>store/restricted.go\<close>, \<open>profile/restricted.go\<close> and the queries of \<open>store/relay.go\<close>; who is barred from
    which destination on which node.
  \<^item> \<open>Contexts\<close>, \<open>Panel\<close>, \<open>Delivery\<close>, \<open>Enforce\<close>: \<open>profile/\<close>. The variables a template sees, what a node needs to dial
    another, \<open>AssembleNode\<close>, \<open>Preview\<close>, \<open>Apply\<close> and \<open>Rollback\<close>, and the sweep. \<open>Delivery\<close> composes the components: the
    routing of a node's assembled configuration is the one its tables ask for, and nothing is stored or pushed that
    the kernel refused.
  \<^item> \<open>Advisories\<close>: \<open>template/advisories.go\<close>.
  \<^item> \<open>Auth\<close>, \<open>Login\<close>, \<open>Admins\<close>: package \<open>auth\<close>, \<open>store/admin.go\<close>, \<open>store/mfa.go\<close> and the handlers of \<open>api/auth.go\<close>,
    \<open>api/mfa.go\<close>, \<open>api/mfa_enroll.go\<close>. Requests of administrators as steps of \<open>served\<close>, which keeps the history; every
    session of a run was earned with the password and a second factor where one was enrolled.
  \<^item> \<open>Alerts\<close>: \<open>alert/alert.go\<close> and \<open>store/alert.go\<close>; the sweep that announces a state of a node once it has settled.
  \<^item> \<open>Portal\<close>: \<open>store/portal.go\<close>, \<open>api/portal.go\<close> and \<open>api/portal_auth.go\<close>; the accounts, sessions and one-time links of
    subscribers, with runs that keep the history as for administrators.
  \<^item> \<open>PortalView\<close>: package \<open>portal\<close>, \<open>store/ruleset.go\<close> and \<open>api/portal_me.go\<close>; the page of a subscriber, which depends
    on their own rows only.
  \<^item> \<open>RateLimit\<close>: \<open>api/ratelimit.go\<close>; the budget of a client on a route and the bound on the map of buckets.
  \<^item> \<open>Online\<close>, \<open>History\<close>, \<open>Channel\<close>: \<open>online/online.go\<close>; \<open>store/history.go\<close> and \<open>store/device.go\<close>; \<open>node/manager.go\<close> and
    \<open>node/service.go\<close>. The sessions of the agents are a store with references and their handlers and senders a step
    relation; above it the frames an agent sends: what is recorded of a report, the push that heals a drifted
    version, registration and the opening of a stream.

  \<^bold>\<open>Interfaces.\<close> \<open>finite_map\<close> (Go maps), \<open>vault\<close> (sealing and opening), \<open>comparison\<close> and \<open>comparison_pair\<close> (orders on
  versions), \<open>relay\<close> (reading an archive in chunks), \<open>two_ended\<close> (a relation edited from both ends) and \<open>line_parser\<close>
  (list fields) and \<open>frame\<close> (what the handlers of administrators leave alone) are locales; each is interpreted on the definitions of the component that provides it.

  \<^bold>\<open>Parameters.\<close> AES-GCM and SHA-256, the YAML reader, the printer of floating-point numbers, the random values of a
  credential, the answer of an HTTP server, the kernel binary (its version, its verdict on a configuration, whether
  it starts), and whether a session takes a frame. Hypotheses on them are those their documentation gives and each
  is met by a concrete function in a witness.

  \<^bold>\<open>Loops and fuel.\<close> The JSON reader takes the length of the text as fuel, since every step reads a byte; the walk over
  egress rules takes the number of rules plus two, since a walk without a loop visits a rule once; the walk over
  chained proxies takes the number of chained proxies, for the same reason; the relay of an archive takes one round
  for each chunk. The loop that catches up missed renewal periods is a \<open>partial_function\<close> and proved to end when the
  period is positive, which its guard ensures.

  \<^bold>\<open>Granularity.\<close> A method that holds a mutex or a transaction is one step. Goroutines of the upgrade are jobs whose
  steps interleave with everything else. Times are seconds since 1970 given as an argument. Integers of the database
  are unbounded where the code cannot reach the bounds, and the place where it can (the sum of a traffic delta)
  wraps at 64 bits.

  \<^bold>\<open>Not modelled.\<close> HTTP plumbing (routing, JSON views, cookies, the audit log) in \<open>core/internal/api/\<close> apart from the
  handlers named above, gRPC and process plumbing (\<open>cmd/\<close>, deadlines and peer addresses of streams, the session loop of the agent's
  client), generated code (\<open>proto/\<close>), database migrations, and the web console have no logic of their own beyond
  the calls they make. The subscription renderer and the parser of foreign subscriptions are about the text of
  formats of other programs; passkeys, mail and rule-set downloads call third-party libraries or services.
\<close>

end
